(* ===== verification/Prelude.thy ===== *)
theory Prelude
  imports Main "HOL-Library.Char_ord" "HOL-Library.List_Lexorder"
begin

text \<open>
  The prelude of the development: fallible computations as values of a sum type, the operations
  of the Rust standard library the sources use on strings, integers and vectors, and the generic
  lemmas on lists that the components share.

  A Rust \<open>&str\<close> is a \<^typ>\<open>string\<close>, the list of its UTF-8 bytes. White space is the ASCII
  white space of \<open>char::is_whitespace\<close>; the multi-byte white-space code points are not told apart
  from other text.
\<close>

named_theorems view_simps \<open>projections and decoders of rows and views\<close>
named_theorems fold_simps \<open>one-step equations of the materializer\<close>
named_theorems vis_simps \<open>equations of the visibility predicate\<close>

section \<open>Fallible computations\<close>

text \<open>\<open>Result<T, E>\<close> is \<open>'e + 'a\<close>; \<open>andthen\<close> is the \<open>?\<close> operator.\<close>

type_synonym ('e, 'a) result = "'e + 'a"

definition andthen :: "('e, 'a) result \<Rightarrow> ('a \<Rightarrow> ('e, 'b) result) \<Rightarrow> ('e, 'b) result" where
  "andthen m f = (case m of Inl e \<Rightarrow> Inl e | Inr a \<Rightarrow> f a)"

lemma andthen_simps [simp]:
  "andthen (Inl e) f = Inl e"
  "andthen (Inr a) f = f a"
  by (simp_all add: andthen_def)

lemma andthen_Inr_iff: "andthen m f = Inr b \<longleftrightarrow> (\<exists>a. m = Inr a \<and> f a = Inr b)"
  by (cases m) auto

lemma andthen_assoc: "andthen (andthen m f) g = andthen m (\<lambda>a. andthen (f a) g)"
  by (cases m) auto

lemma andthen_cong [fundef_cong]:
  "m = m' \<Longrightarrow> (\<And>a. m' = Inr a \<Longrightarrow> f a = f' a) \<Longrightarrow> andthen m f = andthen m' f'"
  by (cases m') auto

definition is_ok :: "('e, 'a) result \<Rightarrow> bool" where
  "is_ok m \<longleftrightarrow> (case m of Inl e \<Rightarrow> False | Inr a \<Rightarrow> True)"

lemma is_ok_iff: "is_ok m \<longleftrightarrow> (\<exists>a. m = Inr a)"
  by (auto simp: is_ok_def split: sum.splits)

text \<open>A \<open>for\<close> loop over a fallible body that threads a state.\<close>

fun foldM :: "('a \<Rightarrow> 's \<Rightarrow> ('e, 's) result) \<Rightarrow> 'a list \<Rightarrow> 's \<Rightarrow> ('e, 's) result" where
  "foldM f [] s = Inr s"
| "foldM f (x # xs) s = andthen (f x s) (foldM f xs)"

lemma foldM_append: "foldM f (xs @ ys) s = andthen (foldM f xs s) (foldM f ys)"
proof (induction xs arbitrary: s)
  case (Cons x xs)
  then show ?case by (cases "f x s") simp_all
qed simp

lemma foldM_invariant:
  assumes "foldM f xs s = Inr s'" and "P s"
    and "\<And>x s s'. x \<in> set xs \<Longrightarrow> P s \<Longrightarrow> f x s = Inr s' \<Longrightarrow> P s'"
  shows "P s'"
  using assms
proof (induction xs arbitrary: s)
  case Nil
  then show ?case by simp
next
  case (Cons x xs)
  from Cons.prems(1) obtain t where t: "f x s = Inr t" "foldM f xs t = Inr s'"
    by (auto simp: andthen_Inr_iff)
  from t(1) Cons.prems have "P t" by auto
  show ?case
    by (rule Cons.IH [OF t(2) \<open>P t\<close>]) (use Cons.prems(3) in auto)
qed

text \<open>Collecting an iterator of results: the first error wins.\<close>

fun mapM :: "('a \<Rightarrow> ('e, 'b) result) \<Rightarrow> 'a list \<Rightarrow> ('e, 'b list) result" where
  "mapM f [] = Inr []"
| "mapM f (x # xs) = andthen (f x) (\<lambda>y. andthen (mapM f xs) (\<lambda>ys. Inr (y # ys)))"

lemma mapM_total: "(\<And>x. x \<in> set xs \<Longrightarrow> f x = Inr (g x)) \<Longrightarrow> mapM f xs = Inr (map g xs)"
  by (induction xs) auto

section \<open>Strings\<close>

definition strip_prefix :: "string \<Rightarrow> string \<Rightarrow> string option" where
  "strip_prefix p s = (if take (length p) s = p then Some (drop (length p) s) else None)"

definition strip_suffix :: "string \<Rightarrow> string \<Rightarrow> string option" where
  "strip_suffix x s = map_option rev (strip_prefix (rev x) (rev s))"

definition starts_with :: "string \<Rightarrow> string \<Rightarrow> bool" where
  "starts_with p s \<longleftrightarrow> strip_prefix p s \<noteq> None"

definition split_once :: "char \<Rightarrow> string \<Rightarrow> (string \<times> string) option" where
  "split_once c s =
     (if c \<in> set s then Some (takeWhile (\<lambda>x. x \<noteq> c) s, tl (dropWhile (\<lambda>x. x \<noteq> c) s)) else None)"

definition rsplit_once :: "char \<Rightarrow> string \<Rightarrow> (string \<times> string) option" where
  "rsplit_once c s = map_option (\<lambda>(a, b). (rev b, rev a)) (split_once c (rev s))"

fun split_char :: "char \<Rightarrow> string \<Rightarrow> string list" where
  "split_char c [] = [[]]"
| "split_char c (x # xs) =
     (if x = c then [] # split_char c xs
      else case split_char c xs of [] \<Rightarrow> [[x]] | p # ps \<Rightarrow> (x # p) # ps)"

definition is_ws :: "char \<Rightarrow> bool" where
  "is_ws c \<longleftrightarrow> c = CHR '' '' \<or> (CHR 0x09 \<le> c \<and> c \<le> CHR 0x0D)"

definition trim_start :: "string \<Rightarrow> string" where
  "trim_start s = dropWhile is_ws s"

definition trim :: "string \<Rightarrow> string" where
  "trim s = rev (trim_start (rev (trim_start s)))"

fun words_acc :: "string \<Rightarrow> string \<Rightarrow> string list" where
  "words_acc acc [] = (if acc = [] then [] else [rev acc])"
| "words_acc acc (c # cs) =
     (if is_ws c then (if acc = [] then words_acc [] cs else rev acc # words_acc [] cs)
      else words_acc (c # acc) cs)"

definition split_whitespace :: "string \<Rightarrow> string list" where
  "split_whitespace s = words_acc [] s"

definition ascii_lower :: "char \<Rightarrow> char" where
  "ascii_lower c = (if CHR ''A'' \<le> c \<and> c \<le> CHR ''Z'' then char_of (of_char c + 32 :: nat) else c)"

definition ascii_upper :: "char \<Rightarrow> char" where
  "ascii_upper c = (if CHR ''a'' \<le> c \<and> c \<le> CHR ''z'' then char_of (of_char c - 32 :: nat) else c)"

definition to_ascii_lowercase :: "string \<Rightarrow> string" where
  "to_ascii_lowercase s = map ascii_lower s"

definition to_ascii_uppercase :: "string \<Rightarrow> string" where
  "to_ascii_uppercase s = map ascii_upper s"

definition eq_ignore_ascii_case :: "string \<Rightarrow> string \<Rightarrow> bool" where
  "eq_ignore_ascii_case a b \<longleftrightarrow> to_ascii_lowercase a = to_ascii_lowercase b"

definition is_digit :: "char \<Rightarrow> bool" where
  "is_digit c \<longleftrightarrow> CHR ''0'' \<le> c \<and> c \<le> CHR ''9''"

lemma strip_prefix_append [simp]: "strip_prefix p (p @ s) = Some s"
  by (simp add: strip_prefix_def)

lemma strip_prefix_Some_iff: "strip_prefix p s = Some r \<longleftrightarrow> s = p @ r"
proof
  assume "strip_prefix p s = Some r"
  then have "take (length p) s = p" and "r = drop (length p) s"
    by (auto simp: strip_prefix_def split: if_splits)
  then show "s = p @ r" by (metis append_take_drop_id)
qed simp

lemma strip_suffix_append [simp]: "strip_suffix x (s @ x) = Some s"
  by (simp add: strip_suffix_def)

lemma strip_suffix_Some_iff: "strip_suffix x s = Some r \<longleftrightarrow> s = r @ x"
proof
  assume "strip_suffix x s = Some r"
  then obtain t where "strip_prefix (rev x) (rev s) = Some t" and "r = rev t"
    by (auto simp: strip_suffix_def)
  then have "rev s = rev x @ rev r" by (simp add: strip_prefix_Some_iff)
  then show "s = r @ x" by (metis rev_append rev_rev_ident)
qed simp

lemma takeWhile_fresh: "c \<notin> set a \<Longrightarrow> takeWhile (\<lambda>x. x \<noteq> c) (a @ c # b) = a"
  by (induction a) auto

lemma dropWhile_fresh: "c \<notin> set a \<Longrightarrow> dropWhile (\<lambda>x. x \<noteq> c) (a @ c # b) = c # b"
  by (induction a) auto

lemma split_once_fresh: "c \<notin> set a \<Longrightarrow> split_once c (a @ c # b) = Some (a, b)"
  by (simp add: split_once_def takeWhile_fresh dropWhile_fresh)

lemma rsplit_once_fresh: "c \<notin> set b \<Longrightarrow> rsplit_once c (a @ c # b) = Some (a, b)"
  by (simp add: rsplit_once_def split_once_fresh)

lemma split_once_Some: "split_once c s = Some (a, b) \<Longrightarrow> s = a @ c # b \<and> c \<notin> set a"
proof -
  assume h: "split_once c s = Some (a, b)"
  then obtain xs ys where s: "s = xs @ c # ys" and c: "c \<notin> set xs"
    by (auto simp: split_once_def split: if_splits dest: split_list_first)
  with h show ?thesis by (simp add: split_once_fresh)
qed

lemma rsplit_once_Some: "rsplit_once c s = Some (a, b) \<Longrightarrow> s = a @ c # b \<and> c \<notin> set b"
proof -
  assume "rsplit_once c s = Some (a, b)"
  then have "split_once c (rev s) = Some (rev b, rev a)"
    by (auto simp: rsplit_once_def)
  from split_once_Some [OF this] have r: "rev s = rev b @ c # rev a" and "c \<notin> set b" by auto
  have "s = rev (rev b @ c # rev a)" by (simp only: r [symmetric] rev_rev_ident)
  with \<open>c \<notin> set b\<close> show ?thesis by simp
qed

lemma trim_id: "s = [] \<or> (\<not> is_ws (hd s) \<and> \<not> is_ws (last s)) \<Longrightarrow> trim s = s"
proof (cases s)
  case Nil
  then show ?thesis by (simp add: trim_def trim_start_def)
next
  case (Cons c cs)
  assume "s = [] \<or> (\<not> is_ws (hd s) \<and> \<not> is_ws (last s))"
  with Cons have h: "\<not> is_ws (hd s)" "\<not> is_ws (last s)" and ne: "s \<noteq> []" by auto
  have a: "trim_start s = s" using h(1) Cons by (simp add: trim_start_def)
  have "trim_start (rev s) = rev s"
    using h(2) ne by (cases s rule: rev_cases) (auto simp: trim_start_def)
  with a show ?thesis by (simp add: trim_def)
qed

section \<open>Machine integers\<close>

text \<open>
  \<open>i64\<close> values are \<^typ>\<open>int\<close> with the range written out: \<open>checked_i64\<close> is what
  \<open>checked_add\<close>, \<open>checked_sub\<close> and \<open>checked_mul\<close> do with the exact result. Integer division truncates
  towards zero.
\<close>

definition in_i64 :: "int \<Rightarrow> bool" where
  "in_i64 x \<longleftrightarrow> - (2 ^ 63) \<le> x \<and> x < 2 ^ 63"

definition checked_i64 :: "int \<Rightarrow> int option" where
  "checked_i64 x = (if in_i64 x then Some x else None)"

text \<open>\<open>saturating_add\<close> and \<open>saturating_sub\<close>; \<open>as i64\<close> on a wider integer.\<close>

definition saturate64 :: "int \<Rightarrow> int" where
  "saturate64 n = max (- (2 ^ 63)) (min n (2 ^ 63 - 1))"

definition wrap64 :: "int \<Rightarrow> int" where
  "wrap64 n = (n + 2 ^ 63) mod 2 ^ 64 - 2 ^ 63"

definition quot64 :: "int \<Rightarrow> int \<Rightarrow> int" where
  "quot64 a b = sgn a * sgn b * (\<bar>a\<bar> div \<bar>b\<bar>)"

lemma checked_i64_Some_iff: "checked_i64 x = Some y \<longleftrightarrow> in_i64 x \<and> y = x"
  by (auto simp: checked_i64_def)

lemma quot64_nonneg [simp]: "0 \<le> a \<Longrightarrow> 0 < b \<Longrightarrow> quot64 a b = a div b"
  by (cases "a = 0") (auto simp: quot64_def)

lemma quot64_half_bounds:
  assumes "lo \<le> hi"
  shows "lo \<le> quot64 (lo + hi) 2 \<and> quot64 (lo + hi) 2 \<le> hi"
proof (cases "0 \<le> lo + hi")
  case True
  then show ?thesis using assms by auto
next
  case False
  then have "quot64 (lo + hi) 2 = - ((- (lo + hi)) div 2)" by (simp add: quot64_def)
  then show ?thesis using assms by linarith
qed

text \<open>\<open>str::parse::<i64>\<close>: an optional sign, at least one decimal digit, and the range.\<close>

definition digit_val :: "char \<Rightarrow> int" where
  "digit_val c = int (of_char c) - 48"

definition parse_digits :: "string \<Rightarrow> int option" where
  "parse_digits s =
     (if s \<noteq> [] \<and> list_all is_digit s then Some (foldl (\<lambda>n c. 10 * n + digit_val c) 0 s) else None)"

definition parse_i64 :: "string \<Rightarrow> int option" where
  "parse_i64 s =
     (case s of
        [] \<Rightarrow> None
      | c # cs \<Rightarrow>
          (if c = CHR ''-'' then Option.bind (parse_digits cs) (\<lambda>n. checked_i64 (- n))
           else if c = CHR ''+'' then Option.bind (parse_digits cs) checked_i64
           else Option.bind (parse_digits s) checked_i64))"

lemma parse_i64_range: "parse_i64 s = Some n \<Longrightarrow> in_i64 n"
  by (auto simp: parse_i64_def checked_i64_def bind_eq_Some_conv split: list.splits if_splits)

text \<open>Decimal rendering of an integer, as \<open>Display\<close> does.\<close>

fun show_nat :: "nat \<Rightarrow> string" where
  "show_nat n =
     (if n < 10 then [char_of (48 + n)] else show_nat (n div 10) @ [char_of (48 + n mod 10)])"

declare show_nat.simps [simp del]

definition show_int :: "int \<Rightarrow> string" where
  "show_int i = (if i < 0 then CHR ''-'' # show_nat (nat (- i)) else show_nat (nat i))"

section \<open>Lists\<close>

lemma sort_key_filter_mem [simp]: "x \<in> set (sort_key f (filter P xs)) \<longleftrightarrow> x \<in> set xs \<and> P x"
  by auto

text \<open>Keep the first element of each key, in order: a \<open>BTreeSet\<close> of seen keys guarding a push.\<close>

fun dedup_by :: "('a \<Rightarrow> 'k) \<Rightarrow> 'k list \<Rightarrow> 'a list \<Rightarrow> 'a list" where
  "dedup_by k seen [] = []"
| "dedup_by k seen (x # xs) =
     (if k x \<in> set seen then dedup_by k seen xs else x # dedup_by k (k x # seen) xs)"

lemma dedup_by_subset: "set (dedup_by k seen xs) \<subseteq> set xs"
  by (induction xs arbitrary: seen) (auto dest: subsetD)

lemma dedup_by_keys:
  "k ` set (dedup_by k seen xs) = k ` set xs - set seen \<and> distinct (map k (dedup_by k seen xs))"
proof (induction xs arbitrary: seen)
  case (Cons x xs)
  show ?case
  proof (cases "k x \<in> set seen")
    case True
    then show ?thesis using Cons.IH [of seen] by auto
  next
    case False
    have "k x \<notin> k ` set (dedup_by k (k x # seen) xs)"
      using Cons.IH [of "k x # seen"] by auto
    then show ?thesis using False Cons.IH [of "k x # seen"] by auto
  qed
qed simp

text \<open>A run that is not stuck, with what it shows of its last state.\<close>

lemma case_SomeE: "(case x of Some w \<Rightarrow> P w | None \<Rightarrow> False) \<Longrightarrow> \<exists>w. x = Some w \<and> P w"
  by (cases x) auto

end
