(* ===== verification/Ids.thy ===== *)
theory Ids
  imports Prelude
begin

text \<open>
  Identifiers and handles, \<open>crates/core/src/ids.rs\<close>: the ULID newtypes, the position in the
  log's total order, the typed handle of a memory, the platform identity of a participant, and the
  content address of a blob.

  A ULID is its 128-bit value, read as a \<^typ>\<open>nat\<close>; no operation of the sources computes with it.
  The \<open>ulid\<close> crate renders it as 26 characters of an ascending alphabet, so the order of the rendered
  strings (which the tables compare) is the order of the values.
\<close>

section \<open>ULID newtypes\<close>

datatype memory_id = MemoryId (memory_ulid: nat)
datatype conversation_id = ConversationId (conversation_ulid: nat)
datatype session_id = SessionId (session_ulid: nat)
datatype turn_id = TurnId (turn_ulid: nat)
datatype entry_id = EntryId (entry_ulid: nat)

instantiation memory_id :: linorder
begin

definition less_eq_memory_id :: "memory_id \<Rightarrow> memory_id \<Rightarrow> bool" where
  "less_eq_memory_id a b \<longleftrightarrow> memory_ulid a \<le> memory_ulid b"

definition less_memory_id :: "memory_id \<Rightarrow> memory_id \<Rightarrow> bool" where
  "less_memory_id a b \<longleftrightarrow> memory_ulid a < memory_ulid b"

instance
  by standard (auto simp: less_eq_memory_id_def less_memory_id_def memory_id.expand)

end

instantiation entry_id :: linorder
begin

definition less_eq_entry_id :: "entry_id \<Rightarrow> entry_id \<Rightarrow> bool" where
  "less_eq_entry_id a b \<longleftrightarrow> entry_ulid a \<le> entry_ulid b"

definition less_entry_id :: "entry_id \<Rightarrow> entry_id \<Rightarrow> bool" where
  "less_entry_id a b \<longleftrightarrow> entry_ulid a < entry_ulid b"

instance
  by standard (auto simp: less_eq_entry_id_def less_entry_id_def entry_id.expand)

end

lemmas memory_id_ord [simp] = less_eq_memory_id_def less_memory_id_def
lemmas entry_id_ord [simp] = less_eq_entry_id_def less_entry_id_def

section \<open>Positions in the log\<close>

text \<open>\<open>Seq(u64)\<close>; a log never reaches \<open>2 ^ 64\<close> events, so the counter is a \<^typ>\<open>nat\<close>.\<close>

type_synonym seq = nat

definition seq_zero :: seq where
  "seq_zero = 0"

definition seq_next :: "seq \<Rightarrow> seq" where
  "seq_next s = s + 1"

section \<open>Locators and platform identities\<close>

record conversation_locator =
  platform :: string
  scope_path :: string

record person_id =
  person_platform :: string
  person_user :: string

definition DIRECT_PLATFORM :: string where
  "DIRECT_PLATFORM = ''direct''"

section \<open>Namespaces and memory names\<close>

datatype namespace =
    Namespace_Person
  | Namespace_Org
  | Namespace_Place
  | Namespace_Event
  | Namespace_Topic
  | Namespace_Context

definition namespace_all :: "namespace list" where
  "namespace_all =
     [Namespace_Person, Namespace_Org, Namespace_Place, Namespace_Event, Namespace_Topic,
      Namespace_Context]"

fun namespace_prefix :: "namespace \<Rightarrow> string" where
  "namespace_prefix Namespace_Person = ''person/''"
| "namespace_prefix Namespace_Org = ''org/''"
| "namespace_prefix Namespace_Place = ''place/''"
| "namespace_prefix Namespace_Event = ''event/''"
| "namespace_prefix Namespace_Topic = ''topic/''"
| "namespace_prefix Namespace_Context = ''context/''"

record namespaced_memory_name =
  namespace_of :: namespace
  subject :: string

datatype memory_name = MemoryName (name_str: string)

definition SELF :: string where
  "SELF = ''self''"

definition self_handle :: memory_name where
  "self_handle = MemoryName SELF"

definition is_self :: "memory_name \<Rightarrow> bool" where
  "is_self n \<longleftrightarrow> name_str n = SELF"

definition name_is_platform_qualified :: "memory_name \<Rightarrow> bool" where
  "name_is_platform_qualified n \<longleftrightarrow> CHR ''@'' \<in> set (name_str n)"

definition with_name :: "namespace \<Rightarrow> string \<Rightarrow> namespaced_memory_name" where
  "with_name ns s = \<lparr>namespace_of = ns, subject = s\<rparr>"

definition operator_name :: namespaced_memory_name where
  "operator_name = with_name Namespace_Person ''operator''"

definition is_platform_qualified :: "namespaced_memory_name \<Rightarrow> bool" where
  "is_platform_qualified n \<longleftrightarrow> namespace_of n = Namespace_Person \<and> CHR ''@'' \<in> set (subject n)"

text \<open>\<open>From<NamespacedMemoryName> for MemoryName\<close>, which is also its \<open>Display\<close>.\<close>

definition memory_name_of :: "namespaced_memory_name \<Rightarrow> memory_name" where
  "memory_name_of n = MemoryName (namespace_prefix (namespace_of n) @ subject n)"

text \<open>\<open>FromStr for NamespacedMemoryName\<close>: the first namespace whose prefix the handle carries;
  \<open>None\<close> is \<open>UnknownNamespace\<close>.\<close>

fun parse_namespaces :: "namespace list \<Rightarrow> string \<Rightarrow> namespaced_memory_name option" where
  "parse_namespaces [] handle = None"
| "parse_namespaces (ns # rest) handle =
     (case strip_prefix (namespace_prefix ns) handle of
        Some s \<Rightarrow> Some (with_name ns s)
      | None \<Rightarrow> parse_namespaces rest handle)"

definition parse_namespaced :: "string \<Rightarrow> namespaced_memory_name option" where
  "parse_namespaced handle = parse_namespaces namespace_all handle"

definition namespaced :: "memory_name \<Rightarrow> namespaced_memory_name option" where
  "namespaced n = parse_namespaced (name_str n)"

section \<open>Platform participants\<close>

definition show_person_id :: "person_id \<Rightarrow> string" where
  "show_person_id p = person_user p @ ''@'' @ person_platform p"

definition memory_name_of_person :: "person_id \<Rightarrow> memory_name" where
  "memory_name_of_person p = memory_name_of (with_name Namespace_Person (show_person_id p))"

definition parse_person_id :: "string \<Rightarrow> person_id option" where
  "parse_person_id s =
     (case rsplit_once (CHR ''@'') s of
        Some (user, plat) \<Rightarrow>
          (if user \<noteq> [] \<and> plat \<noteq> [] then Some \<lparr>person_platform = plat, person_user = user\<rparr>
           else None)
      | None \<Rightarrow> None)"

section \<open>Content addresses\<close>

datatype blob_hash = BlobHash (blob_hash_str: string)

definition HEX_LEN :: nat where
  "HEX_LEN = 64"

definition is_lower_hex :: "char \<Rightarrow> bool" where
  "is_lower_hex c \<longleftrightarrow> is_digit c \<or> (CHR ''a'' \<le> c \<and> c \<le> CHR ''f'')"

text \<open>\<open>FromStr for BlobHash\<close>; \<open>None\<close> is \<open>InvalidBlobHash\<close>.\<close>

definition parse_blob_hash :: "string \<Rightarrow> blob_hash option" where
  "parse_blob_hash h =
     (if length h = HEX_LEN \<and> list_all is_lower_hex h then Some (BlobHash h) else None)"

definition hex_digit :: "nat \<Rightarrow> char" where
  "hex_digit n = (if n < 10 then char_of (48 + n) else char_of (87 + n))"

definition hex_byte :: "nat \<Rightarrow> string" where
  "hex_byte b = [hex_digit (b div 16), hex_digit (b mod 16)]"

text \<open>\<open>BlobHash::of\<close>, over the digest function of the \<open>sha2\<close> crate.\<close>

definition blob_hash_of :: "('b \<Rightarrow> nat list) \<Rightarrow> 'b \<Rightarrow> blob_hash" where
  "blob_hash_of sha256 bytes = BlobHash (concat (map hex_byte (sha256 bytes)))"

section \<open>Lemmas\<close>

lemma namespaces_prefix_free:
  "strip_prefix (namespace_prefix a) (namespace_prefix b @ s) = Some r \<Longrightarrow> a = b"
  by (cases a; cases b) (simp_all add: strip_prefix_def split: if_splits)

lemma parse_namespaces_hit:
  "ns \<in> set nss \<Longrightarrow> parse_namespaces nss (namespace_prefix ns @ s) = Some (with_name ns s)"
proof (induction nss)
  case (Cons a nss)
  then show ?case
    by (cases "a = ns") (auto split: option.splits dest: namespaces_prefix_free)
qed simp

lemma namespace_all_complete: "ns \<in> set namespace_all"
  by (cases ns) (simp_all add: namespace_all_def)

lemma namespaced_memory_name_of [simp]: "namespaced (memory_name_of n) = Some n"
  by (cases n)
    (simp add: namespaced_def memory_name_of_def parse_namespaced_def parse_namespaces_hit
      namespace_all_complete with_name_def)

lemma parse_namespaces_sound:
  "parse_namespaces nss h = Some n \<Longrightarrow> h = namespace_prefix (namespace_of n) @ subject n"
  by (induction nss) (auto simp: with_name_def strip_prefix_Some_iff split: option.splits)

lemma namespaced_Some_iff: "namespaced h = Some n \<longleftrightarrow> h = memory_name_of n"
proof
  assume "namespaced h = Some n"
  then have "name_str h = namespace_prefix (namespace_of n) @ subject n"
    by (simp add: namespaced_def parse_namespaced_def parse_namespaces_sound)
  then show "h = memory_name_of n" by (simp add: memory_name_of_def memory_name.expand)
qed simp

lemma namespaced_self [simp]: "namespaced self_handle = None"
  by (simp add: namespaced_def self_handle_def SELF_def parse_namespaced_def namespace_all_def
      strip_prefix_def)

lemma parse_person_id_show:
  "CHR ''@'' \<notin> set (person_platform p) \<Longrightarrow> person_platform p \<noteq> [] \<Longrightarrow> person_user p \<noteq> [] \<Longrightarrow>
   parse_person_id (show_person_id p) = Some p"
  by (simp add: parse_person_id_def show_person_id_def rsplit_once_fresh)

lemma parse_person_id_Some:
  "parse_person_id s = Some p \<Longrightarrow>
   show_person_id p = s \<and> person_user p \<noteq> [] \<and> person_platform p \<noteq> []
     \<and> CHR ''@'' \<notin> set (person_platform p)"
  by (auto simp: parse_person_id_def show_person_id_def dest!: rsplit_once_Some
      split: option.splits if_splits)

lemma person_name_qualified: "is_platform_qualified (with_name Namespace_Person (show_person_id p))"
  by (simp add: is_platform_qualified_def with_name_def show_person_id_def)

lemma hex_digit_lower: "n < 16 \<Longrightarrow> is_lower_hex (hex_digit n)"
proof -
  assume "n < 16"
  then have "n \<in> set [0..<16]" by simp
  moreover have "\<forall>n \<in> set [0..<16]. is_lower_hex (hex_digit n)"
    by (simp add: upt_rec is_lower_hex_def hex_digit_def is_digit_def less_eq_char_def)
  ultimately show ?thesis by blast
qed

lemma hex_byte_lower: "b < 256 \<Longrightarrow> list_all is_lower_hex (hex_byte b)"
  by (simp add: hex_byte_def hex_digit_lower)

lemma hex_bytes_lower:
  "list_all (\<lambda>b. b < 256) bs \<Longrightarrow> list_all is_lower_hex (concat (map hex_byte bs))"
  by (induction bs) (auto simp: hex_byte_lower)

lemma hex_bytes_length: "length (concat (map hex_byte bs)) = 2 * length bs"
  by (induction bs) (auto simp: hex_byte_def)

lemma parse_blob_hash_of:
  "length (sha256 x) = 32 \<Longrightarrow> list_all (\<lambda>b. b < 256) (sha256 x) \<Longrightarrow>
   parse_blob_hash (blob_hash_str (blob_hash_of sha256 x)) = Some (blob_hash_of sha256 x)"
  by (simp add: parse_blob_hash_def blob_hash_of_def HEX_LEN_def hex_bytes_length hex_bytes_lower)

end
