(* ===== verification/Temporal.thy ===== *)
theory Temporal
  imports Ids
begin

text \<open>
  Time, \<open>crates/core/src/time/mod.rs\<close> and \<open>crates/core/src/time/temporal.rs\<close>: instants,
  civil-date helpers, the typed occurrence reference of an entry and its denormalized bounds, and
  the staleness rule of \<open>crates/core/src/decay.rs\<close>.

  An instant is its epoch-millisecond value: every \<open>Timestamp\<close> of the program is built from one.
  The \<open>jiff\<close> crate is a parameter, the record \<open>jiff\<close>: what of its range check, parsers, formatter and
  calendar arithmetic the sources call. \<open>Timestamp::from_millis\<close> panics out of range; the panic is
  the value \<open>Panic_OutOfRange\<close>.
\<close>

type_synonym timestamp = int

record jiff =
  ts_in_range :: "int \<Rightarrow> bool"  \<comment> \<open>\<open>Timestamp::from_millisecond\<close> succeeds\<close>
  parse_civil_date :: "string \<Rightarrow> (int \<times> int \<times> int) option"
  civil_midnight_utc :: "int \<times> int \<times> int \<Rightarrow> int option"
  parse_iso_timestamp :: "string \<Rightarrow> int option"
  strftime_utc :: "int \<Rightarrow> string \<Rightarrow> string"
  span_months_ok :: "int \<Rightarrow> bool"
  span_years_ok :: "int \<Rightarrow> bool"
  zoned_add_utc :: "int \<Rightarrow> int \<Rightarrow> int \<Rightarrow> int option"  \<comment> \<open>instant, months, years\<close>

datatype panic = Panic_OutOfRange int | Panic_DivisionByZero

section \<open>Instants\<close>

definition try_from_millis :: "jiff \<Rightarrow> int \<Rightarrow> timestamp option" where
  "try_from_millis J m = (if ts_in_range J m then Some m else None)"

definition from_millis :: "jiff \<Rightarrow> int \<Rightarrow> (panic, timestamp) result" where
  "from_millis J m =
     (case try_from_millis J m of Some t \<Rightarrow> Inr t | None \<Rightarrow> Inl (Panic_OutOfRange m))"

definition MILLIS_PER_SECOND :: int where "MILLIS_PER_SECOND = 1000"
definition SECONDS_PER_MINUTE :: int where "SECONDS_PER_MINUTE = 60"
definition MINUTES_PER_HOUR :: int where "MINUTES_PER_HOUR = 60"
definition HOURS_PER_DAY :: int where "HOURS_PER_DAY = 24"
definition DAYS_PER_WEEK :: int where "DAYS_PER_WEEK = 7"
definition MILLIS_PER_MINUTE :: int where "MILLIS_PER_MINUTE = MILLIS_PER_SECOND * SECONDS_PER_MINUTE"
definition MILLIS_PER_HOUR :: int where "MILLIS_PER_HOUR = MILLIS_PER_MINUTE * MINUTES_PER_HOUR"
definition MILLIS_PER_DAY :: int where "MILLIS_PER_DAY = MILLIS_PER_HOUR * HOURS_PER_DAY"
definition MILLIS_PER_WEEK :: int where "MILLIS_PER_WEEK = MILLIS_PER_DAY * DAYS_PER_WEEK"

lemmas millis_defs = MILLIS_PER_SECOND_def SECONDS_PER_MINUTE_def MINUTES_PER_HOUR_def
  HOURS_PER_DAY_def DAYS_PER_WEEK_def MILLIS_PER_MINUTE_def MILLIS_PER_HOUR_def
  MILLIS_PER_DAY_def MILLIS_PER_WEEK_def

lemma millis_values:
  "MILLIS_PER_MINUTE = 60000" "MILLIS_PER_HOUR = 3600000" "MILLIS_PER_DAY = 86400000"
  "MILLIS_PER_WEEK = 604800000"
  by (simp_all add: millis_defs)

section \<open>Civil dates\<close>

definition civil_date_to_millis :: "jiff \<Rightarrow> string \<Rightarrow> int option" where
  "civil_date_to_millis J d = Option.bind (parse_civil_date J d) (civil_midnight_utc J)"

definition day_window :: "jiff \<Rightarrow> string \<Rightarrow> (int \<times> int) option" where
  "day_window J d =
     map_option (\<lambda>midnight. (midnight, midnight + MILLIS_PER_DAY - 1)) (civil_date_to_millis J d)"

definition duration_unit :: "string \<Rightarrow> int option" where
  "duration_unit u =
     (if u = ''day'' \<or> u = ''days'' then Some MILLIS_PER_DAY
      else if u = ''week'' \<or> u = ''weeks'' then Some MILLIS_PER_WEEK
      else if u = ''month'' \<or> u = ''months'' then Some (30 * MILLIS_PER_DAY)
      else None)"

definition parse_duration_millis :: "string \<Rightarrow> int option" where
  "parse_duration_millis text =
     (case split_whitespace text of
        [] \<Rightarrow> None
      | n # parts \<Rightarrow>
          Option.bind (parse_i64 n) (\<lambda>count.
            case parts of
              [] \<Rightarrow> None
            | u # extra \<Rightarrow>
                (if extra \<noteq> [] \<or> count < 0 then None
                 else Option.bind (duration_unit u) (\<lambda>per_unit. checked_i64 (count * per_unit)))))"

definition date_or_datetime_to_millis :: "jiff \<Rightarrow> string \<Rightarrow> int option" where
  "date_or_datetime_to_millis J text =
     (let t = trim text
      in case civil_date_to_millis J t of Some m \<Rightarrow> Some m | None \<Rightarrow> parse_iso_timestamp J t)"

definition today :: "jiff \<Rightarrow> timestamp \<Rightarrow> string" where
  "today J now = strftime_utc J now ''%Y-%m-%d''"

text \<open>\<open>add_days\<close>: the shift is checked against \<open>i64\<close> and then handed to the panicking
  constructor.\<close>

definition add_days :: "jiff \<Rightarrow> string \<Rightarrow> int \<Rightarrow> (panic, string option) result" where
  "add_days J d days =
     (case civil_date_to_millis J d of
        None \<Rightarrow> Inr None
      | Some m \<Rightarrow>
          (case checked_i64 (days * MILLIS_PER_DAY) of
             None \<Rightarrow> Inr None
           | Some delta \<Rightarrow>
               (case checked_i64 (m + delta) of
                  None \<Rightarrow> Inr None
                | Some shifted \<Rightarrow>
                    andthen (from_millis J shifted)
                      (\<lambda>t. Inr (Some (strftime_utc J t ''%Y-%m-%d''))))))"

definition weekday :: "jiff \<Rightarrow> string \<Rightarrow> (panic, string option) result" where
  "weekday J d =
     (case civil_date_to_millis J d of
        None \<Rightarrow> Inr None
      | Some m \<Rightarrow> andthen (from_millis J m) (\<lambda>t. Inr (Some (strftime_utc J t ''%A''))))"

definition WEEKDAYS :: "string list" where
  "WEEKDAYS = [''monday'', ''tuesday'', ''wednesday'', ''thursday'', ''friday'', ''saturday'', ''sunday'']"

text \<open>The \<open>find_map\<close> over the seven offsets of \<open>next_weekday\<close>; a \<open>None\<close> of one offset
  moves on to the next.\<close>

fun find_weekday :: "jiff \<Rightarrow> string \<Rightarrow> string \<Rightarrow> int list \<Rightarrow> (panic, string option) result" where
  "find_weekday J today_d target [] = Inr None"
| "find_weekday J today_d target (offset # rest) =
     andthen (add_days J today_d offset) (\<lambda>day.
       case day of
         None \<Rightarrow> find_weekday J today_d target rest
       | Some d \<Rightarrow>
           andthen (weekday J d) (\<lambda>w.
             case w of
               None \<Rightarrow> find_weekday J today_d target rest
             | Some name \<Rightarrow>
                 (if to_ascii_lowercase name = target then Inr (Some d)
                  else find_weekday J today_d target rest)))"

definition next_weekday :: "jiff \<Rightarrow> timestamp \<Rightarrow> string \<Rightarrow> (panic, string option) result" where
  "next_weekday J now name =
     (let target = to_ascii_lowercase (trim name)
      in if target \<notin> set WEEKDAYS then Inr None
         else find_weekday J (today J now) target [0, 1, 2, 3, 4, 5, 6])"

section \<open>Occurrence references\<close>

datatype direction = Direction_Before | Direction_After

datatype temporal_ref =
    TemporalRef_Instant timestamp
  | TemporalRef_Day string
  | TemporalRef_Range timestamp timestamp
  | TemporalRef_Approx timestamp nat
  | TemporalRef_Recurring string
  | TemporalRef_BeforeAfter direction memory_name

record occurrence_bounds =
  b_sort :: "timestamp option"
  b_lo :: "timestamp option"
  b_hi :: "timestamp option"

definition bounds_default :: occurrence_bounds where
  "bounds_default = \<lparr>b_sort = None, b_lo = None, b_hi = None\<rparr>"

definition bounds_point :: "timestamp \<Rightarrow> occurrence_bounds" where
  "bounds_point at = \<lparr>b_sort = Some at, b_lo = Some at, b_hi = Some at\<rparr>"

definition BEFORE_AFTER_EPSILON_MILLIS :: int where
  "BEFORE_AFTER_EPSILON_MILLIS = MILLIS_PER_HOUR"

definition shifted :: "jiff \<Rightarrow> timestamp option \<Rightarrow> int \<Rightarrow> (panic, timestamp option) result" where
  "shifted J at shift =
     (case at of
        None \<Rightarrow> Inr None
      | Some t \<Rightarrow> andthen (from_millis J (t + shift)) (\<lambda>t'. Inr (Some t')))"

definition bounds_triple ::
  "jiff \<Rightarrow> int \<Rightarrow> int \<Rightarrow> int \<Rightarrow> (panic, occurrence_bounds) result" where
  "bounds_triple J s l h =
     andthen (from_millis J s) (\<lambda>s'. andthen (from_millis J l) (\<lambda>l'. andthen (from_millis J h)
       (\<lambda>h'. Inr \<lparr>b_sort = Some s', b_lo = Some l', b_hi = Some h'\<rparr>)))"

definition before_after_bounds ::
  "jiff \<Rightarrow> direction \<Rightarrow> occurrence_bounds option \<Rightarrow> int \<Rightarrow> (panic, occurrence_bounds) result" where
  "before_after_bounds J dir anchor epsilon =
     (case anchor of
        None \<Rightarrow> Inr bounds_default
      | Some a \<Rightarrow>
          (case b_sort a of
             None \<Rightarrow> Inr bounds_default
           | Some anchor_sort \<Rightarrow>
               (let shift = (case dir of Direction_Before \<Rightarrow> - epsilon | Direction_After \<Rightarrow> epsilon)
                in andthen (from_millis J (anchor_sort + shift)) (\<lambda>s.
                     if b_lo a \<noteq> b_hi a then
                       andthen (shifted J (b_lo a) shift) (\<lambda>l.
                       andthen (shifted J (b_hi a) shift) (\<lambda>h.
                         Inr \<lparr>b_sort = Some s, b_lo = l, b_hi = h\<rparr>))
                     else Inr \<lparr>b_sort = Some s, b_lo = Some s, b_hi = Some s\<rparr>))))"

text \<open>\<open>TemporalRef::bounds\<close>.\<close>

definition bounds ::
  "jiff \<Rightarrow> temporal_ref \<Rightarrow> occurrence_bounds option \<Rightarrow> int \<Rightarrow> (panic, occurrence_bounds) result" where
  "bounds J r anchor epsilon =
     (case r of
        TemporalRef_Instant at \<Rightarrow> Inr (bounds_point at)
      | TemporalRef_Day d \<Rightarrow>
          (case civil_date_to_millis J d of
             Some midnight \<Rightarrow>
               bounds_triple J (midnight + quot64 MILLIS_PER_DAY 2) midnight
                 (midnight + MILLIS_PER_DAY - 1)
           | None \<Rightarrow> Inr bounds_default)
      | TemporalRef_Range start end \<Rightarrow>
          (let lo = (if start \<le> end then start else end);
               hi = (if start \<le> end then end else start)
           in andthen (from_millis J (quot64 (lo + hi) 2)) (\<lambda>s.
                Inr \<lparr>b_sort = Some s, b_lo = Some lo, b_hi = Some hi\<rparr>))
      | TemporalRef_Approx center fuzz_days \<Rightarrow>
          (let fuzz = int fuzz_days * MILLIS_PER_DAY
           in andthen (from_millis J (center - fuzz)) (\<lambda>l.
              andthen (from_millis J (center + fuzz)) (\<lambda>h.
                Inr \<lparr>b_sort = Some center, b_lo = Some l, b_hi = Some h\<rparr>)))
      | TemporalRef_Recurring rule \<Rightarrow> Inr bounds_default
      | TemporalRef_BeforeAfter dir name \<Rightarrow> before_after_bounds J dir anchor epsilon)"

fun is_all_day :: "temporal_ref \<Rightarrow> bool" where
  "is_all_day (TemporalRef_Instant at) = False"
| "is_all_day _ = True"

section \<open>Rendering\<close>

text \<open>The en dash, the plus-minus sign and the middle dot, as their UTF-8 bytes.\<close>

definition EN_DASH :: string where "EN_DASH = [CHR 0xE2, CHR 0x80, CHR 0x93]"
definition PLUS_MINUS :: string where "PLUS_MINUS = [CHR 0xC2, CHR 0xB1]"
definition MIDDLE_DOT :: string where "MIDDLE_DOT = [CHR 0xC2, CHR 0xB7]"

fun format_occurrence :: "jiff \<Rightarrow> temporal_ref \<Rightarrow> string" where
  "format_occurrence J (TemporalRef_Day d) = d"
| "format_occurrence J (TemporalRef_Instant at) = strftime_utc J at ''%Y-%m-%d %H:%M UTC''"
| "format_occurrence J (TemporalRef_Range start end) =
     strftime_utc J start ''%Y-%m-%d'' @ '' '' @ EN_DASH @ '' '' @ strftime_utc J end ''%Y-%m-%d''"
| "format_occurrence J (TemporalRef_Approx center fuzz_days) =
     ''around '' @ strftime_utc J center ''%Y-%m-%d'' @ '' ('' @ PLUS_MINUS @ show_nat fuzz_days @ ''d)''"
| "format_occurrence J (TemporalRef_Recurring rule) = ''recurring: '' @ rule"
| "format_occurrence J (TemporalRef_BeforeAfter dir anchor) =
     (case dir of Direction_Before \<Rightarrow> ''before'' | Direction_After \<Rightarrow> ''after'') @ '' '' @ name_str anchor"

definition relative_age :: "int \<Rightarrow> int \<times> string" where
  "relative_age elapsed =
     (if elapsed < MILLIS_PER_HOUR then (quot64 elapsed MILLIS_PER_MINUTE, ''minute'')
      else if elapsed < MILLIS_PER_DAY then (quot64 elapsed MILLIS_PER_HOUR, ''hour'')
      else if elapsed < MILLIS_PER_WEEK then (quot64 elapsed MILLIS_PER_DAY, ''day'')
      else if elapsed < 30 * MILLIS_PER_DAY then (quot64 elapsed MILLIS_PER_WEEK, ''week'')
      else if elapsed < 365 * MILLIS_PER_DAY then (quot64 elapsed (30 * MILLIS_PER_DAY), ''month'')
      else (quot64 elapsed (365 * MILLIS_PER_DAY), ''year''))"

definition format_relative_age :: "timestamp \<Rightarrow> timestamp \<Rightarrow> string" where
  "format_relative_age at now =
     (let elapsed = now - at
      in if elapsed < MILLIS_PER_MINUTE then ''just now''
         else case relative_age elapsed of
                (count, unit) \<Rightarrow>
                  show_int count @ '' '' @ unit @ (if count = 1 then '''' else ''s'') @ '' ago'')"

definition format_entry_stamp :: "jiff \<Rightarrow> timestamp \<Rightarrow> temporal_ref option \<Rightarrow> timestamp \<Rightarrow> string" where
  "format_entry_stamp J asserted_at occurred_at now =
     (let recorded = ''recorded '' @ format_relative_age asserted_at now
      in case occurred_at of
           Some r \<Rightarrow> ''when '' @ format_occurrence J r @ '' '' @ MIDDLE_DOT @ '' '' @ recorded
         | None \<Rightarrow> recorded)"

section \<open>Lemmas\<close>

lemma from_millis_Inr_iff [simp]: "from_millis J m = Inr t \<longleftrightarrow> ts_in_range J m \<and> t = m"
  by (auto simp: from_millis_def try_from_millis_def)

lemma from_millis_Inl_iff [simp]:
  "from_millis J m = Inl p \<longleftrightarrow> \<not> ts_in_range J m \<and> p = Panic_OutOfRange m"
  by (auto simp: from_millis_def try_from_millis_def)

text \<open>What a well-formed triple is: either nothing is known, or the three instants are known and
  ordered.\<close>

definition bounds_wf :: "occurrence_bounds \<Rightarrow> bool" where
  "bounds_wf b \<longleftrightarrow>
     b = bounds_default \<or>
     (\<exists>s l h. b = \<lparr>b_sort = Some s, b_lo = Some l, b_hi = Some h\<rparr> \<and> l \<le> s \<and> s \<le> h)"

lemma bounds_wf_default [simp]: "bounds_wf bounds_default"
  by (simp add: bounds_wf_def)

lemma bounds_wf_ordered [intro]:
  "l \<le> s \<Longrightarrow> s \<le> h \<Longrightarrow> bounds_wf \<lparr>b_sort = Some s, b_lo = Some l, b_hi = Some h\<rparr>"
  by (simp add: bounds_wf_def)

lemma before_after_bounds_wf:
  assumes "before_after_bounds J dir anchor epsilon = Inr b"
    and "\<And>a. anchor = Some a \<Longrightarrow> bounds_wf a"
  shows "bounds_wf b"
proof (cases anchor)
  case None
  with assms(1) show ?thesis by (simp add: before_after_bounds_def)
next
  case (Some a)
  from assms(2) [OF Some] consider "a = bounds_default"
    | s l h where "a = \<lparr>b_sort = Some s, b_lo = Some l, b_hi = Some h\<rparr>" "l \<le> s" "s \<le> h"
    by (auto simp: bounds_wf_def)
  then show ?thesis
  proof cases
    case 1
    with Some assms(1) show ?thesis
      by (auto simp: before_after_bounds_def bounds_default_def bounds_wf_def)
  next
    case 2
    with Some assms(1) show ?thesis
      by (auto simp: before_after_bounds_def shifted_def Let_def andthen_Inr_iff split: if_splits)
  qed
qed

lemma bounds_preserves_wf:
  assumes "bounds J r anchor epsilon = Inr b"
    and "\<And>a. anchor = Some a \<Longrightarrow> bounds_wf a"
  shows "bounds_wf b"
proof (cases r)
  case (TemporalRef_Day d)
  with assms(1) show ?thesis
    by (auto simp: bounds_def bounds_triple_def andthen_Inr_iff millis_values quot64_def
        split: option.splits)
next
  case (TemporalRef_Range start "end")
  have "lo \<le> hi \<Longrightarrow> lo \<le> quot64 (lo + hi) 2 \<and> quot64 (lo + hi) 2 \<le> hi" for lo hi
    by (rule quot64_half_bounds)
  with TemporalRef_Range assms(1) show ?thesis
    by (auto simp: bounds_def Let_def andthen_Inr_iff split: if_splits)
next
  case (TemporalRef_BeforeAfter dir name)
  with assms show ?thesis by (simp add: bounds_def before_after_bounds_wf)
qed (use assms(1) in \<open>auto simp: bounds_def bounds_point_def Let_def andthen_Inr_iff millis_values\<close>)

end
