(* ===== verification/Recurrence.thy ===== *)
theory Recurrence
  imports Temporal
begin

text \<open>
  Recurrence rules, \<open>crates/core/src/time/recurrence.rs\<close>: the subset of RFC 5545 the program
  interprets and the search for the next instance, which the wake-up scheduler arms.

  The start index of the search is computed with unchecked \<open>i64\<close> operations. The build keeps the
  default of its release profile, so they wrap (\<open>wrap64\<close>), and a divisor that wraps to zero panics.
  The scan is a recursion on the distance to its stop index.
\<close>

section \<open>The interpreted subset\<close>

datatype freq = Freq_Daily | Freq_Weekly | Freq_Monthly | Freq_Yearly

definition MAX_RECURRENCE_STEPS :: int where
  "MAX_RECURRENCE_STEPS = 12000"

definition parse_freq :: "string \<Rightarrow> freq option" where
  "parse_freq v =
     (let u = to_ascii_uppercase (trim v)
      in if u = ''DAILY'' then Some Freq_Daily
         else if u = ''WEEKLY'' then Some Freq_Weekly
         else if u = ''MONTHLY'' then Some Freq_Monthly
         else if u = ''YEARLY'' then Some Freq_Yearly
         else None)"

text \<open>The loop of \<open>parse_rrule\<close> over the parts, with its two accumulators.\<close>

fun parse_rrule_parts :: "string list \<Rightarrow> freq option \<Rightarrow> int \<Rightarrow> (freq option \<times> int) option" where
  "parse_rrule_parts [] f i = Some (f, i)"
| "parse_rrule_parts (p # ps) f i =
     (let part = trim p
      in if part = [] then parse_rrule_parts ps f i
         else case split_once (CHR ''='') part of
                None \<Rightarrow> None
              | Some (key, v) \<Rightarrow>
                  (let k = to_ascii_uppercase (trim key)
                   in if k = ''FREQ'' then
                        (case parse_freq v of
                           None \<Rightarrow> None
                         | Some f' \<Rightarrow> parse_rrule_parts ps (Some f') i)
                      else if k = ''INTERVAL'' then
                        (case parse_i64 (trim v) of
                           None \<Rightarrow> None
                         | Some n \<Rightarrow> (if n \<ge> 1 then parse_rrule_parts ps f n else None))
                      else parse_rrule_parts ps f i))"

definition parse_rrule :: "string \<Rightarrow> (freq \<times> int) option" where
  "parse_rrule rule =
     (case parse_rrule_parts (split_char (CHR '';'') rule) None 1 of
        None \<Rightarrow> None
      | Some (f, i) \<Rightarrow> map_option (\<lambda>freq. (freq, i)) f)"

definition rrule_is_supported :: "string \<Rightarrow> bool" where
  "rrule_is_supported rule \<longleftrightarrow> parse_rrule rule \<noteq> None"

section \<open>Stepping\<close>

definition add_millis :: "jiff \<Rightarrow> timestamp \<Rightarrow> int \<Rightarrow> timestamp option" where
  "add_millis J from_t delta = Option.bind (checked_i64 (from_t + delta)) (try_from_millis J)"

definition add_calendar :: "jiff \<Rightarrow> timestamp \<Rightarrow> int \<Rightarrow> int \<Rightarrow> timestamp option" where
  "add_calendar J from_t months years =
     (if span_months_ok J months \<and> span_years_ok J years then zoned_add_utc J from_t months years
      else None)"

text \<open>The closure \<open>occurrence\<close> of \<open>next_occurrence\<close>: the \<open>k\<close>-th instance.\<close>

definition occurrence_at :: "jiff \<Rightarrow> freq \<Rightarrow> int \<Rightarrow> timestamp \<Rightarrow> int \<Rightarrow> timestamp option" where
  "occurrence_at J f interval dtstart k =
     Option.bind (checked_i64 (k * interval)) (\<lambda>steps.
       case f of
         Freq_Daily \<Rightarrow> Option.bind (checked_i64 (steps * MILLIS_PER_DAY)) (add_millis J dtstart)
       | Freq_Weekly \<Rightarrow> Option.bind (checked_i64 (steps * MILLIS_PER_WEEK)) (add_millis J dtstart)
       | Freq_Monthly \<Rightarrow> add_calendar J dtstart steps 0
       | Freq_Yearly \<Rightarrow> add_calendar J dtstart 0 steps)"

definition wrap64 :: "int \<Rightarrow> int" where
  "wrap64 x = (x + 2 ^ 63) mod 2 ^ 64 - 2 ^ 63"

definition step_divisor :: "freq \<Rightarrow> int \<Rightarrow> int" where
  "step_divisor f interval =
     (case f of
        Freq_Daily \<Rightarrow> wrap64 (interval * MILLIS_PER_DAY)
      | Freq_Weekly \<Rightarrow> wrap64 (interval * MILLIS_PER_WEEK)
      | Freq_Monthly \<Rightarrow> wrap64 (wrap64 (interval * 28) * MILLIS_PER_DAY)
      | Freq_Yearly \<Rightarrow> wrap64 (wrap64 (interval * 365) * MILLIS_PER_DAY))"

definition start_index :: "freq \<Rightarrow> int \<Rightarrow> int \<Rightarrow> (panic, int) result" where
  "start_index f interval elapsed =
     (if step_divisor f interval = 0 then Inl Panic_DivisionByZero
      else Inr (wrap64 (quot64 elapsed (step_divisor f interval) + 1)))"

function scan :: "(int \<Rightarrow> timestamp option) \<Rightarrow> timestamp \<Rightarrow> int \<Rightarrow> int \<Rightarrow> timestamp option" where
  "scan occ after k stop =
     (if k < stop then
        (case occ k of
           None \<Rightarrow> None
         | Some candidate \<Rightarrow>
             (if candidate > after then Some candidate else scan occ after (k + 1) stop))
      else None)"
  by pat_completeness auto
termination
  by (relation "measure (\<lambda>(occ, after, k, stop). nat (stop - k))") auto

declare scan.simps [simp del]

definition next_occurrence ::
  "jiff \<Rightarrow> string \<Rightarrow> timestamp \<Rightarrow> timestamp \<Rightarrow> (panic, timestamp option) result" where
  "next_occurrence J rule dtstart after =
     (case parse_rrule rule of
        None \<Rightarrow> Inr None
      | Some (f, interval) \<Rightarrow>
          (if dtstart > after then Inr (occurrence_at J f interval dtstart 0)
           else case checked_i64 (after - dtstart) of
                  None \<Rightarrow> Inr None
                | Some elapsed \<Rightarrow>
                    andthen (start_index f interval elapsed) (\<lambda>start.
                      let first = max start 1
                      in Inr (scan (occurrence_at J f interval dtstart) after first
                           (min (first + MAX_RECURRENCE_STEPS) (2 ^ 63 - 1))))))"

section \<open>Lemmas\<close>

lemma parse_rrule_parts_interval:
  "parse_rrule_parts ps f i = Some (f', i') \<Longrightarrow> 1 \<le> i \<Longrightarrow> in_i64 i \<Longrightarrow> 1 \<le> i' \<and> in_i64 i'"
  by (induction ps f i rule: parse_rrule_parts.induct)
    (auto simp: Let_def parse_i64_range split: if_splits option.splits prod.splits)

lemma parse_rrule_interval: "parse_rrule rule = Some (f, i) \<Longrightarrow> 1 \<le> i \<and> in_i64 i"
  by (auto simp: parse_rrule_def in_i64_def dest!: parse_rrule_parts_interval
      split: option.splits prod.splits)

text \<open>What the scan returns: the first index at or after \<open>k\<close> whose instance lies past \<open>after\<close>.\<close>

lemma scan_Some:
  "scan occ after k stop = Some t \<Longrightarrow>
   \<exists>j. k \<le> j \<and> j < stop \<and> occ j = Some t \<and> t > after
     \<and> (\<forall>i. k \<le> i \<and> i < j \<longrightarrow> (\<exists>c. occ i = Some c \<and> c \<le> after))"
proof (induction occ after k stop rule: scan.induct)
  case (1 occ after k stop)
  from "1.prems" obtain c where k: "k < stop" and c: "occ k = Some c"
    by (subst (asm) scan.simps) (auto split: if_splits option.splits)
  show ?case
  proof (cases "c > after")
    case True
    with "1.prems" k c have "t = c" by (subst (asm) scan.simps) simp
    with True k c show ?thesis by (intro exI [of _ k]) auto
  next
    case False
    with "1.prems" k c have "scan occ after (k + 1) stop = Some t" by (subst (asm) scan.simps) simp
    from "1.IH" [OF k c False this] obtain j where
      j: "k + 1 \<le> j" "j < stop" "occ j = Some t" "t > after"
      and below: "\<forall>i. k + 1 \<le> i \<and> i < j \<longrightarrow> (\<exists>c. occ i = Some c \<and> c \<le> after)" by blast
    have "\<forall>i. k \<le> i \<and> i < j \<longrightarrow> (\<exists>c. occ i = Some c \<and> c \<le> after)"
      using below c False by (metis int_one_le_iff_zero_less linorder_le_less_linear not_less
          order_le_less zle_add1_eq_le zless_imp_add1_zle)
    with j show ?thesis by (intro exI [of _ j]) auto
  qed
qed

lemma scan_hit:
  "k < stop \<Longrightarrow> occ k = Some c \<Longrightarrow> c > after \<Longrightarrow> scan occ after k stop = Some c"
  by (subst scan.simps) simp

lemma scan_miss: "k < stop \<Longrightarrow> occ k = None \<Longrightarrow> scan occ after k stop = None"
  by (subst scan.simps) simp

lemma wrap64_id [simp]: "in_i64 x \<Longrightarrow> wrap64 x = x"
  by (simp add: wrap64_def in_i64_def mod_pos_pos_trivial)

text \<open>The fixed unit of the uniform frequencies, in milliseconds.\<close>

definition uniform_unit :: "freq \<Rightarrow> int option" where
  "uniform_unit f =
     (case f of
        Freq_Daily \<Rightarrow> Some MILLIS_PER_DAY
      | Freq_Weekly \<Rightarrow> Some MILLIS_PER_WEEK
      | _ \<Rightarrow> None)"

text \<open>The documented range of \<open>jiff::Timestamp\<close> (years -9999 to 9999) lies well inside \<open>i64\<close>.\<close>

definition jiff_range_ok :: "jiff \<Rightarrow> bool" where
  "jiff_range_ok J \<longleftrightarrow> (\<forall>m. ts_in_range J m \<longrightarrow> \<bar>m\<bar> < 2 ^ 62)"

lemma uniform_unit_pos: "uniform_unit f = Some u \<Longrightarrow> 1 \<le> u"
  by (cases f) (auto simp: uniform_unit_def millis_values)

lemma uniform_step_ge2:
  assumes "uniform_unit f = Some u" "1 \<le> interval"
  shows "2 \<le> interval * u"
proof -
  have "2 \<le> u" using assms(1) by (cases f) (auto simp: uniform_unit_def millis_values)
  then show ?thesis using mult_mono [of 1 interval 2 u] assms(2) by simp
qed

lemma step_divisor_uniform:
  "uniform_unit f = Some u \<Longrightarrow> step_divisor f interval = wrap64 (interval * u)"
  by (cases f) (auto simp: uniform_unit_def step_divisor_def)

lemma occurrence_at_uniform:
  assumes "uniform_unit f = Some u" "1 \<le> interval" "0 \<le> k"
    and "jiff_range_ok J" "\<bar>dtstart\<bar> < 2 ^ 62"
  shows "occurrence_at J f interval dtstart k = try_from_millis J (dtstart + k * (interval * u))"
proof -
  note u = uniform_unit_pos [OF assms(1)]
  have occ: "occurrence_at J f interval dtstart k =
      Option.bind (checked_i64 (k * interval)) (\<lambda>steps.
        Option.bind (checked_i64 (steps * u)) (add_millis J dtstart))"
    using assms(1) by (cases f) (auto simp: uniform_unit_def occurrence_at_def)
  have nn: "0 \<le> k * interval" using assms(2,3) by simp
  then have le: "k * interval \<le> k * interval * u"
    using u mult_left_mono [of 1 u "k * interval"] by simp
  show ?thesis
  proof (cases "ts_in_range J (dtstart + k * interval * u)")
    case True
    with assms(4) have "\<bar>dtstart + k * interval * u\<bar> < 2 ^ 62" by (auto simp: jiff_range_ok_def)
    with assms(5) le nn
    have "in_i64 (k * interval)" "in_i64 (k * interval * u)" "in_i64 (dtstart + k * interval * u)"
      by (auto simp: in_i64_def)
    then show ?thesis by (simp add: occ checked_i64_def add_millis_def mult.assoc)
  next
    case False
    then show ?thesis
      by (auto simp: occ checked_i64_def add_millis_def try_from_millis_def mult.assoc)
  qed
qed

text \<open>The start index of a uniform frequency is the exact index of the next instance.\<close>

lemma start_index_uniform:
  assumes "uniform_unit f = Some u" "1 \<le> interval" "interval * u < 2 ^ 63"
    and "0 \<le> elapsed" "elapsed < 2 ^ 63"
  shows "start_index f interval elapsed = Inr (elapsed div (interval * u) + 1)"
proof -
  have p: "2 \<le> interval * u" by (rule uniform_step_ge2 [OF assms(1,2)])
  then have d: "step_divisor f interval = interval * u"
    using step_divisor_uniform [OF assms(1)] assms(3) by (simp add: in_i64_def)
  have "elapsed div (interval * u) \<le> elapsed div 2"
    using p assms(4) by (simp add: zdiv_mono2)
  moreover have "0 \<le> elapsed div (interval * u)" using p assms(4) by (simp add: pos_imp_zdiv_nonneg_iff)
  ultimately have "in_i64 (elapsed div (interval * u) + 1)"
    using assms(4,5) by (simp add: in_i64_def)
  with d p assms(4) show ?thesis by (auto simp: start_index_def)
qed

lemma scan_first:
  assumes "k < stop" "occ k = try m" "\<And>t. try m = Some t \<Longrightarrow> t > after"
  shows "scan occ after k stop = try m"
  using assms by (cases "try m") (auto intro: scan_hit scan_miss)

text \<open>The least element of the arithmetic progression past a bound.\<close>

lemma progression_next:
  fixes step dtstart after :: int
  assumes "0 < step" "dtstart \<le> after"
  defines "n \<equiv> (after - dtstart) div step + 1"
  shows "1 \<le> n" "dtstart + n * step > after" "0 \<le> j \<Longrightarrow> dtstart + j * step > after \<Longrightarrow> n \<le> j"
proof -
  have "(after - dtstart) div step * step = after - dtstart - (after - dtstart) mod step"
    by (simp add: minus_mod_eq_div_mult)
  with assms(1) have m: "(after - dtstart) div step * step \<le> after - dtstart"
    "after - dtstart < ((after - dtstart) div step + 1) * step"
    by (simp_all add: distrib_right)
  show "1 \<le> n" using assms by (simp add: pos_imp_zdiv_nonneg_iff)
  show "dtstart + n * step > after" using m(2) by (simp add: n_def)
  assume "dtstart + j * step > after"
  then have "(after - dtstart) div step * step < j * step" using m(1) by linarith
  then have "(after - dtstart) div step < j" using assms(1) by simp
  then show "n \<le> j" by (simp add: n_def)
qed

section \<open>A concrete calendar\<close>

text \<open>
  The proleptic Gregorian calendar at midnight UTC, an executable instance of the parameter: months
  and years step on the civil date and clamp to the last day of the month, as \<open>jiff\<close> documents.
\<close>

definition days_of_civil :: "int \<Rightarrow> int \<Rightarrow> int \<Rightarrow> int" where
  "days_of_civil y m d =
     (let y' = (if m \<le> 2 then y - 1 else y);
          era = y' div 400;
          yoe = y' - era * 400;
          doy = (153 * (if m > 2 then m - 3 else m + 9) + 2) div 5 + d - 1;
          doe = yoe * 365 + yoe div 4 - yoe div 100 + doy
      in era * 146097 + doe - 719468)"

definition civil_of_days :: "int \<Rightarrow> int \<times> int \<times> int" where
  "civil_of_days days =
     (let z = days + 719468;
          era = z div 146097;
          doe = z - era * 146097;
          yoe = (doe - doe div 1460 + doe div 36524 - doe div 146096) div 365;
          doy = doe - (365 * yoe + yoe div 4 - yoe div 100);
          mp = (5 * doy + 2) div 153;
          d = doy - (153 * mp + 2) div 5 + 1;
          m = (if mp < 10 then mp + 3 else mp - 9);
          y = yoe + era * 400 + (if m \<le> 2 then 1 else 0)
      in (y, m, d))"

definition month_length :: "int \<Rightarrow> int \<Rightarrow> int" where
  "month_length y m =
     (if m = 2 then (if y mod 4 = 0 \<and> (y mod 100 \<noteq> 0 \<or> y mod 400 = 0) then 29 else 28)
      else if m \<in> {4, 6, 9, 11} then 30 else 31)"

definition shift_civil :: "int \<Rightarrow> int \<Rightarrow> int \<Rightarrow> int option" where
  "shift_civil t months years =
     (case civil_of_days (t div MILLIS_PER_DAY) of
        (y, m, d) \<Rightarrow>
          (let total = y * 12 + (m - 1) + months + years * 12;
               y' = total div 12;
               m' = total mod 12 + 1;
               d' = min d (month_length y' m')
           in Some (days_of_civil y' m' d' * MILLIS_PER_DAY + t mod MILLIS_PER_DAY)))"

definition parse_ymd :: "string \<Rightarrow> (int \<times> int \<times> int) option" where
  "parse_ymd s =
     (if length s = 10 \<and> s ! 4 = CHR ''-'' \<and> s ! 7 = CHR ''-'' then
        (case (parse_digits (take 4 s), parse_digits (take 2 (drop 5 s)), parse_digits (drop 8 s)) of
           (Some y, Some m, Some d) \<Rightarrow>
             (if 1 \<le> m \<and> m \<le> 12 \<and> 1 \<le> d \<and> d \<le> month_length y m then Some (y, m, d) else None)
         | _ \<Rightarrow> None)
      else None)"

definition gregorian :: jiff where
  "gregorian =
     \<lparr>ts_in_range = (\<lambda>m. - 377705023201000 \<le> m \<and> m \<le> 253402207200999),
      parse_civil_date = parse_ymd,
      civil_midnight_utc = (\<lambda>(y, m, d). Some (days_of_civil y m d * MILLIS_PER_DAY)),
      parse_iso_timestamp = (\<lambda>_. None),
      strftime_utc = (\<lambda>t fmt. show_int (t div MILLIS_PER_DAY)),
      span_months_ok = (\<lambda>n. \<bar>n\<bar> \<le> 239976),
      span_years_ok = (\<lambda>n. \<bar>n\<bar> \<le> 19998),
      zoned_add_utc = shift_civil\<rparr>"

lemma gregorian_range_ok: "jiff_range_ok gregorian"
  by (auto simp: jiff_range_ok_def gregorian_def)

section \<open>Properties\<close>

text \<open>
  a daily or weekly rule fires at exactly the first instance of the progression
  \<open>dtstart, dtstart + step, ...\<close> past \<open>after\<close>, whatever the distance between the two, and yields
  nothing exactly when that instant is not representable.
\<close>

theorem next_occurrence_uniform_least:
  assumes "parse_rrule rule = Some (f, interval)" "uniform_unit f = Some u"
    and "interval * u < 2 ^ 63" "jiff_range_ok J" "ts_in_range J dtstart" "ts_in_range J after"
  shows "\<exists>n \<ge> 0.
    next_occurrence J rule dtstart after = Inr (try_from_millis J (dtstart + n * (interval * u)))
    \<and> dtstart + n * (interval * u) > after
    \<and> (\<forall>j. 0 \<le> j \<and> dtstart + j * (interval * u) > after \<longrightarrow> n \<le> j)"
proof -
  from assms(4-6) have d: "\<bar>dtstart\<bar> < 2 ^ 62" and a: "\<bar>after\<bar> < 2 ^ 62"
    by (auto simp: jiff_range_ok_def)
  from parse_rrule_interval [OF assms(1)] have i: "1 \<le> interval" by simp
  with uniform_unit_pos [OF assms(2)] have step: "0 < interval * u" by simp
  note occ = occurrence_at_uniform [OF assms(2) i _ assms(4) d]
  show ?thesis
  proof (cases "dtstart > after")
    case True
    with assms(1) occ [of 0] show ?thesis
      by (intro exI [of _ 0]) (simp add: next_occurrence_def)
  next
    case False
    define n where "n = (after - dtstart) div (interval * u) + 1"
    note least = progression_next [OF step, of dtstart after, folded n_def]
    from False a d have e: "0 \<le> after - dtstart" "after - dtstart < 2 ^ 63" by auto
    have "n \<le> (after - dtstart) div 2 + 1"
      using zdiv_mono2 [OF e(1), of 2 "interval * u"] uniform_step_ge2 [OF assms(2) i]
      by (simp add: n_def)
    then have lt: "n < min (n + MAX_RECURRENCE_STEPS) (2 ^ 63 - 1)"
      using a d by (simp add: MAX_RECURRENCE_STEPS_def)
    have scan: "scan (occurrence_at J f interval dtstart) after n
        (min (n + MAX_RECURRENCE_STEPS) (2 ^ 63 - 1)) = try_from_millis J (dtstart + n * (interval * u))"
      using False least lt by (intro scan_first) (auto simp: occ try_from_millis_def split: if_splits)
    have "next_occurrence J rule dtstart after = Inr (try_from_millis J (dtstart + n * (interval * u)))"
      using False e assms(1) least(1) scan start_index_uniform [OF assms(2) i assms(3) e]
      by (simp add: next_occurrence_def checked_i64_def in_i64_def n_def Let_def max_absorb1)
    with False least show ?thesis by (intro exI [of _ n]) auto
  qed
qed

theorem next_occurrence_uniform_least_witness:
  "\<exists>n \<ge> 0. next_occurrence gregorian ''FREQ=WEEKLY;INTERVAL=2'' 1767225600000 1798761600000
      = Inr (try_from_millis gregorian (1767225600000 + n * (2 * 604800000)))
    \<and> 1767225600000 + n * (2 * 604800000) > (1798761600000 :: int)
    \<and> (\<forall>j. 0 \<le> j \<and> 1767225600000 + j * (2 * 604800000) > (1798761600000 :: int) \<longrightarrow> n \<le> j)"
proof -
  have "parse_rrule ''FREQ=WEEKLY;INTERVAL=2'' = Some (Freq_Weekly, 2)" by code_simp
  from next_occurrence_uniform_least [OF this, of 604800000 gregorian 1767225600000 1798761600000]
  show ?thesis
    by (simp add: uniform_unit_def millis_values gregorian_range_ok) (simp add: gregorian_def)
qed

lemma next_occurrence_instance:
  assumes "next_occurrence J rule dtstart after = Inr (Some t)"
    and "parse_rrule rule = Some (f, interval)"
    and "dtstart \<le> after \<or> zoned_add_utc J dtstart 0 0 = Some dtstart"
  shows "t > after \<and> (\<exists>k \<ge> 0. occurrence_at J f interval dtstart k = Some t)"
proof (cases "dtstart > after")
  case True
  with assms(1,2) have z: "occurrence_at J f interval dtstart 0 = Some t"
    by (simp add: next_occurrence_def)
  with assms(3) True have "t = dtstart"
    by (cases f) (auto simp: occurrence_at_def add_millis_def try_from_millis_def add_calendar_def
        checked_i64_def bind_eq_Some_conv split: if_splits)
  with True z show ?thesis by auto
next
  case False
  with assms(1,2) obtain first stop where
    "scan (occurrence_at J f interval dtstart) after (max first 1) stop = Some t"
    by (auto simp: next_occurrence_def Let_def andthen_Inr_iff split: option.splits)
  from scan_Some [OF this] show ?thesis by force
qed

lemma next_occurrence_after:
  assumes "next_occurrence J rule dtstart after = Inr (Some t)"
    and "dtstart \<le> after \<or> zoned_add_utc J dtstart 0 0 = Some dtstart"
  shows "t > after"
proof -
  from assms(1) obtain f interval where "parse_rrule rule = Some (f, interval)"
    by (auto simp: next_occurrence_def split: option.splits)
  with next_occurrence_instance [OF assms(1) _ assms(2)] show ?thesis by blast
qed

text \<open>
  whatever the rule, an armed instant lies strictly past \<open>after\<close> and is an
  instance of the rule.
\<close>

theorem next_occurrence_sound:
  assumes "next_occurrence J rule dtstart after = Inr (Some t)"
    and "parse_rrule rule = Some (f, interval)"
    and "zoned_add_utc J dtstart 0 0 = Some dtstart"
  shows "t > after \<and> (\<exists>k \<ge> 0. occurrence_at J f interval dtstart k = Some t)"
  using next_occurrence_instance [OF assms(1,2)] assms(3) by blast

theorem next_occurrence_sound_witness:
  "1803859200000 > (1798761600000 :: int) \<and>
   (\<exists>k \<ge> 0. occurrence_at gregorian Freq_Monthly 1 1767225600000 k = Some 1803859200000)"
proof (rule next_occurrence_sound)
  show "parse_rrule ''freq = monthly'' = Some (Freq_Monthly, 1)" by code_simp
  show "zoned_add_utc gregorian 1767225600000 0 0 = Some 1767225600000" by code_simp
  show "next_occurrence gregorian ''freq = monthly'' 1767225600000 1798761600000
      = Inr (Some 1803859200000)" by code_simp
qed

text \<open>
  C40: the start estimate of a monthly rule overshoots. With the anchor
  2026-01-01 and the clock at 2027-01-01, the thirteenth instance, 2027-02-01, lies past the clock,
  but the search starts at the fourteenth and arms 2027-03-01: the February instance never fires.
\<close>

theorem next_occurrence_monthly_skips:
  assumes "span_months_ok J 14" "span_months_ok J 13" "span_years_ok J 0"
    and "zoned_add_utc J 1767225600000 13 0 = Some 1801440000000"
    and "zoned_add_utc J 1767225600000 14 0 = Some 1803859200000"
  shows "next_occurrence J ''FREQ=MONTHLY'' 1767225600000 1798761600000 = Inr (Some 1803859200000)
    \<and> occurrence_at J Freq_Monthly 1 1767225600000 13 = Some 1801440000000
    \<and> 1798761600000 < (1801440000000 :: timestamp) \<and> 1801440000000 < (1803859200000 :: timestamp)"
proof -
  let ?occ = "occurrence_at J Freq_Monthly 1 1767225600000"
  have o13: "?occ 13 = Some 1801440000000" and o14: "?occ 14 = Some 1803859200000"
    using assms by (simp_all add: occurrence_at_def checked_i64_def in_i64_def add_calendar_def)
  have p: "parse_rrule ''FREQ=MONTHLY'' = Some (Freq_Monthly, 1)" by code_simp
  have s: "start_index Freq_Monthly 1 31536000000 = Inr 14" by code_simp
  have c: "checked_i64 31536000000 = Some 31536000000" by code_simp
  have "scan ?occ 1798761600000 14 12014 = Some 1803859200000"
    by (rule scan_hit) (simp_all add: o14)
  then show ?thesis
    by (simp add: next_occurrence_def p c s Let_def MAX_RECURRENCE_STEPS_def o13)
qed

theorem next_occurrence_monthly_skips_witness:
  "next_occurrence gregorian ''FREQ=MONTHLY'' 1767225600000 1798761600000 = Inr (Some 1803859200000)
    \<and> occurrence_at gregorian Freq_Monthly 1 1767225600000 13 = Some 1801440000000
    \<and> 1798761600000 < (1801440000000 :: timestamp) \<and> 1801440000000 < (1803859200000 :: timestamp)"
  by (rule next_occurrence_monthly_skips) code_simp+

end
