(* ===== verification/Vocabulary.thy ===== *)
theory Vocabulary
  imports Prelude
begin

text \<open>
  The label vocabulary, \<open>crates/core/src/vocabulary.rs\<close>: typed lenses over the tag and relation
  names that live in data. A label the build knows is a constructor; every other label is \<open>Other\<close>.
\<close>

datatype tag_name = TagName_Confidential | TagName_Other string

definition tag_name_new :: "string \<Rightarrow> tag_name" where
  "tag_name_new name =
     (if name = ''confidential'' then TagName_Confidential else TagName_Other name)"

fun tag_name_str :: "tag_name \<Rightarrow> string" where
  "tag_name_str TagName_Confidential = ''confidential''"
| "tag_name_str (TagName_Other name) = name"

datatype relation_name =
    RelationName_CreatedBy
  | RelationName_OperatorOf
  | RelationName_Knows
  | RelationName_SameAs
  | RelationName_ParticipatesIn
  | RelationName_PartOf
  | RelationName_Created
  | RelationName_OperatedBy
  | RelationName_KnownBy
  | RelationName_HasParticipant
  | RelationName_Contains
  | RelationName_LocatedAt
  | RelationName_LocationOf
  | RelationName_MemberOf
  | RelationName_HasMember
  | RelationName_Other string

definition relation_name_new :: "string \<Rightarrow> relation_name" where
  "relation_name_new name =
     (if name = ''created_by'' then RelationName_CreatedBy
      else if name = ''operator_of'' then RelationName_OperatorOf
      else if name = ''knows'' then RelationName_Knows
      else if name = ''same_as'' then RelationName_SameAs
      else if name = ''participates_in'' then RelationName_ParticipatesIn
      else if name = ''part_of'' then RelationName_PartOf
      else if name = ''created'' then RelationName_Created
      else if name = ''operated_by'' then RelationName_OperatedBy
      else if name = ''known_by'' then RelationName_KnownBy
      else if name = ''has_participant'' then RelationName_HasParticipant
      else if name = ''contains'' then RelationName_Contains
      else if name = ''located_at'' then RelationName_LocatedAt
      else if name = ''location_of'' then RelationName_LocationOf
      else if name = ''member_of'' then RelationName_MemberOf
      else if name = ''has_member'' then RelationName_HasMember
      else RelationName_Other name)"

fun relation_name_str :: "relation_name \<Rightarrow> string" where
  "relation_name_str RelationName_CreatedBy = ''created_by''"
| "relation_name_str RelationName_OperatorOf = ''operator_of''"
| "relation_name_str RelationName_Knows = ''knows''"
| "relation_name_str RelationName_SameAs = ''same_as''"
| "relation_name_str RelationName_ParticipatesIn = ''participates_in''"
| "relation_name_str RelationName_PartOf = ''part_of''"
| "relation_name_str RelationName_Created = ''created''"
| "relation_name_str RelationName_OperatedBy = ''operated_by''"
| "relation_name_str RelationName_KnownBy = ''known_by''"
| "relation_name_str RelationName_HasParticipant = ''has_participant''"
| "relation_name_str RelationName_Contains = ''contains''"
| "relation_name_str RelationName_LocatedAt = ''located_at''"
| "relation_name_str RelationName_LocationOf = ''location_of''"
| "relation_name_str RelationName_MemberOf = ''member_of''"
| "relation_name_str RelationName_HasMember = ''has_member''"
| "relation_name_str (RelationName_Other name) = name"

section \<open>A label lens\<close>

text \<open>
  Both types make the same promise: rendering what was recognized gives the label back, so the
  wire format is the bare string and no label is lost.
\<close>

locale label_lens =
  fixes recognize :: "string \<Rightarrow> 'l" and render :: "'l \<Rightarrow> string"
  assumes render_recognize: "render (recognize s) = s"
begin

lemma recognize_inject: "recognize s = recognize t \<longleftrightarrow> s = t"
  by (metis render_recognize)

text \<open>The values the program constructs are those \<open>recognize\<close> returns; on them rendering is
  injective and recognition is its inverse.\<close>

lemma recognize_render: "l \<in> range recognize \<Longrightarrow> recognize (render l) = l"
  by (auto simp: render_recognize)

lemma render_inject: "l \<in> range recognize \<Longrightarrow> m \<in> range recognize \<Longrightarrow> render l = render m \<longleftrightarrow> l = m"
  by (metis recognize_render)

end

interpretation tag_lens: label_lens tag_name_new tag_name_str
  by unfold_locales (simp add: tag_name_new_def)

interpretation relation_lens: label_lens relation_name_new relation_name_str
  by unfold_locales (simp add: relation_name_new_def)

lemma relation_name_new_same_as_iff [simp]:
  "relation_name_new s = RelationName_SameAs \<longleftrightarrow> s = ''same_as''"
  by (simp add: relation_name_new_def)

lemma relation_name_str_same_as_iff:
  "r \<in> range relation_name_new \<Longrightarrow> relation_name_str r = ''same_as'' \<longleftrightarrow> r = RelationName_SameAs"
  by (metis relation_lens.recognize_render relation_name_new_same_as_iff relation_name_str.simps(4))

end
