(* ===== verification/Events.thy ===== *)
theory Events
  imports Temporal Vocabulary Complex_Main
begin

text \<open>
  Events, \<open>crates/core/src/event\<close>: the enumerations a payload carries, their stored labels and
  parsers, the catalogue of payloads with every variant and field of the source, the envelope, and
  the accessors the stores index by. The staleness rule of \<open>crates/core/src/decay.rs\<close> is here too,
  since it reads a volatility.

  The values of types that belong to other subsystems and that no modelled function looks into (a
  whole settings snapshot, a model request and completion, a rendered brief, an attachment) are kept
  as their serialized text, \<open>serialized\<close>.
\<close>

type_synonym serialized = string

section \<open>Enumerations and their labels\<close>

datatype volatility = Volatility_Low | Volatility_Medium | Volatility_High

fun volatility_as_str :: "volatility \<Rightarrow> string" where
  "volatility_as_str Volatility_Low = ''Low''"
| "volatility_as_str Volatility_Medium = ''Medium''"
| "volatility_as_str Volatility_High = ''High''"

fun volatility_as_str_lowercase :: "volatility \<Rightarrow> string" where
  "volatility_as_str_lowercase Volatility_Low = ''low''"
| "volatility_as_str_lowercase Volatility_Medium = ''medium''"
| "volatility_as_str_lowercase Volatility_High = ''high''"

definition volatility_from_str :: "string \<Rightarrow> volatility option" where
  "volatility_from_str s =
     (let text = trim s
      in if eq_ignore_ascii_case text ''low'' then Some Volatility_Low
         else if eq_ignore_ascii_case text ''medium'' then Some Volatility_Medium
         else if eq_ignore_ascii_case text ''high'' then Some Volatility_High
         else None)"

datatype cardinality = Cardinality_One | Cardinality_Many

fun cardinality_as_str :: "cardinality \<Rightarrow> string" where
  "cardinality_as_str Cardinality_One = ''One''"
| "cardinality_as_str Cardinality_Many = ''Many''"

definition cardinality_from_str :: "string \<Rightarrow> cardinality option" where
  "cardinality_from_str s =
     (let text = trim s
      in if eq_ignore_ascii_case text ''one'' then Some Cardinality_One
         else if eq_ignore_ascii_case text ''many'' then Some Cardinality_Many
         else None)"

datatype link_source =
    LinkSource_Agent
  | LinkSource_Operator
  | LinkSource_Inferred
  | LinkSource_PlatformConnector string

fun link_source_as_str :: "link_source \<Rightarrow> string" where
  "link_source_as_str LinkSource_Agent = ''Agent''"
| "link_source_as_str LinkSource_Operator = ''Operator''"
| "link_source_as_str LinkSource_Inferred = ''Inferred''"
| "link_source_as_str (LinkSource_PlatformConnector i) = ''PlatformConnector('' @ i @ '')''"

fun link_source_as_str_lowercase :: "link_source \<Rightarrow> string" where
  "link_source_as_str_lowercase LinkSource_Agent = ''agent''"
| "link_source_as_str_lowercase LinkSource_Operator = ''operator''"
| "link_source_as_str_lowercase LinkSource_Inferred = ''inferred''"
| "link_source_as_str_lowercase (LinkSource_PlatformConnector i) = ''platform_connector('' @ i @ '')''"

text \<open>The \<open>find_map\<close> of \<open>strip_platform_connector_label\<close> over the two spellings.\<close>

fun strip_label :: "string list \<Rightarrow> string \<Rightarrow> string option" where
  "strip_label [] text = None"
| "strip_label (p # ps) text =
     (if length p \<le> length text \<and> eq_ignore_ascii_case (take (length p) text) p
      then Some (drop (length p) text)
      else strip_label ps text)"

definition strip_platform_connector_label :: "string \<Rightarrow> string option" where
  "strip_platform_connector_label text =
     Option.bind (strip_label [''PlatformConnector'', ''platform_connector''] text) (\<lambda>rest.
       Option.bind (strip_prefix ''('' rest) (strip_suffix '')''))"

definition link_source_from_str :: "string \<Rightarrow> link_source option" where
  "link_source_from_str s =
     (let text = trim s
      in if eq_ignore_ascii_case text ''agent'' then Some LinkSource_Agent
         else if eq_ignore_ascii_case text ''operator'' then Some LinkSource_Operator
         else if eq_ignore_ascii_case text ''inferred'' then Some LinkSource_Inferred
         else map_option LinkSource_PlatformConnector (strip_platform_connector_label text))"

datatype merge_proposal_source = MergeProposalSource_Agent

datatype event_source =
    EventSource_Bootstrap
  | EventSource_Agent
  | EventSource_Operator
  | EventSource_Orchestration
  | EventSource_PlatformConnector string

fun event_source_as_str :: "event_source \<Rightarrow> string" where
  "event_source_as_str EventSource_Bootstrap = ''Bootstrap''"
| "event_source_as_str EventSource_Agent = ''Agent''"
| "event_source_as_str EventSource_Operator = ''Operator''"
| "event_source_as_str EventSource_Orchestration = ''Orchestration''"
| "event_source_as_str (EventSource_PlatformConnector i) = ''PlatformConnector('' @ i @ '')''"

definition event_source_from_str :: "string \<Rightarrow> event_source option" where
  "event_source_from_str text =
     (if text = ''Bootstrap'' then Some EventSource_Bootstrap
      else if text = ''Agent'' then Some EventSource_Agent
      else if text = ''Operator'' \<or> text = ''Debugger'' then Some EventSource_Operator
      else if text = ''Orchestration'' then Some EventSource_Orchestration
      else map_option EventSource_PlatformConnector
             (Option.bind (strip_prefix ''PlatformConnector('' text) (strip_suffix '')'')))"

datatype turn_role = TurnRole_Participant | TurnRole_Agent | TurnRole_System

datatype session_end_cause =
  SessionEndCause_Idle | SessionEndCause_Compaction | SessionEndCause_Recovery

datatype maintenance_pass =
    MaintenancePass_Consolidation
  | MaintenancePass_Canonicalize
  | MaintenancePass_LinkCleanup

datatype initiation = Initiation_Responding | Initiation_Initiated

datatype terminal_cause =
    TerminalCause_Error string
  | TerminalCause_Aborted string
  | TerminalCause_Skipped "string option"

datatype prompt_template_name =
    PromptTemplateName_Scaffold
  | PromptTemplateName_DescriptionRegen
  | PromptTemplateName_TemporalExtraction
  | PromptTemplateName_Flush
  | PromptTemplateName_Imprint
  | PromptTemplateName_LinkInference
  | PromptTemplateName_EntryConsolidation
  | PromptTemplateName_NameIdentification
  | PromptTemplateName_LinkCleanup

fun prompt_template_name_as_str :: "prompt_template_name \<Rightarrow> string" where
  "prompt_template_name_as_str PromptTemplateName_Scaffold = ''scaffold''"
| "prompt_template_name_as_str PromptTemplateName_DescriptionRegen = ''description-regen''"
| "prompt_template_name_as_str PromptTemplateName_TemporalExtraction = ''temporal-extraction''"
| "prompt_template_name_as_str PromptTemplateName_Flush = ''flush''"
| "prompt_template_name_as_str PromptTemplateName_Imprint = ''imprint''"
| "prompt_template_name_as_str PromptTemplateName_LinkInference = ''link-inference''"
| "prompt_template_name_as_str PromptTemplateName_EntryConsolidation = ''entry-consolidation''"
| "prompt_template_name_as_str PromptTemplateName_NameIdentification = ''name-identification''"
| "prompt_template_name_as_str PromptTemplateName_LinkCleanup = ''link-cleanup''"

record produced_by =
  model_id :: string
  template_name :: prompt_template_name
  template_version :: nat

definition is_flush :: "produced_by \<Rightarrow> bool" where
  "is_flush p \<longleftrightarrow> template_name p = PromptTemplateName_Flush"

record arbitration_resolution =
  credited :: "entry_id list"
  statement :: string

datatype teller = Teller_Participant memory_id | Teller_Agent | Teller_Bootstrap

record conversation_ref =
  cr_conversation :: conversation_id
  cr_turn :: "turn_id option"

datatype visibility =
    Visibility_Public
  | Visibility_Attributed
  | Visibility_PrivateToTeller
  | Visibility_Exclude "memory_id list"  \<comment> \<open>a \<open>BTreeSet\<close>, in ascending order\<close>

record link_posture =
  posture_source :: link_source
  posture_told_by :: "teller option"
  posture_told_in :: "conversation_ref option"
  posture_visibility :: visibility

datatype model_phase = ModelPhase_Step | ModelPhase_Synthesis

section \<open>Payloads\<close>

text \<open>\<open>EventPayload\<close>, every variant with its fields in the source's order.\<close>

datatype (plugins only: code size) event_payload =
    GenesisCompleted string "(string \<times> nat) list"
  | MemoryCreated memory_id memory_name
  | MemoryRenamed memory_id memory_name memory_name
  | MemoryDeleted memory_id
  | MemoryContentAppended memory_id entry_id timestamp "temporal_ref option" string teller
      "conversation_ref option" visibility
  | MemorySuperseded memory_id entry_id entry_id
  | EntriesConsolidated memory_id "entry_id list" entry_id "produced_by option"
  | EntryRetracted memory_id entry_id string "produced_by option"
  | EntryAttested memory_id entry_id teller "conversation_ref option" timestamp visibility
      "string option" "entry_id option" "produced_by option"
  | AttestationRetracted memory_id entry_id teller string "produced_by option"
  | EntryTemporalResolved memory_id entry_id "temporal_ref option" "produced_by option"
  | EntryTemporalResolveFailed memory_id entry_id string string "produced_by option"
  | EntryDescriptionMirrored memory_id entry_id
  | ScheduledJobFired entry_id memory_id timestamp
  | ScheduledItemSurfaced entry_id memory_id session_id timestamp
  | MemoryDescriptionRegenerated memory_id string "produced_by option"
  | BeliefArbitrated memory_id "entry_id list" arbitration_resolution "produced_by option"
  | MergeProposed memory_id memory_id merge_proposal_source "string option"
  | ClassPrimaryDesignated memory_id bool
  | LinksInferred memory_id serialized "produced_by option"
  | DescribePassCompleted "memory_id list"
  | MaintenancePassCompleted maintenance_pass seq seq nat
  | MemoryVolatilitySet memory_id volatility
  | TagCreated tag_name string
  | TagDescriptionChanged tag_name string
  | TagAppliedToMemory memory_id tag_name
  | TagRemovedFromMemory memory_id tag_name
  | LinkTypeRegistered relation_name relation_name cardinality cardinality bool bool string
  | LinkCreated memory_id memory_id relation_name link_source "teller option"
      "conversation_ref option" visibility
  | LinkRemoved memory_id memory_id relation_name
  | PromptTemplateRegistered prompt_template_name nat string event_source
  | ConfigSet serialized event_source
  | EmbeddingModelChanged string string
  | LuaExecuted conversation_id turn_id string "string option" "memory_id list"
      "terminal_cause option" nat
  | ModelCalled conversation_id turn_id model_phase string "serialized option" serialized
      "string option" "string option" serialized nat
  | ModelCallAborted conversation_id turn_id model_phase nat string string string
  | AmbientRecallSurfaced conversation_id turn_id string "(memory_id \<times> serialized) list"
  | TurnSuperseded conversation_id turn_id string
  | ConversationTurn conversation_id turn_id turn_role string "memory_id option" initiation
      "produced_by option" "serialized option" "serialized list"
  | ConversationStarted conversation_id conversation_locator memory_id
  | ConversationEnded conversation_id
  | SessionStarted conversation_id session_id "memory_id list" timestamp "conversation_ref option"
      string "memory_id list" "memory_id list"
  | SessionEnded conversation_id session_id "session_end_cause option"
  | ParticipantJoined conversation_id session_id memory_id conversation_ref
  | ParticipantIdentified memory_id string string

record event =
  ev_seq :: seq
  ev_recorded_at :: timestamp
  ev_source :: event_source
  ev_payload :: event_payload

section \<open>Accessors\<close>

text \<open>The \<open>type\<close> tag of a payload.\<close>

primrec kind :: "event_payload \<Rightarrow> string" where
  "kind (GenesisCompleted x0 x1) = ''GenesisCompleted''"
| "kind (MemoryCreated x0 x1) = ''MemoryCreated''"
| "kind (MemoryRenamed x0 x1 x2) = ''MemoryRenamed''"
| "kind (MemoryDeleted x0) = ''MemoryDeleted''"
| "kind (MemoryContentAppended x0 x1 x2 x3 x4 x5 x6 x7) = ''MemoryContentAppended''"
| "kind (MemorySuperseded x0 x1 x2) = ''MemorySuperseded''"
| "kind (EntriesConsolidated x0 x1 x2 x3) = ''EntriesConsolidated''"
| "kind (EntryRetracted x0 x1 x2 x3) = ''EntryRetracted''"
| "kind (EntryAttested x0 x1 x2 x3 x4 x5 x6 x7 x8) = ''EntryAttested''"
| "kind (AttestationRetracted x0 x1 x2 x3 x4) = ''AttestationRetracted''"
| "kind (EntryTemporalResolved x0 x1 x2 x3) = ''EntryTemporalResolved''"
| "kind (EntryTemporalResolveFailed x0 x1 x2 x3 x4) = ''EntryTemporalResolveFailed''"
| "kind (EntryDescriptionMirrored x0 x1) = ''EntryDescriptionMirrored''"
| "kind (ScheduledJobFired x0 x1 x2) = ''ScheduledJobFired''"
| "kind (ScheduledItemSurfaced x0 x1 x2 x3) = ''ScheduledItemSurfaced''"
| "kind (MemoryDescriptionRegenerated x0 x1 x2) = ''MemoryDescriptionRegenerated''"
| "kind (BeliefArbitrated x0 x1 x2 x3) = ''BeliefArbitrated''"
| "kind (MergeProposed x0 x1 x2 x3) = ''MergeProposed''"
| "kind (ClassPrimaryDesignated x0 x1) = ''ClassPrimaryDesignated''"
| "kind (LinksInferred x0 x1 x2) = ''LinksInferred''"
| "kind (DescribePassCompleted x0) = ''DescribePassCompleted''"
| "kind (MaintenancePassCompleted x0 x1 x2 x3) = ''MaintenancePassCompleted''"
| "kind (MemoryVolatilitySet x0 x1) = ''MemoryVolatilitySet''"
| "kind (TagCreated x0 x1) = ''TagCreated''"
| "kind (TagDescriptionChanged x0 x1) = ''TagDescriptionChanged''"
| "kind (TagAppliedToMemory x0 x1) = ''TagAppliedToMemory''"
| "kind (TagRemovedFromMemory x0 x1) = ''TagRemovedFromMemory''"
| "kind (LinkTypeRegistered x0 x1 x2 x3 x4 x5 x6) = ''LinkTypeRegistered''"
| "kind (LinkCreated x0 x1 x2 x3 x4 x5 x6) = ''LinkCreated''"
| "kind (LinkRemoved x0 x1 x2) = ''LinkRemoved''"
| "kind (PromptTemplateRegistered x0 x1 x2 x3) = ''PromptTemplateRegistered''"
| "kind (ConfigSet x0 x1) = ''ConfigSet''"
| "kind (EmbeddingModelChanged x0 x1) = ''EmbeddingModelChanged''"
| "kind (LuaExecuted x0 x1 x2 x3 x4 x5 x6) = ''LuaExecuted''"
| "kind (ModelCalled x0 x1 x2 x3 x4 x5 x6 x7 x8 x9) = ''ModelCalled''"
| "kind (ModelCallAborted x0 x1 x2 x3 x4 x5 x6) = ''ModelCallAborted''"
| "kind (AmbientRecallSurfaced x0 x1 x2 x3) = ''AmbientRecallSurfaced''"
| "kind (TurnSuperseded x0 x1 x2) = ''TurnSuperseded''"
| "kind (ConversationTurn x0 x1 x2 x3 x4 x5 x6 x7 x8) = ''ConversationTurn''"
| "kind (ConversationStarted x0 x1 x2) = ''ConversationStarted''"
| "kind (ConversationEnded x0) = ''ConversationEnded''"
| "kind (SessionStarted x0 x1 x2 x3 x4 x5 x6 x7) = ''SessionStarted''"
| "kind (SessionEnded x0 x1 x2) = ''SessionEnded''"
| "kind (ParticipantJoined x0 x1 x2 x3) = ''ParticipantJoined''"
| "kind (ParticipantIdentified x0 x1 x2) = ''ParticipantIdentified''"

definition payload_version :: "event_payload \<Rightarrow> nat" where
  "payload_version p =
     (case p of
        MergeProposed _ _ _ _ \<Rightarrow> 3
      | ConversationTurn _ _ _ _ _ _ _ _ _ \<Rightarrow> 2
      | ConfigSet _ _ \<Rightarrow> 2
      | PromptTemplateRegistered _ _ _ _ \<Rightarrow> 2
      | _ \<Rightarrow> 1)"

text \<open>The entity the stores index an event by; \<open>ulid_str\<close> is the rendering of the \<open>ulid\<close> crate.\<close>

primrec target_id :: "(nat \<Rightarrow> string) \<Rightarrow> event_payload \<Rightarrow> string option" where
  "target_id ulid_str (GenesisCompleted x0 x1) = None"
| "target_id ulid_str (MemoryCreated i x1) = Some (ulid_str (memory_ulid i))"
| "target_id ulid_str (MemoryRenamed i x1 x2) = Some (ulid_str (memory_ulid i))"
| "target_id ulid_str (MemoryDeleted i) = Some (ulid_str (memory_ulid i))"
| "target_id ulid_str (MemoryContentAppended i x1 x2 x3 x4 x5 x6 x7) = Some (ulid_str (memory_ulid i))"
| "target_id ulid_str (MemorySuperseded i x1 x2) = Some (ulid_str (memory_ulid i))"
| "target_id ulid_str (EntriesConsolidated i x1 x2 x3) = Some (ulid_str (memory_ulid i))"
| "target_id ulid_str (EntryRetracted i x1 x2 x3) = Some (ulid_str (memory_ulid i))"
| "target_id ulid_str (EntryAttested i x1 x2 x3 x4 x5 x6 x7 x8) = Some (ulid_str (memory_ulid i))"
| "target_id ulid_str (AttestationRetracted i x1 x2 x3 x4) = Some (ulid_str (memory_ulid i))"
| "target_id ulid_str (EntryTemporalResolved i x1 x2 x3) = Some (ulid_str (memory_ulid i))"
| "target_id ulid_str (EntryTemporalResolveFailed i x1 x2 x3 x4) = Some (ulid_str (memory_ulid i))"
| "target_id ulid_str (EntryDescriptionMirrored i x1) = Some (ulid_str (memory_ulid i))"
| "target_id ulid_str (ScheduledJobFired x0 i x2) = Some (ulid_str (memory_ulid i))"
| "target_id ulid_str (ScheduledItemSurfaced x0 i x2 x3) = Some (ulid_str (memory_ulid i))"
| "target_id ulid_str (MemoryDescriptionRegenerated i x1 x2) = Some (ulid_str (memory_ulid i))"
| "target_id ulid_str (BeliefArbitrated i x1 x2 x3) = Some (ulid_str (memory_ulid i))"
| "target_id ulid_str (MergeProposed i x1 x2 x3) = Some (ulid_str (memory_ulid i))"
| "target_id ulid_str (ClassPrimaryDesignated i x1) = Some (ulid_str (memory_ulid i))"
| "target_id ulid_str (LinksInferred i x1 x2) = Some (ulid_str (memory_ulid i))"
| "target_id ulid_str (DescribePassCompleted x0) = None"
| "target_id ulid_str (MaintenancePassCompleted x0 x1 x2 x3) = None"
| "target_id ulid_str (MemoryVolatilitySet i x1) = Some (ulid_str (memory_ulid i))"
| "target_id ulid_str (TagCreated n x1) = Some (tag_name_str n)"
| "target_id ulid_str (TagDescriptionChanged n x1) = Some (tag_name_str n)"
| "target_id ulid_str (TagAppliedToMemory i x1) = Some (ulid_str (memory_ulid i))"
| "target_id ulid_str (TagRemovedFromMemory i x1) = Some (ulid_str (memory_ulid i))"
| "target_id ulid_str (LinkTypeRegistered n x1 x2 x3 x4 x5 x6) = Some (relation_name_str n)"
| "target_id ulid_str (LinkCreated i x1 x2 x3 x4 x5 x6) = Some (ulid_str (memory_ulid i))"
| "target_id ulid_str (LinkRemoved i x1 x2) = Some (ulid_str (memory_ulid i))"
| "target_id ulid_str (PromptTemplateRegistered n x1 x2 x3) = Some (prompt_template_name_as_str n)"
| "target_id ulid_str (ConfigSet x0 x1) = None"
| "target_id ulid_str (EmbeddingModelChanged x0 x1) = None"
| "target_id ulid_str (LuaExecuted c x1 x2 x3 x4 x5 x6) = Some (ulid_str (conversation_ulid c))"
| "target_id ulid_str (ModelCalled c x1 x2 x3 x4 x5 x6 x7 x8 x9) = Some (ulid_str (conversation_ulid c))"
| "target_id ulid_str (ModelCallAborted c x1 x2 x3 x4 x5 x6) = Some (ulid_str (conversation_ulid c))"
| "target_id ulid_str (AmbientRecallSurfaced c x1 x2 x3) = Some (ulid_str (conversation_ulid c))"
| "target_id ulid_str (TurnSuperseded c x1 x2) = Some (ulid_str (conversation_ulid c))"
| "target_id ulid_str (ConversationTurn c x1 x2 x3 x4 x5 x6 x7 x8) = Some (ulid_str (conversation_ulid c))"
| "target_id ulid_str (ConversationStarted c x1 x2) = Some (ulid_str (conversation_ulid c))"
| "target_id ulid_str (ConversationEnded c) = Some (ulid_str (conversation_ulid c))"
| "target_id ulid_str (SessionStarted c x1 x2 x3 x4 x5 x6 x7) = Some (ulid_str (conversation_ulid c))"
| "target_id ulid_str (SessionEnded c x1 x2) = Some (ulid_str (conversation_ulid c))"
| "target_id ulid_str (ParticipantJoined c x1 x2 x3) = Some (ulid_str (conversation_ulid c))"
| "target_id ulid_str (ParticipantIdentified i x1 x2) = Some (ulid_str (memory_ulid i))"

section \<open>Staleness\<close>

definition STALE_HIGH_DAYS :: rat where
  "STALE_HIGH_DAYS = 30"

text \<open>\<open>is_stale\<close>: the quotient of two integers below \<open>2 ^ 53\<close> compared with an integer bound, which
  the \<open>f64\<close> comparison of the source decides as exact arithmetic does: the division is correctly
  rounded and 30 is representable, so it is strictly above 30 only when the quotient is, up to the
  spacing of doubles near 30, which is below one millisecond's share of a day.\<close>

definition is_stale :: "volatility \<Rightarrow> timestamp \<Rightarrow> timestamp \<Rightarrow> bool" where
  "is_stale v effective_time now \<longleftrightarrow>
     v = Volatility_High
     \<and> rat_of_int (max (now - effective_time) 0) / rat_of_int MILLIS_PER_DAY > STALE_HIGH_DAYS"

section \<open>Lemmas\<close>

lemma is_stale_iff:
  "is_stale v t now \<longleftrightarrow> v = Volatility_High \<and> now - t > 30 * MILLIS_PER_DAY"
proof -
  have "rat_of_int x / 86400000 > 30 \<longleftrightarrow> x > 30 * 86400000" for x
    by (simp add: less_divide_eq)
  then show ?thesis by (auto simp: is_stale_def STALE_HIGH_DAYS_def millis_values)
qed

lemma trim_label: "p \<noteq> [] \<Longrightarrow> \<not> is_ws (hd p) \<Longrightarrow> trim (p @ i @ '')'') = p @ i @ '')''"
  by (rule trim_id) (simp add: is_ws_def less_eq_char_def)

lemma link_source_round_trip: "link_source_from_str (link_source_as_str s) = Some s"
proof (cases s)
  case (LinkSource_PlatformConnector i)
  have "trim (''PlatformConnector('' @ i @ '')'') = ''PlatformConnector('' @ i @ '')''"
    by (rule trim_label) (simp_all add: is_ws_def less_eq_char_def)
  moreover have "strip_prefix ''('' (''('' @ i @ '')'') = Some (i @ '')'')"
    by (rule strip_prefix_append)
  ultimately show ?thesis
    using LinkSource_PlatformConnector
    by (simp add: link_source_from_str_def strip_platform_connector_label_def Let_def
        eq_ignore_ascii_case_def to_ascii_lowercase_def ascii_lower_def less_eq_char_def)
qed (hypsubst, code_simp)+

lemma link_source_lower_round_trip: "link_source_from_str (link_source_as_str_lowercase s) = Some s"
proof (cases s)
  case (LinkSource_PlatformConnector i)
  have "trim (''platform_connector('' @ i @ '')'') = ''platform_connector('' @ i @ '')''"
    by (rule trim_label) (simp_all add: is_ws_def less_eq_char_def)
  moreover have "strip_prefix ''('' (''('' @ i @ '')'') = Some (i @ '')'')"
    by (rule strip_prefix_append)
  ultimately show ?thesis
    using LinkSource_PlatformConnector
    by (simp add: link_source_from_str_def strip_platform_connector_label_def Let_def
        eq_ignore_ascii_case_def to_ascii_lowercase_def ascii_lower_def less_eq_char_def)
qed (hypsubst, code_simp)+

lemma event_source_round_trip: "event_source_from_str (event_source_as_str s) = Some s"
proof (cases s)
  case (EventSource_PlatformConnector i)
  have "strip_prefix ''PlatformConnector('' (''PlatformConnector('' @ i @ '')'') = Some (i @ '')'')"
    by (rule strip_prefix_append)
  with EventSource_PlatformConnector show ?thesis by (simp add: event_source_from_str_def)
qed (simp_all add: event_source_from_str_def)

lemma volatility_round_trip:
  "volatility_from_str (volatility_as_str v) = Some v"
  "volatility_from_str (volatility_as_str_lowercase v) = Some v"
  by (cases v; hypsubst; code_simp)+

lemma cardinality_round_trip: "cardinality_from_str (cardinality_as_str c) = Some c"
  by (cases c; hypsubst; code_simp)

end
