(* ===== verification/Store.thy ===== *)
theory Store
  imports Events
begin

text \<open>
  The event log, \<open>crates/core/src/store/mod.rs\<close>, \<open>crates/core/src/store/memory.rs\<close> and
  \<open>src/store/sqlite.rs\<close>: the contract every backend is held to, as a locale with the facts its
  clients use, and the two backends, which interpret it.

  A subscription is an \<open>mpsc\<close> channel: whether its receiver still exists and what was sent to it. The
  SQLite backend keeps its rows in the order of the primary key \<open>seq\<close>; failures of the database
  itself (I/O, locking) are not modelled, those of the payload codec are. The \<open>serde_json\<close> codec of a
  payload is a parameter. Sequence numbers stay far below \<open>2 ^ 63\<close>, so the \<open>u64\<close>/\<open>i64\<close> casts of the
  SQLite backend are the identity.
\<close>

datatype store_error =
    StoreError_Backend string
  | StoreError_Serialize string

record channel =
  ch_open :: bool
  ch_queue :: "event list"

section \<open>Live feeds\<close>

text \<open>\<open>Sender::send\<close> and the short-circuiting \<open>all\<close> over a committed batch.\<close>

fun send_all :: "event list \<Rightarrow> channel \<Rightarrow> bool \<times> channel" where
  "send_all [] ch = (True, ch)"
| "send_all (e # es) ch =
     (if ch_open ch then send_all es (ch\<lparr>ch_queue := ch_queue ch @ [e]\<rparr>) else (False, ch))"

text \<open>\<open>notify\<close>: a \<open>retain\<close> over the subscribers.\<close>

fun notify :: "event list \<Rightarrow> channel list \<Rightarrow> channel list" where
  "notify committed [] = []"
| "notify committed (ch # chs) =
     (case send_all committed ch of
        (True, ch') \<Rightarrow> ch' # notify committed chs
      | (False, ch') \<Rightarrow> notify committed chs)"

lemma send_all_open:
  "ch_open ch \<Longrightarrow> send_all es ch = (True, ch\<lparr>ch_queue := ch_queue ch @ es\<rparr>)"
  by (induction es arbitrary: ch) auto

lemma notify_eq:
  "es \<noteq> [] \<Longrightarrow>
   notify es chs = map (\<lambda>ch. ch\<lparr>ch_queue := ch_queue ch @ es\<rparr>) (filter ch_open chs)"
proof (induction chs)
  case (Cons ch chs)
  then show ?case by (cases "ch_open ch"; cases es) (auto simp: send_all_open)
qed simp

section \<open>The contract\<close>

text \<open>\<open>stamp n t src ps\<close> are the events of a batch committed on top of head \<open>n\<close>.\<close>

fun stamp :: "seq \<Rightarrow> timestamp \<Rightarrow> event_source \<Rightarrow> event_payload list \<Rightarrow> event list" where
  "stamp n t src [] = []"
| "stamp n t src (p # ps) =
     \<lparr>ev_seq = seq_next n, ev_recorded_at = t, ev_source = src, ev_payload = p\<rparr>
     # stamp (seq_next n) t src ps"

definition consecutive :: "event list \<Rightarrow> bool" where
  "consecutive es \<longleftrightarrow> map ev_seq es = [1..<length es + 1]"

lemma length_stamp [simp]: "length (stamp n t src ps) = length ps"
  by (induction ps arbitrary: n) auto

lemma payloads_stamp [simp]: "map ev_payload (stamp n t src ps) = ps"
  by (induction ps arbitrary: n) auto

lemma seqs_stamp: "map ev_seq (stamp n t src ps) = [n + 1..<n + 1 + length ps]"
proof (induction ps arbitrary: n)
  case (Cons p ps)
  then show ?case
    by (simp add: seq_next_def upt_conv_Cons [of "Suc n"] del: upt_Suc)
qed simp

lemma consecutive_append_stamp:
  "consecutive es \<Longrightarrow> consecutive (es @ stamp (length es) t src ps)"
  using upt_add_eq_append [of 1 "length es + 1" "length ps"]
  by (simp add: consecutive_def seqs_stamp add.commute)

lemma consecutive_nth: "consecutive es \<Longrightarrow> i < length es \<Longrightarrow> ev_seq (es ! i) = i + 1"
proof -
  assume "consecutive es" "i < length es"
  then have "map ev_seq es ! i = [1..<length es + 1] ! i" by (simp add: consecutive_def)
  with \<open>i < length es\<close> show ?thesis by (simp del: upt_Suc)
qed

lemma consecutive_take: "consecutive es \<Longrightarrow> consecutive (take n es)"
proof -
  assume h: "consecutive es"
  have "map ev_seq (take n es) = take n [1..<length es + 1]"
    using h by (simp add: consecutive_def take_map [symmetric] del: upt_Suc)
  then show ?thesis by (simp add: consecutive_def min_def del: upt_Suc)
qed

lemma filter_ge_drop: "consecutive es \<Longrightarrow> filter (\<lambda>e. n \<le> ev_seq e) es = drop (n - 1) es"
proof (induction es rule: rev_induct)
  case (snoc e es)
  have c: "consecutive es" using consecutive_take [OF snoc.prems, of "length es"] by simp
  have "ev_seq e = length es + 1" using consecutive_nth [OF snoc.prems, of "length es"] by simp
  then show ?case using snoc.IH [OF c] by auto
qed simp

lemma filter_le_take: "consecutive es \<Longrightarrow> filter (\<lambda>e. ev_seq e \<le> n) es = take n es"
proof (induction es rule: rev_induct)
  case (snoc e es)
  have c: "consecutive es" using consecutive_take [OF snoc.prems, of "length es"] by simp
  have "ev_seq e = length es + 1" using consecutive_nth [OF snoc.prems, of "length es"] by simp
  then show ?case using snoc.IH [OF c] by auto
qed simp

locale event_log =
  fixes log :: "'s \<Rightarrow> event list"  \<comment> \<open>what the backend holds\<close>
    and log_inv :: "'s \<Rightarrow> bool"
    and storable :: "timestamp \<Rightarrow> event_source \<Rightarrow> event_payload \<Rightarrow> bool"
    and append :: "'s \<Rightarrow> timestamp \<Rightarrow> event_source \<Rightarrow> event_payload list
      \<Rightarrow> (store_error, event list) result \<times> 's"
    and read_from :: "'s \<Rightarrow> seq \<Rightarrow> (store_error, event list) result"
    and head :: "'s \<Rightarrow> (store_error, seq) result"
    and truncate_to :: "'s \<Rightarrow> seq \<Rightarrow> (store_error, nat) result \<times> 's"
    and feeds :: "'s \<Rightarrow> channel list"
    and subscribe :: "'s \<Rightarrow> 's"
  assumes log_consecutive: "log_inv s \<Longrightarrow> consecutive (log s)"
    and append_commits: "log_inv s \<Longrightarrow> list_all (storable t src) ps \<Longrightarrow>
      \<exists>s'. append s t src ps = (Inr (stamp (length (log s)) t src ps), s') \<and> log_inv s'
        \<and> log s' = log s @ stamp (length (log s)) t src ps
        \<and> feeds s' = notify (stamp (length (log s)) t src ps) (feeds s)"
    and append_fails: "append s t src ps = (Inl e, s') \<Longrightarrow> s' = s"
    and read_from_spec: "log_inv s \<Longrightarrow> read_from s n = Inr (filter (\<lambda>e. n \<le> ev_seq e) (log s))"
    and head_spec: "log_inv s \<Longrightarrow> head s = Inr (length (log s))"
    and truncate_spec: "log_inv s \<Longrightarrow>
      \<exists>s'. truncate_to s n = (Inr (length (log s) - n), s') \<and> log_inv s' \<and> log s' = take n (log s)
        \<and> feeds s' = feeds s"
    and subscribe_spec: "log_inv s \<Longrightarrow>
      log_inv (subscribe s) \<and> log (subscribe s) = log s
        \<and> feeds (subscribe s) = feeds s @ [\<lparr>ch_open = True, ch_queue = []\<rparr>]"
begin

lemma read_from_drop: "log_inv s \<Longrightarrow> read_from s n = Inr (drop (n - 1) (log s))"
  by (simp add: read_from_spec filter_ge_drop log_consecutive)

lemma read_all: "log_inv s \<Longrightarrow> read_from s seq_zero = Inr (log s)"
  by (simp add: read_from_drop seq_zero_def)

text \<open>Faithful replay: a full read after a commit is the earlier full read followed by the batch,
  and a read past the old head is exactly the batch.\<close>

lemma append_replays:
  assumes "log_inv s" "list_all (storable t src) ps" "head s = Inr n"
  shows "\<exists>es s'. append s t src ps = (Inr es, s') \<and> log_inv s' \<and> map ev_payload es = ps
    \<and> map ev_seq es = [n + 1..<n + 1 + length ps]
    \<and> list_all (\<lambda>e. ev_recorded_at e = t \<and> ev_source e = src) es
    \<and> read_from s' seq_zero = Inr (log s @ es) \<and> read_from s' (seq_next n) = Inr es
    \<and> head s' = Inr (n + length ps)"
proof -
  have n: "n = length (log s)" using assms by (simp add: head_spec)
  have st: "list_all (\<lambda>e. ev_recorded_at e = t \<and> ev_source e = src) (stamp m t src ps)" for m
    by (induction ps arbitrary: m) auto
  from append_commits [OF assms(1,2)] obtain s' where
    "append s t src ps = (Inr (stamp n t src ps), s')" "log_inv s'"
    "log s' = log s @ stamp n t src ps" unfolding n by blast
  with n show ?thesis
    by (intro exI [of _ "stamp n t src ps"] exI [of _ s'])
      (simp add: read_from_drop head_spec seqs_stamp seq_next_def seq_zero_def st)
qed

text \<open>Truncating back to the old head undoes a commit.\<close>

lemma truncate_undoes_append:
  assumes "log_inv s" "list_all (storable t src) ps" "append s t src ps = (Inr es, s')"
  shows "\<exists>s''. truncate_to s' (length (log s)) = (Inr (length ps), s'') \<and> log s'' = log s \<and> log_inv s''"
proof -
  from append_commits [OF assms(1,2)] assms(3) have s': "log_inv s'" "log s' = log s @ es"
    "es = stamp (length (log s)) t src ps" by auto
  from truncate_spec [OF s'(1), of "length (log s)"] s' show ?thesis by auto
qed

text \<open>An incremental reader that has seen the log up to \<open>n\<close> sees the rest by reading from \<open>n + 1\<close>.\<close>

lemma read_resumes:
  assumes "log_inv s"
  shows "\<exists>tl. read_from s (seq_next n) = Inr tl \<and> log s = take n (log s) @ tl"
  using assms by (simp add: read_from_drop seq_next_def)

end

section \<open>The in-memory backend\<close>

record memory_store =
  ms_events :: "event list"
  ms_subscribers :: "channel list"

definition memory_store_new :: memory_store where
  "memory_store_new = \<lparr>ms_events = [], ms_subscribers = []\<rparr>"

definition memory_store_from_events :: "event list \<Rightarrow> memory_store" where
  "memory_store_from_events es = \<lparr>ms_events = es, ms_subscribers = []\<rparr>"

definition ms_head :: "memory_store \<Rightarrow> (store_error, seq) result" where
  "ms_head s = Inr (if ms_events s = [] then seq_zero else ev_seq (last (ms_events s)))"

definition ms_append ::
  "memory_store \<Rightarrow> timestamp \<Rightarrow> event_source \<Rightarrow> event_payload list
    \<Rightarrow> (store_error, event list) result \<times> memory_store" where
  "ms_append s t src ps =
     (case ms_head s of
        Inl e \<Rightarrow> (Inl e, s)
      | Inr n \<Rightarrow>
          (let committed = stamp n t src ps
           in (Inr committed,
               s\<lparr>ms_events := ms_events s @ committed,
                 ms_subscribers := notify committed (ms_subscribers s)\<rparr>)))"

definition ms_read_from :: "memory_store \<Rightarrow> seq \<Rightarrow> (store_error, event list) result" where
  "ms_read_from s n = Inr (filter (\<lambda>e. n \<le> ev_seq e) (ms_events s))"

definition ms_truncate_to :: "memory_store \<Rightarrow> seq \<Rightarrow> (store_error, nat) result \<times> memory_store" where
  "ms_truncate_to s n =
     (let kept = filter (\<lambda>e. ev_seq e \<le> n) (ms_events s)
      in (Inr (length (ms_events s) - length kept), s\<lparr>ms_events := kept\<rparr>))"

definition ms_subscribe :: "memory_store \<Rightarrow> memory_store" where
  "ms_subscribe s = s\<lparr>ms_subscribers := ms_subscribers s @ [\<lparr>ch_open = True, ch_queue = []\<rparr>]\<rparr>"

text \<open>The default \<open>Store::recorded_at\<close>, over the backend's \<open>read_from\<close>.\<close>

definition recorded_at_default ::
  "('s \<Rightarrow> seq \<Rightarrow> (store_error, event list) result) \<Rightarrow> 's \<Rightarrow> seq
    \<Rightarrow> (store_error, timestamp option) result" where
  "recorded_at_default read s n =
     andthen (read s n) (\<lambda>es.
       Inr (case es of
              [] \<Rightarrow> None
            | e # _ \<Rightarrow> (if ev_seq e = n then Some (ev_recorded_at e) else None)))"

definition ms_inv :: "memory_store \<Rightarrow> bool" where
  "ms_inv s \<longleftrightarrow> consecutive (ms_events s)"

lemma ms_head_eq: "ms_inv s \<Longrightarrow> ms_head s = Inr (length (ms_events s))"
proof (cases "ms_events s" rule: rev_cases)
  case (snoc es e)
  assume "ms_inv s"
  with snoc consecutive_nth [of "es @ [e]" "length es"] show ?thesis
    by (simp add: ms_head_def ms_inv_def)
qed (simp add: ms_head_def seq_zero_def)

interpretation ms: event_log ms_events ms_inv "\<lambda>t src p. True" ms_append ms_read_from ms_head
  ms_truncate_to ms_subscribers ms_subscribe
proof unfold_locales
  fix s :: memory_store and t src and ps :: "event_payload list"
  assume "ms_inv s" "list_all (\<lambda>p. True) ps"
  then show "\<exists>s'. ms_append s t src ps = (Inr (stamp (length (ms_events s)) t src ps), s') \<and> ms_inv s'
      \<and> ms_events s' = ms_events s @ stamp (length (ms_events s)) t src ps
      \<and> ms_subscribers s' = notify (stamp (length (ms_events s)) t src ps) (ms_subscribers s)"
    by (simp add: ms_append_def ms_head_eq Let_def ms_inv_def consecutive_append_stamp)
next
  fix s :: memory_store and n
  assume "ms_inv s"
  then show "\<exists>s'. ms_truncate_to s n = (Inr (length (ms_events s) - n), s') \<and> ms_inv s'
      \<and> ms_events s' = take n (ms_events s) \<and> ms_subscribers s' = ms_subscribers s"
    by (simp add: ms_truncate_to_def Let_def ms_inv_def filter_le_take consecutive_take)
qed (auto simp: ms_inv_def ms_append_def ms_read_from_def ms_head_eq ms_subscribe_def Let_def
    split: sum.splits)

section \<open>The SQLite backend\<close>

text \<open>The \<open>serde_json\<close> codec of a payload. It may refuse a payload, and it does not round-trip
  every payload (the retired \<open>source\<close> of a \<open>ConfigSet\<close> is not serialized and reads back as the
  default), so what the backend relies on is stated of the payloads of a batch, \<open>sq_storable\<close>.\<close>

record serde =
  to_json :: "event_payload \<Rightarrow> (string, string) result"
  from_json :: "string \<Rightarrow> (string, event_payload) result"

record event_row =
  row_seq :: seq
  row_recorded_at :: int
  row_type :: string
  row_target_id :: "string option"
  row_version :: nat
  row_source :: string
  row_payload :: string

record sqlite_store =
  sq_events :: "event_row list"  \<comment> \<open>in primary-key order\<close>
  sq_subscribers :: "channel list"

definition sq_max_seq :: "event_row list \<Rightarrow> seq" where
  "sq_max_seq rows = fold (\<lambda>r m. max (row_seq r) m) rows 0"

definition sq_head :: "sqlite_store \<Rightarrow> (store_error, seq) result" where
  "sq_head s = Inr (sq_max_seq (sq_events s))"

text \<open>The loop of \<open>append\<close>: the rows inserted in the transaction and the committed events. A codec
  error leaves by \<open>?\<close> and the transaction is rolled back.\<close>

fun sq_insert_all ::
  "serde \<Rightarrow> (nat \<Rightarrow> string) \<Rightarrow> timestamp \<Rightarrow> event_source \<Rightarrow> seq \<Rightarrow> event_payload list
    \<Rightarrow> (store_error, event_row list \<times> event list) result" where
  "sq_insert_all S U t src n [] = Inr ([], [])"
| "sq_insert_all S U t src n (p # ps) =
     (case to_json S p of
        Inl e \<Rightarrow> Inl (StoreError_Serialize e)
      | Inr json \<Rightarrow>
          andthen (sq_insert_all S U t src (n + 1) ps) (\<lambda>(rows, es).
            Inr (\<lparr>row_seq = n + 1, row_recorded_at = t, row_type = kind p,
                  row_target_id = target_id U p, row_version = payload_version p,
                  row_source = event_source_as_str src, row_payload = json\<rparr> # rows,
                 \<lparr>ev_seq = n + 1, ev_recorded_at = t, ev_source = src, ev_payload = p\<rparr> # es)))"

definition sq_append ::
  "serde \<Rightarrow> (nat \<Rightarrow> string) \<Rightarrow> sqlite_store \<Rightarrow> timestamp \<Rightarrow> event_source \<Rightarrow> event_payload list
    \<Rightarrow> (store_error, event list) result \<times> sqlite_store" where
  "sq_append S U s t src ps =
     (case sq_insert_all S U t src (sq_max_seq (sq_events s)) ps of
        Inl e \<Rightarrow> (Inl e, s)
      | Inr (rows, committed) \<Rightarrow>
          (Inr committed,
           s\<lparr>sq_events := sq_events s @ rows,
             sq_subscribers := notify committed (sq_subscribers s)\<rparr>))"

text \<open>The row reader of \<open>read_from\<close>.\<close>

definition sq_decode :: "jiff \<Rightarrow> serde \<Rightarrow> event_row \<Rightarrow> (store_error, event) result" where
  "sq_decode J S r =
     (case try_from_millis J (row_recorded_at r) of
        None \<Rightarrow> Inl (StoreError_Backend ''recorded_at is outside the representable range'')
      | Some t \<Rightarrow>
          (case from_json S (row_payload r) of
             Inl e \<Rightarrow> Inl (StoreError_Serialize e)
           | Inr p \<Rightarrow>
               Inr \<lparr>ev_seq = row_seq r, ev_recorded_at = t,
                    ev_source = (case event_source_from_str (row_source r) of
                                   Some src \<Rightarrow> src | None \<Rightarrow> EventSource_Agent),
                    ev_payload = p\<rparr>))"

definition sq_read_from :: "jiff \<Rightarrow> serde \<Rightarrow> sqlite_store \<Rightarrow> seq \<Rightarrow> (store_error, event list) result" where
  "sq_read_from J S s n = mapM (sq_decode J S) (filter (\<lambda>r. n \<le> row_seq r) (sq_events s))"

definition sq_recorded_at :: "jiff \<Rightarrow> sqlite_store \<Rightarrow> seq \<Rightarrow> (panic, timestamp option) result" where
  "sq_recorded_at J s n =
     (case filter (\<lambda>r. row_seq r = n) (sq_events s) of
        [] \<Rightarrow> Inr None
      | r # _ \<Rightarrow> andthen (from_millis J (row_recorded_at r)) (\<lambda>t. Inr (Some t)))"

definition sq_truncate_to :: "sqlite_store \<Rightarrow> seq \<Rightarrow> (store_error, nat) result \<times> sqlite_store" where
  "sq_truncate_to s n =
     (let kept = filter (\<lambda>r. row_seq r \<le> n) (sq_events s)
      in (Inr (length (filter (\<lambda>r. \<not> row_seq r \<le> n) (sq_events s))), s\<lparr>sq_events := kept\<rparr>))"

definition sq_subscribe :: "sqlite_store \<Rightarrow> sqlite_store" where
  "sq_subscribe s = s\<lparr>sq_subscribers := sq_subscribers s @ [\<lparr>ch_open = True, ch_queue = []\<rparr>]\<rparr>"

section \<open>The SQLite backend keeps the contract\<close>

definition sq_log :: "jiff \<Rightarrow> serde \<Rightarrow> sqlite_store \<Rightarrow> event list" where
  "sq_log J S s = map (\<lambda>r. projr (sq_decode J S r)) (sq_events s)"

definition sq_inv :: "jiff \<Rightarrow> serde \<Rightarrow> sqlite_store \<Rightarrow> bool" where
  "sq_inv J S s \<longleftrightarrow>
     map row_seq (sq_events s) = [1..<length (sq_events s) + 1]
     \<and> list_all (\<lambda>r. is_ok (sq_decode J S r)) (sq_events s)"

definition sq_storable :: "jiff \<Rightarrow> serde \<Rightarrow> timestamp \<Rightarrow> event_source \<Rightarrow> event_payload \<Rightarrow> bool" where
  "sq_storable J S t src p \<longleftrightarrow>
     ts_in_range J t
     \<and> (case to_json S p of Inl e \<Rightarrow> False | Inr json \<Rightarrow> from_json S json = Inr p)"

lemma sq_decode_seq: "sq_decode J S r = Inr e \<Longrightarrow> ev_seq e = row_seq r"
  by (auto simp: sq_decode_def split: option.splits sum.splits)

lemma sq_log_seqs:
  "list_all (\<lambda>r. is_ok (sq_decode J S r)) rows \<Longrightarrow>
   map (\<lambda>r. ev_seq (projr (sq_decode J S r))) rows = map row_seq rows"
  by (induction rows) (auto simp: is_ok_iff sq_decode_seq)

lemma sq_log_filter:
  "list_all (\<lambda>r. is_ok (sq_decode J S r)) rows \<Longrightarrow>
   map (\<lambda>r. projr (sq_decode J S r)) (filter (\<lambda>r. Q (row_seq r)) rows)
     = filter (\<lambda>e. Q (ev_seq e)) (map (\<lambda>r. projr (sq_decode J S r)) rows)"
  by (induction rows) (auto simp: is_ok_iff sq_decode_seq)

lemma sq_mapM_decode:
  "list_all (\<lambda>r. is_ok (sq_decode J S r)) rows \<Longrightarrow>
   mapM (sq_decode J S) rows = Inr (map (\<lambda>r. projr (sq_decode J S r)) rows)"
  by (rule mapM_total) (auto simp: list_all_iff is_ok_iff)

lemma sq_inv_consecutive: "sq_inv J S s \<Longrightarrow> consecutive (sq_log J S s)"
  by (simp add: sq_inv_def sq_log_def consecutive_def comp_def sq_log_seqs)

lemma fold_max_upt: "fold max [1..<k + 1] 0 = (k::nat)"
  by (induction k) (auto simp: max_def)

lemma sq_max_seq_eq: "sq_inv J S s \<Longrightarrow> sq_max_seq (sq_events s) = length (sq_log J S s)"
proof -
  assume h: "sq_inv J S s"
  have "sq_max_seq (sq_events s) = fold max (map row_seq (sq_events s)) 0"
    by (simp add: sq_max_seq_def fold_map comp_def)
  also have "\<dots> = fold max [1..<length (sq_events s) + 1] 0" using h by (simp only: sq_inv_def)
  finally show ?thesis by (simp only: fold_max_upt sq_log_def length_map)
qed

text \<open>A storable batch encodes to rows that decode to its events.\<close>

lemma sq_insert_all_spec:
  "list_all (sq_storable J S t src) ps \<Longrightarrow>
   \<exists>rows. sq_insert_all S U t src n ps = Inr (rows, stamp n t src ps)
     \<and> map row_seq rows = [n + 1..<n + 1 + length ps]
     \<and> map (sq_decode J S) rows = map Inr (stamp n t src ps)"
proof (induction ps arbitrary: n)
  case (Cons p ps)
  from Cons.prems obtain json where j: "to_json S p = Inr json" "from_json S json = Inr p"
    and t: "ts_in_range J t" by (auto simp: sq_storable_def split: sum.splits)
  from Cons.IH [of "n + 1"] Cons.prems obtain rows where
    r: "sq_insert_all S U t src (n + 1) ps = Inr (rows, stamp (n + 1) t src ps)"
    "map row_seq rows = [n + 1 + 1..<n + 1 + 1 + length ps]"
    "map (sq_decode J S) rows = map Inr (stamp (n + 1) t src ps)" by auto
  let ?row = "\<lparr>row_seq = n + 1, row_recorded_at = t, row_type = kind p,
    row_target_id = target_id U p, row_version = payload_version p,
    row_source = event_source_as_str src, row_payload = json\<rparr>"
  have "sq_decode J S ?row = Inr \<lparr>ev_seq = n + 1, ev_recorded_at = t, ev_source = src, ev_payload = p\<rparr>"
    using j t by (simp add: sq_decode_def try_from_millis_def event_source_round_trip)
  with j r show ?case
    by (intro exI [of _ "?row # rows"]) (simp add: seq_next_def upt_conv_Cons [of "Suc n"] del: upt_Suc)
qed simp

lemma decoded_rows:
  "map (sq_decode J S) rows = map Inr es \<Longrightarrow>
   list_all (\<lambda>r. is_ok (sq_decode J S r)) rows \<and> map (\<lambda>r. projr (sq_decode J S r)) rows = es"
proof (induction rows arbitrary: es)
  case (Cons r rows)
  then show ?case by (cases es) (auto simp: is_ok_iff)
qed simp

lemma sq_append_spec:
  assumes "sq_inv J S s" "list_all (sq_storable J S t src) ps"
  shows "\<exists>s'. sq_append S U s t src ps = (Inr (stamp (length (sq_log J S s)) t src ps), s')
    \<and> sq_inv J S s' \<and> sq_log J S s' = sq_log J S s @ stamp (length (sq_log J S s)) t src ps
    \<and> sq_subscribers s' = notify (stamp (length (sq_log J S s)) t src ps) (sq_subscribers s)"
proof -
  let ?n = "length (sq_log J S s)"
  from sq_insert_all_spec [OF assms(2), of U ?n] obtain rows where
    r: "sq_insert_all S U t src ?n ps = Inr (rows, stamp ?n t src ps)"
    "map row_seq rows = [?n + 1..<?n + 1 + length ps]"
    "map (sq_decode J S) rows = map Inr (stamp ?n t src ps)" by blast
  from decoded_rows [OF r(3)] have d: "list_all (\<lambda>r. is_ok (sq_decode J S r)) rows"
    "map (\<lambda>r. projr (sq_decode J S r)) rows = stamp ?n t src ps" by auto
  from r(3) have len: "length rows = length ps" using map_eq_imp_length_eq by fastforce
  have "[1..<?n + 1] @ [?n + 1..<?n + 1 + length ps] = [1..<?n + 1 + length ps]"
    using upt_add_eq_append [of 1 "?n + 1" "length ps"] by simp
  with assms(1) d len r(2) have "sq_inv J S (s\<lparr>sq_events := sq_events s @ rows, sq_subscribers := x\<rparr>)" for x
    by (simp add: sq_inv_def sq_log_def add.assoc del: upt_Suc)
  with d r(1) show ?thesis
    by (simp add: sq_append_def sq_max_seq_eq [OF assms(1)]) (simp add: sq_log_def)
qed

lemma sq_truncate_spec:
  assumes "sq_inv J S s"
  shows "\<exists>s'. sq_truncate_to s n = (Inr (length (sq_log J S s) - n), s') \<and> sq_inv J S s'
    \<and> sq_log J S s' = take n (sq_log J S s) \<and> sq_subscribers s' = sq_subscribers s"
proof -
  let ?kept = "filter (\<lambda>r. row_seq r \<le> n) (sq_events s)"
  have ok: "list_all (\<lambda>r. is_ok (sq_decode J S r)) (sq_events s)" using assms by (simp add: sq_inv_def)
  have log: "map (\<lambda>r. projr (sq_decode J S r)) ?kept = take n (sq_log J S s)"
    unfolding sq_log_filter [OF ok, of "\<lambda>i. i \<le> n"] sq_log_def [symmetric]
    by (rule filter_le_take [OF sq_inv_consecutive [OF assms]])
  then have len: "length ?kept = min (length (sq_log J S s)) n"
    by (metis length_map length_take)
  have kept_ok: "list_all (\<lambda>r. is_ok (sq_decode J S r)) ?kept" using ok by (auto simp: list_all_iff)
  have "map row_seq ?kept = map ev_seq (take n (sq_log J S s))"
    using sq_log_seqs [OF kept_ok] by (simp add: log [symmetric] comp_def)
  also have "\<dots> = [1..<length ?kept + 1]"
    using consecutive_take [OF sq_inv_consecutive [OF assms], of n] len
    by (simp add: consecutive_def del: upt_Suc)
  finally have inv: "sq_inv J S (s\<lparr>sq_events := ?kept\<rparr>)"
    using kept_ok by (simp add: sq_inv_def del: upt_Suc)
  have "length (filter (\<lambda>r. \<not> row_seq r \<le> n) (sq_events s)) = length (sq_log J S s) - n"
    using sum_length_filter_compl [of "\<lambda>r. row_seq r \<le> n" "sq_events s"] len
    by (simp add: sq_log_def)
  with inv log show ?thesis by (simp add: sq_truncate_to_def Let_def) (simp add: sq_log_def)
qed

lemma filter_position:
  "map f xs = [1..<length xs + 1] \<Longrightarrow>
   filter (\<lambda>x. f x = n) xs = (if 1 \<le> n \<and> n \<le> length xs then [xs ! (n - 1)] else [])"
proof (induction xs rule: rev_induct)
  case (snoc x xs)
  then show ?case by (auto simp: nth_append)
qed simp

lemma sq_append_fails: "sq_append S U s t src ps = (Inl e, s') \<Longrightarrow> s' = s"
  by (auto simp: sq_append_def split: sum.splits)

lemma sq_subscribe_spec:
  "sq_inv J S s \<Longrightarrow> sq_inv J S (sq_subscribe s) \<and> sq_log J S (sq_subscribe s) = sq_log J S s
     \<and> sq_subscribers (sq_subscribe s) = sq_subscribers s @ [\<lparr>ch_open = True, ch_queue = []\<rparr>]"
  by (simp add: sq_subscribe_def sq_inv_def sq_log_def)

interpretation sq: event_log "sq_log J S" "sq_inv J S" "sq_storable J S" "sq_append S U"
  "sq_read_from J S" sq_head sq_truncate_to sq_subscribers sq_subscribe
  for J S U
proof unfold_locales
  fix s n
  assume "sq_inv J S s"
  then have "list_all (\<lambda>r. is_ok (sq_decode J S r)) (sq_events s)" by (simp add: sq_inv_def)
  then show "sq_read_from J S s n = Inr (filter (\<lambda>e. n \<le> ev_seq e) (sq_log J S s))"
    by (subst sq_read_from_def, subst sq_mapM_decode)
      (auto simp: list_all_iff sq_log_def sq_log_filter [of J S _ "\<lambda>i. n \<le> i"])
next
  fix s
  assume "sq_inv J S s"
  then show "sq_head s = Inr (length (sq_log J S s))"
    by (simp add: sq_head_def sq_max_seq_eq)
qed (auto simp: sq_inv_consecutive sq_append_spec sq_truncate_spec sq_subscribe_spec
    dest: sq_append_fails)

section \<open>Properties\<close>

text \<open>
  faithful replay of the durable log. A batch of payloads the codec round-trips is committed
  whole, stamped with consecutive positions after the head and with the batch's time and authority;
  a full read afterwards is the earlier log followed by the batch, and a read past the old head is
  the batch.
\<close>

theorem sqlite_append_replays:
  assumes "sq_inv J S s" "list_all (sq_storable J S t src) ps" "sq_head s = Inr n"
  shows "\<exists>es s'. sq_append S U s t src ps = (Inr es, s') \<and> sq_inv J S s' \<and> map ev_payload es = ps
    \<and> map ev_seq es = [n + 1..<n + 1 + length ps]
    \<and> list_all (\<lambda>e. ev_recorded_at e = t \<and> ev_source e = src) es
    \<and> sq_read_from J S s' seq_zero = Inr (sq_log J S s @ es)
    \<and> sq_read_from J S s' (seq_next n) = Inr es
    \<and> sq_head s' = Inr (n + length ps)"
  using assms by (rule sq.append_replays)

text \<open>A codec that knows one payload, and an empty store, for the witnesses.\<close>

definition one_payload_serde :: "event_payload \<Rightarrow> serde" where
  "one_payload_serde p0 =
     \<lparr>to_json = (\<lambda>p. if p = p0 then Inr ''{}'' else Inl ''unsupported''),
      from_json = (\<lambda>j. if j = ''{}'' then Inr p0 else Inl ''unsupported'')\<rparr>"

definition empty_sqlite :: sqlite_store where
  "empty_sqlite = \<lparr>sq_events = [], sq_subscribers = [\<lparr>ch_open = True, ch_queue = []\<rparr>]\<rparr>"

definition all_times :: jiff where
  "all_times =
     \<lparr>ts_in_range = (\<lambda>m. \<bar>m\<bar> \<le> 253402207200999), parse_civil_date = (\<lambda>_. None),
      civil_midnight_utc = (\<lambda>_. None), parse_iso_timestamp = (\<lambda>_. None),
      strftime_utc = (\<lambda>t f. show_int t), span_months_ok = (\<lambda>_. False),
      span_years_ok = (\<lambda>_. False), zoned_add_utc = (\<lambda>t m y. None)\<rparr>"

theorem sqlite_append_replays_witness:
  "let p = MemoryDeleted (MemoryId 7); S = one_payload_serde p in
    \<exists>es s'. sq_append S show_nat empty_sqlite 5 EventSource_Operator [p, p] = (Inr es, s')
    \<and> sq_inv all_times S s' \<and> map ev_payload es = [p, p] \<and> map ev_seq es = [1, 2]
    \<and> list_all (\<lambda>e. ev_recorded_at e = 5 \<and> ev_source e = EventSource_Operator) es
    \<and> sq_read_from all_times S s' seq_zero = Inr es
    \<and> sq_read_from all_times S s' (seq_next 0) = Inr es \<and> sq_head s' = Inr 2"
proof -
  let ?p = "MemoryDeleted (MemoryId 7)"
  let ?S = "one_payload_serde ?p"
  have "sq_inv all_times ?S empty_sqlite" "sq_log all_times ?S empty_sqlite = []"
    by (simp_all add: sq_inv_def sq_log_def empty_sqlite_def)
  moreover have "list_all (sq_storable all_times ?S 5 EventSource_Operator) [?p, ?p]"
    by (simp add: sq_storable_def one_payload_serde_def all_times_def)
  moreover have "sq_head empty_sqlite = Inr 0" by (simp add: sq_head_def sq_max_seq_def empty_sqlite_def)
  ultimately show ?thesis
    using sqlite_append_replays [of all_times ?S empty_sqlite 5 EventSource_Operator "[?p, ?p]" 0 show_nat]
    by (simp add: Let_def upt_rec numeral_2_eq_2)
qed

text \<open>
  an append is atomic. When the codec refuses one payload of the batch, the append reports the
  serialization error and the log, its head and every subscriber's feed are as before; it fails in no
  other case.
\<close>

theorem sqlite_append_atomic:
  "case sq_append S U s t src ps of
     (Inl e, s') \<Rightarrow> s' = s \<and> (\<exists>p \<in> set ps. \<exists>m. to_json S p = Inl m \<and> e = StoreError_Serialize m)
   | (Inr es, s') \<Rightarrow> list_all (\<lambda>p. is_ok (to_json S p)) ps \<and> map ev_payload es = ps
       \<and> sq_subscribers s' = notify es (sq_subscribers s)"
proof -
  have ins: "case sq_insert_all S U t src n ps of
      Inl e \<Rightarrow> (\<exists>p \<in> set ps. \<exists>m. to_json S p = Inl m \<and> e = StoreError_Serialize m)
    | Inr (rows, es) \<Rightarrow> list_all (\<lambda>p. is_ok (to_json S p)) ps \<and> map ev_payload es = ps" for n
  proof (induction ps arbitrary: n)
    case (Cons p ps)
    show ?case
      using Cons.IH [of "n + 1"]
      by (cases "to_json S p"; cases "sq_insert_all S U t src (n + 1) ps") (auto simp: is_ok_iff)
  qed simp
  show ?thesis using ins [of "sq_max_seq (sq_events s)"]
    by (auto simp: sq_append_def split: sum.splits)
qed

definition stores_related :: "jiff \<Rightarrow> serde \<Rightarrow> sqlite_store \<Rightarrow> memory_store \<Rightarrow> bool" where
  "stores_related J S q m \<longleftrightarrow>
     sq_inv J S q \<and> sq_log J S q = ms_events m \<and> sq_subscribers q = ms_subscribers m"

text \<open>
  the two backends are interchangeable. Related stores, holding the same log and the same feeds,
  answer a read and a head query alike, and commit and truncate to related stores with the same
  result.
\<close>

theorem backends_agree:
  assumes "stores_related J S q m" "list_all (sq_storable J S t src) ps"
  shows "sq_read_from J S q n = ms_read_from m n \<and> sq_head q = ms_head m
    \<and> fst (sq_truncate_to q n) = fst (ms_truncate_to m n)
    \<and> stores_related J S (snd (sq_truncate_to q n)) (snd (ms_truncate_to m n))
    \<and> fst (sq_append S U q t src ps) = fst (ms_append m t src ps)
    \<and> stores_related J S (snd (sq_append S U q t src ps)) (snd (ms_append m t src ps))"
proof -
  from assms(1) have i: "sq_inv J S q" "sq_log J S q = ms_events m"
    "sq_subscribers q = ms_subscribers m" by (auto simp: stores_related_def)
  have m: "ms_inv m" using sq_inv_consecutive [OF i(1)] i(2) by (simp add: ms_inv_def)
  have "sq_read_from J S q n = ms_read_from m n"
    using i by (simp add: sq.read_from_spec ms_read_from_def)
  moreover have "sq_head q = ms_head m" using i m by (simp add: sq.head_spec [of J S] ms_head_eq)
  moreover have "fst (sq_truncate_to q n) = fst (ms_truncate_to m n)
      \<and> stores_related J S (snd (sq_truncate_to q n)) (snd (ms_truncate_to m n))"
    using sq.truncate_spec [OF i(1), of n] ms.truncate_spec [OF m, of n] i
    by (auto simp: stores_related_def)
  moreover have "fst (sq_append S U q t src ps) = fst (ms_append m t src ps)
      \<and> stores_related J S (snd (sq_append S U q t src ps)) (snd (ms_append m t src ps))"
    using sq.append_commits [OF i(1) assms(2), of U] ms.append_commits [OF m, of ps t src] i
    by (auto simp: stores_related_def list_all_iff)
  ultimately show ?thesis by blast
qed

theorem backends_agree_witness:
  "let p = MemoryDeleted (MemoryId 7); S = one_payload_serde p;
       m = \<lparr>ms_events = [], ms_subscribers = [\<lparr>ch_open = True, ch_queue = []\<rparr>]\<rparr> in
    sq_head empty_sqlite = ms_head m
    \<and> fst (sq_append S show_nat empty_sqlite 5 EventSource_Agent [p]) = fst (ms_append m 5 EventSource_Agent [p])
    \<and> stores_related all_times S (snd (sq_append S show_nat empty_sqlite 5 EventSource_Agent [p]))
        (snd (ms_append m 5 EventSource_Agent [p]))"
proof -
  let ?p = "MemoryDeleted (MemoryId 7)"
  let ?S = "one_payload_serde ?p"
  let ?m = "\<lparr>ms_events = [], ms_subscribers = [\<lparr>ch_open = True, ch_queue = []\<rparr>]\<rparr>"
  have "stores_related all_times ?S empty_sqlite ?m"
    by (simp add: stores_related_def sq_inv_def sq_log_def empty_sqlite_def)
  moreover have "list_all (sq_storable all_times ?S 5 EventSource_Agent) [?p]"
    by (simp add: sq_storable_def one_payload_serde_def all_times_def)
  ultimately show ?thesis
    using backends_agree [of all_times ?S empty_sqlite ?m 5 EventSource_Agent "[?p]" 0 show_nat]
    by (simp add: Let_def)
qed

text \<open>
  reverting undoes a commit. Truncating the durable log to the head it had before a batch
  removes exactly the batch and leaves the earlier log.
\<close>

theorem sqlite_truncate_undoes_append:
  assumes "sq_inv J S s" "list_all (sq_storable J S t src) ps" "sq_head s = Inr n"
    and "sq_append S U s t src ps = (Inr es, s')"
  shows "\<exists>s''. sq_truncate_to s' n = (Inr (length ps), s'') \<and> sq_log J S s'' = sq_log J S s
    \<and> sq_inv J S s''"
  using sq.truncate_undoes_append [OF assms(1,2,4)] assms(1,3) by (simp add: sq.head_spec [of J S])

theorem sqlite_truncate_undoes_append_witness:
  "let p = MemoryDeleted (MemoryId 7); S = one_payload_serde p;
       s' = snd (sq_append S show_nat empty_sqlite 5 EventSource_Agent [p]) in
    \<exists>s''. sq_truncate_to s' 0 = (Inr 1, s'') \<and> sq_log all_times S s'' = [] \<and> sq_inv all_times S s''"
proof -
  let ?p = "MemoryDeleted (MemoryId 7)"
  let ?S = "one_payload_serde ?p"
  have e: "sq_inv all_times ?S empty_sqlite" "sq_log all_times ?S empty_sqlite = []"
    by (simp_all add: sq_inv_def sq_log_def empty_sqlite_def)
  have p: "list_all (sq_storable all_times ?S 5 EventSource_Agent) [?p]"
    by (simp add: sq_storable_def one_payload_serde_def all_times_def)
  have h: "sq_head empty_sqlite = Inr 0" by (simp add: sq_head_def sq_max_seq_def empty_sqlite_def)
  obtain es s' where a: "sq_append ?S show_nat empty_sqlite 5 EventSource_Agent [?p] = (Inr es, s')"
    using sq.append_commits [OF e(1) p, of show_nat] by blast
  from sqlite_truncate_undoes_append [OF e(1) p h a] a e(2) show ?thesis by (simp add: Let_def)
qed

text \<open>
  the indexed \<open>recorded_at\<close> of the SQLite backend dates an event as the scanning default does, and
  never panics on a log whose rows decode.
\<close>

theorem sqlite_recorded_at_agrees:
  assumes "sq_inv J S s"
  shows "\<exists>t. sq_recorded_at J s n = Inr t \<and> recorded_at_default (sq_read_from J S) s n = Inr t"
proof -
  have seqs: "map row_seq (sq_events s) = [1..<length (sq_events s) + 1]"
    using assms by (simp add: sq_inv_def)
  have read: "sq_read_from J S s n = Inr (drop (n - 1) (sq_log J S s))"
    by (rule sq.read_from_drop [OF assms])
  show ?thesis
  proof (cases "1 \<le> n \<and> n \<le> length (sq_events s)")
    case True
    let ?r = "sq_events s ! (n - 1)"
    from True have lt: "n - 1 < length (sq_events s)" by arith
    then have "?r \<in> set (sq_events s)" by (rule nth_mem)
    with assms obtain e where e: "sq_decode J S ?r = Inr e"
      by (auto simp: sq_inv_def list_all_iff is_ok_iff)
    then have t: "ts_in_range J (row_recorded_at ?r)" "ev_recorded_at e = row_recorded_at ?r"
      by (auto simp: sq_decode_def try_from_millis_def split: if_splits sum.splits)
    have d: "drop (n - 1) (sq_log J S s) = e # drop n (sq_log J S s)"
      using True e lt Cons_nth_drop_Suc [of "n - 1" "sq_log J S s"]
      by (simp add: sq_log_def)
    have "ev_seq e = n"
      using True lt e consecutive_nth [OF sq_inv_consecutive [OF assms], of "n - 1"]
      by (simp add: sq_log_def)
    with t d show ?thesis
      using filter_position [OF seqs, of n] True
      by (simp add: sq_recorded_at_def recorded_at_default_def read)
        (simp add: from_millis_def try_from_millis_def)
  next
    case False
    have "recorded_at_default (sq_read_from J S) s n = Inr None"
    proof (cases "drop (n - 1) (sq_log J S s)")
      case (Cons e es)
      then have "n - 1 < length (sq_log J S s)"
        by (metis drop_all linorder_not_le list.distinct(1))
      with False have "n = 0" by (auto simp: sq_log_def)
      with Cons consecutive_nth [OF sq_inv_consecutive [OF assms], of 0] show ?thesis
        unfolding recorded_at_default_def read by simp
    qed (simp add: recorded_at_default_def read)
    then show ?thesis
      using filter_position [OF seqs, of n] False by (auto simp: sq_recorded_at_def)
  qed
qed

theorem sqlite_recorded_at_agrees_witness:
  "\<exists>t. sq_recorded_at all_times empty_sqlite 3 = Inr t
    \<and> recorded_at_default (sq_read_from all_times (one_payload_serde (MemoryDeleted (MemoryId 7))))
        empty_sqlite 3 = Inr t"
  by (rule sqlite_recorded_at_agrees) (simp add: sq_inv_def empty_sqlite_def)

end
