(* ===== verification/Views.thy ===== *)
theory Views
  imports Events Store
begin

text \<open>
  The read-model view types of the materialized graph, \<open>crates/core/src/graph/views.rs\<close>, and its
  errors, \<open>crates/core/src/graph/error.rs\<close>: the shapes the queries return and the visibility
  predicate reads.
\<close>

section \<open>Errors\<close>

text \<open>A \<open>rusqlite::Error\<close> the projection can raise is a violated constraint of the schema, a query
  that returned no row or a column of another type; the message of \<open>Malformed\<close> and of a codec error is kept as text.\<close>

datatype constraint = NotUnique string | ForeignKey string | QueryReturnedNoRows | InvalidColumnType string

datatype graph_error =
    GraphError_Backend constraint
  | GraphError_Store store_error
  | GraphError_Serialize string
  | GraphError_Malformed string
  | GraphError_SchemaMismatch int "int option"

section \<open>Views\<close>

record memory_view =
  mv_id :: memory_id
  mv_name :: memory_name
  mv_description :: string
  mv_volatility :: volatility
  mv_created_at :: timestamp
  mv_tags :: "tag_name list"

record recurring_entry =
  re_memory :: memory_id
  re_text :: string
  re_rrule :: string

record attestation_view =
  av_teller :: teller
  av_told_in :: "conversation_ref option"
  av_asserted_at :: timestamp
  av_posture :: visibility
  av_phrasing :: "string option"
  av_source_entry :: "entry_id option"
  av_retracted_reason :: "string option"

definition founding ::
  "teller \<Rightarrow> conversation_ref option \<Rightarrow> timestamp \<Rightarrow> visibility \<Rightarrow> attestation_view" where
  "founding t told_in asserted posture =
     \<lparr>av_teller = t, av_told_in = told_in, av_asserted_at = asserted, av_posture = posture,
      av_phrasing = None, av_source_entry = None, av_retracted_reason = None\<rparr>"

datatype entry_origin = EntryOrigin_Recorded | EntryOrigin_PlatformConnector string

fun origin_from_source :: "event_source \<Rightarrow> entry_origin" where
  "origin_from_source (EventSource_PlatformConnector p) = EntryOrigin_PlatformConnector p"
| "origin_from_source _ = EntryOrigin_Recorded"

fun origin_is_connector :: "entry_origin \<Rightarrow> bool" where
  "origin_is_connector (EntryOrigin_PlatformConnector p) = True"
| "origin_is_connector EntryOrigin_Recorded = False"

record entry_view =
  vw_entry_id :: entry_id
  vw_asserted_at :: timestamp
  vw_occurred_sort :: "timestamp option"
  vw_occurred_at :: "temporal_ref option"
  vw_occurred_authored :: bool
  vw_text :: string
  vw_told_by :: teller
  vw_told_in :: "conversation_ref option"
  vw_visibility :: visibility
  vw_superseded_by :: "entry_id option"
  vw_retracted_reason :: "string option"
  vw_origin :: entry_origin
  vw_attestations :: "attestation_view list"

record relation_view =
  rv_name :: relation_name
  rv_inverse :: relation_name
  rv_from_card :: cardinality
  rv_to_card :: cardinality
  rv_symmetric :: bool
  rv_reflexive :: bool
  rv_description :: string

record tag_vocabulary_entry =
  tv_name :: tag_name
  tv_description :: string
  tv_count :: nat

record link_vis =
  lk_from :: memory_id
  lk_to :: memory_id
  lk_visibility :: visibility
  lk_told_by :: "teller option"
  lk_told_in :: "conversation_ref option"

record link_view =
  lv_from :: memory_id
  lv_to :: memory_id
  lv_relation :: relation_name
  lv_told_by :: "teller option"
  lv_told_in :: "conversation_ref option"
  lv_visibility :: visibility
  lv_asserted_at :: timestamp

definition link_view_vis :: "link_view \<Rightarrow> link_vis" where
  "link_view_vis l =
     \<lparr>lk_from = lv_from l, lk_to = lv_to l, lk_visibility = lv_visibility l,
      lk_told_by = lv_told_by l, lk_told_in = lv_told_in l\<rparr>"

record class_link_view =
  cl_from :: memory_id
  cl_to :: memory_id
  cl_relation :: relation_name
  cl_source :: link_source
  cl_told_by :: "teller option"
  cl_told_in :: "conversation_ref option"
  cl_visibility :: visibility

definition class_link_view_vis :: "class_link_view \<Rightarrow> link_vis" where
  "class_link_view_vis l =
     \<lparr>lk_from = cl_from l, lk_to = cl_to l, lk_visibility = cl_visibility l,
      lk_told_by = cl_told_by l, lk_told_in = cl_told_in l\<rparr>"

record neighbor_link_view =
  nv_relation :: relation_name
  nv_incoming :: bool
  nv_other :: memory_id
  nv_other_name :: memory_name
  nv_from :: memory_id
  nv_to :: memory_id
  nv_told_by :: "teller option"
  nv_told_in :: "conversation_ref option"
  nv_visibility :: visibility

definition neighbor_link_view_vis :: "neighbor_link_view \<Rightarrow> link_vis" where
  "neighbor_link_view_vis l =
     \<lparr>lk_from = nv_from l, lk_to = nv_to l, lk_visibility = nv_visibility l,
      lk_told_by = nv_told_by l, lk_told_in = nv_told_in l\<rparr>"

record conversation_view =
  cv_id :: conversation_id
  cv_locator :: conversation_locator
  cv_context_memory :: memory_id

record session_view =
  sv_id :: session_id
  sv_conversation :: conversation_id
  sv_started_at :: timestamp
  sv_seeded_from_turn :: "conversation_ref option"
  sv_brief :: string
  sv_participants :: "memory_id list"

record open_session_view =
  ov_id :: session_id
  ov_brief :: string
  ov_started_at :: timestamp
  ov_start_seq :: seq
  ov_seeded :: bool

end
