(* ===== verification/Visibility.thy ===== *)
theory Visibility
  imports Views
begin

text \<open>
  The read-time visibility predicate, \<open>crates/core/src/visibility/mod.rs\<close> and
  \<open>crates/core/src/visibility/links.rs\<close>: whether a content entry or a link may be surfaced to the
  people present. \<open>class_of\<close>, the injected fallible resolver of the source, is an argument.

  The locale \<open>identity\<close> states what the predicate needs of the resolver (it is total) and carries the
  laws of the predicate over it; the graph's resolver interprets it once the class table is modelled.
\<close>

type_synonym 'e class_of = "memory_id \<Rightarrow> ('e, memory_id) result"

section \<open>Verdicts\<close>

datatype visibility_decision =
    Decision_Public
  | Decision_Attributed
  | Decision_TellerPresent
  | Decision_NotExcluded
  | Decision_Superseded
  | Decision_TellerAbsent
  | Decision_SubjectPresent
  | Decision_ExcludeePresent

fun is_visible :: "visibility_decision \<Rightarrow> bool" where
  "is_visible Decision_Public = True"
| "is_visible Decision_Attributed = True"
| "is_visible Decision_TellerPresent = True"
| "is_visible Decision_NotExcluded = True"
| "is_visible _ = False"

fun width_rank :: "visibility_decision \<Rightarrow> nat" where
  "width_rank Decision_Public = 4"
| "width_rank Decision_Attributed = 3"
| "width_rank Decision_TellerPresent = 2"
| "width_rank Decision_NotExcluded = 1"
| "width_rank _ = 0"

definition wider :: "visibility_decision \<Rightarrow> visibility_decision \<Rightarrow> visibility_decision" where
  "wider a b = (if width_rank a \<ge> width_rank b then a else b)"

section \<open>Presence\<close>

fun any_class :: "'e class_of \<Rightarrow> memory_id \<Rightarrow> memory_id list \<Rightarrow> ('e, bool) result" where
  "any_class class_of target [] = Inr False"
| "any_class class_of target (p # ps) =
     andthen (class_of p) (\<lambda>c. if c = target then Inr True else any_class class_of target ps)"

definition is_present :: "'e class_of \<Rightarrow> memory_id list \<Rightarrow> memory_id \<Rightarrow> ('e, bool) result" where
  "is_present class_of present_set entity =
     andthen (class_of entity) (\<lambda>target. any_class class_of target present_set)"

definition teller_is :: "'e class_of \<Rightarrow> memory_id \<Rightarrow> teller \<Rightarrow> ('e, bool) result" where
  "teller_is class_of subj t =
     (case t of
        Teller_Participant i \<Rightarrow>
          andthen (class_of i) (\<lambda>c. andthen (class_of subj) (\<lambda>d. Inr (c = d)))
      | _ \<Rightarrow> Inr False)"

definition teller_present :: "'e class_of \<Rightarrow> memory_id list \<Rightarrow> teller \<Rightarrow> ('e, bool) result" where
  "teller_present class_of present_set t =
     (case t of
        Teller_Agent \<Rightarrow> Inr True
      | Teller_Participant i \<Rightarrow> is_present class_of present_set i
      | Teller_Bootstrap \<Rightarrow> Inr False)"

definition subject_blocks ::
  "'e class_of \<Rightarrow> memory_id list \<Rightarrow> memory_id option \<Rightarrow> teller \<Rightarrow> ('e, bool) result" where
  "subject_blocks class_of present_set subj t =
     (case subj of
        None \<Rightarrow> Inr False
      | Some s \<Rightarrow>
          andthen (teller_is class_of s t) (\<lambda>self.
            if self then Inr False else is_present class_of present_set s))"

text \<open>The \<open>for\<close> loop of \<open>no_excludee_present\<close> visits a \<open>BTreeSet\<close> in order.\<close>

fun none_present :: "'e class_of \<Rightarrow> memory_id list \<Rightarrow> memory_id list \<Rightarrow> ('e, bool) result" where
  "none_present class_of present_set [] = Inr True"
| "none_present class_of present_set (x # xs) =
     andthen (is_present class_of present_set x) (\<lambda>here.
       if here then Inr False else none_present class_of present_set xs)"

definition no_excludee_present ::
  "'e class_of \<Rightarrow> memory_id list \<Rightarrow> memory_id list \<Rightarrow> ('e, bool) result" where
  "no_excludee_present class_of present_set excluded = none_present class_of present_set excluded"

definition subject_participant :: "string \<Rightarrow> memory_id \<Rightarrow> memory_id option" where
  "subject_participant name i =
     (if map_option namespace_of (namespaced (MemoryName name)) = Some Namespace_Person
      then Some i else None)"

section \<open>The entry predicate\<close>

definition explain_attestation ::
  "'e class_of \<Rightarrow> memory_id list \<Rightarrow> memory_id option \<Rightarrow> attestation_view
    \<Rightarrow> ('e, visibility_decision) result" where
  "explain_attestation class_of present_set subj a =
     (case av_posture a of
        Visibility_Public \<Rightarrow> Inr Decision_Public
      | Visibility_Attributed \<Rightarrow> Inr Decision_Attributed
      | Visibility_PrivateToTeller \<Rightarrow>
          andthen (teller_present class_of present_set (av_teller a)) (\<lambda>here.
            if \<not> here then Inr Decision_TellerAbsent
            else andthen (subject_blocks class_of present_set subj (av_teller a)) (\<lambda>blocked.
              Inr (if blocked then Decision_SubjectPresent else Decision_TellerPresent)))
      | Visibility_Exclude excluded \<Rightarrow>
          andthen (teller_present class_of present_set (av_teller a)) (\<lambda>here.
            if \<not> here then Inr Decision_TellerAbsent
            else andthen (no_excludee_present class_of present_set excluded) (\<lambda>clear.
              if \<not> clear then Inr Decision_ExcludeePresent
              else andthen (subject_blocks class_of present_set subj (av_teller a)) (\<lambda>blocked.
                Inr (if blocked then Decision_SubjectPresent else Decision_NotExcluded)))))"

definition founding_attestation :: "entry_view \<Rightarrow> attestation_view" where
  "founding_attestation e =
     founding (vw_told_by e) (vw_told_in e) (vw_asserted_at e) (vw_visibility e)"

text \<open>The loop of \<open>explain\<close>, over the attestations with their index: the two accumulators are the
  widest passing verdict and the verdict of the founding attestation.\<close>

fun explain_loop ::
  "'e class_of \<Rightarrow> memory_id list \<Rightarrow> memory_id option \<Rightarrow> nat \<Rightarrow> visibility_decision option
    \<Rightarrow> visibility_decision \<Rightarrow> attestation_view list \<Rightarrow> ('e, visibility_decision) result" where
  "explain_loop class_of present_set subj index widest founding_verdict [] =
     Inr (case widest of Some w \<Rightarrow> w | None \<Rightarrow> founding_verdict)"
| "explain_loop class_of present_set subj index widest founding_verdict (a # rest) =
     andthen (explain_attestation class_of present_set subj a) (\<lambda>verdict.
       let founding_verdict' = (if index = 0 then verdict else founding_verdict)
       in if av_retracted_reason a \<noteq> None then
            explain_loop class_of present_set subj (index + 1) widest founding_verdict' rest
          else if is_visible verdict then
            explain_loop class_of present_set subj (index + 1)
              (Some (case widest of Some current \<Rightarrow> wider current verdict | None \<Rightarrow> verdict))
              founding_verdict' rest
          else explain_loop class_of present_set subj (index + 1) widest founding_verdict' rest)"

definition effective_attestations :: "entry_view \<Rightarrow> attestation_view list" where
  "effective_attestations e =
     (if vw_attestations e = [] then [founding_attestation e] else vw_attestations e)"

definition explain ::
  "entry_view \<Rightarrow> memory_view \<Rightarrow> memory_id list \<Rightarrow> 'e class_of \<Rightarrow> ('e, visibility_decision) result" where
  "explain e m present_set class_of =
     (if vw_superseded_by e \<noteq> None then Inr Decision_Superseded
      else explain_loop class_of present_set
             (subject_participant (name_str (mv_name m)) (mv_id m)) 0 None Decision_TellerAbsent
             (effective_attestations e))"

definition visible ::
  "entry_view \<Rightarrow> memory_view \<Rightarrow> memory_id list \<Rightarrow> 'e class_of \<Rightarrow> ('e, bool) result" where
  "visible e m present_set class_of =
     andthen (explain e m present_set class_of) (\<lambda>v. Inr (is_visible v))"

fun visible_attestations_loop ::
  "'e class_of \<Rightarrow> memory_id list \<Rightarrow> memory_id option \<Rightarrow> attestation_view list
    \<Rightarrow> ('e, attestation_view list) result" where
  "visible_attestations_loop class_of present_set subj [] = Inr []"
| "visible_attestations_loop class_of present_set subj (a # rest) =
     (if av_retracted_reason a \<noteq> None then visible_attestations_loop class_of present_set subj rest
      else andthen (explain_attestation class_of present_set subj a) (\<lambda>v.
             andthen (visible_attestations_loop class_of present_set subj rest) (\<lambda>xs.
               Inr (if is_visible v then a # xs else xs))))"

definition visible_attestations ::
  "entry_view \<Rightarrow> memory_view \<Rightarrow> memory_id list \<Rightarrow> 'e class_of
    \<Rightarrow> ('e, attestation_view list) result" where
  "visible_attestations e m present_set class_of =
     (if vw_superseded_by e \<noteq> None then Inr []
      else visible_attestations_loop class_of present_set
             (subject_participant (name_str (mv_name m)) (mv_id m)) (vw_attestations e))"

definition default_visibility_named :: "string \<Rightarrow> memory_id \<Rightarrow> teller \<Rightarrow> visibility" where
  "default_visibility_named name i t =
     (case (subject_participant name i, t) of
        (Some s, Teller_Participant teller_id) \<Rightarrow>
          (if teller_id \<noteq> s then Visibility_PrivateToTeller else Visibility_Public)
      | _ \<Rightarrow> Visibility_Public)"

definition default_visibility :: "memory_view \<Rightarrow> teller \<Rightarrow> visibility" where
  "default_visibility m t = default_visibility_named (name_str (mv_name m)) (mv_id m) t"

definition targets_present ::
  "entry_view \<Rightarrow> memory_view \<Rightarrow> memory_id list \<Rightarrow> 'e class_of \<Rightarrow> ('e, bool) result" where
  "targets_present e m present_set class_of =
     (let teller_check =
            (case vw_told_by e of
               Teller_Participant t \<Rightarrow> is_present class_of present_set t
             | _ \<Rightarrow> Inr False)
      in case subject_participant (name_str (mv_name m)) (mv_id m) of
           None \<Rightarrow> teller_check
         | Some s \<Rightarrow>
             andthen (is_present class_of present_set s) (\<lambda>here.
               if here then Inr True else teller_check))"

section \<open>The link predicate\<close>

fun subjects_block ::
  "'e class_of \<Rightarrow> memory_id list \<Rightarrow> teller \<Rightarrow> memory_id list \<Rightarrow> ('e, bool) result" where
  "subjects_block class_of present_set t [] = Inr False"
| "subjects_block class_of present_set t (s # ss) =
     andthen (teller_is class_of s t) (\<lambda>self.
       if self then subjects_block class_of present_set t ss
       else andthen (is_present class_of present_set s) (\<lambda>here.
              if here then Inr True else subjects_block class_of present_set t ss))"

definition link_subject_blocks ::
  "'e class_of \<Rightarrow> memory_id list \<Rightarrow> memory_id \<Rightarrow> memory_id \<Rightarrow> bool \<Rightarrow> teller \<Rightarrow> ('e, bool) result" where
  "link_subject_blocks class_of present_set from_id to_id symmetric t =
     subjects_block class_of present_set t (if symmetric then [from_id, to_id] else [to_id])"

definition link_explain ::
  "link_vis \<Rightarrow> bool \<Rightarrow> memory_id list \<Rightarrow> 'e class_of \<Rightarrow> ('e, visibility_decision) result" where
  "link_explain l symmetric present_set class_of =
     (let t = (case lk_told_by l of Some t \<Rightarrow> t | None \<Rightarrow> Teller_Agent)
      in case lk_visibility l of
           Visibility_Public \<Rightarrow> Inr Decision_Public
         | Visibility_Attributed \<Rightarrow> Inr Decision_Attributed
         | Visibility_PrivateToTeller \<Rightarrow>
             andthen (teller_present class_of present_set t) (\<lambda>here.
               if \<not> here then Inr Decision_TellerAbsent
               else andthen (link_subject_blocks class_of present_set (lk_from l) (lk_to l) symmetric t)
                 (\<lambda>blocked. Inr (if blocked then Decision_SubjectPresent else Decision_TellerPresent)))
         | Visibility_Exclude excluded \<Rightarrow>
             andthen (teller_present class_of present_set t) (\<lambda>here.
               if \<not> here then Inr Decision_TellerAbsent
               else andthen (no_excludee_present class_of present_set excluded) (\<lambda>clear.
                 if \<not> clear then Inr Decision_ExcludeePresent
                 else andthen
                   (link_subject_blocks class_of present_set (lk_from l) (lk_to l) symmetric t)
                   (\<lambda>blocked.
                      Inr (if blocked then Decision_SubjectPresent else Decision_NotExcluded)))))"

definition link_visible ::
  "link_vis \<Rightarrow> bool \<Rightarrow> memory_id list \<Rightarrow> 'e class_of \<Rightarrow> ('e, bool) result" where
  "link_visible l symmetric present_set class_of =
     andthen (link_explain l symmetric present_set class_of) (\<lambda>v. Inr (is_visible v))"

definition default_link_visibility ::
  "memory_id \<Rightarrow> string \<Rightarrow> memory_id \<Rightarrow> string \<Rightarrow> teller \<Rightarrow> visibility" where
  "default_link_visibility from_id from_name to_id to_name t =
     (if from_id = to_id then Visibility_Public
      else case (subject_participant from_name from_id, subject_participant to_name to_id, t) of
             (Some f, Some g, Teller_Participant teller_id) \<Rightarrow>
               (if teller_id = f \<and> teller_id \<noteq> g then Visibility_PrivateToTeller
                else if teller_id = g \<and> teller_id \<noteq> f then Visibility_PrivateToTeller
                else Visibility_Attributed)
           | _ \<Rightarrow> Visibility_Public)"

section \<open>The abstract policy\<close>

text \<open>
  What the predicate promises, over a class function and with no loops, order of checks or errors:
  an audience clears an endorsement when its posture is open, or its teller stands in the room, no
  excluded party does, and the subject of the memory (unless the teller) does not.
\<close>

definition in_room :: "(memory_id \<Rightarrow> memory_id) \<Rightarrow> memory_id list \<Rightarrow> memory_id \<Rightarrow> bool" where
  "in_room cls P x \<longleftrightarrow> cls x \<in> cls ` set P"

fun teller_in_room :: "(memory_id \<Rightarrow> memory_id) \<Rightarrow> memory_id list \<Rightarrow> teller \<Rightarrow> bool" where
  "teller_in_room cls P Teller_Agent = True"
| "teller_in_room cls P (Teller_Participant i) = in_room cls P i"
| "teller_in_room cls P Teller_Bootstrap = False"

fun same_person :: "(memory_id \<Rightarrow> memory_id) \<Rightarrow> memory_id \<Rightarrow> teller \<Rightarrow> bool" where
  "same_person cls s (Teller_Participant i) = (cls i = cls s)"
| "same_person cls s _ = False"

definition guarded :: "(memory_id \<Rightarrow> memory_id) \<Rightarrow> memory_id list \<Rightarrow> memory_id list \<Rightarrow> teller \<Rightarrow> bool" where
  "guarded cls P subjects t \<longleftrightarrow> (\<exists>s \<in> set subjects. \<not> same_person cls s t \<and> in_room cls P s)"

fun excluded_of :: "visibility \<Rightarrow> memory_id list" where
  "excluded_of (Visibility_Exclude xs) = xs"
| "excluded_of _ = []"

definition open_posture :: "visibility \<Rightarrow> bool" where
  "open_posture v \<longleftrightarrow> v = Visibility_Public \<or> v = Visibility_Attributed"

definition clears ::
  "(memory_id \<Rightarrow> memory_id) \<Rightarrow> memory_id list \<Rightarrow> memory_id list \<Rightarrow> visibility \<Rightarrow> teller \<Rightarrow> bool" where
  "clears cls P subjects posture t \<longleftrightarrow>
     open_posture posture
     \<or> teller_in_room cls P t \<and> \<not> guarded cls P subjects t
        \<and> (\<forall>x \<in> set (excluded_of posture). \<not> in_room cls P x)"

definition subject_list :: "memory_view \<Rightarrow> memory_id list" where
  "subject_list m =
     (case subject_participant (name_str (mv_name m)) (mv_id m) of None \<Rightarrow> [] | Some s \<Rightarrow> [s])"

definition live_attestation :: "attestation_view \<Rightarrow> bool" where
  "live_attestation a \<longleftrightarrow> av_retracted_reason a = None"

section \<open>The predicate implements the policy\<close>

fun widen :: "visibility_decision option \<Rightarrow> visibility_decision \<Rightarrow> visibility_decision option" where
  "widen None v = Some v"
| "widen (Some current) v = Some (wider current v)"

lemma foldl_widen_Some:
  "\<exists>w. foldl widen (Some v) vs = Some w \<and> w \<in> set (v # vs)
     \<and> (\<forall>x \<in> set (v # vs). width_rank x \<le> width_rank w)"
proof (induction vs arbitrary: v)
  case (Cons u vs)
  obtain w where "foldl widen (Some (wider v u)) vs = Some w" "w \<in> set (wider v u # vs)"
    "\<forall>x \<in> set (wider v u # vs). width_rank x \<le> width_rank w" using Cons.IH by blast
  then show ?case by (intro exI [of _ w]) (auto simp: wider_def split: if_splits)
qed simp

lemma foldl_widen_None:
  "foldl widen None vs = None \<longleftrightarrow> vs = []"
  "foldl widen None vs = Some w \<Longrightarrow> w \<in> set vs \<and> (\<forall>x \<in> set vs. width_rank x \<le> width_rank w)"
  by (cases vs; use foldl_widen_Some [of "hd vs" "tl vs"] in auto)+

locale identity =
  fixes class_of :: "'e class_of" and cls :: "memory_id \<Rightarrow> memory_id"
  assumes class_of_total: "class_of i = Inr (cls i)"
begin

lemma any_class_eq [simp]: "any_class class_of c P = Inr (c \<in> cls ` set P)"
  by (induction P) (auto simp: class_of_total)

lemma is_present_eq [simp]: "is_present class_of P x = Inr (in_room cls P x)"
  by (simp add: is_present_def in_room_def class_of_total)

lemma teller_is_eq [simp]: "teller_is class_of s t = Inr (same_person cls s t)"
  by (cases t) (auto simp: teller_is_def class_of_total)

lemma teller_present_eq [simp]: "teller_present class_of P t = Inr (teller_in_room cls P t)"
  by (cases t) (simp_all add: teller_present_def)

lemma subjects_block_eq [simp]: "subjects_block class_of P t ss = Inr (guarded cls P ss t)"
  by (induction ss) (auto simp: guarded_def)

lemma subject_blocks_eq [simp]:
  "subject_blocks class_of P subj t =
     Inr (guarded cls P (case subj of None \<Rightarrow> [] | Some s \<Rightarrow> [s]) t)"
  by (auto simp: subject_blocks_def guarded_def split: option.splits)

lemma none_present_eq [simp]:
  "none_present class_of P xs = Inr (\<forall>x \<in> set xs. \<not> in_room cls P x)"
  by (induction xs) auto

text \<open>One attestation: its verdict is visible exactly when the policy clears it, and an open verdict
  only comes from an open posture.\<close>

lemma explain_attestation_spec:
  "\<exists>v. explain_attestation class_of P subj a = Inr v
    \<and> (is_visible v \<longleftrightarrow>
        clears cls P (case subj of None \<Rightarrow> [] | Some s \<Rightarrow> [s]) (av_posture a) (av_teller a))"
proof (cases "teller_in_room cls P (av_teller a)")
  case True
  then show ?thesis
    by (cases "av_posture a")
      (simp_all add: explain_attestation_def clears_def open_posture_def no_excludee_present_def)
next
  case False
  then show ?thesis
    by (cases "av_posture a") (simp_all add: explain_attestation_def clears_def open_posture_def)
qed

definition verdict :: "memory_id list \<Rightarrow> memory_id option \<Rightarrow> attestation_view \<Rightarrow> visibility_decision" where
  "verdict P subj a = projr (explain_attestation class_of P subj a)"

lemma explain_attestation_verdict: "explain_attestation class_of P subj a = Inr (verdict P subj a)"
  using explain_attestation_spec [of P subj a] by (auto simp: verdict_def)

lemma verdict_visible:
  "is_visible (verdict P subj a) \<longleftrightarrow>
     clears cls P (case subj of None \<Rightarrow> [] | Some s \<Rightarrow> [s]) (av_posture a) (av_teller a)"
  using explain_attestation_spec [of P subj a] by (auto simp: verdict_def)

text \<open>The loop folds the passing verdicts of the live attestations with \<open>wider\<close>, and falls back to
  the founding verdict when there is none.\<close>

lemma explain_loop_eq:
  "explain_loop class_of P subj k widest f as =
     Inr (case foldl widen widest
                 (filter is_visible (map (verdict P subj) (filter live_attestation as))) of
            Some w \<Rightarrow> w
          | None \<Rightarrow> (if k = 0 \<and> as \<noteq> [] then verdict P subj (hd as) else f))"
proof (induction as arbitrary: k widest f)
  case (Cons a as)
  show ?case
    by (simp add: explain_attestation_verdict Cons.IH live_attestation_def Let_def
        split: option.splits)
qed (simp split: option.splits)

theorem explain_eq:
  "explain e m P class_of = Inr
     (if vw_superseded_by e \<noteq> None then Decision_Superseded
      else let verdict = verdict P (subject_participant (name_str (mv_name m)) (mv_id m));
               as = effective_attestations e
           in case foldl widen None (filter is_visible (map verdict (filter live_attestation as))) of
                Some w \<Rightarrow> w
              | None \<Rightarrow> verdict (hd as))"
  by (simp add: explain_def explain_loop_eq effective_attestations_def Let_def split: option.splits)

lemma passing_None_iff:
  "foldl widen None (filter is_visible (map v (filter live_attestation as))) = None \<longleftrightarrow>
   \<not> (\<exists>a \<in> set as. live_attestation a \<and> is_visible (v a))"
  by (auto simp: foldl_widen_None filter_empty_conv)

lemma passing_Some:
  "foldl widen None (filter is_visible (map v (filter live_attestation as))) = Some w \<Longrightarrow>
   (\<exists>a \<in> set as. live_attestation a \<and> v a = w) \<and> is_visible w
   \<and> (\<forall>a \<in> set as. live_attestation a \<and> is_visible (v a) \<longrightarrow> width_rank (v a) \<le> width_rank w)"
  by (drule foldl_widen_None(2)) auto

lemma clears_verdict:
  "is_visible (verdict P (subject_participant (name_str (mv_name m)) (mv_id m)) a) \<longleftrightarrow>
     clears cls P (subject_list m) (av_posture a) (av_teller a)"
  by (simp add: verdict_visible subject_list_def)

text \<open>The verdict of a live entry: the widest over the endorsements in force that clear the audience,
  and the founding verdict when none does.\<close>

lemma explain_widest:
  assumes "vw_superseded_by e = None"
  shows "\<exists>v. explain e m P class_of = Inr v
    \<and> (\<forall>a \<in> set (effective_attestations e).
          live_attestation a \<and> clears cls P (subject_list m) (av_posture a) (av_teller a) \<longrightarrow>
          (\<exists>u. explain_attestation class_of P (subject_participant (name_str (mv_name m)) (mv_id m)) a
                = Inr u \<and> width_rank u \<le> width_rank v) \<and> is_visible v)
    \<and> (\<exists>a \<in> set (effective_attestations e).
          (live_attestation a \<or> a = hd (effective_attestations e))
          \<and> explain_attestation class_of P (subject_participant (name_str (mv_name m)) (mv_id m)) a
              = Inr v)"
proof -
  let ?as = "effective_attestations e"
  let ?v = "verdict P (subject_participant (name_str (mv_name m)) (mv_id m))"
  let ?w = "foldl widen None (filter is_visible (map ?v (filter live_attestation ?as)))"
  have ne: "?as \<noteq> []" by (simp add: effective_attestations_def)
  show ?thesis
  proof (cases ?w)
    case None
    with ne assms show ?thesis
      by (auto simp: explain_eq explain_attestation_verdict clears_verdict [symmetric] passing_None_iff
          intro!: bexI [of _ "hd ?as"])
  next
    case (Some w)
    with passing_Some [OF Some] assms show ?thesis
      by (auto simp: explain_eq explain_attestation_verdict clears_verdict [symmetric])
  qed
qed

lemma visible_spec:
  "visible e m P class_of = Inr
     (vw_superseded_by e = None
      \<and> (let as = effective_attestations e;
              ok = (\<lambda>a. clears cls P (subject_list m) (av_posture a) (av_teller a))
         in (\<exists>a \<in> set as. live_attestation a \<and> ok a) \<or> ok (hd as)))"
proof (cases "foldl widen None (filter is_visible
    (map (verdict P (subject_participant (name_str (mv_name m)) (mv_id m)))
      (filter live_attestation (effective_attestations e))))")
  case None
  then show ?thesis
    by (auto simp: visible_def explain_eq Let_def clears_verdict [symmetric] passing_None_iff)
next
  case (Some w)
  from passing_Some [OF Some] Some show ?thesis
    by (auto simp: visible_def explain_eq Let_def clears_verdict [symmetric])
qed

lemma visible_attestations_loop_eq:
  "visible_attestations_loop class_of P subj as =
     Inr (filter (\<lambda>a. live_attestation a \<and> is_visible (verdict P subj a)) as)"
  by (induction as) (auto simp: explain_attestation_verdict live_attestation_def)

lemma visible_attestations_spec:
  "visible_attestations e m P class_of = Inr
     (if vw_superseded_by e \<noteq> None then []
      else filter (\<lambda>a. live_attestation a
             \<and> clears cls P (subject_list m) (av_posture a) (av_teller a)) (vw_attestations e))"
  by (simp add: visible_attestations_def visible_attestations_loop_eq clears_verdict)

lemma link_visible_spec:
  "link_visible l symmetric P class_of = Inr
     (clears cls P (if symmetric then [lk_from l, lk_to l] else [lk_to l]) (lk_visibility l)
        (case lk_told_by l of Some t \<Rightarrow> t | None \<Rightarrow> Teller_Agent))"
  by (cases "lk_visibility l"; cases "teller_in_room cls P (case lk_told_by l of Some t \<Rightarrow> t | None \<Rightarrow> Teller_Agent)")
    (simp_all add: link_visible_def link_explain_def Let_def clears_def open_posture_def
      link_subject_blocks_def no_excludee_present_def)

lemma targets_present_spec:
  "targets_present e m P class_of = Inr
     ((\<exists>s \<in> set (subject_list m). in_room cls P s)
      \<or> (\<exists>t. vw_told_by e = Teller_Participant t \<and> in_room cls P t))"
  by (auto simp: targets_present_def subject_list_def Let_def split: option.splits teller.splits)

end

text \<open>Every total resolver is an identity; the graph's own resolver is one (\<open>Graph_Sessions\<close>).\<close>

interpretation resolver: identity "\<lambda>i. Inr (cls i)" cls for cls
  by unfold_locales simp

section \<open>The policy\<close>

lemma subject_list_person:
  "mv_name m = memory_name_of (with_name Namespace_Person n) \<Longrightarrow> subject_list m = [mv_id m]"
  by (simp add: subject_list_def subject_participant_def memory_name.collapse with_name_def)

lemma guarded_blocks:
  "guarded cls P ss t \<Longrightarrow> \<not> open_posture v \<Longrightarrow> \<not> clears cls P ss v t"
  by (simp add: clears_def)

lemma clears_class_invariant:
  "cls ` set P = cls ` set Q \<Longrightarrow> clears cls P ss v t = clears cls Q ss v t"
  by (cases t) (simp_all add: clears_def guarded_def in_room_def)

section \<open>Properties\<close>

text \<open>
  C1: the entry predicate implements the policy. For every total resolver and every entry, the predicate returns, and the entry is
  shown exactly when it is not superseded and some attestation clears the audience that is in force or is the founding one: its
  posture is open, or its teller is present, no excluded party is, and the subject of the memory is not present unless the teller is
  that same person. The founding attestation counts also when it was withdrawn; that is the code's fallback.
\<close>

theorem visible_implements_policy:
  "visible e m P (\<lambda>i. Inr (cls i)) = Inr
    (vw_superseded_by e = None
     \<and> (\<exists>a \<in> set (effective_attestations e). (live_attestation a \<or> a = hd (effective_attestations e))
          \<and> clears cls P (subject_list m) (av_posture a) (av_teller a)))"
proof -
  have "hd (effective_attestations e) \<in> set (effective_attestations e)"
    by (simp add: effective_attestations_def)
  then show ?thesis by (auto simp: resolver.visible_spec Let_def)
qed

text \<open>A memory about a person and an entry on it, for the witnesses: the entry is told by participant
  2 about person 1.\<close>

definition sample_memory :: memory_view where
  "sample_memory =
     \<lparr>mv_id = MemoryId 1, mv_name = MemoryName ''person/dave'', mv_description = ''a friend'',
      mv_volatility = Volatility_Medium, mv_created_at = 0, mv_tags = []\<rparr>"

definition sample_entry :: "visibility \<Rightarrow> attestation_view list \<Rightarrow> entry_view" where
  "sample_entry v as =
     \<lparr>vw_entry_id = EntryId 10, vw_asserted_at = 0, vw_occurred_sort = None, vw_occurred_at = None,
      vw_occurred_authored = False, vw_text = ''a fact'', vw_told_by = Teller_Participant (MemoryId 2),
      vw_told_in = None, vw_visibility = v, vw_superseded_by = None, vw_retracted_reason = None,
      vw_origin = EntryOrigin_Recorded, vw_attestations = as\<rparr>"

text \<open>
  the subject-guard. No aside about a person surfaces while any stub of that person's identity
  class is present: if every attestation of an entry on a \<open>person/\<close> memory is teller-gated and no
  teller is that same person, the entry is hidden, even when every teller is in the room.
\<close>

theorem subject_guard:
  assumes "mv_name m = memory_name_of (with_name Namespace_Person n)"
    and "p \<in> set P" "cls p = cls (mv_id m)"
    and "\<forall>a \<in> set (effective_attestations e).
      \<not> open_posture (av_posture a) \<and> \<not> same_person cls (mv_id m) (av_teller a)"
  shows "visible e m P (\<lambda>i. Inr (cls i)) = Inr False"
proof -
  have "guarded cls P (subject_list m) (av_teller a)" if "a \<in> set (effective_attestations e)" for a
    using assms that by (auto simp: subject_list_person guarded_def in_room_def intro: rev_image_eqI)
  then have hidden: "\<not> clears cls P (subject_list m) (av_posture a) (av_teller a)"
    if "a \<in> set (effective_attestations e)" for a
    using assms(4) that by (simp add: guarded_blocks)
  moreover have "hd (effective_attestations e) \<in> set (effective_attestations e)"
    by (simp add: effective_attestations_def)
  ultimately show ?thesis by (auto simp: resolver.visible_spec Let_def)
qed

text \<open>In the witness, participants 1 and 7 are stubs of one person.\<close>

theorem subject_guard_witness:
  "visible (sample_entry Visibility_PrivateToTeller []) sample_memory [MemoryId 2, MemoryId 7]
     (\<lambda>i. Inr (if i = MemoryId 7 then MemoryId 1 else i) :: string + memory_id) = Inr False"
  by (rule subject_guard [of _ "''dave''" "MemoryId 7" _ "\<lambda>i. if i = MemoryId 7 then MemoryId 1 else i"])
    code_simp+

text \<open>
  the write-time default protects. An entry a participant records about another person, under
  the default visibility and with no further attestation, is hidden whenever that person is present,
  and is shown exactly to a room that holds the teller and not the person.
\<close>

theorem default_visibility_protects:
  assumes "mv_name m = memory_name_of (with_name Namespace_Person n)"
    and "cls t \<noteq> cls (mv_id m)"
    and "vw_told_by e = Teller_Participant t" "vw_visibility e = default_visibility m (Teller_Participant t)"
    and "vw_attestations e = []" "vw_superseded_by e = None"
  shows "visible e m P (\<lambda>i. Inr (cls i)) = Inr (in_room cls P t \<and> \<not> in_room cls P (mv_id m))"
proof -
  have "subject_participant (name_str (mv_name m)) (mv_id m) = Some (mv_id m)"
    using assms(1) by (simp add: subject_participant_def memory_name.collapse with_name_def)
  with assms(2,4) have "vw_visibility e = Visibility_PrivateToTeller"
    by (auto simp: default_visibility_def default_visibility_named_def)
  with assms show ?thesis
    by (auto simp: resolver.visible_spec Let_def effective_attestations_def founding_attestation_def
        founding_def live_attestation_def clears_def open_posture_def guarded_def subject_list_person)
qed

theorem default_visibility_protects_witness:
  "visible (sample_entry (default_visibility sample_memory (Teller_Participant (MemoryId 2))) [])
     sample_memory [MemoryId 2, MemoryId 3] (\<lambda>i. Inr i :: string + memory_id) = Inr True"
proof -
  let ?e = "sample_entry (default_visibility sample_memory (Teller_Participant (MemoryId 2))) []"
  have "visible ?e sample_memory [MemoryId 2, MemoryId 3] (\<lambda>i. Inr i :: string + memory_id)
      = Inr (in_room (\<lambda>i. i) [MemoryId 2, MemoryId 3] (MemoryId 2)
          \<and> \<not> in_room (\<lambda>i. i) [MemoryId 2, MemoryId 3] (mv_id sample_memory))"
    by (rule default_visibility_protects [of _ "''dave''" "\<lambda>i. i"]) (code_simp+)
  moreover have "in_room (\<lambda>i. i) [MemoryId 2, MemoryId 3] (MemoryId 2)
      \<and> \<not> in_room (\<lambda>i. i) [MemoryId 2, MemoryId 3] (mv_id sample_memory)" by code_simp
  ultimately show ?thesis by simp
qed

text \<open>
  the verdict of a live entry is the widest one. It is the verdict of one of the entry's
  attestations, and no attestation in force that clears the audience has a wider one.
\<close>

theorem explain_is_widest:
  assumes "vw_superseded_by e = None"
  shows "\<exists>v. explain e m P (\<lambda>i. Inr (cls i) :: 'e + memory_id) = Inr v
    \<and> (\<forall>a \<in> set (effective_attestations e).
          live_attestation a \<and> clears cls P (subject_list m) (av_posture a) (av_teller a) \<longrightarrow>
          (\<exists>u. explain_attestation (\<lambda>i. Inr (cls i) :: 'e + memory_id) P
                 (subject_participant (name_str (mv_name m)) (mv_id m)) a = Inr u
             \<and> width_rank u \<le> width_rank v) \<and> is_visible v)
    \<and> (\<exists>a \<in> set (effective_attestations e).
          (live_attestation a \<or> a = hd (effective_attestations e))
          \<and> explain_attestation (\<lambda>i. Inr (cls i) :: 'e + memory_id) P
              (subject_participant (name_str (mv_name m)) (mv_id m)) a = Inr v)"
  using assms by (rule resolver.explain_widest)

theorem explain_is_widest_witness:
  "\<exists>v. explain (sample_entry Visibility_Public []) sample_memory [] (\<lambda>i. Inr i :: string + memory_id)
     = Inr v \<and> is_visible v"
  using explain_is_widest [of "sample_entry Visibility_Public []" sample_memory "[]" "\<lambda>i. i"]
  by (auto simp: sample_entry_def effective_attestations_def founding_attestation_def founding_def
      live_attestation_def clears_def open_posture_def)

text \<open>
  presence is a property of identity classes. Two audiences that hold stubs of the same classes
  get the same answer for every entry, chip list and link.
\<close>

theorem visibility_class_invariant:
  assumes "cls ` set P = cls ` set Q"
  shows "visible e m P (\<lambda>i. Inr (cls i)) = visible e m Q (\<lambda>i. Inr (cls i))
    \<and> visible_attestations e m P (\<lambda>i. Inr (cls i)) = visible_attestations e m Q (\<lambda>i. Inr (cls i))
    \<and> link_visible l symmetric P (\<lambda>i. Inr (cls i)) = link_visible l symmetric Q (\<lambda>i. Inr (cls i))"
  by (simp add: resolver.visible_spec resolver.visible_attestations_spec resolver.link_visible_spec
      clears_class_invariant [OF assms])

theorem visibility_class_invariant_witness:
  "let cls = (\<lambda>i. if i = MemoryId 7 then MemoryId 1 else i); e = sample_entry Visibility_PrivateToTeller [] in
    visible e sample_memory [MemoryId 2, MemoryId 7] (\<lambda>i. Inr (cls i) :: string + memory_id)
      = visible e sample_memory [MemoryId 1, MemoryId 2] (\<lambda>i. Inr (cls i))"
  unfolding Let_def by (rule conjunct1 [OF visibility_class_invariant]) (simp add: insert_commute)

text \<open>
  the chip rule leaves no residue. The attestations named to an audience are exactly those in
  force that clear it on their own posture and teller, and an entry with a stored attestation set
  whose founding row is in force surfaces exactly when one of them can be named.
\<close>

theorem chips_are_clearing_attestations:
  assumes "vw_attestations e \<noteq> []" "live_attestation (hd (vw_attestations e))"
  shows "\<exists>chips. visible_attestations e m P (\<lambda>i. Inr (cls i)) = Inr chips
    \<and> set chips = {a \<in> set (vw_attestations e). vw_superseded_by e = None \<and> live_attestation a
         \<and> clears cls P (subject_list m) (av_posture a) (av_teller a)}
    \<and> visible e m P (\<lambda>i. Inr (cls i)) = Inr (chips \<noteq> [])"
proof -
  have h: "hd (vw_attestations e) \<in> set (vw_attestations e)" using assms(1) by simp
  have "visible e m P (\<lambda>i. Inr (cls i)) = Inr (vw_superseded_by e = None
      \<and> (\<exists>a \<in> set (vw_attestations e). live_attestation a
          \<and> clears cls P (subject_list m) (av_posture a) (av_teller a)))"
    using assms h by (auto simp: resolver.visible_spec effective_attestations_def Let_def)
  then show ?thesis
    by (auto simp: resolver.visible_attestations_spec filter_empty_conv)
qed

theorem chips_are_clearing_attestations_witness:
  "let a = founding (Teller_Participant (MemoryId 2)) None 0 Visibility_Public in
    \<exists>chips. visible_attestations (sample_entry Visibility_Public [a]) sample_memory []
        (\<lambda>i. Inr i :: string + memory_id) = Inr chips
      \<and> visible (sample_entry Visibility_Public [a]) sample_memory []
          (\<lambda>i. Inr i :: string + memory_id) = Inr (chips \<noteq> [])"
  using chips_are_clearing_attestations
    [of "sample_entry Visibility_Public [founding (Teller_Participant (MemoryId 2)) None 0 Visibility_Public]"
      sample_memory "[]" "\<lambda>i. i"]
  by (auto simp: sample_entry_def live_attestation_def founding_def Let_def)

text \<open>
  the link predicate implements the same policy, with the link's subjects in place of the
  memory's: its target for a directed relation, both endpoints for a symmetric one; a link without a
  teller on record is read as told by the agent.
\<close>

theorem link_visible_implements_policy:
  "link_visible l symmetric P (\<lambda>i. Inr (cls i)) = Inr
     (clears cls P (if symmetric then [lk_from l, lk_to l] else [lk_to l]) (lk_visibility l)
        (case lk_told_by l of Some t \<Rightarrow> t | None \<Rightarrow> Teller_Agent))"
  by (rule resolver.link_visible_spec)

text \<open>
  C39: a withdrawn founding attestation can still show an entry. The loop drops the attestations that were withdrawn, but the
  verdict of the founding one is the fallback whether it was withdrawn or not, so an entry view that carries a withdrawn
  public founding attestation (the history read loads such rows) beside a confidence in force is shown to an
  audience that no attestation in force clears.
\<close>

theorem withdrawn_founding_still_shows:
  assumes "vw_superseded_by e = None" "vw_attestations e = [f, a]"
    and "\<not> live_attestation f" "open_posture (av_posture f)"
    and "\<not> clears cls P (subject_list m) (av_posture a) (av_teller a)"
  shows "visible e m P (\<lambda>i. Inr (cls i)) = Inr True
    \<and> visible_attestations e m P (\<lambda>i. Inr (cls i)) = Inr []"
  using assms
  by (auto simp: resolver.visible_spec resolver.visible_attestations_spec effective_attestations_def clears_def)

theorem withdrawn_founding_still_shows_witness:
  "let f = (founding (Teller_Participant (MemoryId 3)) None 0 Visibility_Public)\<lparr>av_retracted_reason := Some ''mistaken''\<rparr>;
       a = founding (Teller_Participant (MemoryId 2)) None 0 Visibility_PrivateToTeller
   in visible (sample_entry Visibility_Public [f, a]) sample_memory [MemoryId 1] (\<lambda>i. Inr i :: string + memory_id) = Inr True"
proof -
  let ?f = "(founding (Teller_Participant (MemoryId 3)) None 0 Visibility_Public)\<lparr>av_retracted_reason := Some ''mistaken''\<rparr>"
  let ?a = "founding (Teller_Participant (MemoryId 2)) None 0 Visibility_PrivateToTeller"
  have "\<not> clears (\<lambda>i. i) [MemoryId 1] (subject_list sample_memory) (av_posture ?a) (av_teller ?a)" by code_simp
  then show ?thesis
    using withdrawn_founding_still_shows [of "sample_entry Visibility_Public [?f, ?a]" ?f ?a "\<lambda>i. i" "[MemoryId 1]" sample_memory]
    by (auto simp: sample_entry_def founding_def live_attestation_def open_posture_def)
qed

end
