(* ===== verification/Graph_Db.thy ===== *)
theory Graph_Db
  imports Visibility
begin

text \<open>
  The tables of the materialized graph, \<open>crates/core/src/graph/schema.sql\<close>, and the SQL statements
  the materializer runs on them.

  A table is the list of its rows in \<open>rowid\<close> order: an \<open>INSERT\<close> appends, \<open>INSERT OR REPLACE\<close> deletes the
  conflicting row and appends, an upsert (\<open>ON CONFLICT DO UPDATE\<close>) changes the row in place. The
  primary keys, unique columns and foreign keys of the schema are checked by each statement, with
  \<open>foreign_keys = ON\<close> as every open sets it; a conflict clause (\<open>OR IGNORE\<close>, \<open>OR REPLACE\<close>) covers the
  uniqueness constraints and not the foreign keys, as SQLite documents. ULID and JSON columns hold the
  value they encode, label columns (names, tags, relations, cardinalities, volatility, link source)
  hold their text, instants are their milliseconds.

  A statement that fails gives the error; what the tables hold then is not modelled (the caller drops
  the graph and rebuilds it from the log).
\<close>

section \<open>Rows\<close>

record memory_row =
  m_id :: memory_id
  m_name :: string
  m_description :: string
  m_volatility :: string
  m_deleted :: bool
  m_created_at :: int
  m_class_id :: memory_id
  m_designated_primary :: bool
  m_last_content_seq :: seq
  m_last_described_seq :: seq

record entry_row =
  e_id :: entry_id
  e_memory :: memory_id
  e_asserted_at :: int
  e_occurred_at :: "temporal_ref option"
  e_occurred_sort :: "int option"
  e_occurred_lo :: "int option"
  e_occurred_hi :: "int option"
  e_occurred_authored :: bool
  e_description_mirror :: bool
  e_fired_at :: "int option"
  e_surfaced_at :: "int option"
  e_text :: string
  e_told_by :: teller
  e_told_in :: "conversation_ref option"
  e_visibility :: visibility
  e_superseded_by :: "entry_id option"
  e_retracted_reason :: "string option"
  e_origin_platform :: "string option"
  e_seq :: seq

record attestation_row =
  a_entry :: entry_id
  a_teller :: teller
  a_told_in :: "conversation_ref option"
  a_asserted_at :: int
  a_posture :: visibility
  a_phrasing :: "string option"
  a_source_entry :: "entry_id option"
  a_retracted_reason :: "string option"
  a_seq :: seq

record dispute_row =
  d_entry :: entry_id
  d_memory :: memory_id
  d_statement :: string

record tag_row =
  t_name :: string
  t_description :: string

record relation_row =
  r_name :: string
  r_inverse :: string
  r_from_card :: string
  r_to_card :: string
  r_symmetric :: bool
  r_reflexive :: bool
  r_description :: string

record link_row =
  l_from :: memory_id
  l_to :: memory_id
  l_relation :: string
  l_source :: string
  l_told_by :: "teller option"
  l_told_in :: "conversation_ref option"
  l_visibility :: visibility
  l_asserted_at :: int

record conversation_row =
  c_id :: conversation_id
  c_platform :: string
  c_scope_path :: string
  c_context_memory :: memory_id
  c_ended :: bool

record session_row =
  s_id :: session_id
  s_conversation :: conversation_id
  s_started_at :: int
  s_seeded_from_turn :: "conversation_ref option"
  s_brief :: string
  s_ended :: bool
  s_end_cause :: "session_end_cause option"
  s_seq :: seq

record participant_row =
  p_session :: session_id
  p_memory :: memory_id
  p_at_turn :: "conversation_ref option"

record identity_row =
  i_platform :: string
  i_platform_user_id :: string
  i_memory :: memory_id

record fts_row =
  f_memory :: memory_id
  f_name :: string
  f_description :: string
  f_content :: string

record graph =
  memories :: "memory_row list"
  content_entries :: "entry_row list"
  entry_attestations :: "attestation_row list"
  entry_disputes :: "dispute_row list"
  tags :: "tag_row list"
  memory_tags :: "(memory_id \<times> string) list"
  relations :: "relation_row list"
  links :: "link_row list"
  memory_aliases :: "(string \<times> memory_id) list"
  conversations :: "conversation_row list"
  sessions :: "session_row list"
  session_participants :: "participant_row list"
  participant_identities :: "identity_row list"
  memories_fts :: "fts_row list"
  graph_head :: "seq option"  \<comment> \<open>the \<open>meta\<close> row \<open>graph_head\<close>\<close>

definition empty_graph :: graph where
  "empty_graph =
     \<lparr>memories = [], content_entries = [], entry_attestations = [], entry_disputes = [], tags = [],
      memory_tags = [], relations = [], links = [], memory_aliases = [], conversations = [],
      sessions = [], session_participants = [], participant_identities = [], memories_fts = [],
      graph_head = None\<rparr>"

section \<open>Faults\<close>

text \<open>A projection step fails with an error of the source, a panic, or, for the one loop whose
  termination is not evident from its text, by not returning.\<close>

datatype fault = Err graph_error | Panicked panic | Diverges

type_synonym 'a outcome = "(fault, 'a) result"

definition db_fail :: "constraint \<Rightarrow> 'a outcome" where
  "db_fail c = Inl (Err (GraphError_Backend c))"

definition require :: "bool \<Rightarrow> constraint \<Rightarrow> unit outcome" where
  "require ok c = (if ok then Inr () else db_fail c)"

lemma require_Inr [simp]: "require ok c = Inr u \<longleftrightarrow> ok"
  by (simp add: require_def db_fail_def)

definition lift_panic :: "(panic, 'a) result \<Rightarrow> 'a outcome" where
  "lift_panic r = (case r of Inl p \<Rightarrow> Inl (Panicked p) | Inr a \<Rightarrow> Inr a)"

lemma lift_panic_Inr [simp]: "lift_panic r = Inr a \<longleftrightarrow> r = Inr a"
  by (auto simp: lift_panic_def split: sum.splits)

section \<open>Statements\<close>

definition update_where :: "('r \<Rightarrow> bool) \<Rightarrow> ('r \<Rightarrow> 'r) \<Rightarrow> 'r list \<Rightarrow> 'r list" where
  "update_where P f rows = map (\<lambda>r. if P r then f r else r) rows"

definition memory_ids :: "graph \<Rightarrow> memory_id list" where
  "memory_ids g = map m_id (memories g)"

definition entry_ids :: "graph \<Rightarrow> entry_id list" where
  "entry_ids g = map e_id (content_entries g)"

definition update_memories :: "(memory_row \<Rightarrow> bool) \<Rightarrow> (memory_row \<Rightarrow> memory_row) \<Rightarrow> graph \<Rightarrow> graph" where
  "update_memories P f g = g\<lparr>memories := update_where P f (memories g)\<rparr>"

definition update_entries :: "(entry_row \<Rightarrow> bool) \<Rightarrow> (entry_row \<Rightarrow> entry_row) \<Rightarrow> graph \<Rightarrow> graph" where
  "update_entries P f g = g\<lparr>content_entries := update_where P f (content_entries g)\<rparr>"

definition update_attestations ::
  "(attestation_row \<Rightarrow> bool) \<Rightarrow> (attestation_row \<Rightarrow> attestation_row) \<Rightarrow> graph \<Rightarrow> graph" where
  "update_attestations P f g = g\<lparr>entry_attestations := update_where P f (entry_attestations g)\<rparr>"

definition update_fts :: "memory_id \<Rightarrow> (fts_row \<Rightarrow> fts_row) \<Rightarrow> graph \<Rightarrow> graph" where
  "update_fts i f g = g\<lparr>memories_fts := update_where (\<lambda>r. f_memory r = i) f (memories_fts g)\<rparr>"

text \<open>\<open>INSERT INTO memories\<close>: the key, the unique name, and the reference of \<open>class_id\<close>, which the row
  itself may satisfy.\<close>

definition insert_memory :: "memory_row \<Rightarrow> graph \<Rightarrow> graph outcome" where
  "insert_memory r g =
     andthen (require (m_id r \<notin> set (memory_ids g)) (NotUnique ''memories.id'')) (\<lambda>_.
     andthen (require (m_name r \<notin> m_name ` set (memories g)) (NotUnique ''memories.name'')) (\<lambda>_.
     andthen (require (m_class_id r = m_id r \<or> m_class_id r \<in> set (memory_ids g))
       (ForeignKey ''memories.class_id'')) (\<lambda>_.
       Inr (g\<lparr>memories := memories g @ [r]\<rparr>))))"

definition insert_entry :: "entry_row \<Rightarrow> graph \<Rightarrow> graph outcome" where
  "insert_entry r g =
     andthen (require (e_id r \<notin> set (entry_ids g)) (NotUnique ''content_entries.entry_id'')) (\<lambda>_.
     andthen (require (e_memory r \<in> set (memory_ids g)) (ForeignKey ''content_entries.memory_id'')) (\<lambda>_.
       Inr (g\<lparr>content_entries := content_entries g @ [r]\<rparr>)))"

definition attestation_refs_ok :: "attestation_row \<Rightarrow> graph \<Rightarrow> bool" where
  "attestation_refs_ok r g \<longleftrightarrow>
     a_entry r \<in> set (entry_ids g)
     \<and> (case a_source_entry r of None \<Rightarrow> True | Some e \<Rightarrow> e \<in> set (entry_ids g))"

definition attestation_key :: "attestation_row \<Rightarrow> entry_id \<times> teller" where
  "attestation_key r = (a_entry r, a_teller r)"

definition insert_attestation :: "attestation_row \<Rightarrow> graph \<Rightarrow> graph outcome" where
  "insert_attestation r g =
     andthen (require (attestation_key r \<notin> attestation_key ` set (entry_attestations g))
       (NotUnique ''entry_attestations'')) (\<lambda>_.
     andthen (require (attestation_refs_ok r g) (ForeignKey ''entry_attestations'')) (\<lambda>_.
       Inr (g\<lparr>entry_attestations := entry_attestations g @ [r]\<rparr>)))"

text \<open>The upsert of \<open>EntryAttested\<close>: the row keeps its key and its \<open>seq\<close>.\<close>

definition upsert_attestation :: "attestation_row \<Rightarrow> graph \<Rightarrow> graph outcome" where
  "upsert_attestation r g =
     andthen (require (attestation_refs_ok r g) (ForeignKey ''entry_attestations'')) (\<lambda>_.
       if attestation_key r \<in> attestation_key ` set (entry_attestations g) then
         Inr (update_attestations (\<lambda>x. attestation_key x = attestation_key r)
           (\<lambda>x. x\<lparr>a_told_in := a_told_in r, a_asserted_at := a_asserted_at r, a_posture := a_posture r,
                   a_phrasing := a_phrasing r, a_source_entry := a_source_entry r,
                   a_retracted_reason := None\<rparr>) g)
       else Inr (g\<lparr>entry_attestations := entry_attestations g @ [r]\<rparr>))"

text \<open>\<open>UPDATE content_entries SET superseded_by\<close>: the reference is checked when a row changes.\<close>

definition set_superseded :: "entry_id \<Rightarrow> entry_id \<Rightarrow> graph \<Rightarrow> graph outcome" where
  "set_superseded entry by_entry g =
     andthen (require (entry \<notin> set (entry_ids g) \<or> by_entry \<in> set (entry_ids g))
       (ForeignKey ''content_entries.superseded_by'')) (\<lambda>_.
       Inr (update_entries (\<lambda>r. e_id r = entry) (\<lambda>r. r\<lparr>e_superseded_by := Some by_entry\<rparr>) g))"

text \<open>The tombstone of a retraction, which refers to the row itself.\<close>

definition set_retracted :: "entry_id \<Rightarrow> string \<Rightarrow> graph \<Rightarrow> graph" where
  "set_retracted entry reason g =
     update_entries (\<lambda>r. e_id r = entry)
       (\<lambda>r. r\<lparr>e_superseded_by := Some entry, e_retracted_reason := Some reason\<rparr>) g"

definition rename_memory :: "memory_id \<Rightarrow> string \<Rightarrow> seq \<Rightarrow> graph \<Rightarrow> graph outcome" where
  "rename_memory i new_name n g =
     andthen (require (i \<notin> set (memory_ids g)
          \<or> new_name \<notin> m_name ` {r \<in> set (memories g). m_id r \<noteq> i}) (NotUnique ''memories.name'')) (\<lambda>_.
       Inr (update_memories (\<lambda>r. m_id r = i)
         (\<lambda>r. r\<lparr>m_name := new_name, m_last_content_seq := n\<rparr>) g))"

definition replace_alias :: "string \<Rightarrow> memory_id \<Rightarrow> graph \<Rightarrow> graph outcome" where
  "replace_alias former i g =
     andthen (require (i \<in> set (memory_ids g)) (ForeignKey ''memory_aliases.memory_id'')) (\<lambda>_.
       Inr (g\<lparr>memory_aliases := filter (\<lambda>(n, _). n \<noteq> former) (memory_aliases g) @ [(former, i)]\<rparr>))"

definition replace_dispute :: "dispute_row \<Rightarrow> graph \<Rightarrow> graph outcome" where
  "replace_dispute r g =
     andthen (require (d_memory r \<in> set (memory_ids g) \<and> d_entry r \<in> set (entry_ids g))
       (ForeignKey ''entry_disputes'')) (\<lambda>_.
       Inr (g\<lparr>entry_disputes := filter (\<lambda>x. d_entry x \<noteq> d_entry r) (entry_disputes g) @ [r]\<rparr>))"

definition insert_tag :: "tag_row \<Rightarrow> graph \<Rightarrow> graph outcome" where
  "insert_tag r g =
     andthen (require (t_name r \<notin> t_name ` set (tags g)) (NotUnique ''tags.name'')) (\<lambda>_.
       Inr (g\<lparr>tags := tags g @ [r]\<rparr>))"

definition insert_or_ignore_memory_tag :: "memory_id \<Rightarrow> string \<Rightarrow> graph \<Rightarrow> graph outcome" where
  "insert_or_ignore_memory_tag i tag g =
     (if (i, tag) \<in> set (memory_tags g) then Inr g
      else andthen (require (i \<in> set (memory_ids g) \<and> tag \<in> t_name ` set (tags g))
             (ForeignKey ''memory_tags'')) (\<lambda>_.
             Inr (g\<lparr>memory_tags := memory_tags g @ [(i, tag)]\<rparr>)))"

definition upsert_relation :: "relation_row \<Rightarrow> graph \<Rightarrow> graph" where
  "upsert_relation r g =
     (if r_name r \<in> r_name ` set (relations g)
      then g\<lparr>relations := update_where (\<lambda>x. r_name x = r_name r) (\<lambda>_. r) (relations g)\<rparr>
      else g\<lparr>relations := relations g @ [r]\<rparr>)"

definition link_key :: "link_row \<Rightarrow> memory_id \<times> memory_id \<times> string" where
  "link_key r = (l_from r, l_to r, l_relation r)"

text \<open>The upsert of \<open>LinkCreated\<close>: \<open>asserted_at\<close> stays.\<close>

definition upsert_link :: "link_row \<Rightarrow> graph \<Rightarrow> graph outcome" where
  "upsert_link r g =
     (if link_key r \<in> link_key ` set (links g) then
        Inr (g\<lparr>links := update_where (\<lambda>x. link_key x = link_key r)
          (\<lambda>x. x\<lparr>l_source := l_source r, l_told_by := l_told_by r, l_told_in := l_told_in r,
                  l_visibility := l_visibility r\<rparr>) (links g)\<rparr>)
      else
        andthen (require (l_from r \<in> set (memory_ids g) \<and> l_to r \<in> set (memory_ids g)
            \<and> l_relation r \<in> r_name ` set (relations g)) (ForeignKey ''links'')) (\<lambda>_.
          Inr (g\<lparr>links := links g @ [r]\<rparr>)))"

definition insert_or_ignore_conversation :: "conversation_row \<Rightarrow> graph \<Rightarrow> graph outcome" where
  "insert_or_ignore_conversation r g =
     (if c_id r \<in> c_id ` set (conversations g)
         \<or> (c_platform r, c_scope_path r) \<in> (\<lambda>x. (c_platform x, c_scope_path x)) ` set (conversations g)
      then Inr g
      else andthen (require (c_context_memory r \<in> set (memory_ids g))
             (ForeignKey ''conversations.context_memory'')) (\<lambda>_.
             Inr (g\<lparr>conversations := conversations g @ [r]\<rparr>)))"

definition insert_session :: "session_row \<Rightarrow> graph \<Rightarrow> graph outcome" where
  "insert_session r g =
     andthen (require (s_id r \<notin> s_id ` set (sessions g)) (NotUnique ''sessions.id'')) (\<lambda>_.
     andthen (require (s_conversation r \<in> c_id ` set (conversations g))
       (ForeignKey ''sessions.conversation'')) (\<lambda>_.
       Inr (g\<lparr>sessions := sessions g @ [r]\<rparr>)))"

definition insert_or_ignore_participant :: "participant_row \<Rightarrow> graph \<Rightarrow> graph outcome" where
  "insert_or_ignore_participant r g =
     (if (p_session r, p_memory r) \<in> (\<lambda>x. (p_session x, p_memory x)) ` set (session_participants g)
      then Inr g
      else andthen (require (p_session r \<in> s_id ` set (sessions g) \<and> p_memory r \<in> set (memory_ids g))
             (ForeignKey ''session_participants'')) (\<lambda>_.
             Inr (g\<lparr>session_participants := session_participants g @ [r]\<rparr>)))"

definition insert_or_ignore_identity :: "identity_row \<Rightarrow> graph \<Rightarrow> graph outcome" where
  "insert_or_ignore_identity r g =
     (if (i_platform r, i_platform_user_id r)
          \<in> (\<lambda>x. (i_platform x, i_platform_user_id x)) ` set (participant_identities g)
      then Inr g
      else andthen (require (i_memory r \<in> set (memory_ids g))
             (ForeignKey ''participant_identities.memory'')) (\<lambda>_.
             Inr (g\<lparr>participant_identities := participant_identities g @ [r]\<rparr>)))"

end
