(* ===== verification/Graph_Classes.thy ===== *)
theory Graph_Classes
  imports Graph_Db
begin

text \<open>
  Identity classes, \<open>recompute_classes\<close> and \<open>find\<close> of \<open>crates/core/src/graph/apply/helpers.rs\<close>:
  union-find over the \<open>same_as\<close> links, and the primary of each class.

  The parent pointers, a \<open>BTreeMap\<close> the code only looks up and inserts into, are a map. \<open>find\<close> follows
  pointers until it meets a fixed point, a loop with no bound in its text: it is a
  \<open>partial_function\<close>, \<open>None\<close> when the pointers form a cycle, and \<open>recompute_classes\<close> then \<open>Diverges\<close>. That
  it never does is a theorem.
\<close>

type_synonym parents = "memory_id \<rightharpoonup> memory_id"

section \<open>The code\<close>

partial_function (option) find_root :: "parents \<Rightarrow> memory_id \<Rightarrow> memory_id option" where
  "find_root parent cur =
     (case parent cur of
        None \<Rightarrow> Some cur
      | Some next_id \<Rightarrow> (if next_id = cur then Some cur else find_root parent next_id))"

declare find_root.simps [code]

definition find_outcome :: "parents \<Rightarrow> memory_id \<Rightarrow> memory_id outcome" where
  "find_outcome parent x = (case find_root parent x of None \<Rightarrow> Inl Diverges | Some r \<Rightarrow> Inr r)"

text \<open>The loop over the edges.\<close>

fun union_edges :: "(memory_id \<times> memory_id) list \<Rightarrow> parents \<Rightarrow> parents outcome" where
  "union_edges [] parent = Inr parent"
| "union_edges ((a, b) # edges) parent =
     andthen (find_outcome parent a) (\<lambda>ra.
     andthen (find_outcome parent b) (\<lambda>rb.
       union_edges edges (if ra \<noteq> rb then parent(ra \<mapsto> rb) else parent)))"

text \<open>The order of the candidates \<open>(!designated, id)\<close>.\<close>

definition candidate_less :: "bool \<times> memory_id \<Rightarrow> bool \<times> memory_id \<Rightarrow> bool" where
  "candidate_less x y \<longleftrightarrow> (\<not> fst x \<and> fst y) \<or> (fst x = fst y \<and> snd x < snd y)"

text \<open>The loop that keeps the least candidate of each root.\<close>

fun pick_primaries ::
  "parents \<Rightarrow> (memory_id \<times> bool) list \<Rightarrow> (memory_id \<rightharpoonup> bool \<times> memory_id)
    \<Rightarrow> (memory_id \<rightharpoonup> bool \<times> memory_id) outcome" where
  "pick_primaries parent [] primary = Inr primary"
| "pick_primaries parent ((i, designated) # members) primary =
     andthen (find_outcome parent i) (\<lambda>root.
       let candidate = (\<not> designated, i)
       in pick_primaries parent members
            (case primary root of
               Some best \<Rightarrow> (if candidate_less candidate best then primary(root \<mapsto> candidate) else primary)
             | None \<Rightarrow> primary(root \<mapsto> candidate)))"

text \<open>The update of one memory's \<open>class_id\<close>; the index \<open>primary[..]\<close> holds a key for every root.\<close>

definition assign_class ::
  "parents \<Rightarrow> (memory_id \<rightharpoonup> bool \<times> memory_id) \<Rightarrow> memory_id \<times> bool \<Rightarrow> graph \<Rightarrow> graph outcome" where
  "assign_class parent primary member g =
     andthen (find_outcome parent (fst member)) (\<lambda>root.
       case primary root of
         None \<Rightarrow> Inl Diverges
       | Some best \<Rightarrow>
           Inr (update_memories (\<lambda>r. m_id r = fst member) (\<lambda>r. r\<lparr>m_class_id := snd best\<rparr>) g))"

definition same_as_edges :: "graph \<Rightarrow> (memory_id \<times> memory_id) list" where
  "same_as_edges g =
     map (\<lambda>l. (l_from l, l_to l))
       (filter (\<lambda>l. l_relation l = relation_name_str RelationName_SameAs) (links g))"

definition class_members :: "graph \<Rightarrow> (memory_id \<times> bool) list" where
  "class_members g = map (\<lambda>r. (m_id r, m_designated_primary r)) (memories g)"

definition recompute_classes :: "graph \<Rightarrow> graph outcome" where
  "recompute_classes g =
     (let members = class_members g;
          parent0 = map_of (map (\<lambda>(i, _). (i, i)) members)
      in andthen (union_edges (same_as_edges g) parent0) (\<lambda>parent.
         andthen (pick_primaries parent members Map.empty) (\<lambda>primary.
           foldM (assign_class parent primary) members g)))"

section \<open>The specification\<close>

text \<open>Two memories are one identity when a path of \<open>same_as\<close> links joins them; the primary of a
  memory's class is the least member, designated members first.\<close>

definition linked :: "(memory_id \<times> memory_id) list \<Rightarrow> (memory_id \<times> memory_id) set" where
  "linked edges = (set edges \<union> (set edges)\<inverse>)\<^sup>*"

definition is_primary_of :: "graph \<Rightarrow> memory_id \<Rightarrow> memory_id \<Rightarrow> bool" where
  "is_primary_of g x p \<longleftrightarrow>
     (\<exists>d. (p, d) \<in> set (class_members g) \<and> (x, p) \<in> linked (same_as_edges g)
       \<and> (\<forall>(y, e) \<in> set (class_members g). (x, y) \<in> linked (same_as_edges g) \<longrightarrow>
             \<not> candidate_less (\<not> e, y) (\<not> d, p)))"

definition classes_current :: "graph \<Rightarrow> bool" where
  "classes_current g \<longleftrightarrow> (\<forall>r \<in> set (memories g). is_primary_of g (m_id r) (m_class_id r))"

section \<open>The forest\<close>

text \<open>\<open>forest D parent r\<close>: the pointers stay inside \<open>D\<close>, \<open>r\<close> gives the root they lead to, and some depth
  falls along them, so \<open>find_root\<close> returns.\<close>

definition forest :: "memory_id set \<Rightarrow> parents \<Rightarrow> (memory_id \<Rightarrow> memory_id) \<Rightarrow> bool" where
  "forest D parent r \<longleftrightarrow>
     dom parent = D \<and>
     (\<exists>d :: memory_id \<Rightarrow> nat. \<forall>x \<in> D. r x \<in> D \<and> parent (r x) = Some (r x) \<and> r (r x) = r x \<and>
        (\<forall>y. parent x = Some y \<longrightarrow>
           (if y = x then r x = x else y \<in> D \<and> r y = r x \<and> d y < d x)))"

lemma find_root_forest:
  assumes "forest D parent r" "x \<in> D"
  shows "find_root parent x = Some (r x)"
proof -
  from assms(1) obtain d :: "memory_id \<Rightarrow> nat" where dom: "dom parent = D"
    and step: "\<And>x y. x \<in> D \<Longrightarrow> parent x = Some y \<Longrightarrow>
      (if y = x then r x = x else y \<in> D \<and> r y = r x \<and> d y < d x)"
    unfolding forest_def by blast
  show ?thesis using assms(2)
  proof (induction "d x" arbitrary: x rule: less_induct)
    case less
    from less.prems dom obtain y where y: "parent x = Some y" by auto
    show ?case
    proof (cases "y = x")
      case True
      with y step [OF less.prems y] show ?thesis by (simp add: find_root.simps)
    next
      case False
      with step [OF less.prems y] have "y \<in> D" "r y = r x" "d y < d x" by auto
      with less.hyps [of y] y False show ?thesis by (subst find_root.simps) simp
    qed
  qed
qed

lemma find_outcome_forest: "forest D parent r \<Longrightarrow> x \<in> D \<Longrightarrow> find_outcome parent x = Inr (r x)"
  by (simp add: find_outcome_def find_root_forest)

lemma forest_initial: "forest (set xs) (map_of (map (\<lambda>i. (i, i)) xs)) (\<lambda>x. x)"
proof -
  have m: "map_of (map (\<lambda>i. (i, i)) xs) x = (if x \<in> set xs then Some x else None)" for x
    by (induction xs) auto
  show ?thesis unfolding forest_def by (auto simp: m dom_def split: if_splits)
qed

lemma forest_link:
  assumes "forest D parent r" "ra \<in> D" "rb \<in> D" "r ra = ra" "r rb = rb" "ra \<noteq> rb"
  shows "forest D (parent(ra \<mapsto> rb)) (\<lambda>x. if r x = ra then rb else r x)"
proof -
  from assms(1) obtain d :: "memory_id \<Rightarrow> nat" where dom: "dom parent = D"
    and root: "\<And>x. x \<in> D \<Longrightarrow> r x \<in> D \<and> parent (r x) = Some (r x) \<and> r (r x) = r x"
    and step: "\<And>x y. x \<in> D \<Longrightarrow> parent x = Some y \<Longrightarrow>
      (if y = x then r x = x else y \<in> D \<and> r y = r x \<and> d y < d x)"
    unfolding forest_def by blast
  let ?r = "\<lambda>x. if r x = ra then rb else r x"
  let ?d = "\<lambda>x. if r x = ra then d x + d rb + 1 else d x"
  have new: "if y = x then ?r x = x else y \<in> D \<and> ?r y = ?r x \<and> ?d y < ?d x"
    if "x \<in> D" "(parent(ra \<mapsto> rb)) x = Some y" for x y
  proof (cases "x = ra")
    case True
    with that(2) have "y = rb" by simp
    with True assms show ?thesis by simp
  next
    case False
    with that(2) have p: "parent x = Some y" by simp
    show ?thesis
    proof (cases "y = x")
      case True
      with step [OF that(1) p] False show ?thesis by simp
    next
      case ne: False
      with step [OF that(1) p] have "y \<in> D" "r y = r x" "d y < d x" by simp_all
      with ne show ?thesis by simp
    qed
  qed
  have rb: "parent rb = Some rb" using root [OF assms(3)] assms(5) by simp
  have fixed: "?r x \<in> D \<and> (parent(ra \<mapsto> rb)) (?r x) = Some (?r x) \<and> ?r (?r x) = ?r x" if "x \<in> D" for x
    using root [OF that] assms rb by (cases "r x = ra") simp_all
  have "dom (parent(ra \<mapsto> rb)) = D" using dom assms(2) by (simp add: insert_absorb)
  moreover have "\<forall>x \<in> D. ?r x \<in> D \<and> (parent(ra \<mapsto> rb)) (?r x) = Some (?r x) \<and> ?r (?r x) = ?r x \<and>
      (\<forall>y. (parent(ra \<mapsto> rb)) x = Some y \<longrightarrow>
        (if y = x then ?r x = x else y \<in> D \<and> ?r y = ?r x \<and> ?d y < ?d x))"
    using fixed new by blast
  ultimately show ?thesis unfolding forest_def by (intro conjI exI [of _ ?d])
qed

section \<open>Roots are components\<close>

definition roots_linked ::
  "memory_id set \<Rightarrow> (memory_id \<times> memory_id) list \<Rightarrow> (memory_id \<Rightarrow> memory_id) \<Rightarrow> bool" where
  "roots_linked D edges r \<longleftrightarrow> (\<forall>x \<in> D. \<forall>y \<in> D. r x = r y \<longleftrightarrow> (x, y) \<in> linked edges)"

lemma linked_refl [simp]: "(x, x) \<in> linked es"
  by (simp add: linked_def)

lemma linked_sym: "(x, y) \<in> linked es \<Longrightarrow> (y, x) \<in> linked es"
proof -
  have "sym (set es \<union> (set es)\<inverse>)" by (auto simp: sym_def)
  then have "sym (linked es)" unfolding linked_def by (rule sym_rtrancl)
  then show "(x, y) \<in> linked es \<Longrightarrow> (y, x) \<in> linked es" by (rule symD)
qed

lemma linked_trans: "(x, y) \<in> linked es \<Longrightarrow> (y, z) \<in> linked es \<Longrightarrow> (x, z) \<in> linked es"
  unfolding linked_def by (rule rtrancl_trans)

lemma linked_edge: "(a, b) \<in> set es \<Longrightarrow> (a, b) \<in> linked es"
  unfolding linked_def by auto

lemma linked_mono: "set es \<subseteq> set fs \<Longrightarrow> (x, y) \<in> linked es \<Longrightarrow> (x, y) \<in> linked fs"
  unfolding linked_def by (erule rev_subsetD, rule rtrancl_mono) auto

lemma linked_closed:
  assumes "(x, y) \<in> linked es" "\<And>a b. (a, b) \<in> set es \<Longrightarrow> a \<in> D \<and> b \<in> D" "x \<in> D"
  shows "y \<in> D"
  using assms(1) unfolding linked_def
  by (induction rule: rtrancl_induct) (use assms(2,3) in auto)

text \<open>A function that agrees on the ends of every edge agrees along every path.\<close>

lemma linked_agree:
  assumes "(x, y) \<in> linked es" "\<And>a b. (a, b) \<in> set es \<Longrightarrow> f a = f b"
  shows "f x = f y"
  using assms(1) unfolding linked_def
proof (induction rule: rtrancl_induct)
  case (step y z)
  then have "f y = f z" using assms(2) [of y z] assms(2) [of z y] by auto
  with step show ?case by simp
qed simp

lemma roots_linked_step:
  assumes "roots_linked D es r" "a \<in> D" "b \<in> D"
    and "\<And>a b. (a, b) \<in> set es \<Longrightarrow> a \<in> D \<and> b \<in> D"
  shows "roots_linked D (es @ [(a, b)]) (\<lambda>x. if r x = r a then r b else r x)"
  unfolding roots_linked_def
proof (intro ballI iffI)
  let ?r = "\<lambda>x. if r x = r a then r b else r x"
  fix x y assume xy: "x \<in> D" "y \<in> D"
  have old: "(u, v) \<in> linked (es @ [(a, b)])" if "u \<in> D" "v \<in> D" "r u = r v" for u v
    using assms(1) that by (auto simp: roots_linked_def intro: linked_mono [of es])
  have ab: "(a, b) \<in> linked (es @ [(a, b)])" by (rule linked_edge) simp
  show "(x, y) \<in> linked (es @ [(a, b)])" if "?r x = ?r y"
    using that xy assms(2,3) old ab by (auto split: if_splits) (metis linked_sym linked_trans)+
  show "?r x = ?r y" if "(x, y) \<in> linked (es @ [(a, b)])"
  proof (rule linked_agree [OF that])
    fix c d assume "(c, d) \<in> set (es @ [(a, b)])"
    then consider "(c, d) \<in> set es" | "c = a" "d = b" by auto
    then show "?r c = ?r d"
    proof cases
      case 1
      with assms(4) have "c \<in> D" "d \<in> D" by blast+
      with assms(1) linked_edge [OF 1] have "r c = r d" by (simp add: roots_linked_def)
      then show ?thesis by simp
    qed simp
  qed
qed

lemma union_edges_spec:
  assumes "forest D parent r" "roots_linked D es0 r"
    and "\<And>a b. (a, b) \<in> set (es0 @ es) \<Longrightarrow> a \<in> D \<and> b \<in> D"
  shows "\<exists>parent' r'. union_edges es parent = Inr parent' \<and> forest D parent' r'
    \<and> roots_linked D (es0 @ es) r'"
  using assms
proof (induction es arbitrary: parent r es0)
  case Nil
  then show ?case by auto
next
  case (Cons e es)
  obtain a b where e: "e = (a, b)" by (cases e)
  from Cons.prems(3) [of a b] e have ab: "a \<in> D" "b \<in> D" by auto
  let ?r = "\<lambda>x. if r x = r a then r b else r x"
  let ?p = "if r a \<noteq> r b then parent(r a \<mapsto> r b) else parent"
  have root: "r x \<in> D \<and> r (r x) = r x" if "x \<in> D" for x
    using Cons.prems(1) that unfolding forest_def by blast
  have "forest D ?p ?r"
  proof (cases "r a = r b")
    case True
    then have "?r = r" by auto
    with True Cons.prems(1) show ?thesis by simp
  next
    case False
    with forest_link [OF Cons.prems(1), of "r a" "r b"] root ab show ?thesis by simp
  qed
  moreover have "roots_linked D (es0 @ [(a, b)]) ?r"
    by (rule roots_linked_step [OF Cons.prems(2) ab]) (use Cons.prems(3) in auto)
  ultimately obtain parent' r' where "union_edges es ?p = Inr parent'" "forest D parent' r'"
    "roots_linked D ((es0 @ [(a, b)]) @ es) r'"
    using Cons.IH [of ?p ?r "es0 @ [(a, b)]"] Cons.prems(3) e by auto
  with e ab show ?case by (auto simp: find_outcome_forest [OF Cons.prems(1)])
qed

section \<open>Primaries are least candidates\<close>

definition primaries_of ::
  "(memory_id \<Rightarrow> memory_id) \<Rightarrow> (memory_id \<times> bool) list \<Rightarrow> (memory_id \<rightharpoonup> bool \<times> memory_id) \<Rightarrow> bool" where
  "primaries_of r ms primary \<longleftrightarrow> (\<forall>root.
     case primary root of
       None \<Rightarrow> (\<forall>(i, d) \<in> set ms. r i \<noteq> root)
     | Some best \<Rightarrow> (\<exists>(i, d) \<in> set ms. r i = root \<and> best = (\<not> d, i))
         \<and> (\<forall>(i, d) \<in> set ms. r i = root \<longrightarrow> \<not> candidate_less (\<not> d, i) best))"

lemma candidate_less_trans: "candidate_less x y \<Longrightarrow> candidate_less y z \<Longrightarrow> candidate_less x z"
  by (auto simp: candidate_less_def)

lemma candidate_less_irrefl [simp]: "\<not> candidate_less x x"
  by (simp add: candidate_less_def)

lemma primaries_of_step:
  fixes i d
  assumes "primaries_of r ms primary"
  defines "c \<equiv> (\<not> d, i)"
  shows "primaries_of r (ms @ [(i, d)])
    (case primary (r i) of
       Some best \<Rightarrow> (if candidate_less c best then primary(r i \<mapsto> c) else primary)
     | None \<Rightarrow> primary(r i \<mapsto> c))"
  unfolding primaries_of_def
proof
  fix root
  note h = assms(1) [unfolded primaries_of_def, rule_format, of root]
  show "case (case primary (r i) of Some best \<Rightarrow> if candidate_less c best then primary(r i \<mapsto> c) else primary
        | None \<Rightarrow> primary(r i \<mapsto> c)) root of
      None \<Rightarrow> \<forall>(j, e) \<in> set (ms @ [(i, d)]). r j \<noteq> root
    | Some best \<Rightarrow> (\<exists>(j, e) \<in> set (ms @ [(i, d)]). r j = root \<and> best = (\<not> e, j))
        \<and> (\<forall>(j, e) \<in> set (ms @ [(i, d)]). r j = root \<longrightarrow> \<not> candidate_less (\<not> e, j) best)"
  proof (cases "root = r i")
    case False
    then show ?thesis using h by (auto split: option.splits if_splits)
  next
    case True
    show ?thesis
    proof (cases "primary root")
      case None
      with h True show ?thesis by (auto simp: c_def)
    next
      case (Some best)
      with h True show ?thesis
        by (cases "candidate_less c best") (auto simp: c_def dest: candidate_less_trans)
    qed
  qed
qed

lemma primaries_of_Some:
  assumes "primaries_of r ms primary" "(i, d) \<in> set ms"
  shows "\<exists>j e. primary (r i) = Some (\<not> e, j) \<and> (j, e) \<in> set ms \<and> r j = r i
    \<and> (\<forall>k f. (k, f) \<in> set ms \<and> r k = r i \<longrightarrow> \<not> candidate_less (\<not> f, k) (\<not> e, j))"
proof (cases "primary (r i)")
  case None
  with assms(1) [unfolded primaries_of_def, rule_format, of "r i"] assms(2) show ?thesis by auto
next
  case (Some best)
  with assms(1) [unfolded primaries_of_def, rule_format, of "r i"]
  have ex: "\<exists>(j, e) \<in> set ms. r j = r i \<and> best = (\<not> e, j)"
    and least: "\<forall>(k, f) \<in> set ms. r k = r i \<longrightarrow> \<not> candidate_less (\<not> f, k) best" by simp_all
  from ex obtain j e where "(j, e) \<in> set ms" "r j = r i" "best = (\<not> e, j)" by blast
  with Some least show ?thesis by blast
qed

lemma pick_primaries_spec:
  assumes "forest D parent r" "fst ` set ms \<subseteq> D" "primaries_of r ms0 primary"
  shows "\<exists>primary'. pick_primaries parent ms primary = Inr primary' \<and> primaries_of r (ms0 @ ms) primary'"
  using assms(2,3)
proof (induction ms arbitrary: primary ms0)
  case (Cons m ms)
  obtain i d where m: "m = (i, d)" by (cases m)
  let ?c = "(\<not> d, i)"
  let ?p = "case primary (r i) of
      Some best \<Rightarrow> (if candidate_less ?c best then primary(r i \<mapsto> ?c) else primary)
    | None \<Rightarrow> primary(r i \<mapsto> ?c)"
  from Cons.IH [of "ms0 @ [(i, d)]" ?p] Cons.prems primaries_of_step [OF Cons.prems(2), of i d] m
  obtain primary' where "pick_primaries parent ms ?p = Inr primary'"
    "primaries_of r ((ms0 @ [(i, d)]) @ ms) primary'" by auto
  moreover have "find_outcome parent i = Inr (r i)"
    using Cons.prems(1) m by (intro find_outcome_forest [OF assms(1)]) auto
  ultimately show ?case using m by (simp add: Let_def)
qed simp

section \<open>The assignment\<close>

lemma assign_classes_eq:
  assumes "\<And>m. m \<in> set ms \<Longrightarrow> find_outcome parent (fst m) = Inr (r (fst m))"
    and "\<And>m. m \<in> set ms \<Longrightarrow> primary (r (fst m)) = Some (best (fst m))"
  shows "foldM (assign_class parent primary) ms g =
    Inr (update_memories (\<lambda>row. m_id row \<in> fst ` set ms)
      (\<lambda>row. row\<lparr>m_class_id := snd (best (m_id row))\<rparr>) g)"
  using assms
proof (induction ms arbitrary: g)
  case Nil
  then show ?case by (simp add: update_memories_def update_where_def)
next
  case (Cons m ms)
  have "assign_class parent primary m g =
      Inr (update_memories (\<lambda>row. m_id row = fst m) (\<lambda>row. row\<lparr>m_class_id := snd (best (fst m))\<rparr>) g)"
    using Cons.prems by (simp add: assign_class_def)
  with Cons show ?case
    by (auto simp: update_memories_def update_where_def)
qed

lemma same_as_edges_update_memories [simp]: "same_as_edges (update_memories P f g) = same_as_edges g"
  by (simp add: same_as_edges_def update_memories_def)

lemma class_members_assign [simp]:
  "class_members (update_memories P (\<lambda>r. r\<lparr>m_class_id := h r\<rparr>) g) = class_members g"
  by (simp add: class_members_def update_memories_def update_where_def)

definition same_as_closed :: "graph \<Rightarrow> bool" where
  "same_as_closed g \<longleftrightarrow> (\<forall>(a, b) \<in> set (same_as_edges g). a \<in> set (memory_ids g) \<and> b \<in> set (memory_ids g))"

lemma recompute_classes_spec:
  assumes "same_as_closed g"
  shows "\<exists>cls. recompute_classes g =
      Inr (update_memories (\<lambda>_. True) (\<lambda>r. r\<lparr>m_class_id := cls (m_id r)\<rparr>) g)
    \<and> (\<forall>i \<in> set (memory_ids g). is_primary_of g i (cls i))"
proof -
  let ?ms = "class_members g" and ?es = "same_as_edges g" and ?D = "set (memory_ids g)"
  let ?p0 = "map_of (map (\<lambda>(i, _). (i, i)) ?ms)"
  have ids: "fst ` set ?ms = ?D" by (force simp: class_members_def memory_ids_def)
  have "?p0 = map_of (map (\<lambda>i. (i, i)) (memory_ids g))"
    by (simp add: class_members_def memory_ids_def comp_def)
  then have f0: "forest ?D ?p0 (\<lambda>x. x)" using forest_initial [of "memory_ids g"] by simp
  have "roots_linked ?D [] (\<lambda>x. x)" by (auto simp: roots_linked_def linked_def)
  moreover have "a \<in> ?D \<and> b \<in> ?D" if "(a, b) \<in> set ([] @ ?es)" for a b
    using assms that by (auto simp: same_as_closed_def)
  ultimately obtain parent r where
    u: "union_edges ?es ?p0 = Inr parent" "forest ?D parent r" "roots_linked ?D ?es r"
    using union_edges_spec [OF f0, of "[]" ?es] by auto
  have "primaries_of r [] Map.empty" by (simp add: primaries_of_def)
  from pick_primaries_spec [OF u(2) _ this, of ?ms] ids obtain primary where
    p: "pick_primaries parent ?ms Map.empty = Inr primary" "primaries_of r ?ms primary" by auto
  have D: "\<exists>d. (i, d) \<in> set ?ms" if "i \<in> ?D" for i using that ids by force
  have some: "primary (r i) \<noteq> None" if "i \<in> ?D" for i
    using D [OF that] primaries_of_Some [OF p(2)] by blast
  define best where "best = (\<lambda>i. the (primary (r i)))"
  have "foldM (assign_class parent primary) ?ms g =
      Inr (update_memories (\<lambda>row. m_id row \<in> fst ` set ?ms)
        (\<lambda>row. row\<lparr>m_class_id := snd (best (m_id row))\<rparr>) g)"
  proof (rule assign_classes_eq)
    fix m assume "m \<in> set ?ms"
    then have "fst m \<in> ?D" using ids by blast
    then show "find_outcome parent (fst m) = Inr (r (fst m))" "primary (r (fst m)) = Some (best (fst m))"
      using some [of "fst m"] by (auto simp: best_def intro!: find_outcome_forest [OF u(2)])
  qed
  moreover have "update_memories (\<lambda>row. m_id row \<in> fst ` set ?ms) f g = update_memories (\<lambda>_. True) f g" for f
    unfolding ids by (simp add: update_memories_def update_where_def memory_ids_def)
  ultimately have "recompute_classes g =
      Inr (update_memories (\<lambda>_. True) (\<lambda>row. row\<lparr>m_class_id := snd (best (m_id row))\<rparr>) g)"
    by (simp add: recompute_classes_def Let_def u(1) p(1))
  moreover have "is_primary_of g i (snd (best i))" if i: "i \<in> ?D" for i
  proof -
    from D [OF i] obtain d0 where "(i, d0) \<in> set ?ms" by blast
    from primaries_of_Some [OF p(2) this] obtain j d where
      j: "primary (r i) = Some (\<not> d, j)" "(j, d) \<in> set ?ms" "r j = r i"
      and least: "\<And>k e. (k, e) \<in> set ?ms \<Longrightarrow> r k = r i \<Longrightarrow> \<not> candidate_less (\<not> e, k) (\<not> d, j)" by blast
    have eq: "r k = r i \<longleftrightarrow> (i, k) \<in> linked ?es" if "(k, e) \<in> set ?ms" for k e
    proof -
      have "k \<in> ?D" using that ids by force
      then have "r i = r k \<longleftrightarrow> (i, k) \<in> linked ?es" using u(3) i by (simp add: roots_linked_def)
      then show ?thesis by auto
    qed
    have "snd (best i) = j" using j(1) by (simp add: best_def)
    moreover have "(i, j) \<in> linked ?es" using eq [OF j(2)] j(3) by simp
    moreover have "\<forall>(y, e) \<in> set ?ms. (i, y) \<in> linked ?es \<longrightarrow> \<not> candidate_less (\<not> e, y) (\<not> d, j)"
      using least eq by blast
    ultimately show ?thesis using j(2) unfolding is_primary_of_def by blast
  qed
  ultimately show ?thesis by (intro exI [of _ "\<lambda>i. snd (best i)"]) simp
qed

lemma recompute_classes_current:
  assumes "recompute_classes g = Inr g'" "same_as_closed g"
  shows "classes_current g'"
proof -
  from recompute_classes_spec [OF assms(2)] assms(1) obtain cls where
    g': "g' = update_memories (\<lambda>_. True) (\<lambda>r. r\<lparr>m_class_id := cls (m_id r)\<rparr>) g"
    and prim: "\<forall>i \<in> set (memory_ids g). is_primary_of g i (cls i)" by auto
  have "is_primary_of g' i = is_primary_of g i" for i
    by (simp add: is_primary_of_def g' fun_eq_iff)
  then show ?thesis
    using prim by (auto simp: classes_current_def g' update_memories_def update_where_def memory_ids_def)
qed

end
