(* ===== verification/Graph_Apply.thy ===== *)
theory Graph_Apply
  imports Graph_Classes
begin

text \<open>
  The materializer, \<open>crates/core/src/graph/apply\<close>: one definition per arm of \<open>Graph::apply\<close> (the arms of
  \<open>apply_memory_event\<close> and \<open>apply_session_event\<close> included), the helpers that denormalize an occurrence and
  canonicalize a link, and the dispatch, which advances the head after the arm.
\<close>

section \<open>Occurrences and links\<close>

definition opt_from_millis :: "jiff \<Rightarrow> int option \<Rightarrow> (panic, timestamp option) result" where
  "opt_from_millis J v =
     (case v of None \<Rightarrow> Inr None | Some m \<Rightarrow> andthen (from_millis J m) (\<lambda>t. Inr (Some t)))"

text \<open>The entries the anchor query ranges over, and its first row.\<close>

definition timed_entries_named :: "graph \<Rightarrow> string \<Rightarrow> entry_row list" where
  "timed_entries_named g name =
     filter (\<lambda>e. e_occurred_sort e \<noteq> None
         \<and> (\<exists>m \<in> set (memories g). m_id m = e_memory e \<and> m_name m = name)) (content_entries g)"

definition anchor_bounds :: "jiff \<Rightarrow> graph \<Rightarrow> memory_name \<Rightarrow> occurrence_bounds option outcome" where
  "anchor_bounds J g anchor =
     (case sort_key (\<lambda>e. the (e_occurred_sort e)) (timed_entries_named g (name_str anchor)) of
        [] \<Rightarrow> Inr None
      | e # _ \<Rightarrow>
          lift_panic
            (andthen (opt_from_millis J (e_occurred_sort e)) (\<lambda>s.
             andthen (opt_from_millis J (e_occurred_lo e)) (\<lambda>l.
             andthen (opt_from_millis J (e_occurred_hi e)) (\<lambda>h.
               Inr (Some \<lparr>b_sort = s, b_lo = l, b_hi = h\<rparr>))))))"

definition occurrence_bounds_of :: "jiff \<Rightarrow> graph \<Rightarrow> temporal_ref option \<Rightarrow> occurrence_bounds outcome" where
  "occurrence_bounds_of J g occurred_at =
     (case occurred_at of
        None \<Rightarrow> Inr bounds_default
      | Some r \<Rightarrow>
          andthen (case r of TemporalRef_BeforeAfter dir anchor \<Rightarrow> anchor_bounds J g anchor | _ \<Rightarrow> Inr None)
            (\<lambda>anchor. lift_panic (bounds J r anchor BEFORE_AFTER_EPSILON_MILLIS)))"

definition set_occurrence :: "temporal_ref option \<Rightarrow> occurrence_bounds \<Rightarrow> entry_row \<Rightarrow> entry_row" where
  "set_occurrence occurred_at b r =
     r\<lparr>e_occurred_at := occurred_at, e_occurred_sort := b_sort b, e_occurred_lo := b_lo b,
       e_occurred_hi := b_hi b\<rparr>"

definition resolve_relation :: "graph \<Rightarrow> string \<Rightarrow> relation_row option" where
  "resolve_relation g label = List.find (\<lambda>r. r_name r = label \<or> r_inverse r = label) (relations g)"

definition canonical_edge ::
  "graph \<Rightarrow> memory_id \<Rightarrow> memory_id \<Rightarrow> string \<Rightarrow> memory_id \<times> memory_id \<times> string" where
  "canonical_edge g from_id to_id label =
     (case resolve_relation g label of
        None \<Rightarrow> (from_id, to_id, label)
      | Some r \<Rightarrow>
          (if r_symmetric r then
             (if from_id \<le> to_id then (from_id, to_id, r_name r) else (to_id, from_id, r_name r))
           else if label = r_name r then (from_id, to_id, r_name r)
           else (to_id, from_id, r_name r)))"

section \<open>Memory arms\<close>

definition apply_memory_created :: "seq \<Rightarrow> timestamp \<Rightarrow> memory_id \<Rightarrow> memory_name \<Rightarrow> graph \<Rightarrow> graph outcome" where
  "apply_memory_created n recorded_at i name g =
     andthen (insert_memory
       \<lparr>m_id = i, m_name = name_str name, m_description = [], m_volatility = ''Medium'',
        m_deleted = False, m_created_at = recorded_at, m_class_id = i, m_designated_primary = False,
        m_last_content_seq = n, m_last_described_seq = 0\<rparr> g) (\<lambda>g.
       Inr (g\<lparr>memories_fts := memories_fts g
         @ [\<lparr>f_memory = i, f_name = name_str name, f_description = [], f_content = []\<rparr>]\<rparr>))"

definition apply_memory_renamed ::
  "seq \<Rightarrow> memory_id \<Rightarrow> memory_name \<Rightarrow> memory_name \<Rightarrow> graph \<Rightarrow> graph outcome" where
  "apply_memory_renamed n i old_name new_name g =
     andthen (rename_memory i (name_str new_name) n g) (\<lambda>g.
     andthen (replace_alias (name_str old_name) i
       (update_fts i (\<lambda>r. r\<lparr>f_name := name_str new_name\<rparr>) g)) (\<lambda>g.
       Inr (update_fts i (\<lambda>r. r\<lparr>f_content := f_content r @ '' '' @ name_str old_name\<rparr>) g)))"

text \<open>\<open>MemoryDeleted\<close>: the soft delete, then the participants, sessions and conversations of the room,
  inner to outer.\<close>

definition room_conversations :: "memory_id \<Rightarrow> graph \<Rightarrow> conversation_id set" where
  "room_conversations i g = c_id ` {c \<in> set (conversations g). c_context_memory c = i}"

definition room_sessions :: "memory_id \<Rightarrow> graph \<Rightarrow> session_id set" where
  "room_sessions i g = s_id ` {s \<in> set (sessions g). s_conversation s \<in> room_conversations i g}"

definition delete_room :: "memory_id \<Rightarrow> graph \<Rightarrow> graph" where
  "delete_room i g =
     (let g = g\<lparr>session_participants :=
                  filter (\<lambda>p. p_session p \<notin> room_sessions i g) (session_participants g)\<rparr>;
          g = g\<lparr>sessions := filter (\<lambda>s. s_conversation s \<notin> room_conversations i g) (sessions g)\<rparr>
      in g\<lparr>conversations := filter (\<lambda>c. c_context_memory c \<noteq> i) (conversations g)\<rparr>)"

definition apply_memory_deleted :: "memory_id \<Rightarrow> graph \<Rightarrow> graph outcome" where
  "apply_memory_deleted i g =
     Inr (delete_room i (update_memories (\<lambda>r. m_id r = i) (\<lambda>r. r\<lparr>m_deleted := True\<rparr>) g))"

definition founding_row ::
  "entry_id \<Rightarrow> teller \<Rightarrow> conversation_ref option \<Rightarrow> timestamp \<Rightarrow> visibility \<Rightarrow> seq \<Rightarrow> attestation_row" where
  "founding_row entry told_by told_in asserted_at v n =
     \<lparr>a_entry = entry, a_teller = told_by, a_told_in = told_in, a_asserted_at = asserted_at,
      a_posture = v, a_phrasing = None, a_source_entry = None, a_retracted_reason = None, a_seq = n\<rparr>"

fun origin_platform_of :: "event_source \<Rightarrow> string option" where
  "origin_platform_of (EventSource_PlatformConnector p) = Some p"
| "origin_platform_of _ = None"

definition apply_content_appended ::
  "jiff \<Rightarrow> seq \<Rightarrow> event_source \<Rightarrow> memory_id \<Rightarrow> entry_id \<Rightarrow> timestamp \<Rightarrow> temporal_ref option \<Rightarrow> string
    \<Rightarrow> teller \<Rightarrow> conversation_ref option \<Rightarrow> visibility \<Rightarrow> graph \<Rightarrow> graph outcome" where
  "apply_content_appended J n src i entry asserted_at occurred_at text told_by told_in v g =
     andthen (occurrence_bounds_of J g occurred_at) (\<lambda>b.
     andthen (insert_entry (set_occurrence occurred_at b
       \<lparr>e_id = entry, e_memory = i, e_asserted_at = asserted_at, e_occurred_at = None,
        e_occurred_sort = None, e_occurred_lo = None, e_occurred_hi = None,
        e_occurred_authored = (occurred_at \<noteq> None), e_description_mirror = False, e_fired_at = None,
        e_surfaced_at = None, e_text = text, e_told_by = told_by, e_told_in = told_in,
        e_visibility = v, e_superseded_by = None, e_retracted_reason = None,
        e_origin_platform = origin_platform_of src, e_seq = n\<rparr>) g) (\<lambda>g.
     andthen (insert_attestation (founding_row entry told_by told_in asserted_at v n) g) (\<lambda>g.
       let g = update_memories (\<lambda>r. m_id r = i) (\<lambda>r. r\<lparr>m_last_content_seq := n\<rparr>) g
       in Inr (if v = Visibility_Public
               then update_fts i (\<lambda>r. r\<lparr>f_content := f_content r @ '' '' @ text\<rparr>) g
               else g))))"

definition apply_entries_consolidated :: "entry_id list \<Rightarrow> entry_id \<Rightarrow> graph \<Rightarrow> graph outcome" where
  "apply_entries_consolidated sources replacement g =
     foldM (\<lambda>source. set_superseded source replacement) sources g"

definition apply_entry_retracted :: "entry_id \<Rightarrow> string \<Rightarrow> graph \<Rightarrow> graph outcome" where
  "apply_entry_retracted entry reason g =
     Inr (update_attestations (\<lambda>a. a_entry a = entry \<and> a_retracted_reason a = None)
       (\<lambda>a. a\<lparr>a_retracted_reason := Some reason\<rparr>) (set_retracted entry reason g))"

definition apply_entry_attested ::
  "seq \<Rightarrow> entry_id \<Rightarrow> teller \<Rightarrow> conversation_ref option \<Rightarrow> timestamp \<Rightarrow> visibility \<Rightarrow> string option
    \<Rightarrow> entry_id option \<Rightarrow> graph \<Rightarrow> graph outcome" where
  "apply_entry_attested n entry t told_in asserted_at posture phrasing source_entry g =
     upsert_attestation
       \<lparr>a_entry = entry, a_teller = t, a_told_in = told_in, a_asserted_at = asserted_at,
        a_posture = posture, a_phrasing = phrasing, a_source_entry = source_entry,
        a_retracted_reason = None, a_seq = n\<rparr> g"

definition live_attestations :: "entry_id \<Rightarrow> graph \<Rightarrow> attestation_row list" where
  "live_attestations entry g =
     filter (\<lambda>a. a_entry a = entry \<and> a_retracted_reason a = None) (entry_attestations g)"

definition apply_attestation_retracted :: "entry_id \<Rightarrow> teller \<Rightarrow> string \<Rightarrow> graph \<Rightarrow> graph outcome" where
  "apply_attestation_retracted entry t reason g =
     (let g = update_attestations (\<lambda>a. a_entry a = entry \<and> a_teller a = t)
                (\<lambda>a. a\<lparr>a_retracted_reason := Some reason\<rparr>) g
      in Inr (if length (live_attestations entry g) = 0 then set_retracted entry reason g else g))"

definition apply_description_mirrored :: "entry_id \<Rightarrow> graph \<Rightarrow> graph outcome" where
  "apply_description_mirrored entry g =
     Inr (update_entries (\<lambda>r. e_id r = entry) (\<lambda>r. r\<lparr>e_description_mirror := True\<rparr>) g)"

definition apply_temporal_resolved :: "jiff \<Rightarrow> entry_id \<Rightarrow> temporal_ref option \<Rightarrow> graph \<Rightarrow> graph outcome" where
  "apply_temporal_resolved J entry occurred_at g =
     andthen (occurrence_bounds_of J g occurred_at) (\<lambda>b.
       let g = update_entries (\<lambda>r. e_id r = entry)
                 (\<lambda>r. (set_occurrence occurred_at b r)\<lparr>e_occurred_authored := False\<rparr>) g
       in Inr (if occurred_at = None
               then update_entries (\<lambda>r. e_id r = entry)
                      (\<lambda>r. r\<lparr>e_fired_at := None, e_surfaced_at := None\<rparr>) g
               else g))"

definition apply_job_fired :: "entry_id \<Rightarrow> timestamp \<Rightarrow> graph \<Rightarrow> graph outcome" where
  "apply_job_fired entry fired_at g =
     Inr (update_entries (\<lambda>r. e_id r = entry)
       (\<lambda>r. r\<lparr>e_fired_at := Some fired_at, e_surfaced_at := None\<rparr>) g)"

definition apply_item_surfaced :: "entry_id \<Rightarrow> timestamp \<Rightarrow> graph \<Rightarrow> graph outcome" where
  "apply_item_surfaced entry surfaced_at g =
     Inr (update_entries (\<lambda>r. e_id r = entry) (\<lambda>r. r\<lparr>e_surfaced_at := Some surfaced_at\<rparr>) g)"

definition apply_description_regenerated :: "memory_id \<Rightarrow> string \<Rightarrow> graph \<Rightarrow> graph outcome" where
  "apply_description_regenerated i new_text g =
     Inr (update_fts i (\<lambda>r. r\<lparr>f_description := new_text\<rparr>)
       (update_memories (\<lambda>r. m_id r = i) (\<lambda>r. r\<lparr>m_description := new_text\<rparr>) g))"

definition apply_volatility_set :: "memory_id \<Rightarrow> volatility \<Rightarrow> graph \<Rightarrow> graph outcome" where
  "apply_volatility_set i v g =
     Inr (update_memories (\<lambda>r. m_id r = i) (\<lambda>r. r\<lparr>m_volatility := volatility_as_str v\<rparr>) g)"

definition apply_primary_designated :: "memory_id \<Rightarrow> bool \<Rightarrow> graph \<Rightarrow> graph outcome" where
  "apply_primary_designated i designated g =
     recompute_classes
       (update_memories (\<lambda>r. m_id r = i) (\<lambda>r. r\<lparr>m_designated_primary := designated\<rparr>) g)"

section \<open>Describer, arbitration, vocabulary and link arms\<close>

definition apply_genesis_completed :: "graph \<Rightarrow> graph outcome" where
  "apply_genesis_completed g =
     Inr (update_memories (\<lambda>_. True) (\<lambda>r. r\<lparr>m_last_described_seq := m_last_content_seq r\<rparr>) g)"

definition apply_describe_pass :: "seq \<Rightarrow> memory_id list \<Rightarrow> graph \<Rightarrow> graph outcome" where
  "apply_describe_pass n ids g =
     Inr (fold (\<lambda>i. update_memories (\<lambda>r. m_id r = i) (\<lambda>r. r\<lparr>m_last_described_seq := n\<rparr>)) ids g)"

definition apply_belief_arbitrated ::
  "memory_id \<Rightarrow> entry_id list \<Rightarrow> arbitration_resolution \<Rightarrow> graph \<Rightarrow> graph outcome" where
  "apply_belief_arbitrated i competing resolution g =
     (let g = g\<lparr>entry_disputes := filter (\<lambda>d. d_memory d \<noteq> i) (entry_disputes g)\<rparr>
      in if credited resolution = [] then
           foldM (\<lambda>entry. replace_dispute
             \<lparr>d_entry = entry, d_memory = i, d_statement = statement resolution\<rparr>) competing g
         else Inr g)"

definition apply_tag_created :: "tag_name \<Rightarrow> string \<Rightarrow> graph \<Rightarrow> graph outcome" where
  "apply_tag_created name description g =
     insert_tag \<lparr>t_name = tag_name_str name, t_description = description\<rparr> g"

definition apply_tag_description_changed :: "tag_name \<Rightarrow> string \<Rightarrow> graph \<Rightarrow> graph outcome" where
  "apply_tag_description_changed name new_description g =
     Inr (g\<lparr>tags := update_where (\<lambda>t. t_name t = tag_name_str name)
       (\<lambda>t. t\<lparr>t_description := new_description\<rparr>) (tags g)\<rparr>)"

definition apply_tag_applied :: "memory_id \<Rightarrow> tag_name \<Rightarrow> graph \<Rightarrow> graph outcome" where
  "apply_tag_applied i tag g = insert_or_ignore_memory_tag i (tag_name_str tag) g"

definition apply_tag_removed :: "memory_id \<Rightarrow> tag_name \<Rightarrow> graph \<Rightarrow> graph outcome" where
  "apply_tag_removed i tag g =
     Inr (g\<lparr>memory_tags := filter (\<lambda>t. t \<noteq> (i, tag_name_str tag)) (memory_tags g)\<rparr>)"

definition apply_link_type_registered ::
  "relation_name \<Rightarrow> relation_name \<Rightarrow> cardinality \<Rightarrow> cardinality \<Rightarrow> bool \<Rightarrow> bool \<Rightarrow> string
    \<Rightarrow> graph \<Rightarrow> graph outcome" where
  "apply_link_type_registered name inverse_name from_card to_card symmetric reflexive description g =
     Inr (upsert_relation
       \<lparr>r_name = relation_name_str name, r_inverse = relation_name_str inverse_name,
        r_from_card = cardinality_as_str from_card, r_to_card = cardinality_as_str to_card,
        r_symmetric = symmetric, r_reflexive = reflexive, r_description = description\<rparr> g)"

definition recompute_if_same_as :: "string \<Rightarrow> graph \<Rightarrow> graph outcome" where
  "recompute_if_same_as relation g =
     (if relation_name_new relation = RelationName_SameAs then recompute_classes g else Inr g)"

definition apply_link_created ::
  "timestamp \<Rightarrow> memory_id \<Rightarrow> memory_id \<Rightarrow> relation_name \<Rightarrow> link_source \<Rightarrow> teller option
    \<Rightarrow> conversation_ref option \<Rightarrow> visibility \<Rightarrow> graph \<Rightarrow> graph outcome" where
  "apply_link_created recorded_at from_id to_id relation src told_by told_in v g =
     (case canonical_edge g from_id to_id (relation_name_str relation) of
        (f, t, label) \<Rightarrow>
          andthen (upsert_link
            \<lparr>l_from = f, l_to = t, l_relation = label, l_source = link_source_as_str src,
             l_told_by = told_by, l_told_in = told_in, l_visibility = v, l_asserted_at = recorded_at\<rparr> g)
            (recompute_if_same_as label))"

definition delete_link :: "memory_id \<times> memory_id \<times> string \<Rightarrow> graph \<Rightarrow> graph" where
  "delete_link k g = g\<lparr>links := filter (\<lambda>l. link_key l \<noteq> k) (links g)\<rparr>"

definition apply_link_removed :: "memory_id \<Rightarrow> memory_id \<Rightarrow> relation_name \<Rightarrow> graph \<Rightarrow> graph outcome" where
  "apply_link_removed from_id to_id relation g =
     (case canonical_edge g from_id to_id (relation_name_str relation) of
        (f, t, label) \<Rightarrow> recompute_if_same_as label (delete_link (f, t, label) g))"

section \<open>Session arms\<close>

definition apply_conversation_started ::
  "conversation_id \<Rightarrow> conversation_locator \<Rightarrow> memory_id \<Rightarrow> graph \<Rightarrow> graph outcome" where
  "apply_conversation_started c locator context_memory g =
     insert_or_ignore_conversation
       \<lparr>c_id = c, c_platform = platform locator, c_scope_path = scope_path locator,
        c_context_memory = context_memory, c_ended = False\<rparr> g"

definition apply_conversation_ended :: "conversation_id \<Rightarrow> graph \<Rightarrow> graph outcome" where
  "apply_conversation_ended c g =
     Inr (g\<lparr>conversations := update_where (\<lambda>r. c_id r = c) (\<lambda>r. r\<lparr>c_ended := True\<rparr>) (conversations g)\<rparr>)"

definition apply_session_started ::
  "seq \<Rightarrow> conversation_id \<Rightarrow> session_id \<Rightarrow> memory_id list \<Rightarrow> timestamp \<Rightarrow> conversation_ref option
    \<Rightarrow> string \<Rightarrow> graph \<Rightarrow> graph outcome" where
  "apply_session_started n c s participants started_at seeded_from_turn brief g =
     andthen (insert_session
       \<lparr>s_id = s, s_conversation = c, s_started_at = started_at,
        s_seeded_from_turn = seeded_from_turn, s_brief = brief, s_ended = False, s_end_cause = None,
        s_seq = n\<rparr> g)
       (foldM (\<lambda>p. insert_or_ignore_participant \<lparr>p_session = s, p_memory = p, p_at_turn = None\<rparr>)
         participants)"

definition apply_session_ended :: "session_id \<Rightarrow> session_end_cause option \<Rightarrow> graph \<Rightarrow> graph outcome" where
  "apply_session_ended s cause g =
     Inr (g\<lparr>sessions := update_where (\<lambda>r. s_id r = s)
       (\<lambda>r. r\<lparr>s_ended := True, s_end_cause := cause\<rparr>) (sessions g)\<rparr>)"

definition apply_participant_joined ::
  "session_id \<Rightarrow> memory_id \<Rightarrow> conversation_ref \<Rightarrow> graph \<Rightarrow> graph outcome" where
  "apply_participant_joined s p at_turn g =
     insert_or_ignore_participant \<lparr>p_session = s, p_memory = p, p_at_turn = Some at_turn\<rparr> g"

definition apply_participant_identified :: "memory_id \<Rightarrow> string \<Rightarrow> string \<Rightarrow> graph \<Rightarrow> graph outcome" where
  "apply_participant_identified i plat user g =
     insert_or_ignore_identity \<lparr>i_platform = plat, i_platform_user_id = user, i_memory = i\<rparr> g"

section \<open>The dispatch\<close>

text \<open>The payloads that are log-only records fall to the last case, as in the source: prompt
  templates, settings, Lua blocks, turns, model calls, ambient recall, maintenance passes, superseded
  turns, an embedding-model change, failed extractions, merge proposals and inferred links.\<close>

definition apply_payload :: "jiff \<Rightarrow> event \<Rightarrow> graph \<Rightarrow> graph outcome" where
  "apply_payload J ev g =
     (let n = ev_seq ev; recorded_at = ev_recorded_at ev
      in case ev_payload ev of
           GenesisCompleted _ _ \<Rightarrow> apply_genesis_completed g
         | DescribePassCompleted ids \<Rightarrow> apply_describe_pass n ids g
         | BeliefArbitrated i competing resolution _ \<Rightarrow>
             apply_belief_arbitrated i competing resolution g
         | MemoryCreated i name \<Rightarrow> apply_memory_created n recorded_at i name g
         | MemoryRenamed i old_name new_name \<Rightarrow> apply_memory_renamed n i old_name new_name g
         | MemoryDeleted i \<Rightarrow> apply_memory_deleted i g
         | MemoryContentAppended i entry asserted_at occurred_at text told_by told_in v \<Rightarrow>
             apply_content_appended J n (ev_source ev) i entry asserted_at occurred_at text told_by
               told_in v g
         | MemorySuperseded _ entry by_entry \<Rightarrow> set_superseded entry by_entry g
         | EntriesConsolidated _ sources replacement _ \<Rightarrow>
             apply_entries_consolidated sources replacement g
         | EntryRetracted _ entry reason _ \<Rightarrow> apply_entry_retracted entry reason g
         | EntryAttested _ entry t told_in asserted_at posture phrasing source_entry _ \<Rightarrow>
             apply_entry_attested n entry t told_in asserted_at posture phrasing source_entry g
         | AttestationRetracted _ entry t reason _ \<Rightarrow> apply_attestation_retracted entry t reason g
         | EntryDescriptionMirrored _ entry \<Rightarrow> apply_description_mirrored entry g
         | EntryTemporalResolved _ entry occurred_at _ \<Rightarrow> apply_temporal_resolved J entry occurred_at g
         | ScheduledJobFired entry _ fired_at \<Rightarrow> apply_job_fired entry fired_at g
         | ScheduledItemSurfaced entry _ _ surfaced_at \<Rightarrow> apply_item_surfaced entry surfaced_at g
         | MemoryDescriptionRegenerated i new_text _ \<Rightarrow> apply_description_regenerated i new_text g
         | MemoryVolatilitySet i v \<Rightarrow> apply_volatility_set i v g
         | ClassPrimaryDesignated i designated \<Rightarrow> apply_primary_designated i designated g
         | TagCreated name description \<Rightarrow> apply_tag_created name description g
         | TagDescriptionChanged name new_description \<Rightarrow>
             apply_tag_description_changed name new_description g
         | TagAppliedToMemory i tag \<Rightarrow> apply_tag_applied i tag g
         | TagRemovedFromMemory i tag \<Rightarrow> apply_tag_removed i tag g
         | LinkTypeRegistered name inverse_name from_card to_card symmetric reflexive description \<Rightarrow>
             apply_link_type_registered name inverse_name from_card to_card symmetric reflexive description g
         | LinkCreated from_id to_id relation src told_by told_in v \<Rightarrow>
             apply_link_created recorded_at from_id to_id relation src told_by told_in v g
         | LinkRemoved from_id to_id relation \<Rightarrow> apply_link_removed from_id to_id relation g
         | ConversationStarted c locator context_memory \<Rightarrow>
             apply_conversation_started c locator context_memory g
         | ConversationEnded c \<Rightarrow> apply_conversation_ended c g
         | SessionStarted c s participants started_at seeded_from_turn brief _ _ \<Rightarrow>
             apply_session_started n c s participants started_at seeded_from_turn brief g
         | SessionEnded _ s cause \<Rightarrow> apply_session_ended s cause g
         | ParticipantJoined _ s p at_turn \<Rightarrow> apply_participant_joined s p at_turn g
         | ParticipantIdentified i plat user \<Rightarrow> apply_participant_identified i plat user g
         | _ \<Rightarrow> Inr g)"

definition apply_event :: "jiff \<Rightarrow> event \<Rightarrow> graph \<Rightarrow> graph outcome" where
  "apply_event J ev g = andthen (apply_payload J ev g) (\<lambda>g. Inr (g\<lparr>graph_head := Some (ev_seq ev)\<rparr>))"

end
