(* ===== verification/Graph_Invariants.thy ===== *)
theory Graph_Invariants
  imports Graph_Apply
begin

text \<open>
  Invariants of the projection. The locale \<open>projection_invariant\<close> is the interface between an invariant
  and the materializer: one law per statement group of an arm; an invariant that keeps its laws holds of
  every graph a log folds to. It is interpreted on the key constraints and on the references of
  the schema; \<open>Graph_Facts\<close> interprets it on the invariants the readers rely on.
\<close>

section \<open>The interface\<close>

locale projection_invariant =
  fixes J :: jiff and I :: "graph \<Rightarrow> bool"
  assumes fresh: "I empty_graph"
    and head_set: "I g \<Longrightarrow> I (g\<lparr>graph_head := h\<rparr>)"
    and memory_created: "I g \<Longrightarrow> apply_memory_created n t i nm g = Inr g' \<Longrightarrow> I g'"
    and memory_renamed: "I g \<Longrightarrow> apply_memory_renamed n i nm nm' g = Inr g' \<Longrightarrow> I g'"
    and memory_deleted: "I g \<Longrightarrow> apply_memory_deleted i g = Inr g' \<Longrightarrow> I g'"
    and content_appended: "I g \<Longrightarrow> apply_content_appended J n src i e t occ text tb ti v g = Inr g' \<Longrightarrow> I g'"
    and superseded: "I g \<Longrightarrow> set_superseded e e' g = Inr g' \<Longrightarrow> I g'"
    and entry_retracted: "I g \<Longrightarrow> apply_entry_retracted e s g = Inr g' \<Longrightarrow> I g'"
    and entry_attested: "I g \<Longrightarrow> apply_entry_attested n e te ti t v ph se g = Inr g' \<Longrightarrow> I g'"
    and attestation_retracted: "I g \<Longrightarrow> apply_attestation_retracted e te s g = Inr g' \<Longrightarrow> I g'"
    and description_mirrored: "I g \<Longrightarrow> apply_description_mirrored e g = Inr g' \<Longrightarrow> I g'"
    and temporal_resolved: "I g \<Longrightarrow> apply_temporal_resolved J e occ g = Inr g' \<Longrightarrow> I g'"
    and job_fired: "I g \<Longrightarrow> apply_job_fired e t g = Inr g' \<Longrightarrow> I g'"
    and item_surfaced: "I g \<Longrightarrow> apply_item_surfaced e t g = Inr g' \<Longrightarrow> I g'"
    and description_regenerated: "I g \<Longrightarrow> apply_description_regenerated i s g = Inr g' \<Longrightarrow> I g'"
    and volatility_set: "I g \<Longrightarrow> apply_volatility_set i vo g = Inr g' \<Longrightarrow> I g'"
    and primary_designated: "I g \<Longrightarrow> apply_primary_designated i d g = Inr g' \<Longrightarrow> I g'"
    and genesis_completed: "I g \<Longrightarrow> apply_genesis_completed g = Inr g' \<Longrightarrow> I g'"
    and described: "I g \<Longrightarrow> I (update_memories (\<lambda>r. m_id r = i) (\<lambda>r. r\<lparr>m_last_described_seq := n\<rparr>) g)"
    and disputes_cleared: "I g \<Longrightarrow> I (g\<lparr>entry_disputes := filter (\<lambda>d. d_memory d \<noteq> i) (entry_disputes g)\<rparr>)"
    and dispute_replaced: "I g \<Longrightarrow> replace_dispute dr g = Inr g' \<Longrightarrow> I g'"
    and tag_created: "I g \<Longrightarrow> apply_tag_created tg s g = Inr g' \<Longrightarrow> I g'"
    and tag_description_changed: "I g \<Longrightarrow> apply_tag_description_changed tg s g = Inr g' \<Longrightarrow> I g'"
    and tag_applied: "I g \<Longrightarrow> apply_tag_applied i tg g = Inr g' \<Longrightarrow> I g'"
    and tag_removed: "I g \<Longrightarrow> apply_tag_removed i tg g = Inr g' \<Longrightarrow> I g'"
    and link_type_registered: "I g \<Longrightarrow> apply_link_type_registered rn rn' fc tc sy re s g = Inr g' \<Longrightarrow> I g'"
    and link_created: "I g \<Longrightarrow> apply_link_created t i j rn ls tbo ti v g = Inr g' \<Longrightarrow> I g'"
    and link_removed: "I g \<Longrightarrow> apply_link_removed i j rn g = Inr g' \<Longrightarrow> I g'"
    and conversation_started: "I g \<Longrightarrow> apply_conversation_started c loc i g = Inr g' \<Longrightarrow> I g'"
    and conversation_ended: "I g \<Longrightarrow> apply_conversation_ended c g = Inr g' \<Longrightarrow> I g'"
    and session_inserted: "I g \<Longrightarrow> insert_session sr g = Inr g' \<Longrightarrow> I g'"
    and session_ended: "I g \<Longrightarrow> apply_session_ended s' ca g = Inr g' \<Longrightarrow> I g'"
    and participant_inserted: "I g \<Longrightarrow> insert_or_ignore_participant pr g = Inr g' \<Longrightarrow> I g'"
    and participant_identified: "I g \<Longrightarrow> apply_participant_identified i p u g = Inr g' \<Longrightarrow> I g'"
begin

lemma consolidated: "I g \<Longrightarrow> apply_entries_consolidated es e g = Inr g' \<Longrightarrow> I g'"
  unfolding apply_entries_consolidated_def by (erule foldM_invariant) (auto intro: superseded)

lemma describe_pass: "I g \<Longrightarrow> apply_describe_pass n is g = Inr g' \<Longrightarrow> I g'"
  by (auto simp: apply_describe_pass_def intro!: described fold_invariant [where P = I and Q = "\<lambda>_. True"])

lemma belief_arbitrated: "I g \<Longrightarrow> apply_belief_arbitrated i es res g = Inr g' \<Longrightarrow> I g'"
  unfolding apply_belief_arbitrated_def Let_def
  by (auto split: if_splits intro: disputes_cleared dispute_replaced elim!: foldM_invariant)

lemma session_started: "I g \<Longrightarrow> apply_session_started n c s ps t sd b g = Inr g' \<Longrightarrow> I g'"
  unfolding apply_session_started_def andthen_Inr_iff
  by (auto intro: session_inserted participant_inserted elim!: foldM_invariant)

lemmas arms = memory_created memory_renamed memory_deleted content_appended superseded consolidated
  entry_retracted entry_attested attestation_retracted description_mirrored temporal_resolved job_fired
  item_surfaced description_regenerated volatility_set primary_designated genesis_completed
  describe_pass belief_arbitrated tag_created tag_description_changed tag_applied tag_removed
  link_type_registered link_created link_removed conversation_started conversation_ended
  session_started session_ended participant_inserted participant_identified

lemma apply_payload_preserves: "I g \<Longrightarrow> apply_payload J ev g = Inr g' \<Longrightarrow> I g'"
  by (cases "ev_payload ev";
      simp add: apply_payload_def Let_def apply_participant_joined_def; erule (1) arms)

lemma apply_event_preserves: "I g \<Longrightarrow> apply_event J ev g = Inr g' \<Longrightarrow> I g'"
  by (auto simp: apply_event_def andthen_Inr_iff intro: head_set apply_payload_preserves)

lemma replay_preserves: "foldM (apply_event J) evs g = Inr g' \<Longrightarrow> I g \<Longrightarrow> I g'"
  by (erule foldM_invariant) (auto intro: apply_event_preserves)

lemma replay_from_empty: "foldM (apply_event J) evs empty_graph = Inr g \<Longrightarrow> I g"
  by (erule replay_preserves) (rule fresh)

end

section \<open>Statement lemmas\<close>

lemma map_update_where [simp]:
  "(\<And>r. P r \<Longrightarrow> k (f r) = k r) \<Longrightarrow> map k (update_where P f xs) = map k xs"
  by (simp add: update_where_def)

lemma ball_update_where [simp]:
  "(\<forall>r \<in> set (update_where P f xs). Q r) \<longleftrightarrow> (\<forall>r \<in> set xs. Q (if P r then f r else r))"
  by (auto simp: update_where_def)

lemma image_update_where [simp]:
  "(\<And>r. P r \<Longrightarrow> k (f r) = k r) \<Longrightarrow> k ` set (update_where P f xs) = k ` set xs"
  by (metis list.set_map map_update_where)

lemma graph_head_simps [simp]:
  "memory_ids (g\<lparr>graph_head := h\<rparr>) = memory_ids g" "entry_ids (g\<lparr>graph_head := h\<rparr>) = entry_ids g"
  by (simp_all add: memory_ids_def entry_ids_def)

text \<open>A recomputation changes nothing but the class column.\<close>

lemma assign_classes_shape:
  "foldM (assign_class parent primary) ms g = Inr g' \<Longrightarrow>
   \<exists>f. g' = update_memories (\<lambda>_. True) (\<lambda>r. r\<lparr>m_class_id := f r\<rparr>) g"
proof (induction ms arbitrary: g)
  case Nil
  then show ?case
    by (intro exI [of _ m_class_id]) (simp add: update_memories_def update_where_def)
next
  case (Cons m ms)
  from Cons.prems obtain g1 where g1: "assign_class parent primary m g = Inr g1"
    "foldM (assign_class parent primary) ms g1 = Inr g'" by (auto simp: andthen_Inr_iff)
  from g1(1) obtain c where
    "g1 = update_memories (\<lambda>r. m_id r = fst m) (\<lambda>r. r\<lparr>m_class_id := c\<rparr>) g"
    by (auto simp: assign_class_def andthen_Inr_iff split: option.splits)
  with g1(2) have "foldM (assign_class parent primary) ms
       (update_memories (\<lambda>r. m_id r = fst m) (\<lambda>r. r\<lparr>m_class_id := c\<rparr>) g) = Inr g'" by simp
  from Cons.IH [OF this] obtain f where f: "g' = update_memories (\<lambda>_. True)
      (\<lambda>r. r\<lparr>m_class_id := f r\<rparr>) (update_memories (\<lambda>r. m_id r = fst m) (\<lambda>r. r\<lparr>m_class_id := c\<rparr>) g)"
    by blast
  show ?case
    by (rule exI [of _ "\<lambda>r. f (if m_id r = fst m then r\<lparr>m_class_id := c\<rparr> else r)"])
      (simp add: f update_memories_def update_where_def)
qed

lemma recompute_classes_shape:
  "recompute_classes g = Inr g' \<Longrightarrow>
   \<exists>f. g' = update_memories (\<lambda>_. True) (\<lambda>r. r\<lparr>m_class_id := f r\<rparr>) g"
  by (auto simp: recompute_classes_def Let_def andthen_Inr_iff dest: assign_classes_shape)

text \<open>Changing a unique column of the one row with a given key keeps it unique when no other row holds
  the new value.\<close>

lemma distinct_update_unique:
  assumes "distinct (map k xs)" "distinct (map h xs)" "v \<notin> h ` {r \<in> set xs. k r \<noteq> i}"
    and "\<And>r. h (f r) = v"
  shows "distinct (map h (update_where (\<lambda>r. k r = i) f xs))"
  using assms(1-3)
proof (induction xs)
  case Nil
  then show ?case by (simp add: update_where_def)
next
  case (Cons x xs)
  have ih: "distinct (map h (update_where (\<lambda>r. k r = i) f xs))" using Cons by auto
  have sub: "set (map h (update_where (\<lambda>r. k r = i) f xs))
      \<subseteq> h ` {r \<in> set xs. k r \<noteq> i} \<union> (if i \<in> k ` set xs then {v} else {})"
    using assms(4) by (auto simp: update_where_def)
  show ?case
  proof (cases "k x = i")
    case True
    with Cons.prems(1) have "i \<notin> k ` set xs" by force
    with sub have "set (map h (update_where (\<lambda>r. k r = i) f xs)) \<subseteq> h ` {r \<in> set xs. k r \<noteq> i}" by simp
    with Cons.prems(3) have "v \<notin> set (map h (update_where (\<lambda>r. k r = i) f xs))" by auto
    with True ih assms(4) show ?thesis by (simp add: update_where_def)
  next
    case False
    with Cons.prems(2,3) have "h x \<notin> h ` {r \<in> set xs. k r \<noteq> i} \<union> {v}" by auto
    with sub have "h x \<notin> set (map h (update_where (\<lambda>r. k r = i) f xs))" by (auto split: if_splits)
    with False ih show ?thesis by (simp add: update_where_def)
  qed
qed

section \<open>Keys\<close>

text \<open>The primary keys and unique columns of the schema.\<close>

definition keys_ok :: "graph \<Rightarrow> bool" where
  "keys_ok g \<longleftrightarrow>
     distinct (map m_id (memories g)) \<and> distinct (map m_name (memories g))
     \<and> distinct (map e_id (content_entries g))
     \<and> distinct (map attestation_key (entry_attestations g))
     \<and> distinct (map d_entry (entry_disputes g))
     \<and> distinct (map t_name (tags g)) \<and> distinct (memory_tags g)
     \<and> distinct (map r_name (relations g)) \<and> distinct (map link_key (links g))
     \<and> distinct (map fst (memory_aliases g))
     \<and> distinct (map c_id (conversations g))
     \<and> distinct (map (\<lambda>c. (c_platform c, c_scope_path c)) (conversations g))
     \<and> distinct (map s_id (sessions g))
     \<and> distinct (map (\<lambda>p. (p_session p, p_memory p)) (session_participants g))
     \<and> distinct (map (\<lambda>i. (i_platform i, i_platform_user_id i)) (participant_identities g))"

lemmas keys_simps = keys_ok_def Let_def andthen_Inr_iff memory_ids_def entry_ids_def
  attestation_key_def link_key_def distinct_map_filter

lemma keys_ok_classes:
  "keys_ok (update_memories P (\<lambda>r. r\<lparr>m_class_id := f r\<rparr>) g) = keys_ok g"
  by (simp add: keys_ok_def update_memories_def)

lemma keys_recompute: "keys_ok g \<Longrightarrow> recompute_classes g = Inr g' \<Longrightarrow> keys_ok g'"
  by (auto dest!: recompute_classes_shape simp: keys_ok_classes)

lemma keys_recompute_if: "keys_ok g \<Longrightarrow> recompute_if_same_as l g = Inr g' \<Longrightarrow> keys_ok g'"
  by (auto simp: recompute_if_same_as_def split: if_splits intro: keys_recompute)

lemma keys_memory_created: "keys_ok g \<Longrightarrow> apply_memory_created n t i nm g = Inr g' \<Longrightarrow> keys_ok g'"
  by (auto simp: keys_simps apply_memory_created_def insert_memory_def split: if_splits)

lemma keys_delete_room: "keys_ok g \<Longrightarrow> keys_ok (delete_room i g)"
  by (simp add: keys_ok_def delete_room_def Let_def distinct_map_filter)

lemma keys_ok_deleted: "keys_ok (update_memories P (\<lambda>r. r\<lparr>m_deleted := d\<rparr>) g) = keys_ok g"
  by (simp add: keys_ok_def update_memories_def)

lemma keys_memory_deleted: "keys_ok g \<Longrightarrow> apply_memory_deleted i g = Inr g' \<Longrightarrow> keys_ok g'"
  by (simp only: apply_memory_deleted_def sum.inject) (metis keys_delete_room keys_ok_deleted)

lemma keys_content_appended: "keys_ok g \<Longrightarrow> apply_content_appended J n src i e t occ text tb ti v g = Inr g' \<Longrightarrow> keys_ok g'"
  by (auto simp: keys_simps apply_content_appended_def insert_entry_def insert_attestation_def update_memories_def update_fts_def set_occurrence_def founding_row_def attestation_refs_ok_def split: if_splits)

lemma keys_superseded: "keys_ok g \<Longrightarrow> set_superseded e e' g = Inr g' \<Longrightarrow> keys_ok g'"
  by (auto simp: keys_simps set_superseded_def update_entries_def split: if_splits)

lemma keys_entry_retracted: "keys_ok g \<Longrightarrow> apply_entry_retracted e s g = Inr g' \<Longrightarrow> keys_ok g'"
  by (auto simp: keys_simps apply_entry_retracted_def set_retracted_def update_entries_def update_attestations_def split: if_splits)

lemma keys_entry_attested: "keys_ok g \<Longrightarrow> apply_entry_attested n e te ti t v ph se g = Inr g' \<Longrightarrow> keys_ok g'"
  by (auto simp: keys_simps apply_entry_attested_def upsert_attestation_def update_attestations_def attestation_refs_ok_def split: if_splits)

lemma keys_attestation_retracted: "keys_ok g \<Longrightarrow> apply_attestation_retracted e te s g = Inr g' \<Longrightarrow> keys_ok g'"
  by (auto simp: keys_simps apply_attestation_retracted_def set_retracted_def update_entries_def update_attestations_def split: if_splits)

lemma keys_description_mirrored: "keys_ok g \<Longrightarrow> apply_description_mirrored e g = Inr g' \<Longrightarrow> keys_ok g'"
  by (auto simp: keys_simps apply_description_mirrored_def update_entries_def split: if_splits)

lemma keys_temporal_resolved: "keys_ok g \<Longrightarrow> apply_temporal_resolved J e occ g = Inr g' \<Longrightarrow> keys_ok g'"
  by (auto simp: keys_simps apply_temporal_resolved_def update_entries_def set_occurrence_def split: if_splits)

lemma keys_job_fired: "keys_ok g \<Longrightarrow> apply_job_fired e t g = Inr g' \<Longrightarrow> keys_ok g'"
  by (auto simp: keys_simps apply_job_fired_def update_entries_def split: if_splits)

lemma keys_item_surfaced: "keys_ok g \<Longrightarrow> apply_item_surfaced e t g = Inr g' \<Longrightarrow> keys_ok g'"
  by (auto simp: keys_simps apply_item_surfaced_def update_entries_def split: if_splits)

lemma keys_description_regenerated: "keys_ok g \<Longrightarrow> apply_description_regenerated i s g = Inr g' \<Longrightarrow> keys_ok g'"
  by (auto simp: keys_simps apply_description_regenerated_def update_memories_def update_fts_def split: if_splits)

lemma keys_volatility_set: "keys_ok g \<Longrightarrow> apply_volatility_set i vo g = Inr g' \<Longrightarrow> keys_ok g'"
  by (auto simp: keys_simps apply_volatility_set_def update_memories_def split: if_splits)

lemma keys_genesis_completed: "keys_ok g \<Longrightarrow> apply_genesis_completed g = Inr g' \<Longrightarrow> keys_ok g'"
  by (auto simp: keys_simps apply_genesis_completed_def update_memories_def split: if_splits)

lemma keys_described: "keys_ok g \<Longrightarrow> keys_ok (update_memories (\<lambda>r. m_id r = i) (\<lambda>r. r\<lparr>m_last_described_seq := n\<rparr>) g)"
  by (auto simp: keys_simps update_memories_def split: if_splits)

lemma keys_disputes_cleared: "keys_ok g \<Longrightarrow> keys_ok (g\<lparr>entry_disputes := filter (\<lambda>d. d_memory d \<noteq> i) (entry_disputes g)\<rparr>)"
  by (auto simp: keys_simps split: if_splits)

lemma keys_dispute_replaced: "keys_ok g \<Longrightarrow> replace_dispute dr g = Inr g' \<Longrightarrow> keys_ok g'"
  by (auto simp: keys_simps replace_dispute_def split: if_splits)

lemma keys_tag_created: "keys_ok g \<Longrightarrow> apply_tag_created tg s g = Inr g' \<Longrightarrow> keys_ok g'"
  by (auto simp: keys_simps apply_tag_created_def insert_tag_def split: if_splits)

lemma keys_tag_description_changed: "keys_ok g \<Longrightarrow> apply_tag_description_changed tg s g = Inr g' \<Longrightarrow> keys_ok g'"
  by (auto simp: keys_simps apply_tag_description_changed_def split: if_splits)

lemma keys_tag_applied: "keys_ok g \<Longrightarrow> apply_tag_applied i tg g = Inr g' \<Longrightarrow> keys_ok g'"
  by (auto simp: keys_simps apply_tag_applied_def insert_or_ignore_memory_tag_def split: if_splits)

lemma keys_tag_removed: "keys_ok g \<Longrightarrow> apply_tag_removed i tg g = Inr g' \<Longrightarrow> keys_ok g'"
  by (auto simp: keys_simps apply_tag_removed_def split: if_splits)

lemma keys_link_type_registered: "keys_ok g \<Longrightarrow> apply_link_type_registered rn rn' fc tc sy re s g = Inr g' \<Longrightarrow> keys_ok g'"
  by (auto simp: keys_simps apply_link_type_registered_def upsert_relation_def split: if_splits)

lemma keys_conversation_started: "keys_ok g \<Longrightarrow> apply_conversation_started c loc i g = Inr g' \<Longrightarrow> keys_ok g'"
  by (auto simp: keys_simps apply_conversation_started_def insert_or_ignore_conversation_def split: if_splits)

lemma keys_conversation_ended: "keys_ok g \<Longrightarrow> apply_conversation_ended c g = Inr g' \<Longrightarrow> keys_ok g'"
  by (auto simp: keys_simps apply_conversation_ended_def split: if_splits)

lemma keys_session_inserted: "keys_ok g \<Longrightarrow> insert_session sr g = Inr g' \<Longrightarrow> keys_ok g'"
  by (auto simp: keys_simps insert_session_def split: if_splits)

lemma keys_session_ended: "keys_ok g \<Longrightarrow> apply_session_ended s' ca g = Inr g' \<Longrightarrow> keys_ok g'"
  by (auto simp: keys_simps apply_session_ended_def split: if_splits)

lemma keys_participant_inserted: "keys_ok g \<Longrightarrow> insert_or_ignore_participant pr g = Inr g' \<Longrightarrow> keys_ok g'"
  by (auto simp: keys_simps insert_or_ignore_participant_def split: if_splits)

lemma keys_participant_identified: "keys_ok g \<Longrightarrow> apply_participant_identified i p u g = Inr g' \<Longrightarrow> keys_ok g'"
  by (auto simp: keys_simps apply_participant_identified_def insert_or_ignore_identity_def split: if_splits)

lemma keys_rename:
  assumes "keys_ok g" "rename_memory i nm n g = Inr g'"
  shows "keys_ok g'"
proof (cases "i \<in> set (memory_ids g)")
  case True
  with assms show ?thesis
    by (auto simp: rename_memory_def andthen_Inr_iff keys_ok_def update_memories_def
        intro!: distinct_update_unique)
next
  case False
  then have "update_where (\<lambda>r. m_id r = i) f (memories g) = memories g" for f
    by (auto simp: update_where_def memory_ids_def intro!: map_idI)
  with assms show ?thesis by (auto simp: rename_memory_def andthen_Inr_iff update_memories_def)
qed

lemma keys_alias: "keys_ok g \<Longrightarrow> replace_alias nm i g = Inr g' \<Longrightarrow> keys_ok g'"
  by (auto simp: replace_alias_def andthen_Inr_iff keys_ok_def distinct_map_filter)

lemma keys_fts [simp]: "keys_ok (update_fts i f g) = keys_ok g"
  by (simp add: keys_ok_def update_fts_def)

lemma keys_memory_renamed: "keys_ok g \<Longrightarrow> apply_memory_renamed n i nm nm' g = Inr g' \<Longrightarrow> keys_ok g'"
  by (auto simp: apply_memory_renamed_def andthen_Inr_iff) (metis keys_alias keys_fts keys_rename)

lemma keys_upsert_link: "keys_ok g \<Longrightarrow> upsert_link r g = Inr g' \<Longrightarrow> keys_ok g'"
  by (auto simp: upsert_link_def keys_ok_def andthen_Inr_iff link_key_def split: if_splits)

lemma keys_link_created: "keys_ok g \<Longrightarrow> apply_link_created t i j rn ls tbo ti v g = Inr g' \<Longrightarrow> keys_ok g'"
  by (auto simp: apply_link_created_def andthen_Inr_iff split: prod.splits
      intro: keys_recompute_if keys_upsert_link)

lemma keys_delete_link: "keys_ok g \<Longrightarrow> keys_ok (delete_link k g)"
  by (simp add: delete_link_def keys_ok_def distinct_map_filter)

lemma keys_link_removed: "keys_ok g \<Longrightarrow> apply_link_removed i j rn g = Inr g' \<Longrightarrow> keys_ok g'"
  by (auto simp: apply_link_removed_def split: prod.splits intro: keys_recompute_if keys_delete_link)

lemma keys_primary_designated: "keys_ok g \<Longrightarrow> apply_primary_designated i d g = Inr g' \<Longrightarrow> keys_ok g'"
  unfolding apply_primary_designated_def
  by (erule keys_recompute [rotated]) (simp add: keys_ok_def update_memories_def)

lemmas keys_arms = keys_memory_created keys_memory_renamed keys_memory_deleted keys_content_appended
  keys_superseded keys_entry_retracted keys_entry_attested keys_attestation_retracted
  keys_description_mirrored keys_temporal_resolved keys_job_fired keys_item_surfaced
  keys_description_regenerated keys_volatility_set keys_primary_designated keys_genesis_completed
  keys_described keys_disputes_cleared keys_dispute_replaced keys_tag_created
  keys_tag_description_changed keys_tag_applied keys_tag_removed keys_link_type_registered
  keys_link_created keys_link_removed keys_conversation_started keys_conversation_ended
  keys_session_inserted keys_session_ended keys_participant_inserted keys_participant_identified

interpretation keys: projection_invariant J keys_ok for J
proof unfold_locales
  show "keys_ok empty_graph" by (simp add: keys_ok_def empty_graph_def)
  show "keys_ok g \<Longrightarrow> keys_ok (g\<lparr>graph_head := h\<rparr>)" for g h by (simp add: keys_ok_def)
qed (fact keys_arms)+

end
