(* ===== verification/Graph_Refs.thy ===== *)
theory Graph_Refs
  imports Graph_Invariants
begin

text \<open>
  Referential integrity of the projection: every foreign key of \<open>schema.sql\<close> holds in every graph a
  log folds to, the statements that delete rows and those that only check the key they insert
  included.
\<close>

section \<open>The references of a row\<close>

definition memory_refs :: "memory_id set \<Rightarrow> memory_row \<Rightarrow> bool" where
  "memory_refs M r \<longleftrightarrow> m_class_id r \<in> M"

definition entry_refs :: "memory_id set \<Rightarrow> entry_id set \<Rightarrow> entry_row \<Rightarrow> bool" where
  "entry_refs M E r \<longleftrightarrow> e_memory r \<in> M \<and> set_option (e_superseded_by r) \<subseteq> E"

definition attestation_refs :: "entry_id set \<Rightarrow> attestation_row \<Rightarrow> bool" where
  "attestation_refs E r \<longleftrightarrow> a_entry r \<in> E \<and> set_option (a_source_entry r) \<subseteq> E"

definition dispute_refs :: "memory_id set \<Rightarrow> entry_id set \<Rightarrow> dispute_row \<Rightarrow> bool" where
  "dispute_refs M E r \<longleftrightarrow> d_memory r \<in> M \<and> d_entry r \<in> E"

definition memory_tag_refs :: "memory_id set \<Rightarrow> string set \<Rightarrow> memory_id \<times> string \<Rightarrow> bool" where
  "memory_tag_refs M T t \<longleftrightarrow> fst t \<in> M \<and> snd t \<in> T"

definition link_refs :: "memory_id set \<Rightarrow> string set \<Rightarrow> link_row \<Rightarrow> bool" where
  "link_refs M R l \<longleftrightarrow> l_from l \<in> M \<and> l_to l \<in> M \<and> l_relation l \<in> R"

definition alias_refs :: "memory_id set \<Rightarrow> string \<times> memory_id \<Rightarrow> bool" where
  "alias_refs M a \<longleftrightarrow> snd a \<in> M"

definition conversation_refs :: "memory_id set \<Rightarrow> conversation_row \<Rightarrow> bool" where
  "conversation_refs M c \<longleftrightarrow> c_context_memory c \<in> M"

definition session_refs :: "conversation_id set \<Rightarrow> session_row \<Rightarrow> bool" where
  "session_refs C s \<longleftrightarrow> s_conversation s \<in> C"

definition participant_refs :: "memory_id set \<Rightarrow> session_id set \<Rightarrow> participant_row \<Rightarrow> bool" where
  "participant_refs M S p \<longleftrightarrow> p_session p \<in> S \<and> p_memory p \<in> M"

definition identity_refs :: "memory_id set \<Rightarrow> identity_row \<Rightarrow> bool" where
  "identity_refs M i \<longleftrightarrow> i_memory i \<in> M"

definition refs_ok :: "graph \<Rightarrow> bool" where
  "refs_ok g \<longleftrightarrow>
     list_all (memory_refs (m_id ` set (memories g))) (memories g)
     \<and> list_all (entry_refs (m_id ` set (memories g)) (e_id ` set (content_entries g))) (content_entries g)
     \<and> list_all (attestation_refs (e_id ` set (content_entries g))) (entry_attestations g)
     \<and> list_all (dispute_refs (m_id ` set (memories g)) (e_id ` set (content_entries g))) (entry_disputes g)
     \<and> list_all (memory_tag_refs (m_id ` set (memories g)) (t_name ` set (tags g))) (memory_tags g)
     \<and> list_all (link_refs (m_id ` set (memories g)) (r_name ` set (relations g))) (links g)
     \<and> list_all (alias_refs (m_id ` set (memories g))) (memory_aliases g)
     \<and> list_all (conversation_refs (m_id ` set (memories g))) (conversations g)
     \<and> list_all (session_refs (c_id ` set (conversations g))) (sessions g)
     \<and> list_all (participant_refs (m_id ` set (memories g)) (s_id ` set (sessions g))) (session_participants g)
     \<and> list_all (identity_refs (m_id ` set (memories g))) (participant_identities g)"

lemmas row_refs_defs = memory_refs_def entry_refs_def attestation_refs_def dispute_refs_def
  memory_tag_refs_def link_refs_def alias_refs_def conversation_refs_def session_refs_def
  participant_refs_def identity_refs_def

text \<open>More keys, more references hold.\<close>

lemma row_refs_mono:
  "list_all (entry_refs M E) es \<Longrightarrow> M \<subseteq> M' \<Longrightarrow> E \<subseteq> E' \<Longrightarrow> list_all (entry_refs M' E') es"
  "list_all (attestation_refs E) as \<Longrightarrow> E \<subseteq> E' \<Longrightarrow> list_all (attestation_refs E') as"
  "list_all (dispute_refs M E) ds \<Longrightarrow> M \<subseteq> M' \<Longrightarrow> E \<subseteq> E' \<Longrightarrow> list_all (dispute_refs M' E') ds"
  "list_all (memory_tag_refs M T) ts \<Longrightarrow> M \<subseteq> M' \<Longrightarrow> T \<subseteq> T' \<Longrightarrow> list_all (memory_tag_refs M' T') ts"
  "list_all (link_refs M R) ls \<Longrightarrow> M \<subseteq> M' \<Longrightarrow> R \<subseteq> R' \<Longrightarrow> list_all (link_refs M' R') ls"
  "list_all (alias_refs M) als \<Longrightarrow> M \<subseteq> M' \<Longrightarrow> list_all (alias_refs M') als"
  "list_all (conversation_refs M) cs \<Longrightarrow> M \<subseteq> M' \<Longrightarrow> list_all (conversation_refs M') cs"
  "list_all (session_refs C) ss \<Longrightarrow> C \<subseteq> C' \<Longrightarrow> list_all (session_refs C') ss"
  "list_all (participant_refs M S) ps \<Longrightarrow> M \<subseteq> M' \<Longrightarrow> S \<subseteq> S' \<Longrightarrow> list_all (participant_refs M' S') ps"
  "list_all (identity_refs M) is \<Longrightarrow> M \<subseteq> M' \<Longrightarrow> list_all (identity_refs M') is"
  by (auto simp: list_all_iff row_refs_defs)

lemma refs_ok_tables:
  assumes "refs_ok g"
  shows "list_all (memory_refs (m_id ` set (memories g))) (memories g)"
    "list_all (entry_refs (m_id ` set (memories g)) (e_id ` set (content_entries g))) (content_entries g)"
    "list_all (attestation_refs (e_id ` set (content_entries g))) (entry_attestations g)"
    "list_all (dispute_refs (m_id ` set (memories g)) (e_id ` set (content_entries g))) (entry_disputes g)"
    "list_all (memory_tag_refs (m_id ` set (memories g)) (t_name ` set (tags g))) (memory_tags g)"
    "list_all (link_refs (m_id ` set (memories g)) (r_name ` set (relations g))) (links g)"
    "list_all (alias_refs (m_id ` set (memories g))) (memory_aliases g)"
    "list_all (conversation_refs (m_id ` set (memories g))) (conversations g)"
    "list_all (session_refs (c_id ` set (conversations g))) (sessions g)"
    "list_all (participant_refs (m_id ` set (memories g)) (s_id ` set (sessions g))) (session_participants g)"
    "list_all (identity_refs (m_id ` set (memories g))) (participant_identities g)"
  using assms by (simp_all add: refs_ok_def)

section \<open>Assigning one table\<close>

lemma refs_memories:
  assumes "refs_ok g" "m_id ` set (memories g) \<subseteq> m_id ` set ms"
    and "list_all (memory_refs (m_id ` set ms)) ms"
  shows "refs_ok (g\<lparr>memories := ms\<rparr>)"
  unfolding refs_ok_def
  by (intro conjI; simp add: refs_ok_tables [OF assms(1)] assms;
      (rule row_refs_mono, rule refs_ok_tables [OF assms(1)]; simp add: assms)?)

lemma refs_entries:
  assumes "refs_ok g" "e_id ` set (content_entries g) \<subseteq> e_id ` set es"
    and "list_all (entry_refs (m_id ` set (memories g)) (e_id ` set es)) es"
  shows "refs_ok (g\<lparr>content_entries := es\<rparr>)"
  unfolding refs_ok_def
  by (intro conjI; simp add: refs_ok_tables [OF assms(1)] assms;
      (rule row_refs_mono, rule refs_ok_tables [OF assms(1)]; simp add: assms)?)

lemma refs_tags:
  assumes "refs_ok g" "t_name ` set (tags g) \<subseteq> t_name ` set ts"
  shows "refs_ok (g\<lparr>tags := ts\<rparr>)"
  unfolding refs_ok_def
  by (intro conjI; simp add: refs_ok_tables [OF assms(1)] assms;
      (rule row_refs_mono, rule refs_ok_tables [OF assms(1)]; simp add: assms)?)

lemma refs_relations:
  assumes "refs_ok g" "r_name ` set (relations g) \<subseteq> r_name ` set rs"
  shows "refs_ok (g\<lparr>relations := rs\<rparr>)"
  unfolding refs_ok_def
  by (intro conjI; simp add: refs_ok_tables [OF assms(1)] assms;
      (rule row_refs_mono, rule refs_ok_tables [OF assms(1)]; simp add: assms)?)

lemma refs_conversations:
  assumes "refs_ok g" "c_id ` set (conversations g) \<subseteq> c_id ` set cs"
    and "list_all (conversation_refs (m_id ` set (memories g))) cs"
  shows "refs_ok (g\<lparr>conversations := cs\<rparr>)"
  unfolding refs_ok_def
  by (intro conjI; simp add: refs_ok_tables [OF assms(1)] assms;
      (rule row_refs_mono, rule refs_ok_tables [OF assms(1)]; simp add: assms)?)

lemma refs_sessions:
  assumes "refs_ok g" "s_id ` set (sessions g) \<subseteq> s_id ` set ss"
    and "list_all (session_refs (c_id ` set (conversations g))) ss"
  shows "refs_ok (g\<lparr>sessions := ss\<rparr>)"
  unfolding refs_ok_def
  by (intro conjI; simp add: refs_ok_tables [OF assms(1)] assms;
      (rule row_refs_mono, rule refs_ok_tables [OF assms(1)]; simp add: assms)?)

lemma refs_leaf_tables:
  "refs_ok g \<Longrightarrow> list_all (attestation_refs (e_id ` set (content_entries g))) as \<Longrightarrow>
     refs_ok (g\<lparr>entry_attestations := as\<rparr>)"
  "refs_ok g \<Longrightarrow> list_all (dispute_refs (m_id ` set (memories g)) (e_id ` set (content_entries g))) ds \<Longrightarrow>
     refs_ok (g\<lparr>entry_disputes := ds\<rparr>)"
  "refs_ok g \<Longrightarrow> list_all (memory_tag_refs (m_id ` set (memories g)) (t_name ` set (tags g))) ts \<Longrightarrow>
     refs_ok (g\<lparr>memory_tags := ts\<rparr>)"
  "refs_ok g \<Longrightarrow> list_all (link_refs (m_id ` set (memories g)) (r_name ` set (relations g))) ls \<Longrightarrow>
     refs_ok (g\<lparr>links := ls\<rparr>)"
  "refs_ok g \<Longrightarrow> list_all (alias_refs (m_id ` set (memories g))) als \<Longrightarrow>
     refs_ok (g\<lparr>memory_aliases := als\<rparr>)"
  "refs_ok g \<Longrightarrow> list_all (participant_refs (m_id ` set (memories g)) (s_id ` set (sessions g))) ps \<Longrightarrow>
     refs_ok (g\<lparr>session_participants := ps\<rparr>)"
  "refs_ok g \<Longrightarrow> list_all (identity_refs (m_id ` set (memories g))) is \<Longrightarrow>
     refs_ok (g\<lparr>participant_identities := is\<rparr>)"
  "refs_ok g \<Longrightarrow> refs_ok (g\<lparr>memories_fts := fs\<rparr>)"
  "refs_ok g \<Longrightarrow> refs_ok (g\<lparr>graph_head := h\<rparr>)"
  by (simp_all add: refs_ok_def)

lemma list_all_update_where:
  "list_all Q xs \<Longrightarrow> (\<And>r. Q r \<Longrightarrow> P r \<Longrightarrow> Q (f r)) \<Longrightarrow> list_all Q (update_where P f xs)"
  by (auto simp: update_where_def list_all_iff)

lemma list_all_filter: "list_all Q xs \<Longrightarrow> list_all Q (filter P xs)"
  by (auto simp: list_all_iff)

section \<open>Statements\<close>

text \<open>An update that keeps a memory's key and class, or an entry's key and references.\<close>

lemma refs_update_memories:
  assumes "refs_ok g" "\<And>r. m_id (f r) = m_id r \<and> m_class_id (f r) = m_class_id r"
  shows "refs_ok (update_memories P f g)"
  unfolding update_memories_def
  by (rule refs_memories [OF assms(1)])
    (use assms refs_ok_tables(1) [OF assms(1)] in \<open>auto simp: memory_refs_def intro!: list_all_update_where\<close>)

lemma refs_update_entries:
  assumes "refs_ok g" "\<And>r. e_id (f r) = e_id r \<and> e_memory (f r) = e_memory r"
    and "\<And>r. P r \<Longrightarrow> set_option (e_superseded_by (f r)) \<subseteq> set_option (e_superseded_by r) \<union> e_id ` set (content_entries g)"
  shows "refs_ok (update_entries P f g)"
  unfolding update_entries_def
  by (rule refs_entries [OF assms(1)])
    (use assms refs_ok_tables(2) [OF assms(1)] in \<open>fastforce simp: entry_refs_def intro!: list_all_update_where\<close>)+

lemma refs_update_attestations:
  assumes "refs_ok g" "\<And>r. a_entry (f r) = a_entry r"
    and "\<And>r. P r \<Longrightarrow> set_option (a_source_entry (f r)) \<subseteq> set_option (a_source_entry r) \<union> e_id ` set (content_entries g)"
  shows "refs_ok (update_attestations P f g)"
  unfolding update_attestations_def
  by (rule refs_leaf_tables(1) [OF assms(1)])
    (use assms refs_ok_tables(3) [OF assms(1)] in \<open>fastforce simp: attestation_refs_def intro!: list_all_update_where\<close>)

lemma refs_update_fts: "refs_ok g \<Longrightarrow> refs_ok (update_fts i f g)"
  by (simp add: update_fts_def refs_leaf_tables)

lemma refs_append_rows:
  "refs_ok g \<Longrightarrow> m_class_id r \<in> insert (m_id r) (m_id ` set (memories g)) \<Longrightarrow>
     refs_ok (g\<lparr>memories := memories g @ [r]\<rparr>)"
  "refs_ok g \<Longrightarrow> entry_refs (m_id ` set (memories g)) (insert (e_id e) (e_id ` set (content_entries g))) e \<Longrightarrow>
     refs_ok (g\<lparr>content_entries := content_entries g @ [e]\<rparr>)"
  "refs_ok g \<Longrightarrow> attestation_refs (e_id ` set (content_entries g)) a \<Longrightarrow>
     refs_ok (g\<lparr>entry_attestations := entry_attestations g @ [a]\<rparr>)"
proof -
  assume g: "refs_ok g"
  note t = refs_ok_tables [OF g]
  show "m_class_id r \<in> insert (m_id r) (m_id ` set (memories g)) \<Longrightarrow>
      refs_ok (g\<lparr>memories := memories g @ [r]\<rparr>)"
    by (rule refs_memories [OF g]) (use t(1) in \<open>auto simp: list_all_iff memory_refs_def\<close>)
  show "entry_refs (m_id ` set (memories g)) (insert (e_id e) (e_id ` set (content_entries g))) e \<Longrightarrow>
      refs_ok (g\<lparr>content_entries := content_entries g @ [e]\<rparr>)"
    by (rule refs_entries [OF g]) (use t(2) in \<open>auto simp: list_all_iff entry_refs_def\<close>)
  show "attestation_refs (e_id ` set (content_entries g)) a \<Longrightarrow>
      refs_ok (g\<lparr>entry_attestations := entry_attestations g @ [a]\<rparr>)"
    by (rule refs_leaf_tables(1) [OF g]) (simp add: t(3))
qed

lemma refs_insert_entry:
  "refs_ok g \<Longrightarrow> insert_entry r g = Inr g' \<Longrightarrow> e_superseded_by r = None \<Longrightarrow> refs_ok g'"
  by (auto simp: insert_entry_def andthen_Inr_iff memory_ids_def entry_refs_def intro!: refs_append_rows)

lemma attestation_refs_ok_iff:
  "attestation_refs_ok r g \<longleftrightarrow> attestation_refs (e_id ` set (content_entries g)) r"
  by (auto simp: attestation_refs_ok_def attestation_refs_def entry_ids_def split: option.splits)

lemma refs_insert_attestation: "refs_ok g \<Longrightarrow> insert_attestation r g = Inr g' \<Longrightarrow> refs_ok g'"
  by (auto simp: insert_attestation_def andthen_Inr_iff attestation_refs_ok_iff intro!: refs_append_rows)

section \<open>Arms\<close>

lemma refs_memory_created: "refs_ok g \<Longrightarrow> apply_memory_created n t i nm g = Inr g' \<Longrightarrow> refs_ok g'"
  by (auto simp: apply_memory_created_def insert_memory_def andthen_Inr_iff
      intro!: refs_leaf_tables(8) refs_append_rows)

lemma refs_memory_renamed: "refs_ok g \<Longrightarrow> apply_memory_renamed n i nm nm' g = Inr g' \<Longrightarrow> refs_ok g'"
proof -
  assume g: "refs_ok g" and a: "apply_memory_renamed n i nm nm' g = Inr g'"
  from a obtain g1 g2 where r: "rename_memory i (name_str nm') n g = Inr g1"
    "replace_alias (name_str nm) i (update_fts i (\<lambda>r. r\<lparr>f_name := name_str nm'\<rparr>) g1) = Inr g2"
    "g' = update_fts i (\<lambda>r. r\<lparr>f_content := f_content r @ '' '' @ name_str nm\<rparr>) g2"
    by (auto simp: apply_memory_renamed_def andthen_Inr_iff)
  have g1: "refs_ok g1"
    using r(1) g by (auto simp: rename_memory_def andthen_Inr_iff intro!: refs_update_memories)
  let ?h = "update_fts i (\<lambda>r. r\<lparr>f_name := name_str nm'\<rparr>) g1"
  have h: "refs_ok ?h" by (rule refs_update_fts [OF g1])
  have "refs_ok g2"
    using r(2) refs_ok_tables(7) [OF h]
    by (auto simp: replace_alias_def andthen_Inr_iff alias_refs_def memory_ids_def
        intro!: refs_leaf_tables(5) [OF h] list_all_filter)
  then show ?thesis by (simp add: r(3) refs_update_fts)
qed

lemma refs_delete_room: "refs_ok g \<Longrightarrow> refs_ok (delete_room i g)"
proof -
  assume g: "refs_ok g"
  note t = refs_ok_tables [OF g]
  let ?cs = "filter (\<lambda>c. c_context_memory c \<noteq> i) (conversations g)"
  let ?ss = "filter (\<lambda>s. s_conversation s \<notin> room_conversations i g) (sessions g)"
  let ?ps = "filter (\<lambda>p. p_session p \<notin> room_sessions i g) (session_participants g)"
  have eq: "delete_room i g = g\<lparr>session_participants := ?ps, sessions := ?ss, conversations := ?cs\<rparr>"
    by (simp add: delete_room_def Let_def room_conversations_def)
  have "list_all (session_refs (c_id ` set ?cs)) ?ss"
    using t(9) by (auto simp: list_all_iff session_refs_def room_conversations_def image_iff)
  moreover have "list_all (participant_refs (m_id ` set (memories g)) (s_id ` set ?ss)) ?ps"
    using t(10) by (auto simp: list_all_iff participant_refs_def room_sessions_def image_iff)
  ultimately show ?thesis
    using g by (simp add: eq refs_ok_def list_all_filter)
qed

lemma refs_memory_deleted: "refs_ok g \<Longrightarrow> apply_memory_deleted i g = Inr g' \<Longrightarrow> refs_ok g'"
  by (auto simp: apply_memory_deleted_def intro!: refs_delete_room refs_update_memories)

lemma refs_content_appended:
  "refs_ok g \<Longrightarrow> apply_content_appended J n src i e t occ text tb ti v g = Inr g' \<Longrightarrow> refs_ok g'"
  by (auto simp: apply_content_appended_def andthen_Inr_iff Let_def set_occurrence_def split: if_splits
      intro!: refs_update_fts refs_update_memories elim!: refs_insert_attestation [rotated] refs_insert_entry [rotated])

lemma refs_superseded: "refs_ok g \<Longrightarrow> set_superseded e e' g = Inr g' \<Longrightarrow> refs_ok g'"
proof -
  assume g: "refs_ok g" and a: "set_superseded e e' g = Inr g'"
  show ?thesis
  proof (cases "e \<in> set (entry_ids g)")
    case True
    with a g show ?thesis
      by (auto simp: set_superseded_def andthen_Inr_iff entry_ids_def intro!: refs_update_entries)
  next
    case False
    then have "update_where (\<lambda>r. e_id r = e) f (content_entries g) = content_entries g" for f
      by (auto simp: update_where_def entry_ids_def intro!: map_idI)
    with a g show ?thesis
      by (simp add: set_superseded_def andthen_Inr_iff update_entries_def)
  qed
qed

lemma refs_set_retracted: "refs_ok g \<Longrightarrow> refs_ok (set_retracted e s g)"
proof -
  assume g: "refs_ok g"
  have "update_where (\<lambda>r. e_id r = e) f (content_entries g)
      = update_where (\<lambda>r. e_id r = e \<and> r \<in> set (content_entries g)) f (content_entries g)" for f
    by (auto simp: update_where_def)
  then have "set_retracted e s g = update_entries (\<lambda>r. e_id r = e \<and> r \<in> set (content_entries g))
      (\<lambda>r. r\<lparr>e_superseded_by := Some e, e_retracted_reason := Some s\<rparr>) g"
    by (simp add: set_retracted_def update_entries_def)
  then show ?thesis using g by (auto intro!: refs_update_entries)
qed

lemma refs_entry_retracted: "refs_ok g \<Longrightarrow> apply_entry_retracted e s g = Inr g' \<Longrightarrow> refs_ok g'"
  by (auto simp: apply_entry_retracted_def intro!: refs_update_attestations refs_set_retracted)

lemma refs_entry_attested: "refs_ok g \<Longrightarrow> apply_entry_attested n e te ti t v ph se g = Inr g' \<Longrightarrow> refs_ok g'"
  by (auto simp: apply_entry_attested_def upsert_attestation_def andthen_Inr_iff attestation_refs_ok_iff
      attestation_refs_def split: if_splits intro!: refs_update_attestations refs_append_rows(3))

lemma refs_attestation_retracted:
  "refs_ok g \<Longrightarrow> apply_attestation_retracted e te s g = Inr g' \<Longrightarrow> refs_ok g'"
  by (auto simp: apply_attestation_retracted_def Let_def split: if_splits
      intro!: refs_set_retracted refs_update_attestations)

lemma refs_description_mirrored: "refs_ok g \<Longrightarrow> apply_description_mirrored e g = Inr g' \<Longrightarrow> refs_ok g'"
  by (auto simp: apply_description_mirrored_def intro!: refs_update_entries)

lemma refs_temporal_resolved: "refs_ok g \<Longrightarrow> apply_temporal_resolved J e occ g = Inr g' \<Longrightarrow> refs_ok g'"
  by (auto simp: apply_temporal_resolved_def andthen_Inr_iff Let_def set_occurrence_def split: if_splits
      intro!: refs_update_entries)

lemma refs_job_fired: "refs_ok g \<Longrightarrow> apply_job_fired e t g = Inr g' \<Longrightarrow> refs_ok g'"
  by (auto simp: apply_job_fired_def intro!: refs_update_entries)

lemma refs_item_surfaced: "refs_ok g \<Longrightarrow> apply_item_surfaced e t g = Inr g' \<Longrightarrow> refs_ok g'"
  by (auto simp: apply_item_surfaced_def intro!: refs_update_entries)

lemma refs_description_regenerated:
  "refs_ok g \<Longrightarrow> apply_description_regenerated i s g = Inr g' \<Longrightarrow> refs_ok g'"
  by (auto simp: apply_description_regenerated_def intro!: refs_update_fts refs_update_memories)

lemma refs_volatility_set: "refs_ok g \<Longrightarrow> apply_volatility_set i vo g = Inr g' \<Longrightarrow> refs_ok g'"
  by (auto simp: apply_volatility_set_def intro!: refs_update_memories)

lemma refs_genesis_completed: "refs_ok g \<Longrightarrow> apply_genesis_completed g = Inr g' \<Longrightarrow> refs_ok g'"
  by (auto simp: apply_genesis_completed_def intro!: refs_update_memories)

lemma refs_described:
  "refs_ok g \<Longrightarrow> refs_ok (update_memories (\<lambda>r. m_id r = i) (\<lambda>r. r\<lparr>m_last_described_seq := n\<rparr>) g)"
  by (rule refs_update_memories) auto

lemma refs_disputes_cleared:
  "refs_ok g \<Longrightarrow> refs_ok (g\<lparr>entry_disputes := filter (\<lambda>d. d_memory d \<noteq> i) (entry_disputes g)\<rparr>)"
  by (simp add: refs_leaf_tables refs_ok_tables list_all_filter)

lemma refs_dispute_replaced: "refs_ok g \<Longrightarrow> replace_dispute dr g = Inr g' \<Longrightarrow> refs_ok g'"
  by (auto simp: replace_dispute_def andthen_Inr_iff memory_ids_def entry_ids_def dispute_refs_def
      refs_ok_tables intro!: refs_leaf_tables(2) list_all_filter)

lemma refs_tag_created: "refs_ok g \<Longrightarrow> apply_tag_created tg s g = Inr g' \<Longrightarrow> refs_ok g'"
  by (auto simp: apply_tag_created_def insert_tag_def andthen_Inr_iff intro!: refs_tags)

lemma refs_tag_description_changed:
  "refs_ok g \<Longrightarrow> apply_tag_description_changed tg s g = Inr g' \<Longrightarrow> refs_ok g'"
  by (auto simp: apply_tag_description_changed_def intro!: refs_tags)

lemma refs_tag_applied: "refs_ok g \<Longrightarrow> apply_tag_applied i tg g = Inr g' \<Longrightarrow> refs_ok g'"
  by (auto simp: apply_tag_applied_def insert_or_ignore_memory_tag_def andthen_Inr_iff memory_ids_def
      memory_tag_refs_def refs_ok_tables split: if_splits intro!: refs_leaf_tables(3))

lemma refs_tag_removed: "refs_ok g \<Longrightarrow> apply_tag_removed i tg g = Inr g' \<Longrightarrow> refs_ok g'"
  by (auto simp: apply_tag_removed_def refs_ok_tables intro!: refs_leaf_tables(3) list_all_filter)

lemma refs_link_type_registered:
  "refs_ok g \<Longrightarrow> apply_link_type_registered rn rn' fc tc sy re s g = Inr g' \<Longrightarrow> refs_ok g'"
  by (auto simp: apply_link_type_registered_def upsert_relation_def split: if_splits intro!: refs_relations)

lemma refs_conversation_started: "refs_ok g \<Longrightarrow> apply_conversation_started c loc i g = Inr g' \<Longrightarrow> refs_ok g'"
  by (auto simp: apply_conversation_started_def insert_or_ignore_conversation_def andthen_Inr_iff
      memory_ids_def conversation_refs_def refs_ok_tables split: if_splits intro!: refs_conversations)

lemma refs_conversation_ended: "refs_ok g \<Longrightarrow> apply_conversation_ended c g = Inr g' \<Longrightarrow> refs_ok g'"
  by (auto simp: apply_conversation_ended_def conversation_refs_def refs_ok_tables
      intro!: refs_conversations list_all_update_where)

lemma refs_session_inserted: "refs_ok g \<Longrightarrow> insert_session sr g = Inr g' \<Longrightarrow> refs_ok g'"
  by (auto simp: insert_session_def andthen_Inr_iff session_refs_def refs_ok_tables intro!: refs_sessions)

lemma refs_session_ended: "refs_ok g \<Longrightarrow> apply_session_ended s' ca g = Inr g' \<Longrightarrow> refs_ok g'"
  by (auto simp: apply_session_ended_def session_refs_def refs_ok_tables
      intro!: refs_sessions list_all_update_where)

lemma refs_participant_inserted: "refs_ok g \<Longrightarrow> insert_or_ignore_participant pr g = Inr g' \<Longrightarrow> refs_ok g'"
  by (auto simp: insert_or_ignore_participant_def andthen_Inr_iff memory_ids_def participant_refs_def
      refs_ok_tables split: if_splits intro!: refs_leaf_tables(6))

lemma refs_participant_identified:
  "refs_ok g \<Longrightarrow> apply_participant_identified i p u g = Inr g' \<Longrightarrow> refs_ok g'"
  by (auto simp: apply_participant_identified_def insert_or_ignore_identity_def andthen_Inr_iff
      memory_ids_def identity_refs_def refs_ok_tables split: if_splits intro!: refs_leaf_tables(7))

section \<open>Links and classes\<close>

lemma refs_same_as_closed: "refs_ok g \<Longrightarrow> same_as_closed g"
  using refs_ok_tables(6) [of g]
  by (fastforce simp: same_as_closed_def same_as_edges_def memory_ids_def list_all_iff link_refs_def)

lemma refs_recompute: "refs_ok g \<Longrightarrow> recompute_classes g = Inr g' \<Longrightarrow> refs_ok g'"
proof -
  assume g: "refs_ok g" and r: "recompute_classes g = Inr g'"
  from recompute_classes_spec [OF refs_same_as_closed [OF g]] r obtain cls where
    g': "g' = update_memories (\<lambda>_. True) (\<lambda>r. r\<lparr>m_class_id := cls (m_id r)\<rparr>) g"
    and prim: "\<And>i. i \<in> set (memory_ids g) \<Longrightarrow> is_primary_of g i (cls i)" by auto
  have "cls (m_id r) \<in> m_id ` set (memories g)" if "r \<in> set (memories g)" for r
    using prim [of "m_id r"] that by (auto simp: is_primary_of_def class_members_def memory_ids_def)
  then show ?thesis
    unfolding g' update_memories_def
    by (intro refs_memories [OF g]) (auto simp: memory_refs_def list_all_iff update_where_def image_image)
qed

lemma refs_recompute_if: "refs_ok g \<Longrightarrow> recompute_if_same_as l g = Inr g' \<Longrightarrow> refs_ok g'"
  by (auto simp: recompute_if_same_as_def split: if_splits intro: refs_recompute)

lemma refs_upsert_link: "refs_ok g \<Longrightarrow> upsert_link r g = Inr g' \<Longrightarrow> refs_ok g'"
  by (auto simp: upsert_link_def andthen_Inr_iff memory_ids_def link_refs_def refs_ok_tables
      split: if_splits intro!: refs_leaf_tables(4) list_all_update_where)

lemma refs_delete_link: "refs_ok g \<Longrightarrow> refs_ok (delete_link k g)"
  by (simp add: delete_link_def refs_leaf_tables refs_ok_tables list_all_filter)

lemma refs_link_created: "refs_ok g \<Longrightarrow> apply_link_created t i j rn ls tbo ti v g = Inr g' \<Longrightarrow> refs_ok g'"
  by (auto simp: apply_link_created_def andthen_Inr_iff split: prod.splits
      intro: refs_recompute_if refs_upsert_link)

lemma refs_link_removed: "refs_ok g \<Longrightarrow> apply_link_removed i j rn g = Inr g' \<Longrightarrow> refs_ok g'"
  by (auto simp: apply_link_removed_def split: prod.splits intro: refs_recompute_if refs_delete_link)

lemma refs_primary_designated: "refs_ok g \<Longrightarrow> apply_primary_designated i d g = Inr g' \<Longrightarrow> refs_ok g'"
  unfolding apply_primary_designated_def
  by (erule refs_recompute [rotated]) (auto intro!: refs_update_memories)

lemma refs_fresh: "refs_ok empty_graph"
  by (simp add: refs_ok_def empty_graph_def)

lemmas refs_arms = refs_fresh refs_leaf_tables(9) refs_memory_created refs_memory_renamed
  refs_memory_deleted refs_content_appended refs_superseded refs_entry_retracted refs_entry_attested
  refs_attestation_retracted refs_description_mirrored refs_temporal_resolved refs_job_fired
  refs_item_surfaced refs_description_regenerated refs_volatility_set refs_primary_designated
  refs_genesis_completed refs_described refs_disputes_cleared refs_dispute_replaced refs_tag_created
  refs_tag_description_changed refs_tag_applied refs_tag_removed refs_link_type_registered
  refs_link_created refs_link_removed refs_conversation_started refs_conversation_ended
  refs_session_inserted refs_session_ended refs_participant_inserted refs_participant_identified

interpretation refs: projection_invariant J refs_ok for J
  by unfold_locales (fact refs_arms)+

end
