(* ===== verification/Graph_Facts.thy ===== *)
theory Graph_Facts
  imports Graph_Refs
begin

text \<open>
  The invariants the readers of the projection rely on: a live entry always has an attestation in
  force, the denormalized occurrence bounds are ordered, and the class column always names the primary
  of the memory's \<open>same_as\<close> component.
\<close>

section \<open>Entries\<close>

definition occurrence_ok :: "entry_row \<Rightarrow> bool" where
  "occurrence_ok e \<longleftrightarrow>
     bounds_wf \<lparr>b_sort = e_occurred_sort e, b_lo = e_occurred_lo e, b_hi = e_occurred_hi e\<rparr>
     \<and> (e_occurred_at e = None \<longrightarrow> e_occurred_sort e = None)"

definition attested :: "attestation_row list \<Rightarrow> entry_row \<Rightarrow> bool" where
  "attested as e \<longleftrightarrow>
     e_superseded_by e = None \<longrightarrow> (\<exists>a \<in> set as. a_entry a = e_id e \<and> a_retracted_reason a = None)"

definition entry_facts :: "graph \<Rightarrow> bool" where
  "entry_facts g \<longleftrightarrow>
     list_all occurrence_ok (content_entries g)
     \<and> list_all (attested (entry_attestations g)) (content_entries g)"

lemma entry_facts_cong:
  "content_entries g' = content_entries g \<Longrightarrow> entry_attestations g' = entry_attestations g \<Longrightarrow>
   entry_facts g' = entry_facts g"
  by (simp add: entry_facts_def)

lemma entry_facts_other_tables [simp]:
  "entry_facts (g\<lparr>memories := ms\<rparr>) = entry_facts g"
  "entry_facts (g\<lparr>entry_disputes := ds\<rparr>) = entry_facts g"
  "entry_facts (g\<lparr>tags := ts\<rparr>) = entry_facts g"
  "entry_facts (g\<lparr>memory_tags := mts\<rparr>) = entry_facts g"
  "entry_facts (g\<lparr>relations := rs\<rparr>) = entry_facts g"
  "entry_facts (g\<lparr>links := ls\<rparr>) = entry_facts g"
  "entry_facts (g\<lparr>memory_aliases := als\<rparr>) = entry_facts g"
  "entry_facts (g\<lparr>conversations := cs\<rparr>) = entry_facts g"
  "entry_facts (g\<lparr>sessions := ss\<rparr>) = entry_facts g"
  "entry_facts (g\<lparr>session_participants := ps\<rparr>) = entry_facts g"
  "entry_facts (g\<lparr>participant_identities := pis\<rparr>) = entry_facts g"
  "entry_facts (g\<lparr>memories_fts := fs\<rparr>) = entry_facts g"
  "entry_facts (g\<lparr>graph_head := h\<rparr>) = entry_facts g"
  by (simp_all add: entry_facts_def)

lemma entry_facts_update_memories [simp]: "entry_facts (update_memories P f g) = entry_facts g"
  by (simp add: update_memories_def)

lemma entry_facts_update_fts [simp]: "entry_facts (update_fts i f g) = entry_facts g"
  by (simp add: update_fts_def)

text \<open>What an update of entries or attestations must keep.\<close>

lemma entry_facts_update_entries:
  assumes "entry_facts g"
    and "\<And>r. P r \<Longrightarrow> occurrence_ok r \<Longrightarrow> occurrence_ok (f r)"
    and "\<And>r. P r \<Longrightarrow> e_id (f r) = e_id r \<and> (e_superseded_by (f r) = None \<longrightarrow> e_superseded_by r = None)"
  shows "entry_facts (update_entries P f g)"
  using assms by (auto simp: entry_facts_def update_entries_def list_all_iff update_where_def attested_def)

lemma entry_facts_more_attestations:
  assumes "entry_facts g"
    and "\<And>a. a \<in> set (entry_attestations g) \<Longrightarrow> a_retracted_reason a = None \<Longrightarrow>
      \<exists>b \<in> set as. a_entry b = a_entry a \<and> a_retracted_reason b = None"
  shows "entry_facts (g\<lparr>entry_attestations := as\<rparr>)"
  using assms by (fastforce simp: entry_facts_def list_all_iff attested_def)

lemma opt_from_millis_Inr: "opt_from_millis J v = Inr t \<Longrightarrow> t = v"
  by (auto simp: opt_from_millis_def andthen_Inr_iff split: option.splits)

lemma anchor_bounds_wf:
  assumes "entry_facts g" "anchor_bounds J g nm = Inr (Some b)"
  shows "bounds_wf b"
proof -
  let ?es = "sort_key (\<lambda>e. the (e_occurred_sort e)) (timed_entries_named g (name_str nm))"
  from assms(2) obtain e es where e: "?es = e # es"
    and b: "b = \<lparr>b_sort = e_occurred_sort e, b_lo = e_occurred_lo e, b_hi = e_occurred_hi e\<rparr>"
    by (auto simp: anchor_bounds_def andthen_Inr_iff split: list.splits dest!: opt_from_millis_Inr)
  have "e \<in> set ?es" by (simp add: e)
  then have "e \<in> set (content_entries g)" by (simp add: timed_entries_named_def)
  with assms(1) b show ?thesis by (auto simp: entry_facts_def list_all_iff occurrence_ok_def)
qed

lemma occurrence_bounds_of_wf:
  assumes "entry_facts g" "occurrence_bounds_of J g occ = Inr b"
  shows "bounds_wf b \<and> (occ = None \<longrightarrow> b = bounds_default)"
proof (cases occ)
  case None
  with assms(2) show ?thesis by (simp add: occurrence_bounds_of_def)
next
  case (Some r)
  with assms(2) obtain anchor where
    a: "(case r of TemporalRef_BeforeAfter dir nm \<Rightarrow> anchor_bounds J g nm | _ \<Rightarrow> Inr None) = Inr anchor"
    "bounds J r anchor BEFORE_AFTER_EPSILON_MILLIS = Inr b"
    by (auto simp: occurrence_bounds_of_def andthen_Inr_iff)
  have "bounds_wf x" if "anchor = Some x" for x
    using a(1) that anchor_bounds_wf [OF assms(1)] by (auto split: temporal_ref.splits)
  with bounds_preserves_wf [OF a(2)] Some show ?thesis by auto
qed

lemma set_occurrence_ok:
  "bounds_wf b \<Longrightarrow> (occ = None \<longrightarrow> b = bounds_default) \<Longrightarrow> occurrence_ok (set_occurrence occ b r)"
  by (cases b) (auto simp: occurrence_ok_def set_occurrence_def bounds_default_def)

lemma facts_content_appended:
  assumes "entry_facts g" "apply_content_appended J n src i e t occ text tb ti v g = Inr g'"
  shows "entry_facts g'"
proof -
  from assms(2) obtain b where b: "occurrence_bounds_of J g occ = Inr b"
    by (auto simp: apply_content_appended_def andthen_Inr_iff)
  note wf = occurrence_bounds_of_wf [OF assms(1) b]
  define row where "row = set_occurrence occ b
       \<lparr>e_id = e, e_memory = i, e_asserted_at = t, e_occurred_at = None, e_occurred_sort = None,
        e_occurred_lo = None, e_occurred_hi = None, e_occurred_authored = (occ \<noteq> None),
        e_description_mirror = False, e_fired_at = None, e_surfaced_at = None, e_text = text,
        e_told_by = tb, e_told_in = ti, e_visibility = v, e_superseded_by = None,
        e_retracted_reason = None, e_origin_platform = origin_platform_of src, e_seq = n\<rparr>"
  have row: "occurrence_ok row" "e_id row = e"
    using wf by (simp_all add: row_def set_occurrence_ok) (simp add: set_occurrence_def)
  from assms(2) b have g': "content_entries g' = content_entries g @ [row]"
    "entry_attestations g' = entry_attestations g @ [founding_row e tb ti t v n]"
    by (auto simp: apply_content_appended_def andthen_Inr_iff insert_entry_def insert_attestation_def
        Let_def update_memories_def update_fts_def row_def split: if_splits)
  show ?thesis
    using assms(1) row
    by (auto simp: entry_facts_def g' list_all_iff attested_def founding_row_def)
qed

text \<open>Withdrawing attestations of one entry touches no other entry's.\<close>

lemma other_attestations_kept:
  "a \<in> set (entry_attestations g) \<Longrightarrow> \<not> P a \<Longrightarrow> a \<in> set (entry_attestations (update_attestations P f g))"
  by (force simp: update_attestations_def update_where_def)

lemma entry_facts_tombstone:
  assumes "entry_facts g" "content_entries g1 = content_entries g"
    and "\<And>a. a \<in> set (entry_attestations g) \<Longrightarrow> a_entry a \<noteq> e \<Longrightarrow> a \<in> set (entry_attestations g1)"
  shows "entry_facts (set_retracted e s g1)"
proof -
  have "attested (entry_attestations g1) r"
    if "r \<in> set (content_entries g)" "e_id r \<noteq> e" for r
    using that assms(1,3) by (fastforce simp: entry_facts_def list_all_iff attested_def)
  moreover have "occurrence_ok (r\<lparr>e_superseded_by := x, e_retracted_reason := y\<rparr>) = occurrence_ok r" for r x y
    by (simp add: occurrence_ok_def)
  ultimately show ?thesis
    using assms(1,2)
    by (simp add: entry_facts_def set_retracted_def update_entries_def list_all_iff)
      (simp add: attested_def)
qed

lemma facts_attestation_retracted:
  assumes "entry_facts g" "apply_attestation_retracted e te s g = Inr g'"
  shows "entry_facts g'"
proof -
  let ?P = "\<lambda>a. a_entry a = e \<and> a_teller a = te"
  let ?g1 = "update_attestations ?P (\<lambda>a. a\<lparr>a_retracted_reason := Some s\<rparr>) g"
  have entries: "content_entries ?g1 = content_entries g" by (simp add: update_attestations_def)
  have kept: "a \<in> set (entry_attestations ?g1)"
    if "a \<in> set (entry_attestations g)" "a_entry a \<noteq> e" for a
    using that by (intro other_attestations_kept) auto
  show ?thesis
  proof (cases "live_attestations e ?g1 = []")
    case True
    with assms(2) have "g' = set_retracted e s ?g1" by (simp add: apply_attestation_retracted_def Let_def)
    with entry_facts_tombstone [OF assms(1) entries kept] show ?thesis by simp
  next
    case False
    with assms(2) have g': "g' = ?g1" by (simp add: apply_attestation_retracted_def Let_def)
    from False obtain a where "a \<in> set (entry_attestations ?g1)" "a_entry a = e" "a_retracted_reason a = None"
      by (auto simp: live_attestations_def filter_empty_conv)
    moreover have "?g1 = g\<lparr>entry_attestations := entry_attestations ?g1\<rparr>"
      by (simp add: update_attestations_def)
    ultimately show ?thesis
      using entry_facts_more_attestations [OF assms(1), of "entry_attestations ?g1"] kept
      unfolding g' by metis
  qed
qed

lemma facts_entry_retracted:
  assumes "entry_facts g" "apply_entry_retracted e s g = Inr g'"
  shows "entry_facts g'"
proof -
  let ?P = "\<lambda>a. a_entry a = e \<and> a_retracted_reason a = None"
  let ?f = "\<lambda>a. a\<lparr>a_retracted_reason := Some s\<rparr>"
  have "g' = set_retracted e s (update_attestations ?P ?f g)"
    using assms(2) by (cases g) (simp add: apply_entry_retracted_def update_attestations_def
        set_retracted_def update_entries_def)
  moreover have "content_entries (update_attestations ?P ?f g) = content_entries g"
    by (simp add: update_attestations_def)
  ultimately show ?thesis
    using entry_facts_tombstone [OF assms(1)] other_attestations_kept by auto
qed

lemma facts_entry_attested:
  assumes "entry_facts g" "apply_entry_attested n e te ti t v ph se g = Inr g'"
  shows "entry_facts g'"
proof -
  define f where "f = (\<lambda>x :: attestation_row. x\<lparr>a_told_in := ti, a_asserted_at := t, a_posture := v, a_phrasing := ph,
    a_source_entry := se, a_retracted_reason := None\<rparr>)"
  define P where "P = (\<lambda>x :: attestation_row. attestation_key x = (e, te))"
  from assms(2) consider r where "g' = g\<lparr>entry_attestations := entry_attestations g @ [r]\<rparr>"
    | "g' = g\<lparr>entry_attestations := update_where P f (entry_attestations g)\<rparr>"
    by (auto simp: apply_entry_attested_def upsert_attestation_def andthen_Inr_iff update_attestations_def
        f_def P_def attestation_key_def split: if_splits)
  then show ?thesis
  proof cases
    case 1
    have "entry_facts (g\<lparr>entry_attestations := entry_attestations g @ [r]\<rparr>)"
      by (rule entry_facts_more_attestations [OF assms(1)]) auto
    with 1 show ?thesis by simp
  next
    case 2
    have "\<exists>b \<in> set (update_where P f (entry_attestations g)). a_entry b = a_entry a \<and> a_retracted_reason b = None"
      if "a \<in> set (entry_attestations g)" "a_retracted_reason a = None" for a
      using that by (intro bexI [of _ "if P a then f a else a"]) (auto simp: f_def update_where_def)
    with entry_facts_more_attestations [OF assms(1)] 2 show ?thesis by blast
  qed
qed

lemma facts_temporal_resolved:
  assumes "entry_facts g" "apply_temporal_resolved J e occ g = Inr g'"
  shows "entry_facts g'"
proof -
  from assms(2) obtain b where b: "occurrence_bounds_of J g occ = Inr b"
    by (auto simp: apply_temporal_resolved_def andthen_Inr_iff)
  let ?g1 = "update_entries (\<lambda>r. e_id r = e) (\<lambda>r. (set_occurrence occ b r)\<lparr>e_occurred_authored := False\<rparr>) g"
  have "occurrence_ok ((set_occurrence occ b r)\<lparr>e_occurred_authored := False\<rparr>)" for r
    using set_occurrence_ok [OF conjunct1 conjunct2, OF occurrence_bounds_of_wf occurrence_bounds_of_wf,
        OF assms(1) b assms(1) b, of r]
    by (simp add: occurrence_ok_def)
  then have "entry_facts ?g1"
    by (intro entry_facts_update_entries [OF assms(1)]) (auto simp: set_occurrence_def)
  moreover have "entry_facts (update_entries (\<lambda>r. e_id r = e) (\<lambda>r. r\<lparr>e_fired_at := None, e_surfaced_at := None\<rparr>) ?g1)"
    by (rule entry_facts_update_entries [OF \<open>entry_facts ?g1\<close>]) (auto simp: occurrence_ok_def)
  ultimately show ?thesis
    using assms(2) b by (auto simp: apply_temporal_resolved_def Let_def split: if_splits)
qed

text \<open>The remaining arms of the entries change neither occurrence nor supersession towards live.\<close>

lemma facts_superseded: "entry_facts g \<Longrightarrow> set_superseded e e' g = Inr g' \<Longrightarrow> entry_facts g'"
  by (auto simp: set_superseded_def andthen_Inr_iff occurrence_ok_def intro!: entry_facts_update_entries)

lemma facts_description_mirrored: "entry_facts g \<Longrightarrow> apply_description_mirrored e g = Inr g' \<Longrightarrow> entry_facts g'"
  by (auto simp: apply_description_mirrored_def andthen_Inr_iff occurrence_ok_def intro!: entry_facts_update_entries)

lemma facts_job_fired: "entry_facts g \<Longrightarrow> apply_job_fired e t g = Inr g' \<Longrightarrow> entry_facts g'"
  by (auto simp: apply_job_fired_def andthen_Inr_iff occurrence_ok_def intro!: entry_facts_update_entries)

lemma facts_item_surfaced: "entry_facts g \<Longrightarrow> apply_item_surfaced e t g = Inr g' \<Longrightarrow> entry_facts g'"
  by (auto simp: apply_item_surfaced_def andthen_Inr_iff occurrence_ok_def intro!: entry_facts_update_entries)

text \<open>The other arms leave both tables alone.\<close>

lemma facts_recompute: "entry_facts g \<Longrightarrow> recompute_classes g = Inr g' \<Longrightarrow> entry_facts g'"
  by (auto dest!: recompute_classes_shape)

lemma facts_recompute_if: "entry_facts g \<Longrightarrow> recompute_if_same_as l g = Inr g' \<Longrightarrow> entry_facts g'"
  by (auto simp: recompute_if_same_as_def split: if_splits intro: facts_recompute)

lemma facts_memory_created: "entry_facts g \<Longrightarrow> apply_memory_created n t i nm g = Inr g' \<Longrightarrow> entry_facts g'"
  by (auto simp: apply_memory_created_def insert_memory_def Let_def andthen_Inr_iff split: if_splits)

lemma facts_memory_renamed: "entry_facts g \<Longrightarrow> apply_memory_renamed n i nm nm' g = Inr g' \<Longrightarrow> entry_facts g'"
  by (auto simp: apply_memory_renamed_def rename_memory_def replace_alias_def Let_def andthen_Inr_iff split: if_splits)

lemma facts_memory_deleted: "entry_facts g \<Longrightarrow> apply_memory_deleted i g = Inr g' \<Longrightarrow> entry_facts g'"
  by (auto simp: apply_memory_deleted_def delete_room_def Let_def split: if_splits)

lemma facts_description_regenerated: "entry_facts g \<Longrightarrow> apply_description_regenerated i s g = Inr g' \<Longrightarrow> entry_facts g'"
  by (auto simp: apply_description_regenerated_def Let_def andthen_Inr_iff split: if_splits)

lemma facts_volatility_set: "entry_facts g \<Longrightarrow> apply_volatility_set i vo g = Inr g' \<Longrightarrow> entry_facts g'"
  by (auto simp: apply_volatility_set_def Let_def andthen_Inr_iff split: if_splits)

lemma facts_primary_designated: "entry_facts g \<Longrightarrow> apply_primary_designated i d g = Inr g' \<Longrightarrow> entry_facts g'"
  by (auto simp: apply_primary_designated_def intro: facts_recompute [rotated])

lemma facts_genesis_completed: "entry_facts g \<Longrightarrow> apply_genesis_completed g = Inr g' \<Longrightarrow> entry_facts g'"
  by (auto simp: apply_genesis_completed_def Let_def andthen_Inr_iff split: if_splits)

lemma facts_described: "entry_facts g \<Longrightarrow> entry_facts (update_memories (\<lambda>r. m_id r = i) (\<lambda>r. r\<lparr>m_last_described_seq := n\<rparr>) g)"
  by simp

lemma facts_disputes_cleared: "entry_facts g \<Longrightarrow> entry_facts (g\<lparr>entry_disputes := filter (\<lambda>d. d_memory d \<noteq> i) (entry_disputes g)\<rparr>)"
  by simp

lemma facts_dispute_replaced: "entry_facts g \<Longrightarrow> replace_dispute dr g = Inr g' \<Longrightarrow> entry_facts g'"
  by (auto simp: replace_dispute_def Let_def andthen_Inr_iff split: if_splits)

lemma facts_tag_created: "entry_facts g \<Longrightarrow> apply_tag_created tg s g = Inr g' \<Longrightarrow> entry_facts g'"
  by (auto simp: apply_tag_created_def insert_tag_def Let_def andthen_Inr_iff split: if_splits)

lemma facts_tag_description_changed: "entry_facts g \<Longrightarrow> apply_tag_description_changed tg s g = Inr g' \<Longrightarrow> entry_facts g'"
  by (auto simp: apply_tag_description_changed_def Let_def andthen_Inr_iff split: if_splits)

lemma facts_tag_applied: "entry_facts g \<Longrightarrow> apply_tag_applied i tg g = Inr g' \<Longrightarrow> entry_facts g'"
  by (auto simp: apply_tag_applied_def insert_or_ignore_memory_tag_def Let_def andthen_Inr_iff split: if_splits)

lemma facts_tag_removed: "entry_facts g \<Longrightarrow> apply_tag_removed i tg g = Inr g' \<Longrightarrow> entry_facts g'"
  by (auto simp: apply_tag_removed_def Let_def andthen_Inr_iff split: if_splits)

lemma facts_link_type_registered: "entry_facts g \<Longrightarrow> apply_link_type_registered rn rn' fc tc sy re s g = Inr g' \<Longrightarrow> entry_facts g'"
  by (auto simp: apply_link_type_registered_def upsert_relation_def Let_def andthen_Inr_iff split: if_splits)

lemma facts_link_created: "entry_facts g \<Longrightarrow> apply_link_created t i j rn ls tbo ti v g = Inr g' \<Longrightarrow> entry_facts g'"
  by (auto simp: apply_link_created_def andthen_Inr_iff upsert_link_def split: prod.splits if_splits
      intro: facts_recompute_if [rotated])

lemma facts_link_removed: "entry_facts g \<Longrightarrow> apply_link_removed i j rn g = Inr g' \<Longrightarrow> entry_facts g'"
  by (auto simp: apply_link_removed_def delete_link_def split: prod.splits intro: facts_recompute_if [rotated])

lemma facts_conversation_started: "entry_facts g \<Longrightarrow> apply_conversation_started c loc i g = Inr g' \<Longrightarrow> entry_facts g'"
  by (auto simp: apply_conversation_started_def insert_or_ignore_conversation_def Let_def andthen_Inr_iff split: if_splits)

lemma facts_conversation_ended: "entry_facts g \<Longrightarrow> apply_conversation_ended c g = Inr g' \<Longrightarrow> entry_facts g'"
  by (auto simp: apply_conversation_ended_def Let_def andthen_Inr_iff split: if_splits)

lemma facts_session_inserted: "entry_facts g \<Longrightarrow> insert_session sr g = Inr g' \<Longrightarrow> entry_facts g'"
  by (auto simp: insert_session_def Let_def andthen_Inr_iff split: if_splits)

lemma facts_session_ended: "entry_facts g \<Longrightarrow> apply_session_ended s' ca g = Inr g' \<Longrightarrow> entry_facts g'"
  by (auto simp: apply_session_ended_def Let_def andthen_Inr_iff split: if_splits)

lemma facts_participant_inserted: "entry_facts g \<Longrightarrow> insert_or_ignore_participant pr g = Inr g' \<Longrightarrow> entry_facts g'"
  by (auto simp: insert_or_ignore_participant_def Let_def andthen_Inr_iff split: if_splits)

lemma facts_participant_identified: "entry_facts g \<Longrightarrow> apply_participant_identified i p u g = Inr g' \<Longrightarrow> entry_facts g'"
  by (auto simp: apply_participant_identified_def insert_or_ignore_identity_def Let_def andthen_Inr_iff split: if_splits)

lemma facts_fresh: "entry_facts empty_graph"
  by (simp add: entry_facts_def empty_graph_def)

lemma facts_head_set: "entry_facts g \<Longrightarrow> entry_facts (g\<lparr>graph_head := h\<rparr>)"
  by simp

lemmas facts_arms = facts_fresh facts_head_set facts_memory_created facts_memory_renamed facts_memory_deleted facts_content_appended
  facts_superseded facts_entry_retracted facts_entry_attested facts_attestation_retracted
  facts_description_mirrored facts_temporal_resolved facts_job_fired facts_item_surfaced
  facts_description_regenerated facts_volatility_set facts_primary_designated
  facts_genesis_completed facts_described facts_disputes_cleared facts_dispute_replaced
  facts_tag_created facts_tag_description_changed facts_tag_applied facts_tag_removed
  facts_link_type_registered facts_link_created facts_link_removed facts_conversation_started
  facts_conversation_ended facts_session_inserted facts_session_ended facts_participant_inserted
  facts_participant_identified

interpretation facts: projection_invariant J entry_facts for J
  by unfold_locales (fact facts_arms)+

end
