(* ===== verification/Graph_Identity.thy ===== *)
theory Graph_Identity
  imports Graph_Refs
begin

text \<open>
  The class column is always current: after every event, each memory's \<open>class_id\<close> names the primary of its
  component of \<open>same_as\<close> links, although only the arms that can change a component recompute it.
\<close>

section \<open>What the classes depend on\<close>

definition class_columns ::
  "graph \<Rightarrow> (memory_id \<times> bool \<times> memory_id) list \<times> (memory_id \<times> memory_id) list" where
  "class_columns g =
     (map (\<lambda>r. (m_id r, m_designated_primary r, m_class_id r)) (memories g), same_as_edges g)"

lemma classes_current_columns:
  "classes_current g \<longleftrightarrow>
     (\<forall>(i, d, c) \<in> set (fst (class_columns g)). is_primary_of g i c)"
  by (auto simp: classes_current_def class_columns_def)

lemma class_members_columns: "class_members g = map (\<lambda>(i, d, c). (i, d)) (fst (class_columns g))"
  by (simp add: class_members_def class_columns_def)

lemma classes_frame:
  assumes "class_columns g' = class_columns g"
  shows "classes_current g' = classes_current g"
proof -
  have "class_members g' = class_members g" by (simp add: class_members_columns assms)
  moreover have "same_as_edges g' = same_as_edges g" using assms by (simp add: class_columns_def)
  ultimately have "is_primary_of g' i c = is_primary_of g i c" for i c by (simp add: is_primary_of_def)
  then show ?thesis by (simp add: classes_current_columns assms)
qed

lemma class_columns_other_tables [simp]:
  "class_columns (g\<lparr>content_entries := x_content_entries\<rparr>) = class_columns g"
  "class_columns (g\<lparr>entry_attestations := x_entry_attestations\<rparr>) = class_columns g"
  "class_columns (g\<lparr>entry_disputes := x_entry_disputes\<rparr>) = class_columns g"
  "class_columns (g\<lparr>tags := x_tags\<rparr>) = class_columns g"
  "class_columns (g\<lparr>memory_tags := x_memory_tags\<rparr>) = class_columns g"
  "class_columns (g\<lparr>relations := x_relations\<rparr>) = class_columns g"
  "class_columns (g\<lparr>memory_aliases := x_memory_aliases\<rparr>) = class_columns g"
  "class_columns (g\<lparr>conversations := x_conversations\<rparr>) = class_columns g"
  "class_columns (g\<lparr>sessions := x_sessions\<rparr>) = class_columns g"
  "class_columns (g\<lparr>session_participants := x_session_participants\<rparr>) = class_columns g"
  "class_columns (g\<lparr>participant_identities := x_participant_identities\<rparr>) = class_columns g"
  "class_columns (g\<lparr>memories_fts := x_memories_fts\<rparr>) = class_columns g"
  "class_columns (g\<lparr>graph_head := x_graph_head\<rparr>) = class_columns g"
  by (simp_all add: class_columns_def same_as_edges_def)

lemma class_columns_statements [simp]:
  "class_columns (update_entries P fe g) = class_columns g"
  "class_columns (update_attestations Q fa g) = class_columns g"
  "class_columns (update_fts i ff g) = class_columns g"
  by (simp_all add: update_entries_def update_attestations_def update_fts_def)

lemma class_columns_update_memories [simp]:
  "(\<And>r. m_id (f r) = m_id r \<and> m_designated_primary (f r) = m_designated_primary r
      \<and> m_class_id (f r) = m_class_id r) \<Longrightarrow> class_columns (update_memories P f g) = class_columns g"
  by (simp add: class_columns_def update_memories_def same_as_edges_def)

section \<open>The arms that leave the classes alone\<close>

lemma classes_memory_renamed: "apply_memory_renamed n i nm nm' g = Inr g' \<Longrightarrow> classes_current g' = classes_current g"
  by (rule classes_frame) (auto simp: apply_memory_renamed_def rename_memory_def replace_alias_def Let_def andthen_Inr_iff split: if_splits)

lemma classes_memory_deleted: "apply_memory_deleted i g = Inr g' \<Longrightarrow> classes_current g' = classes_current g"
  by (rule classes_frame) (auto simp: apply_memory_deleted_def delete_room_def room_sessions_def room_conversations_def Let_def andthen_Inr_iff split: if_splits)

lemma classes_content_appended: "apply_content_appended J n src i e t occ text tb ti v g = Inr g' \<Longrightarrow> classes_current g' = classes_current g"
  by (rule classes_frame) (auto simp: apply_content_appended_def insert_entry_def insert_attestation_def founding_row_def attestation_refs_ok_def attestation_key_def Let_def andthen_Inr_iff split: if_splits)

lemma classes_superseded: "set_superseded e e' g = Inr g' \<Longrightarrow> classes_current g' = classes_current g"
  by (rule classes_frame) (auto simp: set_superseded_def Let_def andthen_Inr_iff split: if_splits)

lemma classes_entry_retracted: "apply_entry_retracted e s g = Inr g' \<Longrightarrow> classes_current g' = classes_current g"
  by (rule classes_frame) (auto simp: apply_entry_retracted_def set_retracted_def Let_def andthen_Inr_iff split: if_splits)

lemma classes_entry_attested: "apply_entry_attested n e te ti t v ph se g = Inr g' \<Longrightarrow> classes_current g' = classes_current g"
  by (rule classes_frame) (auto simp: apply_entry_attested_def upsert_attestation_def attestation_refs_ok_def attestation_key_def Let_def andthen_Inr_iff split: if_splits)

lemma classes_attestation_retracted: "apply_attestation_retracted e te s g = Inr g' \<Longrightarrow> classes_current g' = classes_current g"
  by (rule classes_frame) (auto simp: apply_attestation_retracted_def set_retracted_def Let_def andthen_Inr_iff split: if_splits)

lemma classes_description_mirrored: "apply_description_mirrored e g = Inr g' \<Longrightarrow> classes_current g' = classes_current g"
  by (rule classes_frame) (auto simp: apply_description_mirrored_def Let_def andthen_Inr_iff split: if_splits)

lemma classes_temporal_resolved: "apply_temporal_resolved J e occ g = Inr g' \<Longrightarrow> classes_current g' = classes_current g"
  by (rule classes_frame) (auto simp: apply_temporal_resolved_def Let_def andthen_Inr_iff split: if_splits)

lemma classes_job_fired: "apply_job_fired e t g = Inr g' \<Longrightarrow> classes_current g' = classes_current g"
  by (rule classes_frame) (auto simp: apply_job_fired_def Let_def andthen_Inr_iff split: if_splits)

lemma classes_item_surfaced: "apply_item_surfaced e t g = Inr g' \<Longrightarrow> classes_current g' = classes_current g"
  by (rule classes_frame) (auto simp: apply_item_surfaced_def Let_def andthen_Inr_iff split: if_splits)

lemma classes_description_regenerated: "apply_description_regenerated i s g = Inr g' \<Longrightarrow> classes_current g' = classes_current g"
  by (rule classes_frame) (auto simp: apply_description_regenerated_def Let_def andthen_Inr_iff split: if_splits)

lemma classes_volatility_set: "apply_volatility_set i vo g = Inr g' \<Longrightarrow> classes_current g' = classes_current g"
  by (rule classes_frame) (auto simp: apply_volatility_set_def Let_def andthen_Inr_iff split: if_splits)

lemma classes_genesis_completed: "apply_genesis_completed g = Inr g' \<Longrightarrow> classes_current g' = classes_current g"
  by (rule classes_frame) (auto simp: apply_genesis_completed_def Let_def andthen_Inr_iff split: if_splits)

lemma classes_described: "classes_current (update_memories (\<lambda>r. m_id r = i) (\<lambda>r. r\<lparr>m_last_described_seq := n\<rparr>) g) = classes_current g"
  by (rule classes_frame) simp

lemma classes_disputes_cleared: "classes_current (g\<lparr>entry_disputes := filter (\<lambda>d. d_memory d \<noteq> i) (entry_disputes g)\<rparr>) = classes_current g"
  by (rule classes_frame) simp

lemma classes_dispute_replaced: "replace_dispute dr g = Inr g' \<Longrightarrow> classes_current g' = classes_current g"
  by (rule classes_frame) (auto simp: replace_dispute_def Let_def andthen_Inr_iff split: if_splits)

lemma classes_tag_created: "apply_tag_created tg s g = Inr g' \<Longrightarrow> classes_current g' = classes_current g"
  by (rule classes_frame) (auto simp: apply_tag_created_def insert_tag_def Let_def andthen_Inr_iff split: if_splits)

lemma classes_tag_description_changed: "apply_tag_description_changed tg s g = Inr g' \<Longrightarrow> classes_current g' = classes_current g"
  by (rule classes_frame) (auto simp: apply_tag_description_changed_def Let_def andthen_Inr_iff split: if_splits)

lemma classes_tag_applied: "apply_tag_applied i tg g = Inr g' \<Longrightarrow> classes_current g' = classes_current g"
  by (rule classes_frame) (auto simp: apply_tag_applied_def insert_or_ignore_memory_tag_def Let_def andthen_Inr_iff split: if_splits)

lemma classes_tag_removed: "apply_tag_removed i tg g = Inr g' \<Longrightarrow> classes_current g' = classes_current g"
  by (rule classes_frame) (auto simp: apply_tag_removed_def Let_def andthen_Inr_iff split: if_splits)

lemma classes_link_type_registered: "apply_link_type_registered rn rn' fc tc sy re s g = Inr g' \<Longrightarrow> classes_current g' = classes_current g"
  by (rule classes_frame) (auto simp: apply_link_type_registered_def upsert_relation_def Let_def andthen_Inr_iff split: if_splits)

lemma classes_conversation_started: "apply_conversation_started c loc i g = Inr g' \<Longrightarrow> classes_current g' = classes_current g"
  by (rule classes_frame) (auto simp: apply_conversation_started_def insert_or_ignore_conversation_def Let_def andthen_Inr_iff split: if_splits)

lemma classes_conversation_ended: "apply_conversation_ended c g = Inr g' \<Longrightarrow> classes_current g' = classes_current g"
  by (rule classes_frame) (auto simp: apply_conversation_ended_def Let_def andthen_Inr_iff split: if_splits)

lemma classes_session_inserted: "insert_session sr g = Inr g' \<Longrightarrow> classes_current g' = classes_current g"
  by (rule classes_frame) (auto simp: insert_session_def Let_def andthen_Inr_iff split: if_splits)

lemma classes_session_ended: "apply_session_ended s' ca g = Inr g' \<Longrightarrow> classes_current g' = classes_current g"
  by (rule classes_frame) (auto simp: apply_session_ended_def Let_def andthen_Inr_iff split: if_splits)

lemma classes_participant_inserted: "insert_or_ignore_participant pr g = Inr g' \<Longrightarrow> classes_current g' = classes_current g"
  by (rule classes_frame) (auto simp: insert_or_ignore_participant_def Let_def andthen_Inr_iff split: if_splits)

lemma classes_participant_identified: "apply_participant_identified i p u g = Inr g' \<Longrightarrow> classes_current g' = classes_current g"
  by (rule classes_frame) (auto simp: apply_participant_identified_def insert_or_ignore_identity_def Let_def andthen_Inr_iff split: if_splits)

section \<open>The arms that can change a component\<close>

text \<open>A new memory is a class of its own: no link can name it yet.\<close>

lemma classes_memory_created:
  assumes "refs_ok g" "classes_current g" "apply_memory_created n t i nm g = Inr g'"
  shows "classes_current g'"
proof -
  from assms(3) have fresh: "i \<notin> set (memory_ids g)"
    and g': "class_columns g' = (fst (class_columns g) @ [(i, False, i)], same_as_edges g)"
    by (auto simp: apply_memory_created_def insert_memory_def andthen_Inr_iff class_columns_def same_as_edges_def)
  have members: "class_members g' = class_members g @ [(i, False)]"
    using g' by (simp add: class_members_columns)
  have edges: "same_as_edges g' = same_as_edges g" using g' by (simp add: class_columns_def)
  have apart: "(x, i) \<in> linked (same_as_edges g) \<longleftrightarrow> x = i" for x
  proof
    assume "(x, i) \<in> linked (same_as_edges g)"
    then have "(x = i) = (i = i)"
      by (rule linked_agree)
        (use refs_same_as_closed [OF assms(1)] fresh in \<open>auto simp: same_as_closed_def\<close>)
    then show "x = i" by simp
  qed simp
  have apart': "(i, x) \<in> linked (same_as_edges g) \<longleftrightarrow> x = i" for x
    using apart [of x] linked_sym [of i x] linked_sym [of x i] by blast
  have "is_primary_of g' x c" if "(x, d, c) \<in> set (fst (class_columns g))" for x d c
  proof -
    have "x \<noteq> i" using that fresh by (auto simp: class_columns_def memory_ids_def)
    with apart have "(x, i) \<notin> linked (same_as_edges g)" by simp
    moreover from that assms(2) have "is_primary_of g x c" by (auto simp: classes_current_columns)
    ultimately show ?thesis unfolding is_primary_of_def members edges by auto
  qed
  moreover have "is_primary_of g' i i"
    unfolding is_primary_of_def members edges
  proof (intro exI [of _ False] conjI)
    show "\<forall>(y, e) \<in> set (class_members g @ [(i, False)]). (i, y) \<in> linked (same_as_edges g) \<longrightarrow>
        \<not> candidate_less (\<not> e, y) (\<not> False, i)"
      using fresh apart' by (auto simp: class_members_def memory_ids_def)
  qed simp_all
  ultimately show ?thesis by (auto simp: classes_current_columns g')
qed

text \<open>A link of another relation adds and removes no edge.\<close>

lemma same_as_edges_keys:
  "same_as_edges g = map (\<lambda>(f, t, r). (f, t)) (filter (\<lambda>(f, t, r). r = ''same_as'') (map link_key (links g)))"
  by (simp add: same_as_edges_def link_key_def filter_map comp_def)

lemma class_columns_links:
  assumes "memories g' = memories g" "same_as_edges g' = same_as_edges g"
  shows "class_columns g' = class_columns g"
  using assms by (simp add: class_columns_def)

lemma class_columns_upsert_link:
  assumes "upsert_link r g = Inr g'" "l_relation r \<noteq> ''same_as''"
  shows "class_columns g' = class_columns g"
  using assms by (intro class_columns_links)
    (auto simp: upsert_link_def andthen_Inr_iff same_as_edges_keys link_key_def split: if_splits)

lemma class_columns_delete_link:
  "l \<noteq> ''same_as'' \<Longrightarrow> class_columns (delete_link (f, t, l) g) = class_columns g"
  by (intro class_columns_links)
    (auto simp: delete_link_def same_as_edges_def link_key_def intro!: arg_cong [where f = "map _"] filter_cong)

lemma classes_recompute_if:
  assumes "recompute_if_same_as l g = Inr g'" "refs_ok g" "l \<noteq> ''same_as'' \<Longrightarrow> classes_current g"
  shows "classes_current g'"
  using assms recompute_classes_current refs_same_as_closed
  by (auto simp: recompute_if_same_as_def split: if_splits)

lemma classes_link_created:
  assumes "refs_ok g" "classes_current g" "apply_link_created t i j rn ls tbo ti v g = Inr g'"
  shows "classes_current g'"
proof -
  obtain f u l where e: "canonical_edge g i j (relation_name_str rn) = (f, u, l)" by (metis prod_cases3)
  from assms(3) e obtain r g1 where g1: "upsert_link r g = Inr g1" "l_relation r = l"
    "recompute_if_same_as l g1 = Inr g'"
    by (auto simp: apply_link_created_def andthen_Inr_iff)
  show ?thesis
    by (rule classes_recompute_if [OF g1(3) refs_upsert_link [OF assms(1) g1(1)]])
      (use classes_frame [OF class_columns_upsert_link [OF g1(1)]] g1(2) assms(2) in simp)
qed

lemma classes_link_removed:
  assumes "refs_ok g" "classes_current g" "apply_link_removed i j rn g = Inr g'"
  shows "classes_current g'"
proof -
  obtain f u l where e: "canonical_edge g i j (relation_name_str rn) = (f, u, l)" by (metis prod_cases3)
  with assms(3) have "recompute_if_same_as l (delete_link (f, u, l) g) = Inr g'"
    by (simp add: apply_link_removed_def)
  then show ?thesis
    by (rule classes_recompute_if [OF _ refs_delete_link [OF assms(1)]])
      (use classes_frame [OF class_columns_delete_link] assms(2) in simp)
qed

lemma classes_primary_designated:
  assumes "refs_ok g" "apply_primary_designated i d g = Inr g'"
  shows "classes_current g'"
proof -
  let ?g = "update_memories (\<lambda>r. m_id r = i) (\<lambda>r. r\<lparr>m_designated_primary := d\<rparr>) g"
  have "same_as_closed ?g"
    using refs_same_as_closed [OF assms(1)]
    by (simp add: same_as_closed_def memory_ids_def update_memories_def same_as_edges_def)
  with assms(2) show ?thesis
    unfolding apply_primary_designated_def by (rule recompute_classes_current)
qed

section \<open>The invariant\<close>

definition identity_ok :: "graph \<Rightarrow> bool" where
  "identity_ok g \<longleftrightarrow> refs_ok g \<and> classes_current g"

lemma identity_fresh: "identity_ok empty_graph"
  using refs_fresh by (simp add: identity_ok_def classes_current_def empty_graph_def)

lemmas classes_frames = classes_memory_renamed classes_memory_deleted classes_content_appended
  classes_superseded classes_entry_retracted classes_entry_attested classes_attestation_retracted
  classes_description_mirrored classes_temporal_resolved classes_job_fired classes_item_surfaced
  classes_description_regenerated classes_volatility_set classes_genesis_completed
  classes_dispute_replaced classes_tag_created classes_tag_description_changed classes_tag_applied
  classes_tag_removed classes_link_type_registered classes_conversation_started
  classes_conversation_ended classes_session_inserted classes_session_ended
  classes_participant_inserted classes_participant_identified

lemmas classes_changes = classes_memory_created classes_link_created classes_link_removed

lemmas refs_laws = refs_memory_created refs_memory_renamed refs_memory_deleted
  refs_content_appended refs_superseded refs_entry_retracted refs_entry_attested
  refs_attestation_retracted refs_description_mirrored refs_temporal_resolved refs_job_fired
  refs_item_surfaced refs_description_regenerated refs_volatility_set refs_primary_designated
  refs_genesis_completed refs_dispute_replaced refs_tag_created refs_tag_description_changed
  refs_tag_applied refs_tag_removed refs_link_type_registered refs_link_created refs_link_removed
  refs_conversation_started refs_conversation_ended refs_session_inserted refs_session_ended
  refs_participant_inserted refs_participant_identified

text \<open>The laws that are no arm of their own keep both parts by their frame lemmas.\<close>

lemma identity_described:
  "identity_ok g \<Longrightarrow> identity_ok (update_memories (\<lambda>r. m_id r = i) (\<lambda>r. r\<lparr>m_last_described_seq := n\<rparr>) g)"
  "identity_ok g \<Longrightarrow> identity_ok (g\<lparr>entry_disputes := filter (\<lambda>d. d_memory d \<noteq> i) (entry_disputes g)\<rparr>)"
  "identity_ok g \<Longrightarrow> identity_ok (g\<lparr>graph_head := h\<rparr>)"
  by (simp_all add: identity_ok_def classes_described classes_disputes_cleared refs_described
      refs_disputes_cleared refs_leaf_tables(9) classes_frame [OF class_columns_other_tables(13)])

interpretation identity_inv: projection_invariant J identity_ok for J
  by (unfold_locales;
      (rule identity_fresh | erule identity_described
      | (unfold identity_ok_def, elim conjE, rule conjI, erule (1) refs_laws,
         (erule (2) classes_changes | erule (1) classes_primary_designated
         | erule classes_frames [THEN iffD2], assumption))))

section \<open>Classes are components\<close>

lemma class_members_functional:
  "keys_ok g \<Longrightarrow> (i, d) \<in> set (class_members g) \<Longrightarrow> (i, e) \<in> set (class_members g) \<Longrightarrow> d = e"
  by (auto simp: keys_ok_def class_members_def dest: distinct_map [THEN iffD1] inj_onD)

lemma is_primary_of_same:
  assumes "keys_ok g" "is_primary_of g x p" "is_primary_of g y q" "(x, y) \<in> linked (same_as_edges g)"
  shows "p = q"
proof -
  from assms(2) obtain d where p: "(p, d) \<in> set (class_members g)" "(x, p) \<in> linked (same_as_edges g)"
    and least_p: "\<And>z e. (z, e) \<in> set (class_members g) \<Longrightarrow> (x, z) \<in> linked (same_as_edges g) \<Longrightarrow>
      \<not> candidate_less (\<not> e, z) (\<not> d, p)" by (auto simp: is_primary_of_def)
  from assms(3) obtain e where q: "(q, e) \<in> set (class_members g)" "(y, q) \<in> linked (same_as_edges g)"
    and least_q: "\<And>z f. (z, f) \<in> set (class_members g) \<Longrightarrow> (y, z) \<in> linked (same_as_edges g) \<Longrightarrow>
      \<not> candidate_less (\<not> f, z) (\<not> e, q)" by (auto simp: is_primary_of_def)
  have "(x, q) \<in> linked (same_as_edges g)" by (rule linked_trans [OF assms(4) q(2)])
  moreover have "(y, p) \<in> linked (same_as_edges g)" by (rule linked_trans [OF linked_sym [OF assms(4)] p(2)])
  ultimately have "\<not> candidate_less (\<not> e, q) (\<not> d, p)" "\<not> candidate_less (\<not> d, p) (\<not> e, q)"
    using least_p [OF q(1)] least_q [OF p(1)] by blast+
  then show ?thesis by (cases p; cases q) (auto simp: candidate_less_def)
qed

lemma class_iff_linked:
  assumes "keys_ok g" "classes_current g" "r \<in> set (memories g)" "s \<in> set (memories g)"
  shows "m_class_id r = m_class_id s \<longleftrightarrow> (m_id r, m_id s) \<in> linked (same_as_edges g)"
proof
  have r: "is_primary_of g (m_id r) (m_class_id r)" and s: "is_primary_of g (m_id s) (m_class_id s)"
    using assms(2-4) by (auto simp: classes_current_def)
  show "(m_id r, m_id s) \<in> linked (same_as_edges g)" if "m_class_id r = m_class_id s"
    using r s that by (auto simp: is_primary_of_def intro: linked_trans linked_sym)
  show "m_class_id r = m_class_id s" if "(m_id r, m_id s) \<in> linked (same_as_edges g)"
    by (rule is_primary_of_same [OF assms(1) r s that])
qed

end
