(* ===== verification/Sample_Log.thy ===== *)
theory Sample_Log
  imports Graph_Apply Recurrence
begin

text \<open>
  A small log the concrete instances of the replay properties share: two stubs of one person merged
  by \<open>same_as\<close>, a room, a link, a private, a scheduled and a recurring entry, a session. It is folded with the
  calendar \<open>gregorian\<close>.
\<close>

definition sample_event :: "seq \<Rightarrow> event_payload \<Rightarrow> event" where
  "sample_event n p =
     \<lparr>ev_seq = n, ev_recorded_at = 1000 * int n, ev_source = EventSource_Agent, ev_payload = p\<rparr>"

definition sample_payloads :: "event_payload list" where
  "sample_payloads =
    [LinkTypeRegistered RelationName_SameAs RelationName_SameAs Cardinality_Many Cardinality_Many True False [],
     LinkTypeRegistered RelationName_Knows RelationName_KnownBy Cardinality_Many Cardinality_Many False False [],
     MemoryCreated (MemoryId 1) (MemoryName ''person/ada''),
     MemoryCreated (MemoryId 2) (MemoryName ''person/ada@chat''),
     MemoryCreated (MemoryId 3) (MemoryName ''person/bob''),
     MemoryCreated (MemoryId 4) (MemoryName ''context/room''),
     LinkCreated (MemoryId 2) (MemoryId 1) RelationName_SameAs LinkSource_Operator None None Visibility_Public,
     LinkCreated (MemoryId 3) (MemoryId 2) RelationName_KnownBy LinkSource_Agent None None Visibility_Public,
     MemoryContentAppended (MemoryId 1) (EntryId 10) 9000 None ''likes tea'' (Teller_Participant (MemoryId 3))
       None Visibility_PrivateToTeller,
     MemoryContentAppended (MemoryId 2) (EntryId 11) 9500 (Some (TemporalRef_Instant 90000)) ''arrives''
       Teller_Agent None Visibility_Public,
     ConversationStarted (ConversationId 20) \<lparr>platform = ''chat'', scope_path = ''room''\<rparr> (MemoryId 4),
     SessionStarted (ConversationId 20) (SessionId 30) [MemoryId 2, MemoryId 3] 12000 None ''brief'' [] [],
     MemoryContentAppended (MemoryId 3) (EntryId 12) 13000 (Some (TemporalRef_Recurring ''FREQ=DAILY''))
       ''stretches'' Teller_Agent None Visibility_Public]"

definition sample_log :: "event list" where
  "sample_log = map (\<lambda>(n, p). sample_event (n + 1) p) (enumerate 0 sample_payloads)"

definition sample_graph :: graph where
  "sample_graph =
     (case foldM (apply_event gregorian) sample_log empty_graph of Inr g \<Rightarrow> g | Inl _ \<Rightarrow> empty_graph)"

lemma sample_replay: "foldM (apply_event gregorian) sample_log empty_graph = Inr sample_graph"
proof -
  have "is_ok (foldM (apply_event gregorian) sample_log empty_graph)" by code_simp
  then show ?thesis by (auto simp: sample_graph_def is_ok_iff)
qed

lemma ok_obtain: "is_ok m \<Longrightarrow> (\<And>a. m = Inr a \<Longrightarrow> thesis) \<Longrightarrow> thesis"
  by (auto simp: is_ok_iff)

end
