(* ===== verification/Projection.thy ===== *)
theory Projection
  imports Graph_Facts Graph_Identity Sample_Log
begin

text \<open>
  What holds of every graph the materializer builds from a log, whatever the log: it never loops,
  its tables keep the keys and references of the schema, a live entry always has an attestation in
  force, and the class column is the partition of the memories into \<open>same_as\<close> components.
\<close>

section \<open>The fold returns\<close>

definition halts :: "'a outcome \<Rightarrow> bool" where
  "halts m \<longleftrightarrow> m \<noteq> Inl Diverges"

lemma halts_basic [simp]: "halts (Inr a)" "halts (require b c)" "halts (lift_panic p)" "halts (db_fail c)"
  by (auto simp: halts_def require_def db_fail_def lift_panic_def split: sum.splits)

lemma halts_andthen [intro!]: "halts m \<Longrightarrow> (\<And>a. m = Inr a \<Longrightarrow> halts (f a)) \<Longrightarrow> halts (andthen m f)"
  by (cases m) (auto simp: halts_def)

lemma halts_foldM: "(\<And>x s. halts (f x s)) \<Longrightarrow> halts (foldM f xs s)"
  by (induction xs arbitrary: s) auto

lemma halts_statements [simp]:
  "halts (insert_memory mr g)" "halts (insert_entry er g)" "halts (insert_attestation ar g)"
  "halts (upsert_attestation ar g)" "halts (set_superseded e e' g)" "halts (rename_memory i nm n g)"
  "halts (replace_alias nm i g)" "halts (replace_dispute dr g)" "halts (insert_tag tr g)"
  "halts (insert_or_ignore_memory_tag i nm g)" "halts (upsert_link lr g)"
  "halts (insert_or_ignore_conversation cr g)" "halts (insert_session sr g)"
  "halts (insert_or_ignore_participant pr g)" "halts (insert_or_ignore_identity ir g)"
  by (auto simp: insert_memory_def insert_entry_def insert_attestation_def upsert_attestation_def
      set_superseded_def rename_memory_def replace_alias_def replace_dispute_def insert_tag_def
      insert_or_ignore_memory_tag_def upsert_link_def insert_or_ignore_conversation_def
      insert_session_def insert_or_ignore_participant_def insert_or_ignore_identity_def)

lemma halts_occurrence [simp]: "halts (occurrence_bounds_of J g occ)"
  by (auto simp: occurrence_bounds_of_def anchor_bounds_def split: option.splits temporal_ref.splits list.splits)

lemma halts_recompute: "refs_ok g \<Longrightarrow> halts (recompute_classes g)"
  using recompute_classes_spec [OF refs_same_as_closed] by (fastforce simp: halts_def)

lemma halts_recompute_if: "refs_ok g \<Longrightarrow> halts (recompute_if_same_as l g)"
  by (simp add: recompute_if_same_as_def halts_recompute)

lemma halts_designated:
  assumes "refs_ok g" shows "halts (apply_primary_designated i d g)"
  unfolding apply_primary_designated_def
  by (intro halts_recompute refs_update_memories [OF assms]) simp

lemmas arm_defs = apply_genesis_completed_def apply_describe_pass_def apply_memory_created_def
  apply_memory_renamed_def apply_memory_deleted_def apply_content_appended_def
  apply_entries_consolidated_def apply_entry_retracted_def apply_entry_attested_def
  apply_attestation_retracted_def apply_description_mirrored_def apply_temporal_resolved_def
  apply_job_fired_def apply_item_surfaced_def apply_description_regenerated_def
  apply_volatility_set_def apply_tag_created_def apply_tag_description_changed_def
  apply_tag_applied_def apply_tag_removed_def apply_link_type_registered_def
  apply_conversation_started_def apply_conversation_ended_def apply_session_started_def
  apply_session_ended_def apply_participant_joined_def apply_participant_identified_def
  apply_belief_arbitrated_def

lemma halts_links:
  assumes "refs_ok g"
  shows "halts (apply_link_created t i j rn ls tbo ti v g)" "halts (apply_link_removed i j rn g)"
  by (auto simp: apply_link_created_def apply_link_removed_def split: prod.splits
      intro!: halts_recompute_if intro: refs_upsert_link [OF assms] refs_delete_link [OF assms])

lemma halts_apply_payload: "refs_ok g \<Longrightarrow> halts (apply_payload J ev g)"
  by (cases "ev_payload ev")
    (auto simp: apply_payload_def Let_def arm_defs halts_links halts_designated intro!: halts_foldM)

lemma halts_replay: "refs_ok g \<Longrightarrow> halts (foldM (apply_event J) evs g)"
proof (induction evs arbitrary: g)
  case (Cons ev evs)
  have "halts (apply_event J ev g)"
    using halts_apply_payload [OF Cons.prems] by (auto simp: apply_event_def)
  then show ?case
    using Cons.IH refs.apply_event_preserves [OF Cons.prems] by auto
qed simp

section \<open>Properties\<close>

text \<open>
  C8: the materializer never loops: whatever events a log holds, applying them in order to a fresh graph
  returns, with the graph, an error or a panic; in particular the pointer chase of the identity
  recomputation always reaches a root.\<close>

theorem replay_returns: "foldM (apply_event J) evs empty_graph \<noteq> Inl Diverges"
  using halts_replay [OF refs_fresh] by (simp add: halts_def)

text \<open>
  C9: every graph a log folds to keeps the schema's primary keys, unique columns and foreign keys, although
  the arms write rows in several statements and delete rooms by hand.\<close>

theorem replay_keeps_schema:
  assumes "foldM (apply_event J) evs empty_graph = Inr g"
  shows "keys_ok g \<and> refs_ok g"
  using keys.replay_from_empty [OF assms] refs.replay_from_empty [OF assms] by simp

theorem replay_keeps_schema_witness: "keys_ok sample_graph \<and> refs_ok sample_graph"
  using replay_keeps_schema [OF sample_replay] by simp

text \<open>
  C10: in every graph a log folds to, a live entry has an attestation in force (retractions of the last teller
  tombstone the entry), its denormalized occurrence bounds are ordered, and only an entry with an
  occurrence has a sort key.\<close>

theorem live_entry_is_attested:
  assumes "foldM (apply_event J) evs empty_graph = Inr g" "e \<in> set (content_entries g)"
  shows "(e_superseded_by e = None \<longrightarrow>
       (\<exists>a \<in> set (entry_attestations g). a_entry a = e_id e \<and> a_retracted_reason a = None))
     \<and> bounds_wf \<lparr>b_sort = e_occurred_sort e, b_lo = e_occurred_lo e, b_hi = e_occurred_hi e\<rparr>
     \<and> (e_occurred_at e = None \<longrightarrow> e_occurred_sort e = None)"
  using facts.replay_from_empty [OF assms(1)] assms(2)
  by (auto simp: entry_facts_def list_all_iff occurrence_ok_def attested_def)

theorem live_entry_is_attested_witness:
  "list_all (\<lambda>e. e_superseded_by e = None \<and> bounds_wf
       \<lparr>b_sort = e_occurred_sort e, b_lo = e_occurred_lo e, b_hi = e_occurred_hi e\<rparr>) (content_entries sample_graph)
   \<and> content_entries sample_graph \<noteq> []"
proof -
  have "list_all (\<lambda>e. e_superseded_by e = None) (content_entries sample_graph)"
    "content_entries sample_graph \<noteq> []" by code_simp+
  then show ?thesis using live_entry_is_attested [OF sample_replay] by (auto simp: list_all_iff)
qed

text \<open>
  C2: in every graph a log folds to, two memories share a class exactly when a path of \<open>same_as\<close> links joins
  them, and the class is named by its least member, designated members first, so merges,
  unmerges and designations in any order leave the column equal to the components.\<close>

theorem classes_are_components:
  assumes "foldM (apply_event J) evs empty_graph = Inr g" "r \<in> set (memories g)" "s \<in> set (memories g)"
  shows "(m_class_id r = m_class_id s \<longleftrightarrow> (m_id r, m_id s) \<in> linked (same_as_edges g))
    \<and> is_primary_of g (m_id r) (m_class_id r)"
proof -
  have "keys_ok g" "classes_current g"
    using keys.replay_from_empty [OF assms(1)] identity_inv.replay_from_empty [OF assms(1)]
    by (simp_all add: identity_ok_def)
  with class_iff_linked assms(2,3) show ?thesis by (simp add: classes_current_def)
qed

theorem classes_are_components_witness:
  "\<exists>r \<in> set (memories sample_graph). \<exists>s \<in> set (memories sample_graph).
     m_id r = MemoryId 2 \<and> m_id s = MemoryId 1 \<and> m_class_id r = MemoryId 1
     \<and> (MemoryId 2, MemoryId 1) \<in> linked (same_as_edges sample_graph)"
proof -
  have ex: "\<exists>r \<in> set (memories sample_graph). \<exists>s \<in> set (memories sample_graph).
      m_id r = MemoryId 2 \<and> m_id s = MemoryId 1 \<and> m_class_id r = MemoryId 1 \<and> m_class_id s = MemoryId 1"
    by code_simp
  then show ?thesis using classes_are_components [OF sample_replay] by metis
qed

end
