(* ===== verification/Replay.thy ===== *)
theory Replay
  imports Projection
begin

text \<open>
  The head of the graph and \<open>materialize_from\<close> of \<open>crates/core/src/graph/mod.rs\<close>, over any store that
  keeps the laws of \<open>event_log\<close>. The locale \<open>log_projection\<close> is the store beside the materializer; both
  backends interpret it.
\<close>

definition head :: "graph \<Rightarrow> seq" where
  "head g = (case graph_head g of Some n \<Rightarrow> n | None \<Rightarrow> seq_zero)"

definition materialize_from ::
  "jiff \<Rightarrow> (seq \<Rightarrow> (store_error, event list) result) \<Rightarrow> graph \<Rightarrow> (nat \<times> graph) outcome" where
  "materialize_from J read g =
     (case read (seq_next (head g)) of
        Inl e \<Rightarrow> Inl (Err (GraphError_Store e))
      | Inr events \<Rightarrow> andthen (foldM (apply_event J) events g) (\<lambda>g'. Inr (length events, g')))"

section \<open>The head counts the applied events\<close>

lemma head_empty [simp]: "head empty_graph = 0"
  by (simp add: head_def empty_graph_def seq_zero_def)

lemma head_apply_event: "apply_event J ev g = Inr g' \<Longrightarrow> head g' = ev_seq ev"
  by (auto simp: apply_event_def andthen_Inr_iff head_def)

lemma head_replay: "foldM (apply_event J) evs g = Inr g' \<Longrightarrow> evs \<noteq> [] \<Longrightarrow> head g' = ev_seq (last evs)"
proof (induction evs arbitrary: g)
  case (Cons ev evs)
  from Cons.prems obtain g1 where g1: "apply_event J ev g = Inr g1" "foldM (apply_event J) evs g1 = Inr g'"
    by (auto simp: andthen_Inr_iff)
  show ?case
  proof (cases "evs = []")
    case True
    with g1 show ?thesis by (auto dest: head_apply_event)
  next
    case False
    with Cons.IH [OF g1(2)] show ?thesis by simp
  qed
qed simp

lemma head_replay_consecutive:
  assumes "foldM (apply_event J) evs empty_graph = Inr g" "consecutive evs"
  shows "head g = length evs"
proof (cases "evs = []")
  case False
  then have "ev_seq (last evs) = length evs"
    using arg_cong [OF assms(2) [unfolded consecutive_def], of last]
    by (cases "length evs") (simp_all add: last_map)
  with head_replay [OF assms(1) False] show ?thesis by simp
qed (use assms(1) in simp)

text \<open>The graph holds the first \<open>n\<close> events of the log.\<close>

definition at_head :: "jiff \<Rightarrow> event list \<Rightarrow> nat \<Rightarrow> graph \<Rightarrow> bool" where
  "at_head J evs n g \<longleftrightarrow> n \<le> length evs \<and> foldM (apply_event J) (take n evs) empty_graph = Inr g"

lemma at_head_zero: "at_head J evs 0 empty_graph"
  by (simp add: at_head_def)

section \<open>The store beside the graph\<close>

locale log_projection = event_log log log_inv storable append read_from head_of truncate_to feeds subscribe
  for log :: "'s \<Rightarrow> event list" and log_inv storable append read_from head_of truncate_to feeds subscribe +
  fixes J :: jiff
begin

lemma at_head_head: "log_inv s \<Longrightarrow> at_head J (log s) n g \<Longrightarrow> head g = n"
  using head_replay_consecutive [OF _ consecutive_take [OF log_consecutive]]
  by (fastforce simp: at_head_def)

lemma materialize_eq:
  assumes "log_inv s" "at_head J (log s) n g"
  shows "materialize_from J (read_from s) g =
    andthen (foldM (apply_event J) (log s) empty_graph) (\<lambda>g'. Inr (length (log s) - n, g'))"
proof -
  have "foldM (apply_event J) (log s) empty_graph = foldM (apply_event J) (take n (log s) @ drop n (log s)) empty_graph"
    by simp
  also have "\<dots> = foldM (apply_event J) (drop n (log s)) g"
    using assms(2) by (subst foldM_append) (simp add: at_head_def)
  finally show ?thesis
    by (simp add: materialize_from_def at_head_head [OF assms] read_from_drop [OF assms(1)] seq_next_def)
qed

lemma materialize_at_head:
  assumes "log_inv s" "at_head J (log s) n g" "materialize_from J (read_from s) g = Inr (k, g')"
  shows "k = length (log s) - n \<and> at_head J (log s) (length (log s)) g'"
  using assms(3) unfolding materialize_eq [OF assms(1,2)]
  by (auto simp: andthen_Inr_iff at_head_def)

text \<open>A stale graph catches up to the graph a rebuild gives.\<close>

lemma catch_up_is_rebuild:
  assumes "log_inv s" "at_head J (log s) n g"
  shows "materialize_from J (read_from s) g =
    andthen (materialize_from J (read_from s) empty_graph) (\<lambda>(k, g'). Inr (k - n, g'))"
  unfolding materialize_eq [OF assms] materialize_eq [OF assms(1) at_head_zero]
  by (cases "foldM (apply_event J) (log s) empty_graph") simp_all

lemma materialize_again:
  assumes "log_inv s" "at_head J (log s) n g" "materialize_from J (read_from s) g = Inr (k, g')"
  shows "materialize_from J (read_from s) g' = Inr (0, g') \<and> head g' = length (log s)"
proof -
  have g': "at_head J (log s) (length (log s)) g'" using materialize_at_head [OF assms] by simp
  then have "foldM (apply_event J) (log s) empty_graph = Inr g'" by (simp add: at_head_def)
  then show ?thesis
    using materialize_eq [OF assms(1) g'] at_head_head [OF assms(1) g'] by simp
qed

text \<open>Committing a batch and catching up applies exactly the batch.\<close>

lemma commit_then_materialize:
  assumes "log_inv s" "at_head J (log s) (length (log s)) g" "list_all (storable t src) ps"
    and "append s t src ps = (Inr es, s')"
  shows "materialize_from J (read_from s') g = andthen (foldM (apply_event J) es g) (\<lambda>g'. Inr (length ps, g'))"
proof -
  from append_commits [OF assms(1,3)] assms(4) have s': "log_inv s'" "log s' = log s @ es"
    "es = stamp (length (log s)) t src ps" by auto
  have h: "at_head J (log s') (length (log s)) g" using assms(2) s'(2) by (simp add: at_head_def)
  have "foldM (apply_event J) (log s') empty_graph = foldM (apply_event J) es g"
    using assms(2) by (simp add: s'(2) foldM_append at_head_def)
  with materialize_eq [OF s'(1) h] s'(2,3) show ?thesis by simp
qed

end

interpretation msp: log_projection ms_events ms_inv "\<lambda>t src p. True" ms_append ms_read_from ms_head
  ms_truncate_to ms_subscribers ms_subscribe J for J
  by (rule log_projection.intro) (rule ms.event_log_axioms)

interpretation sqp: log_projection "sq_log J S" "sq_inv J S" "sq_storable J S" "sq_append S U"
  "sq_read_from J S" sq_head sq_truncate_to sq_subscribers sq_subscribe J for J S U
  by (rule log_projection.intro) (rule sq.event_log_axioms)

section \<open>Properties\<close>

text \<open>
  C12: catching up is rebuilding. A graph that holds the first \<open>n\<close> events of the durable log, brought to the head of
  the log, is the graph a rebuild from nothing gives (and fails as the rebuild fails), with the missing
  events counted; and once it is there another pass applies nothing and the head is the log's.\<close>

theorem catch_up_equals_rebuild:
  assumes "sq_inv J S s" "at_head J (sq_log J S s) n g"
  shows "materialize_from J (sq_read_from J S s) g =
      andthen (materialize_from J (sq_read_from J S s) empty_graph) (\<lambda>(k, g'). Inr (k - n, g'))
    \<and> (\<forall>k g'. materialize_from J (sq_read_from J S s) g = Inr (k, g') \<longrightarrow>
         materialize_from J (sq_read_from J S s) g' = Inr (0, g') \<and> sq_head s = Inr (head g'))"
  using sqp.catch_up_is_rebuild [OF assms] sqp.materialize_again [OF assms] assms(1)
  by (auto simp: sq.head_spec [of J S])

text \<open>
  a commit and the projection of it stay together. When the graph is at the head of the durable log, a
  committed batch is exactly what the next \<open>materialize_from\<close> applies.\<close>

theorem commit_materializes_batch:
  assumes "sq_inv J S s" "at_head J (sq_log J S s) (length (sq_log J S s)) g"
    and "list_all (sq_storable J S t src) ps" "sq_append S U s t src ps = (Inr es, s')"
  shows "materialize_from J (sq_read_from J S s') g =
    andthen (foldM (apply_event J) es g) (\<lambda>g'. Inr (length ps, g'))"
  using assms by (rule sqp.commit_then_materialize)

text \<open>The instances commit the deletion of an unknown memory, which leaves the tables empty.\<close>

definition sample_store :: sqlite_store where
  "sample_store = snd (sq_append (one_payload_serde (MemoryDeleted (MemoryId 7))) show_nat empty_sqlite 5
     EventSource_Operator [MemoryDeleted (MemoryId 7), MemoryDeleted (MemoryId 7)])"

theorem catch_up_equals_rebuild_witness:
  "let p = MemoryDeleted (MemoryId 7); S = one_payload_serde p; g = empty_graph\<lparr>graph_head := Some 1\<rparr> in
    materialize_from all_times (sq_read_from all_times S sample_store) g
      = Inr (1, empty_graph\<lparr>graph_head := Some 2\<rparr>)
    \<and> materialize_from all_times (sq_read_from all_times S sample_store) g =
      andthen (materialize_from all_times (sq_read_from all_times S sample_store) empty_graph)
        (\<lambda>(k, g'). Inr (k - 1, g'))"
proof -
  let ?p = "MemoryDeleted (MemoryId 7)"
  let ?S = "one_payload_serde ?p"
  let ?g = "empty_graph\<lparr>graph_head := Some 1\<rparr>"
  have i: "sq_inv all_times ?S sample_store" by code_simp
  have g: "at_head all_times (sq_log all_times ?S sample_store) 1 ?g" by code_simp
  have "materialize_from all_times (sq_read_from all_times ?S sample_store) ?g
      = Inr (1, empty_graph\<lparr>graph_head := Some 2\<rparr>)" by code_simp
  with catch_up_equals_rebuild [OF i g] show ?thesis by (simp add: Let_def)
qed

theorem commit_materializes_batch_witness:
  "let p = MemoryDeleted (MemoryId 7); S = one_payload_serde p in
    materialize_from all_times (sq_read_from all_times S sample_store) empty_graph =
      Inr (2, empty_graph\<lparr>graph_head := Some 2\<rparr>)"
proof -
  let ?p = "MemoryDeleted (MemoryId 7)"
  let ?S = "one_payload_serde ?p"
  obtain es where a: "sq_append ?S show_nat empty_sqlite 5 EventSource_Operator [?p, ?p] = (Inr es, sample_store)"
    and es: "es = stamp 0 5 EventSource_Operator [?p, ?p]"
    using sq.append_commits [of all_times ?S empty_sqlite 5 EventSource_Operator "[?p, ?p]" show_nat]
    by (auto simp: sample_store_def sq_inv_def sq_log_def empty_sqlite_def sq_storable_def
        one_payload_serde_def all_times_def)
  have i: "sq_inv all_times ?S empty_sqlite" by (simp add: sq_inv_def empty_sqlite_def)
  have g: "at_head all_times (sq_log all_times ?S empty_sqlite) (length (sq_log all_times ?S empty_sqlite)) empty_graph"
    by (simp add: sq_log_def empty_sqlite_def at_head_def)
  have p: "list_all (sq_storable all_times ?S 5 EventSource_Operator) [?p, ?p]"
    by (simp add: sq_storable_def one_payload_serde_def all_times_def)
  have f: "foldM (apply_event all_times) es empty_graph = Inr (empty_graph\<lparr>graph_head := Some 2\<rparr>)"
    unfolding es by code_simp
  from commit_materializes_batch [OF i g p a] f show ?thesis by (simp add: Let_def)
qed

end
