(* ===== verification/Graph_Memories.thy ===== *)
theory Graph_Memories
  imports Graph_Db "HOL-Library.Product_Lexorder" "HOL-Library.Option_ord"
begin

text \<open>
  The reads of the projection that find memories and vocabulary: the shared decoding of
  \<open>crates/core/src/graph/mod.rs\<close>, and \<open>memories.rs\<close>, \<open>search.rs\<close> (its query building), \<open>vocabulary.rs\<close> and
  \<open>describe.rs\<close> beside it.

  A query is a filter over the table in \<open>rowid\<close> order and, with an \<open>ORDER BY\<close>, a stable sort: text by
  bytes, as the columns' \<open>BINARY\<close> collation does, ids as the order-preserving text of their ULID, \<open>NULL\<close>
  before every value. A query that takes one row of several unordered ones takes the first in
  \<open>rowid\<close> order. The text of a \<open>Malformed\<close> error is given without the source's quoting.
\<close>

section \<open>Decoding\<close>

definition malformed :: "string \<Rightarrow> 'a outcome" where
  "malformed msg = Inl (Err (GraphError_Malformed msg))"

definition timestamp_column :: "jiff \<Rightarrow> int \<Rightarrow> string \<Rightarrow> timestamp outcome" where
  "timestamp_column J millis column =
     (case try_from_millis J millis of
        Some t \<Rightarrow> Inr t
      | None \<Rightarrow> malformed (column @ '' '' @ show_int millis @
          '' milliseconds since the Unix epoch is outside the representable range''))"

definition opt_column :: "('a \<Rightarrow> 'b outcome) \<Rightarrow> 'a option \<Rightarrow> 'b option outcome" where
  "opt_column f v = (case v of None \<Rightarrow> Inr None | Some a \<Rightarrow> andthen (f a) (\<lambda>b. Inr (Some b)))"

definition parse_or :: "string \<Rightarrow> (string \<Rightarrow> 'a option) \<Rightarrow> string \<Rightarrow> 'a outcome" where
  "parse_or what f s = (case f s of Some a \<Rightarrow> Inr a | None \<Rightarrow> malformed (what @ '' '' @ s))"

definition tags_of :: "graph \<Rightarrow> memory_id \<Rightarrow> tag_name list" where
  "tags_of g i = map tag_name_new (sort (map snd (filter (\<lambda>t. fst t = i) (memory_tags g))))"

definition assemble_memory :: "jiff \<Rightarrow> graph \<Rightarrow> memory_row \<Rightarrow> memory_view outcome" where
  "assemble_memory J g r =
     andthen (parse_or ''unknown volatility'' volatility_from_str (m_volatility r)) (\<lambda>v.
     andthen (timestamp_column J (m_created_at r) ''created_at'') (\<lambda>t.
       Inr \<lparr>mv_id = m_id r, mv_name = MemoryName (m_name r), mv_description = m_description r,
            mv_volatility = v, mv_created_at = t, mv_tags = tags_of g (m_id r)\<rparr>))"

section \<open>Memories\<close>

definition fetch_memory :: "jiff \<Rightarrow> graph \<Rightarrow> (memory_row \<Rightarrow> bool) \<Rightarrow> memory_view option outcome" where
  "fetch_memory J g P = opt_column (assemble_memory J g) (List.find (\<lambda>r. P r \<and> \<not> m_deleted r) (memories g))"

definition memory_by_name :: "jiff \<Rightarrow> graph \<Rightarrow> memory_name \<Rightarrow> memory_view option outcome" where
  "memory_by_name J g name = fetch_memory J g (\<lambda>r. m_name r = name_str name)"

definition self_memory :: "jiff \<Rightarrow> graph \<Rightarrow> memory_view option outcome" where
  "self_memory J g = memory_by_name J g self_handle"

definition memory_by_id :: "jiff \<Rightarrow> graph \<Rightarrow> memory_id \<Rightarrow> memory_view option outcome" where
  "memory_by_id J g i = fetch_memory J g (\<lambda>r. m_id r = i)"

definition former_names :: "graph \<Rightarrow> memory_id \<Rightarrow> memory_name list" where
  "former_names g i = rev (map (\<lambda>a. MemoryName (fst a)) (filter (\<lambda>a. snd a = i) (memory_aliases g)))"

definition memory_is_live :: "graph \<Rightarrow> memory_id \<Rightarrow> bool" where
  "memory_is_live g i \<longleftrightarrow> (\<exists>r \<in> set (memories g). m_id r = i \<and> \<not> m_deleted r)"

definition memory_id_for_former_name :: "graph \<Rightarrow> memory_name \<Rightarrow> memory_id option" where
  "memory_id_for_former_name g name =
     map_option snd (List.find (\<lambda>a. fst a = name_str name \<and> memory_is_live g (snd a)) (memory_aliases g))"

definition live_row :: "graph \<Rightarrow> memory_id \<Rightarrow> memory_row option" where
  "live_row g i = List.find (\<lambda>r. m_id r = i \<and> \<not> m_deleted r) (memories g)"

definition class_id :: "graph \<Rightarrow> memory_id \<Rightarrow> memory_id option" where
  "class_id g i = map_option m_class_id (live_row g i)"

definition is_primary_designated :: "graph \<Rightarrow> memory_id \<Rightarrow> bool" where
  "is_primary_designated g i = (map_option m_designated_primary (live_row g i) = Some True)"

text \<open>The subquery the class reads share: the live members of the class of \<open>id\<close>.\<close>

definition class_set :: "graph \<Rightarrow> memory_id \<Rightarrow> memory_id list" where
  "class_set g i =
     (case class_id g i of
        None \<Rightarrow> []
      | Some c \<Rightarrow> map m_id (filter (\<lambda>r. m_class_id r = c \<and> \<not> m_deleted r) (memories g)))"

definition class_members_of :: "graph \<Rightarrow> memory_id \<Rightarrow> memory_id list" where
  "class_members_of g i = sort (class_set g i)"

definition same_as_classes :: "graph \<Rightarrow> memory_id list" where
  "same_as_classes g =
     (let classes = map m_class_id (filter (\<lambda>r. \<not> m_deleted r) (memories g))
      in filter (\<lambda>c. 1 < length (filter (\<lambda>d. d = c) classes)) (sort (remdups classes)))"

text \<open>\<open>LIKE\<close>: ASCII letters fold case, \<open>_\<close> takes one UTF-8 character, the escape character makes the next
  one literal.\<close>

definition is_continuation :: "char \<Rightarrow> bool" where
  "is_continuation c \<longleftrightarrow> 128 \<le> (of_char c :: nat) \<and> (of_char c :: nat) < 192"

fun like :: "char option \<Rightarrow> string \<Rightarrow> string \<Rightarrow> bool" where
  "like esc [] s = (s = [])"
| "like esc (p # ps) s =
     (if p = CHR ''%'' then like esc ps s \<or> (case s of [] \<Rightarrow> False | c # cs \<Rightarrow> like esc (p # ps) cs)
      else if Some p = esc then
        (case (ps, s) of
           (q # qs, c # cs) \<Rightarrow> ascii_lower q = ascii_lower c \<and> like esc qs cs
         | _ \<Rightarrow> False)
      else case s of
             [] \<Rightarrow> False
           | c # cs \<Rightarrow>
               (if p = CHR ''_'' then like esc ps (dropWhile is_continuation cs)
                else ascii_lower p = ascii_lower c \<and> like esc ps cs))"

definition memories_in_namespace :: "jiff \<Rightarrow> graph \<Rightarrow> string \<Rightarrow> memory_view list outcome" where
  "memories_in_namespace J g pre =
     mapM (assemble_memory J g)
       (sort_key m_name (filter (\<lambda>r. like None (pre @ ''%'') (m_name r) \<and> \<not> m_deleted r) (memories g)))"

definition escape_like :: "string \<Rightarrow> string" where
  "escape_like pre =
     concat (map (\<lambda>ch. if ch \<in> {CHR 0x5C, CHR ''%'', CHR ''_''} then [CHR 0x5C, ch] else [ch]) pre)"

definition memory_ids_with_name_prefix :: "graph \<Rightarrow> string \<Rightarrow> memory_id list" where
  "memory_ids_with_name_prefix g pre =
     map m_id (sort_key m_name
       (filter (\<lambda>r. like (Some CHR 0x5C) (escape_like pre @ ''%'') (m_name r) \<and> \<not> m_deleted r) (memories g)))"

definition memory_count :: "graph \<Rightarrow> nat" where
  "memory_count g = length (filter (\<lambda>r. \<not> m_deleted r) (memories g))"

definition entry_count :: "graph \<Rightarrow> nat" where
  "entry_count g = length (filter (\<lambda>e. e_superseded_by e = None) (content_entries g))"

definition link_count :: "graph \<Rightarrow> nat" where
  "link_count g = length (links g)"

text \<open>\<open>prefix_range_end\<close> works on the scalar values of the text; \<open>rev\<close> gives the \<open>pop\<close> order.\<close>

definition MAX_SCALAR :: nat where
  "MAX_SCALAR = 0x10FFFF"

definition next_scalar :: "nat \<Rightarrow> nat option" where
  "next_scalar c =
     (let code = c + 1; code = (if 0xD800 \<le> code \<and> code \<le> 0xDFFF then 0xE000 else code)
      in if code \<le> MAX_SCALAR then Some code else None)"

fun range_end_rev :: "nat list \<Rightarrow> nat list option" where
  "range_end_rev [] = None"
| "range_end_rev (c # cs) =
     (case next_scalar c of Some d \<Rightarrow> Some (d # cs) | None \<Rightarrow> range_end_rev cs)"

definition prefix_range_end :: "nat list \<Rightarrow> nat list option" where
  "prefix_range_end chars = map_option rev (range_end_rev (rev chars))"

section \<open>Search terms\<close>

definition strip_markers :: "string \<Rightarrow> string" where
  "strip_markers s = filter (\<lambda>c. c \<noteq> CHR 0x01 \<and> c \<noteq> CHR 0x02) s"

definition quote_term :: "string \<Rightarrow> string" where
  "quote_term t = CHR 0x22 # concat (map (\<lambda>c. if c = CHR 0x22 then [c, c] else [c]) t) @ [CHR 0x22]"

fun join_space :: "string list \<Rightarrow> string" where
  "join_space [] = []"
| "join_space [t] = t"
| "join_space (t # ts) = t @ '' '' @ join_space ts"

definition build_match :: "string \<Rightarrow> string" where
  "build_match query = join_space (map quote_term (split_whitespace query))"

section \<open>Vocabulary\<close>

definition tag_description :: "graph \<Rightarrow> string \<Rightarrow> string option" where
  "tag_description g name = map_option t_description (List.find (\<lambda>t. t_name t = name) (tags g))"

definition all_tags :: "graph \<Rightarrow> tag_vocabulary_entry list" where
  "all_tags g =
     map (\<lambda>t. \<lparr>tv_name = tag_name_new (t_name t), tv_description = t_description t,
               tv_count = length (filter (\<lambda>mt. snd mt = t_name t \<and> memory_is_live g (fst mt)) (memory_tags g))\<rparr>)
       (sort_key t_name (tags g))"

definition relation_from_row :: "relation_row \<Rightarrow> relation_view outcome" where
  "relation_from_row r =
     andthen (parse_or ''unknown cardinality'' cardinality_from_str (r_from_card r)) (\<lambda>fc.
     andthen (parse_or ''unknown cardinality'' cardinality_from_str (r_to_card r)) (\<lambda>tc.
       Inr \<lparr>rv_name = relation_name_new (r_name r), rv_inverse = relation_name_new (r_inverse r),
            rv_from_card = fc, rv_to_card = tc, rv_symmetric = r_symmetric r,
            rv_reflexive = r_reflexive r, rv_description = r_description r\<rparr>))"

definition relation_view_of :: "graph \<Rightarrow> string \<Rightarrow> relation_view option outcome" where
  "relation_view_of g name =
     opt_column relation_from_row (List.find (\<lambda>r. r_name r = name \<or> r_inverse r = name) (relations g))"

definition all_relations :: "graph \<Rightarrow> relation_view list outcome" where
  "all_relations g = mapM relation_from_row (sort_key r_name (relations g))"

section \<open>The describe backlog\<close>

definition is_stale_row :: "memory_row \<Rightarrow> bool" where
  "is_stale_row r \<longleftrightarrow> \<not> m_deleted r \<and> m_last_described_seq r < m_last_content_seq r"

definition stale_memories :: "graph \<Rightarrow> memory_id list" where
  "stale_memories g =
     map m_id (sort_key (\<lambda>r. (m_last_content_seq r, m_id r)) (filter is_stale_row (memories g)))"

definition stale_memories_among :: "graph \<Rightarrow> memory_id list \<Rightarrow> memory_id list" where
  "stale_memories_among g ids =
     (if ids = [] then []
      else map m_id (sort_key (\<lambda>r. (m_last_content_seq r, m_id r))
             (filter (\<lambda>r. is_stale_row r \<and> m_id r \<in> set ids) (memories g))))"

definition stale_memory_count :: "graph \<Rightarrow> nat" where
  "stale_memory_count g = length (filter is_stale_row (memories g))"

definition oldest_stale_content_seq :: "graph \<Rightarrow> seq option" where
  "oldest_stale_content_seq g =
     (case map m_last_content_seq (filter is_stale_row (memories g)) of
        [] \<Rightarrow> None
      | n # ns \<Rightarrow> Some (fold min ns n))"

definition described_state :: "graph \<Rightarrow> memory_id \<Rightarrow> (seq \<times> seq) option" where
  "described_state g i =
     map_option (\<lambda>r. (m_last_content_seq r, m_last_described_seq r)) (live_row g i)"

definition untimed_entries_since :: "graph \<Rightarrow> memory_id \<Rightarrow> seq \<Rightarrow> entry_id list" where
  "untimed_entries_since g i after =
     map e_id (sort_key e_seq (filter (\<lambda>e. e_memory e = i \<and> e_occurred_at e = None
       \<and> e_superseded_by e = None \<and> \<not> e_description_mirror e \<and> after < e_seq e) (content_entries g)))"

definition timed_entries_since :: "graph \<Rightarrow> memory_id \<Rightarrow> seq \<Rightarrow> entry_id list" where
  "timed_entries_since g i after =
     map e_id (sort_key e_seq (filter (\<lambda>e. e_memory e = i \<and> e_occurred_at e \<noteq> None
       \<and> e_superseded_by e = None \<and> \<not> e_description_mirror e \<and> after < e_seq e) (content_entries g)))"

section \<open>Prefix scans\<close>

definition is_scalar :: "nat \<Rightarrow> bool" where
  "is_scalar c \<longleftrightarrow> c \<le> MAX_SCALAR \<and> \<not> (0xD800 \<le> c \<and> c \<le> 0xDFFF)"

lemma next_scalar_Some:
  "next_scalar c = Some d \<Longrightarrow> is_scalar x \<Longrightarrow> c \<le> x \<and> x < d \<longleftrightarrow> x = c"
  by (auto simp: next_scalar_def is_scalar_def Let_def split: if_splits)

lemma next_scalar_less: "next_scalar c = Some d \<Longrightarrow> c < d"
  by (auto simp: next_scalar_def Let_def split: if_splits)

lemma next_scalar_MAX [simp]: "next_scalar MAX_SCALAR = None"
  by (simp add: next_scalar_def MAX_SCALAR_def)

lemma next_scalar_None: "is_scalar c \<Longrightarrow> next_scalar c = None \<longleftrightarrow> c = MAX_SCALAR"
  by (auto simp: next_scalar_def is_scalar_def Let_def MAX_SCALAR_def)

lemma append_mono_le [simp]: "(q @ a \<le> q @ b) = (a \<le> (b :: nat list))"
  by (induction q) auto

lemma append_mono_less [simp]: "(q @ a < q @ b) = (a < (b :: nat list))"
  by (induction q) auto

lemma between_appends:
  "q @ a \<le> xs \<Longrightarrow> xs < q @ b \<Longrightarrow> \<exists>r. xs = q @ r \<and> a \<le> r \<and> r < (b :: nat list)"
proof (induction q arbitrary: xs)
  case (Cons c q)
  then show ?case by (cases xs) auto
qed simp

lemma singleton_le_iff: "[c] \<le> r \<longleftrightarrow> (\<exists>x xs. r = x # xs \<and> (c :: nat) \<le> x)"
  by (cases r) auto

lemma less_singleton_iff: "r < [d] \<longleftrightarrow> r = [] \<or> (\<exists>x xs. r = x # xs \<and> x < (d :: nat))"
  by (cases r) auto

lemma prefix_range_end_Nil [simp]: "prefix_range_end [] = None"
  by (simp add: prefix_range_end_def)

lemma prefix_range_end_snoc:
  "prefix_range_end (q @ [c]) =
     (case next_scalar c of Some d \<Rightarrow> Some (q @ [d]) | None \<Rightarrow> prefix_range_end q)"
  by (simp add: prefix_range_end_def split: option.splits)

lemma prefix_range_end_scan:
  assumes "\<forall>c \<in> set p. is_scalar c" "\<forall>c \<in> set name. is_scalar c" "prefix_range_end p = Some e"
  shows "(p \<le> name \<and> name < e) = (\<exists>r. name = p @ r)"
  using assms(1,3)
proof (induction p rule: rev_induct)
  case (snoc c q)
  show ?case
  proof (cases "next_scalar c")
    case (Some d)
    with snoc.prems have e: "e = q @ [d]" by (simp add: prefix_range_end_snoc)
    have "is_scalar x" if "name = q @ x # xs" for x xs using assms(2) that by simp
    then show ?thesis
      using between_appends [of q "[c]" name "[d]"] next_scalar_Some [OF Some]
        next_scalar_less [OF Some]
      by (auto simp: e singleton_le_iff less_singleton_iff)
  next
    case None
    with snoc.prems have c: "c = MAX_SCALAR" and e: "prefix_range_end q = Some e"
      by (auto simp: next_scalar_None prefix_range_end_snoc)
    from snoc.IH [OF _ e] snoc.prems(1) have ih: "(q \<le> name \<and> name < e) = (\<exists>r. name = q @ r)" by simp
    have "x = c" if "name = q @ x # xs" "c \<le> x" for x xs
      using assms(2) that c by (simp add: is_scalar_def)
    moreover have "q \<le> q @ [c]" using append_mono_le [of q "[]" "[c]"] by simp
    ultimately show ?thesis
      using ih by (auto simp: singleton_le_iff dest: order_trans)
  qed
qed simp

lemma prefix_range_end_None:
  "\<forall>c \<in> set p. is_scalar c \<Longrightarrow> prefix_range_end p = None \<longleftrightarrow> (\<forall>c \<in> set p. c = MAX_SCALAR)"
  by (induction p rule: rev_induct)
    (auto simp: prefix_range_end_snoc next_scalar_None split: option.splits)

section \<open>Literal prefixes under LIKE\<close>

lemma like_any [simp]: "like esc ''%'' s"
  by (induction s) auto

lemma like_escaped_char:
  "like (Some CHR 0x5C) (escape_like [c] @ ps) s =
     (case s of [] \<Rightarrow> False | d # ds \<Rightarrow> ascii_lower c = ascii_lower d \<and> like (Some CHR 0x5C) ps ds)"
  by (auto simp: escape_like_def split: list.splits)

lemma like_escape_prefix:
  "like (Some CHR 0x5C) (escape_like pre @ ''%'') s \<longleftrightarrow>
     starts_with (to_ascii_lowercase pre) (to_ascii_lowercase s)"
proof (induction pre arbitrary: s)
  case Nil
  then show ?case by (simp add: escape_like_def starts_with_def strip_prefix_def to_ascii_lowercase_def del: like.simps)
next
  case (Cons c pre)
  have "escape_like (c # pre) = escape_like [c] @ escape_like pre" by (simp add: escape_like_def)
  with Cons show ?case
    by (auto simp: like_escaped_char starts_with_def strip_prefix_def to_ascii_lowercase_def
        split: list.splits if_splits)
qed

section \<open>Properties\<close>

text \<open>
  the index range \<open>[prefix, successor)\<close> of \<open>memory_names_with_prefix\<close> holds exactly the names that
  begin with the prefix, across the surrogate gap and the carry past \<open>char::MAX\<close>; there is no upper
  bound only when every character of the prefix is the maximum scalar value.\<close>

theorem prefix_range_is_prefix_match:
  assumes "\<forall>c \<in> set p. is_scalar c" "\<forall>c \<in> set name. is_scalar c"
  shows "case prefix_range_end p of
      Some e \<Rightarrow> (p \<le> name \<and> name < e) = (\<exists>r. name = p @ r)
    | None \<Rightarrow> (\<forall>c \<in> set p. c = MAX_SCALAR)"
  using prefix_range_end_scan [OF assms] prefix_range_end_None [OF assms(1)]
  by (auto split: option.splits)

theorem prefix_range_is_prefix_match_witness:
  "prefix_range_end [100, 0xD7FF] = Some [100, 0xE000]
   \<and> ([100, 0xD7FF] \<le> [100, 0xD7FF, 5 :: nat] \<and> [100, 0xD7FF, 5] < [100, 0xE000 :: nat])"
  using prefix_range_is_prefix_match [of "[100, 0xD7FF]" "[100, 0xD7FF, 5]"]
  by (simp add: is_scalar_def MAX_SCALAR_def prefix_range_end_def next_scalar_def)

text \<open>
  \<open>memory_ids_with_name_prefix\<close> takes its stem literally: whatever percent signs, underscores or backslashes it
  holds, it returns the live memories whose name begins with the stem, ASCII case aside.\<close>

theorem name_prefix_is_literal:
  "i \<in> set (memory_ids_with_name_prefix g pre) \<longleftrightarrow>
     (\<exists>r \<in> set (memories g). m_id r = i \<and> \<not> m_deleted r
       \<and> starts_with (to_ascii_lowercase pre) (to_ascii_lowercase (m_name r)))"
  by (auto simp: memory_ids_with_name_prefix_def like_escape_prefix image_iff simp del: like.simps)

end
