(* ===== verification/Graph_Links.thy ===== *)
theory Graph_Links
  imports Graph_Memories Projection
begin

text \<open>
  The link reads, \<open>crates/core/src/graph/links.rs\<close>, and what a write of a link makes them return.
\<close>

section \<open>Reads\<close>

text \<open>The neighbour ids of \<open>outgoing\<close>; \<open>UNION\<close> gives each id once, in order.\<close>

definition neighbour_ids :: "graph \<Rightarrow> memory_id \<Rightarrow> string \<Rightarrow> relation_row \<Rightarrow> memory_id list" where
  "neighbour_ids g i relation r =
     (let tos = map l_to (filter (\<lambda>l. l_from l = i \<and> l_relation l = r_name r) (links g));
          froms = map l_from (filter (\<lambda>l. l_to l = i \<and> l_relation l = r_name r) (links g))
      in if r_symmetric r then sort (remdups (tos @ froms))
         else if relation = r_name r then tos
         else froms)"

fun live_memories :: "jiff \<Rightarrow> graph \<Rightarrow> memory_id list \<Rightarrow> memory_view list outcome" where
  "live_memories J g [] = Inr []"
| "live_memories J g (i # is) =
     andthen (memory_by_id J g i) (\<lambda>m.
     andthen (live_memories J g is) (\<lambda>ms.
       Inr (case m of Some v \<Rightarrow> v # ms | None \<Rightarrow> ms)))"

definition outgoing :: "jiff \<Rightarrow> graph \<Rightarrow> memory_id \<Rightarrow> string \<Rightarrow> memory_view list outcome" where
  "outgoing J g i relation =
     (case resolve_relation g relation of
        None \<Rightarrow> Inr []
      | Some r \<Rightarrow> live_memories J g (neighbour_ids g i relation r))"

definition link_ends_live :: "graph \<Rightarrow> link_row \<Rightarrow> bool" where
  "link_ends_live g l \<longleftrightarrow> memory_is_live g (l_from l) \<and> memory_is_live g (l_to l)"

definition links_of :: "jiff \<Rightarrow> graph \<Rightarrow> memory_id \<Rightarrow> link_view list outcome" where
  "links_of J g i =
     mapM (\<lambda>l. andthen (timestamp_column J (l_asserted_at l) ''asserted_at'') (\<lambda>t.
         Inr \<lparr>lv_from = l_from l, lv_to = l_to l, lv_relation = relation_name_new (l_relation l),
              lv_told_by = l_told_by l, lv_told_in = l_told_in l, lv_visibility = l_visibility l,
              lv_asserted_at = t\<rparr>))
       (sort_key (\<lambda>l. (l_relation l, l_to l))
         (filter (\<lambda>l. (l_from l = i \<or> l_to l = i) \<and> link_ends_live g l) (links g)))"

definition class_links :: "graph \<Rightarrow> memory_id \<Rightarrow> class_link_view list outcome" where
  "class_links g i =
     mapM (\<lambda>l. andthen (parse_or ''unknown link source'' link_source_from_str (l_source l)) (\<lambda>s.
         Inr \<lparr>cl_from = l_from l, cl_to = l_to l, cl_relation = relation_name_new (l_relation l),
              cl_source = s, cl_told_by = l_told_by l, cl_told_in = l_told_in l,
              cl_visibility = l_visibility l\<rparr>))
       (sort_key (\<lambda>l. (l_relation l, l_to l))
         (filter (\<lambda>l. link_ends_live g l
             \<and> (l_from l \<in> set (class_set g i) \<or> l_to l \<in> set (class_set g i))) (links g)))"

definition posture_from_row :: "link_row \<Rightarrow> link_posture outcome" where
  "posture_from_row l =
     andthen (parse_or ''unknown link source'' link_source_from_str (l_source l)) (\<lambda>s.
       Inr \<lparr>posture_source = s, posture_told_by = l_told_by l, posture_told_in = l_told_in l,
            posture_visibility = l_visibility l\<rparr>)"

text \<open>The class subquery of \<open>link_between\<close>, which keeps deleted memories.\<close>

definition class_set_all :: "graph \<Rightarrow> memory_id \<Rightarrow> memory_id set" where
  "class_set_all g i =
     (case List.find (\<lambda>r. m_id r = i) (memories g) of
        None \<Rightarrow> {}
      | Some r \<Rightarrow> m_id ` {m \<in> set (memories g). m_class_id m = m_class_id r})"

definition class_equivalent :: "graph \<Rightarrow> memory_id \<Rightarrow> memory_id \<Rightarrow> string \<Rightarrow> bool \<Rightarrow> link_row list" where
  "class_equivalent g f t canonical symmetric =
     sort_key (\<lambda>l. (l_from l, l_to l))
       (filter (\<lambda>l. l_relation l = canonical
           \<and> ((l_from l \<in> class_set_all g f \<and> l_to l \<in> class_set_all g t)
             \<or> (symmetric \<and> l_from l \<in> class_set_all g t \<and> l_to l \<in> class_set_all g f))) (links g))"

definition link_between ::
  "graph \<Rightarrow> memory_id \<Rightarrow> memory_id \<Rightarrow> relation_name \<Rightarrow> link_posture option outcome" where
  "link_between g from_id to_id relation =
     (case canonical_edge g from_id to_id (relation_name_str relation) of
        (f, t, canonical) \<Rightarrow>
          andthen (opt_column posture_from_row (List.find (\<lambda>l. link_key l = (f, t, canonical)) (links g)))
            (\<lambda>exact. case exact of
               Some posture \<Rightarrow> Inr (Some posture)
             | None \<Rightarrow>
                 andthen (relation_view_of g canonical) (\<lambda>r.
                   let symmetric = (case r of Some v \<Rightarrow> rv_symmetric v | None \<Rightarrow> False)
                   in case class_equivalent g f t canonical symmetric of
                        [] \<Rightarrow> Inr None
                      | l # _ \<Rightarrow> andthen (posture_from_row l) (\<lambda>p. Inr (Some p)))))"

text \<open>One row of \<open>class_neighbor_links\<close>: the far end is resolved to its class primary.\<close>

definition neighbor_row :: "graph \<Rightarrow> memory_id list \<Rightarrow> link_row \<Rightarrow> neighbor_link_view outcome" where
  "neighbor_row g cls l =
     (let other_id = (if l_from l \<in> set cls then l_to l else l_from l);
          primary = map_option m_class_id (List.find (\<lambda>r. m_id r = other_id) (memories g))
      in case primary of
           None \<Rightarrow> Inl (Err (GraphError_Backend (InvalidColumnType ''other_id'')))
         | Some p \<Rightarrow>
             (case List.find (\<lambda>r. m_id r = p) (memories g) of
                None \<Rightarrow> Inl (Err (GraphError_Backend (InvalidColumnType ''other_name'')))
              | Some m \<Rightarrow>
                  Inr \<lparr>nv_relation = relation_name_new (l_relation l),
                       nv_incoming = (l_from l \<notin> set cls), nv_other = p,
                       nv_other_name = MemoryName (m_name m), nv_from = l_from l, nv_to = l_to l,
                       nv_told_by = l_told_by l, nv_told_in = l_told_in l,
                       nv_visibility = l_visibility l\<rparr>))"

definition class_neighbor_links :: "graph \<Rightarrow> memory_id \<Rightarrow> neighbor_link_view list outcome" where
  "class_neighbor_links g i =
     (let cls = class_set g i
      in mapM (neighbor_row g cls)
           (rev (filter (\<lambda>l. link_ends_live g l
               \<and> (l_from l \<in> set cls \<or> l_to l \<in> set cls)
               \<and> \<not> (l_from l \<in> set cls \<and> l_to l \<in> set cls)) (links g))))"

section \<open>Lemmas\<close>

lemma canonical_edge_relations: "relations g' = relations g \<Longrightarrow> canonical_edge g' = canonical_edge g"
  by (intro ext) (simp add: canonical_edge_def resolve_relation_def)

lemma recompute_if_frame:
  "recompute_if_same_as l g = Inr g' \<Longrightarrow> links g' = links g \<and> relations g' = relations g"
  by (auto simp: recompute_if_same_as_def update_memories_def split: if_splits dest!: recompute_classes_shape)

text \<open>What a write of a link leaves in the two tables.\<close>

lemma link_created_tables:
  assumes "apply_link_created t i j rn src tb ti v g = Inr g'"
    and "canonical_edge g i j (relation_name_str rn) = (f, u, l)"
  defines "row \<equiv> \<lparr>l_from = f, l_to = u, l_relation = l, l_source = link_source_as_str src,
    l_told_by = tb, l_told_in = ti, l_visibility = v, l_asserted_at = t\<rparr>"
  shows "relations g' = relations g"
    and "links g' = (if (f, u, l) \<in> link_key ` set (links g)
      then update_where (\<lambda>x. link_key x = (f, u, l)) (\<lambda>x. row\<lparr>l_asserted_at := l_asserted_at x\<rparr>) (links g)
      else links g @ [row])"
proof -
  from assms(1,2) obtain g1 where g1: "upsert_link row g = Inr g1" "recompute_if_same_as l g1 = Inr g'"
    by (auto simp: apply_link_created_def andthen_Inr_iff row_def)
  have key: "link_key row = (f, u, l)" by (simp add: link_key_def row_def)
  have row: "x\<lparr>l_source := l_source row, l_told_by := l_told_by row, l_told_in := l_told_in row,
      l_visibility := l_visibility row\<rparr> = row\<lparr>l_asserted_at := l_asserted_at x\<rparr>"
    if "link_key x = (f, u, l)" for x
    using that by (cases x) (simp add: row_def link_key_def)
  have "links g1 = (if (f, u, l) \<in> link_key ` set (links g)
      then update_where (\<lambda>x. link_key x = (f, u, l)) (\<lambda>x. row\<lparr>l_asserted_at := l_asserted_at x\<rparr>) (links g)
      else links g @ [row])" "relations g1 = relations g"
    using g1(1) row by (auto simp: upsert_link_def key andthen_Inr_iff update_where_def split: if_splits)
  with recompute_if_frame [OF g1(2)] show "relations g' = relations g"
    "links g' = (if (f, u, l) \<in> link_key ` set (links g)
      then update_where (\<lambda>x. link_key x = (f, u, l)) (\<lambda>x. row\<lparr>l_asserted_at := l_asserted_at x\<rparr>) (links g)
      else links g @ [row])"
    by simp_all
qed

lemma find_append_last: "List.find P xs = None \<Longrightarrow> List.find P (xs @ [x]) = (if P x then Some x else None)"
  by (induction xs) (auto split: if_splits)

lemma find_update_where:
  assumes "\<exists>x \<in> set xs. P x" "\<And>x. P x \<Longrightarrow> P (f x)"
  shows "\<exists>x \<in> set xs. P x \<and> List.find P (update_where P f xs) = Some (f x)"
  using assms by (induction xs) (auto simp: update_where_def)

lemma created_row_found:
  assumes "apply_link_created t i j rn src tb ti v g = Inr g'"
    and "canonical_edge g i j (relation_name_str rn) = (f, u, l)"
  shows "\<exists>x. List.find (\<lambda>x. link_key x = (f, u, l)) (links g') = Some x
    \<and> l_source x = link_source_as_str src \<and> l_told_by x = tb \<and> l_told_in x = ti \<and> l_visibility x = v"
proof (cases "(f, u, l) \<in> link_key ` set (links g)")
  case True
  let ?f = "\<lambda>x. \<lparr>l_from = f, l_to = u, l_relation = l, l_source = link_source_as_str src,
    l_told_by = tb, l_told_in = ti, l_visibility = v, l_asserted_at = t\<rparr>\<lparr>l_asserted_at := l_asserted_at x\<rparr>"
  have "\<exists>x \<in> set (links g). link_key x = (f, u, l) \<and> List.find (\<lambda>x. link_key x = (f, u, l))
      (update_where (\<lambda>x. link_key x = (f, u, l)) ?f (links g)) = Some (?f x)"
    by (rule find_update_where) (use True in \<open>force simp: link_key_def\<close>)+
  then obtain x :: link_row where "List.find (\<lambda>x. link_key x = (f, u, l))
      (update_where (\<lambda>x. link_key x = (f, u, l)) ?f (links g)) = Some (?f x)"
    by (elim bexE conjE)
  with True show ?thesis by (simp add: link_created_tables(2) [OF assms])
next
  case False
  then have "List.find (\<lambda>x. link_key x = (f, u, l)) (links g) = None"
    unfolding find_None_iff by (metis image_eqI)
  with False show ?thesis
    by (simp add: link_created_tables(2) [OF assms] find_append_last) (simp add: link_key_def)
qed

lemma find_filter: "List.find P xs = (case filter P xs of [] \<Rightarrow> None | x # _ \<Rightarrow> Some x)"
  by (induction xs) auto

lemma filter_key_single:
  "distinct (map k xs) \<Longrightarrow> filter (\<lambda>x. k x = a) xs = (case List.find (\<lambda>x. k x = a) xs of Some x \<Rightarrow> [x] | None \<Rightarrow> [])"
proof (induction xs)
  case (Cons y xs)
  show ?case
  proof (cases "k y = a")
    case True
    with Cons.prems have "filter (\<lambda>x. k x = a) xs = []"
      unfolding filter_empty_conv by (metis distinct.simps(2) image_eqI list.set_map list.simps(9))
    with True show ?thesis by simp
  next
    case False
    with Cons show ?thesis by simp
  qed
qed simp

lemma find_one:
  "distinct (map k xs) \<Longrightarrow> map h (filter (\<lambda>x. k x = a) xs) =
     (case List.find (\<lambda>x. k x = a) xs of Some x \<Rightarrow> [h x] | None \<Rightarrow> [])"
  by (simp add: filter_key_single split: option.splits)

section \<open>Properties\<close>

text \<open>
  a link that was just written is found, with the posture it was written with, under every name of the edge: by
  \<open>link_between\<close> with the same labels, with the inverse label and the ends swapped, and in either order when
  the relation is symmetric (whatever canonicalizes to the same stored edge).\<close>

theorem link_round_trip:
  assumes "apply_link_created t i j rn src tb ti v g = Inr g'"
    and "canonical_edge g i' j' (relation_name_str rn') = canonical_edge g i j (relation_name_str rn)"
  shows "link_between g' i' j' rn' =
    Inr (Some \<lparr>posture_source = src, posture_told_by = tb, posture_told_in = ti, posture_visibility = v\<rparr>)"
proof -
  obtain f u l where e: "canonical_edge g i j (relation_name_str rn) = (f, u, l)" by (metis prod_cases3)
  have "canonical_edge g' i' j' (relation_name_str rn') = (f, u, l)"
    using assms(2) e canonical_edge_relations [OF link_created_tables(1) [OF assms(1) e]] by simp
  moreover obtain x where "List.find (\<lambda>x. link_key x = (f, u, l)) (links g') = Some x"
    "l_source x = link_source_as_str src" "l_told_by x = tb" "l_told_in x = ti" "l_visibility x = v"
    using created_row_found [OF assms(1) e] by blast
  ultimately show ?thesis
    by (simp add: link_between_def opt_column_def posture_from_row_def parse_or_def link_source_round_trip)
qed

theorem link_round_trip_witness:
  "\<exists>g'. apply_link_created 5 (MemoryId 3) (MemoryId 4) RelationName_Knows LinkSource_Inferred None None
      Visibility_Attributed sample_graph = Inr g'
    \<and> link_between g' (MemoryId 4) (MemoryId 3) RelationName_KnownBy =
      Inr (Some \<lparr>posture_source = LinkSource_Inferred, posture_told_by = None, posture_told_in = None,
        posture_visibility = Visibility_Attributed\<rparr>)"
proof -
  have "is_ok (apply_link_created 5 (MemoryId 3) (MemoryId 4) RelationName_Knows LinkSource_Inferred None None
      Visibility_Attributed sample_graph)" by code_simp
  moreover have "canonical_edge sample_graph (MemoryId 4) (MemoryId 3) (relation_name_str RelationName_KnownBy)
      = canonical_edge sample_graph (MemoryId 3) (MemoryId 4) (relation_name_str RelationName_Knows)" by code_simp
  ultimately show ?thesis using link_round_trip by (fastforce simp: is_ok_iff)
qed

text \<open>
  asserting a link is an upsert of one row: in a graph built from a log, after the write exactly one row
  stands for the edge, dated by its first assertion, and every other row is as it was.\<close>

theorem link_created_once:
  assumes "foldM (apply_event J) evs empty_graph = Inr g"
    and "apply_link_created t i j rn src tb ti v g = Inr g'"
  defines "k \<equiv> canonical_edge g i j (relation_name_str rn)"
  shows "filter (\<lambda>x. link_key x \<noteq> k) (links g') = filter (\<lambda>x. link_key x \<noteq> k) (links g)
    \<and> map l_asserted_at (filter (\<lambda>x. link_key x = k) (links g')) =
      (case List.find (\<lambda>x. link_key x = k) (links g) of Some x \<Rightarrow> [l_asserted_at x] | None \<Rightarrow> [t])"
proof -
  obtain f u l where e: "canonical_edge g i j (relation_name_str rn) = (f, u, l)" by (metis prod_cases3)
  have d: "distinct (map link_key (links g))"
    using keys.replay_from_empty [OF assms(1)] by (simp add: keys_ok_def)
  let ?row = "\<lparr>l_from = f, l_to = u, l_relation = l, l_source = link_source_as_str src,
    l_told_by = tb, l_told_in = ti, l_visibility = v, l_asserted_at = t\<rparr>"
  have key: "link_key (?row\<lparr>l_asserted_at := b\<rparr>) = (f, u, l)" for b by (simp add: link_key_def)
  have upd: "filter (\<lambda>x. link_key x \<noteq> (f, u, l)) (update_where (\<lambda>x. link_key x = (f, u, l))
        (\<lambda>x. ?row\<lparr>l_asserted_at := l_asserted_at x\<rparr>) xs) = filter (\<lambda>x. link_key x \<noteq> (f, u, l)) xs"
      "map l_asserted_at (filter (\<lambda>x. link_key x = (f, u, l)) (update_where (\<lambda>x. link_key x = (f, u, l))
        (\<lambda>x. ?row\<lparr>l_asserted_at := l_asserted_at x\<rparr>) xs)) =
       map l_asserted_at (filter (\<lambda>x. link_key x = (f, u, l)) xs)" for xs
    by (induction xs) (simp_all add: update_where_def link_key_def)
  show ?thesis
  proof (cases "List.find (\<lambda>x. link_key x = (f, u, l)) (links g)")
    case None
    then have "(f, u, l) \<notin> link_key ` set (links g)" by (auto simp: find_None_iff)
    moreover from None filter_key_single [OF d] have "filter (\<lambda>x. link_key x = (f, u, l)) (links g) = []" by simp
    ultimately show ?thesis
      using None key [of t] by (simp add: k_def e link_created_tables(2) [OF assms(2) e])
  next
    case (Some x)
    then have "(f, u, l) \<in> link_key ` set (links g)"
      by (metis (mono_tags, lifting) find_Some_iff image_eqI nth_mem)
    with Some find_one [OF d, of l_asserted_at] upd show ?thesis
      by (simp add: k_def e link_created_tables(2) [OF assms(2) e])
  qed
qed

theorem link_created_once_witness:
  "\<exists>g'. apply_link_created 99 (MemoryId 1) (MemoryId 2) RelationName_SameAs LinkSource_Agent None None
      Visibility_Attributed sample_graph = Inr g'
    \<and> map l_asserted_at (filter (\<lambda>x. link_key x = (MemoryId 1, MemoryId 2, ''same_as'')) (links g')) = [7000]"
proof -
  obtain g' where g': "apply_link_created 99 (MemoryId 1) (MemoryId 2) RelationName_SameAs LinkSource_Agent None None
      Visibility_Attributed sample_graph = Inr g'"
  proof -
    have "is_ok (apply_link_created 99 (MemoryId 1) (MemoryId 2) RelationName_SameAs LinkSource_Agent None None
      Visibility_Attributed sample_graph)" by code_simp
    then show thesis using that by (auto simp: is_ok_iff)
  qed
  have "canonical_edge sample_graph (MemoryId 1) (MemoryId 2) (relation_name_str RelationName_SameAs)
      = (MemoryId 1, MemoryId 2, ''same_as'')" by code_simp
  moreover have "map_option l_asserted_at (List.find (\<lambda>x. link_key x = (MemoryId 1, MemoryId 2, ''same_as'')) (links sample_graph))
      = Some 7000" by code_simp
  ultimately show ?thesis
    using link_created_once [OF sample_replay g'] g' by (auto split: option.splits)
qed

text \<open>
  removing a link under any name of the edge removes its row and no other, and the lookup of the exact edge
  then fails.\<close>

theorem link_removed_gone:
  assumes "apply_link_removed i j rn g = Inr g'"
  defines "k \<equiv> canonical_edge g i j (relation_name_str rn)"
  shows "links g' = filter (\<lambda>x. link_key x \<noteq> k) (links g)
    \<and> List.find (\<lambda>x. link_key x = k) (links g') = None"
proof -
  obtain f u l where e: "canonical_edge g i j (relation_name_str rn) = (f, u, l)" by (metis prod_cases3)
  with assms(1) have "recompute_if_same_as l (delete_link (f, u, l) g) = Inr g'"
    by (simp add: apply_link_removed_def)
  then have "links g' = filter (\<lambda>x. link_key x \<noteq> k) (links g)"
    using recompute_if_frame by (fastforce simp: delete_link_def k_def e)
  then show ?thesis by (simp add: find_None_iff)
qed

theorem link_removed_gone_witness:
  "\<exists>g'. apply_link_removed (MemoryId 2) (MemoryId 1) RelationName_SameAs sample_graph = Inr g'
    \<and> map link_key (links g') = [(MemoryId 2, MemoryId 3, ''knows'')]"
proof -
  obtain g' where g': "apply_link_removed (MemoryId 2) (MemoryId 1) RelationName_SameAs sample_graph = Inr g'"
  proof -
    have "is_ok (apply_link_removed (MemoryId 2) (MemoryId 1) RelationName_SameAs sample_graph)" by code_simp
    then show thesis using that by (auto simp: is_ok_iff)
  qed
  have "map link_key (filter (\<lambda>x. link_key x \<noteq>
      canonical_edge sample_graph (MemoryId 2) (MemoryId 1) (relation_name_str RelationName_SameAs)) (links sample_graph))
      = [(MemoryId 2, MemoryId 3, ''knows'')]" by code_simp
  with link_removed_gone [OF g'] g' show ?thesis by simp
qed

end
