(* ===== verification/Graph_Entries.thy ===== *)
theory Graph_Entries
  imports Graph_Links
begin

text \<open>
  The entry reads, \<open>crates/core/src/graph/entries.rs\<close>: live, history, class-wide, disputed and by id, each
  carrying the attestations of its entries; and what they return of a graph built from a log.
\<close>

datatype attestation_scope = AttestationScope_Live | AttestationScope_WithWithdrawn

section \<open>Rows to views\<close>

definition entry_from_row :: "jiff \<Rightarrow> entry_row \<Rightarrow> entry_view outcome" where
  "entry_from_row J e =
     andthen (timestamp_column J (e_asserted_at e) ''asserted_at'') (\<lambda>asserted_at.
     andthen (opt_column (\<lambda>m. timestamp_column J m ''occurred_sort'') (e_occurred_sort e)) (\<lambda>occurred_sort.
       Inr \<lparr>vw_entry_id = e_id e, vw_asserted_at = asserted_at, vw_occurred_sort = occurred_sort,
            vw_occurred_at = e_occurred_at e, vw_occurred_authored = e_occurred_authored e,
            vw_text = e_text e, vw_told_by = e_told_by e, vw_told_in = e_told_in e,
            vw_visibility = e_visibility e, vw_superseded_by = e_superseded_by e,
            vw_retracted_reason = e_retracted_reason e,
            vw_origin = (case e_origin_platform e of
                           Some p \<Rightarrow> EntryOrigin_PlatformConnector p | None \<Rightarrow> EntryOrigin_Recorded),
            vw_attestations = []\<rparr>))"

definition attestation_from_row :: "jiff \<Rightarrow> attestation_row \<Rightarrow> attestation_view outcome" where
  "attestation_from_row J a =
     andthen (timestamp_column J (a_asserted_at a) ''asserted_at'') (\<lambda>asserted_at.
       Inr \<lparr>av_teller = a_teller a, av_told_in = a_told_in a, av_asserted_at = asserted_at,
            av_posture = a_posture a, av_phrasing = a_phrasing a, av_source_entry = a_source_entry a,
            av_retracted_reason = a_retracted_reason a\<rparr>)"

text \<open>The batched fetch: the rows of the entries asked for, grouped by entry in commit order.\<close>

definition attestation_rows :: "graph \<Rightarrow> entry_id list \<Rightarrow> attestation_scope \<Rightarrow> attestation_row list" where
  "attestation_rows g ids scope =
     sort_key (\<lambda>a. (a_entry a, a_seq a))
       (filter (\<lambda>a. a_entry a \<in> set ids
           \<and> (scope = AttestationScope_Live \<longrightarrow> a_retracted_reason a = None)) (entry_attestations g))"

definition group_rows :: "(entry_id \<times> attestation_view) list \<Rightarrow> entry_id \<rightharpoonup> attestation_view list" where
  "group_rows rows e =
     (case map snd (filter (\<lambda>r. fst r = e) rows) of [] \<Rightarrow> None | as \<Rightarrow> Some as)"

definition attestations_for ::
  "jiff \<Rightarrow> graph \<Rightarrow> entry_id list \<Rightarrow> attestation_scope \<Rightarrow> (entry_id \<rightharpoonup> attestation_view list) outcome" where
  "attestations_for J g ids scope =
     (if ids = [] then Inr Map.empty
      else andthen (mapM (\<lambda>a. andthen (attestation_from_row J a) (\<lambda>v. Inr (a_entry a, v)))
             (attestation_rows g ids scope)) (\<lambda>rows. Inr (group_rows rows)))"

fun attach_each :: "(entry_id \<rightharpoonup> attestation_view list) \<Rightarrow> entry_view list \<Rightarrow> entry_view list" where
  "attach_each by_entry [] = []"
| "attach_each by_entry (v # vs) =
     v\<lparr>vw_attestations := (case by_entry (vw_entry_id v) of Some as \<Rightarrow> as | None \<Rightarrow> [])\<rparr>
     # attach_each (by_entry(vw_entry_id v := None)) vs"

definition attach_attestations ::
  "jiff \<Rightarrow> graph \<Rightarrow> entry_view list \<Rightarrow> attestation_scope \<Rightarrow> entry_view list outcome" where
  "attach_attestations J g vs scope =
     andthen (attestations_for J g (map vw_entry_id vs) scope) (\<lambda>by_entry. Inr (attach_each by_entry vs))"

definition collect_entries_scoped ::
  "jiff \<Rightarrow> graph \<Rightarrow> (entry_row \<Rightarrow> bool) \<Rightarrow> attestation_scope \<Rightarrow> entry_view list outcome" where
  "collect_entries_scoped J g P scope =
     andthen (mapM (entry_from_row J) (sort_key e_seq (filter P (content_entries g)))) (\<lambda>vs.
       attach_attestations J g vs scope)"

definition collect_entries :: "jiff \<Rightarrow> graph \<Rightarrow> (entry_row \<Rightarrow> bool) \<Rightarrow> entry_view list outcome" where
  "collect_entries J g P = collect_entries_scoped J g P AttestationScope_Live"

section \<open>Reads\<close>

definition as_recurring :: "entry_row \<Rightarrow> recurring_entry option" where
  "as_recurring e =
     (case e_occurred_at e of
        Some (TemporalRef_Recurring rrule) \<Rightarrow>
          Some \<lparr>re_memory = e_memory e, re_text = e_text e, re_rrule = rrule\<rparr>
      | _ \<Rightarrow> None)"

definition recurring_entries :: "graph \<Rightarrow> recurring_entry list" where
  "recurring_entries g =
     List.map_filter as_recurring
       (sort_key (\<lambda>e. (e_memory e, e_seq e))
         (filter (\<lambda>e. e_occurred_at e \<noteq> None \<and> e_superseded_by e = None) (content_entries g)))"

definition entries_local :: "jiff \<Rightarrow> graph \<Rightarrow> memory_id \<Rightarrow> entry_view list outcome" where
  "entries_local J g i = collect_entries J g (\<lambda>e. e_memory e = i \<and> e_superseded_by e = None)"

definition entries_local_history :: "jiff \<Rightarrow> graph \<Rightarrow> memory_id \<Rightarrow> entry_view list outcome" where
  "entries_local_history J g i = collect_entries J g (\<lambda>e. e_memory e = i)"

definition class_entries :: "jiff \<Rightarrow> graph \<Rightarrow> memory_id \<Rightarrow> entry_view list outcome" where
  "class_entries J g i =
     collect_entries J g (\<lambda>e. e_memory e \<in> set (class_set g i) \<and> e_superseded_by e = None)"

definition class_history :: "jiff \<Rightarrow> graph \<Rightarrow> memory_id \<Rightarrow> entry_view list outcome" where
  "class_history J g i =
     collect_entries_scoped J g (\<lambda>e. e_memory e \<in> set (class_set g i)) AttestationScope_WithWithdrawn"

text \<open>The loop of \<open>owned_context_entries\<close> over the class links; \<open>seen\<close> holds the far ends already read.\<close>

fun owned_loop ::
  "jiff \<Rightarrow> graph \<Rightarrow> memory_id list \<Rightarrow> memory_id list \<Rightarrow> class_link_view list \<Rightarrow> entry_view list outcome" where
  "owned_loop J g members seen [] = Inr []"
| "owned_loop J g members seen (l # ls) =
     (if cl_relation l = RelationName_SameAs then owned_loop J g members seen ls
      else let other = (if cl_from l \<in> set members then cl_to l else cl_from l)
           in if other \<in> set members \<or> other \<in> set seen then owned_loop J g members seen ls
              else andthen (memory_by_id J g other) (\<lambda>m.
                   case m of
                     None \<Rightarrow> owned_loop J g members (other # seen) ls
                   | Some memory \<Rightarrow>
                       (if map_option namespace_of (namespaced (mv_name memory)) = Some Namespace_Person
                        then owned_loop J g members (other # seen) ls
                        else andthen (class_entries J g other) (\<lambda>vs.
                             andthen (owned_loop J g members (other # seen) ls) (\<lambda>rest.
                               Inr (vs @ rest))))))"

definition owned_context_entries :: "jiff \<Rightarrow> graph \<Rightarrow> memory_id \<Rightarrow> entry_view list outcome" where
  "owned_context_entries J g i =
     andthen (class_links g i) (\<lambda>ls. owned_loop J g (class_members_of g i) [] ls)"

definition disputed_entries :: "graph \<Rightarrow> memory_id \<Rightarrow> entry_id set" where
  "disputed_entries g i =
     (let live = map d_entry (filter (\<lambda>d. d_memory d = i
          \<and> (\<exists>e \<in> set (content_entries g). e_id e = d_entry d \<and> e_superseded_by e = None)) (entry_disputes g))
      in if 2 \<le> length live then set live else {})"

definition entry_by_id :: "jiff \<Rightarrow> graph \<Rightarrow> entry_id \<Rightarrow> (memory_view \<times> entry_view) option outcome" where
  "entry_by_id J g entry =
     (case List.find (\<lambda>e. e_id e = entry) (content_entries g) of
        None \<Rightarrow> Inr None
      | Some e \<Rightarrow>
          andthen (entry_from_row J e) (\<lambda>v.
          andthen (attach_attestations J g [v] AttestationScope_Live) (\<lambda>vs.
          andthen (memory_by_id J g (e_memory e)) (\<lambda>m.
            Inr (map_option (\<lambda>memory. (memory, hd vs)) m)))))"

definition consolidation_sources :: "jiff \<Rightarrow> graph \<Rightarrow> entry_id \<Rightarrow> entry_view list outcome" where
  "consolidation_sources J g replacement = collect_entries J g (\<lambda>e. e_superseded_by e = Some replacement)"

section \<open>Lemmas\<close>

lemma mapM_Inr: "mapM f xs = Inr ys \<longleftrightarrow> list_all2 (\<lambda>x y. f x = Inr y) xs ys"
proof (induction xs arbitrary: ys)
  case (Cons x xs)
  then show ?case by (auto simp: andthen_Inr_iff list_all2_Cons1)
qed auto

lemma entry_from_row_fields:
  "entry_from_row J e = Inr v \<Longrightarrow> vw_entry_id v = e_id e \<and> vw_text v = e_text e
     \<and> vw_superseded_by v = e_superseded_by e \<and> vw_visibility v = e_visibility e \<and> vw_told_by v = e_told_by e"
  by (auto simp: entry_from_row_def andthen_Inr_iff)

lemma attach_each_ids [simp]: "map vw_entry_id (attach_each m vs) = map vw_entry_id vs"
  by (induction vs arbitrary: m) simp_all

lemma attach_each_map:
  "distinct (map vw_entry_id vs) \<Longrightarrow>
   attach_each m vs = map (\<lambda>v. v\<lparr>vw_attestations := (case m (vw_entry_id v) of Some as \<Rightarrow> as | None \<Rightarrow> [])\<rparr>) vs"
proof (induction vs arbitrary: m)
  case (Cons v vs)
  then have "vw_entry_id v \<notin> vw_entry_id ` set vs" by simp
  then have "vw_entry_id x \<noteq> vw_entry_id v" if "x \<in> set vs" for x using that by (metis imageI)
  with Cons show ?case by simp
qed simp

lemma attestations_for_mem:
  assumes "attestations_for J g ids scope = Inr m" "e \<in> set ids"
  shows "(\<exists>a \<in> set (entry_attestations g). a_entry a = e
      \<and> (scope = AttestationScope_Live \<longrightarrow> a_retracted_reason a = None)) \<longleftrightarrow> (\<exists>as. m e = Some as \<and> as \<noteq> [])"
proof -
  from assms obtain rows where m: "m = group_rows rows" and rows:
    "list_all2 (\<lambda>a r. andthen (attestation_from_row J a) (\<lambda>v. Inr (a_entry a, v)) = Inr r) (attestation_rows g ids scope) rows"
    by (cases "ids = []") (auto simp: attestations_for_def andthen_Inr_iff mapM_Inr)
  have "map fst rows = map a_entry (attestation_rows g ids scope)"
    using rows by (induction rule: list_all2_induct) (auto simp: andthen_Inr_iff)
  then have "fst ` set rows = a_entry ` set (attestation_rows g ids scope)" by (metis list.set_map)
  moreover have "(\<exists>as. m e = Some as \<and> as \<noteq> []) \<longleftrightarrow> e \<in> fst ` set rows"
  proof -
    have "(\<exists>as. m e = Some as \<and> as \<noteq> []) \<longleftrightarrow> filter (\<lambda>r. fst r = e) rows \<noteq> []"
      by (auto simp: m group_rows_def split: list.splits)
    then show ?thesis unfolding filter_empty_conv by (metis image_iff)
  qed
  ultimately show ?thesis using assms(2) by (auto simp: attestation_rows_def)
qed

lemma collect_entries_ids:
  assumes "collect_entries_scoped J g P scope = Inr vs"
  shows "map vw_entry_id vs = map e_id (sort_key e_seq (filter P (content_entries g)))"
proof -
  from assms obtain us where us: "list_all2 (\<lambda>e v. entry_from_row J e = Inr v) (sort_key e_seq (filter P (content_entries g))) us"
    and vs: "map vw_entry_id vs = map vw_entry_id us"
    by (auto simp: collect_entries_scoped_def attach_attestations_def andthen_Inr_iff mapM_Inr)
  from us have "map vw_entry_id us = map e_id (sort_key e_seq (filter P (content_entries g)))"
    by (induction rule: list_all2_induct) (auto dest: entry_from_row_fields)
  with vs show ?thesis by simp
qed

lemma distinct_map_sort_filter: "distinct (map k xs) \<Longrightarrow> distinct (map k (sort_key f (filter P xs)))"
  by (auto simp: distinct_map inj_on_def)

lemma collect_entries_attested:
  assumes "collect_entries J g P = Inr vs" "keys_ok g" "v \<in> set vs"
    and "\<exists>a \<in> set (entry_attestations g). a_entry a = vw_entry_id v \<and> a_retracted_reason a = None"
  shows "vw_attestations v \<noteq> []"
proof -
  from assms(1) obtain us m where
    m: "attestations_for J g (map vw_entry_id us) AttestationScope_Live = Inr m" and vs: "vs = attach_each m us"
    by (auto simp: collect_entries_def collect_entries_scoped_def attach_attestations_def andthen_Inr_iff)
  have "distinct (map vw_entry_id vs)"
    using collect_entries_ids assms(1,2) distinct_map_sort_filter
    by (fastforce simp: collect_entries_def keys_ok_def)
  then have "vs = map (\<lambda>v. v\<lparr>vw_attestations := (case m (vw_entry_id v) of Some as \<Rightarrow> as | None \<Rightarrow> [])\<rparr>) us"
    using attach_each_map vs by simp
  with assms(3) obtain u where u: "u \<in> set us" "v = u\<lparr>vw_attestations := (case m (vw_entry_id u) of Some as \<Rightarrow> as | None \<Rightarrow> [])\<rparr>"
    by auto
  with attestations_for_mem [OF m, of "vw_entry_id u"] assms(4) show ?thesis by auto
qed

lemma live_row_Some: "live_row g i = Some r \<Longrightarrow> r \<in> set (memories g) \<and> m_id r = i \<and> \<not> m_deleted r"
  by (auto simp: live_row_def find_Some_iff)

lemma live_row_iff: "(\<exists>r. live_row g i = Some r) \<longleftrightarrow> memory_is_live g i"
  unfolding live_row_def memory_is_live_def by (metis (mono_tags, lifting) find_None_iff not_None_eq)

text \<open>The class subquery in a graph built from a log.\<close>

lemma class_set_linked:
  assumes "keys_ok g" "classes_current g" "memory_is_live g i"
  shows "x \<in> set (class_set g i) \<longleftrightarrow> memory_is_live g x \<and> (i, x) \<in> linked (same_as_edges g)"
proof -
  from assms(3) obtain r where r: "live_row g i = Some r" using live_row_iff by blast
  note lr = live_row_Some [OF r]
  have "x \<in> set (class_set g i) \<longleftrightarrow>
      (\<exists>s \<in> set (memories g). m_id s = x \<and> \<not> m_deleted s \<and> m_class_id r = m_class_id s)"
    by (auto simp: class_set_def class_id_def r)
  also have "\<dots> \<longleftrightarrow> memory_is_live g x \<and> (i, x) \<in> linked (same_as_edges g)"
    using class_iff_linked [OF assms(1,2)] lr by (auto simp: memory_is_live_def)
  finally show ?thesis .
qed

text \<open>The loop of an arbitration that credits no side.\<close>

lemma replace_disputes:
  assumes "foldM (\<lambda>e. replace_dispute \<lparr>d_entry = e, d_memory = i, d_statement = st\<rparr>) es g = Inr g'"
  shows "content_entries g' = content_entries g \<and>
    entry_disputes g' = filter (\<lambda>d. d_entry d \<notin> set es) (entry_disputes g)
      @ map (\<lambda>e. \<lparr>d_entry = e, d_memory = i, d_statement = st\<rparr>) (remdups es)"
  using assms
proof (induction es arbitrary: g)
  case (Cons e es)
  let ?row = "\<lambda>e. \<lparr>d_entry = e, d_memory = i, d_statement = st\<rparr>"
  from Cons.prems obtain g1 where g1: "replace_dispute (?row e) g = Inr g1"
    "foldM (\<lambda>e. replace_dispute (?row e)) es g1 = Inr g'" by (auto simp: andthen_Inr_iff)
  from g1(1) have "content_entries g1 = content_entries g"
    "entry_disputes g1 = filter (\<lambda>d. d_entry d \<noteq> e) (entry_disputes g) @ [?row e]"
    by (auto simp: replace_dispute_def andthen_Inr_iff)
  with Cons.IH [OF g1(2)] show ?case by (auto simp: conj_ac cong: filter_cong)
qed simp

definition entry_is_live :: "graph \<Rightarrow> entry_id \<Rightarrow> bool" where
  "entry_is_live g x \<longleftrightarrow> (\<exists>e \<in> set (content_entries g). e_id e = x \<and> e_superseded_by e = None)"

lemma disputed_entries_eq:
  "disputed_entries g i =
     (let live = filter (entry_is_live g) (map d_entry (filter (\<lambda>d. d_memory d = i) (entry_disputes g)))
      in if 2 \<le> length live then set live else {})"
  by (simp add: disputed_entries_def entry_is_live_def filter_map comp_def conj_commute)

section \<open>Properties\<close>

text \<open>
  a merged identity reads as one: in a graph built from a log, the class read of a live memory returns exactly
  the live entries of the live memories its \<open>same_as\<close> component holds, in commit order, and every entry
  it returns carries at least one attestation, so the visibility predicate never falls back to the
  founding columns on it.\<close>

theorem class_entries_span_identity:
  assumes "foldM (apply_event J) evs empty_graph = Inr g" "memory_is_live g i" "class_entries J g i = Inr vs"
  shows "map vw_entry_id vs = map e_id (sort_key e_seq (filter (\<lambda>e. e_superseded_by e = None
        \<and> memory_is_live g (e_memory e) \<and> (i, e_memory e) \<in> linked (same_as_edges g)) (content_entries g)))
    \<and> (\<forall>v \<in> set vs. vw_attestations v \<noteq> [])"
proof -
  let ?P = "\<lambda>e. e_memory e \<in> set (class_set g i) \<and> e_superseded_by e = None"
  have keys: "keys_ok g" and cur: "classes_current g" and facts: "entry_facts g"
    using keys.replay_from_empty [OF assms(1)] identity_inv.replay_from_empty [OF assms(1)]
      facts.replay_from_empty [OF assms(1)] by (simp_all add: identity_ok_def)
  have vs: "collect_entries J g ?P = Inr vs" using assms(3) by (simp add: class_entries_def)
  then have ids: "map vw_entry_id vs = map e_id (sort_key e_seq (filter ?P (content_entries g)))"
    using collect_entries_ids by (simp add: collect_entries_def)
  have "vw_attestations v \<noteq> []" if v: "v \<in> set vs" for v
  proof -
    from v have "vw_entry_id v \<in> set (map vw_entry_id vs)" by simp
    then obtain e where "e \<in> set (content_entries g)" "e_superseded_by e = None" "e_id e = vw_entry_id v"
      unfolding ids by auto
    then have "\<exists>a \<in> set (entry_attestations g). a_entry a = vw_entry_id v \<and> a_retracted_reason a = None"
      using facts unfolding entry_facts_def list_all_iff attested_def by metis
    then show ?thesis by (rule collect_entries_attested [OF vs keys v])
  qed
  moreover have "filter ?P (content_entries g) = filter (\<lambda>e. e_superseded_by e = None
        \<and> memory_is_live g (e_memory e) \<and> (i, e_memory e) \<in> linked (same_as_edges g)) (content_entries g)"
    by (rule filter_cong) (auto simp: class_set_linked [OF keys cur assms(2)])
  ultimately show ?thesis using ids by simp
qed

theorem class_entries_span_identity_witness:
  "\<exists>vs. class_entries gregorian sample_graph (MemoryId 2) = Inr vs
    \<and> map vw_entry_id vs = [EntryId 10, EntryId 11] \<and> (\<forall>v \<in> set vs. vw_attestations v \<noteq> [])"
proof -
  have live: "memory_is_live sample_graph (MemoryId 2)" by code_simp
  have "case class_entries gregorian sample_graph (MemoryId 2) of
      Inr vs \<Rightarrow> map vw_entry_id vs = [EntryId 10, EntryId 11] | Inl _ \<Rightarrow> False" by code_simp
  then obtain vs where "class_entries gregorian sample_graph (MemoryId 2) = Inr vs"
    "map vw_entry_id vs = [EntryId 10, EntryId 11]" by (auto split: sum.splits)
  with class_entries_span_identity [OF sample_replay live] show ?thesis by auto
qed

lemma attestation_retracted_tables:
  "\<exists>g'. apply_attestation_retracted e t reason g = Inr g'
    \<and> content_entries g' =
      (if \<exists>a \<in> set (entry_attestations g). a_entry a = e \<and> a_teller a \<noteq> t \<and> a_retracted_reason a = None
       then content_entries g
       else update_where (\<lambda>r. e_id r = e) (\<lambda>r. r\<lparr>e_superseded_by := Some e, e_retracted_reason := Some reason\<rparr>)
         (content_entries g))
    \<and> entry_attestations g' =
      update_where (\<lambda>a. a_entry a = e \<and> a_teller a = t) (\<lambda>a. a\<lparr>a_retracted_reason := Some reason\<rparr>)
        (entry_attestations g)"
proof -
  let ?g1 = "update_attestations (\<lambda>a. a_entry a = e \<and> a_teller a = t) (\<lambda>a. a\<lparr>a_retracted_reason := Some reason\<rparr>) g"
  have "live_attestations e ?g1 = [] \<longleftrightarrow>
      \<not> (\<exists>a \<in> set (entry_attestations g). a_entry a = e \<and> a_teller a \<noteq> t \<and> a_retracted_reason a = None)"
    unfolding live_attestations_def filter_empty_conv by (auto simp: update_attestations_def split: if_splits)
  then show ?thesis
    by (auto simp: apply_attestation_retracted_def Let_def set_retracted_def update_entries_def update_attestations_def)
qed

text \<open>
  withdrawing one teller's attestation tombstones the entry exactly when no other teller still stands behind it;
  otherwise the entry rows are as they were and only that teller's attestation is withdrawn.\<close>

theorem last_teller_withdraws_entry:
  "\<exists>g'. apply_attestation_retracted e t reason g = Inr g'
    \<and> content_entries g' =
      (if \<exists>a \<in> set (entry_attestations g). a_entry a = e \<and> a_teller a \<noteq> t \<and> a_retracted_reason a = None
       then content_entries g
       else update_where (\<lambda>r. e_id r = e) (\<lambda>r. r\<lparr>e_superseded_by := Some e, e_retracted_reason := Some reason\<rparr>)
         (content_entries g))
    \<and> entry_attestations g' =
      update_where (\<lambda>a. a_entry a = e \<and> a_teller a = t) (\<lambda>a. a\<lparr>a_retracted_reason := Some reason\<rparr>)
        (entry_attestations g)"
  by (rule attestation_retracted_tables)

text \<open>
  the latest arbitration governs what is disputed: when it credits no side and at least two of its competing
  entries are live, exactly those are disputed; when it credits a side, or fewer than two are live,
  nothing of the memory is.\<close>

theorem latest_arbitration_governs:
  assumes "apply_belief_arbitrated i competing res g = Inr g'"
  shows "disputed_entries g' i =
    (let live = {e \<in> set competing. entry_is_live g e}
     in if credited res = [] \<and> 2 \<le> card live then live else {})"
proof -
  let ?g0 = "g\<lparr>entry_disputes := filter (\<lambda>d. d_memory d \<noteq> i) (entry_disputes g)\<rparr>"
  show ?thesis
  proof (cases "credited res = []")
    case True
    with assms replace_disputes have g': "content_entries g' = content_entries g"
      "entry_disputes g' = filter (\<lambda>d. d_entry d \<notin> set competing) (entry_disputes ?g0)
        @ map (\<lambda>e. \<lparr>d_entry = e, d_memory = i, d_statement = statement res\<rparr>) (remdups competing)"
      by (fastforce simp: apply_belief_arbitrated_def Let_def)+
    have "map d_entry (filter (\<lambda>d. d_memory d = i) (entry_disputes g')) = remdups competing"
      by (auto simp: g' filter_map comp_def filter_empty_conv)
    moreover have "entry_is_live g' = entry_is_live g" by (simp add: entry_is_live_def g' fun_eq_iff)
    moreover have "length (filter P (remdups competing)) = card {e \<in> set competing. P e}" for P
      by (metis distinct_card distinct_filter distinct_remdups set_filter set_remdups)
    ultimately show ?thesis using True by (auto simp: disputed_entries_eq Let_def)
  next
    case False
    with assms have "g' = ?g0" by (simp add: apply_belief_arbitrated_def Let_def)
    with False show ?thesis by (simp add: disputed_entries_eq filter_map comp_def Let_def)
  qed
qed

theorem latest_arbitration_governs_witness:
  "\<exists>g'. apply_belief_arbitrated (MemoryId 1) [EntryId 10, EntryId 11, EntryId 10]
      \<lparr>credited = [], statement = ''unclear''\<rparr> sample_graph = Inr g'
    \<and> disputed_entries g' (MemoryId 1) = {EntryId 10, EntryId 11}"
proof -
  let ?r = "\<lparr>credited = [], statement = ''unclear''\<rparr>"
  have "is_ok (apply_belief_arbitrated (MemoryId 1) [EntryId 10, EntryId 11, EntryId 10] ?r sample_graph)"
    by code_simp
  then obtain g' where g': "apply_belief_arbitrated (MemoryId 1) [EntryId 10, EntryId 11, EntryId 10] ?r sample_graph = Inr g'"
    by (auto simp: is_ok_iff)
  have "entry_is_live sample_graph (EntryId 10)" "entry_is_live sample_graph (EntryId 11)" by code_simp+
  then have "{e \<in> set [EntryId 10, EntryId 11, EntryId 10]. entry_is_live sample_graph e} = {EntryId 10, EntryId 11}"
    by auto
  with latest_arbitration_governs [OF g'] g' show ?thesis by simp
qed

end
