(* ===== verification/Graph_Occurrences.thy ===== *)
theory Graph_Occurrences
  imports Graph_Entries
begin

text \<open>
  The occurrence reads, \<open>crates/core/src/graph/occurrences.rs\<close>: the calendar windows, the due items the
  scheduler fires, the recurring instances, and the wake-ups waiting to be surfaced.
\<close>

section \<open>Reads\<close>

text \<open>The join every query shares: live entries with their live memory.\<close>

definition timed_rows :: "graph \<Rightarrow> (entry_row \<Rightarrow> bool) \<Rightarrow> (memory_row \<times> entry_row) list" where
  "timed_rows g P =
     List.map_filter (\<lambda>e. map_option (\<lambda>m. (m, e)) (live_row g (e_memory e)))
       (filter (\<lambda>e. e_superseded_by e = None \<and> P e) (content_entries g))"

definition by_occurrence :: "memory_row \<times> entry_row \<Rightarrow> int option \<times> seq" where
  "by_occurrence r = (e_occurred_sort (snd r), e_seq (snd r))"

definition occurrence_row :: "jiff \<Rightarrow> graph \<Rightarrow> memory_row \<times> entry_row \<Rightarrow> (memory_view \<times> entry_view) outcome" where
  "occurrence_row J g r =
     andthen (assemble_memory J g (fst r)) (\<lambda>m.
     andthen (entry_from_row J (snd r)) (\<lambda>e. Inr (m, e)))"

definition attach_occurrence_attestations ::
  "jiff \<Rightarrow> graph \<Rightarrow> (memory_view \<times> entry_view) list \<Rightarrow> (memory_view \<times> entry_view) list outcome" where
  "attach_occurrence_attestations J g rows =
     andthen (attestations_for J g (map (\<lambda>r. vw_entry_id (snd r)) rows) AttestationScope_Live) (\<lambda>by_entry.
       Inr (zip (map fst rows) (attach_each by_entry (map snd rows))))"

definition occurrence_rows :: "jiff \<Rightarrow> graph \<Rightarrow> (entry_row \<Rightarrow> bool) \<Rightarrow> (memory_view \<times> entry_view) list outcome" where
  "occurrence_rows J g P =
     andthen (mapM (occurrence_row J g) (sort_key by_occurrence (timed_rows g P)))
       (attach_occurrence_attestations J g)"

definition occurrences_in_window ::
  "jiff \<Rightarrow> graph \<Rightarrow> timestamp \<Rightarrow> timestamp \<Rightarrow> (memory_view \<times> entry_view) list outcome" where
  "occurrences_in_window J g from_t to_t =
     occurrence_rows J g (\<lambda>e. case e_occurred_sort e of None \<Rightarrow> False | Some s \<Rightarrow> from_t \<le> s \<and> s \<le> to_t)"

definition is_due :: "timestamp \<Rightarrow> entry_row \<Rightarrow> bool" where
  "is_due now e \<longleftrightarrow> e_fired_at e = None
     \<and> (case e_occurred_sort e of None \<Rightarrow> False | Some s \<Rightarrow> e_asserted_at e < s \<and> s \<le> now)"

definition due_occurrences :: "graph \<Rightarrow> timestamp \<Rightarrow> (memory_id \<times> entry_id) list" where
  "due_occurrences g now =
     map (\<lambda>r. (e_memory (snd r), e_id (snd r))) (sort_key by_occurrence (timed_rows g (is_due now)))"

definition is_sortless :: "entry_row \<Rightarrow> bool" where
  "is_sortless e \<longleftrightarrow> e_occurred_sort e = None \<and> e_occurred_at e \<noteq> None"

definition recurring_rule :: "entry_row \<Rightarrow> string option" where
  "recurring_rule e = (case e_occurred_at e of Some (TemporalRef_Recurring rrule) \<Rightarrow> Some rrule | _ \<Rightarrow> None)"

fun due_recurring_loop ::
  "jiff \<Rightarrow> timestamp \<Rightarrow> (memory_row \<times> entry_row) list \<Rightarrow> (memory_id \<times> entry_id) list outcome" where
  "due_recurring_loop J now [] = Inr []"
| "due_recurring_loop J now ((m, e) # rows) =
     (case recurring_rule e of
        None \<Rightarrow> due_recurring_loop J now rows
      | Some rrule \<Rightarrow>
          andthen (timestamp_column J (e_asserted_at e) ''asserted_at'') (\<lambda>asserted_at.
          andthen (case e_fired_at e of
                     Some millis \<Rightarrow> timestamp_column J millis ''fired_at''
                   | None \<Rightarrow> Inr asserted_at) (\<lambda>baseline.
          andthen (lift_panic (next_occurrence J rrule asserted_at baseline)) (\<lambda>instant.
          andthen (due_recurring_loop J now rows) (\<lambda>rest.
            Inr (case instant of
                   Some t \<Rightarrow> (if t \<le> now then (e_memory e, e_id e) # rest else rest)
                 | None \<Rightarrow> rest))))))"

definition due_recurring :: "jiff \<Rightarrow> graph \<Rightarrow> timestamp \<Rightarrow> (memory_id \<times> entry_id) list outcome" where
  "due_recurring J g now =
     due_recurring_loop J now (sort_key (\<lambda>r. e_seq (snd r)) (timed_rows g is_sortless))"

definition is_pending :: "entry_row \<Rightarrow> bool" where
  "is_pending e \<longleftrightarrow> e_fired_at e \<noteq> None \<and> e_surfaced_at e = None"

definition pending_wakeups :: "jiff \<Rightarrow> graph \<Rightarrow> (memory_view \<times> entry_view) list outcome" where
  "pending_wakeups J g = occurrence_rows J g is_pending"

definition recurring_memories :: "jiff \<Rightarrow> graph \<Rightarrow> memory_view list outcome" where
  "recurring_memories J g =
     mapM (assemble_memory J g)
       (dedup_by m_id []
         (map fst (filter (\<lambda>r. recurring_rule (snd r) \<noteq> None)
           (sort_key (\<lambda>r. m_name (fst r)) (timed_rows g is_sortless)))))"

text \<open>\<open>from - 1\<close>, saturating, as the bound past which an instance counts.\<close>

definition window_seed :: "jiff \<Rightarrow> timestamp \<Rightarrow> timestamp outcome" where
  "window_seed J from_t = lift_panic (from_millis J (max (- (2 ^ 63)) (from_t - 1)))"

fun recurring_hits ::
  "jiff \<Rightarrow> timestamp \<Rightarrow> timestamp \<Rightarrow> timestamp \<Rightarrow> (memory_row \<times> entry_row) list
    \<Rightarrow> (timestamp \<times> memory_row) list outcome" where
  "recurring_hits J after from_t to_t [] = Inr []"
| "recurring_hits J after from_t to_t ((m, e) # rows) =
     (case recurring_rule e of
        None \<Rightarrow> recurring_hits J after from_t to_t rows
      | Some rrule \<Rightarrow>
          andthen (timestamp_column J (e_asserted_at e) ''asserted_at'') (\<lambda>asserted_at.
          andthen (lift_panic (next_occurrence J rrule asserted_at after)) (\<lambda>instant.
          andthen (recurring_hits J after from_t to_t rows) (\<lambda>rest.
            Inr (case instant of
                   Some t \<Rightarrow> (if from_t \<le> t \<and> t \<le> to_t then (t, m) # rest else rest)
                 | None \<Rightarrow> rest)))))"

definition recurring_in_window ::
  "jiff \<Rightarrow> graph \<Rightarrow> timestamp \<Rightarrow> timestamp \<Rightarrow> (timestamp \<times> memory_view) list outcome" where
  "recurring_in_window J g from_t to_t =
     andthen (window_seed J from_t) (\<lambda>after.
     andthen (recurring_hits J after from_t to_t
       (sort_key (\<lambda>r. e_seq (snd r)) (timed_rows g is_sortless))) (\<lambda>hits.
       mapM (\<lambda>(t, m). andthen (assemble_memory J g m) (\<lambda>v. Inr (t, v)))
         (dedup_by (\<lambda>h. m_id (snd h)) [] (sort_key fst hits))))"

text \<open>The inner loop of the expansion: at most \<open>max_per_entry\<close> instances of one rule, up to \<open>to\<close>.\<close>

fun expand_rule :: "jiff \<Rightarrow> string \<Rightarrow> timestamp \<Rightarrow> timestamp \<Rightarrow> nat \<Rightarrow> timestamp \<Rightarrow> timestamp list outcome" where
  "expand_rule J rrule asserted_at to_t 0 after = Inr []"
| "expand_rule J rrule asserted_at to_t (Suc n) after =
     andthen (lift_panic (next_occurrence J rrule asserted_at after)) (\<lambda>instant.
       case instant of
         None \<Rightarrow> Inr []
       | Some t \<Rightarrow>
           (if t > to_t then Inr []
            else andthen (expand_rule J rrule asserted_at to_t n t) (\<lambda>rest. Inr (t # rest))))"

fun expand_rows ::
  "jiff \<Rightarrow> graph \<Rightarrow> timestamp \<Rightarrow> timestamp \<Rightarrow> nat \<Rightarrow> (memory_row \<times> entry_row) list
    \<Rightarrow> (timestamp \<times> memory_view \<times> entry_id \<times> string) list outcome" where
  "expand_rows J g seed to_t n [] = Inr []"
| "expand_rows J g seed to_t n ((m, e) # rows) =
     (case recurring_rule e of
        None \<Rightarrow> expand_rows J g seed to_t n rows
      | Some rrule \<Rightarrow>
          andthen (timestamp_column J (e_asserted_at e) ''asserted_at'') (\<lambda>asserted_at.
          andthen (assemble_memory J g m) (\<lambda>memory.
          andthen (expand_rule J rrule asserted_at to_t n seed) (\<lambda>ts.
          andthen (expand_rows J g seed to_t n rows) (\<lambda>rest.
            Inr (map (\<lambda>t. (t, memory, e_id e, e_text e)) ts @ rest))))))"

definition recurring_instances_in_window ::
  "jiff \<Rightarrow> graph \<Rightarrow> timestamp \<Rightarrow> timestamp \<Rightarrow> nat
    \<Rightarrow> (timestamp \<times> memory_view \<times> entry_id \<times> string) list outcome" where
  "recurring_instances_in_window J g from_t to_t max_per_entry =
     andthen (window_seed J from_t) (\<lambda>seed.
     andthen (expand_rows J g seed to_t max_per_entry
       (sort_key (\<lambda>r. e_seq (snd r)) (timed_rows g is_sortless))) (\<lambda>hits.
       Inr (sort_key fst hits)))"

section \<open>Lemmas\<close>

lemma lift_panic_ok [simp]: "lift_panic (Inr a) = Inr a"
  by (simp add: lift_panic_def)

lemma updated_entry:
  "r \<in> set (content_entries (update_entries P f g)) \<Longrightarrow>
   \<exists>r0 \<in> set (content_entries g). r = (if P r0 then f r0 else r0)"
  by (auto simp: update_entries_def update_where_def)

lemma set_timed_rows:
  "(m, e) \<in> set (timed_rows g P) \<longleftrightarrow>
     e \<in> set (content_entries g) \<and> e_superseded_by e = None \<and> P e \<and> live_row g (e_memory e) = Some m"
  by (auto simp: timed_rows_def List.map_filter_def image_iff intro!: exI [of _ e])

lemma occurrence_rows_ids:
  assumes "occurrence_rows J g P = Inr ws"
  shows "map (\<lambda>w. vw_entry_id (snd w)) ws = map (\<lambda>r. e_id (snd r)) (sort_key by_occurrence (timed_rows g P))
    \<and> map (\<lambda>w. vw_occurred_sort (snd w)) ws = map (\<lambda>r. e_occurred_sort (snd r)) (sort_key by_occurrence (timed_rows g P))"
proof -
  let ?rows = "sort_key by_occurrence (timed_rows g P)"
  from assms obtain us m where us: "list_all2 (\<lambda>r u. occurrence_row J g r = Inr u) ?rows us"
    and ws: "ws = zip (map fst us) (attach_each m (map snd us))"
    by (auto simp: occurrence_rows_def attach_occurrence_attestations_def andthen_Inr_iff mapM_Inr)
  have len: "length (attach_each m vs) = length vs" for m vs by (metis attach_each_ids length_map)
  have sorts: "map vw_occurred_sort (attach_each m vs) = map vw_occurred_sort vs" for m vs
    by (induction vs arbitrary: m) simp_all
  have snds: "map snd ws = attach_each m (map snd us)" by (simp add: ws len)
  have col: "e_occurred_sort (snd r) = vw_occurred_sort (snd u) \<and> e_id (snd r) = vw_entry_id (snd u)"
    if "occurrence_row J g r = Inr u" for r u
    using that by (auto simp: occurrence_row_def andthen_Inr_iff entry_from_row_def opt_column_def
        timestamp_column_def try_from_millis_def malformed_def split: option.splits if_splits)
  from us have "map (\<lambda>r. e_id (snd r)) ?rows = map (\<lambda>u. vw_entry_id (snd u)) us"
    "map (\<lambda>r. e_occurred_sort (snd r)) ?rows = map (\<lambda>u. vw_occurred_sort (snd u)) us"
    by (induction rule: list_all2_induct) (auto dest: col)
  then show ?thesis
    using arg_cong [OF snds, of "map vw_entry_id"] arg_cong [OF snds, of "map vw_occurred_sort"]
    by (simp add: sorts comp_def)
qed

lemma live_row_entries [simp]: "live_row (update_entries P f g) i = live_row g i"
  by (simp add: live_row_def update_entries_def)

text \<open>An update of one entry's marks drops it from a read whose condition it no longer meets.\<close>

lemma timed_rows_update_drop:
  assumes "\<And>r. \<not> P (f r)"
  shows "timed_rows (update_entries (\<lambda>r. e_id r = e) f g) P = filter (\<lambda>r. e_id (snd r) \<noteq> e) (timed_rows g P)"
proof -
  have "List.map_filter h (filter (\<lambda>r. e_superseded_by r = None \<and> P r) (update_where (\<lambda>r. e_id r = e) f es))
      = filter (\<lambda>r. e_id (snd r) \<noteq> e) (List.map_filter h (filter (\<lambda>r. e_superseded_by r = None \<and> P r) es))"
    if "\<And>r x. h r = Some x \<Longrightarrow> snd x = r" for h :: "entry_row \<Rightarrow> (memory_row \<times> entry_row) option" and es
  proof (induction es)
    case (Cons r es)
    with assms that [of r] show ?case
      by (auto simp: update_where_def List.map_filter_simps split: option.splits)
  qed (simp add: update_where_def List.map_filter_simps)
  from this [of "\<lambda>r. map_option (\<lambda>m. (m, r)) (live_row g (e_memory r))" "content_entries g"] show ?thesis
    by (auto simp: timed_rows_def) (simp add: update_entries_def)
qed

lemma due_recurring_loop_mem:
  "due_recurring_loop J now rows = Inr ds \<Longrightarrow> (i, x) \<in> set ds \<Longrightarrow>
   \<exists>m e rrule t. (m, e) \<in> set rows \<and> e_id e = x \<and> recurring_rule e = Some rrule \<and> t \<le> now
     \<and> next_occurrence J rrule (e_asserted_at e)
         (case e_fired_at e of Some f \<Rightarrow> f | None \<Rightarrow> e_asserted_at e) = Inr (Some t)"
proof (induction J now rows arbitrary: ds rule: due_recurring_loop.induct)
  case (2 J now m e rows)
  show ?case
  proof (cases "recurring_rule e")
    case None
    with 2 show ?thesis by auto
  next
    case (Some rrule)
    from "2.prems"(1) Some obtain a b o' rest where
      a: "timestamp_column J (e_asserted_at e) ''asserted_at'' = Inr a"
      and b: "(case e_fired_at e of Some millis \<Rightarrow> timestamp_column J millis ''fired_at'' | None \<Rightarrow> Inr a) = Inr b"
      and o': "next_occurrence J rrule a b = Inr o'" and rest: "due_recurring_loop J now rows = Inr rest"
      and ds: "ds = (case o' of Some t \<Rightarrow> (if t \<le> now then (e_memory e, e_id e) # rest else rest) | None \<Rightarrow> rest)"
      by (auto simp: andthen_Inr_iff)
    have col: "timestamp_column J x c = Inr y \<Longrightarrow> y = x" for x y c
      by (auto simp: timestamp_column_def try_from_millis_def malformed_def split: option.splits if_splits)
    have ab: "a = e_asserted_at e" "b = (case e_fired_at e of Some f \<Rightarrow> f | None \<Rightarrow> e_asserted_at e)"
      using a b by (auto dest: col split: option.splits)
    show ?thesis
    proof (cases "(i, x) \<in> set rest")
      case True
      with "2.IH"(2) [OF Some a b _ rest] o' show ?thesis by fastforce
    next
      case False
      with "2.prems"(2) ds obtain t where "o' = Some t" "t \<le> now" "e_id e = x"
        by (auto split: option.splits if_splits)
      with Some o' ab show ?thesis by (intro exI [of _ m] exI [of _ e]) auto
    qed
  qed
qed simp

lemma expand_rule_bounds:
  assumes "expand_rule J rrule dt to_t n after = Inr ts" "dt \<le> after \<or> zoned_add_utc J dt 0 0 = Some dt"
  shows "sorted_wrt (<) (after # ts) \<and> (\<forall>t \<in> set ts. t \<le> to_t) \<and> length ts \<le> n"
  using assms
proof (induction J rrule dt to_t n after arbitrary: ts rule: expand_rule.induct)
  case (2 J rrule dt to_t n after)
  from "2.prems"(1) obtain o' where o': "next_occurrence J rrule dt after = Inr o'" by (auto simp: andthen_Inr_iff)
  show ?case
  proof (cases "\<exists>t. o' = Some t \<and> t \<le> to_t")
    case False
    with "2.prems"(1) o' show ?thesis by (auto split: option.splits if_splits)
  next
    case True
    then obtain t where t: "o' = Some t" "t \<le> to_t" by blast
    with "2.prems"(1) o' obtain rest where rest: "expand_rule J rrule dt to_t n t = Inr rest" "ts = t # rest"
      by (auto simp: andthen_Inr_iff)
    have gt: "after < t" using next_occurrence_after o' t(1) "2.prems"(2) by blast
    have "sorted_wrt (<) (t # rest) \<and> (\<forall>t \<in> set rest. t \<le> to_t) \<and> length rest \<le> n"
      using "2.IH" [of o' t rest] o' t rest "2.prems"(2) gt by auto
    with gt t rest show ?thesis by auto
  qed
qed simp

section \<open>Properties\<close>

text \<open>
  a due item fires once: marking it fired takes it out of the due set for good, whatever the clock later
  says, and puts it among the wake-ups waiting to be surfaced.\<close>

theorem job_fires_once:
  assumes "(i, e) \<in> set (due_occurrences g now)" "apply_job_fired e t g = Inr g'"
    and "pending_wakeups J g' = Inr ws"
  shows "e \<notin> snd ` set (due_occurrences g' later) \<and> e \<in> (\<lambda>w. vw_entry_id (snd w)) ` set ws"
proof -
  let ?f = "\<lambda>r. r\<lparr>e_fired_at := Some t, e_surfaced_at := None\<rparr>"
  from assms(2) have g': "g' = update_entries (\<lambda>r. e_id r = e) ?f g" by (simp add: apply_job_fired_def)
  have "timed_rows g' (is_due later) = filter (\<lambda>r. e_id (snd r) \<noteq> e) (timed_rows g (is_due later))"
    unfolding g' by (rule timed_rows_update_drop) (simp add: is_due_def)
  then have "e \<notin> snd ` set (due_occurrences g' later)" by (auto simp: due_occurrences_def)
  moreover from assms(1) obtain m r where r: "(m, r) \<in> set (timed_rows g (is_due now))" "e_id r = e"
    by (auto simp: due_occurrences_def)
  then have "(m, ?f r) \<in> set (timed_rows g' is_pending)"
    by (auto simp: set_timed_rows g' is_pending_def) (auto simp: update_entries_def update_where_def)
  with r(2) have "e \<in> (\<lambda>x. e_id (snd x)) ` set (timed_rows g' is_pending)" by (auto simp: image_iff intro!: bexI)
  then have "e \<in> (\<lambda>w. vw_entry_id (snd w)) ` set ws"
    using occurrence_rows_ids [OF assms(3) [unfolded pending_wakeups_def]]
    by (metis list.set_map set_sort)
  ultimately show ?thesis by blast
qed

theorem job_fires_once_witness:
  "\<exists>g' ws. apply_job_fired (EntryId 11) 100000 sample_graph = Inr g' \<and> pending_wakeups gregorian g' = Inr ws
    \<and> EntryId 11 \<notin> snd ` set (due_occurrences g' 999999) \<and> EntryId 11 \<in> (\<lambda>w. vw_entry_id (snd w)) ` set ws"
proof -
  have due: "(MemoryId 2, EntryId 11) \<in> set (due_occurrences sample_graph 100000)" by code_simp
  have "is_ok (andthen (apply_job_fired (EntryId 11) 100000 sample_graph) (pending_wakeups gregorian))" by code_simp
  then obtain g' ws where "apply_job_fired (EntryId 11) 100000 sample_graph = Inr g'" "pending_wakeups gregorian g' = Inr ws"
    by (auto simp: is_ok_iff andthen_Inr_iff)
  with job_fires_once [OF due] show ?thesis by blast
qed

text \<open>
  a wake-up is surfaced once: marking an entry surfaced takes it out of the pending wake-ups and leaves the
  others, in their order.\<close>

theorem wakeup_surfaces_once:
  assumes "apply_item_surfaced e t g = Inr g'" "pending_wakeups J g = Inr ws" "pending_wakeups J g' = Inr ws'"
  shows "map (\<lambda>w. vw_entry_id (snd w)) ws' = filter (\<lambda>x. x \<noteq> e) (map (\<lambda>w. vw_entry_id (snd w)) ws)"
proof -
  have "timed_rows g' is_pending = filter (\<lambda>r. e_id (snd r) \<noteq> e) (timed_rows g is_pending)"
    using assms(1) timed_rows_update_drop [of is_pending "\<lambda>r. r\<lparr>e_surfaced_at := Some t\<rparr>" e g]
    by (auto simp: apply_item_surfaced_def is_pending_def)
  then show ?thesis
    using occurrence_rows_ids [OF assms(2) [unfolded pending_wakeups_def]]
      occurrence_rows_ids [OF assms(3) [unfolded pending_wakeups_def]]
    by (simp add: filter_map comp_def filter_sort)
qed

theorem wakeup_surfaces_once_witness:
  "\<exists>g g' ws'. apply_job_fired (EntryId 11) 100000 sample_graph = Inr g
    \<and> apply_item_surfaced (EntryId 11) 100001 g = Inr g' \<and> pending_wakeups gregorian g' = Inr ws'
    \<and> EntryId 11 \<notin> set (map (\<lambda>w. vw_entry_id (snd w)) ws')"
proof -
  have "is_ok (andthen (apply_job_fired (EntryId 11) 100000 sample_graph) (\<lambda>g.
      andthen (pending_wakeups gregorian g) (\<lambda>_. andthen (apply_item_surfaced (EntryId 11) 100001 g) (pending_wakeups gregorian))))"
    by code_simp
  then obtain g ws g' ws' where "apply_job_fired (EntryId 11) 100000 sample_graph = Inr g"
    and s: "apply_item_surfaced (EntryId 11) 100001 g = Inr g'" "pending_wakeups gregorian g = Inr ws"
    "pending_wakeups gregorian g' = Inr ws'"
    by (auto simp: is_ok_iff andthen_Inr_iff)
  moreover have "EntryId 11 \<notin> set (map (\<lambda>w. vw_entry_id (snd w)) ws')"
    unfolding wakeup_surfaces_once [OF s] by simp
  ultimately show ?thesis by blast
qed

text \<open>
  a recurring entry that has just fired is not due again before its next instance: at no clock up to the firing
  does the scheduler see it, so one trigger is live per recurring entry.\<close>

theorem recurring_fires_once_per_instance:
  assumes "apply_job_fired e t g = Inr g'" "\<forall>r \<in> set (content_entries g). e_id r = e \<longrightarrow> e_asserted_at r \<le> t"
    and "due_recurring J g' now = Inr ds" "now \<le> t"
  shows "e \<notin> snd ` set ds"
proof
  assume "e \<in> snd ` set ds"
  then obtain i where "(i, e) \<in> set ds" by auto
  from due_recurring_loop_mem [OF assms(3) [unfolded due_recurring_def] this] obtain m r rrule x where
    r: "(m, r) \<in> set (timed_rows g' is_sortless)" "e_id r = e" "x \<le> now"
    and n: "next_occurrence J rrule (e_asserted_at r)
      (case e_fired_at r of Some f \<Rightarrow> f | None \<Rightarrow> e_asserted_at r) = Inr (Some x)"
    by (simp only: set_sort) (elim exE conjE, rule that, assumption+)
  from assms(1) have g': "g' = update_entries (\<lambda>r. e_id r = e) (\<lambda>r. r\<lparr>e_fired_at := Some t, e_surfaced_at := None\<rparr>) g"
    by (simp add: apply_job_fired_def)
  from r(1) have "r \<in> set (content_entries g')" by (simp add: set_timed_rows)
  from updated_entry [OF this [unfolded g']] obtain r0 where r0: "r0 \<in> set (content_entries g)"
    "r = (if e_id r0 = e then r0\<lparr>e_fired_at := Some t, e_surfaced_at := None\<rparr> else r0)" by blast
  with r(2) have "e_id r0 = e" by (cases "e_id r0 = e") simp_all
  with r0 assms(2) have "e_fired_at r = Some t" "e_asserted_at r \<le> t" by simp_all
  with next_occurrence_after [OF n] r(3) assms(4) show False by simp
qed

theorem recurring_fires_once_per_instance_witness:
  "\<exists>ds. due_recurring gregorian sample_graph 86413000 = Inr [(MemoryId 3, EntryId 12)]
    \<and> andthen (apply_job_fired (EntryId 12) 86413000 sample_graph) (\<lambda>g. due_recurring gregorian g 86413000) = Inr ds
    \<and> EntryId 12 \<notin> snd ` set ds"
proof -
  have "is_ok (andthen (apply_job_fired (EntryId 12) 86413000 sample_graph) (\<lambda>g. due_recurring gregorian g 86413000))"
    by code_simp
  then obtain g' ds where g': "apply_job_fired (EntryId 12) 86413000 sample_graph = Inr g'"
    and ds: "due_recurring gregorian g' 86413000 = Inr ds"
    by (auto simp: is_ok_iff andthen_Inr_iff)
  have "\<forall>r \<in> set (content_entries sample_graph). e_id r = EntryId 12 \<longrightarrow> e_asserted_at r \<le> 86413000" by code_simp
  from recurring_fires_once_per_instance [OF g' this ds] g' ds
  have "EntryId 12 \<notin> snd ` set ds" by simp
  moreover have "due_recurring gregorian sample_graph 86413000 = Inr [(MemoryId 3, EntryId 12)]" by code_simp
  ultimately show ?thesis using g' ds by simp
qed

text \<open>
  the calendar window is exact: it returns one row per live timed entry of a live memory inside the bounds, none
  outside, soonest first.\<close>

theorem window_is_exact:
  assumes "occurrences_in_window J g from_t to_t = Inr ws"
  shows "sorted (map (\<lambda>w. vw_occurred_sort (snd w)) ws)
    \<and> (\<lambda>w. vw_entry_id (snd w)) ` set ws =
      {x. \<exists>e \<in> set (content_entries g). e_id e = x \<and> e_superseded_by e = None \<and> memory_is_live g (e_memory e)
        \<and> (\<exists>s. e_occurred_sort e = Some s \<and> from_t \<le> s \<and> s \<le> to_t)}"
proof -
  let ?P = "\<lambda>e. case e_occurred_sort e of None \<Rightarrow> False | Some s \<Rightarrow> from_t \<le> s \<and> s \<le> to_t"
  note ids = occurrence_rows_ids [OF assms [unfolded occurrences_in_window_def]]
  have "(\<lambda>w. vw_entry_id (snd w)) ` set ws = (\<lambda>r. e_id (snd r)) ` set (timed_rows g ?P)"
    using arg_cong [OF conjunct1 [OF ids], of set] by simp
  also have "\<dots> = {x. \<exists>e \<in> set (content_entries g). e_id e = x \<and> e_superseded_by e = None \<and> memory_is_live g (e_memory e)
        \<and> (\<exists>s. e_occurred_sort e = Some s \<and> from_t \<le> s \<and> s \<le> to_t)}"
  proof -
    have "(\<lambda>r. e_id (snd r)) ` S = {x. \<exists>m e. (m, e) \<in> S \<and> e_id e = x}" for S :: "(memory_row \<times> entry_row) set"
      by force
    moreover have "?P e \<longleftrightarrow> (\<exists>s. e_occurred_sort e = Some s \<and> from_t \<le> s \<and> s \<le> to_t)" for e
      by (simp split: option.splits)
    ultimately show ?thesis
      by (simp only: set_timed_rows live_row_iff [symmetric]) blast
  qed
  finally have "(\<lambda>w. vw_entry_id (snd w)) ` set ws = {x. \<exists>e \<in> set (content_entries g). e_id e = x
      \<and> e_superseded_by e = None \<and> memory_is_live g (e_memory e)
      \<and> (\<exists>s. e_occurred_sort e = Some s \<and> from_t \<le> s \<and> s \<le> to_t)}" .
  moreover have "sorted (map (\<lambda>r. e_occurred_sort (snd r)) (sort_key by_occurrence rows))" for rows
  proof -
    have "map (\<lambda>r. e_occurred_sort (snd r)) (sort_key by_occurrence rows) = map fst (map by_occurrence (sort_key by_occurrence rows))"
      by (simp add: by_occurrence_def)
    moreover have "sorted (map fst ys)" if "sorted ys" for ys :: "(int option \<times> nat) list"
      using that by (induction ys) (auto simp: less_eq_prod_def less_imp_le)
    ultimately show ?thesis by (simp add: sorted_sort_key del: map_map)
  qed
  ultimately show ?thesis using ids by simp
qed

theorem window_is_exact_witness:
  "\<exists>ws. occurrences_in_window gregorian sample_graph 0 100000 = Inr ws
    \<and> EntryId 11 \<in> (\<lambda>w. vw_entry_id (snd w)) ` set ws"
proof -
  have "is_ok (occurrences_in_window gregorian sample_graph 0 100000)" by code_simp
  then obtain ws where ws: "occurrences_in_window gregorian sample_graph 0 100000 = Inr ws" by (auto simp: is_ok_iff)
  have "\<exists>e \<in> set (content_entries sample_graph). e_id e = EntryId 11 \<and> e_superseded_by e = None
      \<and> memory_is_live sample_graph (e_memory e) \<and> e_occurred_sort e = Some 90000" by code_simp
  with window_is_exact [OF ws] ws show ?thesis by auto
qed

text \<open>
  the expansion of a rule is bounded and ordered: at most \<open>max_per_entry\<close> instances, strictly increasing, past
  the seed and up to the end of the window.\<close>

theorem expansion_is_bounded:
  assumes "expand_rule J rrule dt to_t n after = Inr ts" "zoned_add_utc J dt 0 0 = Some dt"
  shows "sorted_wrt (<) (after # ts) \<and> (\<forall>t \<in> set ts. t \<le> to_t) \<and> length ts \<le> n"
  using expand_rule_bounds assms by blast

theorem expansion_is_bounded_witness:
  "\<exists>ts. expand_rule gregorian ''FREQ=DAILY'' 13000 300000000 2 12999 = Inr ts \<and> ts \<noteq> []
    \<and> sorted_wrt (<) (12999 # ts) \<and> (\<forall>t \<in> set ts. t \<le> 300000000) \<and> length ts \<le> 2"
proof -
  have z: "zoned_add_utc gregorian 13000 0 0 = Some 13000" by code_simp
  have "case expand_rule gregorian ''FREQ=DAILY'' 13000 300000000 2 12999 of Inr ts \<Rightarrow> ts \<noteq> [] | Inl _ \<Rightarrow> False" by code_simp
  then obtain ts where "expand_rule gregorian ''FREQ=DAILY'' 13000 300000000 2 12999 = Inr ts" "ts \<noteq> []"
    by (auto split: sum.splits)
  with expansion_is_bounded [OF _ z] show ?thesis by blast
qed

end
