(* ===== verification/Markers.thy ===== *)
theory Markers
  imports Visibility
begin

text \<open>
  Provenance markers, \<open>crates/core/src/visibility/markers.rs\<close> and the marker of
  \<open>crates/core/src/visibility/links.rs\<close>: the text a surfaced entry or link carries about who stands
  behind it. The rendering of a turn's ULID, from the \<open>ulid\<close> crate, is the argument \<open>ulid_str\<close>.
\<close>

record marker_room =
  room_name :: string
  room_confidential :: bool

record marker_turn =
  mt_turn_id :: "turn_id option"
  mt_room :: "marker_room option"

text \<open>\<open>str::rfind\<close> and \<open>split_at\<close>: the string before the last occurrence, and from it on; the whole
  string and nothing when there is none.\<close>

definition split_at_last :: "char \<Rightarrow> string \<Rightarrow> string \<times> string" where
  "split_at_last c s =
     (case rsplit_once c s of Some (a, b) \<Rightarrow> (a, c # b) | None \<Rightarrow> (s, []))"

definition format_turn :: "(nat \<Rightarrow> string) \<Rightarrow> string \<Rightarrow> turn_id option \<Rightarrow> string" where
  "format_turn ulid_str marker turn =
     (case turn of
        Some i \<Rightarrow>
          (case split_at_last (CHR '']'') marker of
             (hd_part, tl_part) \<Rightarrow>
               hd_part @ '' '' @ ''[turn:'' @ ulid_str (turn_ulid i) @ '']'' @ tl_part)
      | None \<Rightarrow> marker)"

definition teller_private_marker :: "(nat \<Rightarrow> string) \<Rightarrow> string \<Rightarrow> marker_turn option \<Rightarrow> string" where
  "teller_private_marker ulid_str teller_name marker =
     (let room = Option.bind marker mt_room;
          turn = Option.bind marker mt_turn_id;
          body = (case room of
                    Some r \<Rightarrow>
                      (if room_confidential r
                       then ''told by '' @ teller_name @ '' in '' @ room_name r @ '' (confidential)''
                       else ''told by '' @ teller_name @ '' in '' @ room_name r)
                  | None \<Rightarrow> ''told by '' @ teller_name)
      in format_turn ulid_str (''[teller-private, '' @ body @ '']'') turn)"

definition attributed_marker :: "(nat \<Rightarrow> string) \<Rightarrow> string \<Rightarrow> marker_turn option \<Rightarrow> string" where
  "attributed_marker ulid_str teller_name marker =
     (let room = Option.bind marker mt_room;
          turn = Option.bind marker mt_turn_id;
          body = (case room of
                    Some r \<Rightarrow> ''via '' @ teller_name @ '' in '' @ room_name r
                  | None \<Rightarrow> ''via '' @ teller_name)
      in format_turn ulid_str (''['' @ body @ '']'') turn)"

definition entry_marker ::
  "(nat \<Rightarrow> string) \<Rightarrow> visibility \<Rightarrow> string \<Rightarrow> marker_turn option \<Rightarrow> string option" where
  "entry_marker ulid_str v teller_name marker =
     (case v of
        Visibility_Public \<Rightarrow> None
      | Visibility_Attributed \<Rightarrow> Some (attributed_marker ulid_str teller_name marker)
      | Visibility_PrivateToTeller \<Rightarrow> Some (teller_private_marker ulid_str teller_name marker)
      | Visibility_Exclude _ \<Rightarrow> Some (teller_private_marker ulid_str teller_name marker))"

definition link_marker ::
  "(nat \<Rightarrow> string) \<Rightarrow> visibility \<Rightarrow> string \<Rightarrow> marker_turn option \<Rightarrow> string option" where
  "link_marker ulid_str v teller_name marker =
     (case v of
        Visibility_Public \<Rightarrow> None
      | Visibility_Attributed \<Rightarrow> Some (attributed_marker ulid_str teller_name marker)
      | Visibility_PrivateToTeller \<Rightarrow> Some (teller_private_marker ulid_str teller_name marker)
      | Visibility_Exclude _ \<Rightarrow> Some (teller_private_marker ulid_str teller_name marker))"

section \<open>The marker of an attestation set\<close>

record marker_attestation =
  ma_posture :: visibility
  ma_teller :: string
  ma_is_agent :: bool
  ma_marker :: marker_turn

fun posture_rank :: "visibility \<Rightarrow> nat" where
  "posture_rank Visibility_Public = 3"
| "posture_rank Visibility_Attributed = 2"
| "posture_rank Visibility_PrivateToTeller = 1"
| "posture_rank (Visibility_Exclude _) = 1"

definition via_marker :: "(nat \<Rightarrow> string) \<Rightarrow> marker_attestation list \<Rightarrow> string option" where
  "via_marker ulid_str vis =
     (case filter (\<lambda>a. ma_posture a = Visibility_Attributed \<and> \<not> ma_is_agent a) vis of
        [] \<Rightarrow> None
      | [only] \<Rightarrow> Some (attributed_marker ulid_str (ma_teller only) (Some (ma_marker only)))
      | [a, b] \<Rightarrow> Some (''[via '' @ ma_teller a @ '', '' @ ma_teller b @ '']'')
      | a # b # rest \<Rightarrow>
          Some (''[via '' @ ma_teller a @ '', '' @ ma_teller b @ '', +'' @ show_nat (length rest) @ '']''))"

definition also_told_marker :: "marker_attestation list \<Rightarrow> string option" where
  "also_told_marker vis =
     (case filter (\<lambda>a. posture_rank (ma_posture a) \<ge> 2 \<and> \<not> ma_is_agent a) (drop 1 vis) of
        [] \<Rightarrow> None
      | [only] \<Rightarrow> Some (''[also told by '' @ ma_teller only @ '']'')
      | [a, b] \<Rightarrow> Some (''[also told by '' @ ma_teller a @ '', '' @ ma_teller b @ '']'')
      | others \<Rightarrow> Some (''[also told by '' @ show_nat (length others) @ '' others]''))"

definition entry_attestation_marker :: "(nat \<Rightarrow> string) \<Rightarrow> marker_attestation list \<Rightarrow> string option" where
  "entry_attestation_marker ulid_str vis =
     (if vis = [] then None
      else let widest = Max (set (map (\<lambda>a. posture_rank (ma_posture a)) vis))
           in if widest = 3 then also_told_marker vis
              else if widest = 2 then via_marker ulid_str vis
              else map_option
                     (\<lambda>c. teller_private_marker ulid_str (ma_teller c) (Some (ma_marker c)))
                     (List.find (\<lambda>a. posture_rank (ma_posture a) = 1) vis))"

definition room_display :: "string \<Rightarrow> string" where
  "room_display context_name =
     ''#'' @ (case strip_prefix (namespace_prefix Namespace_Context) context_name of
               Some s \<Rightarrow> s | None \<Rightarrow> context_name)"

section \<open>Lemmas\<close>

lemma format_turn_closed:
  "format_turn U (x @ '']'') turn =
     x @ (case turn of Some i \<Rightarrow> '' [turn:'' @ U (turn_ulid i) @ '']'' | None \<Rightarrow> []) @ '']''"
proof -
  have "rsplit_once (CHR '']'') (x @ '']'') = Some (x, [])"
    using rsplit_once_fresh [of "CHR '']''" "[]" x] by simp
  then show ?thesis by (simp add: format_turn_def split_at_last_def split: option.splits)
qed

lemma posture_rank_ge1: "1 \<le> posture_rank v" "posture_rank v \<le> 3"
  by (cases v; simp)+

lemma widest_cases:
  assumes "vis \<noteq> []"
  defines "w \<equiv> Max (set (map (\<lambda>a. posture_rank (ma_posture a)) vis))"
  shows "w = 3 \<and> (\<exists>a \<in> set vis. ma_posture a = Visibility_Public)
    \<or> w = 2 \<and> (\<forall>a \<in> set vis. ma_posture a \<noteq> Visibility_Public) \<and> (\<exists>a \<in> set vis. ma_posture a = Visibility_Attributed)
    \<or> w = 1 \<and> (\<forall>a \<in> set vis. posture_rank (ma_posture a) = 1)"
proof -
  let ?S = "set (map (\<lambda>a. posture_rank (ma_posture a)) vis)"
  have "w \<in> ?S" unfolding w_def by (rule Max_in) (use assms(1) in auto)
  then obtain a where a: "a \<in> set vis" "w = posture_rank (ma_posture a)" by auto
  have le: "posture_rank (ma_posture b) \<le> w" if "b \<in> set vis" for b
    unfolding w_def by (rule Max_ge) (use that in auto)
  show ?thesis
  proof (cases "ma_posture a")
    case Visibility_Attributed
    have "ma_posture b \<noteq> Visibility_Public" if "b \<in> set vis" for b
      using le [OF that] a(2) Visibility_Attributed by auto
    with a Visibility_Attributed show ?thesis by auto
  qed (use a le posture_rank_ge1(1) in \<open>auto simp: le_antisym\<close>)
qed

lemma starts_with_append [simp]: "starts_with p (p @ s)"
  by (simp add: starts_with_def)

lemma format_turn_prefix: "starts_with p x \<Longrightarrow> starts_with p (format_turn U (x @ '']'') turn)"
  by (auto simp: starts_with_def strip_prefix_Some_iff format_turn_closed)

lemma attributed_marker_prefix: "starts_with ''[via '' (attributed_marker U t mk)"
proof -
  have "\<exists>r. attributed_marker U t mk = format_turn U ((''[via '' @ r) @ '']'') (Option.bind mk mt_turn_id)"
  proof (cases "Option.bind mk mt_room")
    case None
    then show ?thesis by (intro exI [of _ t]) (simp add: attributed_marker_def)
  next
    case (Some r)
    then show ?thesis by (intro exI [of _ "t @ '' in '' @ room_name r"]) (simp add: attributed_marker_def)
  qed
  then show ?thesis by (metis format_turn_prefix starts_with_append)
qed

lemma teller_private_marker_prefix:
  "starts_with ''[teller-private, told by '' (teller_private_marker U t mk)"
proof -
  have "\<exists>r. teller_private_marker U t mk =
    format_turn U ((''[teller-private, told by '' @ r) @ '']'') (Option.bind mk mt_turn_id)"
  proof (cases "Option.bind mk mt_room")
    case None
    then show ?thesis by (intro exI [of _ t]) (simp add: teller_private_marker_def)
  next
    case (Some r)
    then show ?thesis
      by (intro exI [of _ "t @ '' in '' @ room_name r @ (if room_confidential r then '' (confidential)'' else [])"])
        (simp add: teller_private_marker_def)
  qed
  then show ?thesis by (metis format_turn_prefix starts_with_append)
qed

lemma via_marker_prefix: "via_marker U vis = Some s \<Longrightarrow> starts_with ''[via '' s"
  by (auto simp: via_marker_def attributed_marker_prefix split: list.splits)
    (simp_all add: starts_with_def strip_prefix_def)

lemma also_told_marker_prefix: "also_told_marker vis = Some s \<Longrightarrow> starts_with ''[also told by '' s"
  by (auto simp: also_told_marker_def starts_with_def strip_prefix_def split: list.splits)

section \<open>Properties\<close>

text \<open>
  the marker's register follows the widest visible posture. A set that holds a public endorsement
  is never marked as a confidence or as hearsay (at most as corroborated); one whose widest posture
  is attributed carries at most a \<open>[via ...]\<close> marker; and a set of confidences always carries the
  teller-private marker.
\<close>

theorem marker_register:
  assumes "vis \<noteq> []"
  shows "(if \<exists>a \<in> set vis. ma_posture a = Visibility_Public then
            \<forall>s. entry_attestation_marker U vis = Some s \<longrightarrow> starts_with ''[also told by '' s
          else if \<exists>a \<in> set vis. ma_posture a = Visibility_Attributed then
            \<forall>s. entry_attestation_marker U vis = Some s \<longrightarrow> starts_with ''[via '' s
          else \<exists>s. entry_attestation_marker U vis = Some s
            \<and> starts_with ''[teller-private, told by '' s)"
proof -
  let ?w = "Max (set (map (\<lambda>a. posture_rank (ma_posture a)) vis))"
  consider (pub) "?w = 3" "\<exists>a \<in> set vis. ma_posture a = Visibility_Public"
    | (att) "?w = 2" "\<forall>a \<in> set vis. ma_posture a \<noteq> Visibility_Public"
        "\<exists>a \<in> set vis. ma_posture a = Visibility_Attributed"
    | (conf) "?w = 1" "\<forall>a \<in> set vis. posture_rank (ma_posture a) = 1"
    using widest_cases [OF assms] by blast
  then show ?thesis
  proof cases
    case conf
    from conf(2) assms obtain c where "List.find (\<lambda>a. posture_rank (ma_posture a) = 1) vis = Some c"
      by (cases vis) auto
    moreover have "\<forall>a \<in> set vis. ma_posture a \<noteq> Visibility_Public \<and> ma_posture a \<noteq> Visibility_Attributed"
      using conf(2) by auto
    ultimately show ?thesis
      using assms conf(1) by (simp add: entry_attestation_marker_def teller_private_marker_prefix)
  qed (use assms in \<open>simp_all add: entry_attestation_marker_def also_told_marker_prefix via_marker_prefix\<close>)
qed

theorem marker_register_witness:
  "\<exists>s. entry_attestation_marker show_nat
        [\<lparr>ma_posture = Visibility_PrivateToTeller, ma_teller = ''Erin'', ma_is_agent = False,
          ma_marker = \<lparr>mt_turn_id = Some (TurnId 5), mt_room = None\<rparr>\<rparr>] = Some s
     \<and> starts_with ''[teller-private, told by '' s"
  using marker_register [of "[\<lparr>ma_posture = Visibility_PrivateToTeller, ma_teller = ''Erin'',
      ma_is_agent = False, ma_marker = \<lparr>mt_turn_id = Some (TurnId 5), mt_room = None\<rparr>\<rparr>]" show_nat]
  by simp

end
