(* ===== verification/Graph_Sessions.thy ===== *)
theory Graph_Sessions
  imports Graph_Entries Markers Replay
begin

text \<open>
  The session reads of the projection, \<open>crates/core/src/graph/sessions.rs\<close>: rooms and their locators,
  the participants a platform knows, the sessions of a conversation, and the provenance marker an entry
  carries to an audience, which joins the visibility predicate, the markers and the projection. The graph's
  resolver \<open>class_of\<close> interprets the locale \<open>identity\<close> of \<open>Visibility\<close>.
\<close>

section \<open>Conversations and participants\<close>

definition conversation_for_locator :: "graph \<Rightarrow> conversation_locator \<Rightarrow> conversation_id option" where
  "conversation_for_locator g locator =
     map_option c_id (List.find (\<lambda>c. c_platform c = platform locator \<and> c_scope_path c = scope_path locator)
       (conversations g))"

definition all_conversations :: "graph \<Rightarrow> conversation_view list" where
  "all_conversations g =
     map (\<lambda>c. \<lparr>cv_id = c_id c, cv_locator = \<lparr>platform = c_platform c, scope_path = c_scope_path c\<rparr>,
               cv_context_memory = c_context_memory c\<rparr>) (conversations g)"

definition participant_for :: "graph \<Rightarrow> string \<Rightarrow> string \<Rightarrow> memory_id option" where
  "participant_for g plat user =
     map_option i_memory (List.find (\<lambda>r. i_platform r = plat \<and> i_platform_user_id r = user)
       (participant_identities g))"

record participant_mint =
  pm_name :: memory_name

definition participant_mint_for :: "string \<Rightarrow> string \<Rightarrow> participant_mint" where
  "participant_mint_for plat user =
     \<lparr>pm_name = memory_name_of (with_name Namespace_Person (user @ ''@'' @ plat))\<rparr>"

definition participant_name :: "string \<Rightarrow> string \<Rightarrow> memory_name" where
  "participant_name plat user = pm_name (participant_mint_for plat user)"

definition participant_ids_for :: "graph \<Rightarrow> string \<Rightarrow> string list" where
  "participant_ids_for g plat =
     sort (remdups (map i_platform_user_id (filter (\<lambda>r. i_platform r = plat) (participant_identities g))))"

definition context_for_conversation :: "graph \<Rightarrow> conversation_id \<Rightarrow> memory_id option" where
  "context_for_conversation g c =
     map_option c_context_memory (List.find (\<lambda>r. c_id r = c) (conversations g))"

section \<open>The provenance marker\<close>

definition class_or_self :: "graph \<Rightarrow> memory_id \<Rightarrow> memory_id" where
  "class_or_self g i = (case class_id g i of Some c \<Rightarrow> c | None \<Rightarrow> i)"

definition graph_class_of :: "graph \<Rightarrow> fault class_of" where
  "graph_class_of g i = Inr (class_or_self g i)"

definition teller_display :: "jiff \<Rightarrow> graph \<Rightarrow> teller \<Rightarrow> string outcome" where
  "teller_display J g t =
     (case t of
        Teller_Participant i \<Rightarrow>
          andthen (memory_by_id J g (class_or_self g i)) (\<lambda>m.
            Inr (case m of Some v \<Rightarrow> name_str (mv_name v) | None \<Rightarrow> ''someone''))
      | Teller_Agent \<Rightarrow> Inr ''the agent''
      | Teller_Bootstrap \<Rightarrow> Inr ''genesis'')"

definition room_of :: "jiff \<Rightarrow> graph \<Rightarrow> memory_id \<Rightarrow> marker_room option" where
  "room_of J g context_id =
     (case memory_by_id J g context_id of
        Inr (Some context) \<Rightarrow>
          Some \<lparr>room_name = room_display (name_str (mv_name context)),
                room_confidential = (TagName_Confidential \<in> set (mv_tags context))\<rparr>
      | _ \<Rightarrow> None)"

definition marker_ref :: "jiff \<Rightarrow> graph \<Rightarrow> conversation_ref option \<Rightarrow> marker_turn" where
  "marker_ref J g told_in =
     (case told_in of
        None \<Rightarrow> \<lparr>mt_turn_id = None, mt_room = None\<rparr>
      | Some r \<Rightarrow>
          \<lparr>mt_turn_id = cr_turn r,
           mt_room = Option.bind (context_for_conversation g (cr_conversation r)) (room_of J g)\<rparr>)"

definition resolve_attestation :: "jiff \<Rightarrow> graph \<Rightarrow> attestation_view \<Rightarrow> marker_attestation outcome" where
  "resolve_attestation J g a =
     andthen (teller_display J g (av_teller a)) (\<lambda>name.
       Inr \<lparr>ma_posture = av_posture a, ma_teller = name, ma_is_agent = (av_teller a = Teller_Agent),
            ma_marker = marker_ref J g (av_told_in a)\<rparr>)"

definition with_founding :: "entry_view \<Rightarrow> entry_view" where
  "with_founding e =
     (if vw_attestations e = []
      then e\<lparr>vw_attestations := [founding (vw_told_by e) (vw_told_in e) (vw_asserted_at e) (vw_visibility e)]\<rparr>
      else e)"

definition entry_provenance_marker ::
  "jiff \<Rightarrow> (nat \<Rightarrow> string) \<Rightarrow> graph \<Rightarrow> entry_view \<Rightarrow> memory_view \<Rightarrow> memory_id list
    \<Rightarrow> string option outcome" where
  "entry_provenance_marker J ulid_str g e m present_set =
     andthen (visible_attestations (with_founding e) m present_set (graph_class_of g)) (\<lambda>as.
     andthen (mapM (resolve_attestation J g) as) (\<lambda>resolved.
       Inr (entry_attestation_marker ulid_str resolved)))"

section \<open>Sessions\<close>

definition session_participants_of :: "graph \<Rightarrow> session_id \<Rightarrow> memory_id list" where
  "session_participants_of g s =
     sort (map p_memory (filter (\<lambda>p. p_session p = s) (session_participants g)))"

definition assemble_session :: "jiff \<Rightarrow> graph \<Rightarrow> session_row \<Rightarrow> session_view outcome" where
  "assemble_session J g r =
     andthen (timestamp_column J (s_started_at r) ''started_at'') (\<lambda>t.
       Inr \<lparr>sv_id = s_id r, sv_conversation = s_conversation r, sv_started_at = t,
            sv_seeded_from_turn = s_seeded_from_turn r, sv_brief = s_brief r,
            sv_participants = session_participants_of g (s_id r)\<rparr>)"

definition session_by_id :: "jiff \<Rightarrow> graph \<Rightarrow> session_id \<Rightarrow> session_view option outcome" where
  "session_by_id J g s = opt_column (assemble_session J g) (List.find (\<lambda>r. s_id r = s) (sessions g))"

definition sessions_in :: "jiff \<Rightarrow> graph \<Rightarrow> conversation_id \<Rightarrow> session_view list outcome" where
  "sessions_in J g c =
     mapM (assemble_session J g) (sort_key s_seq (filter (\<lambda>r. s_conversation r = c) (sessions g)))"

definition open_session_row :: "jiff \<Rightarrow> session_row \<Rightarrow> open_session_view outcome" where
  "open_session_row J r =
     andthen (timestamp_column J (s_started_at r) ''started_at'') (\<lambda>t.
       Inr \<lparr>ov_id = s_id r, ov_brief = s_brief r, ov_started_at = t, ov_start_seq = s_seq r,
            ov_seeded = (s_seeded_from_turn r \<noteq> None)\<rparr>)"

text \<open>\<open>ORDER BY seq DESC LIMIT 1\<close>: a row of the greatest \<open>seq\<close>.\<close>

definition first_row :: "'a list \<Rightarrow> 'a option" where
  "first_row xs = (case xs of [] \<Rightarrow> None | x # _ \<Rightarrow> Some x)"

definition latest_session :: "session_row list \<Rightarrow> session_row option" where
  "latest_session rows = first_row (sort_key (\<lambda>r. - int (s_seq r)) rows)"

definition last_open_session :: "jiff \<Rightarrow> graph \<Rightarrow> conversation_id \<Rightarrow> open_session_view option outcome" where
  "last_open_session J g c =
     opt_column (open_session_row J)
       (latest_session (filter (\<lambda>r. s_conversation r = c \<and> \<not> s_ended r) (sessions g)))"

definition last_session_start :: "graph \<Rightarrow> conversation_id \<Rightarrow> seq option" where
  "last_session_start g c =
     map_option s_seq (latest_session (filter (\<lambda>r. s_conversation r = c) (sessions g)))"

definition has_earlier_session :: "graph \<Rightarrow> conversation_id \<Rightarrow> session_id \<Rightarrow> bool" where
  "has_earlier_session g c s =
     (case List.find (\<lambda>r. s_id r = s) (sessions g) of
        None \<Rightarrow> False
      | Some this \<Rightarrow> (\<exists>r \<in> set (sessions g). s_conversation r = c \<and> s_seq r < s_seq this))"

definition open_sessions :: "jiff \<Rightarrow> graph \<Rightarrow> (conversation_id \<times> open_session_view) list outcome" where
  "open_sessions J g =
     mapM (\<lambda>r. andthen (open_session_row J r) (\<lambda>v. Inr (s_conversation r, v)))
       (sort_key s_seq (filter (\<lambda>r. \<not> s_ended r
          \<and> s_seq r = Max (s_seq ` {x \<in> set (sessions g). s_conversation x = s_conversation r \<and> \<not> s_ended x}))
          (sessions g)))"

definition session_is_open :: "graph \<Rightarrow> session_id \<Rightarrow> bool" where
  "session_is_open g s \<longleftrightarrow> (\<exists>r \<in> set (sessions g). s_id r = s \<and> \<not> s_ended r)"

section \<open>The resolver of the graph\<close>

interpretation graph_identity: identity "graph_class_of g" "class_or_self g" for g
  by unfold_locales (simp add: graph_class_of_def)

lemma class_or_self_live: "live_row g i = Some r \<Longrightarrow> class_or_self g i = m_class_id r"
  by (simp add: class_or_self_def class_id_def)

lemma class_or_self_linked:
  assumes "keys_ok g" "classes_current g" "memory_is_live g i" "memory_is_live g j"
  shows "class_or_self g i = class_or_self g j \<longleftrightarrow> (i, j) \<in> linked (same_as_edges g)"
proof -
  obtain r s where rs: "live_row g i = Some r" "live_row g j = Some s"
    using assms(3,4) live_row_iff by blast
  with live_row_Some [OF rs(1)] live_row_Some [OF rs(2)] class_iff_linked [OF assms(1,2)]
  show ?thesis by (auto simp: class_or_self_live)
qed

lemma class_or_self_apart:
  assumes "keys_ok g" "classes_current g" "memory_is_live g i" "(j, i) \<notin> linked (same_as_edges g)"
  shows "class_or_self g j \<noteq> class_or_self g i"
proof (cases "memory_is_live g j")
  case True
  with class_or_self_linked [OF assms(1,2) True assms(3)] assms(4) show ?thesis by simp
next
  case False
  then have "live_row g j = None" by (metis live_row_iff option.exhaust)
  then have j: "class_or_self g j = j" by (simp add: class_or_self_def class_id_def)
  obtain r where r: "live_row g i = Some r" using assms(3) live_row_iff by blast
  then have "class_or_self g i = m_class_id r" by (simp add: class_or_self_def class_id_def)
  moreover have "is_primary_of g i (m_class_id r)"
    using assms(2) live_row_Some [OF r] by (auto simp: classes_current_def)
  ultimately have "(i, class_or_self g i) \<in> linked (same_as_edges g)" by (auto simp: is_primary_of_def)
  with assms(4) j linked_sym show ?thesis by metis
qed

section \<open>Sessions keep the order of the log\<close>

definition sessions_ordered :: "seq \<Rightarrow> graph \<Rightarrow> bool" where
  "sessions_ordered n g \<longleftrightarrow> distinct (map s_seq (sessions g)) \<and> (\<forall>s \<in> set (sessions g). s_seq s \<le> n)"

lemma sessions_statements [simp]:
  "sessions (update_memories P f g) = sessions g" "sessions (update_entries Q h g) = sessions g"
  "sessions (update_attestations R k g) = sessions g" "sessions (update_fts i fr g) = sessions g"
  "sessions (set_retracted e rs g) = sessions g" "sessions (delete_link lk g) = sessions g"
  "sessions (upsert_relation rr g) = sessions g"
  by (simp_all add: update_memories_def update_entries_def update_attestations_def update_fts_def
      set_retracted_def delete_link_def upsert_relation_def)

lemma sessions_inserts:
  "insert_memory mr g = Inr g' \<Longrightarrow> sessions g' = sessions g"
  "insert_entry er g = Inr g' \<Longrightarrow> sessions g' = sessions g"
  "insert_attestation ar g = Inr g' \<Longrightarrow> sessions g' = sessions g"
  "upsert_attestation ar g = Inr g' \<Longrightarrow> sessions g' = sessions g"
  "set_superseded e e' g = Inr g' \<Longrightarrow> sessions g' = sessions g"
  "rename_memory i nm n g = Inr g' \<Longrightarrow> sessions g' = sessions g"
  "replace_alias nm i g = Inr g' \<Longrightarrow> sessions g' = sessions g"
  "replace_dispute dr g = Inr g' \<Longrightarrow> sessions g' = sessions g"
  "insert_tag tr g = Inr g' \<Longrightarrow> sessions g' = sessions g"
  "insert_or_ignore_memory_tag i nm g = Inr g' \<Longrightarrow> sessions g' = sessions g"
  "upsert_link lr g = Inr g' \<Longrightarrow> sessions g' = sessions g"
  "insert_or_ignore_conversation cr g = Inr g' \<Longrightarrow> sessions g' = sessions g"
  "insert_or_ignore_participant pr g = Inr g' \<Longrightarrow> sessions g' = sessions g"
  "insert_or_ignore_identity ir g = Inr g' \<Longrightarrow> sessions g' = sessions g"
  "recompute_classes g = Inr g' \<Longrightarrow> sessions g' = sessions g"
  "recompute_if_same_as nm g = Inr g' \<Longrightarrow> sessions g' = sessions g"
  by (auto simp: insert_memory_def insert_entry_def insert_attestation_def upsert_attestation_def
      set_superseded_def rename_memory_def replace_alias_def replace_dispute_def insert_tag_def
      insert_or_ignore_memory_tag_def upsert_link_def insert_or_ignore_conversation_def
      insert_or_ignore_participant_def insert_or_ignore_identity_def recompute_if_same_as_def
      andthen_Inr_iff split: if_splits dest!: recompute_classes_shape)

lemma sessions_foldM:
  assumes "foldM f xs g = Inr g'" "\<And>x h h'. f x h = Inr h' \<Longrightarrow> sessions h' = sessions h"
  shows "sessions g' = sessions g"
  by (rule foldM_invariant [where P = "\<lambda>h. sessions h = sessions g", OF assms(1)])
    (auto dest: assms(2))

lemma sessions_loops:
  "foldM (\<lambda>x. set_superseded x e) es g = Inr g' \<Longrightarrow> sessions g' = sessions g"
  "foldM (\<lambda>x. replace_dispute (D x)) es g = Inr g' \<Longrightarrow> sessions g' = sessions g"
  "foldM (\<lambda>x. insert_or_ignore_participant (R x)) ps g = Inr g' \<Longrightarrow> sessions g' = sessions g"
  by (erule sessions_foldM, erule sessions_inserts)+

lemma sessions_described [simp]:
  "sessions (fold (\<lambda>i. update_memories (P i) (f i)) ids g) = sessions g"
  by (induction ids arbitrary: g) simp_all

lemma sessions_arms:
  "apply_memory_created n t i nm g = Inr g' \<Longrightarrow> sessions g' = sessions g"
  "apply_memory_renamed n i old new g = Inr g' \<Longrightarrow> sessions g' = sessions g"
  "apply_content_appended J n src i e t occ text tb ti v g = Inr g' \<Longrightarrow> sessions g' = sessions g"
  "apply_entries_consolidated es e g = Inr g' \<Longrightarrow> sessions g' = sessions g"
  "apply_temporal_resolved J e occ g = Inr g' \<Longrightarrow> sessions g' = sessions g"
  "apply_belief_arbitrated i es res g = Inr g' \<Longrightarrow> sessions g' = sessions g"
  "apply_link_created t i j rn ls tbo ti v g = Inr g' \<Longrightarrow> sessions g' = sessions g"
  "apply_link_removed i j rn g = Inr g' \<Longrightarrow> sessions g' = sessions g"
  "apply_primary_designated i d g = Inr g' \<Longrightarrow> sessions g' = sessions g"
  by (auto simp: apply_memory_created_def apply_memory_renamed_def apply_content_appended_def
      apply_entries_consolidated_def apply_temporal_resolved_def apply_belief_arbitrated_def
      apply_link_created_def apply_link_removed_def apply_primary_designated_def Let_def andthen_Inr_iff
      split: if_splits prod.splits dest!: sessions_inserts sessions_loops)

lemma sessions_started:
  assumes "apply_session_started n c s ps t seeded brief g = Inr g'"
  shows "s \<notin> s_id ` set (sessions g) \<and> c \<in> c_id ` set (conversations g) \<and> sessions g' = sessions g @
    [\<lparr>s_id = s, s_conversation = c, s_started_at = t, s_seeded_from_turn = seeded, s_brief = brief,
      s_ended = False, s_end_cause = None, s_seq = n\<rparr>]"
  using assms
  by (auto simp: apply_session_started_def insert_session_def andthen_Inr_iff
      dest!: sessions_loops)

text \<open>An event adds at most one session row, at its own position; the other rows keep theirs.\<close>

lemma sessions_step:
  assumes "apply_payload J ev g = Inr g'"
  shows "map s_seq (sessions g') = map s_seq (sessions g)
    \<or> (\<exists>P. sessions g' = filter P (sessions g))
    \<or> map s_seq (sessions g') = map s_seq (sessions g) @ [ev_seq ev]"
proof (cases "ev_payload ev")
  case (SessionStarted c s ps t seeded brief x y)
  with assms show ?thesis by (auto simp: apply_payload_def Let_def dest!: sessions_started)
next
  case (MemoryDeleted i)
  with assms have "\<exists>P. sessions g' = filter P (sessions g)"
    by (auto simp: apply_payload_def apply_memory_deleted_def delete_room_def Let_def)
  then show ?thesis by blast
qed (use assms in \<open>auto simp: apply_payload_def Let_def apply_genesis_completed_def apply_describe_pass_def
  apply_entry_retracted_def apply_entry_attested_def apply_attestation_retracted_def
  apply_description_mirrored_def apply_job_fired_def apply_item_surfaced_def
  apply_description_regenerated_def apply_volatility_set_def apply_tag_created_def
  apply_tag_description_changed_def apply_tag_applied_def apply_tag_removed_def
  apply_link_type_registered_def apply_conversation_started_def apply_conversation_ended_def
  apply_session_ended_def apply_participant_joined_def apply_participant_identified_def
  update_where_def
  split: if_splits dest!: sessions_inserts sessions_arms\<close>)

lemma sessions_ordered_step:
  assumes "sessions_ordered n g" "n < ev_seq ev" "apply_event J ev g = Inr g'"
  shows "sessions_ordered (ev_seq ev) g'"
proof -
  from assms(3) obtain g1 where g1: "apply_payload J ev g = Inr g1" "sessions g' = sessions g1"
    by (auto simp: apply_event_def andthen_Inr_iff)
  have le: "sessions_ordered m h \<longleftrightarrow> distinct xs \<and> (\<forall>x \<in> set xs. x \<le> m)" if "map s_seq (sessions h) = xs" for m h xs
    using that by (auto simp: sessions_ordered_def)
  note old = assms(1) [unfolded le [OF refl]]
  consider "map s_seq (sessions g') = map s_seq (sessions g)" | P where "sessions g' = filter P (sessions g)"
    | "map s_seq (sessions g') = map s_seq (sessions g) @ [ev_seq ev]"
    using sessions_step [OF g1(1)] g1(2) by auto
  then show ?thesis
  proof cases
    case 2
    then show ?thesis using assms(1,2) by (auto simp: sessions_ordered_def distinct_map_filter)
  next
    case 3
    have "ev_seq ev \<notin> set (map s_seq (sessions g))" using old assms(2) by fastforce
    then show ?thesis using old assms(2) unfolding le [OF 3] by (force simp del: set_map)
  qed (use old assms(2) in \<open>force simp del: set_map simp: le\<close>)
qed

lemma sessions_ordered_replay:
  assumes "foldM (apply_event J) evs empty_graph = Inr g" "consecutive evs"
  shows "sessions_ordered (length evs) g"
  using assms
proof (induction evs arbitrary: g rule: rev_induct)
  case (snoc ev evs)
  from snoc.prems(1) obtain g1 where g1: "foldM (apply_event J) evs empty_graph = Inr g1"
    "apply_event J ev g1 = Inr g" by (auto simp: foldM_append andthen_Inr_iff)
  have "consecutive evs" "ev_seq ev = Suc (length evs)"
    using consecutive_take [OF snoc.prems(2), of "length evs"]
      consecutive_nth [OF snoc.prems(2), of "length evs"] by simp_all
  with sessions_ordered_step [OF snoc.IH [OF g1(1)] _ g1(2)] show ?case by simp
qed (simp add: sessions_ordered_def empty_graph_def)

lemma latest_session_spec:
  assumes "distinct (map s_seq rows)"
  shows "latest_session rows = Some r \<longleftrightarrow> r \<in> set rows \<and> s_seq r = Max (s_seq ` set rows)"
proof -
  let ?k = "\<lambda>r. - int (s_seq r)"
  have mem: "set (sort_key ?k rows) = set rows" by simp
  show ?thesis
  proof (cases "sort_key ?k rows")
    case (Cons x xs)
    have "sorted (map ?k (x # xs))" using sorted_sort_key [of ?k rows] by (simp only: Cons)
    then have "\<forall>y \<in> set rows. s_seq y \<le> s_seq x" using mem by (auto simp: Cons)
    then have "s_seq x = Max (s_seq ` set rows)"
      using mem by (intro Max_eqI [symmetric]) (auto simp: Cons)
    moreover have "r = x" if "r \<in> set rows" "s_seq r = s_seq x"
      using assms that mem by (auto simp: distinct_map Cons dest: inj_onD)
    ultimately show ?thesis using mem by (auto simp: latest_session_def first_row_def Cons)
  next
    case Nil
    with mem show ?thesis by (simp add: latest_session_def first_row_def)
  qed
qed

lemma mapM_Inr_mem: "mapM f xs = Inr ys \<Longrightarrow> y \<in> set ys \<longleftrightarrow> (\<exists>x \<in> set xs. f x = Inr y)"
  by (induction xs arbitrary: ys) (auto simp: andthen_Inr_iff)

lemma opt_column_Some: "opt_column f v = Inr (Some b) \<longleftrightarrow> (\<exists>a. v = Some a \<and> f a = Inr b)"
  by (auto simp: opt_column_def andthen_Inr_iff split: option.splits)

lemma participants_inserted:
  assumes "foldM (\<lambda>p. insert_or_ignore_participant \<lparr>p_session = s, p_memory = p, p_at_turn = None\<rparr>) ps g = Inr g'"
    and "distinct (map p_memory (filter (\<lambda>p. p_session p = s) (session_participants g)))"
  shows "distinct (map p_memory (filter (\<lambda>p. p_session p = s) (session_participants g')))
    \<and> set (map p_memory (filter (\<lambda>p. p_session p = s) (session_participants g'))) =
      set (map p_memory (filter (\<lambda>p. p_session p = s) (session_participants g))) \<union> set ps"
  using assms
proof (induction ps arbitrary: g)
  case (Cons p ps)
  from Cons.prems(1) obtain g1 where g1:
    "insert_or_ignore_participant \<lparr>p_session = s, p_memory = p, p_at_turn = None\<rparr> g = Inr g1"
    "foldM (\<lambda>p. insert_or_ignore_participant \<lparr>p_session = s, p_memory = p, p_at_turn = None\<rparr>) ps g1 = Inr g'"
    by (auto simp: andthen_Inr_iff)
  let ?ms = "\<lambda>h. map p_memory (filter (\<lambda>p. p_session p = s) (session_participants h))"
  have "(s, p) \<in> (\<lambda>x. (p_session x, p_memory x)) ` set (session_participants g) \<longleftrightarrow> p \<in> set (?ms g)"
    by (auto simp: image_iff)
  then have "p \<in> set (?ms g) \<and> ?ms g1 = ?ms g \<or> p \<notin> set (?ms g) \<and> ?ms g1 = ?ms g @ [p]"
    using g1(1) by (simp add: insert_or_ignore_participant_def andthen_Inr_iff del: set_map split: if_splits) auto
  then have "distinct (?ms g1)" "set (?ms g1) = insert p (set (?ms g))"
    using Cons.prems(2) by (auto simp del: set_map)
  with Cons.IH [OF g1(2)] show ?case by simp
qed simp

lemma session_started_participants:
  assumes "apply_session_started n c s ps t seeded brief g = Inr g'"
    and "set (map p_memory (filter (\<lambda>p. p_session p = s) (session_participants g))) = {}"
  shows "session_participants_of g' s = sort (remdups ps)"
proof -
  let ?ms = "\<lambda>h. map p_memory (filter (\<lambda>p. p_session p = s) (session_participants h))"
  from assms(1) obtain g1 where
    "insert_session \<lparr>s_id = s, s_conversation = c, s_started_at = t, s_seeded_from_turn = seeded, s_brief = brief,
      s_ended = False, s_end_cause = None, s_seq = n\<rparr> g = Inr g1" and g2:
    "foldM (\<lambda>p. insert_or_ignore_participant \<lparr>p_session = s, p_memory = p, p_at_turn = None\<rparr>) ps g1 = Inr g'"
    unfolding apply_session_started_def andthen_Inr_iff by blast
  then have g1: "session_participants g1 = session_participants g"
    by (auto simp: insert_session_def andthen_Inr_iff)
  have "?ms g = []" using assms(2) by simp
  then have "distinct (?ms g')" "set (?ms g') = set ps"
    using participants_inserted [OF g2] unfolding g1 by simp_all
  then show ?thesis
    unfolding session_participants_of_def
    by (intro sorted_distinct_set_unique) (simp_all del: set_map)
qed

lemma session_ended_open:
  "apply_session_ended s cause g = Inr g' \<Longrightarrow> session_is_open g' s' \<longleftrightarrow> s' \<noteq> s \<and> session_is_open g s'"
proof -
  let ?f = "\<lambda>r. if s_id r = s then r\<lparr>s_ended := True, s_end_cause := cause\<rparr> else r"
  assume "apply_session_ended s cause g = Inr g'"
  then have "set (sessions g') = ?f ` set (sessions g)" by (auto simp: apply_session_ended_def update_where_def)
  moreover have "s_id (?f r) = s' \<and> \<not> s_ended (?f r) \<longleftrightarrow> s' \<noteq> s \<and> s_id r = s' \<and> \<not> s_ended r" for r :: session_row
    by auto
  ultimately show ?thesis unfolding session_is_open_def by (simp only: bex_simps)
qed

lemma latest_session_snoc:
  assumes "distinct (map s_seq rows)" "\<forall>x \<in> set rows. s_seq x < s_seq r"
  shows "latest_session (filter P (rows @ [r])) = (if P r then Some r else latest_session (filter P rows))"
proof (cases "P r")
  case True
  have "s_seq r \<notin> s_seq ` set rows" using assms(2) by (metis imageE less_irrefl)
  then have "distinct (map s_seq (rows @ [r]))" using assms(1) by simp
  then have d: "distinct (map s_seq (filter P (rows @ [r])))" by (rule distinct_map_filter)
  have le: "s_seq x \<le> s_seq r" if "x \<in> set (filter P (rows @ [r]))" for x
    using that assms(2) by (cases "x = r") (auto simp: less_imp_le split: if_splits)
  have "s_seq r = Max (s_seq ` set (filter P (rows @ [r])))"
    by (rule Max_eqI [symmetric], simp, use le in blast, rule imageI, simp add: True)
  then have "latest_session (filter P (rows @ [r])) = Some r"
    using True by (intro iffD2 [OF latest_session_spec [OF d]]) simp
  then show ?thesis using True by simp
qed simp

lemma find_Some_mem: "List.find P xs = Some x \<Longrightarrow> x \<in> set xs \<and> P x"
  by (auto simp: find_Some_iff)

lemma find_key:
  "distinct (map k xs) \<Longrightarrow> List.find (\<lambda>x. k x = a) xs = Some x \<longleftrightarrow> x \<in> set xs \<and> k x = a"
  by (induction xs) auto

lemma find_filter_key:
  assumes "distinct (map k xs)"
  shows "List.find (\<lambda>x. k x = a) (filter P xs) =
    (case List.find (\<lambda>x. k x = a) xs of Some x \<Rightarrow> if P x then Some x else None | None \<Rightarrow> None)"
  using assms by (induction xs) (auto simp: find_None_iff split: option.splits dest!: find_Some_mem)

lemma mapM_cong: "(\<And>x. x \<in> set xs \<Longrightarrow> f x = g x) \<Longrightarrow> mapM f xs = mapM g xs"
  by (induction xs) auto

lemma mapM_fst:
  "mapM (\<lambda>r. andthen (f r) (\<lambda>v. Inr (k r, v))) rows = Inr os \<Longrightarrow> map fst os = map k rows"
  by (induction rows arbitrary: os) (auto simp: andthen_Inr_iff)

text \<open>What a deletion leaves.\<close>

lemma deleted_room_tables:
  assumes "apply_memory_deleted i g = Inr g'"
  shows "conversations g' = filter (\<lambda>c. c_context_memory c \<noteq> i) (conversations g)"
    "sessions g' = filter (\<lambda>s. s_conversation s \<notin> room_conversations i g) (sessions g)"
    "session_participants g' = filter (\<lambda>p. p_session p \<notin> room_sessions i g) (session_participants g)"
    "memories g' = memories (update_memories (\<lambda>r. m_id r = i) (\<lambda>r. r\<lparr>m_deleted := True\<rparr>) g)"
  using assms
  by (auto simp: apply_memory_deleted_def delete_room_def Let_def room_conversations_def room_sessions_def
      update_memories_def)

lemma other_room_session:
  assumes "distinct (map s_id (sessions g))" "apply_memory_deleted i g = Inr g'"
    and "r \<in> set (sessions g)" "s_conversation r \<notin> room_conversations i g"
  shows "assemble_session J g' r = assemble_session J g r"
proof -
  have "s_id r \<notin> room_sessions i g"
  proof
    assume "s_id r \<in> room_sessions i g"
    then obtain s :: session_row where s: "s \<in> set (sessions g)" "s_conversation s \<in> room_conversations i g"
      "s_id s = s_id r" unfolding room_sessions_def by auto
    have "inj_on s_id (set (sessions g))" using assms(1) by (simp add: distinct_map)
    from inj_onD [OF this s(3,1) assms(3)] have "s = r" .
    with s(2) assms(4) show False by simp
  qed
  then have "filter (\<lambda>p. p_session p = s_id r) (session_participants g') =
      filter (\<lambda>p. p_session p = s_id r) (session_participants g)"
    unfolding deleted_room_tables [OF assms(2)] filter_filter by (intro filter_cong [OF refl]) fastforce
  then show ?thesis by (simp add: assemble_session_def session_participants_of_def)
qed

lemma deleted_memory_not_found:
  assumes "apply_memory_deleted i g = Inr g'"
  shows "memory_by_id J g' i = Inr None"
proof -
  let ?f = "\<lambda>r. if m_id r = i then r\<lparr>m_deleted := True\<rparr> else r"
  have rows: "set (memories g') = ?f ` set (memories g)"
    by (simp add: deleted_room_tables [OF assms] update_memories_def update_where_def)
  have "m_id r \<noteq> i \<or> m_deleted r" if r: "r \<in> set (memories g')" for r
  proof -
    from r obtain r0 where "r = ?f r0" unfolding rows by (rule imageE)
    then show ?thesis by simp
  qed
  then have "List.find (\<lambda>r. m_id r = i \<and> \<not> m_deleted r) (memories g') = None" by (simp add: find_None_iff)
  then show ?thesis by (simp add: memory_by_id_def fetch_memory_def opt_column_def)
qed

section \<open>Properties\<close>

definition shown_attestations ::
  "graph \<Rightarrow> memory_id list \<Rightarrow> memory_view \<Rightarrow> entry_view \<Rightarrow> attestation_view list" where
  "shown_attestations g P m e =
     filter (\<lambda>a. live_attestation a
       \<and> clears (class_or_self g) P (subject_list m) (av_posture a) (av_teller a)) (vw_attestations e)"

text \<open>
  the marker leaves no residue of a hidden teller. The marker an entry carries to an audience is
  the one it would carry if the attestations that are withdrawn or do not clear that audience had never been made, and
  an entry with none left carries no marker, whoever told it in whatever room.\<close>

theorem marker_leaves_no_residue:
  assumes "vw_attestations e \<noteq> []"
  shows "entry_provenance_marker J U g e m P =
    (if shown_attestations g P m e = [] then Inr None
     else entry_provenance_marker J U g (e\<lparr>vw_attestations := shown_attestations g P m e\<rparr>) m P)"
proof (cases "shown_attestations g P m e = []")
  case True
  then show ?thesis using assms
    by (auto simp: entry_provenance_marker_def with_founding_def graph_identity.visible_attestations_spec
        shown_attestations_def entry_attestation_marker_def)
next
  case False
  then show ?thesis using assms
    by (simp add: entry_provenance_marker_def with_founding_def graph_identity.visible_attestations_spec
        shown_attestations_def)
qed

theorem marker_leaves_no_residue_witness:
  "let a = founding (Teller_Participant (MemoryId 3)) None 0 Visibility_PrivateToTeller;
       b = founding Teller_Agent None 0 Visibility_Public; m = sample_memory in
    entry_provenance_marker gregorian show_nat sample_graph (sample_entry Visibility_PrivateToTeller [a, b]) m [MemoryId 2]
      = entry_provenance_marker gregorian show_nat sample_graph (sample_entry Visibility_PrivateToTeller [b]) m [MemoryId 2]"
proof -
  let ?a = "founding (Teller_Participant (MemoryId 3)) None 0 Visibility_PrivateToTeller"
  let ?b = "founding Teller_Agent None 0 Visibility_Public"
  let ?e = "sample_entry Visibility_PrivateToTeller [?a, ?b]"
  have ne: "vw_attestations ?e \<noteq> []" by (simp add: sample_entry_def)
  have sh: "shown_attestations sample_graph [MemoryId 2] sample_memory ?e = [?b]" by code_simp
  from marker_leaves_no_residue [OF ne, of gregorian show_nat sample_graph sample_memory "[MemoryId 2]"]
  show ?thesis unfolding sh by (simp add: Let_def sample_entry_def)
qed

text \<open>
  C4: a confidence stays hidden from every stub of its subject. In every graph a log folds to, an entry about a live \<open>person/\<close>
  memory whose attestations are all teller-gated, none of them told by a stub of that person (what people tell of themselves is
  theirs to hear), is hidden from every audience that holds a live memory joined to the person by a path of \<open>same_as\<close> links, whoever
  else is present.
\<close>

theorem confidence_hidden_from_every_stub:
  assumes "foldM (apply_event J) evs empty_graph = Inr g"
    and "memory_by_id J g i = Inr (Some m)" "mv_name m = memory_name_of (with_name Namespace_Person n)"
    and "p \<in> set P" "memory_is_live g p" "(p, i) \<in> linked (same_as_edges g)"
    and "\<forall>a \<in> set (effective_attestations e). \<not> open_posture (av_posture a)"
    and "\<forall>a \<in> set (effective_attestations e). \<forall>j. av_teller a = Teller_Participant j \<longrightarrow> (j, i) \<notin> linked (same_as_edges g)"
  shows "visible e m P (graph_class_of g) = Inr False"
proof -
  have k: "keys_ok g" "classes_current g"
    using keys.replay_from_empty [OF assms(1)] identity_inv.replay_from_empty [OF assms(1)]
    by (simp_all add: identity_ok_def)
  from assms(2) have i: "memory_is_live g i" "mv_id m = i"
    by (auto simp: memory_by_id_def fetch_memory_def opt_column_def assemble_memory_def andthen_Inr_iff
        find_Some_iff memory_is_live_def split: option.splits)
  have "class_or_self g p = class_or_self g (mv_id m)"
    using class_or_self_linked [OF k assms(5) i(1)] assms(6) i(2) by simp
  then have "guarded (class_or_self g) P (subject_list m) (av_teller a)"
    if "a \<in> set (effective_attestations e)" for a
    using assms(8) that class_or_self_apart [OF k i(1)] i(2) assms(4)
    by (cases "av_teller a") (auto simp: guarded_def subject_list_person [OF assms(3)] in_room_def intro: rev_image_eqI)
  then have "\<not> clears (class_or_self g) P (subject_list m) (av_posture a) (av_teller a)"
    if "a \<in> set (effective_attestations e)" for a
    using assms(7) that by (simp add: guarded_blocks)
  moreover have "hd (effective_attestations e) \<in> set (effective_attestations e)"
    by (simp add: effective_attestations_def)
  ultimately show ?thesis by (auto simp: graph_identity.visible_spec Let_def)
qed

text \<open>In the sample log, memory 2 is a stub of person 1 and bob, memory 3, tells.\<close>

theorem confidence_hidden_from_every_stub_witness:
  "\<exists>m. memory_by_id gregorian sample_graph (MemoryId 1) = Inr (Some m)
    \<and> visible ((sample_entry Visibility_PrivateToTeller [])\<lparr>vw_told_by := Teller_Participant (MemoryId 3)\<rparr>) m
        [MemoryId 3, MemoryId 2] (graph_class_of sample_graph) = Inr False"
proof -
  let ?e = "(sample_entry Visibility_PrivateToTeller [])\<lparr>vw_told_by := Teller_Participant (MemoryId 3)\<rparr>"
  have "case memory_by_id gregorian sample_graph (MemoryId 1) of
      Inr (Some m) \<Rightarrow> mv_name m = memory_name_of (with_name Namespace_Person ''ada'') | _ \<Rightarrow> False"
    by code_simp
  then obtain m where m: "memory_by_id gregorian sample_graph (MemoryId 1) = Inr (Some m)"
    "mv_name m = memory_name_of (with_name Namespace_Person ''ada'')"
    by (auto split: sum.splits option.splits)
  have k: "keys_ok sample_graph" "classes_current sample_graph"
    using keys.replay_from_empty [OF sample_replay] identity_inv.replay_from_empty [OF sample_replay]
    by (simp_all add: identity_ok_def)
  have l: "memory_is_live sample_graph (MemoryId 1)" "memory_is_live sample_graph (MemoryId 2)"
    "memory_is_live sample_graph (MemoryId 3)" by code_simp+
  have c: "class_or_self sample_graph (MemoryId 2) = class_or_self sample_graph (MemoryId 1)"
    "class_or_self sample_graph (MemoryId 3) \<noteq> class_or_self sample_graph (MemoryId 1)" by code_simp+
  have "visible ?e m [MemoryId 3, MemoryId 2] (graph_class_of sample_graph) = Inr False"
    by (rule confidence_hidden_from_every_stub [OF sample_replay m, of "MemoryId 2"])
      (use c l class_or_self_linked [OF k] in \<open>auto simp: sample_entry_def effective_attestations_def
        founding_attestation_def founding_def open_posture_def\<close>)
  with m(1) show ?thesis by blast
qed

text \<open>
  the two session reads agree. In a graph folded from a log, \<open>open_sessions\<close> lists each conversation at most once, and
  lists a conversation with a session exactly when \<open>last_open_session\<close> finds that session for it; so the idle
  sweep and the recovery of a conversation look at the same session.\<close>

theorem open_sessions_agree:
  assumes "foldM (apply_event J) evs empty_graph = Inr g" "consecutive evs" "open_sessions J g = Inr os"
  shows "distinct (map fst os) \<and> ((c, v) \<in> set os \<longleftrightarrow> last_open_session J g c = Inr (Some v))"
proof -
  let ?open = "\<lambda>c. filter (\<lambda>r. s_conversation r = c \<and> \<not> s_ended r) (sessions g)"
  let ?top = "\<lambda>r. \<not> s_ended r \<and> s_seq r = Max (s_seq ` set (?open (s_conversation r)))"
  let ?R = "sort_key s_seq (filter ?top (sessions g))"
  have d: "distinct (map s_seq (sessions g))"
    using sessions_ordered_replay [OF assms(1,2)] by (simp add: sessions_ordered_def)
  have os: "mapM (\<lambda>r. andthen (open_session_row J r) (\<lambda>v. Inr (s_conversation r, v))) ?R = Inr os"
    using assms(3) by (simp add: open_sessions_def)
  have "inj_on s_conversation (set ?R)"
  proof (rule inj_onI)
    fix x y assume xy: "x \<in> set ?R" "y \<in> set ?R" "s_conversation x = s_conversation y"
    then have "s_seq x = s_seq y" "x \<in> set (sessions g)" "y \<in> set (sessions g)" by auto
    with d show "x = y" by (auto simp: distinct_map dest: inj_onD)
  qed
  moreover have "distinct ?R" using d by (simp add: distinct_map)
  ultimately have "distinct (map s_conversation ?R)" by (simp add: distinct_map)
  then have "distinct (map fst os)" using mapM_fst [OF os] by simp
  moreover have "latest_session (?open c) = Some r \<longleftrightarrow> r \<in> set ?R \<and> s_conversation r = c" for r
    using latest_session_spec [of "?open c" r] d by (auto simp: distinct_map_filter)
  then have "last_open_session J g c = Inr (Some v) \<longleftrightarrow>
      (\<exists>r \<in> set ?R. s_conversation r = c \<and> open_session_row J r = Inr v)"
    by (auto simp: last_open_session_def opt_column_Some)
  then have "(c, v) \<in> set os \<longleftrightarrow> last_open_session J g c = Inr (Some v)"
    unfolding mapM_Inr_mem [OF os] by (auto simp: andthen_Inr_iff)
  ultimately show ?thesis by simp
qed

theorem open_sessions_agree_witness:
  "\<exists>v. open_sessions gregorian sample_graph = Inr [(ConversationId 20, v)]
    \<and> last_open_session gregorian sample_graph (ConversationId 20) = Inr (Some v)"
proof -
  have "case open_sessions gregorian sample_graph of Inr [(c, v)] \<Rightarrow> c = ConversationId 20 | _ \<Rightarrow> False"
    by code_simp
  then obtain v where v: "open_sessions gregorian sample_graph = Inr [(ConversationId 20, v)]"
    by (auto split: sum.splits list.splits)
  have "consecutive sample_log" by code_simp
  from open_sessions_agree [OF sample_replay this v, of "ConversationId 20" v] v show ?thesis by auto
qed

text \<open>
  a session reads back as it was started, and ends once. A \<open>SessionStarted\<close> at the next position of
  the log makes the session open, with the participants it named and no others, the latest of its conversation; the
  \<open>SessionEnded\<close> of it closes it and leaves every other session as open as it was.\<close>

theorem session_round_trip:
  assumes "foldM (apply_event J) evs empty_graph = Inr g" "consecutive evs"
    and "apply_session_started (Suc (length evs)) c s ps t seeded brief g = Inr g'" "try_from_millis J t = Some t"
    and "apply_session_ended s cause g' = Inr g''"
  shows "session_by_id J g' s = Inr (Some \<lparr>sv_id = s, sv_conversation = c, sv_started_at = t,
      sv_seeded_from_turn = seeded, sv_brief = brief, sv_participants = sort (remdups ps)\<rparr>)
    \<and> last_session_start g' c = Some (Suc (length evs)) \<and> session_is_open g' s
    \<and> \<not> session_is_open g'' s \<and> (s' \<noteq> s \<longrightarrow> session_is_open g'' s' = session_is_open g s')"
proof -
  let ?row = "\<lparr>s_id = s, s_conversation = c, s_started_at = t, s_seeded_from_turn = seeded, s_brief = brief,
      s_ended = False, s_end_cause = None, s_seq = Suc (length evs)\<rparr>"
  have new: "s \<notin> s_id ` set (sessions g)" and rows: "sessions g' = sessions g @ [?row]"
    using sessions_started [OF assms(3)] by auto
  have "set (map p_memory (filter (\<lambda>p. p_session p = s) (session_participants g))) = {}"
    using refs.replay_from_empty [OF assms(1)] new
    by (auto simp: refs_ok_def participant_refs_def list_all_iff)
  then have parts: "session_participants_of g' s = sort (remdups ps)"
    by (rule session_started_participants [OF assms(3)])
  have find: "List.find (\<lambda>r. s_id r = s) (sessions g') = Some ?row"
    unfolding rows using new by (subst find_append_last) (auto simp: find_None_iff)
  have ord: "sessions_ordered (length evs) g" by (rule sessions_ordered_replay [OF assms(1,2)])
  have "latest_session (filter (\<lambda>r. s_conversation r = c) (sessions g')) = Some ?row"
    unfolding rows by (subst latest_session_snoc) (use ord in \<open>auto simp: sessions_ordered_def less_Suc_eq_le\<close>)
  moreover have "session_by_id J g' s = Inr (Some \<lparr>sv_id = s, sv_conversation = c, sv_started_at = t,
      sv_seeded_from_turn = seeded, sv_brief = brief, sv_participants = sort (remdups ps)\<rparr>)"
    using assms(4) by (simp add: session_by_id_def find opt_column_def assemble_session_def parts timestamp_column_def)
  moreover have "\<not> session_is_open g'' s \<and> (s' \<noteq> s \<longrightarrow> session_is_open g'' s' = session_is_open g s')"
    using session_ended_open [OF assms(5)] by (auto simp: session_is_open_def rows)
  ultimately show ?thesis by (simp add: last_session_start_def session_is_open_def rows)
qed

theorem session_round_trip_witness:
  "\<exists>g' v. apply_session_started (Suc (length sample_log)) (ConversationId 20) (SessionId 31)
      [MemoryId 3, MemoryId 2, MemoryId 3] 14000 None [] sample_graph = Inr g'
    \<and> session_by_id gregorian g' (SessionId 31) = Inr (Some v) \<and> sv_participants v = [MemoryId 2, MemoryId 3]
    \<and> last_session_start g' (ConversationId 20) = Some 14"
proof -
  let ?st = "apply_session_started (Suc (length sample_log)) (ConversationId 20) (SessionId 31)
      [MemoryId 3, MemoryId 2, MemoryId 3] 14000 None [] sample_graph"
  have "is_ok ?st" by code_simp
  then obtain g' where g': "?st = Inr g'" by (rule ok_obtain)
  have c: "consecutive sample_log" "try_from_millis gregorian 14000 = Some 14000" "length sample_log = 13"
    by code_simp+
  have s: "sort (remdups [MemoryId 3, MemoryId 2, MemoryId 3]) = [MemoryId 2, MemoryId 3]" by code_simp
  obtain g'' where "apply_session_ended (SessionId 31) None g' = Inr g''"
    by (simp add: apply_session_ended_def)
  note r = session_round_trip [OF sample_replay c(1) g' c(2) this, of "SessionId 30", unfolded s c(3)]
  show ?thesis by (rule exI [of _ g'], rule exI, intro conjI, rule g', rule conjunct1 [OF r]) (use r in simp_all)
qed

text \<open>
  deleting a memory removes its room and no other. In a graph folded from a log, after the deletion the memory is
  not found, its conversations resolve to nothing and have no sessions, and every other conversation keeps
  its context and reads back the same sessions with the same participants.\<close>

theorem deleted_room_is_gone:
  assumes "foldM (apply_event J) evs empty_graph = Inr g" "apply_memory_deleted i g = Inr g'"
  shows "memory_by_id J g' i = Inr None
    \<and> context_for_conversation g' c =
       (if context_for_conversation g c = Some i then None else context_for_conversation g c)
    \<and> sessions_in J g' c = (if context_for_conversation g c = Some i then Inr [] else sessions_in J g c)"
proof -
  have keys: "distinct (map c_id (conversations g))" "distinct (map s_id (sessions g))"
    using keys.replay_from_empty [OF assms(1)] by (simp_all add: keys_ok_def)
  let ?gone = "context_for_conversation g c = Some i"
  have gone: "c \<in> room_conversations i g \<longleftrightarrow> ?gone"
    by (auto simp: room_conversations_def context_for_conversation_def find_key [OF keys(1)])
  note g' = deleted_room_tables [OF assms(2)]
  have "sessions_in J g' c = (if ?gone then Inr [] else sessions_in J g c)"
  proof (cases ?gone)
    case True
    then have none: "filter (\<lambda>r. s_conversation r = c) (sessions g') = []"
      using gone by (auto simp: g' filter_empty_conv)
    show ?thesis using True unfolding sessions_in_def none by simp
  next
    case False
    then have "filter (\<lambda>r. s_conversation r = c) (sessions g') = filter (\<lambda>r. s_conversation r = c) (sessions g)"
      unfolding g' filter_filter using gone by (intro filter_cong [OF refl]) fastforce
    with False show ?thesis unfolding sessions_in_def
      by (auto intro!: mapM_cong other_room_session [OF keys(2) assms(2)] simp: gone)
  qed
  moreover have "context_for_conversation g' c = (if ?gone then None else context_for_conversation g c)"
    by (auto simp: context_for_conversation_def g' find_filter_key [OF keys(1)] split: option.splits)
  ultimately show ?thesis using deleted_memory_not_found [OF assms(2)] by simp
qed

theorem deleted_room_is_gone_witness:
  "\<exists>g'. apply_memory_deleted (MemoryId 4) sample_graph = Inr g'
    \<and> sessions_in gregorian g' (ConversationId 20) = Inr []
    \<and> context_for_conversation g' (ConversationId 20) = None"
proof -
  obtain g' where g': "apply_memory_deleted (MemoryId 4) sample_graph = Inr g'"
    by (simp add: apply_memory_deleted_def)
  have "context_for_conversation sample_graph (ConversationId 20) = Some (MemoryId 4)" by code_simp
  with deleted_room_is_gone [OF sample_replay g', of "ConversationId 20"] g' show ?thesis by simp
qed

end
