(* ===== verification/Block_Core.thy ===== *)
theory Block_Core
  imports Graph_Sessions Graph_Occurrences
begin

text \<open>
  The block transaction, \<open>src/memory/memory_block/mod.rs\<close>, \<open>error.rs\<close> and \<open>effects.rs\<close>: the state an agent's
  block of memory writes accumulates, its guards, and the effects the caller commits or discards. The
  operations are in \<open>Block_Resolve\<close>, \<open>Block_Writes\<close>, \<open>Block_Attest\<close>, \<open>Block_Links\<close>, \<open>Block_Retract\<close> and \<open>Block_Reads\<close>.

  A method with \<open>&mut self\<close> is a \<open>block_op\<close>: it returns its result and the block, which an error leaves as far as
  the method came. A method with \<open>&self\<close> is a function of the block. The graph is committed state,
  read and never written by a block. The clock, the ULID generator and the vector index of the engine are fields of
  \<open>engine\<close>: the \<open>n\<close>-th id drawn is \<open>en_entropy n\<close>, and \<open>en_clock n\<close> is the time once \<open>n\<close> ids are drawn.
\<close>

section \<open>Types\<close>

datatype entry_selector = EntrySelector_Id entry_id | EntrySelector_Ref string

record corroboration =
  co_entry :: entry_id
  co_note :: string

datatype append_outcome =
    AppendOutcome_Appended entry_id "string option"
  | AppendOutcome_Corroborated corroboration

datatype retraction = Retraction_Entry | Retraction_Withdrawn string

definition MIN_ENTRY_PREFIX :: nat where
  "MIN_ENTRY_PREFIX = 4"

datatype authority = Authority_Platform | Authority_Operator | Authority_Agent

datatype visibility_choice =
  VisibilityChoice_Public | VisibilityChoice_Attributed | VisibilityChoice_Private

datatype forced_visibility = ForcedVisibility_Choice visibility_choice | ForcedVisibility_Exclude "memory_id list"

datatype volatility_choice = VolatilityChoice_Low | VolatilityChoice_Medium | VolatilityChoice_High

fun into_volatility :: "volatility_choice \<Rightarrow> volatility" where
  "into_volatility VolatilityChoice_Low = Volatility_Low"
| "into_volatility VolatilityChoice_Medium = Volatility_Medium"
| "into_volatility VolatilityChoice_High = Volatility_High"

record append_options =
  by_agent :: bool
  opt_visibility :: "visibility_choice option"
  opt_occurred_at :: "temporal_ref option"
  opt_volatility :: "volatility_choice option"
  opt_told_by :: "teller option"
  opt_exclude :: "memory_id list option"  \<comment> \<open>a \<open>BTreeSet\<close>, in ascending order\<close>
  distinct_from :: "entry_selector option"

definition default_options :: append_options where
  "default_options =
     \<lparr>by_agent = False, opt_visibility = None, opt_occurred_at = None, opt_volatility = None,
      opt_told_by = None, opt_exclude = None, distinct_from = None\<rparr>"

record link_options =
  lo_visibility :: "visibility_choice option"
  lo_exclude :: "memory_id list option"

datatype link_direction = LinkDirection_Outgoing | LinkDirection_Incoming

record entry_ref =
  er_entry_id :: entry_id
  er_text :: string
  er_asserted_at :: timestamp
  er_visibility :: visibility
  er_teller :: string
  er_attesters :: "string list"
  er_disputed :: bool
  er_occurred_at :: "temporal_ref option"
  er_withheld :: bool
  er_stale :: bool
  er_retracted_reason :: "string option"

record link_ref =
  lr_relation :: relation_name
  lr_other :: memory_id
  lr_other_name :: memory_name
  lr_direction :: link_direction
  lr_source :: link_source
  lr_told_by :: "string option"
  lr_occurred_at :: "temporal_ref option"

record listed_memory =
  lm_id :: memory_id
  lm_description :: "string option"

record memory_details =
  md_name :: string
  md_description :: string
  md_former_names :: "string list"
  md_entries :: "entry_ref list"
  md_links :: "link_ref list"
  md_tags :: "tag_name list"
  md_volatility :: volatility

record block_effects =
  fx_events :: "event_payload list"
  fx_touched :: "memory_id list"
  fx_aborted :: "string option"
  fx_skip :: "string option"

record rehomed_link =
  rh_stored_from :: memory_id
  rh_stored_to :: memory_id
  rh_canonical_from :: memory_id
  rh_canonical_to :: memory_id
  rh_relation :: relation_name
  rh_posture :: link_posture
  rh_survivor :: bool

record relation_spec =
  rs_name :: string
  rs_inverse :: string
  rs_from_card :: string
  rs_to_card :: string
  rs_symmetric :: bool
  rs_reflexive :: bool
  rs_description :: string

section \<open>Errors\<close>

text \<open>A read that panics is kept as the \<open>fault\<close> of \<open>MemoryError_Graph\<close>.\<close>

datatype (plugins only: code size) memory_error =
    MemoryError_NameExists memory_name "memory_name list"
  | MemoryError_LinkEndpointNearMatch memory_name "memory_name list"
  | MemoryError_UnknownRelation relation_name
  | MemoryError_TagExists tag_name "tag_name list"
  | MemoryError_UnknownTag tag_name
  | MemoryError_BadCardinality string
  | MemoryError_SelfWriteForbidden
  | MemoryError_OperatorWriteForbidden
  | MemoryError_MergeForbidden
  | MemoryError_SelfMergeForbidden
  | MemoryError_MergeProposalInvalid
  | MemoryError_VisibilityRequired
  | MemoryError_VisibilityRequiredOnCreate
  | MemoryError_RenameOfPlatformHandle memory_name
  | MemoryError_RenameOntoPlatformHandle memory_name
  | MemoryError_UnknownVolatility string
  | MemoryError_VisibilityConflict
  | MemoryError_ExcludeEmpty
  | MemoryError_UnguardedSeedBesideExclude
  | MemoryError_BadCalendarArg string
  | MemoryError_UnsupportedRecurrence string
  | MemoryError_UnknownEntry string
  | MemoryError_AmbiguousEntryPrefix string "(entry_id \<times> string) list"
  | MemoryError_ConfidentialUntagForbidden
  | MemoryError_ForeignConfidenceSupersedeForbidden
  | MemoryError_RetractionReasonRequired
  | MemoryError_UnknownAttestation
  | MemoryError_ContentTooLong nat nat
  | MemoryError_DuplicateEntry entry_id string
  | MemoryError_AttestationWiderThanEntry
  | MemoryError_ConsolidationInvariant string
  | MemoryError_Graph fault

definition read_graph :: "'a outcome \<Rightarrow> (memory_error, 'a) result" where
  "read_graph m = (case m of Inl f \<Rightarrow> Inl (MemoryError_Graph f) | Inr a \<Rightarrow> Inr a)"

lemma read_graph_Inr [simp]: "read_graph m = Inr a \<longleftrightarrow> m = Inr a" "read_graph (Inr a) = Inr a"
  by (auto simp: read_graph_def split: sum.splits)

section \<open>The block\<close>

type_synonym embedding = "rat list"

record scored_hit =
  hit_id :: string
  hit_score :: rat  \<comment> \<open>a finite \<open>f32\<close>\<close>

record engine =
  en_jiff :: jiff
  en_graph :: graph
  en_clock :: "nat \<Rightarrow> timestamp"
  en_entropy :: "nat \<Rightarrow> nat"
  en_ulid_str :: "nat \<Rightarrow> string"
  en_ulid_from_string :: "string \<Rightarrow> nat option"
  en_retrieval :: "(embedding \<Rightarrow> nat \<Rightarrow> (string, scored_hit list) result) option"  \<comment> \<open>\<open>VectorIndex::search\<close>\<close>
  en_dedup_threshold :: rat
  en_consolidation_threshold :: rat

record memory_block =
  mb_engine :: engine
  mb_teller :: teller
  mb_authority :: authority
  mb_self_id :: "memory_id option"
  mb_operator_id :: "memory_id option"
  mb_context_memory :: "memory_id option"
  mb_told_in :: "conversation_ref option"
  mb_confidential_context :: bool
  mb_connector_authored :: bool
  mb_present_set :: "memory_id list"
  mb_max_entry_chars :: nat
  mb_buffer :: "event_payload list"
  mb_touched :: "memory_id set"
  mb_aborted :: "string option"
  mb_skip :: "string option"
  mb_open_default_seeds :: "memory_id set"
  mb_drawn :: nat  \<comment> \<open>ids drawn so far\<close>

type_synonym 'a block_op = "memory_block \<Rightarrow> (memory_error, 'a) result \<times> memory_block"

definition ret :: "'a \<Rightarrow> 'a block_op" where
  "ret a b = (Inr a, b)"

definition fail :: "memory_error \<Rightarrow> 'a block_op" where
  "fail e b = (Inl e, b)"

definition bind_op :: "'a block_op \<Rightarrow> ('a \<Rightarrow> 'b block_op) \<Rightarrow> 'b block_op" where
  "bind_op m f b = (case m b of (Inl e, b') \<Rightarrow> (Inl e, b') | (Inr a, b') \<Rightarrow> f a b')"

text \<open>A \<open>&self\<close> method followed by \<open>?\<close>.\<close>

definition query :: "(memory_block \<Rightarrow> (memory_error, 'a) result) \<Rightarrow> 'a block_op" where
  "query f b = (f b, b)"

definition push :: "event_payload \<Rightarrow> unit block_op" where
  "push ev b = (Inr (), b\<lparr>mb_buffer := mb_buffer b @ [ev]\<rparr>)"

definition touch :: "memory_id \<Rightarrow> unit block_op" where
  "touch i b = (Inr (), b\<lparr>mb_touched := insert i (mb_touched b)\<rparr>)"

definition draw :: "nat block_op" where
  "draw b = (Inr (en_entropy (mb_engine b) (mb_drawn b)), b\<lparr>mb_drawn := mb_drawn b + 1\<rparr>)"

definition now :: "memory_block \<Rightarrow> timestamp" where
  "now b = en_clock (mb_engine b) (mb_drawn b)"

abbreviation graph_of :: "memory_block \<Rightarrow> graph" where
  "graph_of b \<equiv> en_graph (mb_engine b)"

abbreviation jiff_of :: "memory_block \<Rightarrow> jiff" where
  "jiff_of b \<equiv> en_jiff (mb_engine b)"

fun each :: "('a \<Rightarrow> unit block_op) \<Rightarrow> 'a list \<Rightarrow> unit block_op" where
  "each f [] = ret ()"
| "each f (x # xs) = bind_op (f x) (\<lambda>_. each f xs)"

definition block_new ::
  "engine \<Rightarrow> teller \<Rightarrow> authority \<Rightarrow> conversation_id option \<Rightarrow> turn_id option \<Rightarrow> memory_id list \<Rightarrow> nat
    \<Rightarrow> memory_block outcome" where
  "block_new eng t auth conversation turn present_set max_entry_chars =
     (let g = en_graph eng; J = en_jiff eng
      in andthen
           (case conversation of
              None \<Rightarrow> Inr (None, False, None)
            | Some c \<Rightarrow>
                (let context_memory = context_for_conversation g c
                 in andthen
                      (case context_memory of
                         Some i \<Rightarrow> andthen (memory_by_id J g i) (\<lambda>m.
                           Inr (case m of Some v \<Rightarrow> TagName_Confidential \<in> set (mv_tags v) | None \<Rightarrow> False))
                       | None \<Rightarrow> Inr False) (\<lambda>confidential.
                    Inr (context_memory, confidential, Some \<lparr>cr_conversation = c, cr_turn = turn\<rparr>)))) (\<lambda>(context_memory, confidential, told_in).
         andthen (self_memory J g) (\<lambda>self.
         andthen (memory_by_name J g (memory_name_of operator_name)) (\<lambda>operator.
           Inr \<lparr>mb_engine = eng, mb_teller = t, mb_authority = auth, mb_self_id = map_option mv_id self,
                mb_operator_id = map_option mv_id operator, mb_context_memory = context_memory,
                mb_told_in = told_in, mb_confidential_context = confidential,
                mb_connector_authored = False, mb_present_set = present_set,
                mb_max_entry_chars = max_entry_chars, mb_buffer = [], mb_touched = {}, mb_aborted = None,
                mb_skip = None, mb_open_default_seeds = {}, mb_drawn = 0\<rparr>))))"

definition authored_by_connector :: "memory_block \<Rightarrow> memory_block" where
  "authored_by_connector b = b\<lparr>mb_connector_authored := True\<rparr>"

section \<open>Effects\<close>

definition current_context :: "memory_block \<Rightarrow> memory_id option \<times> memory_block" where
  "current_context b =
     (case mb_context_memory b of
        Some i \<Rightarrow> (Some i, b\<lparr>mb_touched := insert i (mb_touched b)\<rparr>)
      | None \<Rightarrow> (None, b))"

definition abort :: "string option \<Rightarrow> memory_block \<Rightarrow> memory_block" where
  "abort reason b = b\<lparr>mb_aborted := Some (case reason of Some r \<Rightarrow> r | None \<Rightarrow> [])\<rparr>"

definition skip_turn :: "string option \<Rightarrow> memory_block \<Rightarrow> memory_block" where
  "skip_turn reason b = b\<lparr>mb_skip := Some (case reason of Some r \<Rightarrow> r | None \<Rightarrow> [])\<rparr>"

definition into_effects :: "memory_block \<Rightarrow> block_effects" where
  "into_effects b =
     \<lparr>fx_events = mb_buffer b, fx_touched = sorted_list_of_set (mb_touched b), fx_aborted = mb_aborted b,
      fx_skip = mb_skip b\<rparr>"

definition take_effects :: "memory_block \<Rightarrow> block_effects \<times> memory_block" where
  "take_effects b =
     (into_effects b, b\<lparr>mb_buffer := [], mb_touched := {}, mb_aborted := None, mb_skip := None\<rparr>)"

definition transaction :: "'a block_op \<Rightarrow> 'a block_op" where
  "transaction body b =
     (let savepoint = length (mb_buffer b)
      in case body b of
           (Inr v, b') \<Rightarrow> (Inr v, b')
         | (Inl e, b') \<Rightarrow> (Inl e, b'\<lparr>mb_buffer := take savepoint (mb_buffer b')\<rparr>))"

section \<open>Guards\<close>

definition guard_self :: "memory_id \<Rightarrow> memory_block \<Rightarrow> (memory_error, unit) result" where
  "guard_self i b =
     (if mb_authority b \<noteq> Authority_Operator \<and> Some i = mb_self_id b then Inl MemoryError_SelfWriteForbidden
      else Inr ())"

definition guard_self_merge :: "memory_id \<Rightarrow> memory_id \<Rightarrow> memory_block \<Rightarrow> (memory_error, unit) result" where
  "guard_self_merge from_id to_id b =
     (if Some from_id = mb_self_id b \<or> Some to_id = mb_self_id b then Inl MemoryError_SelfMergeForbidden
      else Inr ())"

definition guard_operator :: "memory_id \<Rightarrow> memory_block \<Rightarrow> (memory_error, unit) result" where
  "guard_operator i b =
     (if Some i = mb_operator_id b then Inl MemoryError_OperatorWriteForbidden else Inr ())"

definition guard_confidential_untag :: "tag_name \<Rightarrow> memory_block \<Rightarrow> (memory_error, unit) result" where
  "guard_confidential_untag tag b =
     (if mb_authority b = Authority_Platform \<and> tag = TagName_Confidential
      then Inl MemoryError_ConfidentialUntagForbidden else Inr ())"

definition same_participant_class :: "memory_block \<Rightarrow> memory_id \<Rightarrow> memory_id \<Rightarrow> bool" where
  "same_participant_class b x y \<longleftrightarrow>
     x = y \<or> class_or_self (graph_of b) x = class_or_self (graph_of b) y"

definition same_teller_class :: "memory_block \<Rightarrow> teller \<Rightarrow> teller \<Rightarrow> bool" where
  "same_teller_class b x y =
     (case (x, y) of
        (Teller_Participant i, Teller_Participant j) \<Rightarrow> same_participant_class b i j
      | (Teller_Agent, Teller_Agent) \<Rightarrow> True
      | (Teller_Bootstrap, Teller_Bootstrap) \<Rightarrow> True
      | _ \<Rightarrow> False)"

definition reconcile_forced_visibility ::
  "visibility_choice option \<Rightarrow> memory_id list option \<Rightarrow> (memory_error, forced_visibility option) result" where
  "reconcile_forced_visibility v excl =
     (case (v, excl) of
        (_, Some []) \<Rightarrow> Inl MemoryError_ExcludeEmpty
      | (Some VisibilityChoice_Private, Some ids) \<Rightarrow> Inr (Some (ForcedVisibility_Exclude ids))
      | (None, Some ids) \<Rightarrow> Inr (Some (ForcedVisibility_Exclude ids))
      | (Some _, Some _) \<Rightarrow> Inl MemoryError_VisibilityConflict
      | (Some choice, None) \<Rightarrow> Inr (Some (ForcedVisibility_Choice choice))
      | (None, None) \<Rightarrow> Inr None)"

definition parse_cardinality :: "string \<Rightarrow> (memory_error, cardinality) result" where
  "parse_cardinality s =
     (case cardinality_from_str s of Some c \<Rightarrow> Inr c | None \<Rightarrow> Inl (MemoryError_BadCardinality s))"

end
