(* ===== verification/Suggest.thy ===== *)
theory Suggest
  imports Graph_Memories "HOL-Library.Multiset"
begin

text \<open>
  Near-match ranking for a name or tag collision, \<open>src/memory/memory_block/suggest.rs\<close>, with the decoding of
  UTF-8 text to its characters that it and the prefix scan of \<open>crates/core/src/graph/memories.rs\<close> rest on.

  The two-row dynamic program is proved to compute the least number of single-character edits, and
  the ranking to be the one that the distance alone defines, without the pre-checks that save its cost.
\<close>

section \<open>Characters of UTF-8 text\<close>

text \<open>\<open>str::chars\<close> on valid UTF-8: a byte that is no continuation byte opens a character.\<close>

definition lead_bits :: "nat \<Rightarrow> nat" where
  "lead_bits b = (if b < 0x80 then b else if b < 0xE0 then b mod 0x20 else if b < 0xF0 then b mod 0x10 else b mod 8)"

definition scalar_of :: "char \<Rightarrow> string \<Rightarrow> nat" where
  "scalar_of c tail = foldl (\<lambda>acc d. acc * 64 + of_char d mod 64) (lead_bits (of_char c)) tail"

function chars_of :: "string \<Rightarrow> nat list" where
  "chars_of [] = []"
| "chars_of (c # cs) =
     scalar_of c (takeWhile is_continuation cs) # chars_of (dropWhile is_continuation cs)"
  by pat_completeness auto
termination
  by (relation "measure length") (auto simp: le_imp_less_Suc length_dropWhile_le)

text \<open>\<open>char::encode_utf8\<close>.\<close>

definition utf8_of :: "nat \<Rightarrow> string" where
  "utf8_of n =
     map char_of
       (if n < 0x80 then [n]
        else if n < 0x800 then [0xC0 + n div 64, 0x80 + n mod 64]
        else if n < 0x10000 then [0xE0 + n div 4096, 0x80 + n div 64 mod 64, 0x80 + n mod 64]
        else [0xF0 + n div 262144, 0x80 + n div 4096 mod 64, 0x80 + n div 64 mod 64, 0x80 + n mod 64])"

definition utf8_text :: "nat list \<Rightarrow> string" where
  "utf8_text cs = concat (map utf8_of cs)"

definition scalar_lower :: "nat \<Rightarrow> nat" where
  "scalar_lower c = (if 65 \<le> c \<and> c \<le> 90 then c + 32 else c)"

definition scalar_upper :: "nat \<Rightarrow> nat" where
  "scalar_upper c = (if 97 \<le> c \<and> c \<le> 122 then c - 32 else c)"

definition memory_names_with_prefix :: "graph \<Rightarrow> string \<Rightarrow> memory_name list" where
  "memory_names_with_prefix g pre =
     (let names = (\<lambda>P. map (\<lambda>r. MemoryName (m_name r))
            (sort_key m_name (filter (\<lambda>r. pre \<le> m_name r \<and> P (m_name r) \<and> \<not> m_deleted r) (memories g))))
      in case prefix_range_end (chars_of pre) of
           Some e \<Rightarrow> names (\<lambda>n. n < utf8_text e)
         | None \<Rightarrow> filter (\<lambda>n. starts_with pre (name_str n)) (names (\<lambda>n. True)))"

section \<open>The distance program\<close>

text \<open>The inner loop writes \<open>curr[j + 1]\<close> for each character of \<open>b\<close>; the outer loop swaps the rows.\<close>

fun fill_row :: "nat \<Rightarrow> nat list \<Rightarrow> nat \<Rightarrow> nat list \<Rightarrow> nat list \<Rightarrow> nat list" where
  "fill_row ca prev j [] cur = cur"
| "fill_row ca prev j (cb # bs) cur =
     (let cost = (if ca \<noteq> cb then 1 else 0)
      in fill_row ca prev (j + 1) bs
           (cur[j + 1 := min (min (prev ! (j + 1) + 1) (cur ! j + 1)) (prev ! j + cost)]))"

fun fill_rows :: "nat list \<Rightarrow> nat \<Rightarrow> nat list \<Rightarrow> nat list \<Rightarrow> nat list \<Rightarrow> nat list" where
  "fill_rows b i [] prev cur = prev"
| "fill_rows b i (ca # as) prev cur =
     fill_rows b (i + 1) as (fill_row ca prev 0 b (cur[0 := i + 1])) prev"

definition edit_distance :: "string \<Rightarrow> string \<Rightarrow> nat" where
  "edit_distance sa sb =
     (let a = chars_of sa; b = chars_of sb
      in if a = [] then length b
         else if b = [] then length a
         else fill_rows b 0 a [0..<length b + 1] (replicate (length b + 1) 0) ! length b)"

section \<open>The ranking\<close>

definition MAX_SUGGESTIONS :: nat where "MAX_SUGGESTIONS = 5"
definition MIN_SHARED_PREFIX :: nat where "MIN_SHARED_PREFIX = 3"
definition MAX_EDIT_DISTANCE :: nat where "MAX_EDIT_DISTANCE = 2"

definition shared_prefix_len :: "string \<Rightarrow> string \<Rightarrow> nat" where
  "shared_prefix_len a b =
     length (takeWhile (\<lambda>(x, y). scalar_lower x = scalar_lower y) (zip (chars_of a) (chars_of b)))"

definition abs_diff :: "nat \<Rightarrow> nat \<Rightarrow> nat" where
  "abs_diff m n = (if m < n then n - m else m - n)"

definition rank_candidate :: "string \<Rightarrow> string \<times> 'a \<Rightarrow> (nat \<times> nat \<times> string \<times> 'a) option" where
  "rank_candidate attempted c =
     (case c of
        (key, item) \<Rightarrow>
          (let attempted_chars = length (chars_of attempted);
               min_prefix = min attempted_chars MIN_SHARED_PREFIX
           in if eq_ignore_ascii_case key attempted then None
              else let shared = shared_prefix_len attempted key
                   in if shared < min_prefix
                        \<and> (shared = 0 \<or> abs_diff attempted_chars (length (chars_of key)) > MAX_EDIT_DISTANCE)
                      then None
                      else let distance = edit_distance attempted key;
                               relevant = (min_prefix \<le> shared \<or> distance \<le> MAX_EDIT_DISTANCE \<and> 1 \<le> shared)
                           in if relevant then Some (shared, distance, key, item) else None))"

definition rank_order :: "nat \<times> nat \<times> string \<times> 'a \<Rightarrow> int \<times> nat \<times> string" where
  "rank_order r = (case r of (shared, distance, key, item) \<Rightarrow> (- int shared, distance, key))"

definition most_similar :: "string \<Rightarrow> (string \<times> 'a) list \<Rightarrow> 'a list" where
  "most_similar attempted candidates =
     map (\<lambda>(shared, distance, key, item). item)
       (take MAX_SUGGESTIONS (sort_key rank_order (List.map_filter (rank_candidate attempted) candidates)))"

section \<open>The least number of edits\<close>

text \<open>One insertion, deletion or substitution, anywhere in the text.\<close>

inductive edit1 :: "'a list \<Rightarrow> 'a list \<Rightarrow> bool" where
  ins: "edit1 xs (y # xs)"
| del: "edit1 (x # xs) xs"
| sub: "edit1 (x # xs) (y # xs)"
| skip: "edit1 xs ys \<Longrightarrow> edit1 (x # xs) (x # ys)"

definition levenshtein :: "'a list \<Rightarrow> 'a list \<Rightarrow> nat" where
  "levenshtein xs ys = (LEAST n. (edit1 ^^ n) xs ys)"

fun lev :: "'a list \<Rightarrow> 'a list \<Rightarrow> nat" where
  "lev [] ys = length ys"
| "lev (x # xs) [] = length (x # xs)"
| "lev (x # xs) (y # ys) =
     min (min (lev xs (y # ys) + 1) (lev (x # xs) ys + 1)) (lev xs ys + (if x \<noteq> y then 1 else 0))"

lemma lev_Nil2 [simp]: "lev xs [] = length xs"
  by (cases xs) auto

lemma lev_self [simp]: "lev xs xs = 0"
  by (induction xs) auto

lemma lev_cons_left: "lev (x # xs) zs \<le> lev xs zs + 1"
  by (cases zs) auto

lemma lev_cons_right: "lev xs (z # zs) \<le> lev xs zs + 1"
  by (cases xs) auto

lemma lev_drop_left: "lev xs zs \<le> lev (x # xs) zs + 1"
proof (induction zs)
  case (Cons z zs)
  then show ?case using lev_cons_right [of xs z zs] by auto
qed simp

lemma lev_edit1: "edit1 xs ys \<Longrightarrow> lev xs zs \<le> lev ys zs + 1"
proof (induction arbitrary: zs rule: edit1.induct)
  case (ins xs y)
  show ?case by (rule lev_drop_left)
next
  case (del x xs)
  show ?case by (rule lev_cons_left)
next
  case (sub x xs y)
  show ?case
  proof (induction zs)
    case (Cons z zs)
    then show ?case by auto
  qed simp
next
  case (skip xs ys x)
  show ?case
  proof (induction zs)
    case Nil
    show ?case using skip.IH [of "[]"] by simp
  next
    case (Cons z zs)
    with skip.IH [of "z # zs"] skip.IH [of zs] show ?case by auto
  qed
qed

lemma lev_le_edits: "(edit1 ^^ n) xs ys \<Longrightarrow> lev xs ys \<le> n"
proof (induction n arbitrary: xs)
  case (Suc n)
  from Suc.prems obtain ws where "edit1 xs ws" "(edit1 ^^ n) ws ys"
    by (rule relpowp_Suc_E2)
  with Suc.IH [of ws] lev_edit1 [of xs ws ys] show ?case by simp
qed simp

lemma edits_skip: "(edit1 ^^ n) xs ys \<Longrightarrow> (edit1 ^^ n) (x # xs) (x # ys)"
proof (induction n arbitrary: xs)
  case (Suc n)
  from Suc.prems obtain ws where "edit1 xs ws" "(edit1 ^^ n) ws ys"
    by (rule relpowp_Suc_E2)
  with Suc.IH show ?case by (blast intro: relpowp_Suc_I2 edit1.skip)
qed simp

lemma edits_lev: "(edit1 ^^ lev xs ys) xs ys"
proof (induction xs ys rule: lev.induct)
  case (1 ys)
  show ?case
  proof (induction ys)
    case (Cons y ys)
    then show ?case by (auto intro: relpowp_Suc_I edit1.ins)
  qed simp
next
  case (2 x xs)
  show ?case
  proof (induction xs arbitrary: x)
    case Nil
    show ?case by (auto intro: edit1.del)
  next
    case (Cons y ys)
    from Cons [of y] show ?case by (auto intro: relpowp_Suc_I2 edit1.del simp del: relpowp.simps)
  qed
next
  case (3 x xs y ys)
  let ?cost = "if x \<noteq> y then 1 else 0 :: nat"
  have del: "(edit1 ^^ Suc (lev xs (y # ys))) (x # xs) (y # ys)"
    by (rule relpowp_Suc_I2 [OF edit1.del 3(1)])
  have ins: "(edit1 ^^ Suc (lev (x # xs) ys)) (x # xs) (y # ys)"
    by (rule relpowp_Suc_I [OF 3(2) edit1.ins])
  have sub: "(edit1 ^^ (lev xs ys + ?cost)) (x # xs) (y # ys)"
  proof (cases "x = y")
    case True
    with edits_skip [OF 3(3)] show ?thesis by simp
  next
    case False
    from relpowp_Suc_I2 [OF edit1.sub [of x xs y] edits_skip [OF 3(3)]] False show ?thesis by simp
  qed
  consider "lev (x # xs) (y # ys) = Suc (lev xs (y # ys))"
    | "lev (x # xs) (y # ys) = Suc (lev (x # xs) ys)"
    | "lev (x # xs) (y # ys) = lev xs ys + ?cost"
    by (simp add: min_def del: One_nat_def) (metis add.commute plus_1_eq_Suc)
  then show ?case by cases (simp_all only: del ins sub)
qed

lemma levenshtein_lev: "levenshtein xs ys = lev xs ys"
  unfolding levenshtein_def by (rule Least_equality) (rule edits_lev, rule lev_le_edits)

text \<open>Edits run backwards and from the end of the text too.\<close>

lemma edit1_append: "edit1 xs ys \<Longrightarrow> edit1 (ws @ xs @ zs) (ws @ ys @ zs)"
proof (induction ws)
  case Nil
  then show ?case by (induction rule: edit1.induct) (auto intro: edit1.intros)
next
  case (Cons w ws)
  then show ?case by (auto intro: edit1.skip)
qed

lemma edit1_rev: "edit1 xs ys \<Longrightarrow> edit1 (rev xs) (rev ys)"
proof (induction rule: edit1.induct)
  case (ins xs y)
  show ?case using edit1_append [OF edit1.ins [of "[]" y], of "rev xs" "[]"] by simp
next
  case (del x xs)
  show ?case using edit1_append [OF edit1.del [of x "[]"], of "rev xs" "[]"] by simp
next
  case (sub x xs y)
  show ?case using edit1_append [OF edit1.sub [of x "[]" y], of "rev xs" "[]"] by simp
next
  case (skip xs ys x)
  show ?case using edit1_append [OF skip.IH, of "[]" "[x]"] by simp
qed

lemma edits_rev: "(edit1 ^^ n) xs ys \<Longrightarrow> (edit1 ^^ n) (rev xs) (rev ys)"
proof (induction n arbitrary: xs)
  case (Suc n)
  from Suc.prems obtain ws where "edit1 xs ws" "(edit1 ^^ n) ws ys"
    by (rule relpowp_Suc_E2)
  with Suc.IH edit1_rev show ?case by (blast intro: relpowp_Suc_I2)
qed simp

lemma lev_rev: "lev (rev xs) (rev ys) = lev xs ys"
  using lev_le_edits [OF edits_rev [OF edits_lev], of xs ys]
    lev_le_edits [OF edits_rev [OF edits_lev], of "rev xs" "rev ys"] by simp

lemma lev_length: "abs_diff (length xs) (length ys) \<le> lev xs ys"
  by (induction xs ys rule: lev.induct) (auto simp: abs_diff_def split: if_splits)

section \<open>Correctness of the distance program\<close>

lemma lev_snoc:
  "lev (rev (xs @ [x])) (rev (ys @ [y])) =
     min (min (lev (rev xs) (rev (ys @ [y])) + 1) (lev (rev (xs @ [x])) (rev ys) + 1))
       (lev (rev xs) (rev ys) + (if x \<noteq> y then 1 else 0))"
  by simp

lemma fill_row_correct:
  assumes "b = pre @ bs" "length prev = length b + 1" "length cur = length b + 1"
    and "\<And>k. k \<le> length b \<Longrightarrow> prev ! k = lev (rev xs) (rev (take k b))"
    and "\<And>k. k \<le> length pre \<Longrightarrow> cur ! k = lev (rev (xs @ [x])) (rev (take k b))"
  shows "length (fill_row x prev (length pre) bs cur) = length b + 1
    \<and> (\<forall>k \<le> length b. fill_row x prev (length pre) bs cur ! k = lev (rev (xs @ [x])) (rev (take k b)))"
  using assms
proof (induction bs arbitrary: pre cur)
  case (Cons y bs)
  let ?j = "length pre"
  let ?v = "min (min (prev ! (?j + 1) + 1) (cur ! ?j + 1)) (prev ! ?j + (if x \<noteq> y then 1 else 0))"
  have b: "b = (pre @ [y]) @ bs" using Cons.prems(1) by simp
  have take1: "take (?j + 1) b = pre @ [y]" and take0: "take ?j b = pre" using b by simp_all
  have v: "?v = lev (rev (xs @ [x])) (rev (take (?j + 1) b))"
    unfolding take1 lev_snoc
    using Cons.prems(4) [of "?j + 1"] Cons.prems(4) [of ?j] Cons.prems(5) [of ?j] b take1 take0
    by (simp del: lev.simps)
  have "length (fill_row x prev (length (pre @ [y])) bs (cur[?j + 1 := ?v])) = length b + 1
    \<and> (\<forall>k \<le> length b. fill_row x prev (length (pre @ [y])) bs (cur[?j + 1 := ?v]) ! k
          = lev (rev (xs @ [x])) (rev (take k b)))"
  proof (rule Cons.IH [OF b Cons.prems(2)])
    show "length (cur[?j + 1 := ?v]) = length b + 1" using Cons.prems(3) by simp
    show "prev ! k = lev (rev xs) (rev (take k b))" if "k \<le> length b" for k using Cons.prems(4) that .
    show "cur[?j + 1 := ?v] ! k = lev (rev (xs @ [x])) (rev (take k b))" if "k \<le> length (pre @ [y])" for k
      using that v Cons.prems(3) Cons.prems(5) [of k] b
      by (cases "k = ?j + 1") (simp_all add: nth_list_update del: lev.simps rev_append)
  qed
  then show ?case by (simp add: Let_def)
qed auto

lemma fill_rows_correct:
  assumes "a = xs @ as" "length prev = length b + 1" "length cur = length b + 1" "b \<noteq> []"
    and "\<And>k. k \<le> length b \<Longrightarrow> prev ! k = lev (rev xs) (rev (take k b))"
  shows "fill_rows b (length xs) as prev cur ! length b = lev (rev a) (rev b)"
  using assms
proof (induction as arbitrary: xs prev cur)
  case (Cons x as)
  have row: "length (fill_row x prev (length ([] :: nat list)) b (cur[0 := length xs + 1])) = length b + 1
    \<and> (\<forall>k \<le> length b. fill_row x prev (length ([] :: nat list)) b (cur[0 := length xs + 1]) ! k
          = lev (rev (xs @ [x])) (rev (take k b)))"
    by (rule fill_row_correct) (use Cons.prems in auto)
  have "fill_rows b (length (xs @ [x])) as (fill_row x prev 0 b (cur[0 := length xs + 1])) prev ! length b
    = lev (rev a) (rev b)"
    by (rule Cons.IH) (use row Cons.prems in auto)
  then show ?case by simp
qed auto

lemma edit_distance_lev: "edit_distance sa sb = lev (chars_of sa) (chars_of sb)"
proof (cases "chars_of sa = [] \<or> chars_of sb = []")
  case False
  let ?b = "chars_of sb"
  have "fill_rows ?b (length ([] :: nat list)) (chars_of sa) [0..<length ?b + 1] (replicate (length ?b + 1) 0) ! length ?b
    = lev (rev (chars_of sa)) (rev ?b)"
    by (rule fill_rows_correct) (use False in \<open>auto simp del: upt_Suc\<close>)
  with False show ?thesis by (simp add: edit_distance_def Let_def lev_rev del: upt_Suc)
qed (auto simp: edit_distance_def Let_def)

section \<open>The contract of the ranking\<close>

text \<open>What makes a candidate a near match, by the distance alone.\<close>

definition near_match :: "string \<Rightarrow> string \<Rightarrow> bool" where
  "near_match attempted key \<longleftrightarrow>
     \<not> eq_ignore_ascii_case key attempted
     \<and> (min (length (chars_of attempted)) MIN_SHARED_PREFIX \<le> shared_prefix_len attempted key
        \<or> levenshtein (chars_of attempted) (chars_of key) \<le> MAX_EDIT_DISTANCE \<and> 1 \<le> shared_prefix_len attempted key)"

definition ranked :: "string \<Rightarrow> string \<times> 'a \<Rightarrow> nat \<times> nat \<times> string \<times> 'a" where
  "ranked attempted c =
     (shared_prefix_len attempted (fst c), levenshtein (chars_of attempted) (chars_of (fst c)), fst c, snd c)"

lemma rank_candidate_near_match:
  "rank_candidate attempted c = (if near_match attempted (fst c) then Some (ranked attempted c) else None)"
proof -
  have "MAX_EDIT_DISTANCE < levenshtein (chars_of attempted) (chars_of (fst c))"
    if "MAX_EDIT_DISTANCE < abs_diff (length (chars_of attempted)) (length (chars_of (fst c)))"
    using that lev_length [of "chars_of attempted" "chars_of (fst c)"] by (simp add: levenshtein_lev)
  then show ?thesis
    by (cases c) (auto simp: rank_candidate_def near_match_def ranked_def Let_def edit_distance_lev
        levenshtein_lev min_def MIN_SHARED_PREFIX_def not_le)
qed

lemma map_filter_if: "List.map_filter (\<lambda>c. if P c then Some (f c) else None) xs = map f (filter P xs)"
  by (induction xs) (auto simp: List.map_filter_simps)

lemma most_similar_near_matches:
  "most_similar attempted cs =
     map (\<lambda>(shared, distance, key, item). item)
       (take MAX_SUGGESTIONS (sort_key rank_order (map (ranked attempted) (filter (near_match attempted \<circ> fst) cs))))"
proof -
  have "rank_candidate attempted =
    (\<lambda>c :: string \<times> 'a. if (near_match attempted \<circ> fst) c then Some (ranked attempted c) else None)"
    by (rule ext) (simp add: rank_candidate_near_match)
  then show ?thesis
    unfolding most_similar_def by (simp only: map_filter_if)
qed

text \<open>
  C37: the pre-checks and the two-row dynamic program change nothing: the suggestions of a collision are the
  candidates that share a stem with the attempted key, or its first character within two edits, ranked by the length of
  the shared stem, then by the least number of single-character edits, then by key, cut at five.
\<close>

theorem most_similar_by_levenshtein:
  "edit_distance sa sb = (LEAST n. (edit1 ^^ n) (chars_of sa) (chars_of sb))
   \<and> most_similar attempted candidates =
       map (\<lambda>(shared, distance, key, item). item)
         (take 5 (sort_key rank_order (map (ranked attempted) (filter (near_match attempted \<circ> fst) candidates))))"
  unfolding most_similar_near_matches
  by (simp add: edit_distance_lev MAX_SUGGESTIONS_def flip: levenshtein_lev levenshtein_def)

lemma sort_mset_eq: "mset xs = mset ys \<Longrightarrow> sort xs = sort ys"
  by (rule properties_for_sort) simp_all

lemma sort_key_mset_unique:
  assumes "mset xs = mset ys" "inj_on f (set xs)"
  shows "sort_key f xs = sort_key f ys"
proof (rule map_inj_on)
  have "map f (sort_key f zs) = sort (map f zs)" for zs
    by (rule properties_for_sort [symmetric]) simp_all
  with assms(1) show "map f (sort_key f xs) = map f (sort_key f ys)"
    by (auto intro: sort_mset_eq)
  show "inj_on f (set (sort_key f xs) \<union> set (sort_key f ys))"
    using assms mset_eq_setD [OF assms(1)] by simp
qed

text \<open>
  the suggestions do not depend on the order in which the graph lists the candidates, as long as no two of them have
  the same key.
\<close>

theorem most_similar_order_free:
  assumes "mset cs = mset ds" "distinct (map fst cs)"
  shows "most_similar attempted cs = most_similar attempted ds"
proof -
  let ?near = "\<lambda>cs. map (ranked attempted) (filter (near_match attempted \<circ> fst) cs)"
  have "inj_on rank_order (set (?near cs))"
    using eq_key_imp_eq_value [OF assms(2)] by (auto simp: inj_on_def ranked_def rank_order_def)
  moreover have "mset (?near cs) = mset (?near ds)" using assms(1) by (simp add: mset_map mset_filter)
  ultimately have "sort_key rank_order (?near cs) = sort_key rank_order (?near ds)"
    by (intro sort_key_mset_unique)
  then show ?thesis by (simp add: most_similar_near_matches)
qed

theorem most_similar_order_free_witness:
  "most_similar ''dave'' [(''dave-chen'', 1 :: nat), (''dove'', 2), (''erin'', 3)]
     = most_similar ''dave'' [(''erin'', 3), (''dove'', 2), (''dave-chen'', 1)]"
  by (rule most_similar_order_free) (simp_all add: add_mset_commute)

end
