(* ===== verification/Block_Resolve.thy ===== *)
theory Block_Resolve
  imports Block_Core Suggest
begin

text \<open>
  Resolution and read-your-writes helpers of a block, \<open>src/memory/memory_block/resolve.rs\<close>, with the parts of
  \<open>effects.rs\<close> that read the pending buffer: visibility resolution, the overlay of this block's pending events on
  the committed graph, entry references, and the redirect of a write to its class primary.
\<close>

section \<open>Pending state\<close>

definition appended_of :: "event_payload \<Rightarrow> (memory_id \<times> entry_id \<times> timestamp \<times> temporal_ref option \<times> string \<times> teller
    \<times> conversation_ref option \<times> visibility) option" where
  "appended_of ev =
     (case ev of
        MemoryContentAppended i e asserted occurred text told_by told_in v \<Rightarrow>
          Some (i, e, asserted, occurred, text, told_by, told_in, v)
      | _ \<Rightarrow> None)"

definition superseded_of :: "event_payload \<Rightarrow> entry_id list" where
  "superseded_of ev =
     (case ev of
        MemorySuperseded _ e _ \<Rightarrow> [e]
      | EntryRetracted _ e _ _ \<Rightarrow> [e]
      | EntriesConsolidated _ sources _ _ \<Rightarrow> sources
      | _ \<Rightarrow> [])"

definition pending_superseded :: "memory_block \<Rightarrow> entry_id set" where
  "pending_superseded b = set (concat (map superseded_of (mb_buffer b)))"

definition pending_attestations :: "memory_block \<Rightarrow> entry_id \<Rightarrow> (teller \<times> visibility) list" where
  "pending_attestations b entry =
     List.map_filter (\<lambda>ev. case ev of
         EntryAttested _ target t _ _ posture _ _ _ \<Rightarrow> (if target = entry then Some (t, posture) else None)
       | _ \<Rightarrow> None) (mb_buffer b)"

definition resolve :: "memory_block \<Rightarrow> string \<Rightarrow> memory_id option outcome" where
  "resolve b name =
     (case List.map_filter (\<lambda>ev. case ev of
               MemoryCreated i created \<Rightarrow> (if name_str created = name then Some i else None)
             | MemoryRenamed i _ new_name \<Rightarrow> (if name_str new_name = name then Some i else None)
             | _ \<Rightarrow> None) (mb_buffer b) of
        i # _ \<Rightarrow> Inr (Some i)
      | [] \<Rightarrow> andthen (memory_by_name (jiff_of b) (graph_of b) (MemoryName name)) (\<lambda>m. Inr (map_option mv_id m)))"

definition resolve_name :: "memory_block \<Rightarrow> memory_id \<Rightarrow> memory_name option outcome" where
  "resolve_name b i =
     (case List.map_filter (\<lambda>ev. case ev of
               MemoryCreated created name \<Rightarrow> (if created = i then Some name else None)
             | _ \<Rightarrow> None) (mb_buffer b) of
        name # _ \<Rightarrow> Inr (Some name)
      | [] \<Rightarrow> andthen (memory_by_id (jiff_of b) (graph_of b) i) (\<lambda>m. Inr (map_option mv_name m)))"

definition handle_field :: "memory_block \<Rightarrow> memory_id \<Rightarrow> string \<Rightarrow> (memory_error, string option) result" where
  "handle_field b i field =
     (if field = ''name'' then
        andthen (read_graph (resolve_name b i)) (\<lambda>n. Inr (map_option name_str n))
      else if field = ''description'' then
        andthen (read_graph (memory_by_id (jiff_of b) (graph_of b) i)) (\<lambda>m. Inr (map_option mv_description m))
      else Inr None)"

text \<open>\<open>.ok().flatten()\<close>: a failed read labels the teller \<open>someone\<close>.\<close>

definition teller_label :: "memory_block \<Rightarrow> teller \<Rightarrow> string" where
  "teller_label b t =
     (case t of
        Teller_Participant i \<Rightarrow>
          (case resolve_name b i of Inr (Some name) \<Rightarrow> name_str name | _ \<Rightarrow> ''someone'')
      | Teller_Agent \<Rightarrow> ''you''
      | Teller_Bootstrap \<Rightarrow> ''genesis'')"

definition pending_entries :: "memory_block \<Rightarrow> memory_id set \<Rightarrow> entry_id set \<Rightarrow> entry_ref list" where
  "pending_entries b members excl =
     List.map_filter (\<lambda>ev. case appended_of ev of
         Some (i, e, asserted, occurred, text, told_by, told_in, v) \<Rightarrow>
           (if i \<in> members \<and> e \<notin> excl then
              Some \<lparr>er_entry_id = e, er_text = text, er_asserted_at = asserted, er_visibility = v,
                    er_teller = teller_label b told_by, er_attesters = [], er_disputed = False,
                    er_occurred_at = occurred, er_withheld = False, er_stale = False,
                    er_retracted_reason = None\<rparr>
            else None)
       | None \<Rightarrow> None) (mb_buffer b)"

section \<open>Visibility of a write\<close>

fun forced_to_visibility :: "forced_visibility \<Rightarrow> visibility" where
  "forced_to_visibility (ForcedVisibility_Choice VisibilityChoice_Public) = Visibility_Public"
| "forced_to_visibility (ForcedVisibility_Choice VisibilityChoice_Attributed) = Visibility_Attributed"
| "forced_to_visibility (ForcedVisibility_Choice VisibilityChoice_Private) = Visibility_PrivateToTeller"
| "forced_to_visibility (ForcedVisibility_Exclude ids) = Visibility_Exclude ids"

definition about_a_person :: "string option \<Rightarrow> memory_id \<Rightarrow> bool" where
  "about_a_person name i \<longleftrightarrow> (case name of Some n \<Rightarrow> subject_participant n i \<noteq> None | None \<Rightarrow> False)"

definition resolve_visibility ::
  "memory_block \<Rightarrow> string option \<Rightarrow> memory_id \<Rightarrow> teller \<Rightarrow> forced_visibility option
    \<Rightarrow> (memory_error, visibility) result" where
  "resolve_visibility b name i told_by forced =
     (case forced of
        Some f \<Rightarrow> Inr (forced_to_visibility f)
      | None \<Rightarrow>
          (if mb_confidential_context b then Inr Visibility_PrivateToTeller
           else if told_by = Teller_Agent \<and> about_a_person name i then Inl MemoryError_VisibilityRequired
           else Inr (case name of Some n \<Rightarrow> default_visibility_named n i told_by | None \<Rightarrow> Visibility_Public)))"

definition resolve_link_visibility ::
  "memory_block \<Rightarrow> memory_id \<Rightarrow> string option \<Rightarrow> memory_id \<Rightarrow> string option \<Rightarrow> teller \<Rightarrow> forced_visibility option
    \<Rightarrow> (memory_error, visibility) result" where
  "resolve_link_visibility b from_id from_name to_id to_name told_by forced =
     (case forced of
        Some f \<Rightarrow> Inr (forced_to_visibility f)
      | None \<Rightarrow>
          (if mb_confidential_context b then Inr Visibility_PrivateToTeller
           else if mb_authority b = Authority_Platform \<and> told_by = Teller_Agent \<and> about_a_person to_name to_id
           then Inl MemoryError_VisibilityRequired
           else case (from_name, to_name) of
                  (Some f, Some t) \<Rightarrow> Inr (default_link_visibility from_id f to_id t told_by)
                | _ \<Rightarrow> Inr Visibility_Public))"

section \<open>Reading entries\<close>

definition EM_DASH :: string where "EM_DASH = [CHR 0xE2, CHR 0x80, CHR 0x94]"

definition WITHHELD_STUB :: string where
  "WITHHELD_STUB = ''(withheld '' @ EM_DASH @ '' a confidence not for the present audience)''"

definition touch_class :: "memory_id \<Rightarrow> memory_id list \<Rightarrow> memory_id set block_op" where
  "touch_class i members b =
     (Inr (insert i (set members)), b\<lparr>mb_touched := set members \<union> insert i (mb_touched b)\<rparr>)"

definition entry_ref_of ::
  "memory_block \<Rightarrow> entry_view \<Rightarrow> entry_id set \<Rightarrow> bool \<Rightarrow> bool \<Rightarrow> teller list \<Rightarrow> entry_ref" where
  "entry_ref_of b v disputed withheld stale attesters =
     \<lparr>er_entry_id = vw_entry_id v, er_text = (if withheld then WITHHELD_STUB else vw_text v),
      er_asserted_at = vw_asserted_at v, er_visibility = vw_visibility v,
      er_teller = teller_label b (vw_told_by v), er_attesters = map (teller_label b) attesters,
      er_disputed = (vw_entry_id v \<in> disputed), er_occurred_at = vw_occurred_at v, er_withheld = withheld,
      er_stale = stale, er_retracted_reason = vw_retracted_reason v\<rparr>"

definition probe :: "entry_view \<Rightarrow> entry_view" where
  "probe v = v\<lparr>vw_superseded_by := None\<rparr>"

definition withheld_from_present ::
  "memory_block \<Rightarrow> memory_view \<Rightarrow> entry_view \<Rightarrow> (memory_error, bool) result" where
  "withheld_from_present b memory v =
     (if mb_present_set b = [] then Inr False
      else andthen (read_graph (visible (probe v) memory (mb_present_set b) (graph_class_of (graph_of b)))) (\<lambda>s.
             Inr (\<not> s)))"

record annotated_entry =
  ae_entry :: entry_view
  ae_withheld :: bool
  ae_stale :: bool
  ae_attesters :: "teller list"

definition annotate_one ::
  "memory_block \<Rightarrow> memory_view option \<Rightarrow> timestamp \<Rightarrow> entry_view \<Rightarrow> (memory_error, annotated_entry) result" where
  "annotate_one b memory instant v =
     (let volatility = (case memory of Some m \<Rightarrow> mv_volatility m | None \<Rightarrow> Volatility_Medium);
          effective = (case vw_occurred_sort v of Some s \<Rightarrow> s | None \<Rightarrow> vw_asserted_at v);
          stale = (vw_superseded_by v = None \<and> is_stale volatility effective instant);
          class_of = graph_class_of (graph_of b);
          present = mb_present_set b
      in andthen
           (case memory of
              Some m \<Rightarrow> (if present = [] then Inr False
                         else andthen (read_graph (visible (probe v) m present class_of)) (\<lambda>s. Inr (\<not> s)))
            | None \<Rightarrow> Inr False) (\<lambda>withheld.
         andthen
           (case memory of
              Some m \<Rightarrow> (if present = [] then Inr (map av_teller (vw_attestations v))
                         else andthen (read_graph (visible_attestations (probe v) m present class_of)) (\<lambda>vs.
                                Inr (map av_teller vs)))
            | None \<Rightarrow> Inr (map av_teller (vw_attestations v))) (\<lambda>tellers.
           Inr \<lparr>ae_entry = v, ae_withheld = withheld, ae_stale = stale,
                ae_attesters = filter (\<lambda>t. t \<noteq> Teller_Agent) tellers\<rparr>)))"

definition annotate ::
  "memory_block \<Rightarrow> memory_id \<Rightarrow> entry_view list \<Rightarrow> (memory_error, annotated_entry list) result" where
  "annotate b i vs =
     andthen (read_graph (memory_by_id (jiff_of b) (graph_of b) i)) (\<lambda>m. mapM (annotate_one b m (now b)) vs)"

text \<open>\<open>class_entry_texts\<close>: the committed history of the class, stubbed for the audience, then the pending appends.\<close>

definition history_text ::
  "memory_block \<Rightarrow> memory_view option \<Rightarrow> entry_view \<Rightarrow> (memory_error, entry_id \<times> string) result" where
  "history_text b anchor v =
     andthen (case anchor of Some m \<Rightarrow> withheld_from_present b m v | None \<Rightarrow> Inr False) (\<lambda>withheld.
       Inr (vw_entry_id v, if withheld then WITHHELD_STUB else vw_text v))"

definition class_entry_texts ::
  "memory_block \<Rightarrow> memory_id \<Rightarrow> (memory_error, (entry_id \<times> string) list) result" where
  "class_entry_texts b i =
     (let members = set (class_members_of (graph_of b) i @ [i])
      in andthen (read_graph (memory_by_id (jiff_of b) (graph_of b) i)) (\<lambda>anchor.
         andthen (read_graph (class_history (jiff_of b) (graph_of b) i)) (\<lambda>history.
         andthen (mapM (history_text b anchor) history) (\<lambda>committed.
           Inr (committed @ List.map_filter (\<lambda>ev. case appended_of ev of
                 Some (m, e, _, _, text, _, _, _) \<Rightarrow> (if m \<in> members then Some (e, text) else None)
               | None \<Rightarrow> None) (mb_buffer b))))))"

definition resolve_entry_ref ::
  "memory_id \<Rightarrow> entry_selector \<Rightarrow> memory_block \<Rightarrow> (memory_error, entry_id) result" where
  "resolve_entry_ref i selector b =
     (case selector of
        EntrySelector_Id e \<Rightarrow> Inr e
      | EntrySelector_Ref r \<Rightarrow>
          (let raw = trim r
           in case en_ulid_from_string (mb_engine b) raw of
                Some u \<Rightarrow> Inr (EntryId u)
              | None \<Rightarrow>
                  (let needle = to_ascii_uppercase raw
                   in if length needle < MIN_ENTRY_PREFIX then Inl (MemoryError_UnknownEntry raw)
                      else andthen (class_entry_texts b i) (\<lambda>texts.
                        let found = filter (\<lambda>(e, _). starts_with needle (en_ulid_str (mb_engine b) (entry_ulid e))) texts
                        in case found of
                             [] \<Rightarrow> Inl (MemoryError_UnknownEntry raw)
                           | [(e, _)] \<Rightarrow> Inr e
                           | _ \<Rightarrow> Inl (MemoryError_AmbiguousEntryPrefix raw found)))))"

definition class_write_target :: "memory_id \<Rightarrow> memory_block \<Rightarrow> (memory_error, memory_id) result" where
  "class_write_target i b =
     (if mb_connector_authored b then Inr i
      else case class_id (graph_of b) i of
             None \<Rightarrow> Inr i
           | Some primary \<Rightarrow>
               (if primary = i \<or> Some primary = mb_operator_id b \<or> Some primary = mb_self_id b then Inr i
                else andthen (read_graph (memory_by_id (jiff_of b) (graph_of b) primary)) (\<lambda>m.
                       Inr (if m = None then i else primary))))"

section \<open>The live entries a guard reads\<close>

record live_entry =
  le_entry_id :: entry_id
  le_told_by :: teller
  le_visibility :: visibility
  le_text :: string
  le_told_in :: "conversation_ref option"
  le_asserted_at :: timestamp
  le_attestations :: "(teller \<times> visibility) list"

definition fold_attestation ::
  "entry_id \<Rightarrow> event_payload \<Rightarrow> (teller \<times> visibility) list \<Rightarrow> (teller \<times> visibility) list" where
  "fold_attestation entry ev base =
     (case ev of
        EntryAttested _ target t _ _ posture _ _ _ \<Rightarrow>
          (if target \<noteq> entry then base
           else if t \<in> fst ` set base then
             (let n = length (takeWhile (\<lambda>(held, _). held \<noteq> t) base) in base[n := (t, posture)])
           else base @ [(t, posture)])
      | AttestationRetracted _ retracted t _ _ \<Rightarrow>
          (if retracted = entry then filter (\<lambda>(held, _). held \<noteq> t) base else base)
      | _ \<Rightarrow> base)"

definition fold_pending_attestations ::
  "memory_block \<Rightarrow> entry_id \<Rightarrow> (teller \<times> visibility) list \<Rightarrow> (teller \<times> visibility) list" where
  "fold_pending_attestations b entry base = fold (fold_attestation entry) (mb_buffer b) base"

definition live_of_view :: "memory_block \<Rightarrow> entry_view \<Rightarrow> live_entry" where
  "live_of_view b v =
     \<lparr>le_entry_id = vw_entry_id v, le_told_by = vw_told_by v, le_visibility = vw_visibility v,
      le_text = vw_text v, le_told_in = vw_told_in v, le_asserted_at = vw_asserted_at v,
      le_attestations = fold_pending_attestations b (vw_entry_id v)
        (map (\<lambda>a. (av_teller a, av_posture a)) (vw_attestations v))\<rparr>"

definition live_of_pending :: "memory_block \<Rightarrow> memory_id set \<Rightarrow> event_payload \<Rightarrow> live_entry option" where
  "live_of_pending b members ev =
     (case appended_of ev of
        Some (m, e, asserted, _, text, told_by, told_in, v) \<Rightarrow>
          (if m \<in> members \<and> e \<notin> pending_superseded b then
             Some \<lparr>le_entry_id = e, le_told_by = told_by, le_visibility = v, le_text = text,
                   le_told_in = told_in, le_asserted_at = asserted,
                   le_attestations = fold_pending_attestations b e [(told_by, v)]\<rparr>
           else None)
      | None \<Rightarrow> None)"

definition live_class_entries :: "memory_id \<Rightarrow> memory_block \<Rightarrow> (memory_error, live_entry list) result" where
  "live_class_entries i b =
     andthen (read_graph (class_entries (jiff_of b) (graph_of b) i)) (\<lambda>committed.
       Inr (map (live_of_view b) (filter (\<lambda>v. vw_entry_id v \<notin> pending_superseded b) committed)
            @ List.map_filter (live_of_pending b (set (class_members_of (graph_of b) i @ [i]))) (mb_buffer b)))"

definition guard_foreign_confidence_supersede ::
  "live_entry \<Rightarrow> memory_block \<Rightarrow> (memory_error, unit) result" where
  "guard_foreign_confidence_supersede e b =
     (if mb_authority b \<noteq> Authority_Platform then Inr ()
      else if open_posture (le_visibility e) then Inr ()
      else case le_told_by e of
             Teller_Participant _ \<Rightarrow>
               (if list_ex (\<lambda>(t, _). same_teller_class b t (mb_teller b)) (le_attestations e) then Inr ()
                else Inl MemoryError_ForeignConfidenceSupersedeForbidden)
           | _ \<Rightarrow> Inr ())"

section \<open>Buffering content\<close>

definition push_content ::
  "memory_id \<Rightarrow> string \<Rightarrow> teller \<Rightarrow> visibility \<Rightarrow> temporal_ref option \<Rightarrow> entry_id block_op" where
  "push_content i text told_by v occurred b =
     (let length_chars = length (chars_of text)
      in if length_chars > mb_max_entry_chars b
         then fail (MemoryError_ContentTooLong length_chars (mb_max_entry_chars b)) b
         else bind_op draw (\<lambda>u.
              bind_op (touch i) (\<lambda>_ b.
              bind_op (push (MemoryContentAppended i (EntryId u) (now b) occurred text told_by (mb_told_in b) v)) (\<lambda>_.
                ret (EntryId u)) b)) b)"

end
