(* ===== verification/Block_Reads.thy ===== *)
theory Block_Reads
  imports Block_Resolve
begin

text \<open>
  The reads of a block: \<open>reads.rs\<close> (the record of a memory but for its links, which are in \<open>Block_Links\<close>),
  \<open>calendar.rs\<close>, and the tag operations of \<open>tags.rs\<close>. A read touches what it returns, so that it enters the
  lock set.
\<close>

section \<open>Memories and entries\<close>

definition get :: "string \<Rightarrow> (memory_id \<times> bool) option block_op" where
  "get name =
     bind_op (query (\<lambda>b. read_graph (resolve b name))) (\<lambda>found.
       case found of
         Some i \<Rightarrow> bind_op (touch i) (\<lambda>_. ret (Some (i, False)))
       | None \<Rightarrow> (\<lambda>b.
           case memory_id_for_former_name (graph_of b) (MemoryName name) of
             Some i \<Rightarrow> bind_op (touch i) (\<lambda>_. ret (Some (i, True))) b
           | None \<Rightarrow> ret None b))"

definition entry_refs :: "memory_block \<Rightarrow> memory_id \<Rightarrow> annotated_entry list \<Rightarrow> entry_ref list" where
  "entry_refs b i annotated =
     map (\<lambda>a. entry_ref_of b (ae_entry a) (disputed_entries (graph_of b) i) (ae_withheld a) (ae_stale a)
            (ae_attesters a)) annotated"

definition entries :: "memory_id \<Rightarrow> entry_ref list block_op" where
  "entries i =
     bind_op (query (\<lambda>b.
       andthen (read_graph (class_entries (jiff_of b) (graph_of b) i)) (\<lambda>vs.
         annotate b i (filter (\<lambda>v. vw_entry_id v \<notin> pending_superseded b) vs)))) (\<lambda>annotated b.
     bind_op (touch_class i (class_members_of (graph_of b) i)) (\<lambda>members b.
       ret (entry_refs b i annotated @ pending_entries b members (pending_superseded b)) b) b)"

definition history :: "memory_id \<Rightarrow> entry_ref list block_op" where
  "history i =
     bind_op (query (\<lambda>b.
       andthen (read_graph (class_history (jiff_of b) (graph_of b) i)) (annotate b i))) (\<lambda>annotated b.
     bind_op (touch_class i (class_members_of (graph_of b) i)) (\<lambda>members b.
       ret (entry_refs b i annotated @ pending_entries b members {}) b) b)"

fun other_description ::
  "memory_block \<Rightarrow> memory_id \<Rightarrow> memory_id list \<Rightarrow> (memory_error, string option) result" where
  "other_description b primary [] = Inr None"
| "other_description b primary (m # ms) =
     (if m = primary then other_description b primary ms
      else andthen (read_graph (memory_by_id (jiff_of b) (graph_of b) m)) (\<lambda>v.
        case v of
          Some memory \<Rightarrow> (if mv_description memory \<noteq> [] then Inr (Some (mv_description memory))
                           else other_description b primary ms)
        | None \<Rightarrow> other_description b primary ms))"

definition class_description ::
  "memory_block \<Rightarrow> memory_id \<Rightarrow> memory_id list \<Rightarrow> (memory_error, string option) result" where
  "class_description b primary members =
     andthen (read_graph (memory_by_id (jiff_of b) (graph_of b) primary)) (\<lambda>m.
       if (case m of Some v \<Rightarrow> mv_description v | None \<Rightarrow> []) \<noteq> [] then Inr None
       else other_description b primary members)"

fun list_rows ::
  "memory_block \<Rightarrow> memory_id list \<Rightarrow> memory_id list \<Rightarrow> (memory_error, listed_memory list) result" where
  "list_rows b seen [] = Inr []"
| "list_rows b seen (i # is) =
     (case class_id (graph_of b) i of
        None \<Rightarrow> list_rows b seen is
      | Some primary \<Rightarrow>
          (if primary \<in> set seen then list_rows b seen is
           else let members = class_members_of (graph_of b) primary
                in andthen (if 1 < length members then class_description b primary members else Inr None) (\<lambda>d.
                   andthen (list_rows b (primary # seen) is) (\<lambda>rows.
                     Inr (\<lparr>lm_id = primary, lm_description = d\<rparr> # rows)))))"

definition list_by_prefix :: "memory_block \<Rightarrow> string \<Rightarrow> (memory_error, listed_memory list) result" where
  "list_by_prefix b pre = list_rows b [] (memory_ids_with_name_prefix (graph_of b) pre)"

definition class_members_read :: "memory_block \<Rightarrow> memory_id \<Rightarrow> memory_id list" where
  "class_members_read b i = class_members_of (graph_of b) i"

definition former_names_read :: "memory_block \<Rightarrow> memory_id \<Rightarrow> string list" where
  "former_names_read b i = map name_str (former_names (graph_of b) i)"

definition entry_ref_by_id :: "memory_block \<Rightarrow> entry_id \<Rightarrow> entry_ref option" where
  "entry_ref_by_id b entry =
     (case List.map_filter (\<lambda>ev. case appended_of ev of
               Some (i, e, asserted, occurred, text, told_by, told_in, v) \<Rightarrow>
                 (if e = entry then
                    Some \<lparr>er_entry_id = e, er_text = text, er_asserted_at = asserted, er_visibility = v,
                          er_teller = teller_label b told_by, er_attesters = [], er_disputed = False,
                          er_occurred_at = occurred, er_withheld = False, er_stale = False,
                          er_retracted_reason = None\<rparr>
                  else None)
             | None \<Rightarrow> None) (mb_buffer b) of
        r # _ \<Rightarrow> Some r
      | [] \<Rightarrow> None)"

definition entry_ref_by_id_any :: "memory_block \<Rightarrow> entry_id \<Rightarrow> (memory_error, entry_ref option) result" where
  "entry_ref_by_id_any b entry =
     (case entry_ref_by_id b entry of
        Some r \<Rightarrow> Inr (Some r)
      | None \<Rightarrow>
          andthen (read_graph (entry_by_id (jiff_of b) (graph_of b) entry)) (\<lambda>found.
            case found of
              None \<Rightarrow> Inr None
            | Some (memory, v) \<Rightarrow>
                andthen (withheld_from_present b memory v) (\<lambda>withheld.
                  Inr (Some (entry_ref_of b v {} withheld False [])))))"

section \<open>The calendar\<close>

definition DEFAULT_UPCOMING_DAYS :: int where "DEFAULT_UPCOMING_DAYS = 7"
definition DEFAULT_OVERDUE_DAYS :: int where "DEFAULT_OVERDUE_DAYS = 14"

definition read_millis :: "memory_block \<Rightarrow> int \<Rightarrow> (memory_error, timestamp) result" where
  "read_millis b n = read_graph (lift_panic (from_millis (jiff_of b) n))"

definition within_millis :: "string option \<Rightarrow> int \<Rightarrow> (memory_error, int) result" where
  "within_millis window dflt =
     (case window of
        Some text \<Rightarrow> (case parse_duration_millis text of Some n \<Rightarrow> Inr n | None \<Rightarrow> Inl (MemoryError_BadCalendarArg text))
      | None \<Rightarrow> Inr dflt)"

definition window_items ::
  "memory_block \<Rightarrow> timestamp \<Rightarrow> timestamp \<Rightarrow> bool \<Rightarrow> (memory_error, (timestamp \<times> memory_id) list) result" where
  "window_items b from to include_recurring =
     andthen (read_graph (occurrences_in_window (jiff_of b) (graph_of b) from to)) (\<lambda>occurrences.
     andthen (if include_recurring then read_graph (recurring_in_window (jiff_of b) (graph_of b) from to) else Inr [])
       (\<lambda>instances.
         Inr (List.map_filter (\<lambda>(m, v). map_option (\<lambda>s. (s, mv_id m)) (vw_occurred_sort v)) occurrences
              @ map (\<lambda>(instant, m). (instant, mv_id m)) instances)))"

definition occurrence_memories :: "timestamp \<Rightarrow> timestamp \<Rightarrow> bool \<Rightarrow> memory_id list block_op" where
  "occurrence_memories from to include_recurring =
     bind_op (query (\<lambda>b. window_items b from to include_recurring)) (\<lambda>items.
       let ordered = dedup_by id [] (map snd (sort_key fst items))
       in bind_op (each touch ordered) (\<lambda>_. ret ordered))"

definition upcoming :: "string option \<Rightarrow> memory_id list block_op" where
  "upcoming window =
     bind_op (query (\<lambda>b.
       andthen (within_millis window (DEFAULT_UPCOMING_DAYS * MILLIS_PER_DAY)) (\<lambda>w.
       andthen (read_millis b (now b)) (\<lambda>from.
       andthen (read_millis b (saturate64 (now b + w))) (\<lambda>to. Inr (from, to)))))) (\<lambda>(from, to).
     occurrence_memories from to True)"

definition overdue :: "string option \<Rightarrow> memory_id list block_op" where
  "overdue window =
     bind_op (query (\<lambda>b.
       andthen (within_millis window (DEFAULT_OVERDUE_DAYS * MILLIS_PER_DAY)) (\<lambda>w.
       andthen (read_millis b (saturate64 (now b - w))) (\<lambda>from.
       andthen (read_millis b (now b)) (\<lambda>to. Inr (from, to)))))) (\<lambda>(from, to).
     occurrence_memories from to False)"

definition on_day :: "string \<Rightarrow> memory_id list block_op" where
  "on_day date =
     bind_op (query (\<lambda>b.
       case day_window (jiff_of b) date of
         None \<Rightarrow> Inl (MemoryError_BadCalendarArg date)
       | Some (f, t) \<Rightarrow>
           andthen (read_millis b f) (\<lambda>from. andthen (read_millis b t) (\<lambda>to. Inr (from, to))))) (\<lambda>(from, to).
     occurrence_memories from to True)"

definition recurring :: "memory_id list block_op" where
  "recurring =
     bind_op (query (\<lambda>b. read_graph (recurring_memories (jiff_of b) (graph_of b)))) (\<lambda>ms.
       let ids = map mv_id ms in bind_op (each touch ids) (\<lambda>_. ret ids))"

definition validate_occurred_at :: "temporal_ref option \<Rightarrow> (memory_error, unit) result" where
  "validate_occurred_at occurred =
     (case occurred of
        Some (TemporalRef_Recurring rule) \<Rightarrow>
          (if rrule_is_supported rule then Inr () else Inl (MemoryError_UnsupportedRecurrence rule))
      | _ \<Rightarrow> Inr ())"

section \<open>Tags\<close>

definition tag_exists :: "tag_name \<Rightarrow> memory_block \<Rightarrow> bool" where
  "tag_exists name b \<longleftrightarrow>
     list_ex (\<lambda>ev. case ev of TagCreated created _ \<Rightarrow> created = name | _ \<Rightarrow> False) (mb_buffer b)
     \<or> tag_description (graph_of b) (tag_name_str name) \<noteq> None"

definition similar_tags :: "memory_block \<Rightarrow> tag_name \<Rightarrow> tag_name list" where
  "similar_tags b attempted =
     most_similar (tag_name_str attempted)
       (map (\<lambda>t. (tag_name_str (tv_name t), tv_name t)) (Graph_Memories.all_tags (graph_of b)))"

definition create_tag :: "tag_name \<Rightarrow> string \<Rightarrow> unit block_op" where
  "create_tag name description b =
     (if tag_exists name b then fail (MemoryError_TagExists name (similar_tags b name)) b
      else push (TagCreated name description) b)"

definition describe_tag :: "tag_name \<Rightarrow> string \<Rightarrow> unit block_op" where
  "describe_tag name description b =
     (if \<not> tag_exists name b then fail (MemoryError_UnknownTag name) b
      else push (TagDescriptionChanged name description) b)"

definition tag :: "memory_id \<Rightarrow> tag_name \<Rightarrow> unit block_op" where
  "tag i name =
     bind_op (query (guard_self i)) (\<lambda>_ b.
       if \<not> tag_exists name b then fail (MemoryError_UnknownTag name) b
       else bind_op (touch i) (\<lambda>_. push (TagAppliedToMemory i name)) b)"

definition untag :: "memory_id \<Rightarrow> tag_name \<Rightarrow> unit block_op" where
  "untag i name =
     bind_op (query (guard_self i)) (\<lambda>_.
     bind_op (query (guard_confidential_untag name)) (\<lambda>_.
     bind_op (touch i) (\<lambda>_. push (TagRemovedFromMemory i name))))"

end
