(* ===== verification/Block_Writes.thy ===== *)
theory Block_Writes
  imports Block_Reads
begin

text \<open>
  The content writes of a block, \<open>src/memory/memory_block/writes.rs\<close>: create, rename, append, supersede,
  revise and the volatility of a memory.
\<close>

definition similar_names :: "memory_block \<Rightarrow> memory_name \<Rightarrow> memory_name list outcome" where
  "similar_names b attempted =
     (case namespaced attempted of
        None \<Rightarrow> Inr []
      | Some n \<Rightarrow>
          (let pre = namespace_prefix (namespace_of n)
           in andthen
                (case chars_of (subject n) of
                   c # _ \<Rightarrow>
                     (let lower = scalar_lower c; upper = scalar_upper c;
                          names = memory_names_with_prefix (graph_of b) (pre @ utf8_of lower)
                      in Inr (if upper \<noteq> lower
                              then names @ memory_names_with_prefix (graph_of b) (pre @ utf8_of upper)
                              else names))
                 | [] \<Rightarrow> andthen (memories_in_namespace (jiff_of b) (graph_of b) pre) (\<lambda>ms. Inr (map mv_name ms)))
                (\<lambda>names.
                   Inr (most_similar (subject n)
                     (map (\<lambda>m. (case strip_prefix pre (name_str m) of Some s \<Rightarrow> s | None \<Rightarrow> name_str m, m)) names)))))"

definition platform_qualified :: "string \<Rightarrow> bool" where
  "platform_qualified name =
     (case namespaced (MemoryName name) of Some n \<Rightarrow> is_platform_qualified n | None \<Rightarrow> False)"

definition entry_teller :: "append_options \<Rightarrow> teller \<Rightarrow> teller" where
  "entry_teller opts speaker =
     (case opt_told_by opts of
        Some t \<Rightarrow> t
      | None \<Rightarrow> (if by_agent opts then Teller_Agent else speaker))"

text \<open>The first entry of \<open>create_with_opts\<close>: its text, teller, visibility, occurrence and volatility.\<close>

type_synonym first_entry = "string \<times> teller \<times> visibility \<times> temporal_ref option \<times> volatility_choice option"

definition remember_open_seed :: "memory_id \<Rightarrow> bool \<Rightarrow> visibility \<Rightarrow> unit block_op" where
  "remember_open_seed i unforced v b =
     (Inr (), if unforced \<and> open_posture v
              then b\<lparr>mb_open_default_seeds := insert i (mb_open_default_seeds b)\<rparr> else b)"

definition resolve_first_entry ::
  "memory_name \<Rightarrow> memory_id \<Rightarrow> string \<Rightarrow> append_options \<Rightarrow> first_entry block_op" where
  "resolve_first_entry name i text opts b =
     (let t = entry_teller opts (mb_teller b)
      in bind_op (query (\<lambda>b. reconcile_forced_visibility (opt_visibility opts) (opt_exclude opts))) (\<lambda>forced b.
           if forced = None \<and> \<not> mb_confidential_context b \<and> mb_authority b = Authority_Platform
              \<and> subject_participant (name_str name) i \<noteq> None
           then fail MemoryError_VisibilityRequiredOnCreate b
           else
             bind_op (query (\<lambda>b. resolve_visibility b (Some (name_str name)) i t forced)) (\<lambda>v.
             bind_op (query (\<lambda>b. validate_occurred_at (opt_occurred_at opts))) (\<lambda>_.
             bind_op (remember_open_seed i (forced = None) v) (\<lambda>_.
               ret (text, t, v, opt_occurred_at opts, opt_volatility opts)))) b) b)"

definition push_first_entry :: "memory_id \<Rightarrow> first_entry \<Rightarrow> unit block_op" where
  "push_first_entry i fe =
     (case fe of
        (text, t, v, occurred, volatility) \<Rightarrow>
          bind_op (push_content i text t v occurred) (\<lambda>entry.
          bind_op (push (EntryDescriptionMirrored i entry)) (\<lambda>_.
            case volatility of
              Some w \<Rightarrow> push (MemoryVolatilitySet i (into_volatility w))
            | None \<Rightarrow> ret ())))"

definition create_with_opts :: "memory_name \<Rightarrow> string option \<Rightarrow> append_options option \<Rightarrow> memory_id block_op" where
  "create_with_opts name content opts =
     transaction
       (bind_op (query (\<lambda>b. read_graph (resolve b (name_str name)))) (\<lambda>found.
          if found \<noteq> None then
            bind_op (query (\<lambda>b. read_graph (similar_names b name))) (\<lambda>similar.
              fail (MemoryError_NameExists name similar))
          else
            bind_op draw (\<lambda>u.
            let i = MemoryId u
            in bind_op
                 (case content of
                    Some text \<Rightarrow>
                      bind_op (resolve_first_entry name i text (case opts of Some p \<Rightarrow> p | None \<Rightarrow> default_options))
                        (\<lambda>fe. ret (Some fe))
                  | None \<Rightarrow> ret None) (\<lambda>first_entry.
               bind_op (touch i) (\<lambda>_.
               bind_op (push (MemoryCreated i name)) (\<lambda>_.
               bind_op (case first_entry of Some fe \<Rightarrow> push_first_entry i fe | None \<Rightarrow> ret ()) (\<lambda>_.
                 ret i)))))))"

definition create :: "memory_name \<Rightarrow> string option \<Rightarrow> memory_id block_op" where
  "create name content = create_with_opts name content None"

definition link_endpoint :: "string \<Rightarrow> memory_id block_op" where
  "link_endpoint name =
     bind_op (get name) (\<lambda>found.
       case found of
         Some (i, _) \<Rightarrow> ret i
       | None \<Rightarrow>
           bind_op (query (\<lambda>b. read_graph (similar_names b (MemoryName name)))) (\<lambda>similar.
             if similar \<noteq> [] then fail (MemoryError_LinkEndpointNearMatch (MemoryName name) similar)
             else create (MemoryName name) None))"

definition rename :: "memory_id \<Rightarrow> string \<Rightarrow> unit block_op" where
  "rename i new_name =
     bind_op (query (guard_self i)) (\<lambda>_.
     bind_op (query (\<lambda>b. read_graph (resolve b new_name))) (\<lambda>existing b.
       if existing = Some i then ret () b
       else if mb_authority b = Authority_Platform \<and> platform_qualified new_name
       then fail (MemoryError_RenameOntoPlatformHandle (MemoryName new_name)) b
       else if existing \<noteq> None then
         bind_op (query (\<lambda>b. read_graph (similar_names b (MemoryName new_name)))) (\<lambda>similar.
           fail (MemoryError_NameExists (MemoryName new_name) similar)) b
       else
         bind_op (query (\<lambda>b. read_graph (resolve_name b i))) (\<lambda>old b.
           case old of
             None \<Rightarrow> ret () b
           | Some old_name \<Rightarrow>
               (if mb_authority b = Authority_Platform \<and> platform_qualified (name_str old_name)
                then fail (MemoryError_RenameOfPlatformHandle old_name) b
                else bind_op (touch i) (\<lambda>_. push (MemoryRenamed i old_name (MemoryName new_name))) b)) b))"

text \<open>The guards every content write to an existing memory passes, on the class primary.\<close>

definition guarded_target :: "memory_id \<Rightarrow> memory_id block_op" where
  "guarded_target i =
     bind_op (query (class_write_target i)) (\<lambda>i.
     bind_op (query (guard_self i)) (\<lambda>_.
     bind_op (query (guard_operator i)) (\<lambda>_. ret i)))"

definition is_exclude :: "visibility \<Rightarrow> bool" where
  "is_exclude v = (case v of Visibility_Exclude _ \<Rightarrow> True | _ \<Rightarrow> False)"

definition append :: "memory_id \<Rightarrow> string \<Rightarrow> append_options \<Rightarrow> entry_id block_op" where
  "append i text opts =
     bind_op (guarded_target i) (\<lambda>i b.
     (let told_by = entry_teller opts (mb_teller b)
      in bind_op (query (\<lambda>b. read_graph (resolve_name b i))) (\<lambda>name.
         bind_op (query (\<lambda>b. reconcile_forced_visibility (opt_visibility opts) (opt_exclude opts))) (\<lambda>forced.
         bind_op (query (\<lambda>b. resolve_visibility b (map_option name_str name) i told_by forced)) (\<lambda>v b.
           if is_exclude v \<and> i \<in> mb_open_default_seeds b then fail MemoryError_UnguardedSeedBesideExclude b
           else
             bind_op (query (\<lambda>b. validate_occurred_at (opt_occurred_at opts))) (\<lambda>_.
             bind_op (push_content i text told_by v (opt_occurred_at opts)) (\<lambda>entry.
             bind_op (case opt_volatility opts of
                        Some w \<Rightarrow> push (MemoryVolatilitySet i (into_volatility w))
                      | None \<Rightarrow> ret ()) (\<lambda>_.
               ret entry))) b))) b))"

definition find_live :: "entry_id \<Rightarrow> live_entry list \<Rightarrow> memory_block \<Rightarrow> (memory_error, live_entry) result" where
  "find_live e live b =
     (case List.find (\<lambda>l. le_entry_id l = e) live of
        Some l \<Rightarrow> Inr l
      | None \<Rightarrow> Inl (MemoryError_UnknownEntry (en_ulid_str (mb_engine b) (entry_ulid e))))"

definition supersede :: "memory_id \<Rightarrow> entry_selector \<Rightarrow> entry_selector \<Rightarrow> unit block_op" where
  "supersede i old new =
     bind_op (guarded_target i) (\<lambda>i.
     bind_op (query (resolve_entry_ref i old)) (\<lambda>old.
     bind_op (query (resolve_entry_ref i new)) (\<lambda>new.
     bind_op (query (live_class_entries i)) (\<lambda>live.
     bind_op (query (find_live old live)) (\<lambda>old_entry.
     bind_op (query (find_live new live)) (\<lambda>_.
     bind_op (query (guard_foreign_confidence_supersede old_entry)) (\<lambda>_.
     bind_op (touch i) (\<lambda>_.
       push (MemorySuperseded i old new)))))))))"

definition entry_occurred_at :: "memory_block \<Rightarrow> memory_id \<Rightarrow> entry_id \<Rightarrow> (memory_error, temporal_ref option) result" where
  "entry_occurred_at b i old =
     (case entry_ref_by_id b old of
        Some r \<Rightarrow> Inr (er_occurred_at r)
      | None \<Rightarrow>
          andthen (read_graph (class_history (jiff_of b) (graph_of b) i)) (\<lambda>vs.
            Inr (Option.bind (List.find (\<lambda>v. vw_entry_id v = old) vs) vw_occurred_at)))"

definition revise :: "memory_id \<Rightarrow> entry_id \<Rightarrow> string \<Rightarrow> append_options \<Rightarrow> entry_id block_op" where
  "revise i old text opts =
     bind_op (if opt_occurred_at opts = None
              then bind_op (query (\<lambda>b. entry_occurred_at b i old)) (\<lambda>t. ret (opts\<lparr>opt_occurred_at := t\<rparr>))
              else ret opts) (\<lambda>opts.
     transaction
       (bind_op (append i text opts) (\<lambda>new.
        bind_op (supersede i (EntrySelector_Id old) (EntrySelector_Id new)) (\<lambda>_.
          ret new))))"

definition set_volatility :: "memory_id \<Rightarrow> string \<Rightarrow> unit block_op" where
  "set_volatility i level =
     bind_op (query (class_write_target i)) (\<lambda>i.
     bind_op (query (guard_self i)) (\<lambda>_.
       case volatility_from_str level of
         None \<Rightarrow> fail (MemoryError_UnknownVolatility level)
       | Some v \<Rightarrow> bind_op (touch i) (\<lambda>_. push (MemoryVolatilitySet i v))))"

end
