(* ===== verification/Block_Attest.thy ===== *)
theory Block_Attest
  imports Block_Writes
begin

text \<open>
  Attestation writes, \<open>src/memory/memory_block/attest.rs\<close>: the capture of a near-identical entry behind
  \<open>append\<close>, the explicit \<open>attest\<close>, and the shared write that keeps an endorsement from widening its entry.
  The vector keys are those of \<open>src/model/index/mod.rs\<close>; the search behind them is \<open>en_retrieval\<close>.
\<close>

section \<open>Vector keys\<close>

datatype vector_key =
    VectorKey_Description memory_id
  | VectorKey_Entry entry_id
  | VectorKey_EntryContextual entry_id

definition DESCRIPTION_PREFIX :: string where "DESCRIPTION_PREFIX = ''mem:''"
definition ENTRY_PREFIX :: string where "ENTRY_PREFIX = ''entry:''"
definition ENTRY_CONTEXTUAL_PREFIX :: string where "ENTRY_CONTEXTUAL_PREFIX = ''entryctx:''"

fun to_vector_id :: "(nat \<Rightarrow> string) \<Rightarrow> vector_key \<Rightarrow> string" where
  "to_vector_id ulid_str (VectorKey_Description i) = DESCRIPTION_PREFIX @ ulid_str (memory_ulid i)"
| "to_vector_id ulid_str (VectorKey_Entry e) = ENTRY_PREFIX @ ulid_str (entry_ulid e)"
| "to_vector_id ulid_str (VectorKey_EntryContextual e) = ENTRY_CONTEXTUAL_PREFIX @ ulid_str (entry_ulid e)"

definition parse_vector_key :: "(string \<Rightarrow> nat option) \<Rightarrow> string \<Rightarrow> vector_key option" where
  "parse_vector_key from_string raw =
     (case strip_prefix DESCRIPTION_PREFIX raw of
        Some u \<Rightarrow> map_option (\<lambda>n. VectorKey_Description (MemoryId n)) (from_string u)
      | None \<Rightarrow>
          (case strip_prefix ENTRY_PREFIX raw of
             Some u \<Rightarrow> map_option (\<lambda>n. VectorKey_Entry (EntryId n)) (from_string u)
           | None \<Rightarrow>
               (case strip_prefix ENTRY_CONTEXTUAL_PREFIX raw of
                  Some u \<Rightarrow> map_option (\<lambda>n. VectorKey_EntryContextual (EntryId n)) (from_string u)
                | None \<Rightarrow> None)))"

section \<open>The capture scan\<close>

record dedup_scan =
  ds_capture :: "(memory_view \<times> entry_view) option"
  ds_cross_class :: "(memory_view \<times> entry_view) option"

definition default_scan :: dedup_scan where
  "default_scan = \<lparr>ds_capture = None, ds_cross_class = None\<rparr>"

definition visible_to_writer :: "memory_block \<Rightarrow> teller \<Rightarrow> entry_view \<Rightarrow> bool" where
  "visible_to_writer b told_by v \<longleftrightarrow>
     open_posture (vw_visibility v) \<or> same_teller_class b (vw_told_by v) told_by"

fun dedup_loop ::
  "memory_block \<Rightarrow> rat \<Rightarrow> rat \<Rightarrow> memory_id \<Rightarrow> entry_id option \<Rightarrow> teller \<Rightarrow> (memory_view \<times> entry_view) option
    \<Rightarrow> scored_hit list \<Rightarrow> (memory_error, dedup_scan) result" where
  "dedup_loop b capture advisory cls apart told_by cross [] =
     Inr \<lparr>ds_capture = None, ds_cross_class = cross\<rparr>"
| "dedup_loop b capture advisory cls apart told_by cross (h # hs) =
     (if hit_score h < advisory then Inr \<lparr>ds_capture = None, ds_cross_class = cross\<rparr>
      else case parse_vector_key (en_ulid_from_string (mb_engine b)) (hit_id h) of
        Some (VectorKey_EntryContextual e) \<Rightarrow>
          (if Some e = apart then dedup_loop b capture advisory cls apart told_by cross hs
           else andthen (read_graph (entry_by_id (jiff_of b) (graph_of b) e)) (\<lambda>candidate.
             case candidate of
               None \<Rightarrow> dedup_loop b capture advisory cls apart told_by cross hs
             | Some (memory, v) \<Rightarrow>
                 (if vw_superseded_by v \<noteq> None then dedup_loop b capture advisory cls apart told_by cross hs
                  else if class_or_self (graph_of b) (mv_id memory) \<noteq> cls then
                    dedup_loop b capture advisory cls apart told_by
                      (if cross = None \<and> open_posture (vw_visibility v) then Some (memory, v) else cross) hs
                  else if visible_to_writer b told_by v \<and> capture \<le> hit_score h
                  then Inr \<lparr>ds_capture = Some (memory, v), ds_cross_class = cross\<rparr>
                  else dedup_loop b capture advisory cls apart told_by cross hs)))
      | _ \<Rightarrow> dedup_loop b capture advisory cls apart told_by cross hs)"

definition find_dedup_target ::
  "memory_id \<Rightarrow> embedding option \<Rightarrow> entry_id option \<Rightarrow> teller \<Rightarrow> memory_block \<Rightarrow> (memory_error, dedup_scan) result" where
  "find_dedup_target i dedup_embedding apart told_by b =
     (case (dedup_embedding, en_retrieval (mb_engine b)) of
        (Some embedding, Some search) \<Rightarrow>
          (let capture = en_dedup_threshold (mb_engine b);
               advisory = min (en_consolidation_threshold (mb_engine b)) capture
           in case search embedding 50 of
                Inl message \<Rightarrow> Inl (MemoryError_Graph (Err (GraphError_Malformed message)))
              | Inr hits \<Rightarrow>
                  andthen (class_write_target i b) (\<lambda>class_target.
                    dedup_loop b capture advisory (class_or_self (graph_of b) class_target) apart told_by None hits))
      | _ \<Rightarrow> Inr default_scan)"

section \<open>The write\<close>

datatype note_style = NoteStyle_AutoAppend | NoteStyle_Explicit

fun posture_width :: "visibility \<Rightarrow> nat" where
  "posture_width Visibility_Public = 2"
| "posture_width Visibility_Attributed = 2"
| "posture_width Visibility_PrivateToTeller = 1"
| "posture_width (Visibility_Exclude ids) = 0"

fun posture_label :: "visibility \<Rightarrow> string" where
  "posture_label Visibility_Public = ''public''"
| "posture_label Visibility_Attributed = ''attributed''"
| "posture_label Visibility_PrivateToTeller = ''private''"
| "posture_label (Visibility_Exclude ids) = ''private''"

definition ELLIPSIS :: string where "ELLIPSIS = [CHR 0xE2, CHR 0x80, CHR 0xA6]"

definition attestation_snippet :: "string \<Rightarrow> string" where
  "attestation_snippet text =
     (let text = trim text
      in if length (chars_of text) \<le> 60 then text else utf8_text (take 60 (chars_of text)) @ ELLIPSIS)"

record attest_target =
  tg_memory :: memory_id
  tg_text :: string
  tg_attestations :: "(teller \<times> visibility) list"

record attestation_write =
  aw_memory :: memory_id
  aw_entry :: entry_id
  aw_entry_text :: string
  aw_founding_posture :: visibility
  aw_existing :: "(teller \<times> visibility) list"
  aw_teller :: teller
  aw_posture :: visibility
  aw_phrasing :: "string option"
  aw_note_style :: note_style

definition already_note :: "string \<Rightarrow> string \<Rightarrow> string \<Rightarrow> string" where
  "already_note ulid snippet label =
     ''entry '' @ ulid @ '' '' @ EM_DASH @ '' '' @ [CHR 0x22] @ snippet @ [CHR 0x22] @ '' '' @ EM_DASH
     @ '' is already attested at '' @ label @ '' visibility; nothing recorded.''"

definition recorded_note :: "note_style \<Rightarrow> bool \<Rightarrow> nat \<Rightarrow> string \<Rightarrow> string \<Rightarrow> string \<Rightarrow> string" where
  "recorded_note style re_attest attesters ulid snippet label =
     (let quoted = [CHR 0x22] @ snippet @ [CHR 0x22]
      in if re_attest then
           ''updated your attestation of entry '' @ ulid @ '' '' @ EM_DASH @ '' '' @ quoted @ '' '' @ EM_DASH
           @ '' to '' @ label @ '' visibility.''
         else case style of
           NoteStyle_AutoAppend \<Rightarrow>
             ''recorded as corroboration of entry '' @ ulid @ '' '' @ EM_DASH @ '' '' @ quoted
             @ ''; now attested by '' @ show_nat attesters
             @ '' tellers. If what you were told is genuinely different, re-append with distinct_from = ''
             @ [CHR 0x22] @ ulid @ [CHR 0x22] @ '' and include the distinguishing detail.''
         | NoteStyle_Explicit \<Rightarrow>
             ''attested entry '' @ ulid @ '' '' @ EM_DASH @ '' '' @ quoted @ '' '' @ EM_DASH @ '' at '' @ label
             @ '' visibility.'')"

text \<open>The first endorsement the writer's identity already holds, committed or pending.\<close>

definition held_posture :: "memory_block \<Rightarrow> teller \<Rightarrow> (teller \<times> visibility) list \<Rightarrow> visibility option" where
  "held_posture b t existing = map_option snd (List.find (\<lambda>(held, _). same_teller_class b held t) existing)"

definition record_attestation :: "attestation_write \<Rightarrow> corroboration block_op" where
  "record_attestation w b =
     (if posture_width (aw_posture w) > posture_width (aw_founding_posture w)
      then fail MemoryError_AttestationWiderThanEntry b
      else
        let existing = aw_existing w @ pending_attestations b (aw_entry w);
            held = held_posture b (aw_teller w) existing;
            ulid = en_ulid_str (mb_engine b) (entry_ulid (aw_entry w));
            snippet = attestation_snippet (aw_entry_text w);
            label = posture_label (aw_posture w)
        in if held = Some (aw_posture w)
           then ret \<lparr>co_entry = aw_entry w, co_note = already_note ulid snippet label\<rparr> b
           else
             bind_op (touch (aw_memory w)) (\<lambda>_ b.
             bind_op (push (EntryAttested (aw_memory w) (aw_entry w) (aw_teller w) (mb_told_in b) (now b)
                              (aw_posture w) (aw_phrasing w) None None)) (\<lambda>_.
               ret \<lparr>co_entry = aw_entry w,
                    co_note = recorded_note (aw_note_style w) (held \<noteq> None) (length existing + 1) ulid snippet label\<rparr>) b) b)"

definition corroborate_append ::
  "memory_view \<Rightarrow> entry_view \<Rightarrow> string \<Rightarrow> append_options \<Rightarrow> append_outcome block_op" where
  "corroborate_append memory v text opts b =
     (let told_by = entry_teller opts (mb_teller b)
      in if same_teller_class b (vw_told_by v) told_by
         then fail (MemoryError_DuplicateEntry (vw_entry_id v) (vw_text v)) b
         else
           bind_op (query (\<lambda>b. reconcile_forced_visibility (opt_visibility opts) (opt_exclude opts))) (\<lambda>forced.
           bind_op (query (\<lambda>b. resolve_visibility b (Some (name_str (mv_name memory))) (mv_id memory) told_by forced))
             (\<lambda>posture.
           bind_op (record_attestation
               \<lparr>aw_memory = mv_id memory, aw_entry = vw_entry_id v, aw_entry_text = vw_text v,
                aw_founding_posture = vw_visibility v,
                aw_existing = map (\<lambda>a. (av_teller a, av_posture a)) (vw_attestations v),
                aw_teller = told_by, aw_posture = posture,
                aw_phrasing = (if text \<noteq> vw_text v then Some text else None),
                aw_note_style = NoteStyle_AutoAppend\<rparr>) (\<lambda>c.
             ret (AppendOutcome_Corroborated c)))) b)"

definition append_advisory :: "memory_block \<Rightarrow> memory_view \<times> entry_view \<Rightarrow> string" where
  "append_advisory b found =
     (case found of
        (memory, v) \<Rightarrow>
          ''note: a near-identical fact already lives on '' @ name_str (mv_name memory) @ '' [''
          @ en_ulid_str (mb_engine b) (entry_ulid (vw_entry_id v)) @ '']: '' @ [CHR 0x22]
          @ attestation_snippet (vw_text v) @ [CHR 0x22]
          @ ''. If this is one fact about several subjects, record it once where it most belongs '' @ EM_DASH
          @ '' the shared topic or event '' @ EM_DASH
          @ '' and link the cast, rather than re-phrasing it per subject.'')"

definition append_dedup ::
  "memory_id \<Rightarrow> string \<Rightarrow> append_options \<Rightarrow> embedding option \<Rightarrow> append_outcome block_op" where
  "append_dedup i text opts dedup_embedding =
     bind_op (case distinct_from opts of
                Some selector \<Rightarrow> bind_op (query (resolve_entry_ref i selector)) (\<lambda>e. ret (Some e))
              | None \<Rightarrow> ret None) (\<lambda>apart b.
     bind_op (query (find_dedup_target i dedup_embedding apart (entry_teller opts (mb_teller b)))) (\<lambda>scan b.
       (let opts = opts\<lparr>distinct_from := None\<rparr>;
            advisory = map_option (append_advisory b) (ds_cross_class scan)
        in case ds_capture scan of
             Some (memory, v) \<Rightarrow> corroborate_append memory v text opts b
           | None \<Rightarrow>
               bind_op (append i text opts) (\<lambda>entry. ret (AppendOutcome_Appended entry advisory)) b)) b)"

definition attest_target_of :: "entry_id \<Rightarrow> memory_block \<Rightarrow> (memory_error, attest_target) result" where
  "attest_target_of entry b =
     andthen (read_graph (entry_by_id (jiff_of b) (graph_of b) entry)) (\<lambda>committed.
       case committed of
         Some (memory, v) \<Rightarrow>
           andthen (withheld_from_present b memory v) (\<lambda>withheld.
             Inr \<lparr>tg_memory = mv_id memory, tg_text = (if withheld then WITHHELD_STUB else vw_text v),
                  tg_attestations = map (\<lambda>a. (av_teller a, av_posture a)) (vw_attestations v)\<rparr>)
       | None \<Rightarrow>
           (case List.map_filter (\<lambda>ev. case appended_of ev of
                     Some (i, e, _, _, text, _, _, _) \<Rightarrow> (if e = entry then Some (i, text) else None)
                   | None \<Rightarrow> None) (mb_buffer b) of
              (i, text) # _ \<Rightarrow> Inr \<lparr>tg_memory = i, tg_text = text, tg_attestations = []\<rparr>
            | [] \<Rightarrow> Inl (MemoryError_UnknownEntry (en_ulid_str (mb_engine b) (entry_ulid entry)))))"

definition attest :: "memory_id \<Rightarrow> entry_selector \<Rightarrow> append_options \<Rightarrow> corroboration block_op" where
  "attest i selector opts =
     bind_op (guarded_target i) (\<lambda>i.
     bind_op (query (resolve_entry_ref i selector)) (\<lambda>entry.
     bind_op (query (live_class_entries i)) (\<lambda>live.
     bind_op (query (find_live entry live)) (\<lambda>target.
     bind_op (query (attest_target_of entry)) (\<lambda>found b.
     (let told_by = entry_teller opts (mb_teller b)
      in bind_op (query (\<lambda>b. read_graph (resolve_name b (tg_memory found)))) (\<lambda>name.
         bind_op (query (\<lambda>b. reconcile_forced_visibility (opt_visibility opts) (opt_exclude opts))) (\<lambda>forced.
         bind_op (query (\<lambda>b. resolve_visibility b (map_option name_str name) (tg_memory found) told_by forced))
           (\<lambda>posture.
         record_attestation
           \<lparr>aw_memory = tg_memory found, aw_entry = entry, aw_entry_text = tg_text found,
            aw_founding_posture = le_visibility target, aw_existing = tg_attestations found,
            aw_teller = told_by, aw_posture = posture, aw_phrasing = None,
            aw_note_style = NoteStyle_Explicit\<rparr>))) b))))))"

end
