(* ===== verification/Block_Links.thy ===== *)
theory Block_Links
  imports Block_Attest
begin

text \<open>
  The links of a block, \<open>src/memory/memory_block/links.rs\<close>, and the whole record of a memory
  (\<open>details\<close> of \<open>reads.rs\<close>), which carries them.
\<close>

section \<open>Reads\<close>

fun latest_dated_loop ::
  "memory_block \<Rightarrow> memory_view \<Rightarrow> temporal_ref option \<Rightarrow> temporal_ref option \<Rightarrow> entry_view list
    \<Rightarrow> (memory_error, temporal_ref option) result" where
  "latest_dated_loop b memory authored extracted [] =
     Inr (case authored of Some t \<Rightarrow> Some t | None \<Rightarrow> extracted)"
| "latest_dated_loop b memory authored extracted (v # vs) =
     (if vw_occurred_at v = None then latest_dated_loop b memory authored extracted vs
      else andthen
        (if mb_present_set b = [] then Inr True
         else read_graph (visible v memory (mb_present_set b) (graph_class_of (graph_of b)))) (\<lambda>shown.
          if \<not> shown then latest_dated_loop b memory authored extracted vs
          else if vw_occurred_authored v then latest_dated_loop b memory (vw_occurred_at v) extracted vs
          else latest_dated_loop b memory authored (vw_occurred_at v) vs))"

definition latest_dated_occurrence :: "memory_block \<Rightarrow> memory_view \<Rightarrow> (memory_error, temporal_ref option) result" where
  "latest_dated_occurrence b memory =
     andthen (read_graph (class_entries (jiff_of b) (graph_of b) (mv_id memory))) (latest_dated_loop b memory None None)"

definition link_teller_label :: "memory_block \<Rightarrow> teller option \<Rightarrow> (memory_error, string option) result" where
  "link_teller_label b told_by =
     (case told_by of
        None \<Rightarrow> Inr None
      | Some Teller_Agent \<Rightarrow> Inr (Some ''you'')
      | Some Teller_Bootstrap \<Rightarrow> Inr (Some ''genesis'')
      | Some (Teller_Participant t) \<Rightarrow>
          andthen (read_graph (memory_by_id (jiff_of b) (graph_of b) (class_or_self (graph_of b) t))) (\<lambda>m.
            Inr (Some (case m of Some v \<Rightarrow> name_str (mv_name v) | None \<Rightarrow> ''someone''))))"

definition link_shown :: "memory_block \<Rightarrow> class_link_view \<Rightarrow> (memory_error, bool) result" where
  "link_shown b edge =
     (if mb_present_set b = [] then Inr True
      else andthen (read_graph (relation_view_of (graph_of b) (relation_name_str (cl_relation edge)))) (\<lambda>r.
        read_graph (link_visible (class_link_view_vis edge)
          (case r of Some v \<Rightarrow> rv_symmetric v | None \<Rightarrow> False) (mb_present_set b) (graph_class_of (graph_of b)))))"

text \<open>The loop of \<open>class_link_refs\<close>; \<open>seen\<close> holds the relation, direction and far primary already listed.\<close>

fun link_refs_loop ::
  "memory_block \<Rightarrow> memory_id list \<Rightarrow> (relation_name \<times> bool \<times> memory_id) list \<Rightarrow> class_link_view list
    \<Rightarrow> (memory_error, link_ref list) result" where
  "link_refs_loop b cls seen [] = Inr []"
| "link_refs_loop b cls seen (edge # edges) =
     (let from_in = (cl_from edge \<in> set cls); to_in = (cl_to edge \<in> set cls)
      in if from_in = to_in then link_refs_loop b cls seen edges
         else
           let direction = (if from_in then LinkDirection_Outgoing else LinkDirection_Incoming);
               other_id = (if from_in then cl_to edge else cl_from edge);
               far_primary = class_or_self (graph_of b) other_id;
               key = (cl_relation edge, direction = LinkDirection_Incoming, far_primary)
           in if far_primary \<in> set cls then link_refs_loop b cls seen edges
              else andthen (link_shown b edge) (\<lambda>shown.
                if \<not> shown then link_refs_loop b cls seen edges
                else if key \<in> set seen then link_refs_loop b cls seen edges
                else andthen (read_graph (memory_by_id (jiff_of b) (graph_of b) far_primary)) (\<lambda>m.
                  case m of
                    None \<Rightarrow> link_refs_loop b cls (key # seen) edges
                  | Some other \<Rightarrow>
                      andthen (link_teller_label b (cl_told_by edge)) (\<lambda>told_by.
                      andthen (latest_dated_occurrence b other) (\<lambda>occurred.
                      andthen (link_refs_loop b cls (key # seen) edges) (\<lambda>refs.
                        Inr (\<lparr>lr_relation = cl_relation edge, lr_other = mv_id other, lr_other_name = mv_name other,
                              lr_direction = direction, lr_source = cl_source edge, lr_told_by = told_by,
                              lr_occurred_at = occurred\<rparr> # refs)))))))"

definition class_link_refs :: "memory_id \<Rightarrow> link_ref list block_op" where
  "class_link_refs i =
     bind_op (query (\<lambda>b.
       andthen (read_graph (class_links (graph_of b) i)) (link_refs_loop b (class_members_of (graph_of b) i) [])))
       (\<lambda>refs b. bind_op (touch_class i (class_members_of (graph_of b) i)) (\<lambda>_. ret refs) b)"

definition relation_read :: "string \<Rightarrow> memory_block \<Rightarrow> (memory_error, relation_view option) result" where
  "relation_read name b = read_graph (relation_view_of (graph_of b) name)"

definition all_relations_read :: "memory_block \<Rightarrow> (memory_error, relation_view list) result" where
  "all_relations_read b = read_graph (all_relations (graph_of b))"

definition directed_links :: "memory_id \<Rightarrow> string \<Rightarrow> link_direction \<Rightarrow> link_ref list block_op" where
  "directed_links i relation want =
     bind_op (query (relation_read relation)) (\<lambda>r.
       case r of
         None \<Rightarrow> fail (MemoryError_UnknownRelation (relation_name_new relation))
       | Some v \<Rightarrow>
           bind_op (class_link_refs i) (\<lambda>refs.
             ret (filter (\<lambda>l. lr_relation l = rv_name v \<and> (rv_symmetric v \<or> lr_direction l = want)) refs)))"

definition outgoing_links :: "memory_id \<Rightarrow> string \<Rightarrow> link_ref list block_op" where
  "outgoing_links i relation = directed_links i relation LinkDirection_Outgoing"

definition incoming_links :: "memory_id \<Rightarrow> string \<Rightarrow> link_ref list block_op" where
  "incoming_links i relation = directed_links i relation LinkDirection_Incoming"

definition links_read :: "memory_id \<Rightarrow> link_ref list block_op" where
  "links_read i = class_link_refs i"

definition details :: "memory_id \<Rightarrow> memory_details block_op" where
  "details i =
     bind_op (query (\<lambda>b. read_graph (memory_by_id (jiff_of b) (graph_of b) i))) (\<lambda>view.
     bind_op (query (\<lambda>b. read_graph (resolve_name b i))) (\<lambda>name b.
     (let shown = (case name of
                     Some n \<Rightarrow> name_str n
                   | None \<Rightarrow> (case view of Some m \<Rightarrow> name_str (mv_name m) | None \<Rightarrow> []))
      in bind_op (entries i) (\<lambda>es.
         bind_op (links_read i) (\<lambda>ls.
           ret \<lparr>md_name = shown,
                md_description = (case view of Some m \<Rightarrow> mv_description m | None \<Rightarrow> []),
                md_former_names = former_names_read b i, md_entries = es, md_links = ls,
                md_tags = (case view of Some m \<Rightarrow> mv_tags m | None \<Rightarrow> []),
                md_volatility = (case view of Some m \<Rightarrow> mv_volatility m | None \<Rightarrow> Volatility_Medium)\<rparr>)) b)))"

section \<open>Writes\<close>

definition propose_merge :: "memory_id \<Rightarrow> memory_id \<Rightarrow> string option \<Rightarrow> unit block_op" where
  "propose_merge from_id to_id rationale =
     (if from_id = to_id then fail MemoryError_MergeProposalInvalid
      else bind_op (query (guard_self_merge from_id to_id)) (\<lambda>_.
           bind_op (touch from_id) (\<lambda>_.
           bind_op (touch to_id) (\<lambda>_.
             push (MergeProposed from_id to_id MergeProposalSource_Agent rationale)))))"

definition register_relation :: "relation_spec \<Rightarrow> unit block_op" where
  "register_relation spec =
     bind_op (query (\<lambda>b. parse_cardinality (rs_from_card spec))) (\<lambda>from_card.
     bind_op (query (\<lambda>b. parse_cardinality (rs_to_card spec))) (\<lambda>to_card.
       push (LinkTypeRegistered (relation_name_new (rs_name spec)) (relation_name_new (rs_inverse spec)) from_card
               to_card (rs_symmetric spec) (rs_reflexive spec) (rs_description spec))))"

definition relation_registered :: "relation_name \<Rightarrow> memory_block \<Rightarrow> (memory_error, bool) result" where
  "relation_registered relation b =
     (if list_ex (\<lambda>ev. case ev of
           LinkTypeRegistered name other _ _ _ _ _ \<Rightarrow> name = relation \<or> other = relation
         | _ \<Rightarrow> False) (mb_buffer b)
      then Inr True
      else andthen (read_graph (relation_view_of (graph_of b) (relation_name_str relation))) (\<lambda>r. Inr (r \<noteq> None)))"

definition is_empty_profile :: "memory_id \<Rightarrow> memory_block \<Rightarrow> (memory_error, bool) result" where
  "is_empty_profile i b =
     andthen (read_graph (class_entries (jiff_of b) (graph_of b) i)) (\<lambda>vs. Inr (vs = []))"

definition link_source_for :: "authority \<Rightarrow> link_source" where
  "link_source_for a = (case a of Authority_Operator \<Rightarrow> LinkSource_Operator | _ \<Rightarrow> LinkSource_Agent)"

text \<open>The tail of \<open>change_link\<close> once the merge rules let it through.\<close>

definition write_link :: "memory_id \<Rightarrow> memory_id \<Rightarrow> relation_name \<Rightarrow> bool \<Rightarrow> forced_visibility option \<Rightarrow> unit block_op" where
  "write_link from_id to_id relation create_it forced =
     bind_op (if relation = RelationName_SameAs then ret (from_id, to_id)
              else bind_op (query (class_write_target from_id)) (\<lambda>f.
                   bind_op (query (class_write_target to_id)) (\<lambda>t. ret (f, t)))) (\<lambda>(f, t) b.
     (let src = link_source_for (mb_authority b)
      in if create_it then
           bind_op (query (\<lambda>b. read_graph (resolve_name b f))) (\<lambda>from_name.
           bind_op (query (\<lambda>b. read_graph (resolve_name b t))) (\<lambda>to_name b.
           bind_op (query (\<lambda>b. resolve_link_visibility b f (map_option name_str from_name) t
                      (map_option name_str to_name) (mb_teller b) forced)) (\<lambda>v b.
           bind_op (touch f) (\<lambda>_.
           bind_op (touch t) (\<lambda>_ b.
           (let posture = \<lparr>posture_source = src, posture_told_by = Some (mb_teller b),
                           posture_told_in = mb_told_in b, posture_visibility = v\<rparr>
            in bind_op (query (\<lambda>b. read_graph (link_between (graph_of b) f t relation))) (\<lambda>existing.
                 if existing = Some posture then ret ()
                 else push (LinkCreated f t relation src (Some (mb_teller b)) (mb_told_in b) v)) b))) b) b)) b
         else
           bind_op (touch f) (\<lambda>_.
           bind_op (touch t) (\<lambda>_.
             push (LinkRemoved f t relation))) b))"

definition change_link :: "memory_id \<Rightarrow> memory_id \<Rightarrow> relation_name \<Rightarrow> bool \<Rightarrow> forced_visibility option \<Rightarrow> unit block_op" where
  "change_link from_id to_id relation create_it forced =
     bind_op (query (relation_registered relation)) (\<lambda>known.
       if \<not> known then fail (MemoryError_UnknownRelation relation)
       else if relation = RelationName_SameAs then
         bind_op (query (guard_self_merge from_id to_id)) (\<lambda>_ b.
           case mb_authority b of
             Authority_Platform \<Rightarrow>
               (if create_it then propose_merge from_id to_id None b else fail MemoryError_MergeForbidden b)
           | Authority_Agent \<Rightarrow>
               (if create_it then
                  bind_op (query (is_empty_profile from_id)) (\<lambda>from_empty.
                    if from_empty then write_link from_id to_id relation create_it forced
                    else bind_op (query (is_empty_profile to_id)) (\<lambda>to_empty.
                      if to_empty then write_link from_id to_id relation create_it forced
                      else propose_merge from_id to_id None)) b
                else write_link from_id to_id relation create_it forced b)
           | Authority_Operator \<Rightarrow> write_link from_id to_id relation create_it forced b)
       else write_link from_id to_id relation create_it forced)"

definition link :: "memory_id \<Rightarrow> memory_id \<Rightarrow> relation_name \<Rightarrow> link_options option \<Rightarrow> unit block_op" where
  "link from_id to_id relation opts =
     bind_op (case opts of
                Some p \<Rightarrow> query (\<lambda>b. reconcile_forced_visibility (lo_visibility p) (lo_exclude p))
              | None \<Rightarrow> ret None) (\<lambda>forced.
     change_link from_id to_id relation True forced)"

definition unlink :: "memory_id \<Rightarrow> memory_id \<Rightarrow> relation_name \<Rightarrow> unit block_op" where
  "unlink from_id to_id relation = change_link from_id to_id relation False None"

definition designate_primary :: "memory_id \<Rightarrow> bool \<Rightarrow> unit block_op" where
  "designate_primary i designated =
     bind_op (query (guard_self i)) (\<lambda>_.
     bind_op (touch i) (\<lambda>_.
       push (ClassPrimaryDesignated i designated)))"

definition rehome_link :: "rehomed_link \<Rightarrow> unit block_op" where
  "rehome_link l =
     bind_op (each touch [rh_stored_from l, rh_stored_to l, rh_canonical_from l, rh_canonical_to l]) (\<lambda>_.
     bind_op (push (LinkRemoved (rh_stored_from l) (rh_stored_to l) (rh_relation l))) (\<lambda>_.
       if rh_survivor l then ret ()
       else push (LinkCreated (rh_canonical_from l) (rh_canonical_to l) (rh_relation l)
                    (posture_source (rh_posture l)) (posture_told_by (rh_posture l))
                    (posture_told_in (rh_posture l)) (posture_visibility (rh_posture l)))))"

end
