(* ===== verification/Block_Retract.thy ===== *)
theory Block_Retract
  imports Block_Links
begin

text \<open>
  Withdrawals and consolidations of a block: \<open>src/memory/memory_block/retract.rs\<close> and \<open>consolidate.rs\<close>.
\<close>

section \<open>Withdrawal\<close>

fun join_comma :: "string list \<Rightarrow> string" where
  "join_comma [] = []"
| "join_comma [x] = x"
| "join_comma (x # y # ys) = x @ '', '' @ join_comma (y # ys)"

definition withdrawal_note :: "string \<Rightarrow> string list \<Rightarrow> string" where
  "withdrawal_note ulid remaining =
     (if remaining = [] then
        ''withdrew your account of entry '' @ ulid @ ''; the fact still stands, attested by others.''
      else ''withdrew your account of entry '' @ ulid @ '' '' @ EM_DASH @ '' the fact still stands, attested by ''
           @ join_comma remaining @ ''.'')"

definition remaining_visible_attesters ::
  "entry_id \<Rightarrow> teller \<Rightarrow> memory_block \<Rightarrow> (memory_error, string list) result" where
  "remaining_visible_attesters entry speaker b =
     andthen (read_graph (entry_by_id (jiff_of b) (graph_of b) entry)) (\<lambda>committed.
       case committed of
         None \<Rightarrow> Inr []
       | Some (memory, v) \<Rightarrow>
           andthen (read_graph (visible_attestations v memory (mb_present_set b) (graph_class_of (graph_of b)))) (\<lambda>vs.
             Inr (map (teller_label b) (filter (\<lambda>t. \<not> same_teller_class b t speaker) (map av_teller vs)))))"

text \<open>The accounts of one identity among the endorsements of an entry.\<close>

definition accounts_of :: "memory_block \<Rightarrow> teller \<Rightarrow> live_entry \<Rightarrow> teller list" where
  "accounts_of b t e = filter (\<lambda>held. same_teller_class b held t) (map fst (le_attestations e))"

definition others_attest :: "memory_block \<Rightarrow> teller \<Rightarrow> live_entry \<Rightarrow> bool" where
  "others_attest b t e = list_ex (\<lambda>held. \<not> same_teller_class b held t) (map fst (le_attestations e))"

definition reason_required :: "string \<Rightarrow> string block_op" where
  "reason_required reason =
     (if trim reason = [] then fail MemoryError_RetractionReasonRequired else ret (trim reason))"

definition push_withdrawals ::
  "memory_id \<Rightarrow> entry_id \<Rightarrow> string \<Rightarrow> produced_by option \<Rightarrow> teller list \<Rightarrow> unit block_op" where
  "push_withdrawals i entry reason produced = each (\<lambda>t. push (AttestationRetracted i entry t reason produced))"

definition retract ::
  "memory_id \<Rightarrow> entry_selector \<Rightarrow> string \<Rightarrow> produced_by option \<Rightarrow> retraction block_op" where
  "retract i selector reason produced =
     bind_op (guarded_target i) (\<lambda>i.
     bind_op (reason_required reason) (\<lambda>reason.
     bind_op (query (resolve_entry_ref i selector)) (\<lambda>entry.
     bind_op (query (live_class_entries i)) (\<lambda>live.
     bind_op (query (find_live entry live)) (\<lambda>target b.
     (let speaker = mb_teller b
      in if mb_authority b = Authority_Platform \<and> accounts_of b speaker target \<noteq> [] \<and> others_attest b speaker target
         then
           bind_op (query (remaining_visible_attesters entry speaker)) (\<lambda>remaining.
           bind_op (touch i) (\<lambda>_ b.
           bind_op (push_withdrawals i entry reason produced (accounts_of b speaker target)) (\<lambda>_.
             ret (Retraction_Withdrawn
               (withdrawal_note (en_ulid_str (mb_engine b) (entry_ulid entry)) remaining))) b)) b
         else
           bind_op (query (guard_foreign_confidence_supersede target)) (\<lambda>_.
           bind_op (touch i) (\<lambda>_.
           bind_op (push (EntryRetracted i entry reason produced)) (\<lambda>_.
             ret Retraction_Entry))) b))))))"

definition retract_attestation ::
  "memory_id \<Rightarrow> entry_selector \<Rightarrow> teller \<Rightarrow> string \<Rightarrow> produced_by option \<Rightarrow> unit block_op" where
  "retract_attestation i selector t reason produced =
     bind_op (guarded_target i) (\<lambda>i.
     bind_op (reason_required reason) (\<lambda>reason.
     bind_op (query (resolve_entry_ref i selector)) (\<lambda>entry.
     bind_op (query (live_class_entries i)) (\<lambda>live.
     bind_op (query (find_live entry live)) (\<lambda>target b.
       (let accounts = accounts_of b t target
        in if accounts = [] then fail MemoryError_UnknownAttestation b
           else bind_op (touch i) (\<lambda>_. push_withdrawals i entry reason produced accounts) b))))))"

section \<open>Consolidation\<close>

record source_teller =
  st_teller :: teller
  st_told_in :: "conversation_ref option"
  st_asserted_at :: timestamp
  st_source_entry :: entry_id

definition source_of :: "live_entry \<Rightarrow> source_teller" where
  "source_of e =
     \<lparr>st_teller = le_told_by e, st_told_in = le_told_in e, st_asserted_at = le_asserted_at e,
      st_source_entry = le_entry_id e\<rparr>"

fun place_source :: "memory_block \<Rightarrow> live_entry \<Rightarrow> source_teller list \<Rightarrow> source_teller list" where
  "place_source b e [] = [source_of e]"
| "place_source b e (s # ss) =
     (if same_teller_class b (st_teller s) (le_told_by e)
      then (if le_asserted_at e < st_asserted_at s then source_of e else s) # ss
      else s # place_source b e ss)"

definition distinct_source_tellers :: "memory_block \<Rightarrow> teller \<Rightarrow> live_entry list \<Rightarrow> source_teller list" where
  "distinct_source_tellers b found sources =
     fold (\<lambda>e groups. if same_teller_class b (le_told_by e) found then groups else place_source b e groups)
       sources []"

text \<open>The validation loop: the live entry of each source, which must all share one visibility.\<close>

definition check_source :: "live_entry list \<Rightarrow> entry_id \<Rightarrow> live_entry list \<Rightarrow> live_entry list block_op" where
  "check_source live source found =
     bind_op (query (find_live source live)) (\<lambda>e.
     bind_op (query (guard_foreign_confidence_supersede e)) (\<lambda>_.
       case found of
         [] \<Rightarrow> ret [e]
       | f # _ \<Rightarrow>
           (if le_visibility f \<noteq> le_visibility e
            then fail (MemoryError_ConsolidationInvariant ''a cluster's sources must share one visibility level'')
            else ret (found @ [e]))))"

fun check_sources :: "live_entry list \<Rightarrow> entry_id list \<Rightarrow> live_entry list \<Rightarrow> live_entry list block_op" where
  "check_sources live [] found = ret found"
| "check_sources live (s # ss) found = bind_op (check_source live s found) (check_sources live ss)"

definition consolidate ::
  "memory_id \<Rightarrow> entry_id list \<Rightarrow> string \<Rightarrow> produced_by option \<Rightarrow> entry_id block_op" where
  "consolidate i sources replacement_text produced =
     transaction
       (bind_op (guarded_target i) (\<lambda>i.
        bind_op (query (live_class_entries i)) (\<lambda>live.
        bind_op (check_sources live sources []) (\<lambda>found.
          case found of
            [] \<Rightarrow> fail (MemoryError_ConsolidationInvariant ''a consolidation needs at least one source'')
          | f # rest \<Rightarrow>
              (let v = le_visibility f;
                   uniform_teller = list_all (\<lambda>e. le_told_by e = le_told_by f) rest;
                   told_by = (if uniform_teller then le_told_by f else Teller_Agent)
               in if \<not> uniform_teller \<and> \<not> open_posture v
                  then fail (MemoryError_ConsolidationInvariant
                         ''a cross-teller merge is only permitted at an all-audience visibility level'')
                  else
                    bind_op (push_content i replacement_text told_by v None) (\<lambda>replacement b.
                    bind_op (each (\<lambda>s. push (EntryAttested i replacement (st_teller s) (st_told_in s) (st_asserted_at s)
                                              v None (Some (st_source_entry s)) produced))
                        (distinct_source_tellers b told_by found)) (\<lambda>_.
                    bind_op (push (EntriesConsolidated i sources replacement produced)) (\<lambda>_.
                      ret replacement)) b))))))"

text \<open>The planning loop of \<open>consolidate_into\<close>: \<open>running\<close> holds the endorsements so far, \<open>planned\<close> the events.\<close>

fun plan_absorption ::
  "memory_id \<Rightarrow> entry_id \<Rightarrow> produced_by option \<Rightarrow> live_entry list \<Rightarrow> entry_id list \<Rightarrow> (teller \<times> visibility) list
    \<Rightarrow> event_payload list \<Rightarrow> event_payload list block_op" where
  "plan_absorption i replacement produced live [] running planned = ret planned"
| "plan_absorption i replacement produced live (s # ss) running planned =
     bind_op (query (find_live s live)) (\<lambda>e.
     bind_op (query (guard_foreign_confidence_supersede e)) (\<lambda>_ b.
       if list_ex (\<lambda>(t, posture). posture = le_visibility e \<and> same_teller_class b t (le_told_by e)) running
       then plan_absorption i replacement produced live ss running planned b
       else plan_absorption i replacement produced live ss (running @ [(le_told_by e, le_visibility e)])
              (planned @ [EntryAttested i replacement (le_told_by e) (le_told_in e) (le_asserted_at e)
                            (le_visibility e) (Some (le_text e)) (Some (le_entry_id e)) produced]) b))"

definition consolidate_into ::
  "memory_id \<Rightarrow> entry_id list \<Rightarrow> entry_id \<Rightarrow> produced_by option \<Rightarrow> unit block_op" where
  "consolidate_into i sources replacement produced =
     bind_op (guarded_target i) (\<lambda>i.
       if sources = [] then fail (MemoryError_ConsolidationInvariant ''a consolidation needs at least one source'')
       else
         bind_op (query (live_class_entries i)) (\<lambda>live.
         bind_op (query (find_live replacement live)) (\<lambda>target.
         bind_op (plan_absorption i replacement produced live sources (le_attestations target) []) (\<lambda>planned.
         bind_op (touch i) (\<lambda>_.
         bind_op (each push planned) (\<lambda>_.
           push (EntriesConsolidated i sources replacement produced)))))))"

end
