(* ===== verification/Block_Policy.thy ===== *)
theory Block_Policy
  imports Block_Retract
begin

text \<open>
  What a block may write. Every operation only appends to the buffer and leaves the block's identity
  (its engine, authority, teller, room and limits) as it is; \<open>emits\<close> states this with a predicate on the
  events appended, and its rules follow the shape of the operations. The locale \<open>block_policy\<close> names
  what a policy must allow an operation that passed its guards; every step of a block then keeps the policy.
\<close>

section \<open>Appending operations\<close>

text \<open>The part of a block its operations never change.\<close>

definition frame :: "memory_block \<Rightarrow> memory_block" where
  "frame b =
     b\<lparr>mb_buffer := [], mb_touched := {}, mb_aborted := None, mb_skip := None, mb_open_default_seeds := {},
       mb_drawn := 0\<rparr>"

lemma frame_updates [simp]:
  "frame (b\<lparr>mb_buffer := x\<rparr>) = frame b" "frame (b\<lparr>mb_touched := s\<rparr>) = frame b"
  "frame (b\<lparr>mb_open_default_seeds := seeds\<rparr>) = frame b" "frame (b\<lparr>mb_drawn := n\<rparr>) = frame b"
  "frame (b\<lparr>mb_aborted := a\<rparr>) = frame b" "frame (b\<lparr>mb_skip := k\<rparr>) = frame b"
  by (simp_all add: frame_def)

lemma frame_fields:
  assumes "frame b' = frame b"
  shows "mb_engine b' = mb_engine b" "mb_teller b' = mb_teller b" "mb_authority b' = mb_authority b"
    "mb_self_id b' = mb_self_id b" "mb_operator_id b' = mb_operator_id b" "mb_told_in b' = mb_told_in b"
    "mb_confidential_context b' = mb_confidential_context b"
    "mb_connector_authored b' = mb_connector_authored b" "mb_present_set b' = mb_present_set b"
    "mb_max_entry_chars b' = mb_max_entry_chars b" "mb_context_memory b' = mb_context_memory b"
  using assms
  by (cases b; cases b'; simp add: frame_def)+

definition emits :: "(event_payload \<Rightarrow> bool) \<Rightarrow> memory_block \<Rightarrow> 'r \<times> memory_block \<Rightarrow> bool" where
  "emits Q b out \<longleftrightarrow>
     frame (snd out) = frame b \<and> (\<exists>evs. mb_buffer (snd out) = mb_buffer b @ evs \<and> list_all Q evs)"

named_theorems emits_intro \<open>rules of emits, one for each way an operation is built\<close>

lemma emits_same: "frame b' = frame b \<Longrightarrow> mb_buffer b' = mb_buffer b \<Longrightarrow> emits Q b (r, b')"
  by (simp add: emits_def)

lemma emits_basic [emits_intro]:
  "emits Q b (ret a b)" "emits Q b (fail e b)" "emits Q b (query f b)" "emits Q b (touch i b)"
  "emits Q b (draw b)" "emits Q b (touch_class i members b)" "emits Q b (remember_open_seed i unforced v b)"
  by (simp_all add: emits_same ret_def fail_def query_def touch_def draw_def touch_class_def
      remember_open_seed_def)

lemma emits_push [emits_intro]: "Q ev \<Longrightarrow> emits Q b (push ev b)"
  by (simp add: emits_def push_def)

lemma emits_trans: "emits Q b (r, b') \<Longrightarrow> emits Q b' out \<Longrightarrow> emits Q b out"
  by (auto simp: emits_def)

lemma emits_bind [emits_intro]:
  assumes "emits Q b (m b)"
    and "\<And>a b'. m b = (Inr a, b') \<Longrightarrow> frame b' = frame b \<Longrightarrow> emits Q b' (f a b')"
  shows "emits Q b (bind_op m f b)"
proof (cases "m b")
  case (Pair r b')
  then have b': "frame b' = frame b" using assms(1) by (simp add: emits_def)
  show ?thesis
  proof (cases r)
    case (Inl e)
    with Pair assms(1) show ?thesis by (simp add: bind_op_def emits_def)
  next
    case (Inr a)
    with Pair assms(2) b' have "emits Q b' (f a b')" by simp
    with Pair Inr assms(1) show ?thesis by (simp add: bind_op_def emits_trans)
  qed
qed

lemma emits_transaction [emits_intro]: "emits Q b (m b) \<Longrightarrow> emits Q b (transaction m b)"
  by (auto simp: emits_def transaction_def Let_def split: prod.splits sum.splits)

lemma emits_each [emits_intro]:
  assumes "\<And>x b'. x \<in> set xs \<Longrightarrow> frame b' = frame b \<Longrightarrow> emits Q b' (f x b')"
  shows "emits Q b (each f xs b)"
  using assms
proof (induction xs arbitrary: b)
  case (Cons x xs)
  show ?case
    unfolding each.simps
    by (rule emits_bind) (use Cons in auto)
qed (simp add: emits_intro)

lemma emits_if [emits_intro]:
  "(c \<Longrightarrow> emits Q b x) \<Longrightarrow> (\<not> c \<Longrightarrow> emits Q b y) \<Longrightarrow> emits Q b (if c then x else y)"
  by simp

lemma emits_if_op [emits_intro]:
  "(c \<Longrightarrow> emits Q b (x b)) \<Longrightarrow> (\<not> c \<Longrightarrow> emits Q b (y b)) \<Longrightarrow> emits Q b ((if c then x else y) b)"
  by simp

lemma emits_option [emits_intro]:
  "(x = None \<Longrightarrow> emits Q b (f b)) \<Longrightarrow> (\<And>a. x = Some a \<Longrightarrow> emits Q b (g a b))
    \<Longrightarrow> emits Q b ((case x of None \<Rightarrow> f | Some a \<Rightarrow> g a) b)"
  by (cases x) simp_all

lemma emits_option_in [emits_intro]:
  "(x = None \<Longrightarrow> emits Q b f) \<Longrightarrow> (\<And>a. x = Some a \<Longrightarrow> emits Q b (g a))
    \<Longrightarrow> emits Q b (case x of None \<Rightarrow> f | Some a \<Rightarrow> g a)"
  by (cases x) simp_all

lemma emits_pair_in [emits_intro]:
  "(\<And>y z. x = (y, z) \<Longrightarrow> emits Q b (f y z)) \<Longrightarrow> emits Q b (case x of (y, z) \<Rightarrow> f y z)"
  by (cases x) simp

lemma emits_pair [emits_intro]:
  "(\<And>y z. x = (y, z) \<Longrightarrow> emits Q b (f y z b)) \<Longrightarrow> emits Q b ((case x of (y, z) \<Rightarrow> f y z) b)"
  by (cases x) simp

lemma emits_let [emits_intro]: "(\<And>y. y = x \<Longrightarrow> emits Q b (f y)) \<Longrightarrow> emits Q b (let y = x in f y)"
  by simp

text \<open>The result of a query, read off the step before.\<close>

lemma query_result: "query f b = (Inr a, b') \<longleftrightarrow> f b = Inr a \<and> b' = b"
  by (auto simp: query_def)

lemma ret_result: "ret x b = (Inr a, b') \<longleftrightarrow> a = x \<and> b' = b"
  by (auto simp: ret_def)

lemma bind_result:
  "bind_op m f b = (Inr a, b') \<longleftrightarrow> (\<exists>x c. m b = (Inr x, c) \<and> f x c = (Inr a, b'))"
  by (auto simp: bind_op_def split: prod.splits sum.splits)

lemma draw_result: "draw b = (Inr u, b') \<longleftrightarrow> u = en_entropy (mb_engine b) (mb_drawn b) \<and> b' = b\<lparr>mb_drawn := mb_drawn b + 1\<rparr>"
  by (auto simp: draw_def)

lemmas op_results = query_result ret_result bind_result draw_result

lemma guards_frame:
  assumes "frame b' = frame b"
  shows "guard_self i b' = guard_self i b" "guard_operator i b' = guard_operator i b"
    "guard_self_merge i j b' = guard_self_merge i j b"
    "guard_confidential_untag t b' = guard_confidential_untag t b"
  by (simp_all add: guard_self_def guard_operator_def guard_self_merge_def guard_confidential_untag_def
      frame_fields [OF assms])

section \<open>Policies\<close>

definition writable :: "memory_block \<Rightarrow> memory_id \<Rightarrow> bool" where
  "writable b i \<longleftrightarrow> guard_self i b = Inr () \<and> guard_operator i b = Inr ()"

definition minted :: "memory_block \<Rightarrow> memory_id \<Rightarrow> bool" where
  "minted b i \<longleftrightarrow> i \<in> range (\<lambda>n. MemoryId (en_entropy (mb_engine b) n))"

definition renameable :: "memory_block \<Rightarrow> memory_id \<Rightarrow> string \<Rightarrow> bool" where
  "renameable b i name \<longleftrightarrow>
     guard_self i b = Inr () \<and> \<not> (mb_authority b = Authority_Platform \<and> platform_qualified name)"

definition linkable :: "memory_block \<Rightarrow> memory_id \<Rightarrow> memory_id \<Rightarrow> relation_name \<Rightarrow> bool" where
  "linkable b f t relation \<longleftrightarrow>
     relation = RelationName_SameAs \<longrightarrow> mb_authority b \<noteq> Authority_Platform \<and> guard_self_merge f t b = Inr ()"

locale block_policy =
  fixes Q :: "memory_block \<Rightarrow> event_payload \<Rightarrow> bool"
  assumes same_frame: "frame b' = frame b \<Longrightarrow> Q b' ev = Q b ev"
    and created: "minted b i \<Longrightarrow> Q b (MemoryCreated i name)"
    and renamed: "renameable b i (name_str old) \<Longrightarrow> renameable b i (name_str new)
      \<Longrightarrow> Q b (MemoryRenamed i old new)"
    and content: "writable b i \<or> minted b i \<Longrightarrow> length (chars_of text) \<le> mb_max_entry_chars b
      \<Longrightarrow> validate_occurred_at occurred = Inr ()
      \<Longrightarrow> Q b (MemoryContentAppended i e asserted occurred text t (mb_told_in b) v)"
    and mirrored: "minted b i \<Longrightarrow> Q b (EntryDescriptionMirrored i e)"
    and volatility: "guard_self i b = Inr () \<or> minted b i \<Longrightarrow> Q b (MemoryVolatilitySet i w)"
    and superseded: "writable b i \<Longrightarrow> Q b (MemorySuperseded i old_entry new_entry)"
    and retracted: "writable b i \<Longrightarrow> Q b (EntryRetracted i e reason produced)"
    and withdrawn: "writable b i \<Longrightarrow> Q b (AttestationRetracted i e t reason produced)"
    and consolidated: "writable b i \<Longrightarrow> Q b (EntriesConsolidated i sources e produced)"
    and attested: "Q b (EntryAttested i e t told_in asserted v phrasing src produced)"
    and tags: "Q b (TagCreated tag_n description)" "Q b (TagDescriptionChanged tag_n description)"
      "guard_self i b = Inr () \<Longrightarrow> Q b (TagAppliedToMemory i tag_n)"
      "guard_self i b = Inr () \<Longrightarrow> guard_confidential_untag tag_n b = Inr () \<Longrightarrow> Q b (TagRemovedFromMemory i tag_n)"
    and registered: "Q b (LinkTypeRegistered rel other fc tc symmetric reflexive description)"
    and proposed: "guard_self_merge i j b = Inr () \<Longrightarrow> Q b (MergeProposed i j src' rationale)"
    and linked: "linkable b i j rel
      \<Longrightarrow> Q b (LinkCreated i j rel (link_source_for (mb_authority b)) (Some (mb_teller b)) (mb_told_in b) v)"
    and unlinked: "linkable b i j rel \<Longrightarrow> Q b (LinkRemoved i j rel)"
    and designated: "guard_self i b = Inr () \<Longrightarrow> Q b (ClassPrimaryDesignated i flag)"
begin

text \<open>One rule for each way an operation goes on; the more informative ones come first.\<close>

lemma step_push: "Q c ev \<Longrightarrow> emits (Q c) b (push ev b)"
  by (rule emits_push)

lemma step_guard_self:
  "frame b = frame c \<Longrightarrow> (guard_self i c = Inr () \<Longrightarrow> emits (Q c) b (f () b))
    \<Longrightarrow> emits (Q c) b (bind_op (query (guard_self i)) f b)"
  by (rule emits_bind [OF emits_basic(3)]) (auto simp: query_result guards_frame [of b c])

lemma step_guard_confidential_untag:
  "frame b = frame c \<Longrightarrow> (guard_confidential_untag t c = Inr () \<Longrightarrow> emits (Q c) b (f () b))
    \<Longrightarrow> emits (Q c) b (bind_op (query (guard_confidential_untag t)) f b)"
  by (rule emits_bind [OF emits_basic(3)]) (auto simp: query_result guards_frame [of b c])

lemma step_guard_self_merge:
  "frame b = frame c \<Longrightarrow> (guard_self_merge i j c = Inr () \<Longrightarrow> emits (Q c) b (f () b))
    \<Longrightarrow> emits (Q c) b (bind_op (query (guard_self_merge i j)) f b)"
  by (rule emits_bind [OF emits_basic(3)]) (auto simp: query_result guards_frame [of b c])

lemma step_guarded_target:
  assumes "frame b = frame c" "\<And>j. writable c j \<Longrightarrow> emits (Q c) b (f j b)"
  shows "emits (Q c) b (bind_op (guarded_target i) f b)"
proof (rule emits_bind)
  show "emits (Q c) b (guarded_target i b)" unfolding guarded_target_def by (intro emits_intro)
  fix j b' assume "guarded_target i b = (Inr j, b')"
  then have "b' = b" "writable b j" by (auto simp: guarded_target_def op_results writable_def)
  then show "emits (Q c) b' (f j b')" using assms by (simp add: writable_def guards_frame [of b c])
qed

lemma step_validate:
  "(validate_occurred_at t = Inr () \<Longrightarrow> emits (Q c) b (f () b))
    \<Longrightarrow> emits (Q c) b (bind_op (query (\<lambda>b. validate_occurred_at t)) f b)"
  by (rule emits_bind [OF emits_basic(3)]) (auto simp: query_result)

lemma step_query: "(\<And>a. emits (Q c) b (f a b)) \<Longrightarrow> emits (Q c) b (bind_op (query g) f b)"
  by (rule emits_bind [OF emits_basic(3)]) (auto simp: query_result)

lemma step_touch:
  "frame b = frame c \<Longrightarrow> (\<And>b'. frame b' = frame c \<Longrightarrow> emits (Q c) b' (f () b'))
    \<Longrightarrow> emits (Q c) b (bind_op (touch i) f b)"
  by (rule emits_bind [OF emits_basic(4)]) auto

lemma step_draw:
  assumes "frame b = frame c" "\<And>u b'. frame b' = frame c \<Longrightarrow> minted c (MemoryId u) \<Longrightarrow> emits (Q c) b' (f u b')"
  shows "emits (Q c) b (bind_op draw f b)"
  by (rule emits_bind [OF emits_basic(5)])
    (use assms frame_fields [OF assms(1)] in \<open>auto simp: draw_result minted_def\<close>)

lemma step_bind:
  "emits (Q c) b (m b) \<Longrightarrow> frame b = frame c \<Longrightarrow> (\<And>a b'. frame b' = frame c \<Longrightarrow> emits (Q c) b' (f a b'))
    \<Longrightarrow> emits (Q c) b (bind_op m f b)"
  by (rule emits_bind) auto

lemma step_each:
  "frame b = frame c \<Longrightarrow> (\<And>x b'. x \<in> set xs \<Longrightarrow> frame b' = frame c \<Longrightarrow> emits (Q c) b' (f x b'))
    \<Longrightarrow> emits (Q c) b (each f xs b)"
  by (rule emits_each) auto

lemmas steps =
  step_guard_self step_guard_confidential_untag step_guard_self_merge step_guarded_target step_validate
  step_query step_touch step_draw step_each step_push emits_basic emits_if emits_if_op emits_option
  emits_option_in emits_pair emits_pair_in emits_let emits_transaction step_bind

lemma get_emits: "frame b = frame c \<Longrightarrow> emits (Q c) b (get name b)"
  unfolding get_def by (rule steps | assumption)+

lemma create_tag_emits: "frame b = frame c \<Longrightarrow> emits (Q c) b (create_tag tag_n d b)"
  unfolding create_tag_def by (assumption | rule steps | rule tags)+

lemma describe_tag_emits: "frame b = frame c \<Longrightarrow> emits (Q c) b (describe_tag tag_n d b)"
  unfolding describe_tag_def by (assumption | rule steps | rule tags)+

lemma tag_emits: "frame b = frame c \<Longrightarrow> emits (Q c) b (tag i tag_n b)"
  unfolding tag_def by (assumption | rule steps | rule tags)+

lemma untag_emits: "frame b = frame c \<Longrightarrow> emits (Q c) b (untag i tag_n b)"
  unfolding untag_def by (assumption | rule steps | rule tags)+

lemma push_content_emits:
  assumes "frame b = frame c" "writable c i \<or> minted c i" "validate_occurred_at occurred = Inr ()"
  shows "emits (Q c) b (push_content i text t v occurred b)"
proof -
  have len: "\<not> mb_max_entry_chars b < length (chars_of text) \<Longrightarrow> length (chars_of text) \<le> mb_max_entry_chars c"
    by (simp add: frame_fields [OF assms(1)])
  have told: "Q c (MemoryContentAppended i e asserted occurred text t (mb_told_in b') v)"
    if "\<not> mb_max_entry_chars b < length (chars_of text)" "frame b' = frame c" for b' e asserted
    using content [OF assms(2) len [OF that(1)] assms(3)] by (simp add: frame_fields [OF that(2)])
  show ?thesis
    unfolding push_content_def Let_def
    by (assumption | rule steps assms(1) told)+
qed

lemma volatility_opt_emits:
  "guard_self i c = Inr () \<or> minted c i
    \<Longrightarrow> emits (Q c) b ((case w of None \<Rightarrow> ret () | Some w \<Rightarrow> push (MemoryVolatilitySet i (into_volatility w))) b)"
  by (rule steps volatility | assumption)+

lemma append_emits:
  assumes "frame b = frame c"
  shows "emits (Q c) b (append i text opts b)"
  unfolding append_def
  by (assumption | rule step_guarded_target steps assms push_content_emits volatility_opt_emits disjI1
      | (simp add: writable_def; fail))+

lemma resolve_first_entry_emits:
  "frame b = frame c \<Longrightarrow> emits (Q c) b (resolve_first_entry name i text opts b)"
  unfolding resolve_first_entry_def by (assumption | rule steps)+

lemma push_first_entry_emits:
  assumes "frame b = frame c" "minted c i" "validate_occurred_at occurred = Inr ()"
  shows "emits (Q c) b (push_first_entry i (text, t, v, occurred, w) b)"
  unfolding push_first_entry_def prod.case
  by (assumption | rule push_content_emits assms disjI2 volatility_opt_emits mirrored steps)+

lemma first_entry_occurrence:
  "resolve_first_entry name i text opts b = (Inr (text', t, v, occurred, w), b')
    \<Longrightarrow> validate_occurred_at occurred = Inr ()"
  by (auto simp: resolve_first_entry_def Let_def op_results fail_def split: if_splits)

lemma created_emits:
  assumes "frame b = frame c" "minted c i" "\<And>b'. frame b' = frame c \<Longrightarrow> emits (Q c) b' (m b')"
  shows "emits (Q c) b (bind_op (touch i) (\<lambda>_. bind_op (push (MemoryCreated i name)) (\<lambda>_. bind_op m (\<lambda>_. ret i))) b)"
  by (assumption | rule assms(1,2) created assms(3) steps)+

lemma create_with_opts_emits:
  assumes "frame b = frame c"
  shows "emits (Q c) b (create_with_opts name content opts b)"
proof -
  have bare: "emits (Q c) b' (bind_op (ret None) (\<lambda>first_entry. bind_op (touch i) (\<lambda>_. bind_op (push (MemoryCreated i name))
      (\<lambda>_. bind_op (case first_entry of Some fe \<Rightarrow> push_first_entry i fe | None \<Rightarrow> ret ()) (\<lambda>_. ret i)))) b')"
    if "frame b' = frame c" "minted c i" for b' i
    by (rule emits_bind) (use that in \<open>auto simp: ret_result intro: emits_basic created_emits\<close>)
  have seeded: "emits (Q c) b' (bind_op (bind_op (resolve_first_entry name i tx p) (\<lambda>fe. ret (Some fe)))
      (\<lambda>first_entry. bind_op (touch i) (\<lambda>_. bind_op (push (MemoryCreated i name))
      (\<lambda>_. bind_op (case first_entry of Some fe \<Rightarrow> push_first_entry i fe | None \<Rightarrow> ret ()) (\<lambda>_. ret i)))) b')"
    if "frame b' = frame c" "minted c i" for b' i tx p
  proof (rule emits_bind)
    show "emits (Q c) b' (bind_op (resolve_first_entry name i tx p) (\<lambda>fe. ret (Some fe)) b')"
      by (rule step_bind) (auto intro: resolve_first_entry_emits emits_basic that)
    fix fe b'' assume fe: "bind_op (resolve_first_entry name i tx p) (\<lambda>fe. ret (Some fe)) b' = (Inr fe, b'')"
      and "frame b'' = frame b'"
    then have b'': "frame b'' = frame c" using that by simp
    from fe obtain text' t v occurred w where some: "fe = Some (text', t, v, occurred, w)"
      and valid: "validate_occurred_at occurred = Inr ()"
      by (auto simp: op_results dest: first_entry_occurrence)
    show "emits (Q c) b'' (bind_op (touch i) (\<lambda>_. bind_op (push (MemoryCreated i name))
      (\<lambda>_. bind_op (case fe of Some fe \<Rightarrow> push_first_entry i fe | None \<Rightarrow> ret ()) (\<lambda>_. ret i))) b'')"
      unfolding some option.case
      by (rule created_emits [OF b'' that(2)]) (rule push_first_entry_emits [OF _ that(2) valid])
  qed
  show ?thesis
  proof (cases content)
    case None
    show ?thesis
      unfolding create_with_opts_def Let_def None option.case
      by (assumption | rule bare steps assms)+
  next
    case (Some tx)
    show ?thesis
      unfolding create_with_opts_def Let_def Some option.case
      by (assumption | rule seeded steps assms)+
  qed
qed

lemma link_endpoint_emits: "frame b = frame c \<Longrightarrow> emits (Q c) b (link_endpoint name b)"
  unfolding link_endpoint_def create_def
  by (assumption | rule get_emits create_with_opts_emits steps)+

lemma rename_emits:
  assumes "frame b = frame c"
  shows "emits (Q c) b (rename i new_name b)"
proof -
  have allowed: "Q c (MemoryRenamed i old (MemoryName new_name))"
    if "guard_self i c = Inr ()" "\<not> (mb_authority b = Authority_Platform \<and> platform_qualified new_name)"
      "\<not> (mb_authority b = Authority_Platform \<and> platform_qualified (name_str old))" for old
    using that by (intro renamed) (simp_all add: renameable_def frame_fields [OF assms])
  show ?thesis
    unfolding rename_def
    by (assumption | rule allowed steps assms)+
qed

lemma supersede_emits: "frame b = frame c \<Longrightarrow> emits (Q c) b (supersede i old new b)"
  unfolding supersede_def by (assumption | rule steps superseded)+

lemma revise_emits: "frame b = frame c \<Longrightarrow> emits (Q c) b (revise i old tx opts b)"
  unfolding revise_def by (assumption | rule append_emits supersede_emits steps)+

lemma set_volatility_emits: "frame b = frame c \<Longrightarrow> emits (Q c) b (set_volatility i level b)"
  unfolding set_volatility_def by (assumption | rule steps volatility disjI1)+

lemma record_attestation_emits: "frame b = frame c \<Longrightarrow> emits (Q c) b (record_attestation w b)"
  unfolding record_attestation_def Let_def by (assumption | rule steps attested)+

lemma corroborate_append_emits: "frame b = frame c \<Longrightarrow> emits (Q c) b (corroborate_append memory v tx opts b)"
  unfolding corroborate_append_def Let_def by (assumption | rule record_attestation_emits steps)+

lemma append_dedup_emits: "frame b = frame c \<Longrightarrow> emits (Q c) b (append_dedup i tx opts emb b)"
  unfolding append_dedup_def Let_def
  by (assumption | rule corroborate_append_emits append_emits steps)+

lemma attest_emits: "frame b = frame c \<Longrightarrow> emits (Q c) b (attest i selector opts b)"
  unfolding attest_def Let_def by (assumption | rule record_attestation_emits steps)+

lemma register_relation_emits: "frame b = frame c \<Longrightarrow> emits (Q c) b (register_relation spec b)"
  unfolding register_relation_def by (assumption | rule steps registered)+

lemma propose_merge_emits: "frame b = frame c \<Longrightarrow> emits (Q c) b (propose_merge i j rationale b)"
  unfolding propose_merge_def by (assumption | rule steps proposed)+

lemma designate_primary_emits: "frame b = frame c \<Longrightarrow> emits (Q c) b (designate_primary i flag b)"
  unfolding designate_primary_def by (assumption | rule steps designated)+

lemma linkable_write: "linkable c f t relation \<Longrightarrow> relation \<noteq> RelationName_SameAs \<or> (f', t') = (f, t) \<Longrightarrow> linkable c f' t' relation"
  by (auto simp: linkable_def)

lemma write_link_emits:
  assumes "frame b = frame c" "linkable c i j relation"
  shows "emits (Q c) b (write_link i j relation create_it forced b)"
proof -
  have created_at: "Q c (LinkCreated f t relation (link_source_for (mb_authority b1)) (Some (mb_teller b2)) (mb_told_in b2) v)"
    if "frame b1 = frame c" "frame b2 = frame c" "linkable c f t relation" for f t b1 b2 v
    using linked [OF that(3)] by (simp add: frame_fields [OF that(1)] frame_fields [OF that(2)])
  have tail: "emits (Q c) b' (bind_op m (\<lambda>(f, t). w f t) b')"
    if "frame b' = frame c" "emits (Q c) b' (m b')"
      "\<And>f t b''. m b' = (Inr (f, t), b'') \<Longrightarrow> frame b'' = frame c \<Longrightarrow> linkable c f t relation"
      "\<And>f t b''. frame b'' = frame c \<Longrightarrow> linkable c f t relation \<Longrightarrow> emits (Q c) b'' (w f t b'')"
    for b' m and w :: "memory_id \<Rightarrow> memory_id \<Rightarrow> unit block_op"
    by (rule emits_bind) (use that in \<open>auto split: prod.splits\<close>)
  show ?thesis
    unfolding write_link_def Let_def
  proof (rule tail [OF assms(1)])
    fix f t b'' assume "(if relation = RelationName_SameAs then ret (i, j)
      else bind_op (query (class_write_target i)) (\<lambda>f. bind_op (query (class_write_target j)) (\<lambda>t. ret (f, t)))) b
        = (Inr (f, t), b'')"
    then show "linkable c f t relation"
      using assms(2) by (auto simp: op_results linkable_def split: if_splits)
  qed (assumption | rule created_at unlinked steps assms(1))+
qed

lemma change_link_emits:
  assumes "frame b = frame c"
  shows "emits (Q c) b (change_link i j relation create_it forced b)"
proof -
  have same_as: "linkable c i j RelationName_SameAs"
    if "guard_self_merge i j c = Inr ()" "mb_authority b \<noteq> Authority_Platform"
    using that by (simp add: linkable_def frame_fields [OF assms])
  have other: "linkable c i j relation" if "relation \<noteq> RelationName_SameAs"
    using that by (simp add: linkable_def)
  have merge: "emits (Q c) b (case mb_authority b of
      Authority_Platform \<Rightarrow> (if create_it then propose_merge i j None b else fail MemoryError_MergeForbidden b)
    | Authority_Agent \<Rightarrow> (if create_it then
          bind_op (query (is_empty_profile i)) (\<lambda>from_empty.
            if from_empty then write_link i j RelationName_SameAs create_it forced
            else bind_op (query (is_empty_profile j)) (\<lambda>to_empty.
              if to_empty then write_link i j RelationName_SameAs create_it forced
              else propose_merge i j None)) b
        else write_link i j RelationName_SameAs create_it forced b)
    | Authority_Operator \<Rightarrow> write_link i j RelationName_SameAs create_it forced b)"
    if "guard_self_merge i j c = Inr ()"
    by (cases "mb_authority b"; simp only: authority.case)
      (assumption | rule propose_merge_emits write_link_emits same_as that steps assms | simp; fail)+
  show ?thesis
    unfolding change_link_def
    by (cases "relation = RelationName_SameAs"; simp only: if_True if_False not_False_eq_True simp_thms)
      (assumption | rule write_link_emits merge other steps assms)+
qed

lemma link_emits: "frame b = frame c \<Longrightarrow> emits (Q c) b (link i j relation opts b)"
  unfolding link_def by (assumption | rule change_link_emits steps)+

lemma unlink_emits: "frame b = frame c \<Longrightarrow> emits (Q c) b (unlink i j relation b)"
  unfolding unlink_def by (rule change_link_emits)

lemma push_withdrawals_emits:
  "frame b = frame c \<Longrightarrow> writable c i \<Longrightarrow> emits (Q c) b (push_withdrawals i entry reason produced ts b)"
  unfolding push_withdrawals_def by (assumption | rule steps withdrawn)+

lemma retract_emits: "frame b = frame c \<Longrightarrow> emits (Q c) b (retract i selector reason produced b)"
  unfolding retract_def reason_required_def Let_def
  by (assumption | rule push_withdrawals_emits steps retracted)+

lemma retract_attestation_emits:
  "frame b = frame c \<Longrightarrow> emits (Q c) b (retract_attestation i selector t reason produced b)"
  unfolding retract_attestation_def reason_required_def Let_def
  by (assumption | rule push_withdrawals_emits steps)+

lemma check_sources_emits: "frame b = frame c \<Longrightarrow> emits (Q c) b (check_sources live sources found b)"
proof (induction sources arbitrary: b found)
  case (Cons s ss)
  have "emits (Q c) b' (check_source live s found b')" for b'
    unfolding check_source_def by (cases found) (simp_all only: list.case, (rule steps)+)
  with Cons show ?case by (auto intro!: step_bind)
qed (simp add: emits_basic)

lemma consolidate_emits: "frame b = frame c \<Longrightarrow> emits (Q c) b (consolidate i sources tx produced b)"
proof -
  assume b: "frame b = frame c"
  have undated: "validate_occurred_at None = Inr ()" by (simp add: validate_occurred_at_def)
  have list: "emits (Q c) b' ((case found of [] \<Rightarrow> f | x # xs \<Rightarrow> g x xs) b')"
    if "emits (Q c) b' (f b')" "\<And>x xs. emits (Q c) b' (g x xs b')" for b' f g and found :: "live_entry list"
    using that by (cases found) simp_all
  show ?thesis
    unfolding consolidate_def Let_def
    by (assumption | rule check_sources_emits push_content_emits list undated disjI1 steps attested consolidated b)+
qed

lemma plan_absorption_attests:
  "plan_absorption i replacement produced live sources running planned b = (Inr evs, b')
    \<Longrightarrow> list_all (Q c) planned \<Longrightarrow> list_all (Q c) evs"
proof (induction sources arbitrary: running planned)
  case (Cons s ss)
  from Cons.prems show ?case
    by (auto simp: op_results attested split: if_splits dest!: Cons.IH)
qed (simp add: ret_result)

lemma plan_absorption_emits:
  "frame b = frame c \<Longrightarrow> emits (Q c) b (plan_absorption i replacement produced live sources running planned b)"
proof (induction sources arbitrary: running planned b)
  case (Cons s ss)
  show ?case
    unfolding plan_absorption.simps
    by (assumption | rule Cons.IH steps Cons.prems)+
qed (simp add: emits_basic)

lemma consolidate_into_emits:
  assumes "frame b = frame c"
  shows "emits (Q c) b (consolidate_into i sources replacement produced b)"
proof -
  have planned: "emits (Q c) b' (bind_op (plan_absorption j replacement produced live sources running [])
      (\<lambda>planned. bind_op (touch j) (\<lambda>_. bind_op (each push planned) (\<lambda>_. push (EntriesConsolidated j sources replacement produced)))) b')"
    if b': "frame b' = frame c" and "writable c j" for b' j live running
  proof (rule emits_bind)
    show "emits (Q c) b' (plan_absorption j replacement produced live sources running [] b')"
      by (rule plan_absorption_emits [OF b'])
    fix evs b'' assume "plan_absorption j replacement produced live sources running [] b' = (Inr evs, b'')"
      and "frame b'' = frame b'"
    then have evs: "Q c ev" if "ev \<in> set evs" for ev
      using plan_absorption_attests that by (fastforce simp: list_all_iff)
    have b'': "frame b'' = frame c" using \<open>frame b'' = frame b'\<close> b' by simp
    show "emits (Q c) b'' (bind_op (touch j) (\<lambda>_. bind_op (each push evs) (\<lambda>_. push (EntriesConsolidated j sources replacement produced))) b'')"
      by (assumption | rule b'' evs \<open>writable c j\<close> consolidated steps)+
  qed
  show ?thesis
    unfolding consolidate_into_def by (assumption | rule planned steps assms)+
qed

lemma reads_emit:
  assumes "frame b = frame c"
  shows entries_emits: "emits (Q c) b (entries i b)"
    and history_emits: "emits (Q c) b (history i b)"
    and class_link_refs_emits: "emits (Q c) b (class_link_refs i b)"
    and occurrence_memories_emits: "emits (Q c) b (occurrence_memories from_t to_t rec b)"
    and recurring_emits: "emits (Q c) b (recurring b)"
proof -
  show "emits (Q c) b (entries i b)" unfolding entries_def by (assumption | rule steps assms)+
  show "emits (Q c) b (history i b)" unfolding history_def by (assumption | rule steps assms)+
  show "emits (Q c) b (class_link_refs i b)" unfolding class_link_refs_def by (assumption | rule steps assms)+
  show "emits (Q c) b (occurrence_memories from_t to_t rec b)"
    unfolding occurrence_memories_def Let_def by (assumption | rule steps assms)+
  show "emits (Q c) b (recurring b)" unfolding recurring_def Let_def by (assumption | rule steps assms)+
qed

end

section \<open>Steps of a block\<close>

text \<open>
  One call of a block's interface, whether it succeeds or fails: a script catches an error and goes on. The
  verbatim \<open>rehome_link\<close>, which only the canonicalization sweep calls, is left out.
\<close>

definition err_of :: "(memory_error, 'a) result \<Rightarrow> memory_error option" where
  "err_of r = (case r of Inl e \<Rightarrow> Some e | Inr _ \<Rightarrow> None)"

inductive block_call :: "memory_block \<Rightarrow> memory_error option \<Rightarrow> memory_block \<Rightarrow> bool" where
  call_create: "create_with_opts name content opts b = (r, b') \<Longrightarrow> block_call b (err_of r) b'"
| call_link_endpoint: "link_endpoint handle b = (r, b') \<Longrightarrow> block_call b (err_of r) b'"
| call_rename: "rename i handle b = (r, b') \<Longrightarrow> block_call b (err_of r) b'"
| call_append: "append i tx p b = (r, b') \<Longrightarrow> block_call b (err_of r) b'"
| call_append_dedup: "append_dedup i tx p emb b = (r, b') \<Longrightarrow> block_call b (err_of r) b'"
| call_attest: "attest i selector p b = (r, b') \<Longrightarrow> block_call b (err_of r) b'"
| call_supersede: "supersede i selector selector' b = (r, b') \<Longrightarrow> block_call b (err_of r) b'"
| call_revise: "revise i old tx p b = (r, b') \<Longrightarrow> block_call b (err_of r) b'"
| call_set_volatility: "set_volatility i level b = (r, b') \<Longrightarrow> block_call b (err_of r) b'"
| call_retract: "retract i selector reason produced b = (r, b') \<Longrightarrow> block_call b (err_of r) b'"
| call_retract_attestation: "retract_attestation i selector t reason produced b = (r, b') \<Longrightarrow> block_call b (err_of r) b'"
| call_consolidate: "consolidate i sources tx produced b = (r, b') \<Longrightarrow> block_call b (err_of r) b'"
| call_consolidate_into: "consolidate_into i sources old produced b = (r, b') \<Longrightarrow> block_call b (err_of r) b'"
| call_link: "link i j relation lo b = (r, b') \<Longrightarrow> block_call b (err_of r) b'"
| call_unlink: "unlink i j relation b = (r, b') \<Longrightarrow> block_call b (err_of r) b'"
| call_propose_merge: "propose_merge i j rationale b = (r, b') \<Longrightarrow> block_call b (err_of r) b'"
| call_register_relation: "register_relation spec b = (r, b') \<Longrightarrow> block_call b (err_of r) b'"
| call_designate_primary: "designate_primary i flag b = (r, b') \<Longrightarrow> block_call b (err_of r) b'"
| call_create_tag: "create_tag tag_n d b = (r, b') \<Longrightarrow> block_call b (err_of r) b'"
| call_describe_tag: "describe_tag tag_n d b = (r, b') \<Longrightarrow> block_call b (err_of r) b'"
| call_tag: "tag i tag_n b = (r, b') \<Longrightarrow> block_call b (err_of r) b'"
| call_untag: "untag i tag_n b = (r, b') \<Longrightarrow> block_call b (err_of r) b'"
| call_get: "get handle b = (r, b') \<Longrightarrow> block_call b (err_of r) b'"
| call_entries: "entries i b = (r, b') \<Longrightarrow> block_call b (err_of r) b'"
| call_history: "history i b = (r, b') \<Longrightarrow> block_call b (err_of r) b'"
| call_details: "details i b = (r, b') \<Longrightarrow> block_call b (err_of r) b'"
| call_outgoing: "outgoing_links i handle b = (r, b') \<Longrightarrow> block_call b (err_of r) b'"
| call_incoming: "incoming_links i handle b = (r, b') \<Longrightarrow> block_call b (err_of r) b'"
| call_links: "links_read i b = (r, b') \<Longrightarrow> block_call b (err_of r) b'"
| call_upcoming: "upcoming window b = (r, b') \<Longrightarrow> block_call b (err_of r) b'"
| call_overdue: "overdue window b = (r, b') \<Longrightarrow> block_call b (err_of r) b'"
| call_on: "on_day date b = (r, b') \<Longrightarrow> block_call b (err_of r) b'"
| call_recurring: "recurring b = (r, b') \<Longrightarrow> block_call b (err_of r) b'"
| call_current_context: "block_call b None (snd (current_context b))"
| call_abort: "block_call b None (abort cause b)"
| call_skip: "block_call b None (skip_turn cause b)"

definition block_step :: "memory_block \<Rightarrow> memory_block \<Rightarrow> bool" where
  "block_step b b' \<longleftrightarrow> (\<exists>e. block_call b e b')"

context block_policy
begin

lemma details_emits: "frame b = frame c \<Longrightarrow> emits (Q c) b (details i b)"
  unfolding details_def links_read_def Let_def
  by (assumption | rule entries_emits class_link_refs_emits steps)+

lemma directed_links_emits: "frame b = frame c \<Longrightarrow> emits (Q c) b (directed_links i handle want b)"
  unfolding directed_links_def by (assumption | rule class_link_refs_emits steps)+

lemma calendar_emits:
  assumes "frame b = frame c"
  shows upcoming_emits: "emits (Q c) b (upcoming window b)"
    and overdue_emits: "emits (Q c) b (overdue window b)"
    and on_day_emits: "emits (Q c) b (on_day date b)"
proof -
  show "emits (Q c) b (upcoming window b)"
    unfolding upcoming_def by (assumption | rule occurrence_memories_emits steps assms)+
  show "emits (Q c) b (overdue window b)"
    unfolding overdue_def by (assumption | rule occurrence_memories_emits steps assms)+
  show "emits (Q c) b (on_day date b)"
    unfolding on_day_def by (assumption | rule occurrence_memories_emits steps assms)+
qed

lemmas all_emit =
  create_with_opts_emits link_endpoint_emits rename_emits append_emits append_dedup_emits attest_emits
  supersede_emits revise_emits set_volatility_emits retract_emits retract_attestation_emits
  consolidate_emits consolidate_into_emits link_emits unlink_emits propose_merge_emits
  register_relation_emits designate_primary_emits create_tag_emits describe_tag_emits tag_emits
  untag_emits get_emits entries_emits history_emits details_emits directed_links_emits
  class_link_refs_emits upcoming_emits overdue_emits on_day_emits recurring_emits

lemma emits_result: "m b = (r, b') \<Longrightarrow> emits (Q c) b (m b) \<Longrightarrow> emits (Q c) b ((), b')"
  by (simp add: emits_def)

lemma call_emits:
  assumes "block_call b e b'" "frame b = frame c"
  shows "emits (Q c) b ((), b')"
  using assms
proof (cases rule: block_call.cases)
  case call_current_context
  then show ?thesis by (auto simp: current_context_def emits_def split: option.splits)
next
  case (call_abort cause)
  then show ?thesis by (simp add: abort_def emits_def)
next
  case (call_skip cause)
  then show ?thesis by (simp add: skip_turn_def emits_def)
qed (unfold outgoing_links_def incoming_links_def links_read_def,
    (erule emits_result, rule all_emit [OF assms(2)])+)

lemma step_emits: "block_step b b' \<Longrightarrow> frame b = frame c \<Longrightarrow> emits (Q c) b ((), b')"
  unfolding block_step_def by (auto intro: call_emits)

lemma reachable_emits:
  assumes "block_step\<^sup>*\<^sup>* c b"
  shows "emits (Q c) c ((), b)"
  using assms
proof (induction rule: rtranclp_induct)
  case base
  show ?case by (simp add: emits_def)
next
  case (step y z)
  have "frame y = frame c" using step.IH by (simp add: emits_def)
  with step_emits [OF step.hyps(2)] have "emits (Q c) y ((), z)" .
  with step.IH show ?case by (rule emits_trans)
qed

lemma reachable_events:
  assumes "block_step\<^sup>*\<^sup>* c b" "mb_buffer c = []"
  shows "list_all (Q c) (fx_events (into_effects b))"
  using reachable_emits [OF assms(1)] assms(2) by (auto simp: emits_def into_effects_def)

end

end
