(* ===== verification/Sample_Block.thy ===== *)
theory Sample_Block
  imports Block_Policy Sample_Log
begin

text \<open>
  The block the concrete instances of the block properties share: a platform turn told by bob, memory 3, in the room
  of the sample log, which a few more events extend with the agent's own memory, the operator anchor and two
  entries told by bob. The ids a block draws are the numbers from 1000 on; a ULID is rendered in decimal.
\<close>

definition turn_payloads :: "event_payload list" where
  "turn_payloads =
    [MemoryCreated (MemoryId 5) self_handle,
     MemoryCreated (MemoryId 6) (memory_name_of operator_name),
     MemoryContentAppended (MemoryId 5) (EntryId 13) 14000 None ''tends a garden'' Teller_Bootstrap None Visibility_Public,
     MemoryContentAppended (MemoryId 1) (EntryId 14) 15000 None ''plays chess'' (Teller_Participant (MemoryId 3))
       None Visibility_Public,
     EntryAttested (MemoryId 1) (EntryId 14) (Teller_Participant (MemoryId 2)) None 16000 Visibility_Public
       None None None]"

definition turn_log :: "event list" where
  "turn_log = map (\<lambda>(n, p). sample_event (n + 20) p) (enumerate 0 turn_payloads)"

definition turn_graph :: graph where
  "turn_graph =
     (case foldM (apply_event gregorian) turn_log sample_graph of Inr g \<Rightarrow> g | Inl _ \<Rightarrow> empty_graph)"

definition turn_engine :: engine where
  "turn_engine =
     \<lparr>en_jiff = gregorian, en_graph = turn_graph, en_clock = (\<lambda>n. 100000 + int n), en_entropy = (\<lambda>n. 1000 + n),
      en_ulid_str = show_nat, en_ulid_from_string = (\<lambda>s. map_option nat (parse_digits s)),
      en_retrieval = Some (\<lambda>emb n. Inr [\<lparr>hit_id = ''entryctx:13'', hit_score = 1\<rparr>]),
      en_dedup_threshold = 19 / 20, en_consolidation_threshold = 17 / 20\<rparr>"

definition turn_block :: memory_block where
  "turn_block =
     \<lparr>mb_engine = turn_engine, mb_teller = Teller_Participant (MemoryId 3), mb_authority = Authority_Platform,
      mb_self_id = Some (MemoryId 5), mb_operator_id = Some (MemoryId 6),
      mb_context_memory = Some (MemoryId 4),
      mb_told_in = Some \<lparr>cr_conversation = ConversationId 20, cr_turn = Some (TurnId 40)\<rparr>,
      mb_confidential_context = False, mb_connector_authored = False,
      mb_present_set = [MemoryId 2, MemoryId 3], mb_max_entry_chars = 200, mb_buffer = [], mb_touched = {},
      mb_aborted = None, mb_skip = None, mb_open_default_seeds = {}, mb_drawn = 0\<rparr>"

definition open_turn :: "authority \<Rightarrow> memory_block outcome" where
  "open_turn auth =
     block_new turn_engine (Teller_Participant (MemoryId 3)) auth (Some (ConversationId 20)) (Some (TurnId 40))
       [MemoryId 2, MemoryId 3] 200"

lemma turn_replay: "foldM (apply_event gregorian) turn_log sample_graph = Inr turn_graph"
proof -
  have "is_ok (foldM (apply_event gregorian) turn_log sample_graph)" by code_simp
  then show ?thesis by (auto simp: turn_graph_def is_ok_iff)
qed

lemma turn_reads:
  "map_option mv_id (case self_memory gregorian turn_graph of Inr m \<Rightarrow> m | _ \<Rightarrow> None) = Some (MemoryId 5)"
  "map_option mv_id (case memory_by_name gregorian turn_graph (memory_name_of operator_name) of Inr m \<Rightarrow> m | _ \<Rightarrow> None)
    = Some (MemoryId 6)"
  "context_for_conversation turn_graph (ConversationId 20) = Some (MemoryId 4)"
  "map_option mv_tags (case memory_by_id gregorian turn_graph (MemoryId 4) of Inr m \<Rightarrow> m | _ \<Rightarrow> None) = Some []"
  by code_simp+

lemma turn_block_new: "open_turn Authority_Platform = Inr turn_block"
proof -
  from turn_reads obtain s p r where
    "self_memory gregorian turn_graph = Inr (Some s)" "mv_id s = MemoryId 5"
    "memory_by_name gregorian turn_graph (memory_name_of operator_name) = Inr (Some p)" "mv_id p = MemoryId 6"
    "memory_by_id gregorian turn_graph (MemoryId 4) = Inr (Some r)" "mv_tags r = []"
    by (auto split: sum.splits)
  moreover have "en_graph turn_engine = turn_graph" "en_jiff turn_engine = gregorian"
    by (simp_all add: turn_engine_def)
  ultimately show ?thesis
    by (simp add: open_turn_def block_new_def Let_def turn_reads(3) turn_block_def)
qed

lemma turn_fresh: "en_entropy (mb_engine turn_block) n = 1000 + n"
  by (simp add: turn_block_def turn_engine_def)

end
