(* ===== verification/Block_Trust.thy ===== *)
theory Block_Trust
  imports Block_Policy Sample_Block
begin

text \<open>
  What holds of every block, whatever calls a script makes of it: the events of a block that is not the operator's
  keep out of the self model and of identity, every entry and link carries the provenance of its block, and a
  call that fails leaves the buffer as it was. Each rests on an instance of \<open>block_policy\<close>. The last section
  shows what the rule on \<open>same_as\<close> does not stop.
\<close>

section \<open>Trust\<close>

definition fresh_ids :: "memory_block \<Rightarrow> bool" where
  "fresh_ids b \<longleftrightarrow>
     mb_self_id b \<notin> range (\<lambda>n. Some (MemoryId (en_entropy (mb_engine b) n)))
     \<and> mb_operator_id b \<notin> range (\<lambda>n. Some (MemoryId (en_entropy (mb_engine b) n)))"

text \<open>The memory whose record an event rewrites, and the one whose settings it changes.\<close>

definition content_target :: "event_payload \<Rightarrow> memory_id option" where
  "content_target ev =
     (case ev of
        MemoryContentAppended i _ _ _ _ _ _ _ \<Rightarrow> Some i
      | MemorySuperseded i _ _ \<Rightarrow> Some i
      | EntryRetracted i _ _ _ \<Rightarrow> Some i
      | AttestationRetracted i _ _ _ _ \<Rightarrow> Some i
      | EntriesConsolidated i _ _ _ \<Rightarrow> Some i
      | _ \<Rightarrow> None)"

definition settings_target :: "event_payload \<Rightarrow> memory_id option" where
  "settings_target ev =
     (case ev of
        MemoryRenamed i _ _ \<Rightarrow> Some i
      | MemoryVolatilitySet i _ \<Rightarrow> Some i
      | TagAppliedToMemory i _ \<Rightarrow> Some i
      | TagRemovedFromMemory i _ \<Rightarrow> Some i
      | ClassPrimaryDesignated i _ \<Rightarrow> Some i
      | _ \<Rightarrow> None)"

text \<open>What is reserved to the operator, under any authority and under the authority of a platform turn.\<close>

definition forges_identity :: "memory_id option \<Rightarrow> event_payload \<Rightarrow> bool" where
  "forges_identity self ev =
     (case ev of
        LinkCreated i j RelationName_SameAs _ _ _ _ \<Rightarrow> self = Some i \<or> self = Some j
      | LinkRemoved i j RelationName_SameAs \<Rightarrow> self = Some i \<or> self = Some j
      | MergeProposed i j _ _ \<Rightarrow> self = Some i \<or> self = Some j
      | _ \<Rightarrow> False)"

definition reserved_to_operator :: "event_payload \<Rightarrow> bool" where
  "reserved_to_operator ev =
     (case ev of
        LinkCreated _ _ RelationName_SameAs _ _ _ _ \<Rightarrow> True
      | LinkRemoved _ _ RelationName_SameAs \<Rightarrow> True
      | TagRemovedFromMemory _ TagName_Confidential \<Rightarrow> True
      | MemoryRenamed _ old new \<Rightarrow> platform_qualified (name_str old) \<or> platform_qualified (name_str new)
      | _ \<Rightarrow> False)"

definition trusted_write :: "memory_block \<Rightarrow> event_payload \<Rightarrow> bool" where
  "trusted_write b ev \<longleftrightarrow>
     (case content_target ev of Some i \<Rightarrow> mb_self_id b \<noteq> Some i \<and> mb_operator_id b \<noteq> Some i | None \<Rightarrow> True)
     \<and> (case settings_target ev of Some i \<Rightarrow> mb_self_id b \<noteq> Some i | None \<Rightarrow> True)
     \<and> \<not> forges_identity (mb_self_id b) ev
     \<and> \<not> (mb_authority b = Authority_Platform \<and> reserved_to_operator ev)"

definition trust_policy :: "memory_block \<Rightarrow> event_payload \<Rightarrow> bool" where
  "trust_policy b ev \<longleftrightarrow> mb_authority b \<noteq> Authority_Operator \<and> fresh_ids b \<longrightarrow> trusted_write b ev"

lemma minted_fresh: "fresh_ids b \<Longrightarrow> minted b i \<Longrightarrow> mb_self_id b \<noteq> Some i \<and> mb_operator_id b \<noteq> Some i"
  by (auto simp: fresh_ids_def minted_def)

lemma guard_self_other: "mb_authority b \<noteq> Authority_Operator \<Longrightarrow> guard_self i b = Inr () \<Longrightarrow> mb_self_id b \<noteq> Some i"
  by (auto simp: guard_self_def)

lemma guard_operator_other: "guard_operator i b = Inr () \<Longrightarrow> mb_operator_id b \<noteq> Some i"
  by (auto simp: guard_operator_def)

lemmas target_defs = content_target_def settings_target_def forges_identity_def reserved_to_operator_def

interpretation trust: block_policy trust_policy
proof
  fix b b' ev assume same: "frame b' = frame b"
  show "trust_policy b' ev = trust_policy b ev"
    by (simp add: trust_policy_def trusted_write_def fresh_ids_def frame_fields [OF same] cong: option.case_cong)
qed (auto simp: trust_policy_def trusted_write_def target_defs writable_def renameable_def linkable_def
    guard_self_merge_def guard_confidential_untag_def
    dest: minted_fresh guard_self_other guard_operator_other
    split: relation_name.splits tag_name.splits if_splits)

text \<open>
  C3: whatever calls a script makes of a block that is not the operator's, and whether they fail or not,
  the events it commits never rewrite the record of the agent's own memory or of the operator anchor,
  never change the settings of the agent's own memory, never bind it to another identity, and, in a platform turn, never
  assert or undo a \<open>same_as\<close>, take the confidential tag off a memory, or rename from or to a
  platform handle.
\<close>

theorem block_keeps_trust:
  assumes "block_new eng t auth conversation turn present limit = Inr b0"
    and "auth \<noteq> Authority_Operator" "fresh_ids b0" "block_step\<^sup>*\<^sup>* b0 b"
  shows "list_all (trusted_write b0) (fx_events (into_effects b))"
proof -
  have b0: "mb_buffer b0 = []" "mb_authority b0 = auth"
    using assms(1) by (auto simp: block_new_def Let_def andthen_Inr_iff split: prod.splits)
  then have "list_all (trust_policy b0) (fx_events (into_effects b))"
    by (intro trust.reachable_events [OF assms(4)])
  then show ?thesis by (rule list.pred_mono_strong) (use b0 assms(2,3) in \<open>simp add: trust_policy_def\<close>)
qed

lemma turn_append: "block_step\<^sup>*\<^sup>* turn_block (snd (append (MemoryId 3) ''met ada'' default_options turn_block))"
  by (rule r_into_rtranclp) (unfold block_step_def, rule exI, rule call_append, rule prod.collapse [symmetric])

theorem block_keeps_trust_witness:
  "list_all (trusted_write turn_block)
     (fx_events (into_effects (snd (append (MemoryId 3) ''met ada'' default_options turn_block))))"
proof (rule block_keeps_trust [OF _ _ _ turn_append])
  show "block_new turn_engine (Teller_Participant (MemoryId 3)) Authority_Platform (Some (ConversationId 20))
    (Some (TurnId 40)) [MemoryId 2, MemoryId 3] 200 = Inr turn_block"
    using turn_block_new by (simp add: open_turn_def)
  show "fresh_ids turn_block" by (auto simp: fresh_ids_def turn_fresh) (simp_all add: turn_block_def)
qed simp

section \<open>Provenance\<close>

definition provenance :: "memory_block \<Rightarrow> event_payload \<Rightarrow> bool" where
  "provenance b ev =
     (case ev of
        MemoryContentAppended _ _ _ occurred text _ told_in _ \<Rightarrow>
          told_in = mb_told_in b \<and> length (chars_of text) \<le> mb_max_entry_chars b
          \<and> (case occurred of Some (TemporalRef_Recurring rule) \<Rightarrow> rrule_is_supported rule | _ \<Rightarrow> True)
      | LinkCreated _ _ _ src told_by told_in _ \<Rightarrow>
          told_in = mb_told_in b \<and> told_by = Some (mb_teller b)
          \<and> (src = LinkSource_Operator) = (mb_authority b = Authority_Operator)
      | _ \<Rightarrow> True)"

interpretation told: block_policy provenance
proof
  fix b b' ev assume same: "frame b' = frame b"
  show "provenance b' ev = provenance b ev"
    by (simp add: provenance_def frame_fields [OF same] cong: event_payload.case_cong)
qed (auto simp: provenance_def validate_occurred_at_def link_source_for_def
    split: option.splits temporal_ref.splits if_splits authority.splits)

text \<open>
  every entry a block commits carries the block's own conversation and turn, is within its length
  limit and recurs, if at all, by a rule the scheduler can interpret; every link it commits carries
  the block's teller and conversation, and the operator's mark exactly when the operator wrote it.
\<close>

theorem block_provenance:
  assumes "block_step\<^sup>*\<^sup>* b0 b" "mb_buffer b0 = []"
  shows "list_all (provenance b0) (fx_events (into_effects b))"
  by (rule told.reachable_events [OF assms])

theorem block_provenance_witness:
  "list_all (provenance turn_block)
     (fx_events (into_effects (snd (append (MemoryId 3) ''met ada'' default_options turn_block))))"
  by (rule block_provenance [OF turn_append]) (simp add: turn_block_def)

section \<open>Atomicity\<close>

text \<open>An outcome that buffers nothing, one that never fails, and one that buffers nothing when it fails.\<close>

definition quiet :: "memory_block \<Rightarrow> 'r \<times> memory_block \<Rightarrow> bool" where
  "quiet b out \<longleftrightarrow> mb_buffer (snd out) = mb_buffer b"

definition sure :: "(memory_error, 'a) result \<times> memory_block \<Rightarrow> bool" where
  "sure out \<longleftrightarrow> is_ok (fst out)"

definition clean :: "memory_block \<Rightarrow> (memory_error, 'a) result \<times> memory_block \<Rightarrow> bool" where
  "clean b out \<longleftrightarrow> sure out \<or> quiet b out"

lemma quiet_basic:
  "quiet b (ret a b)" "quiet b (fail e b)" "quiet b (query f b)" "quiet b (touch i b)"
  "quiet b (draw b)" "quiet b (touch_class i members b)" "quiet b (remember_open_seed i unforced v b)"
  by (simp_all add: quiet_def ret_def fail_def query_def touch_def draw_def touch_class_def
      remember_open_seed_def)

lemma quiet_bind:
  "quiet b (m b) \<Longrightarrow> (\<And>a b'. quiet b' (f a b')) \<Longrightarrow> quiet b (bind_op m f b)"
  by (auto simp: quiet_def bind_op_def split: prod.splits sum.splits)

lemma quiet_each: "(\<And>x b'. quiet b' (f x b')) \<Longrightarrow> quiet b (each f xs b)"
  by (induction xs arbitrary: b) (auto intro: quiet_bind quiet_basic)

lemma sure_basic: "sure (ret a b)" "sure (push ev b)" "sure (touch i b)"
  by (simp_all add: sure_def ret_def push_def touch_def is_ok_def)

lemma sure_bind: "sure (m b) \<Longrightarrow> (\<And>a b'. sure (f a b')) \<Longrightarrow> sure (bind_op m f b)"
  by (auto simp: sure_def bind_op_def is_ok_iff split: prod.splits sum.splits)

lemma sure_each: "(\<And>x b'. sure (f x b')) \<Longrightarrow> sure (each f xs b)"
  by (induction xs arbitrary: b) (auto intro: sure_bind sure_basic)

lemma clean_quiet: "quiet b out \<Longrightarrow> clean b out"
  by (simp add: clean_def)

lemma clean_push: "clean b (push ev b)"
  by (simp add: clean_def sure_basic)

lemma clean_bind:
  "quiet b (m b) \<Longrightarrow> (\<And>a b'. clean b' (f a b')) \<Longrightarrow> clean b (bind_op m f b)"
  by (fastforce simp: quiet_def clean_def sure_def is_ok_def bind_op_def split: prod.splits sum.splits)

lemma clean_bind_sure:
  "clean b (m b) \<Longrightarrow> (\<And>a b'. sure (f a b')) \<Longrightarrow> clean b (bind_op m f b)"
  by (fastforce simp: quiet_def clean_def sure_def is_ok_def bind_op_def split: prod.splits sum.splits)

interpretation appends: block_policy "\<lambda>b ev. True"
  by unfold_locales auto

lemma clean_transaction: "emits (\<lambda>ev. True) b (m b) \<Longrightarrow> clean b (transaction m b)"
  by (auto simp: clean_def sure_def quiet_def is_ok_def transaction_def emits_def Let_def
      split: prod.splits sum.splits)

lemma branch_rules:
  "(c \<Longrightarrow> P x) \<Longrightarrow> (\<not> c \<Longrightarrow> P y) \<Longrightarrow> P (if c then x else y)"
  "(c \<Longrightarrow> P (x' b)) \<Longrightarrow> (\<not> c \<Longrightarrow> P (y' b)) \<Longrightarrow> P ((if c then x' else y') b)"
  "P (f b) \<Longrightarrow> (\<And>a. P (g a b)) \<Longrightarrow> P ((case z of None \<Rightarrow> f | Some a \<Rightarrow> g a) b)"
  "P f' \<Longrightarrow> (\<And>a. P (g' a)) \<Longrightarrow> P (case z of None \<Rightarrow> f' | Some a \<Rightarrow> g' a)"
  "(\<And>u v. P (h u v b)) \<Longrightarrow> P ((case w of (u, v) \<Rightarrow> h u v) b)"
  "(\<And>u v. P (h' u v)) \<Longrightarrow> P (case w of (u, v) \<Rightarrow> h' u v)"
  by (auto split: option.splits prod.splits)

lemmas clean_branch = branch_rules [where P = "clean b" for b]
lemmas quiet_branch = branch_rules [where P = "quiet b" for b]
lemmas sure_branch = branch_rules [where P = sure]
lemmas quiet_rules = quiet_basic quiet_bind quiet_each quiet_branch
lemmas sure_rules = sure_basic sure_bind sure_each sure_branch

lemma guarded_target_quiet: "quiet b (guarded_target i b)"
  unfolding guarded_target_def by (rule quiet_rules)+

lemma resolve_first_entry_quiet: "quiet b (resolve_first_entry name i tx opts b)"
  unfolding resolve_first_entry_def Let_def by (rule quiet_rules)+

lemma get_quiet: "quiet b (get name b)"
  unfolding get_def by (rule quiet_rules)+

lemma reads_quiet:
  shows entries_quiet: "quiet b (entries i b)"
    and history_quiet: "quiet b (history i b)"
    and class_link_refs_quiet: "quiet b (class_link_refs i b)"
    and occurrence_memories_quiet: "quiet b (occurrence_memories from_t to_t rec b)"
    and recurring_quiet: "quiet b (recurring b)"
proof -
  show "quiet b (entries i b)" unfolding entries_def by (rule quiet_rules)+
  show "quiet b (history i b)" unfolding history_def by (rule quiet_rules)+
  show "quiet b (class_link_refs i b)" unfolding class_link_refs_def by (rule quiet_rules)+
  show "quiet b (occurrence_memories from_t to_t rec b)"
    unfolding occurrence_memories_def Let_def by (rule quiet_rules)+
  show "quiet b (recurring b)" unfolding recurring_def Let_def by (rule quiet_rules)+
qed

lemma push_content_clean: "clean b (push_content i tx t v occurred b)"
  unfolding push_content_def Let_def
  by (rule clean_branch clean_quiet quiet_basic clean_bind clean_bind_sure clean_push sure_rules)+

lemmas clean_rules =
  clean_branch clean_transaction clean_quiet [OF quiet_basic(1)] clean_quiet [OF quiet_basic(2)] clean_push
  push_content_clean

lemma clean_after:
  assumes "\<And>a b'. clean b' (f a b')"
  shows "clean b (bind_op (query g) f b)"
  by (rule clean_bind) (simp_all add: quiet_basic assms)

lemma clean_after_touch:
  assumes "\<And>a b'. clean b' (f a b')"
  shows "clean b (bind_op (touch i) f b)"
  by (rule clean_bind) (simp_all add: quiet_basic assms)

lemma clean_after_target:
  assumes "\<And>a b'. clean b' (f a b')"
  shows "clean b (bind_op (guarded_target i) f b)"
  by (rule clean_bind) (simp_all add: guarded_target_quiet assms)

lemmas clean_afters = clean_after clean_after_touch clean_after_target

lemma append_clean: "clean b (append i tx opts b)"
proof -
  have volatility: "sure (bind_op (case w of None \<Rightarrow> ret () | Some w \<Rightarrow> push (MemoryVolatilitySet i (into_volatility w)))
      (\<lambda>_. ret e) b)" for i w e b
    by (rule sure_rules)+
  show ?thesis
    unfolding append_def Let_def
    by (rule clean_rules volatility clean_afters clean_bind_sure)+
qed

lemma single_event_clean:
  shows rename_clean: "clean b (rename i name b)"
    and supersede_clean: "clean b (supersede i old new b)"
    and set_volatility_clean: "clean b (set_volatility i level b)"
    and tag_clean: "clean b (tag i tag_n b)"
    and untag_clean: "clean b (untag i tag_n b)"
    and register_relation_clean: "clean b (register_relation spec b)"
    and propose_merge_clean: "clean b (propose_merge i j rationale b)"
    and designate_primary_clean: "clean b (designate_primary i flag b)"
  unfolding rename_def supersede_def set_volatility_def tag_def untag_def register_relation_def
    propose_merge_def designate_primary_def
  by (rule clean_rules clean_afters)+

lemma tag_vocabulary_clean: "clean b (create_tag tag_n d b)" "clean b (describe_tag tag_n d b)"
  unfolding create_tag_def describe_tag_def by (rule clean_rules)+

lemma take_length_append: "take (length ys) xs = ys @ evs \<Longrightarrow> evs = []"
  by (drule arg_cong [where f = length]) (simp add: min_def split: if_splits)

lemma clean_transaction_out: "emits (\<lambda>ev. True) b (transaction m b) \<Longrightarrow> clean b (transaction m b)"
  by (auto simp: clean_def sure_def quiet_def is_ok_def transaction_def emits_def Let_def
      split: prod.splits sum.splits dest: take_length_append)

lemma create_with_opts_clean: "clean b (create_with_opts name content opts b)"
  using appends.create_with_opts_emits [OF refl, of b name content opts]
  unfolding create_with_opts_def by (rule clean_transaction_out)

lemma link_endpoint_clean: "clean b (link_endpoint name b)"
  unfolding link_endpoint_def create_def
  by (rule clean_rules create_with_opts_clean clean_afters clean_bind get_quiet)+

lemma revise_clean: "clean b (revise i old tx opts b)"
  unfolding revise_def
  by (rule clean_bind quiet_rules clean_transaction appends.append_emits appends.supersede_emits appends.steps refl)+

lemma record_attestation_clean: "clean b (record_attestation w b)"
  unfolding record_attestation_def Let_def
  by (rule clean_rules clean_afters clean_bind_sure sure_rules)+

lemma corroborate_append_clean: "clean b (corroborate_append memory v tx opts b)"
  unfolding corroborate_append_def Let_def
  by (rule clean_rules clean_afters record_attestation_clean clean_bind_sure sure_rules)+

lemma append_dedup_clean: "clean b (append_dedup i tx opts emb b)"
proof -
  have selector: "quiet b ((case s of None \<Rightarrow> ret None | Some s \<Rightarrow> bind_op (query (resolve_entry_ref i s)) (\<lambda>e. ret (Some e))) b)" for b s
    by (rule quiet_rules)+
  have appended: "clean b (bind_op (append i tx p) (\<lambda>entry. ret (AppendOutcome_Appended entry advisory)) b)" for b p advisory
    by (rule clean_bind_sure append_clean sure_basic)+
  show ?thesis
    unfolding append_dedup_def Let_def
    by (rule clean_rules clean_afters corroborate_append_clean appended clean_bind selector)+
qed

lemma attest_clean: "clean b (attest i selector opts b)"
  unfolding attest_def Let_def by (rule clean_rules clean_afters record_attestation_clean)+

lemma write_link_clean: "clean b (write_link i j relation create_it forced b)"
proof -
  have ends: "quiet b ((if relation = RelationName_SameAs then ret (i, j)
      else bind_op (query (class_write_target i)) (\<lambda>f. bind_op (query (class_write_target j)) (\<lambda>t. ret (f, t)))) b)" for b
    by (rule quiet_rules)+
  show ?thesis
    unfolding write_link_def Let_def by (rule clean_rules clean_afters clean_bind ends)+
qed

lemma change_link_clean: "clean b (change_link i j relation create_it forced b)"
proof -
  have authority: "clean b (case a of Authority_Platform \<Rightarrow> x | Authority_Operator \<Rightarrow> y | Authority_Agent \<Rightarrow> z)"
    if "clean b x" "clean b y" "clean b z" for b :: memory_block and a and x y z :: "(memory_error, unit) result \<times> memory_block"
    using that by (cases a) simp_all
  show ?thesis
    unfolding change_link_def
    by (rule clean_rules clean_afters authority write_link_clean propose_merge_clean)+
qed

lemma link_clean: "clean b (link i j relation opts b)"
  unfolding link_def by (rule clean_bind quiet_rules change_link_clean)+

lemma push_withdrawals_sure: "sure (push_withdrawals i entry reason produced ts b)"
  unfolding push_withdrawals_def by (rule sure_rules)+

lemma push_withdrawals_clean: "clean b (push_withdrawals i entry reason produced ts b)"
  by (simp add: clean_def push_withdrawals_sure)

lemma reason_required_quiet: "quiet b (reason_required reason b)"
  unfolding reason_required_def by (rule quiet_rules)+

lemma clean_after_reason:
  assumes "\<And>a b'. clean b' (f a b')"
  shows "clean b (bind_op (reason_required reason) f b)"
  by (rule clean_bind) (simp_all add: reason_required_quiet assms)

lemma retract_clean: "clean b (retract i selector reason produced b)"
  unfolding retract_def Let_def
  by (rule clean_rules clean_afters clean_after_reason push_withdrawals_clean clean_bind_sure sure_basic)+

lemma retract_attestation_clean: "clean b (retract_attestation i selector t reason produced b)"
  unfolding retract_attestation_def Let_def
  by (rule clean_rules clean_afters clean_after_reason push_withdrawals_clean)+

lemma consolidate_clean: "clean b (consolidate i sources tx produced b)"
  using appends.consolidate_emits [OF refl, of b i sources tx produced]
  unfolding consolidate_def by (rule clean_transaction_out)

lemma plan_absorption_quiet: "quiet b (plan_absorption i replacement produced live sources running planned b)"
proof (induction sources arbitrary: running planned b)
  case (Cons s ss)
  show ?case unfolding plan_absorption.simps by (rule Cons.IH quiet_rules)+
qed (simp add: quiet_basic)

lemma consolidate_into_clean: "clean b (consolidate_into i sources replacement produced b)"
proof -
  have "sure (bind_op (each push evs) (\<lambda>_. push ev) b)" for evs ev b
    by (rule sure_rules)+
  then have pushes: "clean b (bind_op (each push evs) (\<lambda>_. push ev) b)" for evs ev b
    by (simp add: clean_def)
  have planned: "clean b (bind_op (plan_absorption i replacement produced live sources running planned) f b)"
    if "\<And>a b'. clean b' (f a b')" for b i live running planned and f :: "event_payload list \<Rightarrow> unit block_op"
    by (rule clean_bind) (simp_all add: plan_absorption_quiet that)
  show ?thesis
    unfolding consolidate_into_def
    by (rule clean_rules clean_afters planned pushes)+
qed

lemma reading_quiet:
  shows details_quiet: "quiet b (details i b)"
    and directed_links_quiet: "quiet b (directed_links i handle want b)"
    and upcoming_quiet: "quiet b (upcoming window b)"
    and overdue_quiet: "quiet b (overdue window b)"
    and on_day_quiet: "quiet b (on_day date b)"
proof -
  show "quiet b (details i b)"
    unfolding details_def links_read_def Let_def by (rule entries_quiet class_link_refs_quiet quiet_rules)+
  show "quiet b (directed_links i handle want b)"
    unfolding directed_links_def by (rule class_link_refs_quiet quiet_rules)+
  show "quiet b (upcoming window b)"
    unfolding upcoming_def by (rule occurrence_memories_quiet quiet_rules)+
  show "quiet b (overdue window b)"
    unfolding overdue_def by (rule occurrence_memories_quiet quiet_rules)+
  show "quiet b (on_day date b)"
    unfolding on_day_def by (rule occurrence_memories_quiet quiet_rules)+
qed

lemmas all_clean =
  create_with_opts_clean link_endpoint_clean rename_clean append_clean append_dedup_clean attest_clean
  supersede_clean revise_clean set_volatility_clean retract_clean retract_attestation_clean
  consolidate_clean consolidate_into_clean link_clean change_link_clean propose_merge_clean
  register_relation_clean designate_primary_clean tag_vocabulary_clean tag_clean untag_clean
  clean_quiet [OF get_quiet] clean_quiet [OF entries_quiet] clean_quiet [OF history_quiet]
  clean_quiet [OF details_quiet] clean_quiet [OF directed_links_quiet] clean_quiet [OF class_link_refs_quiet]
  clean_quiet [OF upcoming_quiet] clean_quiet [OF overdue_quiet] clean_quiet [OF on_day_quiet]
  clean_quiet [OF recurring_quiet]

lemma clean_result: "m b = (r, b') \<Longrightarrow> clean b (m b) \<Longrightarrow> err_of r = Some e \<Longrightarrow> mb_buffer b' = mb_buffer b"
  by (auto simp: clean_def sure_def quiet_def err_of_def is_ok_def split: sum.splits)

lemma failed_call:
  assumes "block_call b err b'" "err = Some e"
  shows "mb_buffer b' = mb_buffer b"
  using assms
proof (cases rule: block_call.cases)
qed (unfold outgoing_links_def incoming_links_def links_read_def unlink_def,
    (erule clean_result, rule all_clean, simp)+, auto)

text \<open>
  C25: a call that fails, however far it came, leaves the events the block has buffered exactly as they were; so a
  compound write never commits part of itself.
\<close>

theorem failed_call_leaves_no_trace:
  assumes "block_call b (Some e) b'"
  shows "fx_events (into_effects b') = fx_events (into_effects b)"
  using failed_call [OF assms refl] by (simp add: into_effects_def)

text \<open>In the sample turn bob may not write to the agent's own memory.\<close>

theorem failed_call_leaves_no_trace_witness:
  "fx_events (into_effects (snd (append (MemoryId 5) ''obeys bob'' default_options turn_block)))
     = fx_events (into_effects turn_block)"
proof (rule failed_call_leaves_no_trace)
  have "err_of (fst (append (MemoryId 5) ''obeys bob'' default_options turn_block))
    = Some MemoryError_SelfWriteForbidden"
    by code_simp
  then show "block_call turn_block (Some MemoryError_SelfWriteForbidden)
    (snd (append (MemoryId 5) ''obeys bob'' default_options turn_block))"
    by (metis call_append prod.collapse)
qed

section \<open>What the rules do not stop\<close>

definition twin_spec :: relation_spec where
  "twin_spec =
     \<lparr>rs_name = ''same_as'', rs_inverse = ''twin'', rs_from_card = ''Many'', rs_to_card = ''Many'',
      rs_symmetric = True, rs_reflexive = False, rs_description = []\<rparr>"

text \<open>Bob re-registers \<open>same_as\<close> with the inverse \<open>twin\<close> and links himself to ada under that label.\<close>

definition twin_turn :: memory_block where
  "twin_turn =
     snd (link (MemoryId 3) (MemoryId 1) (relation_name_new ''twin'') None (snd (register_relation twin_spec turn_block)))"

definition twin_log :: "event list" where
  "twin_log = map (\<lambda>(n, p). sample_event (n + 30) p) (enumerate 0 (fx_events (into_effects twin_turn)))"

lemma twin_merges:
  "case foldM (apply_event gregorian) twin_log turn_graph of
     Inr g \<Rightarrow> class_or_self g (MemoryId 3) = class_or_self g (MemoryId 1)
   | Inl _ \<Rightarrow> False"
  by code_simp

lemma twin_steps: "block_step\<^sup>*\<^sup>* turn_block twin_turn"
proof -
  have "block_step turn_block (snd (register_relation twin_spec turn_block))"
    unfolding block_step_def by (rule exI, rule call_register_relation, rule prod.collapse [symmetric])
  moreover have "block_step (snd (register_relation twin_spec turn_block)) twin_turn"
    unfolding block_step_def twin_turn_def by (rule exI, rule call_link, rule prod.collapse [symmetric])
  ultimately show ?thesis by (auto intro: converse_rtranclp_into_rtranclp)
qed

text \<open>
  the rule that a platform turn never asserts \<open>same_as\<close> goes by the label of the call, while the fold goes by the
  relation the label resolves to. Two calls of a platform turn, one that gives \<open>same_as\<close> another inverse label and
  one that links under it, merge two identities that were apart.
\<close>

theorem platform_turn_merges_by_alias:
  "open_turn Authority_Platform = Inr turn_block \<and> block_step\<^sup>*\<^sup>* turn_block twin_turn
   \<and> class_or_self turn_graph (MemoryId 3) \<noteq> class_or_self turn_graph (MemoryId 1)
   \<and> (\<exists>g. foldM (apply_event gregorian) twin_log turn_graph = Inr g
        \<and> class_or_self g (MemoryId 3) = class_or_self g (MemoryId 1))"
proof (intro conjI turn_block_new twin_steps)
  show "class_or_self turn_graph (MemoryId 3) \<noteq> class_or_self turn_graph (MemoryId 1)" by code_simp
  show "\<exists>g. foldM (apply_event gregorian) twin_log turn_graph = Inr g
    \<and> class_or_self g (MemoryId 3) = class_or_self g (MemoryId 1)"
    using twin_merges by (auto split: sum.splits)
qed

definition target_entry :: "event_payload \<Rightarrow> (memory_id \<times> entry_id \<times> teller) option" where
  "target_entry ev = (case ev of EntryAttested i e t _ _ _ _ _ _ \<Rightarrow> Some (i, e, t) | _ \<Rightarrow> None)"

text \<open>
  a platform turn may neither append to the agent's own memory nor endorse an entry of it, but an append that the
  capture scan finds near an entry of it records the endorsement.
\<close>

theorem dedup_endorses_self:
  "err_of (fst (append (MemoryId 5) ''tends a garden'' default_options turn_block)) = Some MemoryError_SelfWriteForbidden
   \<and> err_of (fst (attest (MemoryId 5) (EntrySelector_Id (EntryId 13)) default_options turn_block))
       = Some MemoryError_SelfWriteForbidden
   \<and> (case append_dedup (MemoryId 5) ''tends a garden'' default_options (Some []) turn_block of
        (Inr (AppendOutcome_Corroborated c), b) \<Rightarrow>
          co_entry c = EntryId 13
          \<and> map target_entry (mb_buffer b) = [Some (MemoryId 5, EntryId 13, Teller_Participant (MemoryId 3))]
      | _ \<Rightarrow> False)"
  by (intro conjI) code_simp+

end
