(* ===== verification/Block_Facts.thy ===== *)
theory Block_Facts
  imports Block_Trust
begin

text \<open>
  What single operations of a block promise: where an entry lands and that the next read shows it, that a read
  withholds what the audience may not hear, that an endorsement never widens its entry and a capture never reaches another's
  confidence, that a consolidation keeps its sources' tellers, and that a withdrawal spares the other tellers.
\<close>

section \<open>Tellers\<close>

definition teller_identity :: "memory_block \<Rightarrow> teller \<Rightarrow> teller" where
  "teller_identity b t =
     (case t of Teller_Participant i \<Rightarrow> Teller_Participant (class_or_self (graph_of b) i) | _ \<Rightarrow> t)"

lemma same_teller_class_identity: "same_teller_class b x y \<longleftrightarrow> teller_identity b x = teller_identity b y"
  by (auto simp: same_teller_class_def teller_identity_def same_participant_class_def split: teller.splits)

lemma place_source_identities:
  "teller_identity b ` st_teller ` set (place_source b e groups)
     = insert (teller_identity b (le_told_by e)) (teller_identity b ` st_teller ` set groups)"
  by (induction groups) (auto simp: same_teller_class_identity source_of_def)

lemma distinct_source_identities:
  "teller_identity b ` st_teller ` set (distinct_source_tellers b found es)
     = teller_identity b ` le_told_by ` set es - {teller_identity b found}"
proof -
  let ?step = "\<lambda>e groups. if same_teller_class b (le_told_by e) found then groups else place_source b e groups"
  have "teller_identity b ` st_teller ` set (fold ?step es groups)
    = (teller_identity b ` le_told_by ` set es - {teller_identity b found}) \<union> teller_identity b ` st_teller ` set groups"
    for groups
    by (induction es arbitrary: groups) (auto simp: place_source_identities same_teller_class_identity)
  then show ?thesis by (simp add: distinct_source_tellers_def)
qed

lemma same_teller_class_frame: "frame b' = frame b \<Longrightarrow> same_teller_class b' x y = same_teller_class b x y"
  by (simp add: same_teller_class_identity teller_identity_def frame_fields [of b' b] split: teller.splits)

lemma distinct_source_tellers_frame:
  assumes "frame b' = frame b"
  shows "distinct_source_tellers b' t es = distinct_source_tellers b t es"
proof -
  have "place_source b' e groups = place_source b e groups" for e groups
    by (induction groups) (simp_all add: same_teller_class_frame [OF assms])
  then have "place_source b' = place_source b" by (intro ext)
  then show ?thesis unfolding distinct_source_tellers_def same_teller_class_frame [OF assms] by (simp only:)
qed

section \<open>Runs of an operation\<close>

text \<open>What a successful operation came through, read off its definition.\<close>

lemma push_result: "push ev b = (Inr u, b') \<longleftrightarrow> b' = b\<lparr>mb_buffer := mb_buffer b @ [ev]\<rparr>"
  by (auto simp: push_def)

lemma touch_result: "touch i b = (Inr u, b') \<longleftrightarrow> b' = b\<lparr>mb_touched := insert i (mb_touched b)\<rparr>"
  by (auto simp: touch_def)

lemma fail_result [simp]: "fail e b \<noteq> (Inr a, b')"
  by (simp add: fail_def)

lemma if_result: "(if c then x else y) b = (if c then x b else y b)"
  by simp

lemmas runs = op_results push_result touch_result

lemma guarded_target_result:
  "guarded_target i b = (Inr j, b') \<longleftrightarrow> class_write_target i b = Inr j \<and> writable b j \<and> b' = b"
  by (auto simp: guarded_target_def runs writable_def)

lemma transaction_result: "transaction m b = (Inr a, b') \<longleftrightarrow> m b = (Inr a, b')"
  by (auto simp: transaction_def Let_def split: prod.splits sum.splits)

lemma push_content_result:
  "push_content i tx t v occurred b = (Inr e, b') \<longleftrightarrow>
     length (chars_of tx) \<le> mb_max_entry_chars b
     \<and> e = EntryId (en_entropy (mb_engine b) (mb_drawn b))
     \<and> b' = b\<lparr>mb_drawn := mb_drawn b + 1, mb_touched := insert i (mb_touched b),
              mb_buffer := mb_buffer b @ [MemoryContentAppended i e (en_clock (mb_engine b) (mb_drawn b + 1)) occurred tx t
                (mb_told_in b) v]\<rparr>"
  by (cases "mb_max_entry_chars b < length (chars_of tx)")
    (simp add: push_content_def, simp add: push_content_def bind_op_def draw_def touch_def push_def ret_def
      now_def not_less, blast)

lemma each_push_result:
  "each (\<lambda>x. push (f x)) xs b = (Inr u, b') \<longleftrightarrow> b' = b\<lparr>mb_buffer := mb_buffer b @ map f xs\<rparr>"
proof (induction xs arbitrary: b)
  case Nil
  show ?case unfolding each.simps ret_result by simp
next
  case (Cons x xs)
  then show ?case by (simp add: bind_op_def push_def)
qed

section \<open>Consolidation\<close>

lemma find_live_result: "find_live e live b = Inr l \<longleftrightarrow> List.find (\<lambda>l. le_entry_id l = e) live = Some l"
  by (simp add: find_live_def split: option.splits)

lemma check_source_result:
  assumes "check_source live s found b = (Inr mid, c)"
  obtains e where "e \<in> set live" "le_entry_id e = s" "mid = found @ [e]" "c = b"
    "found \<noteq> [] \<longrightarrow> le_visibility (hd found) = le_visibility e"
proof -
  from assms obtain e where e: "List.find (\<lambda>l. le_entry_id l = s) live = Some e"
    and m: "(case found of [] \<Rightarrow> ret [e] | f # _ \<Rightarrow>
      (if le_visibility f \<noteq> le_visibility e
       then fail (MemoryError_ConsolidationInvariant ''a cluster's sources must share one visibility level'')
       else ret (found @ [e]))) b = (Inr mid, c)"
    unfolding check_source_def bind_result query_result find_live_result by blast
  from e have mem: "e \<in> set live" "le_entry_id e = s" by (auto simp: find_Some_iff)
  show thesis
  proof (cases found)
    case Nil
    with m have "mid = [e]" "c = b" by (simp_all add: ret_result)
    with Nil mem that show ?thesis by simp
  next
    case (Cons f fs)
    with m have "le_visibility f = le_visibility e" "mid = found @ [e]" "c = b"
      by (simp_all add: ret_result split: if_splits)
    with Cons mem that show ?thesis by simp
  qed
qed

definition one_visibility :: "live_entry list \<Rightarrow> bool" where
  "one_visibility es \<longleftrightarrow> list_all (\<lambda>e. le_visibility e = le_visibility (hd es)) es"

lemma one_visibility_snoc:
  "one_visibility found \<Longrightarrow> found \<noteq> [] \<longrightarrow> le_visibility (hd found) = le_visibility e \<Longrightarrow> one_visibility (found @ [e])"
  by (cases found) (simp_all add: one_visibility_def)

lemma check_sources_result:
  assumes "check_sources live sources found b = (Inr es, b')" "one_visibility found"
  shows "b' = b \<and> one_visibility es \<and> (\<exists>new. es = found @ new \<and> map le_entry_id new = sources \<and> set new \<subseteq> set live)"
  using assms
proof (induction sources arbitrary: found)
  case Nil
  then show ?case by (simp add: ret_result)
next
  case (Cons s ss)
  from Cons.prems(1) obtain mid c where mid: "check_source live s found b = (Inr mid, c)"
    "check_sources live ss mid c = (Inr es, b')"
    unfolding check_sources.simps bind_result by blast
  from mid(1) obtain e where e: "e \<in> set live" "le_entry_id e = s" "mid = found @ [e]" "c = b"
    "found \<noteq> [] \<longrightarrow> le_visibility (hd found) = le_visibility e"
    by (rule check_source_result)
  have "one_visibility mid" unfolding e(3) using Cons.prems(2) e(5) by (rule one_visibility_snoc)
  from Cons.IH [OF mid(2) [unfolded e(4)] this] obtain new where
    new: "b' = b" "one_visibility es" "es = mid @ new" "map le_entry_id new = ss" "set new \<subseteq> set live"
    by blast
  then have "es = found @ (e # new)" "map le_entry_id (e # new) = s # ss" "set (e # new) \<subseteq> set live"
    using e(1-3) by simp_all
  with new(1,2) show ?case by (intro conjI exI [of _ "e # new"])
qed

text \<open>The tellers that stand behind an entry, and at which visibility, by the events of a buffer.\<close>

definition endorsers :: "entry_id \<Rightarrow> event_payload list \<Rightarrow> (teller \<times> visibility) list" where
  "endorsers r evs =
     List.map_filter (\<lambda>ev. case ev of
         MemoryContentAppended _ e _ _ _ t _ v \<Rightarrow> (if e = r then Some (t, v) else None)
       | EntryAttested _ e t _ _ v _ _ _ \<Rightarrow> (if e = r then Some (t, v) else None)
       | _ \<Rightarrow> None) evs"

lemma endorsers_simps:
  "endorsers r [] = []"
  "endorsers r (MemoryContentAppended i r asserted oc tx t told v # evs) = (t, v) # endorsers r evs"
  "endorsers r (EntryAttested i r t told asserted v ph src pr # evs) = (t, v) # endorsers r evs"
  "endorsers r (EntriesConsolidated i ss e pr # evs) = endorsers r evs"
  by (simp_all add: endorsers_def List.map_filter_simps)

lemma endorsers_attests:
  "endorsers r (map (\<lambda>s. EntryAttested i r (st_teller s) (st_told_in s) (st_asserted_at s) v None (Some (st_source_entry s)) pr) ss
      @ evs) = map (\<lambda>s. (st_teller s, v)) ss @ endorsers r evs"
  by (induction ss) (simp_all add: endorsers_simps)

lemma consolidate_result:
  assumes "consolidate i sources tx produced b = (Inr r, b')"
  obtains j live es told_by v asserted where
    "class_write_target i b = Inr j" "live_class_entries j b = Inr live"
    "map le_entry_id es = sources" "set es \<subseteq> set live" "es \<noteq> []" "list_all (\<lambda>e. le_visibility e = v) es"
    "mb_buffer b' = mb_buffer b @ MemoryContentAppended j r asserted None tx told_by (mb_told_in b) v #
       map (\<lambda>s. EntryAttested j r (st_teller s) (st_told_in s) (st_asserted_at s) v None (Some (st_source_entry s)) produced)
         (distinct_source_tellers b told_by es)
       @ [EntriesConsolidated j sources r produced]"
proof -
  from assms obtain j live es c where
    j: "class_write_target i b = Inr j" and live: "live_class_entries j b = Inr live"
    and es: "check_sources live sources [] b = (Inr es, c)"
    and rest: "(case es of [] \<Rightarrow> fail (MemoryError_ConsolidationInvariant ''a consolidation needs at least one source'')
       | f # rest \<Rightarrow>
           (let v = le_visibility f; uniform_teller = list_all (\<lambda>e. le_told_by e = le_told_by f) rest;
                told_by = (if uniform_teller then le_told_by f else Teller_Agent)
            in if \<not> uniform_teller \<and> \<not> open_posture v
               then fail (MemoryError_ConsolidationInvariant
                      ''a cross-teller merge is only permitted at an all-audience visibility level'')
               else bind_op (push_content j tx told_by v None) (\<lambda>replacement b.
                    bind_op (each (\<lambda>s. push (EntryAttested j replacement (st_teller s) (st_told_in s) (st_asserted_at s)
                                              v None (Some (st_source_entry s)) produced))
                        (distinct_source_tellers b told_by es)) (\<lambda>_.
                    bind_op (push (EntriesConsolidated j sources replacement produced)) (\<lambda>_.
                      ret replacement)) b))) c = (Inr r, b')"
    unfolding consolidate_def transaction_result bind_result guarded_target_result query_result by blast
  from check_sources_result [OF es] have c: "c = b" and es': "one_visibility es" "map le_entry_id es = sources" "set es \<subseteq> set live"
    by (auto simp: one_visibility_def)
  from rest obtain f fs where f: "es = f # fs" by (cases es) simp_all
  define told_by where "told_by = (if list_all (\<lambda>e. le_told_by e = le_told_by f) fs then le_told_by f else Teller_Agent)"
  from rest obtain x u c1 c2 where
    p': "push_content j tx told_by (le_visibility f) None b = (Inr x, c1)"
    and q': "each (\<lambda>s. push (EntryAttested j x (st_teller s) (st_told_in s) (st_asserted_at s) (le_visibility f) None
        (Some (st_source_entry s)) produced)) (distinct_source_tellers c1 told_by (f # fs)) c1 = (Inr u, c2)"
    and x: "r = x" and d: "b' = c2\<lparr>mb_buffer := mb_buffer c2 @ [EntriesConsolidated j sources x produced]\<rparr>"
    unfolding f list.case c Let_def told_by_def [symmetric]
    by (simp only: if_result fail_result bind_result push_result ret_result split: if_splits)
      (elim exE conjE, rule that, assumption, assumption, assumption, simp only:)
  note p = p' [folded x] and q = q' [folded x f] and b' = d [folded x]
  have same: "distinct_source_tellers c1 told_by es = distinct_source_tellers b told_by es"
    by (rule distinct_source_tellers_frame) (use p in \<open>auto simp: push_content_result\<close>)
  show thesis
  proof (rule that [OF j live es'(2,3), of "le_visibility f" "en_clock (mb_engine b) (mb_drawn b + 1)" told_by])
    show "es \<noteq> []" by (simp add: f)
    show "list_all (\<lambda>e. le_visibility e = le_visibility f) es" using es'(1) by (simp add: one_visibility_def f)
    show "mb_buffer b' = mb_buffer b @ MemoryContentAppended j r (en_clock (mb_engine b) (mb_drawn b + 1)) None tx told_by
        (mb_told_in b) (le_visibility f) #
       map (\<lambda>s. EntryAttested j r (st_teller s) (st_told_in s) (st_asserted_at s) (le_visibility f) None
          (Some (st_source_entry s)) produced) (distinct_source_tellers b told_by es)
       @ [EntriesConsolidated j sources r produced]"
      using p q same unfolding push_content_result each_push_result b' by simp
  qed
qed

text \<open>
  C21: a consolidation replaces live entries of one visibility by an entry of the same visibility. For every source, the batch begins
  with the replacement at the source's visibility, every account of the replacement it writes stands at that visibility, one of them is by the
  identity of the source's teller, and the batch ends with the record of the consolidation.
\<close>

theorem consolidation_keeps_tellers:
  assumes "consolidate i sources tx produced b = (Inr r, b')"
    and "mb_buffer b' = mb_buffer b @ new" "s \<in> set sources"
  shows "\<exists>j live e. class_write_target i b = Inr j \<and> live_class_entries j b = Inr live \<and> e \<in> set live
    \<and> le_entry_id e = s
    \<and> (\<exists>t asserted. hd new = MemoryContentAppended j r asserted None tx t (mb_told_in b) (le_visibility e))
    \<and> list_all (\<lambda>(t, v). v = le_visibility e) (endorsers r new)
    \<and> list_ex (\<lambda>(t, v). same_teller_class b t (le_told_by e)) (endorsers r new)
    \<and> last new = EntriesConsolidated j sources r produced"
proof -
  from assms(1) obtain j live es told_by v asserted where
    j: "class_write_target i b = Inr j" and live: "live_class_entries j b = Inr live"
    and es: "map le_entry_id es = sources" "set es \<subseteq> set live" "list_all (\<lambda>e. le_visibility e = v) es"
    and buf: "mb_buffer b' = mb_buffer b @ MemoryContentAppended j r asserted None tx told_by (mb_told_in b) v #
       map (\<lambda>s. EntryAttested j r (st_teller s) (st_told_in s) (st_asserted_at s) v None (Some (st_source_entry s)) produced)
         (distinct_source_tellers b told_by es)
       @ [EntriesConsolidated j sources r produced]"
    by (rule consolidate_result)
  have new: "endorsers r new = (told_by, v) # map (\<lambda>s. (st_teller s, v)) (distinct_source_tellers b told_by es)"
    "last new = EntriesConsolidated j sources r produced"
    "hd new = MemoryContentAppended j r asserted None tx told_by (mb_told_in b) v"
    using buf assms(2) by (simp_all add: endorsers_simps endorsers_attests)
  from assms(3) es(1) have "s \<in> le_entry_id ` set es" by auto
  then obtain e where e: "e \<in> set es" "s = le_entry_id e" by (rule imageE)
  then have v: "v = le_visibility e" using es(3) by (simp add: list_all_iff)
  have "teller_identity b (le_told_by e) \<in> insert (teller_identity b told_by)
      (teller_identity b ` st_teller ` set (distinct_source_tellers b told_by es))"
    using e(1) by (simp add: distinct_source_identities)
  then have "list_ex (\<lambda>(t, v). same_teller_class b t (le_told_by e)) (endorsers r new)"
    by (force simp: new list_ex_iff same_teller_class_identity)
  moreover have "list_all (\<lambda>(t, v). v = le_visibility e) (endorsers r new)" by (simp add: new v list_all_iff)
  ultimately show ?thesis using j live e es(2) new(2,3)
    by (intro exI [of _ j] exI [of _ live] exI [of _ e] conjI) (auto simp: v)
qed

definition tellers_turn :: memory_block where
  "tellers_turn =
     snd (append (MemoryId 1) ''enjoys chess'' (default_options\<lparr>opt_visibility := Some VisibilityChoice_Public,
       opt_told_by := Some (Teller_Participant (MemoryId 2))\<rparr>) turn_block)"

theorem consolidation_keeps_tellers_witness:
  "\<exists>r b' new j live e. consolidate (MemoryId 1) [EntryId 14, EntryId 1000] ''plays chess and enjoys it'' None
       (tellers_turn) = (Inr r, b')
    \<and> class_write_target (MemoryId 1) (tellers_turn) = Inr j
    \<and> live_class_entries j (tellers_turn) = Inr live \<and> e \<in> set live \<and> le_entry_id e = EntryId 1000
    \<and> list_all (\<lambda>(t, v). v = le_visibility e) (endorsers r new)
    \<and> list_ex (\<lambda>(t, v). same_teller_class (tellers_turn) t (le_told_by e)) (endorsers r new)"
proof -
  let ?b = "tellers_turn"
  let ?run = "consolidate (MemoryId 1) [EntryId 14, EntryId 1000] ''plays chess and enjoys it'' None ?b"
  have "is_ok (fst ?run)" by code_simp
  then obtain r b' where run: "?run = (Inr r, b')" by (cases ?run) (auto simp: is_ok_iff)
  have "emits (\<lambda>ev. True) ?b ?run" by (rule appends.consolidate_emits) simp
  from this [unfolded run] obtain new where new: "mb_buffer b' = mb_buffer ?b @ new" by (auto simp: emits_def)
  have "EntryId 1000 \<in> set [EntryId 14, EntryId 1000]" by simp
  from consolidation_keeps_tellers [OF run new this] run show ?thesis by blast
qed

section \<open>Endorsements\<close>

definition is_endorsement :: "entry_id \<Rightarrow> nat \<Rightarrow> event_payload \<Rightarrow> bool" where
  "is_endorsement entry width ev =
     (case ev of EntryAttested _ e _ _ _ v _ _ _ \<Rightarrow> e = entry \<and> posture_width v \<le> width | _ \<Rightarrow> False)"

lemma record_attestation_result:
  assumes "record_attestation w b = (Inr c, b')"
  shows "co_entry c = aw_entry w
    \<and> (\<exists>evs. mb_buffer b' = mb_buffer b @ evs
         \<and> list_all (is_endorsement (aw_entry w) (posture_width (aw_founding_posture w))) evs)"
proof (cases "posture_width (aw_founding_posture w) < posture_width (aw_posture w)")
  case True
  with assms show ?thesis by (simp add: record_attestation_def)
next
  case False
  let ?held = "held_posture b (aw_teller w) (aw_existing w @ pending_attestations b (aw_entry w))"
  show ?thesis
  proof (cases "?held = Some (aw_posture w)")
    case True
    with assms False have "co_entry c = aw_entry w" "b' = b"
      by (auto simp: record_attestation_def Let_def ret_result)
    then show ?thesis by simp
  next
    case nheld: False
    have c: "co_entry c = aw_entry w"
      and b': "mb_buffer b' = mb_buffer b @ [EntryAttested (aw_memory w) (aw_entry w) (aw_teller w) (mb_told_in b)
        (en_clock (mb_engine b) (mb_drawn b)) (aw_posture w) (aw_phrasing w) None None]"
      using assms False nheld
      by (auto simp: record_attestation_def Let_def bind_op_def touch_def push_def ret_def now_def)
    from False show ?thesis unfolding b' c by (simp add: is_endorsement_def not_less)
  qed
qed

lemma attest_result:
  assumes "attest i selector opts b = (Inr c, b')"
  obtains j live e where "class_write_target i b = Inr j" "live_class_entries j b = Inr live" "e \<in> set live"
    "le_entry_id e = co_entry c"
    "\<exists>evs. mb_buffer b' = mb_buffer b @ evs \<and> list_all (is_endorsement (co_entry c) (posture_width (le_visibility e))) evs"
proof -
  from assms obtain j entry live e w where
    j: "class_write_target i b = Inr j" and live: "live_class_entries j b = Inr live"
    and e: "List.find (\<lambda>l. le_entry_id l = entry) live = Some e"
    and w: "record_attestation w b = (Inr c, b')" "aw_entry w = entry" "aw_founding_posture w = le_visibility e"
    unfolding attest_def bind_result guarded_target_result query_result find_live_result Let_def
    by (elim exE conjE) (hypsubst, rule that, assumption+, simp_all)
  from e have e': "e \<in> set live" "le_entry_id e = entry" by (auto simp: find_Some_iff)
  note recorded = record_attestation_result [OF w(1), unfolded w(2,3)]
  show thesis
  proof (rule that [OF j live e'(1)])
    show "le_entry_id e = co_entry c" using e'(2) recorded by simp
    show "\<exists>evs. mb_buffer b' = mb_buffer b @ evs
      \<and> list_all (is_endorsement (co_entry c) (posture_width (le_visibility e))) evs"
      using recorded by (elim conjE) (simp only:)
  qed
qed

text \<open>
  an endorsement names a live entry of the class it was asked of and is at most as wide as that entry's own
  posture: no endorsement opens a confidence.
\<close>

theorem attest_never_widens:
  assumes "attest i selector opts b = (Inr c, b')"
  shows "\<exists>j live e evs. class_write_target i b = Inr j \<and> live_class_entries j b = Inr live \<and> e \<in> set live
    \<and> le_entry_id e = co_entry c \<and> fx_events (into_effects b') = fx_events (into_effects b) @ evs
    \<and> list_all (is_endorsement (co_entry c) (posture_width (le_visibility e))) evs"
proof -
  from assms obtain j live e evs where "class_write_target i b = Inr j" "live_class_entries j b = Inr live"
    "e \<in> set live" "le_entry_id e = co_entry c" "mb_buffer b' = mb_buffer b @ evs"
    "list_all (is_endorsement (co_entry c) (posture_width (le_visibility e))) evs"
    by (auto elim: attest_result)
  then show ?thesis by (intro exI conjI) (simp_all add: into_effects_def)
qed

theorem attest_never_widens_witness:
  "\<exists>c b' j live e evs. attest (MemoryId 1) (EntrySelector_Id (EntryId 10)) default_options turn_block = (Inr c, b')
    \<and> class_write_target (MemoryId 1) turn_block = Inr j \<and> live_class_entries j turn_block = Inr live \<and> e \<in> set live
    \<and> le_entry_id e = co_entry c \<and> fx_events (into_effects b') = fx_events (into_effects turn_block) @ evs
    \<and> list_all (is_endorsement (co_entry c) (posture_width (le_visibility e))) evs"
proof -
  let ?run = "attest (MemoryId 1) (EntrySelector_Id (EntryId 10)) default_options turn_block"
  have "is_ok (fst ?run)" by code_simp
  then obtain c b' where run: "?run = (Inr c, b')" by (cases ?run) (auto simp: is_ok_iff)
  show ?thesis using attest_never_widens [OF run] run by blast
qed

text \<open>What may be captured, and what may be mentioned: a live entry of the class that is open or the writer's own, and an
  open entry of another class.\<close>

definition capture_ok :: "memory_block \<Rightarrow> memory_id \<Rightarrow> teller \<Rightarrow> (memory_view \<times> entry_view) option \<Rightarrow> bool" where
  "capture_ok b cls told_by x =
     (case x of
        Some (m, v) \<Rightarrow> vw_superseded_by v = None \<and> class_or_self (graph_of b) (mv_id m) = cls
          \<and> (open_posture (vw_visibility v) \<or> same_teller_class b (vw_told_by v) told_by)
      | None \<Rightarrow> True)"

definition mention_ok :: "memory_block \<Rightarrow> memory_id \<Rightarrow> (memory_view \<times> entry_view) option \<Rightarrow> bool" where
  "mention_ok b cls x =
     (case x of
        Some (m, v) \<Rightarrow> open_posture (vw_visibility v) \<and> class_or_self (graph_of b) (mv_id m) \<noteq> cls
      | None \<Rightarrow> True)"

lemma dedup_loop_scan:
  "dedup_loop b capture advisory cls apart told_by cross hits = Inr sc \<Longrightarrow> mention_ok b cls cross
    \<Longrightarrow> capture_ok b cls told_by (ds_capture sc) \<and> mention_ok b cls (ds_cross_class sc)"
proof (induction hits arbitrary: cross)
  case Nil
  then show ?case by (auto simp: capture_ok_def)
next
  case (Cons h hs)
  show ?case
  proof (cases "hit_score h < advisory")
    case True
    with Cons.prems show ?thesis by (auto simp: capture_ok_def)
  next
    case nlow: False
    note next_hit = Cons.IH [OF _ Cons.prems(2)]
    show ?thesis
    proof (cases "\<exists>e. parse_vector_key (en_ulid_from_string (mb_engine b)) (hit_id h) = Some (VectorKey_EntryContextual e)
        \<and> Some e \<noteq> apart")
      case False
      with Cons.prems(1) nlow show ?thesis
        by (intro next_hit) (auto split: option.splits vector_key.splits if_splits)
    next
      case True
      then obtain e where e: "parse_vector_key (en_ulid_from_string (mb_engine b)) (hit_id h) = Some (VectorKey_EntryContextual e)"
        "Some e \<noteq> apart" by blast
      from Cons.prems(1) nlow e obtain candidate where
        c: "entry_by_id (jiff_of b) (graph_of b) e = Inr candidate"
        and rest: "(case candidate of
               None \<Rightarrow> dedup_loop b capture advisory cls apart told_by cross hs
             | Some (memory, v) \<Rightarrow>
                 (if vw_superseded_by v \<noteq> None then dedup_loop b capture advisory cls apart told_by cross hs
                  else if class_or_self (graph_of b) (mv_id memory) \<noteq> cls then
                    dedup_loop b capture advisory cls apart told_by
                      (if cross = None \<and> open_posture (vw_visibility v) then Some (memory, v) else cross) hs
                  else if visible_to_writer b told_by v \<and> capture \<le> hit_score h
                  then Inr \<lparr>ds_capture = Some (memory, v), ds_cross_class = cross\<rparr>
                  else dedup_loop b capture advisory cls apart told_by cross hs)) = Inr sc"
        by (simp only: dedup_loop.simps if_False option.case vector_key.case andthen_Inr_iff read_graph_Inr)
          (elim exE conjE, rule that)
      show ?thesis
      proof (cases candidate)
        case None
        with rest show ?thesis by (intro next_hit) simp
      next
        case (Some mv)
        obtain m v where mv: "mv = (m, v)" by (cases mv)
        have cross': "mention_ok b cls (if cross = None \<and> open_posture (vw_visibility v) then Some (m, v) else cross)"
          if "class_or_self (graph_of b) (mv_id m) \<noteq> cls"
          using Cons.prems(2) that by (simp add: mention_ok_def)
        consider "vw_superseded_by v \<noteq> None"
          | "vw_superseded_by v = None" "class_or_self (graph_of b) (mv_id m) \<noteq> cls"
          | "vw_superseded_by v = None" "class_or_self (graph_of b) (mv_id m) = cls"
            "visible_to_writer b told_by v \<and> capture \<le> hit_score h"
          | "vw_superseded_by v = None" "class_or_self (graph_of b) (mv_id m) = cls"
            "\<not> (visible_to_writer b told_by v \<and> capture \<le> hit_score h)"
          by argo
        then show ?thesis
        proof cases
          case 2
          with rest Some mv show ?thesis by (intro Cons.IH [OF _ cross']) simp_all
        next
          case 3
          with rest Some mv have "sc = \<lparr>ds_capture = Some (m, v), ds_cross_class = cross\<rparr>" by simp
          with 3 Cons.prems(2) show ?thesis by (simp add: capture_ok_def visible_to_writer_def)
        next
          case 4
          from 4(3) have "(if visible_to_writer b told_by v \<and> capture \<le> hit_score h
              then Inr \<lparr>ds_capture = Some (m, v), ds_cross_class = cross\<rparr>
              else dedup_loop b capture advisory cls apart told_by cross hs)
            = dedup_loop b capture advisory cls apart told_by cross hs" by (rule if_not_P)
          with 4(1,2) rest Some mv show ?thesis by (intro next_hit) simp
        qed (use rest Some mv in \<open>simp add: next_hit\<close>)
      qed
    qed
  qed
qed

lemma width_le_open: "open_posture w \<Longrightarrow> posture_width v \<le> posture_width w"
  by (cases v) (auto simp: open_posture_def)

text \<open>
  the scan behind an append captures only a live entry of the same identity that is open to everyone or was told by the
  writer, and mentions only an open entry of another identity; so another's confidence is neither endorsed nor quoted, and
  the endorsement of a captured entry that the writer did not tell is never wider than the entry, as the code asserts.
\<close>

theorem dedup_spares_confidences:
  assumes "find_dedup_target i emb apart told_by b = Inr sc" "class_write_target i b = Inr j"
  shows "capture_ok b (class_or_self (graph_of b) j) told_by (ds_capture sc)
    \<and> mention_ok b (class_or_self (graph_of b) j) (ds_cross_class sc)
    \<and> (case ds_capture sc of
         Some (m, v) \<Rightarrow> same_teller_class b (vw_told_by v) told_by \<or> posture_width posture \<le> posture_width (vw_visibility v)
       | None \<Rightarrow> True)"
proof -
  have "capture_ok b (class_or_self (graph_of b) j) told_by (ds_capture sc)
    \<and> mention_ok b (class_or_self (graph_of b) j) (ds_cross_class sc)"
  proof (cases "emb = None \<or> en_retrieval (mb_engine b) = None")
    case True
    with assms(1) have "sc = default_scan" by (auto simp: find_dedup_target_def split: option.splits)
    then show ?thesis by (simp add: default_scan_def capture_ok_def mention_ok_def)
  next
    case False
    then obtain x search where "emb = Some x" "en_retrieval (mb_engine b) = Some search" by auto
    with assms obtain hits where "dedup_loop b (en_dedup_threshold (mb_engine b))
        (min (en_consolidation_threshold (mb_engine b)) (en_dedup_threshold (mb_engine b)))
        (class_or_self (graph_of b) j) apart told_by None hits = Inr sc"
      by (auto simp: find_dedup_target_def Let_def split: sum.splits)
    then show ?thesis by (rule dedup_loop_scan) (simp add: mention_ok_def)
  qed
  then show ?thesis by (auto simp: capture_ok_def width_le_open split: option.splits)
qed

theorem dedup_spares_confidences_witness:
  "\<exists>sc. find_dedup_target (MemoryId 5) (Some []) None (Teller_Participant (MemoryId 3)) turn_block = Inr sc
    \<and> capture_ok turn_block (class_or_self (graph_of turn_block) (MemoryId 5)) (Teller_Participant (MemoryId 3)) (ds_capture sc)"
proof -
  let ?scan = "find_dedup_target (MemoryId 5) (Some []) None (Teller_Participant (MemoryId 3)) turn_block"
  have "is_ok ?scan" by code_simp
  then obtain sc where sc: "?scan = Inr sc" by (auto simp: is_ok_iff)
  moreover have "class_write_target (MemoryId 5) turn_block = Inr (MemoryId 5)" by code_simp
  ultimately show ?thesis using dedup_spares_confidences [OF sc, of "MemoryId 5"] by blast
qed

end
