(* ===== verification/Block_Reading.thy ===== *)
theory Block_Reading
  imports Block_Facts
begin

text \<open>
  What a block reads back: an appended entry is in the next read of its memory under every handle of the identity, and a
  read hands out the words of a committed entry only when the predicate of \<open>Visibility\<close> shows it to the audience.
\<close>

section \<open>Where a write lands\<close>

lemma memory_by_id_live: "memory_by_id J g i = Inr (Some m) \<Longrightarrow> memory_is_live g i"
proof -
  assume "memory_by_id J g i = Inr (Some m)"
  then obtain r where "List.find (\<lambda>r. m_id r = i \<and> \<not> m_deleted r) (memories g) = Some r"
    by (auto simp: memory_by_id_def fetch_memory_def opt_column_Some)
  then have "live_row g i = Some r" by (simp add: live_row_def)
  then show ?thesis using live_row_iff [of g i] by blast
qed

lemma class_write_target_member:
  assumes "keys_ok (graph_of b)" "classes_current (graph_of b)" "class_write_target i b = Inr j"
  shows "j \<in> insert i (set (class_members_of (graph_of b) i))"
proof (cases "j = i")
  case False
  with assms(3) obtain m where c: "class_id (graph_of b) i = Some j"
    and m: "memory_by_id (jiff_of b) (graph_of b) j = Inr (Some m)"
    by (auto simp: class_write_target_def andthen_Inr_iff split: if_splits option.splits)
  from c obtain r where r: "live_row (graph_of b) i = Some r" "m_class_id r = j" by (auto simp: class_id_def)
  note lr = live_row_Some [OF r(1)]
  have "memory_is_live (graph_of b) i" using r(1) live_row_iff [of "graph_of b" i] by blast
  moreover have "is_primary_of (graph_of b) i j"
    using assms(2) lr r(2) by (auto simp: classes_current_def)
  then have "(i, j) \<in> linked (same_as_edges (graph_of b))" unfolding is_primary_of_def by (elim exE conjE)
  ultimately have "j \<in> set (class_set (graph_of b) i)"
    using class_set_linked [OF assms(1,2)] memory_by_id_live [OF m] by blast
  then show ?thesis by (simp add: class_members_of_def)
qed simp

text \<open>Elimination rules that walk a successful run.\<close>

lemma run_bind: "bind_op m f b = (Inr a, b') \<Longrightarrow> (\<And>x c. m b = (Inr x, c) \<Longrightarrow> f x c = (Inr a, b') \<Longrightarrow> P) \<Longrightarrow> P"
  by (auto simp: bind_result)

lemma run_query: "bind_op (query g) f b = (Inr a, b') \<Longrightarrow> (\<And>x. g b = Inr x \<Longrightarrow> f x b = (Inr a, b') \<Longrightarrow> P) \<Longrightarrow> P"
  by (auto simp: bind_result query_result)

lemma run_target:
  "bind_op (guarded_target i) f b = (Inr a, b')
    \<Longrightarrow> (\<And>j. class_write_target i b = Inr j \<Longrightarrow> writable b j \<Longrightarrow> f j b = (Inr a, b') \<Longrightarrow> P) \<Longrightarrow> P"
  by (auto simp: bind_result guarded_target_result)

lemma run_unless: "(if c then fail e b else x) = (Inr a, b') \<Longrightarrow> (\<not> c \<Longrightarrow> x = (Inr a, b') \<Longrightarrow> P) \<Longrightarrow> P"
  by (cases c) simp_all

lemma append_result:
  assumes "append i tx opts b = (Inr e, b')"
  obtains j v asserted vol where "class_write_target i b = Inr j" "writable b j"
    "mb_buffer b' = mb_buffer b @ MemoryContentAppended j e asserted (opt_occurred_at opts) tx (entry_teller opts (mb_teller b))
       (mb_told_in b) v # vol"
    "vol = [] \<or> (\<exists>w. vol = [MemoryVolatilitySet j w])" "frame b' = frame b"
    "\<exists>name forced. resolve_name b j = Inr name
       \<and> reconcile_forced_visibility (opt_visibility opts) (opt_exclude opts) = Inr forced
       \<and> resolve_visibility b (map_option name_str name) j (entry_teller opts (mb_teller b)) forced = Inr v"
proof (rule run_target [OF assms [unfolded append_def Let_def]], (erule run_query)+, erule run_unless, erule run_query,
    (erule run_bind)+)
  fix j name forced v u x c y d
  assume j: "class_write_target i b = Inr j" "writable b j" and name: "read_graph (resolve_name b j) = Inr name"
    and forced: "reconcile_forced_visibility (opt_visibility opts) (opt_exclude opts) = Inr forced"
    and v: "resolve_visibility b (map_option name_str name) j (entry_teller opts (mb_teller b)) forced = Inr v"
    and x: "push_content j tx (entry_teller opts (mb_teller b)) v (opt_occurred_at opts) b = (Inr x, c)"
    and d: "(case opt_volatility opts of None \<Rightarrow> ret () | Some w \<Rightarrow> push (MemoryVolatilitySet j (into_volatility w))) c = (Inr y, d)"
    and e: "ret x d = (Inr e, b')"
  have x': "x = e" and b': "b' = d" using e by (simp_all add: ret_result)
  let ?vol = "case opt_volatility opts of None \<Rightarrow> [] | Some w \<Rightarrow> [MemoryVolatilitySet j (into_volatility w)]"
  have d': "mb_buffer b' = mb_buffer c @ ?vol" "frame b' = frame c"
    using d unfolding b' by (simp_all add: ret_result push_result split: option.splits)
  have c: "mb_buffer c = mb_buffer b @ [MemoryContentAppended j e (en_clock (mb_engine b) (mb_drawn b + 1)) (opt_occurred_at opts) tx
      (entry_teller opts (mb_teller b)) (mb_told_in b) v]" "frame c = frame b"
    using x unfolding push_content_result x' by simp_all
  show thesis
    by (rule that [OF j, of "en_clock (mb_engine b) (mb_drawn b + 1)" v ?vol])
      (use d' c name forced v in \<open>auto split: option.splits\<close>)
qed

section \<open>Read your writes\<close>

definition public_turn :: append_options where
  "public_turn = default_options\<lparr>opt_visibility := Some VisibilityChoice_Public\<rparr>"

lemma entries_result:
  assumes "entries i b = (Inr refs, b')"
  obtains vs annotated where "class_entries (jiff_of b) (graph_of b) i = Inr vs"
    "annotate b i (filter (\<lambda>v. vw_entry_id v \<notin> pending_superseded b) vs) = Inr annotated"
    "b' = b\<lparr>mb_touched := set (class_members_of (graph_of b) i) \<union> insert i (mb_touched b)\<rparr>"
    "refs = entry_refs b' i annotated @ pending_entries b' (insert i (set (class_members_of (graph_of b) i))) (pending_superseded b')"
proof (rule run_query [OF assms [unfolded entries_def]], erule run_bind)
  fix annotated x c
  assume a: "andthen (read_graph (class_entries (jiff_of b) (graph_of b) i)) (\<lambda>vs.
      annotate b i (filter (\<lambda>v. vw_entry_id v \<notin> pending_superseded b) vs)) = Inr annotated"
    and t: "touch_class i (class_members_of (graph_of b) i) b = (Inr x, c)"
    and r: "ret (entry_refs c i annotated @ pending_entries c x (pending_superseded c)) c = (Inr refs, b')"
  from a obtain vs where vs: "class_entries (jiff_of b) (graph_of b) i = Inr vs"
    "annotate b i (filter (\<lambda>v. vw_entry_id v \<notin> pending_superseded b) vs) = Inr annotated"
    by (auto simp: andthen_Inr_iff)
  from t r have "c = b'" "x = insert i (set (class_members_of (graph_of b) i))"
    "b' = b\<lparr>mb_touched := set (class_members_of (graph_of b) i) \<union> insert i (mb_touched b)\<rparr>"
    "refs = entry_refs b' i annotated @ pending_entries b' x (pending_superseded b')"
    by (auto simp: touch_class_def ret_result)
  with vs that show thesis by blast
qed

lemma map_filter_mem: "y \<in> set (List.map_filter f xs) \<longleftrightarrow> (\<exists>x \<in> set xs. f x = Some y)"
  by (induction xs) (auto simp: List.map_filter_simps split: option.splits)

lemma pending_superseded_append:
  "mb_buffer b' = mb_buffer b @ MemoryContentAppended j e asserted oc tx t told v # vol
    \<Longrightarrow> vol = [] \<or> (\<exists>w. vol = [MemoryVolatilitySet j w]) \<Longrightarrow> pending_superseded b' = pending_superseded b"
  by (auto simp: pending_superseded_def superseded_of_def)

text \<open>
  C34: in a graph built from a log, an entry just appended under one handle is in the next read of that handle, with its
  words, although the write may have been redirected to the primary of the identity; its id must not be one that the block has
  retired before it was drawn.
\<close>

theorem appended_entry_is_read:
  assumes "foldM (apply_event J) evs empty_graph = Inr (graph_of b)"
    and "append i tx opts b = (Inr e, b1)" "e \<notin> pending_superseded b" "entries i b1 = (Inr refs, b2)"
  shows "list_ex (\<lambda>r. er_entry_id r = e \<and> er_text r = tx \<and> \<not> er_withheld r) refs"
proof -
  have inv: "keys_ok (graph_of b)" "classes_current (graph_of b)"
    using keys.replay_from_empty [OF assms(1)] identity_inv.replay_from_empty [OF assms(1)]
    by (auto simp: identity_ok_def)
  from assms(2) obtain j v asserted vol where j: "class_write_target i b = Inr j"
    and buf: "mb_buffer b1 = mb_buffer b @ MemoryContentAppended j e asserted (opt_occurred_at opts) tx
      (entry_teller opts (mb_teller b)) (mb_told_in b) v # vol" "vol = [] \<or> (\<exists>w. vol = [MemoryVolatilitySet j w])"
    and fr: "frame b1 = frame b"
    by (rule append_result)
  from assms(4) obtain annotated where b2: "b2 = b1\<lparr>mb_touched := set (class_members_of (graph_of b1) i) \<union> insert i (mb_touched b1)\<rparr>"
    and refs: "refs = entry_refs b2 i annotated
      @ pending_entries b2 (insert i (set (class_members_of (graph_of b1) i))) (pending_superseded b2)"
    by (rule entries_result)
  have sup: "e \<notin> pending_superseded b2"
    using assms(3) pending_superseded_append [OF buf] b2 by (simp add: pending_superseded_def)
  have mem: "j \<in> insert i (set (class_members_of (graph_of b1) i))"
    using class_write_target_member [OF inv j] frame_fields(1) [OF fr] by simp
  let ?r = "\<lparr>er_entry_id = e, er_text = tx, er_asserted_at = asserted, er_visibility = v,
      er_teller = teller_label b2 (entry_teller opts (mb_teller b)), er_attesters = [], er_disputed = False,
      er_occurred_at = opt_occurred_at opts, er_withheld = False, er_stale = False, er_retracted_reason = None\<rparr>"
  have "?r \<in> set (pending_entries b2 (insert i (set (class_members_of (graph_of b1) i))) (pending_superseded b2))"
    unfolding pending_entries_def map_filter_mem
    by (rule bexI [of _ "MemoryContentAppended j e asserted (opt_occurred_at opts) tx (entry_teller opts (mb_teller b)) (mb_told_in b) v"])
      (use mem sup b2 buf in \<open>auto simp: appended_of_def\<close>)
  then show ?thesis unfolding refs list_ex_append by (auto simp: list_ex_iff intro!: bexI [of _ ?r])
qed

lemma turn_graph_replay: "foldM (apply_event gregorian) (sample_log @ turn_log) empty_graph = Inr (graph_of turn_block)"
  using turn_replay by (simp add: foldM_append sample_replay turn_block_def turn_engine_def)

theorem appended_entry_is_read_witness:
  "\<exists>e b1 refs b2. append (MemoryId 2) ''met bob'' public_turn turn_block = (Inr e, b1) \<and> entries (MemoryId 2) b1 = (Inr refs, b2)
    \<and> list_ex (\<lambda>r. er_entry_id r = e \<and> er_text r = ''met bob'' \<and> \<not> er_withheld r) refs"
proof -
  let ?run = "append (MemoryId 2) ''met bob'' public_turn turn_block"
  have "is_ok (fst ?run)" by code_simp
  then obtain e b1 where run: "?run = (Inr e, b1)" by (cases ?run) (auto simp: is_ok_iff)
  have "is_ok (fst (entries (MemoryId 2) (snd ?run)))" by code_simp
  then obtain refs b2 where read: "entries (MemoryId 2) b1 = (Inr refs, b2)"
    unfolding run by (cases "entries (MemoryId 2) b1") (auto simp: is_ok_iff)
  have "e \<notin> pending_superseded turn_block" by (simp add: pending_superseded_def turn_block_def)
  from appended_entry_is_read [OF turn_graph_replay run this read] run read show ?thesis by blast
qed

section \<open>Withholding\<close>

lemma annotate_one_withheld:
  assumes "annotate_one b (Some m) t v = Inr a" "mb_present_set b \<noteq> []"
  shows "ae_entry a = v \<and> (\<exists>s. visible (probe v) m (mb_present_set b) (graph_class_of (graph_of b)) = Inr s \<and> ae_withheld a = (\<not> s))"
  using assms by (auto simp: annotate_one_def Let_def andthen_Inr_iff)

text \<open>
  C5: with an audience present, every entry a read hands back is either one this block wrote or a committed entry of the
  class, and then its words are handed out only if the predicate shows the entry to the audience; a hidden one carries the
  stub in their place.
\<close>

theorem read_withholds_confidences:
  assumes "entries i b = (Inr refs, b')" "mb_present_set b \<noteq> []"
    and "memory_by_id (jiff_of b) (graph_of b) i = Inr (Some m)" "r \<in> set refs"
  shows "r \<in> set (pending_entries b' (insert i (set (class_members_of (graph_of b) i))) (pending_superseded b'))
    \<or> (\<exists>vs v shown. class_entries (jiff_of b) (graph_of b) i = Inr vs \<and> v \<in> set vs \<and> er_entry_id r = vw_entry_id v
         \<and> visible (probe v) m (mb_present_set b) (graph_class_of (graph_of b)) = Inr shown
         \<and> er_text r = (if shown then vw_text v else WITHHELD_STUB))"
proof -
  from assms(1) obtain vs annotated where vs: "class_entries (jiff_of b) (graph_of b) i = Inr vs"
    and an: "annotate b i (filter (\<lambda>v. vw_entry_id v \<notin> pending_superseded b) vs) = Inr annotated"
    and refs: "refs = entry_refs b' i annotated
      @ pending_entries b' (insert i (set (class_members_of (graph_of b) i))) (pending_superseded b')"
    by (rule entries_result)
  from assms(4) refs consider
      "r \<in> set (pending_entries b' (insert i (set (class_members_of (graph_of b) i))) (pending_superseded b'))"
    | "r \<in> set (entry_refs b' i annotated)"
    by auto
  then show ?thesis
  proof cases
    case 2
    then obtain a where a: "a \<in> set annotated" "r = entry_ref_of b' (ae_entry a) (disputed_entries (graph_of b') i)
        (ae_withheld a) (ae_stale a) (ae_attesters a)"
      unfolding entry_refs_def set_map by (rule imageE)
    from an assms(3) have "mapM (annotate_one b (Some m) (now b)) (filter (\<lambda>v. vw_entry_id v \<notin> pending_superseded b) vs) = Inr annotated"
      by (simp add: annotate_def)
    with a(1) obtain v where v: "v \<in> set vs" "annotate_one b (Some m) (now b) v = Inr a"
      by (auto simp: mapM_Inr_mem)
    from annotate_one_withheld [OF v(2) assms(2)] obtain shown where
      "ae_entry a = v" "visible (probe v) m (mb_present_set b) (graph_class_of (graph_of b)) = Inr shown" "ae_withheld a = (\<not> shown)"
      by blast
    with vs v(1) a(2) show ?thesis
      by (intro disjI2 exI [of _ vs] exI [of _ v] exI [of _ shown]) (simp add: entry_ref_of_def)
  qed simp
qed

text \<open>Bob told of ada's tea in confidence; with ada in the room the read withholds it.\<close>

theorem read_withholds_confidences_witness:
  "\<exists>refs b' m r. entries (MemoryId 1) turn_block = (Inr refs, b') \<and> r \<in> set refs \<and> er_withheld r
    \<and> (r \<in> set (pending_entries b' (insert (MemoryId 1) (set (class_members_of (graph_of turn_block) (MemoryId 1))))
           (pending_superseded b'))
       \<or> (\<exists>vs v shown. class_entries gregorian (graph_of turn_block) (MemoryId 1) = Inr vs \<and> v \<in> set vs
            \<and> er_entry_id r = vw_entry_id v
            \<and> visible (probe v) m [MemoryId 2, MemoryId 3] (graph_class_of (graph_of turn_block)) = Inr shown
            \<and> er_text r = (if shown then vw_text v else WITHHELD_STUB)))"
proof -
  let ?run = "entries (MemoryId 1) turn_block"
  have "case fst ?run of Inr refs \<Rightarrow> list_ex er_withheld refs | Inl _ \<Rightarrow> False" by code_simp
  then obtain refs b' r where run: "?run = (Inr refs, b')" "r \<in> set refs" "er_withheld r"
    by (cases ?run) (auto simp: list_ex_iff split: sum.splits)
  have "case memory_by_id gregorian turn_graph (MemoryId 1) of Inr (Some m) \<Rightarrow> True | _ \<Rightarrow> False" by code_simp
  then obtain m where "memory_by_id gregorian turn_graph (MemoryId 1) = Inr (Some m)"
    by (auto split: sum.splits option.splits)
  then have m: "memory_by_id (jiff_of turn_block) (graph_of turn_block) (MemoryId 1) = Inr (Some m)"
    by (simp add: turn_block_def turn_engine_def)
  have ne: "mb_present_set turn_block \<noteq> []" by (simp add: turn_block_def)
  have ps: "mb_present_set turn_block = [MemoryId 2, MemoryId 3]" "jiff_of turn_block = gregorian"
    by (simp_all add: turn_block_def turn_engine_def)
  from read_withholds_confidences [OF run(1) ne m run(2), unfolded ps] run show ?thesis by blast
qed

end
