(* ===== verification/Block_Gaps.thy ===== *)
theory Block_Gaps
  imports Block_Trust
begin

text \<open>
  Where a block and the graph it writes to disagree: the names of deleted memories, an endorsement taken back and
  given again in one block, and a calendar window past the range of a timestamp.
\<close>

section \<open>Names of deleted memories\<close>

lemma find_None_all: "List.find P xs = None \<longleftrightarrow> (\<forall>x \<in> set xs. \<not> P x)"
  by (induction xs) auto

lemma memory_by_name_absent:
  "memory_by_name J g name = Inr None \<longleftrightarrow> (\<forall>r \<in> set (memories g). m_name r = name_str name \<longrightarrow> m_deleted r)"
proof -
  have "memory_by_name J g name = Inr None
    \<longleftrightarrow> List.find (\<lambda>r. m_name r = name_str name \<and> \<not> m_deleted r) (memories g) = None"
    by (auto simp: memory_by_name_def fetch_memory_def opt_column_def andthen_Inr_iff split: option.splits)
  then show ?thesis by (auto simp: find_None_all)
qed

lemma create_bare:
  assumes "create name None b = (Inr i, b')" "mb_buffer b = []"
  shows "mb_buffer b' = [MemoryCreated i name] \<and> memory_by_name (jiff_of b) (graph_of b) name = Inr None"
  using assms
  by (auto simp: create_def create_with_opts_def transaction_def bind_op_def query_def draw_def ret_def fail_def
      touch_def push_def resolve_def Let_def read_graph_def List.map_filter_def andthen_def
      split: prod.splits sum.splits if_splits option.splits)

text \<open>
  the name column is unique over deleted memories too, but a block looks a name up among the live ones only. A
  created memory whose name no live memory holds is committed, and its event can be folded exactly when no deleted
  memory held the name; otherwise the fold of the log stops there.
\<close>

theorem created_name_folds:
  assumes "create name None b = (Inr i, b')" "mb_buffer b = []" "i \<notin> set (memory_ids (graph_of b))"
    and "ev_payload ev = MemoryCreated i name"
  shows "fx_events (into_effects b') = [MemoryCreated i name]
    \<and> (is_ok (apply_event J ev (graph_of b))
       \<longleftrightarrow> \<not> list_ex (\<lambda>r. m_deleted r \<and> m_name r = name_str name) (memories (graph_of b)))"
proof -
  note bare = create_bare [OF assms(1,2)]
  have "is_ok (apply_event J ev (graph_of b)) \<longleftrightarrow> name_str name \<notin> m_name ` set (memories (graph_of b))"
    using assms(3,4)
    by (auto simp: is_ok_iff apply_event_def apply_payload_def apply_memory_created_def insert_memory_def
        andthen_Inr_iff Let_def)
  moreover have "name_str name \<in> m_name ` set (memories (graph_of b))
    \<longleftrightarrow> list_ex (\<lambda>r. m_deleted r \<and> m_name r = name_str name) (memories (graph_of b))"
  proof
    assume "name_str name \<in> m_name ` set (memories (graph_of b))"
    then obtain r where r: "r \<in> set (memories (graph_of b))" "name_str name = m_name r" by (rule imageE)
    with bare show "list_ex (\<lambda>r. m_deleted r \<and> m_name r = name_str name) (memories (graph_of b))"
      unfolding memory_by_name_absent list_ex_iff by (intro bexI [OF _ r(1)]) simp
  next
    assume "list_ex (\<lambda>r. m_deleted r \<and> m_name r = name_str name) (memories (graph_of b))"
    then obtain r where "r \<in> set (memories (graph_of b))" "m_name r = name_str name"
      unfolding list_ex_iff by (elim bexE conjE)
    then show "name_str name \<in> m_name ` set (memories (graph_of b))" by (intro image_eqI [of _ _ r]) simp_all
  qed
  ultimately show ?thesis using bare by (auto simp: into_effects_def)
qed

definition gone_graph :: graph where
  "gone_graph =
     (case apply_event gregorian (sample_event 40 (MemoryDeleted (MemoryId 4))) turn_graph of
        Inr g \<Rightarrow> g | Inl _ \<Rightarrow> empty_graph)"

definition gone_block :: memory_block where
  "gone_block = turn_block\<lparr>mb_engine := turn_engine\<lparr>en_graph := gone_graph\<rparr>\<rparr>"

text \<open>The room of the sample turn is deleted and then created again under its name.\<close>

theorem created_name_folds_witness:
  "\<not> is_ok (apply_event gregorian (sample_event 41 (MemoryCreated (MemoryId 1000) (MemoryName ''context/room'')))
       (graph_of gone_block))"
proof -
  have "case create (MemoryName ''context/room'') None gone_block of (Inr i, b') \<Rightarrow> i = MemoryId 1000 | _ \<Rightarrow> False"
    by code_simp
  then obtain b' where b': "create (MemoryName ''context/room'') None gone_block = (Inr (MemoryId 1000), b')"
    by (auto split: prod.splits sum.splits)
  have "MemoryId 1000 \<notin> set (memory_ids (graph_of gone_block))"
    "list_ex (\<lambda>r. m_deleted r \<and> m_name r = name_str (MemoryName ''context/room'')) (memories (graph_of gone_block))"
    by code_simp+
  moreover have "mb_buffer gone_block = []" by (simp add: gone_block_def turn_block_def)
  ultimately show ?thesis
    using created_name_folds [OF b', of "sample_event 41 (MemoryCreated (MemoryId 1000) (MemoryName ''context/room''))" gregorian]
    by (simp add: sample_event_def)
qed

section \<open>An endorsement taken back and given again\<close>

definition public_options :: append_options where
  "public_options = default_options\<lparr>opt_visibility := Some VisibilityChoice_Public\<rparr>"

definition withdrawn_turn :: memory_block where
  "withdrawn_turn = snd (retract (MemoryId 1) (EntrySelector_Id (EntryId 14)) ''misheard'' None turn_block)"

text \<open>
  bob withdraws his account of an entry that ada endorses too, and endorses it again in the same block. The
  second call reports that the endorsement is held already and records nothing, so the block commits the withdrawal alone:
  the check reads this block's pending endorsements and not its pending withdrawals.
\<close>

theorem renewed_endorsement_is_lost:
  "case attest (MemoryId 1) (EntrySelector_Id (EntryId 14)) public_options withdrawn_turn of
     (Inr c, b) \<Rightarrow>
       co_note c = already_note ''14'' ''plays chess'' ''public''
       \<and> fx_events (into_effects b) =
           [AttestationRetracted (MemoryId 1) (EntryId 14) (Teller_Participant (MemoryId 3)) ''misheard'' None]
   | (Inl e, b) \<Rightarrow> False"
  by code_simp

section \<open>Calendar windows\<close>

text \<open>
  \<open>upcoming\<close> adds the length of the window to the present, saturating at the largest 64-bit integer, and takes the
  sum for a timestamp; a window that ends past the last representable instant panics.
\<close>

theorem upcoming_past_range_panics:
  assumes "parse_duration_millis w = Some n" "try_from_millis (jiff_of b) (now b) = Some t"
    and "try_from_millis (jiff_of b) (saturate64 (now b + n)) = None"
  shows "upcoming (Some w) b = (Inl (MemoryError_Graph (Panicked (Panic_OutOfRange (saturate64 (now b + n))))), b)"
  using assms
  by (simp add: upcoming_def bind_op_def query_def within_millis_def read_millis_def from_millis_def lift_panic_def
      read_graph_def)

theorem upcoming_past_range_panics_witness:
  "upcoming (Some ''5000000 weeks'') turn_block
     = (Inl (MemoryError_Graph (Panicked (Panic_OutOfRange 3024000000100000))), turn_block)"
proof -
  have "parse_duration_millis ''5000000 weeks'' = Some 3024000000000000" by code_simp
  moreover have "try_from_millis (jiff_of turn_block) (now turn_block) = Some 100000" by code_simp
  moreover have "try_from_millis (jiff_of turn_block) (saturate64 (now turn_block + 3024000000000000)) = None"
    by code_simp
  moreover have "saturate64 (now turn_block + 3024000000000000) = 3024000000100000" by code_simp
  ultimately show ?thesis using upcoming_past_range_panics [of "''5000000 weeks''" 3024000000000000 turn_block] by simp
qed

end
