(* ===== verification/Turn_Ledger.thy ===== *)
theory Turn_Ledger
  imports Temporal "HOL-Library.Multiset"
begin

text \<open>
  The turn ledger, \<open>src/instance/turn_ledger.rs\<close>, and the handle a turn watches it with,
  \<open>src/agent/turn/supersede.rs\<close>: the slot that admits the batches of a conversation one at a time and in the
  order they arrived, and the signal that a newer batch has overtaken a running turn.

  Every method runs under the lock of the map and is one function. Between them the holders interleave: a holder is a
  ticket that waits, a ticket whose wait has ended, or an admission; \<open>ledger_step\<close> is one move of one of them. The two
  \<open>watch\<close> channels of an entry are shared by its holders and may outlive it, so they are kept by the number of the
  entry's creation; a subtraction below zero is the panic it is in the code.
\<close>

section \<open>The ledger\<close>

record arrival =
  ar_epoch :: nat
  ar_arrived_at :: timestamp

record conversation_turns =
  ct_channels :: nat  \<comment> \<open>the pair of watch channels made with this entry\<close>
  next_epoch :: nat
  outstanding :: nat
  admitted :: nat
  finished :: "nat list"  \<comment> \<open>a \<open>BTreeSet\<close>\<close>
  arrivals :: "arrival list"

record turn_ledger =
  tl_conversations :: "conversation_id \<Rightarrow> conversation_turns option"
  tl_serving :: "nat \<Rightarrow> nat"  \<comment> \<open>the level of each channel\<close>
  tl_supersede :: "nat \<Rightarrow> nat"
  tl_created :: nat

record turn_ticket =
  tt_conversation :: conversation_id
  tt_epoch :: nat
  tt_arrived_at :: timestamp
  tt_channels :: nat

record turn_admission =
  ta_conversation :: conversation_id
  ta_epoch :: nat
  ta_channels :: nat
  ta_burst_started_at :: timestamp
  ta_window :: int  \<comment> \<open>a \<open>Duration\<close>, in milliseconds\<close>
  ta_superseded :: bool

datatype holder_exit = Exit_Ticket | Exit_Admission bool

definition ledger_new :: turn_ledger where
  "ledger_new =
     \<lparr>tl_conversations = (\<lambda>_. None), tl_serving = (\<lambda>_. 0), tl_supersede = (\<lambda>_. 0), tl_created = 0\<rparr>"

text \<open>\<open>ConversationTurns::new\<close>; both channels start at the level zero.\<close>

definition turns_new :: "conversation_id \<Rightarrow> turn_ledger \<Rightarrow> turn_ledger" where
  "turns_new c l =
     l\<lparr>tl_conversations := (tl_conversations l)(c \<mapsto>
          \<lparr>ct_channels = tl_created l, next_epoch = 0, outstanding = 0, admitted = 0, finished = [], arrivals = []\<rparr>),
       tl_serving := (tl_serving l)(tl_created l := 0), tl_supersede := (tl_supersede l)(tl_created l := 0),
       tl_created := tl_created l + 1\<rparr>"

definition arrive :: "conversation_id \<Rightarrow> timestamp \<Rightarrow> turn_ledger \<Rightarrow> turn_ticket \<times> turn_ledger" where
  "arrive c now l =
     (let l = (if tl_conversations l c = None then turns_new c l else l);
          e = the (tl_conversations l c);
          epoch = next_epoch e
      in (\<lparr>tt_conversation = c, tt_epoch = epoch, tt_arrived_at = now, tt_channels = ct_channels e\<rparr>,
          l\<lparr>tl_conversations := (tl_conversations l)(c \<mapsto>
               e\<lparr>next_epoch := epoch + 1, outstanding := outstanding e + 1,
                 arrivals := arrivals e @ [\<lparr>ar_epoch = epoch, ar_arrived_at = now\<rparr>]\<rparr>),
            tl_supersede := (tl_supersede l)(ct_channels e := epoch)\<rparr>))"

definition has_admitted_turn :: "conversation_id \<Rightarrow> turn_ledger \<Rightarrow> bool" where
  "has_admitted_turn c l = (case tl_conversations l c of Some e \<Rightarrow> 0 < admitted e | None \<Rightarrow> False)"

text \<open>The wait of \<open>admit\<close> ends when the served epoch is the ticket's.\<close>

definition is_served :: "turn_ticket \<Rightarrow> turn_ledger \<Rightarrow> bool" where
  "is_served t l \<longleftrightarrow> tl_serving l (tt_channels t) = tt_epoch t"

text \<open>The rest of \<open>admit\<close>, under the lock.\<close>

definition take_slot :: "int \<Rightarrow> turn_ticket \<Rightarrow> turn_ledger \<Rightarrow> turn_admission \<times> turn_ledger" where
  "take_slot window t l =
     (let c = tt_conversation t;
          started = (case tl_conversations l c of
                       Some e \<Rightarrow> (case arrivals e of a # _ \<Rightarrow> ar_arrived_at a | [] \<Rightarrow> tt_arrived_at t)
                     | None \<Rightarrow> tt_arrived_at t);
          l = (case tl_conversations l c of
                 Some e \<Rightarrow> l\<lparr>tl_conversations := (tl_conversations l)(c \<mapsto> e\<lparr>admitted := admitted e + 1\<rparr>)\<rparr>
               | None \<Rightarrow> l)
      in (\<lparr>ta_conversation = c, ta_epoch = tt_epoch t, ta_channels = tt_channels t,
           ta_burst_started_at = started, ta_window = window, ta_superseded = False\<rparr>, l))"

text \<open>\<open>while entry.finished.remove(&next)\<close>.\<close>

function drain_finished :: "nat \<Rightarrow> nat list \<Rightarrow> nat \<times> nat list" where
  "drain_finished n fin = (if n \<in> set fin then drain_finished (n + 1) (removeAll n fin) else (n, fin))"
  by pat_completeness auto
termination
  by (relation "measure (\<lambda>(n, fin). length fin)") (auto intro: length_removeAll_less)

declare drain_finished.simps [simp del]

definition checked_dec :: "nat \<Rightarrow> nat option" where
  "checked_dec n = (if n = 0 then None else Some (n - 1))"

definition exit_turn :: "conversation_id \<Rightarrow> nat \<Rightarrow> holder_exit \<Rightarrow> turn_ledger \<Rightarrow> turn_ledger option" where
  "exit_turn c epoch how l =
     (let superseded = (how = Exit_Admission True)
      in case tl_conversations l c of
           None \<Rightarrow> Some l
         | Some e \<Rightarrow>
             (case (checked_dec (outstanding e), if how = Exit_Ticket then Some (admitted e) else checked_dec (admitted e)) of
                (Some live, Some running) \<Rightarrow>
                  (let e = e\<lparr>outstanding := live, admitted := running\<rparr>;
                       ch = ct_channels e;
                       (serving, fin) = (if tl_serving l ch = epoch then drain_finished (epoch + 1) (finished e)
                                         else (tl_serving l ch, List.insert epoch (finished e)));
                       e = e\<lparr>finished := fin,
                             arrivals := (if superseded then arrivals e
                                          else filter (\<lambda>a. epoch < ar_epoch a) (arrivals e))\<rparr>
                   in Some (l\<lparr>tl_conversations := (tl_conversations l)(c := if live = 0 then None else Some e),
                              tl_serving := (tl_serving l)(ch := serving)\<rparr>))
              | _ \<Rightarrow> None))"

definition mark_superseded :: "turn_admission \<Rightarrow> turn_admission" where
  "mark_superseded a = a\<lparr>ta_superseded := True\<rparr>"

section \<open>The signal a turn watches\<close>

record supersession =
  sp_channels :: nat
  sp_epoch :: nat
  sp_burst_started_at :: timestamp
  sp_window :: int
  sp_armed :: bool

definition supersession_of :: "turn_admission \<Rightarrow> supersession" where
  "supersession_of a =
     \<lparr>sp_channels = ta_channels a, sp_epoch = ta_epoch a, sp_burst_started_at = ta_burst_started_at a,
      sp_window = ta_window a, sp_armed = (ta_window a \<noteq> 0)\<rparr>"

definition superseded :: "timestamp \<Rightarrow> turn_ledger \<Rightarrow> supersession \<Rightarrow> bool \<times> supersession" where
  "superseded now l s =
     (if \<not> sp_armed s then (False, s)
      else if saturate64 (now - sp_burst_started_at s) > wrap64 (sp_window s) then (False, s\<lparr>sp_armed := False\<rparr>)
      else (sp_epoch s < tl_supersede l (sp_channels s), s))"

section \<open>The holders\<close>

record ledger_world =
  lw_ledger :: turn_ledger
  lw_waiting :: "turn_ticket list"
  lw_entitled :: "turn_ticket list"  \<comment> \<open>past the wait, before the lock\<close>
  lw_turns :: "turn_admission list"

definition world_new :: ledger_world where
  "world_new = \<lparr>lw_ledger = ledger_new, lw_waiting = [], lw_entitled = [], lw_turns = []\<rparr>"

inductive ledger_step :: "ledger_world \<Rightarrow> ledger_world \<Rightarrow> bool" where
  arrives: "arrive c now (lw_ledger w) = (t, l) \<Longrightarrow>
    ledger_step w (w\<lparr>lw_ledger := l, lw_waiting := lw_waiting w @ [t]\<rparr>)"
| wait_ends: "t \<in> set (lw_waiting w) \<Longrightarrow> is_served t (lw_ledger w) \<Longrightarrow>
    ledger_step w (w\<lparr>lw_waiting := remove1 t (lw_waiting w), lw_entitled := lw_entitled w @ [t]\<rparr>)"
| admits: "t \<in> set (lw_entitled w) \<Longrightarrow> take_slot window t (lw_ledger w) = (a, l) \<Longrightarrow>
    ledger_step w (w\<lparr>lw_ledger := l, lw_entitled := remove1 t (lw_entitled w), lw_turns := lw_turns w @ [a]\<rparr>)"
| marked: "a \<in> set (lw_turns w) \<Longrightarrow>
    ledger_step w (w\<lparr>lw_turns := remove1 a (lw_turns w) @ [mark_superseded a]\<rparr>)"
| ticket_dropped: "t \<in> set (lw_waiting w) \<Longrightarrow>
    exit_turn (tt_conversation t) (tt_epoch t) Exit_Ticket (lw_ledger w) = Some l \<Longrightarrow>
    ledger_step w (w\<lparr>lw_ledger := l, lw_waiting := remove1 t (lw_waiting w)\<rparr>)"
| turn_exits: "a \<in> set (lw_turns w) \<Longrightarrow>
    exit_turn (ta_conversation a) (ta_epoch a) (Exit_Admission (ta_superseded a)) (lw_ledger w) = Some l \<Longrightarrow>
    ledger_step w (w\<lparr>lw_ledger := l, lw_turns := remove1 a (lw_turns w)\<rparr>)"

section \<open>The invariant\<close>

text \<open>One entry: the live epochs are those from the served one on that have not finished early.\<close>

definition entry_ok :: "turn_ledger \<Rightarrow> conversation_turns \<Rightarrow> nat multiset \<Rightarrow> bool" where
  "entry_ok l e held \<longleftrightarrow>
     (let s = tl_serving l (ct_channels e)
      in set (finished e) \<subseteq> {s<..<next_epoch e} \<and> held = mset_set ({s..<next_epoch e} - set (finished e))
         \<and> s \<le> next_epoch e \<and> outstanding e = size held
         \<and> (held \<noteq> {#} \<longrightarrow> next_epoch e = tl_supersede l (ct_channels e) + 1))"

type_synonym holder = "conversation_id \<times> nat \<times> nat"  \<comment> \<open>its conversation, epoch and channels\<close>

definition epochs_held :: "holder multiset \<Rightarrow> conversation_id \<Rightarrow> nat multiset" where
  "epochs_held hs c = image_mset (fst \<circ> snd) (filter_mset (\<lambda>h. fst h = c) hs)"

definition ledger_ok :: "turn_ledger \<Rightarrow> holder multiset \<Rightarrow> holder multiset \<Rightarrow> (conversation_id \<Rightarrow> nat) \<Rightarrow> bool" where
  "ledger_ok l hs running turns \<longleftrightarrow>
     (\<forall>c e. tl_conversations l c = Some e \<longrightarrow>
        entry_ok l e (epochs_held hs c) \<and> admitted e = turns c \<and> ct_channels e < tl_created l)
     \<and> (\<forall>c. tl_conversations l c = None \<longrightarrow> turns c = 0)
     \<and> (\<forall>c d e f. tl_conversations l c = Some e \<longrightarrow> tl_conversations l d = Some f
          \<longrightarrow> ct_channels e = ct_channels f \<longrightarrow> c = d)
     \<and> (\<forall>c n ch. (c, n, ch) \<in># hs \<longrightarrow> (\<exists>e. tl_conversations l c = Some e \<and> ch = ct_channels e))
     \<and> (\<forall>c n ch. (c, n, ch) \<in># running \<longrightarrow> n = tl_serving l ch)
     \<and> running \<subseteq># hs"

definition no_idle_entry :: "turn_ledger \<Rightarrow> holder multiset \<Rightarrow> bool" where
  "no_idle_entry l hs \<longleftrightarrow> (\<forall>c e. tl_conversations l c = Some e \<longrightarrow> epochs_held hs c \<noteq> {#})"

lemma epochs_held_add [simp]:
  "epochs_held (add_mset (c, n, ch) hs) d = (if c = d then add_mset n (epochs_held hs d) else epochs_held hs d)"
  by (simp add: epochs_held_def)

lemma epochs_held_mem: "(c, n, ch) \<in># hs \<Longrightarrow> n \<in># epochs_held hs c"
  by (force simp: epochs_held_def)

lemma epochs_held_memD: "n \<in># epochs_held hs c \<Longrightarrow> \<exists>ch. (c, n, ch) \<in># hs"
  by (auto simp: epochs_held_def)

lemma epochs_held_remove:
  "(c, n, ch) \<in># hs \<Longrightarrow> epochs_held (hs - {#(c, n, ch)#}) d = (if c = d then epochs_held hs d - {#n#} else epochs_held hs d)"
  by (drule multi_member_split) auto

lemma ledger_ok_entry:
  "ledger_ok l hs r t \<Longrightarrow> tl_conversations l c = Some e \<Longrightarrow>
    entry_ok l e (epochs_held hs c) \<and> admitted e = t c \<and> ct_channels e < tl_created l"
  by (simp add: ledger_ok_def)

lemma ledger_ok_holder:
  "ledger_ok l hs r t \<Longrightarrow> (c, n, ch) \<in># hs \<Longrightarrow> \<exists>e. tl_conversations l c = Some e \<and> ch = ct_channels e"
  unfolding ledger_ok_def by blast

lemma ledger_ok_channels:
  "ledger_ok l hs r t \<Longrightarrow> tl_conversations l c = Some e \<Longrightarrow> tl_conversations l d = Some f
    \<Longrightarrow> ct_channels e = ct_channels f \<Longrightarrow> c = d"
  unfolding ledger_ok_def by blast

lemma ledger_ok_running:
  "ledger_ok l hs r t \<Longrightarrow> (c, n, ch) \<in># r \<Longrightarrow> n = tl_serving l ch \<and> (c, n, ch) \<in># hs"
  by (auto simp: ledger_ok_def dest: mset_subset_eqD)

lemma ledger_ok_channel:
  "ledger_ok l hs r t \<Longrightarrow> tl_conversations l c = Some e \<Longrightarrow> (c, n, ch) \<in># hs \<Longrightarrow> ch = ct_channels e"
  by (drule (1) ledger_ok_holder) simp

lemma ledger_ok_sub: "ledger_ok l hs r t \<Longrightarrow> r \<subseteq># hs"
  by (simp add: ledger_ok_def)

lemma ledger_ok_no_entry:
  assumes "ledger_ok l hs r t" "tl_conversations l c = None"
  shows "epochs_held hs c = {#}" "t c = 0"
proof -
  have "fst h \<noteq> c" if "h \<in># hs" for h
    using ledger_ok_holder [OF assms(1), of "fst h" "fst (snd h)" "snd (snd h)"] that assms(2) by auto
  then have "filter_mset (\<lambda>h. fst h = c) hs = filter_mset (\<lambda>_. False) hs" by (intro filter_mset_cong) simp_all
  then show "epochs_held hs c = {#}" by (simp add: epochs_held_def)
  show "t c = 0" using assms by (simp add: ledger_ok_def)
qed

text \<open>The served epoch of an entry with holders is live, and it is the oldest.\<close>

lemma entry_ok_served:
  assumes "entry_ok l e held"
  shows "held \<noteq> {#} \<Longrightarrow> tl_serving l (ct_channels e) \<in># held"
    and "n \<in># held \<Longrightarrow> tl_serving l (ct_channels e) \<le> n"
    and "count held n \<le> 1" and "n \<in># held \<Longrightarrow> n \<le> tl_supersede l (ct_channels e)"
proof -
  let ?s = "tl_serving l (ct_channels e)"
  let ?A = "{?s..<next_epoch e} - set (finished e)"
  have h: "set (finished e) \<subseteq> {?s<..<next_epoch e}" "held = mset_set ?A"
    "held \<noteq> {#} \<longrightarrow> next_epoch e = tl_supersede l (ct_channels e) + 1"
    using assms unfolding entry_ok_def Let_def by blast+
  show "?s \<in># held" if "held \<noteq> {#}"
  proof -
    have "?A \<noteq> {}" using h(2) that by (metis mset_set.empty)
    with h(1) have "?s \<in> ?A" by auto
    with h(2) show ?thesis by simp
  qed
  show "n \<in># held \<Longrightarrow> ?s \<le> n" using h(2) by simp
  show "count held n \<le> 1" using h(2) by (simp add: count_mset_set')
  show "n \<le> tl_supersede l (ct_channels e)" if n: "n \<in># held"
  proof -
    from n have "held \<noteq> {#}" by auto
    with h(3) have "next_epoch e = tl_supersede l (ct_channels e) + 1" by blast
    moreover have "n \<in> ?A" using n unfolding h(2) by simp
    ultimately show ?thesis by simp
  qed
qed

section \<open>Every operation keeps it\<close>

lemma ledger_ok_new: "ledger_ok ledger_new {#} {#} (\<lambda>_. 0)"
  by (simp add: ledger_ok_def ledger_new_def)

lemma entry_ok_cong:
  "tl_serving l' (ct_channels e) = tl_serving l (ct_channels e)
    \<Longrightarrow> tl_supersede l' (ct_channels e) = tl_supersede l (ct_channels e) \<Longrightarrow> entry_ok l' e h = entry_ok l e h"
  by (simp add: entry_ok_def)

lemma entry_ok_admitted [simp]:
  "entry_ok l (e\<lparr>admitted := k\<rparr>) h = entry_ok l e h" "entry_ok (l\<lparr>tl_conversations := m\<rparr>) e h = entry_ok l e h"
  by (simp_all add: entry_ok_def)

text \<open>An operation changes one entry and the levels of its channels; the rest of the ledger is as it was.\<close>

lemma ledger_ok_update:
  assumes ok: "ledger_ok l hs r t" and e: "tl_conversations l c = Some e"
    and map': "tl_conversations l' = (tl_conversations l)(c := oe)" and created: "tl_created l' = tl_created l"
    and levels: "\<And>ch. ch \<noteq> ct_channels e \<Longrightarrow> tl_serving l' ch = tl_serving l ch \<and> tl_supersede l' ch = tl_supersede l ch"
    and entry: "\<And>e'. oe = Some e' \<Longrightarrow>
      ct_channels e' = ct_channels e \<and> entry_ok l' e' (epochs_held hs' c) \<and> admitted e' = t' c"
    and gone: "oe = None \<Longrightarrow> epochs_held hs' c = {#} \<and> t' c = 0"
    and others: "\<And>d. d \<noteq> c \<Longrightarrow> epochs_held hs' d = epochs_held hs d \<and> t' d = t d"
    and holders: "\<And>d n ch. (d, n, ch) \<in># hs' \<Longrightarrow> (if d = c then ch = ct_channels e else (d, n, ch) \<in># hs)"
    and running: "\<And>d n ch. (d, n, ch) \<in># r' \<Longrightarrow> (if d = c then n = tl_serving l' ch else (d, n, ch) \<in># r)" "r' \<subseteq># hs'"
  shows "ledger_ok l' hs' r' t'"
  unfolding ledger_ok_def
proof (intro conjI allI impI)
  have far: "ct_channels f \<noteq> ct_channels e" if "tl_conversations l d = Some f" "d \<noteq> c" for d f
    using ledger_ok_channels [OF ok that(1) e] that(2) by auto
  fix d f assume f: "tl_conversations l' d = Some f"
  have "ct_channels f < tl_created l' \<and> entry_ok l' f (epochs_held hs' d) \<and> admitted f = t' d"
  proof (cases "d = c")
    case True
    with f map' entry [of f] ledger_ok_entry [OF ok e] created show ?thesis by auto
  next
    case False
    with f map' have l: "tl_conversations l d = Some f" by simp
    with ledger_ok_entry [OF ok l] levels [OF far [OF l False]] others [OF False] created
    show ?thesis using entry_ok_cong [of l' f l] by simp
  qed
  then show "ct_channels f < tl_created l'" "entry_ok l' f (epochs_held hs' d)" "admitted f = t' d" by auto
next
  fix d assume "tl_conversations l' d = None"
  then show "t' d = 0"
    using map' gone others [of d] ledger_ok_no_entry(2) [OF ok] by (auto split: if_splits)
next
  fix d d' f f' assume a: "tl_conversations l' d = Some f" "tl_conversations l' d' = Some f'" "ct_channels f = ct_channels f'"
  have orig: "\<exists>g. tl_conversations l d = Some g \<and> ct_channels g = ct_channels f"
    if "tl_conversations l' d = Some f" for d f
    using that map' entry [of f] e by (auto split: if_splits)
  from orig [OF a(1)] orig [OF a(2)] a(3) show "d = d'" using ledger_ok_channels [OF ok] by metis
next
  fix d n ch assume m: "(d, n, ch) \<in># hs'"
  show "\<exists>f. tl_conversations l' d = Some f \<and> ch = ct_channels f"
  proof (cases "d = c")
    case True
    have "oe \<noteq> None"
    proof
      assume "oe = None"
      then have "epochs_held hs' c = {#}" using gone by simp
      with epochs_held_mem [OF m] True show False by simp
    qed
    with True map' entry holders [OF m] show ?thesis by auto
  next
    case False
    with holders [OF m] ledger_ok_holder [OF ok, of d n ch] map' show ?thesis by simp
  qed
next
  fix d n ch assume m: "(d, n, ch) \<in># r'"
  show "n = tl_serving l' ch"
  proof (cases "d = c")
    case True
    with running(1) [OF m] show ?thesis by simp
  next
    case False
    with running(1) [OF m] have "(d, n, ch) \<in># r" by simp
    with ledger_ok_running [OF ok this] have n: "n = tl_serving l ch" "(d, n, ch) \<in># hs" by auto
    from ledger_ok_holder [OF ok n(2)] obtain f where f: "tl_conversations l d = Some f" "ch = ct_channels f" by blast
    have "ch \<noteq> ct_channels e" unfolding f(2)
    proof
      assume "ct_channels f = ct_channels e"
      from ledger_ok_channels [OF ok f(1) e this] False show False by simp
    qed
    with levels [of ch] n(1) show ?thesis by simp
  qed
qed (rule running(2))

lemma ledger_ok_turns_new:
  assumes ok: "ledger_ok l hs r t" and none: "tl_conversations l c = None"
  shows "ledger_ok (turns_new c l) hs r t"
proof -
  let ?l = "turns_new c l"
  have old: "tl_serving ?l (ct_channels e) = tl_serving l (ct_channels e)
      \<and> tl_supersede ?l (ct_channels e) = tl_supersede l (ct_channels e)"
    if "tl_conversations l d = Some e" for d e
    using ledger_ok_entry [OF ok that] by (simp add: turns_new_def)
  have n: "n = tl_serving ?l ch" if m: "(d, n, ch) \<in># r" for d n ch
  proof -
    from ledger_ok_running [OF ok m] obtain e where "tl_conversations l d = Some e" "ch = ct_channels e"
      "n = tl_serving l ch" using ledger_ok_holder [OF ok] by blast
    with old show ?thesis by simp
  qed
  have entry: "ct_channels e < tl_created ?l \<and> entry_ok ?l e (epochs_held hs d) \<and> admitted e = t d"
    if "tl_conversations ?l d = Some e" for d e
  proof (cases "d = c")
    case True
    with that show ?thesis using ledger_ok_no_entry [OF ok none]
      by (auto simp: turns_new_def entry_ok_def)
  next
    case False
    with that have "tl_conversations l d = Some e" by (simp add: turns_new_def)
    with old [OF this] ledger_ok_entry [OF ok this] show ?thesis
      using entry_ok_cong [of ?l e l] by (auto simp: turns_new_def)
  qed
  have fresh: "ct_channels e = tl_created l \<longleftrightarrow> d = c" if "tl_conversations ?l d = Some e" for d e
    using that ledger_ok_entry [OF ok, of d e] by (auto simp: turns_new_def split: if_splits)
  have inj: "d = d'" if "tl_conversations ?l d = Some e" "tl_conversations ?l d' = Some e'" "ct_channels e = ct_channels e'"
    for d d' e e'
  proof (cases "d = c \<or> d' = c")
    case True
    with fresh [OF that(1)] fresh [OF that(2)] that(3) show ?thesis by auto
  next
    case False
    with that(1,2) have "tl_conversations l d = Some e" "tl_conversations l d' = Some e'"
      by (simp_all add: turns_new_def)
    then show ?thesis using ledger_ok_channels [OF ok] that(3) by blast
  qed
  have hold: "\<exists>e. tl_conversations ?l d = Some e \<and> ch = ct_channels e" if "(d, n, ch) \<in># hs" for d n ch
    using ledger_ok_holder [OF ok that] none by (auto simp: turns_new_def)
  have t: "t d = 0" if "tl_conversations ?l d = None" for d
    using that ledger_ok_no_entry(2) [OF ok, of d] by (auto simp: turns_new_def split: if_splits)
  have sub: "r \<subseteq># hs" using ok by (simp add: ledger_ok_def)
  show ?thesis unfolding ledger_ok_def
    using entry inj hold n t sub by (intro conjI allI impI) blast+
qed

lemma mset_set_Suc_diff:
  "s \<le> n \<Longrightarrow> set fin \<subseteq> {s<..<n} \<Longrightarrow> mset_set ({s..<Suc n} - set fin) = add_mset n (mset_set ({s..<n} - set fin))"
proof -
  assume a: "s \<le> n" "set fin \<subseteq> {s<..<n}"
  then have "{s..<Suc n} - set fin = insert n ({s..<n} - set fin)" by auto
  then show ?thesis by (simp add: mset_set.insert)
qed

text \<open>The part of \<open>arrive\<close> after the entry is there.\<close>

lemma ledger_ok_push:
  assumes ok: "ledger_ok l hs r t" and e: "tl_conversations l c = Some e"
  shows "ledger_ok
     (l\<lparr>tl_conversations := (tl_conversations l)(c \<mapsto>
          e\<lparr>next_epoch := next_epoch e + 1, outstanding := outstanding e + 1, arrivals := arrivals e @ [a]\<rparr>),
       tl_supersede := (tl_supersede l)(ct_channels e := next_epoch e)\<rparr>)
     (add_mset (c, next_epoch e, ct_channels e) hs) r t"
    (is "ledger_ok ?l ?hs r t")
proof (rule ledger_ok_update [OF ok e, where oe = "Some (e\<lparr>next_epoch := next_epoch e + 1,
      outstanding := outstanding e + 1, arrivals := arrivals e @ [a]\<rparr>)"])
  let ?s = "tl_serving l (ct_channels e)"
  have h: "set (finished e) \<subseteq> {?s<..<next_epoch e}" "?s \<le> next_epoch e"
    "epochs_held hs c = mset_set ({?s..<next_epoch e} - set (finished e))" "outstanding e = size (epochs_held hs c)"
    using ledger_ok_entry [OF ok e] unfolding entry_ok_def Let_def by blast+
  note more = mset_set_Suc_diff [OF h(2,1)]
  have wider: "set (finished e) \<subseteq> {?s<..<Suc (next_epoch e)}" using h(1) by auto
  show "ct_channels e' = ct_channels e \<and> entry_ok ?l e' (epochs_held ?hs c) \<and> admitted e' = t c"
    if "Some (e\<lparr>next_epoch := next_epoch e + 1, outstanding := outstanding e + 1, arrivals := arrivals e @ [a]\<rparr>) = Some e'" for e'
    using that ledger_ok_entry [OF ok e] more h(4) wider le_SucI [OF h(2)]
    by (auto simp: entry_ok_def Let_def h(3))
qed (use ledger_ok_channel [OF ok e] ledger_ok_running [OF ok] ledger_ok_sub [OF ok] in
    \<open>auto intro: subset_mset.order_trans split: if_splits\<close>)

lemma ledger_ok_arrive:
  assumes ok: "ledger_ok l hs r t" and a: "arrive c now l = (tk, l')"
  shows "ledger_ok l' (add_mset (c, tt_epoch tk, tt_channels tk) hs) r t \<and> tt_conversation tk = c
    \<and> tl_supersede l' (tt_channels tk) = tt_epoch tk"
proof -
  define m where "m = (if tl_conversations l c = None then turns_new c l else l)"
  have m: "ledger_ok m hs r t" using ok ledger_ok_turns_new [OF ok] by (simp add: m_def)
  have "tl_conversations m c \<noteq> None" by (auto simp: m_def turns_new_def)
  then obtain e where e: "tl_conversations m c = Some e" by blast
  from ledger_ok_push [OF m e, of "\<lparr>ar_epoch = next_epoch e, ar_arrived_at = now\<rparr>"] a e show ?thesis
    by (auto simp: arrive_def m_def [symmetric] Let_def)
qed

lemma ledger_ok_run:
  "ledger_ok l hs r t \<Longrightarrow> n = tl_serving l ch \<Longrightarrow> add_mset (c, n, ch) r \<subseteq># hs \<Longrightarrow> ledger_ok l hs (add_mset (c, n, ch) r) t"
  by (auto simp: ledger_ok_def)

lemma ledger_ok_take_slot:
  assumes ok: "ledger_ok l hs r t" and tk: "take_slot window tk l = (a, l')"
    and held: "(tt_conversation tk, n, ch) \<in># hs"
  shows "ledger_ok l' hs r (t(tt_conversation tk := t (tt_conversation tk) + 1))
    \<and> ta_conversation a = tt_conversation tk \<and> ta_epoch a = tt_epoch tk \<and> ta_channels a = tt_channels tk"
proof -
  let ?c = "tt_conversation tk"
  from ledger_ok_holder [OF ok held] obtain e where e: "tl_conversations l ?c = Some e" by blast
  then have l': "l' = l\<lparr>tl_conversations := (tl_conversations l)(?c \<mapsto> e\<lparr>admitted := admitted e + 1\<rparr>)\<rparr>"
    using tk by (simp add: take_slot_def Let_def)
  have "ledger_ok l' hs r (t(?c := t ?c + 1))"
  proof (rule ledger_ok_update [OF ok e, where oe = "Some (e\<lparr>admitted := admitted e + 1\<rparr>)"])
    show "ct_channels e' = ct_channels e \<and> entry_ok l' e' (epochs_held hs ?c) \<and> admitted e' = (t(?c := t ?c + 1)) ?c"
      if "Some (e\<lparr>admitted := admitted e + 1\<rparr>) = Some e'" for e'
      using that ledger_ok_entry [OF ok e] by (auto simp: l')
  qed (use ledger_ok_channel [OF ok e] ledger_ok_running [OF ok] ledger_ok_sub [OF ok] in \<open>auto simp: l'\<close>)
  moreover have "ta_conversation a = ?c \<and> ta_epoch a = tt_epoch tk \<and> ta_channels a = tt_channels tk"
    using tk unfolding take_slot_def Let_def prod.inject by (elim conjE, hypsubst) simp
  ultimately show ?thesis by blast
qed

lemma drain_finished_spec:
  "drain_finished n fin = (m, fin') \<Longrightarrow>
    n \<le> m \<and> {n..<m} \<subseteq> set fin \<and> m \<notin> set fin \<and> set fin' = set fin - {n..<m}"
proof (induction n fin rule: drain_finished.induct)
  case (1 n fin)
  show ?case
  proof (cases "n \<in> set fin")
    case True
    with 1 have ih: "n + 1 \<le> m" "{n + 1..<m} \<subseteq> set fin - {n}" "m \<notin> set fin - {n}"
      "set fin' = set fin - {n} - {n + 1..<m}"
      by (auto simp: drain_finished.simps [of n fin])
    then have "{n..<m} = insert n {n + 1..<m}" by auto
    with ih True show ?thesis by auto
  next
    case False
    with 1 show ?thesis by (auto simp: drain_finished.simps [of n fin])
  qed
qed

text \<open>The served epoch and the finished set after an exit.\<close>

definition after_exit :: "nat \<Rightarrow> nat \<Rightarrow> nat list \<Rightarrow> nat \<times> nat list" where
  "after_exit s n fin = (if s = n then drain_finished (n + 1) fin else (s, List.insert n fin))"

lemma after_exit_spec:
  assumes "after_exit s n fin = (s', fin')" "set fin \<subseteq> {s<..<m}" "n \<in> {s..<m} - set fin"
  shows "set fin' \<subseteq> {s'<..<m}" "s' \<le> m" "{s'..<m} - set fin' = {s..<m} - set fin - {n}"
    and "n = s \<or> s' = s"
proof -
  have "set fin' \<subseteq> {s'<..<m} \<and> s' \<le> m \<and> {s'..<m} - set fin' = {s..<m} - set fin - {n} \<and> (n = s \<or> s' = s)"
  proof (cases "s = n")
    case True
    with assms(1) have d: "n + 1 \<le> s'" "{n + 1..<s'} \<subseteq> set fin" "s' \<notin> set fin" "set fin' = set fin - {n + 1..<s'}"
      using drain_finished_spec [of "n + 1" fin s' fin'] by (auto simp: after_exit_def)
    have "s' \<le> m"
    proof (rule ccontr)
      assume "\<not> s' \<le> m"
      with assms(3) True have "m \<in> {n + 1..<s'}" by auto
      with d(2) have "m \<in> set fin" by blast
      with assms(2) show False by auto
    qed
    moreover have "x \<in> set fin \<Longrightarrow> x \<notin> {n + 1..<s'} \<Longrightarrow> s' < x" for x
      using assms(2) d(3) True by (cases "x = s'") auto
    ultimately show ?thesis using d assms(2) True by fastforce
  next
    case False
    with assms have e: "s' = s" "set fin' = insert n (set fin)" by (auto simp: after_exit_def)
    from assms(2) have "x \<in> {s<..<m}" if "x \<in> set fin" for x using that by blast
    with assms(3) False e show ?thesis by auto
  qed
  then show "set fin' \<subseteq> {s'<..<m}" "s' \<le> m" "{s'..<m} - set fin' = {s..<m} - set fin - {n}" "n = s \<or> s' = s"
    by blast+
qed

lemma exit_turn_eq:
  "exit_turn c n how l =
     (case tl_conversations l c of
        None \<Rightarrow> Some l
      | Some e \<Rightarrow>
          (case (checked_dec (outstanding e), if how = Exit_Ticket then Some (admitted e) else checked_dec (admitted e)) of
             (Some live, Some running) \<Rightarrow>
               (case after_exit (tl_serving l (ct_channels e)) n (finished e) of
                  (serving, fin) \<Rightarrow>
                    Some (l\<lparr>tl_conversations := (tl_conversations l)(c := if live = 0 then None else
                              Some (e\<lparr>outstanding := live, admitted := running, finished := fin,
                                arrivals := (if how = Exit_Admission True then arrivals e
                                             else filter (\<lambda>a. n < ar_epoch a) (arrivals e))\<rparr>)),
                            tl_serving := (tl_serving l)(ct_channels e := serving)\<rparr>))
           | _ \<Rightarrow> None))"
  by (simp add: exit_turn_def after_exit_def Let_def split: option.split prod.split)

text \<open>A holder leaves: no count falls below zero, and the ledger is as it should be without it.\<close>

lemma ledger_ok_exit:
  assumes ok: "ledger_ok l hs r t" and h: "(c, n, ch) \<in># hs"
    and r': "r' \<subseteq># hs - {#(c, n, ch)#}" "\<And>d k x. (d, k, x) \<in># r' \<Longrightarrow> (d, k, x) \<in># r"
    and t': "t' = (if how = Exit_Ticket then t else t(c := t c - 1))" "how \<noteq> Exit_Ticket \<Longrightarrow> 0 < t c"
    and idle: "epochs_held hs c = {#n#} \<Longrightarrow> t' c = 0"
  shows "\<exists>l'. exit_turn c n how l = Some l' \<and> ledger_ok l' (hs - {#(c, n, ch)#}) r' t'
    \<and> (no_idle_entry l hs \<longrightarrow> no_idle_entry l' (hs - {#(c, n, ch)#}))"
proof -
  from ledger_ok_holder [OF ok h] obtain e where e: "tl_conversations l c = Some e" "ch = ct_channels e" by blast
  let ?s = "tl_serving l ch" and ?H = "epochs_held hs c" and ?hs = "hs - {#(c, n, ch)#}"
  note entry = ledger_ok_entry [OF ok e(1)]
  have n: "n \<in># ?H" using epochs_held_mem [OF h] .
  then have ne: "?H \<noteq> {#}" by auto
  have k: "set (finished e) \<subseteq> {?s<..<next_epoch e}" "?H = mset_set ({?s..<next_epoch e} - set (finished e))"
    "outstanding e = size ?H" "next_epoch e = tl_supersede l ch + 1"
    using entry ne unfolding entry_ok_def Let_def e(2) by blast+
  obtain s' fin' where x: "after_exit ?s n (finished e) = (s', fin')" by (cases "after_exit ?s n (finished e)")
  have here: "n \<in> {?s..<next_epoch e} - set (finished e)" using n unfolding k(2) by simp
  note after = after_exit_spec [OF x k(1) here]
  have H': "epochs_held ?hs c = ?H - {#n#}" using epochs_held_remove [OF h, of c] by simp
  have left: "?H - {#n#} = mset_set ({s'..<next_epoch e} - set fin')"
    using here unfolding k(2) after(3) by (simp add: mset_set_Diff)
  have live: "checked_dec (outstanding e) = Some (size (?H - {#n#}))"
    using n ne by (simp add: checked_dec_def k(3) size_Diff_singleton)
  have runs: "(if how = Exit_Ticket then Some (admitted e) else checked_dec (admitted e)) = Some (t' c)"
    using t' entry by (cases "how = Exit_Ticket") (simp_all add: checked_dec_def)
  define e' where "e' = e\<lparr>outstanding := size (?H - {#n#}), admitted := t' c, finished := fin',
    arrivals := (if how = Exit_Admission True then arrivals e else filter (\<lambda>a. n < ar_epoch a) (arrivals e))\<rparr>"
  define oe where "oe = (if size (?H - {#n#}) = 0 then None else Some e')"
  define l' where "l' = l\<lparr>tl_conversations := (tl_conversations l)(c := oe), tl_serving := (tl_serving l)(ch := s')\<rparr>"
  have run: "exit_turn c n how l = Some l'"
    by (simp add: exit_turn_eq e(1) e(2) [symmetric] live runs x l'_def oe_def e'_def)
  have "ledger_ok l' ?hs r' t'"
  proof (rule ledger_ok_update [OF ok e(1), of l' oe])
    show "ct_channels f = ct_channels e \<and> entry_ok l' f (epochs_held ?hs c) \<and> admitted f = t' c" if "oe = Some f" for f
    proof -
      from that have f: "f = e'" by (auto simp: oe_def split: if_splits)
      have "entry_ok l' e' (?H - {#n#})"
        unfolding entry_ok_def Let_def using after(1,2) left k(4) by (simp add: l'_def e'_def e(2) [symmetric])
      then show ?thesis unfolding f H' by (simp add: e'_def)
    qed
    show "epochs_held ?hs c = {#} \<and> t' c = 0" if "oe = None"
    proof -
      from that have "?H - {#n#} = {#}" by (auto simp: oe_def split: if_splits)
      with n have "?H = {#n#}" by (metis insert_DiffM)
      with idle H' show ?thesis by simp
    qed
    show "if d = c then k = tl_serving l' x else (d, k, x) \<in># r" if m: "(d, k, x) \<in># r'" for d k x
    proof (cases "d = c")
      case True
      have "(c, k, x) \<in># hs" using ledger_ok_running [OF ok r'(2) [OF m]] unfolding True by (elim conjE)
      then have y: "x = ch" unfolding e(2) by (rule ledger_ok_channel [OF ok e(1)])
      have k': "k = ?s" using ledger_ok_running [OF ok r'(2) [OF m]] y by simp
      have "(c, k, ch) \<in># ?hs" using m True y r'(1) mset_subset_eqD by fast
      then have "k \<in># ?H - {#n#}" using H' epochs_held_mem by metis
      moreover have "?s \<notin># ?H - {#?s#}"
        using entry_ok_served(3) [of l e ?H ?s] entry by (simp add: not_in_iff)
      ultimately have "n \<noteq> ?s" using k' by auto
      with after(4) True y k' show ?thesis by (simp add: l'_def)
    qed (use r'(2) [OF m] in simp)
  qed (use t' r'(1) e(2) ledger_ok_channel [OF ok e(1)] epochs_held_remove [OF h] in
      \<open>auto simp: l'_def dest: in_diffD\<close>)
  moreover have "no_idle_entry l' ?hs" if "no_idle_entry l hs"
    using that H' by (auto simp: no_idle_entry_def l'_def oe_def epochs_held_remove [OF h] split: if_splits)
  ultimately show ?thesis using run by blast
qed

section \<open>Reachable worlds\<close>

definition ticket_key :: "turn_ticket \<Rightarrow> holder" where
  "ticket_key t = (tt_conversation t, tt_epoch t, tt_channels t)"

definition turn_key :: "turn_admission \<Rightarrow> holder" where
  "turn_key a = (ta_conversation a, ta_epoch a, ta_channels a)"

definition running :: "ledger_world \<Rightarrow> holder multiset" where
  "running w = mset (map ticket_key (lw_entitled w)) + mset (map turn_key (lw_turns w))"

definition holders :: "ledger_world \<Rightarrow> holder multiset" where
  "holders w = mset (map ticket_key (lw_waiting w)) + running w"

definition turn_count :: "ledger_world \<Rightarrow> conversation_id \<Rightarrow> nat" where
  "turn_count w c = length (filter (\<lambda>a. ta_conversation a = c) (lw_turns w))"

definition world_ok :: "ledger_world \<Rightarrow> bool" where
  "world_ok w \<longleftrightarrow> ledger_ok (lw_ledger w) (holders w) (running w) (turn_count w) \<and> no_idle_entry (lw_ledger w) (holders w)"

lemma fst_keys [simp]: "fst (ticket_key t) = tt_conversation t" "fst (turn_key a) = ta_conversation a"
  by (simp_all add: ticket_key_def turn_key_def)

lemma epochs_held_mset: "size (epochs_held (mset (map f xs)) c) = length (filter (\<lambda>x. fst (f x) = c) xs)"
  by (induction xs) (simp_all add: epochs_held_def)

lemma epochs_held_plus: "epochs_held (hs + hs') c = epochs_held hs c + epochs_held hs' c"
  by (simp add: epochs_held_def)

lemma size_epochs_held:
  "size (epochs_held (holders w) c) = length (filter (\<lambda>t. tt_conversation t = c) (lw_waiting w))
     + length (filter (\<lambda>t. tt_conversation t = c) (lw_entitled w)) + turn_count w c"
  by (simp add: holders_def running_def epochs_held_plus epochs_held_mset turn_count_def del: mset_map)

lemma mset_map_remove1: "x \<in> set xs \<Longrightarrow> mset (map f (remove1 x xs)) = mset (map f xs) - {#f x#}"
  by (simp add: image_mset_Diff)

lemma in_filter_length: "x \<in> set xs \<Longrightarrow> P x \<Longrightarrow> 0 < length (filter P xs)"
  by (auto simp: filter_empty_conv)

lemma in_filter_length1: "x \<in> set xs \<Longrightarrow> P x \<Longrightarrow> 1 \<le> length (filter P xs)"
  unfolding One_nat_def Suc_le_eq by (rule in_filter_length)

lemma filter_remove1_length:
  "x \<in> set xs \<Longrightarrow> length (filter P (remove1 x xs)) = length (filter P xs) - (if P x then 1 else 0)"
  by (simp add: filter_remove1 length_remove1)

lemma world_ok_new: "world_ok world_new"
  by (simp add: world_ok_def world_new_def holders_def running_def turn_count_def [abs_def] ledger_ok_new no_idle_entry_def)
    (simp add: ledger_new_def)

lemma ticket_exit_ok:
  assumes ok: "world_ok w" and t: "t \<in> set (lw_waiting w)"
  shows "\<exists>l. exit_turn (tt_conversation t) (tt_epoch t) Exit_Ticket (lw_ledger w) = Some l
    \<and> world_ok (w\<lparr>lw_ledger := l, lw_waiting := remove1 t (lw_waiting w)\<rparr>)"
proof -
  have h: "ticket_key t \<in># holders w" using t by (auto simp: holders_def)
  have hs: "holders (w\<lparr>lw_ledger := l, lw_waiting := remove1 t (lw_waiting w)\<rparr>) = holders w - {#ticket_key t#}"
    "running (w\<lparr>lw_ledger := l, lw_waiting := remove1 t (lw_waiting w)\<rparr>) = running w"
    "turn_count (w\<lparr>lw_ledger := l, lw_waiting := remove1 t (lw_waiting w)\<rparr>) = turn_count w" for l
    using t by (simp_all add: holders_def running_def turn_count_def [abs_def] mset_map_remove1 image_mset_Diff
        del: mset_map)
  have sub: "running w \<subseteq># holders w - {#ticket_key t#}"
    unfolding hs(1) [of undefined, symmetric] by (simp add: holders_def running_def)
  have idle: "turn_count w (tt_conversation t) = 0" if "epochs_held (holders w) (tt_conversation t) = {#tt_epoch t#}"
    using arg_cong [OF that, of size] size_epochs_held [of w "tt_conversation t"]
      in_filter_length [OF t, of "\<lambda>t'. tt_conversation t' = tt_conversation t", OF refl]
    unfolding size_single by linarith
  have "\<exists>l'. exit_turn (tt_conversation t) (tt_epoch t) Exit_Ticket (lw_ledger w) = Some l'
      \<and> ledger_ok l' (holders w - {#(tt_conversation t, tt_epoch t, tt_channels t)#}) (running w) (turn_count w)
      \<and> (no_idle_entry (lw_ledger w) (holders w)
          \<longrightarrow> no_idle_entry l' (holders w - {#(tt_conversation t, tt_epoch t, tt_channels t)#}))"
    by (rule ledger_ok_exit) (use ok h sub idle in \<open>simp_all add: world_ok_def ticket_key_def\<close>)
  with ok hs show ?thesis by (auto simp: world_ok_def ticket_key_def)
qed

lemma turn_exit_ok:
  assumes ok: "world_ok w" and a: "a \<in> set (lw_turns w)" and how: "how \<noteq> Exit_Ticket"
  shows "\<exists>l. exit_turn (ta_conversation a) (ta_epoch a) how (lw_ledger w) = Some l
    \<and> world_ok (w\<lparr>lw_ledger := l, lw_turns := remove1 a (lw_turns w)\<rparr>)"
proof -
  let ?c = "ta_conversation a"
  have h: "turn_key a \<in># holders w" using a by (auto simp: holders_def running_def)
  have hs: "holders (w\<lparr>lw_ledger := l, lw_turns := remove1 a (lw_turns w)\<rparr>) = holders w - {#turn_key a#}"
    "running (w\<lparr>lw_ledger := l, lw_turns := remove1 a (lw_turns w)\<rparr>) = running w - {#turn_key a#}"
    "turn_count (w\<lparr>lw_ledger := l, lw_turns := remove1 a (lw_turns w)\<rparr>) = (turn_count w)(?c := turn_count w ?c - 1)" for l
    using a by (auto simp: holders_def running_def turn_count_def [abs_def] image_mset_Diff filter_remove1_length fun_eq_iff)
  have r: "running w - {#turn_key a#} \<subseteq># holders w - {#turn_key a#}"
    unfolding hs [of undefined, symmetric] by (simp add: holders_def)
  have pos: "0 < turn_count w ?c"
    unfolding turn_count_def using in_filter_length [OF a, of "\<lambda>b. ta_conversation b = ?c", OF refl] .
  have idle: "turn_count w ?c - 1 = 0" if "epochs_held (holders w) ?c = {#ta_epoch a#}"
    using arg_cong [OF that, of size] size_epochs_held [of w ?c] by simp
  have "\<exists>l'. exit_turn ?c (ta_epoch a) how (lw_ledger w) = Some l'
      \<and> ledger_ok l' (holders w - {#(?c, ta_epoch a, ta_channels a)#}) (running w - {#turn_key a#})
          ((turn_count w)(?c := turn_count w ?c - 1))
      \<and> (no_idle_entry (lw_ledger w) (holders w)
          \<longrightarrow> no_idle_entry l' (holders w - {#(?c, ta_epoch a, ta_channels a)#}))"
    by (rule ledger_ok_exit [where r = "running w" and t = "turn_count w"])
      (use ok h r idle how pos in \<open>auto simp: world_ok_def turn_key_def dest: in_diffD\<close>)
  with ok hs show ?thesis by (auto simp: world_ok_def turn_key_def)
qed

lemma world_ok_step: "ledger_step w w' \<Longrightarrow> world_ok w \<Longrightarrow> world_ok w'"
proof (induction rule: ledger_step.induct)
  case (arrives c now w t l)
  from ledger_ok_arrive [of "lw_ledger w" "holders w" "running w" "turn_count w", OF _ arrives(1)] arrives(2)
  have a: "ledger_ok l (add_mset (c, tt_epoch t, tt_channels t) (holders w)) (running w) (turn_count w)" "tt_conversation t = c"
    by (auto simp: world_ok_def)
  have "no_idle_entry l (add_mset (c, tt_epoch t, tt_channels t) (holders w))"
    using arrives by (auto simp: world_ok_def no_idle_entry_def arrive_def turns_new_def Let_def split: if_splits)
  with a show ?case
    by (simp add: world_ok_def holders_def running_def turn_count_def [abs_def] ticket_key_def)
next
  case (wait_ends t w)
  let ?w = "w\<lparr>lw_waiting := remove1 t (lw_waiting w), lw_entitled := lw_entitled w @ [t]\<rparr>"
  have h: "holders ?w = holders w" using wait_ends(1)
    by (simp add: holders_def running_def image_mset_Diff)
  have r: "running ?w = add_mset (ticket_key t) (running w)" by (simp add: running_def)
  have "add_mset (ticket_key t) (running w) \<subseteq># holders w" unfolding r [symmetric] h [symmetric] by (simp add: holders_def)
  with wait_ends(2,3) h r show ?case
    by (auto simp: world_ok_def is_served_def ticket_key_def turn_count_def [abs_def] intro: ledger_ok_run)
next
  case (admits t w window a l)
  let ?w = "w\<lparr>lw_ledger := l, lw_entitled := remove1 t (lw_entitled w), lw_turns := lw_turns w @ [a]\<rparr>"
  have "ticket_key t \<in># holders w" using admits(1) by (auto simp: holders_def running_def)
  with admits(2,3) ledger_ok_take_slot [of "lw_ledger w" "holders w" "running w" "turn_count w" window t a l "tt_epoch t" "tt_channels t"]
  have l: "ledger_ok l (holders w) (running w) ((turn_count w)(tt_conversation t := turn_count w (tt_conversation t) + 1))"
    "turn_key a = ticket_key t" by (auto simp: world_ok_def ticket_key_def turn_key_def)
  have r: "running ?w = running w" using admits(1) l(2) by (simp add: running_def image_mset_Diff)
  have h: "holders ?w = holders w" using r by (simp add: holders_def)
  have t: "turn_count ?w = (turn_count w)(tt_conversation t := turn_count w (tt_conversation t) + 1)"
    using l(2) by (auto simp: turn_count_def fun_eq_iff turn_key_def ticket_key_def)
  have "no_idle_entry l (holders w)"
    using admits(2,3) by (auto simp: world_ok_def no_idle_entry_def take_slot_def Let_def split: option.splits if_splits)
  with l r h t show ?case by (simp add: world_ok_def)
next
  case (marked a w)
  let ?w = "w\<lparr>lw_turns := remove1 a (lw_turns w) @ [mark_superseded a]\<rparr>"
  have k: "turn_key (mark_superseded a) = turn_key a" by (simp add: turn_key_def mark_superseded_def)
  have r: "running ?w = running w" using marked(1) k by (simp add: running_def image_mset_Diff)
  have "ta_conversation (mark_superseded a) = ta_conversation a" by (simp add: mark_superseded_def)
  then have t: "turn_count ?w = turn_count w"
    using marked(1) in_filter_length [OF marked(1)] by (auto simp: turn_count_def fun_eq_iff filter_remove1_length)
  show ?case using marked(2) r t by (simp add: world_ok_def holders_def)
next
  case (ticket_dropped t w l)
  with ticket_exit_ok [of w t] show ?case by auto
next
  case (turn_exits a w l)
  with turn_exit_ok [of w a "Exit_Admission (ta_superseded a)"] show ?case by auto
qed

lemma reachable_world_ok: "ledger_step\<^sup>*\<^sup>* world_new w \<Longrightarrow> world_ok w"
  by (induction rule: rtranclp_induct) (auto intro: world_ok_new world_ok_step)

section \<open>Properties\<close>

lemma world_ok_turn:
  assumes "world_ok w" "a \<in> set (lw_turns w)"
  shows "\<exists>e. tl_conversations (lw_ledger w) (ta_conversation a) = Some e \<and> ta_channels a = ct_channels e
    \<and> ta_epoch a = tl_serving (lw_ledger w) (ct_channels e)
    \<and> entry_ok (lw_ledger w) e (epochs_held (holders w) (ta_conversation a))
    \<and> ta_epoch a \<in># epochs_held (holders w) (ta_conversation a) \<and> admitted e = turn_count w (ta_conversation a)"
proof -
  have r: "turn_key a \<in># running w" "turn_key a \<in># holders w" using assms(2) by (auto simp: running_def holders_def)
  have ok: "ledger_ok (lw_ledger w) (holders w) (running w) (turn_count w)" using assms(1) by (simp add: world_ok_def)
  from ledger_ok_holder [OF ok r(2) [unfolded turn_key_def]] obtain e where
    e: "tl_conversations (lw_ledger w) (ta_conversation a) = Some e" "ta_channels a = ct_channels e" by blast
  with ledger_ok_entry [OF ok e(1)] ledger_ok_running [OF ok r(1) [unfolded turn_key_def]]
    epochs_held_mem [OF r(2) [unfolded turn_key_def]] show ?thesis by auto
qed

lemma world_ok_ticket:
  assumes "world_ok w" "t \<in> set (lw_waiting w @ lw_entitled w)"
  shows "\<exists>e. tl_conversations (lw_ledger w) (tt_conversation t) = Some e \<and> tt_channels t = ct_channels e
    \<and> entry_ok (lw_ledger w) e (epochs_held (holders w) (tt_conversation t))
    \<and> tt_epoch t \<in># epochs_held (holders w) (tt_conversation t)"
proof -
  have h: "ticket_key t \<in># holders w" using assms(2) by (auto simp: running_def holders_def)
  have ok: "ledger_ok (lw_ledger w) (holders w) (running w) (turn_count w)" using assms(1) by (simp add: world_ok_def)
  from ledger_ok_holder [OF ok h [unfolded ticket_key_def]] obtain e where
    e: "tl_conversations (lw_ledger w) (tt_conversation t) = Some e" "tt_channels t = ct_channels e" by blast
  with ledger_ok_entry [OF ok e(1)] epochs_held_mem [OF h [unfolded ticket_key_def]] show ?thesis by auto
qed

lemma count_epochs_held_turns:
  "length (filter (\<lambda>a. ta_conversation a = c \<and> ta_epoch a = n) (lw_turns w))
     + length (filter (\<lambda>t. tt_conversation t = c \<and> tt_epoch t = n) (lw_waiting w @ lw_entitled w))
   \<le> count (epochs_held (holders w) c) n"
proof -
  have t: "count (epochs_held (mset (map ticket_key ts)) c) n = length (filter (\<lambda>t. tt_conversation t = c \<and> tt_epoch t = n) ts)" for ts
    by (induction ts) (auto simp: epochs_held_def ticket_key_def)
  have a: "count (epochs_held (mset (map turn_key as)) c) n = length (filter (\<lambda>a. ta_conversation a = c \<and> ta_epoch a = n) as)" for as
    by (induction as) (auto simp: epochs_held_def turn_key_def)
  show ?thesis by (simp add: holders_def running_def epochs_held_plus t a del: mset_map)
qed

text \<open>
  C15: however the batches of the rooms arrive, wait, are abandoned and finish, a conversation runs at most one turn at a
  time, and that turn belongs to the oldest batch still waiting or running; the sweep's question whether a turn is in flight is
  answered truly.
\<close>

theorem turns_serialize:
  assumes "ledger_step\<^sup>*\<^sup>* world_new w"
  shows "length (filter (\<lambda>a. ta_conversation a = c) (lw_turns w)) \<le> 1
    \<and> has_admitted_turn c (lw_ledger w) = list_ex (\<lambda>a. ta_conversation a = c) (lw_turns w)
    \<and> list_all (\<lambda>a. list_all (\<lambda>t. tt_conversation t \<noteq> ta_conversation a \<or> ta_epoch a < tt_epoch t)
          (lw_waiting w @ lw_entitled w)) (lw_turns w)"
proof (intro conjI)
  have ok: "world_ok w" using assms by (rule reachable_world_ok)
  show one: "length (filter (\<lambda>a. ta_conversation a = c) (lw_turns w)) \<le> 1"
  proof (cases "filter (\<lambda>a. ta_conversation a = c) (lw_turns w)")
    case (Cons a as)
    then have "a \<in> set (lw_turns w)" "ta_conversation a = c" by (auto simp: filter_eq_Cons_iff)
    with world_ok_turn [OF ok this(1)] obtain e where e: "tl_conversations (lw_ledger w) c = Some e"
      "entry_ok (lw_ledger w) e (epochs_held (holders w) c)" by auto
    have "ta_conversation b = c \<longleftrightarrow> ta_conversation b = c \<and> ta_epoch b = tl_serving (lw_ledger w) (ct_channels e)"
      if "b \<in> set (lw_turns w)" for b using world_ok_turn [OF ok that] e(1) by auto
    then have "filter (\<lambda>a. ta_conversation a = c) (lw_turns w)
        = filter (\<lambda>a. ta_conversation a = c \<and> ta_epoch a = tl_serving (lw_ledger w) (ct_channels e)) (lw_turns w)"
      by (rule filter_cong [OF refl])
    note l = arg_cong [OF this, of length]
    show ?thesis
      using count_epochs_held_turns [of c "tl_serving (lw_ledger w) (ct_channels e)" w]
        entry_ok_served(3) [OF e(2), of "tl_serving (lw_ledger w) (ct_channels e)"] l by linarith
  qed simp
  show "has_admitted_turn c (lw_ledger w) = list_ex (\<lambda>a. ta_conversation a = c) (lw_turns w)"
  proof (cases "tl_conversations (lw_ledger w) c")
    case None
    have "ta_conversation a \<noteq> c" if "a \<in> set (lw_turns w)" for a using world_ok_turn [OF ok that] None by auto
    with None show ?thesis by (auto simp: has_admitted_turn_def list_ex_iff)
  next
    case (Some e)
    then have "admitted e = turn_count w c" using ok ledger_ok_entry by (auto simp: world_ok_def)
    with Some show ?thesis by (auto simp: has_admitted_turn_def turn_count_def list_ex_iff filter_empty_conv)
  qed
  show "list_all (\<lambda>a. list_all (\<lambda>t. tt_conversation t \<noteq> ta_conversation a \<or> ta_epoch a < tt_epoch t)
      (lw_waiting w @ lw_entitled w)) (lw_turns w)"
  proof (unfold list_all_iff, intro ballI)
    fix a t assume a: "a \<in> set (lw_turns w)" and t: "t \<in> set (lw_waiting w @ lw_entitled w)"
    show "tt_conversation t \<noteq> ta_conversation a \<or> ta_epoch a < tt_epoch t"
    proof (rule disjCI)
      assume "\<not> ta_epoch a < tt_epoch t"
      then have le: "tt_epoch t \<le> ta_epoch a" by simp
      show "tt_conversation t \<noteq> ta_conversation a"
      proof
        assume c: "tt_conversation t = ta_conversation a"
        from world_ok_turn [OF ok a] obtain e where e: "ta_epoch a = tl_serving (lw_ledger w) (ct_channels e)"
          "entry_ok (lw_ledger w) e (epochs_held (holders w) (ta_conversation a))" by blast
        from world_ok_ticket [OF ok t] c have "tt_epoch t \<in># epochs_held (holders w) (ta_conversation a)" by auto
        with entry_ok_served(2) [OF e(2)] e(1) le have eq: "tt_epoch t = ta_epoch a" by force
        have "1 \<le> length (filter (\<lambda>b. ta_conversation b = ta_conversation a \<and> ta_epoch b = ta_epoch a) (lw_turns w))"
          by (rule in_filter_length1 [OF a]) simp
        moreover have "1 \<le> length (filter (\<lambda>s. tt_conversation s = ta_conversation a \<and> tt_epoch s = ta_epoch a) (lw_waiting w @ lw_entitled w))"
          by (rule in_filter_length1 [OF t]) (simp add: c eq)
        ultimately show False
          using count_epochs_held_turns [of "ta_conversation a" "ta_epoch a" w] entry_ok_served(3) [OF e(2), of "ta_epoch a"]
          by linarith
      qed
    qed
  qed
qed

text \<open>
  C18: the line never stalls. No exit underflows a count, and while a batch waits for a conversation's slot, either a turn of the
  conversation is running, or a batch no younger is past its wait or is free to end it.
\<close>

theorem line_never_stalls:
  assumes "ledger_step\<^sup>*\<^sup>* world_new w" "t \<in> set (lw_waiting w)"
  shows "exit_turn (tt_conversation t) (tt_epoch t) Exit_Ticket (lw_ledger w) \<noteq> None
    \<and> ((\<exists>a \<in> set (lw_turns w). ta_conversation a = tt_conversation t
           \<and> exit_turn (ta_conversation a) (ta_epoch a) (Exit_Admission (ta_superseded a)) (lw_ledger w) \<noteq> None)
       \<or> (\<exists>s \<in> set (lw_entitled w). tt_conversation s = tt_conversation t \<and> tt_epoch s \<le> tt_epoch t)
       \<or> (\<exists>s \<in> set (lw_waiting w). tt_conversation s = tt_conversation t \<and> tt_epoch s \<le> tt_epoch t \<and> is_served s (lw_ledger w)))"
proof
  have ok: "world_ok w" using assms(1) by (rule reachable_world_ok)
  show "exit_turn (tt_conversation t) (tt_epoch t) Exit_Ticket (lw_ledger w) \<noteq> None"
    using ticket_exit_ok [OF ok assms(2)] by auto
  let ?c = "tt_conversation t"
  from world_ok_ticket [OF ok, of t] assms(2) obtain e where e: "tl_conversations (lw_ledger w) ?c = Some e"
    "entry_ok (lw_ledger w) e (epochs_held (holders w) ?c)" "tt_epoch t \<in># epochs_held (holders w) ?c" by auto
  let ?s = "tl_serving (lw_ledger w) (ct_channels e)"
  from e(3) have "epochs_held (holders w) ?c \<noteq> {#}" by auto
  from entry_ok_served(1) [OF e(2) this] obtain ch where h: "(?c, ?s, ch) \<in># holders w" using epochs_held_memD by blast
  have ch: "ch = ct_channels e" using ledger_ok_channel [OF _ e(1) h] ok by (auto simp: world_ok_def)
  have le: "?s \<le> tt_epoch t" using entry_ok_served(2) [OF e(2,3)] .
  from h consider (turn) a where "a \<in> set (lw_turns w)" "ta_conversation a = ?c"
    | (entitled) s where "s \<in> set (lw_entitled w)" "ticket_key s = (?c, ?s, ch)"
    | (waiting) s where "s \<in> set (lw_waiting w)" "ticket_key s = (?c, ?s, ch)"
    by (auto simp: holders_def running_def turn_key_def)
  then show "(\<exists>a \<in> set (lw_turns w). ta_conversation a = ?c
           \<and> exit_turn (ta_conversation a) (ta_epoch a) (Exit_Admission (ta_superseded a)) (lw_ledger w) \<noteq> None)
       \<or> (\<exists>s \<in> set (lw_entitled w). tt_conversation s = ?c \<and> tt_epoch s \<le> tt_epoch t)
       \<or> (\<exists>s \<in> set (lw_waiting w). tt_conversation s = ?c \<and> tt_epoch s \<le> tt_epoch t \<and> is_served s (lw_ledger w))"
  proof cases
    case turn
    with turn_exit_ok [OF ok turn(1), of "Exit_Admission (ta_superseded a)"] show ?thesis by auto
  next
    case entitled
    with le show ?thesis by (auto simp: ticket_key_def)
  next
    case waiting
    with le ch show ?thesis by (auto simp: ticket_key_def is_served_def)
  qed
qed

text \<open>
  a running turn is told that it is superseded exactly when its window is open and a later batch of its conversation
  has arrived, whichever batches in between are waiting or gone.
\<close>

theorem superseded_by_later_batch:
  assumes "ledger_step\<^sup>*\<^sup>* world_new w" "a \<in> set (lw_turns w)"
    and "tl_conversations (lw_ledger w) (ta_conversation a) = Some e"
  shows "fst (superseded now (lw_ledger w) (supersession_of a))
    \<longleftrightarrow> ta_window a \<noteq> 0 \<and> saturate64 (now - ta_burst_started_at a) \<le> wrap64 (ta_window a)
        \<and> ta_epoch a + 1 < next_epoch e"
proof -
  have ok: "world_ok w" using assms(1) by (rule reachable_world_ok)
  from world_ok_turn [OF ok assms(2)] assms(3) have e: "ta_channels a = ct_channels e"
    "entry_ok (lw_ledger w) e (epochs_held (holders w) (ta_conversation a))"
    "ta_epoch a \<in># epochs_held (holders w) (ta_conversation a)" by auto
  then have "epochs_held (holders w) (ta_conversation a) \<noteq> {#}" by auto
  then have "next_epoch e = tl_supersede (lw_ledger w) (ct_channels e) + 1"
    using e(2) unfolding entry_ok_def Let_def by blast
  then show ?thesis by (auto simp: superseded_def supersession_of_def e(1))
qed

section \<open>Concrete runs\<close>

text \<open>A move of the holder at an index, as a function.\<close>

datatype holder_move =
    Move_Arrive conversation_id timestamp
  | Move_Wait_Ends nat
  | Move_Admit nat int  \<comment> \<open>the index, the window\<close>
  | Move_Drop nat
  | Move_Exit nat

fun ledger_move :: "holder_move \<Rightarrow> ledger_world \<Rightarrow> ledger_world option" where
  "ledger_move (Move_Arrive c now) w =
     (case arrive c now (lw_ledger w) of (t, l) \<Rightarrow> Some (w\<lparr>lw_ledger := l, lw_waiting := lw_waiting w @ [t]\<rparr>))"
| "ledger_move (Move_Wait_Ends i) w =
     (let t = lw_waiting w ! i
      in if i < length (lw_waiting w) \<and> is_served t (lw_ledger w)
         then Some (w\<lparr>lw_waiting := remove1 t (lw_waiting w), lw_entitled := lw_entitled w @ [t]\<rparr>) else None)"
| "ledger_move (Move_Admit i window) w =
     (let t = lw_entitled w ! i
      in if i < length (lw_entitled w)
         then (case take_slot window t (lw_ledger w) of (a, l) \<Rightarrow>
           Some (w\<lparr>lw_ledger := l, lw_entitled := remove1 t (lw_entitled w), lw_turns := lw_turns w @ [a]\<rparr>))
         else None)"
| "ledger_move (Move_Drop i) w =
     (let t = lw_waiting w ! i
      in if i < length (lw_waiting w)
         then map_option (\<lambda>l. w\<lparr>lw_ledger := l, lw_waiting := remove1 t (lw_waiting w)\<rparr>)
                (exit_turn (tt_conversation t) (tt_epoch t) Exit_Ticket (lw_ledger w))
         else None)"
| "ledger_move (Move_Exit i) w =
     (let a = lw_turns w ! i
      in if i < length (lw_turns w)
         then map_option (\<lambda>l. w\<lparr>lw_ledger := l, lw_turns := remove1 a (lw_turns w)\<rparr>)
                (exit_turn (ta_conversation a) (ta_epoch a) (Exit_Admission (ta_superseded a)) (lw_ledger w))
         else None)"

fun ledger_moves :: "holder_move list \<Rightarrow> ledger_world \<Rightarrow> ledger_world option" where
  "ledger_moves [] w = Some w"
| "ledger_moves (m # ms) w = (case ledger_move m w of None \<Rightarrow> None | Some w' \<Rightarrow> ledger_moves ms w')"

lemma ledger_move_step: "ledger_move m w = Some w' \<Longrightarrow> ledger_step w w'"
  by (cases m) (auto simp: Let_def split: prod.splits if_splits intro: ledger_step.intros)

lemma ledger_moves_steps: "ledger_moves ms w = Some w' \<Longrightarrow> ledger_step\<^sup>*\<^sup>* w w'"
proof (induction ms arbitrary: w)
  case (Cons m ms)
  then obtain v where "ledger_move m w = Some v" "ledger_moves ms v = Some w'" by (auto split: option.splits)
  with Cons.IH [of v] show ?case by (meson converse_rtranclp_into_rtranclp ledger_move_step)
qed simp

text \<open>
  Three batches arrive a second apart; the first runs, the connection of the third is dropped, a fourth arrives a minute
  later, the first turn completes and the second is admitted with a window of one minute.
\<close>

definition dropped_ahead :: "ledger_world option" where
  "dropped_ahead = ledger_moves
     [Move_Arrive (ConversationId 1) 0, Move_Arrive (ConversationId 1) 1000, Move_Arrive (ConversationId 1) 2000,
      Move_Wait_Ends 0, Move_Admit 0 60000, Move_Drop 1, Move_Arrive (ConversationId 1) 60000, Move_Exit 0,
      Move_Wait_Ends 0, Move_Admit 0 60000] world_new"

definition second_turn :: "ledger_world \<Rightarrow> turn_admission" where
  "second_turn w = hd (lw_turns w)"

text \<open>
  the arrival of a batch is said to be outstanding until the batch exits, and to anchor the window in which its turn may be
  superseded. But a batch that is dropped while it waits removes the arrivals of the batches before it: here the second batch, which
  arrived at one second, runs with the arrival of the fourth as its origin, and is superseded long after its window of a
  minute has passed.
\<close>

theorem dropped_batch_moves_anchor:
  "\<exists>w. ledger_step\<^sup>*\<^sup>* world_new w
     \<and> map (\<lambda>a. (ta_epoch a, ta_burst_started_at a, ta_window a)) (lw_turns w) = [(1, 60000, 60000)]
     \<and> fst (superseded 120000 (lw_ledger w) (supersession_of (second_turn w)))"
proof -
  have "case dropped_ahead of
      Some w \<Rightarrow> map (\<lambda>a. (ta_epoch a, ta_burst_started_at a, ta_window a)) (lw_turns w) = [(1, 60000, 60000)]
        \<and> fst (superseded 120000 (lw_ledger w) (supersession_of (second_turn w)))
    | None \<Rightarrow> False" by code_simp
  from case_SomeE [OF this] obtain w where w: "dropped_ahead = Some w"
    "map (\<lambda>a. (ta_epoch a, ta_burst_started_at a, ta_window a)) (lw_turns w) = [(1, 60000, 60000)]"
    "fst (superseded 120000 (lw_ledger w) (supersession_of (second_turn w)))"
    by (elim exE conjE)
  show ?thesis
    by (intro exI [of _ w] conjI) (fact ledger_moves_steps [OF w(1) [unfolded dropped_ahead_def]] w(2,3))+
qed

definition two_waiting :: "ledger_world option" where
  "two_waiting = ledger_moves
     [Move_Arrive (ConversationId 1) 0, Move_Arrive (ConversationId 1) 1000, Move_Wait_Ends 0, Move_Admit 0 60000] world_new"

lemma two_waiting_runs:
  "\<exists>w. ledger_step\<^sup>*\<^sup>* world_new w \<and> map ta_epoch (lw_turns w) = [0] \<and> map tt_epoch (lw_waiting w) = [1]
    \<and> map ta_conversation (lw_turns w) = [ConversationId 1]
    \<and> map_option next_epoch (tl_conversations (lw_ledger w) (ConversationId 1)) = Some 2"
proof -
  have "case two_waiting of
      Some w \<Rightarrow> map ta_epoch (lw_turns w) = [0] \<and> map tt_epoch (lw_waiting w) = [1]
        \<and> map ta_conversation (lw_turns w) = [ConversationId 1]
        \<and> map_option next_epoch (tl_conversations (lw_ledger w) (ConversationId 1)) = Some 2
    | None \<Rightarrow> False" by code_simp
  from case_SomeE [OF this] obtain w where w: "two_waiting = Some w"
    "map ta_epoch (lw_turns w) = [0]" "map tt_epoch (lw_waiting w) = [1]"
    "map ta_conversation (lw_turns w) = [ConversationId 1]"
    "map_option next_epoch (tl_conversations (lw_ledger w) (ConversationId 1)) = Some 2"
    by (elim exE conjE)
  show ?thesis
    by (intro exI [of _ w] conjI) (fact ledger_moves_steps [OF w(1) [unfolded two_waiting_def]] w(2-))+
qed

lemma map_singleton: "map f xs = [y] \<Longrightarrow> \<exists>x. xs = [x] \<and> f x = y"
  by (cases xs) auto

theorem turns_serialize_witness:
  "\<exists>w. ledger_step\<^sup>*\<^sup>* world_new w \<and> length (lw_turns w) = 1 \<and> length (lw_waiting w) = 1
    \<and> has_admitted_turn (ConversationId 1) (lw_ledger w)"
proof -
  obtain w where w: "ledger_step\<^sup>*\<^sup>* world_new w" "map ta_epoch (lw_turns w) = [0]"
    "map tt_epoch (lw_waiting w) = [1]" "map ta_conversation (lw_turns w) = [ConversationId 1]"
    using two_waiting_runs by (elim exE conjE) (rule that)
  from map_singleton [OF w(4)] obtain a where a: "lw_turns w = [a]" "ta_conversation a = ConversationId 1" by blast
  have "length (lw_waiting w) = 1" using arg_cong [OF w(3), of length] by simp
  with turns_serialize [OF w(1), of "ConversationId 1"] w(1) a show ?thesis by (intro exI [of _ w]) simp
qed

theorem line_never_stalls_witness:
  "\<exists>w. ledger_step\<^sup>*\<^sup>* world_new w \<and> (\<exists>t \<in> set (lw_waiting w).
     exit_turn (tt_conversation t) (tt_epoch t) Exit_Ticket (lw_ledger w) \<noteq> None)"
proof -
  obtain w where w: "ledger_step\<^sup>*\<^sup>* world_new w" "map tt_epoch (lw_waiting w) = [1]"
    using two_waiting_runs by (elim exE conjE) (rule that)
  from map_singleton [OF w(2)] obtain t where "lw_waiting w = [t]" by blast
  then have t: "t \<in> set (lw_waiting w)" by simp
  from line_never_stalls [OF w(1) t] w(1) t show ?thesis by blast
qed

theorem superseded_by_later_batch_witness:
  "\<exists>w a. ledger_step\<^sup>*\<^sup>* world_new w \<and> a \<in> set (lw_turns w)
     \<and> (fst (superseded 2000 (lw_ledger w) (supersession_of a))
        \<longleftrightarrow> ta_window a \<noteq> 0 \<and> saturate64 (2000 - ta_burst_started_at a) \<le> wrap64 (ta_window a))"
proof -
  obtain w where w: "ledger_step\<^sup>*\<^sup>* world_new w" "map ta_epoch (lw_turns w) = [0]"
    "map ta_conversation (lw_turns w) = [ConversationId 1]"
    "map_option next_epoch (tl_conversations (lw_ledger w) (ConversationId 1)) = Some 2"
    using two_waiting_runs by (elim exE conjE) (rule that)
  from map_singleton [OF w(2)] obtain a where turns: "lw_turns w = [a]" "ta_epoch a = 0" by blast
  from w(4) obtain e where e: "tl_conversations (lw_ledger w) (ConversationId 1) = Some e" "next_epoch e = 2" by auto
  have c: "ta_conversation a = ConversationId 1" using w(3) turns(1) by simp
  have a: "a \<in> set (lw_turns w)" using turns(1) by simp
  have "ta_epoch a + 1 < next_epoch e" using turns(2) e(2) by simp
  with superseded_by_later_batch [OF w(1) a e(1) [folded c], of 2000] w(1) a show ?thesis
    by (intro exI [of _ w] exI [of _ a]) simp
qed

end
