(* ===== verification/Model_Arbiter.thy ===== *)
theory Model_Arbiter
  imports Main "HOL-Library.Multiset"
begin

text \<open>
  The model arbiter, \<open>src/model/priority.rs\<close>: conversation turns and background passes share one model client, and a
  background call waits while a turn is at the model. The count is an atomic and the wake-up a \<open>tokio::sync::Notify\<close>, used
  without a lock, so every load, decrement and notification is a step of its own and the steps of the tasks
  interleave; the question is whether a notification can fall between a task's check and its sleep.
\<close>

section \<open>The arbiter and its tasks\<close>

text \<open>A turn's guard, from the count's increment to its drop; the drop that empties the count still has to notify.\<close>

datatype turn_guard = Guard_Held | Guard_Notifying | Guard_Dropped

text \<open>
  A background call inside \<open>yield_to_turns\<close>: at the test of the loop; about to register for the wake-up; registered, at the
  second test; asleep. The flag says whether the registration has been notified.
\<close>

datatype background_call =
    Call_Testing
  | Call_Registering
  | Call_Registered bool
  | Call_Asleep bool
  | Call_Dispatched

record arbiter =
  turns_pending :: nat
  turn_guards :: "turn_guard list"
  background_calls :: "background_call list"

definition arbiter_new :: arbiter where
  "arbiter_new = \<lparr>turns_pending = 0, turn_guards = [], background_calls = []\<rparr>"

text \<open>\<open>fetch_sub\<close> wraps.\<close>

definition fetch_sub :: "nat \<Rightarrow> nat" where
  "fetch_sub n = (if n = 0 then 2 ^ 64 - 1 else n - 1)"

definition enter_turn :: "arbiter \<Rightarrow> arbiter" where
  "enter_turn a = a\<lparr>turns_pending := turns_pending a + 1, turn_guards := turn_guards a @ [Guard_Held]\<rparr>"

text \<open>The two steps of the guard's \<open>drop\<close>.\<close>

definition drop_guard :: "nat \<Rightarrow> arbiter \<Rightarrow> arbiter" where
  "drop_guard i a =
     a\<lparr>turns_pending := fetch_sub (turns_pending a),
       turn_guards := (turn_guards a)[i := if turns_pending a = 1 then Guard_Notifying else Guard_Dropped]\<rparr>"

text \<open>\<open>notify_waiters\<close> reaches every call registered by now.\<close>

fun notified :: "background_call \<Rightarrow> background_call" where
  "notified (Call_Registered _) = Call_Registered True"
| "notified (Call_Asleep _) = Call_Asleep True"
| "notified c = c"

definition notify_waiters :: "nat \<Rightarrow> arbiter \<Rightarrow> arbiter" where
  "notify_waiters i a =
     a\<lparr>turn_guards := (turn_guards a)[i := Guard_Dropped], background_calls := map notified (background_calls a)\<rparr>"

text \<open>One step of \<open>yield_to_turns\<close>; \<open>None\<close> while the call sleeps.\<close>

fun yield_step :: "nat \<Rightarrow> background_call \<Rightarrow> background_call option" where
  "yield_step pending Call_Testing = Some (if 0 < pending then Call_Registering else Call_Dispatched)"
| "yield_step pending Call_Registering = Some (Call_Registered False)"
| "yield_step pending (Call_Registered woken) = Some (if pending = 0 then Call_Dispatched else Call_Asleep woken)"
| "yield_step pending (Call_Asleep woken) = (if woken then Some Call_Testing else None)"
| "yield_step pending Call_Dispatched = None"

definition set_call :: "nat \<Rightarrow> background_call \<Rightarrow> arbiter \<Rightarrow> arbiter" where
  "set_call i c a = a\<lparr>background_calls := (background_calls a)[i := c]\<rparr>"

inductive arbiter_step :: "arbiter \<Rightarrow> arbiter \<Rightarrow> bool" where
  turn_enters: "arbiter_step a (enter_turn a)"
| turn_leaves: "i < length (turn_guards a) \<Longrightarrow> turn_guards a ! i = Guard_Held \<Longrightarrow> arbiter_step a (drop_guard i a)"
| turn_notifies: "i < length (turn_guards a) \<Longrightarrow> turn_guards a ! i = Guard_Notifying \<Longrightarrow> arbiter_step a (notify_waiters i a)"
| call_enters: "arbiter_step a (a\<lparr>background_calls := background_calls a @ [Call_Testing]\<rparr>)"
| call_yields: "i < length (background_calls a) \<Longrightarrow> yield_step (turns_pending a) (background_calls a ! i) = Some c
    \<Longrightarrow> arbiter_step a (set_call i c a)"
| call_cancelled: "i < length (background_calls a)
    \<Longrightarrow> arbiter_step a (a\<lparr>background_calls := take i (background_calls a) @ drop (i + 1) (background_calls a)\<rparr>)"

section \<open>The invariant\<close>

definition arbiter_ok :: "arbiter \<Rightarrow> bool" where
  "arbiter_ok a \<longleftrightarrow>
     turns_pending a = count (mset (turn_guards a)) Guard_Held
     \<and> (Call_Asleep False \<in> set (background_calls a) \<longrightarrow>
          0 < turns_pending a \<or> Guard_Notifying \<in> set (turn_guards a))"

lemma notified_asleep: "notified c \<noteq> Call_Asleep False"
  by (cases c) auto

lemma arbiter_ok_step: "arbiter_step a b \<Longrightarrow> arbiter_ok a \<Longrightarrow> arbiter_ok b"
proof (induction rule: arbiter_step.induct)
  case (turn_leaves i a)
  let ?n = "count (mset (turn_guards a)) Guard_Held"
  have n: "0 < ?n" using turn_leaves(1,2) by (metis count_greater_zero_iff nth_mem set_mset_mset)
  have "count (mset ((turn_guards a)[i := g])) Guard_Held = ?n - 1" if "g \<noteq> Guard_Held" for g
    using turn_leaves(1,2) that by (simp add: mset_update)
  moreover have "Guard_Notifying \<in> set ((turn_guards a)[i := Guard_Notifying])" using turn_leaves(1) by (rule set_update_memI)
  moreover have "Guard_Notifying \<in> set ((turn_guards a)[i := Guard_Dropped])" if "Guard_Notifying \<in> set (turn_guards a)"
    using that turn_leaves(1,2) by (metis in_set_conv_nth length_list_update nth_list_update_neq turn_guard.distinct(1))
  moreover from n obtain m where "?n = Suc m" by (cases ?n) simp_all
  ultimately show ?case using turn_leaves(3) by (auto simp: arbiter_ok_def drop_guard_def fetch_sub_def)
next
  case (turn_notifies i a)
  then show ?case by (auto simp: arbiter_ok_def notify_waiters_def mset_update notified_asleep [symmetric])
next
  case (call_yields i a c)
  have "c = Call_Asleep False \<Longrightarrow> 0 < turns_pending a"
    using call_yields(2) by (cases "background_calls a ! i") (auto split: if_splits)
  with call_yields(1,3) show ?case
    by (auto simp: arbiter_ok_def set_call_def dest: subsetD [OF set_update_subset_insert])
next
  case (call_cancelled i a)
  then show ?case by (auto simp: arbiter_ok_def dest: in_set_takeD in_set_dropD)
qed (auto simp: arbiter_ok_def enter_turn_def)

lemma reachable_arbiter_ok: "arbiter_step\<^sup>*\<^sup>* arbiter_new a \<Longrightarrow> arbiter_ok a"
proof (induction rule: rtranclp_induct)
  case base
  show ?case by (simp add: arbiter_ok_def arbiter_new_def)
qed (rule arbiter_ok_step)

section \<open>Properties\<close>

lemma yield_reaches_dispatch:
  assumes "i < length (background_calls a)" "turns_pending a = 0" "background_calls a ! i \<noteq> Call_Asleep False"
  shows "arbiter_step\<^sup>*\<^sup>* a (set_call i Call_Dispatched a)"
proof -
  have step: "arbiter_step\<^sup>*\<^sup>* (set_call i c a) (set_call i Call_Dispatched a)"
    if "yield_step 0 c = Some Call_Dispatched" for c
    using arbiter_step.call_yields [of i "set_call i c a" Call_Dispatched] that assms(1,2)
    by (auto simp: set_call_def)
  have same: "set_call i (background_calls a ! i) a = a" by (simp add: set_call_def)
  show ?thesis
  proof (cases "background_calls a ! i")
    case Call_Testing
    with step [of Call_Testing] same show ?thesis by simp
  next
    case Call_Registering
    have "arbiter_step a (set_call i (Call_Registered False) a)"
      using assms(1,2) Call_Registering by (intro arbiter_step.call_yields) simp_all
    with step [of "Call_Registered False"] show ?thesis by (simp add: converse_rtranclp_into_rtranclp)
  next
    case (Call_Registered woken)
    with step [of "Call_Registered woken"] same show ?thesis by simp
  next
    case (Call_Asleep woken)
    with assms(3) have "arbiter_step a (set_call i Call_Testing a)"
      using assms(1,2) by (intro arbiter_step.call_yields) simp_all
    with step [of Call_Testing] show ?thesis by (simp add: converse_rtranclp_into_rtranclp)
  next
    case Call_Dispatched
    with same show ?thesis by (metis rtranclp.rtrancl_refl)
  qed
qed

text \<open>
  C27: no wake-up is lost. In whatever order loads, decrements and notifications fall, once the turns have left the model and
  the last of them has notified, every background call can go on by its own steps until it dispatches.
\<close>

theorem no_lost_wakeup:
  assumes "arbiter_step\<^sup>*\<^sup>* arbiter_new a" "i < length (background_calls a)"
    and "list_all (\<lambda>g. g = Guard_Dropped) (turn_guards a)"
  shows "arbiter_step\<^sup>*\<^sup>* a (set_call i Call_Dispatched a)"
proof -
  have ok: "arbiter_ok a" using assms(1) by (rule reachable_arbiter_ok)
  have "Guard_Held \<notin> set (turn_guards a)" "Guard_Notifying \<notin> set (turn_guards a)"
    using assms(3) by (auto simp: list_all_iff)
  with ok have "turns_pending a = 0" "Call_Asleep False \<notin> set (background_calls a)"
    by (auto simp: arbiter_ok_def count_eq_zero_iff)
  with assms(2) show ?thesis by (intro yield_reaches_dispatch) (auto dest: nth_mem)
qed

text \<open>
  C28: a background call yields to the turns: the step that lets it through is never taken while a turn holds its place at the model,
  and the count of pending turns is the number of guards alive.
\<close>

theorem background_yields_to_turns:
  assumes "arbiter_step\<^sup>*\<^sup>* arbiter_new a" "i < length (background_calls a)"
    and "yield_step (turns_pending a) (background_calls a ! i) = Some Call_Dispatched"
  shows "Guard_Held \<notin> set (turn_guards a) \<and> turns_pending a = 0"
proof -
  have "turns_pending a = 0"
    using assms(3) by (cases "background_calls a ! i") (auto split: if_splits)
  with reachable_arbiter_ok [OF assms(1)] show ?thesis by (auto simp: arbiter_ok_def count_eq_zero_iff)
qed

text \<open>A call tests, a turn enters, the call registers, tests again and sleeps, the turn leaves and notifies.\<close>

definition woken_arbiter :: arbiter where
  "woken_arbiter =
     \<lparr>turns_pending = 0, turn_guards = [Guard_Dropped], background_calls = [Call_Asleep True]\<rparr>"

lemma woken_reachable: "arbiter_step\<^sup>*\<^sup>* arbiter_new woken_arbiter"
proof -
  let ?a = "\<lambda>n g c. \<lparr>turns_pending = n, turn_guards = g, background_calls = c\<rparr>"
  have "arbiter_step arbiter_new (?a 0 [] [Call_Testing])"
    using call_enters [of arbiter_new] by (simp add: arbiter_new_def)
  moreover have "arbiter_step (?a 0 [] [Call_Testing]) (?a 1 [Guard_Held] [Call_Testing])"
    using turn_enters [of "?a 0 [] [Call_Testing]"] by (simp add: enter_turn_def)
  moreover have "arbiter_step (?a 1 [Guard_Held] [Call_Testing]) (?a 1 [Guard_Held] [Call_Registering])"
    using call_yields [of 0 "?a 1 [Guard_Held] [Call_Testing]"] by (simp add: set_call_def)
  moreover have "arbiter_step (?a 1 [Guard_Held] [Call_Registering]) (?a 1 [Guard_Held] [Call_Registered False])"
    using call_yields [of 0 "?a 1 [Guard_Held] [Call_Registering]"] by (simp add: set_call_def)
  moreover have "arbiter_step (?a 1 [Guard_Held] [Call_Registered False]) (?a 1 [Guard_Held] [Call_Asleep False])"
    using call_yields [of 0 "?a 1 [Guard_Held] [Call_Registered False]"] by (simp add: set_call_def)
  moreover have "arbiter_step (?a 1 [Guard_Held] [Call_Asleep False]) (?a 0 [Guard_Notifying] [Call_Asleep False])"
    using turn_leaves [of 0 "?a 1 [Guard_Held] [Call_Asleep False]"] by (simp add: drop_guard_def fetch_sub_def)
  moreover have "arbiter_step (?a 0 [Guard_Notifying] [Call_Asleep False]) woken_arbiter"
    using turn_notifies [of 0 "?a 0 [Guard_Notifying] [Call_Asleep False]"] by (simp add: notify_waiters_def woken_arbiter_def)
  ultimately show ?thesis by (meson converse_rtranclp_into_rtranclp r_into_rtranclp)
qed

theorem no_lost_wakeup_witness: "arbiter_step\<^sup>*\<^sup>* woken_arbiter (set_call 0 Call_Dispatched woken_arbiter)"
  by (rule no_lost_wakeup [OF woken_reachable]) (simp_all add: woken_arbiter_def)

theorem background_yields_to_turns_witness:
  "\<exists>a. arbiter_step\<^sup>*\<^sup>* arbiter_new a \<and> background_calls a = [Call_Testing] \<and> turns_pending a = 0"
proof -
  let ?a = "set_call 0 Call_Testing woken_arbiter"
  have "arbiter_step woken_arbiter ?a" by (rule call_yields) (simp_all add: woken_arbiter_def)
  with woken_reachable have r: "arbiter_step\<^sup>*\<^sup>* arbiter_new ?a" by (rule rtranclp.rtrancl_into_rtrancl)
  have c: "background_calls ?a = [Call_Testing]" by (simp add: set_call_def woken_arbiter_def)
  have "yield_step (turns_pending ?a) (background_calls ?a ! 0) = Some Call_Dispatched"
    by (simp add: set_call_def woken_arbiter_def)
  from background_yields_to_turns [OF r _ this] c r show ?thesis by auto
qed

end
