(* ===== verification/Model_Retry.thy ===== *)
theory Model_Retry
  imports Prelude
begin

text \<open>
  The transport decorator of the model client, \<open>src/model/retry/mod.rs\<close>: the circuit breaker shared by every call, the probe
  that decides whether to close it, and the stream that discards and restarts an attempt that failed
  transiently. The response is opaque here and a type variable.

  Every method of the breaker runs under its lock. A call's stream is advanced by its consumer one backend item at a time and may
  be dropped between two of them; the calls interleave, and \<open>retry_step\<close> is one move. An \<open>Instant\<close> is a number of nanoseconds
  that never decreases, a duration is in milliseconds where the configuration has it so.
\<close>

section \<open>Errors and items\<close>

datatype model_error =
    ModelError_Backend string string bool  \<comment> \<open>model, message, transient\<close>
  | ModelError_CircuitOpen string
  | ModelError_Exhausted

fun is_transient :: "model_error \<Rightarrow> bool" where
  "is_transient (ModelError_Backend _ _ transient) = transient"
| "is_transient _ = False"

definition is_unavailable :: "model_error \<Rightarrow> bool" where
  "is_unavailable e \<longleftrightarrow> is_transient e \<or> (case e of ModelError_CircuitOpen _ \<Rightarrow> True | _ \<Rightarrow> False)"

fun model_error_text :: "model_error \<Rightarrow> string" where
  "model_error_text (ModelError_Backend model message _) =
     (if model = [] then ''model: '' @ message else ''model: '' @ model @ '': '' @ message)"
| "model_error_text (ModelError_CircuitOpen model) =
     ''model: '' @ model @ '': the circuit is open after repeated backend failures; failing fast without calling the backend''"
| "model_error_text ModelError_Exhausted = ''model: the scripted model has no more programmed responses''"

datatype 'r generate_delta =
    GenerateDelta_Reasoning string
  | GenerateDelta_Reply string
  | GenerateDelta_Restarted nat string
  | GenerateDelta_Finished 'r

type_synonym 'r item = "(model_error, 'r generate_delta) result"

section \<open>The breaker\<close>

record resilience_config =
  max_attempts :: nat
  backoff_base_ms :: int
  backoff_max_ms :: int
  breaker_failure_threshold :: int
  breaker_open_seconds :: int

datatype circuit_state = Circuit_Closed | Circuit_HalfOpen | Circuit_Open

datatype breaker_state = State_Closed | State_Open int | State_HalfOpen

fun state_view :: "breaker_state \<Rightarrow> circuit_state" where
  "state_view State_Closed = Circuit_Closed"
| "state_view (State_Open _) = Circuit_Open"
| "state_view State_HalfOpen = Circuit_HalfOpen"

record breaker =
  br_state :: breaker_state
  consecutive_failures :: int
  last_failure :: "string option"

definition breaker_new :: breaker where
  "breaker_new = \<lparr>br_state = State_Closed, consecutive_failures = 0, last_failure = None\<rparr>"

definition failure_threshold :: "resilience_config \<Rightarrow> int" where
  "failure_threshold cfg = max (breaker_failure_threshold cfg) 1"

definition NANOS_PER_SECOND :: int where "NANOS_PER_SECOND = 1000000000"

text \<open>\<open>elapsed\<close> saturates at zero.\<close>

definition elapsed :: "int \<Rightarrow> int \<Rightarrow> int" where
  "elapsed since now = max 0 (now - since)"

record backend_health =
  bh_circuit :: circuit_state
  bh_consecutive_failures :: int
  bh_last_failure :: "string option"
  bh_open_remaining_ms :: "int option"

definition health :: "resilience_config \<Rightarrow> int \<Rightarrow> breaker \<Rightarrow> backend_health" where
  "health cfg now b =
     \<lparr>bh_circuit = state_view (br_state b), bh_consecutive_failures = consecutive_failures b,
      bh_last_failure = last_failure b,
      bh_open_remaining_ms =
        (case br_state b of
           State_Open since \<Rightarrow>
             Some (min (max 0 (breaker_open_seconds cfg * NANOS_PER_SECOND - elapsed since now) div 1000000) (2 ^ 64 - 1))
         | _ \<Rightarrow> None)\<rparr>"

text \<open>What \<open>admit\<close> answers: pass, pass as the probe, or fail fast.\<close>

datatype admission = Admission_Pass | Admission_Probe | Admission_Refused

definition admit :: "resilience_config \<Rightarrow> int \<Rightarrow> breaker \<Rightarrow> admission \<times> breaker" where
  "admit cfg now b =
     (case br_state b of
        State_Closed \<Rightarrow> (Admission_Pass, b)
      | State_Open since \<Rightarrow>
          (if elapsed since now \<ge> breaker_open_seconds cfg * NANOS_PER_SECOND
           then (Admission_Probe, b\<lparr>br_state := State_HalfOpen\<rparr>) else (Admission_Refused, b))
      | State_HalfOpen \<Rightarrow> (Admission_Refused, b))"

definition drop_probe :: "int \<Rightarrow> bool \<Rightarrow> breaker \<Rightarrow> breaker" where
  "drop_probe now armed b =
     (if \<not> armed then b else if br_state b = State_HalfOpen then b\<lparr>br_state := State_Open now\<rparr> else b)"

definition record_reachable :: "breaker \<Rightarrow> breaker" where
  "record_reachable b = b\<lparr>consecutive_failures := 0, br_state := State_Closed\<rparr>"

definition record_transient_failure :: "resilience_config \<Rightarrow> int \<Rightarrow> model_error \<Rightarrow> breaker \<Rightarrow> bool \<times> breaker" where
  "record_transient_failure cfg now e b =
     (let b = b\<lparr>consecutive_failures := min (consecutive_failures b + 1) (2 ^ 32 - 1),
               last_failure := Some (model_error_text e)\<rparr>
      in case br_state b of
           State_HalfOpen \<Rightarrow> (True, b\<lparr>br_state := State_Open now\<rparr>)
         | State_Closed \<Rightarrow>
             (if consecutive_failures b \<ge> failure_threshold cfg then (True, b\<lparr>br_state := State_Open now\<rparr>) else (False, b))
         | State_Open _ \<Rightarrow> (True, b\<lparr>br_state := State_Open now\<rparr>))"

section \<open>One call\<close>

record 'r model_call =
  mc_attempt :: nat
  mc_backoff :: int
  mc_armed :: bool  \<comment> \<open>an armed probe guard\<close>
  mc_yielded :: "'r item list"
  mc_done :: bool

definition backoff_base :: "resilience_config \<Rightarrow> int" where
  "backoff_base cfg = min (backoff_base_ms cfg) (backoff_max_ms cfg)"

definition call_new :: "resilience_config \<Rightarrow> bool \<Rightarrow> 'r model_call" where
  "call_new cfg probe =
     \<lparr>mc_attempt = 1, mc_backoff = backoff_base cfg, mc_armed = probe, mc_yielded = [], mc_done = False\<rparr>"

definition yield_item :: "'r item \<Rightarrow> 'r model_call \<Rightarrow> 'r model_call" where
  "yield_item x c = c\<lparr>mc_yielded := mc_yielded c @ [x]\<rparr>"

definition terminal :: "'r item \<Rightarrow> 'r model_call \<Rightarrow> 'r model_call" where
  "terminal x c = (yield_item x c)\<lparr>mc_armed := False, mc_done := True\<rparr>"

definition no_terminal :: "string \<Rightarrow> model_error" where
  "no_terminal model = ModelError_Backend model ''the stream ended without a terminal response'' False"

text \<open>The delay of a restart, drawn from the wall clock's sub-second nanoseconds.\<close>

definition jittered :: "int \<Rightarrow> int \<Rightarrow> int" where
  "jittered nanos delay = (let half = delay div 2 in if half = 0 then delay else half + nanos mod (half + 1))"

text \<open>
  One turn of the inner loop; \<open>None\<close> is the end of the backend's stream, which leaves a probe armed until the generator is resumed or
  dropped.
\<close>

definition advance ::
  "resilience_config \<Rightarrow> string \<Rightarrow> int \<Rightarrow> 'r item option \<Rightarrow> breaker \<Rightarrow> 'r model_call \<Rightarrow> breaker \<times> 'r model_call" where
  "advance cfg model now x b c =
     (case x of
        Some (Inr (GenerateDelta_Finished r)) \<Rightarrow> (record_reachable b, terminal (Inr (GenerateDelta_Finished r)) c)
      | Some (Inr d) \<Rightarrow> (b, yield_item (Inr d) c)
      | Some (Inl e) \<Rightarrow>
          (if is_transient e then
             (case record_transient_failure cfg now e b of
                (opened, b) \<Rightarrow>
                  (if opened \<or> mc_attempt c \<ge> max (max_attempts cfg) 1 then (b, terminal (Inl e) c)
                   else (b, (yield_item (Inr (GenerateDelta_Restarted (mc_attempt c) (model_error_text e))) c)
                           \<lparr>mc_armed := False, mc_backoff := min (mc_backoff c * 2) (backoff_max_ms cfg),
                            mc_attempt := mc_attempt c + 1\<rparr>)))
           else (record_reachable b, terminal (Inl e) c))
      | None \<Rightarrow> (b, (yield_item (Inl (no_terminal model)) c)\<lparr>mc_done := True\<rparr>))"

section \<open>The calls\<close>

record 'r retry_world =
  rw_now :: int
  rw_breaker :: breaker
  rw_calls :: "'r model_call list"

definition retry_new :: "'r retry_world" where
  "retry_new = \<lparr>rw_now = 0, rw_breaker = breaker_new, rw_calls = []\<rparr>"

inductive retry_step :: "resilience_config \<Rightarrow> string \<Rightarrow> 'r retry_world \<Rightarrow> 'r retry_world \<Rightarrow> bool" for cfg model where
  time_passes: "0 \<le> d \<Longrightarrow> retry_step cfg model w (w\<lparr>rw_now := rw_now w + d\<rparr>)"
| call_starts: "admit cfg (rw_now w) (rw_breaker w) = (a, b) \<Longrightarrow> a \<noteq> Admission_Refused \<Longrightarrow>
    retry_step cfg model w (w\<lparr>rw_breaker := b, rw_calls := rw_calls w @ [call_new cfg (a = Admission_Probe)]\<rparr>)"
| call_advances: "i < length (rw_calls w) \<Longrightarrow> \<not> mc_done (rw_calls w ! i) \<Longrightarrow>
    advance cfg model (rw_now w) x (rw_breaker w) (rw_calls w ! i) = (b, c) \<Longrightarrow>
    retry_step cfg model w (w\<lparr>rw_breaker := b, rw_calls := (rw_calls w)[i := c]\<rparr>)"
| call_dropped: "i < length (rw_calls w) \<Longrightarrow>
    retry_step cfg model w
      (w\<lparr>rw_breaker := drop_probe (rw_now w) (mc_armed (rw_calls w ! i)) (rw_breaker w),
        rw_calls := (rw_calls w)[i := (rw_calls w ! i)\<lparr>mc_armed := False, mc_done := True\<rparr>]\<rparr>)"

section \<open>The breaker's invariant\<close>

definition breaker_ok :: "resilience_config \<Rightarrow> 'r retry_world \<Rightarrow> bool" where
  "breaker_ok cfg w \<longleftrightarrow>
     (br_state (rw_breaker w) = State_Closed \<longrightarrow> consecutive_failures (rw_breaker w) < failure_threshold cfg)
     \<and> (br_state (rw_breaker w) = State_HalfOpen \<longrightarrow> list_ex mc_armed (rw_calls w))"

definition call_ok :: "resilience_config \<Rightarrow> 'r model_call \<Rightarrow> bool" where
  "call_ok cfg c \<longleftrightarrow>
     1 \<le> mc_attempt c \<and> mc_attempt c \<le> max (max_attempts cfg) 1
     \<and> mc_backoff c = min (backoff_base_ms cfg * 2 ^ (mc_attempt c - 1)) (backoff_max_ms cfg)"

lemma failed_state:
  "record_transient_failure cfg now e b = (opened, b') \<Longrightarrow>
    (br_state b' = State_Closed \<longrightarrow> \<not> opened \<and> consecutive_failures b' < failure_threshold cfg) \<and> br_state b' \<noteq> State_HalfOpen
    \<and> (opened \<longleftrightarrow> br_state b' \<noteq> State_Closed)"
  by (auto simp: record_transient_failure_def Let_def split: breaker_state.splits if_splits)

lemma backoff_doubles:
  fixes b m :: int
  assumes "0 \<le> b" "0 \<le> m"
  shows "min (min (b * 2 ^ n) m * 2) m = min (b * 2 ^ Suc n) m"
  using assms mult_nonneg_nonneg [OF assms(1), of "2 ^ n"] by (auto simp: min_def)

lemma list_ex_update: "list_ex P (xs[i := y]) \<Longrightarrow> list_ex P xs \<or> P y"
  by (auto simp: list_ex_iff dest!: subsetD [OF set_update_subset_insert])

lemma list_all_update: "list_all P xs \<Longrightarrow> P y \<Longrightarrow> list_all P (xs[i := y])"
  by (auto simp: list_all_iff dest!: subsetD [OF set_update_subset_insert])

text \<open>A call whose guard is not armed, or stays armed, leaves a half-open circuit's guard in place.\<close>

lemma armed_elsewhere:
  assumes "list_ex mc_armed cs" "i < length cs" and "mc_armed (cs ! i) \<Longrightarrow> mc_armed c"
  shows "list_ex mc_armed (cs[i := c])"
proof -
  from assms(1) obtain j where j: "j < length cs" "mc_armed (cs ! j)"
    by (auto simp: list_ex_iff in_set_conv_nth)
  then have "mc_armed (cs[i := c] ! j)"
    using assms(2,3) by (cases "j = i") auto
  moreover have "j < length (cs[i := c])" using j(1) by simp
  ultimately show ?thesis unfolding list_ex_length by (intro exI [of _ j] conjI) simp_all
qed

lemma advance_breaker:
  assumes "advance cfg model now x b c = (b', c')"
    and "br_state b = State_Closed \<Longrightarrow> consecutive_failures b < failure_threshold cfg"
  shows "(br_state b' = State_Closed \<longrightarrow> consecutive_failures b' < failure_threshold cfg)
    \<and> (br_state b' = State_HalfOpen \<longrightarrow> br_state b = State_HalfOpen \<and> (mc_armed c \<longrightarrow> mc_armed c'))"
  using assms failed_state [of cfg now _ b]
  by (auto simp: advance_def terminal_def yield_item_def record_reachable_def drop_probe_def failure_threshold_def
      split: option.splits sum.splits generate_delta.splits if_splits prod.splits)

lemma advance_call_ok:
  assumes "advance cfg model now x b c = (b', c')" "call_ok cfg c" "0 \<le> backoff_base_ms cfg" "0 \<le> backoff_max_ms cfg"
  shows "call_ok cfg c'"
proof -
  have "min (mc_backoff c * 2) (backoff_max_ms cfg) = min (backoff_base_ms cfg * 2 ^ mc_attempt c) (backoff_max_ms cfg)"
    using assms(2) backoff_doubles [OF assms(3,4), of "mc_attempt c - 1"] by (simp add: call_ok_def)
  with assms(1,2) show ?thesis
    by (auto simp: advance_def terminal_def yield_item_def call_ok_def
        split: option.splits sum.splits generate_delta.splits if_splits prod.splits)
qed

lemma breaker_ok_step: "retry_step cfg model w w' \<Longrightarrow> breaker_ok cfg w \<Longrightarrow> breaker_ok cfg w'"
proof (induction rule: retry_step.induct)
  case (call_starts w a b)
  then show ?case
    by (auto simp: breaker_ok_def admit_def call_new_def split: breaker_state.splits if_splits)
next
  case (call_advances i w x b c)
  from advance_breaker [OF call_advances(3)] call_advances(4)
  have a: "br_state b = State_Closed \<longrightarrow> consecutive_failures b < failure_threshold cfg"
    "br_state b = State_HalfOpen \<longrightarrow> br_state (rw_breaker w) = State_HalfOpen
       \<and> (mc_armed (rw_calls w ! i) \<longrightarrow> mc_armed c)"
    by (auto simp: breaker_ok_def)
  with call_advances(1,4) show ?case
    by (auto simp: breaker_ok_def intro: armed_elsewhere)
next
  case (call_dropped i w)
  then show ?case
    by (auto simp: breaker_ok_def drop_probe_def intro: armed_elsewhere)
qed (simp add: breaker_ok_def)

lemma breaker_ok_new: "breaker_ok cfg retry_new"
  by (simp add: breaker_ok_def retry_new_def breaker_new_def failure_threshold_def)

lemma reachable_breaker_ok: "(retry_step cfg model)\<^sup>*\<^sup>* retry_new w \<Longrightarrow> breaker_ok cfg w"
  by (induction rule: rtranclp_induct) (auto intro: breaker_ok_new breaker_ok_step)

lemma calls_ok_step:
  assumes "0 \<le> backoff_base_ms cfg" "0 \<le> backoff_max_ms cfg"
  shows "retry_step cfg model w w' \<Longrightarrow> list_all (call_ok cfg) (rw_calls w) \<Longrightarrow> list_all (call_ok cfg) (rw_calls w')"
proof (induction rule: retry_step.induct)
  case (call_starts w a b)
  then show ?case by (simp add: call_ok_def call_new_def backoff_base_def)
next
  case (call_advances i w x b c)
  have "call_ok cfg (rw_calls w ! i)" using call_advances(1,4) by (simp add: list_all_length)
  from advance_call_ok [OF call_advances(3) this assms] call_advances(4) show ?case by (simp add: list_all_update)
next
  case (call_dropped i w)
  then have "call_ok cfg (rw_calls w ! i)" by (simp add: list_all_length)
  then have "call_ok cfg ((rw_calls w ! i)\<lparr>mc_armed := False, mc_done := True\<rparr>)" by (simp add: call_ok_def)
  with call_dropped(2) show ?case by (simp add: list_all_update)
qed simp_all

section \<open>Properties\<close>

text \<open>
  C26: the breaker never wedges. However the calls of the model interleave, fail, end and are dropped, a half-open circuit has an armed
  probe; its drop re-opens the circuit, and if its stream has not ended, an answer or a failure takes the circuit out of the half-open
  state. A closed circuit is below its failure threshold.
\<close>

theorem breaker_never_wedges:
  assumes "(retry_step cfg model)\<^sup>*\<^sup>* retry_new w"
  shows "(br_state (rw_breaker w) = State_Closed \<longrightarrow> consecutive_failures (rw_breaker w) < failure_threshold cfg)
    \<and> (br_state (rw_breaker w) = State_HalfOpen \<longrightarrow>
        (\<exists>i < length (rw_calls w). mc_armed (rw_calls w ! i)
           \<and> br_state (drop_probe (rw_now w) (mc_armed (rw_calls w ! i)) (rw_breaker w)) = State_Open (rw_now w)
           \<and> (\<forall>r. br_state (fst (advance cfg model (rw_now w) (Some (Inr (GenerateDelta_Finished r))) (rw_breaker w) (rw_calls w ! i)))
                = State_Closed)
           \<and> (\<forall>e. br_state (fst (advance cfg model (rw_now w) (Some (Inl e)) (rw_breaker w) (rw_calls w ! i)))
                = (if is_transient e then State_Open (rw_now w) else State_Closed))))"
proof -
  have ok: "breaker_ok cfg w" using assms by (rule reachable_breaker_ok)
  have fin: "br_state (fst (advance cfg model (rw_now w) (Some (Inr (GenerateDelta_Finished r))) (rw_breaker w) c)) = State_Closed" for r c
    by (simp add: advance_def record_reachable_def)
  have err: "br_state (fst (advance cfg model (rw_now w) (Some (Inl e)) (rw_breaker w) c))
      = (if is_transient e then State_Open (rw_now w) else State_Closed)" if "br_state (rw_breaker w) = State_HalfOpen" for e c
    using that by (simp add: advance_def record_reachable_def record_transient_failure_def Let_def)
  from ok show ?thesis
    by (auto simp: breaker_ok_def drop_probe_def fin err list_ex_length)
qed

text \<open>
  a call reaches the backend at most the configured number of times, and the delay before its next attempt is the base doubled
  once for each failed one and capped; the jitter keeps a delay between its half and its whole.
\<close>

theorem retries_are_bounded:
  assumes "(retry_step cfg model)\<^sup>*\<^sup>* retry_new w" "c \<in> set (rw_calls w)"
    and "0 \<le> backoff_base_ms cfg" "0 \<le> backoff_max_ms cfg"
  shows "mc_attempt c \<le> max (max_attempts cfg) 1
    \<and> mc_backoff c = min (backoff_base_ms cfg * 2 ^ (mc_attempt c - 1)) (backoff_max_ms cfg)
    \<and> mc_backoff c div 2 \<le> jittered nanos (mc_backoff c) \<and> jittered nanos (mc_backoff c) \<le> mc_backoff c"
proof -
  have "list_all (call_ok cfg) (rw_calls w)"
    using assms(1) by (induction rule: rtranclp_induct) (auto simp: retry_new_def intro: calls_ok_step [OF assms(3,4)])
  with assms(2) have ok: "call_ok cfg c" by (simp add: list_all_iff)
  have nonneg: "0 \<le> mc_backoff c" using ok assms(3,4) by (simp add: call_ok_def)
  have "mc_backoff c div 2 \<le> jittered nanos (mc_backoff c) \<and> jittered nanos (mc_backoff c) \<le> mc_backoff c"
  proof (cases "mc_backoff c div 2 = 0")
    case False
    let ?h = "mc_backoff c div 2"
    have "0 < ?h + 1" using nonneg by simp
    then have "0 \<le> nanos mod (?h + 1)" "nanos mod (?h + 1) \<le> ?h"
      using pos_mod_bound [of "?h + 1" nanos] by simp_all
    moreover have "2 * ?h \<le> mc_backoff c" by simp
    ultimately show ?thesis using False by (simp add: jittered_def Let_def)
  qed (use nonneg in \<open>simp add: jittered_def Let_def\<close>)
  with ok show ?thesis by (simp add: call_ok_def)
qed

section \<open>Concrete runs\<close>

datatype retry_move = Move_Time int | Move_Start | Move_Advance nat "(model_error, nat generate_delta) result option"

fun retry_moves :: "resilience_config \<Rightarrow> retry_move list \<Rightarrow> nat retry_world \<Rightarrow> nat retry_world option" where
  "retry_moves cfg [] w = Some w"
| "retry_moves cfg (Move_Time d # ms) w =
     (if 0 \<le> d then retry_moves cfg ms (w\<lparr>rw_now := rw_now w + d\<rparr>) else None)"
| "retry_moves cfg (Move_Start # ms) w =
     (case admit cfg (rw_now w) (rw_breaker w) of (a, b) \<Rightarrow>
        if a = Admission_Refused then None
        else retry_moves cfg ms (w\<lparr>rw_breaker := b, rw_calls := rw_calls w @ [call_new cfg (a = Admission_Probe)]\<rparr>))"
| "retry_moves cfg (Move_Advance i x # ms) w =
     (if i < length (rw_calls w) \<and> \<not> mc_done (rw_calls w ! i) then
        (case advance cfg [] (rw_now w) x (rw_breaker w) (rw_calls w ! i) of (b, c) \<Rightarrow>
           retry_moves cfg ms (w\<lparr>rw_breaker := b, rw_calls := (rw_calls w)[i := c]\<rparr>))
      else None)"

lemma retry_moves_steps: "retry_moves cfg ms w = Some w' \<Longrightarrow> (retry_step cfg [])\<^sup>*\<^sup>* w w'"
proof (induction cfg ms w rule: retry_moves.induct)
  case (2 cfg d ms w)
  then show ?case by (auto split: if_splits intro: converse_rtranclp_into_rtranclp retry_step.time_passes)
next
  case (3 cfg ms w)
  then show ?case
    by (auto split: if_splits prod.splits intro: converse_rtranclp_into_rtranclp retry_step.call_starts)
next
  case (4 cfg i x ms w)
  then show ?case
    by (auto split: if_splits prod.splits intro: converse_rtranclp_into_rtranclp retry_step.call_advances)
qed simp

definition quick_breaker :: resilience_config where
  "quick_breaker =
     \<lparr>max_attempts = 3, backoff_base_ms = 500, backoff_max_ms = 8000, breaker_failure_threshold = 2, breaker_open_seconds = 30\<rparr>"

definition timed_out :: "(model_error, nat generate_delta) result option" where
  "timed_out = Some (Inl (ModelError_Backend [] ''timed out'' True))"

text \<open>
  Three calls start; two fail, which opens the circuit; after the window a probe starts; the third old call fails, which re-opens the
  circuit; after another window a second probe starts beside the first.
\<close>

definition two_probes :: "nat retry_world option" where
  "two_probes = retry_moves quick_breaker
     [Move_Start, Move_Start, Move_Start, Move_Advance 0 timed_out, Move_Advance 1 timed_out, Move_Time 30000000000,
      Move_Start, Move_Advance 2 timed_out, Move_Time 30000000000, Move_Start] retry_new"

text \<open>
  the half-open state is said to have one probe in flight and to fail every other call fast until it resolves. But a call admitted before
  the circuit opened may fail while the probe runs; its failure is taken for the probe's and re-opens the circuit, and after the next
  window a second probe is sent while the first is still at the backend.
\<close>

theorem two_probes_in_flight:
  "\<exists>w :: nat retry_world. (retry_step quick_breaker [])\<^sup>*\<^sup>* retry_new w
     \<and> length (filter (\<lambda>c. mc_armed c \<and> \<not> mc_done c) (rw_calls w)) = 2 \<and> br_state (rw_breaker w) = State_HalfOpen"
proof -
  have "case two_probes of
      Some w \<Rightarrow> length (filter (\<lambda>c. mc_armed c \<and> \<not> mc_done c) (rw_calls w)) = 2 \<and> br_state (rw_breaker w) = State_HalfOpen
    | None \<Rightarrow> False" by code_simp
  from case_SomeE [OF this] obtain w where w: "two_probes = Some w"
    "length (filter (\<lambda>c. mc_armed c \<and> \<not> mc_done c) (rw_calls w)) = 2" "br_state (rw_breaker w) = State_HalfOpen"
    by (elim exE conjE)
  show ?thesis
    by (intro exI [of _ w] conjI) (fact retry_moves_steps [OF w(1) [unfolded two_probes_def]] w(2,3))+
qed

theorem breaker_never_wedges_witness:
  "\<exists>w :: nat retry_world. (retry_step quick_breaker [])\<^sup>*\<^sup>* retry_new w \<and> br_state (rw_breaker w) = State_HalfOpen
     \<and> (\<exists>i < length (rw_calls w). mc_armed (rw_calls w ! i))"
proof -
  have "case two_probes of Some w \<Rightarrow> br_state (rw_breaker w) = State_HalfOpen | None \<Rightarrow> False" by code_simp
  from case_SomeE [OF this] obtain w where w: "two_probes = Some w" "br_state (rw_breaker w) = State_HalfOpen" by (elim exE conjE)
  note r = retry_moves_steps [OF w(1) [unfolded two_probes_def]]
  from mp [OF conjunct2 [OF breaker_never_wedges [OF r]] w(2)]
  have "\<exists>i < length (rw_calls w). mc_armed (rw_calls w ! i)"
    by (elim exE conjE) (intro exI conjI)
  with r w(2) show ?thesis by (intro exI [of _ w] conjI)
qed

theorem retries_are_bounded_witness:
  "\<exists>(w :: nat retry_world) c. (retry_step quick_breaker [])\<^sup>*\<^sup>* retry_new w \<and> c \<in> set (rw_calls w) \<and> mc_attempt c = 2
     \<and> mc_attempt c \<le> 3 \<and> jittered 7 (mc_backoff c) \<le> mc_backoff c"
proof -
  let ?ms = "[Move_Start, Move_Advance 0 timed_out]"
  have "case retry_moves quick_breaker ?ms retry_new of Some w \<Rightarrow> map mc_attempt (rw_calls w) = [2] | None \<Rightarrow> False" by code_simp
  from case_SomeE [OF this] obtain w where w: "retry_moves quick_breaker ?ms retry_new = Some w" "map mc_attempt (rw_calls w) = [2]"
    by (elim exE conjE)
  from w(2) obtain c where c: "c \<in> set (rw_calls w)" "mc_attempt c = 2" by (cases "rw_calls w") auto
  note r = retry_moves_steps [OF w(1)]
  have "0 \<le> backoff_base_ms quick_breaker" "0 \<le> backoff_max_ms quick_breaker" "max_attempts quick_breaker = 3"
    by (simp_all add: quick_breaker_def)
  note q = this
  have "jittered 7 (mc_backoff c) \<le> mc_backoff c"
    using conjunct2 [OF conjunct2 [OF retries_are_bounded [OF r c(1) q(1,2), of 7]]] by (rule conjunct2)
  moreover have "mc_attempt c \<le> 3" using c(2) by simp
  ultimately show ?thesis using r c by (intro exI [of _ w] exI [of _ c] conjI)
qed

end
