(* ===== verification/Contacts.thy ===== *)
theory Contacts
  imports Block_Gaps Block_Reading
begin

text \<open>
  First contact and the writes of a platform connector: \<open>src/memory/identity.rs\<close> and \<open>src/instance/platform/\<close>
  (\<open>links.rs\<close>, \<open>presence.rs\<close>, \<open>projection.rs\<close>, the helpers of \<open>mod.rs\<close>). A participant, a scope or a room the agent has never seen is
  minted the first time it appears; a connector writes what it knows of them under its own authority.

  The store is a value of the type \<open>'s\<close> with the methods of the trait, \<open>store_ops\<close>, so both backends are covered; the graph lock
  spans a contact, so one is a single step on the store and the graph, \<open>platform_state\<close>. The id an operation may mint and the
  time are arguments.
\<close>

section \<open>The store and the errors\<close>

record 's store_ops =
  op_append :: "'s \<Rightarrow> timestamp \<Rightarrow> event_source \<Rightarrow> event_payload list \<Rightarrow> (store_error, event list) result \<times> 's"
  op_read_from :: "'s \<Rightarrow> seq \<Rightarrow> (store_error, event list) result"
  op_head :: "'s \<Rightarrow> (store_error, seq) result"

definition sqlite_ops :: "jiff \<Rightarrow> serde \<Rightarrow> (nat \<Rightarrow> string) \<Rightarrow> sqlite_store store_ops" where
  "sqlite_ops J S U = \<lparr>op_append = sq_append S U, op_read_from = sq_read_from J S, op_head = sq_head\<rparr>"

definition memory_ops :: "memory_store store_ops" where
  "memory_ops = \<lparr>op_append = ms_append, op_read_from = ms_read_from, op_head = ms_head\<rparr>"

text \<open>A panic of a read travels as the \<open>fault\<close> of the graph.\<close>

datatype identity_error = IdentityError_Store string store_error | IdentityError_Graph string fault

fun with_context :: "string \<Rightarrow> identity_error \<Rightarrow> identity_error" where
  "with_context context (IdentityError_Store _ e) = IdentityError_Store context e"
| "with_context context (IdentityError_Graph _ e) = IdentityError_Graph context e"

text \<open>The causes of a turn, the model and the tools are opaque texts.\<close>

datatype (plugins only: code size) instance_error =
    InstanceError_Store store_error
  | InstanceError_Graph fault
  | InstanceError_Turn "conversation_id option" string
  | InstanceError_Mcp string
  | InstanceError_Snapshot string
  | InstanceError_Index string
  | InstanceError_Search string
  | InstanceError_Lua "conversation_id option" string
  | InstanceError_Memory memory_error

fun from_identity_error :: "identity_error \<Rightarrow> instance_error" where
  "from_identity_error (IdentityError_Store _ e) = InstanceError_Store e"
| "from_identity_error (IdentityError_Graph _ e) = InstanceError_Graph e"

section \<open>Resolving and minting\<close>

definition context_name :: "conversation_locator \<Rightarrow> memory_name" where
  "context_name l = memory_name_of (with_name Namespace_Context (platform l @ '':'' @ scope_path l))"

text \<open>A body of a resolver whose errors carry the context.\<close>

definition in_context :: "string \<Rightarrow> (identity_error, 'a) result \<times> 's \<Rightarrow> (identity_error, 'a) result \<times> 's" where
  "in_context context r = (case r of (Inl e, s) \<Rightarrow> (Inl (with_context context e), s) | (Inr a, s) \<Rightarrow> (Inr a, s))"

definition append_to ::
  "'s store_ops \<Rightarrow> timestamp \<Rightarrow> event_source \<Rightarrow> event_payload list \<Rightarrow> 's \<Rightarrow> (identity_error, unit) result \<times> 's" where
  "append_to ops t src ps s =
     (case op_append ops s t src ps of
        (Inl e, s') \<Rightarrow> (Inl (IdentityError_Store [] e), s')
      | (Inr _, s') \<Rightarrow> (Inr (), s'))"

definition resolve_or_mint_participant ::
  "jiff \<Rightarrow> 's store_ops \<Rightarrow> timestamp \<Rightarrow> nat \<Rightarrow> graph \<Rightarrow> string \<Rightarrow> string \<Rightarrow> 's \<Rightarrow> (identity_error, memory_id) result \<times> 's" where
  "resolve_or_mint_participant J ops t fresh g plat user s = in_context (plat @ '':'' @ user)
     (case participant_for g plat user of
        Some i \<Rightarrow> (Inr i, s)
      | None \<Rightarrow>
          (let mint = participant_mint_for plat user
           in case memory_by_name J g (pm_name mint) of
                Inl e \<Rightarrow> (Inl (IdentityError_Graph [] e), s)
              | Inr found \<Rightarrow>
                  (let (i, events) = (case found of
                         Some existing \<Rightarrow> (mv_id existing, [])
                       | None \<Rightarrow> (MemoryId fresh, [MemoryCreated (MemoryId fresh) (pm_name mint)]))
                   in case append_to ops t EventSource_Orchestration (events @ [ParticipantIdentified i plat user]) s of
                        (Inl e, s') \<Rightarrow> (Inl e, s')
                      | (Inr _, s') \<Rightarrow> (Inr i, s'))))"

definition resolve_or_mint_context ::
  "jiff \<Rightarrow> 's store_ops \<Rightarrow> timestamp \<Rightarrow> nat \<Rightarrow> graph \<Rightarrow> conversation_locator \<Rightarrow> 's \<Rightarrow> (identity_error, memory_id) result \<times> 's" where
  "resolve_or_mint_context J ops t fresh g l s =
     (case memory_by_name J g (context_name l) of
        Inl e \<Rightarrow> (Inl (IdentityError_Graph [] e), s)
      | Inr (Some existing) \<Rightarrow> (Inr (mv_id existing), s)
      | Inr None \<Rightarrow>
          (case append_to ops t EventSource_Orchestration [MemoryCreated (MemoryId fresh) (context_name l)] s of
             (Inl e, s') \<Rightarrow> (Inl e, s')
           | (Inr _, s') \<Rightarrow> (Inr (MemoryId fresh), s')))"

definition resolve_context :: "jiff \<Rightarrow> graph \<Rightarrow> conversation_locator \<Rightarrow> memory_id option outcome" where
  "resolve_context J g l = andthen (memory_by_name J g (context_name l)) (\<lambda>m. Inr (map_option mv_id m))"

definition resolve_or_mint_conversation ::
  "jiff \<Rightarrow> 's store_ops \<Rightarrow> timestamp \<Rightarrow> nat \<Rightarrow> nat \<Rightarrow> graph \<Rightarrow> conversation_locator \<Rightarrow> 's
    \<Rightarrow> (identity_error, conversation_id) result \<times> 's" where
  "resolve_or_mint_conversation J ops t fresh_memory fresh g l s = in_context (platform l @ '':'' @ scope_path l)
     (case conversation_for_locator g l of
        Some c \<Rightarrow> (Inr c, s)
      | None \<Rightarrow>
          (case resolve_or_mint_context J ops t fresh_memory g l s of
             (Inl e, s') \<Rightarrow> (Inl e, s')
           | (Inr context_memory, s') \<Rightarrow>
               (case append_to ops t EventSource_Orchestration [ConversationStarted (ConversationId fresh) l context_memory] s' of
                  (Inl e, s'') \<Rightarrow> (Inl e, s'')
                | (Inr _, s'') \<Rightarrow> (Inr (ConversationId fresh), s''))))"

section \<open>The server's store and graph\<close>

record 's platform_state =
  ps_store :: 's
  ps_graph :: graph

type_synonym ('s, 'a) server_op = "'s platform_state \<Rightarrow> (instance_error, 'a) result \<times> 's platform_state"

definition bind_server :: "('s, 'a) server_op \<Rightarrow> ('a \<Rightarrow> ('s, 'b) server_op) \<Rightarrow> ('s, 'b) server_op" where
  "bind_server m f w = (case m w of (Inl e, w') \<Rightarrow> (Inl e, w') | (Inr a, w') \<Rightarrow> f a w')"

text \<open>
  The fold of a batch applies one event after the other; the event that fails ends it and the earlier ones stay (what the failed
  event itself leaves is not modelled).
\<close>

fun apply_until :: "jiff \<Rightarrow> event list \<Rightarrow> graph \<Rightarrow> fault option \<times> graph" where
  "apply_until J [] g = (None, g)"
| "apply_until J (ev # evs) g = (case apply_event J ev g of Inl f \<Rightarrow> (Some f, g) | Inr g' \<Rightarrow> apply_until J evs g')"

definition fold_log :: "jiff \<Rightarrow> 's store_ops \<Rightarrow> ('s, unit) server_op" where
  "fold_log J ops w =
     (case op_read_from ops (ps_store w) (seq_next (head (ps_graph w))) of
        Inl e \<Rightarrow> (Inl (InstanceError_Graph (Err (GraphError_Store e))), w)
      | Inr events \<Rightarrow>
          (case apply_until J events (ps_graph w) of
             (Some f, g) \<Rightarrow> (Inl (InstanceError_Graph f), w\<lparr>ps_graph := g\<rparr>)
           | (None, g) \<Rightarrow> (Inr (), w\<lparr>ps_graph := g\<rparr>)))"

text \<open>A resolver under the graph lock.\<close>

definition on_store :: "('s \<Rightarrow> (identity_error, 'a) result \<times> 's) \<Rightarrow> ('s, 'a) server_op" where
  "on_store f w =
     (case f (ps_store w) of
        (Inl e, s) \<Rightarrow> (Inl (from_identity_error e), w\<lparr>ps_store := s\<rparr>)
      | (Inr a, s) \<Rightarrow> (Inr a, w\<lparr>ps_store := s\<rparr>))"

definition store_head :: "'s store_ops \<Rightarrow> ('s, seq) server_op" where
  "store_head ops w = (case op_head ops (ps_store w) of Inl e \<Rightarrow> (Inl (InstanceError_Store e), w) | Inr n \<Rightarrow> (Inr n, w))"

definition commit :: "'s store_ops \<Rightarrow> timestamp \<Rightarrow> event_source \<Rightarrow> event_payload list \<Rightarrow> ('s, unit) server_op" where
  "commit ops t src ps w =
     (case op_append ops (ps_store w) t src ps of
        (Inl e, s) \<Rightarrow> (Inl (InstanceError_Store e), w\<lparr>ps_store := s\<rparr>)
      | (Inr _, s) \<Rightarrow> (Inr (), w\<lparr>ps_store := s\<rparr>))"

definition lift_graph :: "'a outcome \<Rightarrow> ('s, 'a) server_op" where
  "lift_graph m w = (case m of Inl f \<Rightarrow> (Inl (InstanceError_Graph f), w) | Inr a \<Rightarrow> (Inr a, w))"

datatype link_node = LinkNode_Participant person_id | LinkNode_Context conversation_locator

definition resolve_node_on_store ::
  "jiff \<Rightarrow> 's store_ops \<Rightarrow> timestamp \<Rightarrow> nat \<Rightarrow> link_node \<Rightarrow> graph \<Rightarrow> 's \<Rightarrow> (identity_error, memory_id) result \<times> 's" where
  "resolve_node_on_store J ops t fresh node g =
     (case node of
        LinkNode_Participant p \<Rightarrow> resolve_or_mint_participant J ops t fresh g (person_platform p) (person_user p)
      | LinkNode_Context l \<Rightarrow> resolve_or_mint_context J ops t fresh g l)"

definition resolve_or_mint_node :: "jiff \<Rightarrow> 's store_ops \<Rightarrow> timestamp \<Rightarrow> nat \<Rightarrow> link_node \<Rightarrow> ('s, memory_id) server_op" where
  "resolve_or_mint_node J ops t fresh node w =
     bind_server (store_head ops) (\<lambda>head_before.
     bind_server (on_store (resolve_node_on_store J ops t fresh node (ps_graph w))) (\<lambda>i.
     bind_server (store_head ops) (\<lambda>head_now.
     bind_server (if head_now \<noteq> head_before then fold_log J ops else (\<lambda>w. (Inr (), w))) (\<lambda>_ w.
       (Inr i, w))))) w"

definition resolve_or_mint_person :: "jiff \<Rightarrow> 's store_ops \<Rightarrow> timestamp \<Rightarrow> nat \<Rightarrow> person_id \<Rightarrow> ('s, memory_id) server_op" where
  "resolve_or_mint_person J ops t fresh p w =
     bind_server (store_head ops) (\<lambda>head_before.
     bind_server (on_store (resolve_or_mint_participant J ops t fresh (ps_graph w) (person_platform p) (person_user p))) (\<lambda>i.
     bind_server (store_head ops) (\<lambda>head_now.
     bind_server (if head_now \<noteq> head_before then fold_log J ops else (\<lambda>w. (Inr (), w))) (\<lambda>_ w.
       (Inr i, w))))) w"

definition resolve_node :: "jiff \<Rightarrow> link_node \<Rightarrow> graph \<Rightarrow> memory_id option outcome" where
  "resolve_node J node g =
     (case node of
        LinkNode_Participant p \<Rightarrow> Inr (participant_for g (person_platform p) (person_user p))
      | LinkNode_Context l \<Rightarrow> resolve_context J g l)"

definition ensure_conversation ::
  "jiff \<Rightarrow> 's store_ops \<Rightarrow> timestamp \<Rightarrow> nat \<Rightarrow> nat \<Rightarrow> conversation_locator \<Rightarrow> ('s, conversation_id) server_op" where
  "ensure_conversation J ops t fresh_memory fresh l w =
     bind_server (on_store (resolve_or_mint_conversation J ops t fresh_memory fresh (ps_graph w) l)) (\<lambda>c.
     bind_server (fold_log J ops) (\<lambda>_ w. (Inr c, w))) w"

section \<open>Structural links of a connector\<close>

datatype (plugins only: code size) link_error =
    LinkError_SameAsForbidden
  | LinkError_UnknownRelation relation_name
  | LinkError_Instance instance_error

definition instance_link :: "('s, 'a) server_op \<Rightarrow> 's platform_state \<Rightarrow> (link_error, 'a) result \<times> 's platform_state" where
  "instance_link m w = (case m w of (Inl e, w') \<Rightarrow> (Inl (LinkError_Instance e), w') | (Inr a, w') \<Rightarrow> (Inr a, w'))"

text \<open>The endpoints of a retraction are resolved, those of an assertion minted where they are new.\<close>

definition resolve_endpoints :: "jiff \<Rightarrow> link_node \<Rightarrow> link_node \<Rightarrow> ('s, (memory_id \<times> memory_id) option) server_op" where
  "resolve_endpoints J from_node to_node w =
     bind_server (lift_graph (resolve_node J from_node (ps_graph w))) (\<lambda>i.
     bind_server (\<lambda>w. lift_graph (resolve_node J to_node (ps_graph w)) w) (\<lambda>j w.
       (Inr (case (i, j) of (Some i, Some j) \<Rightarrow> Some (i, j) | _ \<Rightarrow> None), w))) w"

definition mint_endpoints ::
  "jiff \<Rightarrow> 's store_ops \<Rightarrow> timestamp \<Rightarrow> nat \<Rightarrow> nat \<Rightarrow> link_node \<Rightarrow> link_node
    \<Rightarrow> ('s, (memory_id \<times> memory_id) option) server_op" where
  "mint_endpoints J ops t fresh1 fresh2 from_node to_node =
     bind_server (resolve_or_mint_node J ops t fresh1 from_node) (\<lambda>i.
     bind_server (resolve_or_mint_node J ops t fresh2 to_node) (\<lambda>j w.
       (Inr (Some (i, j)), w)))"

definition platform_link ::
  "jiff \<Rightarrow> 's store_ops \<Rightarrow> timestamp \<Rightarrow> nat \<Rightarrow> nat \<Rightarrow> link_node \<Rightarrow> link_node \<Rightarrow> string \<Rightarrow> string \<Rightarrow> bool
    \<Rightarrow> 's platform_state \<Rightarrow> (link_error, unit) result \<times> 's platform_state" where
  "platform_link J ops t fresh1 fresh2 from_node to_node label plat remove w =
     (let relation = relation_name_new label
      in if relation = RelationName_SameAs then (Inl LinkError_SameAsForbidden, w)
         else case relation_view_of (ps_graph w) (relation_name_str relation) of
                Inl f \<Rightarrow> (Inl (LinkError_Instance (InstanceError_Graph f)), w)
              | Inr None \<Rightarrow> (Inl (LinkError_UnknownRelation relation), w)
              | Inr (Some _) \<Rightarrow>
                  instance_link
                    (bind_server (if remove then resolve_endpoints J from_node to_node
                                  else mint_endpoints J ops t fresh1 fresh2 from_node to_node) (\<lambda>endpoints.
                     case endpoints of
                       None \<Rightarrow> (\<lambda>w. (Inr (), w))
                     | Some (i, j) \<Rightarrow>
                         (let payload =
                            (if remove then LinkRemoved i j relation
                             else LinkCreated i j relation (LinkSource_PlatformConnector plat) None None Visibility_Public)
                          in bind_server (commit ops t (EventSource_PlatformConnector plat) [payload]) (\<lambda>_.
                             fold_log J ops)))) w)"

section \<open>Context entries and projected attributes\<close>

record context_entry =
  ce_text :: string
  ce_supersedes :: "entry_id option"

record participant_attribute =
  pa_text :: "string option"
  pa_supersedes :: "entry_id option"

record context_outcome =
  co_memory_id :: memory_id
  co_entries :: "entry_id list"

record project_outcome =
  po_memory_id :: memory_id
  po_entries :: "entry_id option list"

text \<open>A target the agent has dropped is a no-op.\<close>

definition tolerate_unknown_entry :: "'a block_op \<Rightarrow> unit block_op" where
  "tolerate_unknown_entry m b =
     (case m b of
        (Inr _, b') \<Rightarrow> (Inr (), b')
      | (Inl (MemoryError_UnknownEntry _), b') \<Rightarrow> (Inr (), b')
      | (Inl e, b') \<Rightarrow> (Inl e, b'))"

definition supersede_if_live :: "memory_id \<Rightarrow> entry_id \<Rightarrow> entry_id \<Rightarrow> unit block_op" where
  "supersede_if_live i old new = tolerate_unknown_entry (supersede i (EntrySelector_Id old) (EntrySelector_Id new))"

definition retract_if_live :: "memory_id \<Rightarrow> entry_id \<Rightarrow> unit block_op" where
  "retract_if_live i old = tolerate_unknown_entry (retract i (EntrySelector_Id old) ''no longer set on the platform.'' None)"

definition public_append :: append_options where
  "public_append = default_options\<lparr>opt_visibility := Some VisibilityChoice_Public\<rparr>"

fun write_entries :: "memory_id \<Rightarrow> context_entry list \<Rightarrow> entry_id list block_op" where
  "write_entries i [] = ret []"
| "write_entries i (x # xs) =
     bind_op (append i (ce_text x) public_append) (\<lambda>new.
     bind_op (case ce_supersedes x of Some old \<Rightarrow> supersede_if_live i old new | None \<Rightarrow> ret ()) (\<lambda>_.
     bind_op (write_entries i xs) (\<lambda>results. ret (new # results))))"

fun write_attributes :: "memory_id \<Rightarrow> participant_attribute list \<Rightarrow> entry_id option list block_op" where
  "write_attributes i [] = ret []"
| "write_attributes i (x # xs) =
     bind_op (case pa_text x of
        Some text \<Rightarrow>
          bind_op (append i text public_append) (\<lambda>new.
          bind_op (case pa_supersedes x of Some old \<Rightarrow> supersede_if_live i old new | None \<Rightarrow> ret ()) (\<lambda>_. ret (Some new)))
      | None \<Rightarrow>
          bind_op (case pa_supersedes x of Some old \<Rightarrow> retract_if_live i old | None \<Rightarrow> ret ()) (\<lambda>_. ret None)) (\<lambda>result.
     bind_op (write_attributes i xs) (\<lambda>results. ret (result # results)))"

definition USIZE_MAX :: nat where "USIZE_MAX = 2 ^ 64 - 1"

text \<open>The block of a connector's write: on a panic or an error its events are dropped with it.\<close>

definition connector_block :: "engine \<Rightarrow> graph \<Rightarrow> memory_block outcome" where
  "connector_block eng g =
     andthen (block_new (eng\<lparr>en_graph := g\<rparr>) Teller_Agent Authority_Platform None None [] USIZE_MAX) (\<lambda>b.
       Inr (authored_by_connector b))"

definition connector_write ::
  "'s store_ops \<Rightarrow> engine \<Rightarrow> timestamp \<Rightarrow> string \<Rightarrow> 'a block_op \<Rightarrow> ('s, 'a) server_op" where
  "connector_write ops eng t plat body w =
     (case connector_block eng (ps_graph w) of
        Inl f \<Rightarrow> (Inl (InstanceError_Graph f), w)
      | Inr b \<Rightarrow>
          (case body b of
             (Inl e, _) \<Rightarrow> (Inl (InstanceError_Memory e), w)
           | (Inr results, b') \<Rightarrow>
               bind_server (commit ops t (EventSource_PlatformConnector plat) (fx_events (into_effects b'))) (\<lambda>_.
               bind_server (fold_log (en_jiff eng) ops) (\<lambda>_ w. (Inr results, w))) w))"

definition write_context ::
  "'s store_ops \<Rightarrow> engine \<Rightarrow> timestamp \<Rightarrow> timestamp \<Rightarrow> nat \<Rightarrow> conversation_locator \<Rightarrow> string \<Rightarrow> context_entry list
    \<Rightarrow> ('s, context_outcome) server_op" where
  "write_context ops eng t1 t2 fresh l plat requested w =
     bind_server (on_store (resolve_or_mint_context (en_jiff eng) ops t1 fresh (ps_graph w) l)) (\<lambda>i.
     bind_server (fold_log (en_jiff eng) ops) (\<lambda>_.
       if requested = [] then (\<lambda>w. (Inr \<lparr>co_memory_id = i, co_entries = []\<rparr>, w))
       else bind_server (connector_write ops eng t2 plat (write_entries i requested)) (\<lambda>results w.
              (Inr \<lparr>co_memory_id = i, co_entries = results\<rparr>, w)))) w"

definition project ::
  "'s store_ops \<Rightarrow> engine \<Rightarrow> timestamp \<Rightarrow> timestamp \<Rightarrow> nat \<Rightarrow> link_node \<Rightarrow> string \<Rightarrow> participant_attribute list
    \<Rightarrow> ('s, project_outcome) server_op" where
  "project ops eng t1 t2 fresh target plat attributes =
     bind_server (resolve_or_mint_node (en_jiff eng) ops t1 fresh target) (\<lambda>i.
       if attributes = [] then (\<lambda>w. (Inr \<lparr>po_memory_id = i, po_entries = []\<rparr>, w))
       else bind_server (connector_write ops eng t2 plat (write_attributes i attributes)) (\<lambda>results w.
              (Inr \<lparr>po_memory_id = i, po_entries = results\<rparr>, w)))"

section \<open>Rosters\<close>

text \<open>The people a batch or a roster names, each once, and what a roster changes of a session's members.\<close>

definition unique_people :: "person_id list \<Rightarrow> person_id list" where
  "unique_people = dedup_by (\<lambda>p. p) []"

definition roster_arrivals :: "memory_id list \<Rightarrow> person_id list \<Rightarrow> memory_id list \<Rightarrow> (person_id \<times> memory_id) list" where
  "roster_arrivals members people present_ids = dedup_by snd members (zip people present_ids)"

definition roster_departures :: "memory_id list \<Rightarrow> memory_id list \<Rightarrow> nat" where
  "roster_departures members present_ids = length (filter (\<lambda>m. m \<notin> set present_ids) members)"

fun resolve_people :: "jiff \<Rightarrow> 's store_ops \<Rightarrow> (person_id \<times> timestamp \<times> nat) list \<Rightarrow> ('s, memory_id list) server_op" where
  "resolve_people J ops [] w = (Inr [], w)"
| "resolve_people J ops ((p, t, fresh) # ps) w =
     bind_server (resolve_or_mint_person J ops t fresh p) (\<lambda>i.
     bind_server (resolve_people J ops ps) (\<lambda>is w. (Inr (i # is), w))) w"

definition self_memory_id :: "jiff \<Rightarrow> graph \<Rightarrow> memory_id outcome" where
  "self_memory_id J g =
     andthen (self_memory J g) (\<lambda>m.
       case m of Some v \<Rightarrow> Inr (mv_id v)
       | None \<Rightarrow> Inl (Err (GraphError_Malformed ''the reserved `self` memory is absent, which cannot occur after genesis'')))"

section \<open>Contact over a store that keeps the laws\<close>

text \<open>The graph holds the whole log.\<close>

definition synced :: "jiff \<Rightarrow> ('s \<Rightarrow> event list) \<Rightarrow> ('s \<Rightarrow> bool) \<Rightarrow> 's platform_state \<Rightarrow> bool" where
  "synced J lg ok w \<longleftrightarrow> ok (ps_store w) \<and> at_head J (lg (ps_store w)) (length (lg (ps_store w))) (ps_graph w)"

text \<open>The name a node's memory is minted under, and the events that bind the node to it.\<close>

definition node_name :: "link_node \<Rightarrow> memory_name" where
  "node_name node =
     (case node of
        LinkNode_Participant p \<Rightarrow> participant_name (person_platform p) (person_user p)
      | LinkNode_Context l \<Rightarrow> context_name l)"

definition binding_events :: "link_node \<Rightarrow> memory_id \<Rightarrow> event_payload list" where
  "binding_events node i =
     (case node of
        LinkNode_Participant p \<Rightarrow> [ParticipantIdentified i (person_platform p) (person_user p)]
      | LinkNode_Context _ \<Rightarrow> [])"

lemma apply_until_None: "apply_until J evs g = (None, g') \<longleftrightarrow> foldM (apply_event J) evs g = Inr g'"
  by (induction evs arbitrary: g) (auto split: sum.splits)

lemma apply_until_Some: "foldM (apply_event J) evs g = Inl f \<Longrightarrow> \<exists>g'. apply_until J evs g = (Some f, g')"
  by (induction evs arbitrary: g) (auto split: sum.splits)

lemma person_is_node:
  "resolve_or_mint_person J ops t fresh p = resolve_or_mint_node J ops t fresh (LinkNode_Participant p)"
  by (simp add: fun_eq_iff resolve_or_mint_person_def resolve_or_mint_node_def resolve_node_on_store_def)

locale contact_store = log_projection log log_inv storable append read_from head_of truncate_to feeds subscribe J
  for log :: "'s \<Rightarrow> event list" and log_inv storable append read_from head_of truncate_to feeds subscribe J +
  fixes ops :: "'s store_ops"
  assumes ops_append: "op_append ops = append"
    and ops_read: "op_read_from ops = read_from"
    and ops_head: "op_head ops = head_of"
begin

lemma fold_log_eq:
  assumes "log_inv (ps_store w)" "at_head J (log (ps_store w)) n (ps_graph w)"
  shows "fold_log J ops w = (case apply_until J (drop n (log (ps_store w))) (ps_graph w) of
      (Some f, g) \<Rightarrow> (Inl (InstanceError_Graph f), w\<lparr>ps_graph := g\<rparr>) | (None, g) \<Rightarrow> (Inr (), w\<lparr>ps_graph := g\<rparr>))"
  by (simp add: fold_log_def ops_read read_from_drop [OF assms(1)] at_head_head [OF assms] seq_next_def)

lemma fold_log_synced: "synced J log log_inv w \<Longrightarrow> fold_log J ops w = (Inr (), w)"
  by (cases w) (auto simp: synced_def fold_log_eq)

lemma committed:
  assumes "log_inv s" "list_all (storable t src) ps"
  obtains s' where "op_append ops s t src ps = (Inr (stamp (length (log s)) t src ps), s')" "log_inv s'"
    "log s' = log s @ stamp (length (log s)) t src ps" "\<forall>n g. at_head J (log s) n g \<longrightarrow> at_head J (log s') n g"
proof -
  from append_commits [OF assms] obtain s' where
    s': "op_append ops s t src ps = (Inr (stamp (length (log s)) t src ps), s')" "log_inv s'"
      "log s' = log s @ stamp (length (log s)) t src ps"
    by (auto simp: ops_append)
  show thesis by (rule that [OF s']) (use s'(3) in \<open>simp add: at_head_def\<close>)
qed

text \<open>A commit, folded: it stays in step, or the log can never be folded again.\<close>

lemma folded:
  assumes "log_inv s'" "log s' = old @ es" "at_head J (log s') (length old) (ps_graph w)"
  shows "foldM (apply_event J) es (ps_graph w) = Inr g' \<Longrightarrow>
      fold_log J ops (w\<lparr>ps_store := s'\<rparr>) = (Inr (), w\<lparr>ps_store := s', ps_graph := g'\<rparr>)
      \<and> synced J log log_inv (w\<lparr>ps_store := s', ps_graph := g'\<rparr>)"
    and "foldM (apply_event J) es (ps_graph w) = Inl f \<Longrightarrow>
      (\<exists>g'. fold_log J ops (w\<lparr>ps_store := s'\<rparr>) = (Inl (InstanceError_Graph f), w\<lparr>ps_store := s', ps_graph := g'\<rparr>))
      \<and> (\<forall>more. foldM (apply_event J) (log s' @ more) empty_graph = Inl f)"
proof -
  have f: "fold_log J ops (w\<lparr>ps_store := s'\<rparr>) = (case apply_until J es (ps_graph w) of
      (Some f, g) \<Rightarrow> (Inl (InstanceError_Graph f), w\<lparr>ps_store := s', ps_graph := g\<rparr>)
    | (None, g) \<Rightarrow> (Inr (), w\<lparr>ps_store := s', ps_graph := g\<rparr>))"
    using fold_log_eq [of "w\<lparr>ps_store := s'\<rparr>" "length old"] assms by simp
  have old: "foldM (apply_event J) old empty_graph = Inr (ps_graph w)"
    using assms(2,3) by (simp add: at_head_def)
  { assume "foldM (apply_event J) es (ps_graph w) = Inr g'"
    then show "fold_log J ops (w\<lparr>ps_store := s'\<rparr>) = (Inr (), w\<lparr>ps_store := s', ps_graph := g'\<rparr>)
      \<and> synced J log log_inv (w\<lparr>ps_store := s', ps_graph := g'\<rparr>)"
      using f assms(1,2) old apply_until_None [of J es "ps_graph w" g'] by (simp add: synced_def at_head_def foldM_append) }
  { assume e: "foldM (apply_event J) es (ps_graph w) = Inl f"
    from apply_until_Some [OF this] obtain g' where "apply_until J es (ps_graph w) = (Some f, g')" by (elim exE)
    with f e assms(2) old show "(\<exists>g'. fold_log J ops (w\<lparr>ps_store := s'\<rparr>) = (Inl (InstanceError_Graph f), w\<lparr>ps_store := s', ps_graph := g'\<rparr>))
      \<and> (\<forall>more. foldM (apply_event J) (log s' @ more) empty_graph = Inl f)"
      by (intro conjI exI [of _ g']) (simp_all add: foldM_append) }
qed

lemma head_synced: "log_inv s \<Longrightarrow> op_head ops s = Inr (length (log s))"
  by (simp add: ops_head head_spec)

text \<open>A node that is known, and a node whose events are committed.\<close>

lemma node_known:
  assumes "synced J log log_inv w" "resolve_node_on_store J ops t fresh node (ps_graph w) (ps_store w) = (Inr i, ps_store w)"
  shows "resolve_or_mint_node J ops t fresh node w = (Inr i, w)"
  using assms head_synced [of "ps_store w"]
  by (simp add: resolve_or_mint_node_def bind_server_def store_head_def on_store_def synced_def)

lemma node_minted:
  assumes w: "synced J log log_inv w"
    and r: "resolve_node_on_store J ops t fresh node (ps_graph w) (ps_store w) = (Inr i, s')"
    and s': "log_inv s'" "log s' = log (ps_store w) @ es" "at_head J (log s') (length (log (ps_store w))) (ps_graph w)"
      "es \<noteq> []"
  shows "foldM (apply_event J) es (ps_graph w) = Inr g' \<Longrightarrow>
      resolve_or_mint_node J ops t fresh node w = (Inr i, w\<lparr>ps_store := s', ps_graph := g'\<rparr>)
      \<and> synced J log log_inv (w\<lparr>ps_store := s', ps_graph := g'\<rparr>)"
    and "foldM (apply_event J) es (ps_graph w) = Inl f \<Longrightarrow>
      fst (resolve_or_mint_node J ops t fresh node w) = Inl (InstanceError_Graph f)
      \<and> ps_store (snd (resolve_or_mint_node J ops t fresh node w)) = s'
      \<and> (\<forall>more. foldM (apply_event J) (log s' @ more) empty_graph = Inl f)"
  using w r s' head_synced [of "ps_store w"] head_synced [of s'] folded(1) [OF s'(1-3), of g'] folded(2) [OF s'(1-3), of f]
  by (auto simp: resolve_or_mint_node_def bind_server_def store_head_def on_store_def synced_def)

lemma node_commits:
  assumes w: "synced J log log_inv w" and ps: "list_all (storable t EventSource_Orchestration) ps" "ps \<noteq> []"
    and r: "\<forall>es s'. op_append ops (ps_store w) t EventSource_Orchestration ps = (Inr es, s') \<longrightarrow>
      resolve_node_on_store J ops t fresh node (ps_graph w) (ps_store w) = (Inr i, s')"
    and es: "es = stamp (length (log (ps_store w))) t EventSource_Orchestration ps"
  shows "\<exists>s'. log s' = log (ps_store w) @ es \<and> (case foldM (apply_event J) es (ps_graph w) of
      Inr g' \<Rightarrow> resolve_or_mint_node J ops t fresh node w = (Inr i, w\<lparr>ps_store := s', ps_graph := g'\<rparr>)
        \<and> synced J log log_inv (w\<lparr>ps_store := s', ps_graph := g'\<rparr>)
    | Inl f \<Rightarrow> fst (resolve_or_mint_node J ops t fresh node w) = Inl (InstanceError_Graph f)
        \<and> ps_store (snd (resolve_or_mint_node J ops t fresh node w)) = s'
        \<and> (\<forall>more. foldM (apply_event J) (log s' @ more) empty_graph = Inl f))"
proof -
  have inv: "log_inv (ps_store w)" using w by (simp add: synced_def)
  obtain s' where s': "op_append ops (ps_store w) t EventSource_Orchestration ps = (Inr es, s')" "log_inv s'"
    "log s' = log (ps_store w) @ es" "\<forall>n g. at_head J (log (ps_store w)) n g \<longrightarrow> at_head J (log s') n g"
    using committed [OF inv ps(1)] unfolding es by blast
  have at: "at_head J (log s') (length (log (ps_store w))) (ps_graph w)" using w s'(4) by (simp add: synced_def)
  have ne: "es \<noteq> []" using ps(2) es by (cases ps) simp_all
  note m = node_minted [OF w r [rule_format, OF s'(1)] s'(2,3) at ne]
  show ?thesis
    using m s'(3) by (intro exI [of _ s']) (simp split: sum.split)
qed

lemma node_commits_ok:
  assumes "synced J log log_inv w" "list_all (storable t EventSource_Orchestration) ps" "ps \<noteq> []"
    and "\<forall>es s'. op_append ops (ps_store w) t EventSource_Orchestration ps = (Inr es, s') \<longrightarrow>
      resolve_node_on_store J ops t fresh node (ps_graph w) (ps_store w) = (Inr i, s')"
    and "resolve_or_mint_node J ops t fresh node w = (Inr k, w')"
  shows "k = i \<and> synced J log log_inv w'
    \<and> foldM (apply_event J) (stamp (length (log (ps_store w))) t EventSource_Orchestration ps) (ps_graph w) = Inr (ps_graph w')"
  using node_commits [OF assms(1-4) refl] assms(5)
  by (cases "foldM (apply_event J) (stamp (length (log (ps_store w))) t EventSource_Orchestration ps) (ps_graph w)") auto

end

interpretation msc: contact_store ms_events ms_inv "\<lambda>t src p. True" ms_append ms_read_from ms_head
  ms_truncate_to ms_subscribers ms_subscribe J memory_ops for J
  by (rule contact_store.intro [OF msp.log_projection_axioms]) (unfold_locales, simp_all add: memory_ops_def)

interpretation sqc: contact_store "sq_log J S" "sq_inv J S" "sq_storable J S" "sq_append S U"
  "sq_read_from J S" sq_head sq_truncate_to sq_subscribers sq_subscribe J "sqlite_ops J S U" for J S U
  by (rule contact_store.intro [OF sqp.log_projection_axioms]) (unfold_locales, simp_all add: sqlite_ops_def)

section \<open>First contact\<close>

lemma minted_rows:
  assumes "apply_memory_created n t i name g = Inr g'"
  shows "memories g' = memories g @ [\<lparr>m_id = i, m_name = name_str name, m_description = [], m_volatility = ''Medium'',
        m_deleted = False, m_created_at = t, m_class_id = i, m_designated_primary = False,
        m_last_content_seq = n, m_last_described_seq = 0\<rparr>]"
    and "participant_identities g' = participant_identities g" "conversations g' = conversations g"
    and "memory_tags g' = memory_tags g"
  using assms by (auto simp: apply_memory_created_def insert_memory_def andthen_Inr_iff)

lemma created_iff:
  "is_ok (apply_memory_created n t i name g) \<longleftrightarrow> i \<notin> set (memory_ids g) \<and> name_str name \<notin> m_name ` set (memories g)"
  by (auto simp: is_ok_iff apply_memory_created_def insert_memory_def andthen_Inr_iff)

text \<open>A name no live memory holds is free exactly when no deleted memory holds it.\<close>

definition deleted_holds :: "graph \<Rightarrow> memory_name \<Rightarrow> bool" where
  "deleted_holds g name \<longleftrightarrow> list_ex (\<lambda>r. m_deleted r \<and> m_name r = name_str name) (memories g)"

lemma free_name:
  "memory_by_name J g name = Inr None \<Longrightarrow> name_str name \<in> m_name ` set (memories g) \<longleftrightarrow> deleted_holds g name"
  unfolding memory_by_name_absent deleted_holds_def list_ex_iff image_iff by metis

definition mint_events :: "link_node \<Rightarrow> memory_id \<Rightarrow> event_payload list" where
  "mint_events node i = MemoryCreated i (node_name node) # binding_events node i"

lemma unseen_node:
  assumes "resolve_node J node g = Inr None" "memory_by_name J g (node_name node) = Inr None"
    and "op_append ops s t EventSource_Orchestration (mint_events node (MemoryId fresh)) = (Inr es, s')"
  shows "resolve_node_on_store J ops t fresh node g s = (Inr (MemoryId fresh), s')"
  using assms
  by (auto simp: resolve_node_on_store_def resolve_node_def node_name_def mint_events_def binding_events_def
      resolve_or_mint_participant_def resolve_or_mint_context_def participant_name_def append_to_def in_context_def Let_def
      split: link_node.splits)

lemma mint_events_fold:
  assumes "MemoryId fresh \<notin> set (memory_ids g)" "memory_by_name J g (node_name node) = Inr None"
    and "es = stamp n t EventSource_Orchestration (mint_events node (MemoryId fresh))"
  shows "deleted_holds g (node_name node) \<Longrightarrow>
      foldM (apply_event J) es g = Inl (Err (GraphError_Backend (NotUnique ''memories.name'')))"
    and "\<not> deleted_holds g (node_name node) \<Longrightarrow> \<exists>g'. foldM (apply_event J) es g = Inr g'"
  using assms free_name [OF assms(2)]
  by (auto simp: mint_events_def binding_events_def apply_event_def apply_payload_def apply_memory_created_def insert_memory_def
      apply_participant_identified_def insert_or_ignore_identity_def require_def db_fail_def memory_ids_def Let_def
      split: link_node.splits)

lemma resolved_node:
  "resolve_node J node g = Inr (Some i) \<Longrightarrow> resolve_node_on_store J ops t fresh node g s = (Inr i, s)"
  by (auto simp: resolve_node_on_store_def resolve_node_def resolve_context_def andthen_Inr_iff resolve_or_mint_context_def
      resolve_or_mint_participant_def in_context_def split: link_node.splits option.splits)

lemma unresolved_node:
  "resolve_node J node g = Inl f \<Longrightarrow> fst (resolve_node_on_store J ops t fresh node g s) \<noteq> Inr i"
  "memory_by_name J g (node_name node) = Inl f \<Longrightarrow> resolve_node J node g = Inr None \<Longrightarrow>
    fst (resolve_node_on_store J ops t fresh node g s) \<noteq> Inr i"
  by (auto simp: resolve_node_on_store_def resolve_node_def resolve_context_def resolve_or_mint_context_def node_name_def
      participant_name_def resolve_or_mint_participant_def in_context_def
      split: link_node.splits option.splits sum.splits)

text \<open>A participant whose name a live memory holds is bound to it.\<close>

lemma bound_node:
  assumes "resolve_node J node g = Inr None" "memory_by_name J g (node_name node) = Inr (Some m)"
  shows "binding_events node (mv_id m) \<noteq> []"
    and "op_append ops s t EventSource_Orchestration (binding_events node (mv_id m)) = (Inr es, s') \<Longrightarrow>
      resolve_node_on_store J ops t fresh node g s = (Inr (mv_id m), s')"
  using assms
  by (auto simp: resolve_node_on_store_def resolve_node_def node_name_def binding_events_def resolve_context_def
      resolve_or_mint_participant_def resolve_or_mint_context_def participant_name_def append_to_def in_context_def Let_def
      split: link_node.splits)

lemma bound_participant:
  "participant_for g plat user = None \<Longrightarrow> apply_participant_identified i plat user g = Inr g' \<Longrightarrow> participant_for g' plat user = Some i"
  by (auto simp: participant_for_def apply_participant_identified_def insert_or_ignore_identity_def andthen_Inr_iff find_None_all
      find_append_last image_iff split: if_splits option.splits)

lemma minted_context:
  assumes "memory_by_name J g name = Inr None" "apply_memory_created n t i name g = Inr g'" "ts_in_range J t"
  shows "\<exists>m. memory_by_name J g' name = Inr (Some m) \<and> mv_id m = i"
proof -
  have none: "List.find (\<lambda>r. m_name r = name_str name \<and> \<not> m_deleted r) (memories g) = None"
    using assms(1) unfolding memory_by_name_absent find_None_all by auto
  moreover have "volatility_from_str ''Medium'' = Some Volatility_Medium" by code_simp
  ultimately show ?thesis
    using assms(3) minted_rows(1) [OF assms(2)]
    by (simp add: memory_by_name_def fetch_memory_def find_append_last assemble_memory_def opt_column_def parse_or_def timestamp_column_def
        try_from_millis_def)
qed

text \<open>What a resolved first contact leaves in the graph.\<close>

lemma minted_node:
  assumes "resolve_node J node g = Inr None" "memory_by_name J g (node_name node) = Inr None" "ts_in_range J t"
    and "foldM (apply_event J) (stamp n t EventSource_Orchestration (mint_events node i)) g = Inr g'"
  shows "resolve_node J node g' = Inr (Some i)"
proof (cases node)
  case (LinkNode_Participant p)
  from assms(4) obtain g1 where
    g1: "apply_memory_created (seq_next n) t i (node_name node) g = Inr g1"
      "foldM (apply_event J) (stamp (seq_next n) t EventSource_Orchestration (binding_events node i)) (g1\<lparr>graph_head := Some (seq_next n)\<rparr>) = Inr g'"
    by (auto simp: mint_events_def apply_event_def apply_payload_def andthen_Inr_iff Let_def)
  let ?g1 = "g1\<lparr>graph_head := Some (seq_next n)\<rparr>"
  from g1(2) LinkNode_Participant obtain g2 where
    g2: "apply_participant_identified i (person_platform p) (person_user p) ?g1 = Inr g2" "participant_identities g' = participant_identities g2"
    by (auto simp: binding_events_def apply_event_def apply_payload_def andthen_Inr_iff Let_def)
  have "participant_for ?g1 (person_platform p) (person_user p) = None"
    using assms(1) minted_rows(2) [OF g1(1)] LinkNode_Participant by (simp add: participant_for_def resolve_node_def)
  from bound_participant [OF this g2(1)] g2(2) LinkNode_Participant show ?thesis
    by (simp add: participant_for_def resolve_node_def)
next
  case (LinkNode_Context l)
  from assms(4) LinkNode_Context obtain g1 where
    g1: "apply_memory_created (seq_next n) t i (context_name l) g = Inr g1" "g' = g1\<lparr>graph_head := Some (seq_next n)\<rparr>"
    by (auto simp: mint_events_def binding_events_def node_name_def apply_event_def apply_payload_def andthen_Inr_iff Let_def)
  have none: "memory_by_name J g (context_name l) = Inr None" using assms(2) LinkNode_Context by (simp add: node_name_def)
  from minted_context [OF none g1(1) assms(3)] obtain m where m: "memory_by_name J g1 (context_name l) = Inr (Some m)" "mv_id m = i"
    by (elim exE conjE)
  have "memory_by_name J g' (context_name l) = memory_by_name J g1 (context_name l)"
    by (simp add: g1(2) memory_by_name_def fetch_memory_def assemble_memory_def [abs_def] tags_of_def)
  with m LinkNode_Context show ?thesis by (simp add: resolve_node_def resolve_context_def)
qed

text \<open>
  C38: a first contact either mints or wedges. When a participant or a scope nobody has seen is resolved at the head of the durable
  log, the contact mints its memory and leaves the graph at the head; unless a soft-deleted memory still holds the name. Then the
  mint is committed although no fold accepts it: the contact fails, and so does every later fold of the log, whatever follows.
\<close>

theorem first_contact_mints_or_wedges:
  assumes "synced J (sq_log J S) (sq_inv J S) w"
    and "resolve_node J node (ps_graph w) = Inr None" "memory_by_name J (ps_graph w) (node_name node) = Inr None"
    and "MemoryId fresh \<notin> set (memory_ids (ps_graph w))"
    and "list_all (sq_storable J S t EventSource_Orchestration) (mint_events node (MemoryId fresh))"
    and "resolve_or_mint_node J (sqlite_ops J S U) t fresh node w = (r, w')"
  shows "map ev_payload (sq_log J S (ps_store w')) = map ev_payload (sq_log J S (ps_store w)) @ mint_events node (MemoryId fresh)
    \<and> (if deleted_holds (ps_graph w) (node_name node)
       then (\<exists>f. r = Inl (InstanceError_Graph f) \<and> (\<forall>more. foldM (apply_event J) (sq_log J S (ps_store w') @ more) empty_graph = Inl f))
       else r = Inr (MemoryId fresh) \<and> synced J (sq_log J S) (sq_inv J S) w')"
proof -
  let ?es = "stamp (length (sq_log J S (ps_store w))) t EventSource_Orchestration (mint_events node (MemoryId fresh))"
  have ne: "mint_events node (MemoryId fresh) \<noteq> []" by (simp add: mint_events_def)
  have fresh: "\<forall>es s'. op_append (sqlite_ops J S U) (ps_store w) t EventSource_Orchestration (mint_events node (MemoryId fresh)) = (Inr es, s')
      \<longrightarrow> resolve_node_on_store J (sqlite_ops J S U) t fresh node (ps_graph w) (ps_store w) = (Inr (MemoryId fresh), s')"
    by (intro allI impI) (rule unseen_node [OF assms(2,3)])
  from sqc.node_commits [OF assms(1,5) ne fresh refl] obtain s' where
    s': "sq_log J S s' = sq_log J S (ps_store w) @ ?es"
    "case foldM (apply_event J) ?es (ps_graph w) of
       Inr g' \<Rightarrow> resolve_or_mint_node J (sqlite_ops J S U) t fresh node w = (Inr (MemoryId fresh), w\<lparr>ps_store := s', ps_graph := g'\<rparr>)
         \<and> synced J (sq_log J S) (sq_inv J S) (w\<lparr>ps_store := s', ps_graph := g'\<rparr>)
     | Inl f \<Rightarrow> fst (resolve_or_mint_node J (sqlite_ops J S U) t fresh node w) = Inl (InstanceError_Graph f)
         \<and> ps_store (snd (resolve_or_mint_node J (sqlite_ops J S U) t fresh node w)) = s'
         \<and> (\<forall>more. foldM (apply_event J) (sq_log J S s' @ more) empty_graph = Inl f)"
    by (elim exE conjE)
  show ?thesis
  proof (cases "deleted_holds (ps_graph w) (node_name node)")
    case True
    from mint_events_fold(1) [OF assms(4,3) refl True] True s' assms(6) show ?thesis by auto
  next
    case False
    from mint_events_fold(2) [OF assms(4,3) refl False, of "length (sq_log J S (ps_store w))" t] obtain g' where "foldM (apply_event J) ?es (ps_graph w) = Inr g'"
      by (elim exE)
    with False s' assms(6) show ?thesis by auto
  qed
qed

lemma bound_folded:
  assumes "resolve_node J node g = Inr None" "memory_by_name J g (node_name node) = Inr (Some m)"
    and "foldM (apply_event J) (stamp n t EventSource_Orchestration (binding_events node i)) g = Inr g'"
  shows "resolve_node J node g' = Inr (Some i)"
proof (cases node)
  case (LinkNode_Participant p)
  with assms(3) obtain g2 where
    g2: "apply_participant_identified i (person_platform p) (person_user p) g = Inr g2" "participant_identities g' = participant_identities g2"
    by (auto simp: binding_events_def apply_event_def apply_payload_def andthen_Inr_iff Let_def)
  have "participant_for g (person_platform p) (person_user p) = None"
    using assms(1) LinkNode_Participant by (simp add: resolve_node_def)
  from bound_participant [OF this g2(1)] g2(2) LinkNode_Participant show ?thesis
    by (simp add: participant_for_def resolve_node_def)
next
  case (LinkNode_Context l)
  with assms(1,2) show ?thesis by (simp add: resolve_node_def resolve_context_def node_name_def)
qed

text \<open>The events a contact of a node may commit can be stored.\<close>

definition contact_storable :: "jiff \<Rightarrow> serde \<Rightarrow> timestamp \<Rightarrow> nat \<Rightarrow> link_node \<Rightarrow> graph \<Rightarrow> bool" where
  "contact_storable J S t fresh node g \<longleftrightarrow>
     (let i = (case memory_by_name J g (node_name node) of Inr (Some m) \<Rightarrow> mv_id m | _ \<Rightarrow> MemoryId fresh)
      in list_all (sq_storable J S t EventSource_Orchestration) (mint_events node i))"

lemma contact_resolves:
  assumes w: "synced J (sq_log J S) (sq_inv J S) w"
    and r: "resolve_or_mint_node J (sqlite_ops J S U) t fresh node w = (Inr i, w')"
    and st: "contact_storable J S t fresh node (ps_graph w)"
  shows "synced J (sq_log J S) (sq_inv J S) w' \<and> resolve_node J node (ps_graph w') = Inr (Some i)"
proof -
  have inv: "sq_inv J S (ps_store w)" using w by (simp add: synced_def)
  have err: "fst (resolve_node_on_store J (sqlite_ops J S U) t fresh node (ps_graph w) (ps_store w)) \<noteq> Inl e" for e
    using r by (auto simp: resolve_or_mint_node_def bind_server_def store_head_def on_store_def split: prod.splits sum.splits)
  then obtain j where j: "fst (resolve_node_on_store J (sqlite_ops J S U) t fresh node (ps_graph w) (ps_store w)) = Inr j"
    by (cases "fst (resolve_node_on_store J (sqlite_ops J S U) t fresh node (ps_graph w) (ps_store w))") auto
  show ?thesis
  proof (cases "resolve_node J node (ps_graph w)")
    case (Inl f)
    from j unresolved_node(1) [OF Inl] show ?thesis by metis
  next
    case (Inr known)
    show ?thesis
    proof (cases known)
      case (Some k)
      with Inr have "resolve_node_on_store J (sqlite_ops J S U) t fresh node (ps_graph w) (ps_store w) = (Inr k, ps_store w)"
        by (intro resolved_node) simp
      from sqc.node_known [OF w this] r w Inr Some show ?thesis by simp
    next
      case None
      with Inr have unseen: "resolve_node J node (ps_graph w) = Inr None" by simp
      show ?thesis
      proof (cases "memory_by_name J (ps_graph w) (node_name node)")
        case (Inl f)
        from j unresolved_node(2) [OF Inl unseen] show ?thesis by metis
      next
        case (Inr found)
        note found = Inr
        show ?thesis
        proof (cases found)
          case None
          with found have absent: "memory_by_name J (ps_graph w) (node_name node) = Inr None" by simp
          let ?ps = "mint_events node (MemoryId fresh)"
          have ps: "list_all (sq_storable J S t EventSource_Orchestration) ?ps" "?ps \<noteq> []" "ts_in_range J t"
            using st absent by (simp_all add: contact_storable_def mint_events_def sq_storable_def Let_def)
          have fresh: "\<forall>es s'. op_append (sqlite_ops J S U) (ps_store w) t EventSource_Orchestration ?ps = (Inr es, s')
              \<longrightarrow> resolve_node_on_store J (sqlite_ops J S U) t fresh node (ps_graph w) (ps_store w) = (Inr (MemoryId fresh), s')"
            by (intro allI impI) (rule unseen_node [OF unseen absent])
          note g' = sqc.node_commits_ok [OF w ps(1,2) fresh r]
          from minted_node [OF unseen absent ps(3) conjunct2 [OF conjunct2 [OF g']]] g' show ?thesis by simp
        next
          case (Some m)
          with found have live: "memory_by_name J (ps_graph w) (node_name node) = Inr (Some m)" by simp
          let ?ps = "binding_events node (mv_id m)"
          have ps: "list_all (sq_storable J S t EventSource_Orchestration) ?ps"
            using st live by (simp add: contact_storable_def mint_events_def Let_def)
          have bound: "\<forall>es s'. op_append (sqlite_ops J S U) (ps_store w) t EventSource_Orchestration ?ps = (Inr es, s')
              \<longrightarrow> resolve_node_on_store J (sqlite_ops J S U) t fresh node (ps_graph w) (ps_store w) = (Inr (mv_id m), s')"
            by (intro allI impI) (rule bound_node(2) [OF unseen live])
          note g' = sqc.node_commits_ok [OF w ps bound_node(1) [OF unseen live] bound r]
          from bound_folded [OF unseen live conjunct2 [OF conjunct2 [OF g']]] g' show ?thesis by simp
        qed
      qed
    qed
  qed
qed

text \<open>
  C32: a contact is remembered. Once a participant or a scope has been resolved at the head of the durable log, the graph is at the head
  again and knows it: resolving it once more, with or without the right to mint, answers the same memory, and commits nothing.
\<close>

theorem contact_is_remembered:
  assumes "synced J (sq_log J S) (sq_inv J S) w" "contact_storable J S t fresh node (ps_graph w)"
    and "resolve_or_mint_node J (sqlite_ops J S U) t fresh node w = (Inr i, w')"
  shows "synced J (sq_log J S) (sq_inv J S) w' \<and> resolve_node J node (ps_graph w') = Inr (Some i)
    \<and> resolve_or_mint_node J (sqlite_ops J S U) t' fresh' node w' = (Inr i, w')"
proof -
  from contact_resolves [OF assms(1,3,2)] have w': "synced J (sq_log J S) (sq_inv J S) w'" "resolve_node J node (ps_graph w') = Inr (Some i)"
    by simp_all
  from sqc.node_known [OF w'(1) resolved_node [OF w'(2)]] w' show ?thesis by simp
qed

section \<open>Rooms\<close>

lemma started_room:
  assumes "conversation_for_locator g l = None" "c \<notin> c_id ` set (conversations g)"
    and "apply_conversation_started c l m g = Inr g'"
  shows "conversation_for_locator g' l = Some c"
  using assms
  by (auto simp: conversation_for_locator_def apply_conversation_started_def insert_or_ignore_conversation_def andthen_Inr_iff
      find_None_all find_append_last image_iff split: if_splits)

text \<open>The events an opening of a room may commit can be stored.\<close>

definition room_storable :: "jiff \<Rightarrow> serde \<Rightarrow> timestamp \<Rightarrow> nat \<Rightarrow> nat \<Rightarrow> conversation_locator \<Rightarrow> graph \<Rightarrow> bool" where
  "room_storable J S t fresh_memory fresh l g \<longleftrightarrow>
     (let i = (case memory_by_name J g (context_name l) of Inr (Some m) \<Rightarrow> mv_id m | _ \<Rightarrow> MemoryId fresh_memory)
      in list_all (sq_storable J S t EventSource_Orchestration)
           [MemoryCreated i (context_name l), ConversationStarted (ConversationId fresh) l i])"

lemma context_stored:
  assumes "sq_inv J S s" "room_storable J S t fresh_memory fresh l g"
    and "resolve_or_mint_context J (sqlite_ops J S U) t fresh_memory g l s = (Inr i, s1)"
  obtains es where "sq_inv J S s1" "sq_log J S s1 = sq_log J S s @ es" "sq_storable J S t EventSource_Orchestration (ConversationStarted (ConversationId fresh) l i)"
    "\<And>g'. foldM (apply_event J) es g = Inr g' \<Longrightarrow> conversations g' = conversations g"
proof (cases "memory_by_name J g (context_name l)")
  case (Inl f)
  with assms(3) show thesis by (simp add: resolve_or_mint_context_def)
next
  case (Inr found)
  show thesis
  proof (cases found)
    case (Some m)
    with Inr assms show thesis by (intro that [of "[]"]) (auto simp: resolve_or_mint_context_def room_storable_def)
  next
    case None
    with Inr assms(2) have st: "list_all (sq_storable J S t EventSource_Orchestration) [MemoryCreated (MemoryId fresh_memory) (context_name l)]"
      "sq_storable J S t EventSource_Orchestration (ConversationStarted (ConversationId fresh) l (MemoryId fresh_memory))"
      by (simp_all add: room_storable_def Let_def)
    let ?es = "stamp (length (sq_log J S s)) t EventSource_Orchestration [MemoryCreated (MemoryId fresh_memory) (context_name l)]"
    obtain s' where s': "op_append (sqlite_ops J S U) s t EventSource_Orchestration [MemoryCreated (MemoryId fresh_memory) (context_name l)] = (Inr ?es, s')"
      "sq_inv J S s'" "sq_log J S s' = sq_log J S s @ ?es"
      by (rule sqc.committed [where U = U, OF assms(1) st(1)]) (rule that)
    have "i = MemoryId fresh_memory \<and> s1 = s'"
      using assms(3) Inr None s'(1) by (simp add: resolve_or_mint_context_def append_to_def del: stamp.simps)
    with s' st(2) show thesis
      by (intro that [of ?es]) (auto simp: apply_event_def apply_payload_def andthen_Inr_iff Let_def dest!: minted_rows(3))
  qed
qed

text \<open>
  a room is opened once. Once its conversation has been resolved at the head of the durable log, the graph is at the head again and
  knows it, and every later message to the room finds the same conversation and commits nothing.
\<close>

theorem room_is_opened_once:
  assumes w: "synced J (sq_log J S) (sq_inv J S) w" and st: "room_storable J S t fresh_memory fresh l (ps_graph w)"
    and new: "ConversationId fresh \<notin> c_id ` set (conversations (ps_graph w))"
    and r: "ensure_conversation J (sqlite_ops J S U) t fresh_memory fresh l w = (Inr c, w')"
  shows "synced J (sq_log J S) (sq_inv J S) w' \<and> conversation_for_locator (ps_graph w') l = Some c
    \<and> ensure_conversation J (sqlite_ops J S U) t' fresh_memory' fresh' l w' = (Inr c, w')"
proof -
  have known: "ensure_conversation J (sqlite_ops J S U) t fm f l v = (Inr k, v)"
    if "synced J (sq_log J S) (sq_inv J S) v" "conversation_for_locator (ps_graph v) l = Some k" for t fm f v k
    using that sqc.fold_log_synced [where U = U, OF that(1)]
    by (simp add: ensure_conversation_def resolve_or_mint_conversation_def in_context_def bind_server_def on_store_def)
  have "synced J (sq_log J S) (sq_inv J S) w' \<and> conversation_for_locator (ps_graph w') l = Some c"
  proof (cases "conversation_for_locator (ps_graph w) l")
    case (Some k)
    from known [OF w Some] r w Some show ?thesis by simp
  next
    case None
    have inv: "sq_inv J S (ps_store w)" using w by (simp add: synced_def)
    from r None obtain i s1 where
      i: "resolve_or_mint_context J (sqlite_ops J S U) t fresh_memory (ps_graph w) l (ps_store w) = (Inr i, s1)"
      by (auto simp: ensure_conversation_def bind_server_def on_store_def resolve_or_mint_conversation_def in_context_def
          split: prod.splits sum.splits)
    obtain es1 where s1: "sq_inv J S s1" "sq_log J S s1 = sq_log J S (ps_store w) @ es1"
      "list_all (sq_storable J S t EventSource_Orchestration) [ConversationStarted (ConversationId fresh) l i]"
      "\<And>g'. foldM (apply_event J) es1 (ps_graph w) = Inr g' \<Longrightarrow> conversations g' = conversations (ps_graph w)"
      by (rule context_stored [OF inv st i]) (simp add: that)
    let ?es2 = "stamp (length (sq_log J S s1)) t EventSource_Orchestration [ConversationStarted (ConversationId fresh) l i]"
    obtain s2 where s2: "op_append (sqlite_ops J S U) s1 t EventSource_Orchestration [ConversationStarted (ConversationId fresh) l i] = (Inr ?es2, s2)"
      "sq_inv J S s2" "sq_log J S s2 = sq_log J S s1 @ ?es2"
      by (rule sqc.committed [where U = U, OF s1(1,3)]) (rule that)
    have e: "ensure_conversation J (sqlite_ops J S U) t fresh_memory fresh l w =
        (case fold_log J (sqlite_ops J S U) (w\<lparr>ps_store := s2\<rparr>) of (Inl e, v) \<Rightarrow> (Inl e, v) | (Inr _, v) \<Rightarrow> (Inr (ConversationId fresh), v))"
      using None i s2(1)
      by (simp add: ensure_conversation_def bind_server_def on_store_def resolve_or_mint_conversation_def in_context_def append_to_def
          del: stamp.simps)
    have l: "sq_log J S s2 = sq_log J S (ps_store w) @ (es1 @ ?es2)" using s2(3) s1(2) by simp
    have at: "at_head J (sq_log J S s2) (length (sq_log J S (ps_store w))) (ps_graph w)"
      using w l by (simp add: synced_def at_head_def)
    note f = sqc.folded [where U = U, OF s2(2) l at]
    show ?thesis
    proof (cases "foldM (apply_event J) (es1 @ ?es2) (ps_graph w)")
      case (Inl x)
      from f(2) [OF Inl] e r show ?thesis by auto
    next
      case (Inr g')
      from f(1) [OF Inr] e r have w': "w' = w\<lparr>ps_store := s2, ps_graph := g'\<rparr>" "c = ConversationId fresh"
        "synced J (sq_log J S) (sq_inv J S) w'" by auto
      from Inr obtain g1 g2 where g1: "foldM (apply_event J) es1 (ps_graph w) = Inr g1"
        "apply_conversation_started (ConversationId fresh) l i g1 = Inr g2" "conversations g' = conversations g2"
        by (auto simp: foldM_append andthen_Inr_iff apply_event_def apply_payload_def Let_def)
      have g1': "conversations g1 = conversations (ps_graph w)" using s1(4) g1(1) .
      have "conversation_for_locator g2 l = Some (ConversationId fresh)"
        by (rule started_room [OF _ _ g1(2)]) (use None new in \<open>simp_all add: g1' conversation_for_locator_def\<close>)
      with w' g1(3) show ?thesis by (simp add: conversation_for_locator_def)
    qed
  qed
  with known show ?thesis by simp
qed

section \<open>What a connector writes\<close>

text \<open>The events that withdraw an entry of a memory, and the content an event carries.\<close>

definition withdraws :: "memory_id \<Rightarrow> event_payload \<Rightarrow> bool" where
  "withdraws i ev \<longleftrightarrow>
     (case ev of
        MemorySuperseded j _ _ \<Rightarrow> j = i
      | EntryRetracted j _ _ _ \<Rightarrow> j = i
      | AttestationRetracted j _ _ _ _ \<Rightarrow> j = i
      | _ \<Rightarrow> False)"

definition content_of :: "event_payload \<Rightarrow> (memory_id \<times> entry_id \<times> string \<times> teller \<times> conversation_ref option \<times> visibility) list" where
  "content_of ev = (case ev of MemoryContentAppended i e _ _ text t told_in v \<Rightarrow> [(i, e, text, t, told_in, v)] | _ \<Rightarrow> [])"

definition of_connector :: "memory_id \<Rightarrow> event_payload \<Rightarrow> bool" where
  "of_connector i ev \<longleftrightarrow> withdraws i ev \<or> content_of ev \<noteq> []"

lemma withdraws_of_connector: "list_all (withdraws i) evs \<Longrightarrow> list_all (of_connector i) evs"
  by (simp add: list_all_iff of_connector_def)

lemma content_of_withdrawals: "list_all (withdraws i) evs \<Longrightarrow> concat (map content_of evs) = []"
  by (induction evs) (auto simp: withdraws_def content_of_def split: event_payload.splits)

lemma guarded_target_emits: "emits Q b (guarded_target i b)"
  unfolding guarded_target_def by (intro emits_bind emits_basic)

lemma emits_connector_target:
  assumes "mb_connector_authored b" "\<And>b'. frame b' = frame b \<Longrightarrow> emits Q b' (f i b')"
  shows "emits Q b (bind_op (guarded_target i) f b)"
proof (rule emits_bind [OF guarded_target_emits])
  fix j b'
  assume "guarded_target i b = (Inr j, b')" "frame b' = frame b"
  with assms show "emits Q b' (f j b')" by (auto simp: guarded_target_result class_write_target_def)
qed

lemma supersede_withdraws: "mb_connector_authored b \<Longrightarrow> emits (withdraws i) b (supersede i old new b)"
  unfolding supersede_def
  by (rule emits_connector_target, assumption) (intro emits_bind emits_basic emits_push; simp add: withdraws_def)

lemma retract_withdraws: "mb_connector_authored b \<Longrightarrow> emits (withdraws i) b (retract i selector reason produced b)"
  unfolding retract_def reason_required_def push_withdrawals_def Let_def
  by (rule emits_connector_target, assumption)
    (intro emits_bind emits_basic emits_push emits_each emits_if emits_if_op; simp add: withdraws_def)

lemma tolerate_emits: "emits Q b (m b) \<Longrightarrow> emits Q b (tolerate_unknown_entry m b)"
  by (auto simp: tolerate_unknown_entry_def emits_def split: prod.splits sum.splits memory_error.splits)

lemma connector_append:
  assumes "append i text public_append b = (Inr e, b')" "mb_connector_authored b" "mb_teller b = Teller_Agent" "mb_told_in b = None"
  shows "frame b' = frame b \<and> (\<exists>t. mb_buffer b' = mb_buffer b @ [MemoryContentAppended i e t None text Teller_Agent None Visibility_Public])"
proof (rule run_target [OF assms(1) [unfolded append_def Let_def]], (erule run_query)+, erule run_unless, erule run_query,
    (erule run_bind)+)
  fix j name forced v u x c y d
  assume j: "class_write_target i b = Inr j"
    and forced: "reconcile_forced_visibility (opt_visibility public_append) (opt_exclude public_append) = Inr forced"
    and v: "resolve_visibility b (map_option name_str name) j (entry_teller public_append (mb_teller b)) forced = Inr v"
    and x: "push_content j text (entry_teller public_append (mb_teller b)) v (opt_occurred_at public_append) b = (Inr x, c)"
    and d: "(case opt_volatility public_append of None \<Rightarrow> ret () | Some w \<Rightarrow> push (MemoryVolatilitySet j (into_volatility w))) c = (Inr y, d)"
    and e: "ret x d = (Inr e, b')"
  have opts: "opt_volatility public_append = None" "opt_occurred_at public_append = None"
    "entry_teller public_append (mb_teller b) = Teller_Agent" "v = Visibility_Public" "j = i"
    using assms(2,3) forced v j
    by (auto simp: public_append_def default_options_def reconcile_forced_visibility_def resolve_visibility_def entry_teller_def
        class_write_target_def)
  from d e opts(1) have "b' = c" "x = e" by (simp_all add: ret_result)
  with x opts assms(4) show ?thesis unfolding push_content_result by auto
qed

text \<open>What is written of a list of attributes: one public entry for each value, in order.\<close>

definition written_of :: "memory_id \<Rightarrow> participant_attribute \<Rightarrow> entry_id option
    \<Rightarrow> (memory_id \<times> entry_id \<times> string \<times> teller \<times> conversation_ref option \<times> visibility) list" where
  "written_of i x r =
     (case (pa_text x, r) of (Some text, Some e) \<Rightarrow> [(i, e, text, Teller_Agent, None, Visibility_Public)] | _ \<Rightarrow> [])"

definition connector_at :: "memory_block \<Rightarrow> bool" where
  "connector_at b \<longleftrightarrow> mb_connector_authored b \<and> mb_teller b = Teller_Agent \<and> mb_told_in b = None"

lemma connector_at_frame: "frame b' = frame b \<Longrightarrow> connector_at b' = connector_at b"
  by (simp add: connector_at_def frame_fields [of b' b])

lemma withdrawal_step:
  assumes "emits (withdraws i) b (r, b')"
  shows "frame b' = frame b \<and> (\<exists>evs. mb_buffer b' = mb_buffer b @ evs \<and> list_all (withdraws i) evs)"
  using assms by (simp add: emits_def)

lemma optional_withdrawals:
  assumes "mb_connector_authored b"
  shows "emits (withdraws i) b ((case old of Some old \<Rightarrow> supersede_if_live i old new | None \<Rightarrow> ret ()) b)"
    and "emits (withdraws i) b ((case old of Some old \<Rightarrow> retract_if_live i old | None \<Rightarrow> ret ()) b)"
  unfolding supersede_if_live_def retract_if_live_def
  by (cases old; (simp only: option.case)?; rule emits_basic tolerate_emits; rule supersede_withdraws retract_withdraws; rule assms)+

lemma write_attribute:
  assumes "(case pa_text x of
        Some text \<Rightarrow>
          bind_op (append i text public_append) (\<lambda>new.
          bind_op (case pa_supersedes x of Some old \<Rightarrow> supersede_if_live i old new | None \<Rightarrow> ret ()) (\<lambda>_. ret (Some new)))
      | None \<Rightarrow>
          bind_op (case pa_supersedes x of Some old \<Rightarrow> retract_if_live i old | None \<Rightarrow> ret ()) (\<lambda>_. ret None)) b = (Inr r, b')"
    and "connector_at b"
  shows "frame b' = frame b \<and> (r = None \<longleftrightarrow> pa_text x = None)
    \<and> (\<exists>evs. mb_buffer b' = mb_buffer b @ evs \<and> list_all (of_connector i) evs \<and> concat (map content_of evs) = written_of i x r)"
proof (cases "pa_text x")
  case None
  with assms(1) obtain u where u: "(case pa_supersedes x of Some old \<Rightarrow> retract_if_live i old | None \<Rightarrow> ret ()) b = (Inr u, b')" "r = None"
    by (auto simp: bind_result ret_result)
  have "emits (withdraws i) b ((Inr u :: memory_error + unit), b')"
    using optional_withdrawals(2) [of b i "pa_supersedes x"] assms(2) u(1) by (simp add: connector_at_def)
  from withdrawal_step [OF this] obtain evs where e: "frame b' = frame b" "mb_buffer b' = mb_buffer b @ evs" "list_all (withdraws i) evs"
    by (elim conjE exE)
  with u(2) None content_of_withdrawals [OF e(3)] withdraws_of_connector [OF e(3)] show ?thesis by (auto simp: written_of_def)
next
  case (Some tx)
  with assms(1) obtain e c u where
    e: "append i tx public_append b = (Inr e, c)" "r = Some e"
      "(case pa_supersedes x of Some old \<Rightarrow> supersede_if_live i old e | None \<Rightarrow> ret ()) c = (Inr u, b')"
    by (auto simp: bind_result ret_result)
  from connector_append [OF e(1)] assms(2) obtain t where
    c: "frame c = frame b" "mb_buffer c = mb_buffer b @ [MemoryContentAppended i e t None tx Teller_Agent None Visibility_Public]"
    by (auto simp: connector_at_def)
  have "emits (withdraws i) c ((Inr u :: memory_error + unit), b')"
    using optional_withdrawals(1) [where b = c and i = i and old = "pa_supersedes x" and new = e] assms(2) frame_fields [OF c(1)] e(3) by (simp add: connector_at_def)
  from withdrawal_step [OF this] obtain evs where b': "frame b' = frame c" "mb_buffer b' = mb_buffer c @ evs" "list_all (withdraws i) evs"
    by (elim conjE exE)
  with c e(2) Some content_of_withdrawals [OF b'(3)] withdraws_of_connector [OF b'(3)] show ?thesis
    by (intro conjI exI [of _ "MemoryContentAppended i e t None tx Teller_Agent None Visibility_Public # evs"])
      (simp_all add: written_of_def content_of_def of_connector_def)
qed

lemma write_attributes_result:
  assumes "write_attributes i xs b = (Inr rs, b')" "connector_at b"
  shows "list_all2 (\<lambda>x r. r = None \<longleftrightarrow> pa_text x = None) xs rs
    \<and> (\<exists>evs. mb_buffer b' = mb_buffer b @ evs \<and> list_all (of_connector i) evs
          \<and> concat (map content_of evs) = concat (map2 (written_of i) xs rs))"
  using assms
proof (induction xs arbitrary: b rs)
  case (Cons x xs)
  from Cons.prems(1) obtain r c rs' where
    r: "(case pa_text x of
        Some text \<Rightarrow>
          bind_op (append i text public_append) (\<lambda>new.
          bind_op (case pa_supersedes x of Some old \<Rightarrow> supersede_if_live i old new | None \<Rightarrow> ret ()) (\<lambda>_. ret (Some new)))
      | None \<Rightarrow>
          bind_op (case pa_supersedes x of Some old \<Rightarrow> retract_if_live i old | None \<Rightarrow> ret ()) (\<lambda>_. ret None)) b = (Inr r, c)"
    and rs: "write_attributes i xs c = (Inr rs', b')" "rs = r # rs'"
    unfolding write_attributes.simps by (elim run_bind) (simp add: ret_result)
  from write_attribute [OF r Cons.prems(2)] obtain evs where
    e: "frame c = frame b" "r = None \<longleftrightarrow> pa_text x = None" "mb_buffer c = mb_buffer b @ evs" "list_all (of_connector i) evs"
      "concat (map content_of evs) = written_of i x r"
    by (elim conjE exE)
  have "connector_at c" using Cons.prems(2) connector_at_frame [OF e(1)] by simp
  from Cons.IH [OF rs(1) this] obtain evs' where
    e': "list_all2 (\<lambda>x r. r = None \<longleftrightarrow> pa_text x = None) xs rs'" "mb_buffer b' = mb_buffer c @ evs'" "list_all (of_connector i) evs'"
      "concat (map content_of evs') = concat (map2 (written_of i) xs rs')"
    by (elim conjE exE)
  with e rs(2) show ?case by (intro conjI exI [of _ "evs @ evs'"]) simp_all
qed (simp add: ret_result)

text \<open>A context write is a projection that clears nothing.\<close>

lemma write_entries_attributes:
  "write_attributes i (map (\<lambda>x. \<lparr>pa_text = Some (ce_text x), pa_supersedes = ce_supersedes x\<rparr>) xs) b =
    (case write_entries i xs b of (Inl e, b') \<Rightarrow> (Inl e, b') | (Inr rs, b') \<Rightarrow> (Inr (map Some rs), b'))"
  by (induction xs arbitrary: b) (auto simp: bind_op_def ret_def split: prod.splits sum.splits)

lemma connector_block_at: "connector_block eng g = Inr b \<Longrightarrow> connector_at b \<and> mb_buffer b = []"
  by (auto simp: connector_block_def block_new_def authored_by_connector_def connector_at_def andthen_Inr_iff Let_def)

text \<open>The codec reads back what it writes of the events of a connector.\<close>

definition connector_payload :: "event_payload \<Rightarrow> bool" where
  "connector_payload p \<longleftrightarrow>
     (case p of
        MemoryContentAppended _ _ _ _ _ _ _ _ \<Rightarrow> True
      | MemorySuperseded _ _ _ \<Rightarrow> True
      | EntryRetracted _ _ _ _ \<Rightarrow> True
      | AttestationRetracted _ _ _ _ _ \<Rightarrow> True
      | _ \<Rightarrow> False)"

definition reads_back :: "serde \<Rightarrow> bool" where
  "reads_back S \<longleftrightarrow> (\<forall>p json. connector_payload p \<longrightarrow> to_json S p = Inr json \<longrightarrow> from_json S json = Inr p)"

lemma sq_insert_all_encoded: "sq_insert_all S U t src n ps = Inr out \<Longrightarrow> list_all (\<lambda>p. is_ok (to_json S p)) ps"
  by (induction ps arbitrary: n out) (auto simp: is_ok_iff andthen_Inr_iff split: sum.splits)

lemma of_connector_storable:
  assumes "sq_append S U s t src ps = (Inr es, s')" "list_all (of_connector i) ps" "reads_back S" "ts_in_range J t"
  shows "list_all (sq_storable J S t src) ps"
proof -
  have "list_all (\<lambda>p. is_ok (to_json S p)) ps"
    using assms(1) sq_insert_all_encoded by (fastforce simp: sq_append_def split: sum.splits)
  moreover have "connector_payload p" if "of_connector i p" for p
    using that by (auto simp: of_connector_def withdraws_def content_of_def connector_payload_def split: event_payload.splits)
  ultimately show ?thesis
    using assms(2-4) by (fastforce simp: list_all_iff sq_storable_def reads_back_def is_ok_iff split: sum.splits)
qed

lemma stamped_sources: "list_all (\<lambda>e. ev_source e = src \<and> Q (ev_payload e)) (stamp n t src ps) = list_all Q ps"
  by (induction ps arbitrary: n) simp_all

lemma stamped_payloads: "map (f \<circ> ev_payload) (stamp n t src ps) = map f ps"
  by (induction ps arbitrary: n) simp_all

lemma connector_write_lands:
  assumes w: "synced (en_jiff eng) (sq_log (en_jiff eng) S) (sq_inv (en_jiff eng) S) w"
    and codec: "reads_back S" "ts_in_range (en_jiff eng) t"
    and r: "connector_write (sqlite_ops (en_jiff eng) S U) eng t plat (write_attributes i xs) w = (Inr rs, w')"
  shows "synced (en_jiff eng) (sq_log (en_jiff eng) S) (sq_inv (en_jiff eng) S) w'
    \<and> list_all2 (\<lambda>x r. r = None \<longleftrightarrow> pa_text x = None) xs rs
    \<and> (\<exists>batch. sq_log (en_jiff eng) S (ps_store w') = sq_log (en_jiff eng) S (ps_store w) @ batch
        \<and> list_all (\<lambda>e. ev_source e = EventSource_PlatformConnector plat \<and> of_connector i (ev_payload e)) batch
        \<and> concat (map (content_of \<circ> ev_payload) batch) = concat (map2 (written_of i) xs rs))"
proof -
  let ?J = "en_jiff eng" and ?ops = "sqlite_ops (en_jiff eng) S U" and ?src = "EventSource_PlatformConnector plat"
  from r obtain b b' where b: "connector_block eng (ps_graph w) = Inr b" "write_attributes i xs b = (Inr rs, b')"
    and c: "bind_server (commit ?ops t ?src (mb_buffer b')) (\<lambda>_. bind_server (fold_log ?J ?ops) (\<lambda>_ w. (Inr rs, w))) w = (Inr rs, w')"
    by (auto simp: connector_write_def into_effects_def bind_server_def split: sum.splits prod.splits)
  from write_attributes_result [OF b(2)] connector_block_at [OF b(1)] have
    res: "list_all2 (\<lambda>x r. r = None \<longleftrightarrow> pa_text x = None) xs rs" "list_all (of_connector i) (mb_buffer b')"
      "concat (map content_of (mb_buffer b')) = concat (map2 (written_of i) xs rs)" by auto
  from c obtain es s' where a: "sq_append S U (ps_store w) t ?src (mb_buffer b') = (Inr es, s')"
    by (auto simp: bind_server_def commit_def sqlite_ops_def split: prod.splits sum.splits)
  have st: "list_all (sq_storable ?J S t ?src) (mb_buffer b')" by (rule of_connector_storable [OF a res(2) codec])
  have inv: "sq_inv ?J S (ps_store w)" using w by (simp add: synced_def)
  let ?es = "stamp (length (sq_log ?J S (ps_store w))) t ?src (mb_buffer b')"
  obtain s'' where s'': "op_append ?ops (ps_store w) t ?src (mb_buffer b') = (Inr ?es, s'')" "sq_inv ?J S s''"
    "sq_log ?J S s'' = sq_log ?J S (ps_store w) @ ?es"
    by (rule sqc.committed [where U = U, OF inv st]) (rule that)
  have at: "at_head ?J (sq_log ?J S s'') (length (sq_log ?J S (ps_store w))) (ps_graph w)"
    using w s''(3) by (simp add: synced_def at_head_def)
  note f = sqc.folded [where U = U, OF s''(2,3) at]
  have c': "(case fold_log ?J ?ops (w\<lparr>ps_store := s''\<rparr>) of (Inl e, v) \<Rightarrow> (Inl e, v) | (Inr _, v) \<Rightarrow> (Inr rs, v)) = (Inr rs, w')"
    using c s''(1) by (simp add: bind_server_def commit_def)
  show ?thesis
  proof (cases "foldM (apply_event ?J) ?es (ps_graph w)")
    case (Inl x)
    from f(2) [OF Inl] c' show ?thesis by auto
  next
    case (Inr g')
    from f(1) [OF Inr] c' have w': "w' = w\<lparr>ps_store := s'', ps_graph := g'\<rparr>" "synced ?J (sq_log ?J S) (sq_inv ?J S) w'" by auto
    have "map (content_of \<circ> ev_payload) ?es = map content_of (mb_buffer b')" by (rule stamped_payloads)
    then have "concat (map (content_of \<circ> ev_payload) ?es) = concat (map2 (written_of i) xs rs)" using res(3) by simp
    moreover have "list_all (\<lambda>e. ev_source e = ?src \<and> of_connector i (ev_payload e)) ?es"
      using res(2) by (simp only: stamped_sources)
    ultimately show ?thesis using res(1) w' s''(3) by (intro conjI exI [of _ ?es]) simp_all
  qed
qed

text \<open>
  C33: what a connector projects lands where it is told to. A projection that succeeds has resolved its target, left the graph at the head
  of the log, and committed, after the events of the contact, one batch under the connector's name: for every attribute with
  a value, in order, one public entry of exactly that text on exactly that memory, told by the agent in no room, whose id it
  answers; and beside these only withdrawals on the same memory.
\<close>

theorem projection_lands:
  assumes "synced (en_jiff eng) (sq_log (en_jiff eng) S) (sq_inv (en_jiff eng) S) w"
    and "contact_storable (en_jiff eng) S t1 fresh target (ps_graph w)" "reads_back S" "ts_in_range (en_jiff eng) t2"
    and "project (sqlite_ops (en_jiff eng) S U) eng t1 t2 fresh target plat attributes w = (Inr out, w')"
  shows "synced (en_jiff eng) (sq_log (en_jiff eng) S) (sq_inv (en_jiff eng) S) w'
    \<and> list_all2 (\<lambda>x r. r = None \<longleftrightarrow> pa_text x = None) attributes (po_entries out)
    \<and> (\<exists>v batch. resolve_or_mint_node (en_jiff eng) (sqlite_ops (en_jiff eng) S U) t1 fresh target w = (Inr (po_memory_id out), v)
        \<and> sq_log (en_jiff eng) S (ps_store w') = sq_log (en_jiff eng) S (ps_store v) @ batch
        \<and> list_all (\<lambda>e. ev_source e = EventSource_PlatformConnector plat \<and> of_connector (po_memory_id out) (ev_payload e)) batch
        \<and> concat (map (content_of \<circ> ev_payload) batch) = concat (map2 (written_of (po_memory_id out)) attributes (po_entries out)))"
proof -
  let ?ops = "sqlite_ops (en_jiff eng) S U"
  from assms(5) obtain i v where i: "resolve_or_mint_node (en_jiff eng) ?ops t1 fresh target w = (Inr i, v)"
    by (auto simp: project_def bind_server_def split: prod.splits sum.splits)
  have v: "synced (en_jiff eng) (sq_log (en_jiff eng) S) (sq_inv (en_jiff eng) S) v"
    using contact_resolves [OF assms(1) i assms(2)] by simp
  show ?thesis
  proof (cases "attributes = []")
    case True
    with assms(5) i have "w' = v" "out = \<lparr>po_memory_id = i, po_entries = []\<rparr>" by (simp_all add: project_def bind_server_def)
    with v i True show ?thesis by (intro conjI exI [of _ v] exI [of _ "[]"]) simp_all
  next
    case False
    with assms(5) i obtain rs where
      r: "connector_write ?ops eng t2 plat (write_attributes i attributes) v = (Inr rs, w')" "out = \<lparr>po_memory_id = i, po_entries = rs\<rparr>"
      by (auto simp: project_def bind_server_def split: prod.splits sum.splits)
    from connector_write_lands [OF v assms(3,4) r(1)] i r(2) show ?thesis
      by (elim conjE exE) (intro conjI exI [of _ v]; simp)
  qed
qed

text \<open>
  a roster reaches the session. When every person of a roster has been resolved, each arrival is briefed once, the arrivals are the
  people present that were not members, the departures counted are the members no longer present, and with the arrivals joined everyone
  present is a member.
\<close>

theorem roster_is_reached:
  assumes "length people = length present_ids" "distinct members"
  shows "distinct (map snd (roster_arrivals members people present_ids))
    \<and> set (map snd (roster_arrivals members people present_ids)) = set present_ids - set members
    \<and> set (map fst (roster_arrivals members people present_ids)) \<subseteq> set people
    \<and> roster_departures members present_ids = card (set members - set present_ids)
    \<and> set present_ids \<subseteq> set (members @ map snd (roster_arrivals members people present_ids))"
proof -
  have a: "snd ` set (roster_arrivals members people present_ids) = set present_ids - set members
    \<and> distinct (map snd (roster_arrivals members people present_ids))"
    using dedup_by_keys [of snd members "zip people present_ids"] assms(1)
    by (simp add: roster_arrivals_def flip: set_map)
  moreover have "set (roster_arrivals members people present_ids) \<subseteq> set (zip people present_ids)"
    unfolding roster_arrivals_def by (rule dedup_by_subset)
  then have "fst ` set (roster_arrivals members people present_ids) \<subseteq> set people" using set_zip_leftD by fastforce
  moreover have "set (filter (\<lambda>m. m \<notin> set present_ids) members) = set members - set present_ids" by auto
  then have "roster_departures members present_ids = card (set members - set present_ids)"
    unfolding roster_departures_def using assms(2) distinct_card [of "filter (\<lambda>m. m \<notin> set present_ids) members"] by simp
  ultimately show ?thesis by auto
qed

definition chat_person :: "string \<Rightarrow> person_id" where
  "chat_person user = \<lparr>person_platform = ''chat'', person_user = user\<rparr>"

theorem roster_is_reached_witness:
  "set (map snd (roster_arrivals [MemoryId 1, MemoryId 2] [chat_person ''ada'', chat_person ''bob'', chat_person ''eve''] [MemoryId 2, MemoryId 3, MemoryId 3])) = {MemoryId 3}
   \<and> roster_departures [MemoryId 1, MemoryId 2] [MemoryId 2, MemoryId 3, MemoryId 3] = card {MemoryId 1}"
proof -
  have "{MemoryId 2, MemoryId 3} - {MemoryId 1, MemoryId 2} = {MemoryId 3}"
    "{MemoryId 1, MemoryId 2} - {MemoryId 2, MemoryId 3} = {MemoryId 1}" by auto
  then show ?thesis
    using roster_is_reached [of "[chat_person ''ada'', chat_person ''bob'', chat_person ''eve'']" "[MemoryId 2, MemoryId 3, MemoryId 3]" "[MemoryId 1, MemoryId 2]"] by simp
qed

end
