(* ===== verification/Wakeups.thy ===== *)
theory Wakeups
  imports Contacts
begin

text \<open>
  Scheduled work: \<open>src/memory/scheduler.rs\<close> (the firing and the drain), its callers \<open>fire_due_now\<close> of
  \<open>src/instance/drivers.rs\<close> and the drain at a session's opening of \<open>src/instance/session/lifecycle.rs\<close>.

  The firing reads the graph and appends in one section under the graph lock, and folds in another; so do the drain, the append of
  what it raises, and its fold.
\<close>

section \<open>Firing\<close>

datatype scheduler_error = SchedulerError_Store store_error | SchedulerError_Graph fault

fun from_scheduler_error :: "scheduler_error \<Rightarrow> instance_error" where
  "from_scheduler_error (SchedulerError_Store e) = InstanceError_Store e"
| "from_scheduler_error (SchedulerError_Graph e) = InstanceError_Graph e"

definition due_items :: "jiff \<Rightarrow> graph \<Rightarrow> timestamp \<Rightarrow> (memory_id \<times> entry_id) list outcome" where
  "due_items J g clock = andthen (due_recurring J g clock) (\<lambda>recurring. Inr (due_occurrences g clock @ recurring))"

definition firings :: "timestamp \<Rightarrow> (memory_id \<times> entry_id) list \<Rightarrow> event_payload list" where
  "firings clock due = map (\<lambda>(i, e). ScheduledJobFired e i clock) due"

definition fire_due :: "jiff \<Rightarrow> 's store_ops \<Rightarrow> graph \<Rightarrow> timestamp \<Rightarrow> 's \<Rightarrow> (scheduler_error, nat) result \<times> 's" where
  "fire_due J ops g clock s =
     (case due_items J g clock of
        Inl f \<Rightarrow> (Inl (SchedulerError_Graph f), s)
      | Inr due \<Rightarrow>
          (if due = [] then (Inr 0, s)
           else case op_append ops s clock EventSource_Orchestration (firings clock due) of
                  (Inl e, s') \<Rightarrow> (Inl (SchedulerError_Store e), s')
                | (Inr es, s') \<Rightarrow> (Inr (length es), s')))"

definition fire_due_now :: "jiff \<Rightarrow> 's store_ops \<Rightarrow> timestamp \<Rightarrow> ('s, nat) server_op" where
  "fire_due_now J ops clock w =
     (case fire_due J ops (ps_graph w) clock (ps_store w) of
        (Inl e, s) \<Rightarrow> (Inl (from_scheduler_error e), w\<lparr>ps_store := s\<rparr>)
      | (Inr fired, s) \<Rightarrow>
          bind_server (if fired > 0 then fold_log J ops else (\<lambda>w. (Inr (), w))) (\<lambda>_ w. (Inr fired, w)) (w\<lparr>ps_store := s\<rparr>))"

section \<open>Draining\<close>

record drained =
  dr_text :: string
  dr_entries :: "(entry_id \<times> memory_id) list"

definition format_wakeup :: "jiff \<Rightarrow> memory_view \<Rightarrow> entry_view \<Rightarrow> timestamp \<Rightarrow> string" where
  "format_wakeup J m e clock =
     ''- '' @ vw_text e @ '' ('' @ name_str (mv_name m) @ '') [''
       @ format_entry_stamp J (vw_asserted_at e) (vw_occurred_at e) clock @ '']''"

text \<open>The loop with its \<open>break\<close>: \<open>cap\<close> is what may still be raised.\<close>

fun drain_loop ::
  "jiff \<Rightarrow> fault class_of \<Rightarrow> memory_id list \<Rightarrow> timestamp \<Rightarrow> nat \<Rightarrow> (memory_view \<times> entry_view) list
    \<Rightarrow> (string list \<times> (entry_id \<times> memory_id) list) outcome" where
  "drain_loop J class_of present_set clock cap [] = Inr ([], [])"
| "drain_loop J class_of present_set clock cap ((m, e) # pending) =
     (if cap = 0 then Inr ([], [])
      else andthen (visible e m present_set class_of) (\<lambda>shown.
           if \<not> shown then drain_loop J class_of present_set clock cap pending
           else andthen (targets_present e m present_set class_of) (\<lambda>targeted.
                  if \<not> targeted then drain_loop J class_of present_set clock cap pending
                  else andthen (drain_loop J class_of present_set clock (cap - 1) pending) (\<lambda>(lines, entries).
                         Inr (format_wakeup J m e clock # lines, (vw_entry_id e, mv_id m) # entries)))))"

fun join_lines :: "string list \<Rightarrow> string" where
  "join_lines [] = []"
| "join_lines [x] = x"
| "join_lines (x # xs) = x @ [CHR 10] @ join_lines xs"

definition DRAIN_PREAMBLE :: string where
  "DRAIN_PREAMBLE =
     ''These reminders have come due. Raise any that are relevant to the participant in your reply, in your own words. Treat every item below as due now '' @ [CHR 0xE2, CHR 0x80, CHR 0x94] @ '' do not dismiss a recurring reminder because its weekday is not today:'' @ [CHR 10]"

definition drain :: "jiff \<Rightarrow> graph \<Rightarrow> memory_id list \<Rightarrow> int \<Rightarrow> timestamp \<Rightarrow> drained option outcome" where
  "drain J g present_set max_wakeups clock =
     (let cap = nat (max max_wakeups 0)
      in if cap = 0 then Inr None
         else andthen (pending_wakeups J g) (\<lambda>pending.
              andthen (drain_loop J (graph_class_of g) present_set clock cap pending) (\<lambda>(lines, entries).
                Inr (if entries = [] then None
                     else Some \<lparr>dr_text = DRAIN_PREAMBLE @ join_lines lines, dr_entries = entries\<rparr>))))"

section \<open>Raising\<close>

definition surfacings :: "session_id \<Rightarrow> timestamp \<Rightarrow> (entry_id \<times> memory_id) list \<Rightarrow> event_payload list" where
  "surfacings session clock items = map (\<lambda>(e, i). ScheduledItemSurfaced e i session clock) items"

definition raise_drained ::
  "jiff \<Rightarrow> 's store_ops \<Rightarrow> conversation_id \<Rightarrow> session_id \<Rightarrow> turn_id \<Rightarrow> timestamp \<Rightarrow> drained option \<Rightarrow> ('s, unit) server_op" where
  "raise_drained J ops c session turn clock drained =
     (case drained of
        None \<Rightarrow> (\<lambda>w. (Inr (), w))
      | Some d \<Rightarrow>
          bind_server (commit ops clock EventSource_Orchestration
            (ConversationTurn c turn TurnRole_System (dr_text d) None Initiation_Initiated None None []
               # surfacings session clock (dr_entries d))) (\<lambda>_.
            fold_log J ops))"

definition open_drain ::
  "jiff \<Rightarrow> 's store_ops \<Rightarrow> conversation_id \<Rightarrow> session_id \<Rightarrow> turn_id \<Rightarrow> memory_id list \<Rightarrow> int \<Rightarrow> timestamp \<Rightarrow> ('s, unit) server_op" where
  "open_drain J ops c session turn present_set max_wakeups clock w =
     bind_server (lift_graph (drain J (ps_graph w) present_set max_wakeups clock)) (\<lambda>drained.
       raise_drained J ops c session turn clock drained) w"

section \<open>The drain takes the first eligible items\<close>

definition eligible :: "fault class_of \<Rightarrow> memory_id list \<Rightarrow> memory_view \<times> entry_view \<Rightarrow> bool" where
  "eligible class_of present_set w \<longleftrightarrow>
     visible (snd w) (fst w) present_set class_of = Inr True \<and> targets_present (snd w) (fst w) present_set class_of = Inr True"

definition drained_item :: "memory_view \<times> entry_view \<Rightarrow> entry_id \<times> memory_id" where
  "drained_item w = (vw_entry_id (snd w), mv_id (fst w))"

lemma drain_loop_spec:
  "drain_loop J class_of present_set clock cap ws = Inr (lines, items) \<Longrightarrow>
    items = map drained_item (take cap (filter (eligible class_of present_set) ws))
    \<and> lines = map (\<lambda>w. format_wakeup J (fst w) (snd w) clock) (take cap (filter (eligible class_of present_set) ws))"
proof (induction J class_of present_set clock cap ws arbitrary: lines items rule: drain_loop.induct)
  case (2 J class_of present_set clock cap m e pending)
  show ?case
  proof (cases "cap = 0")
    case False
    from "2.prems" False obtain shown where shown: "visible e m present_set class_of = Inr shown" by (auto simp: andthen_Inr_iff)
    show ?thesis
    proof (cases shown)
      case True
      from "2.prems" False shown True obtain t where t: "targets_present e m present_set class_of = Inr t"
        by (auto simp: andthen_Inr_iff)
      show ?thesis
      proof (cases t)
        case True
        from "2.prems" False shown \<open>shown\<close> t True obtain ls js where
          r: "drain_loop J class_of present_set clock (cap - 1) pending = Inr (ls, js)"
            "lines = format_wakeup J m e clock # ls" "items = (vw_entry_id e, mv_id m) # js"
          by (auto simp: andthen_Inr_iff)
        have "eligible class_of present_set (m, e)" using shown \<open>shown\<close> t True by (simp add: eligible_def)
        moreover have "cap = Suc (cap - 1)" using False by simp
        ultimately show ?thesis
          using "2.IH"(3) [OF False shown _ t _ r(1)] \<open>shown\<close> True r(2,3)
          by (metis (no_types, lifting) drained_item_def filter.simps(2) fst_conv list.simps(9) snd_conv take_Suc_Cons)
      next
        case f: False
        with "2.IH"(2) [OF False shown _ t] "2.prems" False shown \<open>shown\<close> t show ?thesis
          by (simp add: eligible_def)
      qed
    next
      case f: False
      with "2.IH"(1) [OF False shown] "2.prems" False shown show ?thesis by (simp add: eligible_def)
    qed
  qed (use "2.prems" in simp)
qed simp

text \<open>
  what an opening session raises. The drain raises the first wake-ups that are due, visible to everyone present and meant for
  someone present, at most the cap, in order of their occurrence; and it raises nothing exactly when there is none or the cap is not
  positive.
\<close>

theorem drain_takes_first_eligible:
  assumes "drain J g present_set max_wakeups clock = Inr out" "pending_wakeups J g = Inr ws"
  shows "(case out of None \<Rightarrow> [] | Some d \<Rightarrow> dr_entries d)
      = map drained_item (take (nat max_wakeups) (filter (eligible (graph_class_of g) present_set) ws))
    \<and> (case out of None \<Rightarrow> True | Some d \<Rightarrow> dr_entries d \<noteq> [] \<and> length (dr_entries d) \<le> nat max_wakeups)"
proof (cases "nat (max max_wakeups 0) = 0")
  case True
  with assms(1) show ?thesis by (simp add: drain_def Let_def)
next
  case False
  have n: "nat (max max_wakeups 0) = nat max_wakeups" by (simp add: max_def)
  from assms False n obtain lines items where l: "drain_loop J (graph_class_of g) present_set clock (nat max_wakeups) ws = Inr (lines, items)"
    "out = (if items = [] then None else Some \<lparr>dr_text = DRAIN_PREAMBLE @ join_lines lines, dr_entries = items\<rparr>)"
    by (auto simp: drain_def Let_def andthen_Inr_iff)
  have "items = map drained_item (take (nat max_wakeups) (filter (eligible (graph_class_of g) present_set) ws))"
    using drain_loop_spec [OF l(1)] by (rule conjunct1)
  with l(2) show ?thesis by auto
qed

section \<open>A firing leaves nothing due\<close>

definition mark_fired :: "timestamp \<Rightarrow> entry_row \<Rightarrow> entry_row" where
  "mark_fired clock r = r\<lparr>e_fired_at := Some clock, e_surfaced_at := None\<rparr>"

lemma update_where_twice:
  assumes "\<And>r. e_id (f r) = e_id r" "\<And>r. f (f r) = f r"
  shows "update_where (\<lambda>r. e_id r \<in> B) f (update_where (\<lambda>r. e_id r \<in> A) f rows) = update_where (\<lambda>r. e_id r \<in> A \<union> B) f rows"
  using assms by (induction rows) (auto simp: update_where_def)

lemma fired_graph:
  "\<exists>g'. foldM (apply_event J) (stamp n t src (firings clock due)) g = Inr g'
    \<and> content_entries g' = update_where (\<lambda>r. e_id r \<in> snd ` set due) (mark_fired clock) (content_entries g) \<and> memories g' = memories g"
proof (induction due arbitrary: n g)
  case Nil
  show ?case by (simp add: firings_def update_where_def)
next
  case (Cons d due)
  obtain i e where d: "d = (i, e)" by (cases d)
  let ?g = "(update_entries (\<lambda>r. e_id r = e) (mark_fired clock) g)\<lparr>graph_head := Some (seq_next n)\<rparr>"
  have a: "apply_event J \<lparr>ev_seq = seq_next n, ev_recorded_at = t, ev_source = src, ev_payload = ScheduledJobFired e i clock\<rparr> g = Inr ?g"
    by (simp add: apply_event_def apply_payload_def apply_job_fired_def mark_fired_def [abs_def] Let_def)
  from Cons.IH [of "seq_next n" ?g] obtain g' where g':
    "foldM (apply_event J) (stamp (seq_next n) t src (firings clock due)) ?g = Inr g'"
    "content_entries g' = update_where (\<lambda>r. e_id r \<in> snd ` set due) (mark_fired clock) (content_entries ?g)" "memories g' = memories ?g"
    by (elim exE conjE)
  have "content_entries ?g = update_where (\<lambda>r. e_id r \<in> {e}) (mark_fired clock) (content_entries g)"
    by (simp add: update_entries_def)
  then have "content_entries g' = update_where (\<lambda>r. e_id r \<in> snd ` set (d # due)) (mark_fired clock) (content_entries g)"
    using g'(2) update_where_twice [of "mark_fired clock" "snd ` set due" "{e}" "content_entries g"] d
    by (simp add: mark_fired_def)
  moreover have "foldM (apply_event J) (stamp n t src (firings clock (d # due))) g = Inr g'"
    using a g'(1) d by (simp add: firings_def)
  moreover have "memories g' = memories g" using g'(3) by (simp add: update_entries_def)
  ultimately show ?case by (intro exI [of _ g'] conjI)
qed

lemma timestamp_column_Inr: "timestamp_column J x c = Inr y \<Longrightarrow> y = x"
  by (auto simp: timestamp_column_def try_from_millis_def malformed_def split: option.splits if_splits)

lemma due_recurring_loop_complete:
  "due_recurring_loop J clock rows = Inr ds \<Longrightarrow> (m, e) \<in> set rows \<Longrightarrow> recurring_rule e = Some rrule \<Longrightarrow>
   next_occurrence J rrule (e_asserted_at e) (case e_fired_at e of Some f \<Rightarrow> f | None \<Rightarrow> e_asserted_at e) = Inr (Some x) \<Longrightarrow> x \<le> clock \<Longrightarrow>
   e_id e \<in> snd ` set ds"
proof (induction J clock rows arbitrary: ds rule: due_recurring_loop.induct)
  case (2 J clock m' e' rows)
  show ?case
  proof (cases "recurring_rule e'")
    case None
    with "2.IH"(1) [OF None] "2.prems" show ?thesis by auto
  next
    case (Some rrule')
    from "2.prems"(1) Some obtain a b o' rest where
      a: "timestamp_column J (e_asserted_at e') ''asserted_at'' = Inr a"
      and b: "(case e_fired_at e' of Some millis \<Rightarrow> timestamp_column J millis ''fired_at'' | None \<Rightarrow> Inr a) = Inr b"
      and o': "next_occurrence J rrule' a b = Inr o'" and rest: "due_recurring_loop J clock rows = Inr rest"
      and ds: "ds = (case o' of Some t \<Rightarrow> (if t \<le> clock then (e_memory e', e_id e') # rest else rest) | None \<Rightarrow> rest)"
      by (auto simp: andthen_Inr_iff)
    have ab: "a = e_asserted_at e'" "b = (case e_fired_at e' of Some f \<Rightarrow> f | None \<Rightarrow> e_asserted_at e')"
      using a b by (auto dest: timestamp_column_Inr split: option.splits)
    show ?thesis
    proof (cases "(m, e) \<in> set rows")
      case True
      from "2.IH"(2) [OF Some a b _ rest True "2.prems"(3-5)] o' have "e_id e \<in> snd ` set rest" by simp
      with ds show ?thesis by (auto split: option.splits if_splits)
    next
      case False
      with "2.prems"(2) have "e = e'" by simp
      with "2.prems"(3-5) Some ab o' ds show ?thesis by auto
    qed
  qed
qed simp

lemma due_items_split:
  assumes "due_items J g clock = Inr due"
  obtains ds where "due_recurring_loop J clock (sort_key (\<lambda>r. e_seq (snd r)) (timed_rows g is_sortless)) = Inr ds"
    "due = due_occurrences g clock @ ds"
  using assms by (auto simp: due_items_def due_recurring_def andthen_Inr_iff)

lemma due_occurrence_key:
  assumes "due_items J g clock = Inr due" "(m, r) \<in> set (timed_rows g (is_due clock))"
  shows "e_id r \<in> snd ` set due"
proof -
  have "(e_memory r, e_id r) \<in> set (due_occurrences g clock)"
    unfolding due_occurrences_def set_map set_sort using assms(2) by (rule rev_image_eqI) simp
  moreover from assms(1) have "set (due_occurrences g clock) \<subseteq> set due" by (elim due_items_split) simp
  ultimately have "(e_memory r, e_id r) \<in> set due" by (rule subsetD [rotated])
  then show ?thesis by (rule rev_image_eqI) simp
qed

lemma due_recurring_key:
  assumes "due_items J g clock = Inr due" "(m, r) \<in> set (timed_rows g is_sortless)" "recurring_rule r = Some rrule"
    and "next_occurrence J rrule (e_asserted_at r) (case e_fired_at r of Some f \<Rightarrow> f | None \<Rightarrow> e_asserted_at r) = Inr (Some x)" "x \<le> clock"
  shows "e_id r \<in> snd ` set due"
proof -
  from assms(1) obtain ds where ds: "due_recurring_loop J clock (sort_key (\<lambda>r. e_seq (snd r)) (timed_rows g is_sortless)) = Inr ds"
    "due = due_occurrences g clock @ ds" by (rule due_items_split)
  have "(m, r) \<in> set (sort_key (\<lambda>r. e_seq (snd r)) (timed_rows g is_sortless))" using assms(2) by simp
  from due_recurring_loop_complete [OF ds(1) this assms(3-5)] show ?thesis by (simp add: ds(2) image_Un)
qed

text \<open>Once all that is due at a time is marked fired at that time, nothing is due at that time or before.\<close>

lemma fired_not_due:
  assumes due: "due_items J g clock = Inr due" and g': "memories g' = memories g"
    "content_entries g' = update_where (\<lambda>r. e_id r \<in> snd ` set due) (mark_fired clock) (content_entries g)"
    and told: "\<forall>r \<in> set (content_entries g). e_asserted_at r \<le> clock"
    and again: "due_items J g' earlier = Inr due'" "earlier \<le> clock"
  shows "due' = []"
proof -
  have live: "live_row g' i = live_row g i" for i using g'(1) by (simp add: live_row_def)
  have row: "\<exists>r0 \<in> set (content_entries g). r = (if e_id r0 \<in> snd ` set due then mark_fired clock r0 else r0)"
    if "r \<in> set (content_entries g')" for r
    using that unfolding g'(2) update_where_def by auto
  have "due_occurrences g' earlier = []"
  proof (rule ccontr)
    assume "due_occurrences g' earlier \<noteq> []"
    then have "set (sort_key by_occurrence (timed_rows g' (is_due earlier))) \<noteq> {}"
      by (auto simp: due_occurrences_def simp del: set_sort)
    then obtain m r where r: "(m, r) \<in> set (timed_rows g' (is_due earlier))" by (metis all_not_in_conv prod.exhaust set_sort)
    then obtain r0 where r0: "r0 \<in> set (content_entries g)" "r = (if e_id r0 \<in> snd ` set due then mark_fired clock r0 else r0)"
      using row by (auto simp: set_timed_rows)
    have "e_id r0 \<notin> snd ` set due" using r r0(2) by (auto simp: set_timed_rows is_due_def mark_fired_def split: if_splits)
    moreover from this r r0 have "(m, r0) \<in> set (timed_rows g (is_due clock))"
      using again(2) by (auto simp: set_timed_rows is_due_def live split: option.splits)
    ultimately show False using due_occurrence_key [OF due] by blast
  qed
  moreover have "ds = []" if ds: "due_recurring J g' earlier = Inr ds" for ds
  proof (rule ccontr)
    assume "ds \<noteq> []"
    then obtain i e where "(i, e) \<in> set ds" by (metis ex_in_conv prod.collapse set_empty)
    from due_recurring_loop_mem [OF ds [unfolded due_recurring_def] this] obtain m r rrule x where
      r: "(m, r) \<in> set (timed_rows g' is_sortless)" "recurring_rule r = Some rrule" "x \<le> earlier"
      and n: "next_occurrence J rrule (e_asserted_at r) (case e_fired_at r of Some f \<Rightarrow> f | None \<Rightarrow> e_asserted_at r) = Inr (Some x)"
      by (simp only: set_sort) (elim exE conjE, rule that, assumption+)
    then obtain r0 where r0: "r0 \<in> set (content_entries g)" "r = (if e_id r0 \<in> snd ` set due then mark_fired clock r0 else r0)"
      using row by (auto simp: set_timed_rows)
    show False
    proof (cases "e_id r0 \<in> snd ` set due")
      case True
      with r0 told have "e_fired_at r = Some clock" "e_asserted_at r \<le> clock" by (simp_all add: mark_fired_def)
      with next_occurrence_after [OF n] r(3) again(2) show False by simp
    next
      case False
      with r r0 have "(m, r0) \<in> set (timed_rows g is_sortless)" by (auto simp: set_timed_rows live)
      moreover have "r0 = r" using False r0(2) by simp
      moreover have "x \<le> clock" using r(3) again(2) by simp
      ultimately show False using due_recurring_key [OF due _ r(2) n] False by simp
    qed
  qed
  ultimately show ?thesis using again(1) by (auto simp: due_items_def andthen_Inr_iff)
qed

text \<open>
  C29: firing is idempotent. At the head of the durable log, where no entry was asserted after the clock, firing marks every item that is due exactly once and leaves the graph at the
  head; and fired again at that time or an earlier one, from whichever of its two callers, it commits nothing.
\<close>

theorem firing_is_idempotent:
  assumes "synced J (sq_log J S) (sq_inv J S) w" "due_items J (ps_graph w) clock = Inr due"
    and "list_all (sq_storable J S clock EventSource_Orchestration) (firings clock due)"
    and "\<forall>r \<in> set (content_entries (ps_graph w)). e_asserted_at r \<le> clock"
    and "fire_due_now J (sqlite_ops J S U) clock w = (Inr n, w')"
  shows "n = length due \<and> synced J (sq_log J S) (sq_inv J S) w'
    \<and> map ev_payload (sq_log J S (ps_store w')) = map ev_payload (sq_log J S (ps_store w)) @ firings clock due
    \<and> (\<forall>earlier m w''. earlier \<le> clock \<longrightarrow> fire_due_now J (sqlite_ops J S U) earlier w' = (Inr m, w'') \<longrightarrow> m = 0 \<and> w'' = w')"
proof -
  have stays: "m = 0 \<and> w'' = w'" if "due_items J (ps_graph w') earlier = Inr [] \<or> (\<forall>d. due_items J (ps_graph w') earlier \<noteq> Inr d)"
    "fire_due_now J (sqlite_ops J S U) earlier w' = (Inr m, w'')" for earlier m w''
    using that by (auto simp: fire_due_now_def fire_due_def bind_server_def split: sum.splits)
  have inv: "sq_inv J S (ps_store w)" using assms(1) by (simp add: synced_def)
  let ?es = "stamp (length (sq_log J S (ps_store w))) clock EventSource_Orchestration (firings clock due)"
  have w': "n = length due \<and> synced J (sq_log J S) (sq_inv J S) w'
    \<and> map ev_payload (sq_log J S (ps_store w')) = map ev_payload (sq_log J S (ps_store w)) @ firings clock due
    \<and> memories (ps_graph w') = memories (ps_graph w)
    \<and> content_entries (ps_graph w') = update_where (\<lambda>r. e_id r \<in> snd ` set due) (mark_fired clock) (content_entries (ps_graph w))"
  proof (cases "due = []")
    case True
    with assms(1,2,5) show ?thesis
      by (simp add: fire_due_now_def fire_due_def bind_server_def firings_def update_where_def)
  next
    case False
    obtain s' where s': "op_append (sqlite_ops J S U) (ps_store w) clock EventSource_Orchestration (firings clock due) = (Inr ?es, s')"
      "sq_inv J S s'" "sq_log J S s' = sq_log J S (ps_store w) @ ?es"
      by (rule sqc.committed [where U = U, OF inv assms(3)]) (rule that)
    have at: "at_head J (sq_log J S s') (length (sq_log J S (ps_store w))) (ps_graph w)"
      using assms(1) s'(3) by (simp add: synced_def at_head_def)
    obtain g' where g': "foldM (apply_event J) ?es (ps_graph w) = Inr g'"
      "content_entries g' = update_where (\<lambda>r. e_id r \<in> snd ` set due) (mark_fired clock) (content_entries (ps_graph w))"
      "memories g' = memories (ps_graph w)"
      using fired_graph [of J "length (sq_log J S (ps_store w))" clock EventSource_Orchestration clock due "ps_graph w"]
      by (elim exE conjE) (rule that)
    have len: "length (firings clock due) = length due" by (simp add: firings_def)
    have "n = length due \<and> w' = w\<lparr>ps_store := s', ps_graph := g'\<rparr> \<and> synced J (sq_log J S) (sq_inv J S) w'"
      using assms(2,5) False s'(1) sqc.folded(1) [where U = U, OF s'(2,3) at g'(1)] len
      by (simp add: fire_due_now_def fire_due_def bind_server_def)
    then have n: "n = length due" and eq: "w' = w\<lparr>ps_store := s', ps_graph := g'\<rparr>" and sy: "synced J (sq_log J S) (sq_inv J S) w'"
      by blast+
    have "map ev_payload (sq_log J S (ps_store w')) = map ev_payload (sq_log J S (ps_store w)) @ firings clock due"
      by (simp add: eq s'(3))
    moreover have "memories (ps_graph w') = memories (ps_graph w)" by (simp add: eq g'(3))
    moreover have "content_entries (ps_graph w') = update_where (\<lambda>r. e_id r \<in> snd ` set due) (mark_fired clock) (content_entries (ps_graph w))"
      by (simp add: eq g'(2))
    ultimately show ?thesis using n sy by (intro conjI)
  qed
  have "m = 0 \<and> w'' = w'" if "earlier \<le> clock" "fire_due_now J (sqlite_ops J S U) earlier w' = (Inr m, w'')" for earlier m w''
  proof (rule stays [OF _ that(2)])
    show "due_items J (ps_graph w') earlier = Inr [] \<or> (\<forall>d. due_items J (ps_graph w') earlier \<noteq> Inr d)"
      using fired_not_due [OF assms(2) _ _ assms(4) _ that(1), of "ps_graph w'"] w' by blast
  qed
  with w' show ?thesis by blast
qed

section \<open>What is raised is raised once\<close>

definition mark_surfaced :: "timestamp \<Rightarrow> entry_row \<Rightarrow> entry_row" where
  "mark_surfaced clock r = r\<lparr>e_surfaced_at := Some clock\<rparr>"

lemma surfaced_graph:
  "\<exists>g'. foldM (apply_event J) (stamp n t src (surfacings session clock items)) g = Inr g'
    \<and> content_entries g' = update_where (\<lambda>r. e_id r \<in> fst ` set items) (mark_surfaced clock) (content_entries g)
    \<and> memories g' = memories g"
proof (induction items arbitrary: n g)
  case Nil
  show ?case by (simp add: surfacings_def update_where_def)
next
  case (Cons d items)
  obtain e i where d: "d = (e, i)" by (cases d)
  let ?g = "(update_entries (\<lambda>r. e_id r = e) (mark_surfaced clock) g)\<lparr>graph_head := Some (seq_next n)\<rparr>"
  have a: "apply_event J \<lparr>ev_seq = seq_next n, ev_recorded_at = t, ev_source = src, ev_payload = ScheduledItemSurfaced e i session clock\<rparr> g
      = Inr ?g"
    by (simp add: apply_event_def apply_payload_def apply_item_surfaced_def mark_surfaced_def [abs_def] Let_def)
  from Cons.IH [of "seq_next n" ?g] obtain g' where g':
    "foldM (apply_event J) (stamp (seq_next n) t src (surfacings session clock items)) ?g = Inr g'"
    "content_entries g' = update_where (\<lambda>r. e_id r \<in> fst ` set items) (mark_surfaced clock) (content_entries ?g)" "memories g' = memories ?g"
    by (elim exE conjE)
  have "content_entries ?g = update_where (\<lambda>r. e_id r \<in> {e}) (mark_surfaced clock) (content_entries g)"
    by (simp add: update_entries_def)
  then have "content_entries g' = update_where (\<lambda>r. e_id r \<in> fst ` set (d # items)) (mark_surfaced clock) (content_entries g)"
    using g'(2) update_where_twice [of "mark_surfaced clock" "fst ` set items" "{e}" "content_entries g"] d
    by (simp add: mark_surfaced_def)
  moreover have "foldM (apply_event J) (stamp n t src (surfacings session clock (d # items))) g = Inr g'"
    using a g'(1) d by (simp add: surfacings_def)
  moreover have "memories g' = memories g" using g'(3) by (simp add: update_entries_def)
  ultimately show ?case by (intro exI [of _ g'] conjI)
qed

lemma timed_rows_marked:
  assumes "memories g' = memories g" "content_entries g' = update_where (\<lambda>r. e_id r \<in> A) f (content_entries g)" "\<And>r. \<not> P (f r)"
  shows "timed_rows g' P = filter (\<lambda>r. e_id (snd r) \<notin> A) (timed_rows g P)"
proof -
  have "List.map_filter h (filter (\<lambda>r. e_superseded_by r = None \<and> P r) (update_where (\<lambda>r. e_id r \<in> A) f es))
      = filter (\<lambda>r. e_id (snd r) \<notin> A) (List.map_filter h (filter (\<lambda>r. e_superseded_by r = None \<and> P r) es))"
    if "\<And>r x. h r = Some x \<Longrightarrow> snd x = r" for h :: "entry_row \<Rightarrow> (memory_row \<times> entry_row) option" and es
  proof (induction es)
    case (Cons r es)
    with assms(3) that [of r] show ?case
      by (auto simp: update_where_def List.map_filter_simps split: option.splits)
  qed (simp add: update_where_def List.map_filter_simps)
  from this [of "\<lambda>r. map_option (\<lambda>m. (m, r)) (live_row g (e_memory r))" "content_entries g"]
  have *: "List.map_filter (\<lambda>r. map_option (\<lambda>m. (m, r)) (live_row g (e_memory r)))
      (filter (\<lambda>r. e_superseded_by r = None \<and> P r) (update_where (\<lambda>r. e_id r \<in> A) f (content_entries g)))
    = filter (\<lambda>r. e_id (snd r) \<notin> A) (timed_rows g P)"
    by (auto simp: timed_rows_def)
  have "live_row g' i = live_row g i" for i using assms(1) by (simp add: live_row_def)
  then show ?thesis by (simp add: * timed_rows_def assms(2))
qed

definition wakeup_ids :: "(memory_view \<times> entry_view) list \<Rightarrow> entry_id list" where
  "wakeup_ids ws = map (\<lambda>w. vw_entry_id (snd w)) ws"

lemma raised_leave:
  assumes "memories g' = memories g" "content_entries g' = update_where (\<lambda>r. e_id r \<in> A) (mark_surfaced clock) (content_entries g)"
    and "pending_wakeups J g = Inr ws" "pending_wakeups J g' = Inr ws'"
  shows "wakeup_ids ws' = filter (\<lambda>e. e \<notin> A) (wakeup_ids ws)"
proof -
  have "timed_rows g' is_pending = filter (\<lambda>r. e_id (snd r) \<notin> A) (timed_rows g is_pending)"
    by (rule timed_rows_marked [OF assms(1,2)]) (simp add: mark_surfaced_def is_pending_def)
  then show ?thesis
    using occurrence_rows_ids [OF assms(3) [unfolded pending_wakeups_def]]
      occurrence_rows_ids [OF assms(4) [unfolded pending_wakeups_def]]
    by (simp add: wakeup_ids_def filter_map comp_def filter_sort)
qed

text \<open>
  C31: a session's opening raises its wake-ups in one batch of the log, a system turn and a mark for each, and leaves exactly the others
  pending; at the head of the log and with nothing between, what it raised is not raised again.
\<close>

theorem opening_raises_once:
  assumes w: "synced J (sq_log J S) (sq_inv J S) w"
    and d: "drain J (ps_graph w) present_set max_wakeups clock = Inr (Some d)"
    and st: "list_all (sq_storable J S clock EventSource_Orchestration)
      (ConversationTurn c turn TurnRole_System (dr_text d) None Initiation_Initiated None None [] # surfacings session clock (dr_entries d))"
    and run: "open_drain J (sqlite_ops J S U) c session turn present_set max_wakeups clock w = (r, w')"
    and ws: "pending_wakeups J (ps_graph w) = Inr ws" "pending_wakeups J (ps_graph w') = Inr ws'"
  shows "r = Inr () \<and> synced J (sq_log J S) (sq_inv J S) w'
    \<and> map ev_payload (sq_log J S (ps_store w')) = map ev_payload (sq_log J S (ps_store w))
        @ ConversationTurn c turn TurnRole_System (dr_text d) None Initiation_Initiated None None [] # surfacings session clock (dr_entries d)
    \<and> wakeup_ids ws' = filter (\<lambda>e. e \<notin> fst ` set (dr_entries d)) (wakeup_ids ws)"
proof -
  let ?turn = "ConversationTurn c turn TurnRole_System (dr_text d) None Initiation_Initiated None None []"
  let ?n = "length (sq_log J S (ps_store w))"
  let ?es = "stamp ?n clock EventSource_Orchestration (?turn # surfacings session clock (dr_entries d))"
  have inv: "sq_inv J S (ps_store w)" using w by (simp add: synced_def)
  obtain s' where s': "op_append (sqlite_ops J S U) (ps_store w) clock EventSource_Orchestration
      (?turn # surfacings session clock (dr_entries d)) = (Inr ?es, s')"
    "sq_inv J S s'" "sq_log J S s' = sq_log J S (ps_store w) @ ?es"
    by (rule sqc.committed [where U = U, OF inv st]) (rule that)
  have at: "at_head J (sq_log J S s') ?n (ps_graph w)" using w s'(3) by (simp add: synced_def at_head_def)
  let ?g = "(ps_graph w)\<lparr>graph_head := Some (seq_next ?n)\<rparr>"
  obtain g' where g': "foldM (apply_event J) (stamp (seq_next ?n) clock EventSource_Orchestration (surfacings session clock (dr_entries d))) ?g = Inr g'"
    "content_entries g' = update_where (\<lambda>r. e_id r \<in> fst ` set (dr_entries d)) (mark_surfaced clock) (content_entries ?g)"
    "memories g' = memories ?g"
    using surfaced_graph [of J "seq_next ?n" clock EventSource_Orchestration session clock "dr_entries d" ?g]
    by (elim exE conjE) (rule that)
  have f: "foldM (apply_event J) ?es (ps_graph w) = Inr g'"
    using g'(1) by (simp add: apply_event_def apply_payload_def)
  have "(r, w') = (Inr (), w\<lparr>ps_store := s', ps_graph := g'\<rparr>) \<and> synced J (sq_log J S) (sq_inv J S) (w\<lparr>ps_store := s', ps_graph := g'\<rparr>)"
    using run d s'(1) sqc.folded(1) [where U = U, OF s'(2,3) at f]
    by (simp add: open_drain_def raise_drained_def lift_graph_def bind_server_def commit_def on_store_def)
  then have r: "r = Inr ()" and eq: "w' = w\<lparr>ps_store := s', ps_graph := g'\<rparr>" and sy: "synced J (sq_log J S) (sq_inv J S) w'" by blast+
  have gw: "ps_graph w' = g'" "sq_log J S (ps_store w') = sq_log J S (ps_store w) @ ?es" by (simp_all add: eq s'(3))
  have "wakeup_ids ws' = filter (\<lambda>e. e \<notin> fst ` set (dr_entries d)) (wakeup_ids ws)"
    by (rule raised_leave [OF _ _ ws(1) ws(2) [unfolded gw]]) (simp_all add: g'(2,3))
  moreover have "map ev_payload ?es = ?turn # surfacings session clock (dr_entries d)" by simp
  ultimately show ?thesis using r sy gw(2) by simp
qed

end
