(* ===== verification/Contacts_Samples.thy ===== *)
theory Contacts_Samples
  imports Contacts
begin

text \<open>
  Concrete contacts: a codec that knows a table of payloads, a connector on an empty store, a deleted room, and a connector that
  merges two of its participants under another label of \<open>same_as\<close>.
\<close>

definition table_serde :: "event_payload list \<Rightarrow> serde" where
  "table_serde table =
     \<lparr>to_json = (\<lambda>p. if p \<in> set table then Inr (replicate (length (takeWhile (\<lambda>q. q \<noteq> p) table)) CHR ''x'') else Inl ''unsupported''),
      from_json = (\<lambda>j. if length j < length table then Inr (table ! length j) else Inl ''unsupported'')\<rparr>"

lemma takeWhile_position: "p \<in> set xs \<Longrightarrow> length (takeWhile (\<lambda>q. q \<noteq> p) xs) < length xs \<and> xs ! length (takeWhile (\<lambda>q. q \<noteq> p) xs) = p"
  by (induction xs) auto

lemma table_serde_storable: "ts_in_range J t \<Longrightarrow> p \<in> set table \<Longrightarrow> sq_storable J (table_serde table) t src p"
  using takeWhile_position [of p table] by (simp add: sq_storable_def table_serde_def)

lemma table_serde_reads_back: "reads_back (table_serde table)"
  using takeWhile_position [of _ table] by (auto simp: reads_back_def table_serde_def split: if_splits)

definition ada_chat :: link_node where
  "ada_chat = LinkNode_Participant \<lparr>person_platform = ''chat'', person_user = ''ada''\<rparr>"

definition bob_chat :: link_node where
  "bob_chat = LinkNode_Participant \<lparr>person_platform = ''chat'', person_user = ''bob''\<rparr>"

definition leads :: conversation_locator where
  "leads = \<lparr>platform = ''chat'', scope_path = ''leads''\<rparr>"

definition empty_state :: "sqlite_store platform_state" where
  "empty_state = \<lparr>ps_store = empty_sqlite, ps_graph = empty_graph\<rparr>"

lemma empty_state_synced: "synced J (sq_log J S) (sq_inv J S) empty_state"
  by (simp add: synced_def empty_state_def empty_sqlite_def sq_inv_def sq_log_def at_head_def)

abbreviation contact_serde :: serde where
  "contact_serde \<equiv> table_serde
     [MemoryCreated (MemoryId 7) (node_name ada_chat), ParticipantIdentified (MemoryId 7) ''chat'' ''ada'',
      MemoryCreated (MemoryId 8) (context_name leads), ConversationStarted (ConversationId 9) leads (MemoryId 8),
      MemoryDeleted (MemoryId 8), MemoryCreated (MemoryId 10) (context_name leads),
      MemoryContentAppended (MemoryId 7) (EntryId 1000) 100001 None ''Ada L.'' Teller_Agent None Visibility_Public]"

abbreviation contact_ops :: "sqlite_store store_ops" where
  "contact_ops \<equiv> sqlite_ops gregorian contact_serde show_nat"

lemma empty_graph_name: "memory_by_name J empty_graph name = Inr None"
  by (simp add: memory_by_name_def fetch_memory_def empty_graph_def opt_column_def)

theorem contact_is_remembered_witness:
  "\<exists>w'. resolve_or_mint_node gregorian contact_ops 5000 7 ada_chat empty_state = (Inr (MemoryId 7), w')
     \<and> resolve_or_mint_node gregorian contact_ops 6000 11 ada_chat w' = (Inr (MemoryId 7), w')"
proof -
  have r: "fst (resolve_or_mint_node gregorian contact_ops 5000 7 ada_chat empty_state) = Inr (MemoryId 7)"
    by code_simp
  then obtain w' where w': "resolve_or_mint_node gregorian contact_ops 5000 7 ada_chat empty_state = (Inr (MemoryId 7), w')"
    by (cases "resolve_or_mint_node gregorian contact_ops 5000 7 ada_chat empty_state") simp
  have "contact_storable gregorian contact_serde 5000 7 ada_chat (ps_graph empty_state)" by code_simp
  from contact_is_remembered [OF empty_state_synced this w', of 6000 11] w' show ?thesis by (intro exI [of _ w']) simp
qed

theorem room_is_opened_once_witness:
  "\<exists>w'. ensure_conversation gregorian contact_ops 5000 8 9 leads empty_state = (Inr (ConversationId 9), w')
     \<and> ensure_conversation gregorian contact_ops 6000 11 12 leads w' = (Inr (ConversationId 9), w')"
proof -
  have r: "fst (ensure_conversation gregorian contact_ops 5000 8 9 leads empty_state) = Inr (ConversationId 9)"
    by code_simp
  then obtain w' where w': "ensure_conversation gregorian contact_ops 5000 8 9 leads empty_state = (Inr (ConversationId 9), w')"
    by (cases "ensure_conversation gregorian contact_ops 5000 8 9 leads empty_state") simp
  have "room_storable gregorian contact_serde 5000 8 9 leads (ps_graph empty_state)
    \<and> ConversationId 9 \<notin> c_id ` set (conversations (ps_graph empty_state))" by code_simp
  with room_is_opened_once [OF empty_state_synced _ _ w', of 6000 11 12] w' show ?thesis by (intro exI [of _ w']) simp
qed

text \<open>A room's memory is minted and deleted.\<close>

definition deleted_state :: "sqlite_store platform_state" where
  "deleted_state =
     (let s = snd (sq_append contact_serde show_nat empty_sqlite 3000 EventSource_Operator
                [MemoryCreated (MemoryId 8) (context_name leads), MemoryDeleted (MemoryId 8)])
      in \<lparr>ps_store = s, ps_graph = (case foldM (apply_event gregorian) (sq_log gregorian contact_serde s) empty_graph of
            Inr g \<Rightarrow> g | Inl _ \<Rightarrow> empty_graph)\<rparr>)"

theorem first_contact_mints_or_wedges_witness:
  "\<exists>f. fst (resolve_or_mint_node gregorian contact_ops 5000 10 (LinkNode_Context leads) deleted_state) = Inl (InstanceError_Graph f)
     \<and> (\<forall>more. foldM (apply_event gregorian)
          (sq_log gregorian contact_serde
            (ps_store (snd (resolve_or_mint_node gregorian contact_ops 5000 10 (LinkNode_Context leads) deleted_state))) @ more) empty_graph = Inl f)"
proof -
  have s: "synced gregorian (sq_log gregorian contact_serde) (sq_inv gregorian contact_serde) deleted_state
    \<and> deleted_holds (ps_graph deleted_state) (node_name (LinkNode_Context leads))
    \<and> MemoryId 10 \<notin> set (memory_ids (ps_graph deleted_state))
    \<and> list_all (sq_storable gregorian contact_serde 5000 EventSource_Orchestration) (mint_events (LinkNode_Context leads) (MemoryId 10))"
    by code_simp
  have n: "resolve_node gregorian (LinkNode_Context leads) (ps_graph deleted_state) = Inr None
    \<and> memory_by_name gregorian (ps_graph deleted_state) (node_name (LinkNode_Context leads)) = Inr None" by code_simp
  obtain r w' where w': "resolve_or_mint_node gregorian contact_ops 5000 10 (LinkNode_Context leads) deleted_state = (r, w')"
    by (cases "resolve_or_mint_node gregorian contact_ops 5000 10 (LinkNode_Context leads) deleted_state")
  from first_contact_mints_or_wedges [OF conjunct1 [OF s] conjunct1 [OF n] conjunct2 [OF n] _ _ w'] s w' show ?thesis by auto
qed

section \<open>A projected attribute\<close>

definition met_ada :: "sqlite_store platform_state" where
  "met_ada = snd (resolve_or_mint_node gregorian contact_ops 5000 7 ada_chat empty_state)"

lemma met_ada_reads:
  "fst (resolve_or_mint_node gregorian contact_ops 5000 7 ada_chat empty_state) = Inr (MemoryId 7)
   \<and> self_memory gregorian (ps_graph met_ada) = Inr None
   \<and> memory_by_name gregorian (ps_graph met_ada) (memory_name_of operator_name) = Inr None
   \<and> is_ok (memory_by_id gregorian (ps_graph met_ada) (MemoryId 7))
   \<and> length (chars_of ''Ada L.'') = 6"
  by code_simp

definition shown_name :: participant_attribute where
  "shown_name = \<lparr>pa_text = Some ''Ada L.'', pa_supersedes = None\<rparr>"

lemma shown_name_written:
  assumes "connector_block turn_engine (ps_graph met_ada) = Inr b"
  shows "\<exists>b'. write_attributes (MemoryId 7) [shown_name] b = (Inr [Some (EntryId 1000)], b')
    \<and> mb_buffer b' = [MemoryContentAppended (MemoryId 7) (EntryId 1000) 100001 None ''Ada L.'' Teller_Agent None Visibility_Public]"
proof -
  obtain m where m: "memory_by_id gregorian (ps_graph met_ada) (MemoryId 7) = Inr m"
    using met_ada_reads by (auto simp: is_ok_iff)
  have l: "\<not> USIZE_MAX < 6" by (simp add: USIZE_MAX_def)
  show ?thesis
    using assms met_ada_reads m l
    by (auto simp: connector_block_def block_new_def authored_by_connector_def shown_name_def append_def guarded_target_def
        class_write_target_def guard_self_def guard_operator_def bind_op_def query_def ret_def public_append_def default_options_def
        entry_teller_def reconcile_forced_visibility_def resolve_visibility_def resolve_name_def read_graph_def is_exclude_def
        validate_occurred_at_def push_content_def draw_def touch_def push_def now_def turn_engine_def Let_def)
qed

lemma shown_name_projected:
  "\<exists>w'. project contact_ops turn_engine 5000 6000 7 ada_chat ''chat'' [shown_name] empty_state
    = (Inr \<lparr>po_memory_id = MemoryId 7, po_entries = [Some (EntryId 1000)]\<rparr>, w')"
proof -
  have n: "resolve_or_mint_node gregorian contact_ops 5000 7 ada_chat empty_state = (Inr (MemoryId 7), met_ada)"
    using met_ada_reads by (simp add: met_ada_def prod_eq_iff)
  obtain b where b: "connector_block turn_engine (ps_graph met_ada) = Inr b"
    using met_ada_reads by (simp add: connector_block_def block_new_def turn_engine_def Let_def)
  from shown_name_written [OF b] obtain b' where b': "write_attributes (MemoryId 7) [shown_name] b = (Inr [Some (EntryId 1000)], b')"
    "mb_buffer b' = [MemoryContentAppended (MemoryId 7) (EntryId 1000) 100001 None ''Ada L.'' Teller_Agent None Visibility_Public]"
    by (elim exE conjE)
  let ?finish = "\<lambda>rs. bind_server (commit contact_ops 6000 (EventSource_PlatformConnector ''chat'')
      [MemoryContentAppended (MemoryId 7) (EntryId 1000) 100001 None ''Ada L.'' Teller_Agent None Visibility_Public])
      (\<lambda>_. bind_server (fold_log gregorian contact_ops) (\<lambda>_ w. (Inr rs, w))) met_ada"
  have "fst (?finish [Some (EntryId 1000)]) = Inr [Some (EntryId 1000)]" by code_simp
  then obtain w' where "?finish [Some (EntryId 1000)] = (Inr [Some (EntryId 1000)], w')"
    by (cases "?finish [Some (EntryId 1000)]") simp
  moreover have "en_jiff turn_engine = gregorian" by (simp add: turn_engine_def)
  ultimately show ?thesis
    using n b b' by (intro exI [of _ w']) (simp add: project_def connector_write_def bind_server_def into_effects_def)
qed

theorem projection_lands_witness:
  "\<exists>w' (batch :: event list). fst (project contact_ops turn_engine 5000 6000 7 ada_chat ''chat'' [shown_name] empty_state)
       = Inr \<lparr>po_memory_id = MemoryId 7, po_entries = [Some (EntryId 1000)]\<rparr>
     \<and> synced gregorian (sq_log gregorian contact_serde) (sq_inv gregorian contact_serde) w'
     \<and> concat (map (content_of \<circ> ev_payload) batch)
         = [(MemoryId 7, EntryId 1000, ''Ada L.'', Teller_Agent, None, Visibility_Public)]
     \<and> list_all (\<lambda>e. ev_source e = EventSource_PlatformConnector ''chat'') batch"
proof -
  from shown_name_projected obtain w' where
    p: "project contact_ops turn_engine 5000 6000 7 ada_chat ''chat'' [shown_name] empty_state
      = (Inr \<lparr>po_memory_id = MemoryId 7, po_entries = [Some (EntryId 1000)]\<rparr>, w')" by (elim exE)
  have J: "en_jiff turn_engine = gregorian" by (simp add: turn_engine_def)
  have s: "contact_storable gregorian contact_serde 5000 7 ada_chat (ps_graph empty_state) \<and> ts_in_range gregorian 6000" by code_simp
  from projection_lands [where eng = turn_engine and S = contact_serde and U = show_nat, unfolded J,
    OF empty_state_synced conjunct1 [OF s] table_serde_reads_back conjunct2 [OF s] p]
  obtain batch :: "event list" where b: "synced gregorian (sq_log gregorian contact_serde) (sq_inv gregorian contact_serde) w'"
    "list_all (\<lambda>e. ev_source e = EventSource_PlatformConnector ''chat'' \<and> of_connector (MemoryId 7) (ev_payload e)) batch"
    "concat (map (content_of \<circ> ev_payload) batch) = concat (map2 (written_of (MemoryId 7)) [shown_name] [Some (EntryId 1000)])"
    unfolding project_outcome.simps by (elim conjE exE) (rule that)
  have "concat (map2 (written_of (MemoryId 7)) [shown_name] [Some (EntryId 1000)])
      = [(MemoryId 7, EntryId 1000, ''Ada L.'', Teller_Agent, None, Visibility_Public)]"
    by (simp add: written_of_def shown_name_def)
  with b p show ?thesis
    by (intro exI [of _ w'] exI [of _ batch]) (simp add: list_all_iff)
qed

end
