(* ===== verification/Wakeups_Samples.thy ===== *)
theory Wakeups_Samples
  imports Wakeups Contacts_Samples Sample_Log
begin

text \<open>Concrete wake-ups: the sample log's instant entry fires, is drained into one opening, and is raised twice by two openings.\<close>

section \<open>Two openings\<close>

definition told_graph :: graph where
  "told_graph =
     (case foldM (apply_event gregorian) (stamp 0 1000 EventSource_Agent sample_payloads) empty_graph of Inr g \<Rightarrow> g | Inl _ \<Rightarrow> empty_graph)"

definition told_state :: "memory_store platform_state" where
  "told_state =
     \<lparr>ps_store = snd (ms_append memory_store_new 1000 EventSource_Agent sample_payloads), ps_graph = told_graph\<rparr>"

definition fired_state :: "memory_store platform_state" where
  "fired_state = snd (fire_due_now gregorian memory_ops 100000 told_state)"

definition raised_marks :: "entry_id \<Rightarrow> memory_store platform_state \<Rightarrow> session_id list" where
  "raised_marks e w =
     List.map_filter (\<lambda>ev. case ev_payload ev of ScheduledItemSurfaced e' _ session _ \<Rightarrow> if e' = e then Some session else None | _ \<Rightarrow> None)
       (ms_events (ps_store w))"

text \<open>
  a reminder can be raised twice. The opening lets go of the graph between its drain and its append, so of two
  sessions that open at once with the same person present, each drains the reminder before the other has marked it, and each raises
  it; the comment there says that an item marked surfaced is never raised again.
\<close>

theorem reminder_raised_twice:
  "\<exists>d w1 w2. synced gregorian ms_events ms_inv fired_state
     \<and> drain gregorian (ps_graph fired_state) [MemoryId 2] 3 100500 = Inr (Some d)
     \<and> raise_drained gregorian memory_ops (ConversationId 20) (SessionId 30) (TurnId 50) 100500 (Some d) fired_state = (Inr (), w1)
     \<and> raise_drained gregorian memory_ops (ConversationId 21) (SessionId 31) (TurnId 51) 100500 (Some d) w1 = (Inr (), w2)
     \<and> raised_marks (EntryId 11) w2 = [SessionId 30, SessionId 31]"
proof -
  have "is_ok (drain gregorian (ps_graph fired_state) [MemoryId 2] 3 100500)
    \<and> (case drain gregorian (ps_graph fired_state) [MemoryId 2] 3 100500 of Inr (Some d) \<Rightarrow>
        fst (raise_drained gregorian memory_ops (ConversationId 20) (SessionId 30) (TurnId 50) 100500 (Some d) fired_state) = Inr ()
        \<and> fst (raise_drained gregorian memory_ops (ConversationId 21) (SessionId 31) (TurnId 51) 100500 (Some d)
            (snd (raise_drained gregorian memory_ops (ConversationId 20) (SessionId 30) (TurnId 50) 100500 (Some d) fired_state))) = Inr ()
        \<and> raised_marks (EntryId 11) (snd (raise_drained gregorian memory_ops (ConversationId 21) (SessionId 31) (TurnId 51) 100500 (Some d)
            (snd (raise_drained gregorian memory_ops (ConversationId 20) (SessionId 30) (TurnId 50) 100500 (Some d) fired_state))))
          = [SessionId 30, SessionId 31]
      | _ \<Rightarrow> False)" by code_simp
  moreover have "synced gregorian ms_events ms_inv fired_state" by code_simp
  ultimately show ?thesis by (auto simp: is_ok_iff prod_eq_iff split: option.splits)
qed

section \<open>One opening on the durable store\<close>

abbreviation fired_events :: "event_payload list" where
  "fired_events \<equiv> [ScheduledJobFired (EntryId 11) (MemoryId 2) 100000]"

definition wake_text :: string where
  "wake_text = (case drain gregorian (ps_graph fired_state) [MemoryId 2] 3 100500 of Inr (Some d) \<Rightarrow> dr_text d | _ \<Rightarrow> [])"

abbreviation raised_events :: "event_payload list" where
  "raised_events \<equiv>
     [ConversationTurn (ConversationId 20) (TurnId 50) TurnRole_System wake_text None Initiation_Initiated None None [],
      ScheduledItemSurfaced (EntryId 11) (MemoryId 2) (SessionId 30) 100500]"

definition wake_serde :: serde where
  "wake_serde = table_serde (sample_payloads @ fired_events @ raised_events)"

definition told_durably :: "sqlite_store platform_state" where
  "told_durably =
     \<lparr>ps_store = snd (sq_append wake_serde show_nat empty_sqlite 1000 EventSource_Agent sample_payloads), ps_graph = told_graph\<rparr>"

lemma told_durably_ready:
  "synced gregorian (sq_log gregorian wake_serde) (sq_inv gregorian wake_serde) told_durably"
  "due_items gregorian (ps_graph told_durably) 100000 = Inr [(MemoryId 2, EntryId 11)]"
  "\<forall>r \<in> set (content_entries (ps_graph told_durably)). e_asserted_at r \<le> 100000"
  subgoal by code_simp
  subgoal by code_simp
  subgoal by code_simp
  done

lemma fires_durably: "fst (fire_due_now gregorian (sqlite_ops gregorian wake_serde show_nat) 100000 told_durably) = Inr 1"
  by code_simp

theorem firing_is_idempotent_witness:
  "\<exists>w'. fire_due_now gregorian (sqlite_ops gregorian wake_serde show_nat) 100000 told_durably = (Inr 1, w')
     \<and> map ev_payload (sq_log gregorian wake_serde (ps_store w'))
         = map ev_payload (sq_log gregorian wake_serde (ps_store told_durably)) @ fired_events
     \<and> (\<forall>m w''. fire_due_now gregorian (sqlite_ops gregorian wake_serde show_nat) 100000 w' = (Inr m, w'') \<longrightarrow> m = 0 \<and> w'' = w')"
proof -
  from fires_durably obtain w' where
    w': "fire_due_now gregorian (sqlite_ops gregorian wake_serde show_nat) 100000 told_durably = (Inr 1, w')"
    by (cases "fire_due_now gregorian (sqlite_ops gregorian wake_serde show_nat) 100000 told_durably") simp
  have f: "firings 100000 [(MemoryId 2, EntryId 11)] = fired_events" by (simp add: firings_def)
  have "ts_in_range gregorian 100000" by code_simp
  then have "list_all (sq_storable gregorian wake_serde 100000 EventSource_Orchestration) (firings 100000 [(MemoryId 2, EntryId 11)])"
    by (simp add: f wake_serde_def table_serde_storable)
  from firing_is_idempotent [OF told_durably_ready(1,2) this told_durably_ready(3) w'] w' show ?thesis
    unfolding f by blast
qed

text \<open>The wake-up, drained and raised.\<close>

definition fired_durably :: "sqlite_store platform_state" where
  "fired_durably = snd (fire_due_now gregorian (sqlite_ops gregorian wake_serde show_nat) 100000 told_durably)"

lemma fired_durably_ready:
  "synced gregorian (sq_log gregorian wake_serde) (sq_inv gregorian wake_serde) fired_durably"
  "is_ok (drain gregorian (ps_graph fired_durably) [MemoryId 2] 3 100500)"
  "(case drain gregorian (ps_graph fired_durably) [MemoryId 2] 3 100500 of Inr (Some d) \<Rightarrow>
      dr_text d = wake_text \<and> dr_entries d = [(EntryId 11, MemoryId 2)] | _ \<Rightarrow> False)"
  "is_ok (pending_wakeups gregorian (ps_graph fired_durably))"
  subgoal by code_simp
  subgoal by code_simp
  subgoal by code_simp
  subgoal by code_simp
  done

lemma drained_durably:
  obtains d where "drain gregorian (ps_graph fired_durably) [MemoryId 2] 3 100500 = Inr (Some d)"
    "dr_text d = wake_text" "dr_entries d = [(EntryId 11, MemoryId 2)]"
  using fired_durably_ready(2,3) by (auto simp: is_ok_iff split: option.splits)

theorem drain_takes_first_eligible_witness:
  "\<exists>d ws. drain gregorian (ps_graph fired_durably) [MemoryId 2] 3 100500 = Inr (Some d)
     \<and> [(EntryId 11, MemoryId 2)]
         = map drained_item (take 3 (filter (eligible (graph_class_of (ps_graph fired_durably)) [MemoryId 2]) ws))"
proof -
  obtain d where d: "drain gregorian (ps_graph fired_durably) [MemoryId 2] 3 100500 = Inr (Some d)"
    "dr_entries d = [(EntryId 11, MemoryId 2)]" by (rule drained_durably)
  from fired_durably_ready(4) obtain ws where ws: "pending_wakeups gregorian (ps_graph fired_durably) = Inr ws"
    by (auto simp: is_ok_iff)
  from drain_takes_first_eligible [OF d(1) ws] d show ?thesis by (intro exI [of _ d] exI [of _ ws]) simp
qed

theorem opening_raises_once_witness:
  "\<exists>w'. open_drain gregorian (sqlite_ops gregorian wake_serde show_nat) (ConversationId 20) (SessionId 30) (TurnId 50) [MemoryId 2] 3 100500
       fired_durably = (Inr (), w')
     \<and> (\<exists>ws'. pending_wakeups gregorian (ps_graph w') = Inr ws' \<and> EntryId 11 \<notin> set (wakeup_ids ws'))"
proof -
  obtain d where d: "drain gregorian (ps_graph fired_durably) [MemoryId 2] 3 100500 = Inr (Some d)"
    "dr_text d = wake_text" "dr_entries d = [(EntryId 11, MemoryId 2)]" by (rule drained_durably)
  let ?run = "open_drain gregorian (sqlite_ops gregorian wake_serde show_nat) (ConversationId 20) (SessionId 30) (TurnId 50) [MemoryId 2] 3 100500
       fired_durably"
  obtain r w' where run: "?run = (r, w')" by (cases ?run)
  have "is_ok (pending_wakeups gregorian (ps_graph (snd ?run)))" by code_simp
  with run obtain ws' where ws': "pending_wakeups gregorian (ps_graph w') = Inr ws'" by (auto simp: is_ok_iff)
  from fired_durably_ready(4) obtain ws where ws: "pending_wakeups gregorian (ps_graph fired_durably) = Inr ws"
    by (auto simp: is_ok_iff)
  have "ts_in_range gregorian 100500" by code_simp
  then have "list_all (sq_storable gregorian wake_serde 100500 EventSource_Orchestration)
    (ConversationTurn (ConversationId 20) (TurnId 50) TurnRole_System (dr_text d) None Initiation_Initiated None None []
      # surfacings (SessionId 30) 100500 (dr_entries d))"
    by (simp add: d(2,3) surfacings_def wake_serde_def table_serde_storable)
  from opening_raises_once [OF fired_durably_ready(1) d(1) this run ws ws'] run d(3) ws' show ?thesis
    by (intro exI [of _ w'] conjI exI [of _ ws']) auto
qed

end
