(* ===== verification/Message_Refs.thy ===== *)
theory Message_Refs
  imports Graph_Memories
begin

text \<open>
  Reference tokens, \<open>crates/core/src/message_refs.rs\<close>, \<open>turn_ref.rs\<close> and \<open>mem_ref.rs\<close>: one pass over a message splits it into prose
  and references, and a reference is rebuilt as its canonical token. A text is its UTF-8 bytes, and a slice of it at a position that is not a
  character boundary panics. The printer and the parser of a ULID, from the \<open>ulid\<close> crate, are the arguments \<open>U\<close> and \<open>P\<close>; what the code relies
  on is \<open>ulid_codec\<close>.
\<close>

section \<open>Slices of a text\<close>

definition is_char_boundary :: "string \<Rightarrow> nat \<Rightarrow> bool" where
  "is_char_boundary s i \<longleftrightarrow> i = length s \<or> i < length s \<and> \<not> is_continuation (s ! i)"

text \<open>\<open>get(i..)\<close>, \<open>get(..n)\<close>, and the slice that panics.\<close>

definition get_from :: "string \<Rightarrow> nat \<Rightarrow> string option" where
  "get_from s i = (if is_char_boundary s i then Some (drop i s) else None)"

definition get_to :: "string \<Rightarrow> nat \<Rightarrow> string option" where
  "get_to s n = (if is_char_boundary s n then Some (take n s) else None)"

datatype slice_panic = SlicePanic nat nat

definition slice :: "string \<Rightarrow> nat \<Rightarrow> nat \<Rightarrow> (slice_panic, string) result" where
  "slice s i j =
     (if i \<le> j \<and> is_char_boundary s i \<and> is_char_boundary s j then Inr (drop i (take j s)) else Inl (SlicePanic i j))"

section \<open>Tokens\<close>

definition TURN_OPEN :: string where "TURN_OPEN = ''[turn:''"
definition MEM_OPEN :: string where "MEM_OPEN = ''[mem:''"
definition ULID_LEN :: nat where "ULID_LEN = 26"

definition turn_construct :: "(nat \<Rightarrow> string) \<Rightarrow> turn_id \<Rightarrow> string" where
  "turn_construct U t = TURN_OPEN @ U (turn_ulid t) @ '']''"

definition mem_construct :: "(nat \<Rightarrow> string) \<Rightarrow> memory_id \<Rightarrow> string" where
  "mem_construct U m = MEM_OPEN @ U (memory_ulid m) @ '']''"

datatype token = Token_Turn turn_id | Token_Mem memory_id

definition bracket_body_at :: "(string \<Rightarrow> nat option) \<Rightarrow> string \<Rightarrow> nat \<Rightarrow> string \<Rightarrow> nat option" where
  "bracket_body_at P txs i opener =
     (case get_from txs i of
        None \<Rightarrow> None
      | Some tail \<Rightarrow>
          (case strip_prefix opener tail of
             None \<Rightarrow> None
           | Some rest \<Rightarrow>
               (case get_to rest ULID_LEN of
                  None \<Rightarrow> None
                | Some body \<Rightarrow> (if \<not> (ULID_LEN < length rest \<and> rest ! ULID_LEN = CHR '']'') then None else P body))))"

definition token_at :: "(string \<Rightarrow> nat option) \<Rightarrow> string \<Rightarrow> nat \<Rightarrow> (token \<times> nat) option" where
  "token_at P txs i =
     (case bracket_body_at P txs i TURN_OPEN of
        Some u \<Rightarrow> Some (Token_Turn (TurnId u), length TURN_OPEN + ULID_LEN + 1)
      | None \<Rightarrow>
          (case bracket_body_at P txs i MEM_OPEN of
             Some u \<Rightarrow> Some (Token_Mem (MemoryId u), length MEM_OPEN + ULID_LEN + 1)
           | None \<Rightarrow> None))"

section \<open>Scanning\<close>

datatype segment = Segment_Prose string | Segment_Turn turn_id | Segment_Mem memory_id

definition flush_prose :: "segment list \<Rightarrow> string \<Rightarrow> segment list" where
  "flush_prose segments prose = (if prose = [] then segments else segments @ [Segment_Prose prose])"

fun segment_of :: "token \<Rightarrow> segment" where
  "segment_of (Token_Turn t) = Segment_Turn t"
| "segment_of (Token_Mem m) = Segment_Mem m"

lemma token_at_pos: "token_at P s i = Some (tok, n) \<Longrightarrow> 0 < n"
  by (auto simp: token_at_def split: option.splits)

function scan_loop ::
  "(string \<Rightarrow> nat option) \<Rightarrow> string \<Rightarrow> nat \<Rightarrow> nat \<Rightarrow> segment list \<Rightarrow> (slice_panic, segment list) result" where
  "scan_loop P s prose_start i segments =
     (if i < length s then
        case token_at P s i of
          Some (tok, n) \<Rightarrow>
            andthen (slice s prose_start i) (\<lambda>prose.
              scan_loop P s (i + n) (i + n) (flush_prose segments prose @ [segment_of tok]))
        | None \<Rightarrow> scan_loop P s prose_start (i + 1) segments
      else andthen (slice s prose_start (length s)) (\<lambda>prose. Inr (flush_prose segments prose)))"
  by pat_completeness auto
termination
  by (relation "measure (\<lambda>(P, s, prose_start, i, segments). length s - i)") (auto dest: token_at_pos)

declare scan_loop.simps [simp del]

definition scan_text :: "(string \<Rightarrow> nat option) \<Rightarrow> string \<Rightarrow> (slice_panic, segment list) result" where
  "scan_text P s = scan_loop P s 0 0 []"

fun render_segment :: "(nat \<Rightarrow> string) \<Rightarrow> segment \<Rightarrow> string" where
  "render_segment U (Segment_Prose prose) = prose"
| "render_segment U (Segment_Turn t) = turn_construct U t"
| "render_segment U (Segment_Mem m) = mem_construct U m"

definition normalize :: "(nat \<Rightarrow> string) \<Rightarrow> (string \<Rightarrow> nat option) \<Rightarrow> string \<Rightarrow> (slice_panic, string) result" where
  "normalize U P s = andthen (scan_text P s) (\<lambda>segments. Inr (concat (map (render_segment U) segments)))"

definition extract_turn_ids :: "(string \<Rightarrow> nat option) \<Rightarrow> string \<Rightarrow> (slice_panic, turn_id list) result" where
  "extract_turn_ids P s =
     andthen (scan_text P s) (\<lambda>segments.
       Inr (List.map_filter (\<lambda>x. case x of Segment_Turn t \<Rightarrow> Some t | _ \<Rightarrow> None) segments))"

definition extract_mem_ids :: "(string \<Rightarrow> nat option) \<Rightarrow> string \<Rightarrow> (slice_panic, memory_id list) result" where
  "extract_mem_ids P s =
     andthen (scan_text P s) (\<lambda>segments.
       Inr (List.map_filter (\<lambda>x. case x of Segment_Mem m \<Rightarrow> Some m | _ \<Rightarrow> None) segments))"

section \<open>What the code relies on\<close>

definition alphanumeric :: "char \<Rightarrow> bool" where
  "alphanumeric c \<longleftrightarrow>
     (let n = of_char c :: nat in 48 \<le> n \<and> n \<le> 57 \<or> 65 \<le> n \<and> n \<le> 90 \<or> 97 \<le> n \<and> n \<le> 122)"

text \<open>
  A ULID below \<open>2^128\<close> is printed as 26 characters that are parsed back to it, and what parses is 26 alphanumeric characters.
\<close>

definition ulid_codec :: "(nat \<Rightarrow> string) \<Rightarrow> (string \<Rightarrow> nat option) \<Rightarrow> bool" where
  "ulid_codec U P \<longleftrightarrow>
     (\<forall>u < 2 ^ 128. P (U u) = Some u) \<and>
     (\<forall>s u. P s = Some u \<longrightarrow> u < 2 ^ 128 \<and> length s = 26 \<and> list_all alphanumeric s)"

text \<open>A continuation byte follows a byte that is not ASCII, as in every valid text; \<open>a\<close> tells that what comes before is ASCII.\<close>

fun utf8_from :: "bool \<Rightarrow> string \<Rightarrow> bool" where
  "utf8_from a [] \<longleftrightarrow> True"
| "utf8_from a (c # s) \<longleftrightarrow> (is_continuation c \<longrightarrow> \<not> a) \<and> utf8_from ((of_char c :: nat) < 128) s"

abbreviation utf8_text_ok :: "string \<Rightarrow> bool" where
  "utf8_text_ok s \<equiv> utf8_from True s"

section \<open>A reference scanner\<close>

text \<open>The text as characters and tokens, read off its front.\<close>

datatype lexeme = Char char | Ref token string

definition body_at :: "(string \<Rightarrow> nat option) \<Rightarrow> string \<Rightarrow> string \<Rightarrow> (nat \<times> string) option" where
  "body_at P opener s =
     (case strip_prefix opener s of
        None \<Rightarrow> None
      | Some rest \<Rightarrow>
          (if 26 < length rest \<and> rest ! 26 = CHR '']''
           then map_option (\<lambda>u. (u, drop 27 rest)) (P (take 26 rest)) else None))"

definition front :: "(string \<Rightarrow> nat option) \<Rightarrow> string \<Rightarrow> (token \<times> string) option" where
  "front P s =
     (case body_at P TURN_OPEN s of
        Some (u, rest) \<Rightarrow> Some (Token_Turn (TurnId u), rest)
      | None \<Rightarrow>
          (case body_at P MEM_OPEN s of
             Some (u, rest) \<Rightarrow> Some (Token_Mem (MemoryId u), rest)
           | None \<Rightarrow> None))"

lemma body_at_Some: "body_at P opener s = Some (u, rest) \<longleftrightarrow>
    (\<exists>body. s = opener @ body @ CHR '']'' # rest \<and> length body = 26 \<and> P body = Some u)"
proof
  assume "body_at P opener s = Some (u, rest)"
  then obtain tail where t: "s = opener @ tail" "26 < length tail" "tail ! 26 = CHR '']''" "P (take 26 tail) = Some u" "rest = drop 27 tail"
    by (auto simp: body_at_def strip_prefix_Some_iff split: option.splits if_splits)
  then have "tail = take 26 tail @ CHR '']'' # rest"
    using Cons_nth_drop_Suc [of 26 tail] by (metis append_take_drop_id eval_nat_numeral(3))
  with t show "\<exists>body. s = opener @ body @ CHR '']'' # rest \<and> length body = 26 \<and> P body = Some u"
    by (intro exI [of _ "take 26 tail"]) simp
next
  assume "\<exists>body. s = opener @ body @ CHR '']'' # rest \<and> length body = 26 \<and> P body = Some u"
  then show "body_at P opener s = Some (u, rest)" by (auto simp: body_at_def nth_append)
qed

lemma front_shorter: "front P s = Some (x, rest) \<Longrightarrow> length rest < length s"
  by (auto simp: front_def body_at_Some split: option.splits)

function lexemes :: "(string \<Rightarrow> nat option) \<Rightarrow> string \<Rightarrow> lexeme list" where
  "lexemes P [] = []"
| "lexemes P (c # s) =
     (case front P (c # s) of
        Some (x, rest) \<Rightarrow> Ref x (take (length (c # s) - length rest) (c # s)) # lexemes P rest
      | None \<Rightarrow> Char c # lexemes P s)"
  by pat_completeness auto
termination
  by (relation "measure (\<lambda>(P, s). length s)") (auto dest: front_shorter)

fun surface :: "lexeme \<Rightarrow> string" where
  "surface (Char c) = [c]"
| "surface (Ref x s) = s"

fun canonical :: "(nat \<Rightarrow> string) \<Rightarrow> lexeme \<Rightarrow> string" where
  "canonical U (Char c) = [c]"
| "canonical U (Ref x s) = render_segment U (segment_of x)"

text \<open>Adjacent characters are one prose segment; every part is kept with the text it stands for.\<close>

definition flush_part :: "string \<Rightarrow> (segment \<times> string) list" where
  "flush_part prose = (if prose = [] then [] else [(Segment_Prose prose, prose)])"

fun parts_from :: "string \<Rightarrow> lexeme list \<Rightarrow> (segment \<times> string) list" where
  "parts_from prose [] = flush_part prose"
| "parts_from prose (Char c # ls) = parts_from (prose @ [c]) ls"
| "parts_from prose (Ref x s # ls) = flush_part prose @ (segment_of x, s) # parts_from [] ls"

section \<open>The scan is the reference scanner\<close>

lemma openers: "TURN_OPEN = CHR ''['' # ''turn:''" "MEM_OPEN = CHR ''['' # ''mem:''"
  by (simp_all add: TURN_OPEN_def MEM_OPEN_def)

lemma bracket_not_continuation [simp]: "\<not> is_continuation (CHR ''['')" "\<not> is_continuation (CHR '']'')"
  by (simp_all add: is_continuation_def)

lemma bracket_body_at_front:
  assumes "i < length s" "opener = CHR ''['' # o'"
  shows "bracket_body_at P s i opener = map_option fst (body_at P opener (drop i s))"
proof (cases "is_char_boundary s i")
  case True
  then show ?thesis
    by (auto simp: bracket_body_at_def get_from_def body_at_def get_to_def is_char_boundary_def ULID_LEN_def
        option.map_comp option.map_ident comp_def split: option.splits)
next
  case False
  with assms(1) have "is_continuation (drop i s ! 0)" by (simp add: is_char_boundary_def)
  moreover have "drop i s \<noteq> []" using assms(1) by simp
  ultimately have "strip_prefix opener (drop i s) = None"
    by (cases "strip_prefix opener (drop i s)") (auto simp: strip_prefix_Some_iff assms(2))
  with False show ?thesis by (simp add: bracket_body_at_def get_from_def body_at_def)
qed

lemma token_at_front:
  assumes "i < length s"
  shows "token_at P s i = map_option (\<lambda>(x, rest). (x, length (drop i s) - length rest)) (front P (drop i s))"
proof -
  note b = bracket_body_at_front [OF assms openers(1), of P] bracket_body_at_front [OF assms openers(2), of P]
  show ?thesis
    by (auto simp: token_at_def front_def b body_at_Some ULID_LEN_def split: option.splits)
      (auto simp: body_at_Some dest!: arg_cong [where f = length])
qed

lemma front_text:
  assumes "front P s = Some (x, rest)"
  obtains body u where "P body = Some u" "length body = 26"
    "x = Token_Turn (TurnId u) \<and> s = TURN_OPEN @ body @ CHR '']'' # rest
     \<or> x = Token_Mem (MemoryId u) \<and> s = MEM_OPEN @ body @ CHR '']'' # rest"
  using assms by (auto simp: front_def body_at_Some split: option.splits)

lemma utf8_from_nth:
  "utf8_from a s \<Longrightarrow> Suc k < length s \<Longrightarrow> (of_char (s ! k) :: nat) < 128 \<Longrightarrow> \<not> is_continuation (s ! Suc k)"
proof (induction s arbitrary: a k)
  case (Cons c s)
  then show ?case
  proof (cases k)
    case 0
    with Cons.prems show ?thesis by (cases s) auto
  qed auto
qed simp

lemma token_ends:
  assumes "utf8_text_ok s" "i < length s" "front P (drop i s) = Some (x, rest)"
  defines "n \<equiv> length (drop i s) - length rest"
  shows "is_char_boundary s i" "is_char_boundary s (i + n)" "i + n \<le> length s" "drop (i + n) s = rest" "0 < n"
proof -
  from assms(3) obtain w where w: "drop i s = w @ CHR '']'' # rest" "w \<noteq> []" "hd w = CHR ''[''"
    by (rule front_text) (auto simp: openers)
  then have n: "n = Suc (length w)" by (simp add: n_def)
  have len: "length s = i + length w + Suc (length rest)"
    using arg_cong [OF w(1), of length] assms(2) by simp
  show "0 < n" "i + n \<le> length s" using n len by simp_all
  show "drop (i + n) s = rest"
    using arg_cong [OF w(1), of "drop n"] n by (simp add: add.commute)
  have "s ! i = CHR ''[''" using arg_cong [OF w(1), of hd] w(2,3) assms(2) by (simp add: hd_drop_conv_nth)
  then show "is_char_boundary s i" using assms(2) by (simp add: is_char_boundary_def)
  have "drop i s ! length w = CHR '']''" by (simp add: w(1))
  then have last: "s ! (i + length w) = CHR '']''" using len by simp
  show "is_char_boundary s (i + n)"
  proof (cases "i + n = length s")
    case False
    with len n have "Suc (i + length w) < length s" by simp
    from utf8_from_nth [OF assms(1) this] last have "\<not> is_continuation (s ! Suc (i + length w))" by simp
    with n False \<open>i + n \<le> length s\<close> show ?thesis by (simp add: is_char_boundary_def)
  qed (simp add: is_char_boundary_def)
qed

lemma flush_prose_part: "flush_prose segments prose = segments @ map fst (flush_part prose)"
  by (simp add: flush_prose_def flush_part_def)

lemma lex_front: "s \<noteq> [] \<Longrightarrow> lexemes P s = (case front P s of
    Some (x, rest) \<Rightarrow> Ref x (take (length s - length rest) s) # lexemes P rest
  | None \<Rightarrow> Char (hd s) # lexemes P (tl s))"
  by (cases s) (simp_all split: option.splits)

lemma scan_loop_lex:
  assumes "utf8_text_ok s" "i \<le> length s" "p \<le> i" "is_char_boundary s p"
  shows "scan_loop P s p i segments = Inr (segments @ map fst (parts_from (drop p (take i s)) (lexemes P (drop i s))))"
  using assms(2-)
proof (induction "length s - i" arbitrary: p i segments rule: less_induct)
  case less
  show ?case
  proof (cases "i < length s")
    case False
    with less.prems have "i = length s" by simp
    with less.prems show ?thesis
      by (simp add: scan_loop.simps [of P s p "length s"] slice_def is_char_boundary_def flush_prose_part)
  next
    case True
    show ?thesis
    proof (cases "front P (drop i s)")
      case None
      have "scan_loop P s p i segments = scan_loop P s p (i + 1) segments"
        using True None by (simp add: scan_loop.simps [of P s p i] token_at_front)
      also have "\<dots> = Inr (segments @ map fst (parts_from (drop p (take (i + 1) s)) (lexemes P (drop (i + 1) s))))"
        using True less.prems by (intro less.hyps) auto
      also have "drop p (take (i + 1) s) = drop p (take i s) @ [s ! i]"
        using True less.prems by (simp add: take_Suc_conv_app_nth)
      finally show ?thesis
        using True None by (simp add: lex_front hd_drop_conv_nth tl_drop drop_Suc)
    next
      case (Some t)
      obtain x rest where t: "t = (x, rest)" by (cases t)
      note e = token_ends [OF assms(1) True Some [unfolded t]]
      let ?n = "length (drop i s) - length rest"
      have "scan_loop P s p i segments
          = scan_loop P s (i + ?n) (i + ?n) (flush_prose segments (drop p (take i s)) @ [segment_of x])"
        using True Some t e less.prems by (simp add: scan_loop.simps [of P s p i] token_at_front slice_def)
      also have "\<dots> = Inr ((flush_prose segments (drop p (take i s)) @ [segment_of x])
          @ map fst (parts_from (drop (i + ?n) (take (i + ?n) s)) (lexemes P (drop (i + ?n) s))))"
        using True e by (intro less.hyps) auto
      finally show ?thesis
        using True Some t e(4) by (simp add: lex_front flush_prose_part)
    qed
  qed
qed

lemma scan_text_lex: "utf8_text_ok s \<Longrightarrow> scan_text P s = Inr (map fst (parts_from [] (lexemes P s)))"
  unfolding scan_text_def
  by (subst scan_loop_lex) (auto simp: is_char_boundary_def neq_Nil_conv dest: gr0_implies_Suc)

section \<open>Lexing\<close>

lemma lex_surface: "concat (map surface (lexemes P s)) = s"
proof (induction P s rule: lexemes.induct)
  case (2 P c s)
  show ?case
  proof (cases "front P (c # s)")
    case (Some t)
    then obtain x rest where t: "t = (x, rest)" by (cases t)
    from Some t obtain w where w: "c # s = w @ rest" by (auto elim!: front_text)
    have "take (length (c # s) - length rest) (c # s) = w" unfolding w by simp
    moreover have "concat (map surface (lexemes P rest)) = rest" by (rule "2.IH"(2) [OF Some t [symmetric]])
    moreover have "lexemes P (c # s) = Ref x (take (length (c # s) - length rest) (c # s)) # lexemes P rest" using Some t by simp
    ultimately show ?thesis using w by simp
  qed (use "2.IH"(1) in simp)
qed simp

lemma alphanumeric_facts:
  "list_all alphanumeric s \<Longrightarrow> CHR ''['' \<notin> set s" "alphanumeric c \<Longrightarrow> (of_char c :: nat) < 128"
  by (auto simp: list_all_iff alphanumeric_def Let_def)

text \<open>Past its bracket a token has no other, so that tokens never overlap.\<close>

lemma front_Some_text:
  assumes "ulid_codec U P" "front P s = Some (x, rest)"
  obtains t where "s = CHR ''['' # t @ rest" "CHR ''['' \<notin> set t" "\<And>y. front P (CHR ''['' # t @ y) = Some (x, y)"
    "list_all (\<lambda>c. (of_char c :: nat) < 128) t"
proof -
  from assms(2) obtain body u where b: "P body = Some u" "length body = 26"
    "x = Token_Turn (TurnId u) \<and> s = TURN_OPEN @ body @ CHR '']'' # rest
     \<or> x = Token_Mem (MemoryId u) \<and> s = MEM_OPEN @ body @ CHR '']'' # rest" by (rule front_text)
  from assms(1) b(1) have al: "list_all alphanumeric body" by (auto simp: ulid_codec_def)
  have turn: "front P (TURN_OPEN @ body @ CHR '']'' # y) = Some (Token_Turn (TurnId u), y)" for y
    using b(1,2) body_at_Some [of P TURN_OPEN "TURN_OPEN @ body @ CHR '']'' # y" u y] by (auto simp: front_def)
  have "body_at P TURN_OPEN (MEM_OPEN @ body @ CHR '']'' # y) = None" for y
    by (simp add: body_at_def strip_prefix_def openers)
  then have mem: "front P (MEM_OPEN @ body @ CHR '']'' # y) = Some (Token_Mem (MemoryId u), y)" for y
    using b(1,2) body_at_Some [of P MEM_OPEN "MEM_OPEN @ body @ CHR '']'' # y" u y] by (auto simp: front_def)
  from b(3) show thesis
  proof (elim disjE conjE)
    assume "x = Token_Turn (TurnId u)" "s = TURN_OPEN @ body @ CHR '']'' # rest"
    with al turn show thesis
      by (intro that [of "''turn:'' @ body @ '']''"]) (auto simp: openers alphanumeric_facts list_all_iff)
  next
    assume "x = Token_Mem (MemoryId u)" "s = MEM_OPEN @ body @ CHR '']'' # rest"
    with al mem show thesis
      by (intro that [of "''mem:'' @ body @ '']''"]) (auto simp: openers alphanumeric_facts list_all_iff)
  qed
qed

definition ids_fit :: "token \<Rightarrow> bool" where
  "ids_fit x \<longleftrightarrow> (case x of Token_Turn t \<Rightarrow> turn_ulid t < 2 ^ 128 | Token_Mem m \<Rightarrow> memory_ulid m < 2 ^ 128)"

lemma front_ids: "ulid_codec U P \<Longrightarrow> front P s = Some (x, rest) \<Longrightarrow> ids_fit x"
  by (auto simp: ids_fit_def ulid_codec_def elim!: front_text)

text \<open>What is printed for an id is a token of that id.\<close>

lemma front_printed:
  assumes "ulid_codec U P" "ids_fit x"
  obtains t where "render_segment U (segment_of x) = CHR ''['' # t" "CHR ''['' \<notin> set t"
    "\<And>y. front P (CHR ''['' # t @ y) = Some (x, y)" "list_all (\<lambda>c. (of_char c :: nat) < 128) t"
proof -
  have body: "P (U u) = Some u" "length (U u) = 26" if "u < 2 ^ 128" for u
    using assms(1) that by (auto simp: ulid_codec_def)
  have "front P (render_segment U (segment_of x)) = Some (x, [])"
  proof (cases x)
    case (Token_Turn t)
    with assms(2) body [of "turn_ulid t"] body_at_Some [of P TURN_OPEN "turn_construct U t" "turn_ulid t" "[]"] show ?thesis
      by (auto simp: front_def turn_construct_def ids_fit_def)
  next
    case (Token_Mem m)
    have "body_at P TURN_OPEN (mem_construct U m) = None"
      by (simp add: body_at_def strip_prefix_def openers mem_construct_def)
    with Token_Mem assms(2) body [of "memory_ulid m"] body_at_Some [of P MEM_OPEN "mem_construct U m" "memory_ulid m" "[]"] show ?thesis
      by (auto simp: front_def mem_construct_def ids_fit_def)
  qed
  from front_Some_text [OF assms(1) this] that show thesis by (metis append_Nil2)
qed

lemma lex_token: "front P s = Some (x, rest) \<Longrightarrow> \<exists>w. lexemes P s = Ref x w # lexemes P rest"
  by (cases s) (auto simp: front_def body_at_def strip_prefix_def openers split: option.splits)

text \<open>A token inside a text splits it.\<close>

lemma lexemes_append:
  assumes "ulid_codec U P" "hd x = CHR ''[''"
  shows "lexemes P (a @ x) = lexemes P a @ lexemes P x"
  using assms
proof (induction P a rule: lexemes.induct)
  case (2 P c a)
  show ?case
  proof (cases "front P (c # a)")
    case (Some tr)
    then obtain tok rest where tr: "front P (c # a) = Some (tok, rest)" by (cases tr) auto
    from front_Some_text [OF "2.prems"(1) tr] obtain t where
      t: "c # a = CHR ''['' # t @ rest" "\<And>y. front P (CHR ''['' # t @ y) = Some (tok, y)" by blast
    from t(2) [of "rest @ x"] t(1) have "front P ((c # a) @ x) = Some (tok, rest @ x)" by simp
    moreover have "take n ((c # a) @ x) = take n (c # a)" if "n \<le> length (c # a)" for n
      using that by (simp only: take_append) simp
    from this [of "length (c # a) - length rest"]
    have "take (length ((c # a) @ x) - length (rest @ x)) ((c # a) @ x) = take (length (c # a) - length rest) (c # a)" by simp
    ultimately show ?thesis using "2.IH"(2) [OF tr refl "2.prems"] tr by simp
  next
    case None
    have "front P ((c # a) @ x) = None"
    proof (rule ccontr)
      assume "front P ((c # a) @ x) \<noteq> None"
      then obtain tok r where "front P ((c # a) @ x) = Some (tok, r)" by (auto simp: not_None_eq)
      from front_Some_text [OF "2.prems"(1) this] obtain t where
        t: "(c # a) @ x = CHR ''['' # t @ r" "CHR ''['' \<notin> set t" "\<And>y. front P (CHR ''['' # t @ y) = Some (tok, y)" by metis
      from t(1) have "a @ x = t @ r" by simp
      then consider us where "a = t @ us" | us where "t = a @ us" "x = us @ r" "us \<noteq> []"
        by (metis append_eq_append_conv2 append_Nil2)
      then show False
      proof cases
        case 1
        with t(1,3) None show False by simp
      next
        case 2
        with "2.prems"(2) t(2) show False by (cases us) auto
      qed
    qed
    with "2.IH"(1) [OF None "2.prems"] None show ?thesis by simp
  qed
qed simp

lemma utf8_from_ascii: "list_all (\<lambda>c. (of_char c :: nat) < 128) t \<Longrightarrow> utf8_from True (t @ y) \<longleftrightarrow> utf8_from True y"
  by (induction t) (auto simp: is_continuation_def)

lemma utf8_from_token:
  "list_all (\<lambda>c. (of_char c :: nat) < 128) t \<Longrightarrow> utf8_from a (CHR ''['' # t @ y) \<longleftrightarrow> utf8_from True y"
  by (simp add: utf8_from_ascii)

lemma utf8_from_append_bracket: "utf8_from a x \<Longrightarrow> utf8_from True (CHR ''['' # y) \<Longrightarrow> utf8_from a (x @ CHR ''['' # y)"
  by (induction x arbitrary: a) auto

text \<open>What the characters at the front of the canonical text are, they are in the text.\<close>

lemma canonical_front:
  assumes "ulid_codec U P" "concat (map (canonical U) (lexemes P s)) = t @ r" "CHR ''['' \<notin> set t"
  shows "\<exists>r'. s = t @ r'"
  using assms
proof (induction P s arbitrary: t rule: lexemes.induct)
  case (2 P c s)
  show ?case
  proof (cases "t = []")
    case False
    then obtain d t' where t: "t = d # t'" by (cases t) auto
    show ?thesis
    proof (cases "front P (c # s)")
      case None
      with "2.prems" t have "d = c" "concat (map (canonical U) (lexemes P s)) = t' @ r" by simp_all
      with "2.IH"(1) [OF None "2.prems"(1), of t'] "2.prems"(3) t show ?thesis by auto
    next
      case (Some tr)
      then obtain x rest where tr: "front P (c # s) = Some (x, rest)" by (cases tr) auto
      from front_printed [OF "2.prems"(1) front_ids [OF "2.prems"(1) tr]] obtain w where
        "render_segment U (segment_of x) = CHR ''['' # w" by blast
      with "2.prems"(2,3) tr t show ?thesis by simp
    qed
  qed simp
qed simp

definition canonical_lexeme :: "(nat \<Rightarrow> string) \<Rightarrow> lexeme \<Rightarrow> lexeme" where
  "canonical_lexeme U l = (case l of Char c \<Rightarrow> Char c | Ref x w \<Rightarrow> Ref x (render_segment U (segment_of x)))"

lemma lexemes_canonical:
  assumes "ulid_codec U P"
  shows "lexemes P (concat (map (canonical U) (lexemes P s))) = map (canonical_lexeme U) (lexemes P s)"
  using assms
proof (induction P s rule: lexemes.induct)
  case (2 P c s)
  show ?case
  proof (cases "front P (c # s)")
    case None
    let ?r = "concat (map (canonical U) (lexemes P s))"
    have "front P (c # ?r) = None"
    proof (rule ccontr)
      assume "front P (c # ?r) \<noteq> None"
      then obtain x r where "front P (c # ?r) = Some (x, r)" by (auto simp: not_None_eq)
      from front_Some_text [OF "2.prems" this] obtain t where
        t: "c # ?r = CHR ''['' # t @ r" "CHR ''['' \<notin> set t" "\<And>y. front P (CHR ''['' # t @ y) = Some (x, y)" by blast
      from t(1) have "?r = t @ r" by simp
      from canonical_front [OF "2.prems" this t(2)] obtain r' where "s = t @ r'" by blast
      with t(1,3) None show False by simp
    qed
    with "2.IH"(1) [OF None "2.prems"] None show ?thesis by (simp add: canonical_lexeme_def)
  next
    case (Some tr)
    then obtain x rest where tr: "front P (c # s) = Some (x, rest)" by (cases tr) auto
    from front_printed [OF "2.prems" front_ids [OF "2.prems" tr]] obtain w where
      w: "render_segment U (segment_of x) = CHR ''['' # w" "\<And>y. front P (CHR ''['' # w @ y) = Some (x, y)" by blast
    let ?r = "concat (map (canonical U) (lexemes P rest))"
    have "take n (CHR ''['' # w @ ?r) = CHR ''['' # w" if "n = length (CHR ''['' # w)" for n using that by simp
    from this [of "length (CHR ''['' # w @ ?r) - length ?r"]
    have "lexemes P (CHR ''['' # w @ ?r) = Ref x (CHR ''['' # w) # lexemes P ?r" using w(2) by simp
    with "2.IH"(2) [OF tr refl "2.prems"] tr w(1) show ?thesis by (simp add: canonical_lexeme_def)
  qed
qed simp

lemma utf8_canonical:
  assumes "ulid_codec U P" "utf8_from a s"
  shows "utf8_from a (concat (map (canonical U) (lexemes P s)))"
  using assms
proof (induction P s arbitrary: a rule: lexemes.induct)
  case (2 P c s)
  show ?case
  proof (cases "front P (c # s)")
    case None
    with "2.IH"(1) [OF None "2.prems"(1)] "2.prems"(2) show ?thesis by simp
  next
    case (Some tr)
    then obtain x rest where tr: "front P (c # s) = Some (x, rest)" by (cases tr) auto
    from front_Some_text [OF "2.prems"(1) tr] obtain t where
      "c # s = CHR ''['' # t @ rest" "list_all (\<lambda>c. (of_char c :: nat) < 128) t" by blast
    with "2.prems"(2) have "utf8_from True rest" using utf8_from_token by metis
    moreover from front_printed [OF "2.prems"(1) front_ids [OF "2.prems"(1) tr]] obtain w where
      "render_segment U (segment_of x) = CHR ''['' # w" "list_all (\<lambda>c. (of_char c :: nat) < 128) w" by blast
    ultimately show ?thesis
      using "2.IH"(2) [OF tr refl "2.prems"(1)] tr by (simp add: utf8_from_ascii)
  qed
qed simp

lemma segments_canonical: "map fst (parts_from prose (map (canonical_lexeme U) ls)) = map fst (parts_from prose ls)"
  by (induction prose ls rule: parts_from.induct) (simp_all add: canonical_lexeme_def)

lemma render_parts: "concat (map (render_segment U \<circ> fst) (parts_from prose ls)) = prose @ concat (map (canonical U) ls)"
  by (induction prose ls rule: parts_from.induct) (simp_all add: flush_part_def)

lemma surface_parts: "concat (map snd (parts_from prose ls)) = prose @ concat (map surface ls)"
  by (induction prose ls rule: parts_from.induct) (simp_all add: flush_part_def)

lemma parts_from_append:
  "parts_from prose (ls @ Ref x w # ls') = parts_from prose ls @ (segment_of x, w) # parts_from [] ls'"
  by (induction prose ls rule: parts_from.induct) simp_all

section \<open>Properties\<close>

text \<open>What a segment stands for in a text.\<close>

fun stands_for :: "(string \<Rightarrow> nat option) \<Rightarrow> segment \<Rightarrow> string \<Rightarrow> bool" where
  "stands_for P (Segment_Prose prose) w \<longleftrightarrow> prose = w \<and> w \<noteq> []"
| "stands_for P (Segment_Turn t) w \<longleftrightarrow> (\<exists>body. w = TURN_OPEN @ body @ '']'' \<and> length body = 26 \<and> P body = Some (turn_ulid t))"
| "stands_for P (Segment_Mem m) w \<longleftrightarrow> (\<exists>body. w = MEM_OPEN @ body @ '']'' \<and> length body = 26 \<and> P body = Some (memory_ulid m))"

fun is_prose :: "segment \<Rightarrow> bool" where
  "is_prose (Segment_Prose _) = True"
| "is_prose _ = False"

lemma lexemes_stand: "Ref x w \<in> set (lexemes P s) \<Longrightarrow> stands_for P (segment_of x) w"
proof (induction P s rule: lexemes.induct)
  case (2 P c s)
  show ?case
  proof (cases "front P (c # s)")
    case None
    with "2.IH"(1) [OF None] "2.prems" show ?thesis by simp
  next
    case (Some tr)
    then obtain y rest where tr: "front P (c # s) = Some (y, rest)" by (cases tr) auto
    from front_text [OF tr] obtain opener body u where b: "P body = Some u" "length body = 26"
      "c # s = opener @ body @ CHR '']'' # rest"
      "opener = TURN_OPEN \<and> y = Token_Turn (TurnId u) \<or> opener = MEM_OPEN \<and> y = Token_Mem (MemoryId u)" by metis
    have "take (length (c # s) - length rest) (c # s) = opener @ body @ '']''" unfolding b(3) by simp
    with b have "stands_for P (segment_of y) (take (length (c # s) - length rest) (c # s))" by auto
    with "2.IH"(2) [OF tr refl] "2.prems" tr show ?thesis by auto
  qed
qed simp

lemma parts_stand:
  assumes "\<forall>x w. Ref x w \<in> set ls \<longrightarrow> stands_for P (segment_of x) w"
  shows "\<forall>(x, w) \<in> set (parts_from prose ls). stands_for P x w"
  using assms by (induction prose ls rule: parts_from.induct) (auto simp: flush_part_def)

text \<open>
  C36: a scan loses nothing. Scanning a valid text never slices off a character boundary; its segments stand, in order, for pieces that make
  up the text, prose is never empty, and a reference stands only for a token of a ULID that parses.
\<close>

theorem scan_is_total_and_lossless:
  assumes "utf8_text_ok s"
  shows "\<exists>parts. scan_text P s = Inr (map fst parts) \<and> concat (map snd parts) = s \<and> (\<forall>(x, w) \<in> set parts. stands_for P x w)"
proof (intro exI conjI)
  show "scan_text P s = Inr (map fst (parts_from [] (lexemes P s)))" using assms by (rule scan_text_lex)
  show "concat (map snd (parts_from [] (lexemes P s))) = s" by (simp add: surface_parts lex_surface)
  show "\<forall>(x, w) \<in> set (parts_from [] (lexemes P s)). stands_for P x w" by (rule parts_stand) (simp add: lexemes_stand)
qed

text \<open>
  C35: normalizing is idempotent. A message is rebuilt with every reference in its canonical form, and the rebuilt message scans to the same
  segments and is rebuilt as itself: putting a token in another form makes no reference of the prose around it.
\<close>

theorem normalize_idempotent:
  assumes "ulid_codec U P" "utf8_text_ok s"
  shows "\<exists>t. normalize U P s = Inr t \<and> scan_text P t = scan_text P s \<and> normalize U P t = Inr t"
proof -
  let ?t = "concat (map (canonical U) (lexemes P s))"
  have n: "normalize U P x = Inr (concat (map (canonical U) (lexemes P x)))" if "utf8_text_ok x" for x
    using that by (simp add: normalize_def scan_text_lex render_parts)
  have ok: "utf8_text_ok ?t" by (rule utf8_canonical [OF assms])
  have "scan_text P ?t = scan_text P s"
    by (simp add: scan_text_lex ok assms(2) lexemes_canonical [OF assms(1)] segments_canonical)
  moreover have "normalize U P ?t = Inr ?t"
    using calculation n [OF assms(2)] by (simp add: normalize_def)
  ultimately show ?thesis using n [OF assms(2)] by blast
qed

text \<open>
  a reference survives the prose around it. Whatever text comes before and after a minted reference, a scan finds what it finds in the
  text before, then the reference, then what it finds in the text after.
\<close>

theorem reference_survives_prose:
  assumes "ulid_codec U P" "utf8_text_ok before" "utf8_text_ok after" "turn_ulid t < 2 ^ 128"
    and "scan_text P before = Inr xs" "scan_text P after = Inr ys"
  shows "scan_text P (before @ turn_construct U t @ after) = Inr (xs @ Segment_Turn t # ys)"
proof -
  have fit: "ids_fit (Token_Turn t)" using assms(4) by (simp add: ids_fit_def)
  from front_printed [OF assms(1) fit] obtain w where w: "turn_construct U t = CHR ''['' # w"
    "\<And>y. front P (CHR ''['' # w @ y) = Some (Token_Turn t, y)" "list_all (\<lambda>c. (of_char c :: nat) < 128) w" by auto
  have "utf8_text_ok (before @ CHR ''['' # w @ after)"
    by (rule utf8_from_append_bracket [OF assms(2)]) (simp add: utf8_from_ascii w(3) assms(3))
  moreover obtain v where "lexemes P (CHR ''['' # w @ after) = Ref (Token_Turn t) v # lexemes P after"
    using lex_token [OF w(2) [of after]] by blast
  ultimately show ?thesis
    using assms(2,3,5,6) w(1) lexemes_append [OF assms(1), of "CHR ''['' # w @ after" before]
    by (simp add: scan_text_lex parts_from_append)
qed

section \<open>A concrete codec\<close>

text \<open>Crockford's base 32, in 26 digits.\<close>

definition crockford :: string where "crockford = ''0123456789ABCDEFGHJKMNPQRSTVWXYZ''"

fun digits32 :: "nat \<Rightarrow> nat \<Rightarrow> nat list" where
  "digits32 0 u = []"
| "digits32 (Suc n) u = digits32 n (u div 32) @ [u mod 32]"

definition value32 :: "nat list \<Rightarrow> nat" where
  "value32 ds = foldl (\<lambda>v d. v * 32 + d) 0 ds"

definition digit_of :: "char \<Rightarrow> nat option" where
  "digit_of c = (if c \<in> set crockford then Some (length (takeWhile (\<lambda>d. d \<noteq> c) crockford)) else None)"

definition crockford_str :: "nat \<Rightarrow> string" where
  "crockford_str u = map (\<lambda>d. crockford ! d) (digits32 26 u)"

definition crockford_parse :: "string \<Rightarrow> nat option" where
  "crockford_parse s =
     (if length s = 26 \<and> list_all (\<lambda>c. c \<in> set crockford) s
      then (let u = value32 (map (\<lambda>c. the (digit_of c)) s) in if u < 2 ^ 128 then Some u else None)
      else None)"

lemma digits32_length [simp]: "length (digits32 n u) = n"
  by (induction n arbitrary: u) simp_all

lemma digits32_less: "d \<in> set (digits32 n u) \<Longrightarrow> d < 32"
  by (induction n arbitrary: u) auto

lemma value32_digits: "value32 (digits32 n u) = u mod 32 ^ n"
proof (induction n arbitrary: u)
  case (Suc n)
  have "u div 32 mod 32 ^ n * 32 + u mod 32 = u mod (32 * 32 ^ n)" by (simp add: mod_mult2_eq mult.commute)
  with Suc show ?case by (simp add: value32_def)
qed (simp add: value32_def)

lemma crockford_digit: "d < 32 \<Longrightarrow> crockford ! d \<in> set crockford \<and> digit_of (crockford ! d) = Some d"
proof -
  have "\<forall>d \<in> set [0..<32]. crockford ! d \<in> set crockford \<and> digit_of (crockford ! d) = Some d" by code_simp
  then show "d < 32 \<Longrightarrow> crockford ! d \<in> set crockford \<and> digit_of (crockford ! d) = Some d" by simp
qed

lemma crockford_codec: "ulid_codec crockford_str crockford_parse"
proof -
  have "crockford_parse (crockford_str u) = Some u" if u: "u < 2 ^ 128" for u
  proof -
    have d: "crockford ! d \<in> set crockford" "digit_of (crockford ! d) = Some d" if "d \<in> set (digits32 26 u)" for d
      using crockford_digit [OF digits32_less [OF that]] by simp_all
    have "map (\<lambda>c. the (digit_of c)) (crockford_str u) = map (\<lambda>d. d) (digits32 26 u)"
      unfolding crockford_str_def map_map by (rule map_cong) (simp_all add: d(2))
    then have m: "map (\<lambda>c. the (digit_of c)) (crockford_str u) = digits32 26 u" by simp
    have l: "list_all (\<lambda>c. c \<in> set crockford) (crockford_str u)"
      unfolding crockford_str_def list_all_iff using d(1) by auto
    have "(2::nat) ^ 128 \<le> 32 ^ 26" using power_increasing [of 128 130 "2::nat"] power_mult [of "2::nat" 5 26] by simp
    with u have "u < 32 ^ 26" by (rule less_le_trans)
    then have v: "value32 (digits32 26 u) = u" unfolding value32_digits by (rule mod_less)
    have "length (crockford_str u) = 26" by (simp add: crockford_str_def)
    with l u show ?thesis unfolding crockford_parse_def m v Let_def by simp
  qed
  moreover have "list_all alphanumeric crockford" by (simp add: crockford_def alphanumeric_def)
  ultimately show ?thesis
    by (auto simp: ulid_codec_def crockford_parse_def Let_def list_all_iff split: if_splits)
qed

definition cited :: string where
  "cited = ''see [turn:0123456789ABCDEFGHJKMNPQRS] and [mem: later]''"

theorem scan_is_total_and_lossless_witness:
  "\<exists>parts. scan_text crockford_parse cited = Inr (map fst parts) \<and> concat (map snd parts) = cited
     \<and> (\<forall>(x, w) \<in> set parts. stands_for crockford_parse x w)"
proof (rule scan_is_total_and_lossless)
  show "utf8_text_ok cited" by code_simp
qed

theorem normalize_idempotent_witness:
  "\<exists>t. normalize crockford_str crockford_parse cited = Inr t \<and> scan_text crockford_parse t = scan_text crockford_parse cited
     \<and> normalize crockford_str crockford_parse t = Inr t"
proof (rule normalize_idempotent [OF crockford_codec])
  show "utf8_text_ok cited" by code_simp
qed

theorem reference_survives_prose_witness:
  "scan_text crockford_parse (''see [turn:'' @ turn_construct crockford_str (TurnId 7) @ ''] too'')
     = Inr [Segment_Prose ''see [turn:'', Segment_Turn (TurnId 7), Segment_Prose ''] too'']"
proof -
  have "scan_text crockford_parse ''see [turn:'' = Inr [Segment_Prose ''see [turn:'']"
    "scan_text crockford_parse ''] too'' = Inr [Segment_Prose ''] too'']"
    "utf8_text_ok ''see [turn:''" "utf8_text_ok ''] too''" by code_simp+
  from reference_survives_prose [OF crockford_codec this(3,4) _ this(1,2), of "TurnId 7"] show ?thesis by simp
qed

end
