(* ===== verification/Settings.thy ===== *)
theory Settings
  imports Store
begin

text \<open>
  The behavioural settings, \<open>crates/core/src/settings.rs\<close>: the groups with their build defaults, the reading of a recorded compaction
  group in any spelling, and the current settings as the latest snapshot in the log. A snapshot is an opaque column of
  its event; its decoding, generated by serde, is the argument \<open>decode\<close>. Floating-point fields are the rationals they
  are written as.
\<close>

section \<open>The groups\<close>

record compaction_settings =
  cs_token_budget :: int
  cs_idle_gap_seconds :: int
  cs_carryover_token_budget :: int
  cs_flush_min_turns :: int
  cs_context_length :: "int option"

record checkpoint_settings =
  ck_enabled :: bool
  ck_min_delta_chars :: int
  ck_cooldown_seconds :: int
  ck_flush_on_open :: bool

record brief_settings =
  bs_char_budget :: int
  bs_recent_facts :: int
  bs_key_relationships :: int
  bs_present_set_cap :: int
  bs_cold_open_window_days :: int
  bs_cold_open_threads :: int
  bs_upcoming_window_days :: int
  bs_max_upcoming_items :: int

record scheduler_settings =
  ss_max_wakeups_per_session :: int
  ss_tick_seconds :: int

record turn_settings =
  ts_max_steps :: int
  ts_block_timeout_seconds :: int
  ts_max_block_attempts :: int
  ts_supersede_window_seconds :: int
  ts_max_attachment_text_chars :: int

record concurrency_settings =
  cn_max_concurrent_streams :: int
  cn_describe_staleness_escape_seconds :: int

record memory_settings =
  me_max_entry_chars :: int

record web_settings =
  we_fetch_timeout_seconds :: int
  we_max_response_bytes :: int
  we_max_markdown_chars :: int
  we_user_agent :: string
  we_allow_private_addresses :: bool

record ambient_settings =
  am_enabled :: bool
  am_max_hits :: int
  am_min_score :: rat

record tau_days =
  ta_high :: rat
  ta_medium :: rat
  ta_low :: rat

record recency_settings =
  rc_bonus :: rat
  rc_tau_days :: tau_days

record search_settings =
  se_cosine :: rat
  se_bm25 :: rat
  se_tag :: rat
  se_recency :: recency_settings

record maintenance_settings =
  ma_enabled :: bool
  ma_tick_seconds :: int
  ma_consolidation_min_activity :: int
  ma_canonicalize_min_activity :: int
  ma_link_cleanup_min_activity :: int
  ma_consolidation_candidate_threshold :: rat
  ma_consolidation_similarity_threshold :: rat
  ma_dedup_similarity_threshold :: rat

record settings =
  st_compaction :: compaction_settings
  st_checkpoint :: checkpoint_settings
  st_brief :: brief_settings
  st_turn :: turn_settings
  st_search :: search_settings
  st_scheduler :: scheduler_settings
  st_concurrency :: concurrency_settings
  st_memory :: memory_settings
  st_web :: web_settings
  st_ambient :: ambient_settings
  st_maintenance :: maintenance_settings

section \<open>Build defaults\<close>

definition MINUTE :: int where "MINUTE = SECONDS_PER_MINUTE"

definition default_compaction :: compaction_settings where
  "default_compaction =
     \<lparr>cs_token_budget = 24000, cs_idle_gap_seconds = 30 * MINUTE, cs_carryover_token_budget = 4000,
      cs_flush_min_turns = 4, cs_context_length = None\<rparr>"

definition default_checkpoint :: checkpoint_settings where
  "default_checkpoint =
     \<lparr>ck_enabled = True, ck_min_delta_chars = 2000, ck_cooldown_seconds = 5 * MINUTE, ck_flush_on_open = True\<rparr>"

definition default_brief :: brief_settings where
  "default_brief =
     \<lparr>bs_char_budget = 8000, bs_recent_facts = 8, bs_key_relationships = 8, bs_present_set_cap = 10,
      bs_cold_open_window_days = 7, bs_cold_open_threads = 4, bs_upcoming_window_days = 7, bs_max_upcoming_items = 5\<rparr>"

definition default_scheduler :: scheduler_settings where
  "default_scheduler = \<lparr>ss_max_wakeups_per_session = 5, ss_tick_seconds = MINUTE\<rparr>"

definition default_turn :: turn_settings where
  "default_turn =
     \<lparr>ts_max_steps = 12, ts_block_timeout_seconds = 3 * MINUTE, ts_max_block_attempts = 3,
      ts_supersede_window_seconds = MINUTE, ts_max_attachment_text_chars = 8000\<rparr>"

definition default_concurrency :: concurrency_settings where
  "default_concurrency = \<lparr>cn_max_concurrent_streams = 4, cn_describe_staleness_escape_seconds = 5 * MINUTE\<rparr>"

definition default_memory :: memory_settings where
  "default_memory = \<lparr>me_max_entry_chars = 1000\<rparr>"

definition default_web :: web_settings where
  "default_web =
     \<lparr>we_fetch_timeout_seconds = 30, we_max_response_bytes = 5 * 1024 * 1024, we_max_markdown_chars = 20000,
      we_user_agent = ''zuihitsu/0.1 (+https://github.com/philpax/zuihitsu)'', we_allow_private_addresses = False\<rparr>"

definition default_ambient :: ambient_settings where
  "default_ambient = \<lparr>am_enabled = True, am_max_hits = 3, am_min_score = - (3 / 10)\<rparr>"

definition default_tau_days :: tau_days where
  "default_tau_days = \<lparr>ta_high = 90, ta_medium = 365, ta_low = 3650\<rparr>"

definition default_recency :: recency_settings where
  "default_recency = \<lparr>rc_bonus = 3 / 10, rc_tau_days = default_tau_days\<rparr>"

definition default_search :: search_settings where
  "default_search = \<lparr>se_cosine = 1 / 2, se_bm25 = 3 / 10, se_tag = 1 / 5, se_recency = default_recency\<rparr>"

definition default_maintenance :: maintenance_settings where
  "default_maintenance =
     \<lparr>ma_enabled = True, ma_tick_seconds = 60, ma_consolidation_min_activity = 20, ma_canonicalize_min_activity = 5,
      ma_link_cleanup_min_activity = 20, ma_consolidation_candidate_threshold = 3 / 5,
      ma_consolidation_similarity_threshold = 17 / 20, ma_dedup_similarity_threshold = 19 / 20\<rparr>"

definition default_settings :: settings where
  "default_settings =
     \<lparr>st_compaction = default_compaction, st_checkpoint = default_checkpoint, st_brief = default_brief,
      st_turn = default_turn, st_search = default_search, st_scheduler = default_scheduler,
      st_concurrency = default_concurrency, st_memory = default_memory, st_web = default_web,
      st_ambient = default_ambient, st_maintenance = default_maintenance\<rparr>"

section \<open>A recorded compaction group\<close>

record compaction_snapshot =
  sn_token_budget :: int
  sn_idle_gap_seconds :: int
  sn_carryover_token_budget :: "int option"
  sn_carryover_char_budget :: "int option"
  sn_flush_min_turns :: int
  sn_context_length :: "int option"

definition default_compaction_snapshot :: compaction_snapshot where
  "default_compaction_snapshot =
     \<lparr>sn_token_budget = cs_token_budget default_compaction, sn_idle_gap_seconds = cs_idle_gap_seconds default_compaction,
      sn_carryover_token_budget = None, sn_carryover_char_budget = None,
      sn_flush_min_turns = cs_flush_min_turns default_compaction, sn_context_length = cs_context_length default_compaction\<rparr>"

definition ESTIMATED_CHARS_PER_TOKEN :: int where "ESTIMATED_CHARS_PER_TOKEN = 4"

definition estimated_tokens_from_chars :: "int \<Rightarrow> int" where
  "estimated_tokens_from_chars chars =
     chars div ESTIMATED_CHARS_PER_TOKEN + (if chars mod ESTIMATED_CHARS_PER_TOKEN = 0 then 0 else 1)"

definition compaction_from_snapshot :: "compaction_snapshot \<Rightarrow> compaction_settings" where
  "compaction_from_snapshot s =
     \<lparr>cs_token_budget = sn_token_budget s, cs_idle_gap_seconds = sn_idle_gap_seconds s,
      cs_carryover_token_budget =
        (case sn_carryover_token_budget s of
           Some n \<Rightarrow> n
         | None \<Rightarrow>
             (case sn_carryover_char_budget s of
                Some chars \<Rightarrow> estimated_tokens_from_chars (max chars 0)
              | None \<Rightarrow> cs_carryover_token_budget default_compaction)),
      cs_flush_min_turns = sn_flush_min_turns s, cs_context_length = sn_context_length s\<rparr>"

text \<open>A group written now: the character spelling is no longer written.\<close>

definition compaction_snapshot_of :: "compaction_settings \<Rightarrow> compaction_snapshot" where
  "compaction_snapshot_of c =
     \<lparr>sn_token_budget = cs_token_budget c, sn_idle_gap_seconds = cs_idle_gap_seconds c,
      sn_carryover_token_budget = Some (cs_carryover_token_budget c), sn_carryover_char_budget = None,
      sn_flush_min_turns = cs_flush_min_turns c, sn_context_length = cs_context_length c\<rparr>"

section \<open>The current settings\<close>

definition adopt :: "(serialized \<Rightarrow> settings) \<Rightarrow> settings \<Rightarrow> event \<Rightarrow> settings" where
  "adopt decode current e = (case ev_payload e of ConfigSet logged _ \<Rightarrow> decode logged | _ \<Rightarrow> current)"

definition from_store ::
  "(serialized \<Rightarrow> settings) \<Rightarrow> ('s \<Rightarrow> seq \<Rightarrow> (store_error, event list) result) \<Rightarrow> 's \<Rightarrow> (store_error, settings) result" where
  "from_store decode read s = andthen (read s 0) (\<lambda>es. Inr (foldl (adopt decode) default_settings es))"

section \<open>Properties\<close>

fun logged_settings :: "event_payload \<Rightarrow> serialized option" where
  "logged_settings (ConfigSet logged _) = Some logged"
| "logged_settings _ = None"

lemma adopt_logged: "adopt decode d e = (case logged_settings (ev_payload e) of Some logged \<Rightarrow> decode logged | None \<Rightarrow> d)"
  by (cases "ev_payload e") (simp_all add: adopt_def)

lemma foldl_adopt:
  "foldl (adopt decode) d es = (case rev (List.map_filter (\<lambda>e. logged_settings (ev_payload e)) es) of [] \<Rightarrow> d | logged # _ \<Rightarrow> decode logged)"
proof (induction es rule: rev_induct)
  case (snoc e es)
  then show ?case by (simp add: adopt_logged List.map_filter_def split: option.split)
qed (simp add: List.map_filter_simps)

end
