(* ===== verification/Brief.thy ===== *)
theory Brief
  imports Graph_Sessions Graph_Occurrences Settings Suggest
begin

text \<open>
  Contextual briefs, \<open>crates/core/src/brief/mod.rs\<close>, \<open>brief/helpers.rs\<close> and \<open>brief/traced.rs\<close>: the block of
  one memory as structured data and as markup, the composition of a session's brief under its character budget, and the trace of
  what reached it. \<open>BriefError\<close> wraps the error of the graph one to one, so results are outcomes of the graph; the ULID text of
  a turn is the argument \<open>ulid_str\<close>.
\<close>

section \<open>Data\<close>

record brief_fact =
  ft_text :: string
  ft_markers :: "string list"

record brief_relationship =
  rl_relation :: relation_name
  rl_source :: memory_name
  rl_target :: memory_name
  rl_marker :: "string option"

record brief =
  bf_subject :: memory_name
  bf_summary :: "string option"
  bf_recent_facts :: "brief_fact list"
  bf_relationships :: "brief_relationship list"

section \<open>Markup\<close>

definition newline :: string where "newline = [CHR 10]"
definition arrow :: string where "arrow = '' '' @ [CHR 0xE2, CHR 0x86, CHR 0x92] @ '' ''"
definition em_dash :: string where "em_dash = [CHR 0xE2, CHR 0x80, CHR 0x94]"

definition render_fact :: "brief_fact \<Rightarrow> string" where
  "render_fact f = ft_text f @ concat (map (\<lambda>m. '' '' @ m) (ft_markers f))"

definition fact_line :: "brief_fact \<Rightarrow> string" where
  "fact_line f = ''- '' @ render_fact f @ newline"

definition relationship_line :: "brief_relationship \<Rightarrow> string" where
  "relationship_line r =
     ''- '' @ name_str (rl_source r) @ arrow @ relation_name_str (rl_relation r) @ arrow @ name_str (rl_target r)
       @ (case rl_marker r of Some m \<Rightarrow> '' '' @ m | None \<Rightarrow> []) @ newline"

definition render_body :: "brief \<Rightarrow> string" where
  "render_body b =
     (case bf_summary b of Some s \<Rightarrow> ''<summary>'' @ s @ ''</summary>'' @ newline | None \<Rightarrow> [])
     @ (if bf_recent_facts b = [] then []
        else ''<recent_facts>'' @ newline @ concat (map fact_line (bf_recent_facts b)) @ ''</recent_facts>'' @ newline)
     @ (if bf_relationships b = [] then []
        else ''<relationships>'' @ newline @ concat (map relationship_line (bf_relationships b)) @ ''</relationships>'' @ newline)"

definition block_header :: "memory_name \<Rightarrow> string" where
  "block_header name = ''## '' @ name_str name @ newline"

definition render :: "brief \<Rightarrow> string" where
  "render b = block_header (bf_subject b) @ render_body b"

section \<open>A recorded brief\<close>

record relationship_wire =
  rw_relation :: relation_name
  rw_source :: "memory_name option"
  rw_target :: "memory_name option"
  rw_subject :: "memory_name option"
  rw_marker :: "string option"

record brief_wire =
  bw_subject :: memory_name
  bw_summary :: "string option"
  bw_recent_facts :: "brief_fact list"
  bw_relationships :: "relationship_wire list"

definition relationship_from_wire :: "memory_name \<Rightarrow> relationship_wire \<Rightarrow> (string, brief_relationship) result" where
  "relationship_from_wire subj w =
     (case (rw_source w, rw_target w) of
        (Some s, Some t) \<Rightarrow> Inr \<lparr>rl_relation = rw_relation w, rl_source = s, rl_target = t, rl_marker = rw_marker w\<rparr>
      | _ \<Rightarrow>
          (case rw_subject w of
             None \<Rightarrow> Inl ''brief: relationship carries neither source/target nor subject''
           | Some neighbour \<Rightarrow>
               Inr \<lparr>rl_relation = rw_relation w, rl_source = subj, rl_target = neighbour, rl_marker = rw_marker w\<rparr>))"

definition brief_from_wire :: "brief_wire \<Rightarrow> (string, brief) result" where
  "brief_from_wire w =
     andthen (mapM (relationship_from_wire (bw_subject w)) (bw_relationships w)) (\<lambda>rs.
       Inr \<lparr>bf_subject = bw_subject w, bf_summary = bw_summary w, bf_recent_facts = bw_recent_facts w,
            bf_relationships = rs\<rparr>)"

section \<open>The block of a memory\<close>

definition class_display :: "jiff \<Rightarrow> graph \<Rightarrow> memory_view \<Rightarrow> fault class_of \<Rightarrow> memory_name outcome" where
  "class_display J g m class_of =
     andthen (class_of (mv_id m)) (\<lambda>c.
     andthen (memory_by_id J g c) (\<lambda>primary.
       Inr (case primary of Some p \<Rightarrow> mv_name p | None \<Rightarrow> mv_name m)))"

definition STALE_MARKER :: string where
  "STALE_MARKER = ''[stale '' @ em_dash @ '' no newer entry]''"

definition entry_fact ::
  "jiff \<Rightarrow> (nat \<Rightarrow> string) \<Rightarrow> graph \<Rightarrow> memory_view \<Rightarrow> entry_view \<Rightarrow> memory_id list \<Rightarrow> timestamp \<Rightarrow> brief_fact outcome" where
  "entry_fact J ulid_str g m e present_set clock =
     andthen (entry_provenance_marker J ulid_str g e m present_set) (\<lambda>marker.
       let effective = (case vw_occurred_sort e of Some t \<Rightarrow> t | None \<Rightarrow> vw_asserted_at e)
       in Inr \<lparr>ft_text = vw_text e,
               ft_markers = (case marker of Some t \<Rightarrow> [t] | None \<Rightarrow> [])
                 @ (if is_stale (mv_volatility m) effective clock then [STALE_MARKER] else [])\<rparr>)"

fun visible_facts ::
  "jiff \<Rightarrow> (nat \<Rightarrow> string) \<Rightarrow> graph \<Rightarrow> memory_view \<Rightarrow> memory_id list \<Rightarrow> fault class_of \<Rightarrow> timestamp
    \<Rightarrow> entry_view list \<Rightarrow> brief_fact list outcome" where
  "visible_facts J U g m present_set class_of clock [] = Inr []"
| "visible_facts J U g m present_set class_of clock (e # es) =
     andthen (visible e m present_set class_of) (\<lambda>shown.
       if \<not> shown then visible_facts J U g m present_set class_of clock es
       else andthen (entry_fact J U g m e present_set clock) (\<lambda>f.
            andthen (visible_facts J U g m present_set class_of clock es) (\<lambda>fs. Inr (f # fs))))"

definition visible_recent_facts ::
  "jiff \<Rightarrow> (nat \<Rightarrow> string) \<Rightarrow> graph \<Rightarrow> memory_view \<Rightarrow> memory_id list \<Rightarrow> fault class_of \<Rightarrow> nat \<Rightarrow> timestamp
    \<Rightarrow> brief_fact list outcome" where
  "visible_recent_facts J U g m present_set class_of recent clock =
     andthen (class_entries J g (mv_id m)) (\<lambda>es.
     andthen (visible_facts J U g m present_set class_of clock es) (\<lambda>facts.
       Inr (drop (length facts - recent) facts)))"

fun latest_loop ::
  "memory_view \<Rightarrow> memory_id list \<Rightarrow> fault class_of \<Rightarrow> entry_view option \<Rightarrow> entry_view list \<Rightarrow> entry_view option outcome" where
  "latest_loop m present_set class_of latest [] = Inr latest"
| "latest_loop m present_set class_of latest (e # es) =
     andthen (visible e m present_set class_of) (\<lambda>shown.
       latest_loop m present_set class_of (if shown then Some e else latest) es)"

definition latest_visible_entry ::
  "jiff \<Rightarrow> graph \<Rightarrow> memory_view \<Rightarrow> memory_id list \<Rightarrow> fault class_of \<Rightarrow> entry_view option outcome" where
  "latest_visible_entry J g neighbour present_set class_of =
     andthen (class_entries J g (mv_id neighbour)) (latest_loop neighbour present_set class_of None)"

fun relation_weight :: "relation_name \<Rightarrow> int" where
  "relation_weight RelationName_CreatedBy = 100"
| "relation_weight RelationName_Created = 100"
| "relation_weight RelationName_OperatorOf = 90"
| "relation_weight RelationName_OperatedBy = 90"
| "relation_weight RelationName_PartOf = 80"
| "relation_weight RelationName_Contains = 80"
| "relation_weight RelationName_MemberOf = 75"
| "relation_weight RelationName_HasMember = 75"
| "relation_weight RelationName_ParticipatesIn = 70"
| "relation_weight RelationName_HasParticipant = 70"
| "relation_weight RelationName_LocatedAt = 60"
| "relation_weight RelationName_LocationOf = 60"
| "relation_weight (RelationName_Other _) = 50"
| "relation_weight RelationName_Knows = 40"
| "relation_weight RelationName_KnownBy = 40"
| "relation_weight RelationName_SameAs = 10"

record ranked_relationship =
  rk_weight :: int
  rk_recency :: int
  rk_relationship :: brief_relationship

definition rank_key :: "ranked_relationship \<Rightarrow> int \<times> int \<times> string \<times> string \<times> string" where
  "rank_key r =
     (- rk_weight r, - rk_recency r, relation_name_str (rl_relation (rk_relationship r)),
      name_str (rl_source (rk_relationship r)), name_str (rl_target (rk_relationship r)))"

definition I64_MIN :: int where "I64_MIN = - (2 ^ 63)"

text \<open>One turn of the loop of \<open>relationships\<close>, past the filters.\<close>

definition rank_link ::
  "jiff \<Rightarrow> (nat \<Rightarrow> string) \<Rightarrow> graph \<Rightarrow> memory_name \<Rightarrow> memory_id list \<Rightarrow> fault class_of \<Rightarrow> neighbor_link_view \<Rightarrow> memory_view
    \<Rightarrow> ranked_relationship outcome" where
  "rank_link J U g subj present_set class_of l m =
     andthen (if nv_visibility l = Visibility_Public then Inr None
              else andthen (teller_display J g (case nv_told_by l of Some t \<Rightarrow> t | None \<Rightarrow> Teller_Agent)) (\<lambda>t.
                     Inr (link_marker U (nv_visibility l) t (Some (marker_ref J g (nv_told_in l)))))) (\<lambda>marker.
     andthen (latest_visible_entry J g m present_set class_of) (\<lambda>latest.
       Inr \<lparr>rk_weight = relation_weight (nv_relation l),
            rk_recency = (case latest of Some e \<Rightarrow> vw_asserted_at e | None \<Rightarrow> I64_MIN),
            rk_relationship =
              \<lparr>rl_relation = nv_relation l,
               rl_source = (if nv_incoming l then mv_name m else subj),
               rl_target = (if nv_incoming l then subj else mv_name m),
               rl_marker = marker\<rparr>\<rparr>))"

fun rank_links ::
  "jiff \<Rightarrow> (nat \<Rightarrow> string) \<Rightarrow> graph \<Rightarrow> memory_name \<Rightarrow> memory_id list \<Rightarrow> fault class_of \<Rightarrow> (relation_name \<times> memory_id) list
    \<Rightarrow> neighbor_link_view list \<Rightarrow> ranked_relationship list outcome" where
  "rank_links J U g subj present_set class_of seen [] = Inr []"
| "rank_links J U g subj present_set class_of seen (l # ls) =
     andthen (relation_view_of g (relation_name_str (nv_relation l))) (\<lambda>r.
     andthen (link_visible (neighbor_link_view_vis l) (case r of Some v \<Rightarrow> rv_symmetric v | None \<Rightarrow> False) present_set class_of) (\<lambda>shown.
       if \<not> shown then rank_links J U g subj present_set class_of seen ls
       else if (nv_relation l, nv_other l) \<in> set seen then rank_links J U g subj present_set class_of seen ls
       else andthen (memory_by_id J g (nv_other l)) (\<lambda>other.
         case other of
           None \<Rightarrow> rank_links J U g subj present_set class_of ((nv_relation l, nv_other l) # seen) ls
         | Some m \<Rightarrow>
             andthen (rank_link J U g subj present_set class_of l m) (\<lambda>ranked.
             andthen (rank_links J U g subj present_set class_of ((nv_relation l, nv_other l) # seen) ls) (\<lambda>rest.
               Inr (ranked # rest))))))"

definition relationships ::
  "jiff \<Rightarrow> (nat \<Rightarrow> string) \<Rightarrow> graph \<Rightarrow> memory_id \<Rightarrow> memory_name \<Rightarrow> memory_id list \<Rightarrow> fault class_of \<Rightarrow> nat
    \<Rightarrow> brief_relationship list outcome" where
  "relationships J U g i subj present_set class_of cap =
     andthen (class_neighbor_links g i) (\<lambda>ls.
     andthen (rank_links J U g subj present_set class_of [] ls) (\<lambda>ranked.
       Inr (map rk_relationship (take cap (sort_key rank_key ranked)))))"

definition memory_brief ::
  "jiff \<Rightarrow> (nat \<Rightarrow> string) \<Rightarrow> graph \<Rightarrow> memory_view \<Rightarrow> memory_id list \<Rightarrow> fault class_of \<Rightarrow> brief_settings \<Rightarrow> timestamp
    \<Rightarrow> brief outcome" where
  "memory_brief J U g m present_set class_of S clock =
     andthen (class_display J g m class_of) (\<lambda>subj.
     andthen (visible_recent_facts J U g m present_set class_of (nat (bs_recent_facts S)) clock) (\<lambda>facts.
     andthen (relationships J U g (mv_id m) subj present_set class_of (nat (bs_key_relationships S))) (\<lambda>rs.
       Inr \<lparr>bf_subject = subj, bf_summary = (if mv_description m = [] then None else Some (mv_description m)),
            bf_recent_facts = facts, bf_relationships = rs\<rparr>)))"

definition render_memory_body ::
  "jiff \<Rightarrow> (nat \<Rightarrow> string) \<Rightarrow> graph \<Rightarrow> memory_view \<Rightarrow> memory_id list \<Rightarrow> fault class_of \<Rightarrow> brief_settings \<Rightarrow> timestamp
    \<Rightarrow> string outcome" where
  "render_memory_body J U g m present_set class_of S clock =
     andthen (memory_brief J U g m present_set class_of S clock) (\<lambda>b. Inr (render_body b))"

definition compose_participant_brief ::
  "jiff \<Rightarrow> (nat \<Rightarrow> string) \<Rightarrow> graph \<Rightarrow> memory_id \<Rightarrow> memory_id list \<Rightarrow> brief_settings \<Rightarrow> timestamp \<Rightarrow> brief option outcome" where
  "compose_participant_brief J U g participant present_set S clock =
     andthen (memory_by_id J g participant) (\<lambda>m.
       case m of
         None \<Rightarrow> Inr None
       | Some m \<Rightarrow> andthen (memory_brief J U g m present_set (graph_class_of g) S clock) (\<lambda>b. Inr (Some b)))"

definition compose_participant ::
  "jiff \<Rightarrow> (nat \<Rightarrow> string) \<Rightarrow> graph \<Rightarrow> memory_id \<Rightarrow> memory_id list \<Rightarrow> brief_settings \<Rightarrow> timestamp \<Rightarrow> string outcome" where
  "compose_participant J U g participant present_set S clock =
     andthen (compose_participant_brief J U g participant present_set S clock) (\<lambda>b.
       Inr (case b of Some b \<Rightarrow> render b | None \<Rightarrow> []))"

fun activity_keys :: "jiff \<Rightarrow> graph \<Rightarrow> memory_id list \<Rightarrow> (int \<times> memory_id) list outcome" where
  "activity_keys J g [] = Inr []"
| "activity_keys J g (i # is) =
     andthen (class_entries J g i) (\<lambda>es.
     andthen (activity_keys J g is) (\<lambda>keyed.
       Inr ((if es = [] then I64_MIN else Max (set (map vw_asserted_at es)), i) # keyed)))"

definition ranked_present :: "jiff \<Rightarrow> graph \<Rightarrow> memory_id list \<Rightarrow> memory_id list outcome" where
  "ranked_present J g present_set =
     andthen (activity_keys J g present_set) (\<lambda>keyed. Inr (map snd (sort_key (\<lambda>(latest, i). (- latest, i)) keyed)))"

end
