(* ===== verification/Brief_Compose.thy ===== *)
theory Brief_Compose
  imports Brief
begin

text \<open>
  The composition of a session's brief, \<open>compose_packed\<close> of \<open>crates/core/src/brief/mod.rs\<close>, section by section under the
  character budget, and the trace of \<open>brief/traced.rs\<close>. A \<open>HashSet\<close> that is only asked for membership is a set.
\<close>

section \<open>The budget\<close>

definition char_len :: "string \<Rightarrow> nat" where
  "char_len s = length (filter (\<lambda>c. \<not> is_continuation c) s)"

record packing =
  pk_remaining :: nat
  pk_out :: string
  pk_full :: "memory_id set"
  pk_threads :: "memory_id set"
  pk_classes :: "memory_id set"

definition budget_new :: "int \<Rightarrow> nat" where
  "budget_new chars = nat (max chars 0)"

definition take_budget :: "nat \<Rightarrow> packing \<Rightarrow> bool \<times> packing" where
  "take_budget cost p =
     (if cost \<le> pk_remaining p then (True, p\<lparr>pk_remaining := pk_remaining p - cost\<rparr>) else (False, p))"

definition charge :: "nat \<Rightarrow> packing \<Rightarrow> packing" where
  "charge cost p = p\<lparr>pk_remaining := pk_remaining p - cost\<rparr>"

definition refund :: "nat \<Rightarrow> packing \<Rightarrow> packing" where
  "refund cost p = p\<lparr>pk_remaining := pk_remaining p + cost\<rparr>"

definition write_out :: "string \<Rightarrow> packing \<Rightarrow> packing" where
  "write_out text p = p\<lparr>pk_out := pk_out p @ text\<rparr>"

record brief_request =
  rq_present_set :: "memory_id list"
  rq_speakers :: "memory_id list"
  rq_current_context :: "memory_id option"
  rq_working_set :: "memory_id list"
  rq_now :: timestamp

section \<open>The mandatory blocks\<close>

definition self_block ::
  "jiff \<Rightarrow> (nat \<Rightarrow> string) \<Rightarrow> graph \<Rightarrow> brief_settings \<Rightarrow> brief_request \<Rightarrow> packing \<Rightarrow> packing outcome" where
  "self_block J U g S R p =
     andthen (self_memory J g) (\<lambda>self.
       case self of
         None \<Rightarrow> Inr p
       | Some m \<Rightarrow>
           andthen (memory_brief J U g m (rq_present_set R) (graph_class_of g) S (rq_now R)) (\<lambda>b.
             let block = ''# You'' @ newline @ render_body (b\<lparr>bf_summary := None\<rparr>) @ newline
             in andthen (graph_class_of g (mv_id m)) (\<lambda>c.
                  Inr ((write_out block (charge (char_len block) p))\<lparr>pk_classes := insert c (pk_classes p)\<rparr>))))"

definition room_text :: "memory_view \<Rightarrow> string" where
  "room_text context =
     ''# Current room: '' @ room_display (name_str (mv_name context))
       @ (if TagName_Confidential \<in> set (mv_tags context) then '' (confidential)'' else []) @ newline
       @ (if mv_description context = [] then [] else mv_description context @ newline) @ newline"

definition room_block :: "jiff \<Rightarrow> graph \<Rightarrow> brief_request \<Rightarrow> packing \<Rightarrow> packing outcome" where
  "room_block J g R p =
     (case rq_current_context R of
        None \<Rightarrow> Inr p
      | Some c \<Rightarrow>
          andthen (memory_by_id J g c) (\<lambda>context.
            case context of
              None \<Rightarrow> Inr p
            | Some context \<Rightarrow>
                Inr (write_out (room_text context) (charge (char_len (room_text context)) p))))"

section \<open>The people present\<close>

definition present_header :: string where "present_header = ''# Present'' @ newline"

definition name_line :: "memory_name \<Rightarrow> string" where
  "name_line display = ''- '' @ name_str display @ '' (present)'' @ newline"

text \<open>A full block while the cap lasts: charged for a speaker, taken from the budget otherwise.\<close>

definition place_full ::
  "jiff \<Rightarrow> (nat \<Rightarrow> string) \<Rightarrow> graph \<Rightarrow> brief_settings \<Rightarrow> brief_request \<Rightarrow> memory_id \<Rightarrow> memory_view \<Rightarrow> memory_name
    \<Rightarrow> packing \<Rightarrow> (bool \<times> packing) outcome" where
  "place_full J U g S R i m display p =
     andthen (render_memory_body J U g m (rq_present_set R) (graph_class_of g) S (rq_now R)) (\<lambda>body.
       let block = block_header display @ body
       in if i \<in> set (rq_speakers R) then
            Inr (True, (write_out block (charge (char_len block) p))\<lparr>pk_full := insert i (pk_full p)\<rparr>)
          else case take_budget (char_len block) p of
                 (False, p') \<Rightarrow> Inr (False, p')
               | (True, p') \<Rightarrow> Inr (True, (write_out block p')\<lparr>pk_full := insert i (pk_full p')\<rparr>))"

fun present_loop ::
  "jiff \<Rightarrow> (nat \<Rightarrow> string) \<Rightarrow> graph \<Rightarrow> brief_settings \<Rightarrow> brief_request \<Rightarrow> nat \<Rightarrow> nat \<Rightarrow> memory_id list \<Rightarrow> packing
    \<Rightarrow> packing outcome" where
  "present_loop J U g S R cap full_blocks [] p = Inr p"
| "present_loop J U g S R cap full_blocks (i # is) p =
     andthen (memory_by_id J g i) (\<lambda>m.
       case m of
         None \<Rightarrow> present_loop J U g S R cap full_blocks is p
       | Some m \<Rightarrow>
           andthen (graph_class_of g i) (\<lambda>c.
             if c \<in> pk_classes p then present_loop J U g S R cap full_blocks is p
             else let p = p\<lparr>pk_classes := insert c (pk_classes p)\<rparr>
               in andthen (class_display J g m (graph_class_of g)) (\<lambda>display.
                  andthen (if full_blocks < cap then place_full J U g S R i m display p else Inr (False, p)) (\<lambda>(placed, p).
                    if placed then present_loop J U g S R cap (full_blocks + 1) is p
                    else present_loop J U g S R cap full_blocks is
                           (write_out (name_line display) (charge (char_len (name_line display)) p))))))"

definition present_blocks ::
  "jiff \<Rightarrow> (nat \<Rightarrow> string) \<Rightarrow> graph \<Rightarrow> brief_settings \<Rightarrow> brief_request \<Rightarrow> packing \<Rightarrow> packing outcome" where
  "present_blocks J U g S R p =
     (if rq_present_set R = [] then Inr p
      else andthen (ranked_present J g (rq_present_set R)) (\<lambda>ranked.
             present_loop J U g S R (nat (max (bs_present_set_cap S) 0)) 0
               (filter (\<lambda>i. i \<in> set (rq_speakers R)) ranked @ filter (\<lambda>i. i \<notin> set (rq_speakers R)) ranked)
               (charge (char_len present_header) (write_out present_header p))))"

section \<open>Active threads\<close>

definition threads_header :: string where "threads_header = ''# Active threads'' @ newline"

fun thread_loop ::
  "jiff \<Rightarrow> (nat \<Rightarrow> string) \<Rightarrow> graph \<Rightarrow> brief_settings \<Rightarrow> brief_request \<Rightarrow> memory_id option \<Rightarrow> memory_id list \<Rightarrow> string \<Rightarrow> packing
    \<Rightarrow> (string \<times> packing) outcome" where
  "thread_loop J U g S R self_id [] threads p = Inr (threads, p)"
| "thread_loop J U g S R self_id (i # is) threads p =
     (if Some i = self_id \<or> Some i = rq_current_context R \<or> i \<in> set (rq_present_set R)
      then thread_loop J U g S R self_id is threads p
      else andthen (graph_class_of g i) (\<lambda>c.
        if c \<in> pk_classes p then thread_loop J U g S R self_id is threads p
        else andthen (memory_by_id J g i) (\<lambda>m.
          case m of
            None \<Rightarrow> thread_loop J U g S R self_id is threads p
          | Some m \<Rightarrow>
              andthen (render_memory_body J U g m (rq_present_set R) (graph_class_of g) S (rq_now R)) (\<lambda>body.
                if trim body = [] then thread_loop J U g S R self_id is threads p
                else andthen (class_display J g m (graph_class_of g)) (\<lambda>display.
                  let block = block_header display @ body
                  in case take_budget (char_len block) p of
                       (False, p) \<Rightarrow> thread_loop J U g S R self_id is threads p
                     | (True, p) \<Rightarrow>
                         thread_loop J U g S R self_id is (threads @ block)
                           (p\<lparr>pk_threads := insert i (pk_threads p), pk_classes := insert c (pk_classes p)\<rparr>))))))"

definition thread_blocks ::
  "jiff \<Rightarrow> (nat \<Rightarrow> string) \<Rightarrow> graph \<Rightarrow> brief_settings \<Rightarrow> brief_request \<Rightarrow> packing \<Rightarrow> packing outcome" where
  "thread_blocks J U g S R p =
     (if rq_working_set R = [] then Inr p
      else andthen (self_memory J g) (\<lambda>self.
        case take_budget (char_len threads_header) p of
          (False, p) \<Rightarrow> Inr p
        | (True, p) \<Rightarrow>
            andthen (thread_loop J U g S R (map_option mv_id self) (rq_working_set R) [] p) (\<lambda>(threads, p).
              Inr (if threads = [] then refund (char_len threads_header) p
                   else write_out threads (write_out threads_header p)))))"

section \<open>Upcoming\<close>

definition upcoming_header :: string where "upcoming_header = ''# Upcoming'' @ newline"

definition format_day :: "jiff \<Rightarrow> timestamp \<Rightarrow> string" where
  "format_day J t = strftime_utc J t ''%a %d %b''"

definition upcoming_line :: "jiff \<Rightarrow> (nat \<Rightarrow> string) \<Rightarrow> graph \<Rightarrow> brief_request \<Rightarrow> memory_view \<Rightarrow> entry_view \<Rightarrow> string outcome" where
  "upcoming_line J U g R m e =
     andthen (entry_provenance_marker J U g e m (rq_present_set R)) (\<lambda>marker.
       Inr (''- '' @ (case vw_occurred_sort e of Some t \<Rightarrow> format_day J t | None \<Rightarrow> []) @ '': '' @ name_str (mv_name m)
            @ '' '' @ em_dash @ '' '' @ vw_text e @ (case marker of Some t \<Rightarrow> '' '' @ t | None \<Rightarrow> []) @ newline))"

fun upcoming_loop ::
  "jiff \<Rightarrow> (nat \<Rightarrow> string) \<Rightarrow> graph \<Rightarrow> brief_request \<Rightarrow> nat \<Rightarrow> (memory_view \<times> entry_view) list \<Rightarrow> string list outcome" where
  "upcoming_loop J U g R left [] = Inr []"
| "upcoming_loop J U g R left ((m, e) # rows) =
     (if left = 0 then Inr []
      else andthen (visible e m (rq_present_set R) (graph_class_of g)) (\<lambda>shown.
        if \<not> shown then upcoming_loop J U g R left rows
        else andthen (upcoming_line J U g R m e) (\<lambda>line.
             andthen (upcoming_loop J U g R (left - 1) rows) (\<lambda>lines. Inr (line # lines)))))"

fun pack_lines :: "string list \<Rightarrow> string \<Rightarrow> packing \<Rightarrow> string \<times> packing" where
  "pack_lines [] block p = (block, p)"
| "pack_lines (l # ls) block p =
     (case take_budget (char_len l) p of
        (False, p) \<Rightarrow> (block, p)
      | (True, p) \<Rightarrow> pack_lines ls (block @ l) p)"

definition upcoming_lines ::
  "jiff \<Rightarrow> (nat \<Rightarrow> string) \<Rightarrow> graph \<Rightarrow> brief_settings \<Rightarrow> brief_request \<Rightarrow> string list outcome" where
  "upcoming_lines J U g S R =
     (let window_days = max (bs_upcoming_window_days S) 0; max_items = nat (max (bs_max_upcoming_items S) 0)
      in if \<not> (window_days > 0 \<and> max_items > 0) then Inr []
         else andthen (lift_panic (from_millis J (saturate64 (rq_now R + wrap64 (window_days * MILLIS_PER_DAY))))) (\<lambda>to.
              andthen (occurrences_in_window J g (rq_now R) to) (\<lambda>rows.
                upcoming_loop J U g R max_items rows)))"

definition upcoming_block ::
  "jiff \<Rightarrow> (nat \<Rightarrow> string) \<Rightarrow> graph \<Rightarrow> brief_settings \<Rightarrow> brief_request \<Rightarrow> packing \<Rightarrow> packing outcome" where
  "upcoming_block J U g S R p =
     andthen (upcoming_lines J U g S R) (\<lambda>lines.
       if lines = [] then Inr p
       else case take_budget (char_len upcoming_header) p of
              (False, p) \<Rightarrow> Inr p
            | (True, p) \<Rightarrow>
                (case pack_lines lines [] p of
                   (block, p) \<Rightarrow>
                     Inr (if block = [] then refund (char_len upcoming_header) p
                          else write_out block (write_out upcoming_header p))))"

section \<open>The brief\<close>

definition compose_packed ::
  "jiff \<Rightarrow> (nat \<Rightarrow> string) \<Rightarrow> graph \<Rightarrow> brief_settings \<Rightarrow> brief_request \<Rightarrow> packing outcome" where
  "compose_packed J U g S R =
     andthen (self_block J U g S R
         \<lparr>pk_remaining = budget_new (bs_char_budget S), pk_out = [], pk_full = {}, pk_threads = {}, pk_classes = {}\<rparr>) (\<lambda>p.
     andthen (room_block J g R p) (\<lambda>p.
     andthen (present_blocks J U g S R p) (\<lambda>p.
     andthen (thread_blocks J U g S R p) (\<lambda>p.
       upcoming_block J U g S R p))))"

definition compose :: "jiff \<Rightarrow> (nat \<Rightarrow> string) \<Rightarrow> graph \<Rightarrow> brief_settings \<Rightarrow> brief_request \<Rightarrow> string outcome" where
  "compose J U g S R = andthen (compose_packed J U g S R) (\<lambda>p. Inr (pk_out p))"

section \<open>The trace\<close>

datatype section_kind = SectionKind_SelfBrief | SectionKind_CurrentRoom | SectionKind_Participant | SectionKind_ActiveThread

record entry_trace =
  et_text :: string
  et_visibility :: visibility
  et_decision :: visibility_decision
  et_in_brief :: bool

record section_trace =
  sx_kind :: section_kind
  sx_memory :: memory_name
  sx_confidential :: bool
  sx_entries :: "entry_trace list"

record brief_trace =
  bt_text :: string
  bt_sections :: "section_trace list"

fun trace_entries :: "memory_view \<Rightarrow> memory_id list \<Rightarrow> fault class_of \<Rightarrow> entry_view list \<Rightarrow> entry_trace list outcome" where
  "trace_entries m present_set class_of [] = Inr []"
| "trace_entries m present_set class_of (e # es) =
     andthen (explain e m present_set class_of) (\<lambda>decision.
     andthen (trace_entries m present_set class_of es) (\<lambda>rest.
       Inr (\<lparr>et_text = vw_text e, et_visibility = vw_visibility e, et_decision = decision, et_in_brief = False\<rparr> # rest)))"

text \<open>The indices of the visible entries, of which the last \<open>recent\<close> are marked.\<close>

definition visible_positions :: "entry_trace list \<Rightarrow> nat list" where
  "visible_positions es = filter (\<lambda>i. is_visible (et_decision (es ! i))) [0..<length es]"

definition mark_positions :: "nat list \<Rightarrow> entry_trace list \<Rightarrow> entry_trace list" where
  "mark_positions is es = foldl (\<lambda>es i. es[i := (es ! i)\<lparr>et_in_brief := True\<rparr>]) es is"

definition section_trace_of ::
  "jiff \<Rightarrow> graph \<Rightarrow> memory_view \<Rightarrow> memory_id list \<Rightarrow> fault class_of \<Rightarrow> nat \<Rightarrow> section_kind \<Rightarrow> bool \<Rightarrow> section_trace outcome" where
  "section_trace_of J g m present_set class_of recent role surfaced =
     andthen (class_history J g (mv_id m)) (\<lambda>hs.
     andthen (trace_entries m present_set class_of hs) (\<lambda>es.
       let positions = visible_positions es
       in Inr \<lparr>sx_kind = role, sx_memory = mv_name m, sx_confidential = False,
               sx_entries = (if surfaced then mark_positions (drop (length positions - recent) positions) es else es)\<rparr>))"

fun trace_memories ::
  "jiff \<Rightarrow> graph \<Rightarrow> memory_id list \<Rightarrow> nat \<Rightarrow> section_kind \<Rightarrow> memory_id set \<Rightarrow> memory_id list \<Rightarrow> section_trace list outcome" where
  "trace_memories J g present_set recent role full [] = Inr []"
| "trace_memories J g present_set recent role full (i # is) =
     andthen (memory_by_id J g i) (\<lambda>m.
       case m of
         None \<Rightarrow> trace_memories J g present_set recent role full is
       | Some m \<Rightarrow>
           andthen (section_trace_of J g m present_set (graph_class_of g) recent role (i \<in> full)) (\<lambda>s.
           andthen (trace_memories J g present_set recent role full is) (\<lambda>ss. Inr (s # ss))))"

definition compose_traced :: "jiff \<Rightarrow> (nat \<Rightarrow> string) \<Rightarrow> graph \<Rightarrow> brief_settings \<Rightarrow> brief_request \<Rightarrow> brief_trace outcome" where
  "compose_traced J U g S R =
     andthen (compose_packed J U g S R) (\<lambda>p.
     let recent = nat (max (bs_recent_facts S) 0); present_set = rq_present_set R
     in andthen (self_memory J g) (\<lambda>self.
        andthen (case self of
                   None \<Rightarrow> Inr []
                 | Some m \<Rightarrow>
                     andthen (section_trace_of J g m present_set (graph_class_of g) recent SectionKind_SelfBrief True) (\<lambda>s. Inr [s])) (\<lambda>own.
        andthen (case rq_current_context R of
                   None \<Rightarrow> Inr []
                 | Some c \<Rightarrow>
                     andthen (memory_by_id J g c) (\<lambda>context.
                       case context of
                         None \<Rightarrow> Inr []
                       | Some context \<Rightarrow>
                           andthen (section_trace_of J g context present_set (graph_class_of g) recent SectionKind_CurrentRoom True) (\<lambda>s.
                             Inr [s\<lparr>sx_confidential := (TagName_Confidential \<in> set (mv_tags context))\<rparr>]))) (\<lambda>room.
        andthen (ranked_present J g present_set) (\<lambda>rp.
        andthen (trace_memories J g present_set recent SectionKind_Participant (pk_full p)
            (filter (\<lambda>i. i \<in> set (rq_speakers R)) rp @ filter (\<lambda>i. i \<notin> set (rq_speakers R)) rp)) (\<lambda>people.
        andthen (trace_memories J g present_set recent SectionKind_ActiveThread (pk_threads p)
            (filter (\<lambda>i. \<not> (Some i = map_option mv_id self \<or> Some i = rq_current_context R \<or> i \<in> set present_set))
              (rq_working_set R))) (\<lambda>threads.
          Inr \<lparr>bt_text = pk_out p, bt_sections = own @ room @ people @ threads\<rparr>)))))))"

end
