(* ===== verification/Brief_Facts.thy ===== *)
theory Brief_Facts
  imports Brief_Compose "HOL-Library.Sublist"
begin

text \<open>
  What a brief is made of. A composed brief is a sequence of pieces, each of them one that may be shown: headings, names of people
  present, and blocks and lines whose facts and relationships passed the visibility predicate against everyone present. Mandatory pieces
  are written whatever the budget, optional ones only while the text, with them, fits it.
\<close>

section \<open>The block of a memory\<close>

lemma graph_class_of_eq: "graph_class_of g i = Inr (class_or_self g i)"
  by (simp add: graph_class_of_def)

definition entry_shows :: "graph \<Rightarrow> memory_view \<Rightarrow> memory_id list \<Rightarrow> entry_view \<Rightarrow> bool" where
  "entry_shows g m present_set e \<longleftrightarrow> visible e m present_set (graph_class_of g) = Inr True"

lemma list_all2_source: "list_all2 P xs ys \<Longrightarrow> y \<in> set ys \<Longrightarrow> \<exists>x \<in> set xs. P x y"
  by (induction rule: list_all2_induct) auto

lemma visible_facts_spec:
  "visible_facts J U g m present_set (graph_class_of g) clock es = Inr fs \<Longrightarrow>
   list_all2 (\<lambda>e f. entry_fact J U g m e present_set clock = Inr f) (filter (entry_shows g m present_set) es) fs"
proof (induction es arbitrary: fs)
  case (Cons e es)
  then obtain shown where "visible e m present_set (graph_class_of g) = Inr shown" by (auto simp: andthen_Inr_iff)
  with Cons show ?case by (cases shown) (auto simp: andthen_Inr_iff entry_shows_def)
qed simp

definition link_shows :: "graph \<Rightarrow> memory_id list \<Rightarrow> neighbor_link_view \<Rightarrow> bool" where
  "link_shows g present_set l \<longleftrightarrow>
     (\<exists>r. relation_view_of g (relation_name_str (nv_relation l)) = Inr r
       \<and> link_visible (neighbor_link_view_vis l) (case r of Some v \<Rightarrow> rv_symmetric v | None \<Rightarrow> False) present_set (graph_class_of g) = Inr True)"

definition ranks_to :: "jiff \<Rightarrow> (nat \<Rightarrow> string) \<Rightarrow> graph \<Rightarrow> memory_name \<Rightarrow> memory_id list \<Rightarrow> neighbor_link_view \<Rightarrow> ranked_relationship \<Rightarrow> bool" where
  "ranks_to J U g subj present_set l r \<longleftrightarrow>
     (\<exists>m. memory_by_id J g (nv_other l) = Inr (Some m) \<and> rank_link J U g subj present_set (graph_class_of g) l m = Inr r)"

lemma rank_links_spec:
  "rank_links J U g subj present_set (graph_class_of g) seen ls = Inr rs \<Longrightarrow> r \<in> set rs \<Longrightarrow>
   \<exists>l \<in> set ls. link_shows g present_set l \<and> ranks_to J U g subj present_set l r"
proof (induction ls arbitrary: seen rs)
  case (Cons l ls)
  from Cons.prems(1) obtain v shown where v: "relation_view_of g (relation_name_str (nv_relation l)) = Inr v"
    and shown: "link_visible (neighbor_link_view_vis l) (case v of Some v \<Rightarrow> rv_symmetric v | None \<Rightarrow> False) present_set (graph_class_of g) = Inr shown"
    by (auto simp: andthen_Inr_iff)
  let ?seen = "(nv_relation l, nv_other l) # seen"
  consider (skip) "\<not> shown \<or> (nv_relation l, nv_other l) \<in> set seen"
    | (go) "shown" "(nv_relation l, nv_other l) \<notin> set seen" by blast
  then show ?case
  proof cases
    case skip
    with Cons.prems(1) v shown have "rank_links J U g subj present_set (graph_class_of g) seen ls = Inr rs"
      by (cases shown; simp)
    from Cons.IH [OF this Cons.prems(2)] show ?thesis by auto
  next
    case go
    with v shown have s: "link_shows g present_set l" by (auto simp: link_shows_def)
    from go Cons.prems(1) v shown obtain other where other: "memory_by_id J g (nv_other l) = Inr other" by (auto simp: andthen_Inr_iff)
    show ?thesis
    proof (cases other)
      case None
      with Cons.prems(1) v shown go other have "rank_links J U g subj present_set (graph_class_of g) ?seen ls = Inr rs" by simp
      from Cons.IH [OF this Cons.prems(2)] show ?thesis by auto
    next
      case (Some m)
      with Cons.prems(1) v shown go other obtain ranked rest where
        rk: "rank_link J U g subj present_set (graph_class_of g) l m = Inr ranked"
        "rank_links J U g subj present_set (graph_class_of g) ?seen ls = Inr rest" "rs = ranked # rest"
        by (auto simp: andthen_Inr_iff)
      then have "ranks_to J U g subj present_set l ranked" using other Some by (auto simp: ranks_to_def)
      with rk(3) Cons.prems(2) s Cons.IH [OF rk(2)] show ?thesis by auto
    qed
  qed
qed simp

text \<open>What a block of a memory may hold for an audience.\<close>

definition may_show :: "jiff \<Rightarrow> (nat \<Rightarrow> string) \<Rightarrow> graph \<Rightarrow> memory_id list \<Rightarrow> timestamp \<Rightarrow> memory_view \<Rightarrow> brief \<Rightarrow> bool" where
  "may_show J U g present_set clock m b \<longleftrightarrow>
     bf_summary b \<in> {None, Some (mv_description m)}
     \<and> (\<forall>f \<in> set (bf_recent_facts b). \<exists>es. class_entries J g (mv_id m) = Inr es
          \<and> (\<exists>e \<in> set es. entry_shows g m present_set e \<and> entry_fact J U g m e present_set clock = Inr f))
     \<and> (\<forall>r \<in> set (bf_relationships b). \<exists>ls. class_neighbor_links g (mv_id m) = Inr ls
          \<and> (\<exists>l \<in> set ls. link_shows g present_set l \<and> (\<exists>k. ranks_to J U g (bf_subject b) present_set l k \<and> r = rk_relationship k)))"

lemma visible_recent_facts_spec:
  assumes "visible_recent_facts J U g m present_set (graph_class_of g) recent clock = Inr fs" "class_entries J g (mv_id m) = Inr es"
  shows "list_all2 (\<lambda>e f. entry_fact J U g m e present_set clock = Inr f)
    (drop (length (filter (entry_shows g m present_set) es) - recent) (filter (entry_shows g m present_set) es)) fs"
proof -
  from assms obtain all where all: "visible_facts J U g m present_set (graph_class_of g) clock es = Inr all"
    "fs = drop (length all - recent) all"
    by (auto simp: visible_recent_facts_def andthen_Inr_iff)
  from visible_facts_spec [OF all(1)] show ?thesis
    unfolding all(2) by (metis list_all2_dropI list_all2_lengthD)
qed

lemma memory_brief_may_show:
  assumes "memory_brief J U g m present_set (graph_class_of g) S clock = Inr b"
  shows "may_show J U g present_set clock m b"
proof -
  from assms obtain subj facts rs where b: "b = \<lparr>bf_subject = subj, bf_summary = (if mv_description m = [] then None else Some (mv_description m)),
      bf_recent_facts = facts, bf_relationships = rs\<rparr>"
    and f: "visible_recent_facts J U g m present_set (graph_class_of g) (nat (bs_recent_facts S)) clock = Inr facts"
    and r: "relationships J U g (mv_id m) subj present_set (graph_class_of g) (nat (bs_key_relationships S)) = Inr rs"
    by (auto simp: memory_brief_def andthen_Inr_iff)
  from f obtain es where es: "class_entries J g (mv_id m) = Inr es" by (auto simp: visible_recent_facts_def andthen_Inr_iff)
  have "\<exists>e \<in> set es. entry_shows g m present_set e \<and> entry_fact J U g m e present_set clock = Inr x" if "x \<in> set facts" for x
  proof -
    from list_all2_source [OF visible_recent_facts_spec [OF f es] that] obtain e where
      "e \<in> set (drop (length (filter (entry_shows g m present_set) es) - nat (bs_recent_facts S)) (filter (entry_shows g m present_set) es))"
      "entry_fact J U g m e present_set clock = Inr x" by blast
    with in_set_dropD [OF this(1)] show ?thesis by auto
  qed
  moreover from r obtain ls ranked where ls: "class_neighbor_links g (mv_id m) = Inr ls"
    and rk: "rank_links J U g subj present_set (graph_class_of g) [] ls = Inr ranked"
    and rs: "rs = map rk_relationship (take (nat (bs_key_relationships S)) (sort_key rank_key ranked))"
    by (auto simp: relationships_def andthen_Inr_iff)
  have "\<exists>l \<in> set ls. link_shows g present_set l \<and> (\<exists>k. ranks_to J U g subj present_set l k \<and> x = rk_relationship k)" if "x \<in> set rs" for x
  proof -
    from that rs obtain k where k: "k \<in> set ranked" "x = rk_relationship k" by (auto dest: in_set_takeD)
    from rank_links_spec [OF rk k(1)] k(2) show ?thesis by blast
  qed
  ultimately show ?thesis using es ls by (simp add: may_show_def b)
qed

section \<open>Pieces\<close>

text \<open>The pieces a brief may be made of; the flag tells the mandatory ones.\<close>

inductive piece ::
  "jiff \<Rightarrow> (nat \<Rightarrow> string) \<Rightarrow> graph \<Rightarrow> brief_request \<Rightarrow> bool \<Rightarrow> string \<Rightarrow> bool"
  for J U g R where
  you: "piece J U g R True (''# You'' @ newline)"
| gap: "piece J U g R True newline"
| self: "self_memory J g = Inr (Some m) \<Longrightarrow> may_show J U g (rq_present_set R) (rq_now R) m b
    \<Longrightarrow> piece J U g R True (render_body b)"
| room: "rq_current_context R = Some c \<Longrightarrow> memory_by_id J g c = Inr (Some m) \<Longrightarrow> piece J U g R True (room_text m)"
| present: "piece J U g R True present_header"
| name: "i \<in> set (rq_present_set R) \<Longrightarrow> memory_by_id J g i = Inr (Some m)
    \<Longrightarrow> class_display J g m (graph_class_of g) = Inr d \<Longrightarrow> piece J U g R True (name_line d)"
| header: "i \<in> set (rq_present_set R) \<union> set (rq_working_set R) \<Longrightarrow> memory_by_id J g i = Inr (Some m)
    \<Longrightarrow> class_display J g m (graph_class_of g) = Inr d
    \<Longrightarrow> mandatory \<longleftrightarrow> i \<in> set (rq_present_set R) \<and> i \<in> set (rq_speakers R)
    \<Longrightarrow> piece J U g R mandatory (block_header d)"
| body: "i \<in> set (rq_present_set R) \<union> set (rq_working_set R) \<Longrightarrow> memory_by_id J g i = Inr (Some m)
    \<Longrightarrow> may_show J U g (rq_present_set R) (rq_now R) m b
    \<Longrightarrow> mandatory \<longleftrightarrow> i \<in> set (rq_present_set R) \<and> i \<in> set (rq_speakers R)
    \<Longrightarrow> piece J U g R mandatory (render_body b)"
| threads: "piece J U g R False threads_header"
| upcoming: "piece J U g R False upcoming_header"
| item: "occurrences_in_window J g (rq_now R) to = Inr rows \<Longrightarrow> (m, e) \<in> set rows
    \<Longrightarrow> entry_shows g m (rq_present_set R) e \<Longrightarrow> upcoming_line J U g R m e = Inr line \<Longrightarrow> piece J U g R False line"

type_synonym pieces = "(bool \<times> string) list"

definition text_of :: "pieces \<Rightarrow> string" where
  "text_of ps = concat (map snd ps)"

text \<open>Every optional piece, unless it has no character, ends within the budget.\<close>

fun fits :: "nat \<Rightarrow> nat \<Rightarrow> pieces \<Rightarrow> bool" where
  "fits B n [] \<longleftrightarrow> True"
| "fits B n ((mandatory, s) # ps) \<longleftrightarrow> (mandatory \<or> char_len s = 0 \<or> n + char_len s \<le> B) \<and> fits B (n + char_len s) ps"

definition packed :: "jiff \<Rightarrow> (nat \<Rightarrow> string) \<Rightarrow> graph \<Rightarrow> brief_request \<Rightarrow> nat \<Rightarrow> packing \<Rightarrow> bool" where
  "packed J U g R B p \<longleftrightarrow>
     pk_remaining p = B - char_len (pk_out p)
     \<and> (\<exists>ps. pk_out p = text_of ps \<and> (\<forall>x \<in> set ps. piece J U g R (fst x) (snd x)) \<and> fits B 0 ps)"

lemma char_len_append [simp]: "char_len (a @ b) = char_len a + char_len b"
  by (simp add: char_len_def)

lemma char_len_Nil [simp]: "char_len [] = 0"
  by (simp add: char_len_def)

lemma fits_append: "fits B n (ps @ qs) \<longleftrightarrow> fits B n ps \<and> fits B (n + char_len (text_of ps)) qs"
  by (induction B n ps rule: fits.induct) (auto simp: text_of_def add.assoc)

lemma fits_mandatory: "\<forall>x \<in> set ps. fst x \<Longrightarrow> fits B n ps"
  by (induction B n ps rule: fits.induct) auto

lemma fits_within: "n + char_len (text_of ps) \<le> B \<Longrightarrow> fits B n ps"
  by (induction B n ps rule: fits.induct) (auto simp: text_of_def)

lemma fits_empty: "char_len (text_of ps) = 0 \<Longrightarrow> fits B n ps"
  by (induction B n ps rule: fits.induct) (auto simp: text_of_def)

lemma packed_cong:
  assumes "packed J U g R B p" "pk_out q = pk_out p" "pk_remaining q = pk_remaining p"
  shows "packed J U g R B q"
  using assms by (simp add: packed_def)

lemma text_of_append [simp]: "text_of (ps @ qs) = text_of ps @ text_of qs"
  by (simp add: text_of_def)

lemma packed_mandatory:
  assumes "packed J U g R B p" "\<forall>s \<in> set ss. piece J U g R True s"
  shows "packed J U g R B (write_out (concat ss) (charge (char_len (concat ss)) p))"
proof -
  from assms(1) obtain ps where ps: "pk_remaining p = B - char_len (pk_out p)" "pk_out p = text_of ps"
    "\<forall>x \<in> set ps. piece J U g R (fst x) (snd x)" "fits B 0 ps" by (auto simp: packed_def)
  let ?qs = "map (Pair True) ss"
  have t: "text_of ?qs = concat ss" by (simp add: text_of_def comp_def)
  have "\<forall>x \<in> set (ps @ ?qs). piece J U g R (fst x) (snd x)" using ps(3) assms(2) by auto
  moreover have "fits B 0 (ps @ ?qs)" using ps(4) by (simp add: fits_append fits_mandatory)
  ultimately show ?thesis using ps(1,2) t
    by (auto simp: packed_def write_out_def charge_def intro!: exI [of _ "ps @ ?qs"])
qed

lemma packed_optional:
  assumes "packed J U g R B p" "\<forall>s \<in> set ss. piece J U g R False s" "char_len (concat ss) \<le> pk_remaining p"
    and "pk_out q = pk_out p @ concat ss" "pk_remaining q = pk_remaining p - char_len (concat ss)"
  shows "packed J U g R B q"
proof -
  from assms(1) obtain ps where ps: "pk_remaining p = B - char_len (pk_out p)" "pk_out p = text_of ps"
    "\<forall>x \<in> set ps. piece J U g R (fst x) (snd x)" "fits B 0 ps" by (auto simp: packed_def)
  let ?qs = "map (Pair False) ss"
  have t: "text_of ?qs = concat ss" by (simp add: text_of_def comp_def)
  have "\<forall>x \<in> set (ps @ ?qs). piece J U g R (fst x) (snd x)" using ps(3) assms(2) by auto
  moreover have "fits B 0 (ps @ ?qs)"
  proof (cases "char_len (concat ss) = 0")
    case True
    with ps(4) t show ?thesis by (simp add: fits_append fits_empty)
  next
    case False
    with assms(3) ps(1,2) have "char_len (text_of ps) + char_len (text_of ?qs) \<le> B" by (simp add: t)
    with ps(4) show ?thesis by (simp add: fits_append fits_within)
  qed
  ultimately show ?thesis using ps(1,2) t assms(4,5)
    by (auto simp: packed_def intro!: exI [of _ "ps @ ?qs"])
qed

section \<open>The sections\<close>

lemma self_block_packed:
  assumes "packed J U g R B p" "self_block J U g S R p = Inr q"
  shows "packed J U g R B q"
proof -
  from assms(2) obtain sm where sm: "self_memory J g = Inr sm" by (auto simp: self_block_def andthen_Inr_iff)
  show ?thesis
  proof (cases sm)
    case None
    with assms sm show ?thesis by (simp add: self_block_def)
  next
    case (Some m)
    with assms(2) sm obtain b where b: "memory_brief J U g m (rq_present_set R) (graph_class_of g) S (rq_now R) = Inr b"
      by (auto simp: self_block_def andthen_Inr_iff)
    let ?b = "b\<lparr>bf_summary := None\<rparr>"
    let ?ss = "[''# You'' @ newline, render_body ?b, newline]"
    from memory_brief_may_show [OF b] have "may_show J U g (rq_present_set R) (rq_now R) m ?b" by (simp add: may_show_def)
    with sm Some piece.you [of J U g R] have "\<forall>s \<in> set ?ss. piece J U g R True s"
      by (auto intro: piece.gap piece.self)
    from packed_mandatory [OF assms(1) this] show ?thesis
      by (rule packed_cong) (use assms(2) sm Some b in \<open>auto simp: self_block_def andthen_Inr_iff Let_def graph_class_of_eq write_out_def charge_def\<close>)
  qed
qed

lemma room_block_packed:
  assumes "packed J U g R B p" "room_block J g R p = Inr q"
  shows "packed J U g R B q"
proof (cases "rq_current_context R")
  case None
  with assms show ?thesis by (simp add: room_block_def)
next
  case (Some c)
  with assms(2) obtain cm where cm: "memory_by_id J g c = Inr cm" by (auto simp: room_block_def andthen_Inr_iff)
  show ?thesis
  proof (cases cm)
    case None
    with assms Some cm show ?thesis by (simp add: room_block_def)
  next
    case (Some m)
    with \<open>rq_current_context R = Some c\<close> cm have "\<forall>s \<in> set [room_text m]. piece J U g R True s" by (auto intro: piece.room)
    from packed_mandatory [OF assms(1) this] show ?thesis
      using assms(2) \<open>rq_current_context R = Some c\<close> cm Some by (simp add: room_block_def)
  qed
qed

lemma place_full_packed:
  assumes "packed J U g R B p" "place_full J U g S R i m d p = Inr (placed, q)"
    and "i \<in> set (rq_present_set R)" "memory_by_id J g i = Inr (Some m)" "class_display J g m (graph_class_of g) = Inr d"
  shows "packed J U g R B q"
proof -
  from assms(2) obtain b where b: "memory_brief J U g m (rq_present_set R) (graph_class_of g) S (rq_now R) = Inr b"
    by (auto simp: place_full_def render_memory_body_def andthen_Inr_iff)
  let ?ss = "[block_header d, render_body b]"
  note may = memory_brief_may_show [OF b]
  show ?thesis
  proof (cases "i \<in> set (rq_speakers R)")
    case True
    with assms(3-5) may have "\<forall>s \<in> set ?ss. piece J U g R True s" by (auto intro: piece.header piece.body)
    from packed_mandatory [OF assms(1) this] show ?thesis
      by (rule packed_cong) (use assms(2) b True in \<open>auto simp: place_full_def render_memory_body_def Let_def write_out_def charge_def\<close>)
  next
    case False
    with assms(3-5) may have pc: "\<forall>s \<in> set ?ss. piece J U g R False s" by (auto intro: piece.header piece.body)
    show ?thesis
    proof (cases "char_len (concat ?ss) \<le> pk_remaining p")
      case True
      show ?thesis
        by (rule packed_optional [OF assms(1) pc True])
          (use assms(2) b False True in \<open>auto simp: place_full_def render_memory_body_def Let_def write_out_def take_budget_def\<close>)
    next
      case f: False
      with assms(1,2) b False show ?thesis
        by (simp add: place_full_def render_memory_body_def Let_def take_budget_def)
    qed
  qed
qed

lemma present_loop_packed:
  assumes "packed J U g R B p" "present_loop J U g S R cap n is p = Inr q" "set is \<subseteq> set (rq_present_set R)"
  shows "packed J U g R B q"
  using assms
proof (induction J U g S R cap n "is" p rule: present_loop.induct)
  case (2 J U g S R cap n i "is" p)
  from "2.prems"(2) obtain om where om: "memory_by_id J g i = Inr om" by (auto simp: andthen_Inr_iff)
  show ?case
  proof (cases om)
    case None
    with "2.IH"(1) [OF om] "2.prems" om show ?thesis by simp
  next
    case (Some m)
    let ?c = "class_or_self g i"
    show ?thesis
    proof (cases "?c \<in> pk_classes p")
      case True
      with "2.IH"(2) [OF om Some, of ?c] "2.prems" om Some show ?thesis by (simp add: graph_class_of_eq)
    next
      case False
      let ?p = "p\<lparr>pk_classes := insert ?c (pk_classes p)\<rparr>"
      from "2.prems"(2) om Some False obtain d placed p' where d: "class_display J g m (graph_class_of g) = Inr d"
        and p': "(if n < cap then place_full J U g S R i m d ?p else Inr (False, ?p)) = Inr (placed, p')"
        and q: "(if placed then present_loop J U g S R cap (n + 1) is p'
          else present_loop J U g S R cap n is (write_out (name_line d) (charge (char_len (name_line d)) p'))) = Inr q"
        by (auto simp: andthen_Inr_iff graph_class_of_eq Let_def)
      have i: "i \<in> set (rq_present_set R)" using "2.prems"(3) by simp
      have "packed J U g R B ?p" by (rule packed_cong [OF "2.prems"(1)]) simp_all
      with p' place_full_packed [OF _ _ i om [unfolded Some] d] have pp: "packed J U g R B p'"
        by (auto split: if_splits)
      show ?thesis
      proof (cases placed)
        case True
        from "2.IH"(3) [OF om Some _ False refl d p' refl True pp] q True "2.prems"(3) show ?thesis
          by (simp add: graph_class_of_eq)
      next
        case f: False
        have "\<forall>s \<in> set [name_line d]. piece J U g R True s" using i om Some d by (auto intro: piece.name)
        from packed_mandatory [OF pp this]
        have "packed J U g R B (write_out (name_line d) (charge (char_len (name_line d)) p'))" by simp
        from "2.IH"(4) [OF om Some _ False refl d p' refl f this] q f "2.prems"(3) show ?thesis
          by (simp add: graph_class_of_eq)
      qed
    qed
  qed
qed simp

lemma activity_keys_ids: "activity_keys J g is = Inr ks \<Longrightarrow> map snd ks = is"
  by (induction "is" arbitrary: ks) (auto simp: andthen_Inr_iff)

lemma ranked_present_set: "ranked_present J g is = Inr rp \<Longrightarrow> set rp = set is"
  by (auto simp: ranked_present_def andthen_Inr_iff dest!: activity_keys_ids)

lemma present_blocks_packed:
  assumes "packed J U g R B p" "present_blocks J U g S R p = Inr q"
  shows "packed J U g R B q"
proof (cases "rq_present_set R = []")
  case True
  with assms show ?thesis by (simp add: present_blocks_def)
next
  case False
  with assms(2) obtain ranked where r: "ranked_present J g (rq_present_set R) = Inr ranked"
    "present_loop J U g S R (nat (max (bs_present_set_cap S) 0)) 0
      (filter (\<lambda>i. i \<in> set (rq_speakers R)) ranked @ filter (\<lambda>i. i \<notin> set (rq_speakers R)) ranked)
      (charge (char_len present_header) (write_out present_header p)) = Inr q"
    by (auto simp: present_blocks_def andthen_Inr_iff)
  have "\<forall>s \<in> set [present_header]. piece J U g R True s" by (auto intro: piece.present)
  from packed_mandatory [OF assms(1) this] have "packed J U g R B (charge (char_len present_header) (write_out present_header p))"
    by (rule packed_cong) (simp_all add: write_out_def charge_def)
  from present_loop_packed [OF this r(2)] ranked_present_set [OF r(1)] show ?thesis by auto
qed

text \<open>Threads are set aside while they are packed: with them written, the budget accounts for the text.\<close>

lemma thread_loop_packed:
  assumes "thread_loop J U g S R self_id is threads p = Inr (threads', q)" "set is \<subseteq> set (rq_working_set R)"
    and "packed J U g R B (write_out (h @ threads) p)"
  shows "packed J U g R B (write_out (h @ threads') q) \<and> pk_out q = pk_out p
    \<and> pk_remaining q + char_len threads' = pk_remaining p + char_len threads \<and> (threads' = [] \<longrightarrow> threads = [])"
  using assms
proof (induction J U g S R self_id "is" threads p rule: thread_loop.induct)
  case (2 J U g S R self_id i "is" threads p)
  let ?c = "class_or_self g i"
  show ?case
  proof (cases "Some i = self_id \<or> Some i = rq_current_context R \<or> i \<in> set (rq_present_set R)")
    case True
    with "2.IH"(1) [OF True] "2.prems" show ?thesis by auto
  next
    case shown: False
    show ?thesis
    proof (cases "?c \<in> pk_classes p")
      case True
      with "2.IH"(2) [OF shown, of ?c] shown "2.prems" show ?thesis by (auto simp: graph_class_of_eq)
    next
      case new: False
      from "2.prems"(1) shown new obtain om where om: "memory_by_id J g i = Inr om"
        by (auto simp: andthen_Inr_iff graph_class_of_eq)
      show ?thesis
      proof (cases om)
        case None
        with "2.IH"(3) [OF shown _ new om None] shown new om "2.prems" show ?thesis by (auto simp: graph_class_of_eq)
      next
        case (Some m)
        from "2.prems"(1) shown new om Some obtain body where
          body: "render_memory_body J U g m (rq_present_set R) (graph_class_of g) S (rq_now R) = Inr body"
          by (auto simp: andthen_Inr_iff graph_class_of_eq)
        show ?thesis
        proof (cases "trim body = []")
          case True
          with "2.IH"(4) [OF shown _ new om Some body True] shown new om Some body "2.prems" show ?thesis
            by (auto simp: graph_class_of_eq)
        next
          case full: False
          from "2.prems"(1) shown new om Some body full obtain d where d: "class_display J g m (graph_class_of g) = Inr d"
            by (auto simp: andthen_Inr_iff graph_class_of_eq)
          let ?block = "block_header d @ body"
          show ?thesis
          proof (cases "char_len ?block \<le> pk_remaining p")
            case False
            then have t: "take_budget (char_len ?block) p = (False, p)" by (simp add: take_budget_def)
            with "2.prems"(1) shown new om Some body full d have "thread_loop J U g S R self_id is threads p = Inr (threads', q)"
              by (simp add: graph_class_of_eq Let_def del: char_len_append)
            from "2.IH"(6) [OF shown graph_class_of_eq new om Some body full d refl t [symmetric] _ this _ "2.prems"(3)] "2.prems"(2)
            show ?thesis by simp
          next
            case True
            let ?p = "p\<lparr>pk_remaining := pk_remaining p - char_len ?block\<rparr>"
            let ?q = "?p\<lparr>pk_threads := insert i (pk_threads ?p), pk_classes := insert ?c (pk_classes ?p)\<rparr>"
            from True have t: "take_budget (char_len ?block) p = (True, ?p)" by (simp add: take_budget_def)
            from body obtain b where b: "memory_brief J U g m (rq_present_set R) (graph_class_of g) S (rq_now R) = Inr b"
              "body = render_body b" by (auto simp: render_memory_body_def andthen_Inr_iff)
            have i: "i \<in> set (rq_present_set R) \<union> set (rq_working_set R)" using "2.prems"(2) by simp
            have "\<forall>s \<in> set [block_header d, body]. piece J U g R False s"
              using piece.header [OF i om [unfolded Some] d, of False] piece.body [OF i om [unfolded Some] memory_brief_may_show [OF b(1)], of False]
                shown b(2) by auto
            from packed_optional [OF "2.prems"(3) this, of "write_out (h @ threads @ ?block) ?q"]
            have "packed J U g R B (write_out (h @ threads @ ?block) ?q)" using True by (simp add: write_out_def)
            moreover from "2.prems"(1) shown new om Some body full d t
            have "thread_loop J U g S R self_id is (threads @ ?block) ?q = Inr (threads', q)"
              by (simp add: graph_class_of_eq Let_def del: char_len_append)
            ultimately have "packed J U g R B (write_out (h @ threads') q) \<and> pk_out q = pk_out ?q
              \<and> pk_remaining q + char_len threads' = pk_remaining ?q + char_len (threads @ ?block) \<and> (threads' = [] \<longrightarrow> threads @ ?block = [])"
              using "2.IH"(5) [OF shown graph_class_of_eq new om Some body full d refl t [symmetric] refl] "2.prems"(2) by simp
            with True show ?thesis by simp
          qed
        qed
      qed
    qed
  qed
qed simp

lemma thread_blocks_packed:
  assumes "packed J U g R B p" "thread_blocks J U g S R p = Inr q"
  shows "packed J U g R B q"
proof (cases "rq_working_set R = []")
  case True
  with assms show ?thesis by (simp add: thread_blocks_def)
next
  case False
  with assms(2) obtain sm where sm: "self_memory J g = Inr sm" by (auto simp: thread_blocks_def andthen_Inr_iff)
  show ?thesis
  proof (cases "char_len threads_header \<le> pk_remaining p")
    case f: False
    with assms False sm show ?thesis by (simp add: thread_blocks_def take_budget_def)
  next
    case True
    let ?p = "p\<lparr>pk_remaining := pk_remaining p - char_len threads_header\<rparr>"
    from assms(2) False sm True obtain threads q' where
      l: "thread_loop J U g S R (map_option mv_id sm) (rq_working_set R) [] ?p = Inr (threads, q')"
      and q: "q = (if threads = [] then refund (char_len threads_header) q' else write_out threads (write_out threads_header q'))"
      by (auto simp: thread_blocks_def andthen_Inr_iff take_budget_def)
    have "\<forall>s \<in> set [threads_header]. piece J U g R False s" by (auto intro: piece.threads)
    from packed_optional [OF assms(1) this] True have "packed J U g R B (write_out (threads_header @ []) ?p)"
      by (simp add: write_out_def)
    from thread_loop_packed [OF l subset_refl this] have t: "packed J U g R B (write_out (threads_header @ threads) q')"
      "pk_out q' = pk_out p" "pk_remaining q' + char_len threads = pk_remaining p - char_len threads_header" by simp_all
    show ?thesis
    proof (cases "threads = []")
      case True
      with q t \<open>char_len threads_header \<le> pk_remaining p\<close> show ?thesis
        by (intro packed_cong [OF assms(1)]) (simp_all add: refund_def)
    next
      case False
      with q show ?thesis by (intro packed_cong [OF t(1)]) (simp_all add: write_out_def)
    qed
  qed
qed

lemma upcoming_loop_spec:
  "upcoming_loop J U g R n rows = Inr lines \<Longrightarrow> length lines \<le> n \<and> (\<forall>l \<in> set lines. \<exists>(m, e) \<in> set rows.
     entry_shows g m (rq_present_set R) e \<and> upcoming_line J U g R m e = Inr l)"
proof (induction J U g R n rows arbitrary: lines rule: upcoming_loop.induct)
  case (2 J U g R n m e rows)
  show ?case
  proof (cases "n = 0")
    case False
    with "2.prems" obtain shown where shown: "visible e m (rq_present_set R) (graph_class_of g) = Inr shown" by (auto simp: andthen_Inr_iff)
    show ?thesis
    proof (cases shown)
      case True
      with "2.prems" False shown obtain l ls where l: "upcoming_line J U g R m e = Inr l" "upcoming_loop J U g R (n - 1) rows = Inr ls" "lines = l # ls"
        by (auto simp: andthen_Inr_iff)
      from "2.IH"(2) [OF False shown _ l(1,2)] True False l shown show ?thesis by (auto simp: entry_shows_def)
    next
      case f: False
      with "2.IH"(1) [OF False shown] "2.prems" False shown show ?thesis by auto
    qed
  qed (use "2.prems" in simp)
qed simp

lemma pack_lines_packed:
  assumes "pack_lines ls block p = (block', q)" "\<forall>l \<in> set ls. piece J U g R False l" "packed J U g R B (write_out (h @ block) p)"
  shows "packed J U g R B (write_out (h @ block') q) \<and> pk_out q = pk_out p
    \<and> pk_remaining q + char_len block' = pk_remaining p + char_len block"
  using assms
proof (induction ls block p rule: pack_lines.induct)
  case (2 l ls block p)
  show ?case
  proof (cases "char_len l \<le> pk_remaining p")
    case False
    with "2.prems" show ?thesis by (simp add: take_budget_def)
  next
    case True
    let ?p = "p\<lparr>pk_remaining := pk_remaining p - char_len l\<rparr>"
    have t: "take_budget (char_len l) p = (True, ?p)" using True by (simp add: take_budget_def)
    have "\<forall>s \<in> set [l]. piece J U g R False s" using "2.prems"(2) by simp
    from packed_optional [OF "2.prems"(3) this, of "write_out (h @ block @ l) ?p"] True
    have "packed J U g R B (write_out (h @ block @ l) ?p)" by (simp add: write_out_def)
    with "2.IH" [OF t [symmetric] refl] "2.prems" t True show ?thesis by auto
  qed
qed simp

lemma upcoming_block_packed:
  assumes "packed J U g R B p" "upcoming_block J U g S R p = Inr q"
  shows "packed J U g R B q"
proof -
  from assms(2) obtain ls where ls: "upcoming_lines J U g S R = Inr ls" by (auto simp: upcoming_block_def andthen_Inr_iff)
  show ?thesis
  proof (cases "ls = [] \<or> \<not> char_len upcoming_header \<le> pk_remaining p")
    case True
    with assms ls show ?thesis by (auto simp: upcoming_block_def take_budget_def split: if_splits)
  next
    case False
    then have h: "char_len upcoming_header \<le> pk_remaining p" and ne: "ls \<noteq> []" by auto
    let ?p = "p\<lparr>pk_remaining := pk_remaining p - char_len upcoming_header\<rparr>"
    obtain block q' where k: "pack_lines ls [] ?p = (block, q')" by (cases "pack_lines ls [] ?p")
    with assms(2) ls ne h have q: "q = (if block = [] then refund (char_len upcoming_header) q' else write_out block (write_out upcoming_header q'))"
      by (simp add: upcoming_block_def take_budget_def)
    from ls ne obtain to rows where "occurrences_in_window J g (rq_now R) to = Inr rows"
      "upcoming_loop J U g R (nat (max (bs_max_upcoming_items S) 0)) rows = Inr ls"
      by (auto simp: upcoming_lines_def Let_def andthen_Inr_iff split: if_splits)
    with upcoming_loop_spec have lines: "\<forall>l \<in> set ls. piece J U g R False l" by (fastforce intro: piece.item)
    have "\<forall>s \<in> set [upcoming_header]. piece J U g R False s" by (auto intro: piece.upcoming)
    from packed_optional [OF assms(1) this] h have "packed J U g R B (write_out (upcoming_header @ []) ?p)"
      by (simp add: write_out_def)
    from pack_lines_packed [OF k lines this] have t: "packed J U g R B (write_out (upcoming_header @ block) q')"
      "pk_out q' = pk_out p" "pk_remaining q' + char_len block = pk_remaining p - char_len upcoming_header" by simp_all
    show ?thesis
    proof (cases "block = []")
      case True
      with q t h show ?thesis by (intro packed_cong [OF assms(1)]) (simp_all add: refund_def)
    next
      case False
      with q show ?thesis by (intro packed_cong [OF t(1)]) (simp_all add: write_out_def)
    qed
  qed
qed

lemma compose_pieces:
  assumes "compose_packed J U g S R = Inr q"
  shows "packed J U g R (budget_new (bs_char_budget S)) q"
proof -
  let ?p = "\<lparr>pk_remaining = budget_new (bs_char_budget S), pk_out = [], pk_full = {}, pk_threads = {}, pk_classes = {}\<rparr>"
  have "packed J U g R (budget_new (bs_char_budget S)) ?p" by (auto simp: packed_def text_of_def intro!: exI [of _ "[]"])
  with assms show ?thesis
    by (auto simp: compose_packed_def andthen_Inr_iff
        dest!: self_block_packed [rotated] room_block_packed [rotated] present_blocks_packed [rotated] thread_blocks_packed [rotated]
          upcoming_block_packed [rotated])
qed

section \<open>Everyone present is named\<close>

definition shown_as :: "jiff \<Rightarrow> graph \<Rightarrow> brief_request \<Rightarrow> string \<Rightarrow> memory_id \<Rightarrow> bool" where
  "shown_as J g R t c \<longleftrightarrow>
     (\<exists>i m d. i \<in> set (rq_present_set R) \<and> memory_by_id J g i = Inr (Some m) \<and> class_or_self g i = c
       \<and> class_display J g m (graph_class_of g) = Inr d \<and> (sublist (block_header d) t \<or> sublist (name_line d) t))"

definition self_class :: "jiff \<Rightarrow> graph \<Rightarrow> memory_id \<Rightarrow> bool" where
  "self_class J g c \<longleftrightarrow> (\<exists>m. self_memory J g = Inr (Some m) \<and> class_or_self g (mv_id m) = c)"

definition named :: "jiff \<Rightarrow> graph \<Rightarrow> brief_request \<Rightarrow> packing \<Rightarrow> bool" where
  "named J g R p \<longleftrightarrow> (\<forall>c \<in> pk_classes p. self_class J g c \<or> shown_as J g R (pk_out p) c)"

lemma shown_as_mono: "shown_as J g R t c \<Longrightarrow> sublist t t' \<Longrightarrow> shown_as J g R t' c"
  unfolding shown_as_def by (elim exE conjE) (blast intro: sublist_order.order_trans)

lemma present_loop_names:
  assumes "present_loop J U g S R cap n is p = Inr q" "set is \<subseteq> set (rq_present_set R)"
    and "\<forall>c \<in> pk_classes p. self_class J g c \<or> shown_as J g R (pk_out p) c"
  shows "prefix (pk_out p) (pk_out q) \<and> pk_classes p \<subseteq> pk_classes q
    \<and> (\<forall>c \<in> pk_classes q. self_class J g c \<or> shown_as J g R (pk_out q) c)
    \<and> (\<forall>i \<in> set is. \<forall>m. memory_by_id J g i = Inr (Some m) \<longrightarrow> class_or_self g i \<in> pk_classes q)"
  using assms
proof (induction J U g S R cap n "is" p rule: present_loop.induct)
  case (2 J U g S R cap n i "is" p)
  from "2.prems"(1) obtain om where om: "memory_by_id J g i = Inr om" by (auto simp: andthen_Inr_iff)
  show ?case
  proof (cases om)
    case None
    with "2.IH"(1) [OF om] "2.prems" om show ?thesis by simp
  next
    case (Some m)
    let ?c = "class_or_self g i"
    show ?thesis
    proof (cases "?c \<in> pk_classes p")
      case True
      with "2.IH"(2) [OF om Some graph_class_of_eq] "2.prems" om Some show ?thesis by (auto simp: graph_class_of_eq)
    next
      case False
      let ?p = "p\<lparr>pk_classes := insert ?c (pk_classes p)\<rparr>"
      from "2.prems"(1) om Some False obtain d placed p' where d: "class_display J g m (graph_class_of g) = Inr d"
        and p': "(if n < cap then place_full J U g S R i m d ?p else Inr (False, ?p)) = Inr (placed, p')"
        and q: "(if placed then present_loop J U g S R cap (n + 1) is p'
          else present_loop J U g S R cap n is (write_out (name_line d) (charge (char_len (name_line d)) p'))) = Inr q"
        by (auto simp: andthen_Inr_iff graph_class_of_eq Let_def)
      have i: "i \<in> set (rq_present_set R)" using "2.prems"(2) by simp
      define p'' where "p'' = (if placed then p' else write_out (name_line d) (charge (char_len (name_line d)) p'))"
      have grow: "\<exists>more. pk_out p'' = pk_out p @ more \<and> (sublist (block_header d) more \<or> sublist (name_line d) more)"
        and cls: "pk_classes p'' = insert ?c (pk_classes p)"
        using p' unfolding p''_def
        by (auto simp: place_full_def andthen_Inr_iff Let_def write_out_def charge_def take_budget_def split: if_splits)
      have s: "sublist (pk_out p) (pk_out p'')" using grow by auto
      have "sublist (block_header d) (pk_out p'') \<or> sublist (name_line d) (pk_out p'')"
        using grow by (auto intro: sublist_order.order_trans)
      then have "shown_as J g R (pk_out p'') ?c"
        using i om Some d unfolding shown_as_def by (intro exI [of _ i] exI [of _ m] exI [of _ d] conjI) simp_all
      then have "\<forall>c \<in> pk_classes p''. self_class J g c \<or> shown_as J g R (pk_out p'') c"
        using "2.prems"(3) shown_as_mono [OF _ s] cls by auto
      moreover have "prefix (pk_out p) (pk_out p'')" using grow by auto
      ultimately show ?thesis
        using q "2.IH"(3) [OF om Some graph_class_of_eq False refl d p' refl] "2.IH"(4) [OF om Some graph_class_of_eq False refl d p' refl]
          "2.prems"(2) cls unfolding p''_def by (cases placed) (auto intro: prefix_order.trans)
    qed
  qed
qed simp

lemma thread_loop_names:
  "thread_loop J U g S R self_id is threads p = Inr (threads', q) \<Longrightarrow> pk_out q = pk_out p \<and> pk_classes p \<subseteq> pk_classes q"
proof (induction "is" arbitrary: threads p)
  case (Cons i "is")
  show ?case
  proof (cases "Some i = self_id \<or> Some i = rq_current_context R \<or> i \<in> set (rq_present_set R) \<or> class_or_self g i \<in> pk_classes p")
    case True
    with Cons.prems have "thread_loop J U g S R self_id is threads p = Inr (threads', q)"
      by (auto simp: graph_class_of_eq split: if_splits)
    then show ?thesis by (rule Cons.IH)
  next
    case False
    with Cons.prems obtain om where om: "memory_by_id J g i = Inr om" by (auto simp: andthen_Inr_iff graph_class_of_eq)
    with Cons.prems False Cons.IH show ?thesis
      by (cases om) (fastforce simp: andthen_Inr_iff graph_class_of_eq Let_def take_budget_def split: if_splits)+
  qed
qed simp

section \<open>Properties\<close>

text \<open>
  C6: a brief leaks nothing. Whatever the cap and the budget leave out, a composed brief is a sequence of pieces each of which may
  be shown to everyone present: headings, the names of people present, the room, and the blocks and lines of entries and links that pass
  the visibility predicate against the full present set.
\<close>

theorem brief_shows_only_what_is_visible:
  assumes "compose J U g S R = Inr t"
  shows "\<exists>ps. t = concat (map snd ps) \<and> (\<forall>x \<in> set ps. piece J U g R (fst x) (snd x))"
proof -
  from assms obtain q where q: "compose_packed J U g S R = Inr q" "t = pk_out q" by (auto simp: compose_def andthen_Inr_iff)
  from compose_pieces [OF q(1)] q(2) show ?thesis by (auto simp: packed_def text_of_def)
qed

text \<open>
  C20: a brief keeps to its budget. The optional pieces of a composed brief, in which are the blocks of those who do not speak, the
  threads and what is upcoming, each end within the character budget; only mandatory pieces go past it.
\<close>

theorem brief_keeps_to_its_budget:
  assumes "compose J U g S R = Inr t"
  shows "\<exists>ps. t = concat (map snd ps) \<and> (\<forall>x \<in> set ps. piece J U g R (fst x) (snd x))
    \<and> (\<forall>before s after. ps = before @ (False, s) # after \<longrightarrow> char_len s > 0 \<longrightarrow>
         int (char_len (concat (map snd before)) + char_len s) \<le> bs_char_budget S)"
proof -
  from assms obtain q where q: "compose_packed J U g S R = Inr q" "t = pk_out q" by (auto simp: compose_def andthen_Inr_iff)
  from compose_pieces [OF q(1)] q(2) obtain ps where ps: "t = concat (map snd ps)" "\<forall>x \<in> set ps. piece J U g R (fst x) (snd x)"
    "fits (budget_new (bs_char_budget S)) 0 ps" by (auto simp: packed_def text_of_def)
  moreover have "int (char_len (concat (map snd before)) + char_len s) \<le> bs_char_budget S"
    if "ps = before @ (False, s) # after" "char_len s > 0" for before s after
  proof -
    from ps(3) that have "char_len (concat (map snd before)) + char_len s \<le> budget_new (bs_char_budget S)"
      by (simp add: fits_append text_of_def)
    with that(2) show ?thesis by (simp add: budget_new_def)
  qed
  ultimately show ?thesis by blast
qed

text \<open>
  C19: nobody present goes unnamed. Whatever the cap and the budget, every person present whose memory is live is shown in the
  composed brief, by a block or a line under the name of their identity; the agent's own identity is shown as itself.
\<close>

theorem everyone_present_is_named:
  assumes "compose J U g S R = Inr t" "i \<in> set (rq_present_set R)" "memory_by_id J g i = Inr (Some m)"
  shows "(\<exists>self. self_memory J g = Inr (Some self) \<and> class_or_self g (mv_id self) = class_or_self g i)
    \<or> (\<exists>j mj d. j \<in> set (rq_present_set R) \<and> memory_by_id J g j = Inr (Some mj) \<and> class_or_self g j = class_or_self g i
        \<and> class_display J g mj (graph_class_of g) = Inr d \<and> (sublist (block_header d) t \<or> sublist (name_line d) t))"
proof -
  from assms(1) obtain p1 p2 p3 p4 q where
    p1: "self_block J U g S R \<lparr>pk_remaining = budget_new (bs_char_budget S), pk_out = [], pk_full = {}, pk_threads = {}, pk_classes = {}\<rparr> = Inr p1"
    and p2: "room_block J g R p1 = Inr p2" and p3: "present_blocks J U g S R p2 = Inr p3"
    and p4: "thread_blocks J U g S R p3 = Inr p4" and q: "upcoming_block J U g S R p4 = Inr q" "t = pk_out q"
    by (auto simp: compose_def compose_packed_def andthen_Inr_iff)
  from p1 have "\<forall>c \<in> pk_classes p1. self_class J g c"
    by (auto simp: self_block_def self_class_def andthen_Inr_iff Let_def graph_class_of_eq write_out_def charge_def split: option.splits)
  moreover have "pk_classes p2 = pk_classes p1"
    using p2 by (auto simp: room_block_def andthen_Inr_iff write_out_def charge_def split: option.splits)
  ultimately have c2: "\<forall>c \<in> pk_classes p2. self_class J g c \<or> shown_as J g R (pk_out p2) c" by simp
  from assms(2) p3 obtain rp where rp: "ranked_present J g (rq_present_set R) = Inr rp"
    "present_loop J U g S R (nat (max (bs_present_set_cap S) 0)) 0
      (filter (\<lambda>i. i \<in> set (rq_speakers R)) rp @ filter (\<lambda>i. i \<notin> set (rq_speakers R)) rp)
      (charge (char_len present_header) (write_out present_header p2)) = Inr p3"
    by (auto simp: present_blocks_def andthen_Inr_iff split: if_splits)
  have sub: "set (filter (\<lambda>i. i \<in> set (rq_speakers R)) rp @ filter (\<lambda>i. i \<notin> set (rq_speakers R)) rp) = set (rq_present_set R)"
    using ranked_present_set [OF rp(1)] by auto
  have "\<forall>c \<in> pk_classes (charge (char_len present_header) (write_out present_header p2)).
      self_class J g c \<or> shown_as J g R (pk_out (charge (char_len present_header) (write_out present_header p2))) c"
    using c2 shown_as_mono [of J g R "pk_out p2"] by (auto simp: charge_def write_out_def)
  from present_loop_names [OF rp(2) _ this] sub assms(2,3)
  have "self_class J g (class_or_self g i) \<or> shown_as J g R (pk_out p3) (class_or_self g i)" by blast
  moreover have "prefix (pk_out p3) (pk_out p4)"
    using p4 thread_loop_names
    by (fastforce simp: thread_blocks_def andthen_Inr_iff take_budget_def write_out_def refund_def split: if_splits)
  moreover have "pk_out q' = pk_out p" if "pack_lines ls block p = (block', q')" for ls block p block' q'
    using that by (induction ls block p rule: pack_lines.induct) (auto simp: take_budget_def split: if_splits)
  then have "prefix (pk_out p4) (pk_out q)"
    using q(1)
    by (fastforce simp: upcoming_block_def andthen_Inr_iff take_budget_def write_out_def refund_def split: if_splits prod.splits)
  ultimately show ?thesis
    using shown_as_mono [of J g R "pk_out p3" "class_or_self g i" t] q(2)
    by (auto simp: self_class_def shown_as_def intro: prefix_imp_sublist prefix_order.trans)
qed

lemma ranks_to_weight: "ranks_to J U g subj present_set l r \<Longrightarrow> rk_weight r = relation_weight (rl_relation (rk_relationship r))"
  by (auto simp: ranks_to_def rank_link_def andthen_Inr_iff)

lemma relationships_ranked:
  assumes "relationships J U g i subj present_set (graph_class_of g) cap = Inr rs"
  shows "length rs \<le> cap \<and> sorted (map (\<lambda>r. - relation_weight (rl_relation r)) rs)"
proof -
  from assms obtain ls rk where ls: "rank_links J U g subj present_set (graph_class_of g) [] ls = Inr rk"
    and rs: "rs = map rk_relationship (take cap (sort_key rank_key rk))"
    by (auto simp: relationships_def andthen_Inr_iff)
  have "sorted (map rank_key (take cap (sort_key rank_key rk)))"
    by (metis sorted_sort_key sorted_wrt_take take_map)
  then have "sorted (map (\<lambda>r. - rk_weight r) (take cap (sort_key rank_key rk)))"
    unfolding sorted_map by (rule sorted_wrt_mono_rel [rotated]) (auto simp: rank_key_def less_eq_prod_def less_prod_def)
  moreover have "map (\<lambda>r. - rk_weight r) (take cap (sort_key rank_key rk)) = map (\<lambda>r. - relation_weight (rl_relation r)) rs"
  proof -
    have "rk_weight x = relation_weight (rl_relation (rk_relationship x))" if "x \<in> set rk" for x
      using rank_links_spec [OF ls that] ranks_to_weight by blast
    then show ?thesis by (auto simp: rs dest!: in_set_takeD)
  qed
  ultimately show ?thesis by (simp add: rs)
qed

text \<open>
  what a block holds. The facts of a memory's block are its last facts the room may see, in the order they were committed, each
  with its markers; and its relationships are at most the number asked for, the structural ones ahead of acquaintance.
\<close>

theorem block_holds_the_last_visible:
  assumes "memory_brief J U g m present_set (graph_class_of g) S clock = Inr b" "class_entries J g (mv_id m) = Inr es"
  shows "list_all2 (\<lambda>e f. entry_fact J U g m e present_set clock = Inr f)
      (let shown = filter (\<lambda>e. visible e m present_set (graph_class_of g) = Inr True) es
       in drop (length shown - nat (bs_recent_facts S)) shown) (bf_recent_facts b)
    \<and> length (bf_relationships b) \<le> nat (bs_key_relationships S)
    \<and> sorted (map (\<lambda>r. - relation_weight (rl_relation r)) (bf_relationships b))"
proof -
  from assms(1) obtain subj facts rs where b: "bf_recent_facts b = facts" "bf_relationships b = rs"
    and f: "visible_recent_facts J U g m present_set (graph_class_of g) (nat (bs_recent_facts S)) clock = Inr facts"
    and r: "relationships J U g (mv_id m) subj present_set (graph_class_of g) (nat (bs_key_relationships S)) = Inr rs"
    by (auto simp: memory_brief_def andthen_Inr_iff)
  have "entry_shows g m present_set = (\<lambda>e. visible e m present_set (graph_class_of g) = Inr True)"
    by (simp add: fun_eq_iff entry_shows_def)
  with visible_recent_facts_spec [OF f assms(2)] relationships_ranked [OF r] b show ?thesis by (simp add: Let_def)
qed

end
