(* ===== verification/Brief_Trace.thy ===== *)
theory Brief_Trace
  imports Brief_Facts
begin

text \<open>
  The trace of a brief tells what reached it: while no attestation is withdrawn, the entries it marks are the facts of the block.
\<close>

section \<open>A row and its view\<close>

text \<open>An entry with the attestations of its own, whichever read fetched it.\<close>

definition whole_entry :: "jiff \<Rightarrow> graph \<Rightarrow> attestation_scope \<Rightarrow> entry_row \<Rightarrow> entry_view \<Rightarrow> bool" where
  "whole_entry J g scope e v \<longleftrightarrow>
     (\<exists>u as. entry_from_row J e = Inr u
       \<and> list_all2 (\<lambda>a w. attestation_from_row J a = Inr w) (attestation_rows g [e_id e] scope) as
       \<and> v = u\<lparr>vw_attestations := as\<rparr>)"

lemma list_all2_functional:
  assumes "list_all2 R xs as" "list_all2 R xs bs" "\<And>x a b. R x a \<Longrightarrow> R x b \<Longrightarrow> a = b"
  shows "as = bs"
proof (rule nth_equalityI)
  show len: "length as = length bs" using assms(1,2) by (simp add: list_all2_lengthD [symmetric])
  show "as ! i = bs ! i" if "i < length as" for i
    using that len list_all2_nthD2 [OF assms(1)] list_all2_nthD2 [OF assms(2)] by (auto intro: assms(3))
qed

lemma list_all2_Inr_unique: "list_all2 (\<lambda>a w. f a = Inr w) xs as \<Longrightarrow> list_all2 (\<lambda>a w. f a = Inr w) xs bs \<Longrightarrow> as = bs"
  by (erule list_all2_functional) auto

lemma whole_entry_unique: "whole_entry J g scope e v \<Longrightarrow> whole_entry J g scope e v' \<Longrightarrow> v = v'"
  unfolding whole_entry_def by (elim exE conjE) (simp, metis list_all2_Inr_unique)

lemma attestation_rows_of:
  "e \<in> set ids \<Longrightarrow> filter (\<lambda>a. a_entry a = e) (attestation_rows g ids scope) = attestation_rows g [e] scope"
  unfolding attestation_rows_def filter_sort filter_filter
  by (rule arg_cong [where f = "sort_key (\<lambda>a. (a_entry a, a_seq a))"], rule filter_cong) auto

lemma attestations_for_own:
  assumes "attestations_for J g ids scope = Inr m" "e \<in> set ids"
  shows "list_all2 (\<lambda>a w. attestation_from_row J a = Inr w) (attestation_rows g [e] scope) (case m e of Some as \<Rightarrow> as | None \<Rightarrow> [])"
proof -
  from assms obtain rows where m: "m = group_rows rows" and rows:
    "list_all2 (\<lambda>a r. andthen (attestation_from_row J a) (\<lambda>v. Inr (a_entry a, v)) = Inr r) (attestation_rows g ids scope) rows"
    by (cases "ids = []") (auto simp: attestations_for_def andthen_Inr_iff mapM_Inr)
  have "(case m e of Some as \<Rightarrow> as | None \<Rightarrow> []) = map snd (filter (\<lambda>r. fst r = e) rows)"
    by (auto simp: m group_rows_def split: list.splits)
  moreover have "list_all2 (\<lambda>a w. attestation_from_row J a = Inr w) (filter (\<lambda>a. a_entry a = e) xs) (map snd (filter (\<lambda>r. fst r = e) ys))"
    if "list_all2 (\<lambda>a r. andthen (attestation_from_row J a) (\<lambda>v. Inr (a_entry a, v)) = Inr r) xs ys" for xs ys
    using that by (induction rule: list_all2_induct) (auto simp: andthen_Inr_iff)
  ultimately show ?thesis using rows unfolding attestation_rows_of [OF assms(2), symmetric] by simp
qed

lemma collected_whole:
  assumes "collect_entries_scoped J g P scope = Inr vs" "distinct (map e_id (content_entries g))"
  shows "list_all2 (whole_entry J g scope) (sort_key e_seq (filter P (content_entries g))) vs"
proof -
  let ?rows = "sort_key e_seq (filter P (content_entries g))"
  from assms(1) obtain us m where us: "list_all2 (\<lambda>e v. entry_from_row J e = Inr v) ?rows us"
    and m: "attestations_for J g (map vw_entry_id us) scope = Inr m" and vs: "vs = attach_each m us"
    by (auto simp: collect_entries_scoped_def attach_attestations_def andthen_Inr_iff mapM_Inr)
  from us have ids: "map vw_entry_id us = map e_id ?rows"
    by (induction rule: list_all2_induct) (auto dest: entry_from_row_fields)
  then have "distinct (map vw_entry_id us)" using distinct_map_sort_filter [OF assms(2)] by simp
  then have "vs = map (\<lambda>v. v\<lparr>vw_attestations := (case m (vw_entry_id v) of Some as \<Rightarrow> as | None \<Rightarrow> [])\<rparr>) us"
    unfolding vs by (rule attach_each_map)
  moreover have "whole_entry J g scope e (v\<lparr>vw_attestations := (case m (vw_entry_id v) of Some as \<Rightarrow> as | None \<Rightarrow> [])\<rparr>)"
    if "entry_from_row J e = Inr v" "v \<in> set us" for e v
  proof -
    have "e_id e \<in> set (map vw_entry_id us)" "vw_entry_id v = e_id e" using that by (force dest: entry_from_row_fields)+
    then show ?thesis unfolding whole_entry_def using attestations_for_own [OF m] that(1) by metis
  qed
  ultimately show ?thesis using us by (auto simp: list.rel_map intro: list.rel_mono_strong)
qed

lemma whole_entry_superseded: "whole_entry J g scope e v \<Longrightarrow> vw_superseded_by v = e_superseded_by e"
  unfolding whole_entry_def by (elim exE conjE) (simp add: entry_from_row_fields)

text \<open>With no attestation withdrawn, the live entries of a class are those of its history.\<close>

lemma class_entries_of_history:
  assumes "keys_ok g" "\<forall>a \<in> set (entry_attestations g). a_retracted_reason a = None"
    and "class_history J g i = Inr hs" "class_entries J g i = Inr es"
  shows "es = filter (\<lambda>v. vw_superseded_by v = None) hs"
proof -
  let ?rows = "sort_key e_seq (filter (\<lambda>e. e_memory e \<in> set (class_set g i)) (content_entries g))"
  have d: "distinct (map e_id (content_entries g))" using assms(1) by (simp add: keys_ok_def)
  have rows: "attestation_rows g ids AttestationScope_WithWithdrawn = attestation_rows g ids AttestationScope_Live" for ids
    unfolding attestation_rows_def using assms(2) by (auto intro!: arg_cong [where f = "sort_key (\<lambda>a. (a_entry a, a_seq a))"] filter_cong)
  have whole: "whole_entry J g AttestationScope_WithWithdrawn = whole_entry J g AttestationScope_Live"
    by (simp add: fun_eq_iff whole_entry_def rows)
  have h: "list_all2 (whole_entry J g AttestationScope_Live) ?rows hs"
    using collected_whole [OF assms(3) [unfolded class_history_def] d] by (simp add: whole)
  have "list_all2 (whole_entry J g AttestationScope_Live) (filter (\<lambda>e. e_superseded_by e = None) xs) (filter (\<lambda>v. vw_superseded_by v = None) ys)"
    if "list_all2 (whole_entry J g AttestationScope_Live) xs ys" for xs ys
    using that by (induction rule: list_all2_induct) (simp_all add: whole_entry_superseded)
  from this [OF h] have filtered: "list_all2 (whole_entry J g AttestationScope_Live)
      (sort_key e_seq (filter (\<lambda>e. e_memory e \<in> set (class_set g i) \<and> e_superseded_by e = None) (content_entries g)))
      (filter (\<lambda>v. vw_superseded_by v = None) hs)" by (simp add: filter_sort [symmetric] conj_commute)
  have collected: "list_all2 (whole_entry J g AttestationScope_Live)
      (sort_key e_seq (filter (\<lambda>e. e_memory e \<in> set (class_set g i) \<and> e_superseded_by e = None) (content_entries g))) es"
    by (rule collected_whole [OF _ d]) (use assms(4) in \<open>simp add: class_entries_def collect_entries_def\<close>)
  show ?thesis by (rule list_all2_functional [OF collected filtered whole_entry_unique])
qed

section \<open>Marks\<close>

lemma map_nth_filter: "map (\<lambda>i. xs ! i) (filter (\<lambda>i. P (xs ! i)) [0..<length xs]) = filter P xs"
proof -
  have "filter P xs = filter P (map (\<lambda>i. xs ! i) [0..<length xs])" by (simp add: map_nth)
  then show ?thesis by (simp add: filter_map comp_def)
qed

lemma filter_dropped:
  assumes "distinct xs"
  shows "filter (\<lambda>i. i \<in> set (drop k (filter Q xs))) xs = drop k (filter Q xs)"
proof -
  let ?ys = "filter Q xs"
  have "filter (\<lambda>i. i \<in> set (drop k ?ys)) xs = filter (\<lambda>i. i \<in> set (drop k ?ys)) ?ys"
    by (auto intro!: filter_cong dest: in_set_dropD)
  also have "\<dots> = filter (\<lambda>i. i \<in> set (drop k ?ys)) (take k ?ys @ drop k ?ys)" by simp
  also have "\<dots> = drop k ?ys"
  proof -
    have "set (take k ?ys) \<inter> set (drop k ?ys) = {}" using assms by (intro set_take_disj_set_drop_if_distinct) auto
    then have "filter (\<lambda>i. i \<in> set (drop k ?ys)) (take k ?ys) = []" by (auto simp: filter_empty_conv)
    then show ?thesis unfolding filter_append by simp
  qed
  finally show ?thesis .
qed

lemma mark_positions_nth:
  "\<forall>i \<in> set is. i < length es \<Longrightarrow> length (mark_positions is es) = length es
    \<and> (\<forall>j < length es. et_text (mark_positions is es ! j) = et_text (es ! j)
        \<and> (et_in_brief (mark_positions is es ! j) \<longleftrightarrow> et_in_brief (es ! j) \<or> j \<in> set is))"
proof (induction "is" arbitrary: es)
  case (Cons i "is")
  let ?es = "es[i := (es ! i)\<lparr>et_in_brief := True\<rparr>]"
  have "mark_positions (i # is) es = mark_positions is ?es" by (simp add: mark_positions_def)
  moreover have "i < length es" "\<forall>k \<in> set is. k < length ?es" using Cons.prems by simp_all
  moreover have "et_text (?es ! j) = et_text (es ! j)" "et_in_brief (?es ! j) \<longleftrightarrow> et_in_brief (es ! j) \<or> j = i" if "j < length es" for j
    using that \<open>i < length es\<close> by (cases "j = i"; simp)+
  ultimately show ?case using Cons.IH [of ?es] by auto
qed (simp add: mark_positions_def)

lemma trace_entries_spec:
  "trace_entries m present_set class_of hs = Inr ts \<Longrightarrow>
   list_all2 (\<lambda>h t. et_text t = vw_text h \<and> \<not> et_in_brief t \<and> explain h m present_set class_of = Inr (et_decision t)) hs ts"
  by (induction hs arbitrary: ts) (auto simp: andthen_Inr_iff)

lemma section_marks:
  assumes "section_trace_of J g m present_set class_of recent role True = Inr s" "class_history J g (mv_id m) = Inr hs"
  shows "map et_text (filter et_in_brief (sx_entries s))
    = (let shown = filter (\<lambda>h. visible h m present_set class_of = Inr True) hs in map vw_text (drop (length shown - recent) shown))"
proof -
  from assms obtain ts where ts: "trace_entries m present_set class_of hs = Inr ts"
    "sx_entries s = mark_positions (drop (length (visible_positions ts) - recent) (visible_positions ts)) ts"
    by (auto simp: section_trace_of_def andthen_Inr_iff Let_def)
  let ?k = "length (visible_positions ts) - recent"
  let ?es = "sx_entries s"
  have in_range: "\<forall>i \<in> set (drop ?k (visible_positions ts)). i < length ts"
    by (auto simp: visible_positions_def dest!: in_set_dropD)
  note marks = mark_positions_nth [OF in_range, folded ts(2)]
  have unmarked: "\<not> et_in_brief (ts ! j)" if "j < length ts" for j
    using trace_entries_spec [OF ts(1)] that by (auto simp: list_all2_conv_all_nth)
  have "filter (\<lambda>j. et_in_brief (?es ! j)) [0..<length ?es] = filter (\<lambda>j. j \<in> set (drop ?k (visible_positions ts))) [0..<length ts]"
    using marks unmarked by (auto intro!: filter_cong)
  also have "\<dots> = drop ?k (visible_positions ts)"
    unfolding visible_positions_def by (rule filter_dropped) simp
  finally have "map et_text (filter et_in_brief ?es) = map (\<lambda>j. et_text (?es ! j)) (drop ?k (visible_positions ts))"
    using map_nth_filter [of ?es et_in_brief] by (metis (no_types, lifting) list.map_comp comp_apply map_cong)
  also have "\<dots> = map (\<lambda>j. et_text (ts ! j)) (drop ?k (visible_positions ts))"
    using marks in_range by (intro map_cong) auto
  also have "\<dots> = map et_text (drop ?k (map (\<lambda>j. ts ! j) (visible_positions ts)))" by (simp add: drop_map comp_def)
  also have "map (\<lambda>j. ts ! j) (visible_positions ts) = filter (\<lambda>t. is_visible (et_decision t)) ts"
    unfolding visible_positions_def by (rule map_nth_filter)
  finally have e: "map et_text (filter et_in_brief ?es) = map et_text (drop ?k (filter (\<lambda>t. is_visible (et_decision t)) ts))" .
  have "length (visible_positions ts) = length (filter (\<lambda>t. is_visible (et_decision t)) ts)"
    using map_nth_filter [of ts "\<lambda>t. is_visible (et_decision t)"] by (metis length_map visible_positions_def)
  moreover have "map et_text (filter (\<lambda>t. is_visible (et_decision t)) ts) = map vw_text (filter (\<lambda>h. visible h m present_set class_of = Inr True) hs)"
    using trace_entries_spec [OF ts(1)] by (induction rule: list_all2_induct) (auto simp: visible_def)
  ultimately show ?thesis unfolding e Let_def by (simp add: drop_map [symmetric]) (metis length_map)
qed

section \<open>Property\<close>

text \<open>
  the trace tells what reached the brief. In a graph built from a log that has withdrawn no attestation, the entries that the trace of an
  admitted block marks are, word for word and in order, the recent facts the block shows.
\<close>

theorem trace_marks_what_is_shown:
  assumes "foldM (apply_event J) evs empty_graph = Inr g" "\<forall>a \<in> set (entry_attestations g). a_retracted_reason a = None"
    and "section_trace_of J g m present_set (graph_class_of g) recent role True = Inr s"
    and "visible_recent_facts J U g m present_set (graph_class_of g) recent clock = Inr facts"
  shows "map et_text (filter et_in_brief (sx_entries s)) = map ft_text facts"
proof -
  have keys: "keys_ok g" using keys.replay_from_empty [OF assms(1)] by simp
  from assms(3) obtain hs where hs: "class_history J g (mv_id m) = Inr hs" by (auto simp: section_trace_of_def andthen_Inr_iff)
  from assms(4) obtain es where es: "class_entries J g (mv_id m) = Inr es" by (auto simp: visible_recent_facts_def andthen_Inr_iff)
  have live: "vw_superseded_by h = None" if "visible h m present_set (graph_class_of g) = Inr True" for h
    using that by (auto simp: visible_def explain_def split: if_splits)
  have "filter (entry_shows g m present_set) es = filter (\<lambda>h. visible h m present_set (graph_class_of g) = Inr True) hs"
    unfolding class_entries_of_history [OF keys assms(2) hs es] entry_shows_def filter_filter using live by (auto intro!: filter_cong)
  with visible_recent_facts_spec [OF assms(4) es] section_marks [OF assms(3) hs]
  have "list_all2 (\<lambda>e f. entry_fact J U g m e present_set clock = Inr f)
      (let shown = filter (\<lambda>h. visible h m present_set (graph_class_of g) = Inr True) hs in drop (length shown - recent) shown) facts"
    "map et_text (filter et_in_brief (sx_entries s))
      = map vw_text (let shown = filter (\<lambda>h. visible h m present_set (graph_class_of g) = Inr True) hs in drop (length shown - recent) shown)"
    by (simp_all add: Let_def)
  moreover have "map vw_text xs = map ft_text fs" if "list_all2 (\<lambda>e f. entry_fact J U g m e present_set clock = Inr f) xs fs" for xs fs
    using that by (induction rule: list_all2_induct) (auto simp: entry_fact_def andthen_Inr_iff Let_def)
  ultimately show ?thesis by simp
qed

end
