(* ===== verification/Brief_Samples.thy ===== *)
theory Brief_Samples
  imports Brief_Trace Sample_Block
begin

text \<open>Concrete briefs: a room of two people who know each other, on the graph of the sample turn.\<close>

definition mutual_graph :: graph where
  "mutual_graph =
     (case foldM (apply_event gregorian)
        [sample_event 40 (LinkCreated (MemoryId 3) (MemoryId 1) RelationName_Knows LinkSource_Agent None None Visibility_Public)] turn_graph of
        Inr g \<Rightarrow> g | Inl _ \<Rightarrow> empty_graph)"

definition room_request :: brief_request where
  "room_request =
     \<lparr>rq_present_set = [MemoryId 2, MemoryId 3], rq_speakers = [MemoryId 3], rq_current_context = Some (MemoryId 4),
      rq_working_set = [], rq_now = 50000\<rparr>"

abbreviation sample_brief :: "string outcome" where
  "sample_brief \<equiv> compose gregorian show_nat mutual_graph default_brief room_request"

lemma sample_brief_ok: obtains t where "sample_brief = Inr t"
proof -
  have "is_ok sample_brief" by code_simp
  with that show thesis by (auto simp: is_ok_iff)
qed

theorem brief_shows_only_what_is_visible_witness:
  "\<exists>t ps. sample_brief = Inr t \<and> t = concat (map snd ps)
     \<and> (\<forall>x \<in> set ps. piece gregorian show_nat mutual_graph room_request (fst x) (snd x))"
proof -
  obtain t where t: "sample_brief = Inr t" by (rule sample_brief_ok)
  from brief_shows_only_what_is_visible [OF this] t show ?thesis by blast
qed

theorem brief_keeps_to_its_budget_witness:
  "\<exists>t ps. sample_brief = Inr t \<and> t = concat (map snd ps)
     \<and> (\<forall>before s after. ps = before @ (False, s) # after \<longrightarrow> char_len s > 0 \<longrightarrow>
          int (char_len (concat (map snd before)) + char_len s) \<le> 8000)"
proof -
  obtain t where t: "sample_brief = Inr t" by (rule sample_brief_ok)
  have "bs_char_budget default_brief = 8000" by (simp add: default_brief_def)
  with brief_keeps_to_its_budget [OF t] t show ?thesis by auto
qed

lemma sample_bob: obtains m where "memory_by_id gregorian mutual_graph (MemoryId 3) = Inr (Some m)" "mv_id m = MemoryId 3"
proof -
  have "case memory_by_id gregorian mutual_graph (MemoryId 3) of Inr (Some m) \<Rightarrow> mv_id m = MemoryId 3 | _ \<Rightarrow> False" by code_simp
  with that show thesis by (auto split: sum.splits option.splits)
qed

theorem everyone_present_is_named_witness:
  "\<exists>t. sample_brief = Inr t
     \<and> (\<exists>j mj d. j \<in> {MemoryId 2, MemoryId 3} \<and> memory_by_id gregorian mutual_graph j = Inr (Some mj)
          \<and> class_or_self mutual_graph j = class_or_self mutual_graph (MemoryId 3)
          \<and> class_display gregorian mutual_graph mj (graph_class_of mutual_graph) = Inr d
          \<and> (sublist (block_header d) t \<or> sublist (name_line d) t))"
proof -
  obtain t where t: "sample_brief = Inr t" by (rule sample_brief_ok)
  obtain m where m: "memory_by_id gregorian mutual_graph (MemoryId 3) = Inr (Some m)" by (rule sample_bob)
  have other: "case self_memory gregorian mutual_graph of
      Inr (Some self) \<Rightarrow> class_or_self mutual_graph (mv_id self) \<noteq> class_or_self mutual_graph (MemoryId 3) | _ \<Rightarrow> True" by code_simp
  have p: "rq_present_set room_request = [MemoryId 2, MemoryId 3]" by (simp add: room_request_def)
  have "MemoryId 3 \<in> set (rq_present_set room_request)" by (simp add: p)
  from everyone_present_is_named [OF t this m] other t show ?thesis
    by (intro exI [of _ t]) (auto simp: p)
qed

theorem block_holds_the_last_visible_witness:
  "\<exists>m b es. memory_by_id gregorian mutual_graph (MemoryId 3) = Inr (Some m)
     \<and> memory_brief gregorian show_nat mutual_graph m [MemoryId 2, MemoryId 3] (graph_class_of mutual_graph) default_brief 50000 = Inr b
     \<and> class_entries gregorian mutual_graph (mv_id m) = Inr es \<and> length (bf_relationships b) \<le> 8
     \<and> length (bf_recent_facts b) = 1"
proof -
  obtain m where m: "memory_by_id gregorian mutual_graph (MemoryId 3) = Inr (Some m)" "mv_id m = MemoryId 3" by (rule sample_bob)
  have "case memory_by_id gregorian mutual_graph (MemoryId 3) of Inr (Some m) \<Rightarrow>
      (case memory_brief gregorian show_nat mutual_graph m [MemoryId 2, MemoryId 3] (graph_class_of mutual_graph) default_brief 50000 of
         Inr b \<Rightarrow> length (bf_recent_facts b) = 1 | _ \<Rightarrow> False) | _ \<Rightarrow> False" by code_simp
  with m obtain b where b: "memory_brief gregorian show_nat mutual_graph m [MemoryId 2, MemoryId 3] (graph_class_of mutual_graph) default_brief 50000 = Inr b"
    "length (bf_recent_facts b) = 1" by (auto split: sum.splits)
  have "is_ok (class_entries gregorian mutual_graph (MemoryId 3))" by code_simp
  with m obtain es where es: "class_entries gregorian mutual_graph (mv_id m) = Inr es" by (auto simp: is_ok_iff)
  have "nat (bs_key_relationships default_brief) = 8" by (simp add: default_brief_def)
  with block_holds_the_last_visible [OF b(1) es] m(1) b es show ?thesis by auto
qed

theorem trace_marks_what_is_shown_witness:
  "\<exists>m (s :: section_trace) facts. memory_by_id gregorian sample_graph (MemoryId 2) = Inr (Some m)
     \<and> visible_recent_facts gregorian show_nat sample_graph m [MemoryId 2, MemoryId 3] (graph_class_of sample_graph) 8 50000 = Inr facts
     \<and> map et_text (filter et_in_brief (sx_entries s)) = map ft_text facts \<and> length facts = 1"
proof -
  let ?trace = "\<lambda>m. section_trace_of gregorian sample_graph m [MemoryId 2, MemoryId 3] (graph_class_of sample_graph) 8 SectionKind_Participant True"
  let ?facts = "\<lambda>m. visible_recent_facts gregorian show_nat sample_graph m [MemoryId 2, MemoryId 3] (graph_class_of sample_graph) 8 50000"
  have c: "case memory_by_id gregorian sample_graph (MemoryId 2) of Inr (Some m) \<Rightarrow>
      is_ok (?trace m) \<and> (case ?facts m of Inr fs \<Rightarrow> length fs = 1 | _ \<Rightarrow> False) | _ \<Rightarrow> False" by code_simp
  then obtain m where m: "memory_by_id gregorian sample_graph (MemoryId 2) = Inr (Some m)"
    by (cases "memory_by_id gregorian sample_graph (MemoryId 2)") (simp_all split: option.splits)
  from c m obtain s where s: "?trace m = Inr s" by (auto simp: is_ok_iff)
  from c m obtain fs where fs: "?facts m = Inr fs" "length fs = 1" by (cases "?facts m") simp_all
  have "list_all (\<lambda>a. a_retracted_reason a = None) (entry_attestations sample_graph)" by code_simp
  then have "\<forall>a \<in> set (entry_attestations sample_graph). a_retracted_reason a = None" by (simp add: list_all_iff)
  from trace_marks_what_is_shown [OF sample_replay this s fs(1)] m fs show ?thesis by blast
qed

text \<open>
  a mutual edge is shown one way. Two people who know each other hold two links of one relation, in both directions, and both are
  visible; a block takes the second for a copy of the first, and says of one of them only that the other knows them.
\<close>

theorem mutual_edge_shown_once:
  "\<exists>ls m b. class_neighbor_links mutual_graph (MemoryId 1) = Inr ls
     \<and> map (\<lambda>l. (nv_relation l, nv_other l, nv_incoming l)) ls
         = [(RelationName_Knows, MemoryId 3, True), (RelationName_Knows, MemoryId 3, False)]
     \<and> list_all (link_shows mutual_graph [MemoryId 2, MemoryId 3]) ls
     \<and> memory_by_id gregorian mutual_graph (MemoryId 1) = Inr (Some m)
     \<and> memory_brief gregorian show_nat mutual_graph m [MemoryId 2, MemoryId 3] (graph_class_of mutual_graph) default_brief 50000 = Inr b
     \<and> map (\<lambda>r. (name_str (rl_source r), rl_relation r, name_str (rl_target r))) (bf_relationships b)
         = [(''person/bob'', RelationName_Knows, ''person/ada'')]"
proof -
  let ?shows = "\<lambda>l. case relation_view_of mutual_graph (relation_name_str (nv_relation l)) of
      Inr r \<Rightarrow> link_visible (neighbor_link_view_vis l) (case r of Some v \<Rightarrow> rv_symmetric v | None \<Rightarrow> False)
        [MemoryId 2, MemoryId 3] (graph_class_of mutual_graph) = Inr True
    | Inl _ \<Rightarrow> False"
  have "case class_neighbor_links mutual_graph (MemoryId 1) of
      Inr ls \<Rightarrow> map (\<lambda>l. (nv_relation l, nv_other l, nv_incoming l)) ls
          = [(RelationName_Knows, MemoryId 3, True), (RelationName_Knows, MemoryId 3, False)] \<and> list_all ?shows ls
    | Inl _ \<Rightarrow> False" by code_simp
  then obtain ls where ls: "class_neighbor_links mutual_graph (MemoryId 1) = Inr ls"
    "map (\<lambda>l. (nv_relation l, nv_other l, nv_incoming l)) ls
       = [(RelationName_Knows, MemoryId 3, True), (RelationName_Knows, MemoryId 3, False)]" "list_all ?shows ls"
    by (auto split: sum.splits)
  have "link_shows mutual_graph [MemoryId 2, MemoryId 3] l" if "l \<in> set ls" for l
    using ls(3) that by (cases "relation_view_of mutual_graph (relation_name_str (nv_relation l))") (auto simp: list_all_iff link_shows_def)
  then have both: "list_all (link_shows mutual_graph [MemoryId 2, MemoryId 3]) ls" by (simp add: list_all_iff)
  let ?brief = "\<lambda>m. memory_brief gregorian show_nat mutual_graph m [MemoryId 2, MemoryId 3] (graph_class_of mutual_graph) default_brief 50000"
  let ?lines = "\<lambda>b. map (\<lambda>r. (name_str (rl_source r), rl_relation r, name_str (rl_target r))) (bf_relationships b)"
  have c: "case memory_by_id gregorian mutual_graph (MemoryId 1) of Inr (Some m) \<Rightarrow>
      (case ?brief m of Inr b \<Rightarrow> ?lines b = [(''person/bob'', RelationName_Knows, ''person/ada'')] | _ \<Rightarrow> False) | _ \<Rightarrow> False" by code_simp
  then obtain m where m: "memory_by_id gregorian mutual_graph (MemoryId 1) = Inr (Some m)"
    by (cases "memory_by_id gregorian mutual_graph (MemoryId 1)") (simp_all split: option.splits)
  with c obtain b where "?brief m = Inr b" "?lines b = [(''person/bob'', RelationName_Knows, ''person/ada'')]"
    by (cases "?brief m") simp_all
  with ls(1,2) both m show ?thesis by (intro exI conjI)
qed

text \<open>A cap below the number of speakers leaves a speaker to a line of its name; a window past the last instant panics.\<close>

lemma speaker_left_to_a_line:
  "case compose_packed gregorian show_nat mutual_graph (default_brief\<lparr>bs_present_set_cap := 0\<rparr>) room_request of
     Inr p \<Rightarrow> pk_full p = {} | Inl _ \<Rightarrow> False"
  by code_simp

lemma long_upcoming_window_panics:
  "compose gregorian show_nat mutual_graph (default_brief\<lparr>bs_upcoming_window_days := 3650000\<rparr>) room_request
     = Inl (Panicked (Panic_OutOfRange 315360000050000))"
  by code_simp

text \<open>
  the trace claims what the brief leaves out. The block of a room holds its tag and description and none of its entries, yet the trace of
  the same composition marks the room's visible entries as having reached the brief.
\<close>

definition noted_room_graph :: graph where
  "noted_room_graph =
     (case apply_event gregorian
        (sample_event 40 (MemoryContentAppended (MemoryId 4) (EntryId 41) 20000 None ''quiet hours'' Teller_Agent None Visibility_Public)) turn_graph of
        Inr g \<Rightarrow> g | Inl _ \<Rightarrow> empty_graph)"

theorem room_entries_marked_not_shown:
  "case compose_traced gregorian show_nat noted_room_graph default_brief room_request of
     Inr t \<Rightarrow>
       map (\<lambda>s. map et_text (filter et_in_brief (sx_entries s))) (filter (\<lambda>s. sx_kind s = SectionKind_CurrentRoom) (bt_sections t)) = [[''quiet hours'']]
       \<and> \<not> sublist ''quiet'' (bt_text t)
   | Inl _ \<Rightarrow> False"
  by code_simp

end
