(* ===== verification/Genesis.thy ===== *)
theory Genesis
  imports Settings Replay Graph_Memories
begin

text \<open>
  The birth of an agent and the upkeep of its prompts, \<open>src/agent/genesis\<close>, \<open>src/agent/templates.rs\<close> and
  \<open>src/cli/debug/upgrade_prompts.rs\<close>. The store is its \<open>read\<close> and its \<open>commit\<close> (the \<open>append\<close> of the trait); \<open>clock\<close> gives the instants of the
  successive readings of the clock, \<open>entropy\<close> the ULIDs drawn, \<open>sha256\<close> the digest of the \<open>sha2\<close> crate and \<open>encode\<close> the
  snapshot serde writes. The default templates, whose bodies are embedded text files, are an argument.
\<close>

type_synonym 's reader = "'s \<Rightarrow> seq \<Rightarrow> (store_error, event list) result"
type_synonym 's writer = "'s \<Rightarrow> timestamp \<Rightarrow> event_source \<Rightarrow> event_payload list \<Rightarrow> (store_error, event list) result \<times> 's"

record seed_self =
  sd_agent_name :: string
  sd_persona :: string
  sd_entries :: "string list"

datatype genesis_status = GenesisStatus_Empty | GenesisStatus_Incomplete | GenesisStatus_Complete

datatype rollout_outcome = Rollout_AlreadyComplete | Rollout_Created nat

record template_def =
  td_name :: prompt_template_name
  td_version :: nat
  td_body :: string
  td_description :: string

record tag_def =
  gd_name :: string
  gd_description :: string

record relation_def =
  rd_name :: relation_name
  rd_inverse :: relation_name
  rd_from_card :: cardinality
  rd_to_card :: cardinality
  rd_symmetric :: bool
  rd_reflexive :: bool
  rd_description :: string

section \<open>Registered templates\<close>

record prompt_template =
  pt_version :: nat
  pt_body :: string

record latest_registration =
  rg_version :: nat
  rg_body :: string
  rg_source :: event_source

definition latest_template_step :: "prompt_template_name \<Rightarrow> prompt_template option \<Rightarrow> event \<Rightarrow> prompt_template option" where
  "latest_template_step name latest e =
     (case ev_payload e of
        PromptTemplateRegistered registered version body _ \<Rightarrow>
          (if registered = name \<and> (case latest of None \<Rightarrow> True | Some c \<Rightarrow> pt_version c \<le> version)
           then Some \<lparr>pt_version = version, pt_body = body\<rparr> else latest)
      | _ \<Rightarrow> latest)"

definition latest_template :: "'s reader \<Rightarrow> 's \<Rightarrow> prompt_template_name \<Rightarrow> (store_error, prompt_template option) result" where
  "latest_template read s name = andthen (read s seq_zero) (\<lambda>es. Inr (foldl (latest_template_step name) None es))"

definition registration_step ::
  "(prompt_template_name \<rightharpoonup> latest_registration) \<Rightarrow> event \<Rightarrow> (prompt_template_name \<rightharpoonup> latest_registration)" where
  "registration_step latest e =
     (case ev_payload e of
        PromptTemplateRegistered name version body _ \<Rightarrow>
          (if (case latest name of None \<Rightarrow> True | Some c \<Rightarrow> rg_version c \<le> version)
           then latest(name \<mapsto> \<lparr>rg_version = version, rg_body = body, rg_source = ev_source e\<rparr>) else latest)
      | _ \<Rightarrow> latest)"

definition latest_registrations ::
  "'s reader \<Rightarrow> 's \<Rightarrow> (store_error, prompt_template_name \<rightharpoonup> latest_registration) result" where
  "latest_registrations read s = andthen (read s seq_zero) (\<lambda>es. Inr (foldl registration_step Map.empty es))"

definition default_supersedes :: "nat \<Rightarrow> string \<Rightarrow> latest_registration \<Rightarrow> bool" where
  "default_supersedes default_version default_body registered \<longleftrightarrow>
     default_version > rg_version registered
     \<or> default_version = rg_version registered \<and> default_body \<noteq> rg_body registered"

section \<open>Assessment and reconciliation\<close>

record template_assessment =
  tm_name :: prompt_template_name
  tm_default_version :: nat
  tm_default_body :: string
  tm_default_description :: string
  tm_latest :: "latest_registration option"

definition is_absent :: "template_assessment \<Rightarrow> bool" where
  "is_absent a \<longleftrightarrow> tm_latest a = None"

definition latest_version :: "template_assessment \<Rightarrow> nat option" where
  "latest_version a = map_option rg_version (tm_latest a)"

definition is_curated :: "template_assessment \<Rightarrow> bool" where
  "is_curated a \<longleftrightarrow> (case tm_latest a of None \<Rightarrow> False | Some r \<Rightarrow> rg_source r \<noteq> EventSource_Bootstrap)"

definition default_is_newer :: "template_assessment \<Rightarrow> bool" where
  "default_is_newer a \<longleftrightarrow> (case tm_latest a of None \<Rightarrow> False | Some r \<Rightarrow> tm_default_version a > rg_version r)"

definition upgrade_available :: "template_assessment \<Rightarrow> bool" where
  "upgrade_available a \<longleftrightarrow> is_curated a
     \<and> (case tm_latest a of None \<Rightarrow> False
        | Some r \<Rightarrow> default_supersedes (tm_default_version a) (tm_default_body a) r)"

definition assess :: "(prompt_template_name \<rightharpoonup> latest_registration) \<Rightarrow> template_def \<Rightarrow> template_assessment" where
  "assess latest t =
     \<lparr>tm_name = td_name t, tm_default_version = td_version t, tm_default_body = td_body t,
      tm_default_description = td_description t, tm_latest = latest (td_name t)\<rparr>"

definition assess_templates ::
  "'s reader \<Rightarrow> template_def list \<Rightarrow> 's \<Rightarrow> (store_error, template_assessment list) result" where
  "assess_templates read defaults s =
     andthen (latest_registrations read s) (\<lambda>latest. Inr (map (assess latest) defaults))"

record template_reconciliation =
  tr_backfilled :: nat
  tr_upgraded :: nat
  tr_held_as_curated :: nat

definition no_reconciliation :: template_reconciliation where
  "no_reconciliation = \<lparr>tr_backfilled = 0, tr_upgraded = 0, tr_held_as_curated = 0\<rparr>"

text \<open>\<open>EventPayload::prompt_template_registered\<close>; the payload's own source is the default one.\<close>

definition prompt_template_registered :: "prompt_template_name \<Rightarrow> nat \<Rightarrow> string \<Rightarrow> event_payload" where
  "prompt_template_registered name version body = PromptTemplateRegistered name version body EventSource_Agent"

definition register_default :: "template_assessment \<Rightarrow> event_payload" where
  "register_default a = prompt_template_registered (tm_name a) (tm_default_version a) (tm_default_body a)"

definition reconcile_step ::
  "event_payload list \<times> template_reconciliation \<Rightarrow> template_assessment \<Rightarrow> event_payload list \<times> template_reconciliation" where
  "reconcile_step = (\<lambda>(to_emit, counts) a.
     if is_absent a then (to_emit @ [register_default a], counts\<lparr>tr_backfilled := tr_backfilled counts + 1\<rparr>)
     else if \<not> is_curated a then
       (if default_is_newer a
        then (to_emit @ [register_default a], counts\<lparr>tr_upgraded := tr_upgraded counts + 1\<rparr>)
        else (to_emit, counts))
     else if upgrade_available a then (to_emit, counts\<lparr>tr_held_as_curated := tr_held_as_curated counts + 1\<rparr>)
     else (to_emit, counts))"

definition reconcile_templates ::
  "'s reader \<Rightarrow> 's writer \<Rightarrow> template_def list \<Rightarrow> timestamp \<Rightarrow> 's \<Rightarrow> (store_error, template_reconciliation) result \<times> 's" where
  "reconcile_templates read commit defaults t s =
     (case assess_templates read defaults s of
        Inl e \<Rightarrow> (Inl e, s)
      | Inr assessments \<Rightarrow>
          (let (to_emit, counts) = foldl reconcile_step ([], no_reconciliation) assessments
           in if to_emit = [] then (Inr counts, s)
              else (case commit s t EventSource_Bootstrap to_emit of
                      (Inl e, s') \<Rightarrow> (Inl e, s')
                    | (Inr _, s') \<Rightarrow> (Inr counts, s'))))"

record template_status =
  tu_name :: prompt_template_name
  tu_latest_version :: nat
  tu_curated :: bool
  tu_default_version :: nat
  tu_upgrade_available :: bool
  tu_description :: "string option"

definition template_statuses ::
  "'s reader \<Rightarrow> template_def list \<Rightarrow> 's \<Rightarrow> (store_error, template_status list) result" where
  "template_statuses read defaults s =
     andthen (assess_templates read defaults s) (\<lambda>assessments.
       Inr (map (\<lambda>a. \<lparr>tu_name = tm_name a, tu_latest_version = (case latest_version a of Some v \<Rightarrow> v | None \<Rightarrow> 0),
                     tu_curated = is_curated a, tu_default_version = tm_default_version a,
                     tu_upgrade_available = upgrade_available a, tu_description = Some (tm_default_description a)\<rparr>)
            assessments))"

section \<open>The offline upgrade\<close>

text \<open>What the command registers of one name: under \<open>Bootstrap\<close>, and, forced, under \<open>Operator\<close>.\<close>

definition upgrade_step ::
  "bool \<Rightarrow> event_payload list \<times> event_payload list \<Rightarrow> template_assessment \<Rightarrow> event_payload list \<times> event_payload list" where
  "upgrade_step force = (\<lambda>(tracking, curated) a.
     if is_absent a then (tracking @ [register_default a], curated)
     else if \<not> is_curated a then
       (if default_is_newer a then (tracking @ [register_default a], curated) else (tracking, curated))
     else if upgrade_available a \<and> force then
       (tracking, curated @ [prompt_template_registered (tm_name a)
          ((case latest_version a of Some v \<Rightarrow> v | None \<Rightarrow> 0) + 1) (tm_default_body a)])
     else (tracking, curated))"

definition upgrade_prompts ::
  "'s reader \<Rightarrow> 's writer \<Rightarrow> template_def list \<Rightarrow> (nat \<Rightarrow> timestamp) \<Rightarrow> bool \<Rightarrow> 's \<Rightarrow> (store_error, unit) result \<times> 's" where
  "upgrade_prompts read commit defaults clock force s =
     (case assess_templates read defaults s of
        Inl e \<Rightarrow> (Inl e, s)
      | Inr assessments \<Rightarrow>
          (let (tracking, curated) = foldl (upgrade_step force) ([], []) assessments;
               (r, s1) = (if tracking = [] then (Inr [], s) else commit s (clock 0) EventSource_Bootstrap tracking)
           in case r of
                Inl e \<Rightarrow> (Inl e, s1)
              | Inr _ \<Rightarrow>
                  (let (r, s2) = (if curated = [] then (Inr [], s1)
                                  else commit s1 (clock (if tracking = [] then 0 else 1)) EventSource_Operator curated)
                   in case r of Inl e \<Rightarrow> (Inl e, s2) | Inr _ \<Rightarrow> (Inr (), s2))))"

section \<open>The seeds\<close>

definition seed_tags :: "tag_def list" where
  "seed_tags =
     [\<lparr>gd_name = ''confidential'',
       gd_description = ''Marks a context as confidential: asides told in a room carrying this tag are ''
         @ ''surfaced elsewhere flagged as confidential, and the tag is visible regardless of who is present.''\<rparr>]"

definition directed :: "relation_name \<Rightarrow> relation_name \<Rightarrow> cardinality \<Rightarrow> cardinality \<Rightarrow> string \<Rightarrow> relation_def" where
  "directed name inverse_name from_card to_card description =
     \<lparr>rd_name = name, rd_inverse = inverse_name, rd_from_card = from_card, rd_to_card = to_card,
      rd_symmetric = False, rd_reflexive = False, rd_description = description\<rparr>"

definition seed_relations :: "relation_def list" where
  "seed_relations =
     [directed RelationName_CreatedBy RelationName_Created Cardinality_One Cardinality_Many
        (''A thing'' @ [CHR 39] @ ''s historical origin '' @ [CHR 0xE2, CHR 0x80, CHR 0x94]
         @ '' who created it. Distinct from current operatorship.''),
      directed RelationName_OperatorOf RelationName_OperatedBy Cardinality_Many Cardinality_Many
        (''Who currently operates or runs a thing '' @ [CHR 0xE2, CHR 0x80, CHR 0x94]
         @ '' the present operator, not the originator.''),
      directed RelationName_Knows RelationName_KnownBy Cardinality_Many Cardinality_Many
        (''One person knows another '' @ [CHR 0xE2, CHR 0x80, CHR 0x94] @ '' a person-to-person relationship.''),
      (directed RelationName_SameAs RelationName_SameAs Cardinality_Many Cardinality_Many
        (''Two platform stubs are the same person '' @ [CHR 0xE2, CHR 0x80, CHR 0x94] @ '' cross-platform identity.''))
          \<lparr>rd_symmetric := True\<rparr>,
      directed RelationName_ParticipatesIn RelationName_HasParticipant Cardinality_Many Cardinality_Many
        (''A person is in an event '' @ [CHR 0xE2, CHR 0x80, CHR 0x94] @ '' someone who will be there or took part.''),
      directed RelationName_PartOf RelationName_Contains Cardinality_Many Cardinality_Many
        (''An event, entry-bearing memory, or sub-topic belongs to a topic, project, or workstream ''
         @ [CHR 0xE2, CHR 0x80, CHR 0x94]
         @ '' membership or aboutness. Not for people, who participates_in an event instead.''),
      directed RelationName_LocatedAt RelationName_LocationOf Cardinality_Many Cardinality_One
        (''Where a thing is held or found '' @ [CHR 0xE2, CHR 0x80, CHR 0x94] @ '' an event'' @ [CHR 39] @ ''s venue, a team''
         @ [CHR 39] @ ''s office, a thing'' @ [CHR 39] @ ''s place. Many things can share one place.''),
      directed RelationName_MemberOf RelationName_HasMember Cardinality_Many Cardinality_Many
        (''A person belongs to an organization or group '' @ [CHR 0xE2, CHR 0x80, CHR 0x94]
         @ '' an employer, a team, a board, a school. Standing membership, not attendance at an event ''
         @ ''(participates_in) and not composition of a topic (part_of).'')]"

text \<open>What the manifest hash covers: the seed, each part closed by a zero byte, and the names and versions of the templates.\<close>

definition le32 :: "nat \<Rightarrow> string" where
  "le32 n = map (\<lambda>i. char_of ((n div 256 ^ i) mod 256 :: nat)) [0, 1, 2, 3]"

definition manifest_bytes :: "seed_self \<Rightarrow> template_def list \<Rightarrow> string" where
  "manifest_bytes seed templates =
     sd_agent_name seed @ [CHR 0x00] @ sd_persona seed @ [CHR 0x00] @ concat (map (\<lambda>e. e @ [CHR 0x00]) (sd_entries seed))
     @ concat (map (\<lambda>t. prompt_template_name_as_str (td_name t) @ le32 (td_version t)) templates)"

definition manifest_hash :: "(string \<Rightarrow> nat list) \<Rightarrow> seed_self \<Rightarrow> template_def list \<Rightarrow> string" where
  "manifest_hash sha256 seed templates = concat (map hex_byte (sha256 (manifest_bytes seed templates)))"

section \<open>The rollout\<close>

fun is_genesis_completed :: "event_payload \<Rightarrow> bool" where
  "is_genesis_completed (GenesisCompleted _ _) = True"
| "is_genesis_completed _ = False"

definition genesis_status_of :: "'s reader \<Rightarrow> 's \<Rightarrow> (store_error, genesis_status) result" where
  "genesis_status_of read s =
     andthen (read s seq_zero) (\<lambda>es.
       Inr (if es = [] then GenesisStatus_Empty
            else if list_ex (\<lambda>e. is_genesis_completed (ev_payload e)) es then GenesisStatus_Complete
            else GenesisStatus_Incomplete))"

text \<open>What an interrupted genesis has already written.\<close>

record written =
  wr_templates :: "(prompt_template_name \<times> nat) set"
  wr_relations :: "string set"
  wr_tags :: "string set"
  wr_config :: bool
  wr_self :: bool

definition nothing_written :: written where
  "nothing_written = \<lparr>wr_templates = {}, wr_relations = {}, wr_tags = {}, wr_config = False, wr_self = False\<rparr>"

definition note_written :: "written \<Rightarrow> event_payload \<Rightarrow> written" where
  "note_written w p =
     (case p of
        PromptTemplateRegistered name version _ _ \<Rightarrow> w\<lparr>wr_templates := insert (name, version) (wr_templates w)\<rparr>
      | LinkTypeRegistered name _ _ _ _ _ _ \<Rightarrow> w\<lparr>wr_relations := insert (relation_name_str name) (wr_relations w)\<rparr>
      | TagCreated name _ \<Rightarrow> w\<lparr>wr_tags := insert (tag_name_str name) (wr_tags w)\<rparr>
      | ConfigSet _ _ \<Rightarrow> w\<lparr>wr_config := True\<rparr>
      | MemoryCreated _ name \<Rightarrow> (if is_self name then w\<lparr>wr_self := True\<rparr> else w)
      | _ \<Rightarrow> w)"

definition COMPACTION_BUDGET_FRACTION :: rat where "COMPACTION_BUDGET_FRACTION = 4 / 5"

definition compaction_budget_for :: "nat \<Rightarrow> int" where
  "compaction_budget_for context_length = \<lfloor>of_nat context_length * COMPACTION_BUDGET_FRACTION\<rfloor>"

definition seed_settings :: "nat option \<Rightarrow> settings" where
  "seed_settings context_length =
     (case context_length of
        None \<Rightarrow> default_settings
      | Some n \<Rightarrow> default_settings\<lparr>st_compaction := (st_compaction default_settings)
                     \<lparr>cs_token_budget := compaction_budget_for n, cs_context_length := Some (int n)\<rparr>\<rparr>)"

text \<open>The memory of the agent: its charter and the seed entries, one draw and one reading of the clock each.\<close>

definition self_events :: "(nat \<Rightarrow> timestamp) \<Rightarrow> (nat \<Rightarrow> nat) \<Rightarrow> seed_self \<Rightarrow> event_payload list" where
  "self_events clock entropy seed =
     MemoryCreated (MemoryId (entropy 0)) (MemoryName SELF)
     # map (\<lambda>(i, text). MemoryContentAppended (MemoryId (entropy 0)) (EntryId (entropy (i + 1))) (clock i) None text
              Teller_Bootstrap None Visibility_Public)
         (enumerate 0 (sd_persona seed # sd_entries seed))"

text \<open>The \<open>BTreeMap\<close> of the versions, a later pair of a name winning.\<close>

definition template_versions :: "template_def list \<Rightarrow> (string \<times> nat) list" where
  "template_versions templates =
     (let pairs = map (\<lambda>t. (prompt_template_name_as_str (td_name t), td_version t)) templates
      in map (\<lambda>k. (k, the (map_of (rev pairs) k))) (sort (remdups (map fst pairs))))"

definition missing_events ::
  "(string \<Rightarrow> nat list) \<Rightarrow> (settings \<Rightarrow> serialized) \<Rightarrow> (nat \<Rightarrow> timestamp) \<Rightarrow> (nat \<Rightarrow> nat) \<Rightarrow> template_def list
    \<Rightarrow> seed_self \<Rightarrow> nat option \<Rightarrow> written \<Rightarrow> event_payload list" where
  "missing_events sha256 encode clock entropy templates seed context_length w =
     map (\<lambda>t. prompt_template_registered (td_name t) (td_version t) (td_body t))
       (filter (\<lambda>t. (td_name t, td_version t) \<notin> wr_templates w) templates)
     @ map (\<lambda>r. LinkTypeRegistered (rd_name r) (rd_inverse r) (rd_from_card r) (rd_to_card r) (rd_symmetric r)
              (rd_reflexive r) (rd_description r))
         (filter (\<lambda>r. relation_name_str (rd_name r) \<notin> wr_relations w) seed_relations)
     @ map (\<lambda>t. TagCreated (tag_name_new (gd_name t)) (gd_description t))
         (filter (\<lambda>t. gd_name t \<notin> wr_tags w) seed_tags)
     @ (if wr_config w then [] else [ConfigSet (encode (seed_settings context_length)) EventSource_Agent])
     @ (if wr_self w then [] else self_events clock entropy seed)
     @ [GenesisCompleted (manifest_hash sha256 seed templates) (template_versions templates)]"

definition rollout ::
  "'s reader \<Rightarrow> 's writer \<Rightarrow> (string \<Rightarrow> nat list) \<Rightarrow> (settings \<Rightarrow> serialized) \<Rightarrow> (nat \<Rightarrow> timestamp) \<Rightarrow> (nat \<Rightarrow> nat)
    \<Rightarrow> template_def list \<Rightarrow> seed_self \<Rightarrow> nat option \<Rightarrow> 's \<Rightarrow> (store_error, rollout_outcome) result \<times> 's" where
  "rollout read commit sha256 encode clock entropy templates seed context_length s =
     (case read s seq_zero of
        Inl e \<Rightarrow> (Inl e, s)
      | Inr existing \<Rightarrow>
          (if list_ex (\<lambda>e. is_genesis_completed (ev_payload e)) existing then (Inr Rollout_AlreadyComplete, s)
           else
             (let w = foldl note_written nothing_written (map ev_payload existing);
                  to_emit = missing_events sha256 encode clock entropy templates seed context_length w;
                  readings = (if wr_self w then 0 else length (sd_persona seed # sd_entries seed))
              in case commit s (clock readings) EventSource_Bootstrap to_emit of
                   (Inl e, s') \<Rightarrow> (Inl e, s')
                 | (Inr _, s') \<Rightarrow> (Inr (Rollout_Created (length to_emit)), s'))))"

section \<open>Creation and boot\<close>

datatype instance_fault = InstanceFault_Store store_error | InstanceFault_Graph fault

text \<open>\<open>create_agent\<close> and \<open>boot\<close>, up to the cursors of the background passes.\<close>

definition create_agent ::
  "'s reader \<Rightarrow> 's writer \<Rightarrow> jiff \<Rightarrow> (string \<Rightarrow> nat list) \<Rightarrow> (settings \<Rightarrow> serialized) \<Rightarrow> (nat \<Rightarrow> timestamp) \<Rightarrow> (nat \<Rightarrow> nat)
    \<Rightarrow> template_def list \<Rightarrow> seed_self \<Rightarrow> nat option \<Rightarrow> 's \<Rightarrow> graph \<Rightarrow> (instance_fault, rollout_outcome) result \<times> 's \<times> graph" where
  "create_agent read commit J sha256 encode clock entropy templates seed context_length s g =
     (case rollout read commit sha256 encode clock entropy templates seed context_length s of
        (Inl e, s') \<Rightarrow> (Inl (InstanceFault_Store e), s', g)
      | (Inr outcome, s') \<Rightarrow>
          (case materialize_from J (read s') g of
             Inl f \<Rightarrow> (Inl (InstanceFault_Graph f), s', g)
           | Inr (_, g') \<Rightarrow> (Inr outcome, s', g')))"

definition boot ::
  "'s reader \<Rightarrow> 's writer \<Rightarrow> jiff \<Rightarrow> template_def list \<Rightarrow> timestamp \<Rightarrow> 's \<Rightarrow> graph
    \<Rightarrow> (instance_fault, genesis_status) result \<times> 's \<times> graph" where
  "boot read commit J defaults t s g =
     (case genesis_status_of read s of
        Inl e \<Rightarrow> (Inl (InstanceFault_Store e), s, g)
      | Inr status \<Rightarrow>
          (let (r, s1) = (if status = GenesisStatus_Complete then reconcile_templates read commit defaults t s
                          else (Inr no_reconciliation, s))
           in case r of
                Inl e \<Rightarrow> (Inl (InstanceFault_Store e), s1, g)
              | Inr _ \<Rightarrow>
                  (case materialize_from J (read s1) g of
                     Inl f \<Rightarrow> (Inl (InstanceFault_Graph f), s1, g)
                   | Inr (_, g1) \<Rightarrow>
                       (case genesis_status_of read s1 of
                          Inl e \<Rightarrow> (Inl (InstanceFault_Store e), s1, g1)
                        | Inr status1 \<Rightarrow> (Inr status1, s1, g1)))))"

end
