(* ===== verification/Genesis_Facts.thy ===== *)
theory Genesis_Facts
  imports Genesis
begin

text \<open>
  What holds of genesis and of the upkeep of the prompts, over any store that keeps the laws of the event log: a
  reconciliation settles and never touches what an operator wrote, a rollout completes what is missing and is then a no-op.
\<close>

section \<open>Registrations\<close>

abbreviation registrations :: "event list \<Rightarrow> prompt_template_name \<rightharpoonup> latest_registration" where
  "registrations es \<equiv> foldl registration_step Map.empty es"

definition needs_default :: "(prompt_template_name \<rightharpoonup> latest_registration) \<Rightarrow> template_def \<Rightarrow> bool" where
  "needs_default m d \<longleftrightarrow>
     (case m (td_name d) of None \<Rightarrow> True | Some r \<Rightarrow> rg_source r = EventSource_Bootstrap \<and> rg_version r < td_version d)"

definition held_back :: "(prompt_template_name \<rightharpoonup> latest_registration) \<Rightarrow> template_def \<Rightarrow> bool" where
  "held_back m d \<longleftrightarrow>
     (case m (td_name d) of None \<Rightarrow> False
      | Some r \<Rightarrow> rg_source r \<noteq> EventSource_Bootstrap \<and> default_supersedes (td_version d) (td_body d) r)"

definition registered_default :: "template_def \<Rightarrow> latest_registration" where
  "registered_default d = \<lparr>rg_version = td_version d, rg_body = td_body d, rg_source = EventSource_Bootstrap\<rparr>"

definition default_payload :: "template_def \<Rightarrow> event_payload" where
  "default_payload d = prompt_template_registered (td_name d) (td_version d) (td_body d)"

lemma registration_step_default:
  "registration_step m \<lparr>ev_seq = n, ev_recorded_at = t, ev_source = src, ev_payload = default_payload d\<rparr>
   = (if (case m (td_name d) of None \<Rightarrow> True | Some r \<Rightarrow> rg_version r \<le> td_version d)
      then m(td_name d \<mapsto> \<lparr>rg_version = td_version d, rg_body = td_body d, rg_source = src\<rparr>) else m)"
  by (simp add: registration_step_def default_payload_def prompt_template_registered_def)

lemma reconcile_fold:
  "foldl reconcile_step (em, c) (map (assess m) ds)
   = (em @ map default_payload (filter (needs_default m) ds),
      c\<lparr>tr_backfilled := tr_backfilled c + length (filter (\<lambda>d. m (td_name d) = None) ds),
        tr_upgraded := tr_upgraded c + length (filter (\<lambda>d. m (td_name d) \<noteq> None \<and> needs_default m d) ds),
        tr_held_as_curated := tr_held_as_curated c + length (filter (held_back m) ds)\<rparr>)"
proof (induction ds arbitrary: em c)
  case (Cons d ds)
  then show ?case
    by (cases "m (td_name d)")
      (auto simp: reconcile_step_def assess_def is_absent_def is_curated_def default_is_newer_def upgrade_available_def
        register_default_def default_payload_def needs_default_def held_back_def)
qed simp

text \<open>The registrations after the missing defaults have been committed.\<close>

lemma registrations_reconciled:
  assumes "distinct (map td_name ds)" "\<And>d. d \<in> set ds \<Longrightarrow> m' (td_name d) = m (td_name d)"
  shows "foldl registration_step m' (stamp n t EventSource_Bootstrap (map default_payload (filter (needs_default m) ds))) x
    = (case find (\<lambda>d. td_name d = x \<and> needs_default m d) ds of Some d \<Rightarrow> Some (registered_default d) | None \<Rightarrow> m' x)"
  using assms
proof (induction ds arbitrary: m' n)
  case (Cons d ds)
  let ?m = "if needs_default m d then m'(td_name d \<mapsto> registered_default d) else m'"
  have step: "registration_step m' \<lparr>ev_seq = seq_next n, ev_recorded_at = t, ev_source = EventSource_Bootstrap, ev_payload = default_payload d\<rparr>
      = m'(td_name d \<mapsto> registered_default d)" if "needs_default m d"
    using that Cons.prems(2) [of d] unfolding registration_step_default
    by (auto simp: needs_default_def registered_default_def split: option.splits)
  have "?m (td_name e) = m (td_name e)" if "e \<in> set ds" for e
    using Cons.prems that by (auto simp: image_iff)
  from Cons.IH [OF _ this] Cons.prems(1)
  have IH: "foldl registration_step ?m (stamp k t EventSource_Bootstrap (map default_payload (filter (needs_default m) ds))) x
      = (case find (\<lambda>d. td_name d = x \<and> needs_default m d) ds of Some d \<Rightarrow> Some (registered_default d) | None \<Rightarrow> ?m x)" for k
    by simp
  have gone: "find (\<lambda>e. td_name e = td_name d \<and> needs_default m e) ds = None"
    using Cons.prems(1) by (auto simp: find_None_iff image_iff)
  show ?case
  proof (cases "needs_default m d")
    case True
    then show ?thesis using IH [of "seq_next n"] step gone by (auto split: option.split)
  next
    case False
    then show ?thesis using IH [of n] by simp
  qed
qed simp

lemma find_own:
  assumes "distinct (map td_name ds)" "d \<in> set ds"
  shows "find (\<lambda>e. td_name e = td_name d \<and> P e) ds = (if P d then Some d else None)"
  using assms
proof (induction ds)
  case (Cons e ds)
  show ?case
  proof (cases "e = d")
    case True
    then have "td_name d \<notin> td_name ` set ds" using Cons.prems(1) by simp
    then have "find (\<lambda>e. td_name e = td_name d \<and> P e) ds = None" by (auto simp: find_None_iff image_iff)
    with True show ?thesis by simp
  next
    case False
    with Cons.prems have "d \<in> set ds" "td_name e \<noteq> td_name d" by (auto simp: image_iff)
    with Cons show ?thesis by simp
  qed
qed simp

lemma settled_default:
  "\<not> needs_default (\<lambda>x. if x = td_name d \<and> needs_default m d then Some (registered_default d) else m x) d"
  by (auto simp: needs_default_def registered_default_def)

section \<open>Over a store that keeps the laws\<close>

context event_log begin

lemma reconcile_effect:
  assumes "log_inv s" "distinct (map td_name ds)" "\<And>d. d \<in> set ds \<Longrightarrow> storable t EventSource_Bootstrap (default_payload d)"
  defines "m \<equiv> registrations (log s)"
  shows "\<exists>s' es. reconcile_templates read_from append ds t s
      = (Inr \<lparr>tr_backfilled = length (filter (\<lambda>d. m (td_name d) = None) ds),
             tr_upgraded = length (filter (\<lambda>d. m (td_name d) \<noteq> None \<and> needs_default m d) ds),
             tr_held_as_curated = length (filter (held_back m) ds)\<rparr>, s')
    \<and> log_inv s' \<and> log s' = log s @ es \<and> set (map ev_payload es) \<subseteq> default_payload ` set ds \<and> (filter (needs_default m) ds = [] \<longrightarrow> s' = s)
    \<and> (\<forall>x. registrations (log s') x
         = (case find (\<lambda>d. td_name d = x \<and> needs_default m d) ds of Some d \<Rightarrow> Some (registered_default d) | None \<Rightarrow> m x))"
proof -
  let ?ps = "map default_payload (filter (needs_default m) ds)"
  have as: "assess_templates read_from ds s = Inr (map (assess m) ds)"
    by (simp add: assess_templates_def latest_registrations_def read_all [OF assms(1)] m_def)
  show ?thesis
  proof (cases "?ps = []")
    case True
    then have "find (\<lambda>d. td_name d = x \<and> needs_default m d) ds = None" for x by (auto simp: filter_empty_conv find_None_iff)
    with True show ?thesis using assms(1)
      by (intro exI [of _ s] exI [of _ "[]"])
        (simp add: reconcile_templates_def as reconcile_fold no_reconciliation_def m_def)
  next
    case False
    have "list_all (storable t EventSource_Bootstrap) ?ps" using assms(3) by (simp add: list_all_iff)
    from append_commits [OF assms(1) this] obtain s' where s':
      "append s t EventSource_Bootstrap ?ps = (Inr (stamp (length (log s)) t EventSource_Bootstrap ?ps), s')" "log_inv s'"
      "log s' = log s @ stamp (length (log s)) t EventSource_Bootstrap ?ps" by blast
    have "registrations (log s') x
        = (case find (\<lambda>d. td_name d = x \<and> needs_default m d) ds of Some d \<Rightarrow> Some (registered_default d) | None \<Rightarrow> m x)" for x
      using registrations_reconciled [OF assms(2), of m m] by (simp add: s'(3) m_def)
    with False s' show ?thesis
      by (intro exI [of _ s'] exI [of _ "stamp (length (log s)) t EventSource_Bootstrap ?ps"])
        (auto simp: reconcile_templates_def as reconcile_fold no_reconciliation_def)
  qed
qed

lemma reconcile_settles:
  assumes "log_inv s" "distinct (map td_name ds)" "\<forall>d \<in> set ds. \<forall>u \<in> {t, t'}. storable u EventSource_Bootstrap (default_payload d)"
  shows "\<exists>s' es c. reconcile_templates read_from append ds t s = (Inr c, s') \<and> log_inv s' \<and> log s' = log s @ es
    \<and> set (map ev_payload es) \<subseteq> default_payload ` set ds
    \<and> (\<forall>x r. registrations (log s) x = Some r \<and> rg_source r \<noteq> EventSource_Bootstrap \<longrightarrow> registrations (log s') x = Some r)
    \<and> (\<forall>d \<in> set ds. \<exists>r. registrations (log s') (td_name d) = Some r
         \<and> (rg_source r = EventSource_Bootstrap \<longrightarrow> td_version d \<le> rg_version r))
    \<and> reconcile_templates read_from append ds t' s' = (Inr (c\<lparr>tr_backfilled := 0, tr_upgraded := 0\<rparr>), s')"
proof -
  let ?m = "registrations (log s)"
  define c where "c = \<lparr>tr_backfilled = length (filter (\<lambda>d. ?m (td_name d) = None) ds),
    tr_upgraded = length (filter (\<lambda>d. ?m (td_name d) \<noteq> None \<and> needs_default ?m d) ds),
    tr_held_as_curated = length (filter (held_back ?m) ds)\<rparr>"
  have st: "\<And>d. d \<in> set ds \<Longrightarrow> storable t EventSource_Bootstrap (default_payload d)"
    "\<And>d. d \<in> set ds \<Longrightarrow> storable t' EventSource_Bootstrap (default_payload d)" using assms(3) by blast+
  from reconcile_effect [OF assms(1,2) st(1), folded c_def] obtain s' es where
    first: "reconcile_templates read_from append ds t s = (Inr c, s')" "log_inv s'" "log s' = log s @ es"
      "set (map ev_payload es) \<subseteq> default_payload ` set ds" and
    regs: "\<And>x. registrations (log s') x
         = (case find (\<lambda>d. td_name d = x \<and> needs_default ?m d) ds of Some d \<Rightarrow> Some (registered_default d) | None \<Rightarrow> ?m x)"
    by blast
  have own: "registrations (log s') (td_name d) = (if needs_default ?m d then Some (registered_default d) else ?m (td_name d))"
    if "d \<in> set ds" for d
    using that by (simp add: regs find_own [OF assms(2)])
  have settled: "\<not> needs_default (registrations (log s')) d" "held_back (registrations (log s')) d = held_back ?m d"
    "registrations (log s') (td_name d) \<noteq> None" if "d \<in> set ds" for d
    using own [OF that]
    by (auto simp: needs_default_def held_back_def registered_default_def split: option.splits if_splits)
  have curated: "registrations (log s') x = Some r" if "?m x = Some r" "rg_source r \<noteq> EventSource_Bootstrap" for x r
  proof -
    have "find (\<lambda>d. td_name d = x \<and> needs_default ?m d) ds = None"
      using that by (auto simp: find_None_iff needs_default_def)
    with that(1) show ?thesis by (simp add: regs)
  qed
  have current: "\<exists>r. registrations (log s') (td_name d) = Some r
         \<and> (rg_source r = EventSource_Bootstrap \<longrightarrow> td_version d \<le> rg_version r)" if "d \<in> set ds" for d
    using settled [OF that] by (auto simp: needs_default_def)
  from reconcile_effect [OF first(2) assms(2) st(2)] obtain s'' where
    "reconcile_templates read_from append ds t' s'
      = (Inr \<lparr>tr_backfilled = length (filter (\<lambda>d. registrations (log s') (td_name d) = None) ds),
             tr_upgraded = length (filter (\<lambda>d. registrations (log s') (td_name d) \<noteq> None \<and> needs_default (registrations (log s')) d) ds),
             tr_held_as_curated = length (filter (held_back (registrations (log s'))) ds)\<rparr>, s'')"
    "filter (needs_default (registrations (log s'))) ds = [] \<longrightarrow> s'' = s'" by blast
  moreover have "filter (needs_default (registrations (log s'))) ds = []"
    "filter (\<lambda>d. registrations (log s') (td_name d) = None) ds = []"
    "filter (\<lambda>d. registrations (log s') (td_name d) \<noteq> None \<and> needs_default (registrations (log s')) d) ds = []"
    "filter (held_back (registrations (log s'))) ds = filter (held_back ?m) ds"
    using settled by (auto simp: filter_empty_conv intro: filter_cong)
  ultimately have "reconcile_templates read_from append ds t' s' = (Inr (c\<lparr>tr_backfilled := 0, tr_upgraded := 0\<rparr>), s')"
    by (simp add: c_def)
  with first curated current show ?thesis by blast
qed

end

section \<open>What a rollout writes\<close>

definition templates_of :: "event_payload \<Rightarrow> (prompt_template_name \<times> nat) set" where
  "templates_of p = (case p of PromptTemplateRegistered name version _ _ \<Rightarrow> {(name, version)} | _ \<Rightarrow> {})"

definition relations_of :: "event_payload \<Rightarrow> string set" where
  "relations_of p = (case p of LinkTypeRegistered name _ _ _ _ _ _ \<Rightarrow> {relation_name_str name} | _ \<Rightarrow> {})"

definition tags_of :: "event_payload \<Rightarrow> string set" where
  "tags_of p = (case p of TagCreated name _ \<Rightarrow> {tag_name_str name} | _ \<Rightarrow> {})"

definition sets_config :: "event_payload \<Rightarrow> bool" where
  "sets_config p \<longleftrightarrow> (case p of ConfigSet _ _ \<Rightarrow> True | _ \<Rightarrow> False)"

definition creates_self :: "event_payload \<Rightarrow> bool" where
  "creates_self p \<longleftrightarrow> (case p of MemoryCreated _ name \<Rightarrow> is_self name | _ \<Rightarrow> False)"

lemmas payload_parts = templates_of_def relations_of_def tags_of_def sets_config_def creates_self_def

lemma note_written_fields:
  "wr_templates (note_written w p) = wr_templates w \<union> templates_of p"
  "wr_relations (note_written w p) = wr_relations w \<union> relations_of p"
  "wr_tags (note_written w p) = wr_tags w \<union> tags_of p"
  "wr_config (note_written w p) \<longleftrightarrow> wr_config w \<or> sets_config p"
  "wr_self (note_written w p) \<longleftrightarrow> wr_self w \<or> creates_self p"
  by (simp_all add: note_written_def payload_parts split: event_payload.split)

lemma written_all:
  "wr_templates (foldl note_written w ps) = wr_templates w \<union> (\<Union>p \<in> set ps. templates_of p)"
  "wr_relations (foldl note_written w ps) = wr_relations w \<union> (\<Union>p \<in> set ps. relations_of p)"
  "wr_tags (foldl note_written w ps) = wr_tags w \<union> (\<Union>p \<in> set ps. tags_of p)"
  "wr_config (foldl note_written w ps) \<longleftrightarrow> wr_config w \<or> (\<exists>p \<in> set ps. sets_config p)"
  "wr_self (foldl note_written w ps) \<longleftrightarrow> wr_self w \<or> (\<exists>p \<in> set ps. creates_self p)"
  by (induction ps arbitrary: w) (auto simp: note_written_fields)

definition seeds_written :: "template_def list \<Rightarrow> written \<Rightarrow> bool" where
  "seeds_written templates w \<longleftrightarrow>
     (\<forall>t \<in> set templates. (td_name t, td_version t) \<in> wr_templates w)
     \<and> (\<forall>r \<in> set seed_relations. relation_name_str (rd_name r) \<in> wr_relations w)
     \<and> (\<forall>t \<in> set seed_tags. gd_name t \<in> wr_tags w) \<and> wr_config w \<and> wr_self w"

lemma missing_completes:
  "seeds_written templates (foldl note_written w (missing_events sha256 encode clock entropy templates seed context_length w))"
proof -
  let ?ps = "missing_events sha256 encode clock entropy templates seed context_length w"
  have "(td_name t, td_version t) \<in> wr_templates w \<union> (\<Union>p \<in> set ?ps. templates_of p)" if "t \<in> set templates" for t
  proof (cases "(td_name t, td_version t) \<in> wr_templates w")
    case False
    with that have "prompt_template_registered (td_name t) (td_version t) (td_body t) \<in> set ?ps" by (auto simp: missing_events_def)
    then show ?thesis by (force simp: templates_of_def prompt_template_registered_def)
  qed simp
  moreover have "relation_name_str (rd_name r) \<in> wr_relations w \<union> (\<Union>p \<in> set ?ps. relations_of p)" if "r \<in> set seed_relations" for r
  proof (cases "relation_name_str (rd_name r) \<in> wr_relations w")
    case False
    with that have "LinkTypeRegistered (rd_name r) (rd_inverse r) (rd_from_card r) (rd_to_card r) (rd_symmetric r) (rd_reflexive r) (rd_description r) \<in> set ?ps"
      by (auto simp: missing_events_def)
    then show ?thesis by (force simp: relations_of_def)
  qed simp
  moreover have "gd_name t \<in> wr_tags w \<union> (\<Union>p \<in> set ?ps. tags_of p)" if "t \<in> set seed_tags" for t
  proof (cases "gd_name t \<in> wr_tags w")
    case False
    with that have "TagCreated (tag_name_new (gd_name t)) (gd_description t) \<in> set ?ps" by (auto simp: missing_events_def)
    then show ?thesis by (force simp: tags_of_def tag_lens.render_recognize)
  qed simp
  moreover have "wr_config w \<or> (\<exists>p \<in> set ?ps. sets_config p)" by (auto simp: missing_events_def sets_config_def)
  moreover have "wr_self w \<or> (\<exists>p \<in> set ?ps. creates_self p)" by (auto simp: missing_events_def self_events_def creates_self_def is_self_def)
  ultimately show ?thesis unfolding seeds_written_def written_all by blast
qed

text \<open>Whatever a rollout emits beside the entries of the agent and the mark of its end was not there.\<close>

lemma missing_is_missing:
  assumes "p \<in> set (missing_events sha256 encode clock entropy templates seed context_length w)"
  shows "is_genesis_completed p \<or> (\<exists>i e t tx. p = MemoryContentAppended i e t None tx Teller_Bootstrap None Visibility_Public) \<or> note_written w p \<noteq> w"
proof -
  have grown: "note_written w p \<noteq> w" if "f (note_written w p) \<noteq> f w" for f :: "written \<Rightarrow> 'b" using that by auto
  from assms consider
      (templates) "p \<in> set (map (\<lambda>t. prompt_template_registered (td_name t) (td_version t) (td_body t))
         (filter (\<lambda>t. (td_name t, td_version t) \<notin> wr_templates w) templates))"
    | (relations) "p \<in> set (map (\<lambda>r. LinkTypeRegistered (rd_name r) (rd_inverse r) (rd_from_card r) (rd_to_card r) (rd_symmetric r)
           (rd_reflexive r) (rd_description r)) (filter (\<lambda>r. relation_name_str (rd_name r) \<notin> wr_relations w) seed_relations))"
    | (tags) "p \<in> set (map (\<lambda>t. TagCreated (tag_name_new (gd_name t)) (gd_description t)) (filter (\<lambda>t. gd_name t \<notin> wr_tags w) seed_tags))"
    | (config) "p \<in> set [ConfigSet (encode (seed_settings context_length)) EventSource_Agent]" "\<not> wr_config w"
    | (own) "p \<in> set (self_events clock entropy seed)" "\<not> wr_self w"
    | (completed) "is_genesis_completed p"
    unfolding missing_events_def set_append Un_iff by (auto split: if_splits)
  then show ?thesis
  proof cases
    case templates
    then obtain t where "templates_of p = {t}" "t \<notin> wr_templates w"
      by (auto simp: templates_of_def prompt_template_registered_def)
    then have "wr_templates (note_written w p) \<noteq> wr_templates w" unfolding note_written_fields by blast
    then show ?thesis by auto
  next
    case relations
    then obtain r where "relations_of p = {r}" "r \<notin> wr_relations w" by (auto simp: relations_of_def)
    then have "wr_relations (note_written w p) \<noteq> wr_relations w" unfolding note_written_fields by blast
    then show ?thesis by auto
  next
    case tags
    then obtain t where "tags_of p = {t}" "t \<notin> wr_tags w" by (auto simp: tags_of_def tag_lens.render_recognize)
    then have "wr_tags (note_written w p) \<noteq> wr_tags w" unfolding note_written_fields by blast
    then show ?thesis by auto
  next
    case config
    then have "wr_config (note_written w p) \<noteq> wr_config w" by (auto simp: note_written_fields sets_config_def)
    then show ?thesis by auto
  next
    case own
    then consider "p = MemoryCreated (MemoryId (entropy 0)) (MemoryName SELF)"
      | i e t tx where "p = MemoryContentAppended i e t None tx Teller_Bootstrap None Visibility_Public"
      by (auto simp: self_events_def)
    then show ?thesis
    proof cases
      case 1
      with own have "wr_self (note_written w p) \<noteq> wr_self w" by (auto simp: note_written_fields creates_self_def is_self_def)
      then show ?thesis by auto
    qed blast
  qed simp
qed

context event_log begin

lemma status_of: "log_inv s \<Longrightarrow> genesis_status_of read_from s = Inr (if log s = [] then GenesisStatus_Empty
    else if list_ex is_genesis_completed (map ev_payload (log s)) then GenesisStatus_Complete else GenesisStatus_Incomplete)"
  by (simp add: genesis_status_of_def read_all list_ex_iff)

lemma rollout_effect:
  assumes "log_inv s" "\<not> list_ex is_genesis_completed (map ev_payload (log s))"
    and w: "w = foldl note_written nothing_written (map ev_payload (log s))"
    and ps: "ps = missing_events sha256 encode clock entropy templates seed context_length w"
    and storable: "\<forall>k. \<forall>p \<in> set ps. storable (clock k) EventSource_Bootstrap p"
  shows "\<exists>t s'. rollout read_from append sha256 encode clock entropy templates seed context_length s = (Inr (Rollout_Created (length ps)), s')
    \<and> log_inv s' \<and> log s' = log s @ stamp (length (log s)) t EventSource_Bootstrap ps"
proof -
  let ?t = "clock (if wr_self w then 0 else length (sd_persona seed # sd_entries seed))"
  have "list_all (storable ?t EventSource_Bootstrap) ps" using storable by (simp add: list_all_iff)
  from append_commits [OF assms(1) this] obtain s' where s':
    "append s ?t EventSource_Bootstrap ps = (Inr (stamp (length (log s)) ?t EventSource_Bootstrap ps), s')" "log_inv s'"
    "log s' = log s @ stamp (length (log s)) ?t EventSource_Bootstrap ps" by blast
  have "\<not> list_ex (\<lambda>e. is_genesis_completed (ev_payload e)) (log s)" using assms(2) by (simp add: list_ex_iff)
  then have "rollout read_from append sha256 encode clock entropy templates seed context_length s = (Inr (Rollout_Created (length ps)), s')"
    using s'(1) [unfolded ps w] by (simp add: rollout_def read_all [OF assms(1)] Let_def ps w)
  with s'(2,3) show ?thesis by blast
qed

lemma rollout_born:
  assumes "log_inv s" "list_ex is_genesis_completed (map ev_payload (log s))"
  shows "rollout read_from append sha256 encode clock entropy templates seed context_length s = (Inr Rollout_AlreadyComplete, s)"
  using assms by (simp add: rollout_def read_all list_ex_iff)

lemma rollout_completes:
  assumes "log_inv s" "\<not> list_ex is_genesis_completed (map ev_payload (log s))"
    and w: "w = foldl note_written nothing_written (map ev_payload (log s))"
    and storable: "\<forall>k. \<forall>p \<in> set (missing_events sha256 encode clock entropy templates seed context_length w). storable (clock k) EventSource_Bootstrap p"
  shows "\<exists>es s'. rollout read_from append sha256 encode clock entropy templates seed context_length s = (Inr (Rollout_Created (length es)), s')
    \<and> log s' = log s @ es \<and> genesis_status_of read_from s' = Inr GenesisStatus_Complete
    \<and> seeds_written templates (foldl note_written nothing_written (map ev_payload (log s')))
    \<and> (\<forall>e \<in> set es. is_genesis_completed (ev_payload e) \<or> note_written w (ev_payload e) \<noteq> w
         \<or> (\<exists>i n t tx. ev_payload e = MemoryContentAppended i n t None tx Teller_Bootstrap None Visibility_Public))
    \<and> ev_payload (last (log s')) = GenesisCompleted (manifest_hash sha256 seed templates) (template_versions templates)
    \<and> rollout read_from append sha256 encode clock' entropy' templates' seed' context_length' s' = (Inr Rollout_AlreadyComplete, s')"
proof -
  let ?ps = "missing_events sha256 encode clock entropy templates seed context_length w"
  from rollout_effect [where ?sha256.0 = sha256 and encode = encode and clock = clock and entropy = entropy
      and templates = templates and seed = seed and context_length = context_length, OF assms(1,2) w refl storable] obtain t s' where s':
    "rollout read_from append sha256 encode clock entropy templates seed context_length s = (Inr (Rollout_Created (length ?ps)), s')"
    "log_inv s'" "log s' = log s @ stamp (length (log s)) t EventSource_Bootstrap ?ps" by blast
  let ?es = "stamp (length (log s)) t EventSource_Bootstrap ?ps"
  have ps: "map ev_payload (log s') = map ev_payload (log s) @ ?ps" by (simp add: s'(3))
  have fin: "list_ex is_genesis_completed ?ps" by (simp add: missing_events_def)
  then have born: "list_ex is_genesis_completed (map ev_payload (log s'))" unfolding ps by simp
  have full: "log s' \<noteq> []" using born by auto
  have "genesis_status_of read_from s' = Inr GenesisStatus_Complete" by (simp only: status_of [OF s'(2)] full born if_True if_False)
  moreover have "seeds_written templates (foldl note_written nothing_written (map ev_payload (log s')))"
    unfolding ps foldl_append by (simp only: w [symmetric] missing_completes)
  moreover have "is_genesis_completed (ev_payload e) \<or> note_written w (ev_payload e) \<noteq> w
         \<or> (\<exists>i n t tx. ev_payload e = MemoryContentAppended i n t None tx Teller_Bootstrap None Visibility_Public)" if "e \<in> set ?es" for e
  proof -
    have "ev_payload e \<in> set ?ps" using that by (metis image_eqI list.set_map payloads_stamp)
    from missing_is_missing [OF this] show ?thesis by blast
  qed
  moreover have "ev_payload (last (log s')) = GenesisCompleted (manifest_hash sha256 seed templates) (template_versions templates)"
  proof -
    have "ev_payload (last (log s')) = last (map ev_payload (log s'))" using full by (simp add: last_map)
    then show ?thesis unfolding ps by (simp add: missing_events_def)
  qed
  moreover have "rollout read_from append sha256 encode clock' entropy' templates' seed' context_length' s' = (Inr Rollout_AlreadyComplete, s')"
    by (rule rollout_born [OF s'(2) born])
  ultimately show ?thesis using s'(1,3) by (intro exI [of _ ?es] exI [of _ s']) (simp only: length_stamp simp_thms Ball_def, blast)
qed

end

end
