(* ===== verification/Genesis_Born.thy ===== *)
theory Genesis_Born
  imports Genesis_Facts Sample_Log
begin

text \<open>
  A rollout and its projection: the log of a newborn agent folds to a graph that holds its own memory, and a boot brings prompts and
  graph to a point a second boot leaves alone. Then the properties of genesis and their instances.
\<close>

section \<open>Folding the seeds\<close>

text \<open>The events that leave memories, entries, attestations and tags alone.\<close>

definition memoryless :: "event_payload \<Rightarrow> bool" where
  "memoryless p \<longleftrightarrow>
     (case p of PromptTemplateRegistered _ _ _ _ \<Rightarrow> True | LinkTypeRegistered _ _ _ _ _ _ _ \<Rightarrow> True | ConfigSet _ _ \<Rightarrow> True | _ \<Rightarrow> False)"

definition same_memory :: "graph \<Rightarrow> graph \<Rightarrow> bool" where
  "same_memory g g' \<longleftrightarrow> memories g' = memories g \<and> content_entries g' = content_entries g
     \<and> entry_attestations g' = entry_attestations g \<and> tags g' = tags g"

lemma memoryless_step: "memoryless (ev_payload e) \<Longrightarrow> \<exists>g'. apply_event J e g = Inr g' \<and> same_memory g g'"
  by (cases "ev_payload e")
    (simp_all add: memoryless_def apply_event_def apply_payload_def apply_link_type_registered_def upsert_relation_def same_memory_def)

lemma memoryless_fold: "list_all memoryless (map ev_payload es) \<Longrightarrow> \<exists>g'. foldM (apply_event J) es g = Inr g' \<and> same_memory g g'"
proof (induction es arbitrary: g)
  case (Cons e es)
  from Cons.prems memoryless_step [of e J g] obtain g1 where g1: "apply_event J e g = Inr g1" "same_memory g g1" by auto
  from Cons.IH [of g1] Cons.prems obtain g' where "foldM (apply_event J) es g1 = Inr g'" "same_memory g1 g'" by auto
  with g1 show ?case by (auto simp: same_memory_def)
qed (simp add: same_memory_def)

text \<open>The entries of the agent.\<close>

definition own_entry :: "memory_id \<Rightarrow> entry_id \<times> timestamp \<times> string \<Rightarrow> event_payload" where
  "own_entry i = (\<lambda>(e, t, text). MemoryContentAppended i e t None text Teller_Bootstrap None Visibility_Public)"

abbreviation entry_seen :: "entry_row \<Rightarrow> memory_id \<times> string \<times> teller \<times> visibility \<times> entry_id option" where
  "entry_seen r \<equiv> (e_memory r, e_text r, e_told_by r, e_visibility r, e_superseded_by r)"

definition attestations_owned :: "graph \<Rightarrow> bool" where
  "attestations_owned g \<longleftrightarrow> a_entry ` set (entry_attestations g) \<subseteq> set (entry_ids g)"

lemma own_entry_step:
  assumes "ev_payload e = own_entry i (x, t, tx)" "x \<notin> set (entry_ids g)" "i \<in> set (memory_ids g)" "attestations_owned g"
  shows "\<exists>g'. apply_event J e g = Inr g' \<and> map (\<lambda>r. (m_id r, m_name r)) (memories g') = map (\<lambda>r. (m_id r, m_name r)) (memories g)
    \<and> entry_ids g' = entry_ids g @ [x] \<and> attestations_owned g'
    \<and> map entry_seen (content_entries g') = map entry_seen (content_entries g) @ [(i, tx, Teller_Bootstrap, Visibility_Public, None)]"
proof -
  have "(x, Teller_Bootstrap) \<notin> attestation_key ` set (entry_attestations g)"
    using assms(2,4) by (auto simp: attestation_key_def attestations_owned_def)
  with assms show ?thesis
    by (auto simp: own_entry_def apply_event_def apply_payload_def apply_content_appended_def occurrence_bounds_of_def
        bounds_default_def insert_entry_def insert_attestation_def require_def attestation_key_def attestation_refs_ok_def
        founding_row_def set_occurrence_def entry_ids_def memory_ids_def update_memories_def update_where_def update_fts_def
        attestations_owned_def Let_def)
qed

lemma own_entries_fold:
  assumes "map ev_payload es = map (own_entry i) xs" "distinct (map fst xs)" "set (map fst xs) \<inter> set (entry_ids g) = {}"
    and "i \<in> set (memory_ids g)" "attestations_owned g"
  shows "\<exists>g'. foldM (apply_event J) es g = Inr g' \<and> map (\<lambda>r. (m_id r, m_name r)) (memories g') = map (\<lambda>r. (m_id r, m_name r)) (memories g)
    \<and> map entry_seen (content_entries g')
      = map entry_seen (content_entries g) @ map (\<lambda>x. (i, snd (snd x), Teller_Bootstrap, Visibility_Public, None)) xs"
  using assms
proof (induction xs arbitrary: es g)
  case (Cons x xs)
  obtain k t tx where x: "x = (k, t, tx)" by (cases x)
  from Cons.prems(1) obtain e rest where es: "es = e # rest" "ev_payload e = own_entry i (k, t, tx)" "map ev_payload rest = map (own_entry i) xs"
    by (auto simp: x map_eq_Cons_conv)
  from own_entry_step [OF es(2), of g J] Cons.prems obtain g1 where
    g1: "apply_event J e g = Inr g1" "map (\<lambda>r. (m_id r, m_name r)) (memories g1) = map (\<lambda>r. (m_id r, m_name r)) (memories g)"
    "entry_ids g1 = entry_ids g @ [k]" "attestations_owned g1"
    "map entry_seen (content_entries g1) = map entry_seen (content_entries g) @ [(i, tx, Teller_Bootstrap, Visibility_Public, None)]"
    by (auto simp: x)
  have "memory_ids g1 = memory_ids g" using arg_cong [OF g1(2), of "map fst"] by (simp add: memory_ids_def comp_def)
  with Cons.prems g1 have "distinct (map fst xs)" "set (map fst xs) \<inter> set (entry_ids g1) = {}" "i \<in> set (memory_ids g1)"
    by (auto simp: x)
  from Cons.IH [OF es(3) this g1(4)] obtain g' where "foldM (apply_event J) rest g1 = Inr g'"
    "map (\<lambda>r. (m_id r, m_name r)) (memories g') = map (\<lambda>r. (m_id r, m_name r)) (memories g1)"
    "map entry_seen (content_entries g')
      = map entry_seen (content_entries g1) @ map (\<lambda>x. (i, snd (snd x), Teller_Bootstrap, Visibility_Public, None)) xs"
    by blast
  with g1 es show ?case by (simp add: x)
qed simp

section \<open>A newborn agent\<close>

definition seed_entries :: "(nat \<Rightarrow> timestamp) \<Rightarrow> (nat \<Rightarrow> nat) \<Rightarrow> seed_self \<Rightarrow> (entry_id \<times> timestamp \<times> string) list" where
  "seed_entries clock entropy seed = map (\<lambda>(i, tx). (EntryId (entropy (i + 1)), clock i, tx)) (enumerate 0 (sd_persona seed # sd_entries seed))"

lemma self_events_entries:
  "self_events clock entropy seed
   = MemoryCreated (MemoryId (entropy 0)) (MemoryName SELF) # map (own_entry (MemoryId (entropy 0))) (seed_entries clock entropy seed)"
  by (auto simp: self_events_def seed_entries_def own_entry_def)

lemma seed_entries_ids: "map fst (seed_entries clock entropy seed) = map EntryId (map entropy [1..<length (sd_entries seed) + 2])"
proof -
  let ?en = "enumerate 0 (sd_persona seed # sd_entries seed)"
  have "map fst (map (\<lambda>(i, tx). (EntryId (entropy (i + 1)), clock i, tx)) en) = map EntryId (map entropy (map Suc (map fst en)))"
    for en :: "(nat \<times> string) list" by (induction en) auto
  then have "map fst (seed_entries clock entropy seed) = map EntryId (map entropy (map Suc (map fst ?en)))"
    unfolding seed_entries_def .
  also have "map fst ?en = [0..<length (sd_entries seed) + 1]" unfolding map_fst_enumerate by simp
  also have "map Suc [0..<length (sd_entries seed) + 1] = [1..<length (sd_entries seed) + 2]" unfolding map_Suc_upt by simp
  finally show ?thesis .
qed

lemma seed_entries_texts: "map (\<lambda>x. snd (snd x)) (seed_entries clock entropy seed) = sd_persona seed # sd_entries seed"
proof -
  have "map (\<lambda>x. snd (snd x)) (seed_entries clock entropy seed) = map snd (enumerate 0 (sd_persona seed # sd_entries seed))"
    by (simp add: seed_entries_def split_beta comp_def del: enumerate_simps)
  then show ?thesis by (simp del: enumerate_simps)
qed

text \<open>The batch of a first rollout, cut at the marks of the fold.\<close>

lemma fresh_batch:
  obtains A C where
    "missing_events sha256 encode clock entropy templates seed n nothing_written
       = A @ [TagCreated (tag_name_new ''confidential'') (gd_description (hd seed_tags))] @ [ConfigSet (encode (seed_settings n)) EventSource_Agent]
         @ [MemoryCreated (MemoryId (entropy 0)) (MemoryName SELF)]
         @ map (own_entry (MemoryId (entropy 0))) (seed_entries clock entropy seed) @ [C]"
    "list_all memoryless A" "list_all (\<lambda>p. \<not> sets_config p) A" "is_genesis_completed C"
proof (rule that)
  let ?A = "map (\<lambda>t. prompt_template_registered (td_name t) (td_version t) (td_body t)) templates
     @ map (\<lambda>r. LinkTypeRegistered (rd_name r) (rd_inverse r) (rd_from_card r) (rd_to_card r) (rd_symmetric r) (rd_reflexive r) (rd_description r))
         seed_relations"
  show "missing_events sha256 encode clock entropy templates seed n nothing_written
       = ?A @ [TagCreated (tag_name_new ''confidential'') (gd_description (hd seed_tags))] @ [ConfigSet (encode (seed_settings n)) EventSource_Agent]
         @ [MemoryCreated (MemoryId (entropy 0)) (MemoryName SELF)]
         @ map (own_entry (MemoryId (entropy 0))) (seed_entries clock entropy seed)
         @ [GenesisCompleted (manifest_hash sha256 seed templates) (template_versions templates)]"
    by (simp add: missing_events_def nothing_written_def self_events_entries seed_tags_def)
  show "list_all memoryless ?A" "list_all (\<lambda>p. \<not> sets_config p) ?A"
    by (auto simp: list_all_iff memoryless_def sets_config_def prompt_template_registered_def)
qed simp

lemma stamp_append: "stamp n t src (ps @ qs) = stamp n t src ps @ stamp (n + length ps) t src qs"
  by (induction ps arbitrary: n) (simp_all add: seq_next_def)

lemma newborn_folds:
  assumes "distinct (map entropy [1..<length (sd_entries seed) + 2])"
  shows "\<exists>g. foldM (apply_event J) (stamp 0 t EventSource_Bootstrap (missing_events sha256 encode clock entropy templates seed n nothing_written)) empty_graph = Inr g
    \<and> map (\<lambda>r. (m_id r, m_name r)) (memories g) = [(MemoryId (entropy 0), SELF)]
    \<and> map entry_seen (content_entries g)
        = map (\<lambda>tx. (MemoryId (entropy 0), tx, Teller_Bootstrap, Visibility_Public, None)) (sd_persona seed # sd_entries seed)
    \<and> (\<forall>r \<in> set (memories g). m_last_described_seq r = m_last_content_seq r)"
proof -
  let ?i = "MemoryId (entropy 0)"
  let ?xs = "seed_entries clock entropy seed"
  obtain A C where ps: "missing_events sha256 encode clock entropy templates seed n nothing_written
       = A @ [TagCreated (tag_name_new ''confidential'') (gd_description (hd seed_tags))] @ [ConfigSet (encode (seed_settings n)) EventSource_Agent]
         @ [MemoryCreated ?i (MemoryName SELF)] @ map (own_entry ?i) ?xs @ [C]"
    and A: "list_all memoryless A" and C: "is_genesis_completed C" by (rule fresh_batch)
  obtain hash versions where C: "C = GenesisCompleted hash versions" using C by (cases C) auto
  from memoryless_fold [of "stamp 0 t EventSource_Bootstrap A" J empty_graph] A obtain g1 where
    g1: "foldM (apply_event J) (stamp 0 t EventSource_Bootstrap A) empty_graph = Inr g1" "same_memory empty_graph g1" by auto
  have "\<exists>g2. apply_event J \<lparr>ev_seq = k, ev_recorded_at = t, ev_source = EventSource_Bootstrap,
        ev_payload = TagCreated (tag_name_new ''confidential'') (gd_description (hd seed_tags))\<rparr> g1 = Inr g2
      \<and> memories g2 = [] \<and> content_entries g2 = [] \<and> entry_attestations g2 = []" for k
    using g1(2) by (simp add: apply_event_def apply_payload_def apply_tag_created_def insert_tag_def require_def same_memory_def empty_graph_def)
  then obtain g2 where g2: "apply_event J \<lparr>ev_seq = seq_next (length A), ev_recorded_at = t, ev_source = EventSource_Bootstrap,
        ev_payload = TagCreated (tag_name_new ''confidential'') (gd_description (hd seed_tags))\<rparr> g1 = Inr g2"
      "memories g2 = []" "content_entries g2 = []" "entry_attestations g2 = []" by blast
  have "\<exists>g3. apply_event J \<lparr>ev_seq = k, ev_recorded_at = t, ev_source = EventSource_Bootstrap,
        ev_payload = ConfigSet (encode (seed_settings n)) EventSource_Agent\<rparr> g2 = Inr g3 \<and> same_memory g2 g3" for k
    by (rule memoryless_step) (simp add: memoryless_def)
  then obtain g3 where g3: "apply_event J \<lparr>ev_seq = seq_next (seq_next (length A)), ev_recorded_at = t, ev_source = EventSource_Bootstrap,
        ev_payload = ConfigSet (encode (seed_settings n)) EventSource_Agent\<rparr> g2 = Inr g3" "same_memory g2 g3" by blast
  have "\<exists>g4. apply_event J \<lparr>ev_seq = k, ev_recorded_at = t, ev_source = EventSource_Bootstrap, ev_payload = MemoryCreated ?i (MemoryName SELF)\<rparr> g3 = Inr g4
      \<and> map (\<lambda>r. (m_id r, m_name r)) (memories g4) = [(?i, SELF)] \<and> content_entries g4 = [] \<and> entry_attestations g4 = []" for k
    using g2 g3 by (simp add: apply_event_def apply_payload_def apply_memory_created_def insert_memory_def require_def same_memory_def memory_ids_def)
  from this [of "seq_next (seq_next (seq_next (length A)))"] obtain g4 where g4: "apply_event J \<lparr>ev_seq = seq_next (seq_next (seq_next (length A))), ev_recorded_at = t,
        ev_source = EventSource_Bootstrap, ev_payload = MemoryCreated ?i (MemoryName SELF)\<rparr> g3 = Inr g4"
      "map (\<lambda>r. (m_id r, m_name r)) (memories g4) = [(?i, SELF)]" "content_entries g4 = []" "entry_attestations g4 = []"
    by (elim exE conjE) (rule that)
  have "inj_on EntryId X" for X by (rule inj_onI) simp
  then have ids: "distinct (map fst ?xs)"
    by (subst seed_entries_ids, subst distinct_map, intro conjI) (rule assms)
  let ?es = "stamp (length A + 3) t EventSource_Bootstrap (map (own_entry ?i) ?xs)"
  have "\<exists>g5. foldM (apply_event J) ?es g4 = Inr g5 \<and> map (\<lambda>r. (m_id r, m_name r)) (memories g5) = map (\<lambda>r. (m_id r, m_name r)) (memories g4)
      \<and> map entry_seen (content_entries g5) = map entry_seen (content_entries g4) @ map (\<lambda>x. (?i, snd (snd x), Teller_Bootstrap, Visibility_Public, None)) ?xs"
  proof (rule own_entries_fold [OF payloads_stamp ids])
    show "?i \<in> set (memory_ids g4)" using arg_cong [OF g4(2), of "map fst"] by (simp add: memory_ids_def comp_def)
  qed (simp_all add: g4 entry_ids_def attestations_owned_def)
  then obtain g5 where g5: "foldM (apply_event J) ?es g4 = Inr g5" "map (\<lambda>r. (m_id r, m_name r)) (memories g5) = [(?i, SELF)]"
    "map entry_seen (content_entries g5) = map (\<lambda>x. (?i, snd (snd x), Teller_Bootstrap, Visibility_Public, None)) ?xs"
    using g4 by auto
  have "map (\<lambda>x. (?i, snd (snd x), Teller_Bootstrap, Visibility_Public, None :: entry_id option)) ?xs
      = map (\<lambda>tx. (?i, tx, Teller_Bootstrap, Visibility_Public, None)) (map (\<lambda>x. snd (snd x)) ?xs)" by simp
  then have seen: "map entry_seen (content_entries g5)
      = map (\<lambda>tx. (?i, tx, Teller_Bootstrap, Visibility_Public, None)) (sd_persona seed # sd_entries seed)"
    unfolding g5(3) seed_entries_texts .
  have "\<exists>g6. apply_event J \<lparr>ev_seq = k, ev_recorded_at = t, ev_source = EventSource_Bootstrap, ev_payload = C\<rparr> g5 = Inr g6
      \<and> map (\<lambda>r. (m_id r, m_name r)) (memories g6) = [(?i, SELF)] \<and> content_entries g6 = content_entries g5
      \<and> (\<forall>r \<in> set (memories g6). m_last_described_seq r = m_last_content_seq r)" for k
    using g5(2) by (auto simp: C apply_event_def apply_payload_def apply_genesis_completed_def update_memories_def update_where_def comp_def)
  from this [of "seq_next (length A + 3 + length ?xs)"] obtain g6 where g6: "apply_event J \<lparr>ev_seq = seq_next (length A + 3 + length ?xs), ev_recorded_at = t,
        ev_source = EventSource_Bootstrap, ev_payload = C\<rparr> g5 = Inr g6"
      "map (\<lambda>r. (m_id r, m_name r)) (memories g6) = [(?i, SELF)]" "content_entries g6 = content_entries g5"
      "\<forall>r \<in> set (memories g6). m_last_described_seq r = m_last_content_seq r"
    by (elim exE conjE) (rule that)
  have "foldM (apply_event J) (stamp 0 t EventSource_Bootstrap (missing_events sha256 encode clock entropy templates seed n nothing_written)) empty_graph = Inr g6"
    unfolding ps using g1(1) g2(1) g3(1) g4(1) g5(1) g6(1)
    by (simp add: stamp_append foldM_append seq_next_def numeral_3_eq_3 add.assoc)
  with g6 seen show ?thesis by auto
qed

section \<open>Over a store beside the graph\<close>

context log_projection begin

lemma create_newborn:
  assumes "log_inv s" "log s = []" "distinct (map entropy [1..<length (sd_entries seed) + 2])"
    and storable: "\<forall>k. \<forall>p \<in> set (missing_events sha256 encode clock entropy templates seed n nothing_written).
      storable (clock k) EventSource_Bootstrap p"
  shows "\<exists>m s' g. create_agent read_from append J sha256 encode clock entropy templates seed n s empty_graph = (Inr (Rollout_Created m), s', g)
    \<and> log_inv s' \<and> length (log s') = m \<and> at_head J (log s') m g
    \<and> map (\<lambda>r. (m_id r, m_name r)) (memories g) = [(MemoryId (entropy 0), SELF)]
    \<and> map entry_seen (content_entries g)
        = map (\<lambda>tx. (MemoryId (entropy 0), tx, Teller_Bootstrap, Visibility_Public, None)) (sd_persona seed # sd_entries seed)
    \<and> (\<forall>r \<in> set (memories g). m_last_described_seq r = m_last_content_seq r)
    \<and> from_store decode read_from s' = Inr (decode (encode (seed_settings n)))"
proof -
  let ?ps = "missing_events sha256 encode clock entropy templates seed n nothing_written"
  have w: "nothing_written = foldl note_written nothing_written (map ev_payload (log s))" using assms(2) by simp
  from rollout_effect [where ?sha256.0 = sha256 and encode = encode and clock = clock and entropy = entropy
      and templates = templates and seed = seed and context_length = n, OF assms(1) _ w refl storable] assms(2) obtain t s' where s':
    "rollout read_from append sha256 encode clock entropy templates seed n s = (Inr (Rollout_Created (length ?ps)), s')"
    "log_inv s'" "log s' = stamp 0 t EventSource_Bootstrap ?ps" by auto
  from newborn_folds [OF assms(3), of J t sha256 encode clock templates n] obtain g where
    g: "foldM (apply_event J) (log s') empty_graph = Inr g"
      "map (\<lambda>r. (m_id r, m_name r)) (memories g) = [(MemoryId (entropy 0), SELF)]"
      "map entry_seen (content_entries g)
        = map (\<lambda>tx. (MemoryId (entropy 0), tx, Teller_Bootstrap, Visibility_Public, None)) (sd_persona seed # sd_entries seed)"
      "\<forall>r \<in> set (memories g). m_last_described_seq r = m_last_content_seq r"
    by (elim exE conjE) (rule that, simp only: s'(3))
  have at: "at_head J (log s') (length (log s')) g" using g(1) by (simp add: at_head_def)
  have "materialize_from J (read_from s') empty_graph = Inr (length (log s'), g)"
    using materialize_eq [OF s'(2) at_head_zero] g(1) by simp
  then have c: "create_agent read_from append J sha256 encode clock entropy templates seed n s empty_graph
      = (Inr (Rollout_Created (length ?ps)), s', g)" by (simp add: create_agent_def s'(1))
  obtain A C where ps: "?ps = A @ [TagCreated (tag_name_new ''confidential'') (gd_description (hd seed_tags))]
         @ [ConfigSet (encode (seed_settings n)) EventSource_Agent] @ [MemoryCreated (MemoryId (entropy 0)) (MemoryName SELF)]
         @ map (own_entry (MemoryId (entropy 0))) (seed_entries clock entropy seed) @ [C]" and C: "is_genesis_completed C"
    by (rule fresh_batch)
  have keep: "foldl (adopt decode) d (stamp k t src qs) = d" if "list_all (\<lambda>q. \<not> sets_config q) qs" for d k src qs
    using that by (induction qs arbitrary: k) (auto simp: adopt_def sets_config_def split: event_payload.splits)
  have tail: "list_all (\<lambda>q. \<not> sets_config q) ([MemoryCreated (MemoryId (entropy 0)) (MemoryName SELF)]
      @ map (own_entry (MemoryId (entropy 0))) (seed_entries clock entropy seed) @ [C])"
    using C by (cases C) (auto simp: sets_config_def own_entry_def list_all_iff)
  have last_set: "foldl (adopt decode) d (stamp k t src (P @ [ConfigSet c x] @ Q)) = decode c"
    if "list_all (\<lambda>q. \<not> sets_config q) Q" for d k src P c x Q
    by (simp add: stamp_append keep [OF that] adopt_def)
  have "?ps = (A @ [TagCreated (tag_name_new ''confidential'') (gd_description (hd seed_tags))])
      @ [ConfigSet (encode (seed_settings n)) EventSource_Agent] @ ([MemoryCreated (MemoryId (entropy 0)) (MemoryName SELF)]
         @ map (own_entry (MemoryId (entropy 0))) (seed_entries clock entropy seed) @ [C])" by (simp add: ps)
  then have "foldl (adopt decode) default_settings (log s') = decode (encode (seed_settings n))"
    by (simp only: s'(3) last_set [OF tail])
  then have "from_store decode read_from s' = Inr (decode (encode (seed_settings n)))"
    using read_all [OF s'(2)] by (simp add: from_store_def seq_zero_def)
  moreover have "length (log s') = length ?ps" by (simp add: s'(3))
  ultimately show ?thesis using c s'(2) at g
    by (intro exI [of _ "length ?ps"] exI [of _ s'] exI [of _ g] conjI) simp_all
qed

lemma boot_settles:
  assumes "log_inv s" "at_head J (log s) n g" "foldM (apply_event J) (log s) empty_graph = Inr g0"
    and "list_ex is_genesis_completed (map ev_payload (log s))" "distinct (map td_name ds)"
    and "\<forall>d \<in> set ds. \<forall>u \<in> {t, t'}. storable u EventSource_Bootstrap (default_payload d)"
  shows "\<exists>s' es g'. boot read_from append J ds t s g = (Inr GenesisStatus_Complete, s', g') \<and> log s' = log s @ es
    \<and> at_head J (log s') (length (log s')) g' \<and> same_memory g0 g'
    \<and> (\<forall>x r. registrations (log s) x = Some r \<and> rg_source r \<noteq> EventSource_Bootstrap \<longrightarrow> registrations (log s') x = Some r)
    \<and> (\<forall>d \<in> set ds. \<exists>r. registrations (log s') (td_name d) = Some r
         \<and> (rg_source r = EventSource_Bootstrap \<longrightarrow> td_version d \<le> rg_version r))
    \<and> boot read_from append J ds t' s' g' = (Inr GenesisStatus_Complete, s', g')"
proof -
  from reconcile_settles [where t = t and t' = t', OF assms(1,5,6)] obtain s' es c where r:
    "reconcile_templates read_from append ds t s = (Inr c, s')" "log_inv s'" "log s' = log s @ es"
    "set (map ev_payload es) \<subseteq> default_payload ` set ds"
    "\<forall>x r. registrations (log s) x = Some r \<and> rg_source r \<noteq> EventSource_Bootstrap \<longrightarrow> registrations (log s') x = Some r"
    "\<forall>d \<in> set ds. \<exists>r. registrations (log s') (td_name d) = Some r
         \<and> (rg_source r = EventSource_Bootstrap \<longrightarrow> td_version d \<le> rg_version r)"
    "reconcile_templates read_from append ds t' s' = (Inr (c\<lparr>tr_backfilled := 0, tr_upgraded := 0\<rparr>), s')"
    by (elim exE conjE) (rule that)
  have "list_all memoryless (map ev_payload es)"
    using r(4) by (auto simp: list_all_iff memoryless_def default_payload_def prompt_template_registered_def)
  from memoryless_fold [OF this, of J g0] obtain g' where g': "foldM (apply_event J) es g0 = Inr g'" "same_memory g0 g'" by blast
  then have fold: "foldM (apply_event J) (log s') empty_graph = Inr g'" by (simp add: r(3) foldM_append assms(3))
  have at: "at_head J (log s') (length (log s')) g'" using fold by (simp add: at_head_def)
  have stale: "at_head J (log s') n g" using assms(2) by (simp add: at_head_def r(3))
  have full: "log s \<noteq> []" "log s' \<noteq> []" "list_ex is_genesis_completed (map ev_payload (log s'))" using assms(4) r(3) by auto
  have status: "genesis_status_of read_from s = Inr GenesisStatus_Complete" "genesis_status_of read_from s' = Inr GenesisStatus_Complete"
    using full assms(4) by (simp_all add: status_of [OF assms(1)] status_of [OF r(2)])
  have "materialize_from J (read_from s') g = Inr (length (log s') - n, g')"
    "materialize_from J (read_from s') g' = Inr (0, g')"
    using materialize_eq [OF r(2) stale] materialize_eq [OF r(2) at] fold by simp_all
  then have "boot read_from append J ds t s g = (Inr GenesisStatus_Complete, s', g')"
    "boot read_from append J ds t' s' g' = (Inr GenesisStatus_Complete, s', g')"
    using r status by (simp_all add: boot_def)
  with r(3,5,6) g'(2) at show ?thesis
    by (intro exI [of _ s'] exI [of _ es] exI [of _ g'] conjI)
qed

end

end
