(* ===== verification/Genesis_Samples.thy ===== *)
theory Genesis_Samples
  imports Genesis_Born Contacts_Samples
begin

text \<open>The properties of genesis over the durable log, and a small agent on which each of them is applied.\<close>

section \<open>Properties\<close>

text \<open>
  C13: a newborn agent is ready to serve. On an empty durable log a creation whose payloads the codec round-trips and whose drawn ids differ
  commits everything in one batch, the graph ends at the head of the log, its only memory is the agent's own, with the persona and then the seed
  entries as public entries told by the bootstrap, nothing waits to be described, and the current settings are those seeded, with the budget of the
  context window.
\<close>

theorem newborn_agent_serves:
  assumes "sq_inv J S s" "sq_log J S s = []" "distinct (map entropy [1..<length (sd_entries seed) + 2])"
    and "\<forall>k. \<forall>p \<in> set (missing_events sha256 encode clock entropy templates seed n nothing_written).
           sq_storable J S (clock k) EventSource_Bootstrap p"
  shows "\<exists>m s' g. create_agent (sq_read_from J S) (sq_append S U) J sha256 encode clock entropy templates seed n s empty_graph
      = (Inr (Rollout_Created m), s', g)
    \<and> sq_head s' = Inr m \<and> at_head J (sq_log J S s') m g
    \<and> map (\<lambda>r. (m_id r, m_name r)) (memories g) = [(MemoryId (entropy 0), SELF)]
    \<and> map entry_seen (content_entries g)
        = map (\<lambda>tx. (MemoryId (entropy 0), tx, Teller_Bootstrap, Visibility_Public, None)) (sd_persona seed # sd_entries seed)
    \<and> (\<forall>r \<in> set (memories g). m_last_described_seq r = m_last_content_seq r)
    \<and> from_store decode (sq_read_from J S) s' = Inr (decode (encode (seed_settings n)))"
proof -
  from sqp.create_newborn [where decode = decode and U = U, OF assms] obtain m s' g where
    "create_agent (sq_read_from J S) (sq_append S U) J sha256 encode clock entropy templates seed n s empty_graph
      = (Inr (Rollout_Created m), s', g)" "sq_inv J S s'" "length (sq_log J S s') = m" "at_head J (sq_log J S s') m g"
    "map (\<lambda>r. (m_id r, m_name r)) (memories g) = [(MemoryId (entropy 0), SELF)]"
    "map entry_seen (content_entries g)
        = map (\<lambda>tx. (MemoryId (entropy 0), tx, Teller_Bootstrap, Visibility_Public, None)) (sd_persona seed # sd_entries seed)"
    "\<forall>r \<in> set (memories g). m_last_described_seq r = m_last_content_seq r"
    "from_store decode (sq_read_from J S) s' = Inr (decode (encode (seed_settings n)))"
    by (elim exE conjE) (rule that)
  then show ?thesis by (intro exI [of _ m] exI [of _ s'] exI [of _ g] conjI) (simp_all add: sq.head_spec [of J S])
qed

text \<open>
  an interrupted genesis resumes. Whatever part of the seeds an unfinished log already holds, the rollout appends only seeds it lacks (beside
  the entries of a new own memory), and closes with a mark whose hash depends on the seed and the templates alone; afterwards every template, relation
  and tag of the build, a configuration and the own memory are there, the log reads as complete, and any further rollout is a no-op.
\<close>

theorem rollout_resumes:
  assumes "sq_inv J S s" "\<not> list_ex is_genesis_completed (map ev_payload (sq_log J S s))"
    and "w = foldl note_written nothing_written (map ev_payload (sq_log J S s))"
    and "\<forall>k. \<forall>p \<in> set (missing_events sha256 encode clock entropy templates seed n w). sq_storable J S (clock k) EventSource_Bootstrap p"
  shows "\<exists>es s'. rollout (sq_read_from J S) (sq_append S U) sha256 encode clock entropy templates seed n s = (Inr (Rollout_Created (length es)), s')
    \<and> sq_log J S s' = sq_log J S s @ es \<and> genesis_status_of (sq_read_from J S) s' = Inr GenesisStatus_Complete
    \<and> seeds_written templates (foldl note_written nothing_written (map ev_payload (sq_log J S s')))
    \<and> (\<forall>e \<in> set es. is_genesis_completed (ev_payload e) \<or> note_written w (ev_payload e) \<noteq> w
         \<or> (\<exists>i x t tx. ev_payload e = MemoryContentAppended i x t None tx Teller_Bootstrap None Visibility_Public))
    \<and> ev_payload (last (sq_log J S s')) = GenesisCompleted (manifest_hash sha256 seed templates) (template_versions templates)
    \<and> rollout (sq_read_from J S) (sq_append S U) sha256 encode clock' entropy' templates' seed' n' s' = (Inr Rollout_AlreadyComplete, s')"
  by (rule sq.rollout_completes [OF assms])

text \<open>
  C14: a boot settles the prompts. Booting a born agent whose log folds brings the graph to the head of the log and every default template to the
  build's version or beyond, registers under the bootstrap authority only, leaves what an operator registered last and every memory as they were, and
  a second boot changes neither log nor graph.
\<close>

theorem boot_settles_prompts:
  assumes "sq_inv J S s" "at_head J (sq_log J S s) n g" "foldM (apply_event J) (sq_log J S s) empty_graph = Inr g0"
    and "list_ex is_genesis_completed (map ev_payload (sq_log J S s))" "distinct (map td_name ds)"
    and "\<forall>d \<in> set ds. \<forall>u \<in> {t, t'}. sq_storable J S u EventSource_Bootstrap (default_payload d)"
  shows "\<exists>s' es g'. boot (sq_read_from J S) (sq_append S U) J ds t s g = (Inr GenesisStatus_Complete, s', g') \<and> sq_log J S s' = sq_log J S s @ es
    \<and> at_head J (sq_log J S s') (length (sq_log J S s')) g' \<and> same_memory g0 g'
    \<and> (\<forall>x r. registrations (sq_log J S s) x = Some r \<and> rg_source r \<noteq> EventSource_Bootstrap \<longrightarrow> registrations (sq_log J S s') x = Some r)
    \<and> (\<forall>d \<in> set ds. \<exists>r. registrations (sq_log J S s') (td_name d) = Some r
         \<and> (rg_source r = EventSource_Bootstrap \<longrightarrow> td_version d \<le> rg_version r))
    \<and> boot (sq_read_from J S) (sq_append S U) J ds t' s' g' = (Inr GenesisStatus_Complete, s', g')"
  using assms by (rule sqp.boot_settles)

section \<open>A small agent\<close>

definition small_seed :: seed_self where
  "small_seed = \<lparr>sd_agent_name = ''zuihitsu'', sd_persona = ''keeps notes'', sd_entries = [''likes rain'']\<rparr>"

definition small_templates :: "template_def list" where
  "small_templates =
     [\<lparr>td_name = PromptTemplateName_Scaffold, td_version = 32, td_body = ''scaffold'', td_description = ''''\<rparr>,
      \<lparr>td_name = PromptTemplateName_Flush, td_version = 5, td_body = ''flush'', td_description = ''''\<rparr>]"

definition small_clock :: "nat \<Rightarrow> timestamp" where
  "small_clock k = (if k = 0 then 1000 else 2000)"

definition small_digest :: "string \<Rightarrow> nat list" where
  "small_digest bytes = replicate 32 (length bytes)"

definition small_encode :: "settings \<Rightarrow> serialized" where
  "small_encode st = show_int (cs_token_budget (st_compaction st))"

definition small_decode :: "serialized \<Rightarrow> settings" where
  "small_decode json = default_settings\<lparr>st_compaction := (st_compaction default_settings)
     \<lparr>cs_token_budget := (case parse_i64 json of Some b \<Rightarrow> b | None \<Rightarrow> 0), cs_context_length := Some 10\<rparr>\<rparr>"

abbreviation small_batch :: "written \<Rightarrow> event_payload list" where
  "small_batch w \<equiv> missing_events small_digest small_encode small_clock Suc small_templates small_seed (Some 10) w"

abbreviation small_serde :: serde where
  "small_serde \<equiv> table_serde (small_batch nothing_written)"

lemma small_storable: "p \<in> set (small_batch nothing_written) \<Longrightarrow> sq_storable gregorian small_serde (small_clock k) src p"
proof (rule table_serde_storable)
  have "ts_in_range gregorian 1000" "ts_in_range gregorian 2000" by code_simp+
  then show "ts_in_range gregorian (small_clock k)" by (simp add: small_clock_def)
qed

lemma empty_sqlite_born: "sq_inv gregorian small_serde empty_sqlite" "sq_log gregorian small_serde empty_sqlite = []"
  by (simp_all add: sq_inv_def sq_log_def empty_sqlite_def)

theorem newborn_agent_serves_witness:
  "\<exists>m s' g. create_agent (sq_read_from gregorian small_serde) (sq_append small_serde show_nat) gregorian small_digest small_encode small_clock Suc
        small_templates small_seed (Some 10) empty_sqlite empty_graph = (Inr (Rollout_Created m), s', g)
    \<and> map entry_seen (content_entries g)
        = map (\<lambda>tx. (MemoryId 1, tx, Teller_Bootstrap, Visibility_Public, None)) [''keeps notes'', ''likes rain'']
    \<and> (case from_store small_decode (sq_read_from gregorian small_serde) s' of
         Inr st \<Rightarrow> cs_token_budget (st_compaction st) = 8 | Inl _ \<Rightarrow> False)"
proof -
  have d: "distinct (map Suc [1..<length (sd_entries small_seed) + 2])" by code_simp
  have b: "cs_token_budget (st_compaction (small_decode (small_encode (seed_settings (Some 10))))) = 8" by code_simp
  have st: "\<forall>k. \<forall>p \<in> set (small_batch nothing_written). sq_storable gregorian small_serde (small_clock k) EventSource_Bootstrap p"
    using small_storable by blast
  have e: "sd_persona small_seed = ''keeps notes''" "sd_entries small_seed = [''likes rain'']" by (simp_all add: small_seed_def)
  from newborn_agent_serves [where decode = small_decode and U = show_nat, OF empty_sqlite_born d st] obtain m s' g where
    n1: "create_agent (sq_read_from gregorian small_serde) (sq_append small_serde show_nat) gregorian small_digest small_encode small_clock Suc
        small_templates small_seed (Some 10) empty_sqlite empty_graph = (Inr (Rollout_Created m), s', g)"
    and n2: "map entry_seen (content_entries g)
        = map (\<lambda>tx. (MemoryId (Suc 0), tx, Teller_Bootstrap, Visibility_Public, None)) (sd_persona small_seed # sd_entries small_seed)"
    and n3: "from_store small_decode (sq_read_from gregorian small_serde) s' = Inr (small_decode (small_encode (seed_settings (Some 10))))"
    by (elim exE conjE) (rule that)
  show ?thesis
  proof (intro exI [of _ m] exI [of _ s'] exI [of _ g] conjI)
    show "map entry_seen (content_entries g)
        = map (\<lambda>tx. (MemoryId 1, tx, Teller_Bootstrap, Visibility_Public, None)) [''keeps notes'', ''likes rain'']"
      unfolding n2 e One_nat_def by (rule refl)
    show "case from_store small_decode (sq_read_from gregorian small_serde) s' of
        Inr st \<Rightarrow> cs_token_budget (st_compaction st) = 8 | Inl _ \<Rightarrow> False"
      unfolding n3 sum.case by (rule b)
  qed (rule n1)
qed

text \<open>An unfinished log: the scaffold, the tag and the own memory are there.\<close>

definition unfinished_payloads :: "event_payload list" where
  "unfinished_payloads =
     [prompt_template_registered PromptTemplateName_Scaffold 32 ''scaffold'',
      TagCreated (tag_name_new ''confidential'') (gd_description (hd seed_tags)),
      MemoryCreated (MemoryId 1) (MemoryName SELF)]"

definition unfinished_store :: sqlite_store where
  "unfinished_store = snd (sq_append small_serde show_nat empty_sqlite 500 EventSource_Agent unfinished_payloads)"

lemma unfinished_log:
  "sq_inv gregorian small_serde unfinished_store" "map ev_payload (sq_log gregorian small_serde unfinished_store) = unfinished_payloads"
proof -
  have "ts_in_range gregorian 500" by code_simp
  moreover have "set unfinished_payloads \<subseteq> set (small_batch nothing_written)"
    by (simp add: unfinished_payloads_def missing_events_def nothing_written_def small_templates_def seed_tags_def self_events_def)
  ultimately have "list_all (sq_storable gregorian small_serde 500 EventSource_Agent) unfinished_payloads"
    using table_serde_storable by (auto simp: list_all_iff)
  from sq.append_commits [OF empty_sqlite_born(1) this, of show_nat]
  show "sq_inv gregorian small_serde unfinished_store" "map ev_payload (sq_log gregorian small_serde unfinished_store) = unfinished_payloads"
    by (auto simp: unfinished_store_def empty_sqlite_born)
qed

lemma missing_subset: "set (missing_events h e c r ts sd k w) \<subseteq> set (missing_events h e c r ts sd k nothing_written)"
  by (auto simp: missing_events_def nothing_written_def)

theorem rollout_resumes_witness:
  "\<exists>(es :: event list) s'. rollout (sq_read_from gregorian small_serde) (sq_append small_serde show_nat) small_digest small_encode small_clock Suc small_templates
        small_seed (Some 10) unfinished_store = (Inr (Rollout_Created (length es)), s')
    \<and> genesis_status_of (sq_read_from gregorian small_serde) s' = Inr GenesisStatus_Complete"
proof -
  let ?w = "foldl note_written nothing_written (map ev_payload (sq_log gregorian small_serde unfinished_store))"
  have open_log: "\<not> list_ex is_genesis_completed (map ev_payload (sq_log gregorian small_serde unfinished_store))"
    unfolding unfinished_log by (simp add: unfinished_payloads_def prompt_template_registered_def)
  have st: "\<forall>k. \<forall>p \<in> set (small_batch ?w). sq_storable gregorian small_serde (small_clock k) EventSource_Bootstrap p"
    using small_storable missing_subset by blast
  from rollout_resumes [where U = show_nat and clock' = small_clock and entropy' = Suc and templates' = small_templates
      and seed' = small_seed and n' = None, OF unfinished_log(1) open_log refl st] obtain es :: "event list" and s' where
    r: "rollout (sq_read_from gregorian small_serde) (sq_append small_serde show_nat) small_digest small_encode small_clock Suc small_templates
        small_seed (Some 10) unfinished_store = (Inr (Rollout_Created (length es)), s')"
    "genesis_status_of (sq_read_from gregorian small_serde) s' = Inr GenesisStatus_Complete"
    by (elim exE conjE) (rule that)
  then show ?thesis by blast
qed

text \<open>A born log: the operator holds the scaffold at version 3, the flush template trails the build.\<close>

definition born_payloads :: "event_payload list" where
  "born_payloads =
     [prompt_template_registered PromptTemplateName_Scaffold 3 ''mine'', prompt_template_registered PromptTemplateName_Flush 4 ''flush, old'',
      GenesisCompleted ''00'' []]"

text \<open>
  a forced upgrade never settles. An operator's template below the build's version is overwritten with the build's body, registered one version up
  under the operator's authority; the version still trails the build's, so the template is reported as upgradable again and the same command
  registers the same body once more.
\<close>

theorem forced_upgrade_never_settles:
  "let s0 = \<lparr>ms_events = stamp 0 100 EventSource_Operator born_payloads, ms_subscribers = []\<rparr>;
       force = (\<lambda>s. snd (upgrade_prompts ms_read_from ms_append small_templates small_clock True s));
       badge = (\<lambda>s. map_sum (\<lambda>_. ()) (map (\<lambda>u. (tu_name u, tu_latest_version u, tu_upgrade_available u)))
                   (template_statuses ms_read_from small_templates s));
       bodies = (\<lambda>s. map_sum (\<lambda>_. ()) (map_option pt_body) (latest_template ms_read_from s PromptTemplateName_Scaffold))
   in badge s0 = Inr [(PromptTemplateName_Scaffold, 3, True), (PromptTemplateName_Flush, 4, True)]
    \<and> badge (force s0) = Inr [(PromptTemplateName_Scaffold, 4, True), (PromptTemplateName_Flush, 5, False)]
    \<and> bodies (force s0) = Inr (Some ''scaffold'')
    \<and> badge (force (force s0)) = Inr [(PromptTemplateName_Scaffold, 5, True), (PromptTemplateName_Flush, 5, False)]"
  by code_simp

text \<open>The same log under the authorities it was written with, and its boot.\<close>

definition tracked_payloads :: "event_payload list" where
  "tracked_payloads = [prompt_template_registered PromptTemplateName_Flush 4 ''flush, old'', GenesisCompleted ''00'' []]"

definition curated_payloads :: "event_payload list" where
  "curated_payloads = [prompt_template_registered PromptTemplateName_Scaffold 3 ''mine'']"

abbreviation born_serde :: serde where
  "born_serde \<equiv> table_serde (tracked_payloads @ curated_payloads @ map default_payload small_templates)"

abbreviation born_log :: "event list" where
  "born_log \<equiv> stamp 0 100 EventSource_Bootstrap tracked_payloads @ stamp 2 200 EventSource_Operator curated_payloads"

lemma born_store: obtains s where "sq_inv gregorian born_serde s" "sq_log gregorian born_serde s = born_log"
proof -
  have t: "ts_in_range gregorian 100" "ts_in_range gregorian 200" by code_simp+
  have e: "sq_inv gregorian born_serde empty_sqlite" "sq_log gregorian born_serde empty_sqlite = []"
    by (simp_all add: sq_inv_def sq_log_def empty_sqlite_def)
  have p: "list_all (sq_storable gregorian born_serde 100 EventSource_Bootstrap) tracked_payloads"
    "list_all (sq_storable gregorian born_serde 200 EventSource_Operator) curated_payloads"
    using table_serde_storable [OF t(1)] table_serde_storable [OF t(2)] by (simp_all add: list_all_iff)
  from sq.append_commits [OF e(1) p(1), of show_nat] e obtain s1 where
    s1: "sq_inv gregorian born_serde s1" "sq_log gregorian born_serde s1 = stamp 0 100 EventSource_Bootstrap tracked_payloads" by auto
  from sq.append_commits [OF s1(1) p(2), of show_nat] s1 obtain s2 where
    "sq_inv gregorian born_serde s2" "sq_log gregorian born_serde s2 = born_log" by (auto simp: tracked_payloads_def numeral_2_eq_2)
  then show ?thesis by (rule that)
qed

theorem boot_settles_prompts_witness:
  "\<exists>s s' g'. sq_log gregorian born_serde s = born_log
    \<and> boot (sq_read_from gregorian born_serde) (sq_append born_serde show_nat) gregorian small_templates 1000 s empty_graph
        = (Inr GenesisStatus_Complete, s', g')
    \<and> registrations (sq_log gregorian born_serde s') PromptTemplateName_Scaffold
        = Some \<lparr>rg_version = 3, rg_body = ''mine'', rg_source = EventSource_Operator\<rparr>
    \<and> boot (sq_read_from gregorian born_serde) (sq_append born_serde show_nat) gregorian small_templates 2000 s' g'
        = (Inr GenesisStatus_Complete, s', g')"
proof -
  obtain s where s: "sq_inv gregorian born_serde s" "sq_log gregorian born_serde s = born_log" by (rule born_store)
  have "is_ok (foldM (apply_event gregorian) born_log empty_graph)" by code_simp
  then obtain g0 where g0: "foldM (apply_event gregorian) (sq_log gregorian born_serde s) empty_graph = Inr g0" by (auto simp: is_ok_iff s)
  have c: "list_ex is_genesis_completed (map ev_payload (sq_log gregorian born_serde s))"
    unfolding s by (simp add: tracked_payloads_def)
  have d: "distinct (map td_name small_templates)" by (simp add: small_templates_def)
  have t: "ts_in_range gregorian 1000" "ts_in_range gregorian 2000" by code_simp+
  have st: "\<forall>d \<in> set small_templates. \<forall>u \<in> {1000, 2000}. sq_storable gregorian born_serde u EventSource_Bootstrap (default_payload d)"
    using table_serde_storable [OF t(1)] table_serde_storable [OF t(2)] by auto
  have "registrations born_log PromptTemplateName_Scaffold = Some \<lparr>rg_version = 3, rg_body = ''mine'', rg_source = EventSource_Operator\<rparr>"
    by code_simp
  then have r: "registrations (sq_log gregorian born_serde s) PromptTemplateName_Scaffold
      = Some \<lparr>rg_version = 3, rg_body = ''mine'', rg_source = EventSource_Operator\<rparr>" unfolding s .
  from boot_settles_prompts [where U = show_nat, OF s(1) at_head_zero g0 c d st] obtain s' es g' where
    b: "boot (sq_read_from gregorian born_serde) (sq_append born_serde show_nat) gregorian small_templates 1000 s empty_graph
        = (Inr GenesisStatus_Complete, s', g')"
      "boot (sq_read_from gregorian born_serde) (sq_append born_serde show_nat) gregorian small_templates 2000 s' g'
        = (Inr GenesisStatus_Complete, s', g')"
    and k: "\<forall>x r. registrations (sq_log gregorian born_serde s) x = Some r \<and> rg_source r \<noteq> EventSource_Bootstrap
        \<longrightarrow> registrations (sq_log gregorian born_serde s') x = Some r"
    by (elim exE conjE) (rule that)
  from k r have "registrations (sq_log gregorian born_serde s') PromptTemplateName_Scaffold
      = Some \<lparr>rg_version = 3, rg_body = ''mine'', rg_source = EventSource_Operator\<rparr>" by simp
  with s(2) b show ?thesis by (intro exI [of _ s] exI [of _ s'] exI [of _ g'] conjI)
qed

end
