(* ===== verification/Turn_Buffer.thy ===== *)
theory Turn_Buffer
  imports Store
begin

text \<open>
  The live buffer, \<open>src/agent/turn/buffer.rs\<close>: the turns of a conversation a later turn replays as the suffix of its prompt, the
  trim that bounds what a session carries over from the one before it, the memories its blocks touched and the mark up to which it has been
  flushed; with the wording of a block's failure of \<open>src/agent/turn/tools.rs\<close>, which a replayed step shows.

  The token usage of a model call is an opaque column of its event; what it says of the prompt is the argument \<open>prompt_tokens_of\<close>.
\<close>

section \<open>A failed block's wording\<close>

datatype tool_error =
    ToolError_UnknownTool string
  | ToolError_InvalidArguments string
  | ToolError_BlockError string
  | ToolError_BlockAborted string

text \<open>The \<open>Debug\<close> form of a string, for printable text and the control characters.\<close>

definition debug_char :: "char \<Rightarrow> string" where
  "debug_char c =
     (if c = CHR 0x22 then [CHR 0x5C, c]
      else if c = CHR 0x5C then [CHR 0x5C, c]
      else if c = CHR 0x09 then [CHR 0x5C, CHR ''t'']
      else if c = CHR 0x0A then [CHR 0x5C, CHR ''n'']
      else if c = CHR 0x0D then [CHR 0x5C, CHR ''r'']
      else if c = CHR 0x00 then [CHR 0x5C, CHR ''0'']
      else if c < CHR 0x20 \<or> c = CHR 0x7F
      then [CHR 0x5C, CHR ''u'', CHR ''{''] @ (if c < CHR 0x10 then [] else [hex_digit (of_char c div 16)])
             @ [hex_digit (of_char c mod 16), CHR ''}'']
      else [c])"

definition debug_str :: "string \<Rightarrow> string" where
  "debug_str s = [CHR 0x22] @ concat (map debug_char s) @ [CHR 0x22]"

fun tool_error_str :: "tool_error \<Rightarrow> string" where
  "tool_error_str (ToolError_UnknownTool name) =
     ''error: no such tool '' @ debug_str name @ ''; the only available tool is run_lua''"
| "tool_error_str (ToolError_InvalidArguments message) = ''error: invalid run_lua arguments: '' @ message"
| "tool_error_str (ToolError_BlockError message) = ''error: '' @ message"
| "tool_error_str (ToolError_BlockAborted reason) =
     ''aborted: '' @ (if trim reason = [] then ''(no reason given)'' else reason)"

fun from_terminal_cause :: "terminal_cause \<Rightarrow> tool_error" where
  "from_terminal_cause (TerminalCause_Error message) = ToolError_BlockError message"
| "from_terminal_cause (TerminalCause_Aborted reason) = ToolError_BlockAborted reason"
| "from_terminal_cause (TerminalCause_Skipped reason) =
     ToolError_BlockAborted (case reason of Some r \<Rightarrow> r | None \<Rightarrow> [])"

section \<open>The buffer\<close>

definition UNDELIVERED_FLUSH_NOTE :: string where
  "UNDELIVERED_FLUSH_NOTE =
     ''The agent reply just above was an internal checkpoint note, not delivered to any participant.''"

record tool_step =
  step_script :: string
  step_result :: string

record turn_view =
  tv_seq :: seq
  tv_turn_id :: turn_id
  tv_role :: turn_role
  tv_text :: string
  tv_participant :: "memory_id option"
  tv_recorded_at :: timestamp
  tv_steps :: "tool_step list"
  tv_produced_by :: "produced_by option"
  tv_prompt_tokens :: "nat option"
  tv_attachments :: "serialized list"

definition system_view :: "seq \<Rightarrow> turn_id \<Rightarrow> string \<Rightarrow> timestamp \<Rightarrow> turn_view" where
  "system_view n turn text t =
     \<lparr>tv_seq = n, tv_turn_id = turn, tv_role = TurnRole_System, tv_text = text, tv_participant = None,
      tv_recorded_at = t, tv_steps = [], tv_produced_by = None, tv_prompt_tokens = None, tv_attachments = []\<rparr>"

text \<open>The loop's locals: the turns so far, and what the calls and blocks of the turns still to come left.\<close>

record buffer_scan =
  bf_turns :: "turn_view list"
  bf_steps_by_turn :: "turn_id \<Rightarrow> tool_step list option"
  bf_tokens_by_turn :: "turn_id \<Rightarrow> nat option"

definition buffer_start :: buffer_scan where
  "buffer_start = \<lparr>bf_turns = [], bf_steps_by_turn = Map.empty, bf_tokens_by_turn = Map.empty\<rparr>"

definition produced_by_flush :: "produced_by option \<Rightarrow> bool" where
  "produced_by_flush p = (case p of Some q \<Rightarrow> is_flush q | None \<Rightarrow> False)"

definition or_default :: "'a list option \<Rightarrow> 'a list" where
  "or_default x = (case x of Some y \<Rightarrow> y | None \<Rightarrow> [])"

definition buffer_event :: "(serialized \<Rightarrow> nat option) \<Rightarrow> conversation_id \<Rightarrow> event \<Rightarrow> buffer_scan \<Rightarrow> buffer_scan" where
  "buffer_event prompt_tokens_of conversation e b =
     (case ev_payload e of
        ModelCalled c turn _ _ _ _ _ _ usage _ \<Rightarrow>
          (if c = conversation
           then (case prompt_tokens_of usage of
                   Some n \<Rightarrow>
                     (if bf_tokens_by_turn b turn = None
                      then b\<lparr>bf_tokens_by_turn := (bf_tokens_by_turn b)(turn \<mapsto> n)\<rparr> else b)
                 | None \<Rightarrow> b)
           else b)
      | LuaExecuted c turn script result _ cause _ \<Rightarrow>
          (if c = conversation
           then (let r = (case result of
                       Some r \<Rightarrow> r
                     | None \<Rightarrow> (case cause of Some x \<Rightarrow> tool_error_str (from_terminal_cause x) | None \<Rightarrow> []))
                 in b\<lparr>bf_steps_by_turn := (bf_steps_by_turn b)
                       (turn \<mapsto> or_default (bf_steps_by_turn b turn) @ [\<lparr>step_script = script, step_result = r\<rparr>])\<rparr>)
           else b)
      | ConversationTurn c turn role text participant _ produced _ attachments \<Rightarrow>
          (if c = conversation
           then (let agent = (role = TurnRole_Agent);
                     view = \<lparr>tv_seq = ev_seq e, tv_turn_id = turn, tv_role = role, tv_text = text,
                       tv_participant = participant, tv_recorded_at = ev_recorded_at e,
                       tv_steps = (if agent then or_default (bf_steps_by_turn b turn) else []),
                       tv_produced_by = produced,
                       tv_prompt_tokens = (if agent then bf_tokens_by_turn b turn else None),
                       tv_attachments = attachments\<rparr>;
                     note = (if agent \<and> text \<noteq> [] \<and> produced_by_flush produced
                       then [system_view (ev_seq e) turn UNDELIVERED_FLUSH_NOTE (ev_recorded_at e)] else [])
                 in b\<lparr>bf_turns := bf_turns b @ [view] @ note,
                      bf_steps_by_turn := (if agent then (bf_steps_by_turn b)(turn := None) else bf_steps_by_turn b),
                      bf_tokens_by_turn := (if agent then (bf_tokens_by_turn b)(turn := None) else bf_tokens_by_turn b)\<rparr>)
           else b)
      | TurnSuperseded c turn text \<Rightarrow>
          (if c = conversation then b\<lparr>bf_turns := bf_turns b @ [system_view (ev_seq e) turn text (ev_recorded_at e)]\<rparr> else b)
      | AmbientRecallSurfaced c turn text _ \<Rightarrow>
          (if c = conversation then b\<lparr>bf_turns := bf_turns b @ [system_view (ev_seq e) turn text (ev_recorded_at e)]\<rparr> else b)
      | _ \<Rightarrow> b)"

definition buffer_of :: "(serialized \<Rightarrow> nat option) \<Rightarrow> conversation_id \<Rightarrow> event list \<Rightarrow> turn_view list" where
  "buffer_of prompt_tokens_of conversation es = bf_turns (fold (buffer_event prompt_tokens_of conversation) es buffer_start)"

text \<open>\<open>read\<close> is the store's \<open>read_from\<close>.\<close>

definition buffer_turns ::
  "(serialized \<Rightarrow> nat option) \<Rightarrow> (seq \<Rightarrow> (store_error, event list) result) \<Rightarrow> conversation_id \<Rightarrow> seq
    \<Rightarrow> (store_error, turn_view list) result" where
  "buffer_turns prompt_tokens_of read conversation from_seq =
     andthen (read from_seq) (\<lambda>es. Inr (buffer_of prompt_tokens_of conversation es))"

section \<open>The carryover trim\<close>

definition measured_calls :: "turn_view list \<Rightarrow> (nat \<times> nat) list" where
  "measured_calls turns =
     List.map_filter (\<lambda>(idx, t). map_option (\<lambda>tokens. (idx, tokens)) (tv_prompt_tokens t)) (enumerate 0 turns)"

text \<open>
  The loop over the calls, newest first, each with its position; it breaks at the first one the budget does not reach. The
  subtraction saturates.
\<close>

fun carry_loop :: "nat \<Rightarrow> nat \<Rightarrow> (nat \<times> nat \<times> nat) list \<Rightarrow> nat \<Rightarrow> bool \<Rightarrow> nat \<times> bool" where
  "carry_loop budget last_tokens [] start admitted_oldest = (start, admitted_oldest)"
| "carry_loop budget last_tokens ((position, idx, tokens) # calls) start admitted_oldest =
     (if last_tokens - tokens > budget then (start, admitted_oldest)
      else carry_loop budget last_tokens calls (min (idx + 1) start) (position = 0))"

definition carryover_start :: "turn_view list \<Rightarrow> int \<Rightarrow> nat" where
  "carryover_start turns token_budget =
     (let budget = nat (max token_budget 0);
          newest = length turns - 1;
          measured = measured_calls turns
      in if measured = [] then newest
         else case carry_loop budget (snd (last measured)) (rev (enumerate 0 measured)) newest False of
                (start, admitted_oldest) \<Rightarrow> if admitted_oldest then 0 else start)"

text \<open>\<open>partition_point\<close> on a list the predicate splits: the length of the part where it holds.\<close>

definition partition_point :: "('a \<Rightarrow> bool) \<Rightarrow> 'a list \<Rightarrow> nat" where
  "partition_point p xs = length (takeWhile p xs)"

definition bound_tail :: "turn_view list \<Rightarrow> seq \<Rightarrow> int \<Rightarrow> turn_view list" where
  "bound_tail turns session_start_seq token_budget =
     (let split = partition_point (\<lambda>t. tv_seq t < session_start_seq) turns
      in drop (carryover_start (take split turns) token_budget) turns)"

definition bounded_buffer_turns ::
  "(serialized \<Rightarrow> nat option) \<Rightarrow> (seq \<Rightarrow> (store_error, event list) result) \<Rightarrow> conversation_id \<Rightarrow> seq \<Rightarrow> seq \<Rightarrow> int
    \<Rightarrow> (store_error, turn_view list) result" where
  "bounded_buffer_turns prompt_tokens_of read conversation start_seq session_start_seq token_budget =
     andthen (buffer_turns prompt_tokens_of read conversation start_seq)
       (\<lambda>turns. Inr (bound_tail turns session_start_seq token_budget))"

record tail_seed =
  seeded_from_turn :: turn_id
  seed_from_seq :: seq

definition carryover_tail :: "turn_view list \<Rightarrow> int \<Rightarrow> tail_seed option" where
  "carryover_tail turns token_budget =
     (let start = carryover_start turns token_budget
      in if start < length turns
         then Some \<lparr>seeded_from_turn = tv_turn_id (turns ! start), seed_from_seq = tv_seq (turns ! start)\<rparr>
         else None)"

section \<open>The working sets\<close>

text \<open>Both loops keep the ids seen and the ids in the order of their first touch; the set is the list's elements.\<close>

fun note_touched :: "memory_id list \<Rightarrow> memory_id list \<Rightarrow> memory_id list" where
  "note_touched ordered [] = ordered"
| "note_touched ordered (i # ids) = note_touched (if i \<in> set ordered then ordered else ordered @ [i]) ids"

definition touched_in :: "conversation_id \<Rightarrow> event \<Rightarrow> memory_id list \<Rightarrow> memory_id list" where
  "touched_in conversation e ordered =
     (case ev_payload e of
        LuaExecuted c _ _ _ touched _ _ \<Rightarrow> if c = conversation then note_touched ordered touched else ordered
      | _ \<Rightarrow> ordered)"

definition session_touched ::
  "(seq \<Rightarrow> (store_error, event list) result) \<Rightarrow> conversation_id \<Rightarrow> seq \<Rightarrow> (store_error, memory_id list) result" where
  "session_touched read conversation from_seq =
     andthen (read from_seq) (\<lambda>es. Inr (fold (touched_in conversation) es []))"

text \<open>The loop over one block's ids returns \<open>Inl\<close> when the limit is reached.\<close>

fun note_limited :: "nat \<Rightarrow> memory_id list \<Rightarrow> memory_id list \<Rightarrow> (memory_id list, memory_id list) result" where
  "note_limited limit ordered [] = Inr ordered"
| "note_limited limit ordered (i # ids) =
     (if i \<in> set ordered then note_limited limit ordered ids
      else let ordered = ordered @ [i]
           in if length ordered = limit then Inl ordered else note_limited limit ordered ids)"

fun recent_loop :: "timestamp \<Rightarrow> nat \<Rightarrow> memory_id list \<Rightarrow> event list \<Rightarrow> memory_id list" where
  "recent_loop since limit ordered [] = ordered"
| "recent_loop since limit ordered (e # es) =
     (if ev_recorded_at e < since then recent_loop since limit ordered es
      else case ev_payload e of
             LuaExecuted _ _ _ _ touched _ _ \<Rightarrow>
               (case note_limited limit ordered touched of
                  Inl full \<Rightarrow> full
                | Inr grown \<Rightarrow> recent_loop since limit grown es)
           | _ \<Rightarrow> recent_loop since limit ordered es)"

definition recent_touched ::
  "(seq \<Rightarrow> (store_error, event list) result) \<Rightarrow> timestamp \<Rightarrow> nat \<Rightarrow> (store_error, memory_id list) result" where
  "recent_touched read since limit =
     (if limit = 0 then Inr []
      else andthen (read seq_zero) (\<lambda>es. Inr (recent_loop since limit [] (rev es))))"

section \<open>The flush watermark\<close>

definition flushed_up_to :: "turn_view list \<Rightarrow> seq \<Rightarrow> seq" where
  "flushed_up_to turns session_start =
     (case List.find (\<lambda>t. produced_by_flush (tv_produced_by t)) (rev turns) of
        Some t \<Rightarrow> tv_seq t
      | None \<Rightarrow> session_start)"

end
