(* ===== verification/Session_Life.thy ===== *)
theory Session_Life
  imports Wakeups Brief_Compose Settings Turn_Buffer Turn_Ledger
begin

text \<open>
  The life of a conversation's session: \<open>src/instance/session/\<close> (opening, resuming, closing with a flush, a participant's arrival),
  \<open>src/instance/session_store.rs\<close> (the live map), the idle and the checkpoint sweeps of \<open>src/instance/drivers.rs\<close>, and the
  end of a session by compaction of \<open>src/instance/platform/routing.rs\<close>.

  A flush is a turn of the agent and a description catch-up is a pass of the describer; both call the model, and other tasks run while they
  wait. They are functions on the whole state, part of the environment an operation runs in, and so are the decoding of a settings snapshot, the
  clock and the source of ids, which are read at a position of the state. A session's interpreter and its tools are not part of the state. The
  live map, a hash map, is an association list: its order is that of an iteration over it.
\<close>

section \<open>The live sessions\<close>

record open_session =
  os_id :: session_id
  os_brief :: string
  os_brief_memories :: "memory_id list"
  os_started_at :: timestamp
  os_last_activity :: timestamp
  os_start_seq :: seq
  os_session_start_seq :: seq

type_synonym session_map = "(conversation_id \<times> open_session) list"

definition live_remove :: "conversation_id \<Rightarrow> session_map \<Rightarrow> session_map" where
  "live_remove c m = filter (\<lambda>(d, _). d \<noteq> c) m"

definition live_insert :: "conversation_id \<Rightarrow> open_session \<Rightarrow> session_map \<Rightarrow> session_map" where
  "live_insert c opened m = (c, opened) # live_remove c m"

definition live_get :: "conversation_id \<Rightarrow> session_map \<Rightarrow> open_session option" where
  "live_get c m = map_of m c"

definition live_remove_if_matches :: "conversation_id \<Rightarrow> session_id \<Rightarrow> session_map \<Rightarrow> open_session option \<times> session_map" where
  "live_remove_if_matches c expected m =
     (case live_get c m of
        Some opened \<Rightarrow> if os_id opened = expected then (Some opened, live_remove c m) else (None, m)
      | None \<Rightarrow> (None, m))"

definition active_count :: "session_map \<Rightarrow> nat" where
  "active_count m = length m"

text \<open>\<open>touch\<close> writes through the shared handle of the entry.\<close>

definition live_touch :: "conversation_id \<Rightarrow> timestamp \<Rightarrow> session_map \<Rightarrow> session_map" where
  "live_touch c t m = map (\<lambda>(d, opened). (d, if d = c then opened\<lparr>os_last_activity := t\<rparr> else opened)) m"

section \<open>The state and its environment\<close>

record 's live_state =
  lv_platform :: "'s platform_state"
  lv_sessions :: session_map
  lv_turns :: turn_ledger
  lv_clock_reads :: nat
  lv_ids_minted :: nat

type_synonym ('s, 'a) live_op = "'s live_state \<Rightarrow> (instance_error, 'a) result \<times> 's live_state"

text \<open>\<open>Flush\<close>: what a flush turn is run with.\<close>

record flush =
  fl_conversation :: conversation_id
  fl_brief :: string
  fl_session_started_at :: timestamp
  fl_buffer :: "turn_view list"
  fl_present_set :: "memory_id list"
  fl_max_steps :: nat
  fl_block_timeout_seconds :: nat
  fl_max_block_attempts :: nat
  fl_max_entry_chars :: nat
  fl_max_attachment_text_chars :: nat

record 's session_env =
  env_jiff :: jiff
  env_ops :: "'s store_ops"
  env_ulid_str :: "nat \<Rightarrow> string"
  env_decode :: "serialized \<Rightarrow> settings"
  env_prompt_tokens_of :: "serialized \<Rightarrow> nat option"
  env_encode_brief :: "brief \<Rightarrow> serialized"
  env_clock :: "nat \<Rightarrow> timestamp"
  env_entropy :: "nat \<Rightarrow> nat"
  env_run_flush :: "flush \<Rightarrow> 's live_state \<Rightarrow> (string, unit) result \<times> 's live_state"
  env_describe :: "memory_id list \<Rightarrow> ('s, unit) live_op"

definition bind_live :: "('s, 'a) live_op \<Rightarrow> ('a \<Rightarrow> ('s, 'b) live_op) \<Rightarrow> ('s, 'b) live_op" where
  "bind_live m f w = (case m w of (Inl e, w') \<Rightarrow> (Inl e, w') | (Inr a, w') \<Rightarrow> f a w')"

definition ret_live :: "'a \<Rightarrow> ('s, 'a) live_op" where
  "ret_live a w = (Inr a, w)"

definition on_platform :: "('s, 'a) server_op \<Rightarrow> ('s, 'a) live_op" where
  "on_platform m w = (case m (lv_platform w) of (r, p) \<Rightarrow> (r, w\<lparr>lv_platform := p\<rparr>))"

definition clock_now :: "'s session_env \<Rightarrow> ('s, timestamp) live_op" where
  "clock_now E w = (Inr (env_clock E (lv_clock_reads w)), w\<lparr>lv_clock_reads := lv_clock_reads w + 1\<rparr>)"

definition mint_id :: "'s session_env \<Rightarrow> ('s, nat) live_op" where
  "mint_id E w = (Inr (env_entropy E (lv_ids_minted w)), w\<lparr>lv_ids_minted := lv_ids_minted w + 1\<rparr>)"

definition set_sessions :: "(session_map \<Rightarrow> session_map) \<Rightarrow> ('s, unit) live_op" where
  "set_sessions f w = (Inr (), w\<lparr>lv_sessions := f (lv_sessions w)\<rparr>)"

definition read_store :: "('s \<Rightarrow> (store_error, 'a) result) \<Rightarrow> ('s, 'a) live_op" where
  "read_store f w = (case f (ps_store (lv_platform w)) of Inl e \<Rightarrow> (Inl (InstanceError_Store e), w) | Inr a \<Rightarrow> (Inr a, w))"

definition read_graph_live :: "(graph \<Rightarrow> 'a outcome) \<Rightarrow> ('s, 'a) live_op" where
  "read_graph_live f w = (case f (ps_graph (lv_platform w)) of Inl x \<Rightarrow> (Inl (InstanceError_Graph x), w) | Inr a \<Rightarrow> (Inr a, w))"

definition current_settings :: "'s session_env \<Rightarrow> ('s, settings) live_op" where
  "current_settings E = read_store (from_store (env_decode E) (op_read_from (env_ops E)))"

definition read_buffer :: "'s session_env \<Rightarrow> conversation_id \<Rightarrow> seq \<Rightarrow> seq \<Rightarrow> int \<Rightarrow> ('s, turn_view list) live_op" where
  "read_buffer E c start_seq session_start_seq budget =
     read_store (\<lambda>s. bounded_buffer_turns (env_prompt_tokens_of E) (op_read_from (env_ops E) s) c start_seq session_start_seq budget)"

definition fold_live :: "'s session_env \<Rightarrow> ('s, unit) live_op" where
  "fold_live E = on_platform (fold_log (env_jiff E) (env_ops E))"

definition commit_live ::
  "'s session_env \<Rightarrow> timestamp \<Rightarrow> event_payload list \<Rightarrow> ('s, event list) live_op" where
  "commit_live E t ps w =
     (case op_append (env_ops E) (ps_store (lv_platform w)) t EventSource_Orchestration ps of
        (Inl e, s) \<Rightarrow> (Inl (InstanceError_Store e), w\<lparr>lv_platform := (lv_platform w)\<lparr>ps_store := s\<rparr>\<rparr>)
      | (Inr es, s) \<Rightarrow> (Inr es, w\<lparr>lv_platform := (lv_platform w)\<lparr>ps_store := s\<rparr>\<rparr>))"

definition swallow :: "('s, 'a) live_op \<Rightarrow> ('s, unit) live_op" where
  "swallow m w = (Inr (), snd (m w))"

section \<open>Closing with a flush\<close>

text \<open>Casts of a setting: to \<open>usize\<close> and to \<open>u32\<close> they truncate.\<close>

definition as_usize :: "int \<Rightarrow> nat" where "as_usize n = nat (n mod 2 ^ 64)"
definition as_u32 :: "int \<Rightarrow> nat" where "as_u32 n = nat (n mod 2 ^ 32)"

definition flush_of :: "settings \<Rightarrow> conversation_id \<Rightarrow> open_session \<Rightarrow> turn_view list \<Rightarrow> memory_id list \<Rightarrow> flush" where
  "flush_of st c opened turns present_set =
     \<lparr>fl_conversation = c, fl_brief = os_brief opened, fl_session_started_at = os_started_at opened,
      fl_buffer = turns, fl_present_set = present_set,
      fl_max_steps = as_usize (ts_max_steps (st_turn st)),
      fl_block_timeout_seconds = as_usize (max (ts_block_timeout_seconds (st_turn st)) 0),
      fl_max_block_attempts = as_u32 (max (ts_max_block_attempts (st_turn st)) 1),
      fl_max_entry_chars = as_usize (max (me_max_entry_chars (st_memory st)) 1),
      fl_max_attachment_text_chars = as_usize (max (ts_max_attachment_text_chars (st_turn st)) 0)\<rparr>"

definition run_flush :: "'s session_env \<Rightarrow> conversation_id \<Rightarrow> flush \<Rightarrow> ('s, unit) live_op" where
  "run_flush E c f w =
     (case env_run_flush E f w of
        (Inl e, w') \<Rightarrow> (Inl (InstanceError_Turn (Some c) e), w')
      | (Inr _, w') \<Rightarrow> fold_live E w')"

definition own_turns :: "open_session \<Rightarrow> turn_view list \<Rightarrow> nat" where
  "own_turns opened turns = length (filter (\<lambda>t. os_session_start_seq opened \<le> tv_seq t) turns)"

definition end_session :: "'s session_env \<Rightarrow> conversation_id \<Rightarrow> session_id \<Rightarrow> session_end_cause \<Rightarrow> ('s, unit) live_op" where
  "end_session E c i cause =
     bind_live (clock_now E) (\<lambda>clock.
     bind_live (commit_live E clock [SessionEnded c i (Some cause)]) (\<lambda>_.
       fold_live E))"

definition flush_and_end ::
  "'s session_env \<Rightarrow> conversation_id \<Rightarrow> open_session \<Rightarrow> session_end_cause \<Rightarrow> ('s, bool) live_op" where
  "flush_and_end E c opened cause =
     bind_live (read_graph_live (\<lambda>g. Inr (session_is_open g (os_id opened)))) (\<lambda>is_open.
     if \<not> is_open then ret_live False
     else bind_live (current_settings E) (\<lambda>st.
          bind_live (read_buffer E c (os_start_seq opened) (os_session_start_seq opened)
            (cs_carryover_token_budget (st_compaction st))) (\<lambda>turns.
          let flushed = int (own_turns opened turns) \<ge> cs_flush_min_turns (st_compaction st)
          in bind_live
               (if flushed
                then bind_live (read_graph_live (\<lambda>g. Inr (session_participants_of g (os_id opened)))) (\<lambda>present_set.
                       run_flush E c (flush_of st c opened turns present_set))
                else ret_live ()) (\<lambda>_.
             bind_live (end_session E c (os_id opened) cause) (\<lambda>_.
               ret_live flushed)))))"

definition end_session_for_compaction :: "'s session_env \<Rightarrow> conversation_id \<Rightarrow> ('s, unit) live_op" where
  "end_session_for_compaction E c w =
     (case live_get c (lv_sessions w) of
        None \<Rightarrow> (Inr (), w)
      | Some opened \<Rightarrow>
          bind_live (set_sessions (live_remove c)) (\<lambda>_.
          bind_live (flush_and_end E c opened SessionEndCause_Compaction) (\<lambda>_.
            ret_live ())) w)"

definition force_compaction :: "'s session_env \<Rightarrow> conversation_locator \<Rightarrow> ('s, bool) live_op" where
  "force_compaction E l w =
     (case conversation_for_locator (ps_graph (lv_platform w)) l of
        None \<Rightarrow> (Inr False, w)
      | Some c \<Rightarrow>
          (if live_get c (lv_sessions w) = None then (Inr False, w)
           else bind_live (end_session_for_compaction E c) (\<lambda>_. ret_live True) w))"

section \<open>The checkpoint sweep\<close>

datatype checkpoint_trigger = CheckpointTrigger_Timer | CheckpointTrigger_SessionOpen conversation_id

definition trigger_skips :: "checkpoint_trigger \<Rightarrow> conversation_id \<Rightarrow> bool" where
  "trigger_skips trigger c = (trigger = CheckpointTrigger_SessionOpen c)"

definition applies_cooldown_and_audience :: "checkpoint_trigger \<Rightarrow> bool" where
  "applies_cooldown_and_audience trigger = (trigger = CheckpointTrigger_Timer)"

definition delta_chars :: "turn_view list \<Rightarrow> nat" where
  "delta_chars turns =
     sum_list (map (\<lambda>t. length (chars_of (tv_text t)))
       (filter (\<lambda>t. tv_role t = TurnRole_Participant \<or> tv_role t = TurnRole_Agent) turns))"

text \<open>The gates over a buffer that was read: the turns past the watermark, or none.\<close>

definition delta_gate ::
  "checkpoint_settings \<Rightarrow> conversation_id \<Rightarrow> open_session \<Rightarrow> session_map \<Rightarrow> timestamp \<Rightarrow> checkpoint_trigger \<Rightarrow> turn_view list
    \<Rightarrow> turn_view list option" where
  "delta_gate ck c opened live clock trigger turns =
     (let watermark = flushed_up_to turns (os_session_start_seq opened);
          anchor = (case List.find (\<lambda>t. tv_seq t = watermark) turns of Some t \<Rightarrow> tv_recorded_at t | None \<Rightarrow> os_started_at opened);
          start = partition_point (\<lambda>t. tv_seq t \<le> watermark) turns
      in if int (delta_chars (drop start turns)) < ck_min_delta_chars ck then None
         else if applies_cooldown_and_audience trigger \<and> clock - anchor < saturate64 (ck_cooldown_seconds ck * 1000) then None
         else if applies_cooldown_and_audience trigger \<and> \<not> list_ex (\<lambda>(other, s). other \<noteq> c \<and> os_last_activity s \<ge> anchor) live
         then None
         else Some (drop start turns))"

definition checkpoint_delta ::
  "'s session_env \<Rightarrow> conversation_id \<Rightarrow> open_session \<Rightarrow> settings \<Rightarrow> timestamp \<Rightarrow> checkpoint_trigger
    \<Rightarrow> ('s, turn_view list option) live_op" where
  "checkpoint_delta E c opened st clock trigger w =
     bind_live (read_buffer E c (os_start_seq opened) (os_session_start_seq opened) (cs_carryover_token_budget (st_compaction st)))
       (\<lambda>turns. ret_live (delta_gate (st_checkpoint st) c opened (lv_sessions w) clock trigger turns)) w"

fun checkpoint_loop ::
  "'s session_env \<Rightarrow> settings \<Rightarrow> timestamp \<Rightarrow> checkpoint_trigger \<Rightarrow> session_map \<Rightarrow> nat \<Rightarrow> ('s, nat) live_op" where
  "checkpoint_loop E st clock trigger [] flushed w = (Inr flushed, w)"
| "checkpoint_loop E st clock trigger ((c, opened) # candidates) flushed w =
     (if trigger_skips trigger c \<or> has_admitted_turn c (lv_turns w)
      then checkpoint_loop E st clock trigger candidates flushed w
      else case checkpoint_delta E c opened st clock trigger w of
             (Inl e, w) \<Rightarrow> (Inl e, w)
           | (Inr None, w) \<Rightarrow> checkpoint_loop E st clock trigger candidates flushed w
           | (Inr (Some _), w) \<Rightarrow>
               (if (case live_get c (lv_sessions w) of None \<Rightarrow> True | Some current \<Rightarrow> os_id current \<noteq> os_id opened)
                  \<or> has_admitted_turn c (lv_turns w)
                then checkpoint_loop E st clock trigger candidates flushed w
                else case checkpoint_delta E c opened st clock trigger w of
                       (Inl e, w) \<Rightarrow> (Inl e, w)
                     | (Inr None, w) \<Rightarrow> checkpoint_loop E st clock trigger candidates flushed w
                     | (Inr (Some delta), w) \<Rightarrow>
                         (case run_flush E c (flush_of st c opened delta
                                 (session_participants_of (ps_graph (lv_platform w)) (os_id opened))) w of
                            (Inl e, w) \<Rightarrow> (Inl e, w)
                          | (Inr _, w) \<Rightarrow> checkpoint_loop E st clock trigger candidates (flushed + 1) w)))"

definition checkpoint_live_sessions :: "'s session_env \<Rightarrow> checkpoint_trigger \<Rightarrow> ('s, nat) live_op" where
  "checkpoint_live_sessions E trigger =
     bind_live (clock_now E) (\<lambda>clock.
     bind_live (current_settings E) (\<lambda>st w.
       if \<not> ck_enabled (st_checkpoint st) then (Inr 0, w)
       else checkpoint_loop E st clock trigger (lv_sessions w) 0 w))"

end
