(* ===== verification/Session_Open.thy ===== *)
theory Session_Open
  imports Session_Life
begin

text \<open>
  Opening a session: reuse, recovery after a cold start, the close of a lapsed one, and the fresh session with its carried tail, its working
  set, its frozen brief and the wake-ups it raises (\<open>src/instance/session/lifecycle.rs\<close>); the idle sweep of
  \<open>src/instance/drivers.rs\<close>; a participant's arrival (\<open>src/instance/session/join.rs\<close>) and the preparation of a turn
  (\<open>src/instance/session/turn.rs\<close>).
\<close>

section \<open>The previous session's tail\<close>

record previous_tail =
  pt_seed :: tail_seed
  pt_last_activity :: timestamp

definition previous_session_tail ::
  "'s session_env \<Rightarrow> conversation_id \<Rightarrow> seq option \<Rightarrow> int \<Rightarrow> ('s, previous_tail option) live_op" where
  "previous_session_tail E c previous_start budget =
     (case previous_start of
        None \<Rightarrow> ret_live None
      | Some start \<Rightarrow>
          bind_live (read_buffer E c start start budget) (\<lambda>own.
            ret_live (map_option (\<lambda>seed. \<lparr>pt_seed = seed, pt_last_activity = tv_recorded_at (last own)\<rparr>)
              (carryover_tail own budget))))"

definition idle_gap_ms :: "settings \<Rightarrow> int" where
  "idle_gap_ms st = saturate64 (cs_idle_gap_seconds (st_compaction st) * 1000)"

text \<open>A reopening within the gap is warm and carries what the conversation touched; a cold one what was touched lately anywhere.\<close>

definition working_set_of ::
  "'s session_env \<Rightarrow> settings \<Rightarrow> conversation_id \<Rightarrow> timestamp \<Rightarrow> seq option \<Rightarrow> previous_tail option
    \<Rightarrow> ('s, memory_id list) live_op" where
  "working_set_of E st c clock previous_start tail =
     (if (case tail of Some t \<Rightarrow> clock - pt_last_activity t < idle_gap_ms st | None \<Rightarrow> False)
      then (case previous_start of
              Some start \<Rightarrow> read_store (\<lambda>s. session_touched (op_read_from (env_ops E) s) c start)
            | None \<Rightarrow> ret_live [])
      else let window_days = max (bs_cold_open_window_days (st_brief st)) 0;
               limit = as_usize (max (bs_cold_open_threads (st_brief st)) 0)
           in if window_days = 0 \<or> limit = 0 then ret_live []
              else bind_live (read_graph_live (\<lambda>_. lift_panic (from_millis (env_jiff E)
                       (saturate64 (clock - wrap64 (window_days * MILLIS_PER_DAY)))))) (\<lambda>since.
                     read_store (\<lambda>s. recent_touched (op_read_from (env_ops E) s) since limit)))"

section \<open>A fresh session\<close>

definition read_set :: "jiff \<Rightarrow> memory_id list \<Rightarrow> memory_id list \<Rightarrow> memory_id option \<Rightarrow> graph \<Rightarrow> memory_id list outcome" where
  "read_set J present_set working_set context g =
     andthen (self_memory J g) (\<lambda>m.
       Inr (present_set @ working_set @ (case context of Some i \<Rightarrow> [i] | None \<Rightarrow> [])
              @ (case m of Some v \<Rightarrow> [mv_id v] | None \<Rightarrow> [])))"

text \<open>The id of the raised turn is drawn also when there is nothing to raise; the source of ids has no other use for it.\<close>

definition raise_wakeups ::
  "'s session_env \<Rightarrow> settings \<Rightarrow> conversation_id \<Rightarrow> session_id \<Rightarrow> memory_id list \<Rightarrow> timestamp \<Rightarrow> ('s, unit) live_op" where
  "raise_wakeups E st c i present_set clock =
     bind_live (mint_id E) (\<lambda>turn.
       on_platform (open_drain (env_jiff E) (env_ops E) c i (TurnId turn) present_set
         (ss_max_wakeups_per_session (st_scheduler st)) clock))"

definition start_session ::
  "'s session_env \<Rightarrow> conversation_id \<Rightarrow> memory_id list \<Rightarrow> memory_id list \<Rightarrow> timestamp \<Rightarrow> settings
    \<Rightarrow> previous_tail option \<Rightarrow> memory_id list \<Rightarrow> ('s, open_session) live_op" where
  "start_session E c present_set speakers clock st tail working_set =
     bind_live (read_graph_live (\<lambda>g. Inr (context_for_conversation g c))) (\<lambda>context.
     bind_live (read_graph_live (read_set (env_jiff E) present_set working_set context)) (\<lambda>brief_memories.
     bind_live (env_describe E brief_memories) (\<lambda>_.
     bind_live (fold_live E) (\<lambda>_.
     bind_live (read_graph_live (\<lambda>g. compose (env_jiff E) (env_ulid_str E) g (st_brief st)
         \<lparr>rq_present_set = present_set, rq_speakers = speakers, rq_current_context = context,
          rq_working_set = working_set, rq_now = clock\<rparr>)) (\<lambda>brief.
     bind_live (mint_id E) (\<lambda>fresh.
     bind_live (commit_live E clock
         [SessionStarted c (SessionId fresh) present_set clock
            (map_option (\<lambda>t. \<lparr>cr_conversation = c, cr_turn = Some (seeded_from_turn (pt_seed t))\<rparr>) tail)
            brief working_set speakers]) (\<lambda>committed.
     bind_live (fold_live E) (\<lambda>_.
       let start = ev_seq (hd committed);
           opened = \<lparr>os_id = SessionId fresh, os_brief = brief, os_brief_memories = brief_memories,
             os_started_at = clock, os_last_activity = clock,
             os_start_seq = (case tail of Some t \<Rightarrow> seed_from_seq (pt_seed t) | None \<Rightarrow> start),
             os_session_start_seq = start\<rparr>
       in bind_live (set_sessions (live_insert c opened)) (\<lambda>_.
          bind_live (raise_wakeups E st c (SessionId fresh) present_set clock) (\<lambda>_.
            ret_live opened))))))))))"

definition open_fresh ::
  "'s session_env \<Rightarrow> conversation_id \<Rightarrow> memory_id list \<Rightarrow> memory_id list \<Rightarrow> timestamp \<Rightarrow> settings \<Rightarrow> ('s, open_session) live_op" where
  "open_fresh E c present_set speakers clock st =
     bind_live (read_graph_live (\<lambda>g. Inr (last_session_start g c))) (\<lambda>previous_start.
     bind_live (previous_session_tail E c previous_start (cs_carryover_token_budget (st_compaction st))) (\<lambda>tail.
     bind_live (working_set_of E st c clock previous_start tail) (\<lambda>working_set.
       start_session E c present_set speakers clock st tail working_set)))"

section \<open>Ensuring a session\<close>

definition recovered_session :: "open_session_view \<Rightarrow> timestamp \<Rightarrow> open_session" where
  "recovered_session r last_activity =
     \<lparr>os_id = ov_id r, os_brief = ov_brief r, os_brief_memories = [], os_started_at = ov_started_at r,
      os_last_activity = last_activity, os_start_seq = ov_start_seq r, os_session_start_seq = ov_start_seq r\<rparr>"

definition last_activity_of :: "open_session_view \<Rightarrow> turn_view list \<Rightarrow> timestamp" where
  "last_activity_of r turns = (if turns = [] then ov_started_at r else tv_recorded_at (last turns))"

text \<open>The recovery of a session left open in the log: resumed, or closed (\<open>None\<close>).\<close>

definition recover ::
  "'s session_env \<Rightarrow> settings \<Rightarrow> conversation_id \<Rightarrow> timestamp \<Rightarrow> open_session_view \<Rightarrow> ('s, open_session option) live_op" where
  "recover E st c clock r =
     bind_live (read_buffer E c (ov_start_seq r) (ov_start_seq r) (cs_carryover_token_budget (st_compaction st))) (\<lambda>turns.
       let last_activity = last_activity_of r turns;
           opened = recovered_session r last_activity
       in if \<not> ov_seeded r \<and> clock - last_activity \<le> idle_gap_ms st
          then let opened = opened\<lparr>os_last_activity := clock\<rparr>
               in bind_live (set_sessions (live_insert c opened)) (\<lambda>_. ret_live (Some opened))
          else bind_live (flush_and_end E c opened SessionEndCause_Recovery) (\<lambda>_. ret_live None))"

text \<open>A lapsed live session is taken out of the map and ended.\<close>

definition close_lapsed :: "'s session_env \<Rightarrow> conversation_id \<Rightarrow> ('s, unit) live_op" where
  "close_lapsed E c w =
     (case live_get c (lv_sessions w) of
        None \<Rightarrow> (Inr (), w)
      | Some old \<Rightarrow>
          bind_live (set_sessions (live_remove c)) (\<lambda>_.
          bind_live (flush_and_end E c old SessionEndCause_Idle) (\<lambda>_.
            ret_live ())) w)"

definition reuses :: "settings \<Rightarrow> timestamp \<Rightarrow> open_session option \<Rightarrow> bool" where
  "reuses st clock live = (case live of Some opened \<Rightarrow> clock - os_last_activity opened \<le> idle_gap_ms st | None \<Rightarrow> False)"

text \<open>Before the lifecycle lock is taken: the other conversations' working state is flushed when this one is about to open.\<close>

definition sweep_others :: "'s session_env \<Rightarrow> conversation_id \<Rightarrow> ('s, unit) live_op" where
  "sweep_others E c =
     bind_live (current_settings E) (\<lambda>st.
     bind_live (clock_now E) (\<lambda>clock w.
       if ck_flush_on_open (st_checkpoint st) \<and> \<not> reuses st clock (live_get c (lv_sessions w))
       then swallow (checkpoint_live_sessions E (CheckpointTrigger_SessionOpen c)) w
       else (Inr (), w)))"

text \<open>Under the lock.\<close>

definition ensure_locked ::
  "'s session_env \<Rightarrow> conversation_id \<Rightarrow> memory_id list \<Rightarrow> memory_id list \<Rightarrow> ('s, open_session) live_op" where
  "ensure_locked E c present_set speakers =
     bind_live (clock_now E) (\<lambda>clock.
     bind_live (current_settings E) (\<lambda>st w.
       let live = live_get c (lv_sessions w)
       in if reuses st clock live
          then (Inr ((the live)\<lparr>os_last_activity := clock\<rparr>), w\<lparr>lv_sessions := live_touch c clock (lv_sessions w)\<rparr>)
          else bind_live
                 (if live \<noteq> None then ret_live None else read_graph_live (\<lambda>g. last_open_session (env_jiff E) g c)) (\<lambda>recovered.
               bind_live (case recovered of None \<Rightarrow> ret_live None | Some r \<Rightarrow> recover E st c clock r) (\<lambda>resumed.
               case resumed of
                 Some opened \<Rightarrow> ret_live opened
               | None \<Rightarrow>
                   bind_live (on_platform (fire_due_now (env_jiff E) (env_ops E) clock)) (\<lambda>_.
                   bind_live (close_lapsed E c) (\<lambda>_.
                     open_fresh E c present_set speakers clock st)))) w))"

definition ensure_session ::
  "'s session_env \<Rightarrow> conversation_id \<Rightarrow> memory_id list \<Rightarrow> memory_id list \<Rightarrow> ('s, open_session) live_op" where
  "ensure_session E c present_set speakers =
     bind_live (sweep_others E c) (\<lambda>_. ensure_locked E c present_set speakers)"

section \<open>The idle sweep\<close>

definition sweep_activity ::
  "'s session_env \<Rightarrow> settings \<Rightarrow> conversation_id \<Rightarrow> open_session_view \<Rightarrow> ('s, timestamp) live_op" where
  "sweep_activity E st c r w =
     (case live_get c (lv_sessions w) of
        Some opened \<Rightarrow> (Inr (os_last_activity opened), w)
      | None \<Rightarrow>
          bind_live (read_buffer E c (ov_start_seq r) (ov_start_seq r) (cs_carryover_token_budget (st_compaction st))) (\<lambda>turns.
            ret_live (last_activity_of r turns)) w)"

text \<open>The handle of a candidate: the live one when it is this session, else a reconstructed one.\<close>

definition claim_stale :: "conversation_id \<Rightarrow> open_session_view \<Rightarrow> timestamp \<Rightarrow> ('s, open_session) live_op" where
  "claim_stale c r last_activity w =
     (case live_remove_if_matches c (ov_id r) (lv_sessions w) of
        (Some opened, m) \<Rightarrow> (Inr opened, w\<lparr>lv_sessions := m\<rparr>)
      | (None, m) \<Rightarrow> (Inr (recovered_session r last_activity), w\<lparr>lv_sessions := m\<rparr>))"

fun sweep_loop ::
  "'s session_env \<Rightarrow> settings \<Rightarrow> timestamp \<Rightarrow> (conversation_id \<times> open_session_view) list \<Rightarrow> nat \<Rightarrow> ('s, nat) live_op" where
  "sweep_loop E st clock [] ended w = (Inr ended, w)"
| "sweep_loop E st clock ((c, r) # candidates) ended w =
     (case sweep_activity E st c r w of
        (Inl e, w) \<Rightarrow> (Inl e, w)
      | (Inr last_activity, w) \<Rightarrow>
          (if clock - last_activity \<le> idle_gap_ms st then sweep_loop E st clock candidates ended w
           else if \<not> session_is_open (ps_graph (lv_platform w)) (ov_id r) then sweep_loop E st clock candidates ended w
           else case bind_live (claim_stale c r last_activity) (\<lambda>stale. flush_and_end E c stale SessionEndCause_Idle) w of
                  (Inl e, w) \<Rightarrow> (Inl e, w)
                | (Inr _, w) \<Rightarrow> sweep_loop E st clock candidates (ended + 1) w))"

definition sweep_idle_sessions :: "'s session_env \<Rightarrow> ('s, nat) live_op" where
  "sweep_idle_sessions E =
     bind_live (clock_now E) (\<lambda>clock.
     bind_live (current_settings E) (\<lambda>st.
     bind_live (read_graph_live (open_sessions (env_jiff E))) (\<lambda>candidates.
       sweep_loop E st clock candidates 0)))"

section \<open>An arrival\<close>

definition join_participant ::
  "'s session_env \<Rightarrow> bool \<Rightarrow> conversation_id \<Rightarrow> session_id \<Rightarrow> memory_id \<Rightarrow> ('s, unit) live_op" where
  "join_participant E has_model c session joiner =
     bind_live (if has_model then env_describe E [joiner] else ret_live ()) (\<lambda>_.
     bind_live (read_graph_live (\<lambda>g. Inr (session_participants_of g session))) (\<lambda>members.
     let present_set = (if joiner \<in> set members then members else members @ [joiner])
     in bind_live (clock_now E) (\<lambda>clock.
        bind_live (current_settings E) (\<lambda>st.
        bind_live (read_graph_live (\<lambda>g. compose_participant_brief (env_jiff E) (env_ulid_str E) g joiner present_set (st_brief st) clock)) (\<lambda>brief.
        bind_live (mint_id E) (\<lambda>turn.
        bind_live (commit_live E clock
            [ParticipantJoined c session joiner \<lparr>cr_conversation = c, cr_turn = Some (TurnId turn)\<rparr>,
             ConversationTurn c (TurnId turn) TurnRole_System (case brief of Some b \<Rightarrow> render b | None \<Rightarrow> [])
               (Some joiner) Initiation_Responding None (map_option (env_encode_brief E) brief) []]) (\<lambda>_.
          fold_live E)))))))"

text \<open>The presence of a message: whoever is not among the session's members joins, once.\<close>

fun join_loop ::
  "'s session_env \<Rightarrow> conversation_id \<Rightarrow> session_id \<Rightarrow> memory_id list \<Rightarrow> memory_id list \<Rightarrow> memory_id list \<Rightarrow> ('s, memory_id list) live_op" where
  "join_loop E c session members joined [] w = (Inr joined, w)"
| "join_loop E c session members joined (i # newcomers) w =
     (if i \<in> set members \<or> i \<in> set joined then join_loop E c session members joined newcomers w
      else case join_participant E True c session i w of
             (Inl e, w) \<Rightarrow> (Inl e, w)
           | (Inr _, w) \<Rightarrow> join_loop E c session members (joined @ [i]) newcomers w)"

record inbound_message =
  im_participant :: memory_id
  im_text :: string
  im_attachments :: "serialized list"

definition sync_presence ::
  "'s session_env \<Rightarrow> conversation_id \<Rightarrow> session_id \<Rightarrow> memory_id list \<Rightarrow> inbound_message list \<Rightarrow> ('s, memory_id list) live_op" where
  "sync_presence E c session present_set inbound w =
     join_loop E c session (session_participants_of (ps_graph (lv_platform w)) session) []
       (present_set @ map im_participant inbound) w"

text \<open>
  \<open>append_turn\<close>, for the inbound messages of a turn, each with the time it is recorded. A failure is the turn's, and its cause an opaque
  text, here its label.
\<close>

fun append_inbound :: "'s session_env \<Rightarrow> conversation_id \<Rightarrow> (inbound_message \<times> turn_id) list \<Rightarrow> ('s, unit) live_op" where
  "append_inbound E c [] = ret_live ()"
| "append_inbound E c ((m, turn) # ms) =
     bind_live (clock_now E) (\<lambda>clock w.
       case op_append (env_ops E) (ps_store (lv_platform w)) clock EventSource_Agent
           [ConversationTurn c turn TurnRole_Participant (im_text m) (Some (im_participant m)) Initiation_Responding None None
              (im_attachments m)] of
         (Inl _, s) \<Rightarrow> (Inl (InstanceError_Turn None ''store''), w\<lparr>lv_platform := (lv_platform w)\<lparr>ps_store := s\<rparr>\<rparr>)
       | (Inr _, s) \<Rightarrow> append_inbound E c ms (w\<lparr>lv_platform := (lv_platform w)\<lparr>ps_store := s\<rparr>\<rparr>))"

definition speakers_of :: "inbound_message list \<Rightarrow> memory_id list" where
  "speakers_of inbound = note_touched [] (map im_participant inbound)"

text \<open>The imprint interview is for the first session of the operator's channel.\<close>

definition turn_template :: "graph \<Rightarrow> conversation_id \<Rightarrow> session_id \<Rightarrow> prompt_template_name \<Rightarrow> prompt_template_name" where
  "turn_template g c session template =
     (if template = PromptTemplateName_Imprint \<and> has_earlier_session g c session then PromptTemplateName_Scaffold else template)"

record prepared_turn =
  pr_open :: open_session
  pr_template :: prompt_template_name
  pr_buffer :: "turn_view list"
  pr_settings :: settings

text \<open>A turn up to its first call of the model.\<close>

definition prepare_turn ::
  "'s session_env \<Rightarrow> conversation_id \<Rightarrow> memory_id list \<Rightarrow> (inbound_message \<times> turn_id) list \<Rightarrow> prompt_template_name
    \<Rightarrow> ('s, prepared_turn) live_op" where
  "prepare_turn E c present_set inbound template =
     bind_live (ensure_session E c present_set (speakers_of (map fst inbound))) (\<lambda>opened.
     bind_live (sync_presence E c (os_id opened) present_set (map fst inbound)) (\<lambda>_.
     bind_live (read_graph_live (\<lambda>g. Inr (turn_template g c (os_id opened) template))) (\<lambda>template.
     bind_live (current_settings E) (\<lambda>st.
     bind_live (read_buffer E c (os_start_seq opened) (os_session_start_seq opened) (cs_carryover_token_budget (st_compaction st))) (\<lambda>turns.
     bind_live (append_inbound E c inbound) (\<lambda>_.
       ret_live \<lparr>pr_open = opened, pr_template = template, pr_buffer = turns, pr_settings = st\<rparr>))))))"

end
