(* ===== verification/Turn_Buffer_Facts.thy ===== *)
theory Turn_Buffer_Facts
  imports Turn_Buffer
begin

text \<open>
  What the live buffer keeps: it grows at its end with the log, the trim keeps the newest exchange and nothing the budget does not pay for, and
  the working sets are the touched memories in the order of their first touch.
\<close>

section \<open>The buffer grows at its end\<close>

lemma buffer_event_turns:
  "\<exists>vs. bf_turns (buffer_event P c e b) = bf_turns b @ vs \<and> (\<forall>v \<in> set vs. tv_seq v = ev_seq e)"
  by (cases "ev_payload e") (auto simp: buffer_event_def system_view_def Let_def split: option.split)

lemma buffer_fold_turns:
  "\<exists>vs. bf_turns (fold (buffer_event P c) es b) = bf_turns b @ vs \<and> (\<forall>v \<in> set vs. tv_seq v \<in> ev_seq ` set es)
     \<and> (sorted (map ev_seq es) \<longrightarrow> sorted (map tv_seq vs))"
proof (induction es arbitrary: b)
  case (Cons e es)
  obtain us where us: "bf_turns (buffer_event P c e b) = bf_turns b @ us" "\<forall>v \<in> set us. tv_seq v = ev_seq e"
    using buffer_event_turns by blast
  obtain vs where vs: "bf_turns (fold (buffer_event P c) es (buffer_event P c e b)) = bf_turns (buffer_event P c e b) @ vs"
    "\<forall>v \<in> set vs. tv_seq v \<in> ev_seq ` set es" "sorted (map ev_seq es) \<longrightarrow> sorted (map tv_seq vs)"
    using Cons.IH by blast
  have "sorted (map tv_seq us)"
    using us(2) by (simp add: sorted_map sorted_wrt_iff_nth_less)
  then show ?case
    using us vs by (intro exI [of _ "us @ vs"]) (auto simp: sorted_append)
qed simp

lemma buffer_of_append:
  obtains vs where "buffer_of P c (es @ fs) = buffer_of P c es @ vs" "\<forall>v \<in> set vs. tv_seq v \<in> ev_seq ` set fs"
  using buffer_fold_turns [of P c fs "fold (buffer_event P c) es buffer_start"] by (auto simp: buffer_of_def)

lemma buffer_of_sorted: "sorted (map ev_seq es) \<Longrightarrow> sorted (map tv_seq (buffer_of P c es))"
  using buffer_fold_turns [of P c es buffer_start] by (auto simp: buffer_of_def buffer_start_def)

lemma buffer_of_seqs: "v \<in> set (buffer_of P c es) \<Longrightarrow> tv_seq v \<in> ev_seq ` set es"
  using buffer_fold_turns [of P c es buffer_start] by (auto simp: buffer_of_def buffer_start_def)

lemma partition_sorted:
  "sorted (map tv_seq ts) \<Longrightarrow> take (partition_point (\<lambda>t. tv_seq t < n) ts) ts = filter (\<lambda>t. tv_seq t < n) ts"
  "sorted (map tv_seq ts) \<Longrightarrow> drop (partition_point (\<lambda>t. tv_seq t < n) ts) ts = filter (\<lambda>t. n \<le> tv_seq t) ts"
proof -
  assume s: "sorted (map tv_seq ts)"
  have "filter (\<lambda>t. tv_seq t < n) ts = takeWhile (\<lambda>t. tv_seq t < n) ts \<and> filter (\<lambda>t. n \<le> tv_seq t) ts = dropWhile (\<lambda>t. tv_seq t < n) ts"
    using s
  proof (induction ts)
    case (Cons t ts)
    show ?case
    proof (cases "tv_seq t < n")
      case False
      with Cons.prems have "\<forall>u \<in> set ts. n \<le> tv_seq u" by fastforce
      then have "filter (\<lambda>t. tv_seq t < n) ts = []" "filter (\<lambda>t. n \<le> tv_seq t) ts = ts"
        by (auto simp: filter_empty_conv not_less)
      with False show ?thesis by simp
    qed (use Cons in simp)
  qed simp
  then show "take (partition_point (\<lambda>t. tv_seq t < n) ts) ts = filter (\<lambda>t. tv_seq t < n) ts"
    "drop (partition_point (\<lambda>t. tv_seq t < n) ts) ts = filter (\<lambda>t. n \<le> tv_seq t) ts"
    by (simp_all add: partition_point_def takeWhile_eq_take [symmetric] dropWhile_eq_drop [symmetric])
qed

section \<open>The trim\<close>

lemma measured_calls_append:
  "measured_calls (ts @ [t]) = measured_calls ts @ (case tv_prompt_tokens t of Some n \<Rightarrow> [(length ts, n)] | None \<Rightarrow> [])"
  by (auto simp: measured_calls_def enumerate_append_eq List.map_filter_simps List.map_filter_def split: option.split)

lemma measured_calls_spec:
  "(i, n) \<in> set (measured_calls ts) \<longleftrightarrow> i < length ts \<and> tv_prompt_tokens (ts ! i) = Some n"
proof (induction ts rule: rev_induct)
  case (snoc t ts)
  then show ?case by (auto simp: measured_calls_append nth_append less_Suc_eq split: option.splits)
qed (simp add: measured_calls_def List.map_filter_simps)

lemma measured_calls_sorted: "sorted_wrt (<) (map fst (measured_calls ts))"
proof (induction ts rule: rev_induct)
  case (snoc t ts)
  then show ?case by (auto simp: measured_calls_append sorted_wrt_append measured_calls_spec split: option.split)
qed (simp add: measured_calls_def List.map_filter_simps)

text \<open>The calls the loop admits are the newest ones, as far as the growth since each paid_for.\<close>

definition paid_for :: "nat \<Rightarrow> nat \<Rightarrow> nat \<times> nat \<Rightarrow> bool" where
  "paid_for budget last_tokens c \<longleftrightarrow> last_tokens - snd c \<le> budget"


lemma carry_loop_eq:
  "carry_loop budget last_tokens cs start admitted =
    (let kept = takeWhile (\<lambda>c. paid_for budget last_tokens (snd c)) cs
     in (fold (\<lambda>c s. min (fst (snd c) + 1) s) kept start, if kept = [] then admitted else fst (last kept) = 0))"
  by (induction budget last_tokens cs start admitted rule: carry_loop.induct) (auto simp: paid_for_def Let_def)

lemma fold_min_desc:
  fixes xs :: "(nat \<times> 'b) list"
  shows "sorted_wrt (\<lambda>a b. fst b < fst a) xs \<Longrightarrow>
   fold (\<lambda>c s. min (fst c + 1) s) xs start = (if xs = [] then start else min (fst (last xs) + 1) start)"
proof (induction xs rule: rev_induct)
  case (snoc x xs)
  show ?case
  proof (cases "xs = []")
    case False
    with snoc.prems have "fst x < fst (last xs)" by (auto simp: sorted_wrt_append)
    then have "min (fst x + 1) (min (fst (last xs) + 1) start) = min (fst x + 1) start" by (simp add: min_def)
    with snoc False show ?thesis by (simp add: sorted_wrt_append)
  qed simp
qed simp

lemma carryover_start_eq:
  fixes turns budget
  defines "ms \<equiv> measured_calls turns"
  defines "kept \<equiv> takeWhile (paid_for (nat budget) (snd (last ms))) (rev ms)"
  shows "carryover_start turns budget =
    (if ms = [] then length turns - 1 else if length kept = length ms then 0 else min (fst (last kept) + 1) (length turns - 1))"
    and "ms \<noteq> [] \<Longrightarrow> kept \<noteq> []"
proof -
  show ne: "kept \<noteq> []" if "ms \<noteq> []"
    using that by (cases ms rule: rev_cases) (simp_all add: kept_def paid_for_def)
  let ?cs = "rev (enumerate 0 ms)" and ?f = "paid_for (nat budget) (snd (last ms))"
  let ?kept = "takeWhile (\<lambda>c. ?f (snd c)) ?cs"
  have kept: "map snd ?kept = kept"
  proof -
    have "rev ms = map snd ?cs" by (simp add: rev_map [symmetric])
    then have "kept = takeWhile ?f (map snd ?cs)" by (simp only: kept_def)
    then show ?thesis by (simp only: takeWhile_map comp_def)
  qed
  then have len: "length ?kept = length kept" by (metis length_map)
  have desc: "sorted_wrt (\<lambda>a b. fst b < fst a) kept"
  proof -
    have "sorted_wrt (\<lambda>a b. fst b < fst a) (rev ms)"
      using measured_calls_sorted [of turns] by (simp add: ms_def sorted_wrt_rev sorted_wrt_map)
    then show ?thesis unfolding kept_def by (metis sorted_wrt_append takeWhile_dropWhile_id)
  qed
  have "fold (\<lambda>c s. min (fst (snd c) + 1) s) ?kept start = fold (\<lambda>c s. min (fst c + 1) s) kept start" for start
    unfolding kept [symmetric] by (simp add: fold_map comp_def)
  with fold_min_desc [OF desc] have start: "fold (\<lambda>c s. min (fst (snd c) + 1) s) ?kept start = (if kept = [] then start else min (fst (last kept) + 1) start)"
    for start by simp
  have oldest: "fst (last ?kept) = 0 \<longleftrightarrow> length kept = length ms" if "ms \<noteq> []"
  proof -
    from ne [OF that] len have ne': "?kept \<noteq> []" by auto
    have le: "length kept \<le> length ms" using length_takeWhile_le [of ?f "rev ms"] by (simp add: kept_def)
    have "last ?kept = ?cs ! (length kept - 1)"
      using ne' len ne [OF that] by (simp add: last_conv_nth) (rule takeWhile_nth, simp)
    moreover have "?cs ! (length kept - 1) = (length ms - length kept, ms ! (length ms - length kept))"
      using le ne [OF that] by (cases kept) (simp_all add: rev_nth nth_enumerate_eq)
    ultimately show ?thesis using le by auto
  qed
  show "carryover_start turns budget =
    (if ms = [] then length turns - 1 else if length kept = length ms then 0 else min (fst (last kept) + 1) (length turns - 1))"
  proof (cases "ms = []")
    case False
    have kept': "?kept \<noteq> []" using ne [OF False] len by auto
    have bud: "nat (max budget 0) = nat budget" by (cases "budget \<le> 0") simp_all
    show ?thesis
      using False start oldest [OF False] ne [OF False] kept'
      by (cases "length kept = length ms") (simp_all add: carryover_start_def ms_def [symmetric] carry_loop_eq Let_def bud)
  qed (simp add: carryover_start_def ms_def [symmetric])
qed

lemma takeWhile_rev_later:
  fixes ms :: "(nat \<times> 'b) list"
  assumes "sorted_wrt (<) (map fst ms)" "kept = takeWhile P (rev ms)" "kept \<noteq> []" "c \<in> set ms" "fst (last kept) \<le> fst c"
  shows "P c"
proof -
  have split: "rev ms = kept @ dropWhile P (rev ms)" by (simp add: assms(2))
  have "sorted_wrt (\<lambda>a b. fst b < fst a) (rev ms)" using assms(1) by (simp add: sorted_wrt_rev sorted_wrt_map)
  then have "sorted_wrt (\<lambda>a b. fst b < fst a) (kept @ dropWhile P (rev ms))" by (simp only: split [symmetric])
  then have "\<forall>d \<in> set (dropWhile P (rev ms)). fst d < fst (last kept)"
    using assms(3) by (auto simp: sorted_wrt_append)
  then have "c \<notin> set (dropWhile P (rev ms))" using assms(5) leD by blast
  moreover have "c \<in> set (kept @ dropWhile P (rev ms))" using assms(4) by (simp only: split [symmetric] set_rev)
  ultimately have "c \<in> set kept" by simp
  then show ?thesis unfolding assms(2) by (rule set_takeWhileD [THEN conjunct2])
qed

lemma carryover_trim:
  fixes turns budget
  defines "k \<equiv> carryover_start turns budget" and "L \<equiv> snd (last (measured_calls turns))"
  assumes "turns \<noteq> []"
  shows "k < length turns"
    and "k \<le> i \<Longrightarrow> i < length turns \<Longrightarrow> tv_prompt_tokens (turns ! i) = Some n \<Longrightarrow> L - n \<le> nat budget"
proof -
  let ?ms = "measured_calls turns" and ?p = "paid_for (nat budget) L"
  let ?kept = "takeWhile ?p (rev ?ms)"
  note eq = carryover_start_eq [of turns budget, folded k_def L_def]
  show lt: "k < length turns" using assms(3) by (cases turns) (auto simp: eq(1))
  have last_kept: "last ?kept \<in> set ?kept" if "?ms \<noteq> []" using eq(2) [OF that] by simp
  have call: "fst (last ?kept) < length turns \<and> tv_prompt_tokens (turns ! fst (last ?kept)) = Some (snd (last ?kept)) \<and> ?p (last ?kept)"
    if "?ms \<noteq> []"
  proof -
    have "last ?kept \<in> set ?ms \<and> ?p (last ?kept)" using set_takeWhileD [OF last_kept [OF that]] by simp
    then show ?thesis using measured_calls_spec [of "fst (last ?kept)" "snd (last ?kept)" turns] by simp
  qed
  show "L - n \<le> nat budget" if i: "k \<le> i" "i < length turns" "tv_prompt_tokens (turns ! i) = Some n"
  proof -
    have c: "(i, n) \<in> set ?ms" using i(2,3) by (simp add: measured_calls_spec)
    then have ne: "?ms \<noteq> []" by auto
    have "?p (i, n)"
    proof (cases "length ?kept = length ?ms")
      case True
      have "?kept = rev ?ms" using takeWhile_eq_take [of ?p "rev ?ms"] True by simp
      then have "set ?kept = set ?ms" by (simp only: set_rev)
      then have "(i, n) \<in> set ?kept" using c by (simp only:)
      then show ?thesis by (rule set_takeWhileD [THEN conjunct2])
    next
      case False
      then have "k = min (fst (last ?kept) + 1) (length turns - 1)" using ne by (simp add: eq(1))
      then have "fst (last ?kept) \<le> i" using call [OF ne] i(1,2) by auto
      then show ?thesis using takeWhile_rev_later [OF measured_calls_sorted refl eq(2) [OF ne] c] by simp
    qed
    then show ?thesis by (simp add: paid_for_def)
  qed
qed

lemma carryover_cut:
  fixes turns budget
  defines "k \<equiv> carryover_start turns budget" and "L \<equiv> snd (last (measured_calls turns))"
  assumes "i < length turns" "tv_prompt_tokens (turns ! i) = Some m" "nat budget < L - m"
  shows "\<exists>i j n. i < j \<and> j < length turns
    \<and> (\<exists>m. tv_prompt_tokens (turns ! i) = Some m \<and> nat budget < L - m)
    \<and> tv_prompt_tokens (turns ! j) = Some n
    \<and> (\<forall>x n. i < x \<longrightarrow> x < length turns \<longrightarrow> tv_prompt_tokens (turns ! x) = Some n \<longrightarrow> j \<le> x \<and> L - n \<le> nat budget)
    \<and> k = min (j + 1) (length turns - 1)"
proof -
  let ?ms = "measured_calls turns" and ?p = "paid_for (nat budget) L"
  let ?kept = "takeWhile ?p (rev ?ms)"
  note eq = carryover_start_eq [of turns budget, folded k_def L_def]
  have over: "(i, m) \<in> set ?ms" "\<not> ?p (i, m)" using assms(3-5) by (simp_all add: measured_calls_spec paid_for_def)
  then have ne: "?ms \<noteq> []" by auto
  have rest: "dropWhile ?p (rev ?ms) \<noteq> []" using over by (auto simp: dropWhile_eq_Nil_conv)
  obtain u m' where d: "hd (dropWhile ?p (rev ?ms)) = (u, m')" by (cases "hd (dropWhile ?p (rev ?ms))")
  with rest obtain others where dw: "dropWhile ?p (rev ?ms) = (u, m') # others" by (metis list.exhaust_sel)
  have np: "\<not> ?p (u, m')" using hd_dropWhile [OF rest] d by simp
  have um: "(u, m') \<in> set ?ms" using dw set_dropWhileD [of "(u, m')" ?p "rev ?ms"] by simp
  have kne: "?kept \<noteq> []" using eq(2) [OF ne] by simp
  obtain j n where jn: "last ?kept = (j, n)" by (cases "last ?kept")
  then have jin: "(j, n) \<in> set ?kept" using last_in_set [OF kne] by simp
  then have jm: "(j, n) \<in> set ?ms" using set_takeWhileD [OF jin] by simp
  have desc: "sorted_wrt (\<lambda>a b. fst b < fst a) (?kept @ (u, m') # others)"
    using measured_calls_sorted [of turns] dw takeWhile_dropWhile_id [of ?p "rev ?ms"]
    by (simp add: sorted_wrt_rev sorted_wrt_map)
  then have uj: "u < j" using jin by (force simp: sorted_wrt_append)
  have later: "j \<le> x \<and> L - c \<le> nat budget" if x: "u < x" "x < length turns" "tv_prompt_tokens (turns ! x) = Some c" for x c
  proof -
    have "(x, c) \<in> set (rev ?ms)" using x by (simp add: measured_calls_spec)
    then have "(x, c) \<in> set (?kept @ (u, m') # others)" using dw takeWhile_dropWhile_id [of ?p "rev ?ms"] by metis
    moreover have "(x, c) \<notin> set ((u, m') # others)" using desc x(1) by (auto simp: sorted_wrt_append)
    ultimately have xk: "(x, c) \<in> set ?kept" by auto
    then have "?p (x, c)" by (rule set_takeWhileD [THEN conjunct2])
    moreover have "j \<le> x"
    proof (cases "(x, c) = (j, n)")
      case False
      obtain front where f: "?kept = front @ [(j, n)]" using kne jn by (metis append_butlast_last_id)
      with xk False have "(x, c) \<in> set front" by auto
      with desc f show ?thesis by (force simp: sorted_wrt_append)
    qed simp
    ultimately show ?thesis by (simp add: paid_for_def)
  qed
  have "length ?kept \<noteq> length ?ms"
  proof
    assume "length ?kept = length ?ms"
    then have "?kept = rev ?ms" using takeWhile_eq_take [of ?p "rev ?ms"] by simp
    with dw np um show False by (auto simp: takeWhile_eq_all_conv)
  qed
  then have "k = min (j + 1) (length turns - 1)" using ne jn by (simp add: eq(1))
  moreover have "tv_prompt_tokens (turns ! u) = Some m'" "nat budget < L - m'"
    using um np by (auto simp: measured_calls_spec paid_for_def)
  moreover have "j < length turns" "tv_prompt_tokens (turns ! j) = Some n" using jm by (auto simp: measured_calls_spec)
  ultimately show ?thesis using uj later by blast
qed

lemma carryover_whole:
  assumes "measured_calls turns \<noteq> []"
    and "\<And>i n. i < length turns \<Longrightarrow> tv_prompt_tokens (turns ! i) = Some n \<Longrightarrow> snd (last (measured_calls turns)) - n \<le> nat budget"
  shows "carryover_start turns budget = 0"
proof -
  have "takeWhile (paid_for (nat budget) (snd (last (measured_calls turns)))) (rev (measured_calls turns)) = rev (measured_calls turns)"
    using assms(2) by (auto simp: takeWhile_eq_all_conv paid_for_def measured_calls_spec)
  from arg_cong [OF this, of length] show ?thesis using assms(1) by (simp only: carryover_start_eq(1) length_rev if_False refl if_True)
qed

lemma measured_tokens: "map snd (measured_calls ts) = List.map_filter tv_prompt_tokens ts"
proof (induction ts rule: rev_induct)
  case (snoc t ts)
  then show ?case by (simp add: measured_calls_append List.map_filter_def split: option.split)
qed (simp add: measured_calls_def List.map_filter_simps)

section \<open>The working sets\<close>

text \<open>The elements of a list in the order of their first occurrence.\<close>

definition first_occurrences :: "'a list \<Rightarrow> 'a list" where
  "first_occurrences xs = rev (remdups (rev xs))"

lemma first_occurrences_append:
  "first_occurrences (xs @ ys) = first_occurrences xs @ filter (\<lambda>y. y \<notin> set xs) (first_occurrences ys)"
proof (induction ys rule: rev_induct)
  case (snoc y ys)
  then show ?case by (auto simp: first_occurrences_def)
qed (simp add: first_occurrences_def)

lemma first_occurrences_simps [simp]:
  "first_occurrences [] = []" "first_occurrences [x] = [x]" "set (first_occurrences xs) = set xs" "distinct (first_occurrences xs)"
  by (simp_all add: first_occurrences_def)

lemma note_touched_eq: "note_touched (first_occurrences xs) ids = first_occurrences (xs @ ids)"
proof (induction ids arbitrary: xs)
  case (Cons i ids)
  have "first_occurrences (xs @ [i]) = (if i \<in> set xs then first_occurrences xs else first_occurrences xs @ [i])"
    by (simp add: first_occurrences_append)
  with Cons.IH [of "xs @ [i]"] show ?case by simp
qed simp

definition touches :: "(conversation_id \<Rightarrow> bool) \<Rightarrow> event \<Rightarrow> memory_id list" where
  "touches p e = (case ev_payload e of LuaExecuted c _ _ _ touched _ _ \<Rightarrow> if p c then touched else [] | _ \<Rightarrow> [])"

lemma fold_touched_in:
  "fold (touched_in c) es (first_occurrences xs) = first_occurrences (xs @ concat (map (touches (\<lambda>d. d = c)) es))"
proof (induction es arbitrary: xs)
  case (Cons e es)
  have "touched_in c e (first_occurrences xs) = first_occurrences (xs @ touches (\<lambda>d. d = c) e)"
    by (cases "ev_payload e") (auto simp: touched_in_def touches_def note_touched_eq)
  with Cons.IH [of "xs @ touches (\<lambda>d. d = c) e"] show ?case by simp
qed simp

lemma note_limited_eq:
  "length (first_occurrences xs) < limit \<Longrightarrow>
   note_limited limit (first_occurrences xs) ids =
     (if length (first_occurrences (xs @ ids)) < limit then Inr (first_occurrences (xs @ ids))
      else Inl (take limit (first_occurrences (xs @ ids))))"
proof (induction ids arbitrary: xs)
  case (Cons i ids)
  show ?case
  proof (cases "i \<in> set xs")
    case True
    then have e: "first_occurrences (xs @ [i]) = first_occurrences xs" by (simp add: first_occurrences_append)
    with Cons.IH [of "xs @ [i]"] Cons.prems True show ?thesis by simp
  next
    case False
    then have e: "first_occurrences (xs @ [i]) = first_occurrences xs @ [i]" by (simp add: first_occurrences_append)
    have more: "first_occurrences (xs @ i # ids) = (first_occurrences xs @ [i]) @ filter (\<lambda>y. y \<notin> set (xs @ [i])) (first_occurrences ids)"
      using first_occurrences_append [of "xs @ [i]" ids] e by simp
    show ?thesis
    proof (cases "Suc (length (first_occurrences xs)) = limit")
      case True
      then have "limit - length (first_occurrences xs) = Suc 0" by linarith
      with True show ?thesis using False more by simp
    next
      case ne: False
      with Cons.prems have "length (first_occurrences (xs @ [i])) < limit" using e by simp
      from Cons.IH [OF this] show ?thesis using False ne e by simp
    qed
  qed
qed simp

lemma recent_loop_eq:
  "length (first_occurrences xs) < limit \<Longrightarrow>
   recent_loop since limit (first_occurrences xs) es =
     take limit (first_occurrences (xs @ concat (map (touches (\<lambda>_. True)) (filter (\<lambda>e. since \<le> ev_recorded_at e) es))))"
proof (induction es arbitrary: xs)
  case (Cons e es)
  let ?ids = "touches (\<lambda>_. True) e" and ?rest = "concat (map (touches (\<lambda>_. True)) (filter (\<lambda>e. since \<le> ev_recorded_at e) es))"
  show ?case
  proof (cases "ev_recorded_at e < since")
    case False
    have step: "recent_loop since limit (first_occurrences xs) (e # es) =
        (case note_limited limit (first_occurrences xs) ?ids of Inl full \<Rightarrow> full | Inr grown \<Rightarrow> recent_loop since limit grown es)"
      using False by (cases "ev_payload e") (simp_all add: touches_def)
    show ?thesis
    proof (cases "length (first_occurrences (xs @ ?ids)) < limit")
      case True
      with Cons.IH [of "xs @ ?ids"] note_limited_eq [OF Cons.prems, of ?ids] False show ?thesis unfolding step by simp
    next
      case ge: False
      with note_limited_eq [OF Cons.prems, of ?ids] have "recent_loop since limit (first_occurrences xs) (e # es)
          = take limit (first_occurrences (xs @ ?ids))" unfolding step by simp
      moreover have "first_occurrences (xs @ ?ids @ ?rest) = first_occurrences (xs @ ?ids) @ filter (\<lambda>y. y \<notin> set (xs @ ?ids)) (first_occurrences ?rest)"
        using first_occurrences_append [of "xs @ ?ids" ?rest] by simp
      ultimately show ?thesis using ge False by (simp add: not_less)
    qed
  qed (use Cons in simp)
qed simp

section \<open>The watermark\<close>

lemma find_rev_last:
  "List.find p (rev xs) = Some x \<Longrightarrow> \<exists>ys zs. xs = ys @ x # zs \<and> p x \<and> (\<forall>z \<in> set zs. \<not> p z)"
proof (induction xs rule: rev_induct)
  case (snoc y xs)
  show ?case
  proof (cases "p y")
    case False
    with snoc obtain ys zs where "xs = ys @ x # zs" "p x" "\<forall>z \<in> set zs. \<not> p z" by auto
    with False show ?thesis by (intro exI [of _ ys] exI [of _ "zs @ [y]"]) auto
  next
    case True
    with snoc.prems have "y = x" "p x" by auto
    then show ?thesis by (intro exI [of _ xs] exI [of _ "[]"]) simp
  qed
qed simp

text \<open>Past the watermark there is no flush turn.\<close>

lemma past_watermark:
  assumes "sorted (map tv_seq turns)" "t \<in> set turns" "flushed_up_to turns start < tv_seq t"
  shows "\<not> produced_by_flush (tv_produced_by t)"
proof (cases "List.find (\<lambda>t. produced_by_flush (tv_produced_by t)) (rev turns)")
  case None
  then show ?thesis using assms(2) by (auto simp: find_None_iff)
next
  case (Some f)
  from find_rev_last [OF this] obtain ys zs where
    f: "turns = ys @ f # zs" "\<forall>z \<in> set zs. \<not> produced_by_flush (tv_produced_by z)" by blast
  have "\<forall>y \<in> set (ys @ [f]). tv_seq y \<le> tv_seq f" using assms(1) f(1) by (auto simp: sorted_append)
  with assms(2,3) f Some show ?thesis by (auto simp: flushed_up_to_def)
qed

section \<open>Properties\<close>

lemma carryover_start_le: "carryover_start turns budget \<le> length turns"
proof (cases "turns = []")
  case True
  then show ?thesis using carryover_start_eq(1) [of turns budget] by (simp add: measured_calls_def List.map_filter_simps)
qed (use carryover_trim(1) in \<open>simp add: less_imp_le\<close>)

lemma bound_tail_append:
  assumes "\<forall>v \<in> set vs. n \<le> tv_seq v"
  shows "bound_tail (ts @ vs) n budget = bound_tail ts n budget @ vs"
proof -
  have tw: "takeWhile (\<lambda>t. tv_seq t < n) (ts @ vs) = takeWhile (\<lambda>t. tv_seq t < n) ts"
  proof -
    have "takeWhile (\<lambda>t. tv_seq t < n) vs = []" using assms by (cases vs) auto
    moreover have "takeWhile (\<lambda>t. tv_seq t < n) ts = ts" if "\<forall>x \<in> set ts. tv_seq x < n"
      using that by (simp only: takeWhile_eq_all_conv)
    ultimately show ?thesis by (cases "\<forall>x \<in> set ts. tv_seq x < n") (simp_all only: takeWhile_append if_True if_False if_cancel append_Nil2)
  qed
  let ?tail = "takeWhile (\<lambda>t. tv_seq t < n) ts"
  have le: "length ?tail \<le> length ts" by (rule length_takeWhile_le)
  have "carryover_start ?tail budget \<le> length ?tail" by (rule carryover_start_le)
  then have k: "carryover_start ?tail budget \<le> length ts" using le by simp
  have t1: "take (length ?tail) ts = ?tail" by (rule takeWhile_eq_take [symmetric])
  then have t2: "take (length ?tail) (ts @ vs) = ?tail" using le by simp
  show ?thesis unfolding bound_tail_def partition_point_def Let_def tw t1 t2 using k by simp
qed

lemma consecutive_sorted: "consecutive es \<Longrightarrow> sorted (map ev_seq (drop k es))"
  by (simp add: consecutive_def drop_map [symmetric] del: upt_Suc)

lemma bounded_read:
  "sq_inv J S s \<Longrightarrow> bounded_buffer_turns P (sq_read_from J S s) c start session_start budget
     = Inr (bound_tail (buffer_of P c (drop (start - 1) (sq_log J S s))) session_start budget)"
  by (simp add: bounded_buffer_turns_def buffer_turns_def sq.read_from_drop)

text \<open>
  C16: the prompt's suffix only grows at its end. Once a session has started, whatever the log gains, each later read of its bounded buffer is the
  earlier one with turns added behind it: no replayed turn changes, moves or leaves, and the carried tail is trimmed where it was.
\<close>

theorem live_buffer_grows_at_its_end:
  assumes "sq_inv J S s" "sq_inv J S s'" "sq_log J S s' = sq_log J S s @ es" "session_start \<le> length (sq_log J S s) + 1"
    and "bounded_buffer_turns P (sq_read_from J S s) c start session_start budget = Inr turns"
  shows "\<exists>added. bounded_buffer_turns P (sq_read_from J S s') c start session_start budget = Inr (turns @ added)"
proof -
  let ?L = "sq_log J S s"
  have reads: "sq_read_from J S s start = Inr (drop (start - 1) ?L)"
    "sq_read_from J S s' start = Inr (drop (start - 1) ?L @ drop (start - 1 - length ?L) es)"
    by (rule sq.read_from_drop [OF assms(1)], simp only: sq.read_from_drop [OF assms(2)] assms(3) drop_append)
  obtain vs where vs: "buffer_of P c (drop (start - 1) ?L @ drop (start - 1 - length ?L) es) = buffer_of P c (drop (start - 1) ?L) @ vs"
    "\<forall>v \<in> set vs. tv_seq v \<in> ev_seq ` set (drop (start - 1 - length ?L) es)"
    by (rule buffer_of_append)
  have "length ?L < ev_seq e" if "e \<in> set es" for e
  proof -
    from that obtain i where "i < length es" "es ! i = e" by (auto simp: in_set_conv_nth)
    moreover have "consecutive (?L @ es)" using sq_inv_consecutive [OF assms(2)] assms(3) by simp
    ultimately show ?thesis using consecutive_nth [of "?L @ es" "length ?L + i"] by simp
  qed
  then have "\<forall>v \<in> set vs. session_start \<le> tv_seq v"
    using vs(2) assms(4) by (fastforce dest: in_set_dropD)
  note grow = bound_tail_append [OF this, of "buffer_of P c (drop (start - 1) ?L)" budget]
  have "turns = bound_tail (buffer_of P c (drop (start - 1) ?L)) session_start budget"
    using assms(5) by (simp add: bounded_buffer_turns_def buffer_turns_def reads(1))
  then show ?thesis
    by (intro exI [of _ vs]) (simp only: bounded_buffer_turns_def buffer_turns_def reads(2) andthen_simps vs(1) grow)
qed

text \<open>
  C17: what a session carries over is bounded, and cut exactly where the budget ends. The bounded buffer is a tail of the carried turns followed
  by all turns of the session itself; the newest carried turn always rides, and every call recorded in the tail is affordable: the
  newest call's prompt is at most the budget larger. Without a recorded call nothing else rides. If every recorded call is affordable all
  turns ride. Otherwise the cut lies just after the call \<open>j\<close>, the first one past the newest unaffordable call \<open>i\<close> (or before
  the newest turn, where \<open>j\<close> is that turn).
\<close>

theorem carried_tail_within_budget:
  fixes session_start :: seq and whole :: "turn_view list" and budget :: int
  assumes "sq_inv J S s" "buffer_turns P (sq_read_from J S s) c start = Inr whole"
  defines "carried \<equiv> filter (\<lambda>t. tv_seq t < session_start) whole"
  defines "calls \<equiv> List.map_filter tv_prompt_tokens carried"
  defines "affordable \<equiv> \<lambda>n. last calls - n \<le> nat budget"
  shows "\<exists>left kept. bounded_buffer_turns P (sq_read_from J S s) c start session_start budget
        = Inr (kept @ filter (\<lambda>t. session_start \<le> tv_seq t) whole)
    \<and> carried = left @ kept \<and> (carried = [] \<or> kept \<noteq> [])
    \<and> (\<forall>n \<in> set (List.map_filter tv_prompt_tokens kept). affordable n)
    \<and> (if calls = [] then length kept \<le> 1
       else if list_all affordable calls then left = []
       else \<exists>i j. i < j \<and> j < length carried
              \<and> (\<exists>m. tv_prompt_tokens (carried ! i) = Some m \<and> \<not> affordable m)
              \<and> (\<exists>n. tv_prompt_tokens (carried ! j) = Some n)
              \<and> (\<forall>x n. i < x \<longrightarrow> x < length carried \<longrightarrow> tv_prompt_tokens (carried ! x) = Some n \<longrightarrow> j \<le> x \<and> affordable n)
              \<and> length left = min (j + 1) (length carried - 1))"
proof -
  let ?k = "carryover_start carried budget"
  have "sorted (map tv_seq whole)"
    using assms(2) sq.read_from_drop [OF assms(1)] consecutive_sorted [OF sq_inv_consecutive [OF assms(1)]]
    by (auto simp: buffer_turns_def buffer_of_sorted)
  note split = partition_sorted [OF this, of session_start, folded carried_def]
  have whole: "whole = carried @ filter (\<lambda>t. session_start \<le> tv_seq t) whole"
    using append_take_drop_id [of "partition_point (\<lambda>t. tv_seq t < session_start) whole" whole] unfolding split by (rule sym)
  have "bound_tail whole session_start budget = drop ?k whole" by (simp add: bound_tail_def split(1))
  also have "\<dots> = drop ?k carried @ filter (\<lambda>t. session_start \<le> tv_seq t) whole"
    using carryover_start_le [of carried budget] arg_cong [OF whole, of "drop ?k"] by simp
  finally have read: "bounded_buffer_turns P (sq_read_from J S s) c start session_start budget
      = Inr (drop ?k carried @ filter (\<lambda>t. session_start \<le> tv_seq t) whole)"
    using assms(2) by (simp add: bounded_buffer_turns_def)
  have calls: "calls = map snd (measured_calls carried)" by (simp add: calls_def measured_tokens)
  show ?thesis
  proof (cases "calls = []")
    case True
    then have "measured_calls carried = []" by (simp add: calls)
    then have "?k = length carried - 1" by (simp add: carryover_start_eq(1))
    moreover have "List.map_filter tv_prompt_tokens (drop ?k carried) = []"
    proof -
      have "List.map_filter tv_prompt_tokens (take ?k carried @ drop ?k carried) = []"
        using True by (simp only: append_take_drop_id calls_def)
      then have "List.map_filter tv_prompt_tokens (take ?k carried) @ List.map_filter tv_prompt_tokens (drop ?k carried) = []"
        by (simp only: List.map_filter_def filter_append map_append)
      then show ?thesis by (simp only: append_is_Nil_conv)
    qed
    ultimately show ?thesis
      by - (rule exI [of _ "take ?k carried"], rule exI [of _ "drop ?k carried"],
          use read True in \<open>cases carried; simp add: List.map_filter_simps\<close>)
  next
    case False
    then have ms: "measured_calls carried \<noteq> []" and ne: "carried \<noteq> []" by (auto simp: calls measured_calls_def List.map_filter_simps)
    note trim = carryover_trim [OF ne, of budget]
    have L: "snd (last (measured_calls carried)) = last calls" using ms by (simp add: calls last_map)
    have tokens: "n \<in> set (List.map_filter tv_prompt_tokens ts) \<longleftrightarrow> (\<exists>i < length ts. tv_prompt_tokens (ts ! i) = Some n)"
      for n and ts :: "turn_view list"
    proof -
      have "n \<in> snd ` set (measured_calls ts) \<longleftrightarrow> (\<exists>i. (i, n) \<in> set (measured_calls ts))" by force
      then show ?thesis by (simp only: measured_tokens [symmetric] set_map measured_calls_spec)
    qed
    have paid: "affordable n" if n: "n \<in> set (List.map_filter tv_prompt_tokens (drop ?k carried))" for n
    proof -
      obtain i where "i < length (drop ?k carried)" "tv_prompt_tokens (drop ?k carried ! i) = Some n"
        using n unfolding tokens by blast
      then have "?k + i < length carried" "tv_prompt_tokens (carried ! (?k + i)) = Some n" using trim(1) by simp_all
      with trim(2) [of "?k + i" n] show ?thesis by (simp add: L affordable_def)
    qed
    have cut: "if list_all affordable calls then ?k = 0
       else \<exists>i j. i < j \<and> j < length carried
              \<and> (\<exists>m. tv_prompt_tokens (carried ! i) = Some m \<and> \<not> affordable m)
              \<and> (\<exists>n. tv_prompt_tokens (carried ! j) = Some n)
              \<and> (\<forall>x n. i < x \<longrightarrow> x < length carried \<longrightarrow> tv_prompt_tokens (carried ! x) = Some n \<longrightarrow> j \<le> x \<and> affordable n)
              \<and> ?k = min (j + 1) (length carried - 1)"
    proof (cases "list_all affordable calls")
      case True
      have "?k = 0"
        by (rule carryover_whole [OF ms]) (use True in \<open>auto simp: list_all_iff calls_def tokens affordable_def L\<close>)
      with True show ?thesis by simp
    next
      case F: False
      then obtain i m where "i < length carried" "tv_prompt_tokens (carried ! i) = Some m" "nat budget < last calls - m"
        by (auto simp: list_all_iff calls_def tokens affordable_def not_le)
      from carryover_cut [OF this(1,2), of budget, unfolded L, OF this(3)] F show ?thesis
        unfolding affordable_def not_le by (simp only: if_False) blast
    qed
    have len: "length (take ?k carried) = ?k" using trim(1) by simp
    show ?thesis
      by (rule exI [of _ "take ?k carried"], rule exI [of _ "drop ?k carried"])
        (use False read paid cut trim(1) len in \<open>simp split: if_splits\<close>)
  qed
qed

text \<open>
  the working sets are what was touched, in the order of the first touch. A session's is the touched memories of its conversation's
  blocks since its start, each once; the one across conversations is the same over all blocks recorded since a time, read backwards, and no more of
  it than the limit.
\<close>

theorem working_sets_are_first_touches:
  assumes "sq_inv J S s"
  shows "session_touched (sq_read_from J S s) c start
      = Inr (first_occurrences (concat (map (touches (\<lambda>d. d = c)) (drop (start - 1) (sq_log J S s)))))
    \<and> recent_touched (sq_read_from J S s) since limit
      = Inr (take limit (first_occurrences (concat (map (touches (\<lambda>_. True))
               (filter (\<lambda>e. since \<le> ev_recorded_at e) (rev (sq_log J S s)))))))"
  using fold_touched_in [of c "drop (start - 1) (sq_log J S s)" "[]"] sq.read_from_drop [OF assms]
    recent_loop_eq [of "[]" limit since "rev (sq_log J S s)"] sq.read_all [OF assms]
  by (simp add: session_touched_def recent_touched_def)

end
