(* ===== verification/Session_Facts.thy ===== *)
theory Session_Facts
  imports Session_Open Turn_Buffer_Facts
begin

text \<open>
  What the life of a session keeps: while a conversation's lifecycle lock is held nothing else opens or ends a session of it, and each operation
  leaves it with at most one session open in the log, which the live map holds when it holds one.

  An operation that calls the model lets other tasks run. What is asked of it is \<open>calm\<close>: the store keeps its laws, the graph is that of a
  part of the log, and the conversation's session rows and its live entry are as they were.
\<close>

section \<open>Events that leave the sessions alone\<close>

definition harmless :: "event_payload \<Rightarrow> bool" where
  "harmless p \<longleftrightarrow>
     (case p of
        SessionStarted _ _ _ _ _ _ _ _ \<Rightarrow> False
      | SessionEnded _ _ _ \<Rightarrow> False
      | MemoryDeleted _ \<Rightarrow> False
      | _ \<Rightarrow> True)"

lemma sessions_kept:
  assumes "apply_payload J ev g = Inr g'" "harmless (ev_payload ev)"
  shows "sessions g' = sessions g"
  using assms
  by (cases "ev_payload ev")
    (auto simp: harmless_def apply_payload_def Let_def apply_genesis_completed_def apply_describe_pass_def
      apply_entry_retracted_def apply_entry_attested_def apply_attestation_retracted_def
      apply_description_mirrored_def apply_job_fired_def apply_item_surfaced_def
      apply_description_regenerated_def apply_volatility_set_def apply_tag_created_def
      apply_tag_description_changed_def apply_tag_applied_def apply_tag_removed_def
      apply_link_type_registered_def apply_conversation_started_def apply_conversation_ended_def
      apply_participant_joined_def apply_participant_identified_def
      split: if_splits dest!: sessions_inserts sessions_arms)

lemma harmless_fold:
  "foldM (apply_event J) es g = Inr g' \<Longrightarrow> list_all (\<lambda>e. harmless (ev_payload e)) es \<Longrightarrow> sessions g' = sessions g"
proof (induction es arbitrary: g)
  case (Cons e es)
  then obtain h where h: "apply_event J e g = Inr h" "foldM (apply_event J) es h = Inr g'" by (auto simp: andthen_Inr_iff)
  from h(1) obtain k where k: "apply_payload J e g = Inr k" "sessions h = sessions k"
    by (auto simp: apply_event_def andthen_Inr_iff)
  from Cons.IH [OF h(2)] Cons.prems(2) k(2) sessions_kept [OF k(1)] show ?case by simp
qed simp

lemma head_keeps_sessions: "g\<lparr>graph_head := n\<rparr> = g' \<Longrightarrow> sessions g' = sessions g"
  by auto

lemma stamped_harmless: "list_all (\<lambda>e. harmless (ev_payload e)) (stamp n t src ps) = list_all harmless ps"
  by (induction ps arbitrary: n) simp_all

section \<open>A conversation's sessions through other tasks\<close>

definition rows_in :: "conversation_id \<Rightarrow> graph \<Rightarrow> session_row list" where
  "rows_in c g = filter (\<lambda>r. s_conversation r = c) (sessions g)"

definition open_rows :: "conversation_id \<Rightarrow> graph \<Rightarrow> session_row list" where
  "open_rows c g = filter (\<lambda>r. \<not> s_ended r) (rows_in c g)"

text \<open>The graph is that of a part of the log, and no later event changes the conversation's session rows.\<close>

definition tracks :: "jiff \<Rightarrow> ('s \<Rightarrow> event list) \<Rightarrow> ('s \<Rightarrow> bool) \<Rightarrow> conversation_id \<Rightarrow> 's platform_state \<Rightarrow> bool" where
  "tracks J lg ok c p \<longleftrightarrow>
     ok (ps_store p)
     \<and> (\<exists>n. at_head J (lg (ps_store p)) n (ps_graph p)
         \<and> (\<forall>m g. n \<le> m \<longrightarrow> at_head J (lg (ps_store p)) m g \<longrightarrow> rows_in c g = rows_in c (ps_graph p)))"

definition spares ::
  "jiff \<Rightarrow> ('s \<Rightarrow> event list) \<Rightarrow> ('s \<Rightarrow> bool) \<Rightarrow> conversation_id \<Rightarrow> 's live_state \<Rightarrow> 's live_state \<Rightarrow> bool" where
  "spares J lg ok c w w' \<longleftrightarrow>
     tracks J lg ok c (lv_platform w') \<and> rows_in c (ps_graph (lv_platform w')) = rows_in c (ps_graph (lv_platform w))
     \<and> live_get c (lv_sessions w') = live_get c (lv_sessions w)"

definition calm ::
  "jiff \<Rightarrow> ('s \<Rightarrow> event list) \<Rightarrow> ('s \<Rightarrow> bool) \<Rightarrow> conversation_id \<Rightarrow> ('s live_state \<Rightarrow> 'r \<times> 's live_state) \<Rightarrow> bool" where
  "calm J lg ok c f \<longleftrightarrow> (\<forall>w. tracks J lg ok c (lv_platform w) \<longrightarrow> spares J lg ok c w (snd (f w)))"

named_theorems calm_intros \<open>operations that spare a conversation's sessions\<close>

lemma spares_refl: "tracks J lg ok c (lv_platform w) \<Longrightarrow> spares J lg ok c w w"
  by (simp add: spares_def)

lemma spares_trans: "spares J lg ok c w v \<Longrightarrow> spares J lg ok c v u \<Longrightarrow> spares J lg ok c w u"
  by (simp add: spares_def)

lemma calmD: "calm J lg ok c f \<Longrightarrow> tracks J lg ok c (lv_platform w) \<Longrightarrow> f w = (r, w') \<Longrightarrow> spares J lg ok c w w'"
  by (metis calm_def snd_conv)

lemma spares_tracks: "spares J lg ok c w w' \<Longrightarrow> tracks J lg ok c (lv_platform w')"
  by (simp add: spares_def)

lemma calm_bind [calm_intros]:
  fixes m :: "('s, 'a) live_op"
  assumes "calm J lg ok c m" "\<And>a. calm J lg ok c (f a)"
  shows "calm J lg ok c (bind_live m f)"
  unfolding calm_def
proof (intro allI impI)
  fix w :: "'s live_state" assume w: "tracks J lg ok c (lv_platform w)"
  obtain r v where m: "m w = (r, v)" by (cases "m w")
  have v: "spares J lg ok c w v" by (rule calmD [OF assms(1) w m])
  show "spares J lg ok c w (snd (bind_live m f w))"
  proof (cases r)
    case (Inr a)
    have "spares J lg ok c v (snd (f a v))" using assms(2) [of a] spares_tracks [OF v] by (simp add: calm_def)
    with v m Inr show ?thesis by (simp add: bind_live_def spares_trans)
  qed (use m v in \<open>simp add: bind_live_def\<close>)
qed

lemma calm_same: "(\<And>w. lv_platform (snd (f w)) = lv_platform w \<and> live_get c (lv_sessions (snd (f w))) = live_get c (lv_sessions w)) \<Longrightarrow> calm J lg ok c f"
  by (simp add: calm_def spares_def)

lemma calm_reads [calm_intros]:
  "calm J lg ok c (ret_live a)" "calm J lg ok c (clock_now E)" "calm J lg ok c (mint_id E)"
  "calm J lg ok c (read_store h)" "calm J lg ok c (read_graph_live k)" "calm J lg ok c (current_settings E)"
  "calm J lg ok c (read_buffer E d n m b)"
  by (rule calm_same, simp add: ret_live_def clock_now_def mint_id_def read_store_def read_graph_live_def current_settings_def
      read_buffer_def split: sum.split)+

lemma calm_swallow [calm_intros]: "calm J lg ok c f \<Longrightarrow> calm J lg ok c (swallow f)"
  by (simp add: calm_def swallow_def)

lemma calm_if [calm_intros]:
  "(b \<Longrightarrow> calm J lg ok c f) \<Longrightarrow> (\<not> b \<Longrightarrow> calm J lg ok c g) \<Longrightarrow> calm J lg ok c (if b then f else g)"
  by simp

text \<open>The environment an operation runs in: the parts it shares with the model of the store, and tasks that spare the conversation.\<close>

definition lifecycle_env ::
  "jiff \<Rightarrow> ('s \<Rightarrow> event list) \<Rightarrow> ('s \<Rightarrow> bool) \<Rightarrow> (timestamp \<Rightarrow> bool) \<Rightarrow> 's store_ops \<Rightarrow> conversation_id \<Rightarrow> 's session_env \<Rightarrow> bool" where
  "lifecycle_env J lg ok clock_ok ops c E \<longleftrightarrow>
     env_ops E = ops \<and> env_jiff E = J \<and> (\<forall>k. clock_ok (env_clock E k))
     \<and> (\<forall>f. calm J lg ok c (env_run_flush E f)) \<and> (\<forall>ids. calm J lg ok c (env_describe E ids))"

section \<open>The one session of a conversation\<close>

definition ended_row :: "session_id \<Rightarrow> session_end_cause option \<Rightarrow> session_row \<Rightarrow> session_row" where
  "ended_row i cause r = (if s_id r = i then r\<lparr>s_ended := True, s_end_cause := cause\<rparr> else r)"

definition handle_of :: "open_session \<Rightarrow> session_row \<Rightarrow> bool" where
  "handle_of h r \<longleftrightarrow> s_id r = os_id h \<and> s_brief r = os_brief h \<and> s_started_at r = os_started_at h \<and> s_seq r = os_session_start_seq h"

text \<open>At most one session of the conversation is open in the log, and a live handle is of that one.\<close>

definition one_session ::
  "jiff \<Rightarrow> ('s \<Rightarrow> event list) \<Rightarrow> ('s \<Rightarrow> bool) \<Rightarrow> conversation_id \<Rightarrow> 's live_state \<Rightarrow> bool" where
  "one_session J lg ok c w \<longleftrightarrow>
     tracks J lg ok c (lv_platform w)
     \<and> (case live_get c (lv_sessions w) of
          Some h \<Rightarrow> \<exists>r. open_rows c (ps_graph (lv_platform w)) = [r] \<and> handle_of h r
        | None \<Rightarrow> length (open_rows c (ps_graph (lv_platform w))) \<le> 1)"

lemma one_session_spared: "one_session J lg ok c w \<Longrightarrow> spares J lg ok c w w' \<Longrightarrow> one_session J lg ok c w'"
proof -
  assume o: "one_session J lg ok c w" and s: "spares J lg ok c w w'"
  from s have "open_rows c (ps_graph (lv_platform w')) = open_rows c (ps_graph (lv_platform w))" by (simp add: spares_def open_rows_def)
  with o s show ?thesis by (auto simp: one_session_def spares_def split: option.splits)
qed

lemma open_rows_ended:
  "rows_in c g' = map (ended_row i cause) (rows_in c g) \<Longrightarrow> open_rows c g' = filter (\<lambda>r. s_id r \<noteq> i) (open_rows c g)"
proof -
  have "filter (\<lambda>r. \<not> s_ended r) (map (ended_row i cause) rs) = filter (\<lambda>r. s_id r \<noteq> i) (filter (\<lambda>r. \<not> s_ended r) rs)" for rs
    by (induction rs) (auto simp: ended_row_def)
  then show "rows_in c g' = map (ended_row i cause) (rows_in c g) \<Longrightarrow> ?thesis" by (simp add: open_rows_def)
qed

lemma live_get_simps [simp]:
  "live_get c (live_insert c h m) = Some h" "live_get c (live_remove c m) = None"
  "live_get c (live_touch c t m) = map_option (\<lambda>h. h\<lparr>os_last_activity := t\<rparr>) (live_get c m)"
  by (induction m) (auto simp: live_get_def live_insert_def live_remove_def live_touch_def)

lemma bind_live_Inr:
  "bind_live m f w = (Inr b, w') \<longleftrightarrow> (\<exists>a v. m w = (Inr a, v) \<and> f a v = (Inr b, w'))"
  by (auto simp: bind_live_def split: prod.splits sum.splits)

section \<open>Over a store that keeps what it is given\<close>

locale session_store = contact_store log log_inv storable append read_from head_of truncate_to feeds subscribe J ops
  for log :: "'s \<Rightarrow> event list" and log_inv storable append read_from head_of truncate_to feeds subscribe J and ops :: "'s store_ops" +
  fixes clock_ok :: "timestamp \<Rightarrow> bool"
  assumes appended: "log_inv s \<Longrightarrow> clock_ok t \<Longrightarrow> append s t src ps = (Inr es, s') \<Longrightarrow>
      es = stamp (length (log s)) t src ps \<and> log_inv s' \<and> log s' = log s @ es"
begin

lemma fold_spares:
  assumes w: "tracks J log log_inv c p" and f: "fold_log J ops p = (r, p')"
  shows "tracks J log log_inv c p' \<and> rows_in c (ps_graph p') = rows_in c (ps_graph p) \<and> ps_store p' = ps_store p
    \<and> (r = Inr () \<longrightarrow> synced J log log_inv p')"
proof -
  let ?L = "log (ps_store p)"
  from w obtain n where n: "log_inv (ps_store p)" "at_head J ?L n (ps_graph p)"
    "\<forall>m g. n \<le> m \<longrightarrow> at_head J ?L m g \<longrightarrow> rows_in c g = rows_in c (ps_graph p)" by (auto simp: tracks_def)
  obtain x g where x: "apply_until J (drop n ?L) (ps_graph p) = (x, g)" by (cases "apply_until J (drop n ?L) (ps_graph p)")
  have "\<exists>k. n \<le> k \<and> k \<le> length ?L \<and> at_head J ?L k g \<and> (x = None \<longrightarrow> k = length ?L)"
  proof -
    have "\<exists>j. j \<le> length es \<and> foldM (apply_event J) (take j es) h = Inr g \<and> (x = None \<longrightarrow> j = length es)"
      if "apply_until J es h = (x, g)" for es h
      using that
    proof (induction es arbitrary: h)
      case (Cons e es)
      show ?case
      proof (cases "apply_event J e h")
        case (Inl f)
        with Cons.prems show ?thesis by (intro exI [of _ 0]) auto
      next
        case (Inr h')
        with Cons.prems have "apply_until J es h' = (x, g)" by simp
        from Cons.IH [OF this] obtain j where "j \<le> length es" "foldM (apply_event J) (take j es) h' = Inr g" "x = None \<longrightarrow> j = length es" by blast
        with Inr show ?thesis by (intro exI [of _ "Suc j"]) simp
      qed
    qed auto
    from this [OF x] obtain j where j: "j \<le> length (drop n ?L)" "foldM (apply_event J) (take j (drop n ?L)) (ps_graph p) = Inr g"
      "x = None \<longrightarrow> j = length (drop n ?L)" by blast
    have "take (n + j) ?L = take n ?L @ take j (drop n ?L)" by (rule take_add)
    then have "at_head J ?L (n + j) g" using n(2) j(1,2) by (auto simp: at_head_def foldM_append)
    with j show ?thesis using n(2) by (intro exI [of _ "n + j"]) (auto simp: at_head_def)
  qed
  then obtain k where k: "n \<le> k" "k \<le> length ?L" "at_head J ?L k g" "x = None \<longrightarrow> k = length ?L" by blast
  have p': "p' = p\<lparr>ps_graph := g\<rparr>" "r = Inr () \<longrightarrow> x = None"
    using f fold_log_eq [OF n(1,2)] x by (auto split: option.splits)
  have rows: "rows_in c g = rows_in c (ps_graph p)" using n(3) k(1,3) by blast
  have "tracks J log log_inv c p'"
  proof -
    have "\<forall>m g'. k \<le> m \<longrightarrow> at_head J ?L m g' \<longrightarrow> rows_in c g' = rows_in c g" using n(3) k(1) rows by (metis le_trans)
    with n(1) k(3) show ?thesis unfolding tracks_def p'(1) by auto
  qed
  moreover have "r = Inr () \<longrightarrow> synced J log log_inv p'" using p' k n(1) by (auto simp: synced_def)
  ultimately show ?thesis using rows p'(1) by simp
qed

lemma append_spares:
  assumes w: "tracks J log log_inv c p" and t: "clock_ok t" and ps: "list_all harmless ps"
    and a: "op_append ops (ps_store p) t src ps = (r, s')"
  shows "tracks J log log_inv c (p\<lparr>ps_store := s'\<rparr>)"
proof (cases r)
  case (Inl e)
  then have "s' = ps_store p" using a append_fails by (simp add: ops_append)
  with w show ?thesis by (simp add: tracks_def)
next
  case (Inr es)
  let ?L = "log (ps_store p)"
  from w obtain n where n: "log_inv (ps_store p)" "at_head J ?L n (ps_graph p)"
    "\<forall>m g. n \<le> m \<longrightarrow> at_head J ?L m g \<longrightarrow> rows_in c g = rows_in c (ps_graph p)" by (auto simp: tracks_def)
  have s': "es = stamp (length ?L) t src ps" "log_inv s'" "log s' = ?L @ es"
    using appended [OF n(1) t] a Inr by (simp_all add: ops_append)
  have es: "list_all (\<lambda>e. harmless (ev_payload e)) es"
    using ps unfolding s'(1) stamped_harmless .
  have "rows_in c g = rows_in c (ps_graph p)" if m: "n \<le> m" "at_head J (?L @ es) m g" for m g
  proof (cases "m \<le> length ?L")
    case True
    with m n(3) show ?thesis by (simp add: at_head_def)
  next
    case False
    from m(2) False obtain h where h: "foldM (apply_event J) ?L empty_graph = Inr h"
      "foldM (apply_event J) (take (m - length ?L) es) h = Inr g"
      by (auto simp: at_head_def foldM_append andthen_Inr_iff)
    have "sessions g = sessions h" by (rule harmless_fold [OF h(2)]) (use es in \<open>auto simp: list_all_iff dest: in_set_takeD\<close>)
    moreover have "rows_in c h = rows_in c (ps_graph p)" using n(2,3) h(1) by (auto simp: at_head_def)
    ultimately show ?thesis by (simp add: rows_in_def)
  qed
  moreover have "at_head J (?L @ es) n (ps_graph p)" using n(2) by (simp add: at_head_def)
  ultimately show ?thesis using s' by (auto simp: tracks_def)
qed

lemma fold_live_calm:
  assumes "env_ops E = ops" "env_jiff E = J"
  shows "calm J log log_inv c (fold_live E)"
  unfolding calm_def
proof (intro allI impI)
  fix w :: "'s live_state" assume w: "tracks J log log_inv c (lv_platform w)"
  obtain r p where f: "fold_log J ops (lv_platform w) = (r, p)" by (cases "fold_log J ops (lv_platform w)")
  with fold_spares [OF w f] assms show "spares J log log_inv c w (snd (fold_live E w))"
    by (simp add: fold_live_def on_platform_def spares_def)
qed

lemma commit_calm:
  assumes "env_ops E = ops" "clock_ok t" "list_all harmless ps"
  shows "calm J log log_inv c (commit_live E t ps)"
  unfolding calm_def
proof (intro allI impI)
  fix w :: "'s live_state" assume w: "tracks J log log_inv c (lv_platform w)"
  obtain r s' where a: "op_append ops (ps_store (lv_platform w)) t EventSource_Orchestration ps = (r, s')"
    by (cases "op_append ops (ps_store (lv_platform w)) t EventSource_Orchestration ps")
  from append_spares [OF w assms(2,3) a] a assms(1) show "spares J log log_inv c w (snd (commit_live E t ps w))"
    by (simp add: commit_live_def spares_def split: sum.split)
qed

lemma on_platform_calm:
  assumes "\<And>p. tracks J log log_inv c p \<Longrightarrow> tracks J log log_inv c (snd (m p)) \<and> rows_in c (ps_graph (snd (m p))) = rows_in c (ps_graph p)"
  shows "calm J log log_inv c (on_platform m)"
  unfolding calm_def
proof (intro allI impI)
  fix w :: "'s live_state" assume w: "tracks J log log_inv c (lv_platform w)"
  from assms [OF w] show "spares J log log_inv c w (snd (on_platform m w))"
    by (cases "m (lv_platform w)") (simp add: on_platform_def spares_def)
qed

lemma fire_due_calm:
  assumes "clock_ok t"
  shows "calm J log log_inv c (on_platform (fire_due_now J ops t))"
proof (rule on_platform_calm)
  fix p assume w: "tracks J log log_inv c p"
  obtain r s where f: "fire_due J ops (ps_graph p) t (ps_store p) = (r, s)" by (cases "fire_due J ops (ps_graph p) t (ps_store p)")
  have s: "tracks J log log_inv c (p\<lparr>ps_store := s\<rparr>)"
  proof (cases "\<exists>due. due_items J (ps_graph p) t = Inr due \<and> due \<noteq> []")
    case True
    then obtain due where due: "due_items J (ps_graph p) t = Inr due" "due \<noteq> []" by blast
    obtain r' s' where a: "op_append ops (ps_store p) t EventSource_Orchestration (firings t due) = (r', s')"
      by (cases "op_append ops (ps_store p) t EventSource_Orchestration (firings t due)")
    have "list_all harmless (firings t due)" by (auto simp: firings_def list_all_iff harmless_def)
    from append_spares [OF w assms this a] f due a show ?thesis by (auto simp: fire_due_def split: sum.splits)
  next
    case False
    with f have "s = ps_store p" by (auto simp: fire_due_def split: sum.splits if_splits)
    with w show ?thesis by simp
  qed
  show "tracks J log log_inv c (snd (fire_due_now J ops t p)) \<and> rows_in c (ps_graph (snd (fire_due_now J ops t p))) = rows_in c (ps_graph p)"
  proof (cases r)
    case (Inl e)
    with f s show ?thesis by (simp add: fire_due_now_def)
  next
    case (Inr n)
    obtain r' p' where l: "fold_log J ops (p\<lparr>ps_store := s\<rparr>) = (r', p')" by (cases "fold_log J ops (p\<lparr>ps_store := s\<rparr>)")
    from fold_spares [OF s l] f s Inr l show ?thesis
      by (auto simp: fire_due_now_def bind_server_def split: sum.split)
  qed
qed

lemma open_drain_calm:
  assumes "clock_ok t"
  shows "calm J log log_inv c (on_platform (open_drain J ops d i turn present_set cap t))"
proof (rule on_platform_calm)
  fix p assume w: "tracks J log log_inv c p"
  show "tracks J log log_inv c (snd (open_drain J ops d i turn present_set cap t p))
    \<and> rows_in c (ps_graph (snd (open_drain J ops d i turn present_set cap t p))) = rows_in c (ps_graph p)"
  proof (cases "\<exists>x. drain J (ps_graph p) present_set cap t = Inr (Some x)")
    case True
    then obtain x where x: "drain J (ps_graph p) present_set cap t = Inr (Some x)" by blast
    let ?ps = "ConversationTurn d turn TurnRole_System (dr_text x) None Initiation_Initiated None None [] # surfacings i t (dr_entries x)"
    obtain r s where a: "op_append ops (ps_store p) t EventSource_Orchestration ?ps = (r, s)"
      by (cases "op_append ops (ps_store p) t EventSource_Orchestration ?ps")
    have "list_all harmless ?ps" by (auto simp: surfacings_def list_all_iff harmless_def)
    note s = append_spares [OF w assms this a]
    obtain r' p' where l: "fold_log J ops (p\<lparr>ps_store := s\<rparr>) = (r', p')" by (cases "fold_log J ops (p\<lparr>ps_store := s\<rparr>)")
    from fold_spares [OF s l] s x a l show ?thesis
      by (cases r) (simp_all add: open_drain_def raise_drained_def bind_server_def lift_graph_def commit_def)
  next
    case False
    then have "snd (open_drain J ops d i turn present_set cap t p) = p"
      by (cases "drain J (ps_graph p) present_set cap t")
        (auto simp: open_drain_def raise_drained_def bind_server_def lift_graph_def split: option.split)
    with w show ?thesis by simp
  qed
qed

lemma run_flush_calm:
  assumes "lifecycle_env J log log_inv clock_ok ops c E"
  shows "calm J log log_inv c (run_flush E d f)"
  unfolding calm_def
proof (intro allI impI)
  fix w :: "'s live_state" assume w: "tracks J log log_inv c (lv_platform w)"
  obtain r v where v: "env_run_flush E f w = (r, v)" by (cases "env_run_flush E f w")
  have "calm J log log_inv c (env_run_flush E f)" using assms by (simp add: lifecycle_env_def)
  from calmD [OF this w v] have wv: "spares J log log_inv c w v" .
  have "calm J log log_inv c (fold_live E)" by (rule fold_live_calm) (use assms in \<open>simp_all add: lifecycle_env_def\<close>)
  then have "spares J log log_inv c v (snd (fold_live E v))" using spares_tracks [OF wv] by (simp add: calm_def)
  with wv v show "spares J log log_inv c w (snd (run_flush E d f w))"
    by (cases r) (simp_all add: run_flush_def spares_trans)
qed

lemma checkpoint_delta_same: "snd (checkpoint_delta E d h st t trigger w) = w"
  by (auto simp: checkpoint_delta_def bind_live_def read_buffer_def read_store_def ret_live_def split: sum.split)

lemma checkpoint_loop_calm:
  assumes "lifecycle_env J log log_inv clock_ok ops c E"
  shows "tracks J log log_inv c (lv_platform w) \<Longrightarrow> spares J log log_inv c w (snd (checkpoint_loop E st t trigger cs n w))"
proof (induction cs arbitrary: n w)
  case (Cons x cs)
  obtain d h where x: "x = (d, h)" by (cases x)
  obtain r where r: "checkpoint_delta E d h st t trigger w = (r, w)"
    using checkpoint_delta_same [of E d h st t trigger w] by (cases "checkpoint_delta E d h st t trigger w") simp
  have flush: "spares J log log_inv c w (snd (case run_flush E d f w of
      (Inl e, w) \<Rightarrow> (Inl e, w) | (Inr _, w) \<Rightarrow> checkpoint_loop E st t trigger cs (n + 1) w))" for f
  proof -
    obtain q v where v: "run_flush E d f w = (q, v)" by (cases "run_flush E d f w")
    have wv: "spares J log log_inv c w v" by (rule calmD [OF run_flush_calm [OF assms] Cons.prems v])
    with Cons.IH [OF spares_tracks [OF wv]] v show ?thesis by (cases q) (simp_all add: spares_trans)
  qed
  show ?case
    using Cons.IH [OF Cons.prems] spares_refl [OF Cons.prems] flush
    by (simp add: x r split: sum.split option.split)
qed (simp add: spares_refl)

lemma sweep_others_calm:
  assumes "lifecycle_env J log log_inv clock_ok ops c E"
  shows "calm J log log_inv c (sweep_others E d)"
proof -
  have loop: "calm J log log_inv c (\<lambda>w. if b then (Inr 0, w) else checkpoint_loop E st t trigger (lv_sessions w) 0 w)" for b st t trigger
    using checkpoint_loop_calm [OF assms] by (auto simp: calm_def spares_refl)
  have sweep: "calm J log log_inv c (checkpoint_live_sessions E trigger)" for trigger
    unfolding checkpoint_live_sessions_def by (intro calm_intros loop)
  then have "calm J log log_inv c (\<lambda>w. if P w then swallow (checkpoint_live_sessions E trigger) w else (Inr (), w))" for P trigger
    using calm_swallow [OF sweep] by (auto simp: calm_def spares_refl)
  then show ?thesis unfolding sweep_others_def by (intro calm_intros)
qed

section \<open>Opening and ending a session\<close>

lemma synced_tracks: "synced J log log_inv p \<Longrightarrow> tracks J log log_inv c p"
  unfolding synced_def tracks_def by (auto intro!: exI [of _ "length (log (ps_store p))"] simp: at_head_def)

lemma commit_folded:
  assumes w: "tracks J log log_inv c p" and t: "clock_ok t"
    and a: "op_append ops (ps_store p) t src ps = (Inr es, s')" and f: "fold_log J ops (p\<lparr>ps_store := s'\<rparr>) = (Inr u, p')"
  shows "\<exists>h. foldM (apply_event J) (log (ps_store p)) empty_graph = Inr h \<and> rows_in c h = rows_in c (ps_graph p)
    \<and> foldM (apply_event J) es h = Inr (ps_graph p') \<and> es = stamp (length (log (ps_store p))) t src ps
    \<and> log (ps_store p') = log (ps_store p) @ es \<and> synced J log log_inv p'"
proof -
  let ?L = "log (ps_store p)"
  from w obtain n where n: "log_inv (ps_store p)" "at_head J ?L n (ps_graph p)"
    "\<forall>m g. n \<le> m \<longrightarrow> at_head J ?L m g \<longrightarrow> rows_in c g = rows_in c (ps_graph p)" by (auto simp: tracks_def)
  have s': "es = stamp (length ?L) t src ps" "log_inv s'" "log s' = ?L @ es"
    using appended [OF n(1) t] a by (simp_all add: ops_append)
  have at: "at_head J (log s') n (ps_graph p)" using n(2) by (simp add: s'(3) at_head_def)
  from f fold_log_eq [of "p\<lparr>ps_store := s'\<rparr>" n] s'(2) at obtain g where
    g: "apply_until J (drop n (log s')) (ps_graph p) = (None, g)" "p' = p\<lparr>ps_store := s', ps_graph := g\<rparr>"
    by (auto split: prod.splits option.splits)
  have "foldM (apply_event J) (drop n (log s')) (ps_graph p) = Inr g" using g(1) by (simp only: apply_until_None)
  moreover have "drop n (log s') = drop n ?L @ es" using n(2) s'(3) by (simp add: at_head_def)
  ultimately obtain h where h: "foldM (apply_event J) (drop n ?L) (ps_graph p) = Inr h" "foldM (apply_event J) es h = Inr g"
    by (auto simp: foldM_append andthen_Inr_iff)
  have "foldM (apply_event J) (take n ?L @ drop n ?L) empty_graph = Inr h" using n(2) h(1) by (simp only: foldM_append at_head_def andthen_simps)
  then have L: "foldM (apply_event J) ?L empty_graph = Inr h" by simp
  moreover have "rows_in c h = rows_in c (ps_graph p)" using n(2,3) L by (auto simp: at_head_def)
  moreover have "synced J log log_inv p'" using s'(2,3) L h(2) g(2) by (simp add: synced_def at_head_def foldM_append)
  ultimately show ?thesis using h(2) g(2) s' by simp
qed

text \<open>The moment between an append and the fold of it, inside one operation of ours.\<close>

lemma commit_fold_live:
  assumes E: "lifecycle_env J log log_inv clock_ok ops c E" and w: "tracks J log log_inv c (lv_platform w)" and t: "clock_ok t"
    and m: "commit_live E t ps w = (Inr es, v)" and f: "fold_live E v = (Inr u, w')"
  shows "\<exists>h. foldM (apply_event J) (log (ps_store (lv_platform w))) empty_graph = Inr h
    \<and> rows_in c h = rows_in c (ps_graph (lv_platform w)) \<and> foldM (apply_event J) es h = Inr (ps_graph (lv_platform w'))
    \<and> es = stamp (length (log (ps_store (lv_platform w)))) t EventSource_Orchestration ps
    \<and> log (ps_store (lv_platform w')) = log (ps_store (lv_platform w)) @ es
    \<and> synced J log log_inv (lv_platform w') \<and> lv_sessions w' = lv_sessions w"
proof -
  have E': "env_ops E = ops" "env_jiff E = J" using E by (simp_all add: lifecycle_env_def)
  from m obtain s' where a: "op_append ops (ps_store (lv_platform w)) t EventSource_Orchestration ps = (Inr es, s')"
    and v: "v = w\<lparr>lv_platform := (lv_platform w)\<lparr>ps_store := s'\<rparr>\<rparr>"
    by (auto simp: commit_live_def E' split: prod.splits sum.splits)
  from f obtain p' where f': "fold_log J ops ((lv_platform w)\<lparr>ps_store := s'\<rparr>) = (Inr u, p')" and w': "w' = v\<lparr>lv_platform := p'\<rparr>"
    by (auto simp: fold_live_def on_platform_def E' v split: prod.splits)
  from commit_folded [OF w t a f'] w' v show ?thesis by simp
qed

lemma end_session_rows:
  assumes E: "lifecycle_env J log log_inv clock_ok ops c E" and w: "tracks J log log_inv c (lv_platform w)"
    and r: "end_session E d i cause w = (Inr u, w')"
  shows "tracks J log log_inv c (lv_platform w')
    \<and> rows_in c (ps_graph (lv_platform w')) = map (ended_row i (Some cause)) (rows_in c (ps_graph (lv_platform w)))
    \<and> lv_sessions w' = lv_sessions w"
proof -
  from r obtain t v es v' where v: "clock_now E w = (Inr t, v)" and m: "commit_live E t [SessionEnded d i (Some cause)] v = (Inr es, v')"
    and f: "fold_live E v' = (Inr u, w')" by (auto simp: end_session_def bind_live_Inr)
  have same: "lv_platform v = lv_platform w" "lv_sessions v = lv_sessions w" and t: "clock_ok t"
    using v E by (auto simp: clock_now_def lifecycle_env_def)
  from commit_fold_live [OF E _ t m f] w same obtain h where
    h: "rows_in c h = rows_in c (ps_graph (lv_platform w))" "foldM (apply_event J) es h = Inr (ps_graph (lv_platform w'))"
      "es = stamp (length (log (ps_store (lv_platform w)))) t EventSource_Orchestration [SessionEnded d i (Some cause)]"
      "synced J log log_inv (lv_platform w')" "lv_sessions w' = lv_sessions w" by auto
  have "h\<lparr>sessions := map (ended_row i (Some cause)) (sessions h), graph_head := Some (seq_next (length (log (ps_store (lv_platform w)))))\<rparr>
      = ps_graph (lv_platform w')"
    using h(2,3) by (simp add: apply_event_def apply_payload_def apply_session_ended_def update_where_def ended_row_def [abs_def])
  from arg_cong [OF this, of sessions] have "sessions (ps_graph (lv_platform w')) = map (ended_row i (Some cause)) (sessions h)" by simp
  then have "rows_in c (ps_graph (lv_platform w')) = map (ended_row i (Some cause)) (rows_in c h)"
    by (simp add: rows_in_def filter_map comp_def ended_row_def cong: filter_cong)
  with h synced_tracks show ?thesis by simp
qed

lemma flush_and_end_rows:
  assumes E: "lifecycle_env J log log_inv clock_ok ops c E" and w: "tracks J log log_inv c (lv_platform w)"
    and r: "flush_and_end E d h cause w = (Inr b, w')"
  shows "tracks J log log_inv c (lv_platform w')
    \<and> open_rows c (ps_graph (lv_platform w')) = filter (\<lambda>r. s_id r \<noteq> os_id h) (open_rows c (ps_graph (lv_platform w)))
    \<and> live_get c (lv_sessions w') = live_get c (lv_sessions w)"
proof (cases "session_is_open (ps_graph (lv_platform w)) (os_id h)")
  case False
  then have "w' = w" using r by (auto simp: flush_and_end_def bind_live_Inr read_graph_live_def ret_live_def)
  moreover have "filter (\<lambda>r. s_id r \<noteq> os_id h) (open_rows c (ps_graph (lv_platform w))) = open_rows c (ps_graph (lv_platform w))"
    unfolding filter_id_conv using False by (auto simp: session_is_open_def open_rows_def rows_in_def)
  ultimately show ?thesis using w by simp
next
  case True
  define flush where "flush st turns = (if int (own_turns h turns) \<ge> cs_flush_min_turns (st_compaction st)
      then bind_live (read_graph_live (\<lambda>g. Inr (session_participants_of g (os_id h)))) (\<lambda>present_set.
             run_flush E d (flush_of st d h turns present_set))
      else ret_live ())" for st turns
  have calm_flush: "calm J log log_inv c (flush st turns)" for st turns
    unfolding flush_def by (intro calm_intros run_flush_calm [OF E])
  from True r obtain st v1 turns v2 u v3 u' where
    s: "current_settings E w = (Inr st, v1)" and b: "read_buffer E d (os_start_seq h) (os_session_start_seq h)
        (cs_carryover_token_budget (st_compaction st)) v1 = (Inr turns, v2)"
    and f: "flush st turns v2 = (Inr u, v3)" and e: "end_session E d (os_id h) cause v3 = (Inr u', w')"
    by (auto simp: flush_and_end_def bind_live_Inr read_graph_live_def ret_live_def Let_def flush_def)
  have "spares J log log_inv c w v1" by (rule calmD [OF calm_reads(6) w s])
  moreover have "spares J log log_inv c v1 v2" by (rule calmD [OF calm_reads(7) spares_tracks [OF calculation] b])
  moreover have "spares J log log_inv c v2 v3" by (rule calmD [OF calm_flush spares_tracks [OF calculation(2)] f])
  ultimately have wv: "spares J log log_inv c w v3" using spares_trans by blast
  from end_session_rows [OF E spares_tracks [OF wv] e] have
    w': "tracks J log log_inv c (lv_platform w')" "lv_sessions w' = lv_sessions v3"
      "rows_in c (ps_graph (lv_platform w')) = map (ended_row (os_id h) (Some cause)) (rows_in c (ps_graph (lv_platform v3)))" by auto
  from open_rows_ended [OF w'(3)] w'(1,2) wv show ?thesis by (simp add: spares_def open_rows_def)
qed

lemma start_session_rows:
  assumes E: "lifecycle_env J log log_inv clock_ok ops c E" and w: "tracks J log log_inv c (lv_platform w)" and t: "clock_ok t"
    and r: "start_session E c present_set speakers t st tail ws w = (Inr h, w')"
  shows "tracks J log log_inv c (lv_platform w') \<and> live_get c (lv_sessions w') = Some h
    \<and> (\<exists>row. rows_in c (ps_graph (lv_platform w')) = rows_in c (ps_graph (lv_platform w)) @ [row] \<and> \<not> s_ended row
         \<and> handle_of h row \<and> (s_seeded_from_turn row \<noteq> None \<longleftrightarrow> tail \<noteq> None)
         \<and> (tail = None \<longrightarrow> os_start_seq h = os_session_start_seq h) \<and> os_started_at h = t
         \<and> (\<forall>old \<in> set (rows_in c (ps_graph (lv_platform w))). s_id old \<noteq> os_id h))"
proof -
  note E' = E [unfolded lifecycle_env_def]
  from r obtain v0 ctx v1 ids v2 u2 v3 u3 v4 brief v5 fresh v6 es v7 u7 v8 where
    s0: "read_graph_live (\<lambda>g. Inr (context_for_conversation g c)) w = (Inr ctx, v0)"
    and s1: "read_graph_live (read_set (env_jiff E) present_set ws ctx) v0 = (Inr ids, v1)"
    and s2: "env_describe E ids v1 = (Inr u2, v2)" and s3: "fold_live E v2 = (Inr u3, v3)"
    and s4: "read_graph_live (\<lambda>g. compose (env_jiff E) (env_ulid_str E) g (st_brief st)
         \<lparr>rq_present_set = present_set, rq_speakers = speakers, rq_current_context = ctx, rq_working_set = ws, rq_now = t\<rparr>) v3 = (Inr brief, v4)"
    and s5: "mint_id E v4 = (Inr fresh, v5)"
    and s6: "commit_live E t [SessionStarted c (SessionId fresh) present_set t
            (map_option (\<lambda>t. \<lparr>cr_conversation = c, cr_turn = Some (seeded_from_turn (pt_seed t))\<rparr>) tail) brief ws speakers] v5 = (Inr es, v6)"
    and s7: "fold_live E v6 = (Inr u7, v7)"
    and rest: "(let start = ev_seq (hd es);
           opened = \<lparr>os_id = SessionId fresh, os_brief = brief, os_brief_memories = ids, os_started_at = t, os_last_activity = t,
             os_start_seq = (case tail of Some t \<Rightarrow> seed_from_seq (pt_seed t) | None \<Rightarrow> start), os_session_start_seq = start\<rparr>
       in bind_live (set_sessions (live_insert c opened)) (\<lambda>_.
          bind_live (raise_wakeups E st c (SessionId fresh) present_set t) (\<lambda>_. ret_live opened))) v7 = (Inr h, w')"
    by (auto simp: start_session_def bind_live_Inr)
  have wv2: "spares J log log_inv c w v2"
  proof -
    have a: "spares J log log_inv c w v0" by (rule calmD [OF calm_reads(5) w s0])
    have b: "spares J log log_inv c v0 v1" by (rule calmD [OF calm_reads(5) spares_tracks [OF a] s1])
    have "calm J log log_inv c (env_describe E ids)" using E' by simp
    from calmD [OF this spares_tracks [OF b] s2] a b show ?thesis using spares_trans by blast
  qed
  have wv5: "spares J log log_inv c w v5"
  proof -
    have "calm J log log_inv c (fold_live E)" by (rule fold_live_calm) (use E' in simp_all)
    from calmD [OF this spares_tracks [OF wv2] s3] have a: "spares J log log_inv c v2 v3" .
    have b: "spares J log log_inv c v3 v4" by (rule calmD [OF calm_reads(5) spares_tracks [OF a] s4])
    have "spares J log log_inv c v4 v5" by (rule calmD [OF calm_reads(3) spares_tracks [OF b] s5])
    with wv2 a b show ?thesis using spares_trans by blast
  qed
  from commit_fold_live [OF E spares_tracks [OF wv5] t s6 s7] obtain g where
    g: "rows_in c g = rows_in c (ps_graph (lv_platform v5))" "foldM (apply_event J) es g = Inr (ps_graph (lv_platform v7))"
      "es = stamp (length (log (ps_store (lv_platform v5)))) t EventSource_Orchestration [SessionStarted c (SessionId fresh) present_set t
            (map_option (\<lambda>t. \<lparr>cr_conversation = c, cr_turn = Some (seeded_from_turn (pt_seed t))\<rparr>) tail) brief ws speakers]"
      "synced J log log_inv (lv_platform v7)" "lv_sessions v7 = lv_sessions v5" by (elim exE conjE) (rule that)
  let ?n = "seq_next (length (log (ps_store (lv_platform v5))))"
  let ?row = "\<lparr>s_id = SessionId fresh, s_conversation = c, s_started_at = t,
      s_seeded_from_turn = map_option (\<lambda>t. \<lparr>cr_conversation = c, cr_turn = Some (seeded_from_turn (pt_seed t))\<rparr>) tail,
      s_brief = brief, s_ended = False, s_end_cause = None, s_seq = ?n\<rparr>"
  from g(2,3) obtain g' where g': "apply_session_started ?n c (SessionId fresh) present_set t
      (map_option (\<lambda>t. \<lparr>cr_conversation = c, cr_turn = Some (seeded_from_turn (pt_seed t))\<rparr>) tail) brief g = Inr g'"
    and v7: "sessions (ps_graph (lv_platform v7)) = sessions g'"
    by (auto simp: apply_event_def apply_payload_def andthen_Inr_iff Let_def dest: head_keeps_sessions)
  note row = sessions_started [OF g']
  have rows7: "rows_in c (ps_graph (lv_platform v7)) = rows_in c (ps_graph (lv_platform w)) @ [?row]"
    using row v7 g(1) wv5 by (simp add: rows_in_def spares_def)
  have fresh: "\<forall>old \<in> set (rows_in c (ps_graph (lv_platform w))). s_id old \<noteq> SessionId fresh"
  proof -
    have "rows_in c (ps_graph (lv_platform w)) = rows_in c g" using g(1) wv5 by (simp add: spares_def)
    moreover have "SessionId fresh \<notin> s_id ` set (sessions g)" using row by blast
    ultimately show ?thesis by (force simp: rows_in_def)
  qed
  define opened where "opened = \<lparr>os_id = SessionId fresh, os_brief = brief, os_brief_memories = ids, os_started_at = t, os_last_activity = t,
             os_start_seq = (case tail of Some t \<Rightarrow> seed_from_seq (pt_seed t) | None \<Rightarrow> ?n), os_session_start_seq = ?n\<rparr>"
  have "ev_seq (hd es) = ?n" by (simp add: g(3))
  with rest obtain u where h: "h = opened"
    and rw: "raise_wakeups E st c (SessionId fresh) present_set t (v7\<lparr>lv_sessions := live_insert c opened (lv_sessions v7)\<rparr>) = (Inr u, w')"
    by (auto simp: Let_def bind_live_Inr set_sessions_def ret_live_def opened_def)
  have "calm J log log_inv c (raise_wakeups E st c (SessionId fresh) present_set t)"
    unfolding raise_wakeups_def using open_drain_calm [OF t] E' by (intro calm_intros) simp_all
  from calmD [OF this _ rw] synced_tracks [OF g(4)] have last: "spares J log log_inv c (v7\<lparr>lv_sessions := live_insert c opened (lv_sessions v7)\<rparr>) w'"
    by simp
  show ?thesis
    using last rows7 fresh h
    by (intro conjI exI [of _ ?row]) (auto simp: spares_def handle_of_def opened_def)
qed

text \<open>What is left to open: nothing of the conversation is open, in the log or in the map.\<close>

lemma open_fresh_one:
  assumes E: "lifecycle_env J log log_inv clock_ok ops c E" and w: "tracks J log log_inv c (lv_platform w)" and t: "clock_ok t"
    and none: "open_rows c (ps_graph (lv_platform w)) = []"
    and r: "open_fresh E c present_set speakers t st w = (Inr h, w')"
  shows "one_session J log log_inv c w' \<and> live_get c (lv_sessions w') = Some h"
proof -
  from r obtain ps v0 tail v1 ws v2 where
    s0: "read_graph_live (\<lambda>g. Inr (last_session_start g c)) w = (Inr ps, v0)"
    and s1: "previous_session_tail E c ps (cs_carryover_token_budget (st_compaction st)) v0 = (Inr tail, v1)"
    and s2: "working_set_of E st c t ps tail v1 = (Inr ws, v2)"
    and s3: "start_session E c present_set speakers t st tail ws v2 = (Inr h, w')"
    by (auto simp: open_fresh_def bind_live_Inr)
  have a: "spares J log log_inv c w v0" by (rule calmD [OF calm_reads(5) w s0])
  have "calm J log log_inv c (previous_session_tail E c ps (cs_carryover_token_budget (st_compaction st)))"
    by (cases ps) (simp_all add: previous_session_tail_def calm_intros)
  from calmD [OF this spares_tracks [OF a] s1] have b: "spares J log log_inv c v0 v1" .
  have "calm J log log_inv c (working_set_of E st c t ps tail)"
    by (simp add: working_set_of_def Let_def calm_intros split: option.split)
  from calmD [OF this spares_tracks [OF b] s2] have "spares J log log_inv c v1 v2" .
  then have wv2: "spares J log log_inv c w v2" using a b spares_trans by blast
  from start_session_rows [OF E spares_tracks [OF wv2] t s3] obtain row where
    row: "tracks J log log_inv c (lv_platform w')" "live_get c (lv_sessions w') = Some h"
      "rows_in c (ps_graph (lv_platform w')) = rows_in c (ps_graph (lv_platform v2)) @ [row]" "\<not> s_ended row" "handle_of h row"
    by (elim exE conjE) (rule that)
  have "open_rows c (ps_graph (lv_platform w')) = [row]"
    using row(3,4) none wv2 by (simp add: open_rows_def spares_def)
  with row(1,2,5) show ?thesis by (simp add: one_session_def)
qed

lemma close_lapsed_rows:
  assumes E: "lifecycle_env J log log_inv clock_ok ops c E" and w: "one_session J log log_inv c w"
    and r: "close_lapsed E c w = (Inr u, w')"
  shows "tracks J log log_inv c (lv_platform w')
    \<and> (live_get c (lv_sessions w) \<noteq> None \<longrightarrow> open_rows c (ps_graph (lv_platform w')) = [])
    \<and> (live_get c (lv_sessions w) = None \<longrightarrow> w' = w)"
proof (cases "live_get c (lv_sessions w)")
  case None
  with r w show ?thesis by (simp add: close_lapsed_def one_session_def)
next
  case (Some h)
  with w obtain row where row: "open_rows c (ps_graph (lv_platform w)) = [row]" "handle_of h row" "tracks J log log_inv c (lv_platform w)"
    by (auto simp: one_session_def)
  from r Some obtain b where f: "flush_and_end E c h SessionEndCause_Idle (w\<lparr>lv_sessions := live_remove c (lv_sessions w)\<rparr>) = (Inr b, w')"
    by (auto simp: close_lapsed_def bind_live_Inr set_sessions_def ret_live_def)
  from flush_and_end_rows [OF E _ f] row Some show ?thesis by (simp add: handle_of_def)
qed

lemma last_open_none: "last_open_session J g c = Inr None \<Longrightarrow> open_rows c g = []"
proof (rule ccontr)
  let ?rs = "filter (\<lambda>r. s_conversation r = c \<and> \<not> s_ended r) (sessions g)"
  have eq: "open_rows c g = ?rs" by (simp add: open_rows_def rows_in_def filter_filter conj_commute)
  assume n: "last_open_session J g c = Inr None" and "open_rows c g \<noteq> []"
  then have "set (sort_key (\<lambda>r. - int (s_seq r)) ?rs) \<noteq> {}" by (metis eq set_empty set_sort)
  then obtain x xs where "sort_key (\<lambda>r. - int (s_seq r)) ?rs = x # xs" by (cases "sort_key (\<lambda>r. - int (s_seq r)) ?rs") auto
  with n show False by (auto simp: last_open_session_def latest_session_def first_row_def opt_column_def andthen_Inr_iff)
qed

lemma last_open_some:
  assumes "last_open_session J g c = Inr (Some v)"
  obtains r where "r \<in> set (open_rows c g)" "ov_id v = s_id r" "ov_brief v = s_brief r" "ov_started_at v = s_started_at r"
    "ov_start_seq v = s_seq r" "ov_seeded v \<longleftrightarrow> s_seeded_from_turn r \<noteq> None"
proof -
  let ?rs = "filter (\<lambda>r. s_conversation r = c \<and> \<not> s_ended r) (sessions g)"
  from assms obtain r where r: "latest_session ?rs = Some r" "open_session_row J r = Inr v"
    by (auto simp: last_open_session_def opt_column_Some)
  then obtain rest where "sort_key (\<lambda>r. - int (s_seq r)) ?rs = r # rest"
    by (auto simp: latest_session_def first_row_def split: list.splits)
  then have "r \<in> set (sort_key (\<lambda>r. - int (s_seq r)) ?rs)" by (simp only: list.set_intros)
  then have "r \<in> set (open_rows c g)" by (simp add: open_rows_def rows_in_def)
  with r(2) that show thesis
    by (auto simp: open_session_row_def andthen_Inr_iff dest: timestamp_column_Inr)
qed

lemma recover_rows:
  assumes E: "lifecycle_env J log log_inv clock_ok ops c E" and w: "one_session J log log_inv c w"
    and live: "live_get c (lv_sessions w) = None" and v: "last_open_session J (ps_graph (lv_platform w)) c = Inr (Some v)"
    and r: "recover E st c t v w = (Inr out, w')"
  shows "case out of Some h \<Rightarrow> one_session J log log_inv c w' \<and> live_get c (lv_sessions w') = Some h \<and> lv_platform w' = lv_platform w
      | None \<Rightarrow> tracks J log log_inv c (lv_platform w') \<and> open_rows c (ps_graph (lv_platform w')) = [] \<and> live_get c (lv_sessions w') = None"
proof -
  from last_open_some [OF v] obtain row where mem: "row \<in> set (open_rows c (ps_graph (lv_platform w)))"
    and row: "ov_id v = s_id row" "ov_brief v = s_brief row" "ov_started_at v = s_started_at row" "ov_start_seq v = s_seq row" by metis
  moreover have "length (open_rows c (ps_graph (lv_platform w))) \<le> 1" using w live by (simp add: one_session_def)
  ultimately have one: "open_rows c (ps_graph (lv_platform w)) = [row]"
    by (cases "open_rows c (ps_graph (lv_platform w))") auto
  have tr: "tracks J log log_inv c (lv_platform w)" using w by (simp add: one_session_def)
  from r obtain turns w1 where b: "read_buffer E c (ov_start_seq v) (ov_start_seq v) (cs_carryover_token_budget (st_compaction st)) w = (Inr turns, w1)"
    and cont: "(let last_activity = last_activity_of v turns; opened = recovered_session v last_activity
       in if \<not> ov_seeded v \<and> t - last_activity \<le> idle_gap_ms st
          then let opened = opened\<lparr>os_last_activity := t\<rparr> in bind_live (set_sessions (live_insert c opened)) (\<lambda>_. ret_live (Some opened))
          else bind_live (flush_and_end E c opened SessionEndCause_Recovery) (\<lambda>_. ret_live None)) w1 = (Inr out, w')"
    by (auto simp: recover_def bind_live_Inr)
  have w1: "w1 = w" using b by (auto simp: read_buffer_def read_store_def split: sum.splits)
  let ?h = "(recovered_session v (last_activity_of v turns))\<lparr>os_last_activity := t\<rparr>"
  show ?thesis
  proof (cases "\<not> ov_seeded v \<and> t - last_activity_of v turns \<le> idle_gap_ms st")
    case True
    with cont w1 have "out = Some ?h" "w' = w\<lparr>lv_sessions := live_insert c ?h (lv_sessions w)\<rparr>"
      by (auto simp: Let_def bind_live_Inr set_sessions_def ret_live_def)
    moreover have "handle_of ?h row" using row by (simp add: handle_of_def recovered_session_def)
    ultimately show ?thesis using one tr by (simp add: one_session_def)
  next
    case False
    with cont w1 obtain b where f: "flush_and_end E c (recovered_session v (last_activity_of v turns)) SessionEndCause_Recovery w = (Inr b, w')"
      and out: "out = None" by (auto simp: Let_def bind_live_Inr ret_live_def)
    from flush_and_end_rows [OF E tr f] one live row(1) out show ?thesis by (simp add: recovered_session_def)
  qed
qed

lemma ensure_locked_one:
  assumes E: "lifecycle_env J log log_inv clock_ok ops c E" and w: "one_session J log log_inv c w"
    and r: "ensure_locked E c present_set speakers w = (Inr h, w')"
  shows "one_session J log log_inv c w' \<and> live_get c (lv_sessions w') = Some h"
proof -
  note E' = E [unfolded lifecycle_env_def]
  from r obtain t w0 st w1 where s0: "clock_now E w = (Inr t, w0)" and s1: "current_settings E w0 = (Inr st, w1)"
    and cont: "(let live = live_get c (lv_sessions w1)
       in if reuses st t live
          then (Inr ((the live)\<lparr>os_last_activity := t\<rparr>), w1\<lparr>lv_sessions := live_touch c t (lv_sessions w1)\<rparr>)
          else bind_live
                 (if live \<noteq> None then ret_live None else read_graph_live (\<lambda>g. last_open_session (env_jiff E) g c)) (\<lambda>recovered.
               bind_live (case recovered of None \<Rightarrow> ret_live None | Some r \<Rightarrow> recover E st c t r) (\<lambda>resumed.
               case resumed of
                 Some opened \<Rightarrow> ret_live opened
               | None \<Rightarrow>
                   bind_live (on_platform (fire_due_now (env_jiff E) (env_ops E) t)) (\<lambda>_.
                   bind_live (close_lapsed E c) (\<lambda>_.
                     open_fresh E c present_set speakers t st)))) w1) = (Inr h, w')"
    by (auto simp: ensure_locked_def bind_live_Inr)
  have t: "clock_ok t" using s0 E' by (auto simp: clock_now_def)
  have tr: "tracks J log log_inv c (lv_platform w)" using w by (simp add: one_session_def)
  have a: "spares J log log_inv c w w0" by (rule calmD [OF calm_reads(2) tr s0])
  have "spares J log log_inv c w0 w1" by (rule calmD [OF calm_reads(6) spares_tracks [OF a] s1])
  then have one: "one_session J log log_inv c w1" using one_session_spared [OF w a] one_session_spared by blast
  then have tr1: "tracks J log log_inv c (lv_platform w1)" by (simp add: one_session_def)
  have fresh_one: "one_session J log log_inv c w' \<and> live_get c (lv_sessions w') = Some h"
    if k: "tracks J log log_inv c (lv_platform k)" "live_get c (lv_sessions k) \<noteq> None \<longrightarrow> one_session J log log_inv c k"
        "live_get c (lv_sessions k) = None \<longrightarrow> open_rows c (ps_graph (lv_platform k)) = []"
      and go: "bind_live (on_platform (fire_due_now (env_jiff E) (env_ops E) t)) (\<lambda>_.
                   bind_live (close_lapsed E c) (\<lambda>_. open_fresh E c present_set speakers t st)) k = (Inr h, w')" for k
  proof -
    from go obtain n k1 u k2 where f: "on_platform (fire_due_now J ops t) k = (Inr n, k1)"
      and cl: "close_lapsed E c k1 = (Inr u, k2)" and fresh: "open_fresh E c present_set speakers t st k2 = (Inr h, w')"
      using E' by (auto simp: bind_live_Inr)
    have sp: "spares J log log_inv c k k1" by (rule calmD [OF fire_due_calm [OF t] k(1) f])
    have none: "open_rows c (ps_graph (lv_platform k1)) = []" if "live_get c (lv_sessions k1) = None"
      using that sp k(3) by (simp add: spares_def open_rows_def)
    have "one_session J log log_inv c k1"
    proof (cases "live_get c (lv_sessions k)")
      case None
      with sp none show ?thesis by (simp add: one_session_def spares_def)
    qed (use k(2) sp one_session_spared in blast)
    from close_lapsed_rows [OF E this cl] none have "tracks J log log_inv c (lv_platform k2) \<and> open_rows c (ps_graph (lv_platform k2)) = []"
      by (cases "live_get c (lv_sessions k1)") auto
    then show ?thesis using open_fresh_one [OF E _ t _ fresh] by blast
  qed
  show ?thesis
  proof (cases "reuses st t (live_get c (lv_sessions w1))")
    case True
    then obtain h0 where h0: "live_get c (lv_sessions w1) = Some h0" by (auto simp: reuses_def split: option.splits)
    with cont True have "h = h0\<lparr>os_last_activity := t\<rparr>" "w' = w1\<lparr>lv_sessions := live_touch c t (lv_sessions w1)\<rparr>" by (auto simp: Let_def)
    with one h0 show ?thesis by (auto simp: one_session_def handle_of_def)
  next
    case no: False
    show ?thesis
    proof (cases "live_get c (lv_sessions w1)")
      case (Some h0)
      show ?thesis
        by (rule fresh_one [of w1]) (use tr1 one no Some cont in \<open>simp_all add: Let_def bind_live_def ret_live_def\<close>)
    next
      case None
      with cont no E' obtain rec w2 res w3 where
        q: "read_graph_live (\<lambda>g. last_open_session J g c) w1 = (Inr rec, w2)"
        and res: "(case rec of None \<Rightarrow> ret_live None | Some r \<Rightarrow> recover E st c t r) w2 = (Inr res, w3)"
        and go: "(case res of
                 Some opened \<Rightarrow> ret_live opened
               | None \<Rightarrow>
                   bind_live (on_platform (fire_due_now (env_jiff E) (env_ops E) t)) (\<lambda>_.
                   bind_live (close_lapsed E c) (\<lambda>_.
                     open_fresh E c present_set speakers t st))) w3 = (Inr h, w')"
        by (auto simp: Let_def bind_live_Inr)
      have w2: "w2 = w1" and q': "last_open_session J (ps_graph (lv_platform w1)) c = Inr rec"
        using q by (auto simp: read_graph_live_def split: sum.splits)
      show ?thesis
      proof (cases rec)
        case n: None
        with res w2 have "res = None" "w3 = w1" by (simp_all add: ret_live_def)
        with go last_open_none [of "ps_graph (lv_platform w1)" c] q' n tr1 None show ?thesis by (intro fresh_one [of w1]) simp_all
      next
        case (Some v)
        with res w2 have "recover E st c t v w1 = (Inr res, w3)" by simp
        note rec = recover_rows [OF E one None q' [unfolded Some] this]
        show ?thesis
        proof (cases res)
          case n: None
          from rec go n show ?thesis by (intro fresh_one [of w3]) simp_all
        qed (use rec go in \<open>auto simp: ret_live_def\<close>)
      qed
    qed
  qed
qed

lemma ensure_session_one:
  assumes E: "lifecycle_env J log log_inv clock_ok ops c E" and w: "one_session J log log_inv c w"
    and r: "ensure_session E c present_set speakers w = (Inr h, w')"
  shows "one_session J log log_inv c w' \<and> live_get c (lv_sessions w') = Some h"
proof -
  from r obtain u v where s: "sweep_others E c w = (Inr u, v)" and l: "ensure_locked E c present_set speakers v = (Inr h, w')"
    by (auto simp: ensure_session_def bind_live_Inr)
  have "tracks J log log_inv c (lv_platform w)" using w by (simp add: one_session_def)
  from calmD [OF sweep_others_calm [OF E] this s] one_session_spared [OF w] have "one_session J log log_inv c v" by blast
  from ensure_locked_one [OF E this l] show ?thesis .
qed

lemma compaction_one:
  assumes E: "lifecycle_env J log log_inv clock_ok ops c E" and w: "one_session J log log_inv c w"
    and r: "end_session_for_compaction E c w = (Inr u, w')"
  shows "one_session J log log_inv c w' \<and> live_get c (lv_sessions w') = None
    \<and> (live_get c (lv_sessions w) \<noteq> None \<longrightarrow> open_rows c (ps_graph (lv_platform w')) = [])"
proof (cases "live_get c (lv_sessions w)")
  case None
  with r w show ?thesis by (simp add: end_session_for_compaction_def)
next
  case (Some h)
  with w obtain row where row: "open_rows c (ps_graph (lv_platform w)) = [row]" "handle_of h row" "tracks J log log_inv c (lv_platform w)"
    by (auto simp: one_session_def)
  from r Some obtain b where f: "flush_and_end E c h SessionEndCause_Compaction (w\<lparr>lv_sessions := live_remove c (lv_sessions w)\<rparr>) = (Inr b, w')"
    by (auto simp: end_session_for_compaction_def bind_live_Inr set_sessions_def ret_live_def)
  from flush_and_end_rows [OF E _ f] row Some show ?thesis by (simp add: handle_of_def one_session_def)
qed

end

text \<open>The durable store under a codec that reads back what it writes, and the store in memory.\<close>

definition faithful_codec :: "serde \<Rightarrow> bool" where
  "faithful_codec S \<longleftrightarrow> (\<forall>p json. to_json S p = Inr json \<longrightarrow> from_json S json = Inr p)"

lemma sq_appended:
  assumes "sq_inv J S s" "faithful_codec S \<and> ts_in_range J t" "sq_append S U s t src ps = (Inr es, s')"
  shows "es = stamp (length (sq_log J S s)) t src ps \<and> sq_inv J S s' \<and> sq_log J S s' = sq_log J S s @ es"
proof -
  have "list_all (\<lambda>p. is_ok (to_json S p)) ps"
    using assms(3) sq_insert_all_encoded by (fastforce simp: sq_append_def split: sum.splits)
  then have "list_all (sq_storable J S t src) ps"
    using assms(2) by (fastforce simp: list_all_iff sq_storable_def faithful_codec_def is_ok_iff split: sum.splits)
  from sq.append_commits [where U = U, OF assms(1) this] assms(3) show ?thesis by auto
qed

interpretation mss: session_store ms_events ms_inv "\<lambda>t src p. True" ms_append ms_read_from ms_head
  ms_truncate_to ms_subscribers ms_subscribe J memory_ops "\<lambda>t. True" for J
proof (rule session_store.intro [OF msc.contact_store_axioms], unfold_locales)
  fix s t src ps es s'
  assume i: "ms_inv s" and a: "ms_append s t src ps = (Inr es, s')"
  from ms.append_commits [OF i, where t = t and src = src and ps = ps] a
  show "es = stamp (length (ms_events s)) t src ps \<and> ms_inv s' \<and> ms_events s' = ms_events s @ es" by (auto simp: list_all_iff)
qed

interpretation sqs: session_store "sq_log J S" "sq_inv J S" "sq_storable J S" "sq_append S U"
  "sq_read_from J S" sq_head sq_truncate_to sq_subscribers sq_subscribe J "sqlite_ops J S U"
  "\<lambda>t. faithful_codec S \<and> ts_in_range J t" for J S U
  by (rule session_store.intro [OF sqc.contact_store_axioms], unfold_locales) (rule sq_appended)

section \<open>Properties\<close>

text \<open>
  C7: a conversation has one session. Under its lifecycle lock, with tasks that meanwhile open and end none of its sessions, \<open>ensure_session\<close>
  returns the session the live map then holds, and it is the only session of the conversation that is open in the log, with its id, its
  brief, its start and its position; the end by compaction leaves none. Either way at most one stays open.
\<close>

theorem one_session_per_conversation:
  assumes "lifecycle_env J (sq_log J S) (sq_inv J S) (\<lambda>t. faithful_codec S \<and> ts_in_range J t) (sqlite_ops J S U) c E"
    and "one_session J (sq_log J S) (sq_inv J S) c w"
  shows "(ensure_session E c present_set speakers w = (Inr h, w') \<longrightarrow>
      one_session J (sq_log J S) (sq_inv J S) c w' \<and> live_get c (lv_sessions w') = Some h)
    \<and> (end_session_for_compaction E c w = (Inr (), w'') \<longrightarrow>
      one_session J (sq_log J S) (sq_inv J S) c w'' \<and> live_get c (lv_sessions w'') = None
      \<and> (live_get c (lv_sessions w) \<noteq> None \<longrightarrow> open_rows c (ps_graph (lv_platform w'')) = []))"
  using sqs.ensure_session_one [OF assms] sqs.compaction_one [OF assms] by blast

end
