(* ===== verification/Session_Props.thy ===== *)
theory Session_Props
  imports Session_Facts
begin

text \<open>
  What continues and what is lost: a restart within the idle gap, the delta a checkpoint flushes, and a flush that fails in the middle of a
  sweep.
\<close>

section \<open>Continuing a session\<close>

lemma live_session_reused:
  assumes "live_get c (lv_sessions w) = Some h"
    and "from_store (env_decode E) (op_read_from (env_ops E)) (ps_store (lv_platform w)) = Inr st"
    and "\<forall>k \<in> {lv_clock_reads w, lv_clock_reads w + 1}. env_clock E k - os_last_activity h \<le> idle_gap_ms st"
  shows "ensure_session E c present_set speakers w =
    (Inr (h\<lparr>os_last_activity := env_clock E (lv_clock_reads w + 1)\<rparr>),
     w\<lparr>lv_sessions := live_touch c (env_clock E (lv_clock_reads w + 1)) (lv_sessions w), lv_clock_reads := lv_clock_reads w + 2\<rparr>)"
  using assms
  by (simp add: ensure_session_def sweep_others_def ensure_locked_def bind_live_def current_settings_def read_store_def clock_now_def
      reuses_def Let_def)

lemma no_live_sessions_swept:
  assumes "lv_sessions w = []" "from_store (env_decode E) (op_read_from (env_ops E)) (ps_store (lv_platform w)) = Inr st"
  shows "\<exists>k \<in> {lv_clock_reads w + 1, lv_clock_reads w + 2}. sweep_others E c w = (Inr (), w\<lparr>lv_clock_reads := k\<rparr>)"
  using assms
  by (simp add: sweep_others_def bind_live_def current_settings_def read_store_def clock_now_def swallow_def checkpoint_live_sessions_def)

lemma restart_resumes:
  assumes "one_session (env_jiff E) lg ok c w" "live_get c (lv_sessions w) = Some h"
    and "\<forall>r \<in> set (open_rows c (ps_graph (lv_platform w))). s_seeded_from_turn r = None" "os_start_seq h = os_session_start_seq h"
    and "ts_in_range (env_jiff E) (os_started_at h)"
    and "from_store (env_decode E) (op_read_from (env_ops E)) (ps_store (lv_platform w)) = Inr st"
    and "bounded_buffer_turns (env_prompt_tokens_of E) (op_read_from (env_ops E) (ps_store (lv_platform w))) c
      (os_start_seq h) (os_start_seq h) (cs_carryover_token_budget (st_compaction st)) = Inr turns"
    and "\<forall>k \<in> {lv_clock_reads w + 1, lv_clock_reads w + 2}.
      env_clock E k - (if turns = [] then os_started_at h else tv_recorded_at (last turns)) \<le> idle_gap_ms st"
  shows "\<exists>h' w'. ensure_session E c present_set speakers (w\<lparr>lv_sessions := []\<rparr>) = (Inr h', w') \<and> lv_platform w' = lv_platform w
    \<and> os_id h' = os_id h \<and> os_brief h' = os_brief h \<and> os_started_at h' = os_started_at h
    \<and> os_start_seq h' = os_start_seq h \<and> os_session_start_seq h' = os_session_start_seq h"
proof -
  let ?w = "w\<lparr>lv_sessions := []\<rparr>"
  from assms(1,2) obtain r where r: "open_rows c (ps_graph (lv_platform w)) = [r]" "handle_of h r" by (auto simp: one_session_def)
  define v where "v = \<lparr>ov_id = os_id h, ov_brief = os_brief h, ov_started_at = os_started_at h, ov_start_seq = os_session_start_seq h, ov_seeded = False\<rparr>"
  have "filter (\<lambda>r. s_conversation r = c \<and> \<not> s_ended r) (sessions (ps_graph (lv_platform w))) = [r]"
    using r(1) by (simp add: open_rows_def rows_in_def conj_commute)
  then have open_v: "last_open_session (env_jiff E) (ps_graph (lv_platform w)) c = Inr (Some v)"
    using r assms(3,5)
    by (simp add: last_open_session_def latest_session_def first_row_def opt_column_def open_session_row_def v_def handle_of_def
        timestamp_column_def try_from_millis_def)
  obtain k where k: "k \<in> {lv_clock_reads w + 1, lv_clock_reads w + 2}" "sweep_others E c ?w = (Inr (), ?w\<lparr>lv_clock_reads := k\<rparr>)"
    using no_live_sessions_swept [of ?w E st c] assms(6) by auto
  have act: "last_activity_of v turns = (if turns = [] then os_started_at h else tv_recorded_at (last turns))"
    by (simp add: last_activity_of_def v_def)
  let ?h = "(recovered_session v (last_activity_of v turns))\<lparr>os_last_activity := env_clock E k\<rparr>"
  have gap: "env_clock E k - last_activity_of v turns \<le> idle_gap_ms st" unfolding act by (rule bspec [OF assms(8) k(1)])
  have buf: "read_buffer E c (ov_start_seq v) (ov_start_seq v) (cs_carryover_token_budget (st_compaction st)) u = (Inr turns, u)"
    if "lv_platform u = lv_platform w" for u
    using assms(4,7) that by (simp add: read_buffer_def read_store_def v_def)
  have rec: "recover E st c (env_clock E k) v u = (Inr (Some ?h), u\<lparr>lv_sessions := live_insert c ?h (lv_sessions u)\<rparr>)"
    if "lv_platform u = lv_platform w" for u
    using gap buf [OF that] by (simp add: recover_def bind_live_def Let_def set_sessions_def ret_live_def) (simp add: v_def)
  have "ensure_locked E c present_set speakers (?w\<lparr>lv_clock_reads := k\<rparr>)
      = (Inr ?h, ?w\<lparr>lv_clock_reads := k + 1, lv_sessions := live_insert c ?h []\<rparr>)"
    using assms(6) open_v rec
    by (simp add: ensure_locked_def bind_live_def clock_now_def current_settings_def read_store_def reuses_def Let_def live_get_def
        read_graph_live_def ret_live_def)
  then have "ensure_session E c present_set speakers ?w = (Inr ?h, ?w\<lparr>lv_clock_reads := k + 1, lv_sessions := live_insert c ?h []\<rparr>)"
    using k(2) by (simp add: ensure_session_def bind_live_def)
  then show ?thesis using assms(4) by (simp add: recovered_session_def v_def)
qed

text \<open>
  C11: a restart within the idle gap is invisible to the prompt. A session that began without a carried tail, and whose live handle a restart
  lost, is taken up by the next message in the gap after its last turn: nothing is written, and the new handle has the id, the brief, the
  start and both positions of the lost one, so the frozen prefix and the replayed suffix are the same.
\<close>

theorem restart_keeps_the_prompt:
  assumes "one_session (env_jiff E) lg ok c w" "live_get c (lv_sessions w) = Some h"
    and "\<forall>r \<in> set (open_rows c (ps_graph (lv_platform w))). s_seeded_from_turn r = None" "os_start_seq h = os_session_start_seq h"
    and "ts_in_range (env_jiff E) (os_started_at h)"
    and "from_store (env_decode E) (op_read_from (env_ops E)) (ps_store (lv_platform w)) = Inr st"
    and "bounded_buffer_turns (env_prompt_tokens_of E) (op_read_from (env_ops E) (ps_store (lv_platform w))) c
      (os_start_seq h) (os_start_seq h) (cs_carryover_token_budget (st_compaction st)) = Inr turns"
    and "\<forall>k \<in> {lv_clock_reads w + 1, lv_clock_reads w + 2}.
      env_clock E k - (if turns = [] then os_started_at h else tv_recorded_at (last turns)) \<le> idle_gap_ms st"
  shows "\<exists>h' w'. ensure_session E c present_set speakers (w\<lparr>lv_sessions := []\<rparr>) = (Inr h', w') \<and> lv_platform w' = lv_platform w
    \<and> os_id h' = os_id h \<and> os_brief h' = os_brief h \<and> os_started_at h' = os_started_at h
    \<and> os_start_seq h' = os_start_seq h \<and> os_session_start_seq h' = os_session_start_seq h"
  using assms by (rule restart_resumes)

section \<open>What a checkpoint flushes\<close>

text \<open>
  C30: a checkpoint flushes what no flush has seen, once. On a buffer in the order of the log, the turns it is given are those of the buffer past the watermark, none of them a
  flush's, with the text the settings ask for; on a timer also the cooldown has passed since the anchor and another conversation is
  live. And with the flush's own turn at the buffer's end, noted or not, no trigger finds anything to flush, as long
  as the settings ask for some text.
\<close>

theorem checkpoint_flushes_the_delta:
  assumes "sorted (map tv_seq turns)" "delta_gate ck c h live clock trigger turns = Some delta"
  shows "delta = filter (\<lambda>t. flushed_up_to turns (os_session_start_seq h) < tv_seq t) turns
    \<and> (\<forall>t \<in> set delta. \<not> produced_by_flush (tv_produced_by t)) \<and> ck_min_delta_chars ck \<le> int (delta_chars delta)
    \<and> (trigger = CheckpointTrigger_Timer \<longrightarrow> (\<exists>d s. (d, s) \<in> set live \<and> d \<noteq> c))
    \<and> (0 < ck_min_delta_chars ck \<and> produced_by_flush (tv_produced_by f) \<and> (\<forall>t \<in> set turns. tv_seq t < tv_seq f)
         \<and> (\<forall>t \<in> set marks. tv_seq t = tv_seq f \<and> \<not> produced_by_flush (tv_produced_by t))
       \<longrightarrow> delta_gate ck c h live' clock' trigger' (turns @ f # marks) = None)"
proof -
  let ?m = "flushed_up_to turns (os_session_start_seq h)"
  have split: "drop (partition_point (\<lambda>t. tv_seq t \<le> n) ts) ts = filter (\<lambda>t. n < tv_seq t) ts" if "sorted (map tv_seq ts)" for ts n
    using partition_sorted(2) [OF that, of "Suc n"] by (simp add: less_Suc_eq_le Suc_le_eq)
  have d: "delta = filter (\<lambda>t. ?m < tv_seq t) turns" "ck_min_delta_chars ck \<le> int (delta_chars delta)"
    "trigger = CheckpointTrigger_Timer \<longrightarrow> list_ex (\<lambda>(d, s). d \<noteq> c) live"
    using assms(2) split [OF assms(1)]
    by (auto simp: delta_gate_def Let_def applies_cooldown_and_audience_def list_ex_iff split: if_splits)
  have none: "\<forall>t \<in> set delta. \<not> produced_by_flush (tv_produced_by t)"
    using past_watermark [OF assms(1)] d(1) by auto
  have once: "delta_gate ck c h live' clock' trigger' (turns @ f # marks) = None"
    if f: "0 < ck_min_delta_chars ck" "produced_by_flush (tv_produced_by f)" "\<forall>t \<in> set turns. tv_seq t < tv_seq f"
      "\<forall>t \<in> set marks. tv_seq t = tv_seq f \<and> \<not> produced_by_flush (tv_produced_by t)"
  proof -
    have "List.find (\<lambda>t. produced_by_flush (tv_produced_by t)) (rev marks @ ts) = List.find (\<lambda>t. produced_by_flush (tv_produced_by t)) ts" for ts
    proof -
      have "List.find p (xs @ ts) = List.find p ts" if "\<forall>x \<in> set xs. \<not> p x" for p and xs :: "turn_view list"
        using that by (induction xs) auto
      then show ?thesis using f(4) by simp
    qed
    then have m: "flushed_up_to (turns @ f # marks) (os_session_start_seq h) = tv_seq f"
      using f(2) by (simp add: flushed_up_to_def)
    have tw: "takeWhile (\<lambda>t. tv_seq t \<le> tv_seq f) (turns @ f # marks) = turns @ f # marks"
      unfolding takeWhile_eq_all_conv using f(3,4) by (auto simp: less_imp_le)
    have "drop (partition_point (\<lambda>t. tv_seq t \<le> tv_seq f) (turns @ f # marks)) (turns @ f # marks) = []"
      unfolding partition_point_def tw by simp
    then show ?thesis using f(1) by (simp add: delta_gate_def Let_def m delta_chars_def)
  qed
  from d none once show ?thesis by (auto simp: list_ex_iff)
qed

section \<open>A flush that fails\<close>

text \<open>
  a flush that fails stops the sweep. When the flush of an idle session that no live handle holds fails, the idle sweep returns the failure
  with the state the flush left: no candidate after it is looked at, however long it has been idle.
\<close>

theorem failed_flush_stops_the_sweep:
  fixes E :: "'s session_env"
  assumes "live_get c (lv_sessions w) = None" "session_is_open (ps_graph (lv_platform w)) (ov_id r)"
    and "from_store (env_decode E) (op_read_from (env_ops E)) (ps_store (lv_platform w)) = Inr st"
    and "bounded_buffer_turns (env_prompt_tokens_of E) (op_read_from (env_ops E) (ps_store (lv_platform w))) c
      (ov_start_seq r) (ov_start_seq r) (cs_carryover_token_budget (st_compaction st)) = Inr turns"
    and "idle_gap_ms st < clock - last_activity_of r turns"
    and "cs_flush_min_turns (st_compaction st) \<le> int (own_turns (recovered_session r (last_activity_of r turns)) turns)"
    and "env_run_flush E (flush_of st c (recovered_session r (last_activity_of r turns)) turns
      (session_participants_of (ps_graph (lv_platform w)) (ov_id r))) w = (Inl e, w')"
  shows "sweep_loop E st clock ((c, r) # candidates) n w = (Inl (InstanceError_Turn (Some c) e), w')"
proof -
  have act: "sweep_activity E st c r w = (Inr (last_activity_of r turns), w)"
    using assms(1,4) by (simp add: sweep_activity_def bind_live_def read_buffer_def read_store_def ret_live_def)
  have claim: "claim_stale c r t w = (Inr (recovered_session r t), w)" for t
    using assms(1) by (simp add: claim_stale_def live_remove_if_matches_def)
  have "flush_and_end E c (recovered_session r (last_activity_of r turns)) SessionEndCause_Idle w = (Inl (InstanceError_Turn (Some c) e), w')"
    using assms(2,3,4,6,7)
    by (simp add: flush_and_end_def bind_live_def read_graph_live_def current_settings_def read_buffer_def read_store_def run_flush_def
        Let_def recovered_session_def)
  with act claim assms(2,5) show ?thesis by (simp add: bind_live_def)
qed

end
