(* ===== verification/Session_Samples.thy ===== *)
theory Session_Samples
  imports Session_Props Wakeups_Samples
begin

text \<open>
  Concrete sessions: a talk with tool calls and measured prompts, a restart of the sample log, a failed flush that keeps another
  conversation open, and a compaction that loses a race.
\<close>

section \<open>A talk\<close>

definition said :: "nat \<Rightarrow> turn_role \<Rightarrow> string \<Rightarrow> event_payload" where
  "said i role text = ConversationTurn (ConversationId 20) (TurnId i) role text
     (if role = TurnRole_Participant then Some (MemoryId 2) else None) Initiation_Responding None None []"

definition called :: "nat \<Rightarrow> string \<Rightarrow> event_payload" where
  "called i usage = ModelCalled (ConversationId 20) (TurnId i) ModelPhase_Step [] None [] None None usage 0"

definition ran :: "nat \<Rightarrow> memory_id list \<Rightarrow> event_payload" where
  "ran i touched = LuaExecuted (ConversationId 20) (TurnId i) ''search'' (Some ''found'') touched None 0"

definition talk :: "event_payload list" where
  "talk = [said 1 TurnRole_Participant ''hello'', called 2 ''s'', ran 2 [MemoryId 3, MemoryId 1], said 2 TurnRole_Agent ''welcome'',
     said 3 TurnRole_Participant ''and?'', called 4 ''m'', said 4 TurnRole_Agent ''well'', said 5 TurnRole_Participant ''so?'']"

definition later_talk :: "event_payload list" where
  "later_talk = [called 6 ''l'', ran 6 [MemoryId 1, MemoryId 2], said 6 TurnRole_Agent ''yes'']"

definition talk_tokens :: "serialized \<Rightarrow> nat option" where
  "talk_tokens usage = (if usage = ''s'' then Some 1000 else if usage = ''m'' then Some 3000 else Some 3500)"

abbreviation talk_serde :: serde where
  "talk_serde \<equiv> table_serde (talk @ later_talk)"

lemma empty_sqlite_inv: "sq_inv J S empty_sqlite \<and> sq_log J S empty_sqlite = []"
  by (simp add: empty_sqlite_def sq_inv_def sq_log_def)

lemma stored_table:
  assumes "sq_inv gregorian (table_serde table) s" "set ps \<subseteq> set table" "ts_in_range gregorian t"
  obtains s' where "sq_inv gregorian (table_serde table) s'"
    "sq_log gregorian (table_serde table) s' = sq_log gregorian (table_serde table) s @ stamp (length (sq_log gregorian (table_serde table) s)) t src ps"
proof -
  have "list_all (sq_storable gregorian (table_serde table) t src) ps"
    using assms(2) table_serde_storable [OF assms(3)] by (auto simp: list_all_iff)
  from sq.append_commits [where U = show_nat, OF assms(1) this] that show thesis by blast
qed

lemma talk_stored:
  obtains s s' where "sq_inv gregorian talk_serde s" "sq_log gregorian talk_serde s = stamp 0 5000 EventSource_Agent talk"
    "sq_inv gregorian talk_serde s'" "sq_log gregorian talk_serde s' = stamp 0 5000 EventSource_Agent talk @ stamp 8 6000 EventSource_Agent later_talk"
proof -
  have r: "ts_in_range gregorian 5000" "ts_in_range gregorian 6000" by code_simp+
  have len: "length (stamp 0 5000 EventSource_Agent talk) = 8" by code_simp
  obtain s where s: "sq_inv gregorian talk_serde s" "sq_log gregorian talk_serde s = stamp 0 5000 EventSource_Agent talk"
    by (rule stored_table [of "talk @ later_talk" empty_sqlite talk 5000 EventSource_Agent])
      (use r empty_sqlite_inv in auto)
  obtain s' where "sq_inv gregorian talk_serde s'"
    "sq_log gregorian talk_serde s' = stamp 0 5000 EventSource_Agent talk @ stamp 8 6000 EventSource_Agent later_talk"
    by (rule stored_table [of "talk @ later_talk" s later_talk 6000 EventSource_Agent]) (use r s len in auto)
  with s that show thesis by blast
qed

theorem live_buffer_grows_at_its_end_witness:
  "\<exists>s s' turns added. sq_inv gregorian talk_serde s \<and> sq_inv gregorian talk_serde s'
     \<and> bounded_buffer_turns talk_tokens (sq_read_from gregorian talk_serde s) (ConversationId 20) 1 8 1000 = Inr turns
     \<and> map tv_text turns = [''well'', ''so?'']
     \<and> bounded_buffer_turns talk_tokens (sq_read_from gregorian talk_serde s') (ConversationId 20) 1 8 1000 = Inr (turns @ added)"
proof -
  obtain s s' where s: "sq_inv gregorian talk_serde s" "sq_log gregorian talk_serde s = stamp 0 5000 EventSource_Agent talk"
    "sq_inv gregorian talk_serde s'" "sq_log gregorian talk_serde s' = stamp 0 5000 EventSource_Agent talk @ stamp 8 6000 EventSource_Agent later_talk"
    by (rule talk_stored)
  let ?turns = "bound_tail (buffer_of talk_tokens (ConversationId 20) (stamp 0 5000 EventSource_Agent talk)) 8 1000"
  have t: "map tv_text ?turns = [''well'', ''so?'']" "8 \<le> length (stamp 0 5000 EventSource_Agent talk) + 1" by code_simp+
  have r: "bounded_buffer_turns talk_tokens (sq_read_from gregorian talk_serde s) (ConversationId 20) 1 8 1000 = Inr ?turns"
    using bounded_read [OF s(1)] s(2) by simp
  obtain added where "bounded_buffer_turns talk_tokens (sq_read_from gregorian talk_serde s') (ConversationId 20) 1 8 1000 = Inr (?turns @ added)"
    using live_buffer_grows_at_its_end [OF s(1,3) _ _ r, of "stamp 8 6000 EventSource_Agent later_talk"] s(2,4) t(2) by auto
  then show ?thesis using s(1,3) r t(1)
    by (intro exI [of _ s] exI [of _ s'] exI [of _ ?turns] exI [of _ added] conjI)
qed

theorem carried_tail_within_budget_witness:
  "\<exists>s whole left kept. buffer_turns talk_tokens (sq_read_from gregorian talk_serde s) (ConversationId 20) 1 = Inr whole
     \<and> map tv_seq whole = [1, 4, 5, 7, 8]
     \<and> bounded_buffer_turns talk_tokens (sq_read_from gregorian talk_serde s) (ConversationId 20) 1 8 2500
         = Inr (kept @ filter (\<lambda>t. 8 \<le> tv_seq t) whole)
     \<and> filter (\<lambda>t. tv_seq t < 8) whole = left @ kept \<and> kept \<noteq> []"
proof -
  obtain s s' where s: "sq_inv gregorian talk_serde s" "sq_log gregorian talk_serde s = stamp 0 5000 EventSource_Agent talk"
    by (rule talk_stored)
  let ?whole = "buffer_of talk_tokens (ConversationId 20) (stamp 0 5000 EventSource_Agent talk)"
  have r: "buffer_turns talk_tokens (sq_read_from gregorian talk_serde s) (ConversationId 20) 1 = Inr ?whole"
    using sq.read_from_drop [OF s(1)] s(2) by (simp add: buffer_turns_def)
  have w: "map tv_seq ?whole = [1, 4, 5, 7, 8]" "filter (\<lambda>t. tv_seq t < 8) ?whole \<noteq> []" by code_simp+
  obtain left kept where "bounded_buffer_turns talk_tokens (sq_read_from gregorian talk_serde s) (ConversationId 20) 1 8 2500
       = Inr (kept @ filter (\<lambda>t. 8 \<le> tv_seq t) ?whole)" "filter (\<lambda>t. tv_seq t < 8) ?whole = left @ kept"
    "filter (\<lambda>t. tv_seq t < 8) ?whole = [] \<or> kept \<noteq> []"
    using carried_tail_within_budget [OF s(1) r, of 8 2500] by (elim exE conjE) (rule that, assumption+)
  then show ?thesis using r w
    by (intro exI [of _ s] exI [of _ ?whole] exI [of _ left] exI [of _ kept] conjI) auto
qed

theorem working_sets_are_first_touches_witness:
  "\<exists>s. session_touched (sq_read_from gregorian talk_serde s) (ConversationId 20) 1 = Inr [MemoryId 3, MemoryId 1, MemoryId 2]
     \<and> recent_touched (sq_read_from gregorian talk_serde s) 0 2 = Inr [MemoryId 1, MemoryId 2]"
proof -
  obtain s s' where s: "sq_inv gregorian talk_serde s'"
    "sq_log gregorian talk_serde s' = stamp 0 5000 EventSource_Agent talk @ stamp 8 6000 EventSource_Agent later_talk"
    by (rule talk_stored)
  have "first_occurrences (concat (map (touches (\<lambda>d. d = ConversationId 20)) (stamp 0 5000 EventSource_Agent talk @ stamp 8 6000 EventSource_Agent later_talk)))
      = [MemoryId 3, MemoryId 1, MemoryId 2]"
    "take 2 (first_occurrences (concat (map (touches (\<lambda>_. True))
       (filter (\<lambda>e. 0 \<le> ev_recorded_at e) (rev (stamp 0 5000 EventSource_Agent talk @ stamp 8 6000 EventSource_Agent later_talk))))))
      = [MemoryId 1, MemoryId 2]" by code_simp+
  with working_sets_are_first_touches [OF s(1), of "ConversationId 20" 1 0 2] s(2) show ?thesis by (intro exI [of _ s']) simp
qed

section \<open>A checkpoint in the tail\<close>

definition checkpointed :: "nat list \<Rightarrow> turn_view list" where
  "checkpointed tokens = map (\<lambda>(i, n). (system_view i (TurnId i) ''answer'' 0)\<lparr>tv_role := TurnRole_Agent, tv_prompt_tokens := Some n\<rparr>)
     (enumerate 1 tokens)"

text \<open>
  A checkpoint's flush is prompted with the delta alone, so its call is smaller than those of the turns around it. At the end of the tail it
  makes every growth read as nothing, and sixteen measured tokens ride on a budget of four; in the middle it ends the walk, and
  calls the budget would pay for are left out.
\<close>

lemma checkpoint_prices_wrongly:
  "carryover_start (checkpointed [2, 10, 18, 3]) 4 = 0"
  "carryover_start (checkpointed [2, 10, 18]) 4 = 2"
  "carryover_start (checkpointed [15, 16, 3, 17, 18]) 4 = 4"
  "carryover_start (checkpointed [15, 16, 17, 18]) 4 = 0"
  by code_simp+

section \<open>The sample session, live\<close>

definition quiet_env :: "'s store_ops \<Rightarrow> 's session_env" where
  "quiet_env ops =
     \<lparr>env_jiff = gregorian, env_ops = ops, env_ulid_str = show_nat, env_decode = (\<lambda>_. default_settings),
      env_prompt_tokens_of = (\<lambda>_. None), env_encode_brief = (\<lambda>_. []), env_clock = (\<lambda>_. 100000), env_entropy = (\<lambda>n. 100 + n),
      env_run_flush = (\<lambda>_ w. (Inr (), w)), env_describe = (\<lambda>_ w. (Inr (), w))\<rparr>"

definition told_handle :: open_session where
  "told_handle =
     \<lparr>os_id = SessionId 30, os_brief = ''brief'', os_brief_memories = [], os_started_at = 12000, os_last_activity = 12000,
      os_start_seq = 12, os_session_start_seq = 12\<rparr>"

definition live_on :: "'s platform_state \<Rightarrow> session_map \<Rightarrow> 's live_state" where
  "live_on p m = \<lparr>lv_platform = p, lv_sessions = m, lv_turns = ledger_new, lv_clock_reads = 0, lv_ids_minted = 0\<rparr>"

definition ending_serde :: serde where
  "ending_serde = table_serde (sample_payloads @ [SessionEnded (ConversationId 20) (SessionId 30) (Some SessionEndCause_Compaction)])"

definition told_live :: "sqlite_store live_state" where
  "told_live = live_on
     \<lparr>ps_store = snd (sq_append ending_serde show_nat empty_sqlite 1000 EventSource_Agent sample_payloads), ps_graph = told_graph\<rparr>
     [(ConversationId 20, told_handle)]"

abbreviation ending_env :: "sqlite_store session_env" where
  "ending_env \<equiv> quiet_env (sqlite_ops gregorian ending_serde show_nat)"

lemma table_codec: "faithful_codec (table_serde table)"
  using takeWhile_position [of _ table] by (auto simp: faithful_codec_def table_serde_def split: if_splits)

lemma told_live_synced: "synced gregorian (sq_log gregorian ending_serde) (sq_inv gregorian ending_serde) (lv_platform told_live)"
  by code_simp

lemma told_live_rows:
  "map s_id (open_rows (ConversationId 20) (ps_graph (lv_platform told_live))) = [SessionId 30]"
  "list_all (handle_of told_handle) (open_rows (ConversationId 20) (ps_graph (lv_platform told_live)))"
  "list_all (\<lambda>r. s_seeded_from_turn r = None) (open_rows (ConversationId 20) (ps_graph (lv_platform told_live)))"
  by code_simp+

lemma told_live_one:
  "one_session gregorian (sq_log gregorian ending_serde) (sq_inv gregorian ending_serde) (ConversationId 20) told_live"
  "live_get (ConversationId 20) (lv_sessions told_live) = Some told_handle"
proof -
  show l: "live_get (ConversationId 20) (lv_sessions told_live) = Some told_handle" by code_simp
  show "one_session gregorian (sq_log gregorian ending_serde) (sq_inv gregorian ending_serde) (ConversationId 20) told_live"
    using told_live_rows(1,2) l sqs.synced_tracks [OF told_live_synced]
    by (auto simp: one_session_def map_eq_Cons_conv)
qed

lemma told_live_env:
  "lifecycle_env gregorian (sq_log gregorian ending_serde) (sq_inv gregorian ending_serde)
     (\<lambda>t. faithful_codec ending_serde \<and> ts_in_range gregorian t) (sqlite_ops gregorian ending_serde show_nat) c ending_env"
proof -
  have "ts_in_range gregorian 100000" by code_simp
  then show ?thesis by (auto simp: lifecycle_env_def quiet_env_def ending_serde_def table_codec intro!: calm_same)
qed

lemma ending_settings:
  "from_store (env_decode ending_env) (op_read_from (env_ops ending_env)) (ps_store (lv_platform told_live)) = Inr default_settings"
proof -
  have "list_all (\<lambda>e. logged_settings (ev_payload e) = None) (stamp 0 1000 EventSource_Agent sample_payloads)" by code_simp
  moreover have "op_read_from (env_ops ending_env) (ps_store (lv_platform told_live)) 0 = Inr (stamp 0 1000 EventSource_Agent sample_payloads)"
    by code_simp
  ultimately show ?thesis
    by (simp add: from_store_def foldl_adopt map_filter_def list_all_iff)
qed

lemma told_live_turns:
  "bounded_buffer_turns (env_prompt_tokens_of ending_env) (op_read_from (env_ops ending_env) (ps_store (lv_platform told_live)))
     (ConversationId 20) (os_start_seq told_handle) (os_start_seq told_handle) (cs_carryover_token_budget (st_compaction default_settings)) = Inr []"
  "idle_gap_ms default_settings = 1800000"
  by code_simp+

theorem restart_keeps_the_prompt_witness:
  "\<exists>h' w'. ensure_session ending_env (ConversationId 20) [] [] (told_live\<lparr>lv_sessions := []\<rparr>) = (Inr h', w')
    \<and> lv_platform w' = lv_platform told_live \<and> os_id h' = SessionId 30 \<and> os_brief h' = ''brief'' \<and> os_started_at h' = 12000
    \<and> os_start_seq h' = 12 \<and> os_session_start_seq h' = 12"
proof -
  have one: "one_session (env_jiff ending_env) (sq_log gregorian ending_serde) (sq_inv gregorian ending_serde) (ConversationId 20) told_live"
    using told_live_one(1) by (simp add: quiet_env_def)
  have r: "ts_in_range (env_jiff ending_env) (os_started_at told_handle)" by code_simp
  have gap: "\<forall>k \<in> {lv_clock_reads told_live + 1, lv_clock_reads told_live + 2}.
      env_clock ending_env k - (if ([] :: turn_view list) = [] then os_started_at told_handle else tv_recorded_at (last []))
        \<le> idle_gap_ms default_settings"
    unfolding told_live_turns(2) by (simp add: quiet_env_def told_handle_def)
  show ?thesis
    using restart_keeps_the_prompt [where E = ending_env and w = told_live and c = "ConversationId 20" and h = told_handle
        and st = default_settings and turns = "[]" and present_set = "[]" and speakers = "[]",
        OF one told_live_one(2) told_live_rows(3) [unfolded list_all_iff] _ r ending_settings told_live_turns(1) gap]
    by (simp add: told_handle_def)
qed

theorem one_session_per_conversation_witness:
  "\<exists>h w' w''. ensure_session ending_env (ConversationId 20) [] [] told_live = (Inr h, w')
    \<and> live_get (ConversationId 20) (lv_sessions w') = Some h \<and> os_id h = SessionId 30 \<and> os_last_activity h = 100000
    \<and> one_session gregorian (sq_log gregorian ending_serde) (sq_inv gregorian ending_serde) (ConversationId 20) w'
    \<and> end_session_for_compaction ending_env (ConversationId 20) told_live = (Inr (), w'')
    \<and> open_rows (ConversationId 20) (ps_graph (lv_platform w'')) = []"
proof -
  let ?h = "told_handle\<lparr>os_last_activity := 100000\<rparr>"
  have c: "env_clock ending_env k = 100000" for k by (simp add: quiet_env_def)
  have "\<forall>k \<in> {lv_clock_reads told_live, lv_clock_reads told_live + 1}. env_clock ending_env k - os_last_activity told_handle \<le> idle_gap_ms default_settings"
    unfolding told_live_turns(2) c by (simp add: told_handle_def)
  from live_session_reused [OF told_live_one(2) ending_settings this, of "[]" "[]"]
  obtain w' where w': "ensure_session ending_env (ConversationId 20) [] [] told_live = (Inr ?h, w')" unfolding c by blast
  have "fst (end_session_for_compaction ending_env (ConversationId 20) told_live) = Inr ()" by code_simp
  then obtain w'' where w'': "end_session_for_compaction ending_env (ConversationId 20) told_live = (Inr (), w'')"
    by (cases "end_session_for_compaction ending_env (ConversationId 20) told_live") simp
  from one_session_per_conversation [OF told_live_env told_live_one(1), of "[]" "[]" ?h w' w''] w' w'' told_live_one(2)
  show ?thesis by (intro exI [of _ ?h] exI [of _ w'] exI [of _ w'']) (simp add: told_handle_def)
qed

section \<open>A checkpoint\<close>

definition checked_turns :: "turn_view list" where
  "checked_turns =
     [(system_view 13 (TurnId 1) ''told at length'' 20000)\<lparr>tv_role := TurnRole_Participant\<rparr>,
      (system_view 14 (TurnId 2) ''noted'' 21000)\<lparr>tv_role := TurnRole_Agent, tv_produced_by := Some \<lparr>model_id = ''m'', template_name = PromptTemplateName_Flush, template_version = 1\<rparr>\<rparr>,
      (system_view 15 (TurnId 3) ''and one thing more'' 22000)\<lparr>tv_role := TurnRole_Participant\<rparr>]"

definition small_deltas :: checkpoint_settings where
  "small_deltas = default_checkpoint\<lparr>ck_min_delta_chars := 10\<rparr>"

theorem checkpoint_flushes_the_delta_witness:
  "\<exists>delta. delta_gate small_deltas (ConversationId 20) told_handle [(ConversationId 21, told_handle\<lparr>os_last_activity := 300000\<rparr>)] 400000
       CheckpointTrigger_Timer checked_turns = Some delta
     \<and> delta = filter (\<lambda>t. flushed_up_to checked_turns 12 < tv_seq t) checked_turns \<and> map tv_text delta = [''and one thing more'']"
proof -
  have s: "sorted (map tv_seq checked_turns)" by code_simp
  have "delta_gate small_deltas (ConversationId 20) told_handle [(ConversationId 21, told_handle\<lparr>os_last_activity := 300000\<rparr>)] 400000
       CheckpointTrigger_Timer checked_turns \<noteq> None" by code_simp
  then obtain delta where d: "delta_gate small_deltas (ConversationId 20) told_handle [(ConversationId 21, told_handle\<lparr>os_last_activity := 300000\<rparr>)]
      400000 CheckpointTrigger_Timer checked_turns = Some delta" by blast
  have t: "map tv_text (filter (\<lambda>t. flushed_up_to checked_turns 12 < tv_seq t) checked_turns) = [''and one thing more'']" by code_simp
  have h: "os_session_start_seq told_handle = 12" by (simp add: told_handle_def)
  from conjunct1 [OF checkpoint_flushes_the_delta [OF s d]] d t show ?thesis unfolding h by auto
qed

section \<open>A flush that fails\<close>

definition busy_payloads :: "event_payload list" where
  "busy_payloads = sample_payloads @
     [said 61 TurnRole_Participant ''hello'', said 62 TurnRole_Agent ''welcome'',
      said 63 TurnRole_Participant ''and?'', said 64 TurnRole_Agent ''well'',
      MemoryCreated (MemoryId 5) (MemoryName ''context/hall''),
      ConversationStarted (ConversationId 21) \<lparr>platform = ''chat'', scope_path = ''hall''\<rparr> (MemoryId 5),
      SessionStarted (ConversationId 21) (SessionId 31) [MemoryId 3] 12000 None ''brief'' [] []]"

definition busy_graph :: graph where
  "busy_graph =
     (case foldM (apply_event gregorian) (stamp 0 13000 EventSource_Agent busy_payloads) empty_graph of Inr g \<Rightarrow> g | Inl _ \<Rightarrow> empty_graph)"

definition busy :: "session_map \<Rightarrow> memory_store live_state" where
  "busy = live_on \<lparr>ps_store = snd (ms_append memory_store_new 13000 EventSource_Agent busy_payloads), ps_graph = busy_graph\<rparr>"

definition late_env :: "memory_store session_env" where
  "late_env = (quiet_env memory_ops)\<lparr>env_clock := (\<lambda>_. 2000000)\<rparr>"

definition failing_env :: "memory_store session_env" where
  "failing_env = late_env\<lparr>env_run_flush := (\<lambda>_ w. (Inl ''model unavailable'', w))\<rparr>"

text \<open>
  Both conversations are past the gap. With a flush that succeeds both sessions are closed. One whose flush fails, which is due again at each
  pass, keeps the other open, and that one has nothing to flush.
\<close>

lemma one_failing_flush_holds_all:
  "fst (sweep_idle_sessions late_env (busy [])) = Inr 2"
  "fst (sweep_idle_sessions failing_env (busy [])) = Inl (InstanceError_Turn (Some (ConversationId 20)) ''model unavailable'')"
  "session_is_open (ps_graph (lv_platform (snd (sweep_idle_sessions failing_env (busy []))))) (SessionId 31)"
  by code_simp+

definition left_open :: "nat \<Rightarrow> seq \<Rightarrow> open_session_view" where
  "left_open i n = \<lparr>ov_id = SessionId i, ov_brief = ''brief'', ov_started_at = 12000, ov_start_seq = n, ov_seeded = False\<rparr>"

lemma busy_candidates:
  "open_sessions gregorian busy_graph = Inr [(ConversationId 20, left_open 30 12), (ConversationId 21, left_open 31 20)]"
  "session_is_open (ps_graph (lv_platform (busy []))) (ov_id (left_open 30 12))"
  by code_simp+

lemma busy_settings:
  "from_store (env_decode failing_env) (op_read_from (env_ops failing_env)) (ps_store (lv_platform (busy []))) = Inr default_settings"
proof -
  have "list_all (\<lambda>e. logged_settings (ev_payload e) = None) (stamp 0 13000 EventSource_Agent busy_payloads)" by code_simp
  moreover have "op_read_from (env_ops failing_env) (ps_store (lv_platform (busy []))) 0 = Inr (stamp 0 13000 EventSource_Agent busy_payloads)"
    by code_simp
  ultimately show ?thesis
    by (simp add: from_store_def foldl_adopt map_filter_def list_all_iff)
qed

lemma busy_buffer:
  obtains turns where "bounded_buffer_turns (env_prompt_tokens_of failing_env) (op_read_from (env_ops failing_env) (ps_store (lv_platform (busy []))))
      (ConversationId 20) (ov_start_seq (left_open 30 12)) (ov_start_seq (left_open 30 12)) 4000 = Inr turns"
    "last_activity_of (left_open 30 12) turns = 13000" "own_turns (recovered_session (left_open 30 12) t) turns = 4"
proof -
  let ?b = "bounded_buffer_turns (env_prompt_tokens_of failing_env) (op_read_from (env_ops failing_env) (ps_store (lv_platform (busy []))))
      (ConversationId 20) (ov_start_seq (left_open 30 12)) (ov_start_seq (left_open 30 12)) 4000"
  have "case ?b of Inr turns \<Rightarrow> last_activity_of (left_open 30 12) turns = 13000
      \<and> length (filter (\<lambda>t. ov_start_seq (left_open 30 12) \<le> tv_seq t) turns) = 4 | Inl _ \<Rightarrow> False"
    by code_simp
  then show thesis using that by (auto simp: own_turns_def recovered_session_def split: sum.splits)
qed

theorem failed_flush_stops_the_sweep_witness:
  "open_sessions gregorian busy_graph = Inr [(ConversationId 20, left_open 30 12), (ConversationId 21, left_open 31 20)]
    \<and> sweep_loop failing_env default_settings 2000000 [(ConversationId 20, left_open 30 12), (ConversationId 21, left_open 31 20)] 0 (busy [])
      = (Inl (InstanceError_Turn (Some (ConversationId 20)) ''model unavailable''), busy [])"
proof -
  obtain turns where t: "bounded_buffer_turns (env_prompt_tokens_of failing_env) (op_read_from (env_ops failing_env) (ps_store (lv_platform (busy []))))
      (ConversationId 20) (ov_start_seq (left_open 30 12)) (ov_start_seq (left_open 30 12)) 4000 = Inr turns"
    "last_activity_of (left_open 30 12) turns = 13000" "own_turns (recovered_session (left_open 30 12) 13000) turns = 4"
    by (rule busy_buffer)
  have c: "cs_carryover_token_budget (st_compaction default_settings) = 4000" "cs_flush_min_turns (st_compaction default_settings) = 4"
    "idle_gap_ms default_settings = 1800000" "live_get (ConversationId 20) (lv_sessions (busy [])) = None" by code_simp+
  have f: "env_run_flush failing_env f (busy []) = (Inl ''model unavailable'', busy [])" for f by (simp add: failing_env_def)
  from failed_flush_stops_the_sweep [OF c(4) busy_candidates(2) busy_settings _ _ _ f, of turns 2000000 "[(ConversationId 21, left_open 31 20)]" 0]
    t c busy_candidates(1)
  show ?thesis by simp
qed

section \<open>A compaction and a message\<close>

text \<open>
  The end by compaction does not take the conversation's lifecycle lock, which the flush's comment says its caller holds. While a forced
  compaction waits for the flush, the session is out of the live map and still open in the log, so a message that arrives takes it up again:
  the conversation goes on in a session the log then ends.
\<close>

definition racing_flush :: "flush \<Rightarrow> memory_store live_state \<Rightarrow> (string, unit) result \<times> memory_store live_state" where
  "racing_flush f w = (Inr (), snd (ensure_session (quiet_env memory_ops) (ConversationId 20) [MemoryId 2] [MemoryId 2] w))"

definition racing_env :: "memory_store session_env" where
  "racing_env = (quiet_env memory_ops)\<lparr>env_run_flush := racing_flush\<rparr>"

definition raced :: "(instance_error, bool) result \<times> memory_store live_state" where
  "raced = force_compaction racing_env \<lparr>platform = ''chat'', scope_path = ''room''\<rparr> (busy [(ConversationId 20, told_handle)])"

definition race_seen :: "(instance_error, bool) result \<times> memory_store live_state \<Rightarrow> bool \<times> session_id option \<times> bool" where
  "race_seen = (\<lambda>(r, w). (r = Inr True, map_option os_id (live_get (ConversationId 20) (lv_sessions w)),
     session_is_open (ps_graph (lv_platform w)) (SessionId 30)))"

lemma compaction_races_a_message: "race_seen raced = (True, Some (SessionId 30), False)"
  by code_simp

end
