(* ===== verification/Maintain_Cluster.thy ===== *)
theory Maintain_Cluster
  imports Block_Attest
begin

text \<open>
  What the consolidation pass decides without a model (\<open>src/agent/maintenance/consolidation/clustering/mod.rs\<close>): the vectors of a class's
  entries, the groups a synthesis stays within, the clusters of a group and the entries that are folded into a wider copy; with the
  check of a model's selection (\<open>synthesis.rs\<close>).

  The agglomerative clustering of the \<open>kodama\<close> crate is an argument. A rational stands for a finite \<open>f32\<close>: the rounding of the
  products, their sums and the two subtractions from one is not modelled.
\<close>

section \<open>The vectors of a class\<close>

definition contextual_text :: "string \<Rightarrow> string \<Rightarrow> string" where
  "contextual_text handle text = handle @ '': '' @ text"

type_synonym vectors = "string \<rightharpoonup> embedding"

text \<open>The embedder's batch call: one vector for each text. The slices of the code panic on a shorter answer.\<close>

type_synonym embedder = "string list \<Rightarrow> (string, embedding list) result"

datatype embed_failure = EmbedFailure_Model string | EmbedFailure_Panic

definition missing_raw :: "(nat \<Rightarrow> string) \<Rightarrow> vectors \<Rightarrow> entry_view list \<Rightarrow> entry_view list" where
  "missing_raw U vs es = filter (\<lambda>e. vs (to_vector_id U (VectorKey_Entry (vw_entry_id e))) = None) es"

definition missing_contextual :: "(nat \<Rightarrow> string) \<Rightarrow> vectors \<Rightarrow> entry_view list \<Rightarrow> entry_view list" where
  "missing_contextual U vs es = filter (\<lambda>e. vs (to_vector_id U (VectorKey_EntryContextual (vw_entry_id e))) = None) es"

definition texts_to_embed :: "(nat \<Rightarrow> string) \<Rightarrow> vectors \<Rightarrow> memory_name option \<Rightarrow> entry_view list \<Rightarrow> string list" where
  "texts_to_embed U vs name es =
     map vw_text (missing_raw U vs es)
     @ map (\<lambda>e. case name of Some n \<Rightarrow> contextual_text (name_str n) (vw_text e) | None \<Rightarrow> vw_text e) (missing_contextual U vs es)"

fun upsert_vectors :: "(entry_view \<Rightarrow> string) \<Rightarrow> entry_view list \<Rightarrow> embedding list \<Rightarrow> vectors \<Rightarrow> vectors" where
  "upsert_vectors k (e # es) (v # vec) vs = upsert_vectors k es vec (vs(k e \<mapsto> v))"
| "upsert_vectors k es vec vs = vs"

text \<open>The contextual vectors in entry order: the indexed ones, and the fresh ones where there was none.\<close>

fun assemble :: "embedding option list \<Rightarrow> embedding list \<Rightarrow> embedding list" where
  "assemble [] fresh = []"
| "assemble (Some v # olds) fresh = v # assemble olds fresh"
| "assemble (None # olds) fresh = hd fresh # assemble olds (tl fresh)"

definition embed_class_entries ::
  "(nat \<Rightarrow> string) \<Rightarrow> embedder \<Rightarrow> memory_name option \<Rightarrow> entry_view list \<Rightarrow> vectors
    \<Rightarrow> (embed_failure, embedding list) result \<times> vectors" where
  "embed_class_entries U embedder name es vs =
     (let texts = texts_to_embed U vs name es;
          raw_count = length (missing_raw U vs es);
          existing = map (\<lambda>e. vs (to_vector_id U (VectorKey_EntryContextual (vw_entry_id e)))) es
      in case (if texts = [] then Inr [] else embedder texts) of
           Inl e \<Rightarrow> (Inl (EmbedFailure_Model e), vs)
         | Inr fresh \<Rightarrow>
             (if length fresh < length texts then (Inl EmbedFailure_Panic, vs)
              else (Inr (assemble existing (drop raw_count fresh)),
                    upsert_vectors (\<lambda>e. to_vector_id U (VectorKey_EntryContextual (vw_entry_id e))) (missing_contextual U vs es)
                      (drop raw_count fresh)
                      (upsert_vectors (\<lambda>e. to_vector_id U (VectorKey_Entry (vw_entry_id e))) (missing_raw U vs es)
                        (take raw_count fresh) vs))))"

section \<open>Groups of one posture\<close>

datatype posture_key =
    PostureKey_Public
  | PostureKey_Attributed
  | PostureKey_PrivateToTeller teller
  | PostureKey_Exclude teller "memory_id list"

definition posture_key :: "entry_view \<Rightarrow> posture_key" where
  "posture_key e =
     (case vw_visibility e of
        Visibility_Public \<Rightarrow> PostureKey_Public
      | Visibility_Attributed \<Rightarrow> PostureKey_Attributed
      | Visibility_PrivateToTeller \<Rightarrow> PostureKey_PrivateToTeller (vw_told_by e)
      | Visibility_Exclude s \<Rightarrow> PostureKey_Exclude (vw_told_by e) s)"

fun place_in_group :: "'k \<Rightarrow> 'v \<Rightarrow> ('k \<times> 'v list) list \<Rightarrow> ('k \<times> 'v list) list" where
  "place_in_group k i [] = [(k, [i])]"
| "place_in_group k i ((k', members) # groups) =
     (if k' = k then (k', members @ [i]) # groups else (k', members) # place_in_group k i groups)"

definition group_step :: "(posture_key \<times> nat list) list \<Rightarrow> nat \<times> entry_view \<Rightarrow> (posture_key \<times> nat list) list" where
  "group_step groups = (\<lambda>(i, e). if origin_is_connector (vw_origin e) then groups else place_in_group (posture_key e) i groups)"

definition tier1_groups :: "entry_view list \<Rightarrow> nat list list" where
  "tier1_groups es = map snd (foldl group_step [] (enumerate 0 es))"

section \<open>Clusters\<close>

text \<open>\<open>kodama::Step\<close>: the two clusters it merges and their distance. Clusters are numbered points first, then steps.\<close>

record merge_step =
  ms_cluster1 :: nat
  ms_cluster2 :: nat
  ms_dissimilarity :: rat

definition dot_product :: "embedding \<Rightarrow> embedding \<Rightarrow> rat" where
  "dot_product a b = sum_list (map2 (*) a b)"

definition dissimilarities :: "embedding list \<Rightarrow> nat list \<Rightarrow> rat list" where
  "dissimilarities embeddings indices =
     concat (map (\<lambda>a. map (\<lambda>b. 1 - dot_product (embeddings ! (indices ! a)) (embeddings ! (indices ! b))) [a + 1..<length indices])
       [0..<length indices])"

text \<open>The loop of \<open>cut_tree\<close>: \<open>node_cluster\<close> maps a node to its label. \<open>None\<close> is an index out of bounds, a panic.\<close>

fun cut_loop :: "rat \<Rightarrow> merge_step list \<Rightarrow> nat \<Rightarrow> nat list \<Rightarrow> nat list \<Rightarrow> nat list option" where
  "cut_loop threshold [] next_cluster node_cluster labels = Some labels"
| "cut_loop threshold (s # steps) next_cluster node_cluster labels =
     (if ms_dissimilarity s > threshold then Some labels
      else if length node_cluster \<le> ms_cluster1 s \<or> length node_cluster \<le> ms_cluster2 s then None
      else let a = node_cluster ! ms_cluster1 s; b = node_cluster ! ms_cluster2 s
           in cut_loop threshold steps (next_cluster + 1) (node_cluster @ [next_cluster])
                (map (\<lambda>l. if l = a \<or> l = b then next_cluster else l) labels))"

fun relabel :: "(nat \<times> nat) list \<Rightarrow> nat list \<Rightarrow> nat list" where
  "relabel remap [] = []"
| "relabel remap (l # labels) =
     (case map_of remap l of
        Some n \<Rightarrow> n # relabel remap labels
      | None \<Rightarrow> length remap # relabel ((l, length remap) # remap) labels)"

definition cut_tree :: "merge_step list \<Rightarrow> nat \<Rightarrow> rat \<Rightarrow> nat list option" where
  "cut_tree steps n threshold = map_option (relabel []) (cut_loop threshold steps n [0..<n] [0..<n])"

fun gather_clusters :: "(nat \<times> nat) list \<Rightarrow> (nat \<times> nat list) list \<Rightarrow> (nat \<times> nat list) list" where
  "gather_clusters [] clusters = clusters"
| "gather_clusters ((label, original) # points) clusters =
     gather_clusters points (place_in_group label original clusters)"

definition cluster_within ::
  "(rat list \<Rightarrow> nat \<Rightarrow> merge_step list) \<Rightarrow> embedding list \<Rightarrow> nat list \<Rightarrow> rat
    \<Rightarrow> nat list list option" where
  "cluster_within linkage embeddings indices threshold =
     (if length indices < 2 then Some (map (\<lambda>i. [i]) indices)
      else map_option (\<lambda>labels. map snd (gather_clusters (zip labels indices) []))
             (cut_tree (linkage (dissimilarities embeddings indices) (length indices)) (length indices) (1 - threshold)))"

section \<open>Absorptions\<close>

fun is_absorbable :: "visibility \<Rightarrow> visibility \<Rightarrow> bool" where
  "is_absorbable Visibility_PrivateToTeller target \<longleftrightarrow> target = Visibility_Public \<or> target = Visibility_Attributed"
| "is_absorbable (Visibility_Exclude s) target \<longleftrightarrow> target = Visibility_Public \<or> target = Visibility_Attributed"
| "is_absorbable Visibility_Attributed target \<longleftrightarrow> target = Visibility_Public"
| "is_absorbable Visibility_Public target \<longleftrightarrow> False"

text \<open>The best target so far: its index, whether it is public, its score. A pair of a flag and a score is compared left first.\<close>

definition better_target :: "bool \<times> rat \<Rightarrow> (nat \<times> bool \<times> rat) option \<Rightarrow> bool" where
  "better_target = (\<lambda>(is_public, score) best.
     case best of None \<Rightarrow> True | Some (_, p, s) \<Rightarrow> (p < is_public \<or> p = is_public \<and> s < score))"

definition target_step ::
  "(nat \<Rightarrow> rat) \<Rightarrow> rat \<Rightarrow> nat \<Rightarrow> entry_view \<Rightarrow> (nat \<times> bool \<times> rat) option \<Rightarrow> nat \<times> entry_view
    \<Rightarrow> (nat \<times> bool \<times> rat) option" where
  "target_step score threshold i e best = (\<lambda>(j, c).
     if j = i \<or> origin_is_connector (vw_origin c) \<or> \<not> is_absorbable (vw_visibility e) (vw_visibility c) then best
     else if score j < threshold then best
     else if better_target (vw_visibility c = Visibility_Public, score j) best
          then Some (j, vw_visibility c = Visibility_Public, score j) else best)"

definition best_target ::
  "entry_view list \<Rightarrow> embedding list \<Rightarrow> rat \<Rightarrow> nat \<Rightarrow> entry_view
    \<Rightarrow> (nat \<times> bool \<times> rat) option" where
  "best_target es embeddings threshold i e =
     foldl (target_step (\<lambda>j. dot_product (embeddings ! i) (embeddings ! j)) threshold i e) None (enumerate 0 es)"

definition absorb_step ::
  "entry_view list \<Rightarrow> embedding list \<Rightarrow> rat \<Rightarrow> (nat \<times> entry_id list) list
    \<Rightarrow> nat \<times> entry_view \<Rightarrow> (nat \<times> entry_id list) list" where
  "absorb_step es embeddings threshold by_target = (\<lambda>(i, e).
     if origin_is_connector (vw_origin e) \<or> vw_visibility e = Visibility_Public then by_target
     else case best_target es embeddings threshold i e of
            None \<Rightarrow> by_target
          | Some (target, _) \<Rightarrow> place_in_group target (vw_entry_id e) by_target)"

definition tier2_absorptions ::
  "entry_view list \<Rightarrow> embedding list \<Rightarrow> rat \<Rightarrow> (entry_id \<times> entry_id list) list" where
  "tier2_absorptions es embeddings threshold =
     (let by_target = foldl (absorb_step es embeddings threshold) [] (enumerate 0 es);
          absorbed = concat (map snd by_target)
      in map (\<lambda>(target, sources). (vw_entry_id (es ! target), sources))
           (filter (\<lambda>(target, _). vw_entry_id (es ! target) \<notin> set absorbed) by_target))"

section \<open>A model's selection\<close>

fun validate_selection :: "(nat \<Rightarrow> string) \<Rightarrow> entry_view list \<Rightarrow> string list \<Rightarrow> entry_id list \<Rightarrow> entry_id list" where
  "validate_selection U cluster [] selected = selected"
| "validate_selection U cluster (raw # raws) selected =
     validate_selection U cluster raws
       (case List.find (\<lambda>e. U (entry_ulid (vw_entry_id e)) = raw) cluster of
          Some e \<Rightarrow> if vw_entry_id e \<in> set selected then selected else selected @ [vw_entry_id e]
        | None \<Rightarrow> selected)"

end
