(* ===== verification/Maintain_Cluster_Facts.thy ===== *)
theory Maintain_Cluster_Facts
  imports Maintain_Cluster Visibility "HOL-Library.Sublist"
begin

text \<open>
  What consolidation may put together: groups of one audience, clusters whose every pair is close, folds that only go to a wider copy.
\<close>

section \<open>Grouping\<close>

definition group_pairs :: "('k \<times> 'v) list \<Rightarrow> ('k \<times> 'v list) list" where
  "group_pairs ps = foldl (\<lambda>groups (k, i). place_in_group k i groups) [] ps"

lemma place_in_group_keys: "fst ` set (place_in_group k i gs) = insert k (fst ` set gs)"
proof (induction gs)
  case (Cons g gs)
  then show ?case by (cases g) (simp add: insert_commute)
qed simp

lemma place_in_group_distinct: "distinct (map fst gs) \<Longrightarrow> distinct (map fst (place_in_group k i gs))"
proof (induction gs)
  case (Cons g gs)
  then show ?case using place_in_group_keys [of k i gs] by (cases g) auto
qed simp

lemma place_in_group_map:
  "map_of (place_in_group k i gs) c
    = (if c = k then Some ((case map_of gs k of Some ms \<Rightarrow> ms | None \<Rightarrow> []) @ [i]) else map_of gs c)"
  by (induction gs) (auto split: option.splits)

lemma group_pairs_snoc: "group_pairs (ps @ [(k, i)]) = place_in_group k i (group_pairs ps)"
  by (simp add: group_pairs_def)

lemma group_pairs_spec:
  "distinct (map fst (group_pairs ps))
    \<and> map_of (group_pairs ps) k = (let ms = map snd (filter (\<lambda>p. fst p = k) ps) in if ms = [] then None else Some ms)"
proof (induction ps rule: rev_induct)
  case (snoc p ps)
  obtain c i where p: "p = (c, i)" by (cases p)
  from snoc show ?case
    unfolding p group_pairs_snoc
    by (auto simp: Let_def place_in_group_distinct place_in_group_map split: if_splits)
qed (simp add: group_pairs_def)

lemma in_group_pairs:
  "(k, ms) \<in> set (group_pairs ps) \<longleftrightarrow> ms = map snd (filter (\<lambda>p. fst p = k) ps) \<and> ms \<noteq> []"
proof -
  have d: "distinct (map fst (group_pairs ps))" by (rule conjunct1 [OF group_pairs_spec])
  have "map_of (group_pairs ps) k = (let ms = map snd (filter (\<lambda>p. fst p = k) ps) in if ms = [] then None else Some ms)"
    by (rule conjunct2 [OF group_pairs_spec])
  moreover have "(k, ms) \<in> set (group_pairs ps) \<longleftrightarrow> map_of (group_pairs ps) k = Some ms" by (rule map_of_eq_Some_iff [OF d, symmetric])
  ultimately show ?thesis by (auto simp: Let_def split: if_splits)
qed

lemma concat_group_pairs:
  fixes ps :: "('k \<times> 'v) list"
  shows "mset (concat (map snd (group_pairs ps))) = mset (map snd ps)"
proof (induction ps rule: rev_induct)
  case (snoc p ps)
  have place: "mset (concat (map snd (place_in_group k i gs))) = add_mset i (mset (concat (map snd gs)))" for k :: 'k and i :: 'v and gs
    by (induction gs) auto
  obtain c i where p: "p = (c, i)" by (cases p)
  show ?case using snoc unfolding p group_pairs_snoc place by simp
qed (simp add: group_pairs_def)

section \<open>One audience in a group\<close>

definition groupable :: "entry_view list \<Rightarrow> (posture_key \<times> nat) list" where
  "groupable es = map (\<lambda>(i, e). (posture_key e, i)) (filter (\<lambda>(i, e). \<not> origin_is_connector (vw_origin e)) (enumerate 0 es))"

lemma tier1_groups_eq: "tier1_groups es = map snd (group_pairs (groupable es))"
proof -
  have "foldl group_step acc xs
      = foldl (\<lambda>groups (k, i). place_in_group k i groups) acc
          (map (\<lambda>(i, e). (posture_key e, i)) (filter (\<lambda>(i, e). \<not> origin_is_connector (vw_origin e)) xs))" for acc xs
    by (induction xs arbitrary: acc) (auto simp: group_step_def split: prod.splits)
  then show ?thesis by (simp add: tier1_groups_def group_pairs_def groupable_def)
qed

lemma in_enumerate: "(i, e) \<in> set (enumerate 0 es) \<longleftrightarrow> i < length es \<and> es ! i = e"
  by (auto simp: in_set_enumerate_eq)

lemma in_groupable: "(k, i) \<in> set (groupable es) \<longleftrightarrow> i < length es \<and> \<not> origin_is_connector (vw_origin (es ! i)) \<and> k = posture_key (es ! i)"
  by (force simp: groupable_def in_enumerate)

lemma tier1_group_member:
  assumes "grp \<in> set (tier1_groups es)" "i \<in> set grp"
  shows "i < length es" "\<not> origin_is_connector (vw_origin (es ! i))"
    "j \<in> set grp \<Longrightarrow> posture_key (es ! i) = posture_key (es ! j)"
proof -
  from assms(1) obtain k where k: "(k, grp) \<in> set (group_pairs (groupable es))" by (auto simp: tier1_groups_eq)
  have m: "j \<in> set grp \<Longrightarrow> (k, j) \<in> set (groupable es)" for j using k by (auto simp: in_group_pairs)
  show "i < length es" "\<not> origin_is_connector (vw_origin (es ! i))"
    "j \<in> set grp \<Longrightarrow> posture_key (es ! i) = posture_key (es ! j)"
    using m [OF assms(2)] m [of j] by (auto simp: in_groupable)
qed

lemma tier1_groups_complete:
  "mset (concat (tier1_groups es)) = mset (filter (\<lambda>i. \<not> origin_is_connector (vw_origin (es ! i))) [0..<length es])"
proof -
  have "map snd (groupable es) = map fst (filter (\<lambda>(i, e). \<not> origin_is_connector (vw_origin e)) (enumerate 0 es))"
    by (simp add: groupable_def case_prod_unfold comp_def)
  also have "\<dots> = filter (\<lambda>i. \<not> origin_is_connector (vw_origin (es ! i))) [0..<length es]"
  proof -
    have "map fst (filter (\<lambda>(i, e). Q e) (enumerate n xs)) = filter (\<lambda>i. Q (xs ! (i - n))) [n..<n + length xs]" for Q n and xs :: "entry_view list"
    proof (induction xs arbitrary: n)
      case (Cons x xs)
      have "filter (\<lambda>i. Q (xs ! (i - Suc n))) [Suc n..<Suc (n + length xs)] = filter (\<lambda>i. Q ((x # xs) ! (i - n))) [Suc n..<Suc (n + length xs)]"
        by (rule filter_cong) (auto simp: nth_Cons' Suc_diff_Suc)
      with Cons [of "Suc n"] show ?case by (simp add: upt_conv_Cons del: upt_Suc)
    qed simp
    from this [where n = 0] show ?thesis by simp
  qed
  finally show ?thesis by (simp add: tier1_groups_eq concat_group_pairs)
qed

section \<open>Clusters\<close>

lemma dot_product_commute: "dot_product v w = dot_product w v"
  by (simp add: dot_product_def zip_commute [of v w] comp_def case_prod_unfold mult.commute)

lemma cut_loop_length: "cut_loop threshold steps n nodes labels = Some ls \<Longrightarrow> length ls = length labels"
  by (induction threshold steps n nodes labels rule: cut_loop.induct) (auto simp: Let_def split: if_splits)

lemma relabel_length [simp]: "length (relabel remap ls) = length ls"
  by (induction remap ls rule: relabel.induct) (auto split: option.splits)

lemma relabel_renames:
  assumes "inj_on snd (set remap)" "\<forall>n \<in> snd ` set remap. n < length remap"
  shows "\<exists>f. relabel remap ls = map f ls \<and> inj_on f (set ls \<union> fst ` set remap) \<and> (\<forall>a n. map_of remap a = Some n \<longrightarrow> f a = n)"
  using assms
proof (induction remap ls rule: relabel.induct)
  case (1 remap)
  have "a = b" if ab: "a \<in> fst ` set remap" "b \<in> fst ` set remap" "the (map_of remap a) = the (map_of remap b)" for a b
  proof -
    obtain m n where "map_of remap a = Some m" "map_of remap b = Some n"
      using ab(1,2) by (metis domIff dom_map_of_conv_image_fst option.exhaust)
    then show ?thesis using ab(3) 1(1) by (metis inj_onD map_of_SomeD option.sel prod.inject snd_conv)
  qed
  then show ?case by (intro exI [of _ "\<lambda>a. the (map_of remap a)"]) (auto intro: inj_onI)
next
  case (2 remap l labels)
  show ?case
  proof (cases "map_of remap l")
    case (Some n)
    with 2(2) [OF Some 2(3,4)] obtain f where f: "relabel remap labels = map f labels"
      "inj_on f (set labels \<union> fst ` set remap)" "\<forall>a n. map_of remap a = Some n \<longrightarrow> f a = n" by blast
    have "l \<in> fst ` set remap" using map_of_SomeD [OF Some] by force
    with f Some show ?thesis by (intro exI [of _ f]) (simp add: insert_absorb)
  next
    case None
    have "inj_on snd (set ((l, length remap) # remap))" "\<forall>n \<in> snd ` set ((l, length remap) # remap). n < length ((l, length remap) # remap)"
      using 2(3,4) by (auto intro!: inj_on_insert [THEN iffD2])
    from 2(1) [OF None this] obtain f where f: "relabel ((l, length remap) # remap) labels = map f labels"
      "inj_on f (set labels \<union> fst ` set ((l, length remap) # remap))"
      "\<forall>a n. map_of ((l, length remap) # remap) a = Some n \<longrightarrow> f a = n" by blast
    have "f l = length remap" using f(3) by simp
    moreover have "f a = n" if n: "map_of remap a = Some n" for a n
    proof -
      have "a \<noteq> l" using n None by auto
      then show ?thesis using f(3) n by simp
    qed
    ultimately show ?thesis using f(1,2) None by (intro exI [of _ f]) simp
  qed
qed

text \<open>
  The contract of a complete-linkage dendrogram, as far as the cut rests on it: a step merges two nodes that exist, and its distance is at
  least that of every pair across them. \<open>nodes\<close> holds the points of each node.
\<close>

fun complete_linkage :: "(nat \<Rightarrow> nat \<Rightarrow> rat) \<Rightarrow> nat list list \<Rightarrow> merge_step list \<Rightarrow> bool" where
  "complete_linkage D nodes [] \<longleftrightarrow> True"
| "complete_linkage D nodes (s # steps) \<longleftrightarrow>
     ms_cluster1 s < length nodes \<and> ms_cluster2 s < length nodes
     \<and> list_all (\<lambda>i. list_all (\<lambda>j. D i j \<le> ms_dissimilarity s) (nodes ! ms_cluster2 s)) (nodes ! ms_cluster1 s)
     \<and> complete_linkage D (nodes @ [nodes ! ms_cluster1 s @ nodes ! ms_cluster2 s]) steps"

definition labels_close :: "(nat \<Rightarrow> nat \<Rightarrow> rat) \<Rightarrow> rat \<Rightarrow> nat list list \<Rightarrow> nat list \<Rightarrow> bool" where
  "labels_close D threshold nodes labels \<longleftrightarrow>
     (\<forall>i < length labels. labels ! i < length nodes \<and> i \<in> set (nodes ! (labels ! i)))
     \<and> (\<forall>i < length labels. \<forall>j < length labels. i \<noteq> j \<longrightarrow> labels ! i = labels ! j \<longrightarrow> D i j \<le> threshold)"

lemma cut_loop_close:
  assumes "complete_linkage D nodes steps" "labels_close D threshold nodes labels" "\<And>i j. D i j = D j i"
  shows "\<exists>ls. cut_loop threshold steps (length nodes) [0..<length nodes] labels = Some ls
    \<and> (\<forall>i < length ls. \<forall>j < length ls. i \<noteq> j \<longrightarrow> ls ! i = ls ! j \<longrightarrow> D i j \<le> threshold)"
  using assms(1,2)
proof (induction steps arbitrary: nodes labels)
  case Nil
  then show ?case by (auto simp: labels_close_def)
next
  case (Cons s steps)
  let ?a = "ms_cluster1 s" and ?b = "ms_cluster2 s" and ?n = "length nodes"
  show ?case
  proof (cases "ms_dissimilarity s > threshold")
    case True
    then show ?thesis using Cons.prems(2) by (auto simp: labels_close_def)
  next
    case False
    let ?nodes = "nodes @ [nodes ! ?a @ nodes ! ?b]"
    let ?merge = "\<lambda>l. if l = ?a \<or> l = ?b then ?n else l"
    from Cons.prems(1) have ab: "?a < ?n" "?b < ?n" and rest: "complete_linkage D ?nodes steps"
      and across: "\<And>i j. i \<in> set (nodes ! ?a) \<Longrightarrow> j \<in> set (nodes ! ?b) \<Longrightarrow> D i j \<le> threshold"
      using False by (fastforce simp: list_all_iff)+
    have old: "labels ! i < ?n" "i \<in> set (nodes ! (labels ! i))" if "i < length labels" for i
      using Cons.prems(2) that by (auto simp: labels_close_def)
    have pair: "D i j \<le> threshold" if "i < length labels" "j < length labels" "i \<noteq> j" "?merge (labels ! i) = ?merge (labels ! j)" for i j
    proof (cases "labels ! i = labels ! j")
      case True
      with Cons.prems(2) that(1-3) show ?thesis by (auto simp: labels_close_def)
    next
      case False
      with that(4) old(1) [OF that(1)] old(1) [OF that(2)] have "labels ! i = ?a \<and> labels ! j = ?b \<or> labels ! i = ?b \<and> labels ! j = ?a"
        by (auto split: if_splits)
      then show ?thesis using across assms(3) old(2) [OF that(1)] old(2) [OF that(2)] by metis
    qed
    have "labels_close D threshold ?nodes (map ?merge labels)"
      unfolding labels_close_def
    proof (intro conjI allI impI)
      fix i assume i: "i < length (map ?merge labels)"
      then show "map ?merge labels ! i < length ?nodes" using old(1) [of i] by (auto simp: less_Suc_eq)
      show "i \<in> set (?nodes ! (map ?merge labels ! i))" using i old [of i] by (auto simp: nth_append)
      fix j assume "j < length (map ?merge labels)" "i \<noteq> j" "map ?merge labels ! i = map ?merge labels ! j"
      then show "D i j \<le> threshold" using i pair by simp
    qed
    from Cons.IH [OF rest this] show ?thesis using False ab by (simp add: Let_def)
  qed
qed

lemma cut_tree_close:
  assumes "complete_linkage D (map (\<lambda>i. [i]) [0..<m]) steps" "\<And>i j. D i j = D j i"
  shows "\<exists>ls. cut_tree steps m threshold = Some ls \<and> length ls = m
    \<and> (\<forall>i < m. \<forall>j < m. i \<noteq> j \<longrightarrow> ls ! i = ls ! j \<longrightarrow> D i j \<le> threshold)"
proof -
  have "labels_close D threshold (map (\<lambda>i. [i]) [0..<m]) [0..<m]" by (auto simp: labels_close_def)
  from cut_loop_close [OF assms(1) this assms(2)] obtain ls where ls:
    "cut_loop threshold steps m [0..<m] [0..<m] = Some ls"
    "\<forall>i < length ls. \<forall>j < length ls. i \<noteq> j \<longrightarrow> ls ! i = ls ! j \<longrightarrow> D i j \<le> threshold" by auto
  have len: "length ls = m" using cut_loop_length [OF ls(1)] by simp
  obtain f where "relabel [] ls = map f ls" "inj_on f (set ls)" using relabel_renames [of "[]" ls] by auto
  then have same: "ls ! i = ls ! j" if "i < m" "j < m" "relabel [] ls ! i = relabel [] ls ! j" for i j
    using that len by (auto dest: inj_onD)
  have "\<forall>i < m. \<forall>j < m. i \<noteq> j \<longrightarrow> relabel [] ls ! i = relabel [] ls ! j \<longrightarrow> D i j \<le> threshold"
    using ls(2) same len by blast
  then show ?thesis using ls(1) len by (intro exI [of _ "relabel [] ls"]) (simp add: cut_tree_def)
qed

text \<open>
  The matrix the clustering is handed, as its documentation lays it out: the rows above the diagonal, one after the other.
\<close>

definition condensed :: "rat list \<Rightarrow> nat \<Rightarrow> nat \<Rightarrow> nat \<Rightarrow> rat" where
  "condensed ds m a b = ds ! (sum_list (map (\<lambda>i. m - 1 - i) [0..<min a b]) + (max a b - min a b - 1))"

lemma condensed_rows:
  fixes f :: "nat \<Rightarrow> nat \<Rightarrow> 'a"
  assumes "a < b" "b < m"
  shows "concat (map (\<lambda>a. map (f a) [a + 1..<m]) [0..<m]) ! (sum_list (map (\<lambda>i. m - 1 - i) [0..<a]) + (b - a - 1)) = f a b"
proof -
  let ?row = "\<lambda>a. map (f a) [a + 1..<m]"
  have "[0..<m] = [0..<a] @ [a..<m]" using upt_add_eq_append [of 0 a "m - a"] assms by simp
  then have "[0..<m] = [0..<a] @ a # [a + 1..<m]" using upt_conv_Cons [of a m] assms by simp
  then have "concat (map ?row [0..<m]) = concat (map ?row [0..<a]) @ ?row a @ concat (map ?row [a + 1..<m])" by simp
  moreover have "length (concat (map ?row [0..<a])) = sum_list (map (\<lambda>i. m - 1 - i) [0..<a])"
    by (simp add: length_concat comp_def)
  moreover have "b - a - 1 < length (?row a)" "?row a ! (b - a - 1) = f a b" using assms by simp_all
  moreover have "(xs @ ys @ zs) ! (n + k) = ys ! k" if "length xs = n" "k < length ys" for xs ys zs :: "'a list" and n k
    using that by (simp add: nth_append)
  ultimately show ?thesis by simp
qed

lemma dissimilarities_condensed:
  assumes "a < length indices" "b < length indices" "a \<noteq> b"
  shows "condensed (dissimilarities embeddings indices) (length indices) a b
    = 1 - dot_product (embeddings ! (indices ! a)) (embeddings ! (indices ! b))"
proof -
  have "condensed (dissimilarities embeddings indices) (length indices) a b
      = 1 - dot_product (embeddings ! (indices ! min a b)) (embeddings ! (indices ! max a b))"
    unfolding condensed_def dissimilarities_def by (rule condensed_rows) (use assms in auto)
  then show ?thesis by (cases "a < b") (simp_all add: min_def max_def dot_product_commute)
qed

lemma gather_clusters_eq: "gather_clusters ps acc = foldl (\<lambda>groups (k, i). place_in_group k i groups) acc ps"
  by (induction ps acc rule: gather_clusters.induct) simp_all

lemma cluster_within_cases:
  assumes "cluster_within linkage embeddings indices threshold = Some clusters"
  obtains "length indices < 2" "clusters = map (\<lambda>i. [i]) indices"
  | ls where "2 \<le> length indices" "length ls = length indices" "clusters = map snd (group_pairs (zip ls indices))"
    "cut_tree (linkage (dissimilarities embeddings indices) (length indices)) (length indices) (1 - threshold) = Some ls"
proof (cases "length indices < 2")
  case False
  with assms obtain ls where ls: "clusters = map snd (group_pairs (zip ls indices))"
    "cut_tree (linkage (dissimilarities embeddings indices) (length indices)) (length indices) (1 - threshold) = Some ls"
    by (auto simp: cluster_within_def gather_clusters_eq group_pairs_def)
  then have "length ls = length indices" using cut_loop_length by (force simp: cut_tree_def)
  with ls False that(2) show thesis by simp
qed (use assms that(1) in \<open>simp add: cluster_within_def\<close>)

lemma cluster_within_partition:
  assumes "cluster_within linkage embeddings indices threshold = Some clusters"
  shows "mset (concat clusters) = mset indices"
  using assms
proof (cases rule: cluster_within_cases)
  case 1
  then show ?thesis by simp
next
  case (2 ls)
  then show ?thesis by (simp add: concat_group_pairs)
qed

lemma cluster_member: "cluster_within linkage embeddings indices threshold = Some clusters \<Longrightarrow> cluster \<in> set clusters \<Longrightarrow> set cluster \<subseteq> set indices"
  using cluster_within_partition [THEN mset_eq_setD] by fastforce

section \<open>Folds\<close>

definition candidate :: "(nat \<Rightarrow> rat) \<Rightarrow> rat \<Rightarrow> nat \<Rightarrow> entry_view \<Rightarrow> nat \<times> entry_view \<Rightarrow> bool" where
  "candidate score threshold i e = (\<lambda>(j, c). j \<noteq> i \<and> \<not> origin_is_connector (vw_origin c)
     \<and> is_absorbable (vw_visibility e) (vw_visibility c) \<and> threshold \<le> score j)"

definition at_most :: "bool \<times> rat \<Rightarrow> bool \<times> rat \<Rightarrow> bool" where
  "at_most = (\<lambda>(p, s) (q, t). (p \<longrightarrow> q) \<and> (p = q \<longrightarrow> s \<le> t))"

lemma at_most_refl [simp]: "at_most q q"
  by (auto simp: at_most_def split: prod.split)

lemma target_step_fold:
  "case foldl (target_step score threshold i e) None xs of
     None \<Rightarrow> \<forall>x \<in> set xs. \<not> candidate score threshold i e x
   | Some (j, p, s) \<Rightarrow>
       (\<exists>c. (j, c) \<in> set xs \<and> candidate score threshold i e (j, c) \<and> p = (vw_visibility c = Visibility_Public) \<and> s = score j)
       \<and> (\<forall>(k, d) \<in> set xs. candidate score threshold i e (k, d) \<longrightarrow> at_most (vw_visibility d = Visibility_Public, score k) (p, s))"
proof (induction xs rule: rev_induct)
  case (snoc x xs)
  obtain k d where x: "x = (k, d)" by (cases x)
  let ?best = "foldl (target_step score threshold i e) None xs"
  show ?case
  proof (cases "candidate score threshold i e x")
    case False
    then have "target_step score threshold i e ?best x = ?best"
      by (auto simp: x candidate_def target_step_def)
    with snoc False show ?thesis by (auto split: option.splits)
  next
    case True
    then have step: "target_step score threshold i e ?best x
        = (if better_target (vw_visibility d = Visibility_Public, score k) ?best
           then Some (k, vw_visibility d = Visibility_Public, score k) else ?best)"
      by (auto simp: x candidate_def target_step_def)
    show ?thesis
    proof (cases ?best)
      case None
      with snoc step True show ?thesis by (auto simp: x better_target_def at_most_def)
    next
      case (Some b)
      obtain j p t where b: "b = (j, p, t)" by (cases b)
      show ?thesis
      proof (cases "better_target (vw_visibility d = Visibility_Public, score k) ?best")
        case True
        then have "at_most (p, t) (vw_visibility d = Visibility_Public, score k)"
          by (auto simp: Some b better_target_def at_most_def)
        then have "at_most (q, u) (p, t) \<Longrightarrow> at_most (q, u) (vw_visibility d = Visibility_Public, score k)" for q u
          by (auto simp: at_most_def)
        with snoc step True \<open>candidate score threshold i e x\<close> show ?thesis
          by (auto simp: x Some b)
      next
        case False
        then have "at_most (vw_visibility d = Visibility_Public, score k) (p, t)"
          by (auto simp: Some b better_target_def at_most_def not_less)
        with snoc step False show ?thesis by (auto simp: x Some b)
      qed
    qed
  qed
qed simp

lemma best_target_Some:
  assumes "best_target es embeddings threshold i e = Some (j, p, s)"
  shows "j < length es" "candidate (\<lambda>j. dot_product (embeddings ! i) (embeddings ! j)) threshold i e (j, es ! j)"
    "k < length es \<Longrightarrow> candidate (\<lambda>j. dot_product (embeddings ! i) (embeddings ! j)) threshold i e (k, es ! k) \<Longrightarrow>
      at_most (vw_visibility (es ! k) = Visibility_Public, dot_product (embeddings ! i) (embeddings ! k))
        (vw_visibility (es ! j) = Visibility_Public, dot_product (embeddings ! i) (embeddings ! j))"
proof -
  have "(\<exists>c. (j, c) \<in> set (enumerate 0 es) \<and> candidate (\<lambda>j. dot_product (embeddings ! i) (embeddings ! j)) threshold i e (j, c)
        \<and> p = (vw_visibility c = Visibility_Public) \<and> s = dot_product (embeddings ! i) (embeddings ! j))
      \<and> (\<forall>(k, d) \<in> set (enumerate 0 es). candidate (\<lambda>j. dot_product (embeddings ! i) (embeddings ! j)) threshold i e (k, d) \<longrightarrow>
          at_most (vw_visibility d = Visibility_Public, dot_product (embeddings ! i) (embeddings ! k)) (p, s))"
    using target_step_fold [where score = "\<lambda>j. dot_product (embeddings ! i) (embeddings ! j)" and threshold = threshold and i = i and e = e and xs = "enumerate 0 es"] assms
    by (simp add: best_target_def)
  then show "j < length es" "candidate (\<lambda>j. dot_product (embeddings ! i) (embeddings ! j)) threshold i e (j, es ! j)"
    "k < length es \<Longrightarrow> candidate (\<lambda>j. dot_product (embeddings ! i) (embeddings ! j)) threshold i e (k, es ! k) \<Longrightarrow>
      at_most (vw_visibility (es ! k) = Visibility_Public, dot_product (embeddings ! i) (embeddings ! k))
        (vw_visibility (es ! j) = Visibility_Public, dot_product (embeddings ! i) (embeddings ! j))"
    by (auto simp: in_enumerate)
qed

definition planned_folds ::
  "entry_view list \<Rightarrow> embedding list \<Rightarrow> rat \<Rightarrow> (nat \<times> entry_id) list" where
  "planned_folds es embeddings threshold =
     List.map_filter (\<lambda>(i, e).
       if origin_is_connector (vw_origin e) \<or> vw_visibility e = Visibility_Public then None
       else map_option (\<lambda>(target, _). (target, vw_entry_id e)) (best_target es embeddings threshold i e)) (enumerate 0 es)"

lemma absorb_fold: "foldl (absorb_step es embeddings threshold) [] (enumerate 0 es) = group_pairs (planned_folds es embeddings threshold)"
proof -
  have "foldl (absorb_step es embeddings threshold) acc xs
      = foldl (\<lambda>groups (k, i). place_in_group k i groups) acc
          (List.map_filter (\<lambda>(i, e).
             if origin_is_connector (vw_origin e) \<or> vw_visibility e = Visibility_Public then None
             else map_option (\<lambda>(target, _). (target, vw_entry_id e)) (best_target es embeddings threshold i e)) xs)" for acc xs
    by (induction xs arbitrary: acc) (auto simp: absorb_step_def List.map_filter_def split: option.splits)
  then show ?thesis by (simp add: group_pairs_def planned_folds_def)
qed

lemma planned_foldD:
  assumes "(target, s) \<in> set (planned_folds es embeddings threshold)"
  shows "\<exists>i p v. i < length es \<and> s = vw_entry_id (es ! i) \<and> \<not> origin_is_connector (vw_origin (es ! i))
    \<and> best_target es embeddings threshold i (es ! i) = Some (target, p, v)"
  using assms
  by (fastforce simp: planned_folds_def List.map_filter_def in_enumerate split: if_splits)

lemma planned_sources_distinct:
  assumes "distinct (map vw_entry_id es)"
  shows "distinct (map snd (planned_folds es embeddings threshold))"
proof -
  have "\<exists>xs. map snd (List.map_filter (\<lambda>(i, e). if P e then None else map_option (\<lambda>(t, _). (t, vw_entry_id e)) (f i e)) (enumerate n ys))
      = map vw_entry_id xs \<and> subseq xs ys" for P n and f :: "nat \<Rightarrow> entry_view \<Rightarrow> (nat \<times> bool \<times> rat) option" and ys :: "entry_view list"
  proof (induction ys arbitrary: n)
    case (Cons y ys)
    then obtain xs where "map snd (List.map_filter (\<lambda>(i, e). if P e then None else map_option (\<lambda>(t, _). (t, vw_entry_id e)) (f i e)) (enumerate (Suc n) ys))
      = map vw_entry_id xs" "subseq xs ys" by blast
    then show ?case
      by (cases "P y \<or> f n y = None")
        (auto simp: map_filter_simps intro: exI [of _ xs] exI [of _ "y # xs"])
  qed (simp add: map_filter_simps)
  from this [where n = 0 and P = "\<lambda>e. origin_is_connector (vw_origin e) \<or> vw_visibility e = Visibility_Public"
      and f = "best_target es embeddings threshold" and ys = es]
  obtain xs where "map snd (planned_folds es embeddings threshold) = map vw_entry_id xs" "subseq xs es"
    unfolding planned_folds_def by blast
  moreover have "subseq as bs \<Longrightarrow> set as \<subseteq> set bs \<and> (distinct bs \<longrightarrow> distinct as)" for as bs :: "entry_id list"
    by (induction rule: list_emb.induct) auto
  ultimately show ?thesis using assms subseq_map by metis
qed

section \<open>Properties\<close>

text \<open>
  C22: a synthesis stays within one audience. The groups of a class hold every entry no connector keeps, each once, and whatever a clustering
  makes of a group, the entries of one cluster share their visibility and, below the postures everyone sees, their teller: no text of a
  confidence is handed to a model beside that of another audience.
\<close>

theorem synthesis_keeps_one_audience:
  "mset (concat (tier1_groups es)) = mset (filter (\<lambda>i. \<not> origin_is_connector (vw_origin (es ! i))) [0..<length es])
    \<and> list_all (\<lambda>grp. \<forall>linkage embeddings threshold.
        case cluster_within linkage embeddings grp threshold of
          None \<Rightarrow> True
        | Some clusters \<Rightarrow>
            mset (concat clusters) = mset grp
            \<and> list_all (\<lambda>cluster. list_all (\<lambda>i. list_all (\<lambda>j.
                  vw_visibility (es ! i) = vw_visibility (es ! j)
                  \<and> (open_posture (vw_visibility (es ! i)) \<or> vw_told_by (es ! i) = vw_told_by (es ! j))) cluster) cluster) clusters)
      (tier1_groups es)"
proof -
  have same: "vw_visibility (es ! i) = vw_visibility (es ! j)
      \<and> (open_posture (vw_visibility (es ! i)) \<or> vw_told_by (es ! i) = vw_told_by (es ! j))"
    if "grp \<in> set (tier1_groups es)" "i \<in> set grp" "j \<in> set grp" for grp i j
    using tier1_group_member(3) [OF that] by (auto simp: posture_key_def open_posture_def split: visibility.splits)
  show ?thesis
    unfolding list_all_iff
  proof (intro conjI ballI allI tier1_groups_complete)
    fix grp linkage embeddings threshold assume g: "grp \<in> set (tier1_groups es)"
    show "case cluster_within linkage embeddings grp threshold of None \<Rightarrow> True
        | Some clusters \<Rightarrow> mset (concat clusters) = mset grp
            \<and> (\<forall>cluster \<in> set clusters. \<forall>i \<in> set cluster. \<forall>j \<in> set cluster. vw_visibility (es ! i) = vw_visibility (es ! j)
                  \<and> (open_posture (vw_visibility (es ! i)) \<or> vw_told_by (es ! i) = vw_told_by (es ! j)))"
      using cluster_within_partition [of linkage embeddings grp threshold]
        cluster_member [of linkage embeddings grp threshold] same [OF g]
      by (auto split: option.split) blast+
  qed
qed

text \<open>
  C24: the pairs of a cluster are close. When the clustering answers the matrix it is handed with a complete-linkage dendrogram of that
  matrix, the cut of the tree does not panic, its clusters are the group's entries, each once, and the embeddings of every two entries of one
  cluster have at least the threshold's similarity.
\<close>

theorem cluster_pairs_are_close:
  assumes "complete_linkage (condensed (dissimilarities embeddings indices) (length indices)) (map (\<lambda>a. [a]) [0..<length indices])
      (linkage (dissimilarities embeddings indices) (length indices))"
  shows "\<exists>clusters. cluster_within linkage embeddings indices threshold = Some clusters
    \<and> mset (concat clusters) = mset indices
    \<and> (\<forall>cluster \<in> set clusters. \<forall>i \<in> set cluster. \<forall>j \<in> set cluster. i \<noteq> j \<longrightarrow> threshold \<le> dot_product (embeddings ! i) (embeddings ! j))"
proof -
  let ?D = "condensed (dissimilarities embeddings indices) (length indices)"
  have D: "?D a b = ?D b a" for a b by (simp add: condensed_def min.commute max.commute)
  obtain ls where ls: "cut_tree (linkage (dissimilarities embeddings indices) (length indices)) (length indices) (1 - threshold) = Some ls"
    "length ls = length indices"
    "\<forall>a < length indices. \<forall>b < length indices. a \<noteq> b \<longrightarrow> ls ! a = ls ! b \<longrightarrow> ?D a b \<le> 1 - threshold"
    using cut_tree_close [OF assms D, of "1 - threshold"] by blast
  then obtain clusters where c: "cluster_within linkage embeddings indices threshold = Some clusters"
    by (cases "length indices < 2") (simp_all add: cluster_within_def)
  have "threshold \<le> dot_product (embeddings ! i) (embeddings ! j)"
    if m: "cluster \<in> set clusters" "i \<in> set cluster" "j \<in> set cluster" "i \<noteq> j" for cluster i j
    using c
  proof (cases rule: cluster_within_cases)
    case 1
    with m show ?thesis by auto
  next
    case (2 ls')
    then have "ls' = ls" using ls(1) by simp
    with 2 m(1) obtain k where "(k, cluster) \<in> set (group_pairs (zip ls indices))" by auto
    with m(2,3) have "(k, i) \<in> set (zip ls indices)" "(k, j) \<in> set (zip ls indices)" by (auto simp: in_group_pairs)
    then obtain a b where ab: "a < length indices" "b < length indices" "ls ! a = k" "ls ! b = k" "indices ! a = i" "indices ! b = j"
      using ls(2) by (auto simp: in_set_zip)
    with m(4) have ne: "a \<noteq> b" by auto
    with ls(3) ab have "?D a b \<le> 1 - threshold" by simp
    then show ?thesis using dissimilarities_condensed [OF ab(1,2) ne, of embeddings] ab(5,6) by simp
  qed
  with c cluster_within_partition [OF c] show ?thesis by blast
qed

text \<open>
  C23: a fold only goes to a wider copy. In the plan every entry is folded at most once, into an entry that is not itself folded; neither is
  kept by a connector, the target is seen by everyone and the source by fewer or under its teller's name, they are at least as close
  as the threshold, and no candidate that is public where the target is not, or as wide and closer, was passed over.
\<close>

theorem folds_go_to_wider_copies:
  fixes es :: "entry_view list" and embeddings :: "embedding list" and threshold :: rat
  assumes "distinct (map vw_entry_id es)"
  defines "plan \<equiv> tier2_absorptions es embeddings threshold"
  shows "distinct (map fst plan) \<and> distinct (concat (map snd plan)) \<and> set (map fst plan) \<inter> set (concat (map snd plan)) = {}
    \<and> (\<forall>(t, sources) \<in> set plan. sources \<noteq> [] \<and> (\<forall>s \<in> set sources. \<exists>i < length es. \<exists>j < length es.
        s = vw_entry_id (es ! i) \<and> t = vw_entry_id (es ! j) \<and> i \<noteq> j
        \<and> \<not> origin_is_connector (vw_origin (es ! i)) \<and> \<not> origin_is_connector (vw_origin (es ! j))
        \<and> open_posture (vw_visibility (es ! j)) \<and> vw_visibility (es ! i) \<noteq> vw_visibility (es ! j) \<and> vw_visibility (es ! i) \<noteq> Visibility_Public
        \<and> threshold \<le> dot_product (embeddings ! i) (embeddings ! j)
        \<and> (\<forall>k < length es. candidate (\<lambda>j. dot_product (embeddings ! i) (embeddings ! j)) threshold i (es ! i) (k, es ! k) \<longrightarrow>
             at_most (vw_visibility (es ! k) = Visibility_Public, dot_product (embeddings ! i) (embeddings ! k))
               (vw_visibility (es ! j) = Visibility_Public, dot_product (embeddings ! i) (embeddings ! j)))))"
proof -
  let ?folds = "planned_folds es embeddings threshold"
  let ?groups = "group_pairs ?folds"
  let ?kept = "filter (\<lambda>(t, _). vw_entry_id (es ! t) \<notin> set (concat (map snd ?groups))) ?groups"
  have plan: "plan = map (\<lambda>(t, sources). (vw_entry_id (es ! t), sources)) ?kept"
    by (simp add: plan_def tier2_absorptions_def absorb_fold Let_def)
  have fst: "map fst plan = map (\<lambda>t. vw_entry_id (es ! t)) (map fst ?kept)" and snd: "map snd plan = map snd ?kept"
    by (simp_all add: plan comp_def case_prod_unfold)
  have all: "distinct (concat (map snd ?groups))"
    using planned_sources_distinct [OF assms(1)] concat_group_pairs [of ?folds] by (metis mset_eq_imp_distinct_iff)
  have sub: "set (concat (map snd plan)) \<subseteq> set (concat (map snd ?groups))" by (auto simp: snd)
  have once: "distinct (concat (map snd plan))"
  proof -
    have "distinct (concat (map snd (filter P gs)))" if "distinct (concat (map snd gs))" for P and gs :: "(nat \<times> entry_id list) list"
      using that by (induction gs) auto
    from this [OF all] show ?thesis unfolding snd .
  qed
  have bound: "t < length es" if "(t, sources) \<in> set ?groups" for t sources
  proof -
    from that obtain s where "(t, s) \<in> set ?folds" by (force simp: in_group_pairs filter_empty_conv)
    from planned_foldD [OF this] show ?thesis using best_target_Some(1) by blast
  qed
  have targets: "distinct (map fst plan)"
  proof -
    have "distinct (map fst ?groups)" by (rule conjunct1 [OF group_pairs_spec])
    then have d: "distinct (map fst ?kept)" by (rule distinct_map_filter)
    have inj: "inj_on (\<lambda>t. vw_entry_id (es ! t)) (set (map fst ?kept))"
    proof (rule inj_onI)
      fix a b assume "a \<in> set (map fst ?kept)" "b \<in> set (map fst ?kept)" "vw_entry_id (es ! a) = vw_entry_id (es ! b)"
      moreover from this(1,2) have "a < length es" "b < length es" using bound by auto
      ultimately show "a = b" using nth_eq_iff_index_eq [OF assms(1), of a b] by simp
    qed
    show ?thesis unfolding fst by (rule distinct_map [THEN iffD2, OF conjI, OF d inj])
  qed
  have apart: "set (map fst plan) \<inter> set (concat (map snd plan)) = {}"
  proof -
    have "vw_entry_id (es ! t) \<notin> set (concat (map snd ?groups))" if "t \<in> set (map fst ?kept)" for t
      using that by (auto simp del: set_concat)
    then have "set (map fst plan) \<inter> set (concat (map snd ?groups)) = {}"
      unfolding fst set_map [of "\<lambda>t. vw_entry_id (es ! t)"] by blast
    with sub show ?thesis by blast
  qed
  have each: "\<exists>i < length es. \<exists>j < length es.
        s = vw_entry_id (es ! i) \<and> t = vw_entry_id (es ! j) \<and> i \<noteq> j
        \<and> \<not> origin_is_connector (vw_origin (es ! i)) \<and> \<not> origin_is_connector (vw_origin (es ! j))
        \<and> open_posture (vw_visibility (es ! j)) \<and> vw_visibility (es ! i) \<noteq> vw_visibility (es ! j) \<and> vw_visibility (es ! i) \<noteq> Visibility_Public
        \<and> threshold \<le> dot_product (embeddings ! i) (embeddings ! j)
        \<and> (\<forall>k < length es. candidate (\<lambda>j. dot_product (embeddings ! i) (embeddings ! j)) threshold i (es ! i) (k, es ! k) \<longrightarrow>
             at_most (vw_visibility (es ! k) = Visibility_Public, dot_product (embeddings ! i) (embeddings ! k))
               (vw_visibility (es ! j) = Visibility_Public, dot_product (embeddings ! i) (embeddings ! j)))"
    if "(t, sources) \<in> set plan" "s \<in> set sources" for t sources s
  proof -
    from that(1) obtain j where "t = vw_entry_id (es ! j)" "(j, sources) \<in> set ?groups" by (auto simp: plan)
    with that(2) have j: "t = vw_entry_id (es ! j)" "(j, s) \<in> set ?folds" by (auto simp: in_group_pairs)
    from planned_foldD [OF j(2)] obtain i p v where i: "i < length es" "s = vw_entry_id (es ! i)" "\<not> origin_is_connector (vw_origin (es ! i))"
      "best_target es embeddings threshold i (es ! i) = Some (j, p, v)" by blast
    note best = best_target_Some [OF i(4)]
    have "open_posture (vw_visibility (es ! j)) \<and> vw_visibility (es ! i) \<noteq> vw_visibility (es ! j) \<and> vw_visibility (es ! i) \<noteq> Visibility_Public"
      using best(2) by (cases "vw_visibility (es ! i)") (auto simp: candidate_def open_posture_def)
    with i(1-3) j(1) best show ?thesis by (intro exI [of _ i] exI [of _ j] conjI) (auto simp: candidate_def)
  qed
  have "sources \<noteq> []" if planned: "(t, sources) \<in> set plan" for t sources
  proof -
    from planned obtain j where "(j, sources) \<in> set ?groups" by (auto simp: plan)
    then show ?thesis unfolding in_group_pairs by (rule conjunct2)
  qed
  with targets once apart each show ?thesis by blast
qed

end
