(* ===== verification/Maintain_Samples.thy ===== *)
theory Maintain_Samples
  imports Maintain_Cluster_Facts
begin

text \<open>Concrete clusterings: four entries of one memory, in the plane.\<close>

definition told_entry :: "nat \<Rightarrow> teller \<Rightarrow> visibility \<Rightarrow> entry_view" where
  "told_entry i who vis =
     \<lparr>vw_entry_id = EntryId i, vw_asserted_at = 0, vw_occurred_sort = None, vw_occurred_at = None, vw_occurred_authored = False,
      vw_text = ''moved to Leeds'', vw_told_by = who, vw_told_in = None, vw_visibility = vis, vw_superseded_by = None,
      vw_retracted_reason = None, vw_origin = EntryOrigin_Recorded, vw_attestations = []\<rparr>"

text \<open>A confidence, the same fact told openly, the same fact as plain knowledge, and another confidence.\<close>

definition copies :: "entry_view list" where
  "copies =
     [told_entry 1 (Teller_Participant (MemoryId 2)) Visibility_PrivateToTeller,
      told_entry 2 (Teller_Participant (MemoryId 3)) Visibility_Attributed,
      told_entry 3 (Teller_Participant (MemoryId 3)) Visibility_Public,
      told_entry 4 (Teller_Participant (MemoryId 3)) Visibility_PrivateToTeller]"

definition copy_vectors :: "embedding list" where
  "copy_vectors = [[1, 0], [4/5, 3/5], [1, 0], [0, 1]]"

lemma copies_apart: "distinct (map vw_entry_id copies)"
  by (simp add: copies_def told_entry_def)

text \<open>The confidence goes to the public copy and not to the attributed one, which goes there too; the far one stays.\<close>

lemma copies_folded:
  "tier2_absorptions copies copy_vectors (7/10) = [(EntryId 3, [EntryId 1, EntryId 2])]"
  by code_simp

theorem folds_go_to_wider_copies_witness:
  "tier2_absorptions copies copy_vectors (7/10) = [(EntryId 3, [EntryId 1, EntryId 2])]
    \<and> distinct (map fst (tier2_absorptions copies copy_vectors (7/10)))"
  using folds_go_to_wider_copies [OF copies_apart, of copy_vectors "7/10"] copies_folded by blast

text \<open>Complete linkage of three points: the near two first, then the third at the distance of the far pair.\<close>

definition three_vectors :: "embedding list" where
  "three_vectors = [[1, 0], [4/5, 3/5], [0, 1]]"

definition near_first :: "rat list \<Rightarrow> nat \<Rightarrow> merge_step list" where
  "near_first ds n =
     [\<lparr>ms_cluster1 = 0, ms_cluster2 = 1, ms_dissimilarity = ds ! 0\<rparr>,
      \<lparr>ms_cluster1 = 2, ms_cluster2 = 3, ms_dissimilarity = max (ds ! 1) (ds ! 2)\<rparr>]"

lemma near_first_links:
  "complete_linkage (condensed (dissimilarities three_vectors [0, 1, 2]) (length [0, 1, 2 :: nat]))
     (map (\<lambda>a. [a]) [0..<length [0, 1, 2 :: nat]])
     (near_first (dissimilarities three_vectors [0, 1, 2]) (length [0, 1, 2 :: nat]))"
  by code_simp

theorem cluster_pairs_are_close_witness:
  "cluster_within near_first three_vectors [0, 1, 2] (7/10) = Some [[0, 1], [2]]
    \<and> (\<exists>clusters. cluster_within near_first three_vectors [0, 1, 2] (7/10) = Some clusters
         \<and> (\<forall>cluster \<in> set clusters. \<forall>i \<in> set cluster. \<forall>j \<in> set cluster. i \<noteq> j \<longrightarrow>
              7/10 \<le> dot_product (three_vectors ! i) (three_vectors ! j)))"
proof
  show "cluster_within near_first three_vectors [0, 1, 2] (7/10) = Some [[0, 1], [2]]" by code_simp
  show "\<exists>clusters. cluster_within near_first three_vectors [0, 1, 2] (7/10) = Some clusters
         \<and> (\<forall>cluster \<in> set clusters. \<forall>i \<in> set cluster. \<forall>j \<in> set cluster. i \<noteq> j \<longrightarrow>
              7/10 \<le> dot_product (three_vectors ! i) (three_vectors ! j))"
    using cluster_pairs_are_close [where embeddings = three_vectors and linkage = near_first and indices = "[0, 1, 2]" and threshold = "7/10", OF near_first_links]
    by blast
qed

end
