(* ===== verification/Spec2Isabelle.thy ===== *)
theory Spec2Isabelle
  imports Recurrence Store Replay Graph_Facts Graph_Occurrences Graph_Sessions Block_Reading Block_Gaps Turn_Ledger Model_Arbiter Model_Retry Wakeups_Samples Message_Refs Settings Brief_Samples Genesis_Samples Session_Samples Maintain_Samples
begin

text \<open>
  Verification of the memory core of \<^emph>\<open>zuihitsu\<close>, an agent whose memory is an append-only log of
  events. Every state the agent acts on is a projection of that log: a graph of memories, entries, links
  and sessions, kept in SQLite and rebuilt from the log at any time. What the agent may say to whom is
  decided at read time, from the postures of the entries and the people present.

  \<^bold>\<open>Parts and theories.\<close> Paths are relative to \<open>src/\<close>; the core crate is \<open>crates/core/src\<close>.

  \<^item> \<open>Prelude\<close>: results (\<open>'e + 'a\<close>) with \<open>andthen\<close>, \<open>foldM\<close>, \<open>mapM\<close>; strings (\<open>str::trim\<close>, \<open>split_once\<close>,
    \<open>strip_prefix\<close>, decimal printing and parsing); \<open>i64\<close> arithmetic.
  \<^item> \<open>Ids\<close> (\<open>ids.rs\<close>), \<open>Vocabulary\<close> (\<open>vocabulary.rs\<close>), \<open>Temporal\<close> and \<open>Recurrence\<close> (\<open>time/\<close>, \<open>decay.rs\<close>),
    \<open>Events\<close> (\<open>event/\<close>): the data of the log, with the parsers and printers of its columns.
  \<^item> \<open>Store\<close> (\<open>store/mod.rs\<close>, \<open>store/memory.rs\<close>, \<open>src/store/sqlite.rs\<close>): the log. The locale \<open>event_log\<close> is the
    trait \<open>Store\<close> with the laws its comments promise; both backends interpret it.
  \<^item> \<open>Views\<close> (\<open>graph/views.rs\<close>, \<open>graph/error.rs\<close>), \<open>Visibility\<close> and \<open>Markers\<close> (\<open>visibility/\<close>): who may see an entry or
    a link, and the provenance text it carries. The locale \<open>identity\<close> is the injected resolver of
    identity classes.
  \<^item> \<open>Graph_Db\<close> (\<open>graph/schema.sql\<close>): one record per table, one definition per SQL statement with the constraints
    it checks. \<open>Graph_Classes\<close> and \<open>Graph_Apply\<close> (\<open>graph/apply/\<close>): the materializer, one definition per arm,
    and the union-find recomputation of the \<open>same_as\<close> classes.
  \<^item> \<open>Graph_Invariants\<close>, \<open>Graph_Refs\<close>, \<open>Graph_Facts\<close>, \<open>Graph_Identity\<close>: invariants of the projection. The locale
    \<open>projection_invariant\<close> has one law per arm; its interpretations \<open>keys\<close>, \<open>refs\<close>, \<open>facts\<close> and \<open>identity_inv\<close>
    carry an invariant to every graph a log folds to.
  \<^item> \<open>Projection\<close> (what replays guarantee), \<open>Replay\<close> (\<open>graph/mod.rs\<close>: the head and \<open>materialize_from\<close>, over the
    locale \<open>log_projection\<close>, which extends \<open>event_log\<close>), \<open>Sample_Log\<close> (a small log for the concrete instances).
  \<^item> \<open>Graph_Memories\<close>, \<open>Graph_Links\<close>, \<open>Graph_Entries\<close>, \<open>Graph_Occurrences\<close>, \<open>Graph_Sessions\<close>: the reads of the graph,
    one definition per method of the files of \<open>graph/\<close>.
  \<^item> \<open>Block_Core\<close>, \<open>Block_Resolve\<close>, \<open>Block_Reads\<close>, \<open>Block_Writes\<close>, \<open>Block_Attest\<close>, \<open>Block_Links\<close>, \<open>Block_Retract\<close>
    (\<open>src/memory/memory_block/\<close>, with the ranking of \<open>suggest.rs\<close> in \<open>Suggest\<close>): the block transaction, the one way a script of the agent
    reads and writes memory. A method is a function from the block to its result and the block; it reads the
    committed graph and the block's own pending events, and buffers events that the caller commits or discards.
  \<^item> \<open>Block_Policy\<close>: the locale \<open>block_policy\<close>, with one law per kind of event an operation emits, and the step relation
    \<open>block_step\<close> of the calls a script may make, in any order and with any failures; \<open>Block_Trust\<close> interprets the locale
    for the trust rules, the provenance and the append-only buffer. \<open>Block_Facts\<close>, \<open>Block_Reading\<close>: single operations
    against the graph they read. \<open>Block_Gaps\<close>: calls whose effect differs from what the code says it is.
    \<open>Sample_Block\<close>: a small turn for the concrete instances.
  \<^item> \<open>Turn_Ledger\<close> (\<open>src/instance/turn_ledger.rs\<close>, \<open>agent/turn/supersede.rs\<close>), \<open>Model_Arbiter\<close> (\<open>src/model/priority.rs\<close>) and
    \<open>Model_Retry\<close> (\<open>src/model/retry/mod.rs\<close>): the shared state the concurrent turns and background passes meet at. One definition
    per critical section, and a step relation whose moves are the sections of any number of callers in any order.
  \<^item> \<open>Contacts\<close> (\<open>src/memory/identity.rs\<close>, \<open>src/instance/platform/\<close>): how a connector's messages resolve or mint the memories of
    people, scopes and rooms, and what a connector links, projects and writes. The state is the store beside the graph, and the
    locale \<open>contact_store\<close> (on \<open>log_projection\<close>) carries a commit and its fold through both backends. \<open>Wakeups\<close>
    (\<open>src/memory/scheduler.rs\<close> and its callers in \<open>src/instance/\<close>): firing what is due, and raising it as a session opens.
    \<open>Contacts_Samples\<close>, \<open>Wakeups_Samples\<close>: their concrete instances.
  \<^item> \<open>Settings\<close> (\<open>settings.rs\<close>): the tunables with their defaults, and the current ones of a log. \<open>Brief\<close> and \<open>Brief_Compose\<close>
    (\<open>brief/\<close>): the text a session opens with, packed under a character budget, and the trace of its composition; \<open>Brief_Facts\<close>,
    \<open>Brief_Trace\<close>: what it shows and to whom; \<open>Brief_Samples\<close>: instances, and where the code and its comments part.
  \<^item> \<open>Message_Refs\<close> (\<open>message_refs.rs\<close>, \<open>turn_ref.rs\<close>, \<open>mem_ref.rs\<close>): the references a message carries. The scan works on bytes and
    may panic on a slice; a second, lexeme by lexeme, reading of the text carries the proofs.
  \<^item> \<open>Genesis\<close> (\<open>src/agent/genesis/\<close>, \<open>src/agent/templates.rs\<close>, \<open>src/cli/debug/upgrade_prompts.rs\<close>, with \<open>create_agent\<close> and \<open>boot\<close> of
    \<open>src/instance/\<close>): the birth of an agent and the upkeep of its prompts, over any store. \<open>Genesis_Facts\<close> (in \<open>event_log\<close>) and
    \<open>Genesis_Born\<close> (in \<open>log_projection\<close>) carry the proofs, \<open>Genesis_Samples\<close> the properties and their instances.

  \<^item> \<open>Turn_Buffer\<close> (\<open>src/agent/turn/buffer.rs\<close>): the turns a later turn replays as the suffix of its prompt, with the trim of what is
    carried over from the session before; \<open>Turn_Buffer_Facts\<close>: the buffer through the life of a session.
  \<^item> \<open>Session_Life\<close> and \<open>Session_Open\<close> (\<open>src/instance/session/\<close>, \<open>session_store.rs\<close>, the sweeps of \<open>drivers.rs\<close>): a conversation's
    session from its opening, through the flushes of the checkpoint sweep and the arrivals, to its close by a lapse, a recovery or a compaction,
    and a turn up to its first call of the model. A flush and a description catch-up call the model while other tasks run; they are
    functions on the whole state, in the environment record. \<open>Session_Facts\<close>: the locale \<open>session_store\<close> (on \<open>contact_store\<close>),
    interpreted for both backends; \<open>Session_Props\<close>, \<open>Session_Samples\<close>: the properties, their instances and a race.
  \<^item> \<open>Maintain_Cluster\<close> (\<open>src/agent/maintenance/consolidation/clustering/mod.rs\<close>): the vectors, groups, clusters and absorptions of the
    consolidation pass; \<open>Maintain_Cluster_Facts\<close>, \<open>Maintain_Samples\<close>: what it may put together. The clustering crate is an argument with the
    contract \<open>complete_linkage\<close>.

  \<^bold>\<open>What the properties show.\<close> The visibility predicate implements a policy stated without loops or errors, and
  in every graph a log folds to a confidence about a person is hidden from every stub of that person.
  The identity classes are the components of the \<open>same_as\<close> links, whatever the order of merges, unmerges and
  designations; the schema's keys and references hold; a live entry is attested and its occurrence
  bounds are ordered; the fold never loops. The two stores are interchangeable, appends are atomic and read
  back, truncation undoes an append, and catching up equals rebuilding. Reads return exactly the rows they name:
  links under every name of an edge, entries of an identity, due and pending items, sessions, rooms.
  A block writes what its authority lets it write, whatever the script calls; a failed call leaves no events; a read
  withholds what the predicate hides; endorsements never open a confidence, and a consolidation loses no teller.
  Turns of a conversation run one at a time in the order of their batches and their line never stalls; no wake-up of a waiting background
  call is lost; the circuit breaker never wedges, and retries and their delays are bounded.
  A contact is remembered once it is made, a projection lands where it is told to, what is due fires once, and an opening session
  raises the first wake-ups meant for its room and leaves the others; two openings at once may raise one twice.
  A brief shows what its audience may see, names everyone present and keeps to its budget, and its trace tells which facts it shows. A
  scan of a message never panics and loses nothing, and normalizing references is idempotent. A newborn agent folds to its own memory, an interrupted genesis
  resumes, and a boot settles the prompts without touching what an operator wrote. A conversation has one session, a restart within the
  gap continues it under the same prompt, its buffer only grows at the end, what it carries over keeps to the budget, and a checkpoint
  flushes what no flush has seen. A synthesis stays within one audience, the pairs of a cluster are close, and a fold only goes to a copy
  everyone sees.

  \<^bold>\<open>Conventions.\<close> A fallible function returns \<open>error + value\<close>; a step of the projection can also panic or, for the
  one loop whose end is not evident from its text, not return (\<open>fault\<close>): the pointer chase \<open>find_root\<close> is a
  \<open>partial_function\<close>, and \<open>replay_returns\<close> shows that it always ends. Strings are lists of bytes (UTF-8), so
  comparison is by bytes as in SQLite's \<open>BINARY\<close> collation. Sequence numbers are \<open>nat\<close> (a log of \<open>2^63\<close> events is
  out of reach); instants are \<open>int\<close> milliseconds, kept in the range of \<open>jiff\<close> where they are constructed, and
  arithmetic on \<open>i64\<close> is written with its wrap or check. A table is its rows in \<open>rowid\<close> order; a query
  is a filter and a stable sort. ULIDs are the number they encode and JSON columns the value.
  The civil calendar and the representable range of \<open>jiff\<close>, the \<open>serde_json\<close> codec, the text of a ULID and the
  blob digest are arguments (\<open>jiff\<close>, \<open>serde\<close>, \<open>ulid_str\<close>); concrete instances use \<open>gregorian\<close>, the proleptic calendar, and one-payload codecs.

  \<^bold>\<open>Not modelled.\<close> What a failed SQL statement leaves in the tables (the caller drops the graph and rebuilds it),
  full-text ranking (\<open>bm25\<close>), lookups by id prefix, opening and locking database files, snapshots and the
  fingerprint digest; the texts of the block's errors and of the default prompt templates; the agent's turn loop after the preparation of a turn, the calls of its maintenance passes to a model, its Lua interpreter, model and MCP clients, the timers
  of the drivers, the HTTP server, the console, the connectors' wire types and the evaluation harness, which are I/O or drive
  third-party services.
\<close>

end
